(* ===== verification/Sq_Prelude.thy ===== *)
theory Sq_Prelude
  imports Main "HOL-Library.Word" "HOL-Library.Monad_Syntax"
begin

text \<open>
  Shared vocabulary of the Squirrel development: the machine integer types of
  \<^verbatim>\<open>sqconfig.h\<close> on an LP64 platform (where \<^verbatim>\<open>_SQ64\<close> is defined), the collections
  of automation rules used by the component theories, and generic facts about lists,
  words and linked chains that several components rely on.

  Conventions.  A value of type \<open>'a option\<close> returned by an operation that the C++ runs as
  a loop means: \<open>None\<close> when the code does not return (an endless loop or a failed
  \<^verbatim>\<open>assert\<close>), \<open>Some r\<close> when it returns \<open>r\<close>.  Array positions and
  container sizes are naturals (pointer differences such as \<^verbatim>\<open>node - _nodes\<close>); script
  visible integers are 64-bit words.
\<close>

unbundle bit_operations_syntax

subsection \<open>Machine integers (sqconfig.h, LP64)\<close>

type_synonym sqint = "64 word"    \<comment> \<open>\<^verbatim>\<open>SQInteger\<close>, read with \<^term>\<open>sint\<close>\<close>
type_synonym squint = "64 word"   \<comment> \<open>\<^verbatim>\<open>SQUnsignedInteger\<close>, read with \<^term>\<open>unat\<close>\<close>
type_synonym sqhash = "64 word"   \<comment> \<open>\<^verbatim>\<open>SQHash\<close>\<close>
type_synonym sqfloat = "32 word"  \<comment> \<open>\<^verbatim>\<open>SQFloat\<close>: the bits of an IEEE single\<close>
type_synonym sqchar = "8 word"    \<comment> \<open>\<^verbatim>\<open>SQChar\<close>: plain \<^verbatim>\<open>char\<close>\<close>
type_synonym addr = "64 word"     \<comment> \<open>the address of a heap object\<close>

named_theorems sq_simps \<open>equations that evaluate the operations of the model\<close>
named_theorems sq_inv \<open>preservation of component invariants\<close>

subsection \<open>Errors as values\<close>

text \<open>
  An operation that may raise an error returns a sum: \<open>Inl\<close> the error, \<open>Inr\<close> the result.
  \<open>ebind\<close> runs the rest of the code only when there is no error.
\<close>

definition ebind :: "'e + 'a \<Rightarrow> ('a \<Rightarrow> 'e + 'b) \<Rightarrow> 'e + 'b" where
  "ebind m f = (case m of Inl e \<Rightarrow> Inl e | Inr x \<Rightarrow> f x)"

lemma ebind_simps [simp]: "ebind (Inl e) f = Inl e" "ebind (Inr x) f = f x"
  by (simp_all add: ebind_def)

lemma ebind_cong [fundef_cong]:
  "m = m' \<Longrightarrow> (\<And>x. m' = Inr x \<Longrightarrow> f x = f' x) \<Longrightarrow> ebind m f = ebind m' f'"
  by (cases m') auto

lemma ebind_Inr_iff: "ebind m f = Inr y \<longleftrightarrow> (\<exists>x. m = Inr x \<and> f x = Inr y)"
  by (cases m) auto

lemma ebindE: "ebind m f = Inr y \<Longrightarrow> (\<And>x. m = Inr x \<Longrightarrow> f x = Inr y \<Longrightarrow> P) \<Longrightarrow> P"
  by (auto simp: ebind_Inr_iff)

subsection \<open>Lists updated by position\<close>

lemma nth_list_update_if [sq_simps]:
  "i < length xs \<Longrightarrow> (xs[j := x]) ! i = (if i = j then x else xs ! i)"
  by (simp add: nth_list_update)

lemma map_list_update_same:
  "i < length xs \<Longrightarrow> f x = f (xs ! i) \<Longrightarrow> map f (xs[i := x]) = map f xs"
  by (metis list_update_id map_update nth_map)

lemma card_update_true:
  assumes "i < n" "\<not> P i" "\<And>j. j \<noteq> i \<Longrightarrow> Q j = P j" "Q i"
  shows "card {j. j < n \<and> Q j} = Suc (card {j. j < (n::nat) \<and> P j})"
proof -
  have "{j. j < n \<and> Q j} = insert i {j. j < n \<and> P j}"
    using assms by auto (metis)
  moreover have "finite {j. j < n \<and> P j}" by simp
  ultimately show ?thesis using assms by simp
qed

lemma card_le_bound: "card {j. j < (n::nat) \<and> P j} \<le> n"
proof -
  have "card {j. j < n \<and> P j} \<le> card {..<n}" by (rule card_mono) auto
  then show ?thesis by simp
qed

lemma option_eqI: "(\<And>v. a = Some v \<longleftrightarrow> b = Some v) \<Longrightarrow> a = b"
  by (cases a; cases b) auto

lemma find_Some_unique:
  "(\<And>x y. x \<in> set xs \<Longrightarrow> y \<in> set xs \<Longrightarrow> P x \<Longrightarrow> P y \<Longrightarrow> x = y) \<Longrightarrow>
    find P xs = Some x \<longleftrightarrow> x \<in> set xs \<and> P x"
  by (induction xs) auto

lemma in_set_concat_nth:
  "x \<in> set (concat xss) \<longleftrightarrow> (\<exists>i < length xss. x \<in> set (xss ! i))"
  by (auto simp: set_conv_nth [of xss])

subsection \<open>Masking with a power of two\<close>

lemma unat_word_and_mask_less:
  fixes h :: "64 word"
  assumes "n = 2 ^ k"
  shows "unat (h AND (word_of_nat n - 1)) < n"
proof (cases "k < 64")
  case True
  have "h AND (word_of_nat n - 1) = h AND mask k"
    using assms by (simp add: mask_eq_exp_minus_1)
  also have "\<dots> = take_bit k h" by (simp add: take_bit_eq_mask and.commute)
  finally show ?thesis
    using assms True by (simp add: unsigned_take_bit_eq)
next
  case False
  have "unat (h AND (word_of_nat n - 1)) < 2 ^ 64"
    using unsigned_less [of "h AND (word_of_nat n - 1)"] by simp
  also have "(2::nat) ^ 64 \<le> 2 ^ k" using False by (intro power_increasing) auto
  also have "\<dots> = n" using assms by simp
  finally show ?thesis .
qed

subsection \<open>Signed views of 64-bit words\<close>

lemma sint_word_of_int_64: "- (2 ^ 63) \<le> z \<Longrightarrow> z < 2 ^ 63 \<Longrightarrow> sint (word_of_int z :: sqint) = z"
  using signed_take_bit_int_eq_self [of 63 z] by (simp add: signed_of_int)

lemma sint_inject: "sint (a :: sqint) = sint (b :: sqint) \<Longrightarrow> a = b"
  by (drule arg_cong [where f = "word_of_int :: int \<Rightarrow> sqint"]) simp

lemma sint_range_64: "- (2 ^ 63) \<le> sint (a :: sqint)" "sint a < 2 ^ 63"
  using sint_ge [of a] sint_lt [of a] by simp_all

lemma sint_minus_one_iff: "sint (b :: sqint) = - 1 \<longleftrightarrow> b = - 1"
  by (metis sint_n1 sint_inject)

lemma sint_zero_iff: "sint (b :: sqint) = 0 \<longleftrightarrow> b = 0"
  by (metis sint_0 sint_inject)

subsection \<open>Byte strings\<close>

definition bytes_of :: "string \<Rightarrow> sqchar list" where
  "bytes_of s = map of_char s"

text \<open>The decimal numeral of a number, and what \<^verbatim>\<open>printf\<close> writes for \<^verbatim>\<open>%lld\<close>.\<close>

fun dec_digits :: "nat \<Rightarrow> sqchar list" where
  "dec_digits n = (if n < 10 then [word_of_nat (48 + n)] else dec_digits (n div 10) @ [word_of_nat (48 + n mod 10)])"

declare dec_digits.simps [simp del]

definition print_int :: "sqint \<Rightarrow> sqchar list" where
  "print_int i = (if sint i < 0 then 45 # dec_digits (nat (- sint i)) else dec_digits (nat (sint i)))"

end
