(* ===== verification/Sq_Object.thy ===== *)
theory Sq_Object
  imports Sq_Prelude
begin

text \<open>
  The tagged value of the engine (\<^verbatim>\<open>squirrel.h\<close>, \<^verbatim>\<open>sqobject.h\<close>,
  \<^verbatim>\<open>sqobject.cpp\<close>): the type tags and their flag bits, the union
  \<^verbatim>\<open>SQObject\<close> as a datatype with one constructor per tag, its raw 64-bit view,
  type names, index translation and the key hash \<^verbatim>\<open>HashObj\<close> of \<^verbatim>\<open>sqtable.h\<close>.

  The tag and the raw value determine the object (\<open>sqobject_eq_iff\<close>), so the C++ test
  "same raw value and same type" is equality of the datatype.
\<close>

subsection \<open>Type tags\<close>

definition SQOBJECT_REF_COUNTED :: sqint where "SQOBJECT_REF_COUNTED = 0x08000000"
definition SQOBJECT_NUMERIC :: sqint where "SQOBJECT_NUMERIC = 0x04000000"
definition SQOBJECT_DELEGABLE :: sqint where "SQOBJECT_DELEGABLE = 0x02000000"
definition SQOBJECT_CANBEFALSE :: sqint where "SQOBJECT_CANBEFALSE = 0x01000000"
definition RT_MASK :: sqint where "RT_MASK = 0x00FFFFFF"

datatype sqobjtype =
    OT_NULL | OT_INTEGER | OT_FLOAT | OT_BOOL | OT_STRING | OT_TABLE | OT_ARRAY | OT_USERDATA
  | OT_CLOSURE | OT_NATIVECLOSURE | OT_GENERATOR | OT_USERPOINTER | OT_THREAD | OT_FUNCPROTO
  | OT_CLASS | OT_INSTANCE | OT_WEAKREF | OT_OUTER

fun RT :: "sqobjtype \<Rightarrow> sqint" where
  "RT OT_NULL = 0x00000001"
| "RT OT_INTEGER = 0x00000002"
| "RT OT_FLOAT = 0x00000004"
| "RT OT_BOOL = 0x00000008"
| "RT OT_STRING = 0x00000010"
| "RT OT_TABLE = 0x00000020"
| "RT OT_ARRAY = 0x00000040"
| "RT OT_USERDATA = 0x00000080"
| "RT OT_CLOSURE = 0x00000100"
| "RT OT_NATIVECLOSURE = 0x00000200"
| "RT OT_GENERATOR = 0x00000400"
| "RT OT_USERPOINTER = 0x00000800"
| "RT OT_THREAD = 0x00001000"
| "RT OT_FUNCPROTO = 0x00002000"
| "RT OT_CLASS = 0x00004000"
| "RT OT_INSTANCE = 0x00008000"
| "RT OT_WEAKREF = 0x00010000"
| "RT OT_OUTER = 0x00020000"

fun ot_code :: "sqobjtype \<Rightarrow> sqint" where
  "ot_code OT_NULL = (RT OT_NULL OR SQOBJECT_NUMERIC OR SQOBJECT_CANBEFALSE)"
| "ot_code OT_INTEGER = (RT OT_INTEGER OR SQOBJECT_NUMERIC OR SQOBJECT_CANBEFALSE)"
| "ot_code OT_FLOAT = (RT OT_FLOAT OR SQOBJECT_NUMERIC OR SQOBJECT_CANBEFALSE)"
| "ot_code OT_BOOL = (RT OT_BOOL OR SQOBJECT_NUMERIC OR SQOBJECT_CANBEFALSE)"
| "ot_code OT_STRING = (RT OT_STRING OR SQOBJECT_REF_COUNTED)"
| "ot_code OT_TABLE = (RT OT_TABLE OR SQOBJECT_REF_COUNTED OR SQOBJECT_DELEGABLE)"
| "ot_code OT_ARRAY = (RT OT_ARRAY OR SQOBJECT_REF_COUNTED)"
| "ot_code OT_USERDATA = (RT OT_USERDATA OR SQOBJECT_REF_COUNTED OR SQOBJECT_DELEGABLE)"
| "ot_code OT_CLOSURE = (RT OT_CLOSURE OR SQOBJECT_REF_COUNTED)"
| "ot_code OT_NATIVECLOSURE = (RT OT_NATIVECLOSURE OR SQOBJECT_REF_COUNTED)"
| "ot_code OT_GENERATOR = (RT OT_GENERATOR OR SQOBJECT_REF_COUNTED)"
| "ot_code OT_USERPOINTER = RT OT_USERPOINTER"
| "ot_code OT_THREAD = (RT OT_THREAD OR SQOBJECT_REF_COUNTED)"
| "ot_code OT_FUNCPROTO = (RT OT_FUNCPROTO OR SQOBJECT_REF_COUNTED)"
| "ot_code OT_CLASS = (RT OT_CLASS OR SQOBJECT_REF_COUNTED)"
| "ot_code OT_INSTANCE = (RT OT_INSTANCE OR SQOBJECT_REF_COUNTED OR SQOBJECT_DELEGABLE)"
| "ot_code OT_WEAKREF = (RT OT_WEAKREF OR SQOBJECT_REF_COUNTED)"
| "ot_code OT_OUTER = (RT OT_OUTER OR SQOBJECT_REF_COUNTED)"

lemmas ot_flag_defs =
  SQOBJECT_REF_COUNTED_def SQOBJECT_NUMERIC_def SQOBJECT_DELEGABLE_def SQOBJECT_CANBEFALSE_def
  RT_MASK_def

lemma RT_inj: "RT a = RT b \<Longrightarrow> a = b"
  by (cases a; cases b; simp)

lemma ot_code_mask: "ot_code t AND RT_MASK = RT t"
  by (cases t) (simp_all add: ot_flag_defs)

lemma ot_code_inj: "ot_code a = ot_code b \<longleftrightarrow> a = b"
  by (metis RT_inj ot_code_mask)

subsection \<open>The value union\<close>

datatype sqobject =
    ONull
  | OInteger sqint
  | OFloat sqfloat
  | OBool bool
  | OUserPointer "64 word"
  | OString addr | OTable addr | OArray addr | OUserData addr | OClosure addr
  | ONativeClosure addr | OGenerator addr | OThread addr | OFuncProto addr
  | OClass addr | OInstance addr | OWeakRef addr | OOuter addr

fun sq_type :: "sqobject \<Rightarrow> sqobjtype" where
  "sq_type ONull = OT_NULL"
| "sq_type (OInteger _) = OT_INTEGER"
| "sq_type (OFloat _) = OT_FLOAT"
| "sq_type (OBool _) = OT_BOOL"
| "sq_type (OUserPointer _) = OT_USERPOINTER"
| "sq_type (OString _) = OT_STRING"
| "sq_type (OTable _) = OT_TABLE"
| "sq_type (OArray _) = OT_ARRAY"
| "sq_type (OUserData _) = OT_USERDATA"
| "sq_type (OClosure _) = OT_CLOSURE"
| "sq_type (ONativeClosure _) = OT_NATIVECLOSURE"
| "sq_type (OGenerator _) = OT_GENERATOR"
| "sq_type (OThread _) = OT_THREAD"
| "sq_type (OFuncProto _) = OT_FUNCPROTO"
| "sq_type (OClass _) = OT_CLASS"
| "sq_type (OInstance _) = OT_INSTANCE"
| "sq_type (OWeakRef _) = OT_WEAKREF"
| "sq_type (OOuter _) = OT_OUTER"

text \<open>
  \<^verbatim>\<open>_rawval\<close>: the 64-bit word of the union.  \<^verbatim>\<open>SQ_OBJECT_RAWINIT\<close> clears it before a
  32-bit float or a pointer is stored, so the upper half of a float is 0.
\<close>

fun rawval :: "sqobject \<Rightarrow> 64 word" where
  "rawval ONull = 0"
| "rawval (OInteger i) = i"
| "rawval (OFloat f) = ucast f"
| "rawval (OBool b) = (if b then 1 else 0)"
| "rawval (OUserPointer p) = p"
| "rawval (OString p) = p"
| "rawval (OTable p) = p"
| "rawval (OArray p) = p"
| "rawval (OUserData p) = p"
| "rawval (OClosure p) = p"
| "rawval (ONativeClosure p) = p"
| "rawval (OGenerator p) = p"
| "rawval (OThread p) = p"
| "rawval (OFuncProto p) = p"
| "rawval (OClass p) = p"
| "rawval (OInstance p) = p"
| "rawval (OWeakRef p) = p"
| "rawval (OOuter p) = p"

lemma ucast_float_inj [simp]: "(ucast (f::32 word) :: 64 word) = ucast g \<longleftrightarrow> f = g"
proof
  assume "(ucast f :: 64 word) = ucast g"
  then have "(ucast (ucast f :: 64 word) :: 32 word) = ucast (ucast g :: 64 word)" by simp
  then show "f = g" by (simp add: ucast_up_ucast_id is_up)
qed simp

lemma sqobject_eq_iff: "a = b \<longleftrightarrow> rawval a = rawval b \<and> sq_type a = sq_type b"
  by (cases a; cases b; auto split: if_splits)

lemma sq_type_null [simp]: "sq_type k = OT_NULL \<longleftrightarrow> k = ONull"
  by (cases k) auto

definition ISREFCOUNTED :: "sqobjtype \<Rightarrow> bool" where
  "ISREFCOUNTED t \<longleftrightarrow> ot_code t AND SQOBJECT_REF_COUNTED \<noteq> 0"

definition sq_isnumeric :: "sqobject \<Rightarrow> bool" where
  "sq_isnumeric k \<longleftrightarrow> ot_code (sq_type k) AND SQOBJECT_NUMERIC \<noteq> 0"

definition is_delegable :: "sqobject \<Rightarrow> bool" where
  "is_delegable k \<longleftrightarrow> ot_code (sq_type k) AND SQOBJECT_DELEGABLE \<noteq> 0"

definition canbefalse :: "sqobject \<Rightarrow> bool" where
  "canbefalse k \<longleftrightarrow> ot_code (sq_type k) AND SQOBJECT_CANBEFALSE \<noteq> 0"

lemma sq_isnumeric_iff:
  "sq_isnumeric k \<longleftrightarrow> sq_type k \<in> {OT_NULL, OT_INTEGER, OT_FLOAT, OT_BOOL}"
  by (cases k) (simp_all add: sq_isnumeric_def ot_flag_defs)

lemma is_delegable_iff:
  "is_delegable k \<longleftrightarrow> sq_type k \<in> {OT_TABLE, OT_USERDATA, OT_INSTANCE}"
  by (cases k) (simp_all add: is_delegable_def ot_flag_defs)

subsection \<open>Type names (IdType2Name, GetTypeName)\<close>

fun IdType2Name :: "sqobjtype \<Rightarrow> string" where
  "IdType2Name OT_NULL = ''null''"
| "IdType2Name OT_INTEGER = ''integer''"
| "IdType2Name OT_FLOAT = ''float''"
| "IdType2Name OT_BOOL = ''bool''"
| "IdType2Name OT_STRING = ''string''"
| "IdType2Name OT_TABLE = ''table''"
| "IdType2Name OT_ARRAY = ''array''"
| "IdType2Name OT_GENERATOR = ''generator''"
| "IdType2Name OT_CLOSURE = ''function''"
| "IdType2Name OT_NATIVECLOSURE = ''function''"
| "IdType2Name OT_USERDATA = ''userdata''"
| "IdType2Name OT_USERPOINTER = ''userdata''"
| "IdType2Name OT_THREAD = ''thread''"
| "IdType2Name OT_FUNCPROTO = ''function''"
| "IdType2Name OT_CLASS = ''class''"
| "IdType2Name OT_INSTANCE = ''instance''"
| "IdType2Name OT_WEAKREF = ''weakref''"
| "IdType2Name OT_OUTER = ''outer''"

definition GetTypeName :: "sqobject \<Rightarrow> string" where
  "GetTypeName obj1 = IdType2Name (sq_type obj1)"

subsection \<open>Single precision to integer conversion\<close>

text \<open>
  \<^verbatim>\<open>(SQInteger)f\<close> truncates towards zero.  The C++ leaves the result open when the value
  does not fit a 64-bit integer or is not a number; the model takes what the x86-64
  instruction \<^verbatim>\<open>cvttss2si\<close> stores, the smallest integer.
\<close>

definition f32_sign :: "sqfloat \<Rightarrow> bool" where "f32_sign f \<longleftrightarrow> bit f 31"
definition f32_exp :: "sqfloat \<Rightarrow> nat" where "f32_exp f = unat (drop_bit 23 f AND 255)"
definition f32_man :: "sqfloat \<Rightarrow> int" where "f32_man f = uint (f AND 0x7FFFFF)"

definition f32_trunc :: "sqfloat \<Rightarrow> int option" where
  "f32_trunc f =
     (if f32_exp f = 255 then None
      else let m = (if f32_exp f = 0 then f32_man f else f32_man f + 2 ^ 23);
               e = int (max (f32_exp f) 1) - 150;
               a = (if e \<ge> 0 then m * 2 ^ nat e else m div 2 ^ nat (- e))
           in Some (if f32_sign f then - a else a))"

definition float_to_int :: "sqfloat \<Rightarrow> sqint" where
  "float_to_int f =
     (case f32_trunc f of
        Some z \<Rightarrow> if - (2 ^ 63) \<le> z \<and> z < 2 ^ 63 then word_of_int z else 2 ^ 63
      | None \<Rightarrow> 2 ^ 63)"

text \<open>\<^verbatim>\<open>tointeger(num)\<close>: a float is converted, everything else is read as an integer.\<close>

definition tointeger :: "sqobject \<Rightarrow> sqint" where
  "tointeger num = (case num of OFloat f \<Rightarrow> float_to_int f | _ \<Rightarrow> rawval num)"

subsection \<open>Index translation and key hashes\<close>

text \<open>\<^verbatim>\<open>TranslateIndex\<close>: only null and integers are iteration positions; \<open>None\<close> is the
  failed assertion.\<close>

definition TranslateIndex :: "sqobject \<Rightarrow> squint option" where
  "TranslateIndex idx =
     (case idx of ONull \<Rightarrow> Some 0 | OInteger i \<Rightarrow> Some i | _ \<Rightarrow> None)"

definition hashptr :: "64 word \<Rightarrow> sqhash" where
  "hashptr p = signed_drop_bit 3 p"

text \<open>\<^verbatim>\<open>HashObj\<close>; \<open>strhash p\<close> is the field \<^verbatim>\<open>_hash\<close> of the string object at \<open>p\<close>.\<close>

definition HashObj :: "(addr \<Rightarrow> sqhash) \<Rightarrow> sqobject \<Rightarrow> sqhash" where
  "HashObj strhash key =
     (case key of
        OString p \<Rightarrow> strhash p
      | OFloat f \<Rightarrow> float_to_int f
      | OBool b \<Rightarrow> rawval key
      | OInteger i \<Rightarrow> i
      | _ \<Rightarrow> hashptr (rawval key))"

end
