(* ===== verification/Sq_Chain.thy ===== *)
theory Sq_Chain
  imports Sq_Prelude
begin

text \<open>
  Chained scatter tables in an array, independently of the program's records: a position
  \<open>i\<close> holds a key \<open>ky i\<close> (\<open>null\<close> when it holds none) and may point to a
  next position \<open>nx i\<close>; a key's search starts at its main position \<open>mp\<close>.  The
  invariant \<open>scatter\<close> and the three ways in which \<^verbatim>\<open>SQTable::NewSlot\<close> places a key
  (free main position, free position appended to the chain, relocation of a colliding
  key) are proved here once; \<^verbatim>\<open>Sq_Table\<close> instantiates them.
\<close>

definition link :: "(nat \<Rightarrow> nat option) \<Rightarrow> nat \<Rightarrow> nat \<Rightarrow> bool" where
  "link nx i j \<longleftrightarrow> nx i = Some j"

abbreviation reach :: "(nat \<Rightarrow> nat option) \<Rightarrow> nat \<Rightarrow> nat \<Rightarrow> bool" where
  "reach nx \<equiv> rtranclp (link nx)"

lemma reach_None: "nx i = None \<Longrightarrow> reach nx i j \<longleftrightarrow> i = j"
  by (auto simp: link_def elim: converse_rtranclpE)

lemma reach_target: "reach nx i j \<Longrightarrow> i \<noteq> j \<Longrightarrow> \<exists>p. nx p = Some j"
  by (erule rtranclp.cases) (auto simp: link_def)

text \<open>
  \<open>scatter n L null nx ky mp\<close>: all links stay below \<open>n\<close> and lead to positions from
  \<open>L\<close> on, a position has at most one predecessor, the links are acyclic, every key is
  reached from its main position, keys are distinct, and a position holding a key away
  from that key's main position is no key's main position.
\<close>

definition scatter ::
  "nat \<Rightarrow> nat \<Rightarrow> 'k \<Rightarrow> (nat \<Rightarrow> nat option) \<Rightarrow> (nat \<Rightarrow> 'k) \<Rightarrow> ('k \<Rightarrow> nat) \<Rightarrow> bool" where
  "scatter n L null nx ky mp \<longleftrightarrow>
     (\<forall>i j. nx i = Some j \<longrightarrow> i < n \<and> j < n \<and> L \<le> j) \<and>
     (\<forall>i i' j. nx i = Some j \<longrightarrow> nx i' = Some j \<longrightarrow> i = i') \<and>
     (\<exists>rk :: nat \<Rightarrow> nat. \<forall>i j. nx i = Some j \<longrightarrow> rk j < rk i) \<and>
     (\<forall>i. ky i \<noteq> null \<longrightarrow> i < n \<and> reach nx (mp (ky i)) i) \<and>
     (\<forall>i j. ky i = ky j \<longrightarrow> ky i \<noteq> null \<longrightarrow> i = j) \<and>
     (\<forall>i j. ky i \<noteq> null \<longrightarrow> mp (ky i) \<noteq> i \<longrightarrow> ky j \<noteq> null \<longrightarrow> mp (ky j) \<noteq> i)"

lemma scatterD:
  assumes "scatter n L null nx ky mp"
  shows "\<And>i j. nx i = Some j \<Longrightarrow> i < n \<and> j < n \<and> L \<le> j"
    and "\<And>i i' j. nx i = Some j \<Longrightarrow> nx i' = Some j \<Longrightarrow> i = i'"
    and "\<exists>rk :: nat \<Rightarrow> nat. \<forall>i j. nx i = Some j \<longrightarrow> rk j < rk i"
    and "\<And>i. ky i \<noteq> null \<Longrightarrow> i < n \<and> reach nx (mp (ky i)) i"
    and "\<And>i j. ky i = ky j \<Longrightarrow> ky i \<noteq> null \<Longrightarrow> i = j"
    and "\<And>i j. ky i \<noteq> null \<Longrightarrow> mp (ky i) \<noteq> i \<Longrightarrow> ky j \<noteq> null \<Longrightarrow> mp (ky j) \<noteq> i"
proof -
  note A = assms [unfolded scatter_def]
  show "\<And>i j. nx i = Some j \<Longrightarrow> i < n \<and> j < n \<and> L \<le> j" using A by blast
  show "\<And>i i' j. nx i = Some j \<Longrightarrow> nx i' = Some j \<Longrightarrow> i = i'" using A by blast
  show "\<exists>rk :: nat \<Rightarrow> nat. \<forall>i j. nx i = Some j \<longrightarrow> rk j < rk i" using A by blast
  show "\<And>i. ky i \<noteq> null \<Longrightarrow> i < n \<and> reach nx (mp (ky i)) i" using A by blast
  show "\<And>i j. ky i = ky j \<Longrightarrow> ky i \<noteq> null \<Longrightarrow> i = j" using A by blast
  show "\<And>i j. ky i \<noteq> null \<Longrightarrow> mp (ky i) \<noteq> i \<Longrightarrow> ky j \<noteq> null \<Longrightarrow> mp (ky j) \<noteq> i"
    using A by blast
qed

lemma scatterI:
  assumes "\<And>i j. nx i = Some j \<Longrightarrow> i < n \<and> j < n \<and> L \<le> j"
    and "\<And>i i' j. nx i = Some j \<Longrightarrow> nx i' = Some j \<Longrightarrow> i = i'"
    and "\<exists>rk :: nat \<Rightarrow> nat. \<forall>i j. nx i = Some j \<longrightarrow> rk j < rk i"
    and "\<And>i. ky i \<noteq> null \<Longrightarrow> i < n \<and> reach nx (mp (ky i)) i"
    and "\<And>i j. ky i = ky j \<Longrightarrow> ky i \<noteq> null \<Longrightarrow> i = j"
    and "\<And>i j. ky i \<noteq> null \<Longrightarrow> mp (ky i) \<noteq> i \<Longrightarrow> ky j \<noteq> null \<Longrightarrow> mp (ky j) \<noteq> i"
  shows "scatter n L null nx ky mp"
  unfolding scatter_def using assms by (intro conjI allI impI) blast+

lemma scatter_weaken: "scatter n L null nx ky mp \<Longrightarrow> L' \<le> L \<Longrightarrow> scatter n L' null nx ky mp"
  unfolding scatter_def by (elim conjE, intro conjI) (blast intro: le_trans, assumption+)

lemma scatter_empty: "scatter n L null (\<lambda>_. None) (\<lambda>_. null) mp"
  by (simp add: scatter_def)

text \<open>Removing keys (the links stay) keeps the invariant.\<close>

lemma scatter_remove:
  "scatter n L null nx ky mp \<Longrightarrow> scatter n L null nx (ky(i := null)) mp"
  by (rule scatterI) (use scatterD [of n L null nx ky mp] in \<open>auto split: if_splits\<close>)

text \<open>A free position (no key, no next) is the main position of no stored key.\<close>

lemma scatter_free_not_main:
  assumes "scatter n L null nx ky mp" "ky f = null" "nx f = None" "ky j \<noteq> null"
  shows "mp (ky j) \<noteq> f"
proof
  assume "mp (ky j) = f"
  with assms scatterD(4) [OF assms(1), of j] have "reach nx f j" by simp
  with assms(3) have "f = j" by (simp add: reach_None)
  with assms show False by simp
qed

subsection \<open>Placing a key on its free main position\<close>

lemma scatter_place_main:
  assumes inv: "scatter n L null nx ky mp" and h: "h < n" "ky h = null"
    and k: "k \<noteq> null" "mp k = h" "\<And>i. ky i \<noteq> k"
  shows "scatter n L null nx (ky(h := k)) mp"
proof (rule scatterI)
  note D = scatterD [OF inv]
  show "\<exists>rk :: nat \<Rightarrow> nat. \<forall>i j. nx i = Some j \<longrightarrow> rk j < rk i" by (rule D(3))
  fix i j i'
  show "nx i = Some j \<Longrightarrow> i < n \<and> j < n \<and> L \<le> j" by (rule D(1))
  show "nx i = Some j \<Longrightarrow> nx i' = Some j \<Longrightarrow> i = i'" by (rule D(2))
  show "(ky(h := k)) i \<noteq> null \<Longrightarrow> i < n \<and> reach nx (mp ((ky(h := k)) i)) i"
    using D(4) [of i] h k by (auto split: if_splits)
  show "(ky(h := k)) i = (ky(h := k)) j \<Longrightarrow> (ky(h := k)) i \<noteq> null \<Longrightarrow> i = j"
    using D(5) [of i j] k(3) [of i] k(3) [of j] by (auto split: if_splits)
  assume a: "(ky(h := k)) i \<noteq> null" "mp ((ky(h := k)) i) \<noteq> i" "(ky(h := k)) j \<noteq> null"
  then have "i \<noteq> h" using k by auto
  with a k h D(6) [of i j] show "mp ((ky(h := k)) j) \<noteq> i" by (auto split: if_splits)
qed

subsection \<open>Chaining a free position behind the main position\<close>

lemma reach_insert_after:
  assumes "nx f = None" "reach nx a b"
  shows "reach (nx(f := nx h, h := Some f)) a b"
  using assms(2)
proof (induction rule: rtranclp_induct)
  case base
  show ?case by simp
next
  case (step b c)
  let ?nx = "nx(f := nx h, h := Some f)"
  have bc: "nx b = Some c" using step.hyps(2) by (simp add: link_def)
  have "reach ?nx b c"
  proof (cases "b = h")
    case True
    have "link ?nx h f" by (simp add: link_def)
    moreover have "h \<noteq> f \<Longrightarrow> link ?nx f c" using bc True by (simp add: link_def)
    moreover have "h \<noteq> f" using bc True assms(1) by auto
    ultimately show ?thesis
      unfolding True by (meson converse_rtranclp_into_rtranclp r_into_rtranclp)
  next
    case False
    then have "link ?nx b c" using bc assms(1) by (auto simp: link_def)
    then show ?thesis by (rule r_into_rtranclp)
  qed
  then show ?case by (rule rtranclp_trans [OF step.IH])
qed

lemma scatter_place_chained:
  assumes inv: "scatter n (Suc f) null nx ky mp" and f: "f < n" "ky f = null" "nx f = None"
    and h: "h < n" "ky h \<noteq> null" "mp (ky h) = h"
    and k: "k \<noteq> null" "mp k = h" "\<And>i. ky i \<noteq> k"
  shows "scatter n f null (nx(f := nx h, h := Some f)) (ky(f := k)) mp"
  unfolding scatter_def
proof (intro conjI allI impI)
  let ?nx = "nx(f := nx h, h := Some f)"
  have hf: "h \<noteq> f" using h f by auto
  note D = scatterD [OF inv]
  have tgt: "nx i \<noteq> Some f" for i using D(1) [of i f] by auto
  show "\<exists>rk :: nat \<Rightarrow> nat. \<forall>i j. ?nx i = Some j \<longrightarrow> rk j < rk i"
  proof -
    obtain rk :: "nat \<Rightarrow> nat" where rk: "\<forall>i j. nx i = Some j \<longrightarrow> rk j < rk i" using D(3) by auto
    let ?rk = "\<lambda>i. if i = f then 2 * rk h else 2 * rk i + 1"
    have "?rk j < ?rk i" if "?nx i = Some j" for i j
    proof -
      have "j = f \<and> i = h \<or> j \<noteq> f \<and> i = f \<and> nx h = Some j \<or> j \<noteq> f \<and> i \<noteq> f \<and> nx i = Some j"
        using that hf tgt by (auto split: if_splits)
      then show ?thesis using rk hf by fastforce
    qed
    then show ?thesis by (intro exI [of _ ?rk]) blast
  qed
  fix i j i'
  show "?nx i = Some j \<Longrightarrow> i < n" "?nx i = Some j \<Longrightarrow> j < n" "?nx i = Some j \<Longrightarrow> f \<le> j"
    using D(1) [of i j] D(1) [of h j] f h by (auto split: if_splits)
  show "?nx i = Some j \<Longrightarrow> ?nx i' = Some j \<Longrightarrow> i = i'"
    using D(2) [of i j i'] D(2) [of h j i'] D(2) [of h j i] tgt hf by (auto split: if_splits)
  show "(ky(f := k)) i \<noteq> null \<Longrightarrow> i < n" using D(4) [of i] f by (auto split: if_splits)
  show "(ky(f := k)) i = (ky(f := k)) j \<Longrightarrow> (ky(f := k)) i \<noteq> null \<Longrightarrow> i = j"
    using D(5) [of i j] k(3) [of i] k(3) [of j] by (auto split: if_splits)
  assume a: "(ky(f := k)) i \<noteq> null"
  show "reach ?nx (mp ((ky(f := k)) i)) i"
  proof (cases "i = f")
    case True
    have "link ?nx h f" by (simp add: link_def)
    with True k show ?thesis by simp
  next
    case False
    with a D(4) [of i] show ?thesis using reach_insert_after [of nx f] f(3) by auto
  qed
  assume b: "mp ((ky(f := k)) i) \<noteq> i" and c: "(ky(f := k)) j \<noteq> null"
  show "mp ((ky(f := k)) j) \<noteq> i"
  proof (cases "i = f")
    case True
    then show ?thesis
      using c hf k scatter_free_not_main [OF inv f(2,3), of j] by (auto split: if_splits)
  next
    case False
    with a b have "i \<noteq> h" using h by auto
    with a b c False D(6) [of i j] k show ?thesis by (auto split: if_splits)
  qed
qed

subsection \<open>Relocating a key that is away from its main position\<close>

lemma reach_relocate:
  assumes inv: "scatter n L null nx ky mp" and f: "nx f = None"
    and p: "nx p = Some h" and r: "reach nx a b" and a: "a \<noteq> h"
  shows "reach (nx(p := Some f, f := nx h, h := None)) a (if b = h then f else b)"
  using r
proof (induction rule: rtranclp_induct)
  case base
  with a show ?case by simp
next
  case (step b c)
  let ?nx = "nx(p := Some f, f := nx h, h := None)"
  have bc: "nx b = Some c" using step.hyps(2) by (simp add: link_def)
  have irrefl: "nx x \<noteq> Some x" for x using scatterD(3) [OF inv] by (metis less_irrefl_nat)
  have pf: "p \<noteq> f" "p \<noteq> h" "b \<noteq> f" using p f bc irrefl by auto
  have "link ?nx (if b = h then f else b) (if c = h then f else c)"
  proof (cases "b = h")
    case True
    then have "c \<noteq> h" "h \<noteq> f" using bc irrefl f by auto
    with True bc show ?thesis by (simp add: link_def)
  next
    case False
    show ?thesis
    proof (cases "c = h")
      case True
      then have "b = p" using scatterD(2) [OF inv] bc p by simp
      with False True pf show ?thesis by (simp add: link_def)
    next
      case False2: False
      then have "b \<noteq> p" using bc p by auto
      with False False2 pf bc show ?thesis by (simp add: link_def)
    qed
  qed
  then show ?case by (rule rtranclp.rtrancl_into_rtrancl [OF step.IH])
qed

lemma scatter_relocate:
  assumes inv: "scatter n (Suc f) null nx ky mp" and f: "f < n" "ky f = null" "nx f = None"
    and h: "h < n" "ky h \<noteq> null" "mp (ky h) \<noteq> h" and p: "nx p = Some h"
    and k: "k \<noteq> null" "mp k = h" "\<And>i. ky i \<noteq> k"
  shows "scatter n f null (nx(p := Some f, f := nx h, h := None)) (ky(f := ky h, h := k)) mp"
  unfolding scatter_def
proof (intro conjI allI impI)
  let ?nx = "nx(p := Some f, f := nx h, h := None)" and ?ky = "ky(f := ky h, h := k)"
  note D = scatterD [OF inv]
  have irrefl: "nx x \<noteq> Some x" for x using D(3) by (metis less_irrefl_nat)
  have tgt: "nx i \<noteq> Some f" for i using D(1) [of i f] by auto
  have ne: "h \<noteq> f" "p \<noteq> f" "p \<noteq> h" using h f p irrefl by auto
  have link_cases: "i = p \<and> j = f \<or> i = f \<and> nx h = Some j \<and> j \<noteq> f \<or>
      i \<noteq> p \<and> i \<noteq> f \<and> i \<noteq> h \<and> nx i = Some j \<and> j \<noteq> f" if "?nx i = Some j" for i j
    using that ne tgt by (auto split: if_splits)
  show "\<exists>rk :: nat \<Rightarrow> nat. \<forall>i j. ?nx i = Some j \<longrightarrow> rk j < rk i"
  proof -
    obtain rk :: "nat \<Rightarrow> nat" where rk: "\<forall>i j. nx i = Some j \<longrightarrow> rk j < rk i" using D(3) by auto
    have "(rk(f := rk h)) j < (rk(f := rk h)) i" if "?nx i = Some j" for i j
      using link_cases [OF that] rk p ne by auto
    then show ?thesis by blast
  qed
  fix i j i'
  show "?nx i = Some j \<Longrightarrow> i < n" "?nx i = Some j \<Longrightarrow> j < n" "?nx i = Some j \<Longrightarrow> f \<le> j"
    using link_cases [of i j] D(1) [of i j] D(1) [of h j] D(1) [OF p] f by auto
  show "?nx i = Some j \<Longrightarrow> ?nx i' = Some j \<Longrightarrow> i = i'"
    using link_cases [of i j] link_cases [of i' j] D(2) [of _ j] by blast
  show "?ky i \<noteq> null \<Longrightarrow> i < n" using D(4) [of i] f h by (auto split: if_splits)
  show "?ky i = ?ky j \<Longrightarrow> ?ky i \<noteq> null \<Longrightarrow> i = j"
    using D(5) [of i j] D(5) [of h j] D(5) [of i h] k(3) [of i] k(3) [of j] k(3) [of h]
    by (auto split: if_splits)
  have notmain: "ky j \<noteq> null \<Longrightarrow> mp (ky j) \<noteq> h" for j using D(6) [OF h(2,3)] by simp
  assume a: "?ky i \<noteq> null"
  have R: "reach nx a b \<Longrightarrow> a \<noteq> h \<Longrightarrow> reach ?nx a (if b = h then f else b)" for a b
    by (rule reach_relocate [OF inv f(3) p])
  show "reach ?nx (mp (?ky i)) i"
  proof (cases "i = h \<or> i = f")
    case True
    then show ?thesis using R [of "mp (ky h)" h] D(4) [of h] h k by auto
  next
    case False
    then have "ky i \<noteq> null" using a by auto
    with False show ?thesis using R [of "mp (ky i)" i] D(4) [of i] notmain [of i] by auto
  qed
  assume b: "mp (?ky i) \<noteq> i" and c: "?ky j \<noteq> null"
  have ih: "i \<noteq> h" using b k by auto
  have freej: "ky j \<noteq> null \<Longrightarrow> mp (ky j) \<noteq> f" "mp (ky h) \<noteq> f"
    using scatter_free_not_main [OF inv f(2,3)] h by auto
  show "mp (?ky j) \<noteq> i"
  proof (cases "i = f")
    case True
    then show ?thesis using c freej k ne by (auto split: if_splits)
  next
    case False
    with ih a b have "ky i \<noteq> null" "mp (ky i) \<noteq> i" by auto
    then show ?thesis using c k ih D(6) [of i j] D(6) [of i h] h by (auto split: if_splits)
  qed
qed

end
