(* ===== verification/Sq_Interfaces.thy ===== *)
theory Sq_Interfaces
  imports Sq_Prelude
begin

text \<open>
  Interfaces between components, as locales.  \<open>kv_store\<close> is what the users of a
  \<^verbatim>\<open>SQTable\<close> (the lexer's keyword table, the metamethod map, the default delegates,
  class member tables) rely on: inserting a valid key returns, keeps the provider's
  invariant and updates the looked-up map at that key only.
\<close>

locale kv_store =
  fixes invar :: "'t \<Rightarrow> bool"
    and valid :: "'k \<Rightarrow> bool"
    and lookup :: "'t \<Rightarrow> 'k \<rightharpoonup> 'v"
    and insert :: "'t \<Rightarrow> 'k \<Rightarrow> 'v \<Rightarrow> 't option"
  assumes insert_ok: "invar t \<Longrightarrow> valid k \<Longrightarrow>
      \<exists>t'. insert t k v = Some t' \<and> invar t' \<and> lookup t' = (lookup t)(k \<mapsto> v)"
begin

text \<open>A sequence of insertions, as the initialisation code of the clients runs it.\<close>

fun insert_all :: "'t \<Rightarrow> ('k \<times> 'v) list \<Rightarrow> 't option" where
  "insert_all t [] = Some t"
| "insert_all t ((k, v) # kvs) = do { t' \<leftarrow> insert t k v; insert_all t' kvs }"

lemma insert_all_ok:
  assumes "invar t" "\<forall>(k, v) \<in> set kvs. valid k"
  shows "\<exists>t'. insert_all t kvs = Some t' \<and> invar t' \<and> lookup t' = lookup t ++ map_of (rev kvs)"
  using assms
proof (induction kvs arbitrary: t)
  case Nil
  then show ?case by simp
next
  case (Cons kv kvs)
  obtain k v where kv: "kv = (k, v)" by (cases kv)
  with Cons.prems insert_ok obtain t1
    where t1: "insert t k v = Some t1" "invar t1" "lookup t1 = (lookup t)(k \<mapsto> v)"
    by (metis (no_types, lifting) case_prodD list.set_intros(1))
  with Cons obtain t' where "insert_all t1 kvs = Some t'" "invar t'"
    "lookup t' = lookup t1 ++ map_of (rev kvs)"
    by (metis list.set_intros(2))
  with t1 kv show ?case by (auto simp: map_add_def fun_eq_iff split: option.splits)
qed

lemma insert_all_distinct:
  assumes "invar t" "\<forall>(k, v) \<in> set kvs. valid k" "distinct (map fst kvs)" "(k, v) \<in> set kvs"
  shows "\<exists>t'. insert_all t kvs = Some t' \<and> invar t' \<and> lookup t' k = Some v"
proof -
  have "map_of (rev kvs) k = Some v"
    using assms by (simp add: rev_map [symmetric])
  with insert_all_ok [OF assms(1,2)] show ?thesis by (force simp: map_add_def)
qed

end

text \<open>A store whose keys can also be deleted and which tells its size.\<close>

locale kv_store_del = kv_store invar valid lookup insert
  for invar :: "'t \<Rightarrow> bool" and valid :: "'k \<Rightarrow> bool"
    and lookup :: "'t \<Rightarrow> 'k \<rightharpoonup> 'v" and insert :: "'t \<Rightarrow> 'k \<Rightarrow> 'v \<Rightarrow> 't option" +
  fixes delete :: "'t \<Rightarrow> 'k \<Rightarrow> 't option"
    and count :: "'t \<Rightarrow> int"
  assumes delete_ok: "invar t \<Longrightarrow> valid k \<Longrightarrow>
      \<exists>t'. delete t k = Some t' \<and> invar t' \<and> lookup t' = (lookup t)(k := None)"
    and count_ok: "invar t \<Longrightarrow> finite (dom (lookup t)) \<and> count t = int (card (dom (lookup t)))"
begin

lemma insert_delete:
  assumes "invar t" "valid k" "lookup t k = None"
  shows "\<exists>t1 t2. insert t k v = Some t1 \<and> delete t1 k = Some t2 \<and> invar t2 \<and>
      lookup t2 = lookup t \<and> count t2 = count t"
proof -
  obtain t1 where t1: "insert t k v = Some t1" "invar t1" "lookup t1 = (lookup t)(k \<mapsto> v)"
    using insert_ok [OF assms(1,2)] by metis
  obtain t2 where t2: "delete t1 k = Some t2" "invar t2" "lookup t2 = (lookup t1)(k := None)"
    using delete_ok [OF t1(2) assms(2)] by metis
  have "lookup t2 = lookup t" using t1 t2 assms(3) by auto
  with t1 t2 count_ok assms(1) show ?thesis by auto
qed

lemma count_insert:
  assumes "invar t" "valid k" "insert t k v = Some t'"
  shows "count t' = (if lookup t k = None then count t + 1 else count t)"
proof -
  have "invar t'" "lookup t' = (lookup t)(k \<mapsto> v)"
    using insert_ok [OF assms(1,2), of v] assms(3) by auto
  with count_ok [of t] count_ok [of t'] assms(1) show ?thesis
    by (auto simp: insert_absorb domIff card_insert_if)
qed

end

text \<open>
  \<open>growable\<close> is what the users of \<^verbatim>\<open>sqvector\<close> rely on: the stored elements are a
  list, \<open>push\<close> and \<open>pop\<close> work at its end, \<open>resize\<close> cuts or pads it, and every
  operation keeps the size within the allocation.
\<close>

locale growable =
  fixes ok :: "'v \<Rightarrow> bool"
    and elems :: "'v \<Rightarrow> 'a list"
    and push :: "'v \<Rightarrow> 'a \<Rightarrow> 'v"
    and pop :: "'v \<Rightarrow> 'v option"
    and resize :: "'v \<Rightarrow> nat \<Rightarrow> 'a \<Rightarrow> 'v"
  assumes push_ok: "ok v \<Longrightarrow> ok (push v x) \<and> elems (push v x) = elems v @ [x]"
    and pop_ok: "ok v \<Longrightarrow> elems v \<noteq> [] \<Longrightarrow>
        \<exists>v'. pop v = Some v' \<and> ok v' \<and> elems v' = butlast (elems v)"
    and resize_ok: "ok v \<Longrightarrow> ok (resize v n x) \<and>
        elems (resize v n x) = take n (elems v) @ replicate (n - length (elems v)) x"
begin

lemma push_all_ok:
  "ok v \<Longrightarrow> ok (fold (\<lambda>x v. push v x) xs v) \<and> elems (fold (\<lambda>x v. push v x) xs v) = elems v @ xs"
  by (induction xs arbitrary: v) (auto simp: push_ok)

lemma pop_push: "ok v \<Longrightarrow> map_option elems (pop (push v x)) = Some (elems v)"
  using pop_ok [of "push v x"] push_ok [of v x] by auto

lemma clear_push_all: "ok v \<Longrightarrow> elems (fold (\<lambda>x v. push v x) xs (resize v 0 y)) = xs"
  using push_all_ok [of "resize v 0 y" xs] resize_ok [of v 0 y] by simp

end

text \<open>
  \<open>interner\<close> is the contract of the string table: equal keys get one pointer, distinct
  live keys get distinct pointers, and a released key is forgotten.  \<open>intern a k\<close> may use
  the fresh address \<open>a\<close>.
\<close>

datatype ('a, 'k) intern_op = Intern 'a 'k | Drop 'k

fun intern_run ::
  "('a \<Rightarrow> 'k \<Rightarrow> 't \<Rightarrow> 'a \<times> 't) \<Rightarrow> ('k \<Rightarrow> 't \<Rightarrow> 't option) \<Rightarrow> ('a, 'k) intern_op list \<Rightarrow> 't \<Rightarrow>
    ('a list \<times> 't) option" where
  "intern_run ins rel [] t = Some ([], t)"
| "intern_run ins rel (Intern a k # ps) t =
     (let (p, t1) = ins a k t in map_option (\<lambda>(ptrs, t2). (p # ptrs, t2)) (intern_run ins rel ps t1))"
| "intern_run ins rel (Drop k # ps) t = do { t1 \<leftarrow> rel k t; intern_run ins rel ps t1 }"

definition map_intern :: "'a \<Rightarrow> 'k \<Rightarrow> ('k \<rightharpoonup> 'a) \<Rightarrow> 'a \<times> ('k \<rightharpoonup> 'a)" where
  "map_intern a k m = (case m k of Some p \<Rightarrow> (p, m) | None \<Rightarrow> (a, m(k \<mapsto> a)))"

definition map_drop :: "'k \<Rightarrow> ('k \<rightharpoonup> 'a) \<Rightarrow> ('k \<rightharpoonup> 'a) option" where
  "map_drop k m = Some (m(k := None))"

text \<open>Every address offered for a new key is unused at that moment.\<close>

fun fresh_run :: "('a, 'k) intern_op list \<Rightarrow> ('k \<rightharpoonup> 'a) \<Rightarrow> bool" where
  "fresh_run [] m = True"
| "fresh_run (Intern a k # ps) m =
     ((m k = None \<longrightarrow> a \<notin> ran m) \<and> fresh_run ps (snd (map_intern a k m)))"
| "fresh_run (Drop k # ps) m = fresh_run ps (m(k := None))"

locale interner =
  fixes invar :: "'t \<Rightarrow> bool"
    and lookup :: "'t \<Rightarrow> 'k \<rightharpoonup> 'a"
    and intern :: "'a \<Rightarrow> 'k \<Rightarrow> 't \<Rightarrow> 'a \<times> 't"
    and release :: "'k \<Rightarrow> 't \<Rightarrow> 't option"
  assumes intern_ok: "invar t \<Longrightarrow> (lookup t k = None \<Longrightarrow> a \<notin> ran (lookup t)) \<Longrightarrow>
        invar (snd (intern a k t)) \<and>
        (fst (intern a k t), lookup (snd (intern a k t))) = map_intern a k (lookup t)"
    and release_ok: "invar t \<Longrightarrow> \<exists>t'. release k t = Some t' \<and> invar t' \<and> lookup t' = (lookup t)(k := None)"
    and lookup_inj: "invar t \<Longrightarrow> inj_on (lookup t) (dom (lookup t))"
begin

lemma run_ok:
  "invar t \<Longrightarrow> fresh_run ps (lookup t) \<Longrightarrow>
    \<exists>ptrs t'. intern_run intern release ps t = Some (ptrs, t') \<and> invar t' \<and>
      intern_run map_intern map_drop ps (lookup t) = Some (ptrs, lookup t')"
proof (induction ps arbitrary: t)
  case Nil
  then show ?case by simp
next
  case (Cons p ps)
  show ?case
  proof (cases p)
    case (Intern a k)
    with Cons.prems intern_ok [of t k a]
    have 1: "invar (snd (intern a k t))" 
      "map_intern a k (lookup t) = (fst (intern a k t), lookup (snd (intern a k t)))" by auto
    with Cons.prems Intern have "fresh_run ps (lookup (snd (intern a k t)))" by simp
    with Cons.IH [OF 1(1)] Intern 1 show ?thesis by (auto simp: Let_def case_prod_beta)
  next
    case (Drop k)
    obtain t1 where 1: "release k t = Some t1" "invar t1" "lookup t1 = (lookup t)(k := None)"
      using release_ok Cons.prems by metis
    with Cons.prems Drop have "fresh_run ps (lookup t1)" by simp
    with Cons.IH [OF 1(2)] obtain ptrs t' where
      "intern_run intern release ps t1 = Some (ptrs, t')" "invar t'"
      "intern_run map_intern map_drop ps (lookup t1) = Some (ptrs, lookup t')" by blast
    with Drop 1 map_drop_def [of k "lookup t"] show ?thesis by simp
  qed
qed

lemma same_pointer_iff:
  "invar t \<Longrightarrow> lookup t k = Some p \<Longrightarrow> lookup t k' = Some p' \<Longrightarrow> p = p' \<longleftrightarrow> k = k'"
  using lookup_inj [of t] by (auto simp: inj_on_def dom_def)

end

text \<open>
  \<open>byte_channel\<close> is what serialisation relies on: the write callback appends at the end and
  returns the number of bytes, the read callback returns the next bytes, or fewer than asked
  when they run out.  \<open>cap\<close> bounds the bytes the channel holds.
\<close>

locale byte_channel =
  fixes ok :: "'c \<Rightarrow> bool"
    and written :: "'c \<Rightarrow> sqchar list"
    and pending :: "'c \<Rightarrow> sqchar list"
    and wr :: "sqchar list \<Rightarrow> 'c \<Rightarrow> 'c \<times> int"
    and rd :: "int \<Rightarrow> 'c \<Rightarrow> 'c \<times> sqchar list"
    and cap :: nat
  assumes wr_ok: "ok c \<Longrightarrow> pending c = [] \<Longrightarrow> length (written c) + length bs < cap \<Longrightarrow>
        \<exists>c'. wr bs c = (c', int (length bs)) \<and> ok c' \<and> written c' = written c @ bs \<and> pending c' = []"
    and rd_ok: "ok c \<Longrightarrow> n \<le> length (pending c) \<Longrightarrow>
        \<exists>c'. rd (int n) c = (c', take n (pending c)) \<and> ok c' \<and> pending c' = drop n (pending c)"
    and rd_short: "ok c \<Longrightarrow> length (pending c) < n \<Longrightarrow> n < cap \<Longrightarrow>
        length (snd (rd (int n) c)) < n"

end
