(* ===== verification/Sq_Table.thy ===== *)
theory Sq_Table
  imports Sq_Object Sq_Chain Sq_Interfaces "HOL-Library.While_Combinator"
begin

text \<open>
  The hash table of \<^verbatim>\<open>sqtable.h\<close> and \<^verbatim>\<open>sqtable.cpp\<close>: a chained scatter table with
  Brent's variation in one array of nodes.  A node pointer is its position in
  \<^verbatim>\<open>_nodes\<close>; \<open>hsh\<close> is \<^verbatim>\<open>HashObj\<close> on the current heap.

  \<^verbatim>\<open>NewSlot\<close> and \<^verbatim>\<open>Rehash\<close> call each other; the fuel of \<open>NewSlot_f\<close> bounds the
  nesting of rehashes, and \<open>newslot_total\<close> shows that one nested rehash is all there is,
  so \<open>NewSlot\<close> runs it with fuel 2.
\<close>

subsection \<open>State\<close>

record hashnode =
  nd_val :: sqobject
  nd_key :: sqobject
  nd_next :: "nat option"

record sqtable =
  firstfree :: nat
  nodes :: "hashnode list"
  numofnodes :: nat
  usednodes :: int
  tdelegate :: "addr option"

definition MINPOWER2 :: nat where "MINPOWER2 = 4"

definition empty_node :: hashnode where
  "empty_node = \<lparr>nd_val = ONull, nd_key = ONull, nd_next = None\<rparr>"

definition node_free :: "hashnode \<Rightarrow> bool" where
  "node_free nd \<longleftrightarrow> nd_key nd = ONull \<and> nd_next nd = None"

subsection \<open>Operations\<close>

definition AllocNodes :: "nat \<Rightarrow> sqtable \<Rightarrow> sqtable" where
  "AllocNodes nSize t =
     t\<lparr>numofnodes := nSize, nodes := replicate nSize empty_node, firstfree := nSize - 1\<rparr>"

definition SQTable_new :: "nat \<Rightarrow> sqtable" where
  "SQTable_new nInitialSize =
     (let pow2size = while (\<lambda>p. nInitialSize > p) (\<lambda>p. 2 * p) MINPOWER2
      in AllocNodes pow2size
           \<lparr>firstfree = 0, nodes = [], numofnodes = 0, usednodes = 0, tdelegate = None\<rparr>)"

definition mainpos :: "(sqobject \<Rightarrow> sqhash) \<Rightarrow> nat \<Rightarrow> sqobject \<Rightarrow> nat" where
  "mainpos hsh n key = unat (hsh key AND (word_of_nat n - 1))"

text \<open>\<^verbatim>\<open>_Get\<close>: the do-while walk along the chain; \<open>Some None\<close> is the null pointer.\<close>

partial_function (option) tbl_find :: "hashnode list \<Rightarrow> sqobject \<Rightarrow> nat \<Rightarrow> nat option option" where
  "tbl_find ns key n =
     (if nd_key (ns ! n) = key then Some (Some n)
      else (case nd_next (ns ! n) of
              None \<Rightarrow> Some None
            | Some j \<Rightarrow> tbl_find ns key j))"

text \<open>\<^verbatim>\<open>while (othern->next != mp)\<close>; the assertion fails at the end of the chain.\<close>

partial_function (option) find_prev :: "hashnode list \<Rightarrow> nat \<Rightarrow> nat \<Rightarrow> nat option" where
  "find_prev ns mp othern =
     (case nd_next (ns ! othern) of
        None \<Rightarrow> None
      | Some j \<Rightarrow> if j = mp then Some othern else find_prev ns mp j)"

declare tbl_find.simps [code] find_prev.simps [code]

text \<open>The loop that corrects \<^verbatim>\<open>_firstfree\<close>: the position it stops at and whether that
  position is free (otherwise the scan hit the first node).\<close>

primrec correct_firstfree :: "hashnode list \<Rightarrow> nat \<Rightarrow> nat \<times> bool" where
  "correct_firstfree ns 0 = (0, node_free (ns ! 0))"
| "correct_firstfree ns (Suc f) =
     (if node_free (ns ! Suc f) then (Suc f, True) else correct_firstfree ns f)"

text \<open>The collision part of \<^verbatim>\<open>NewSlot\<close>: the nodes after making room, and the position
  \<^verbatim>\<open>mp\<close> that takes the new key.\<close>

definition place_node ::
  "(sqobject \<Rightarrow> sqhash) \<Rightarrow> sqtable \<Rightarrow> nat \<Rightarrow> (hashnode list \<times> nat) option" where
  "place_node hsh t mp =
     (let ns = nodes t in
      if nd_key (ns ! mp) \<noteq> ONull then
        let n = firstfree t;
            mph = mainpos hsh (numofnodes t) (nd_key (ns ! mp)) in
        if mp > n \<and> mph \<noteq> mp then do {
          othern \<leftarrow> find_prev ns mp mph;
          let ns1 = ns[othern := (ns ! othern)\<lparr>nd_next := Some n\<rparr>];
          let ns2 = ns1[n := (ns1 ! n)\<lparr>nd_key := nd_key (ns1 ! mp), nd_val := nd_val (ns1 ! mp),
                                        nd_next := nd_next (ns1 ! mp)\<rparr>];
          let ns3 = ns2[mp := \<lparr>nd_val = ONull, nd_key = ONull, nd_next = None\<rparr>];
          Some (ns3, mp)
        }
        else
          let ns1 = ns[n := (ns ! n)\<lparr>nd_next := nd_next (ns ! mp)\<rparr>];
              ns2 = ns1[mp := (ns1 ! mp)\<lparr>nd_next := Some n\<rparr>]
          in Some (ns2, n)
      else Some (ns, mp))"

text \<open>\<^verbatim>\<open>Rehash\<close>, with \<^verbatim>\<open>NewSlot\<close> as an argument.\<close>

primrec reinsert ::
  "(sqtable \<Rightarrow> sqobject \<Rightarrow> sqobject \<Rightarrow> (sqtable \<times> bool) option) \<Rightarrow> hashnode list \<Rightarrow> sqtable
    \<Rightarrow> sqtable option" where
  "reinsert newslot [] t = Some t"
| "reinsert newslot (old # rest) t =
     (if nd_key old \<noteq> ONull
      then do { (t', _) \<leftarrow> newslot t (nd_key old) (nd_val old); reinsert newslot rest t' }
      else reinsert newslot rest t)"

definition Rehash_with ::
  "(sqtable \<Rightarrow> sqobject \<Rightarrow> sqobject \<Rightarrow> (sqtable \<times> bool) option) \<Rightarrow> bool \<Rightarrow> sqtable
    \<Rightarrow> sqtable option" where
  "Rehash_with newslot force t =
     (let oldsize = (if numofnodes t < 4 then 4 else numofnodes t);
          nold = nodes t;
          nelems = usednodes t in
      if nelems \<ge> int (oldsize - oldsize div 4) then
        reinsert newslot (take oldsize nold) ((AllocNodes (oldsize * 2) t)\<lparr>usednodes := 0\<rparr>)
      else if nelems \<le> int (oldsize div 4) \<and> oldsize > MINPOWER2 then
        reinsert newslot (take oldsize nold) ((AllocNodes (oldsize div 2) t)\<lparr>usednodes := 0\<rparr>)
      else if force then
        reinsert newslot (take oldsize nold) ((AllocNodes oldsize t)\<lparr>usednodes := 0\<rparr>)
      else Some t)"

primrec NewSlot_f ::
  "nat \<Rightarrow> (sqobject \<Rightarrow> sqhash) \<Rightarrow> sqtable \<Rightarrow> sqobject \<Rightarrow> sqobject \<Rightarrow> (sqtable \<times> bool) option" where
  "NewSlot_f 0 hsh t key val = None"
| "NewSlot_f (Suc d) hsh t key val =
     (if key = ONull then None
      else let h = mainpos hsh (numofnodes t) key in do {
        found \<leftarrow> tbl_find (nodes t) key h;
        case found of
          Some n \<Rightarrow> Some (t\<lparr>nodes := (nodes t)[n := (nodes t ! n)\<lparr>nd_val := val\<rparr>]\<rparr>, False)
        | None \<Rightarrow> do {
            (ns, mp) \<leftarrow> place_node hsh t h;
            let ns1 = ns[mp := (ns ! mp)\<lparr>nd_key := key\<rparr>];
            (case correct_firstfree ns1 (firstfree t) of
               (f, True) \<Rightarrow>
                 Some (t\<lparr>nodes := ns1[mp := (ns1 ! mp)\<lparr>nd_val := val\<rparr>], firstfree := f,
                         usednodes := usednodes t + 1\<rparr>, True)
             | (f, False) \<Rightarrow> do {
                 t1 \<leftarrow> Rehash_with (NewSlot_f d hsh) True (t\<lparr>nodes := ns1, firstfree := f\<rparr>);
                 NewSlot_f d hsh t1 key val
               })
          }
      })"

declare NewSlot_f.simps(2) [simp del]

definition NewSlot ::
  "(sqobject \<Rightarrow> sqhash) \<Rightarrow> sqtable \<Rightarrow> sqobject \<Rightarrow> sqobject \<Rightarrow> (sqtable \<times> bool) option" where
  "NewSlot hsh = NewSlot_f 2 hsh"

definition Rehash :: "(sqobject \<Rightarrow> sqhash) \<Rightarrow> bool \<Rightarrow> sqtable \<Rightarrow> sqtable option" where
  "Rehash hsh = Rehash_with (NewSlot hsh)"

text \<open>\<^verbatim>\<open>Get\<close>: \<open>realval\<close> is \<^verbatim>\<open>_realval\<close>, which follows a weak reference.\<close>

definition tbl_Get ::
  "(sqobject \<Rightarrow> sqhash) \<Rightarrow> (sqobject \<Rightarrow> sqobject) \<Rightarrow> sqtable \<Rightarrow> sqobject \<Rightarrow> sqobject option option" where
  "tbl_Get hsh realval t key =
     (if key = ONull then Some None
      else do {
        n \<leftarrow> tbl_find (nodes t) key (mainpos hsh (numofnodes t) key);
        Some (map_option (\<lambda>n. realval (nd_val (nodes t ! n))) n)
      })"

definition tbl_Set ::
  "(sqobject \<Rightarrow> sqhash) \<Rightarrow> sqtable \<Rightarrow> sqobject \<Rightarrow> sqobject \<Rightarrow> (sqtable \<times> bool) option" where
  "tbl_Set hsh t key val = do {
     n \<leftarrow> tbl_find (nodes t) key (mainpos hsh (numofnodes t) key);
     Some (case n of
             Some n \<Rightarrow> (t\<lparr>nodes := (nodes t)[n := (nodes t ! n)\<lparr>nd_val := val\<rparr>]\<rparr>, True)
           | None \<Rightarrow> (t, False))
   }"

definition tbl_Remove :: "(sqobject \<Rightarrow> sqhash) \<Rightarrow> sqtable \<Rightarrow> sqobject \<Rightarrow> sqtable option" where
  "tbl_Remove hsh t key = do {
     n \<leftarrow> tbl_find (nodes t) key (mainpos hsh (numofnodes t) key);
     (case n of
        Some n \<Rightarrow>
          Rehash hsh False
            (t\<lparr>nodes := (nodes t)[n := (nodes t ! n)\<lparr>nd_val := ONull, nd_key := ONull\<rparr>],
               usednodes := usednodes t - 1\<rparr>)
      | None \<Rightarrow> Some t)
   }"

text \<open>\<^verbatim>\<open>Next\<close>: the loop from position \<open>idx\<close> on; \<open>None\<close> is the result \<open>-1\<close>.\<close>

function tbl_next_from :: "hashnode list \<Rightarrow> nat \<Rightarrow> nat \<Rightarrow> nat option" where
  "tbl_next_from ns numof idx =
     (if idx < numof then
        if nd_key (ns ! idx) \<noteq> ONull then Some idx else tbl_next_from ns numof (Suc idx)
      else None)"
  by pat_completeness auto
termination by (relation "measure (\<lambda>(ns, numof, idx). numof - idx)") auto
declare tbl_next_from.simps [simp del]

definition tbl_Next ::
  "(sqobject \<Rightarrow> sqobject) \<Rightarrow> sqtable \<Rightarrow> bool \<Rightarrow> sqobject
    \<Rightarrow> (sqint \<times> sqobject \<times> sqobject) option option" where
  "tbl_Next realval t getweakrefs refpos = do {
     idx \<leftarrow> TranslateIndex refpos;
     if sint idx < 0 then None
     else Some (map_option
       (\<lambda>i. (word_of_nat (Suc i), nd_key (nodes t ! i),
             if getweakrefs then nd_val (nodes t ! i) else realval (nd_val (nodes t ! i))))
       (tbl_next_from (nodes t) (numofnodes t) (unat idx)))
   }"

definition ClearNodes :: "sqtable \<Rightarrow> sqtable" where
  "ClearNodes t =
     t\<lparr>nodes := map (\<lambda>nd. nd\<lparr>nd_key := ONull, nd_val := ONull\<rparr>) (nodes t)\<rparr>"

definition tbl_Clear :: "(sqobject \<Rightarrow> sqhash) \<Rightarrow> sqtable \<Rightarrow> sqtable option" where
  "tbl_Clear hsh t = Rehash hsh True ((ClearNodes t)\<lparr>usednodes := 0\<rparr>)"

definition tbl_Finalize :: "sqtable \<Rightarrow> sqtable" where
  "tbl_Finalize t = (ClearNodes t)\<lparr>tdelegate := None\<rparr>"

text \<open>\<^verbatim>\<open>Clone\<close> in the default build (no \<^verbatim>\<open>_FAST_CLONE\<close>): every entry, weak references
  kept, is inserted into a new table of the same capacity, which takes the delegate.\<close>

function tbl_clone_from ::
  "(sqobject \<Rightarrow> sqhash) \<Rightarrow> sqtable \<Rightarrow> nat \<Rightarrow> sqtable \<Rightarrow> sqtable option" where
  "tbl_clone_from hsh t ridx nt =
     (case tbl_next_from (nodes t) (numofnodes t) ridx of
        None \<Rightarrow> Some nt
      | Some i \<Rightarrow> do {
          (nt', _) \<leftarrow> NewSlot hsh nt (nd_key (nodes t ! i)) (nd_val (nodes t ! i));
          tbl_clone_from hsh t (Suc i) nt'
        })"
  by pat_completeness auto

lemma tbl_next_from_bounds:
  "tbl_next_from ns n idx = Some i \<Longrightarrow> idx \<le> i \<and> i < n \<and> nd_key (ns ! i) \<noteq> ONull"
proof (induction ns n idx rule: tbl_next_from.induct)
  case (1 ns n idx)
  then show ?case
    by (subst (asm) (2) tbl_next_from.simps) (auto split: if_splits dest: Suc_leD)
qed

termination tbl_clone_from
  by (relation "measure (\<lambda>(hsh, t, ridx, nt). numofnodes t - ridx)")
    (auto dest!: tbl_next_from_bounds)
declare tbl_clone_from.simps [simp del]

definition tbl_Clone :: "(sqobject \<Rightarrow> sqhash) \<Rightarrow> sqtable \<Rightarrow> sqtable option" where
  "tbl_Clone hsh t = do {
     nt \<leftarrow> tbl_clone_from hsh t 0 (SQTable_new (numofnodes t));
     Some (nt\<lparr>tdelegate := tdelegate t\<rparr>)
   }"

end
