(* ===== verification/Sq_Table_Correct.thy ===== *)
theory Sq_Table_Correct
  imports Sq_Table
begin

text \<open>
  Correctness of \<^verbatim>\<open>SQTable\<close>: the invariant \<open>wf_table\<close> (the scatter-table invariant of
  \<^verbatim>\<open>Sq_Chain\<close> on the node array, the size is a power of two, \<^verbatim>\<open>_firstfree\<close> is free and
  \<^verbatim>\<open>_usednodes\<close> counts the keys), the abstraction \<open>table_map\<close> to a map from keys to
  values, and the proof that every operation returns, keeps the invariant and acts on the
  map as its name says.  The table is interpreted as a \<open>kv_store_del\<close>.
\<close>

subsection \<open>Node arrays as functions\<close>

definition nxf :: "hashnode list \<Rightarrow> nat \<Rightarrow> nat option" where
  "nxf ns i = (if i < length ns then nd_next (ns ! i) else None)"

definition kyf :: "hashnode list \<Rightarrow> nat \<Rightarrow> sqobject" where
  "kyf ns i = (if i < length ns then nd_key (ns ! i) else ONull)"

lemma nxf_upd [simp]: "i < length ns \<Longrightarrow> nxf (ns[i := x]) = (nxf ns)(i := nd_next x)"
  by (auto simp: nxf_def fun_eq_iff)

lemma kyf_upd [simp]: "i < length ns \<Longrightarrow> kyf (ns[i := x]) = (kyf ns)(i := nd_key x)"
  by (auto simp: kyf_def fun_eq_iff)

lemma node_free_iff: "i < length ns \<Longrightarrow> node_free (ns ! i) \<longleftrightarrow> kyf ns i = ONull \<and> nxf ns i = None"
  by (simp add: node_free_def nxf_def kyf_def)

definition nkeys :: "hashnode list \<Rightarrow> nat" where
  "nkeys ns = card {i. i < length ns \<and> kyf ns i \<noteq> ONull}"

lemma nkeys_filter: "nkeys ns = length (filter (\<lambda>nd. nd_key nd \<noteq> ONull) ns)"
  by (auto simp: nkeys_def kyf_def length_filter_conv_card intro!: arg_cong [where f = card])

lemma nkeys_le: "nkeys ns \<le> length ns"
  unfolding nkeys_def by (rule card_le_bound)

text \<open>The map a node array represents.\<close>

definition nmap :: "hashnode list \<Rightarrow> sqobject \<rightharpoonup> sqobject" where
  "nmap ns k = (if k = ONull then None
     else map_option nd_val (find (\<lambda>nd. nd_key nd = k) ns))"

definition table_map :: "sqtable \<Rightarrow> sqobject \<rightharpoonup> sqobject" where
  "table_map t = nmap (nodes t)"

lemma nmap_Nil [simp]: "nmap [] = Map.empty"
  by (simp add: nmap_def fun_eq_iff)

lemma nmap_Cons:
  "nmap (nd # ns) = (if nd_key nd = ONull then nmap ns else (nmap ns)(nd_key nd \<mapsto> nd_val nd))"
  by (auto simp: nmap_def fun_eq_iff)

lemma nmap_null [simp]: "nmap ns ONull = None"
  by (simp add: nmap_def)

lemma nmap_None_iff: "nmap ns k = None \<longleftrightarrow> k = ONull \<or> (\<forall>i. kyf ns i \<noteq> k)"
  by (auto simp: nmap_def kyf_def find_None_iff in_set_conv_nth)

lemma dom_nmap: "dom (nmap ns) = {k. k \<noteq> ONull \<and> (\<exists>i. kyf ns i = k)}"
  by (auto simp: dom_def nmap_None_iff simp del: not_None_eq)

definition binds :: "hashnode list \<Rightarrow> sqobject \<Rightarrow> sqobject \<Rightarrow> bool" where
  "binds ns k v \<longleftrightarrow> k \<noteq> ONull \<and> (\<exists>i < length ns. nd_key (ns ! i) = k \<and> nd_val (ns ! i) = v)"

definition inj_keys :: "hashnode list \<Rightarrow> bool" where
  "inj_keys ns \<longleftrightarrow> (\<forall>i j. kyf ns i = kyf ns j \<longrightarrow> kyf ns i \<noteq> ONull \<longrightarrow> i = j)"

lemma nmap_Some_iff: "inj_keys ns \<Longrightarrow> nmap ns k = Some v \<longleftrightarrow> binds ns k v"
proof
  assume "nmap ns k = Some v"
  then show "binds ns k v"
    by (auto simp: nmap_def binds_def find_Some_iff split: if_splits)
next
  assume inj: "inj_keys ns" and "binds ns k v"
  then obtain i where i: "i < length ns" "nd_key (ns ! i) = k" "nd_val (ns ! i) = v" "k \<noteq> ONull"
    by (auto simp: binds_def)
  moreover have "nd_key (ns ! j) \<noteq> k" if "j < i" for j
    using inj i that unfolding inj_keys_def kyf_def by (metis less_trans less_irrefl_nat)
  ultimately show "nmap ns k = Some v"
    by (auto simp: nmap_def find_Some_iff)
qed

lemma nmap_eqI:
  assumes "inj_keys ns" "\<And>k v. binds ns k v \<longleftrightarrow> m k = Some v"
  shows "nmap ns = m"
proof
  fix k
  show "nmap ns k = m k"
    using nmap_Some_iff [OF assms(1), of k] assms(2) [of k]
    by (cases "m k"; cases "nmap ns k") auto
qed

lemma nmap_update_val:
  assumes "inj_keys ns" "i < length ns" "nd_key (ns ! i) = k" "k \<noteq> ONull"
  shows "nmap (ns[i := (ns ! i)\<lparr>nd_val := v\<rparr>]) = (nmap ns)(k \<mapsto> v)"
proof (rule nmap_eqI)
  let ?ns = "ns[i := (ns ! i)\<lparr>nd_val := v\<rparr>]"
  have ky: "kyf ?ns = kyf ns" using assms by (auto simp: kyf_def fun_eq_iff nth_list_update)
  then show inj: "inj_keys ?ns" using assms(1) by (simp add: inj_keys_def)
  fix k' v'
  have uniq: "nd_key (ns ! j) = k \<Longrightarrow> j < length ns \<Longrightarrow> j = i" for j
    using assms unfolding inj_keys_def kyf_def by metis
  show "binds ?ns k' v' \<longleftrightarrow> ((nmap ns)(k \<mapsto> v)) k' = Some v'"
    using assms uniq nmap_Some_iff [OF assms(1), of k' v']
    by (fastforce simp: binds_def nth_list_update split: if_splits)
qed

subsection \<open>The invariant\<close>

definition scatter_nodes :: "(sqobject \<Rightarrow> sqhash) \<Rightarrow> nat \<Rightarrow> hashnode list \<Rightarrow> bool" where
  "scatter_nodes hsh L ns \<longleftrightarrow>
     scatter (length ns) L ONull (nxf ns) (kyf ns) (mainpos hsh (length ns))"

definition wf_size :: "sqtable \<Rightarrow> bool" where
  "wf_size t \<longleftrightarrow> numofnodes t = length (nodes t) \<and> (\<exists>k \<ge> 2. length (nodes t) = 2 ^ k)"

definition wf_table :: "(sqobject \<Rightarrow> sqhash) \<Rightarrow> sqtable \<Rightarrow> bool" where
  "wf_table hsh t \<longleftrightarrow>
     wf_size t \<and> firstfree t < numofnodes t \<and> node_free (nodes t ! firstfree t) \<and>
     scatter_nodes hsh (Suc (firstfree t)) (nodes t) \<and> usednodes t = int (nkeys (nodes t))"

lemma wf_table_size:
  assumes "wf_table hsh t"
  obtains k where "length (nodes t) = 2 ^ k" "numofnodes t = length (nodes t)" "2 \<le> k"
  using assms unfolding wf_table_def wf_size_def by metis

lemma scatter_inj: "scatter_nodes hsh L ns \<Longrightarrow> inj_keys ns"
  unfolding scatter_nodes_def inj_keys_def by (meson scatterD(5))

lemma scatter_irrefl: "scatter_nodes hsh L ns \<Longrightarrow> nxf ns i \<noteq> Some i"
  unfolding scatter_nodes_def by (metis scatterD(3) less_irrefl_nat)

lemma mainpos_less: "n = 2 ^ k \<Longrightarrow> mainpos hsh n key < n"
  unfolding mainpos_def by (rule unat_word_and_mask_less)

lemma wf_size_mainpos: "wf_size t \<Longrightarrow> mainpos hsh (numofnodes t) key < length (nodes t)"
  unfolding wf_size_def by (metis mainpos_less)

subsection \<open>Walking the chains\<close>

lemma tbl_find_spec:
  assumes sc: "scatter_nodes hsh L ns" and "i < length ns"
  shows "\<exists>r. tbl_find ns key i = Some r \<and>
    (case r of Some n \<Rightarrow> n < length ns \<and> nd_key (ns ! n) = key \<and> reach (nxf ns) i n
     | None \<Rightarrow> \<forall>n. reach (nxf ns) i n \<longrightarrow> nd_key (ns ! n) \<noteq> key)"
proof -
  obtain rk :: "nat \<Rightarrow> nat" where rk: "\<forall>i j. nxf ns i = Some j \<longrightarrow> rk j < rk i"
    using scatterD(3) [OF sc [unfolded scatter_nodes_def]] by auto
  show ?thesis using assms(2)
  proof (induction "rk i" arbitrary: i rule: less_induct)
    case less
    show ?case
    proof (cases "nd_key (ns ! i) = key")
      case True
      then show ?thesis using less.prems by (subst tbl_find.simps) auto
    next
      case ne: False
      show ?thesis
      proof (cases "nd_next (ns ! i)")
        case None
        then have "nxf ns i = None" by (simp add: nxf_def)
        with ne None show ?thesis by (subst tbl_find.simps) (auto simp: reach_None)
      next
        case (Some j)
        then have nj: "nxf ns i = Some j" using less.prems by (simp add: nxf_def)
        have "j < length ns" using scatterD(1) [OF sc [unfolded scatter_nodes_def] nj] by simp
        then obtain r where r: "tbl_find ns key j = Some r"
          "case r of Some n \<Rightarrow> n < length ns \<and> nd_key (ns ! n) = key \<and> reach (nxf ns) j n
           | None \<Rightarrow> \<forall>n. reach (nxf ns) j n \<longrightarrow> nd_key (ns ! n) \<noteq> key"
          using less.hyps rk nj by blast
        have step: "reach (nxf ns) i n \<longleftrightarrow> i = n \<or> reach (nxf ns) j n" for n
          using nj by (metis converse_rtranclpE converse_rtranclp_into_rtranclp link_def
              option.inject rtranclp.rtrancl_refl)
        have "tbl_find ns key i = Some r" using ne Some r(1) by (subst tbl_find.simps) simp
        with r(2) step ne show ?thesis by (cases r) auto
      qed
    qed
  qed
qed

lemma find_prev_spec:
  assumes sc: "scatter_nodes hsh L ns" and "i < length ns" "reach (nxf ns) i mp" "i \<noteq> mp"
  shows "\<exists>p. find_prev ns mp i = Some p \<and> nxf ns p = Some mp"
proof -
  obtain rk :: "nat \<Rightarrow> nat" where rk: "\<forall>i j. nxf ns i = Some j \<longrightarrow> rk j < rk i"
    using scatterD(3) [OF sc [unfolded scatter_nodes_def]] by auto
  show ?thesis using assms(2-)
  proof (induction "rk i" arbitrary: i rule: less_induct)
    case less
    obtain j where j: "nxf ns i = Some j" "reach (nxf ns) j mp"
      using less.prems by (metis converse_rtranclpE link_def)
    then have nj: "nd_next (ns ! i) = Some j" using less.prems by (simp add: nxf_def)
    show ?case
    proof (cases "j = mp")
      case True
      with nj j show ?thesis by (subst find_prev.simps) simp
    next
      case False
      have "j < length ns" using scatterD(1) [OF sc [unfolded scatter_nodes_def] j(1)] by simp
      then obtain p where "find_prev ns mp j = Some p" "nxf ns p = Some mp"
        using less.hyps rk j False by blast
      with nj False show ?thesis by (subst find_prev.simps) simp
    qed
  qed
qed

text \<open>A lookup from the main position finds exactly the stored keys.\<close>

lemma tbl_find_key:
  assumes sc: "scatter_nodes hsh L ns" and n: "length ns = 2 ^ k" and key: "key \<noteq> ONull"
  shows "\<exists>r. tbl_find ns key (mainpos hsh (length ns) key) = Some r \<and>
    (case r of Some i \<Rightarrow> i < length ns \<and> nd_key (ns ! i) = key
     | None \<Rightarrow> \<forall>i. kyf ns i \<noteq> key)"
proof -
  obtain r where r: "tbl_find ns key (mainpos hsh (length ns) key) = Some r"
    "case r of Some i \<Rightarrow> i < length ns \<and> nd_key (ns ! i) = key \<and>
         reach (nxf ns) (mainpos hsh (length ns) key) i
     | None \<Rightarrow> \<forall>i. reach (nxf ns) (mainpos hsh (length ns) key) i \<longrightarrow> nd_key (ns ! i) \<noteq> key"
    using tbl_find_spec [OF sc mainpos_less [OF n]] by blast
  have "kyf ns i \<noteq> key" if "r = None" for i
    using that r(2) key scatterD(4) [OF sc [unfolded scatter_nodes_def], of i]
    by (auto simp: kyf_def split: if_splits)
  with r show ?thesis by (cases r) auto
qed

subsection \<open>Placing a new key\<close>

text \<open>
  What the part of \<^verbatim>\<open>NewSlot\<close> between the failed search and the scan for a free position
  does: \<open>ns1\<close> is the array with the new key at position \<open>p\<close>.
\<close>

definition placed ::
  "(sqobject \<Rightarrow> sqhash) \<Rightarrow> hashnode list \<Rightarrow> nat \<Rightarrow> sqobject \<Rightarrow> hashnode list \<Rightarrow> nat \<Rightarrow> bool" where
  "placed hsh ns f key ns1 p \<longleftrightarrow>
     length ns1 = length ns \<and> p < length ns \<and> nd_key (ns1 ! p) = key \<and>
     scatter_nodes hsh (if node_free (ns1 ! f) then Suc f else f) ns1 \<and>
     nkeys ns1 = Suc (nkeys ns) \<and>
     (\<forall>k v. k \<noteq> key \<longrightarrow> binds ns1 k v \<longleftrightarrow> binds ns k v) \<and>
     ((\<forall>i. nxf ns i \<noteq> None \<longrightarrow> kyf ns i \<noteq> ONull) \<longrightarrow>
        (\<forall>i. nxf ns1 i \<noteq> None \<longrightarrow> kyf ns1 i \<noteq> ONull)) \<and>
     (\<forall>i. kyf ns i \<noteq> ONull \<longrightarrow> kyf ns1 i \<noteq> ONull)"

lemma nkeys_add:
  assumes "length ns1 = length ns" "i < length ns" "kyf ns i = ONull" "kyf ns1 i \<noteq> ONull"
    and "\<And>j. j \<noteq> i \<Longrightarrow> (kyf ns1 j \<noteq> ONull) = (kyf ns j \<noteq> ONull)"
  shows "nkeys ns1 = Suc (nkeys ns)"
  unfolding nkeys_def assms(1) by (rule card_update_true [OF assms(2)]) (use assms in auto)

lemma placed_main:
  assumes sc: "scatter_nodes hsh (Suc f) ns" and n: "length ns = 2 ^ k"
    and key: "key \<noteq> ONull" "\<And>i. kyf ns i \<noteq> key" and h: "mainpos hsh (length ns) key = h"
    and free: "nd_key (ns ! h) = ONull" and f: "f < length ns" "node_free (ns ! f)"
  shows "placed hsh ns f key (ns[h := (ns ! h)\<lparr>nd_key := key\<rparr>]) h"
proof -
  let ?ns1 = "ns[h := (ns ! h)\<lparr>nd_key := key\<rparr>]"
  have hl: "h < length ns" using mainpos_less [OF n, of hsh key] h by simp
  have nx: "nxf ?ns1 = nxf ns" using hl by (auto simp: nxf_def fun_eq_iff nth_list_update)
  have ky: "kyf ?ns1 = (kyf ns)(h := key)" using hl by simp
  have kf: "kyf ns h = ONull" using free hl by (simp add: kyf_def)
  have "scatter_nodes hsh (Suc f) ?ns1"
    using scatter_place_main [OF sc [unfolded scatter_nodes_def] hl kf key(1) _ key(2)] h
    unfolding scatter_nodes_def nx ky by simp
  then have "scatter_nodes hsh (if node_free (?ns1 ! f) then Suc f else f) ?ns1"
    unfolding scatter_nodes_def by (auto intro: scatter_weaken)
  moreover have "nkeys ?ns1 = Suc (nkeys ns)"
    by (rule nkeys_add [of _ _ h]) (use hl free key ky in \<open>auto simp: kyf_def nth_list_update\<close>)
  moreover have "binds ?ns1 k' v \<longleftrightarrow> binds ns k' v" if "k' \<noteq> key" for k' v
    unfolding binds_def using that hl free by (auto simp: nth_list_update split: if_splits)
  ultimately show ?thesis
    unfolding placed_def using hl ky nx key(1) by (auto simp: nth_list_update)
qed

lemma placed_chained:
  assumes sc: "scatter_nodes hsh (Suc f) ns" and n: "length ns = 2 ^ k"
    and key: "key \<noteq> ONull" "\<And>i. kyf ns i \<noteq> key" and h: "mainpos hsh (length ns) key = h"
    and occ: "nd_key (ns ! h) \<noteq> ONull" "mainpos hsh (length ns) (nd_key (ns ! h)) = h"
    and f: "f < length ns" "node_free (ns ! f)"
  shows "placed hsh ns f key
    (ns[f := (ns ! f)\<lparr>nd_next := nd_next (ns ! h)\<rparr>, h := (ns ! h)\<lparr>nd_next := Some f\<rparr>,
        f := (ns ! f)\<lparr>nd_next := nd_next (ns ! h), nd_key := key\<rparr>]) f"
proof -
  let ?ns1 = "ns[f := (ns ! f)\<lparr>nd_next := nd_next (ns ! h)\<rparr>, h := (ns ! h)\<lparr>nd_next := Some f\<rparr>,
        f := (ns ! f)\<lparr>nd_next := nd_next (ns ! h), nd_key := key\<rparr>]"
  have hl: "h < length ns" using mainpos_less [OF n, of hsh key] h by simp
  have hf: "h \<noteq> f" using occ f by (auto simp: node_free_def)
  have nx: "nxf ?ns1 = (nxf ns)(f := nxf ns h, h := Some f)"
    using hl f hf by (auto simp: nxf_def fun_eq_iff)
  have ky: "kyf ?ns1 = (kyf ns)(f := key)" using hl f hf by (auto simp: kyf_def fun_eq_iff)
  have kf: "kyf ns f = ONull" "nxf ns f = None" "kyf ns h = nd_key (ns ! h)"
    using f hl by (simp_all add: node_free_def kyf_def nxf_def)
  have "scatter_nodes hsh f ?ns1"
    unfolding scatter_nodes_def nx ky
    using scatter_place_chained [OF sc [unfolded scatter_nodes_def] f(1) kf(1,2) hl _ _ key(1) _ key(2)]
      kf(3) h occ by simp
  moreover have "\<not> node_free (?ns1 ! f)" using f key hf by (simp add: node_free_def)
  moreover have "nkeys ?ns1 = Suc (nkeys ns)"
    by (rule nkeys_add [of _ _ f]) (use f key ky kf in auto)
  moreover have "binds ?ns1 k' v \<longleftrightarrow> binds ns k' v" if "k' \<noteq> key" for k' v
    unfolding binds_def using that hl f hf
    by (auto simp: nth_list_update node_free_def split: if_splits)
  ultimately show ?thesis
    unfolding placed_def using f ky nx key kf occ by auto
qed

lemma placed_relocated:
  assumes sc: "scatter_nodes hsh (Suc f) ns" and n: "length ns = 2 ^ k"
    and key: "key \<noteq> ONull" "\<And>i. kyf ns i \<noteq> key" and h: "mainpos hsh (length ns) key = h"
    and occ: "nd_key (ns ! h) \<noteq> ONull" "mainpos hsh (length ns) (nd_key (ns ! h)) \<noteq> h"
    and f: "f < length ns" "node_free (ns ! f)" and p: "nxf ns p = Some h"
  shows "placed hsh ns f key
    (ns[p := (ns ! p)\<lparr>nd_next := Some f\<rparr>,
        f := (ns ! f)\<lparr>nd_key := nd_key (ns ! h), nd_val := nd_val (ns ! h), nd_next := nd_next (ns ! h)\<rparr>,
        h := \<lparr>nd_val = ONull, nd_key = key, nd_next = None\<rparr>]) h"
proof -
  let ?ns1 = "ns[p := (ns ! p)\<lparr>nd_next := Some f\<rparr>,
        f := (ns ! f)\<lparr>nd_key := nd_key (ns ! h), nd_val := nd_val (ns ! h), nd_next := nd_next (ns ! h)\<rparr>,
        h := \<lparr>nd_val = ONull, nd_key = key, nd_next = None\<rparr>]"
  have hl: "h < length ns" using mainpos_less [OF n, of hsh key] h by simp
  have hf: "h \<noteq> f" using occ f by (auto simp: node_free_def)
  have pl: "p < length ns" using p by (auto simp: nxf_def split: if_splits)
  have pf: "p \<noteq> f" using p f by (auto simp: nxf_def node_free_def)
  have ph: "p \<noteq> h" using scatter_irrefl [OF sc] p by auto
  have nx: "nxf ?ns1 = (nxf ns)(p := Some f, f := nxf ns h, h := None)"
    using hl f hf pl by (auto simp: nxf_def fun_eq_iff)
  have ky: "kyf ?ns1 = (kyf ns)(f := kyf ns h, h := key)"
    using hl f hf pl by (auto simp: kyf_def fun_eq_iff)
  have kf: "kyf ns f = ONull" "nxf ns f = None" "kyf ns h = nd_key (ns ! h)"
    using f hl by (simp_all add: node_free_def kyf_def nxf_def)
  have "scatter_nodes hsh f ?ns1"
    unfolding scatter_nodes_def nx ky
    using scatter_relocate [OF sc [unfolded scatter_nodes_def] f(1) kf(1,2) hl _ _ p key(1) _ key(2)]
      kf(3) h occ by simp
  moreover have "\<not> node_free (?ns1 ! f)" using f occ hf by (simp add: node_free_def)
  moreover have "nkeys ?ns1 = Suc (nkeys ns)"
    by (rule nkeys_add [of _ _ f]) (use f key ky kf occ hf in auto)
  moreover have "binds ?ns1 k' v \<longleftrightarrow> binds ns k' v" if "k' \<noteq> key" for k' v
  proof
    assume "binds ?ns1 k' v"
    then show "binds ns k' v"
      unfolding binds_def using that hl f hf pl pf ph
      by (auto simp: nth_list_update split: if_splits)
  next
    assume "binds ns k' v"
    then obtain i where i: "i < length ns" "nd_key (ns ! i) = k'" "nd_val (ns ! i) = v" "k' \<noteq> ONull"
      by (auto simp: binds_def)
    let ?j = "if i = h then f else i"
    have "?j < length ?ns1 \<and> nd_key (?ns1 ! ?j) = k' \<and> nd_val (?ns1 ! ?j) = v"
      using i f hl hf pl pf ph by (auto simp: nth_list_update node_free_def)
    then show "binds ?ns1 k' v" unfolding binds_def using i(4) by blast
  qed
  ultimately show ?thesis
    unfolding placed_def using hl ky nx key kf occ p by (auto split: if_splits)
qed

subsection \<open>NewSlot\<close>

lemma place_node_placed:
  assumes wf: "wf_table hsh t" and key: "key \<noteq> ONull" "\<And>i. kyf (nodes t) i \<noteq> key"
  shows "\<exists>ns p. place_node hsh t (mainpos hsh (numofnodes t) key) = Some (ns, p) \<and>
    placed hsh (nodes t) (firstfree t) key (ns[p := (ns ! p)\<lparr>nd_key := key\<rparr>]) p"
proof -
  let ?ns = "nodes t" and ?f = "firstfree t" and ?h = "mainpos hsh (numofnodes t) key"
  obtain k where n: "length ?ns = 2 ^ k" "numofnodes t = length ?ns" "2 \<le> k"
    using wf by (rule wf_table_size)
  have sc: "scatter_nodes hsh (Suc ?f) ?ns" and f: "?f < length ?ns" "node_free (?ns ! ?f)"
    using wf n unfolding wf_table_def by auto
  have h: "mainpos hsh (length ?ns) key = ?h" by (simp add: n)
  have hl: "?h < length ?ns" using mainpos_less [OF n(1)] n(2) by simp
  show ?thesis
  proof (cases "nd_key (?ns ! ?h) = ONull")
    case True
    with placed_main [OF sc n(1) key h True f] show ?thesis by (simp add: place_node_def Let_def)
  next
    case occ: False
    have hf: "?h \<noteq> ?f" using occ f by (auto simp: node_free_def)
    let ?m = "mainpos hsh (length ?ns) (nd_key (?ns ! ?h))"
    have rm: "reach (nxf ?ns) ?m ?h" using scatterD(4) [OF sc [unfolded scatter_nodes_def], of ?h] occ hl
      by (simp add: kyf_def)
    show ?thesis
    proof (cases "?m = ?h")
      case True
      let ?ns2 = "?ns[?f := (?ns ! ?f)\<lparr>nd_next := nd_next (?ns ! ?h)\<rparr>,
        ?h := (?ns[?f := (?ns ! ?f)\<lparr>nd_next := nd_next (?ns ! ?h)\<rparr>] ! ?h)\<lparr>nd_next := Some ?f\<rparr>]"
      have "place_node hsh t ?h = Some (?ns2, ?f)"
        unfolding place_node_def Let_def using occ True n(2) by simp
      moreover have "?ns2[?f := (?ns2 ! ?f)\<lparr>nd_key := key\<rparr>] =
        ?ns[?f := (?ns ! ?f)\<lparr>nd_next := nd_next (?ns ! ?h)\<rparr>, ?h := (?ns ! ?h)\<lparr>nd_next := Some ?f\<rparr>,
        ?f := (?ns ! ?f)\<lparr>nd_next := nd_next (?ns ! ?h), nd_key := key\<rparr>]"
        using hf f by simp
      ultimately show ?thesis using placed_chained [OF sc n(1) key h occ True f] by simp
    next
      case False
      obtain p where p: "find_prev ?ns ?h ?m = Some p" "nxf ?ns p = Some ?h"
        using find_prev_spec [OF sc mainpos_less [OF n(1)] rm False] by blast
      have "?f < ?h" using scatterD(1) [OF sc [unfolded scatter_nodes_def] p(2)] by simp
      have pf: "p \<noteq> ?f" "p \<noteq> ?h"
        using p f scatter_irrefl [OF sc] by (auto simp: nxf_def node_free_def)
      let ?ns3 = "?ns[p := (?ns ! p)\<lparr>nd_next := Some ?f\<rparr>,
        ?f := (?ns ! ?f)\<lparr>nd_key := nd_key (?ns ! ?h), nd_val := nd_val (?ns ! ?h),
                          nd_next := nd_next (?ns ! ?h)\<rparr>,
        ?h := \<lparr>nd_val = ONull, nd_key = ONull, nd_next = None\<rparr>]"
      have "place_node hsh t ?h = Some (?ns3, ?h)"
        unfolding place_node_def Let_def using occ False n(2) \<open>?f < ?h\<close> p(1) pf hf by simp
      moreover have "?ns3[?h := (?ns3 ! ?h)\<lparr>nd_key := key\<rparr>] =
        ?ns[p := (?ns ! p)\<lparr>nd_next := Some ?f\<rparr>,
        ?f := (?ns ! ?f)\<lparr>nd_key := nd_key (?ns ! ?h), nd_val := nd_val (?ns ! ?h),
                          nd_next := nd_next (?ns ! ?h)\<rparr>,
        ?h := \<lparr>nd_val = ONull, nd_key = key, nd_next = None\<rparr>]"
        using hl by simp
      ultimately show ?thesis
        using placed_relocated [OF sc n(1) key h occ False f p(2)] by simp
    qed
  qed
qed

lemma correct_firstfree_spec:
  "correct_firstfree ns f = (f', b) \<Longrightarrow>
     f' \<le> f \<and> (b \<longrightarrow> node_free (ns ! f')) \<and> (\<not> b \<longrightarrow> f' = 0 \<and> (\<forall>i \<le> f. \<not> node_free (ns ! i))) \<and>
     (\<forall>i. f' < i \<and> i \<le> f \<longrightarrow> \<not> node_free (ns ! i))"
  by (induction f) (auto split: if_splits simp: le_Suc_eq)

text \<open>The two outcomes of an insertion of an absent key.\<close>

definition freshly_filled :: "sqtable \<Rightarrow> bool" where
  "freshly_filled t \<longleftrightarrow> (\<forall>i. nxf (nodes t) i \<noteq> None \<longrightarrow> kyf (nodes t) i \<noteq> ONull) \<and>
     (\<forall>i. firstfree t < i \<and> i < length (nodes t) \<longrightarrow> kyf (nodes t) i \<noteq> ONull)"

lemma placed_inj: "placed hsh ns f key ns1 p \<Longrightarrow> inj_keys ns1"
  unfolding placed_def by (blast intro: scatter_inj)

lemma placed_nmap:
  assumes pl: "placed hsh ns f key ns1 p" and "inj_keys ns" and key: "key \<noteq> ONull"
    and "ns2 = ns1[p := (ns1 ! p)\<lparr>nd_val := v\<rparr>]"
  shows "nmap ns2 = (nmap ns)(key \<mapsto> v)"
proof -
  have inj: "inj_keys ns1" using pl by (rule placed_inj)
  have "nmap ns1 k = nmap ns k" if "k \<noteq> key" for k
  proof (rule option_eqI)
    fix v
    have "binds ns1 k v \<longleftrightarrow> binds ns k v" using that pl by (simp add: placed_def)
    then show "nmap ns1 k = Some v \<longleftrightarrow> nmap ns k = Some v"
      using nmap_Some_iff [OF inj] nmap_Some_iff [OF assms(2)] by simp
  qed
  moreover have "nmap ns2 = (nmap ns1)(key \<mapsto> v)"
    unfolding assms(4) by (rule nmap_update_val [OF inj]) (use pl key in \<open>auto simp: placed_def\<close>)
  ultimately show ?thesis by (auto simp: fun_eq_iff)
qed

lemma placed_done:
  assumes wf: "wf_table hsh t" and key: "key \<noteq> ONull"
    and pl: "placed hsh (nodes t) (firstfree t) key ns1 p"
    and cf: "correct_firstfree ns1 (firstfree t) = (f, True)"
    and t': "t' = t\<lparr>nodes := ns1[p := (ns1 ! p)\<lparr>nd_val := val\<rparr>], firstfree := f,
                     usednodes := usednodes t + 1\<rparr>"
  shows "wf_table hsh t' \<and> table_map t' = (table_map t)(key \<mapsto> val) \<and>
    numofnodes t' = numofnodes t \<and> (freshly_filled t \<longrightarrow> freshly_filled t')"
proof (intro conjI impI)
  let ?ns2 = "ns1[p := (ns1 ! p)\<lparr>nd_val := val\<rparr>]"
  have p: "p < length ns1" "length ns1 = length (nodes t)" using pl by (auto simp: placed_def)
  have ff: "firstfree t < length ns1" using wf p by (auto simp: wf_table_def wf_size_def)
  have ky: "kyf ?ns2 = kyf ns1" and nx: "nxf ?ns2 = nxf ns1"
    using p by (auto simp: kyf_def nxf_def fun_eq_iff nth_list_update)
  have nf: "node_free (?ns2 ! i) = node_free (ns1 ! i)" for i
    using p by (simp add: node_free_def nth_list_update)
  note c = correct_firstfree_spec [OF cf]
  have sc: "scatter_nodes hsh (Suc f) ?ns2"
  proof -
    have s: "scatter_nodes hsh (if node_free (ns1 ! firstfree t) then Suc (firstfree t) else firstfree t) ns1"
      using pl by (simp add: placed_def)
    have "Suc f \<le> (if node_free (ns1 ! firstfree t) then Suc (firstfree t) else firstfree t)"
      using c by (cases "f = firstfree t") auto
    with s show ?thesis unfolding scatter_nodes_def ky nx by (auto intro: scatter_weaken)
  qed
  have nk: "nkeys ?ns2 = Suc (nkeys (nodes t))"
    using pl p ky by (simp add: placed_def nkeys_def)
  have "f < length ns1" using c ff by simp
  then show "wf_table hsh t'"
    using wf sc nk p c nf unfolding wf_table_def wf_size_def t' by simp
  show "table_map t' = (table_map t)(key \<mapsto> val)"
    unfolding table_map_def t' using placed_nmap [OF pl _ key] wf
    by (auto simp: wf_table_def dest: scatter_inj)
  show "numofnodes t' = numofnodes t" by (simp add: t')
  assume fr: "freshly_filled t"
  have kept: "kyf (nodes t) i \<noteq> ONull \<Longrightarrow> kyf ns1 i \<noteq> ONull" for i
    using pl by (simp add: placed_def)
  have nk1: "nxf ns1 i \<noteq> None \<Longrightarrow> kyf ns1 i \<noteq> ONull" for i
    using pl fr by (auto simp: placed_def freshly_filled_def)
  have "kyf ns1 i \<noteq> ONull" if "f < i" "i < length ns1" for i
  proof (cases "i \<le> firstfree t")
    case True
    then show ?thesis using c that nk1 [of i] by (auto simp: node_free_iff)
  next
    case False
    then show ?thesis using fr that p kept by (auto simp: freshly_filled_def)
  qed
  then show "freshly_filled t'"
    unfolding freshly_filled_def t' using ky nx nk1 p by auto
qed

lemma NewSlot_f_found:
  assumes wf: "wf_table hsh t" and key: "key \<noteq> ONull" and ex: "\<exists>i. kyf (nodes t) i = key"
  shows "\<exists>t'. NewSlot_f (Suc d) hsh t key val = Some (t', False) \<and> wf_table hsh t' \<and>
    table_map t' = (table_map t)(key \<mapsto> val) \<and> numofnodes t' = numofnodes t"
proof -
  let ?ns = "nodes t"
  obtain k where n: "length ?ns = 2 ^ k" "numofnodes t = length ?ns" "2 \<le> k"
    using wf by (rule wf_table_size)
  have sc: "scatter_nodes hsh (Suc (firstfree t)) ?ns" using wf by (simp add: wf_table_def)
  obtain i where i: "tbl_find ?ns key (mainpos hsh (length ?ns) key) = Some (Some i)"
    "i < length ?ns" "nd_key (?ns ! i) = key"
    using tbl_find_key [OF sc n(1) key] ex by (fastforce split: option.splits)
  let ?t = "t\<lparr>nodes := ?ns[i := (?ns ! i)\<lparr>nd_val := val\<rparr>]\<rparr>"
  have ky: "kyf (nodes ?t) = kyf ?ns" and nx: "nxf (nodes ?t) = nxf ?ns"
    using i by (auto simp: kyf_def nxf_def fun_eq_iff nth_list_update)
  have "node_free (nodes ?t ! firstfree t)"
    using wf i by (auto simp: wf_table_def node_free_def nth_list_update)
  then have "wf_table hsh ?t"
    using wf ky nx by (simp add: wf_table_def wf_size_def scatter_nodes_def nkeys_def)
  moreover have "table_map ?t = (table_map t)(key \<mapsto> val)"
    unfolding table_map_def using nmap_update_val [OF scatter_inj [OF sc] i(2,3) key] by simp
  ultimately show ?thesis using i key n(2) by (auto simp: NewSlot_f.simps(2) Let_def)
qed

lemma NewSlot_f_absent:
  assumes wf: "wf_table hsh t" and key: "key \<noteq> ONull" and abs: "\<And>i. kyf (nodes t) i \<noteq> key"
  obtains (inserted) t' where "NewSlot_f (Suc d) hsh t key val = Some (t', True)" "wf_table hsh t'"
      "table_map t' = (table_map t)(key \<mapsto> val)" "numofnodes t' = numofnodes t"
      "freshly_filled t \<Longrightarrow> freshly_filled t'" "usednodes t' = usednodes t + 1"
  | (full) ns1 p where "placed hsh (nodes t) (firstfree t) key ns1 p"
      "\<forall>i \<le> firstfree t. \<not> node_free (ns1 ! i)"
      "NewSlot_f (Suc d) hsh t key val = do {
         t1 \<leftarrow> Rehash_with (NewSlot_f d hsh) True (t\<lparr>nodes := ns1, firstfree := 0\<rparr>);
         NewSlot_f d hsh t1 key val }"
proof -
  let ?ns = "nodes t"
  obtain k where n: "length ?ns = 2 ^ k" "numofnodes t = length ?ns" "2 \<le> k"
    using wf by (rule wf_table_size)
  have sc: "scatter_nodes hsh (Suc (firstfree t)) ?ns" using wf by (simp add: wf_table_def)
  obtain r where r: "tbl_find ?ns key (mainpos hsh (length ?ns) key) = Some r"
    "case r of Some i \<Rightarrow> i < length ?ns \<and> nd_key (?ns ! i) = key | None \<Rightarrow> \<forall>i. kyf ?ns i \<noteq> key"
    using tbl_find_key [OF sc n(1) key] by blast
  have "r = None"
  proof (cases r)
    case (Some i)
    with r(2) have "kyf ?ns i = key" by (simp add: kyf_def)
    with abs show ?thesis by simp
  qed
  with r(1) n(2) have find: "tbl_find ?ns key (mainpos hsh (numofnodes t) key) = Some None" by simp
  obtain ns p where pl: "place_node hsh t (mainpos hsh (numofnodes t) key) = Some (ns, p)"
    "placed hsh ?ns (firstfree t) key (ns[p := (ns ! p)\<lparr>nd_key := key\<rparr>]) p"
    using place_node_placed [OF wf key abs] by blast
  let ?ns1 = "ns[p := (ns ! p)\<lparr>nd_key := key\<rparr>]"
  obtain f b where cf: "correct_firstfree ?ns1 (firstfree t) = (f, b)" by fastforce
  show thesis
  proof (cases b)
    case True
    with cf have cf': "correct_firstfree ?ns1 (firstfree t) = (f, True)" by simp
    let ?t' = "t\<lparr>nodes := ?ns1[p := (?ns1 ! p)\<lparr>nd_val := val\<rparr>], firstfree := f,
                     usednodes := usednodes t + 1\<rparr>"
    have "NewSlot_f (Suc d) hsh t key val = Some (?t', True)"
      using key find pl(1) cf' by (simp add: NewSlot_f.simps(2) Let_def)
    then show ?thesis
      using placed_done [OF wf key pl(2) cf' refl, of val] by (intro inserted [of ?t']) auto
  next
    case False
    with cf correct_firstfree_spec [OF cf]
    have cf': "correct_firstfree ?ns1 (firstfree t) = (0, False)"
      "\<forall>i \<le> firstfree t. \<not> node_free (?ns1 ! i)" by auto
    have "NewSlot_f (Suc d) hsh t key val = do {
         t1 \<leftarrow> Rehash_with (NewSlot_f d hsh) True (t\<lparr>nodes := ?ns1, firstfree := 0\<rparr>);
         NewSlot_f d hsh t1 key val }"
      using key find pl(1) cf' by (simp add: NewSlot_f.simps(2) Let_def)
    with pl(2) cf'(2) show ?thesis by (rule full)
  qed
qed

subsection \<open>Rehash\<close>

lemma node_free_empty: "node_free empty_node"
  by (simp add: node_free_def empty_node_def)

lemma fresh_AllocNodes:
  assumes "n = 2 ^ k" "2 \<le> k"
  shows "wf_table hsh ((AllocNodes n t)\<lparr>usednodes := 0\<rparr>)"
    and "freshly_filled (AllocNodes n t)"
    and "table_map ((AllocNodes n t)\<lparr>usednodes := 0\<rparr>) = Map.empty"
    and "numofnodes (AllocNodes n t) = n"
proof -
  let ?ns = "replicate n empty_node"
  have pos: "0 < n" using assms by simp
  have nx: "nxf ?ns = (\<lambda>_. None)" and ky: "kyf ?ns = (\<lambda>_. ONull)"
    by (auto simp: nxf_def kyf_def empty_node_def)
  show "wf_table hsh ((AllocNodes n t)\<lparr>usednodes := 0\<rparr>)"
    using assms pos unfolding wf_table_def wf_size_def scatter_nodes_def
    by (auto simp: AllocNodes_def nx [unfolded assms(1)] ky [unfolded assms(1)] scatter_empty
        nkeys_def node_free_empty)
  show "freshly_filled (AllocNodes n t)"
    unfolding freshly_filled_def by (auto simp: AllocNodes_def nx)
  show "table_map ((AllocNodes n t)\<lparr>usednodes := 0\<rparr>) = Map.empty"
    by (auto simp: table_map_def AllocNodes_def nmap_def find_None_iff empty_node_def fun_eq_iff)
  show "numofnodes (AllocNodes n t) = n" by (simp add: AllocNodes_def)
qed

text \<open>A table that is being refilled never runs out of free positions.\<close>

lemma NewSlot_f_fresh:
  assumes wf: "wf_table hsh t" and fr: "freshly_filled t" and key: "key \<noteq> ONull" "table_map t key = None"
    and room: "usednodes t + 1 < int (numofnodes t)"
  shows "\<exists>t'. NewSlot_f (Suc d) hsh t key val = Some (t', True) \<and> wf_table hsh t' \<and>
    freshly_filled t' \<and> table_map t' = (table_map t)(key \<mapsto> val) \<and>
    numofnodes t' = numofnodes t \<and> usednodes t' = usednodes t + 1"
proof -
  have abs: "kyf (nodes t) i \<noteq> key" for i
    using key by (simp add: table_map_def nmap_None_iff)
  show ?thesis
  proof (rule NewSlot_f_absent [OF wf key(1) abs, of d val], goal_cases)
    case (1 t')
    with fr show ?case by blast
  next
    case (2 ns1 p)
    have n: "numofnodes t = length (nodes t)" "firstfree t < length (nodes t)"
      using wf by (auto simp: wf_table_def wf_size_def)
    have len: "length ns1 = length (nodes t)" using 2(1) by (simp add: placed_def)
    have nk1: "nxf ns1 i \<noteq> None \<Longrightarrow> kyf ns1 i \<noteq> ONull" for i
      using 2(1) fr by (auto simp: placed_def freshly_filled_def)
    have "kyf ns1 i \<noteq> ONull" if "i < length ns1" for i
    proof (cases "i \<le> firstfree t")
      case True
      then show ?thesis using 2(2) that nk1 [of i] by (auto simp: node_free_iff)
    next
      case False
      then show ?thesis using 2(1) fr that len by (auto simp: placed_def freshly_filled_def)
    qed
    then have "{i. i < length ns1 \<and> kyf ns1 i \<noteq> ONull} = {..<length ns1}" by auto
    then have "nkeys ns1 = length ns1" by (simp add: nkeys_def)
    moreover have "nkeys ns1 = Suc (nkeys (nodes t))" using 2(1) by (simp add: placed_def)
    ultimately have "usednodes t + 1 = int (numofnodes t)"
      using wf len n by (simp add: wf_table_def)
    with room show ?case by simp
  qed
qed

lemma reinsert_ok:
  assumes "wf_table hsh t" "freshly_filled t"
    and "distinct (map nd_key (filter (\<lambda>nd. nd_key nd \<noteq> ONull) ns))"
    and "\<And>nd. nd \<in> set ns \<Longrightarrow> table_map t (nd_key nd) = None"
    and "usednodes t + int (length (filter (\<lambda>nd. nd_key nd \<noteq> ONull) ns)) < int (numofnodes t)"
  shows "\<exists>t'. reinsert (NewSlot_f (Suc d) hsh) ns t = Some t' \<and> wf_table hsh t' \<and>
    table_map t' = table_map t ++ nmap ns \<and> numofnodes t' = numofnodes t"
  using assms
proof (induction ns arbitrary: t)
  case Nil
  then show ?case by simp
next
  case (Cons nd ns)
  show ?case
  proof (cases "nd_key nd = ONull")
    case True
    with Cons show ?thesis by (simp add: nmap_Cons)
  next
    case False
    obtain t1 where t1: "NewSlot_f (Suc d) hsh t (nd_key nd) (nd_val nd) = Some (t1, True)"
      "wf_table hsh t1" "freshly_filled t1" "table_map t1 = (table_map t)(nd_key nd \<mapsto> nd_val nd)"
      "numofnodes t1 = numofnodes t" "usednodes t1 = usednodes t + 1"
      using NewSlot_f_fresh [OF Cons.prems(1,2) False, of d "nd_val nd"] Cons.prems(4,5) False by auto
    have notin: "nd_key nd \<notin> nd_key ` set ns"
      using Cons.prems(3) False by auto
    have ne: "\<forall>x \<in> set ns. nd_key x \<noteq> nd_key nd" using notin by (metis imageI)
    then have nn: "nmap ns (nd_key nd) = None" by (simp add: nmap_def find_None_iff)
    have "table_map t1 (nd_key n) = None" if "n \<in> set ns" for n
      using t1(4) ne that Cons.prems(4) [of n] by auto
    then obtain t' where "reinsert (NewSlot_f (Suc d) hsh) ns t1 = Some t'" "wf_table hsh t'"
      "table_map t' = table_map t1 ++ nmap ns" "numofnodes t' = numofnodes t1"
      using Cons.IH [OF t1(2,3)] Cons.prems(3,5) False t1(5,6) by auto
    with t1 False nn show ?thesis
      by (auto simp: nmap_Cons map_add_def fun_eq_iff split: option.splits)
  qed
qed

lemma distinct_keys_filter:
  "inj_keys ns \<Longrightarrow> distinct (map nd_key (filter (\<lambda>nd. nd_key nd \<noteq> ONull) ns))"
proof (induction ns)
  case Nil
  then show ?case by simp
next
  case (Cons nd ns)
  have inj: "inj_keys ns"
    unfolding inj_keys_def
  proof (intro allI impI)
    fix i j assume "kyf ns i = kyf ns j" "kyf ns i \<noteq> ONull"
    then have "kyf (nd # ns) (Suc i) = kyf (nd # ns) (Suc j)" "kyf (nd # ns) (Suc i) \<noteq> ONull"
      by (auto simp: kyf_def split: if_splits)
    with Cons.prems show "i = j" unfolding inj_keys_def by blast
  qed
  have "nd_key nd \<noteq> nd_key (ns ! i)" if "i < length ns" "nd_key nd \<noteq> ONull" for i
    using Cons.prems [unfolded inj_keys_def, rule_format, of 0 "Suc i"] that by (auto simp: kyf_def)
  then have "nd_key nd \<noteq> ONull \<Longrightarrow> nd_key nd \<notin> nd_key ` set ns"
    by (metis imageE in_set_conv_nth)
  with Cons.IH [OF inj] show ?case by auto
qed

text \<open>
  \<open>Rehash\<close> keeps the map.  The table may hold one key more than \<open>usednodes\<close>
  counts: that is how \<^verbatim>\<open>NewSlot\<close> calls it, the new key already written.
\<close>

lemma Rehash_with_ok:
  assumes inj: "inj_keys (nodes t)" and sz: "wf_size t"
    and u: "usednodes t = int u" "u \<le> nkeys (nodes t)" "nkeys (nodes t) \<le> Suc u"
    and wf: "\<not> force \<Longrightarrow> wf_table hsh t"
  shows "\<exists>t'. Rehash_with (NewSlot_f (Suc d) hsh) force t = Some t' \<and> wf_table hsh t' \<and>
    table_map t' = table_map t"
proof -
  let ?n = "numofnodes t" and ?ns = "nodes t"
  obtain k where k: "length ?ns = 2 ^ k" "2 \<le> k" and n: "?n = length ?ns"
    using sz unfolding wf_size_def by blast
  obtain m where m: "k = Suc (Suc m)" using k(2) by (metis add_2_eq_Suc le_Suc_ex)
  have n4: "?n = 4 * 2 ^ m" using k n m by simp
  have refill: "\<exists>t'. reinsert (NewSlot_f (Suc d) hsh) ?ns ((AllocNodes sz t)\<lparr>usednodes := 0\<rparr>) = Some t'
      \<and> wf_table hsh t' \<and> table_map t' = table_map t"
    if "sz = 2 ^ k'" "2 \<le> k'" "nkeys ?ns < sz" for sz k'
  proof -
    let ?t0 = "(AllocNodes sz t)\<lparr>usednodes := 0\<rparr>"
    have "freshly_filled ?t0" using fresh_AllocNodes(2) [OF that(1,2)]
      by (simp add: freshly_filled_def)
    then show ?thesis
      using reinsert_ok [OF fresh_AllocNodes(1) [OF that(1,2), of hsh t] _ distinct_keys_filter [OF inj], where d = d]
        fresh_AllocNodes(3,4) [OF that(1,2)] that(3) nkeys_filter [of ?ns]
      by (auto simp: table_map_def)
  qed
  have c: "nkeys ?ns \<le> ?n" using nkeys_le n by simp
  have ge4: "\<not> ?n < 4" using n4 by simp
  show ?thesis
  proof (cases "int u \<ge> int (?n - ?n div 4)")
    case True
    have "?n * 2 = 2 ^ Suc k" using n k by simp
    moreover have "nkeys ?ns < ?n * 2" using c n4 by (simp add: le_less_trans)
    ultimately show ?thesis
      using refill [of "?n * 2" "Suc k"] True u(1) ge4 n k(2) by (simp add: Rehash_with_def Let_def)
  next
    case False
    show ?thesis
    proof (cases "int u \<le> int (?n div 4) \<and> ?n > MINPOWER2")
      case True
      then have "0 < m" using n4 by (cases m) (auto simp: MINPOWER2_def)
      then obtain m' where m': "m = Suc m'" by (cases m) auto
      have n8: "?n = 8 * 2 ^ m'" using n4 m' by simp
      have "nkeys ?ns \<le> Suc (2 * 2 ^ m')" using True u(3) n8 by linarith
      also have "\<dots> < 4 * 2 ^ m'"
      proof -
        have "(1::nat) \<le> 2 ^ m'" by simp
        then show ?thesis by linarith
      qed
      finally have "nkeys ?ns < ?n div 2" using n8 by simp
      moreover have "?n div 2 = 2 ^ Suc m" using n4 by simp
      ultimately show ?thesis
        using refill [of "?n div 2" "Suc m"] True False u(1) ge4 n \<open>0 < m\<close>
        by (simp add: Rehash_with_def Let_def)
    next
      case nohalf: False
      show ?thesis
      proof (cases force)
        case True
        have "u < ?n - ?n div 4" using False by linarith
        then have "nkeys ?ns < ?n" using u(3) n4 by simp
        then show ?thesis
          using refill [of ?n k] True False nohalf u(1) ge4 n k by (auto simp: Rehash_with_def Let_def)
      next
        case nf: False
        then show ?thesis
          using wf nohalf False u(1) ge4 by (auto simp: Rehash_with_def Let_def)
      qed
    qed
  qed
qed

subsection \<open>Every operation on every table\<close>

lemma NewSlot_f_ok:
  assumes wf: "wf_table hsh t" and key: "key \<noteq> ONull"
  shows "\<exists>t' b. NewSlot_f (Suc (Suc d)) hsh t key val = Some (t', b) \<and> wf_table hsh t' \<and>
    table_map t' = (table_map t)(key \<mapsto> val)"
proof (cases "\<exists>i. kyf (nodes t) i = key")
  case True
  with NewSlot_f_found [OF wf key] show ?thesis by blast
next
  case False
  then have abs: "kyf (nodes t) i \<noteq> key" for i by simp
  show ?thesis
  proof (rule NewSlot_f_absent [OF wf key abs, of "Suc d" val], goal_cases)
    case (1 t')
    then show ?case by blast
  next
    case (2 ns1 p)
    let ?t1 = "t\<lparr>nodes := ns1, firstfree := 0\<rparr>"
    have len: "length ns1 = length (nodes t)" "p < length ns1" "nd_key (ns1 ! p) = key"
      and nk: "nkeys ns1 = Suc (nkeys (nodes t))"
      using 2(1) by (auto simp: placed_def)
    have "wf_size ?t1" using wf len by (simp add: wf_table_def wf_size_def)
    then obtain t2 where t2: "Rehash_with (NewSlot_f (Suc d) hsh) True ?t1 = Some t2"
      "wf_table hsh t2" "table_map t2 = table_map ?t1"
      using Rehash_with_ok [of ?t1 "nkeys (nodes t)" True hsh d] placed_inj [OF 2(1)] nk wf
      by (auto simp: wf_table_def)
    have "table_map t2 key \<noteq> None"
      using t2(3) len key by (auto simp: table_map_def nmap_None_iff kyf_def)
    then have "\<exists>i. kyf (nodes t2) i = key" by (auto simp: table_map_def nmap_None_iff)
    then obtain t3 where t3: "NewSlot_f (Suc d) hsh t2 key val = Some (t3, False)"
      "wf_table hsh t3" "table_map t3 = (table_map t2)(key \<mapsto> val)"
      using NewSlot_f_found [OF t2(2) key] by blast
    have "(nmap ns1)(key \<mapsto> val) = (nmap (nodes t))(key \<mapsto> val)"
    proof -
      let ?ns2 = "ns1[p := (ns1 ! p)\<lparr>nd_val := val\<rparr>]"
      have "inj_keys (nodes t)" using wf by (auto simp: wf_table_def dest: scatter_inj)
      then have "nmap ?ns2 = (nmap (nodes t))(key \<mapsto> val)"
        using placed_nmap [OF 2(1) _ key refl] by simp
      moreover have "nmap ?ns2 = (nmap ns1)(key \<mapsto> val)"
        by (rule nmap_update_val [OF placed_inj [OF 2(1)] len(2,3) key])
      ultimately show ?thesis by simp
    qed
    then have "table_map t3 = (table_map t)(key \<mapsto> val)"
      using t3(3) t2(3) by (simp add: table_map_def)
    with 2(3) t2(1) t3 show ?case by auto
  qed
qed

lemma newslot_ok [sq_inv]:
  assumes "wf_table hsh t" "key \<noteq> ONull"
  shows "\<exists>t' b. NewSlot hsh t key val = Some (t', b) \<and> wf_table hsh t' \<and>
    table_map t' = (table_map t)(key \<mapsto> val)"
  using NewSlot_f_ok [OF assms, of 0] by (simp add: NewSlot_def numeral_2_eq_2)

lemma Rehash_ok:
  assumes "inj_keys (nodes t)" "wf_size t"
    and "usednodes t = int u" "u \<le> nkeys (nodes t)" "nkeys (nodes t) \<le> Suc u"
    and "\<not> force \<Longrightarrow> wf_table hsh t"
  shows "\<exists>t'. Rehash hsh force t = Some t' \<and> wf_table hsh t' \<and> table_map t' = table_map t"
  using Rehash_with_ok [OF assms, where d = "Suc 0"]
  by (simp add: Rehash_def NewSlot_def numeral_2_eq_2)

lemma wf_table_find:
  assumes wf: "wf_table hsh t" and key: "key \<noteq> ONull"
  obtains (found) i where "tbl_find (nodes t) key (mainpos hsh (numofnodes t) key) = Some (Some i)"
      "i < length (nodes t)" "nd_key (nodes t ! i) = key"
      "table_map t key = Some (nd_val (nodes t ! i))"
  | (absent) "tbl_find (nodes t) key (mainpos hsh (numofnodes t) key) = Some None"
      "table_map t key = None"
proof -
  let ?ns = "nodes t"
  obtain k where n: "length ?ns = 2 ^ k" "numofnodes t = length ?ns" "2 \<le> k"
    using wf by (rule wf_table_size)
  have sc: "scatter_nodes hsh (Suc (firstfree t)) ?ns" using wf by (simp add: wf_table_def)
  obtain r where r: "tbl_find ?ns key (mainpos hsh (length ?ns) key) = Some r"
    "case r of Some i \<Rightarrow> i < length ?ns \<and> nd_key (?ns ! i) = key | None \<Rightarrow> \<forall>i. kyf ?ns i \<noteq> key"
    using tbl_find_key [OF sc n(1) key] by blast
  show thesis
  proof (cases r)
    case None
    with r n(2) absent show ?thesis by (simp add: table_map_def nmap_None_iff)
  next
    case (Some i)
    then have "binds ?ns key (nd_val (?ns ! i))" using r key by (auto simp: binds_def)
    then have "table_map t key = Some (nd_val (?ns ! i))"
      using nmap_Some_iff [OF scatter_inj [OF sc]] by (simp add: table_map_def)
    with Some r n(2) found show ?thesis by simp
  qed
qed

lemma tbl_Get_eq [sq_inv]:
  assumes "wf_table hsh t"
  shows "tbl_Get hsh realval t key = Some (map_option realval (table_map t key))"
proof (cases "key = ONull")
  case True
  then show ?thesis by (simp add: tbl_Get_def table_map_def)
next
  case False
  from assms this show ?thesis
    by (cases rule: wf_table_find) (simp_all add: tbl_Get_def False)
qed

lemma wf_table_update_val:
  assumes wf: "wf_table hsh t" and i: "i < length (nodes t)"
  shows "wf_table hsh (t\<lparr>nodes := (nodes t)[i := (nodes t ! i)\<lparr>nd_val := val\<rparr>]\<rparr>)"
proof -
  let ?t = "t\<lparr>nodes := (nodes t)[i := (nodes t ! i)\<lparr>nd_val := val\<rparr>]\<rparr>"
  have ky: "kyf (nodes ?t) = kyf (nodes t)" and nx: "nxf (nodes ?t) = nxf (nodes t)"
    using i by (auto simp: kyf_def nxf_def fun_eq_iff nth_list_update)
  have "node_free (nodes ?t ! firstfree t)"
    using wf i by (auto simp: wf_table_def node_free_def nth_list_update)
  then show ?thesis
    using wf ky nx by (simp add: wf_table_def wf_size_def scatter_nodes_def nkeys_def)
qed

lemma tbl_Set_ok [sq_inv]:
  assumes wf: "wf_table hsh t" and key: "key \<noteq> ONull"
  shows "\<exists>t'. tbl_Set hsh t key val = Some (t', table_map t key \<noteq> None) \<and> wf_table hsh t' \<and>
    table_map t' = (if table_map t key = None then table_map t else (table_map t)(key \<mapsto> val))"
  using wf key
proof (cases rule: wf_table_find)
  case (found i)
  have "table_map (t\<lparr>nodes := (nodes t)[i := (nodes t ! i)\<lparr>nd_val := val\<rparr>]\<rparr>) = (table_map t)(key \<mapsto> val)"
    unfolding table_map_def
    using nmap_update_val [OF scatter_inj found(2,3) key] wf by (auto simp: wf_table_def)
  with found wf_table_update_val [OF wf found(2)] show ?thesis by (simp add: tbl_Set_def)
next
  case absent
  with wf show ?thesis by (simp add: tbl_Set_def)
qed

lemma nmap_delete:
  assumes "inj_keys ns" "i < length ns" "nd_key (ns ! i) = k" "k \<noteq> ONull"
    and ns': "ns' = ns[i := (ns ! i)\<lparr>nd_val := ONull, nd_key := ONull\<rparr>]"
  shows "nmap ns' = (nmap ns)(k := None)" and "inj_keys ns'" and "nkeys ns = Suc (nkeys ns')"
proof -
  have ky: "kyf ns' = (kyf ns)(i := ONull)" using assms by simp
  show inj: "inj_keys ns'" using assms(1) unfolding inj_keys_def ky by auto
  have uniq: "nd_key (ns ! j) = k \<Longrightarrow> j < length ns \<Longrightarrow> j = i" for j
    using assms unfolding inj_keys_def kyf_def by metis
  have b: "binds ns' k' v \<longleftrightarrow> k' \<noteq> k \<and> binds ns k' v" for k' v
  proof -
    have "binds ns' k' v \<longleftrightarrow> k' \<noteq> ONull \<and>
        (\<exists>j < length ns. j \<noteq> i \<and> nd_key (ns ! j) = k' \<and> nd_val (ns ! j) = v)"
    proof -
      have "\<And>j. j < length ns \<Longrightarrow> nd_key (ns' ! j) = (if j = i then ONull else nd_key (ns ! j))"
        "\<And>j. j \<noteq> i \<Longrightarrow> nd_val (ns' ! j) = nd_val (ns ! j)" "length ns' = length ns"
        by (simp_all add: ns' nth_list_update)
      then show ?thesis unfolding binds_def by metis
    qed
    also have "\<dots> \<longleftrightarrow> k' \<noteq> k \<and> binds ns k' v"
      unfolding binds_def using assms(2-4) uniq by metis
    finally show ?thesis .
  qed
  show "nmap ns' = (nmap ns)(k := None)"
    by (rule nmap_eqI [OF inj]) (simp add: b nmap_Some_iff [OF assms(1)])
  show "nkeys ns = Suc (nkeys ns')"
    by (rule nkeys_add [of _ _ i]) (use assms ky in \<open>auto simp: kyf_def\<close>)
qed

lemma tbl_Remove_ok [sq_inv]:
  assumes wf: "wf_table hsh t" and key: "key \<noteq> ONull"
  shows "\<exists>t'. tbl_Remove hsh t key = Some t' \<and> wf_table hsh t' \<and>
    table_map t' = (table_map t)(key := None)"
  using wf key
proof (cases rule: wf_table_find)
  case (found i)
  let ?ns = "(nodes t)[i := (nodes t ! i)\<lparr>nd_val := ONull, nd_key := ONull\<rparr>]"
  let ?t = "t\<lparr>nodes := ?ns, usednodes := usednodes t - 1\<rparr>"
  have inj: "inj_keys (nodes t)" using wf by (auto simp: wf_table_def dest: scatter_inj)
  note del = nmap_delete [OF inj found(2,3) key refl]
  have nx: "nxf ?ns = nxf (nodes t)" and ky: "kyf ?ns = (kyf (nodes t))(i := ONull)"
    using found(2) by (auto simp: nxf_def fun_eq_iff nth_list_update)
  have used: "usednodes ?t = int (nkeys ?ns)" using wf del(3) by (simp add: wf_table_def)
  have "node_free (?ns ! firstfree t)"
    using wf found(2) by (auto simp: wf_table_def node_free_def nth_list_update)
  moreover have "scatter_nodes hsh (Suc (firstfree t)) ?ns"
    using wf unfolding wf_table_def scatter_nodes_def nx ky by (auto intro: scatter_remove)
  moreover have sz: "wf_size ?t" using wf by (simp add: wf_table_def wf_size_def)
  ultimately have "wf_table hsh ?t" using wf used by (simp add: wf_table_def)
  then obtain t' where "Rehash hsh False ?t = Some t'" "wf_table hsh t'" "table_map t' = table_map ?t"
    using Rehash_ok [of ?t "nkeys ?ns" False hsh] del(2) sz used by auto
  with found del(1) show ?thesis by (simp add: tbl_Remove_def table_map_def)
next
  case absent
  with wf show ?thesis by (auto simp: tbl_Remove_def)
qed

subsection \<open>Creation, clearing, iteration, cloning\<close>

lemma SQTable_new_ok:
  shows "wf_table hsh (SQTable_new n)" "table_map (SQTable_new n) = Map.empty"
    and "freshly_filled (SQTable_new n)" and "n \<le> numofnodes (SQTable_new n)"
proof -
  let ?p = "while (\<lambda>p. n > p) (\<lambda>p. 2 * p) MINPOWER2"
  have "(\<exists>k \<ge> 2. ?p = 2 ^ k) \<and> n \<le> ?p"
  proof (rule while_rule [where P = "\<lambda>p. \<exists>k \<ge> 2. p = 2 ^ k" and r = "measure (\<lambda>p. n - p)"])
    show "\<exists>k \<ge> 2. MINPOWER2 = 2 ^ k" by (rule exI [of _ 2]) (simp add: MINPOWER2_def)
    fix p :: nat
    assume "\<exists>k \<ge> 2. p = 2 ^ k"
    then obtain k where k: "2 \<le> k" "p = 2 ^ k" by blast
    then have "2 * p = 2 ^ Suc k" by simp
    then show "\<exists>k \<ge> 2. 2 * p = 2 ^ k" using k(1) le_SucI by blast
    show "p < n \<Longrightarrow> (2 * p, p) \<in> measure (\<lambda>p. n - p)" using k by (simp add: diff_less_mono2)
    show "\<not> p < n \<Longrightarrow> (\<exists>k \<ge> 2. p = 2 ^ k) \<and> n \<le> p" using k by auto
  qed simp
  then obtain k where k: "?p = 2 ^ k" "2 \<le> k" and ge: "n \<le> ?p" by blast
  let ?t0 = "\<lparr>firstfree = 0, nodes = [], numofnodes = 0, usednodes = 0, tdelegate = None\<rparr>"
  have eq: "SQTable_new n = (AllocNodes ?p ?t0)\<lparr>usednodes := 0\<rparr>"
    by (simp add: SQTable_new_def AllocNodes_def Let_def)
  note f = fresh_AllocNodes [OF k, where t = ?t0]
  show "wf_table hsh (SQTable_new n)" "table_map (SQTable_new n) = Map.empty"
    unfolding eq using f by auto
  show "freshly_filled (SQTable_new n)"
    unfolding eq using f(2) by (simp add: freshly_filled_def)
  show "n \<le> numofnodes (SQTable_new n)" unfolding eq using f(4) ge by simp
qed

lemma tbl_Clear_ok:
  assumes "wf_table hsh t"
  shows "\<exists>t'. tbl_Clear hsh t = Some t' \<and> wf_table hsh t' \<and> table_map t' = Map.empty"
proof -
  let ?t = "(ClearNodes t)\<lparr>usednodes := 0\<rparr>"
  have ky: "kyf (nodes ?t) = (\<lambda>_. ONull)" by (auto simp: ClearNodes_def kyf_def)
  have "wf_size ?t" using assms by (simp add: wf_table_def wf_size_def ClearNodes_def)
  then obtain t' where "Rehash hsh True ?t = Some t'" "wf_table hsh t'" "table_map t' = table_map ?t"
    using Rehash_ok [of ?t 0 True hsh] ky by (auto simp: inj_keys_def nkeys_def)
  moreover have "table_map ?t = Map.empty"
    by (auto simp: table_map_def nmap_def find_None_iff ClearNodes_def fun_eq_iff)
  ultimately show ?thesis by (simp add: tbl_Clear_def)
qed

text \<open>The scan of \<^verbatim>\<open>Next\<close> stops at the next key of the array.\<close>

lemma tbl_next_from_filter:
  assumes "n = length ns"
  shows "filter (\<lambda>nd. nd_key nd \<noteq> ONull) (drop idx ns) =
    (case tbl_next_from ns n idx of None \<Rightarrow> []
     | Some i \<Rightarrow> ns ! i # filter (\<lambda>nd. nd_key nd \<noteq> ONull) (drop (Suc i) ns))"
  using assms
proof (induction ns n idx rule: tbl_next_from.induct)
  case (1 ns n idx)
  show ?case
  proof (cases "idx < n")
    case True
    with 1 show ?thesis
      by (subst tbl_next_from.simps) (auto simp: Cons_nth_drop_Suc [symmetric])
  next
    case False
    with 1(2) show ?thesis by (subst tbl_next_from.simps) simp
  qed
qed

text \<open>
  The loop \<^verbatim>\<open>while((i = t->Next(false, i, key, val)) != -1)\<close> of the callers, collecting
  what it visits.
\<close>

function tbl_visit :: "sqtable \<Rightarrow> nat \<Rightarrow> (sqobject \<times> sqobject) list" where
  "tbl_visit t idx =
     (case tbl_next_from (nodes t) (numofnodes t) idx of
        None \<Rightarrow> []
      | Some i \<Rightarrow> (nd_key (nodes t ! i), nd_val (nodes t ! i)) # tbl_visit t (Suc i))"
  by pat_completeness auto
termination
  by (relation "measure (\<lambda>(t, idx). numofnodes t - idx)") (auto dest!: tbl_next_from_bounds)
declare tbl_visit.simps [simp del]

lemma tbl_visit_eq:
  assumes "numofnodes t = length (nodes t)"
  shows "tbl_visit t idx =
    map (\<lambda>nd. (nd_key nd, nd_val nd)) (filter (\<lambda>nd. nd_key nd \<noteq> ONull) (drop idx (nodes t)))"
  using assms
proof (induction t idx rule: tbl_visit.induct)
  case (1 t idx)
  show ?case
  proof (cases "tbl_next_from (nodes t) (numofnodes t) idx")
    case None
    then show ?thesis
      using tbl_next_from_filter [OF 1(2), of idx] by (subst tbl_visit.simps) simp
  next
    case (Some i)
    with 1 show ?thesis
      using tbl_next_from_filter [OF 1(2), of idx] by (subst tbl_visit.simps) simp
  qed
qed

lemma tbl_visit_all:
  assumes "wf_table hsh t"
  shows "distinct (map fst (tbl_visit t 0))" and "map_of (tbl_visit t 0) = table_map t"
proof -
  have n: "numofnodes t = length (nodes t)" and inj: "inj_keys (nodes t)"
    using assms by (auto simp: wf_table_def wf_size_def dest: scatter_inj)
  show "distinct (map fst (tbl_visit t 0))"
    using distinct_keys_filter [OF inj] by (simp add: tbl_visit_eq [OF n] comp_def)
  have "map_of (map (\<lambda>nd. (nd_key nd, nd_val nd)) (filter (\<lambda>nd. nd_key nd \<noteq> ONull) ns)) = nmap ns" for ns
    by (induction ns) (auto simp: nmap_Cons)
  then show "map_of (tbl_visit t 0) = table_map t"
    by (simp add: tbl_visit_eq [OF n] table_map_def)
qed

lemma tbl_clone_from_ok:
  assumes "inj_keys (nodes t)" "numofnodes t = length (nodes t)" "wf_table hsh nt"
  shows "\<exists>nt'. tbl_clone_from hsh t ridx nt = Some nt' \<and> wf_table hsh nt' \<and>
    table_map nt' = table_map nt ++ map_of (rev (tbl_visit t ridx))"
  using assms
proof (induction hsh t ridx nt rule: tbl_clone_from.induct)
  case (1 hsh t ridx nt)
  show ?case
  proof (cases "tbl_next_from (nodes t) (numofnodes t) ridx")
    case None
    with 1 show ?thesis by (subst tbl_clone_from.simps, subst tbl_visit.simps) simp
  next
    case (Some i)
    let ?k = "nd_key (nodes t ! i)" and ?v = "nd_val (nodes t ! i)"
    have k: "?k \<noteq> ONull" using tbl_next_from_bounds [OF Some] by simp
    obtain nt1 b where nt1: "NewSlot hsh nt ?k ?v = Some (nt1, b)" "wf_table hsh nt1"
      "table_map nt1 = (table_map nt)(?k \<mapsto> ?v)"
      using newslot_ok [OF 1(4) k] by blast
    obtain nt' where "tbl_clone_from hsh t (Suc i) nt1 = Some nt'" "wf_table hsh nt'"
      "table_map nt' = table_map nt1 ++ map_of (rev (tbl_visit t (Suc i)))"
      using 1(1) [OF Some nt1(1) refl 1(2,3) nt1(2)] by blast
    with Some nt1 show ?thesis
      by (subst tbl_clone_from.simps, subst tbl_visit.simps)
        (auto simp: map_add_def fun_eq_iff split: option.splits)
  qed
qed

lemma tbl_Clone_ok:
  assumes wf: "wf_table hsh t"
  shows "\<exists>nt. tbl_Clone hsh t = Some nt \<and> wf_table hsh nt \<and> table_map nt = table_map t \<and>
    tdelegate nt = tdelegate t"
proof -
  have inj: "inj_keys (nodes t)" and n: "numofnodes t = length (nodes t)"
    using wf by (auto simp: wf_table_def wf_size_def dest: scatter_inj)
  obtain nt where nt: "tbl_clone_from hsh t 0 (SQTable_new (numofnodes t)) = Some nt"
    "wf_table hsh nt" "table_map nt = map_of (rev (tbl_visit t 0))"
    using tbl_clone_from_ok [OF inj n SQTable_new_ok(1) [of hsh "numofnodes t"], of 0]
    by (auto simp: SQTable_new_ok(2))
  moreover have "map_of (rev (tbl_visit t 0)) = table_map t"
    using tbl_visit_all [OF wf] by (metis map_of_eqI distinct_rev map_of_eq_Some_iff
        map_of_inject_set rev_map set_rev)
  ultimately show ?thesis
    by (auto simp: tbl_Clone_def wf_table_def wf_size_def table_map_def)
qed

subsection \<open>The table as a key-value store\<close>

definition tbl_insert ::
  "(sqobject \<Rightarrow> sqhash) \<Rightarrow> sqtable \<Rightarrow> sqobject \<Rightarrow> sqobject \<Rightarrow> sqtable option" where
  "tbl_insert hsh t key val = map_option fst (NewSlot hsh t key val)"

interpretation tbl: kv_store_del "wf_table hsh" "\<lambda>k. k \<noteq> ONull" table_map "tbl_insert hsh"
  "tbl_Remove hsh" usednodes for hsh
proof unfold_locales
  fix t k v
  assume wf: "wf_table hsh t"
  show "finite (dom (table_map t)) \<and> usednodes t = int (card (dom (table_map t)))"
  proof
    have "map_of (tbl_visit t 0) = table_map t" "distinct (map fst (tbl_visit t 0))"
      using tbl_visit_all [OF wf] by auto
    then have d: "dom (table_map t) = set (map fst (tbl_visit t 0))" by (metis dom_map_of_conv_image_fst set_map)
    then show "finite (dom (table_map t))" by simp
    have "card (dom (table_map t)) = length (tbl_visit t 0)"
      unfolding d using tbl_visit_all(1) [OF wf] by (metis distinct_card length_map)
    moreover have "numofnodes t = length (nodes t)" using wf by (simp add: wf_table_def wf_size_def)
    ultimately show "usednodes t = int (card (dom (table_map t)))"
      using wf by (simp add: tbl_visit_eq nkeys_filter wf_table_def)
  qed
  assume k: "k \<noteq> ONull"
  show "\<exists>t'. tbl_insert hsh t k v = Some t' \<and> wf_table hsh t' \<and> table_map t' = (table_map t)(k \<mapsto> v)"
    using newslot_ok [OF wf k, of v] by (auto simp: tbl_insert_def)
  show "\<exists>t'. tbl_Remove hsh t k = Some t' \<and> wf_table hsh t' \<and> table_map t' = (table_map t)(k := None)"
    by (rule tbl_Remove_ok [OF wf k])
qed

subsection \<open>Properties\<close>

text \<open>Sequences of the mutating operations, and what they mean for a map.\<close>

datatype tbl_op = OpNewSlot sqobject sqobject | OpSet sqobject sqobject | OpRemove sqobject | OpClear

fun op_key_ok :: "tbl_op \<Rightarrow> bool" where
  "op_key_ok (OpNewSlot k _) \<longleftrightarrow> k \<noteq> ONull"
| "op_key_ok (OpSet k _) \<longleftrightarrow> k \<noteq> ONull"
| "op_key_ok (OpRemove k) \<longleftrightarrow> k \<noteq> ONull"
| "op_key_ok OpClear \<longleftrightarrow> True"

fun tbl_step :: "(sqobject \<Rightarrow> sqhash) \<Rightarrow> tbl_op \<Rightarrow> sqtable \<Rightarrow> sqtable option" where
  "tbl_step hsh (OpNewSlot k v) t = map_option fst (NewSlot hsh t k v)"
| "tbl_step hsh (OpSet k v) t = map_option fst (tbl_Set hsh t k v)"
| "tbl_step hsh (OpRemove k) t = tbl_Remove hsh t k"
| "tbl_step hsh OpClear t = tbl_Clear hsh t"

fun tbl_run :: "(sqobject \<Rightarrow> sqhash) \<Rightarrow> tbl_op list \<Rightarrow> sqtable \<Rightarrow> sqtable option" where
  "tbl_run hsh [] t = Some t"
| "tbl_run hsh (a # as) t = do { t' \<leftarrow> tbl_step hsh a t; tbl_run hsh as t' }"

fun map_step :: "tbl_op \<Rightarrow> (sqobject \<rightharpoonup> sqobject) \<Rightarrow> (sqobject \<rightharpoonup> sqobject)" where
  "map_step (OpNewSlot k v) m = m(k \<mapsto> v)"
| "map_step (OpSet k v) m = (if m k = None then m else m(k \<mapsto> v))"
| "map_step (OpRemove k) m = m(k := None)"
| "map_step OpClear m = Map.empty"

lemma tbl_step_ok:
  assumes "wf_table hsh t" "op_key_ok a"
  shows "\<exists>t'. tbl_step hsh a t = Some t' \<and> wf_table hsh t' \<and> table_map t' = map_step a (table_map t)"
  using assms newslot_ok tbl_Set_ok tbl_Remove_ok tbl_Clear_ok
  by (cases a) (fastforce split: if_splits)+

lemma tbl_run_ok:
  "wf_table hsh t \<Longrightarrow> \<forall>a \<in> set as. op_key_ok a \<Longrightarrow>
    \<exists>t'. tbl_run hsh as t = Some t' \<and> wf_table hsh t' \<and> table_map t' = fold map_step as (table_map t)"
proof (induction as arbitrary: t)
  case Nil
  then show ?case by simp
next
  case (Cons a as)
  obtain t1 where "tbl_step hsh a t = Some t1" "wf_table hsh t1" "table_map t1 = map_step a (table_map t)"
    using tbl_step_ok [OF Cons.prems(1), of a] Cons.prems(2) by auto
  with Cons.IH [of t1] Cons.prems(2) show ?case by auto
qed

text \<open>
  C1.  A table of any initial capacity, taken through any sequence of \<^verbatim>\<open>NewSlot\<close>,
  \<^verbatim>\<open>Set\<close>, \<^verbatim>\<open>Remove\<close> and \<^verbatim>\<open>Clear\<close> with non-null keys, never loops or fails an
  assertion, and afterwards \<^verbatim>\<open>Get\<close> answers for every key what the finite map driven by
  the same operations answers, \<^verbatim>\<open>CountUsed\<close> is the number of bindings, and the table is
  well formed.
\<close>

theorem table_refines_map:
  assumes "\<forall>a \<in> set as. op_key_ok a"
  shows "\<exists>t. tbl_run hsh as (SQTable_new n) = Some t \<and> wf_table hsh t \<and>
    (\<forall>key. tbl_Get hsh realval t key = Some (map_option realval (fold map_step as Map.empty key))) \<and>
    usednodes t = int (card (dom (fold map_step as Map.empty)))"
proof -
  obtain t where t: "tbl_run hsh as (SQTable_new n) = Some t" "wf_table hsh t"
    "table_map t = fold map_step as Map.empty"
    using tbl_run_ok [OF SQTable_new_ok(1) assms, of hsh n] by (auto simp: SQTable_new_ok(2))
  with tbl.count_ok [OF t(2)] tbl_Get_eq [OF t(2)] show ?thesis by auto
qed

theorem table_refines_map_witness:
  "\<exists>t. tbl_run rawval [OpNewSlot (OInteger 1) (OBool True), OpNewSlot (OInteger 5) ONull,
       OpRemove (OInteger 1)] (SQTable_new 0) = Some t \<and>
     tbl_Get rawval id t (OInteger 5) = Some (Some ONull)"
  using table_refines_map [of "[OpNewSlot (OInteger 1) (OBool True), OpNewSlot (OInteger 5) ONull,
       OpRemove (OInteger 1)]" rawval 0 id]
  by auto

text \<open>
  \<^verbatim>\<open>NewSlot\<close> on a well-formed table terminates (whatever rehashing it triggers),
  keeps the invariant, binds exactly the given key, and reports a newly created slot only
  when the key was absent; one nested rehash is enough, so the fuel does not matter.
\<close>

theorem newslot_total:
  assumes "wf_table hsh t" "key \<noteq> ONull"
  shows "\<exists>t' b. NewSlot_f (d + 2) hsh t key val = Some (t', b) \<and> wf_table hsh t' \<and>
    table_map t' = (table_map t)(key \<mapsto> val) \<and> (b \<longrightarrow> table_map t key = None)"
proof (cases "table_map t key = None")
  case True
  with NewSlot_f_ok [OF assms, of d val] show ?thesis by auto
next
  case False
  then have "\<exists>i. kyf (nodes t) i = key" using assms(2) by (auto simp: table_map_def nmap_None_iff)
  with NewSlot_f_found [OF assms, of "Suc d" val] show ?thesis by auto
qed

theorem newslot_total_witness:
  "\<exists>t' b. NewSlot_f (0 + 2) rawval (SQTable_new 0) (OInteger 7) (OInteger 9) = Some (t', b) \<and>
    table_map t' (OInteger 7) = Some (OInteger 9)"
  using newslot_total [OF SQTable_new_ok(1) [of rawval 0], of "OInteger 7" 0 "OInteger 9"] by auto



text \<open>
  \<^verbatim>\<open>Clone\<close> terminates and yields a well-formed table with the same bindings and the
  same delegate.
\<close>

theorem clone_same_bindings:
  assumes "wf_table hsh t"
  shows "\<exists>nt. tbl_Clone hsh t = Some nt \<and> wf_table hsh nt \<and> table_map nt = table_map t \<and>
    tdelegate nt = tdelegate t"
  by (rule tbl_Clone_ok [OF assms])

theorem clone_same_bindings_witness:
  "\<exists>nt. tbl_Clone rawval (SQTable_new 3) = Some nt \<and> table_map nt = Map.empty"
  using clone_same_bindings [OF SQTable_new_ok(1), of rawval 3] SQTable_new_ok(2) by auto

text \<open>
  \<^verbatim>\<open>Set\<close> does not reject a null key: when the first node holds no key it finds that
  node, reports success, and the table represents the same map as before, so the write is
  lost silently.
\<close>

theorem set_null_key_succeeds:
  assumes "wf_table (HashObj strhash) t" "nd_key (nodes t ! 0) = ONull"
  shows "\<exists>t'. tbl_Set (HashObj strhash) t ONull val = Some (t', True) \<and>
    wf_table (HashObj strhash) t' \<and> table_map t' = table_map t"
proof -
  have "mainpos (HashObj strhash) n ONull = 0" for n
    by (simp add: mainpos_def HashObj_def hashptr_def)
  then have f: "tbl_find (nodes t) ONull (mainpos (HashObj strhash) (numofnodes t) ONull) = Some (Some 0)"
    using assms(2) by (subst tbl_find.simps) simp
  have l: "0 < length (nodes t)" using assms(1) by (auto simp: wf_table_def wf_size_def)
  let ?t = "t\<lparr>nodes := (nodes t)[0 := (nodes t ! 0)\<lparr>nd_val := val\<rparr>]\<rparr>"
  have "table_map ?t = table_map t"
  proof -
    have "\<exists>nd ns. nodes t = nd # ns \<and> nd_key nd = ONull" using l assms(2) by (cases "nodes t") auto
    then show ?thesis by (auto simp: table_map_def nmap_Cons)
  qed
  with f wf_table_update_val [OF assms(1) l, of val] show ?thesis by (simp add: tbl_Set_def)
qed

theorem set_null_key_succeeds_witness:
  "\<exists>t'. tbl_Set (HashObj (\<lambda>_. 0)) (SQTable_new 0) ONull (OInteger 1) = Some (t', True) \<and>
    table_map t' = Map.empty"
proof -
  have "kyf (nodes (SQTable_new 0)) 0 = ONull"
    using SQTable_new_ok(2) [of 0] by (metis nmap_None_iff table_map_def)
  moreover have "0 < length (nodes (SQTable_new 0))"
    using SQTable_new_ok(1) [of "HashObj (\<lambda>_. 0)" 0] by (auto simp: wf_table_def wf_size_def)
  ultimately have "nd_key (nodes (SQTable_new 0) ! 0) = ONull" by (simp add: kyf_def)
  from set_null_key_succeeds [OF SQTable_new_ok(1) this, where val = "OInteger 1"] SQTable_new_ok(2) [of 0]
  show ?thesis by auto
qed

text \<open>
  The flag that \<^verbatim>\<open>NewSlot\<close> returns ("true if a new slot has been created") is wrong
  when the insertion rehashes: the fourth key put into a four-node table is new, and the
  flag says it was already present.
\<close>

theorem newslot_flag_after_rehash:
  "case tbl_run (HashObj strhash) [OpNewSlot (OInteger 0) ONull, OpNewSlot (OInteger 1) ONull,
        OpNewSlot (OInteger 2) ONull] (SQTable_new 0) of
     None \<Rightarrow> False
   | Some t \<Rightarrow>
       tbl_Get (HashObj strhash) id t (OInteger 3) = Some None \<and>
       (case NewSlot (HashObj strhash) t (OInteger 3) (OBool True) of
          None \<Rightarrow> False
        | Some (t', created) \<Rightarrow>
            \<not> created \<and>
            tbl_Get (HashObj strhash) id t' (OInteger 3) = Some (Some (OBool True)))"
  by code_simp

end
