(* ===== verification/Sq_Vector.thy ===== *)
theory Sq_Vector
  imports Sq_Object Sq_Interfaces
begin

text \<open>
  The growing vector \<^verbatim>\<open>sqvector\<close> of \<^verbatim>\<open>squtils.h\<close> and the script array
  \<^verbatim>\<open>SQArray\<close> of \<^verbatim>\<open>sqarray.h\<close> built on it.  A vector is the list of its constructed
  elements (\<^verbatim>\<open>_vals[0.._size-1]\<close>) and the number of allocated cells.  Writing or reading
  a cell outside the constructed ones, and shrinking the allocation below them, is
  undefined behaviour in the C++; such operations return \<open>None\<close> here.
\<close>

record 'a sqvector =
  vals :: "'a list"
  allocated :: nat

abbreviation vsize :: "'a sqvector \<Rightarrow> nat" where
  "vsize v \<equiv> length (vals v)"

definition sqvector_new :: "'a sqvector" where
  "sqvector_new = \<lparr>vals = [], allocated = 0\<rparr>"

definition vec_realloc :: "nat \<Rightarrow> 'a sqvector \<Rightarrow> 'a sqvector" where
  "vec_realloc newsize v = v\<lparr>allocated := (if newsize > 0 then newsize else 4)\<rparr>"

definition vec_resize :: "'a sqvector \<Rightarrow> nat \<Rightarrow> 'a \<Rightarrow> 'a sqvector" where
  "vec_resize v newsize fill =
     (let v1 = (if newsize > allocated v then vec_realloc newsize v else v) in
      if newsize > vsize v1
      then v1\<lparr>vals := vals v1 @ replicate (newsize - vsize v1) fill\<rparr>
      else v1\<lparr>vals := take newsize (vals v1)\<rparr>)"

definition vec_copy :: "'a sqvector \<Rightarrow> 'a sqvector \<Rightarrow> 'a \<Rightarrow> 'a sqvector" where
  "vec_copy this v dflt =
     (let t1 = (if vsize this \<noteq> 0 then vec_resize this 0 dflt else this);
          t2 = (if vsize v > allocated t1 then vec_realloc (vsize v) t1 else t1)
      in t2\<lparr>vals := vals v\<rparr>)"

definition vec_reserve :: "'a sqvector \<Rightarrow> nat \<Rightarrow> 'a sqvector option" where
  "vec_reserve v newsize =
     (let v1 = vec_realloc newsize v in if vsize v \<le> allocated v1 then Some v1 else None)"

definition vec_shrinktofit :: "'a sqvector \<Rightarrow> 'a sqvector" where
  "vec_shrinktofit v = (if vsize v > 4 then vec_realloc (vsize v) v else v)"

definition vec_top :: "'a sqvector \<Rightarrow> 'a option" where
  "vec_top v = (if vals v = [] then None else Some (vals v ! (vsize v - 1)))"

definition vec_push_back :: "'a sqvector \<Rightarrow> 'a \<Rightarrow> 'a sqvector" where
  "vec_push_back v val =
     (let v1 = (if allocated v \<le> vsize v then vec_realloc (vsize v * 2) v else v)
      in v1\<lparr>vals := vals v1 @ [val]\<rparr>)"

definition vec_pop_back :: "'a sqvector \<Rightarrow> 'a sqvector option" where
  "vec_pop_back v = (if vals v = [] then None else Some (v\<lparr>vals := butlast (vals v)\<rparr>))"

text \<open>The loop of \<^verbatim>\<open>insert\<close> that moves the elements up: \<^verbatim>\<open>for(i = _size - 1; i > idx; i--)\<close>.\<close>

primrec shift_up :: "nat \<Rightarrow> nat \<Rightarrow> 'a list \<Rightarrow> 'a list" where
  "shift_up idx 0 xs = xs"
| "shift_up idx (Suc i) xs = (if Suc i > idx then shift_up idx i (xs[Suc i := xs ! i]) else xs)"

definition vec_insert :: "'a sqvector \<Rightarrow> nat \<Rightarrow> 'a \<Rightarrow> 'a \<Rightarrow> 'a sqvector option" where
  "vec_insert v idx val dflt =
     (let v1 = vec_resize v (vsize v + 1) dflt;
          xs = shift_up idx (vsize v1 - 1) (vals v1)
      in if idx < vsize v1 then Some (v1\<lparr>vals := xs[idx := val]\<rparr>) else None)"

definition vec_remove :: "'a sqvector \<Rightarrow> nat \<Rightarrow> 'a sqvector option" where
  "vec_remove v idx =
     (if idx < vsize v then Some (v\<lparr>vals := take idx (vals v) @ drop (Suc idx) (vals v)\<rparr>) else None)"

subsection \<open>SQArray\<close>

type_synonym sqarray = "sqobject sqvector"

definition SQArray_new :: "nat \<Rightarrow> sqarray" where
  "SQArray_new nsize = vec_resize sqvector_new nsize ONull"

definition arr_Finalize :: "sqarray \<Rightarrow> sqarray" where
  "arr_Finalize a = vec_resize a 0 ONull"

definition arr_Size :: "sqarray \<Rightarrow> nat" where
  "arr_Size a = vsize a"

definition arr_Get :: "(sqobject \<Rightarrow> sqobject) \<Rightarrow> sqarray \<Rightarrow> sqint \<Rightarrow> sqobject option" where
  "arr_Get realval a nidx =
     (if sint nidx \<ge> 0 \<and> sint nidx < int (vsize a)
      then Some (realval (vals a ! nat (sint nidx))) else None)"

definition arr_Set :: "sqarray \<Rightarrow> sqint \<Rightarrow> sqobject \<Rightarrow> sqarray \<times> bool" where
  "arr_Set a nidx val =
     (if sint nidx \<ge> 0 \<and> sint nidx < int (vsize a)
      then (a\<lparr>vals := (vals a)[nat (sint nidx) := val]\<rparr>, True) else (a, False))"

definition arr_Next ::
  "(sqobject \<Rightarrow> sqobject) \<Rightarrow> sqarray \<Rightarrow> sqobject \<Rightarrow> (sqint \<times> sqobject \<times> sqobject) option option" where
  "arr_Next realval a refpos = do {
     idx \<leftarrow> TranslateIndex refpos;
     Some (if unat idx < vsize a
           then Some (idx + 1, OInteger idx, realval (vals a ! unat idx)) else None)
   }"

definition arr_ShrinkIfNeeded :: "sqarray \<Rightarrow> sqarray" where
  "arr_ShrinkIfNeeded a = (if vsize a \<le> allocated a div 4 then vec_shrinktofit a else a)"

definition arr_Resize :: "sqarray \<Rightarrow> nat \<Rightarrow> sqobject \<Rightarrow> sqarray" where
  "arr_Resize a newsize fill = arr_ShrinkIfNeeded (vec_resize a newsize fill)"

definition arr_Append :: "sqarray \<Rightarrow> sqobject \<Rightarrow> sqarray" where
  "arr_Append a obj = vec_push_back a obj"

definition arr_Extend :: "sqarray \<Rightarrow> sqarray \<Rightarrow> sqarray" where
  "arr_Extend this a = fold (\<lambda>x t. arr_Append t x) (vals a) this"

definition arr_Top :: "sqarray \<Rightarrow> sqobject option" where
  "arr_Top a = vec_top a"

definition arr_Reserve :: "sqarray \<Rightarrow> nat \<Rightarrow> sqarray option" where
  "arr_Reserve a newsize = vec_reserve a newsize"

definition arr_Pop :: "sqarray \<Rightarrow> sqarray option" where
  "arr_Pop a = map_option arr_ShrinkIfNeeded (vec_pop_back a)"

definition arr_Insert :: "sqarray \<Rightarrow> sqint \<Rightarrow> sqobject \<Rightarrow> (sqarray \<times> bool) option" where
  "arr_Insert a idx val =
     (if sint idx < 0 \<or> sint idx > int (vsize a) then Some (a, False)
      else do { a' \<leftarrow> vec_insert a (nat (sint idx)) val ONull; Some (a', True) })"

definition arr_Remove :: "sqarray \<Rightarrow> sqint \<Rightarrow> (sqarray \<times> bool) option" where
  "arr_Remove a idx =
     (if sint idx < 0 \<or> sint idx \<ge> int (vsize a) then Some (a, False)
      else do { a' \<leftarrow> vec_remove a (nat (sint idx)); Some (arr_ShrinkIfNeeded a', True) })"

definition arr_Clone :: "sqarray \<Rightarrow> sqarray" where
  "arr_Clone a = vec_copy (SQArray_new 0) a ONull"

subsection \<open>Correctness\<close>

definition vec_ok :: "'a sqvector \<Rightarrow> bool" where
  "vec_ok v \<longleftrightarrow> vsize v \<le> allocated v"

lemmas vec_defs = sqvector_new_def vec_realloc_def vec_resize_def vec_copy_def vec_reserve_def
  vec_shrinktofit_def vec_top_def vec_push_back_def vec_pop_back_def vec_insert_def vec_remove_def
  Let_def

lemma vec_resize_ok [sq_inv]:
  "vec_ok v \<Longrightarrow> vec_ok (vec_resize v n x)"
  "vals (vec_resize v n x) = take n (vals v) @ replicate (n - vsize v) x"
  by (auto simp: vec_ok_def vec_defs min_def)

lemma vec_push_back_ok [sq_inv]:
  "vec_ok v \<Longrightarrow> vec_ok (vec_push_back v x)"
  "vals (vec_push_back v x) = vals v @ [x]"
  by (cases "vals v"; auto simp: vec_ok_def vec_defs)+

lemma vec_pop_back_ok [sq_inv]:
  "vec_ok v \<Longrightarrow> vals v \<noteq> [] \<Longrightarrow>
    \<exists>v'. vec_pop_back v = Some v' \<and> vec_ok v' \<and> vals v' = butlast (vals v)"
  by (cases "vals v" rule: rev_cases; simp add: vec_ok_def vec_pop_back_def)

interpretation vec: growable vec_ok vals vec_push_back vec_pop_back vec_resize
  by unfold_locales (auto simp: vec_push_back_ok vec_pop_back_ok vec_resize_ok)

lemma shift_up_length [simp]: "length (shift_up idx i xs) = length xs"
  by (induction i arbitrary: xs) auto

lemma shift_up_nth:
  "i < length xs \<Longrightarrow> j < length xs \<Longrightarrow>
    shift_up idx i xs ! j = (if idx < j \<and> j \<le> i then xs ! (j - 1) else xs ! j)"
proof (induction i arbitrary: xs)
  case 0
  then show ?case by auto
next
  case (Suc i)
  show ?case
  proof (cases "Suc i > idx")
    case True
    with Suc.IH [of "xs[Suc i := xs ! i]"] Suc.prems show ?thesis
      by (auto simp: nth_list_update le_Suc_eq)
  next
    case False
    then show ?thesis by auto
  qed
qed

lemma vec_insert_ok [sq_inv]:
  assumes "vec_ok v" "idx \<le> vsize v"
  shows "\<exists>v'. vec_insert v idx x d = Some v' \<and> vec_ok v' \<and>
    vals v' = take idx (vals v) @ x # drop idx (vals v)"
proof -
  let ?v1 = "vec_resize v (vsize v + 1) d"
  let ?xs = "(shift_up idx (vsize ?v1 - 1) (vals ?v1))[idx := x]"
  have v1: "vals ?v1 = vals v @ [d]" "vec_ok ?v1"
    using assms by (simp_all add: vec_resize_ok)
  have "?xs = take idx (vals v) @ x # drop idx (vals v)"
  proof (rule nth_equalityI)
    show "length ?xs = length (take idx (vals v) @ x # drop idx (vals v))"
      using v1 assms by simp
    fix j assume "j < length ?xs"
    then have "j < Suc (vsize v)" using v1 by simp
    moreover have "j - Suc 0 = idx + k" if "j - idx = Suc k" for k using that by arith
    ultimately show "?xs ! j = (take idx (vals v) @ x # drop idx (vals v)) ! j"
      using v1 assms
      by (auto simp: nth_list_update shift_up_nth nth_append nth_Cons min_def split: nat.splits)
  qed
  moreover have "vec_insert v idx x d = Some (?v1\<lparr>vals := ?xs\<rparr>)"
    using v1 assms by (simp add: vec_insert_def Let_def)
  ultimately show ?thesis using v1 by (auto simp: vec_ok_def)
qed

lemma vec_remove_ok [sq_inv]:
  assumes "vec_ok v" "idx < vsize v"
  shows "\<exists>v'. vec_remove v idx = Some v' \<and> vec_ok v' \<and>
    vals v' = take idx (vals v) @ drop (Suc idx) (vals v)"
  using assms by (auto simp: vec_remove_def vec_ok_def)

lemma vec_shrinktofit_ok [sq_inv]:
  "vec_ok v \<Longrightarrow> vec_ok (vec_shrinktofit v)" "vals (vec_shrinktofit v) = vals v"
  by (auto simp: vec_ok_def vec_defs)

lemma arr_ShrinkIfNeeded_ok [sq_inv]:
  "vec_ok a \<Longrightarrow> vec_ok (arr_ShrinkIfNeeded a)" "vals (arr_ShrinkIfNeeded a) = vals a"
  by (auto simp: arr_ShrinkIfNeeded_def vec_shrinktofit_ok)

lemma arr_Extend_ok:
  "vec_ok this \<Longrightarrow> vec_ok (arr_Extend this a) \<and> vals (arr_Extend this a) = vals this @ vals a"
  using vec.push_all_ok [of this "vals a"] by (simp add: arr_Extend_def arr_Append_def)

text \<open>The mutating operations of an array, as the script-visible functions reach them.\<close>

datatype arr_op = ASet sqint sqobject | AAppend sqobject | APop | AInsert sqint sqobject
  | ARemove sqint | AResize nat sqobject | AExtendSelf

fun arr_step :: "arr_op \<Rightarrow> sqarray \<Rightarrow> sqarray option" where
  "arr_step (ASet i x) a = Some (fst (arr_Set a i x))"
| "arr_step (AAppend x) a = Some (arr_Append a x)"
| "arr_step APop a = (if vsize a > 0 then arr_Pop a else Some a)"
| "arr_step (AInsert i x) a = map_option fst (arr_Insert a i x)"
| "arr_step (ARemove i) a = map_option fst (arr_Remove a i)"
| "arr_step (AResize n x) a = Some (arr_Resize a n x)"
| "arr_step AExtendSelf a = Some (arr_Extend a a)"

fun list_step :: "arr_op \<Rightarrow> sqobject list \<Rightarrow> sqobject list" where
  "list_step (ASet i x) xs = (if 0 \<le> sint i \<and> sint i < int (length xs) then xs[nat (sint i) := x] else xs)"
| "list_step (AAppend x) xs = xs @ [x]"
| "list_step APop xs = butlast xs"
| "list_step (AInsert i x) xs = (if 0 \<le> sint i \<and> sint i \<le> int (length xs)
     then take (nat (sint i)) xs @ x # drop (nat (sint i)) xs else xs)"
| "list_step (ARemove i) xs = (if 0 \<le> sint i \<and> sint i < int (length xs)
     then take (nat (sint i)) xs @ drop (Suc (nat (sint i))) xs else xs)"
| "list_step (AResize n x) xs = take n xs @ replicate (n - length xs) x"
| "list_step AExtendSelf xs = xs @ xs"

fun arr_run :: "arr_op list \<Rightarrow> sqarray \<Rightarrow> sqarray option" where
  "arr_run [] a = Some a"
| "arr_run (x # xs) a = do { a' \<leftarrow> arr_step x a; arr_run xs a' }"

lemma arr_step_ok:
  assumes "vec_ok a"
  shows "\<exists>a'. arr_step p a = Some a' \<and> vec_ok a' \<and> vals a' = list_step p (vals a)"
proof (cases p)
  case (AInsert i x)
  show ?thesis
  proof (cases "0 \<le> sint i \<and> sint i \<le> int (vsize a)")
    case True
    then obtain a' where "vec_insert a (nat (sint i)) x ONull = Some a'" "vec_ok a'"
      "vals a' = take (nat (sint i)) (vals a) @ x # drop (nat (sint i)) (vals a)"
      using vec_insert_ok [OF assms, of "nat (sint i)" x ONull] by (auto simp: nat_le_iff)
    with AInsert True show ?thesis by (auto simp: arr_Insert_def)
  qed (use AInsert assms in \<open>auto simp: arr_Insert_def\<close>)
next
  case APop
  then show ?thesis
    using assms vec_pop_back_ok [OF assms] arr_ShrinkIfNeeded_ok by (fastforce simp: arr_Pop_def)
next
  case (ARemove i)
  show ?thesis
  proof (cases "0 \<le> sint i \<and> sint i < int (vsize a)")
    case True
    then obtain a' where "vec_remove a (nat (sint i)) = Some a'" "vec_ok a'"
      "vals a' = take (nat (sint i)) (vals a) @ drop (Suc (nat (sint i))) (vals a)"
      using vec_remove_ok [OF assms, of "nat (sint i)"] by (auto simp: nat_less_iff)
    with ARemove True show ?thesis by (auto simp: arr_Remove_def arr_ShrinkIfNeeded_ok)
  qed (use ARemove assms in \<open>auto simp: arr_Remove_def\<close>)
qed (use assms arr_Extend_ok [OF assms, of a] in
  \<open>auto simp: arr_Set_def arr_Append_def arr_Pop_def arr_Resize_def vec_push_back_ok
     arr_ShrinkIfNeeded_ok vec_pop_back_ok vec_resize_ok\<close>, auto simp: vec_ok_def)

lemma arr_run_ok:
  "vec_ok a \<Longrightarrow>
    \<exists>a'. arr_run ps a = Some a' \<and> vec_ok a' \<and> vals a' = fold list_step ps (vals a)"
proof (induction ps arbitrary: a)
  case Nil
  then show ?case by simp
next
  case (Cons p ps)
  obtain a1 where "arr_step p a = Some a1" "vec_ok a1" "vals a1 = list_step p (vals a)"
    using arr_step_ok [OF Cons.prems] by blast
  with Cons.IH [of a1] show ?case by auto
qed

lemma SQArray_new_ok: "vec_ok (SQArray_new n)" "vals (SQArray_new n) = replicate n ONull"
  by (auto simp: SQArray_new_def vec_resize_ok sqvector_new_def vec_ok_def)
    (simp_all add: vec_resize_def vec_realloc_def Let_def)

text \<open>
  C9.  An array of any initial size, under any sequence of element writes, appends, pops,
  insertions, removals, resizes and self-extensions (out-of-range indices included), holds
  exactly the elements of the list driven by the same operations, never writes outside its
  allocation, and \<^verbatim>\<open>Get\<close> returns the element exactly for the indices in range.
\<close>

theorem array_refines_list:
  "\<exists>a. arr_run ps (SQArray_new n) = Some a \<and> vsize a \<le> allocated a \<and>
    vals a = fold list_step ps (replicate n ONull) \<and>
    (\<forall>i. arr_Get realval a i =
       (if 0 \<le> sint i \<and> sint i < int (length (fold list_step ps (replicate n ONull)))
        then Some (realval (fold list_step ps (replicate n ONull) ! nat (sint i))) else None))"
  using arr_run_ok [OF SQArray_new_ok(1), of ps n]
  by (auto simp: SQArray_new_ok vec_ok_def arr_Get_def)

text \<open>
  Growth is geometric and bounded: after any number of \<^verbatim>\<open>push_back\<close> calls on a fresh
  vector the allocation is at least the size and at most four cells or twice the size.
\<close>

theorem push_back_growth:
  "let v = fold (\<lambda>x v. vec_push_back v x) xs sqvector_new in
     vals v = xs \<and> vsize v \<le> allocated v \<and> allocated v \<le> max 4 (2 * vsize v)"
proof -
  have "allocated (fold (\<lambda>x v. vec_push_back v x) xs v) \<le>
      max 4 (2 * vsize (fold (\<lambda>x v. vec_push_back v x) xs v))"
    if "allocated v \<le> max 4 (2 * vsize v)" for v :: "'a sqvector"
    using that by (induction xs arbitrary: v) (auto simp: vec_push_back_def vec_realloc_def Let_def)
  from this [of sqvector_new] have
    "allocated (fold (\<lambda>x v. vec_push_back v x) xs sqvector_new) \<le>
      max 4 (2 * vsize (fold (\<lambda>x v. vec_push_back v x) xs sqvector_new))"
    by (simp add: sqvector_new_def)
  moreover have "vec_ok (sqvector_new :: 'a sqvector)" by (simp add: vec_ok_def sqvector_new_def)
  moreover have "vals sqvector_new = []" by (simp add: sqvector_new_def)
  ultimately show ?thesis
    using vec.push_all_ok [of "sqvector_new :: 'a sqvector" xs] by (auto simp: vec_ok_def Let_def)
qed

end
