(* ===== verification/Sq_Strings.thy ===== *)
theory Sq_Strings
  imports Sq_Object Sq_Interfaces "HOL-Library.Multiset"
begin

text \<open>
  The string hash \<^verbatim>\<open>_hashstr\<close> (\<^verbatim>\<open>sqstring.h\<close>) and the table \<^verbatim>\<open>SQStringTable\<close>
  (\<^verbatim>\<open>sqstate.cpp\<close>) that interns every string of a virtual machine, so that strings can be
  compared by address.  A bucket's chain of \<^verbatim>\<open>_next\<close> pointers is the list of its strings;
  a string carries its address, bytes and cached hash.  The address that \<^verbatim>\<open>SQ_MALLOC\<close>
  returns for a new string is an argument of the model.
\<close>

subsection \<open>_hashstr\<close>

function hashstr_loop :: "sqchar list \<Rightarrow> nat \<Rightarrow> nat \<Rightarrow> sqhash \<Rightarrow> sqhash" where
  "hashstr_loop s k l1 h =
     (if l1 \<ge> Suc k
      then hashstr_loop s k (l1 - Suc k)
             (h XOR (push_bit 5 h + drop_bit 2 h + ucast (scast (s ! (l1 - 1)) :: 16 word)))
      else h)"
  by pat_completeness auto
termination by (relation "measure (\<lambda>(s, k, l1, h). l1)") auto

declare hashstr_loop.simps [simp del]

definition hashstr :: "sqchar list \<Rightarrow> sqhash" where
  "hashstr s = hashstr_loop s (length s div 2 ^ 5) (length s) (word_of_nat (length s))"

subsection \<open>SQStringTable\<close>

record sqstring =
  saddr :: addr
  sval :: "sqchar list"
  shash :: sqhash

record strtable =
  strings :: "sqstring list list"
  str_slotused :: nat

abbreviation str_numofslots :: "strtable \<Rightarrow> nat" where
  "str_numofslots t \<equiv> length (strings t)"

definition bucket_of :: "nat \<Rightarrow> sqhash \<Rightarrow> nat" where
  "bucket_of n h = unat (h AND (word_of_nat n - 1))"

definition str_AllocNodes :: "nat \<Rightarrow> strtable \<Rightarrow> strtable" where
  "str_AllocNodes n t = t\<lparr>strings := replicate n []\<rparr>"

definition SQStringTable_new :: strtable where
  "SQStringTable_new = str_AllocNodes 4 \<lparr>strings = [], str_slotused = 0\<rparr>"

definition str_link :: "sqstring \<Rightarrow> strtable \<Rightarrow> strtable" where
  "str_link p t =
     (let h = bucket_of (str_numofslots t) (shash p)
      in t\<lparr>strings := (strings t)[h := p # strings t ! h]\<rparr>)"

definition str_Resize :: "nat \<Rightarrow> strtable \<Rightarrow> strtable" where
  "str_Resize n t = fold (fold str_link) (strings t) (str_AllocNodes n t)"

definition str_bytes :: "sqchar list \<Rightarrow> int \<Rightarrow> sqchar list" where
  "str_bytes news len = (if len < 0 then takeWhile (\<lambda>c. c \<noteq> 0) news else take (nat len) news)"

definition str_Add :: "addr \<Rightarrow> sqchar list \<Rightarrow> int \<Rightarrow> strtable \<Rightarrow> addr \<times> strtable" where
  "str_Add alloc news len0 t =
     (let bytes = str_bytes news len0;
          newhash = hashstr bytes;
          h = bucket_of (str_numofslots t) newhash
      in case find (\<lambda>s. sval s = bytes) (strings t ! h) of
           Some s \<Rightarrow> (saddr s, t)
         | None \<Rightarrow>
             (let p = \<lparr>saddr = alloc, sval = bytes, shash = newhash\<rparr>;
                  t1 = t\<lparr>strings := (strings t)[h := p # strings t ! h],
                         str_slotused := str_slotused t + 1\<rparr>;
                  t2 = (if str_slotused t1 > str_numofslots t1
                        then str_Resize (str_numofslots t1 * 2) t1 else t1)
              in (alloc, t2)))"

fun unlink :: "addr \<Rightarrow> sqstring list \<Rightarrow> sqstring list option" where
  "unlink bs [] = None"
| "unlink bs (s # rest) =
     (if saddr s = bs then Some rest else map_option ((#) s) (unlink bs rest))"

text \<open>\<^verbatim>\<open>Remove\<close>; \<open>None\<close> is the failed assertion at its end.\<close>

definition str_Remove :: "sqstring \<Rightarrow> strtable \<Rightarrow> strtable option" where
  "str_Remove bs t =
     (let h = bucket_of (str_numofslots t) (shash bs)
      in case unlink (saddr bs) (strings t ! h) of
           None \<Rightarrow> None
         | Some ch \<Rightarrow> Some (t\<lparr>strings := (strings t)[h := ch],
                             str_slotused := str_slotused t - 1\<rparr>))"

subsection \<open>Invariant\<close>

definition str_all :: "strtable \<Rightarrow> sqstring list" where
  "str_all t = concat (strings t)"

definition str_placed :: "strtable \<Rightarrow> bool" where
  "str_placed t \<longleftrightarrow> (\<exists>k. str_numofslots t = 2 ^ k) \<and>
     (\<forall>i < str_numofslots t. \<forall>s \<in> set (strings t ! i).
        bucket_of (str_numofslots t) (shash s) = i \<and> shash s = hashstr (sval s))"

definition str_wf :: "strtable \<Rightarrow> bool" where
  "str_wf t \<longleftrightarrow> str_placed t \<and> distinct (map sval (str_all t)) \<and>
     distinct (map saddr (str_all t)) \<and> str_slotused t = length (str_all t)"

definition str_lookup :: "strtable \<Rightarrow> sqchar list \<Rightarrow> addr option" where
  "str_lookup t b =
     map_option saddr (find (\<lambda>s. sval s = b) (strings t ! bucket_of (str_numofslots t) (hashstr b)))"

lemma bucket_of_less [simp]: "n = 2 ^ k \<Longrightarrow> bucket_of n h < n"
  unfolding bucket_of_def by (rule unat_word_and_mask_less)

lemma mset_concat_upd:
  "i < length xss \<Longrightarrow> mset (concat (xss[i := ys])) + mset (xss ! i) = mset (concat xss) + mset ys"
  by (induction xss arbitrary: i) (auto split: nat.splits simp: nth_Cons')

lemma mset_concat_cons:
  "i < length xss \<Longrightarrow> mset (concat (xss[i := x # xss ! i])) = add_mset x (mset (concat xss))"
  using mset_concat_upd [of i xss "x # xss ! i"] by simp

definition str_hashed :: "sqstring \<Rightarrow> bool" where
  "str_hashed s \<longleftrightarrow> shash s = hashstr (sval s)"

lemma str_placedD:
  assumes "str_placed t" "i < str_numofslots t" "s \<in> set (strings t ! i)"
  shows "bucket_of (str_numofslots t) (shash s) = i" "shash s = hashstr (sval s)"
  using assms unfolding str_placed_def by blast+

lemma str_link_ok:
  assumes "str_placed t" "str_hashed p"
  shows "str_placed (str_link p t)" "mset (str_all (str_link p t)) = add_mset p (mset (str_all t))"
    "str_slotused (str_link p t) = str_slotused t" "str_numofslots (str_link p t) = str_numofslots t"
proof -
  obtain k where k: "str_numofslots t = 2 ^ k" using assms by (auto simp: str_placed_def)
  have h: "bucket_of (str_numofslots t) (shash p) < str_numofslots t" by (rule bucket_of_less [OF k])
  have n: "str_numofslots (str_link p t) = str_numofslots t" by (simp add: str_link_def Let_def)
  show "str_placed (str_link p t)"
    unfolding str_placed_def n
  proof (intro conjI allI impI ballI)
    show "\<exists>k. str_numofslots t = 2 ^ k" using k by blast
    fix i s assume i: "i < str_numofslots t" and s: "s \<in> set (strings (str_link p t) ! i)"
    show "bucket_of (str_numofslots t) (shash s) = i" "shash s = hashstr (sval s)"
      using str_placedD [OF assms(1) i, of s] assms(2) i s h
      by (auto simp: str_link_def Let_def nth_list_update str_hashed_def split: if_splits)
  qed
  show "mset (str_all (str_link p t)) = add_mset p (mset (str_all t))"
    using mset_concat_cons [OF h] by (simp add: str_all_def str_link_def Let_def)
qed (simp_all add: str_link_def Let_def)

lemma str_link_chain_ok:
  "str_placed t \<Longrightarrow> \<forall>p \<in> set ps. str_hashed p \<Longrightarrow>
    str_placed (fold str_link ps t) \<and> mset (str_all (fold str_link ps t)) = mset ps + mset (str_all t) \<and>
    str_slotused (fold str_link ps t) = str_slotused t"
  by (induction ps arbitrary: t) (auto simp: str_link_ok)

lemma str_link_chains_ok:
  "str_placed t \<Longrightarrow> \<forall>p \<in> set (concat pss). str_hashed p \<Longrightarrow>
    str_placed (fold (fold str_link) pss t) \<and>
    mset (str_all (fold (fold str_link) pss t)) = mset (concat pss) + mset (str_all t) \<and>
    str_slotused (fold (fold str_link) pss t) = str_slotused t"
proof (induction pss arbitrary: t)
  case (Cons ps pss)
  have "str_placed (fold str_link ps t)"
    "mset (str_all (fold str_link ps t)) = mset ps + mset (str_all t)"
    "str_slotused (fold str_link ps t) = str_slotused t"
    using str_link_chain_ok [of t ps] Cons.prems by auto
  with Cons.IH [of "fold str_link ps t"] Cons.prems show ?case by auto
qed simp

lemma str_all_hashed: "str_placed t \<Longrightarrow> s \<in> set (str_all t) \<Longrightarrow> str_hashed s"
  by (auto simp: str_placed_def str_all_def in_set_concat_nth str_hashed_def simp del: set_concat)

lemma str_Resize_ok:
  assumes "str_placed t" "n = 2 ^ k"
  shows "str_placed (str_Resize n t)" "mset (str_all (str_Resize n t)) = mset (str_all t)"
    "str_slotused (str_Resize n t) = str_slotused t"
proof -
  have "str_placed (str_AllocNodes n t)"
    using assms(2) by (auto simp: str_placed_def str_AllocNodes_def)
  moreover have "\<forall>p \<in> set (concat (strings t)). str_hashed p"
    using str_all_hashed [OF assms(1)] by (simp add: str_all_def)
  ultimately have *: "str_placed (str_Resize n t)"
    "mset (str_all (str_Resize n t)) = mset (concat (strings t)) + mset (str_all (str_AllocNodes n t))"
    "str_slotused (str_Resize n t) = str_slotused (str_AllocNodes n t)"
    unfolding str_Resize_def using str_link_chains_ok [of "str_AllocNodes n t" "strings t"] by auto
  from *(1) show "str_placed (str_Resize n t)" .
  from *(2) show "mset (str_all (str_Resize n t)) = mset (str_all t)"
    by (simp add: str_all_def str_AllocNodes_def)
  from *(3) show "str_slotused (str_Resize n t) = str_slotused t" by (simp add: str_AllocNodes_def)
qed

text \<open>A string is found in its bucket exactly when it is in the table.\<close>

lemma str_lookup_iff:
  assumes "str_wf t"
  shows "str_lookup t b = Some a \<longleftrightarrow> (\<exists>s \<in> set (str_all t). sval s = b \<and> saddr s = a)"
proof -
  let ?h = "bucket_of (str_numofslots t) (hashstr b)"
  have pl: "str_placed t" and d: "distinct (map sval (str_all t))" using assms by (auto simp: str_wf_def)
  obtain k where "str_numofslots t = 2 ^ k" using pl by (auto simp: str_placed_def)
  then have h: "?h < str_numofslots t" by simp
  have mem: "s \<in> set (strings t ! ?h) \<and> sval s = b \<longleftrightarrow> s \<in> set (str_all t) \<and> sval s = b" for s
    using h str_placedD [OF pl] unfolding str_all_def in_set_concat_nth by metis
  have "x = y" if "x \<in> set (strings t ! ?h)" "y \<in> set (strings t ! ?h)" "sval x = b" "sval y = b" for x y
    using d that mem by (auto simp: distinct_map inj_on_def)
  then have "find (\<lambda>s. sval s = b) (strings t ! ?h) = Some s \<longleftrightarrow>
      s \<in> set (strings t ! ?h) \<and> sval s = b" for s
    by (intro find_Some_unique) auto
  with mem show ?thesis unfolding str_lookup_def by auto
qed


lemma str_wf_perm:
  assumes "str_wf t" "str_placed t'" "mset (str_all t') = mset (str_all t)"
    "str_slotused t' = str_slotused t"
  shows "str_wf t'"
proof -
  have "mset (map sval (str_all t')) = mset (map sval (str_all t))"
    "mset (map saddr (str_all t')) = mset (map saddr (str_all t))"
    "length (str_all t') = length (str_all t)"
    using assms(3) by (simp_all flip: size_mset)
  with assms show ?thesis
    unfolding str_wf_def by (metis mset_eq_imp_distinct_iff)
qed

lemma str_new_wf: "str_wf SQStringTable_new" "str_lookup SQStringTable_new = Map.empty"
proof -
  have "(4::nat) = 2 ^ 2" by simp
  then show wf: "str_wf SQStringTable_new"
    unfolding str_wf_def str_placed_def str_all_def SQStringTable_new_def str_AllocNodes_def
    by (auto simp del: power2_eq_iff intro: exI [of _ 2])
  have "str_all SQStringTable_new = []"
    by (simp add: str_all_def SQStringTable_new_def str_AllocNodes_def)
  with str_lookup_iff [OF wf] show "str_lookup SQStringTable_new = Map.empty"
    by (intro ext option_eqI) auto
qed

lemma ran_str_lookup:
  assumes "str_wf t" shows "ran (str_lookup t) = saddr ` set (str_all t)"
  using str_lookup_iff [OF assms] by (auto simp: ran_def)

definition str_intern :: "addr \<Rightarrow> sqchar list \<Rightarrow> strtable \<Rightarrow> addr \<times> strtable" where
  "str_intern a b t = str_Add a b (int (length b)) t"

lemma str_intern_ok:
  assumes wf: "str_wf t" and fresh: "str_lookup t b = None \<Longrightarrow> a \<notin> ran (str_lookup t)"
  shows "str_wf (snd (str_intern a b t)) \<and>
    (fst (str_intern a b t), str_lookup (snd (str_intern a b t))) = map_intern a b (str_lookup t)"
proof (cases "str_lookup t b")
  case (Some p)
  then show ?thesis
    using wf by (auto simp: str_intern_def str_Add_def str_bytes_def str_lookup_def map_intern_def Let_def)
next
  case None
  define p where "p = \<lparr>saddr = a, sval = b, shash = hashstr b\<rparr>"
  define t1 where "t1 = (str_link p t)\<lparr>str_slotused := str_slotused t + 1\<rparr>"
  define t2 where "t2 = (if str_slotused t1 > str_numofslots t1
    then str_Resize (str_numofslots t1 * 2) t1 else t1)"
  have pl: "str_placed t" using wf by (simp add: str_wf_def)
  have p: "str_hashed p" by (simp add: p_def str_hashed_def)
  have add: "str_intern a b t = (a, t2)"
    using None unfolding t2_def t1_def str_link_def p_def
    by (simp add: str_intern_def str_Add_def str_bytes_def str_lookup_def Let_def)
  have up: "str_placed (t\<lparr>str_slotused := n\<rparr>) = str_placed t" "str_all (t\<lparr>str_slotused := n\<rparr>) = str_all t"
    for t n by (simp_all add: str_placed_def str_all_def)
  have t1: "str_placed t1" "mset (str_all t1) = add_mset p (mset (str_all t))"
    using str_link_ok [OF pl p] by (simp_all add: t1_def up)
  have new: "a \<notin> saddr ` set (str_all t)" "b \<notin> sval ` set (str_all t)"
    using fresh [OF None] ran_str_lookup [OF wf] None str_lookup_iff [OF wf, of b] by auto
  have "mset (str_all t1) = mset (p # str_all t)" using t1(2) by simp
  then have m: "mset (map sval (str_all t1)) = mset (map sval (p # str_all t))"
      "mset (map saddr (str_all t1)) = mset (map saddr (p # str_all t))"
      "length (str_all t1) = Suc (length (str_all t))" "set (str_all t1) = insert p (set (str_all t))"
    by (metis mset_map) (metis \<open>mset (str_all t1) = mset (p # str_all t)\<close> mset_map,
      metis \<open>mset (str_all t1) = mset (p # str_all t)\<close> length_Cons size_mset,
      metis \<open>mset (str_all t1) = mset (p # str_all t)\<close> list.set(2) set_mset_mset)
  have "distinct (map sval (p # str_all t))" "distinct (map saddr (p # str_all t))"
    using wf new by (auto simp: str_wf_def p_def)
  with m(1,2) have "distinct (map sval (str_all t1))" "distinct (map saddr (str_all t1))"
    by (metis mset_eq_imp_distinct_iff)+
  then have wf1: "str_wf t1"
    using t1(1) m(3) wf by (simp add: str_wf_def t1_def)
  obtain k where "str_numofslots t1 * 2 = 2 ^ k"
    using t1(1) by (auto simp: str_placed_def) (metis mult.commute power_Suc)
  from str_Resize_ok [OF t1(1) this] have t2: "str_wf t2" "mset (str_all t2) = mset (str_all t1)"
    using wf1 str_wf_perm [OF wf1] by (auto simp: t2_def)
  then have s2: "set (str_all t2) = insert p (set (str_all t))"
    using m(4) mset_eq_setD by metis
  have "str_lookup t2 = (str_lookup t)(b \<mapsto> a)"
  proof (intro ext option_eqI)
    fix c v
    show "str_lookup t2 c = Some v \<longleftrightarrow> ((str_lookup t)(b \<mapsto> a)) c = Some v"
      using new unfolding str_lookup_iff [OF t2(1)] s2
      by (auto simp: p_def str_lookup_iff [OF wf])
  qed
  with add None t2(1) show ?thesis by (simp add: map_intern_def)
qed


definition str_drop :: "sqchar list \<Rightarrow> strtable \<Rightarrow> strtable option" where
  "str_drop b t =
     (case find (\<lambda>s. sval s = b) (str_all t) of Some s \<Rightarrow> str_Remove s t | None \<Rightarrow> Some t)"

lemma unlink_ok:
  "distinct (map saddr ch) \<Longrightarrow> s \<in> set ch \<Longrightarrow>
    \<exists>ch'. unlink (saddr s) ch = Some ch' \<and> mset ch = add_mset s (mset ch')"
proof (induction ch)
  case (Cons c ch)
  show ?case
  proof (cases "c = s")
    case False
    then have "s \<in> set ch" using Cons.prems by simp
    with Cons.prems have "saddr c \<noteq> saddr s" by (auto simp: image_iff)
    with Cons.IH Cons.prems \<open>s \<in> set ch\<close> show ?thesis by auto
  qed simp
qed simp

lemma distinct_map_rest:
  assumes "distinct (map f xs)" "mset xs = add_mset s (mset ys)"
  shows "distinct (map f ys)" "f s \<notin> f ` set ys" "set xs = insert s (set ys)" "length xs = Suc (length ys)"
proof -
  have m: "mset xs = mset (s # ys)" using assms(2) by simp
  then have "mset (map f xs) = mset (map f (s # ys))" by (metis mset_map)
  with assms(1) have "distinct (map f (s # ys))" by (metis mset_eq_imp_distinct_iff)
  then show "distinct (map f ys)" "f s \<notin> f ` set ys" by simp_all
  show "set xs = insert s (set ys)" using mset_eq_setD [OF m] by simp
  show "length xs = Suc (length ys)" using mset_eq_length [OF m] by simp
qed

lemma str_Remove_ok:
  assumes wf: "str_wf t" and s: "s \<in> set (str_all t)"
  shows "\<exists>t'. str_Remove s t = Some t' \<and> str_wf t' \<and> mset (str_all t) = add_mset s (mset (str_all t'))"
proof -
  let ?n = "str_numofslots t"
  let ?h = "bucket_of ?n (shash s)"
  have pl: "str_placed t" using wf by (simp add: str_wf_def)
  obtain k where k: "?n = 2 ^ k" using pl by (auto simp: str_placed_def)
  then have h: "?h < ?n" by simp
  have sin: "s \<in> set (strings t ! ?h)"
    using s str_placedD [OF pl] unfolding str_all_def in_set_concat_nth by metis
  have "distinct (map saddr (concat (strings t)))" using wf by (simp add: str_wf_def str_all_def)
  then have "distinct (map saddr (strings t ! ?h))"
    using h by (auto simp: map_concat distinct_concat_iff)
  from unlink_ok [OF this sin] obtain ch where
    ch: "unlink (saddr s) (strings t ! ?h) = Some ch" "mset (strings t ! ?h) = add_mset s (mset ch)" by auto
  define t' where "t' = t\<lparr>strings := (strings t)[?h := ch], str_slotused := str_slotused t - 1\<rparr>"
  have n: "str_numofslots t' = ?n" by (simp add: t'_def)
  have sub: "set ch \<subseteq> set (strings t ! ?h)"
    using ch(2) by (metis set_mset_add_mset_insert set_mset_mset subset_insertI)
  have pl': "str_placed t'"
    unfolding str_placed_def n
  proof (intro conjI allI impI ballI)
    show "\<exists>k. ?n = 2 ^ k" using k by blast
    fix i x assume i: "i < ?n" and "x \<in> set (strings t' ! i)"
    then have "x \<in> set (strings t ! i)" using sub h
      by (auto simp: t'_def nth_list_update split: if_splits)
    with str_placedD [OF pl i] show "bucket_of ?n (shash x) = i" "shash x = hashstr (sval x)" by auto
  qed
  have m: "mset (str_all t) = add_mset s (mset (str_all t'))"
    using mset_concat_upd [OF h, of ch] ch(2) by (simp add: str_all_def t'_def)
  have "str_wf t'"
    using wf pl' distinct_map_rest [OF _ m] unfolding str_wf_def
    by (metis (no_types, lifting) diff_Suc_1 strtable.select_convs(2) strtable.surjective
      strtable.update_convs(1,2) t'_def)
  moreover have "str_Remove s t = Some t'" using ch by (simp add: str_Remove_def t'_def Let_def)
  ultimately show ?thesis using m by auto
qed

lemma str_drop_ok:
  assumes wf: "str_wf t"
  shows "\<exists>t'. str_drop b t = Some t' \<and> str_wf t' \<and> str_lookup t' = (str_lookup t)(b := None)"
proof -
  have uniq: "x = y" if "x \<in> set (str_all t)" "y \<in> set (str_all t)" "sval x = sval y" for x y
    using wf that by (auto simp: str_wf_def distinct_map inj_on_def)
  show ?thesis
  proof (cases "find (\<lambda>s. sval s = b) (str_all t)")
    case None
    then have "\<forall>s \<in> set (str_all t). sval s \<noteq> b" by (auto simp: find_None_iff)
    with str_lookup_iff [OF wf, of b] have "str_lookup t b = None" by auto
    with None wf show ?thesis by (auto simp: str_drop_def)
  next
    case (Some s)
    then have s: "s \<in> set (str_all t)" "sval s = b"
      by (auto simp: find_Some_iff)
    from str_Remove_ok [OF wf s(1)] obtain t' where
      t': "str_Remove s t = Some t'" "str_wf t'" "mset (str_all t) = add_mset s (mset (str_all t'))" by auto
    have set: "set (str_all t) = insert s (set (str_all t'))"
      using t'(3) by (metis set_mset_add_mset_insert set_mset_mset)
    have "b \<notin> sval ` set (str_all t')"
      using distinct_map_rest(2) [OF _ t'(3), of sval] wf s by (simp add: str_wf_def)
    then have "str_lookup t' c = Some v \<longleftrightarrow> ((str_lookup t)(b := None)) c = Some v" for c v
      using s set unfolding str_lookup_iff [OF t'(2)]
      by (auto simp: str_lookup_iff [OF wf] image_iff)
    then have "str_lookup t' = (str_lookup t)(b := None)" by (intro ext option_eqI)
    with t' Some show ?thesis by (auto simp: str_drop_def)
  qed
qed

lemma str_lookup_inj:
  assumes "str_wf t" shows "inj_on (str_lookup t) (dom (str_lookup t))"
proof (rule inj_onI)
  fix b c assume "b \<in> dom (str_lookup t)" "c \<in> dom (str_lookup t)" "str_lookup t b = str_lookup t c"
  then obtain a where "str_lookup t b = Some a" "str_lookup t c = Some a" by auto
  then obtain x y where "x \<in> set (str_all t)" "y \<in> set (str_all t)" "saddr x = saddr y" "sval x = b" "sval y = c"
    unfolding str_lookup_iff [OF assms] by auto
  moreover have "distinct (map saddr (str_all t))" using assms by (simp add: str_wf_def)
  ultimately show "b = c" by (auto simp: distinct_map inj_on_def)
qed

interpretation strtab: interner str_wf str_lookup str_intern str_drop
proof unfold_locales
  fix t :: strtable and k a
  assume "str_wf t" "str_lookup t k = None \<Longrightarrow> a \<notin> ran (str_lookup t)"
  then show "str_wf (snd (str_intern a k t)) \<and>
    (fst (str_intern a k t), str_lookup (snd (str_intern a k t))) = map_intern a k (str_lookup t)"
    by (rule str_intern_ok)
qed (simp_all add: str_drop_ok str_lookup_inj)

text \<open>
  C10.  The string table interns: over any sequence of \<^verbatim>\<open>Add\<close> and \<^verbatim>\<open>Remove\<close> calls, with
  the allocator handing out unused addresses, every \<^verbatim>\<open>Add\<close> returns the pointer an
  abstract map from byte strings to pointers returns (growing and rehashing notwithstanding),
  \<^verbatim>\<open>Remove\<close> never runs into its assertion, and at the end two live strings have the same
  pointer exactly when they have the same bytes.
\<close>

theorem string_table_interns:
  assumes "fresh_run ps Map.empty"
  shows "\<exists>ptrs t. intern_run str_intern str_drop ps SQStringTable_new = Some (ptrs, t) \<and>
    intern_run map_intern map_drop ps Map.empty = Some (ptrs, str_lookup t) \<and>
    str_slotused t = length (str_all t) \<and>
    (\<forall>b c p q. str_lookup t b = Some p \<and> str_lookup t c = Some q \<longrightarrow> (p = q \<longleftrightarrow> b = c))"
  using strtab.run_ok [OF str_new_wf(1), of ps] assms strtab.same_pointer_iff
  by (simp add: str_new_wf(2)) (metis str_wf_def)

theorem string_table_interns_witness:
  "let ps = [Intern 16 [104, 105], Intern 32 [104], Intern 48 [104, 105], Drop [104], Intern 32 [],
       Intern 64 [1], Intern 80 [2], Intern 96 [3]]
   in \<exists>ptrs t. intern_run str_intern str_drop ps SQStringTable_new = Some (ptrs, t) \<and>
     intern_run map_intern map_drop ps Map.empty = Some (ptrs, str_lookup t) \<and>
     str_slotused t = length (str_all t) \<and>
     (\<forall>b c p q. str_lookup t b = Some p \<and> str_lookup t c = Some q \<longrightarrow> (p = q \<longleftrightarrow> b = c))"
  unfolding Let_def by (rule string_table_interns) (simp add: map_intern_def ran_def)

end
