(* ===== verification/Sq_RefTable.thy ===== *)
theory Sq_RefTable
  imports Sq_Strings
begin

text \<open>
  \<^verbatim>\<open>RefTable\<close> (\<^verbatim>\<open>sqstate.h\<close>, \<^verbatim>\<open>sqstate.cpp\<close>): the counts of the references that the
  host program holds on script objects (\<^verbatim>\<open>sq_addref\<close>, \<^verbatim>\<open>sq_release\<close>,
  \<^verbatim>\<open>sq_getrefcount\<close>).  The nodes lie in one array; the chain of a bucket and the free
  list, linked through \<^verbatim>\<open>next\<close>, are the lists of their node positions.  An operation
  returns \<open>None\<close> where an assertion of the code fails or a null pointer is read.
  \<open>hsh\<close> stands for \<^verbatim>\<open>HashObj\<close>.
\<close>

record refnode =
  robj :: sqobject
  refs :: squint

record reftable =
  rnodes :: "refnode list"
  rbuckets :: "nat list list"
  rfree :: "nat list"
  rslotused :: nat

abbreviation rslots :: "reftable \<Rightarrow> nat" where
  "rslots t \<equiv> length (rbuckets t)"

definition ref_AllocNodes :: "nat \<Rightarrow> reftable \<Rightarrow> reftable" where
  "ref_AllocNodes n t =
     \<lparr>rnodes = replicate n \<lparr>robj = ONull, refs = 0\<rparr>, rbuckets = replicate n [],
      rfree = [0..<n], rslotused = 0\<rparr>"

definition RefTable_new :: reftable where
  "RefTable_new = ref_AllocNodes 4 \<lparr>rnodes = [], rbuckets = [], rfree = [], rslotused = 0\<rparr>"

definition ref_Add :: "nat \<Rightarrow> sqobject \<Rightarrow> reftable \<Rightarrow> (nat \<times> reftable) option" where
  "ref_Add mainpos obj t =
     (case rfree t of
        [] \<Rightarrow> None
      | newnode # fr \<Rightarrow>
          if refs (rnodes t ! newnode) \<noteq> 0 then None
          else Some (newnode,
            t\<lparr>rnodes := (rnodes t)[newnode := (rnodes t ! newnode)\<lparr>robj := obj\<rparr>],
              rbuckets := (rbuckets t)[mainpos := newnode # rbuckets t ! mainpos],
              rfree := fr, rslotused := rslotused t + 1\<rparr>))"

definition set_refs :: "nat \<Rightarrow> squint \<Rightarrow> reftable \<Rightarrow> reftable" where
  "set_refs i r t = t\<lparr>rnodes := (rnodes t)[i := (rnodes t ! i)\<lparr>refs := r\<rparr>]\<rparr>"

text \<open>The loop of \<^verbatim>\<open>Resize\<close> over the old nodes; the result also carries \<^verbatim>\<open>nfound\<close>.\<close>

fun ref_readd :: "(sqobject \<Rightarrow> sqhash) \<Rightarrow> refnode list \<Rightarrow> reftable \<Rightarrow> nat \<Rightarrow> (reftable \<times> nat) option" where
  "ref_readd hsh [] t nfound = Some (t, nfound)"
| "ref_readd hsh (old # rest) t nfound =
     (if robj old = ONull then ref_readd hsh rest t nfound
      else if refs old = 0 then None
      else do {
        (nn, t1) \<leftarrow> ref_Add (bucket_of (rslots t) (hsh (robj old))) (robj old) t;
        ref_readd hsh rest (set_refs nn (refs old) t1) (nfound + 1)
      })"

definition ref_Resize :: "(sqobject \<Rightarrow> sqhash) \<Rightarrow> nat \<Rightarrow> reftable \<Rightarrow> reftable option" where
  "ref_Resize hsh n t = do {
     (t', nfound) \<leftarrow> ref_readd hsh (rnodes t) (ref_AllocNodes n t) 0;
     if nfound = rslots t then Some t' else None
   }"

text \<open>The chain walk of \<^verbatim>\<open>Get\<close>: the node found and its predecessor.\<close>

fun ref_search :: "refnode list \<Rightarrow> sqobject \<Rightarrow> nat option \<Rightarrow> nat list \<Rightarrow> nat option \<times> nat option" where
  "ref_search ns obj prev [] = (None, prev)"
| "ref_search ns obj prev (r # rest) =
     (if robj (ns ! r) = obj then (Some r, prev) else ref_search ns obj (Some r) rest)"

definition ref_Get ::
  "(sqobject \<Rightarrow> sqhash) \<Rightarrow> sqobject \<Rightarrow> bool \<Rightarrow> reftable \<Rightarrow>
    (nat option \<times> nat \<times> nat option \<times> reftable) option" where
  "ref_Get hsh obj add t =
     (let mainpos = bucket_of (rslots t) (hsh obj);
          (r, prev) = ref_search (rnodes t) obj None (rbuckets t ! mainpos)
      in if r = None \<and> add then do {
           (mainpos', t1) \<leftarrow>
             (if rslots t = rslotused t then
                (if rfree t \<noteq> [] then None
                 else map_option (\<lambda>t'. (bucket_of (rslots t') (hsh obj), t')) (ref_Resize hsh (rslots t * 2) t))
              else Some (mainpos, t));
           (nn, t2) \<leftarrow> ref_Add mainpos' obj t1;
           Some (Some nn, mainpos', prev, t2)
         }
         else Some (r, mainpos, prev, t))"

definition ref_AddRef :: "(sqobject \<Rightarrow> sqhash) \<Rightarrow> sqobject \<Rightarrow> reftable \<Rightarrow> reftable option" where
  "ref_AddRef hsh obj t = do {
     (r, _, _, t1) \<leftarrow> ref_Get hsh obj True t;
     i \<leftarrow> r;
     Some (set_refs i (refs (rnodes t1 ! i) + 1) t1)
   }"

definition ref_GetRefCount ::
  "(sqobject \<Rightarrow> sqhash) \<Rightarrow> sqobject \<Rightarrow> reftable \<Rightarrow> (squint \<times> reftable) option" where
  "ref_GetRefCount hsh obj t = do {
     (r, _, _, t1) \<leftarrow> ref_Get hsh obj True t;
     i \<leftarrow> r;
     Some (refs (rnodes t1 ! i), t1)
   }"

definition ref_Release ::
  "(sqobject \<Rightarrow> sqhash) \<Rightarrow> sqobject \<Rightarrow> reftable \<Rightarrow> (bool \<times> reftable) option" where
  "ref_Release hsh obj t = do {
     (r, mainpos, prev, t1) \<leftarrow> ref_Get hsh obj False t;
     case r of
       None \<Rightarrow> None
     | Some i \<Rightarrow>
         (let c = refs (rnodes t1 ! i) - 1; t2 = set_refs i c t1 in
          if c = 0 then
            (let ch = rbuckets t2 ! mainpos;
                 ch' = (case prev of Some _ \<Rightarrow> remove1 i ch | None \<Rightarrow> tl ch)
             in Some (True,
                  t2\<lparr>rbuckets := (rbuckets t2)[mainpos := ch'], rfree := i # rfree t2,
                     rslotused := rslotused t2 - 1,
                     rnodes := (rnodes t2)[i := (rnodes t2 ! i)\<lparr>robj := ONull\<rparr>]\<rparr>))
          else Some (False, t2))
   }"

definition ref_Finalize :: "reftable \<Rightarrow> reftable" where
  "ref_Finalize t = t\<lparr>rnodes := map (\<lambda>n. n\<lparr>robj := ONull\<rparr>) (rnodes t)\<rparr>"

subsection \<open>Invariant\<close>

text \<open>The chains and the free list share out the nodes; \<open>ref_wf0\<close> allows a used node
  whose count is still 0, which is the state between \<^verbatim>\<open>Add\<close> and the store of its count.\<close>

definition rused :: "reftable \<Rightarrow> nat list" where
  "rused t = concat (rbuckets t)"

definition ref_wf0 :: "(sqobject \<Rightarrow> sqhash) \<Rightarrow> reftable \<Rightarrow> bool" where
  "ref_wf0 hsh t \<longleftrightarrow>
     (\<exists>k. rslots t = 2 ^ k) \<and> length (rnodes t) = rslots t \<and>
     mset (rused t) + mset (rfree t) = mset [0..<rslots t] \<and> rslotused t = length (rused t) \<and>
     (\<forall>b < rslots t. \<forall>i \<in> set (rbuckets t ! b). bucket_of (rslots t) (hsh (robj (rnodes t ! i))) = b) \<and>
     inj_on (\<lambda>i. robj (rnodes t ! i)) (set (rused t)) \<and>
     (\<forall>i \<in> set (rused t). robj (rnodes t ! i) \<noteq> ONull) \<and>
     (\<forall>i \<in> set (rfree t). rnodes t ! i = \<lparr>robj = ONull, refs = 0\<rparr>)"

definition ref_wf :: "(sqobject \<Rightarrow> sqhash) \<Rightarrow> reftable \<Rightarrow> bool" where
  "ref_wf hsh t \<longleftrightarrow> ref_wf0 hsh t \<and> (\<forall>i \<in> set (rused t). refs (rnodes t ! i) \<noteq> 0)"

text \<open>The counts a table holds.\<close>

definition ref_map :: "reftable \<Rightarrow> sqobject \<rightharpoonup> squint" where
  "ref_map t obj =
     map_option (\<lambda>i. refs (rnodes t ! i)) (find (\<lambda>i. robj (rnodes t ! i) = obj) (rused t))"

lemma ref_wf0_nodes:
  assumes "ref_wf0 hsh t"
  shows "distinct (rused t)" "distinct (rfree t)" "set (rused t) \<inter> set (rfree t) = {}"
    "set (rused t) \<union> set (rfree t) = {..<rslots t}"
    "length (rused t) + length (rfree t) = rslots t" "length (rnodes t) = rslots t"
proof -
  have m: "mset (rused t @ rfree t) = mset [0..<rslots t]" using assms by (simp add: ref_wf0_def)
  then have "distinct (rused t @ rfree t)" by (metis distinct_upt mset_eq_imp_distinct_iff)
  then show "distinct (rused t)" "distinct (rfree t)" "set (rused t) \<inter> set (rfree t) = {}" by auto
  show "set (rused t) \<union> set (rfree t) = {..<rslots t}"
    using mset_eq_setD [OF m] by (auto simp: atLeast0LessThan)
  show "length (rused t) + length (rfree t) = rslots t"
    using mset_eq_length [OF m] by simp
  show "length (rnodes t) = rslots t" using assms by (simp add: ref_wf0_def)
qed

lemma ref_map_iff:
  assumes "ref_wf0 hsh t"
  shows "ref_map t obj = Some r \<longleftrightarrow>
    (\<exists>i \<in> set (rused t). robj (rnodes t ! i) = obj \<and> refs (rnodes t ! i) = r)"
proof -
  have "find (\<lambda>i. robj (rnodes t ! i) = obj) (rused t) = Some i \<longleftrightarrow>
      i \<in> set (rused t) \<and> robj (rnodes t ! i) = obj" for i
    using assms by (intro find_Some_unique) (auto simp: ref_wf0_def inj_on_def)
  then show ?thesis by (auto simp: ref_map_def)
qed

lemma ref_map_None:
  "ref_map t obj = None \<longleftrightarrow> (\<forall>i \<in> set (rused t). robj (rnodes t ! i) \<noteq> obj)"
  by (auto simp: ref_map_def find_None_iff)

lemma ref_wf_iff: "ref_wf hsh t \<longleftrightarrow> ref_wf0 hsh t \<and> 0 \<notin> ran (ref_map t)"
  unfolding ref_wf_def ran_def using ref_map_iff [of hsh t] by (auto; metis)

lemma ref_bucket:
  assumes "ref_wf0 hsh t"
  shows "i \<in> set (rbuckets t ! bucket_of (rslots t) (hsh obj)) \<and> robj (rnodes t ! i) = obj \<longleftrightarrow>
    i \<in> set (rused t) \<and> robj (rnodes t ! i) = obj"
proof -
  obtain k where "rslots t = 2 ^ k" using assms by (auto simp: ref_wf0_def)
  then have "bucket_of (rslots t) (hsh obj) < rslots t" by simp
  with assms show ?thesis unfolding rused_def in_set_concat_nth ref_wf0_def by metis
qed

lemma ref_find:
  assumes "ref_wf0 hsh t"
  shows "find (\<lambda>i. robj (rnodes t ! i) = obj) (rbuckets t ! bucket_of (rslots t) (hsh obj)) =
    find (\<lambda>i. robj (rnodes t ! i) = obj) (rused t)"
proof (rule option_eqI)
  fix v
  let ?P = "\<lambda>i. robj (rnodes t ! i) = obj"
  have inj: "inj_on (\<lambda>i. robj (rnodes t ! i)) (set (rused t))" using assms by (simp add: ref_wf0_def)
  have 1: "find ?P (rused t) = Some v \<longleftrightarrow> v \<in> set (rused t) \<and> ?P v"
    using inj by (intro find_Some_unique) (auto simp: inj_on_def)
  have 2: "find ?P (rbuckets t ! bucket_of (rslots t) (hsh obj)) = Some v \<longleftrightarrow>
      v \<in> set (rbuckets t ! bucket_of (rslots t) (hsh obj)) \<and> ?P v"
    using inj ref_bucket [OF assms, of _ obj] by (intro find_Some_unique) (auto simp: inj_on_def)
  show "find ?P (rbuckets t ! bucket_of (rslots t) (hsh obj)) = Some v \<longleftrightarrow> find ?P (rused t) = Some v"
    using ref_bucket [OF assms, of v obj] unfolding 1 2 .
qed

lemma ref_search_fst: "fst (ref_search ns obj prev ch) = find (\<lambda>i. robj (ns ! i) = obj) ch"
  by (induction ns obj prev ch rule: ref_search.induct) auto

lemma ref_search_prev: "fst (ref_search ns obj (Some p) ch) = Some i \<Longrightarrow> snd (ref_search ns obj (Some p) ch) \<noteq> None"
  by (induction ns obj "Some p" ch arbitrary: p rule: ref_search.induct) auto

lemma ref_search_unlink:
  assumes "ref_search ns obj None ch = (Some i, prev)"
  shows "(case prev of Some _ \<Rightarrow> remove1 i ch | None \<Rightarrow> tl ch) = remove1 i ch"
proof (cases ch)
  case (Cons r rest)
  then show ?thesis
    using assms ref_search_prev [of ns obj r rest i] by (auto split: if_splits)
qed (use assms in simp)

lemma ref_Add_ok:
  assumes wf: "ref_wf0 hsh t" and o: "obj \<noteq> ONull" "ref_map t obj = None" and f: "rfree t = nn # fr"
  shows "\<exists>t'. ref_Add (bucket_of (rslots t) (hsh obj)) obj t = Some (nn, t') \<and> ref_wf0 hsh t' \<and>
    ref_map t' = (ref_map t)(obj \<mapsto> 0) \<and> nn \<in> set (rused t') \<and> robj (rnodes t' ! nn) = obj \<and>
    rslots t' = rslots t \<and> rfree t' = fr \<and> rslotused t' = rslotused t + 1"
proof -
  let ?b = "bucket_of (rslots t) (hsh obj)"
  obtain k where k: "rslots t = 2 ^ k" using wf by (auto simp: ref_wf0_def)
  then have b: "?b < rslots t" by simp
  note nodes = ref_wf0_nodes [OF wf]
  have nn: "nn < rslots t" "nn \<notin> set (rused t)" "rnodes t ! nn = \<lparr>robj = ONull, refs = 0\<rparr>"
    using nodes f wf by (auto simp: ref_wf0_def)
  define t' where "t' = t\<lparr>rnodes := (rnodes t)[nn := (rnodes t ! nn)\<lparr>robj := obj\<rparr>],
    rbuckets := (rbuckets t)[?b := nn # rbuckets t ! ?b], rfree := fr, rslotused := rslotused t + 1\<rparr>"
  have add: "ref_Add ?b obj t = Some (nn, t')" using f nn by (simp add: ref_Add_def t'_def)
  have sl: "rslots t' = rslots t" "rfree t' = fr"
    and rb: "rbuckets t' = (rbuckets t)[?b := nn # rbuckets t ! ?b]" by (simp_all add: t'_def)
  have m: "mset (rused t') = add_mset nn (mset (rused t))"
    using mset_concat_cons [OF b] by (simp add: rused_def t'_def)
  then have u: "set (rused t') = insert nn (set (rused t))" by (metis set_mset_add_mset_insert set_mset_mset)
  have nd: "rnodes t' ! i = (if i = nn then \<lparr>robj = obj, refs = 0\<rparr> else rnodes t ! i)" for i
    using nn nodes by (auto simp: t'_def nth_list_update)
  have wf': "ref_wf0 hsh t'"
    unfolding ref_wf0_def sl
  proof (intro conjI)
    show "\<exists>k. rslots t = 2 ^ k" using k by blast
    show "length (rnodes t') = rslots t" using nodes by (simp add: t'_def)
    show "mset (rused t') + mset fr = mset [0..<rslots t]" using m wf f by (simp add: ref_wf0_def)
    show "rslotused t' = length (rused t')"
    proof -
      have "mset (rused t') = mset (nn # rused t)" using m by simp
      then have "length (rused t') = Suc (length (rused t))" using mset_eq_length by fastforce
      moreover have "rslotused t = length (rused t)" using wf by (simp add: ref_wf0_def)
      ultimately show ?thesis by (simp add: t'_def)
    qed
    show "inj_on (\<lambda>i. robj (rnodes t' ! i)) (set (rused t'))"
      using wf o nn unfolding u by (auto simp: nd inj_on_def ref_wf0_def ref_map_None)
    show "\<forall>i \<in> set (rused t'). robj (rnodes t' ! i) \<noteq> ONull"
      using wf o unfolding u by (auto simp: nd ref_wf0_def)
    show "\<forall>i \<in> set fr. rnodes t' ! i = \<lparr>robj = ONull, refs = 0\<rparr>"
      using wf f nodes by (auto simp: nd ref_wf0_def)
    show "\<forall>c < rslots t. \<forall>i \<in> set (rbuckets t' ! c). bucket_of (rslots t) (hsh (robj (rnodes t' ! i))) = c"
    proof (intro allI impI ballI)
      fix c i assume c: "c < rslots t" and i: "i \<in> set (rbuckets t' ! c)"
      show "bucket_of (rslots t) (hsh (robj (rnodes t' ! i))) = c"
      proof (cases "i = nn")
        case True
        have "nn \<notin> set (rbuckets t ! c)" if "c < rslots t" for c using nn that
          by (metis (no_types) in_set_concat_nth rused_def nn(2))
        with True i c b have "c = ?b" by (auto simp: rb nth_list_update split: if_splits)
        with True show ?thesis by (simp add: nd)
      next
        case False
        with i b have "i \<in> set (rbuckets t ! c)" by (auto simp: rb nth_list_update split: if_splits)
        with wf c False show ?thesis by (simp add: nd ref_wf0_def)
      qed
    qed
  qed
  have "ref_map t' = (ref_map t)(obj \<mapsto> 0)"
  proof (intro ext option_eqI)
    fix x v
    show "ref_map t' x = Some v \<longleftrightarrow> ((ref_map t)(obj \<mapsto> 0)) x = Some v"
      using o nn unfolding ref_map_iff [OF wf'] u by (auto simp: nd ref_map_iff [OF wf] ref_map_None)
  qed
  with add wf' u nd sl show ?thesis by (auto simp: t'_def)
qed

lemma set_refs_ok:
  assumes wf: "ref_wf0 hsh t" and i: "i \<in> set (rused t)"
  shows "ref_wf0 hsh (set_refs i r t)" "ref_map (set_refs i r t) = (ref_map t)(robj (rnodes t ! i) \<mapsto> r)"
    "rslots (set_refs i r t) = rslots t" "rfree (set_refs i r t) = rfree t"
    "rslotused (set_refs i r t) = rslotused t" "rused (set_refs i r t) = rused t"
proof -
  note nodes = ref_wf0_nodes [OF wf]
  have l: "i < length (rnodes t)" using i nodes by auto
  have nd: "robj (rnodes (set_refs i r t) ! j) = robj (rnodes t ! j)"
    "refs (rnodes (set_refs i r t) ! j) = (if i = j then r else refs (rnodes t ! j))" for j
    using l by (cases "i = j"; simp add: set_refs_def)+
  show sl: "rslots (set_refs i r t) = rslots t" "rfree (set_refs i r t) = rfree t"
    "rslotused (set_refs i r t) = rslotused t" and u: "rused (set_refs i r t) = rused t"
    by (simp_all add: set_refs_def rused_def)
  have fr: "rnodes (set_refs i r t) ! j = rnodes t ! j" if "j \<in> set (rfree t)" for j
  proof -
    have "i \<noteq> j" using that i nodes by blast
    then show ?thesis by (simp add: set_refs_def)
  qed
  have "rbuckets (set_refs i r t) = rbuckets t" "length (rnodes (set_refs i r t)) = length (rnodes t)"
    by (simp_all add: set_refs_def)
  then show wf': "ref_wf0 hsh (set_refs i r t)"
    using wf unfolding ref_wf0_def sl u nd by (simp add: fr)
  show "ref_map (set_refs i r t) = (ref_map t)(robj (rnodes t ! i) \<mapsto> r)"
  proof (intro ext option_eqI)
    fix x v
    have "inj_on (\<lambda>i. robj (rnodes t ! i)) (set (rused t))" using wf by (simp add: ref_wf0_def)
    then show "ref_map (set_refs i r t) x = Some v \<longleftrightarrow> ((ref_map t)(robj (rnodes t ! i) \<mapsto> r)) x = Some v"
      using i unfolding ref_map_iff [OF wf'] u nd
      by (auto simp: ref_map_iff [OF wf] inj_on_def)
  qed
qed

subsection \<open>Growing\<close>

lemma ref_AllocNodes_ok:
  assumes "n = 2 ^ k"
  shows "ref_wf0 hsh (ref_AllocNodes n t)" "ref_map (ref_AllocNodes n t) = Map.empty"
proof -
  have u: "rused (ref_AllocNodes n t) = []" by (simp add: rused_def ref_AllocNodes_def)
  then show "ref_map (ref_AllocNodes n t) = Map.empty" by (auto simp: ref_map_def)
  from u assms show "ref_wf0 hsh (ref_AllocNodes n t)"
    unfolding ref_wf0_def by (auto simp: ref_AllocNodes_def)
qed

definition live :: "refnode list \<Rightarrow> refnode list" where
  "live ns = filter (\<lambda>n. robj n \<noteq> ONull) ns"

lemma ref_readd_ok:
  assumes "ref_wf0 hsh t" "\<forall>n \<in> set (live ns). refs n \<noteq> 0 \<and> ref_map t (robj n) = None"
    "distinct (map robj (live ns))" "length (live ns) \<le> length (rfree t)"
  shows "\<exists>t'. ref_readd hsh ns t c = Some (t', c + length (live ns)) \<and> ref_wf0 hsh t' \<and>
    ref_map t' = ref_map t ++ map_of (map (\<lambda>n. (robj n, refs n)) (live ns)) \<and>
    rslots t' = rslots t \<and> rslotused t' = rslotused t + length (live ns)"
  using assms
proof (induction ns arbitrary: t c)
  case Nil
  then show ?case by (simp add: live_def)
next
  case (Cons n ns)
  show ?case
  proof (cases "robj n = ONull")
    case True
    then have "live (n # ns) = live ns" by (simp add: live_def)
    with Cons.IH [of t c] Cons.prems True show ?thesis by simp
  next
    case False
    then have live: "live (n # ns) = n # live ns" by (simp add: live_def)
    with Cons.prems obtain nn fr where f: "rfree t = nn # fr" by (cases "rfree t") auto
    have o: "refs n \<noteq> 0" "ref_map t (robj n) = None" using Cons.prems live by auto
    obtain t1 where t1: "ref_Add (bucket_of (rslots t) (hsh (robj n))) (robj n) t = Some (nn, t1)"
      "ref_wf0 hsh t1" "ref_map t1 = (ref_map t)(robj n \<mapsto> 0)" "nn \<in> set (rused t1)"
      "robj (rnodes t1 ! nn) = robj n" "rslots t1 = rslots t" "rfree t1 = fr" "rslotused t1 = rslotused t + 1"
      using ref_Add_ok [OF Cons.prems(1) False o(2) f] by blast
    let ?t2 = "set_refs nn (refs n) t1"
    note t2 = set_refs_ok [OF t1(2,4), of "refs n"]
    have m2: "ref_map ?t2 = (ref_map t)(robj n \<mapsto> refs n)" using t2(2) t1 by simp
    have "\<forall>x \<in> set (live ns). refs x \<noteq> 0 \<and> ref_map ?t2 (robj x) = None"
      using Cons.prems live m2 by (auto simp: image_iff)
    moreover have "distinct (map robj (live ns))" "length (live ns) \<le> length (rfree ?t2)"
      using Cons.prems live f t1 t2 by auto
    ultimately obtain t' where t': "ref_readd hsh ns ?t2 (c + 1) = Some (t', c + 1 + length (live ns))"
      "ref_wf0 hsh t'" "ref_map t' = ref_map ?t2 ++ map_of (map (\<lambda>n. (robj n, refs n)) (live ns))"
      "rslots t' = rslots ?t2" "rslotused t' = rslotused ?t2 + length (live ns)"
      using Cons.IH [OF t2(1), of "c + 1"] by blast
    have "robj n \<notin> dom (map_of (map (\<lambda>n. (robj n, refs n)) (live ns)))"
      using Cons.prems(3) live by (simp add: dom_map_of_conv_image_fst image_image)
    then have "ref_map t' = ref_map t ++ map_of (map (\<lambda>n. (robj n, refs n)) (live (n # ns)))"
      unfolding t'(3) m2 live by (simp add: map_add_upd_left)
    moreover have "ref_readd hsh (n # ns) t c = Some (t', c + length (live (n # ns)))"
      using t'(1) t1(1) o False live by simp
    moreover have "rslots t' = rslots t" "rslotused t' = rslotused t + length (live (n # ns))"
      using t' t1 t2 live by simp_all
    ultimately show ?thesis using t'(2) by blast
  qed
qed

lemma ref_Resize_ok:
  assumes wf: "ref_wf hsh t" and full: "rfree t = []" and n: "n = 2 ^ k" "rslots t \<le> n"
  shows "\<exists>t'. ref_Resize hsh n t = Some t' \<and> ref_wf hsh t' \<and> ref_map t' = ref_map t \<and>
    rslots t' = n \<and> rslotused t' = rslotused t"
proof -
  have wf0: "ref_wf0 hsh t" using wf by (simp add: ref_wf_def)
  note nodes = ref_wf0_nodes [OF wf0]
  have used: "set (rused t) = {..<length (rnodes t)}" using nodes full by auto
  have all: "robj x \<noteq> ONull" "refs x \<noteq> 0" if "x \<in> set (rnodes t)" for x
    using that wf wf0 used unfolding ref_wf_def ref_wf0_def in_set_conv_nth by auto
  then have live: "live (rnodes t) = rnodes t" by (simp add: live_def)
  have inj: "inj_on (\<lambda>i. robj (rnodes t ! i)) {..<length (rnodes t)}"
    using wf0 unfolding ref_wf0_def used by blast
  have dist: "distinct (map robj (rnodes t))"
    unfolding distinct_conv_nth using inj by (auto simp: inj_on_def)
  let ?t0 = "ref_AllocNodes n t"
  have t0: "ref_wf0 hsh ?t0" "ref_map ?t0 = Map.empty" by (rule ref_AllocNodes_ok [OF n(1)])+
  have "rfree ?t0 = [0..<n]" "rslots ?t0 = n" "rslotused ?t0 = 0" by (simp_all add: ref_AllocNodes_def)
  with ref_readd_ok [OF t0(1), of "rnodes t" 0] all dist n nodes t0 live obtain t' where
    t': "ref_readd hsh (rnodes t) ?t0 0 = Some (t', length (rnodes t))" "ref_wf0 hsh t'"
      "ref_map t' = map_of (map (\<lambda>n. (robj n, refs n)) (rnodes t))" "rslots t' = n"
      "rslotused t' = length (rnodes t)" by auto
  have m: "ref_map t' = ref_map t"
  proof (intro ext option_eqI)
    fix x v
    have "distinct (map fst (map (\<lambda>n. (robj n, refs n)) (rnodes t)))" using dist by (simp add: comp_def)
    then have "ref_map t' x = Some v \<longleftrightarrow> (x, v) \<in> set (map (\<lambda>n. (robj n, refs n)) (rnodes t))"
      unfolding t'(3) by (rule map_of_eq_Some_iff)
    also have "\<dots> \<longleftrightarrow> (\<exists>i < length (rnodes t). robj (rnodes t ! i) = x \<and> refs (rnodes t ! i) = v)"
      by (auto simp: in_set_conv_nth image_iff) (metis nth_mem)
    also have "\<dots> \<longleftrightarrow> ref_map t x = Some v"
      unfolding ref_map_iff [OF wf0] used by auto
    finally show "ref_map t' x = Some v \<longleftrightarrow> ref_map t x = Some v" .
  qed
  moreover have "rslotused t = length (rused t)" using wf0 by (simp add: ref_wf0_def)
  ultimately show ?thesis
    using t' nodes full wf by (auto simp: ref_Resize_def ref_wf_iff)
qed

subsection \<open>Counting\<close>

lemma ref_Get_found:
  assumes "ref_wf0 hsh t" "i \<in> set (rused t)" "robj (rnodes t ! i) = obj"
  shows "\<exists>prev. ref_Get hsh obj add t = Some (Some i, bucket_of (rslots t) (hsh obj), prev, t) \<and>
    ref_search (rnodes t) obj None (rbuckets t ! bucket_of (rslots t) (hsh obj)) = (Some i, prev)"
proof -
  let ?ch = "rbuckets t ! bucket_of (rslots t) (hsh obj)"
  have "inj_on (\<lambda>i. robj (rnodes t ! i)) (set (rused t))" using assms by (simp add: ref_wf0_def)
  then have "find (\<lambda>i. robj (rnodes t ! i) = obj) (rused t) = Some i"
    using assms by (subst find_Some_unique) (auto simp: inj_on_def)
  then have "fst (ref_search (rnodes t) obj None ?ch) = Some i"
    using ref_find [OF assms(1), of obj] by (simp add: ref_search_fst)
  then obtain prev where "ref_search (rnodes t) obj None ?ch = (Some i, prev)"
    by (cases "ref_search (rnodes t) obj None ?ch") auto
  then show ?thesis by (auto simp: ref_Get_def Let_def)
qed

lemma ref_Get_new:
  assumes wf: "ref_wf hsh t" and o: "obj \<noteq> ONull" "ref_map t obj = None"
  shows "\<exists>i b prev t'. ref_Get hsh obj True t = Some (Some i, b, prev, t') \<and> ref_wf0 hsh t' \<and>
    i \<in> set (rused t') \<and> robj (rnodes t' ! i) = obj \<and> ref_map t' = (ref_map t)(obj \<mapsto> 0)"
proof -
  have wf0: "ref_wf0 hsh t" using wf by (simp add: ref_wf_def)
  note nodes = ref_wf0_nodes [OF wf0]
  let ?s = "ref_search (rnodes t) obj None (rbuckets t ! bucket_of (rslots t) (hsh obj))"
  have "fst ?s = None"
    using o ref_find [OF wf0, of obj] by (simp add: ref_search_fst ref_map_def)
  then obtain prev where s: "?s = (None, prev)" by (cases ?s) auto
  have su: "rslotused t = length (rused t)" using wf0 by (simp add: ref_wf0_def)
  obtain t1 where t1: "(if rslots t = rslotused t then
        (if rfree t \<noteq> [] then None
         else map_option (\<lambda>t'. (bucket_of (rslots t') (hsh obj), t')) (ref_Resize hsh (rslots t * 2) t))
       else Some (bucket_of (rslots t) (hsh obj), t)) = Some (bucket_of (rslots t1) (hsh obj), t1)"
    "ref_wf hsh t1" "ref_map t1 = ref_map t" "rfree t1 \<noteq> []"
  proof (cases "rslots t = rslotused t")
    case True
    then have f: "rfree t = []" using nodes su by simp
    obtain k where "rslots t = 2 ^ k" using wf0 by (auto simp: ref_wf0_def)
    then have k: "rslots t * 2 = 2 ^ Suc k" by simp
    obtain t1 where t1: "ref_Resize hsh (rslots t * 2) t = Some t1" "ref_wf hsh t1"
      "ref_map t1 = ref_map t" "rslots t1 = rslots t * 2" "rslotused t1 = rslotused t"
      using ref_Resize_ok [OF wf f k] by auto
    have w1: "ref_wf0 hsh t1" using t1 by (simp add: ref_wf_def)
    have "rslotused t1 = length (rused t1)" using w1 by (simp add: ref_wf0_def)
    moreover have "rslots t \<noteq> 0" using k by (metis mult_is_0 power_not_zero zero_neq_numeral)
    ultimately have "rfree t1 \<noteq> []" using ref_wf0_nodes [OF w1] t1 True by auto
    with that [of t1] t1 True f show ?thesis by simp
  next
    case False
    then have "rfree t \<noteq> []" using nodes su by auto
    with that [of t] False wf show ?thesis by simp
  qed
  have w1: "ref_wf0 hsh t1" using t1 by (simp add: ref_wf_def)
  obtain nn fr where "rfree t1 = nn # fr" using t1(4) by (cases "rfree t1") auto
  with ref_Add_ok [OF w1 o(1) _ this] t1(3) o obtain t' where
    "ref_Add (bucket_of (rslots t1) (hsh obj)) obj t1 = Some (nn, t')" "ref_wf0 hsh t'"
    "ref_map t' = (ref_map t)(obj \<mapsto> 0)" "nn \<in> set (rused t')" "robj (rnodes t' ! nn) = obj" by auto
  with t1(1) s show ?thesis by (auto simp: ref_Get_def Let_def)
qed

lemma ref_AddRef_ok:
  assumes wf: "ref_wf hsh t" and o: "obj \<noteq> ONull"
    and r: "r = (case ref_map t obj of Some c \<Rightarrow> c + 1 | None \<Rightarrow> 1)" "r \<noteq> 0"
  shows "\<exists>t'. ref_AddRef hsh obj t = Some t' \<and> ref_wf hsh t' \<and> ref_map t' = (ref_map t)(obj \<mapsto> r)"
proof -
  have wf0: "ref_wf0 hsh t" using wf by (simp add: ref_wf_def)
  obtain i b prev t1 c where g: "ref_Get hsh obj True t = Some (Some i, b, prev, t1)" "ref_wf0 hsh t1"
    "i \<in> set (rused t1)" "robj (rnodes t1 ! i) = obj" "ref_map t1 = (ref_map t)(obj \<mapsto> c)" "c + 1 = r"
  proof (cases "ref_map t obj")
    case None
    with ref_Get_new [OF wf o] that r show ?thesis by auto
  next
    case (Some c)
    then obtain i where i: "i \<in> set (rused t)" "robj (rnodes t ! i) = obj" "refs (rnodes t ! i) = c"
      unfolding ref_map_iff [OF wf0] by auto
    have "ref_map t = (ref_map t)(obj \<mapsto> c)" using Some by (simp add: fun_upd_idem)
    with ref_Get_found [OF wf0 i(1,2), of True] that [OF _ wf0 i(1,2)] Some r show ?thesis by auto
  qed
  have "ref_map t1 obj = Some c" using g by simp
  then have c: "refs (rnodes t1 ! i) = c"
    using g unfolding ref_map_iff [OF g(2)] by (auto simp: ref_wf0_def inj_on_def)
  note s = set_refs_ok [OF g(2,3), of r]
  have "ref_AddRef hsh obj t = Some (set_refs i r t1)"
    using g c by (simp add: ref_AddRef_def)
  moreover have "ref_wf hsh (set_refs i r t1)"
    using s(1,2) g wf r by (auto simp: ref_wf_iff ran_def)
  ultimately show ?thesis using s(2) g by auto
qed

lemma ref_unlink_ok:
  assumes wf: "ref_wf0 hsh t" and i: "i \<in> set (rused t)" and o: "robj (rnodes t ! i) = obj"
    and r: "refs (rnodes t ! i) = 0"
    and b: "b = bucket_of (rslots t) (hsh obj)"
    and t': "t' = t\<lparr>rbuckets := (rbuckets t)[b := remove1 i (rbuckets t ! b)], rfree := i # rfree t,
      rslotused := rslotused t - 1, rnodes := (rnodes t)[i := (rnodes t ! i)\<lparr>robj := ONull\<rparr>]\<rparr>"
  shows "ref_wf0 hsh t' \<and> ref_map t' = (ref_map t)(obj := None)"
proof -
  note nodes = ref_wf0_nodes [OF wf]
  obtain k where k: "rslots t = 2 ^ k" using wf by (auto simp: ref_wf0_def)
  then have bl: "b < rslots t" by (simp add: b)
  have ib: "i \<in> set (rbuckets t ! b)" using ref_bucket [OF wf, of i obj] i o b by auto
  have sl: "rslots t' = rslots t" "rfree t' = i # rfree t"
    and rb: "rbuckets t' = (rbuckets t)[b := remove1 i (rbuckets t ! b)]" by (simp_all add: t')
  have "mset (concat (rbuckets t')) + mset (rbuckets t ! b) =
      mset (rused t) + mset (remove1 i (rbuckets t ! b))"
    using mset_concat_upd [OF bl, of "remove1 i (rbuckets t ! b)"] unfolding rb rused_def .
  moreover have "mset (rbuckets t ! b) = add_mset i (mset (remove1 i (rbuckets t ! b)))" using ib by simp
  moreover have "C = add_mset i A" if "A + B = C + D" "B = add_mset i D" for A B C D :: "nat multiset"
    using that by simp
  ultimately have m: "mset (rused t) = add_mset i (mset (rused t'))" unfolding rused_def by blast
  have d: "distinct (map id (rused t))" using nodes by simp
  have u: "set (rused t) = insert i (set (rused t'))" "length (rused t) = Suc (length (rused t'))"
    by (rule distinct_map_rest(3,4) [OF d m])+
  have u2: "i \<notin> set (rused t')" using distinct_map_rest(2) [OF d m] by simp
  have il: "i < length (rnodes t)" using i nodes by auto
  have nd: "rnodes t' ! j = (if j = i then \<lparr>robj = ONull, refs = 0\<rparr> else rnodes t ! j)" for j
    using il r by (auto simp: t' nth_list_update)
  have wf': "ref_wf0 hsh t'"
    unfolding ref_wf0_def sl
  proof (intro conjI)
    show "\<exists>k. rslots t = 2 ^ k" using k by blast
    show "length (rnodes t') = rslots t" using nodes by (simp add: t')
    show "mset (rused t') + mset (i # rfree t) = mset [0..<rslots t]" using m wf by (simp add: ref_wf0_def)
    have "rslotused t = length (rused t)" using wf by (simp add: ref_wf0_def)
    then show "rslotused t' = length (rused t')" using u by (simp add: t')
    show "inj_on (\<lambda>j. robj (rnodes t' ! j)) (set (rused t'))"
      using wf u2 by (auto simp: nd inj_on_def ref_wf0_def u(1))
    show "\<forall>j \<in> set (rused t'). robj (rnodes t' ! j) \<noteq> ONull"
      using wf u2 by (auto simp: nd ref_wf0_def u(1))
    show "\<forall>j \<in> set (i # rfree t). rnodes t' ! j = \<lparr>robj = ONull, refs = 0\<rparr>"
      using wf by (auto simp: nd ref_wf0_def)
    show "\<forall>c < rslots t. \<forall>j \<in> set (rbuckets t' ! c). bucket_of (rslots t) (hsh (robj (rnodes t' ! j))) = c"
    proof (intro allI impI ballI)
      fix c j assume c: "c < rslots t" and j: "j \<in> set (rbuckets t' ! c)"
      have "j \<in> set (rused t')" using j c sl unfolding rused_def in_set_concat_nth by auto
      then have "j \<noteq> i" using u2 by auto
      moreover have "j \<in> set (rbuckets t ! c)"
        using j bl set_remove1_subset [of i "rbuckets t ! b"] by (auto simp: rb nth_list_update split: if_splits)
      ultimately show "bucket_of (rslots t) (hsh (robj (rnodes t' ! j))) = c"
        using wf c by (simp add: nd ref_wf0_def)
    qed
  qed
  have "inj_on (\<lambda>i. robj (rnodes t ! i)) (set (rused t))" using wf by (simp add: ref_wf0_def)
  then have other: "robj (rnodes t ! j) \<noteq> obj" if "j \<in> set (rused t')" for j
    using that o u2 unfolding inj_on_def u(1) by blast
  have "ref_map t' = (ref_map t)(obj := None)"
  proof (intro ext option_eqI)
    fix x v
    have "j \<noteq> i" if "j \<in> set (rused t')" for j using that u2 by auto
    then show "ref_map t' x = Some v \<longleftrightarrow> ((ref_map t)(obj := None)) x = Some v"
      using other o unfolding ref_map_iff [OF wf'] by (auto simp: nd ref_map_iff [OF wf] u(1))
  qed
  with wf' show ?thesis by simp
qed

lemma ref_Release_ok:
  assumes wf: "ref_wf hsh t" and c: "ref_map t obj = Some c"
  shows "\<exists>t'. ref_Release hsh obj t = Some (c = 1, t') \<and> ref_wf hsh t' \<and>
    ref_map t' = (ref_map t)(obj := (if c = 1 then None else Some (c - 1)))"
proof -
  have wf0: "ref_wf0 hsh t" using wf by (simp add: ref_wf_def)
  obtain i where i: "i \<in> set (rused t)" "robj (rnodes t ! i) = obj" "refs (rnodes t ! i) = c"
    using c unfolding ref_map_iff [OF wf0] by auto
  let ?b = "bucket_of (rslots t) (hsh obj)"
  obtain prev where g: "ref_Get hsh obj False t = Some (Some i, ?b, prev, t)"
    "ref_search (rnodes t) obj None (rbuckets t ! ?b) = (Some i, prev)"
    using ref_Get_found [OF wf0 i(1,2)] by blast
  let ?t2 = "set_refs i (c - 1) t"
  note s = set_refs_ok [OF wf0 i(1), of "c - 1"]
  have il: "i < length (rnodes t)" using i ref_wf0_nodes [OF wf0] by auto
  have sb: "rbuckets (set_refs i x t) = rbuckets t" for x by (simp add: set_refs_def)
  show ?thesis
  proof (cases "c = 1")
    case False
    then have "ref_Release hsh obj t = Some (False, ?t2)"
      using g i by (simp add: ref_Release_def Let_def)
    moreover have "ref_wf hsh ?t2"
      using s(1,2) wf i False by (auto simp: ref_wf_iff ran_def)
    ultimately show ?thesis using s(2) i False by auto
  next
    case True
    let ?t3 = "?t2\<lparr>rbuckets := (rbuckets ?t2)[?b := remove1 i (rbuckets ?t2 ! ?b)],
      rfree := i # rfree ?t2, rslotused := rslotused ?t2 - 1,
      rnodes := (rnodes ?t2)[i := (rnodes ?t2 ! i)\<lparr>robj := ONull\<rparr>]\<rparr>"
    have nd: "robj (rnodes ?t2 ! i) = obj" "refs (rnodes ?t2 ! i) = 0"
      using il i True by (simp_all add: set_refs_def)
    have u: "ref_wf0 hsh ?t3 \<and> ref_map ?t3 = (ref_map ?t2)(obj := None)"
      using i(1) by (intro ref_unlink_ok [OF s(1) _ nd, of ?b]) (simp_all add: s)
    have "ref_Release hsh obj t = Some (True, ?t3)"
      using g i True ref_search_unlink [OF g(2)]
      by (simp add: ref_Release_def Let_def sb)
    moreover have m: "ref_map ?t3 = (ref_map t)(obj := None)" using u s(2) i by simp
    moreover have "0 \<notin> ran ((ref_map t)(obj := None))" using wf by (auto simp: ref_wf_iff ran_def)
    then have "ref_wf hsh ?t3" using u unfolding ref_wf_iff m by simp
    ultimately show ?thesis using True by auto
  qed
qed

subsection \<open>Properties\<close>

datatype ref_op = AddRefOp sqobject | ReleaseOp sqobject

fun ref_run ::
  "(sqobject \<Rightarrow> sqhash) \<Rightarrow> ref_op list \<Rightarrow> reftable \<Rightarrow> (bool list \<times> reftable) option" where
  "ref_run hsh [] t = Some ([], t)"
| "ref_run hsh (AddRefOp obj # ps) t = do { t1 \<leftarrow> ref_AddRef hsh obj t; ref_run hsh ps t1 }"
| "ref_run hsh (ReleaseOp obj # ps) t = do {
     (b, t1) \<leftarrow> ref_Release hsh obj t;
     (bs, t2) \<leftarrow> ref_run hsh ps t1;
     Some (b # bs, t2) }"

text \<open>The reference: a count per object; \<open>None\<close> when a reference is released that is not held
  or a null object is counted.\<close>

fun count_run :: "ref_op list \<Rightarrow> (sqobject \<Rightarrow> nat) \<Rightarrow> (bool list \<times> (sqobject \<Rightarrow> nat)) option" where
  "count_run [] c = Some ([], c)"
| "count_run (AddRefOp obj # ps) c =
     (if obj = ONull then None else count_run ps (c(obj := c obj + 1)))"
| "count_run (ReleaseOp obj # ps) c =
     (if c obj = 0 then None
      else do {
        (bs, c') \<leftarrow> count_run ps (c(obj := c obj - 1));
        Some ((c obj = 1) # bs, c') })"

definition counts_of :: "reftable \<Rightarrow> sqobject \<Rightarrow> nat" where
  "counts_of t obj = (case ref_map t obj of None \<Rightarrow> 0 | Some c \<Rightarrow> unat c)"

lemma ref_run_ok:
  "ref_wf hsh t \<Longrightarrow> count_run ps (counts_of t) = Some (bs, c) \<Longrightarrow>
    \<forall>x. counts_of t x + length ps < 2 ^ 64 \<Longrightarrow>
    \<exists>t'. ref_run hsh ps t = Some (bs, t') \<and> ref_wf hsh t' \<and> counts_of t' = c"
proof (induction ps arbitrary: t bs)
  case Nil
  then show ?case by simp
next
  case (Cons p ps)
  show ?case
  proof (cases p)
    case (AddRefOp obj)
    then have o: "obj \<noteq> ONull" and run: "count_run ps ((counts_of t)(obj := counts_of t obj + 1)) = Some (bs, c)"
      using Cons.prems by (auto split: if_splits)
    define r where "r = (case ref_map t obj of Some c \<Rightarrow> c + 1 | None \<Rightarrow> 1)"
    have lt: "counts_of t obj + 1 < 2 ^ 64" using Cons.prems(3) by (auto dest: spec [of _ obj])
    have ur: "unat r = counts_of t obj + 1"
      using lt by (auto simp: r_def counts_of_def unat_word_ariths split: option.splits)
    then have "r \<noteq> 0" by auto
    from ref_AddRef_ok [OF Cons.prems(1) o r_def this] obtain t1 where
      t1: "ref_AddRef hsh obj t = Some t1" "ref_wf hsh t1" "ref_map t1 = (ref_map t)(obj \<mapsto> r)" by auto
    have c1: "counts_of t1 = (counts_of t)(obj := counts_of t obj + 1)"
      using t1(3) ur by (auto simp: counts_of_def)
    have "\<forall>x. counts_of t1 x + length ps < 2 ^ 64"
    proof
      fix x
      have "counts_of t1 x \<le> counts_of t x + 1" unfolding c1 by simp
      moreover have "counts_of t x + length (p # ps) < 2 ^ 64" using Cons.prems(3) by blast
      ultimately show "counts_of t1 x + length ps < 2 ^ 64" by simp
    qed
    moreover have "count_run ps (counts_of t1) = Some (bs, c)" using run c1 by simp
    ultimately show ?thesis using Cons.IH [OF t1(2), of bs] t1 AddRefOp by simp
  next
    case (ReleaseOp obj)
    then obtain bs' where pos: "counts_of t obj \<noteq> 0" and bs: "bs = (counts_of t obj = 1) # bs'"
      and run: "count_run ps ((counts_of t)(obj := counts_of t obj - 1)) = Some (bs', c)"
      using Cons.prems by (auto split: if_splits bind_splits)
    obtain k where k: "ref_map t obj = Some k" "unat k = counts_of t obj"
      using pos by (auto simp: counts_of_def split: option.splits)
    from ref_Release_ok [OF Cons.prems(1) k(1)] obtain t1 where
      t1: "ref_Release hsh obj t = Some (k = 1, t1)" "ref_wf hsh t1"
        "ref_map t1 = (ref_map t)(obj := (if k = 1 then None else Some (k - 1)))" by auto
    have k1: "k = 1 \<longleftrightarrow> counts_of t obj = 1" using k(2) word_unat_eq_iff [of k 1] by simp
    have "k \<noteq> 0" using pos k by auto
    then have "unat (k - 1) = counts_of t obj - 1" using k by (simp add: unat_minus_one)
    with t1(3) k1 pos have c1: "counts_of t1 = (counts_of t)(obj := counts_of t obj - 1)"
      by (auto simp: counts_of_def)
    have "\<forall>x. counts_of t1 x + length ps < 2 ^ 64"
    proof
      fix x
      have "counts_of t1 x \<le> counts_of t x" unfolding c1 by simp
      moreover have "counts_of t x + length (p # ps) < 2 ^ 64" using Cons.prems(3) by blast
      ultimately show "counts_of t1 x + length ps < 2 ^ 64" by simp
    qed
    moreover have "count_run ps (counts_of t1) = Some (bs', c)" using run c1 by simp
    ultimately show ?thesis using Cons.IH [OF t1(2), of bs'] t1 ReleaseOp bs k1 by auto
  qed
qed

lemma RefTable_new_ok: "ref_wf hsh RefTable_new" "counts_of RefTable_new = (\<lambda>_. 0)"
proof -
  have "(4::nat) = 2 ^ 2" by simp
  then have a: "ref_wf0 hsh RefTable_new" "ref_map RefTable_new = Map.empty"
    unfolding RefTable_new_def by (rule ref_AllocNodes_ok)+
  from a show "ref_wf hsh RefTable_new" by (simp add: ref_wf_iff)
  from a(2) show "counts_of RefTable_new = (\<lambda>_. 0)" by (simp add: counts_of_def fun_eq_iff)
qed

text \<open>
  C11.  Reference counting: for every sequence of fewer than 2^64 \<^verbatim>\<open>AddRef\<close> and
  \<^verbatim>\<open>Release\<close> calls that never releases a reference it does not hold, no assertion of the
  table fails (through any number of resizes), \<^verbatim>\<open>Release\<close> reports the release of the last
  reference exactly when the count drops to zero, and the counts left are those of a plain
  counter per object.
\<close>

theorem reftable_counts:
  assumes "count_run ps (\<lambda>_. 0) = Some (bs, c)" "length ps < 2 ^ 64"
  shows "\<exists>t. ref_run hsh ps RefTable_new = Some (bs, t) \<and>
    (\<forall>obj. (case ref_map t obj of None \<Rightarrow> c obj = 0 | Some r \<Rightarrow> unat r = c obj \<and> 0 < c obj))"
proof -
  obtain t where t: "ref_run hsh ps RefTable_new = Some (bs, t)" "ref_wf hsh t" "counts_of t = c"
    using ref_run_ok [OF RefTable_new_ok(1), of ps bs c] assms by (auto simp: RefTable_new_ok(2))
  moreover have "0 \<notin> ran (ref_map t)" using t(2) by (simp add: ref_wf_iff)
  ultimately have "case ref_map t obj of None \<Rightarrow> c obj = 0 | Some r \<Rightarrow> unat r = c obj \<and> 0 < c obj" for obj
    by (auto simp: counts_of_def ran_def unat_gt_0 split: option.splits)
  with t show ?thesis by blast
qed

theorem reftable_counts_witness:
  "let ps = [AddRefOp (OTable 8), AddRefOp (OTable 8), AddRefOp (OArray 16), AddRefOp (OArray 24),
      AddRefOp (OArray 32), AddRefOp (OArray 40), ReleaseOp (OArray 24), ReleaseOp (OTable 8)]
   in \<exists>t. ref_run rawval ps RefTable_new = Some ([True, False], t) \<and>
     ref_map t (OTable 8) = Some 1 \<and> ref_map t (OArray 24) = None"
proof -
  define ps where "ps = [AddRefOp (OTable 8), AddRefOp (OTable 8), AddRefOp (OArray 16),
    AddRefOp (OArray 24), AddRefOp (OArray 32), AddRefOp (OArray 40), ReleaseOp (OArray 24),
    ReleaseOp (OTable 8)]"
  obtain c where c: "count_run ps (\<lambda>_. 0) = Some ([True, False], c)" "c (OTable 8) = 1" "c (OArray 24) = 0"
    by (simp add: ps_def)
  from reftable_counts [OF c(1), of rawval] obtain t where
    t: "ref_run rawval ps RefTable_new = Some ([True, False], t)"
    "\<forall>obj. (case ref_map t obj of None \<Rightarrow> c obj = 0 | Some r \<Rightarrow> unat r = c obj \<and> 0 < c obj)"
    by (auto simp: ps_def)
  have "ref_map t (OTable 8) = Some 1"
    using spec [OF t(2), of "OTable 8"] c
    by (auto simp: word_unat_eq_iff split: option.splits)
  moreover have "ref_map t (OArray 24) = None"
    using spec [OF t(2), of "OArray 24"] c by (auto split: option.splits)
  ultimately show ?thesis using t(1) unfolding ps_def Let_def by blast
qed

text \<open>
  Asking for the count of an object that is not in the table registers it with the
  count 0.  A later \<^verbatim>\<open>Release\<close> of it wraps the count to 2^64 - 1, and the next growth of the
  table fails the assertion that every registered object has a count.
\<close>

theorem getrefcount_registers_object:
  "map_option fst (ref_GetRefCount rawval (OTable 8) RefTable_new) = Some 0 \<and>
   do { (_, t) \<leftarrow> ref_GetRefCount rawval (OTable 8) RefTable_new;
        (b, t1) \<leftarrow> ref_Release rawval (OTable 8) t; Some (b, map refs (rnodes t1)) } =
    Some (False, [- 1, 0, 0, 0]) \<and>
   do { (_, t) \<leftarrow> ref_GetRefCount rawval (OTable 8) RefTable_new;
        (_, t1) \<leftarrow> ref_run rawval (map (\<lambda>a. AddRefOp (OTable a)) [16, 24, 32]) t;
        ref_AddRef rawval (OTable 40) t1 } = None"
  by (intro conjI; code_simp)

end
