(* ===== verification/Sq_Float.thy ===== *)
theory Sq_Float
  imports Sq_Object
begin

text \<open>
  The single precision numbers of the engine (\<^verbatim>\<open>SQFloat\<close> is \<^verbatim>\<open>float\<close>), as the IEEE 754
  operations the C++ operators stand for: conversion of 64-bit integers, addition,
  subtraction, multiplication, division, \<^verbatim>\<open>fmod\<close>, comparison, and the conversion
  \<^verbatim>\<open>strtod\<close> of a decimal numeral.  A finite value is decoded to sign, mantissa and
  exponent; exact results are rationals, rounded to nearest even by \<open>rnd\<close>.  The choice
  of the not-a-number result, which the C++ leaves open, is that of x86-64.
\<close>

subsection \<open>Rounding a positive rational\<close>

function bitlen :: "int \<Rightarrow> int" where
  "bitlen n = (if n \<le> 0 then 0 else 1 + bitlen (n div 2))"
  by auto
termination by (relation "measure nat") auto

declare bitlen.simps [simp del]

text \<open>
  \<open>rnd p emin n d\<close> is the pair \<open>(q, e)\<close> with \<open>q * 2 ^ e\<close> nearest to \<open>n / d\<close>, \<open>q\<close> of
  at most \<open>p\<close> bits and \<open>e\<close> not below \<open>emin\<close>.
\<close>

definition quo_at :: "int \<Rightarrow> int \<Rightarrow> int \<Rightarrow> int \<times> int \<times> int" where
  "quo_at n d e =
     (let n' = n * 2 ^ nat (- e); d' = d * 2 ^ nat e in (n' div d', n' mod d', d'))"

definition rnd :: "nat \<Rightarrow> int \<Rightarrow> int \<Rightarrow> int \<Rightarrow> int \<times> int" where
  "rnd p emin n d =
     (let e0 = bitlen n - bitlen d - int p;
          e1 = (if fst (quo_at n d e0) \<ge> 2 ^ p then e0 + 1 else e0);
          e = max emin e1;
          (q, r, d') = quo_at n d e;
          q' = (if 2 * r > d' \<or> 2 * r = d' \<and> odd q then q + 1 else q)
      in if q' \<ge> 2 ^ p then (q' div 2, e + 1) else (q', e))"

subsection \<open>Encoding and decoding\<close>

datatype fval = FNaN | FInf bool | FFin bool int int

definition f32_decode :: "sqfloat \<Rightarrow> fval" where
  "f32_decode f =
     (if f32_exp f = 255 then (if f32_man f = 0 then FInf (f32_sign f) else FNaN)
      else if f32_exp f = 0 then FFin (f32_sign f) (f32_man f) (-149)
      else FFin (f32_sign f) (f32_man f + 2 ^ 23) (int (f32_exp f) - 150))"

definition f32_pack :: "bool \<Rightarrow> int \<Rightarrow> int \<Rightarrow> sqfloat" where
  "f32_pack s ex man = word_of_int ((if s then 2 ^ 31 else 0) + ex * 2 ^ 23 + man)"

definition f32_inf :: "bool \<Rightarrow> sqfloat" where "f32_inf s = f32_pack s 255 0"
definition f32_default_nan :: sqfloat where "f32_default_nan = 0xFFC00000"

definition f32_of_fin :: "bool \<Rightarrow> int \<Rightarrow> int \<Rightarrow> sqfloat" where
  "f32_of_fin s q e =
     (if q < 2 ^ 23 then f32_pack s 0 q
      else if e > 104 then f32_inf s
      else f32_pack s (e + 150) (q - 2 ^ 23))"

definition f32_round :: "bool \<Rightarrow> int \<Rightarrow> int \<Rightarrow> sqfloat" where
  "f32_round s n d =
     (if n = 0 then f32_pack s 0 0
      else let (q, e) = rnd 24 (-149) n d in f32_of_fin s q e)"

definition f32_round_int :: "bool \<Rightarrow> int \<Rightarrow> int \<Rightarrow> sqfloat" where
  "f32_round_int s m e = f32_round s (m * 2 ^ nat e) (2 ^ nat (- e))"

definition is_nan :: "sqfloat \<Rightarrow> bool" where
  "is_nan f \<longleftrightarrow> f32_exp f = 255 \<and> f32_man f \<noteq> 0"

definition quiet :: "sqfloat \<Rightarrow> sqfloat" where
  "quiet f = f OR 0x00400000"

definition nan2 :: "sqfloat \<Rightarrow> sqfloat \<Rightarrow> sqfloat" where
  "nan2 a b = (if is_nan a then quiet a else quiet b)"

subsection \<open>The operators\<close>

definition int_to_float :: "sqint \<Rightarrow> sqfloat" where
  "int_to_float i = f32_round (sint i < 0) \<bar>sint i\<bar> 1"

text \<open>\<^verbatim>\<open>tofloat(num)\<close>: an integer is converted, of anything else the low half of the
  union is read as a float.\<close>

definition tofloat :: "sqobject \<Rightarrow> sqfloat" where
  "tofloat num = (case num of OInteger i \<Rightarrow> int_to_float i | _ \<Rightarrow> ucast (rawval num))"

definition signed_man :: "bool \<Rightarrow> int \<Rightarrow> int \<Rightarrow> int \<Rightarrow> int" where
  "signed_man s m e e0 = (let v = m * 2 ^ nat (e - e0) in if s then - v else v)"

definition f_neg :: "sqfloat \<Rightarrow> sqfloat" where
  "f_neg f = f XOR 0x80000000"

definition f_add :: "sqfloat \<Rightarrow> sqfloat \<Rightarrow> sqfloat" where
  "f_add a b =
     (case f32_decode a of
        FNaN \<Rightarrow> nan2 a b
      | FInf s \<Rightarrow> (case f32_decode b of
            FNaN \<Rightarrow> nan2 a b
          | FInf t \<Rightarrow> if s = t then a else f32_default_nan
          | FFin _ _ _ \<Rightarrow> a)
      | FFin s m e \<Rightarrow> (case f32_decode b of
            FNaN \<Rightarrow> nan2 a b
          | FInf _ \<Rightarrow> b
          | FFin t k g \<Rightarrow>
              (let e0 = min e g; v = signed_man s m e e0 + signed_man t k g e0
               in if v = 0 then f32_pack (s \<and> t) 0 0
                  else f32_round_int (v < 0) \<bar>v\<bar> e0)))"

definition f_sub :: "sqfloat \<Rightarrow> sqfloat \<Rightarrow> sqfloat" where
  "f_sub a b = (if is_nan b then nan2 a b else f_add a (f_neg b))"

definition f_mul :: "sqfloat \<Rightarrow> sqfloat \<Rightarrow> sqfloat" where
  "f_mul a b =
     (case f32_decode a of
        FNaN \<Rightarrow> nan2 a b
      | FInf s \<Rightarrow> (case f32_decode b of
            FNaN \<Rightarrow> nan2 a b
          | FInf t \<Rightarrow> f32_inf (s \<noteq> t)
          | FFin t k _ \<Rightarrow> if k = 0 then f32_default_nan else f32_inf (s \<noteq> t))
      | FFin s m e \<Rightarrow> (case f32_decode b of
            FNaN \<Rightarrow> nan2 a b
          | FInf t \<Rightarrow> if m = 0 then f32_default_nan else f32_inf (s \<noteq> t)
          | FFin t k g \<Rightarrow> f32_round_int (s \<noteq> t) (m * k) (e + g)))"

definition f_div :: "sqfloat \<Rightarrow> sqfloat \<Rightarrow> sqfloat" where
  "f_div a b =
     (case f32_decode a of
        FNaN \<Rightarrow> nan2 a b
      | FInf s \<Rightarrow> (case f32_decode b of
            FNaN \<Rightarrow> nan2 a b
          | FInf t \<Rightarrow> f32_default_nan
          | FFin t _ _ \<Rightarrow> f32_inf (s \<noteq> t))
      | FFin s m e \<Rightarrow> (case f32_decode b of
            FNaN \<Rightarrow> nan2 a b
          | FInf t \<Rightarrow> f32_pack (s \<noteq> t) 0 0
          | FFin t k g \<Rightarrow>
              (if k = 0 then (if m = 0 then f32_default_nan else f32_inf (s \<noteq> t))
               else f32_round (s \<noteq> t) (m * 2 ^ nat (e - g)) (k * 2 ^ nat (g - e)))))"

text \<open>\<^verbatim>\<open>fmod\<close> is exact: the result is a multiple of the smaller unit and below the divisor.\<close>

definition f_mod :: "sqfloat \<Rightarrow> sqfloat \<Rightarrow> sqfloat" where
  "f_mod a b =
     (case f32_decode a of
        FNaN \<Rightarrow> nan2 a b
      | FInf s \<Rightarrow> (if is_nan b then nan2 a b else f32_default_nan)
      | FFin s m e \<Rightarrow> (case f32_decode b of
            FNaN \<Rightarrow> nan2 a b
          | FInf _ \<Rightarrow> a
          | FFin t k g \<Rightarrow>
              (if k = 0 then f32_default_nan
               else let e0 = min e g
                    in f32_round_int s ((m * 2 ^ nat (e - e0)) mod (k * 2 ^ nat (g - e0))) e0)))"

text \<open>Comparison: \<open>None\<close> when the operands are unordered.\<close>

definition f_cmp :: "sqfloat \<Rightarrow> sqfloat \<Rightarrow> int option" where
  "f_cmp a b =
     (case f32_decode a of
        FNaN \<Rightarrow> None
      | FInf s \<Rightarrow> (case f32_decode b of
            FNaN \<Rightarrow> None
          | FInf t \<Rightarrow> Some (if s = t then 0 else if s then -1 else 1)
          | FFin _ _ _ \<Rightarrow> Some (if s then -1 else 1))
      | FFin s m e \<Rightarrow> (case f32_decode b of
            FNaN \<Rightarrow> None
          | FInf t \<Rightarrow> Some (if t then 1 else -1)
          | FFin t k g \<Rightarrow>
              (let e0 = min e g in Some (sgn (signed_man s m e e0 - signed_man t k g e0)))))"

definition f_eq :: "sqfloat \<Rightarrow> sqfloat \<Rightarrow> bool" where "f_eq a b \<longleftrightarrow> f_cmp a b = Some 0"
definition f_lt :: "sqfloat \<Rightarrow> sqfloat \<Rightarrow> bool" where "f_lt a b \<longleftrightarrow> f_cmp a b = Some (-1)"

subsection \<open>Decimal numerals\<close>

text \<open>
  \<open>dec_to_float m x\<close> is \<open>(float) strtod\<close> of the numeral with digits \<open>m\<close> and decimal exponent
  \<open>x\<close>: first rounded to a double, then to a float.  A double above the largest finite
  one is an infinity, which the second rounding makes of it as well.
\<close>

definition dec_to_float :: "int \<Rightarrow> int \<Rightarrow> sqfloat" where
  "dec_to_float m x =
     (if m = 0 then 0
      else let (q, e) = rnd 53 (-1074) (m * 10 ^ nat x) (10 ^ nat (- x))
           in f32_round_int False q e)"

subsection \<open>Representable values are fixed points of rounding\<close>

lemma bitlen_bounds: "0 < n \<Longrightarrow> 2 ^ nat (bitlen n - 1) \<le> n \<and> n < 2 ^ nat (bitlen n) \<and> 0 < bitlen n"
proof (induction n rule: bitlen.induct)
  case (1 n)
  show ?case
  proof (cases "n = 1")
    case True
    then show ?thesis by (simp add: bitlen.simps)
  next
    case False
    with 1 have IH: "2 ^ nat (bitlen (n div 2) - 1) \<le> n div 2" "n div 2 < 2 ^ nat (bitlen (n div 2))"
      "0 < bitlen (n div 2)" by auto
    have b: "bitlen n = 1 + bitlen (n div 2)" using 1 by (subst bitlen.simps) simp
    have "nat (bitlen (n div 2)) = Suc (nat (bitlen (n div 2) - 1))"
      "nat (1 + bitlen (n div 2)) = Suc (nat (bitlen (n div 2)))" using IH by arith+
    moreover have "2 * x \<le> n" if "x \<le> n div 2" for x using that by presburger
    moreover have "n < 2 * x" if "n div 2 < x" for x using that by presburger
    ultimately show ?thesis using IH b by (metis add_diff_cancel_left' less_add_same_cancel1
      add.commute add_pos_pos power_Suc zero_less_one)
  qed
qed

lemma bitlen_unique:
  assumes "2 ^ k \<le> n" "n < 2 ^ Suc k"
  shows "bitlen n = int (Suc k)"
proof -
  have "(0::int) < 2 ^ k" by simp
  with assms have "0 < n" by linarith
  from bitlen_bounds [OF this] have b: "2 ^ nat (bitlen n - 1) \<le> n" "n < 2 ^ nat (bitlen n)"
    "0 < bitlen n" by auto
  have "(2::int) ^ nat (bitlen n - 1) < 2 ^ Suc k" using b assms by linarith
  then have 1: "nat (bitlen n - 1) < Suc k" by (rule power_less_imp_less_exp [rotated]) simp
  have "(2::int) ^ k < 2 ^ nat (bitlen n)" using b assms by linarith
  then have 2: "k < nat (bitlen n)" by (rule power_less_imp_less_exp [rotated]) simp
  from 1 2 b show ?thesis by arith
qed

lemma bitlen_shift: "0 < n \<Longrightarrow> bitlen (n * 2 ^ k) = bitlen n + int k"
proof -
  assume n: "0 < n"
  from bitlen_bounds [OF n] have b: "2 ^ nat (bitlen n - 1) \<le> n" "n < 2 ^ nat (bitlen n)"
    "0 < bitlen n" by auto
  have "2 ^ (nat (bitlen n - 1) + k) \<le> n * 2 ^ k" using b by (simp add: power_add)
  moreover have "n * 2 ^ k < 2 ^ (nat (bitlen n) + k)" using b by (simp add: power_add)
  moreover have "nat (bitlen n) + k = Suc (nat (bitlen n - 1) + k)" using b by arith
  ultimately have "bitlen (n * 2 ^ k) = int (Suc (nat (bitlen n - 1) + k))"
    by (intro bitlen_unique) auto
  with b show ?thesis by arith
qed

lemma bitlen_one [simp]: "bitlen 1 = 1"
  by (simp add: bitlen.simps)

lemma bitlen_pow: "bitlen (2 ^ k) = 1 + int k"
  using bitlen_shift [of 1 k] by simp

lemma quo_at_exact:
  "quo_at (m * 2 ^ nat e) (2 ^ nat (- e)) e = (m, 0, 2 ^ nat (- e) * 2 ^ nat e)"
  by (simp add: quo_at_def Let_def algebra_simps)

lemma quo_at_pred:
  "fst (quo_at (m * 2 ^ nat e) (2 ^ nat (- e)) (e - 1)) = 2 * m"
proof (cases "e \<ge> 1")
  case True
  then have "nat e = Suc (nat (e - 1))" by arith
  with True show ?thesis by (simp add: quo_at_def Let_def)
next
  case False
  then have "nat (- (e - 1)) = Suc (nat (- e))" "nat (e - 1) = 0" "nat e = 0" by arith+
  with False show ?thesis by (simp add: quo_at_def Let_def)
qed

lemma rnd_exact:
  assumes "0 < m" "m < 2 ^ p" "emin \<le> e" "2 ^ p \<le> 2 * m \<or> e = emin" "0 < p"
  shows "rnd p emin (m * 2 ^ nat e) (2 ^ nat (- e)) = (m, e)"
proof -
  define e0 where "e0 = bitlen (m * 2 ^ nat e) - bitlen (2 ^ nat (- e)) - int p"
  have e0: "e0 = bitlen m + e - 1 - int p"
    using assms(1) by (simp add: e0_def bitlen_shift bitlen_pow)
  have "bitlen m \<le> int p"
  proof -
    have "(2::int) ^ nat (bitlen m - 1) < 2 ^ p" using bitlen_bounds [OF assms(1)] assms by linarith
    then have "nat (bitlen m - 1) < p" by (rule power_less_imp_less_exp [rotated]) simp
    then show ?thesis by arith
  qed
  have "max emin (if fst (quo_at (m * 2 ^ nat e) (2 ^ nat (- e)) e0) \<ge> 2 ^ p then e0 + 1 else e0) = e"
  proof (cases "2 ^ p \<le> 2 * m")
    case True
    obtain p' where p': "p = Suc p'" using assms by (cases p) auto
    have "bitlen m = int (Suc p')" using True assms p' by (intro bitlen_unique) auto
    with e0 p' have "e0 = e - 1" by simp
    with True assms quo_at_pred [of m e] show ?thesis by simp
  next
    case False
    with assms \<open>bitlen m \<le> int p\<close> e0 show ?thesis by auto
  qed
  then show ?thesis
    using assms unfolding rnd_def Let_def e0_def [symmetric]
    by (simp only: quo_at_exact) (simp add: not_less)
qed

lemma f32_man_eq: "f32_man f = uint f mod 2 ^ 23"
proof -
  have "(0x7FFFFF :: 32 word) = mask 23" by (simp add: mask_eq_exp_minus_1)
  then have "f AND 0x7FFFFF = take_bit 23 f" by (simp only: take_bit_eq_mask)
  then have "f32_man f = take_bit 23 (uint f)" by (simp only: f32_man_def unsigned_take_bit_eq)
  then show ?thesis by (simp only: take_bit_eq_mod)
qed

lemma f32_exp_eq: "int (f32_exp f) = (uint f div 2 ^ 23) mod 256"
proof -
  have "(255 :: 32 word) = mask 8" by (simp add: mask_eq_exp_minus_1)
  then have "drop_bit 23 f AND 255 = take_bit 8 (drop_bit 23 f)" by (simp only: take_bit_eq_mask)
  then have "int (f32_exp f) = uint (take_bit 8 (drop_bit 23 f))"
    unfolding f32_exp_def by (metis of_nat_unat)
  then have "int (f32_exp f) = take_bit 8 (uint (drop_bit 23 f))"
    by (simp only: unsigned_take_bit_eq)
  then have "int (f32_exp f) = take_bit 8 (drop_bit 23 (take_bit 32 (uint f)))"
    by (simp add: unsigned_drop_bit_eq)
  moreover have "take_bit 32 (uint f) = uint f"
    using uint_lt2p [of f] by (intro take_bit_int_eq_self) auto
  ultimately have "int (f32_exp f) = take_bit 8 (drop_bit 23 (uint f))" by simp
  then show ?thesis by (simp only: drop_bit_eq_div take_bit_eq_mod) simp
qed

lemma f32_sign_eq: "f32_sign f \<longleftrightarrow> 2 ^ 31 \<le> uint f"
proof -
  have u: "uint f < 2 ^ 32" using uint_lt2p [of f] by simp
  have "f32_sign f \<longleftrightarrow> odd (uint f div 2 ^ 31)"
    by (simp only: f32_sign_def bit_iff_odd [symmetric] bit_uint_iff) simp
  also have "\<dots> \<longleftrightarrow> 2 ^ 31 \<le> uint f"
  proof (cases "2 ^ 31 \<le> uint f")
    case True
    then have "uint f div 2 ^ 31 = 1" using u by (intro int_div_pos_eq [of _ _ _ "uint f - 2 ^ 31"]) simp_all
    with True show ?thesis by simp
  next
    case False
    then have "uint f div 2 ^ 31 = 0" by (simp add: div_pos_pos_trivial)
    with False show ?thesis by simp
  qed
  finally show ?thesis .
qed

lemma f32_pack_fields: "f32_pack (f32_sign f) (int (f32_exp f)) (f32_man f) = f"
proof -
  have u: "0 \<le> uint f" "uint f < 2 ^ 32" using uint_lt2p [of f] by simp_all
  have "(if f32_sign f then 2 ^ 31 else 0) + int (f32_exp f) * 2 ^ 23 + f32_man f = uint f"
  proof -
    define a r where "a = uint f div 2 ^ 23" and "r = uint f mod 2 ^ 23"
    have d: "uint f = a * 2 ^ 23 + r" "0 \<le> r" "r < 2 ^ 23" by (simp_all add: a_def r_def)
    have a: "0 \<le> a" "a < 512" using u d by simp_all
    have "a mod 256 = (if 256 \<le> a then a - 256 else a)"
      using a by (simp add: mod_pos_pos_trivial) (presburger)
    moreover have "2 ^ 31 \<le> uint f \<longleftrightarrow> 256 \<le> a" using d by auto
    ultimately show ?thesis
      unfolding f32_sign_eq f32_exp_eq f32_man_eq a_def [symmetric] r_def [symmetric]
      using d by simp
  qed
  then show ?thesis by (simp add: f32_pack_def)
qed

lemma f32_man_range: "0 \<le> f32_man f" "f32_man f < 2 ^ 23"
  by (simp_all add: f32_man_eq)

lemma f32_exp_range: "f32_exp f < 256"
  using f32_exp_eq [of f] by simp

lemma f32_round_decode:
  assumes "f32_decode f = FFin s m e"
  shows "f32_round_int s m e = f"
proof -
  consider (sub) "f32_exp f = 0" "s = f32_sign f" "m = f32_man f" "e = -149"
    | (norm) "0 < f32_exp f" "f32_exp f < 255" "s = f32_sign f" "m = f32_man f + 2 ^ 23"
        "e = int (f32_exp f) - 150"
    using assms f32_exp_range [of f] by (auto simp: f32_decode_def split: if_splits)
  then show ?thesis
  proof cases
    case sub
    show ?thesis
    proof (cases "m = 0")
      case True
      with sub show ?thesis
        using f32_pack_fields [of f] by (simp add: f32_round_int_def f32_round_def)
    next
      case False
      with sub f32_man_range [of f] have "rnd 24 (-149) (m * 2 ^ nat e) (2 ^ nat (- e)) = (m, e)"
        by (intro rnd_exact) auto
      with sub False f32_man_range [of f] show ?thesis
        using f32_pack_fields [of f]
        by (simp add: f32_round_int_def f32_round_def f32_of_fin_def)
    qed
  next
    case norm
    with f32_man_range [of f] have "rnd 24 (-149) (m * 2 ^ nat e) (2 ^ nat (- e)) = (m, e)"
      by (intro rnd_exact) auto
    moreover have "m * 2 ^ nat e \<noteq> 0" using norm f32_man_range [of f] by simp
    ultimately show ?thesis
      using norm f32_man_range [of f] f32_pack_fields [of f]
      by (simp add: f32_round_int_def f32_round_def f32_of_fin_def)
  qed
qed

end
