(* ===== verification/Sq_Lexer.thy ===== *)
theory Sq_Lexer
  imports Sq_Table Sq_Strings Sq_Float
begin

text \<open>
  The lexer \<^verbatim>\<open>SQLexer\<close> (\<^verbatim>\<open>sqlexer.h\<close>, \<^verbatim>\<open>sqlexer.cpp\<close>).  The state is the record
  \<open>lexer\<close>; the source text is the list of the values that successive calls of the reader
  \<^verbatim>\<open>_readf\<close> return, which is 0 from its end on, as the readers of \<^verbatim>\<open>sqapi.cpp\<close> and
  \<^verbatim>\<open>sqstdio.cpp\<close> do.  \<^verbatim>\<open>_svalue\<close> always points to the start of \<^verbatim>\<open>_longstr\<close> and has
  no field of its own.  \<^verbatim>\<open>Error\<close> does not return (it ends in the \<^verbatim>\<open>longjmp\<close> of the
  compiler): the result of an operation is \<open>Inl\<close> of the message and the state at that
  moment, which gives the line and column of the report, or \<open>Inr\<close> of its value.  The
  character classes are those of the C locale.
\<close>

subsection \<open>Characters and tokens\<close>

abbreviation chr8 :: "char \<Rightarrow> 8 word" where "chr8 c \<equiv> of_char c"
abbreviation tokc :: "char \<Rightarrow> sqint" where "tokc c \<equiv> of_char c"

definition in_range :: "nat \<Rightarrow> nat \<Rightarrow> 8 word \<Rightarrow> bool" where
  "in_range lo hi c \<longleftrightarrow> lo \<le> unat c \<and> unat c \<le> hi"

definition scisdigit :: "8 word \<Rightarrow> bool" where "scisdigit c \<longleftrightarrow> in_range 48 57 c"
definition scisodigit :: "8 word \<Rightarrow> bool" where "scisodigit c \<longleftrightarrow> in_range 48 55 c"
definition scisxdigit :: "8 word \<Rightarrow> bool" where
  "scisxdigit c \<longleftrightarrow> scisdigit c \<or> in_range 65 70 c \<or> in_range 97 102 c"
definition scisalpha :: "8 word \<Rightarrow> bool" where
  "scisalpha c \<longleftrightarrow> in_range 65 90 c \<or> in_range 97 122 c"
definition scisalnum :: "8 word \<Rightarrow> bool" where "scisalnum c \<longleftrightarrow> scisalpha c \<or> scisdigit c"
definition sciscntrl :: "8 word \<Rightarrow> bool" where "sciscntrl c \<longleftrightarrow> unat c < 32 \<or> unat c = 127"
definition toupper :: "8 word \<Rightarrow> 8 word" where
  "toupper c = (if in_range 97 122 c then c - 32 else c)"
definition isexponent :: "8 word \<Rightarrow> bool" where "isexponent c \<longleftrightarrow> c = chr8 CHR ''e'' \<or> c = chr8 CHR ''E''"

definition TK_IDENTIFIER :: sqint where "TK_IDENTIFIER = 258"
definition TK_STRING_LITERAL :: sqint where "TK_STRING_LITERAL = 259"
definition TK_INTEGER :: sqint where "TK_INTEGER = 260"
definition TK_FLOAT :: sqint where "TK_FLOAT = 261"
definition TK_BASE :: sqint where "TK_BASE = 262"
definition TK_DELETE :: sqint where "TK_DELETE = 263"
definition TK_EQ :: sqint where "TK_EQ = 264"
definition TK_NE :: sqint where "TK_NE = 265"
definition TK_LE :: sqint where "TK_LE = 266"
definition TK_GE :: sqint where "TK_GE = 267"
definition TK_SWITCH :: sqint where "TK_SWITCH = 268"
definition TK_ARROW :: sqint where "TK_ARROW = 269"
definition TK_AND :: sqint where "TK_AND = 270"
definition TK_OR :: sqint where "TK_OR = 271"
definition TK_IF :: sqint where "TK_IF = 272"
definition TK_ELSE :: sqint where "TK_ELSE = 273"
definition TK_WHILE :: sqint where "TK_WHILE = 274"
definition TK_BREAK :: sqint where "TK_BREAK = 275"
definition TK_FOR :: sqint where "TK_FOR = 276"
definition TK_DO :: sqint where "TK_DO = 277"
definition TK_NULL :: sqint where "TK_NULL = 278"
definition TK_FOREACH :: sqint where "TK_FOREACH = 279"
definition TK_IN :: sqint where "TK_IN = 280"
definition TK_NEWSLOT :: sqint where "TK_NEWSLOT = 281"
definition TK_MODULO :: sqint where "TK_MODULO = 282"
definition TK_LOCAL :: sqint where "TK_LOCAL = 283"
definition TK_CLONE :: sqint where "TK_CLONE = 284"
definition TK_FUNCTION :: sqint where "TK_FUNCTION = 285"
definition TK_RETURN :: sqint where "TK_RETURN = 286"
definition TK_TYPEOF :: sqint where "TK_TYPEOF = 287"
definition TK_UMINUS :: sqint where "TK_UMINUS = 288"
definition TK_PLUSEQ :: sqint where "TK_PLUSEQ = 289"
definition TK_MINUSEQ :: sqint where "TK_MINUSEQ = 290"
definition TK_CONTINUE :: sqint where "TK_CONTINUE = 291"
definition TK_YIELD :: sqint where "TK_YIELD = 292"
definition TK_TRY :: sqint where "TK_TRY = 293"
definition TK_CATCH :: sqint where "TK_CATCH = 294"
definition TK_THROW :: sqint where "TK_THROW = 295"
definition TK_SHIFTL :: sqint where "TK_SHIFTL = 296"
definition TK_SHIFTR :: sqint where "TK_SHIFTR = 297"
definition TK_RESUME :: sqint where "TK_RESUME = 298"
definition TK_DOUBLE_COLON :: sqint where "TK_DOUBLE_COLON = 299"
definition TK_CASE :: sqint where "TK_CASE = 300"
definition TK_DEFAULT :: sqint where "TK_DEFAULT = 301"
definition TK_THIS :: sqint where "TK_THIS = 302"
definition TK_PLUSPLUS :: sqint where "TK_PLUSPLUS = 303"
definition TK_MINUSMINUS :: sqint where "TK_MINUSMINUS = 304"
definition TK_3WAYSCMP :: sqint where "TK_3WAYSCMP = 305"
definition TK_USHIFTR :: sqint where "TK_USHIFTR = 306"
definition TK_CLASS :: sqint where "TK_CLASS = 307"
definition TK_EXTENDS :: sqint where "TK_EXTENDS = 308"
definition TK_CONSTRUCTOR :: sqint where "TK_CONSTRUCTOR = 310"
definition TK_INSTANCEOF :: sqint where "TK_INSTANCEOF = 311"
definition TK_VARPARAMS :: sqint where "TK_VARPARAMS = 312"
definition TK_LINE :: sqint where "TK_LINE = 313"
definition TK_FILE :: sqint where "TK_FILE = 314"
definition TK_TRUE :: sqint where "TK_TRUE = 315"
definition TK_FALSE :: sqint where "TK_FALSE = 316"
definition TK_MULEQ :: sqint where "TK_MULEQ = 317"
definition TK_DIVEQ :: sqint where "TK_DIVEQ = 318"
definition TK_MODEQ :: sqint where "TK_MODEQ = 319"
definition TK_ATTR_OPEN :: sqint where "TK_ATTR_OPEN = 320"
definition TK_ATTR_CLOSE :: sqint where "TK_ATTR_CLOSE = 321"
definition TK_STATIC :: sqint where "TK_STATIC = 322"
definition TK_ENUM :: sqint where "TK_ENUM = 323"
definition TK_CONST :: sqint where "TK_CONST = 324"
definition TK_RAWCALL :: sqint where "TK_RAWCALL = 325"

lemmas tk_defs =
  TK_IDENTIFIER_def TK_STRING_LITERAL_def TK_INTEGER_def TK_FLOAT_def TK_BASE_def
  TK_DELETE_def TK_EQ_def TK_NE_def TK_LE_def TK_GE_def TK_SWITCH_def TK_ARROW_def
  TK_AND_def TK_OR_def TK_IF_def TK_ELSE_def TK_WHILE_def TK_BREAK_def TK_FOR_def TK_DO_def
  TK_NULL_def TK_FOREACH_def TK_IN_def TK_NEWSLOT_def TK_MODULO_def TK_LOCAL_def
  TK_CLONE_def TK_FUNCTION_def TK_RETURN_def TK_TYPEOF_def TK_UMINUS_def TK_PLUSEQ_def
  TK_MINUSEQ_def TK_CONTINUE_def TK_YIELD_def TK_TRY_def TK_CATCH_def TK_THROW_def
  TK_SHIFTL_def TK_SHIFTR_def TK_RESUME_def TK_DOUBLE_COLON_def TK_CASE_def TK_DEFAULT_def
  TK_THIS_def TK_PLUSPLUS_def TK_MINUSMINUS_def TK_3WAYSCMP_def TK_USHIFTR_def TK_CLASS_def
  TK_EXTENDS_def TK_CONSTRUCTOR_def TK_INSTANCEOF_def TK_VARPARAMS_def TK_LINE_def
  TK_FILE_def TK_TRUE_def TK_FALSE_def TK_MULEQ_def TK_DIVEQ_def TK_MODEQ_def
  TK_ATTR_OPEN_def TK_ATTR_CLOSE_def TK_STATIC_def TK_ENUM_def TK_CONST_def TK_RAWCALL_def

definition keyword_list :: "(string \<times> sqint) list" where
  "keyword_list = [
     (''while'', TK_WHILE), (''do'', TK_DO), (''if'', TK_IF),
     (''else'', TK_ELSE), (''break'', TK_BREAK), (''continue'', TK_CONTINUE),
     (''return'', TK_RETURN), (''null'', TK_NULL), (''function'', TK_FUNCTION),
     (''script'', TK_FUNCTION), (''local'', TK_LOCAL), (''for'', TK_FOR),
     (''foreach'', TK_FOREACH), (''in'', TK_IN), (''typeof'', TK_TYPEOF),
     (''base'', TK_BASE), (''delete'', TK_DELETE), (''try'', TK_TRY),
     (''catch'', TK_CATCH), (''throw'', TK_THROW), (''clone'', TK_CLONE),
     (''yield'', TK_YIELD), (''resume'', TK_RESUME), (''switch'', TK_SWITCH),
     (''case'', TK_CASE), (''default'', TK_DEFAULT), (''this'', TK_THIS),
     (''class'', TK_CLASS), (''extends'', TK_EXTENDS), (''constructor'', TK_CONSTRUCTOR),
     (''instanceof'', TK_INSTANCEOF), (''true'', TK_TRUE), (''false'', TK_FALSE),
     (''static'', TK_STATIC), (''enum'', TK_ENUM), (''const'', TK_CONST),
     (''__LINE__'', TK_LINE), (''__FILE__'', TK_FILE), (''rawcall'', TK_RAWCALL)]"

subsection \<open>State\<close>

record lexer =
  lx_in :: "sqint list"
  curtoken :: sqint
  prevtoken :: sqint
  currentline :: sqint
  lasttokenline :: sqint
  currentcolumn :: sqint
  nvalue :: sqint
  fvalue :: sqfloat
  currdata :: "8 word"
  longstr :: "sqchar list"
  reached_eof :: bool
  kwtable :: sqtable

type_synonym 'a lres = "(string \<times> lexer) + 'a"

definition Next :: "lexer \<Rightarrow> lexer lres" where
  "Next s =
     (let t = (case lx_in s of [] \<Rightarrow> 0 | x # _ \<Rightarrow> x);
          s1 = s\<lparr>lx_in := tl (lx_in s)\<rparr>
      in if sint t > 0xFF then Inl (''Invalid character'', s1)
         else if t \<noteq> 0 then Inr (s1\<lparr>currdata := ucast t\<rparr>)
         else Inr (s1\<lparr>currdata := 0, reached_eof := True\<rparr>))"

definition NEXT :: "lexer \<Rightarrow> lexer lres" where
  "NEXT s = ebind (Next s) (\<lambda>s1. Inr (s1\<lparr>currentcolumn := currentcolumn s1 + 1\<rparr>))"

definition RETURN_TOKEN :: "sqint \<Rightarrow> lexer \<Rightarrow> (sqint \<times> lexer) lres" where
  "RETURN_TOKEN t s = Inr (t, s\<lparr>prevtoken := curtoken s, curtoken := t\<rparr>)"

definition APPEND_CHAR :: "sqchar \<Rightarrow> lexer \<Rightarrow> lexer" where
  "APPEND_CHAR c s = s\<lparr>longstr := longstr s @ [c]\<rparr>"

definition INIT_TEMP_STRING :: "lexer \<Rightarrow> lexer" where
  "INIT_TEMP_STRING s = s\<lparr>longstr := []\<rparr>"

definition TERMINATE_BUFFER :: "lexer \<Rightarrow> lexer" where
  "TERMINATE_BUFFER s = APPEND_CHAR 0 s"

text \<open>What is left to read: two per value of the reader, one for a current character.\<close>

definition lexsize :: "lexer \<Rightarrow> nat" where
  "lexsize s = 2 * length (lx_in s) + (if currdata s = 0 then 0 else 1)"

lemma lexsize_simps [simp]:
  "lexsize (s\<lparr>longstr := x\<rparr>) = lexsize s" "lexsize (s\<lparr>currentline := l\<rparr>) = lexsize s"
  "lexsize (s\<lparr>currentcolumn := c\<rparr>) = lexsize s" "lexsize (s\<lparr>curtoken := t\<rparr>) = lexsize s"
  "lexsize (s\<lparr>prevtoken := t\<rparr>) = lexsize s" "lexsize (s\<lparr>lasttokenline := l\<rparr>) = lexsize s"
  "lexsize (s\<lparr>nvalue := v\<rparr>) = lexsize s" "lexsize (s\<lparr>fvalue := f\<rparr>) = lexsize s"
  "lexsize (APPEND_CHAR d s) = lexsize s" "lexsize (INIT_TEMP_STRING s) = lexsize s"
  "lexsize (TERMINATE_BUFFER s) = lexsize s"
  by (simp_all add: lexsize_def APPEND_CHAR_def INIT_TEMP_STRING_def TERMINATE_BUFFER_def)

lemma NEXT_less [simp]:
  assumes "NEXT s = Inr s'" "currdata s \<noteq> 0 \<or> currdata s' \<noteq> 0"
  shows "lexsize s' < lexsize s"
  using assms by (cases "lx_in s") (auto simp: NEXT_def Next_def Let_def lexsize_def split: if_splits)

lemma NEXT_le: "NEXT s = Inr s' \<Longrightarrow> lexsize s' \<le> lexsize s"
  by (cases "lx_in s") (auto simp: NEXT_def Next_def Let_def lexsize_def split: if_splits)

lemma NEXT_append_le: "NEXT (APPEND_CHAR c s) = Inr s' \<Longrightarrow> lexsize s' \<le> lexsize s"
  using NEXT_le [of "APPEND_CHAR c s"] by simp

lemma NEXT_append_less:
  "NEXT (APPEND_CHAR c s) = Inr s' \<Longrightarrow> currdata s \<noteq> 0 \<Longrightarrow> lexsize s' < lexsize s"
  using NEXT_less [of "APPEND_CHAR c s" s'] by (simp add: APPEND_CHAR_def lexsize_def)

subsection \<open>Comments\<close>

function LexBlockComment :: "lexer \<Rightarrow> lexer lres" where
  "LexBlockComment s =
     (if currdata s = chr8 CHR ''*'' then
        ebind (NEXT s) (\<lambda>s1. if currdata s1 = chr8 CHR ''/'' then NEXT s1 else LexBlockComment s1)
      else if currdata s = 10 then
        ebind (NEXT (s\<lparr>currentline := currentline s + 1\<rparr>)) LexBlockComment
      else if currdata s = 0 then Inl (''missing \"*/\" in comment'', s)
      else ebind (NEXT s) LexBlockComment)"
  by pat_completeness auto
termination by (relation "measure lexsize") (auto dest!: NEXT_less)

function LexLineComment :: "lexer \<Rightarrow> lexer lres" where
  "LexLineComment s =
     ebind (NEXT s) (\<lambda>s1. if currdata s1 \<noteq> 10 \<and> currdata s1 \<noteq> 0 then LexLineComment s1 else Inr s1)"
  by pat_completeness auto
termination by (relation "measure lexsize") auto

declare LexBlockComment.simps [simp del] LexLineComment.simps [simp del]

subsection \<open>String literals\<close>

text \<open>\<^verbatim>\<open>AddUTF8\<close>: the encoded bytes, whose number it returns.\<close>

definition utf8_bytes :: "squint \<Rightarrow> sqchar list" where
  "utf8_bytes ch =
     (if ch < 0x80 then [ucast ch]
      else if ch < 0x800 then
        [ucast (drop_bit 6 ch OR 0xC0), ucast ((ch AND 0x3F) OR 0x80)]
      else if ch < 0x10000 then
        [ucast (drop_bit 12 ch OR 0xE0), ucast ((drop_bit 6 ch AND 0x3F) OR 0x80),
         ucast ((ch AND 0x3F) OR 0x80)]
      else if ch < 0x110000 then
        [ucast (drop_bit 18 ch OR 0xF0), ucast ((drop_bit 12 ch AND 0x3F) OR 0x80),
         ucast ((drop_bit 6 ch AND 0x3F) OR 0x80), ucast ((ch AND 0x3F) OR 0x80)]
      else [])"

definition AddUTF8 :: "squint \<Rightarrow> lexer \<Rightarrow> nat \<times> lexer" where
  "AddUTF8 ch s =
     (length (utf8_bytes ch), s\<lparr>longstr := longstr s @ utf8_bytes ch\<rparr>)"

primrec hex_escape_loop :: "nat \<Rightarrow> lexer \<Rightarrow> sqchar list \<Rightarrow> (sqchar list \<times> lexer) lres" where
  "hex_escape_loop 0 s dest = Inr (dest, s)"
| "hex_escape_loop (Suc n) s dest =
     (if scisxdigit (currdata s)
      then ebind (NEXT s) (\<lambda>s1. hex_escape_loop n s1 (dest @ [currdata s]))
      else Inr (dest, s))"

definition ProcessStringHexEscape :: "nat \<Rightarrow> lexer \<Rightarrow> (sqchar list \<times> lexer) lres" where
  "ProcessStringHexEscape maxdigits s =
     ebind (NEXT s) (\<lambda>s1.
       if \<not> scisxdigit (currdata s1) then Inl (''hexadecimal number expected'', s1)
       else hex_escape_loop maxdigits s1 [])"

definition xdigit_val :: "sqchar \<Rightarrow> squint" where
  "xdigit_val c = (if scisdigit c then ucast c - 48 else ucast (toupper c) - 65 + 10)"

text \<open>\<^verbatim>\<open>strtoul(temp, _, 16)\<close> of a buffer that holds hexadecimal digits only.\<close>

definition strtoul16 :: "sqchar list \<Rightarrow> squint" where
  "strtoul16 ds = fold (\<lambda>c v. v * 16 + xdigit_val c) ds 0"

lemma hex_escape_loop_le:
  "hex_escape_loop n s dest = Inr (d, s') \<Longrightarrow> lexsize s' \<le> lexsize s"
  by (induction n arbitrary: s dest) (auto simp: ebind_Inr_iff split: if_splits dest!: NEXT_le, fastforce)

lemma ProcessStringHexEscape_le:
  "ProcessStringHexEscape n s = Inr (d, s') \<Longrightarrow> currdata s \<noteq> 0 \<Longrightarrow> lexsize s' < lexsize s"
  by (auto simp: ProcessStringHexEscape_def ebind_Inr_iff split: if_splits
      dest!: hex_escape_loop_le NEXT_less)

text \<open>The characters after a backslash.\<close>

definition simple_escape :: "8 word \<Rightarrow> sqchar option" where
  "simple_escape c =
     (if c = chr8 CHR ''t'' then Some 9 else if c = chr8 CHR ''a'' then Some 7
      else if c = chr8 CHR ''b'' then Some 8 else if c = chr8 CHR ''n'' then Some 10
      else if c = chr8 CHR ''r'' then Some 13 else if c = chr8 CHR ''v'' then Some 11
      else if c = chr8 CHR ''f'' then Some 12 else if c = chr8 CHR ''0'' then Some 0
      else if c = 92 then Some 92 else if c = 34 then Some 34 else if c = 39 then Some 39
      else None)"

definition ReadEscape :: "lexer \<Rightarrow> lexer lres" where
  "ReadEscape s =
     (if currdata s = chr8 CHR ''x'' then
        ebind (ProcessStringHexEscape 2 s) (\<lambda>(temp, s1). Inr (APPEND_CHAR (ucast (strtoul16 temp)) s1))
      else if currdata s = chr8 CHR ''U'' \<or> currdata s = chr8 CHR ''u'' then
        ebind (ProcessStringHexEscape (if currdata s = chr8 CHR ''u'' then 4 else 8) s)
          (\<lambda>(temp, s1). Inr (snd (AddUTF8 (strtoul16 temp) s1)))
      else (case simple_escape (currdata s) of
              Some c \<Rightarrow> NEXT (APPEND_CHAR c s)
            | None \<Rightarrow> Inl (''unrecognised escaper char'', s)))"

lemma ReadEscape_le: "ReadEscape s = Inr s' \<Longrightarrow> lexsize s' \<le> lexsize s"
  by (auto simp: ReadEscape_def ebind_Inr_iff AddUTF8_def split: if_splits option.splits
      dest!: ProcessStringHexEscape_le NEXT_le)

function ReadString_loop :: "8 word \<Rightarrow> bool \<Rightarrow> lexer \<Rightarrow> lexer lres" where
  "ReadString_loop ndelim verbatim s =
     (if currdata s \<noteq> ndelim then
        (if currdata s = 0 then Inl (''unfinished string'', s)
         else if currdata s = 10 then
           (if \<not> verbatim then Inl (''newline in a constant'', s)
            else ebind (NEXT (APPEND_CHAR (currdata s) s))
                   (\<lambda>s1. ReadString_loop ndelim verbatim (s1\<lparr>currentline := currentline s1 + 1\<rparr>)))
         else if currdata s = 92 then
           (if verbatim then
              ebind (NEXT (APPEND_CHAR 92 s)) (\<lambda>s1. ReadString_loop ndelim verbatim s1)
            else ebind (NEXT s) (\<lambda>s1. ebind (ReadEscape s1)
                   (\<lambda>s2. ReadString_loop ndelim verbatim s2)))
         else ebind (NEXT (APPEND_CHAR (currdata s) s)) (\<lambda>s1. ReadString_loop ndelim verbatim s1))
      else
        ebind (NEXT s) (\<lambda>s1.
          if verbatim \<and> currdata s1 = 34
          then ebind (NEXT (APPEND_CHAR (currdata s1) s1)) (\<lambda>s2. ReadString_loop ndelim verbatim s2)
          else Inr s1))"
  by pat_completeness auto
termination
proof (relation "measure (\<lambda>(d, v, s). lexsize s)"; (simp; fail)?)
  fix ndelim :: "8 word" and verbatim s x xa
  assume a: "currdata s \<noteq> 0" "NEXT s = Inr x" "ReadEscape x = Inr xa"
  then have "lexsize x < lexsize s" by simp
  with ReadEscape_le [OF a(3)]
  show "((ndelim, verbatim, xa), ndelim, verbatim, s) \<in> measure (\<lambda>(d, v, s). lexsize s)" by simp
next
  fix ndelim :: "8 word" and verbatim s x xa
  assume a: "NEXT s = Inr x" "verbatim \<and> currdata x = 34" "NEXT (APPEND_CHAR (currdata x) x) = Inr xa"
  then have "lexsize x < lexsize s" by simp
  with NEXT_le [OF a(3)]
  show "((ndelim, verbatim, xa), ndelim, verbatim, s) \<in> measure (\<lambda>(d, v, s). lexsize s)" by simp
qed (auto dest!: NEXT_less simp: APPEND_CHAR_def lexsize_def)

declare ReadString_loop.simps [simp del]

definition ReadString :: "8 word \<Rightarrow> bool \<Rightarrow> lexer \<Rightarrow> (sqint \<times> lexer) lres" where
  "ReadString ndelim verbatim s0 =
     ebind (NEXT (INIT_TEMP_STRING s0)) (\<lambda>s.
       if currdata s = 0 then Inr (- 1, s)
       else ebind (ReadString_loop ndelim verbatim s) (\<lambda>s1.
         let s2 = TERMINATE_BUFFER s1; len = length (longstr s2) - 1 in
         if ndelim = 39 then
           (if len = 0 then Inl (''empty constant'', s2)
            else if len > 1 then Inl (''constant too long'', s2)
            else Inr (TK_INTEGER, s2\<lparr>nvalue := scast (longstr s2 ! 0)\<rparr>))
         else Inr (TK_STRING_LITERAL, s2)))"

subsection \<open>Numbers\<close>

definition LexInteger :: "sqchar list \<Rightarrow> squint" where
  "LexInteger s = fold (\<lambda>c res. res * 10 + (scast c - 48)) (takeWhile (\<lambda>c. c \<noteq> 0) s) 0"

text \<open>\<open>None\<close> is a failed assertion.\<close>

primrec LexHex_from :: "sqchar list \<Rightarrow> squint \<Rightarrow> squint option" where
  "LexHex_from [] res = Some res"
| "LexHex_from (c # s) res =
     (if c = 0 then Some res
      else if scisdigit c then LexHex_from s (res * 16 + (ucast c - 48))
      else if scisxdigit c then LexHex_from s (res * 16 + (ucast (toupper c) - 65 + 10))
      else None)"

definition LexHexadecimal :: "sqchar list \<Rightarrow> squint option" where
  "LexHexadecimal s = LexHex_from s 0"

primrec LexOct_from :: "sqchar list \<Rightarrow> squint \<Rightarrow> squint option" where
  "LexOct_from [] res = Some res"
| "LexOct_from (c # s) res =
     (if c = 0 then Some res
      else if scisodigit c then LexOct_from s (res * 8 + (ucast c - 48))
      else None)"

definition LexOctal :: "sqchar list \<Rightarrow> squint option" where
  "LexOctal s = LexOct_from s 0"

text \<open>\<^verbatim>\<open>(SQFloat) strtod\<close>: the longest prefix of the form digits, point, digits, exponent.\<close>

definition digits_val :: "sqchar list \<Rightarrow> int" where
  "digits_val ds = fold (\<lambda>c v. v * 10 + (uint c - 48)) ds 0"

definition strtod_exp :: "sqchar list \<Rightarrow> int" where
  "strtod_exp r =
     (case r of
        e # r1 \<Rightarrow>
          if isexponent e then
            (let (neg, r2) = (case r1 of
                 x # r' \<Rightarrow> if x = 45 then (True, r') else if x = 43 then (False, r') else (False, r1)
               | [] \<Rightarrow> (False, r1));
                 v = digits_val (takeWhile scisdigit r2)
             in if neg then - v else v)
          else 0
      | [] \<Rightarrow> 0)"

definition strtod_float :: "sqchar list \<Rightarrow> sqfloat" where
  "strtod_float s =
     (let d1 = takeWhile scisdigit s; r1 = dropWhile scisdigit s;
          (d2, r2) = (case r1 of
              c # r \<Rightarrow> if c = 46 then (takeWhile scisdigit r, dropWhile scisdigit r) else ([], r1)
            | [] \<Rightarrow> ([], r1))
      in dec_to_float (digits_val (d1 @ d2)) (strtod_exp r2 - int (length d2)))"

text \<open>The digit loops of \<^verbatim>\<open>ReadNumber\<close>: append and advance while the class holds.\<close>

function read_while :: "(8 word \<Rightarrow> bool) \<Rightarrow> lexer \<Rightarrow> lexer lres" where
  "read_while P s =
     (if currdata s \<noteq> 0 \<and> P (currdata s)
      then ebind (NEXT (APPEND_CHAR (currdata s) s)) (read_while P) else Inr s)"
  by pat_completeness auto
termination by (relation "measure (\<lambda>(P, s). lexsize s)")
    (auto dest: NEXT_append_less)

datatype numtype = TINT | TFLOAT | THEX | TSCIENTIFIC | TOCTAL

definition number_exponent :: "numtype \<Rightarrow> lexer \<Rightarrow> lexer lres" where
  "number_exponent type s =
     (if type \<noteq> TFLOAT then Inl (''invalid numeric format'', s)
      else ebind (NEXT (APPEND_CHAR (currdata s) s)) (\<lambda>s1.
        ebind (if currdata s1 = 43 \<or> currdata s1 = 45
               then NEXT (APPEND_CHAR (currdata s1) s1) else Inr s1) (\<lambda>s2.
          if \<not> scisdigit (currdata s2) then Inl (''exponent expected'', s2) else Inr s2)))"

lemma number_exponent_less:
  assumes "number_exponent type s = Inr s'" "currdata s \<noteq> 0"
  shows "lexsize s' < lexsize s"
proof -
  obtain s1 where "NEXT (APPEND_CHAR (currdata s) s) = Inr s1"
    "(if currdata s1 = 43 \<or> currdata s1 = 45 then NEXT (APPEND_CHAR (currdata s1) s1) else Inr s1) = Inr s'"
    using assms(1) by (auto simp: number_exponent_def ebind_Inr_iff split: if_splits)
  then have "lexsize s1 < lexsize s" "lexsize s' \<le> lexsize s1"
    using NEXT_append_less assms(2) NEXT_append_le by (blast, auto split: if_splits)
  then show ?thesis by simp
qed

function ReadNumber_loop :: "numtype \<Rightarrow> lexer \<Rightarrow> (numtype \<times> lexer) lres" where
  "ReadNumber_loop type s =
     (if currdata s = 46 \<or> scisdigit (currdata s) \<or> isexponent (currdata s) then
        (let type1 = (if currdata s = 46 \<or> isexponent (currdata s) then TFLOAT else type) in
         ebind (if isexponent (currdata s)
                then ebind (number_exponent type1 s) (\<lambda>s1. Inr (TSCIENTIFIC, s1)) else Inr (type1, s))
           (\<lambda>(type2, s1). ebind (NEXT (APPEND_CHAR (currdata s1) s1)) (\<lambda>s2. ReadNumber_loop type2 s2)))
      else Inr (type, s))"
  by pat_completeness auto
termination
proof (relation "measure (\<lambda>(t, s). lexsize s)")
  fix type s x xa xb y xc
  assume c: "currdata s = 46 \<or> scisdigit (currdata s) \<or> isexponent (currdata s)"
    and e: "(if isexponent (currdata s) then ebind (number_exponent x s) (\<lambda>s1. Inr (TSCIENTIFIC, s1))
             else Inr (x, s)) = Inr xa" "(xb, y) = xa" "NEXT (APPEND_CHAR (currdata y) y) = Inr xc"
  have nz: "currdata s \<noteq> 0"
    using c by (auto simp: scisdigit_def in_range_def isexponent_def)
  have "lexsize xc < lexsize s"
  proof (cases "isexponent (currdata s)")
    case True
    with e have "number_exponent x s = Inr y" by (auto simp: ebind_Inr_iff)
    with number_exponent_less nz NEXT_append_le [OF e(3)] show ?thesis by fastforce
  next
    case False
    with e nz NEXT_append_less [OF e(3)] show ?thesis by auto
  qed
  then show "((xb, xc), type, s) \<in> measure (\<lambda>(t, s). lexsize s)" by simp
qed simp

declare read_while.simps [simp del] ReadNumber_loop.simps [simp del]

text \<open>\<^verbatim>\<open>ReadNumber\<close> in three parts: the digits, which fill the buffer and choose the type,
  and the value of the buffer.\<close>

definition ReadNumber_digits :: "8 word \<Rightarrow> lexer \<Rightarrow> (numtype \<times> lexer) lres" where
  "ReadNumber_digits firstchar s =
     (if firstchar = 48 \<and> (toupper (currdata s) = chr8 CHR ''X'' \<or> scisodigit (currdata s)) then
        (if scisodigit (currdata s) then
           ebind (read_while scisodigit s) (\<lambda>s1.
             if scisdigit (currdata s1) then Inl (''invalid octal number'', s1) else Inr (TOCTAL, s1))
         else ebind (NEXT s) (\<lambda>s1. ebind (read_while scisxdigit s1) (\<lambda>s2.
             if length (longstr s2) > 16 then Inl (''too many digits for an Hex number'', s2)
             else Inr (THEX, s2))))
      else ReadNumber_loop TINT (APPEND_CHAR firstchar s))"

definition ReadNumber_value :: "numtype \<times> lexer \<Rightarrow> (sqint \<times> lexer) lres" where
  "ReadNumber_value = (\<lambda>(type, s1).
     let s2 = TERMINATE_BUFFER s1; buf = longstr s2 in
     case type of
       TSCIENTIFIC \<Rightarrow> Inr (TK_FLOAT, s2\<lparr>fvalue := strtod_float buf\<rparr>)
     | TFLOAT \<Rightarrow> Inr (TK_FLOAT, s2\<lparr>fvalue := strtod_float buf\<rparr>)
     | TINT \<Rightarrow> Inr (TK_INTEGER, s2\<lparr>nvalue := LexInteger buf\<rparr>)
     | THEX \<Rightarrow> (case LexHexadecimal buf of
           Some v \<Rightarrow> Inr (TK_INTEGER, s2\<lparr>nvalue := v\<rparr>) | None \<Rightarrow> Inl (''assert(0)'', s2))
     | TOCTAL \<Rightarrow> (case LexOctal buf of
           Some v \<Rightarrow> Inr (TK_INTEGER, s2\<lparr>nvalue := v\<rparr>) | None \<Rightarrow> Inl (''assert(0)'', s2)))"

definition ReadNumber_rest :: "8 word \<Rightarrow> lexer \<Rightarrow> (sqint \<times> lexer) lres" where
  "ReadNumber_rest firstchar s = ebind (ReadNumber_digits firstchar s) ReadNumber_value"

definition ReadNumber :: "lexer \<Rightarrow> (sqint \<times> lexer) lres" where
  "ReadNumber s =
     (let firstchar = currdata s in ebind (NEXT (INIT_TEMP_STRING s)) (ReadNumber_rest firstchar))"

subsection \<open>Identifiers\<close>

text \<open>
  \<^verbatim>\<open>SQTable::GetStr\<close>: a lookup by the bytes of the key.  \<open>strval p\<close> are the bytes of the
  string object at \<open>p\<close>; the comparison is that of \<^verbatim>\<open>strcmp\<close>.
\<close>

definition cstr :: "sqchar list \<Rightarrow> sqchar list" where
  "cstr s = takeWhile (\<lambda>c. c \<noteq> 0) s"

definition key_is_str :: "(addr \<Rightarrow> sqchar list) \<Rightarrow> sqchar list \<Rightarrow> sqobject \<Rightarrow> bool" where
  "key_is_str strval key k = (case k of OString p \<Rightarrow> cstr (strval p) = cstr key | _ \<Rightarrow> False)"

partial_function (option) tbl_findstr ::
  "(addr \<Rightarrow> sqchar list) \<Rightarrow> hashnode list \<Rightarrow> sqchar list \<Rightarrow> nat \<Rightarrow> nat option option" where
  "tbl_findstr strval ns key n =
     (if key_is_str strval key (nd_key (ns ! n)) then Some (Some n)
      else (case nd_next (ns ! n) of
              None \<Rightarrow> Some None
            | Some j \<Rightarrow> tbl_findstr strval ns key j))"

declare tbl_findstr.simps [code]

definition tbl_GetStr ::
  "(addr \<Rightarrow> sqchar list) \<Rightarrow> (sqobject \<Rightarrow> sqobject) \<Rightarrow> sqtable \<Rightarrow> sqchar list \<Rightarrow> sqobject option option" where
  "tbl_GetStr strval realval t key = do {
     r \<leftarrow> tbl_findstr strval (nodes t) key (unat (hashstr key AND (word_of_nat (numofnodes t) - 1)));
     Some (case r of Some n \<Rightarrow> Some (realval (nd_val (nodes t ! n))) | None \<Rightarrow> None)
   }"

definition GetIDType ::
  "(addr \<Rightarrow> sqchar list) \<Rightarrow> (sqobject \<Rightarrow> sqobject) \<Rightarrow> sqtable \<Rightarrow> sqchar list \<Rightarrow> sqint option" where
  "GetIDType strval realval kws s = do {
     r \<leftarrow> tbl_GetStr strval realval kws s;
     Some (case r of Some t \<Rightarrow> rawval t | None \<Rightarrow> TK_IDENTIFIER)
   }"

function ReadID_loop :: "lexer \<Rightarrow> lexer lres" where
  "ReadID_loop s =
     ebind (NEXT (APPEND_CHAR (currdata s) s)) (\<lambda>s1.
       if currdata s1 \<noteq> 0 \<and> (scisalnum (currdata s1) \<or> currdata s1 = 95)
       then ReadID_loop s1 else Inr s1)"
  by pat_completeness auto
termination by (relation "measure lexsize") (auto simp: APPEND_CHAR_def lexsize_def dest!: NEXT_less)

declare ReadID_loop.simps [simp del]

text \<open>The keyword search always returns (\<open>GetIDType_keywords\<close>); the branch in which it would
  not is given an error of its own.\<close>

definition ReadID ::
  "(addr \<Rightarrow> sqchar list) \<Rightarrow> (sqobject \<Rightarrow> sqobject) \<Rightarrow> lexer \<Rightarrow> (sqint \<times> lexer) lres" where
  "ReadID strval realval s0 =
     ebind (ReadID_loop (INIT_TEMP_STRING s0)) (\<lambda>s.
       let s1 = TERMINATE_BUFFER s in
       case GetIDType strval realval (kwtable s1) (take (length (longstr s1) - 1) (longstr s1)) of
         Some res \<Rightarrow> Inr (res, s1)
       | None \<Rightarrow> Inl (''the keyword search does not return'', s1))"

subsection \<open>Tokens\<close>

text \<open>A token of one character, or of two when \<open>x\<close> (or \<open>y\<close>) follows.\<close>

definition tok2 :: "8 word \<Rightarrow> sqint \<Rightarrow> sqint \<Rightarrow> lexer \<Rightarrow> (sqint \<times> lexer) lres" where
  "tok2 x two one s =
     ebind (NEXT s) (\<lambda>s1. if currdata s1 = x then ebind (NEXT s1) (RETURN_TOKEN two)
                          else RETURN_TOKEN one s1)"

definition tok3 :: "8 word \<Rightarrow> sqint \<Rightarrow> 8 word \<Rightarrow> sqint \<Rightarrow> sqint \<Rightarrow> lexer \<Rightarrow> (sqint \<times> lexer) lres" where
  "tok3 x tx y ty one s =
     ebind (NEXT s) (\<lambda>s1. if currdata s1 = x then ebind (NEXT s1) (RETURN_TOKEN tx)
                          else if currdata s1 = y then ebind (NEXT s1) (RETURN_TOKEN ty)
                          else RETURN_TOKEN one s1)"

definition Lex_less :: "lexer \<Rightarrow> (sqint \<times> lexer) lres" where
  "Lex_less s =
     ebind (NEXT s) (\<lambda>s1.
       if currdata s1 = chr8 CHR ''='' then
         ebind (NEXT s1) (\<lambda>s2. if currdata s2 = chr8 CHR ''>''
           then ebind (NEXT s2) (RETURN_TOKEN TK_3WAYSCMP) else RETURN_TOKEN TK_LE s2)
       else if currdata s1 = chr8 CHR ''-'' then ebind (NEXT s1) (RETURN_TOKEN TK_NEWSLOT)
       else if currdata s1 = chr8 CHR ''<'' then ebind (NEXT s1) (RETURN_TOKEN TK_SHIFTL)
       else if currdata s1 = chr8 CHR ''/'' then ebind (NEXT s1) (RETURN_TOKEN TK_ATTR_OPEN)
       else RETURN_TOKEN (tokc CHR ''<'') s1)"

definition Lex_greater :: "lexer \<Rightarrow> (sqint \<times> lexer) lres" where
  "Lex_greater s =
     ebind (NEXT s) (\<lambda>s1.
       if currdata s1 = chr8 CHR ''='' then ebind (NEXT s1) (RETURN_TOKEN TK_GE)
       else if currdata s1 = chr8 CHR ''>'' then
         ebind (NEXT s1) (\<lambda>s2. if currdata s2 = chr8 CHR ''>''
           then ebind (NEXT s2) (RETURN_TOKEN TK_USHIFTR) else RETURN_TOKEN TK_SHIFTR s2)
       else RETURN_TOKEN (tokc CHR ''>'') s1)"

definition Lex_dots :: "lexer \<Rightarrow> (sqint \<times> lexer) lres" where
  "Lex_dots s =
     ebind (NEXT s) (\<lambda>s1.
       if currdata s1 \<noteq> chr8 CHR ''.'' then RETURN_TOKEN (tokc CHR ''.'') s1
       else ebind (NEXT s1) (\<lambda>s2.
         if currdata s2 \<noteq> chr8 CHR ''.'' then Inl (''invalid token '' @ [CHR 0x27] @ ''..'' @ [CHR 0x27], s2)
         else ebind (NEXT s2) (RETURN_TOKEN TK_VARPARAMS)))"

definition Lex_string :: "8 word \<Rightarrow> bool \<Rightarrow> lexer \<Rightarrow> (sqint \<times> lexer) lres" where
  "Lex_string ndelim verbatim s =
     ebind (ReadString ndelim verbatim s) (\<lambda>(stype, s1).
       if stype \<noteq> - 1 then RETURN_TOKEN stype s1 else Inl (''error parsing the string'', s1))"

definition is_single :: "8 word \<Rightarrow> bool" where
  "is_single c \<longleftrightarrow> c \<in> set (map chr8 ''{}()[];,?^~'')"

text \<open>The cases of \<^verbatim>\<open>Lex\<close> that end in a token.\<close>

definition Lex_token ::
  "(addr \<Rightarrow> sqchar list) \<Rightarrow> (sqobject \<Rightarrow> sqobject) \<Rightarrow> lexer \<Rightarrow> (sqint \<times> lexer) lres" where
  "Lex_token strval realval s =
     (let c = currdata s in
      if c = chr8 CHR ''='' then tok2 (chr8 CHR ''='') TK_EQ (tokc CHR ''='') s
      else if c = chr8 CHR ''<'' then Lex_less s
      else if c = chr8 CHR ''>'' then Lex_greater s
      else if c = chr8 CHR ''!'' then tok2 (chr8 CHR ''='') TK_NE (tokc CHR ''!'') s
      else if c = chr8 CHR ''@'' then
        ebind (NEXT s) (\<lambda>s1. if currdata s1 \<noteq> 34 then RETURN_TOKEN (tokc CHR ''@'') s1
                            else Lex_string 34 True s1)
      else if c = 34 \<or> c = 39 then Lex_string c False s
      else if is_single c then ebind (NEXT s) (RETURN_TOKEN (ucast c))
      else if c = chr8 CHR ''.'' then Lex_dots s
      else if c = chr8 CHR ''&'' then tok2 (chr8 CHR ''&'') TK_AND (tokc CHR ''&'') s
      else if c = chr8 CHR ''|'' then tok2 (chr8 CHR ''|'') TK_OR (tokc CHR ''|'') s
      else if c = chr8 CHR '':'' then tok2 (chr8 CHR '':'') TK_DOUBLE_COLON (tokc CHR '':'') s
      else if c = chr8 CHR ''*'' then tok2 (chr8 CHR ''='') TK_MULEQ (tokc CHR ''*'') s
      else if c = chr8 CHR ''%'' then tok2 (chr8 CHR ''='') TK_MODEQ (tokc CHR ''%'') s
      else if c = chr8 CHR ''-'' then
        tok3 (chr8 CHR ''='') TK_MINUSEQ (chr8 CHR ''-'') TK_MINUSMINUS (tokc CHR ''-'') s
      else if c = chr8 CHR ''+'' then
        tok3 (chr8 CHR ''='') TK_PLUSEQ (chr8 CHR ''+'') TK_PLUSPLUS (tokc CHR ''+'') s
      else if scisdigit c then ebind (ReadNumber s) (\<lambda>(t, s1). RETURN_TOKEN t s1)
      else if scisalpha c \<or> c = 95 then ebind (ReadID strval realval s) (\<lambda>(t, s1). RETURN_TOKEN t s1)
      else if sciscntrl c then Inl (''unexpected character(control)'', s)
      else ebind (NEXT s) (RETURN_TOKEN (ucast c)))"

text \<open>The whole loop: white space and comments are skipped.\<close>

lemma LexLineComment_less:
  "LexLineComment s = Inr s' \<Longrightarrow> currdata s \<noteq> 0 \<Longrightarrow> lexsize s' < lexsize s"
proof (induction s rule: LexLineComment.induct)
  case (1 s)
  from 1(2) obtain s1 where s1: "NEXT s = Inr s1"
    "(if currdata s1 \<noteq> 10 \<and> currdata s1 \<noteq> 0 then LexLineComment s1 else Inr s1) = Inr s'"
    by (subst (asm) LexLineComment.simps) (auto simp: ebind_Inr_iff)
  have "lexsize s1 < lexsize s" using s1(1) 1(3) by simp
  with 1(1) [OF s1(1)] s1(2) show ?case by (auto split: if_splits)
qed

lemma LexBlockComment_le: "LexBlockComment s = Inr s' \<Longrightarrow> lexsize s' \<le> lexsize s"
proof (induction s rule: LexBlockComment.induct)
  case (1 s)
  consider (star) s1 where "NEXT s = Inr s1" "currdata s = chr8 CHR ''*''"
      "(if currdata s1 = chr8 CHR ''/'' then NEXT s1 else LexBlockComment s1) = Inr s'"
    | (newline) s1 where "currdata s \<noteq> chr8 CHR ''*''" "currdata s = 10"
      "NEXT (s\<lparr>currentline := currentline s + 1\<rparr>) = Inr s1" "LexBlockComment s1 = Inr s'"
    | (other) s1 where "currdata s \<noteq> chr8 CHR ''*''" "currdata s \<noteq> 10" "currdata s \<noteq> 0" "NEXT s = Inr s1"
      "LexBlockComment s1 = Inr s'"
    using 1(4) by (subst (asm) LexBlockComment.simps) (auto simp: ebind_Inr_iff split: if_splits)
  then show ?case
  proof cases
    case star
    then show ?thesis using 1(1) [OF star(2,1)] NEXT_le [of s s1] NEXT_le [of s1 s']
      by (auto split: if_splits)
  next
    case newline
    with 1(2) [OF newline(1,2,3)] NEXT_le [OF newline(3)] show ?thesis by simp
  next
    case other
    with 1(3) [OF other(1,2,3,4)] NEXT_le [OF other(4)] show ?thesis by simp
  qed
qed

function Lex_loop ::
  "(addr \<Rightarrow> sqchar list) \<Rightarrow> (sqobject \<Rightarrow> sqobject) \<Rightarrow> lexer \<Rightarrow> (sqint \<times> lexer) lres" where
  "Lex_loop sv rv s =
     (let c = currdata s in
      if c = 0 then Inr (0, s)
      else if c = 9 \<or> c = 13 \<or> c = 32 then ebind (NEXT s) (\<lambda>s1. Lex_loop sv rv s1)
      else if c = 10 then
        ebind (NEXT (s\<lparr>currentline := currentline s + 1, prevtoken := curtoken s, curtoken := 10\<rparr>))
          (\<lambda>s1. Lex_loop sv rv (s1\<lparr>currentcolumn := 1\<rparr>))
      else if c = chr8 CHR ''#'' then ebind (LexLineComment s) (\<lambda>s1. Lex_loop sv rv s1)
      else if c = chr8 CHR ''/'' then
        ebind (NEXT s) (\<lambda>s1.
          if currdata s1 = chr8 CHR ''*'' then
            ebind (NEXT s1) (\<lambda>s2. ebind (LexBlockComment s2) (\<lambda>s3. Lex_loop sv rv s3))
          else if currdata s1 = chr8 CHR ''/'' then
            ebind (LexLineComment s1) (\<lambda>s2. Lex_loop sv rv s2)
          else if currdata s1 = chr8 CHR ''='' then ebind (NEXT s1) (RETURN_TOKEN TK_DIVEQ)
          else if currdata s1 = chr8 CHR ''>'' then ebind (NEXT s1) (RETURN_TOKEN TK_ATTR_CLOSE)
          else RETURN_TOKEN (tokc CHR ''/'') s1)
      else Lex_token sv rv s)"
  by pat_completeness auto
termination
proof (relation "measure (\<lambda>(sv, rv, s). lexsize s)", goal_cases)
  case 1
  then show ?case by simp
next
  case (2 sv rv s c s1)
  then show ?case by simp
next
  case (3 sv rv s c s1)
  then show ?case
    using NEXT_less [of "s\<lparr>currentline := currentline s + 1, prevtoken := curtoken s, curtoken := 10\<rparr>" s1]
    by simp
next
  case (4 sv rv s c s1)
  then show ?case using LexLineComment_less by simp
next
  case (5 sv rv s c s1 s2 s3)
  then have "lexsize s1 < lexsize s" "lexsize s2 \<le> lexsize s1" "lexsize s3 \<le> lexsize s2"
    using NEXT_le LexBlockComment_le by auto
  then show ?case by simp
next
  case (6 sv rv s c s1 s2)
  then have "lexsize s1 < lexsize s" "lexsize s2 < lexsize s1"
    using LexLineComment_less by auto
  then show ?case by simp
qed

declare Lex_loop.simps [simp del]

definition Lex ::
  "(addr \<Rightarrow> sqchar list) \<Rightarrow> (sqobject \<Rightarrow> sqobject) \<Rightarrow> lexer \<Rightarrow> (sqint \<times> lexer) lres" where
  "Lex strval realval s = Lex_loop strval realval (s\<lparr>lasttokenline := currentline s\<rparr>)"

subsection \<open>Initialisation\<close>

text \<open>
  \<^verbatim>\<open>Init\<close>: the keywords are interned strings (\<open>intern\<close> stands for the string table) and
  are put into a table created for 37 entries.  \<open>raw\<close> is the memory of the object before;
  \<^verbatim>\<open>_curtoken\<close> is not initialised by the code and keeps what it holds.
\<close>

fun add_keywords ::
  "(sqobject \<Rightarrow> sqhash) \<Rightarrow> (sqchar list \<Rightarrow> addr) \<Rightarrow> (string \<times> sqint) list \<Rightarrow> sqtable \<Rightarrow> sqtable option" where
  "add_keywords hsh intern [] t = Some t"
| "add_keywords hsh intern ((k, i) # ks) t = do {
     (t', _) \<leftarrow> NewSlot hsh t (OString (intern (bytes_of k))) (OInteger i);
     add_keywords hsh intern ks t'
   }"

definition keyword_table ::
  "(sqobject \<Rightarrow> sqhash) \<Rightarrow> (sqchar list \<Rightarrow> addr) \<Rightarrow> sqtable option" where
  "keyword_table hsh intern = add_keywords hsh intern keyword_list (SQTable_new 37)"

definition SQLexer_Init ::
  "(sqobject \<Rightarrow> sqhash) \<Rightarrow> (sqchar list \<Rightarrow> addr) \<Rightarrow> sqint list \<Rightarrow> lexer \<Rightarrow> lexer lres option" where
  "SQLexer_Init hsh intern readings raw = do {
     kws \<leftarrow> keyword_table hsh intern;
     Some (Next (raw\<lparr>kwtable := kws, lx_in := readings, lasttokenline := 1, currentline := 1,
                     currentcolumn := 0, prevtoken := - 1, reached_eof := False\<rparr>))
   }"

text \<open>\<^verbatim>\<open>Tok2Str\<close>: the first key of the iteration whose value is the token.\<close>

function tok2str_from ::
  "(addr \<Rightarrow> sqchar list) \<Rightarrow> sqtable \<Rightarrow> sqint \<Rightarrow> nat \<Rightarrow> sqchar list option" where
  "tok2str_from strval t tok idx =
     (case tbl_next_from (nodes t) (numofnodes t) idx of
        None \<Rightarrow> None
      | Some i \<Rightarrow>
          if rawval (nd_val (nodes t ! i)) = tok
          then Some (strval (rawval (nd_key (nodes t ! i))))
          else tok2str_from strval t tok (Suc i))"
  by pat_completeness auto
termination
  by (relation "measure (\<lambda>(sv, t, tok, idx). numofnodes t - idx)") (auto dest!: tbl_next_from_bounds)

declare tok2str_from.simps [simp del]

definition Tok2Str :: "(addr \<Rightarrow> sqchar list) \<Rightarrow> lexer \<Rightarrow> sqint \<Rightarrow> sqchar list option" where
  "Tok2Str strval s tok = tok2str_from strval (kwtable s) tok 0"

end
