(* ===== verification/Sq_Lexer_Correct.thy ===== *)
theory Sq_Lexer_Correct
  imports Sq_Lexer Sq_Table_Correct
begin

text \<open>
  Properties of the lexer: every call of \<^verbatim>\<open>Lex\<close> makes progress, so a source text is
  tokenised in finitely many calls; numerals, string literals and escapes denote the values
  they should; the keyword table recognises exactly the keywords.
\<close>

subsection \<open>Progress\<close>

lemma RETURN_TOKEN_size [simp]: "RETURN_TOKEN t s = Inr (t', s') \<longleftrightarrow> t' = t \<and> s' = s\<lparr>prevtoken := curtoken s, curtoken := t\<rparr>"
  by (auto simp: RETURN_TOKEN_def)

lemma next_token_le: "ebind (NEXT s) (RETURN_TOKEN t) = Inr (t', s') \<Longrightarrow> lexsize s' \<le> lexsize s"
  by (auto simp: ebind_Inr_iff dest!: NEXT_le)

lemma read_while_le: "read_while P s = Inr s' \<Longrightarrow> lexsize s' \<le> lexsize s"
proof (induction P s rule: read_while.induct)
  case (1 P s)
  show ?case
  proof (cases "currdata s \<noteq> 0 \<and> P (currdata s)")
    case False
    then show ?thesis using 1(2) [unfolded read_while.simps [of P s]] by auto
  next
    case True
    then obtain s1 where s1: "NEXT (APPEND_CHAR (currdata s) s) = Inr s1" "read_while P s1 = Inr s'"
      using 1(2) [unfolded read_while.simps [of P s]] by (auto simp: ebind_Inr_iff)
    from 1(1) [OF True s1] NEXT_append_le [OF s1(1)] show ?thesis by simp
  qed
qed

lemma ReadNumber_loop_le: "ReadNumber_loop type s = Inr (t, s') \<Longrightarrow> lexsize s' \<le> lexsize s"
proof (induction type s rule: ReadNumber_loop.induct)
  case (1 type s)
  show ?case
  proof (cases "currdata s = 46 \<or> scisdigit (currdata s) \<or> isexponent (currdata s)")
    case False
    with 1(2) [unfolded ReadNumber_loop.simps [of type s]] show ?thesis by simp
  next
    case True
    have nz: "currdata s \<noteq> 0"
      using True by (auto simp: scisdigit_def in_range_def isexponent_def)
    define t1 where "t1 = (if currdata s = 46 \<or> isexponent (currdata s) then TFLOAT else type)"
    from 1(2) [unfolded ReadNumber_loop.simps [of type s]] True
    have "ebind (if isexponent (currdata s)
        then ebind (number_exponent t1 s) (\<lambda>s1. Inr (TSCIENTIFIC, s1)) else Inr (t1, s))
      (\<lambda>(type2, s1). ebind (NEXT (APPEND_CHAR (currdata s1) s1)) (\<lambda>s2. ReadNumber_loop type2 s2)) = Inr (t, s')"
      unfolding Let_def t1_def by (simp only: if_True)
    then obtain x where x: "(if isexponent (currdata s)
        then ebind (number_exponent t1 s) (\<lambda>s1. Inr (TSCIENTIFIC, s1)) else Inr (t1, s)) = Inr x"
      "(\<lambda>(type2, s1). ebind (NEXT (APPEND_CHAR (currdata s1) s1)) (\<lambda>s2. ReadNumber_loop type2 s2)) x = Inr (t, s')"
      by (rule ebindE)
    obtain t2 s1 where x': "x = (t2, s1)" by (cases x)
    from x(2) [unfolded x', simplified] obtain s2 where s2:
      "NEXT (APPEND_CHAR (currdata s1) s1) = Inr s2" "ReadNumber_loop t2 s2 = Inr (t, s')" by (rule ebindE)
    note a = x(1) [unfolded x'] s2
    have "lexsize s' \<le> lexsize s2" using 1(1) [OF True t1_def a(1) refl a(2) a(3)] .
    moreover have "lexsize s2 \<le> lexsize s1" using NEXT_append_le [OF a(2)] .
    moreover have "lexsize s1 \<le> lexsize s"
      using a(1) nz number_exponent_less by (fastforce simp: ebind_Inr_iff split: if_splits)
    ultimately show ?thesis by simp
  qed
qed

lemma ReadNumber_less:
  assumes "ReadNumber s = Inr (t, s')" "currdata s \<noteq> 0"
  shows "lexsize s' < lexsize s"
proof -
  let ?f = "currdata s"
  from assms(1) obtain s1 where s1: "NEXT (INIT_TEMP_STRING s) = Inr s1" and e: "ReadNumber_rest ?f s1 = Inr (t, s')"
    unfolding ReadNumber_def Let_def by (elim ebindE)
  from e obtain x where x: "ReadNumber_digits ?f s1 = Inr x" "ReadNumber_value x = Inr (t, s')"
    unfolding ReadNumber_rest_def by (elim ebindE)
  have "lexsize s' = lexsize (snd x)"
    using x(2) by (auto simp: ReadNumber_value_def Let_def split: numtype.splits option.splits prod.splits)
  moreover have "lexsize (snd x) \<le> lexsize s1"
    using x(1) by (cases x) (auto simp: ReadNumber_digits_def ebind_Inr_iff split: if_splits
        dest!: read_while_le ReadNumber_loop_le NEXT_le)
  moreover have "lexsize s1 < lexsize s"
    using NEXT_less [OF s1] assms(2) by (simp add: INIT_TEMP_STRING_def lexsize_def)
  ultimately show ?thesis by simp
qed

lemma ReadID_loop_less: "ReadID_loop s = Inr s' \<Longrightarrow> currdata s \<noteq> 0 \<Longrightarrow> lexsize s' < lexsize s"
proof (induction s rule: ReadID_loop.induct)
  case (1 s)
  obtain s1 where s1: "NEXT (APPEND_CHAR (currdata s) s) = Inr s1"
    "(if currdata s1 \<noteq> 0 \<and> (scisalnum (currdata s1) \<or> currdata s1 = 95)
      then ReadID_loop s1 else Inr s1) = Inr s'"
    using 1(2) [unfolded ReadID_loop.simps [of s]] by (auto simp: ebind_Inr_iff)
  have "lexsize s1 < lexsize s" using NEXT_append_less [OF s1(1) 1(3)] .
  with 1(1) [OF s1(1)] s1(2) show ?case by (auto split: if_splits)
qed

lemma ReadID_less: "ReadID sv rv s = Inr (t, s') \<Longrightarrow> currdata s \<noteq> 0 \<Longrightarrow> lexsize s' < lexsize s"
  using ReadID_loop_less [of "INIT_TEMP_STRING s"]
  by (auto simp: ReadID_def ebind_Inr_iff Let_def INIT_TEMP_STRING_def lexsize_def
      TERMINATE_BUFFER_def APPEND_CHAR_def split: option.splits)

lemma ReadString_loop_le: "ReadString_loop d v s = Inr s' \<Longrightarrow> lexsize s' \<le> lexsize s"
proof (induction "lexsize s" arbitrary: s rule: less_induct)
  case less
  have rec: "lexsize s' \<le> lexsize s" if "ReadString_loop d v s1 = Inr s'" "lexsize s1 < lexsize s" for s1
    using less.hyps [OF that(2,1)] that(2) by simp
  note eq = less.prems [unfolded ReadString_loop.simps [of d v s]]
  consider (delim) "currdata s = d" | (nl) "currdata s \<noteq> d" "currdata s = 10"
    | (esc) "currdata s \<noteq> d" "currdata s = 92"
    | (other) "currdata s \<noteq> d" "currdata s \<noteq> 10" "currdata s \<noteq> 92" "currdata s \<noteq> 0"
    | (zero) "currdata s \<noteq> d" "currdata s = 0" by blast
  then show ?case
  proof cases
    case delim
    with eq obtain s1 where s1: "NEXT s = Inr s1" "(if v \<and> currdata s1 = 34
        then ebind (NEXT (APPEND_CHAR (currdata s1) s1)) (\<lambda>s2. ReadString_loop d v s2) else Inr s1) = Inr s'"
      by (auto simp: ebind_Inr_iff)
    show ?thesis
    proof (cases "v \<and> currdata s1 = 34")
      case True
      with s1 obtain s2 where s2: "NEXT (APPEND_CHAR (currdata s1) s1) = Inr s2" "ReadString_loop d v s2 = Inr s'"
        by (auto simp: ebind_Inr_iff)
      have "lexsize s2 < lexsize s1" using NEXT_append_less [OF s2(1)] True by simp
      then show ?thesis using rec [OF s2(2)] NEXT_le [OF s1(1)] by simp
    next
      case False
      with s1 NEXT_le show ?thesis by auto
    qed
  next
    case nl
    with eq show ?thesis
      by (auto simp: ebind_Inr_iff split: if_splits intro!: rec dest!: NEXT_append_less)
  next
    case esc
    show ?thesis
    proof (cases v)
      case True
      with eq esc show ?thesis by (auto simp: ebind_Inr_iff intro!: rec dest!: NEXT_append_less)
    next
      case False
      with eq esc obtain s1 s2 where s: "NEXT s = Inr s1" "ReadEscape s1 = Inr s2" "ReadString_loop d v s2 = Inr s'"
        by (auto simp: ebind_Inr_iff)
      have "lexsize s1 < lexsize s" using s(1) esc by simp
      then show ?thesis using rec [OF s(3)] ReadEscape_le [OF s(2)] by simp
    qed
  next
    case other
    with eq show ?thesis by (auto simp: ebind_Inr_iff intro!: rec dest!: NEXT_append_less)
  qed (use eq in simp)
qed

lemma ReadString_less:
  assumes "ReadString d v s = Inr (t, s')" "currdata s \<noteq> 0"
  shows "lexsize s' < lexsize s"
proof -
  from assms(1) obtain s1 where s1: "NEXT (INIT_TEMP_STRING s) = Inr s1"
    "t = - 1 \<and> s' = s1 \<or> (\<exists>s2. ReadString_loop d v s1 = Inr s2 \<and> lexsize s' = lexsize s2)"
    unfolding ReadString_def by (auto simp: Let_def ebind_Inr_iff split: if_splits)
  have "lexsize s1 < lexsize s"
    using NEXT_less [OF s1(1)] assms(2) by (simp add: INIT_TEMP_STRING_def lexsize_def)
  with s1(2) ReadString_loop_le show ?thesis by fastforce
qed

lemma Lex_string_less: "Lex_string d v s = Inr (t, s') \<Longrightarrow> currdata s \<noteq> 0 \<Longrightarrow> lexsize s' < lexsize s"
  by (auto simp: Lex_string_def ebind_Inr_iff split: if_splits dest!: ReadString_less)

lemma next_tok_less:
  assumes "NEXT s = Inr s1" "currdata s \<noteq> 0" "lexsize s' \<le> lexsize s1"
  shows "lexsize s' < lexsize s"
  using NEXT_less [OF assms(1)] assms(2,3) by simp

lemma tok2_less: "tok2 x a b s = Inr (t, s') \<Longrightarrow> currdata s \<noteq> 0 \<Longrightarrow> lexsize s' < lexsize s"
  unfolding tok2_def
  by (erule ebindE, erule (1) next_tok_less)
    (auto simp: ebind_Inr_iff split: if_splits dest!: NEXT_le)

lemma tok3_less: "tok3 x a y b c s = Inr (t, s') \<Longrightarrow> currdata s \<noteq> 0 \<Longrightarrow> lexsize s' < lexsize s"
  unfolding tok3_def
  by (erule ebindE, erule (1) next_tok_less)
    (auto simp: ebind_Inr_iff split: if_splits dest!: NEXT_le)

lemma Lex_less_less: "Lex_less s = Inr (t, s') \<Longrightarrow> currdata s \<noteq> 0 \<Longrightarrow> lexsize s' < lexsize s"
  unfolding Lex_less_def
  by (erule ebindE, erule (1) next_tok_less)
    (auto simp: ebind_Inr_iff split: if_splits dest!: NEXT_le)

lemma Lex_greater_less: "Lex_greater s = Inr (t, s') \<Longrightarrow> currdata s \<noteq> 0 \<Longrightarrow> lexsize s' < lexsize s"
  unfolding Lex_greater_def
  by (erule ebindE, erule (1) next_tok_less)
    (auto simp: ebind_Inr_iff split: if_splits dest!: NEXT_le)

lemma Lex_dots_less: "Lex_dots s = Inr (t, s') \<Longrightarrow> currdata s \<noteq> 0 \<Longrightarrow> lexsize s' < lexsize s"
  unfolding Lex_dots_def
  by (erule ebindE, erule (1) next_tok_less)
    (auto simp: ebind_Inr_iff split: if_splits dest!: NEXT_le)

lemma single_less: "ebind (NEXT s) (RETURN_TOKEN t) = Inr (t', s') \<Longrightarrow> currdata s \<noteq> 0 \<Longrightarrow> lexsize s' < lexsize s"
  by (auto simp: ebind_Inr_iff dest!: NEXT_less)

lemma at_less:
  "ebind (NEXT s) (\<lambda>s1. if currdata s1 \<noteq> 34 then RETURN_TOKEN t s1 else Lex_string 34 True s1) = Inr (t', s') \<Longrightarrow>
    currdata s \<noteq> 0 \<Longrightarrow> lexsize s' < lexsize s"
  by (erule ebindE, erule (1) next_tok_less) (auto split: if_splits dest!: Lex_string_less)

lemmas token_less = tok2_less tok3_less Lex_less_less Lex_greater_less Lex_dots_less single_less
  at_less Lex_string_less

lemma Lex_token_less:
  assumes "Lex_token sv rv s = Inr (t, s')" "currdata s \<noteq> 0"
  shows "lexsize s' < lexsize s"
proof -
  have num: "ebind (ReadNumber s) (\<lambda>(t, s1). RETURN_TOKEN t s1) = Inr (t, s') \<Longrightarrow> lexsize s' < lexsize s"
    using ReadNumber_less assms(2) by (auto simp: ebind_Inr_iff)
  have id: "ebind (ReadID sv rv s) (\<lambda>(t, s1). RETURN_TOKEN t s1) = Inr (t, s') \<Longrightarrow> lexsize s' < lexsize s"
    using ReadID_less assms(2) by (auto simp: ebind_Inr_iff)
  show ?thesis
    using assms(1) unfolding Lex_token_def Let_def
    by (simp only: split: if_splits) (erule token_less [OF _ assms(2)] num id | simp)+
qed

lemma Lex_loop_less:
  "Lex_loop sv rv s = Inr (t, s') \<Longrightarrow> lexsize s' < lexsize s \<or> t = 0 \<and> currdata s' = 0 \<and> lexsize s' \<le> lexsize s"
proof (induction "lexsize s" arbitrary: s rule: less_induct)
  case less
  have rec: "lexsize s' < lexsize s \<or> t = 0 \<and> currdata s' = 0 \<and> lexsize s' \<le> lexsize s"
    if "Lex_loop sv rv s1 = Inr (t, s')" "lexsize s1 < lexsize s" for s1
    using less.hyps [OF that(2,1)] that(2) by (elim disjE) simp_all
  note eq = less.prems [unfolded Lex_loop.simps [of sv rv s], unfolded Let_def]
  consider (eob) "currdata s = 0"
    | (blank) "currdata s \<noteq> 0" "currdata s = 9 \<or> currdata s = 13 \<or> currdata s = 32"
    | (newline) "currdata s = 10"
    | (hash) "currdata s = chr8 CHR ''#''"
    | (slash) "currdata s = chr8 CHR ''/''"
    | (token) "currdata s \<noteq> 0" "currdata s \<noteq> 9" "currdata s \<noteq> 13" "currdata s \<noteq> 32" "currdata s \<noteq> 10"
        "currdata s \<noteq> chr8 CHR ''#''" "currdata s \<noteq> chr8 CHR ''/''"
    by blast
  then show ?case
  proof cases
    case eob
    with eq show ?thesis by simp
  next
    case blank
    with eq obtain s1 where "NEXT s = Inr s1" "Lex_loop sv rv s1 = Inr (t, s')"
      by (auto elim: ebindE)
    with rec [of s1] blank show ?thesis by simp
  next
    case newline
    let ?s = "s\<lparr>currentline := currentline s + 1, prevtoken := curtoken s, curtoken := 10\<rparr>"
    from newline eq obtain s1 where s1: "NEXT ?s = Inr s1"
      "Lex_loop sv rv (s1\<lparr>currentcolumn := 1\<rparr>) = Inr (t, s')"
      by (auto elim: ebindE)
    have "lexsize s1 < lexsize s" using NEXT_less [OF s1(1)] newline by simp
    with rec [OF s1(2)] show ?thesis by simp
  next
    case hash
    with eq obtain s1 where s1: "LexLineComment s = Inr s1" "Lex_loop sv rv s1 = Inr (t, s')"
      by (auto elim: ebindE)
    with rec [OF s1(2)] LexLineComment_less [OF s1(1)] hash show ?thesis by simp
  next
    case slash
    with eq obtain s1 where s1: "NEXT s = Inr s1"
      "(if currdata s1 = chr8 CHR ''*'' then
            ebind (NEXT s1) (\<lambda>s2. ebind (LexBlockComment s2) (\<lambda>s3. Lex_loop sv rv s3))
          else if currdata s1 = chr8 CHR ''/'' then
            ebind (LexLineComment s1) (\<lambda>s2. Lex_loop sv rv s2)
          else if currdata s1 = chr8 CHR ''='' then ebind (NEXT s1) (RETURN_TOKEN TK_DIVEQ)
          else if currdata s1 = chr8 CHR ''>'' then ebind (NEXT s1) (RETURN_TOKEN TK_ATTR_CLOSE)
          else RETURN_TOKEN (tokc CHR ''/'') s1) = Inr (t, s')"
      by (auto elim: ebindE)
    have lt: "lexsize s1 < lexsize s" using s1(1) slash by simp
    show ?thesis
    proof (cases "currdata s1 = chr8 CHR ''*''")
      case True
      with s1 obtain s2 s3 where s3: "NEXT s1 = Inr s2" "LexBlockComment s2 = Inr s3" "Lex_loop sv rv s3 = Inr (t, s')"
        by (auto elim!: ebindE)
      with NEXT_le [OF s3(1)] LexBlockComment_le [OF s3(2)] lt rec [OF s3(3)] show ?thesis by simp
    next
      case star: False
      show ?thesis
      proof (cases "currdata s1 = chr8 CHR ''/''")
        case True
        with s1 obtain s2 where s2: "LexLineComment s1 = Inr s2" "Lex_loop sv rv s2 = Inr (t, s')"
          by (auto elim!: ebindE)
        with LexLineComment_less [OF s2(1)] True lt rec [OF s2(2)] show ?thesis by simp
      next
        case False
        with star s1(2) have "lexsize s' \<le> lexsize s1"
          by (auto split: if_splits simp: ebind_Inr_iff dest!: NEXT_le)
        with lt show ?thesis by simp
      qed
    qed
  next
    case token
    with eq have "Lex_token sv rv s = Inr (t, s')" by simp
    with Lex_token_less token show ?thesis by blast
  qed
qed

lemma Lex_progress:
  "Lex sv rv s = Inr (t, s') \<Longrightarrow> lexsize s' < lexsize s \<or> t = 0 \<and> currdata s' = 0 \<and> lexsize s' \<le> lexsize s"
  unfolding Lex_def by (drule Lex_loop_less) simp

text \<open>Calling \<^verbatim>\<open>Lex\<close> until it returns 0, as the parser does; \<open>None\<close> when \<open>n\<close> calls were
  not enough.\<close>

fun lex_all ::
  "nat \<Rightarrow> (addr \<Rightarrow> sqchar list) \<Rightarrow> (sqobject \<Rightarrow> sqobject) \<Rightarrow> lexer \<Rightarrow> sqint list lres option" where
  "lex_all 0 sv rv s = None"
| "lex_all (Suc n) sv rv s =
     (case Lex sv rv s of
        Inl e \<Rightarrow> Some (Inl e)
      | Inr (t, s1) \<Rightarrow>
          if t = 0 then Some (Inr [0])
          else map_option (map_sum id ((#) t)) (lex_all n sv rv s1))"

lemma lex_all_enough: "lexsize s < n \<Longrightarrow> \<exists>r. lex_all n sv rv s = Some r"
proof (induction n arbitrary: s)
  case (Suc n)
  show ?case
  proof (cases "Lex sv rv s")
    case (Inr r)
    obtain t s1 where r: "r = (t, s1)" by (cases r)
    have "t = 0 \<or> lexsize s1 < n"
      using Lex_progress [of sv rv s t s1] Inr r Suc.prems by auto
    with Suc.IH [of s1] Inr r show ?thesis by auto
  qed simp
qed simp


subsection \<open>UTF-8\<close>

text \<open>What a byte sequence of one code point means (RFC 3629, surrogates admitted): shortest
  form only, up to 10FFFF.\<close>

definition is_cont :: "nat \<Rightarrow> bool" where "is_cont b \<longleftrightarrow> 0x80 \<le> b \<and> b < 0xC0"

fun utf8_decode :: "nat list \<Rightarrow> nat option" where
  "utf8_decode [a] = (if a < 0x80 then Some a else None)"
| "utf8_decode [a, b] =
     (let v = (a - 0xC0) * 64 + (b - 0x80) in
      if 0xC0 \<le> a \<and> a < 0xE0 \<and> is_cont b \<and> 0x80 \<le> v then Some v else None)"
| "utf8_decode [a, b, c] =
     (let v = ((a - 0xE0) * 64 + (b - 0x80)) * 64 + (c - 0x80) in
      if 0xE0 \<le> a \<and> a < 0xF0 \<and> is_cont b \<and> is_cont c \<and> 0x800 \<le> v then Some v else None)"
| "utf8_decode [a, b, c, d] =
     (let v = (((a - 0xF0) * 64 + (b - 0x80)) * 64 + (c - 0x80)) * 64 + (d - 0x80) in
      if 0xF0 \<le> a \<and> a < 0xF8 \<and> is_cont b \<and> is_cont c \<and> is_cont d \<and> 0x10000 \<le> v \<and> v < 0x110000
      then Some v else None)"
| "utf8_decode _ = None"

lemma or_byte:
  fixes x :: "64 word"
  assumes "unat x < 2 ^ k" "c AND mask k = 0" "unat c < 256" "unat c + unat x < 256"
  shows "unat (ucast (x OR c) :: 8 word) = unat c + unat x"
proof -
  have "x = take_bit k x"
    using assms(1) by (simp add: word_unat_eq_iff unsigned_take_bit_eq take_bit_nat_eq_self)
  then have "x AND c = x AND (c AND mask k)"
    by (metis and.assoc and.commute take_bit_eq_mask)
  then have "x AND c = 0" using assms(2) by simp
  then have "x OR c = x + c" by (simp add: disjunctive_add_eq_or)
  moreover have "unat (x + c) = unat x + unat c"
    using assms(4) by (intro unat_add_lem [THEN iffD1]) simp
  ultimately show ?thesis using assms(4) by (simp add: unsigned_ucast_eq take_bit_eq_mod)
qed

lemma unat_drop: "unat (drop_bit k (x :: 64 word)) = unat x div 2 ^ k"
  by (simp only: unat_drop_bit_eq) (simp only: drop_bit_eq_div)

lemma unat_ucast8: "unat (ucast (x :: 64 word) :: 8 word) = unat x mod 256"
  by (simp add: unsigned_ucast_eq take_bit_eq_mod)

lemma unat_low6: "unat (x AND 0x3F :: 64 word) = unat x mod 64"
proof -
  have "(0x3F :: 64 word) = mask 6" by (simp add: mask_eq_exp_minus_1)
  then have "x AND 0x3F = take_bit 6 x" by (simp only: take_bit_eq_mask)
  then have "unat (x AND 0x3F) = take_bit 6 (unat x)" by (simp only: unsigned_take_bit_eq)
  then show ?thesis by (simp only: take_bit_eq_mod) simp
qed

lemma cont_byte: "unat (ucast ((x AND 0x3F) OR 0x80) :: 8 word) = 0x80 + unat (x::64 word) mod 64"
  using or_byte [of "x AND 0x3F" 6 "0x80"] by (simp add: unat_low6 mask_eq_exp_minus_1)

text \<open>
  C13.  The escapes \<^verbatim>\<open>\u\<close> and \<^verbatim>\<open>\U\<close> append the UTF-8 encoding of the code point: for
  every value up to 10FFFF the bytes decode to it (in shortest form), and a larger value
  appends nothing.
\<close>

theorem utf8_escape_correct:
  "fst (AddUTF8 ch s) = length (utf8_bytes ch) \<and> longstr (snd (AddUTF8 ch s)) = longstr s @ utf8_bytes ch \<and>
   utf8_decode (map unat (utf8_bytes ch)) = (if ch < 0x110000 then Some (unat ch) else None)"
proof -
  have lt: "ch < word_of_nat n \<longleftrightarrow> unat ch < n" if "n < 2 ^ 64" for n
    using that by (simp add: word_less_nat_alt unat_of_nat)
  have lts: "ch < 0x80 \<longleftrightarrow> unat ch < 0x80" "ch < 0x800 \<longleftrightarrow> unat ch < 0x800"
    "ch < 0x10000 \<longleftrightarrow> unat ch < 0x10000" "ch < 0x110000 \<longleftrightarrow> unat ch < 0x110000"
    using lt [of "0x80"] lt [of "0x800"] lt [of "0x10000"] lt [of "0x110000"] by simp_all
  have e1: "unat (ucast (drop_bit 6 ch OR 0xC0) :: 8 word) = 0xC0 + unat ch div 64" if "unat ch < 0x800"
  proof -
    have "unat ch div 64 < 32" using that by simp
    then show ?thesis using or_byte [of "drop_bit 6 ch" 5 "0xC0"] by (simp add: unat_drop mask_eq_exp_minus_1)
  qed
  have e2: "unat (ucast (drop_bit 12 ch OR 0xE0) :: 8 word) = 0xE0 + unat ch div 4096" if "unat ch < 0x10000"
  proof -
    have "unat ch div 4096 < 16" using that by simp
    then show ?thesis using or_byte [of "drop_bit 12 ch" 4 "0xE0"] by (simp add: unat_drop mask_eq_exp_minus_1)
  qed
  have e3: "unat (ucast (drop_bit 18 ch OR 0xF0) :: 8 word) = 0xF0 + unat ch div 262144" if "unat ch < 0x110000"
  proof -
    have "unat ch div 262144 < 8" using that by simp
    then show ?thesis using or_byte [of "drop_bit 18 ch" 3 "0xF0"] by (simp add: unat_drop mask_eq_exp_minus_1)
  qed
  have e0: "unat (ucast ch :: 8 word) = unat ch" if "unat ch < 0x80" using that by (simp add: unat_ucast8)
  define n where "n = unat ch"
  have q: "n div 4096 = n div 64 div 64" "n div 262144 = n div 64 div 64 div 64"
    by (simp_all add: div_mult2_eq [symmetric])
  have d2: "n div 64 * 64 + n mod 64 = n" by simp
  have d3: "(n div 4096 * 64 + n div 64 mod 64) * 64 + n mod 64 = n"
    unfolding q by (simp only: div_mult_mod_eq)
  have d4: "((n div 262144 * 64 + n div 4096 mod 64) * 64 + n div 64 mod 64) * 64 + n mod 64 = n"
    unfolding q by (simp only: div_mult_mod_eq)
  have "utf8_decode (map unat (utf8_bytes ch)) = (if ch < 0x110000 then Some (unat ch) else None)"
  proof -
    consider "n < 0x80" | "0x80 \<le> n" "n < 0x800" | "0x800 \<le> n" "n < 0x10000"
      | "0x10000 \<le> n" "n < 0x110000" | "0x110000 \<le> n" by linarith
    then show ?thesis
    proof cases
      case 1
      then show ?thesis using e0 by (simp add: utf8_bytes_def lts n_def)
    next
      case 2
      then show ?thesis using e1 d2
        by (simp add: utf8_bytes_def lts n_def cont_byte is_cont_def Let_def)
    next
      case 3
      then show ?thesis using e2 d3
        by (simp add: utf8_bytes_def lts n_def cont_byte is_cont_def Let_def unat_drop)
    next
      case 4
      then show ?thesis using e3 d4
        by (simp add: utf8_bytes_def lts n_def cont_byte is_cont_def Let_def unat_drop)
    next
      case 5
      then show ?thesis by (simp add: utf8_bytes_def lts n_def)
    qed
  qed
  then show ?thesis by (simp add: AddUTF8_def)
qed

subsection \<open>Reading a given text\<close>

text \<open>\<open>text_at s bs\<close>: the current character and what follows are the bytes \<open>bs\<close>, up to the
  end of the input.  \<open>same_rest s s'\<close>: reading changed nothing else that matters here.\<close>

definition text_at :: "lexer \<Rightarrow> sqchar list \<Rightarrow> bool" where
  "text_at s bs \<longleftrightarrow> currdata s = (case bs of [] \<Rightarrow> 0 | b # _ \<Rightarrow> b) \<and> lx_in s = map ucast (tl bs)"

definition same_rest :: "lexer \<Rightarrow> lexer \<Rightarrow> bool" where
  "same_rest s s' \<longleftrightarrow> curtoken s' = curtoken s \<and> prevtoken s' = prevtoken s \<and> kwtable s' = kwtable s \<and>
     lasttokenline s' = lasttokenline s"

lemma same_rest_refl [simp]: "same_rest s s" and same_rest_append [simp]: "same_rest s (APPEND_CHAR c s)"
  by (simp_all add: same_rest_def APPEND_CHAR_def)

lemma same_rest_trans: "same_rest s s1 \<Longrightarrow> same_rest s1 s2 \<Longrightarrow> same_rest s s2"
  by (simp add: same_rest_def)

lemma text_at_append [simp]: "text_at (APPEND_CHAR c s) bs = text_at s bs"
  by (simp add: text_at_def APPEND_CHAR_def)

lemma longstr_append [simp]: "longstr (APPEND_CHAR c s) = longstr s @ [c]"
  and currdata_append [simp]: "currdata (APPEND_CHAR c s) = currdata s"
  by (simp_all add: APPEND_CHAR_def)

lemma uint_byte: "uint (ucast (c :: 8 word) :: 64 word) = uint c"
proof -
  have "0 \<le> uint c" "uint c < 256" using uint_lt2p [of c] by simp_all
  then have "take_bit 64 (uint c) = uint c" by (intro take_bit_int_eq_self) simp_all
  then show ?thesis by (simp add: unsigned_ucast_eq)
qed

lemma sint_byte: "sint (ucast (c :: 8 word) :: 64 word) = uint c"
proof -
  have "- (2 ^ 63) \<le> uint c" by (rule order_trans [of _ 0]) simp_all
  moreover have "uint c < 2 ^ 63" using uint_lt2p [of c] by simp
  ultimately have "signed_take_bit 63 (uint c) = uint c" by (rule signed_take_bit_int_eq_self)
  then show ?thesis by (simp add: sint_uint uint_byte)
qed

lemma ucast_byte_0: "(ucast (c :: 8 word) :: 64 word) = 0 \<longleftrightarrow> c = 0"
  using uint_byte [of c] by (metis unsigned_eq_0_iff)

lemma NEXT_text:
  assumes "text_at s bs"
  shows "\<exists>s'. NEXT s = Inr s' \<and> text_at s' (tl bs) \<and> longstr s' = longstr s \<and> same_rest s s' \<and>
    currentline s' = currentline s"
proof (cases "lx_in s")
  case Nil
  then show ?thesis using assms
    by (cases "tl bs") (auto simp: NEXT_def Next_def Let_def text_at_def same_rest_def)
next
  case (Cons x xs)
  with assms obtain b bs' where b: "tl bs = b # bs'" "x = ucast b" "xs = map ucast bs'"
    by (cases "tl bs") (auto simp: text_at_def)
  have "uint b < 256" using uint_lt2p [of b] by simp
  then have "\<not> sint x > 255" using b sint_byte [of b] by simp
  moreover have "(x = 0) = (b = 0)" using b ucast_byte_0 by simp
  moreover have "ucast x = b" using b uint_byte [of b]
    by (simp add: ucast_up_ucast_id is_up)
  ultimately show ?thesis
    using Cons b assms by (auto simp: NEXT_def Next_def Let_def text_at_def same_rest_def)
qed

lemma text_at_cur: "text_at s (b # bs) \<Longrightarrow> currdata s = b"
  by (simp add: text_at_def)

subsection \<open>Integer literals\<close>

lemma less_10_cases: "(k::nat) < 10 \<Longrightarrow> k \<in> {0, 1, 2, 3, 4, 5, 6, 7, 8, 9}"
  by auto

lemma digit_byte:
  assumes "k < 10"
  shows "scisdigit (word_of_nat (48 + k))" "scast (word_of_nat (48 + k) :: 8 word) - 48 = (word_of_nat k :: 64 word)"
    "(word_of_nat (48 + k) :: 8 word) \<noteq> 0" "(word_of_nat (48 + k) :: 8 word) \<noteq> 46"
    "\<not> isexponent (word_of_nat (48 + k))" "(word_of_nat (48 + k) :: 8 word) = 48 \<longleftrightarrow> k = 0"
  using less_10_cases [OF assms]
  by (auto simp: scisdigit_def in_range_def isexponent_def)

lemma dec_digits_digit: "d \<in> set (dec_digits n) \<Longrightarrow> \<exists>k < 10. d = word_of_nat (48 + k)"
proof (induction n rule: dec_digits.induct)
  case (1 n)
  have m: "n mod 10 < 10" by simp
  show ?case
  proof (cases "n < 10")
    case True
    with 1(2) show ?thesis by (auto simp: dec_digits.simps [of n])
  next
    case False
    with 1(2) consider "d \<in> set (dec_digits (n div 10))" | "d = word_of_nat (48 + n mod 10)"
      by (auto simp: dec_digits.simps [of n])
    then show ?thesis using 1(1) False m by cases blast+
  qed
qed

lemma dec_digits_head: "\<exists>d ds. dec_digits n = d # ds \<and> (0 < n \<longrightarrow> d \<noteq> 48)"
proof (induction n rule: dec_digits.induct)
  case (1 n)
  then show ?case
    using digit_byte(6) [of n] by (cases "n < 10") (auto simp: dec_digits.simps [of n])
qed

lemma takeWhile_digits: "takeWhile (\<lambda>c. c \<noteq> 0) (dec_digits n @ [0]) = dec_digits n"
  using dec_digits_digit digit_byte(3) by (fastforce intro!: takeWhile_append2 [THEN trans])

lemma LexInteger_digits: "LexInteger (dec_digits n @ [0]) = word_of_nat n"
proof -
  have "fold (\<lambda>c res. res * 10 + (scast c - 48)) (dec_digits n) 0 = (word_of_nat n :: 64 word)"
  proof (induction n rule: dec_digits.induct)
    case (1 n)
    show ?case
    proof (cases "n < 10")
      case True
      then show ?thesis using digit_byte(2) [of n] by (simp add: dec_digits.simps [of n])
    next
      case False
      have "word_of_nat n = (word_of_nat (n div 10 * 10 + n mod 10) :: 64 word)" by (simp only: div_mult_mod_eq)
      also have "\<dots> = word_of_nat (n div 10) * 10 + word_of_nat (n mod 10)"
        by (simp only: of_nat_add of_nat_mult) simp
      finally show ?thesis
        using 1(1) False digit_byte(2) [of "n mod 10"] by (simp add: dec_digits.simps [of n])
    qed
  qed
  then show ?thesis by (simp add: LexInteger_def takeWhile_digits)
qed

lemma ReadNumber_loop_digits:
  assumes "text_at s (ds @ bs)" "\<forall>d \<in> set ds. \<exists>k < 10. d = word_of_nat (48 + k)"
    "bs = [] \<or> (hd bs \<noteq> 46 \<and> \<not> scisdigit (hd bs) \<and> \<not> isexponent (hd bs))"
  shows "\<exists>s'. ReadNumber_loop type s = Inr (type, s') \<and> longstr s' = longstr s @ ds \<and> text_at s' bs \<and>
    same_rest s s'"
  using assms(1,2)
proof (induction ds arbitrary: s)
  case Nil
  then have cur: "currdata s = (case bs of [] \<Rightarrow> 0 | b # _ \<Rightarrow> b)" by (simp add: text_at_def)
  have "\<not> (currdata s = 46 \<or> scisdigit (currdata s) \<or> isexponent (currdata s))"
  proof (cases bs)
    case Nil
    then show ?thesis using cur by (simp add: scisdigit_def in_range_def isexponent_def)
  next
    case (Cons b bs')
    then show ?thesis using cur assms(3) by simp
  qed
  then have "ReadNumber_loop type s = Inr (type, s)" by (simp only: ReadNumber_loop.simps [of type s] if_False)
  with Nil show ?case by auto
next
  case (Cons d ds)
  then obtain k where k: "k < 10" "d = word_of_nat (48 + k)" by auto
  have d: "currdata s = d" using Cons.prems(1) by (simp add: text_at_def)
  obtain s1 where s1: "NEXT (APPEND_CHAR d s) = Inr s1" "text_at s1 (ds @ bs)" "longstr s1 = longstr s @ [d]"
    "same_rest (APPEND_CHAR d s) s1"
    using NEXT_text [of "APPEND_CHAR d s" "(d # ds) @ bs"] Cons.prems(1) by auto
  obtain s' where s': "ReadNumber_loop type s1 = Inr (type, s')" "longstr s' = longstr s1 @ ds"
    "text_at s' bs" "same_rest s1 s'"
    using Cons.IH [OF s1(2)] Cons.prems(2) by auto
  have "ReadNumber_loop type s = ReadNumber_loop type s1"
    using d digit_byte [OF k(1)] k(2) s1(1) by (simp add: Let_def ReadNumber_loop.simps [of type s])
  moreover have "same_rest s s'"
    using s1(4) s'(4) by (simp add: same_rest_def APPEND_CHAR_def)
  ultimately show ?case using s' s1 by auto
qed

text \<open>
  Integer literals: where the text is the decimal numeral of a number, followed by
  anything that is not part of a numeral, \<^verbatim>\<open>ReadNumber\<close> reads exactly the numeral and
  delivers the token \<^verbatim>\<open>TK_INTEGER\<close> with the number reduced modulo 2^64 (there is no
  overflow error).
\<close>

theorem decimal_literal:
  assumes "text_at s (dec_digits n @ bs)"
    "bs = [] \<or> (hd bs \<noteq> 46 \<and> \<not> scisdigit (hd bs) \<and> \<not> isexponent (hd bs) \<and> toupper (hd bs) \<noteq> chr8 CHR ''X'')"
  shows "\<exists>s'. ReadNumber s = Inr (TK_INTEGER, s') \<and> nvalue s' = word_of_nat n \<and> text_at s' bs"
proof -
  obtain d ds where ds: "dec_digits n = d # ds" "0 < n \<Longrightarrow> d \<noteq> 48" using dec_digits_head [of n] by blast
  have dig: "\<forall>x \<in> set (d # ds). \<exists>k < 10. x = word_of_nat (48 + k)"
    using dec_digits_digit ds(1) by metis
  have cur: "currdata s = d" using assms(1) ds(1) by (simp add: text_at_def)
  have "text_at (INIT_TEMP_STRING s) (d # ds @ bs)"
    using assms(1) ds(1) by (simp add: text_at_def INIT_TEMP_STRING_def)
  from NEXT_text [OF this] obtain s1 where s1: "NEXT (INIT_TEMP_STRING s) = Inr s1"
    "text_at s1 (ds @ bs)" "longstr s1 = []"
    by (auto simp: INIT_TEMP_STRING_def)
  have "\<not> (d = 48 \<and> (toupper (currdata s1) = chr8 CHR ''X'' \<or> scisodigit (currdata s1)))"
  proof
    assume a: "d = 48 \<and> (toupper (currdata s1) = chr8 CHR ''X'' \<or> scisodigit (currdata s1))"
    with ds have n: "n = 0" by blast
    then have "ds = []" using ds(1) by (simp add: dec_digits.simps)
    then have "currdata s1 = (case bs of [] \<Rightarrow> 0 | b # _ \<Rightarrow> b)" using s1(2) by (simp add: text_at_def)
    with a assms(2) show False
      by (cases bs) (auto simp: toupper_def scisodigit_def scisdigit_def in_range_def)
  qed
  then have digits: "ReadNumber_digits d s1 = ReadNumber_loop TINT (APPEND_CHAR d s1)"
    by (simp only: ReadNumber_digits_def if_False)
  have "\<exists>s2. ReadNumber_loop TINT (APPEND_CHAR d s1) = Inr (TINT, s2) \<and>
      longstr s2 = longstr (APPEND_CHAR d s1) @ ds \<and> text_at s2 bs \<and> same_rest (APPEND_CHAR d s1) s2"
  proof (rule ReadNumber_loop_digits)
    show "text_at (APPEND_CHAR d s1) (ds @ bs)" using s1 by simp
    show "\<forall>d \<in> set ds. \<exists>k < 10. d = word_of_nat (48 + k)" using dig by simp
    show "bs = [] \<or> (hd bs \<noteq> 46 \<and> \<not> scisdigit (hd bs) \<and> \<not> isexponent (hd bs))" using assms(2) by blast
  qed
  then obtain s2 where s2: "ReadNumber_loop TINT (APPEND_CHAR d s1) = Inr (TINT, s2)"
    "longstr s2 = dec_digits n" "text_at s2 bs"
    using s1(3) ds(1) by auto
  let ?s' = "(TERMINATE_BUFFER s2)\<lparr>nvalue := LexInteger (longstr (TERMINATE_BUFFER s2))\<rparr>"
  have "ReadNumber s = Inr (TK_INTEGER, ?s')"
    unfolding ReadNumber_def ReadNumber_rest_def using cur s1(1) digits s2(1)
    by (simp add: Let_def ReadNumber_value_def)
  moreover have "nvalue ?s' = word_of_nat n"
    using s2(2) LexInteger_digits by (simp add: TERMINATE_BUFFER_def)
  moreover have "text_at ?s' bs" using s2(3) by (simp add: TERMINATE_BUFFER_def text_at_def APPEND_CHAR_def)
  ultimately show ?thesis by blast
qed

definition blank_lexer :: "sqchar list \<Rightarrow> lexer" where
  "blank_lexer bs = \<lparr>lx_in = map ucast (tl bs), curtoken = 0, prevtoken = - 1, currentline = 1,
     lasttokenline = 1, currentcolumn = 0, nvalue = 0, fvalue = 0,
     currdata = (case bs of [] \<Rightarrow> 0 | b # _ \<Rightarrow> b), longstr = [], reached_eof = False,
     kwtable = \<lparr>firstfree = 0, nodes = [], numofnodes = 0, usednodes = 0, tdelegate = None\<rparr>\<rparr>"

lemma text_at_blank [simp]: "text_at (blank_lexer bs) bs"
  by (simp add: text_at_def blank_lexer_def)

theorem decimal_literal_witness:
  "\<exists>s'. ReadNumber (blank_lexer (dec_digits 18446744073709551620 @ [59])) = Inr (TK_INTEGER, s') \<and>
    nvalue s' = 4 \<and> text_at s' [59]"
proof -
  have "word_of_nat 18446744073709551620 = (4 :: 64 word)" by simp
  with decimal_literal [of "blank_lexer (dec_digits 18446744073709551620 @ [59])" 18446744073709551620 "[59]"]
  show ?thesis
    by (simp only: text_at_blank) (simp add: scisdigit_def in_range_def isexponent_def toupper_def)
qed

subsection \<open>String literals\<close>

text \<open>A text that escapes every byte in a way the reader undoes is read back, whatever the escapes are.\<close>

definition reads_back :: "(sqchar \<Rightarrow> sqchar list) \<Rightarrow> sqchar \<Rightarrow> bool" where
  "reads_back w b \<longleftrightarrow> w b \<noteq> [] \<and> hd (w b) \<noteq> 0 \<and>
     (\<forall>s tl. text_at s (w b @ tl) \<longrightarrow>
        (\<exists>s1. ReadString_loop 34 False s = ReadString_loop 34 False s1 \<and> text_at s1 tl \<and>
           longstr s1 = longstr s @ [b]))"

lemma ReadString_loop_concat:
  assumes "text_at s (concat (map w bs) @ 34 # rest)" "\<forall>b \<in> set bs. reads_back w b"
  shows "\<exists>s'. ReadString_loop 34 False s = Inr s' \<and> longstr s' = longstr s @ bs \<and> text_at s' rest"
  using assms
proof (induction bs arbitrary: s)
  case Nil
  then have t: "text_at s (34 # rest)" by simp
  then have "currdata s = 34" by (rule text_at_cur)
  moreover obtain s' where "NEXT s = Inr s'" "text_at s' rest" "longstr s' = longstr s"
    using NEXT_text [OF t] by auto
  ultimately show ?case by (simp add: ReadString_loop.simps [of 34 False s])
next
  case (Cons b bs)
  then have "reads_back w b" "text_at s (w b @ concat (map w bs) @ 34 # rest)" by simp_all
  then obtain s1 where s1: "ReadString_loop 34 False s = ReadString_loop 34 False s1"
    "text_at s1 (concat (map w bs) @ 34 # rest)" "longstr s1 = longstr s @ [b]"
    unfolding reads_back_def by blast
  from Cons.IH [OF s1(2)] Cons.prems(2) s1 show ?case by simp
qed

lemma ReadString_concat:
  assumes "text_at s (34 # concat (map w bs) @ 34 # rest)" "\<forall>b \<in> set bs. reads_back w b"
  shows "\<exists>s'. ReadString 34 False s = Inr (TK_STRING_LITERAL, s') \<and> longstr s' = bs @ [0] \<and> text_at s' rest"
proof -
  have "text_at (INIT_TEMP_STRING s) (34 # concat (map w bs) @ 34 # rest)"
    using assms(1) by (simp add: text_at_def INIT_TEMP_STRING_def)
  from NEXT_text [OF this] obtain s1 where s1: "NEXT (INIT_TEMP_STRING s) = Inr s1"
    "text_at s1 (concat (map w bs) @ 34 # rest)" "longstr s1 = []"
    by (auto simp: INIT_TEMP_STRING_def)
  obtain b tl where hd: "concat (map w bs) @ 34 # rest = b # tl" "b \<noteq> 0"
  proof (cases bs)
    case (Cons c cs)
    then have "reads_back w c" using assms(2) by simp
    then show ?thesis using that [of "hd (w c)"] Cons by (cases "w c") (simp_all add: reads_back_def)
  qed (use that in simp)
  then have nz: "currdata s1 \<noteq> 0" using text_at_cur s1(2) by metis
  obtain s2 where s2: "ReadString_loop 34 False s1 = Inr s2" "longstr s2 = bs" "text_at s2 rest"
    using ReadString_loop_concat [OF s1(2) assms(2)] s1(3) by auto
  have "ReadString 34 False s = Inr (TK_STRING_LITERAL, TERMINATE_BUFFER s2)"
    unfolding ReadString_def using s1(1) nz s2(1) by (simp add: Let_def)
  with s2 show ?thesis by (simp add: TERMINATE_BUFFER_def)
qed

lemma reads_back_plain:
  assumes "w b = [b]" "b \<noteq> 0" "b \<noteq> 10" "b \<noteq> 34" "b \<noteq> 92"
  shows "reads_back w b"
  unfolding reads_back_def
proof (intro conjI allI impI)
  fix s tl assume "text_at s (w b @ tl)"
  then have t: "text_at s (b # tl)" using assms(1) by simp
  obtain s1 where s1: "NEXT (APPEND_CHAR b s) = Inr s1" "text_at s1 tl" "longstr s1 = longstr s @ [b]"
    using NEXT_text [of "APPEND_CHAR b s" "b # tl"] t by auto
  then have "ReadString_loop 34 False s = ReadString_loop 34 False s1"
    using text_at_cur [OF t] s1(1) assms by (simp add: ReadString_loop.simps [of 34 False s])
  with s1 show "\<exists>s1. ReadString_loop 34 False s = ReadString_loop 34 False s1 \<and> text_at s1 tl \<and>
    longstr s1 = longstr s @ [b]" by blast
qed (use assms in simp_all)

lemma reads_back_letter:
  assumes "w b = [92, e]" "simple_escape e = Some b"
  shows "reads_back w b"
  unfolding reads_back_def
proof (intro conjI allI impI)
  fix s tl assume "text_at s (w b @ tl)"
  then have t: "text_at s (92 # e # tl)" using assms(1) by simp
  have e: "e \<noteq> chr8 CHR ''x''" "e \<noteq> chr8 CHR ''U''" "e \<noteq> chr8 CHR ''u''"
    using assms(2) by (auto simp: simple_escape_def)
  obtain s1 where s1: "NEXT s = Inr s1" "text_at s1 (e # tl)" "longstr s1 = longstr s"
    using NEXT_text [OF t] by auto
  obtain s2 where s2: "NEXT (APPEND_CHAR b s1) = Inr s2" "text_at s2 tl" "longstr s2 = longstr s @ [b]"
    using NEXT_text [of "APPEND_CHAR b s1" "e # tl"] s1 by auto
  have "ReadEscape s1 = Inr s2"
    using e assms(2) s2(1) text_at_cur [OF s1(2)] by (simp add: ReadEscape_def)
  then have "ReadString_loop 34 False s = ReadString_loop 34 False s2"
    using text_at_cur [OF t] s1(1) by (simp add: ReadString_loop.simps [of 34 False s])
  with s2 show "\<exists>s1. ReadString_loop 34 False s = ReadString_loop 34 False s1 \<and> text_at s1 tl \<and>
    longstr s1 = longstr s @ [b]" by blast
qed (use assms in simp_all)

definition quote1 :: "sqchar \<Rightarrow> sqchar list" where
  "quote1 b = (if b = 0 then [92, 48] else if b = 10 then [92, 110] else if b = 92 then [92, 92]
     else if b = 34 then [92, 34] else [b])"

definition quote :: "sqchar list \<Rightarrow> sqchar list" where
  "quote bs = concat (map quote1 bs)"

lemma quote1_reads_back: "reads_back quote1 b"
proof (cases "b \<in> {0, 10, 92, 34}")
  case True
  then obtain e where "quote1 b = [92, e]" "simple_escape e = Some b"
    by (auto simp: quote1_def simple_escape_def)
  then show ?thesis by (rule reads_back_letter)
next
  case False
  then show ?thesis by (intro reads_back_plain) (auto simp: quote1_def)
qed

text \<open>
  Every byte string can be written as a string literal: in the text that escapes the
  null byte, newline, backslash and double quote, \<^verbatim>\<open>ReadString\<close> reads back exactly the
  bytes (with the terminating null), whatever follows the closing quote.
\<close>

theorem string_literal_roundtrip:
  assumes "text_at s (34 # quote bs @ 34 # rest)"
  shows "\<exists>s'. ReadString 34 False s = Inr (TK_STRING_LITERAL, s') \<and> longstr s' = bs @ [0] \<and> text_at s' rest"
  using ReadString_concat [of s quote1 bs rest] assms quote1_reads_back by (simp add: quote_def)

theorem string_literal_roundtrip_witness:
  "\<exists>s'. ReadString 34 False (blank_lexer (34 # quote [104, 0, 10, 34, 92, 255] @ 34 # [59])) =
      Inr (TK_STRING_LITERAL, s') \<and> longstr s' = [104, 0, 10, 34, 92, 255, 0] \<and> text_at s' [59]"
  using string_literal_roundtrip [of "blank_lexer (34 # quote [104, 0, 10, 34, 92, 255] @ 34 # [59])"
      "[104, 0, 10, 34, 92, 255]" "[59]"] by simp

subsection \<open>Keywords\<close>

lemma tbl_findstr_spec:
  assumes sc: "scatter_nodes hsh L ns" and "i < length ns"
  shows "\<exists>r. tbl_findstr sv ns key i = Some r \<and>
    (case r of Some n \<Rightarrow> n < length ns \<and> key_is_str sv key (nd_key (ns ! n)) \<and> reach (nxf ns) i n
     | None \<Rightarrow> \<forall>n. reach (nxf ns) i n \<longrightarrow> \<not> key_is_str sv key (nd_key (ns ! n)))"
proof -
  obtain rk :: "nat \<Rightarrow> nat" where rk: "\<forall>i j. nxf ns i = Some j \<longrightarrow> rk j < rk i"
    using scatterD(3) [OF sc [unfolded scatter_nodes_def]] by auto
  show ?thesis using assms(2)
  proof (induction "rk i" arbitrary: i rule: less_induct)
    case less
    show ?case
    proof (cases "key_is_str sv key (nd_key (ns ! i))")
      case True
      then show ?thesis using less.prems by (subst tbl_findstr.simps) auto
    next
      case ne: False
      show ?thesis
      proof (cases "nd_next (ns ! i)")
        case None
        then have "nxf ns i = None" by (simp add: nxf_def)
        with ne None show ?thesis by (subst tbl_findstr.simps) (auto simp: reach_None)
      next
        case (Some j)
        then have nj: "nxf ns i = Some j" using less.prems by (simp add: nxf_def)
        have "j < length ns" using scatterD(1) [OF sc [unfolded scatter_nodes_def] nj] by simp
        then obtain r where r: "tbl_findstr sv ns key j = Some r"
          "case r of Some n \<Rightarrow> n < length ns \<and> key_is_str sv key (nd_key (ns ! n)) \<and> reach (nxf ns) j n
           | None \<Rightarrow> \<forall>n. reach (nxf ns) j n \<longrightarrow> \<not> key_is_str sv key (nd_key (ns ! n))"
          using less.hyps rk nj by blast
        have step: "reach (nxf ns) i n \<longleftrightarrow> i = n \<or> reach (nxf ns) j n" for n
          using nj by (metis converse_rtranclpE converse_rtranclp_into_rtranclp link_def
              option.inject rtranclp.rtrancl_refl)
        have "tbl_findstr sv ns key i = Some r" using ne Some r(1) by (subst tbl_findstr.simps) simp
        with r(2) step ne show ?thesis by (cases r) auto
      qed
    qed
  qed
qed

text \<open>\<open>named t sv sh\<close>: every string key of the table is a null-free string with its hash.\<close>

definition named :: "sqtable \<Rightarrow> (addr \<Rightarrow> sqchar list) \<Rightarrow> (addr \<Rightarrow> sqhash) \<Rightarrow> bool" where
  "named t sv sh \<longleftrightarrow> (\<forall>p. table_map t (OString p) \<noteq> None \<longrightarrow> 0 \<notin> set (sv p) \<and> sh p = hashstr (sv p))"

lemma cstr_id: "0 \<notin> set s \<Longrightarrow> cstr s = s"
  by (auto simp: cstr_def takeWhile_eq_all_conv)

lemma tbl_GetStr_ok:
  assumes wf: "wf_table (HashObj sh) t" and n: "named t sv sh" and key: "0 \<notin> set key"
  shows "\<exists>r. tbl_GetStr sv rv t key = Some r \<and>
    (case r of Some v \<Rightarrow> \<exists>p w. sv p = key \<and> table_map t (OString p) = Some w \<and> v = rv w
     | None \<Rightarrow> \<forall>p. sv p = key \<longrightarrow> table_map t (OString p) = None)"
proof -
  let ?ns = "nodes t"
  let ?i = "unat (hashstr key AND (word_of_nat (numofnodes t) - 1))"
  obtain k where k: "length ?ns = 2 ^ k" "numofnodes t = length ?ns" using wf by (rule wf_table_size)
  obtain L where sc: "scatter_nodes (HashObj sh) L ?ns" using wf by (auto simp: wf_table_def)
  have inj: "inj_keys ?ns" using scatter_inj [OF sc] .
  have "?i < length ?ns" using k unat_word_and_mask_less by metis
  from tbl_findstr_spec [OF sc this, of sv key] obtain r where r: "tbl_findstr sv ?ns key ?i = Some r"
    "case r of Some n \<Rightarrow> n < length ?ns \<and> key_is_str sv key (nd_key (?ns ! n)) \<and> reach (nxf ?ns) ?i n
     | None \<Rightarrow> \<forall>n. reach (nxf ?ns) ?i n \<longrightarrow> \<not> key_is_str sv key (nd_key (?ns ! n))" by blast
  show ?thesis
  proof (cases r)
    case None
    have "table_map t (OString p) = None" if p: "sv p = key" for p
    proof (rule ccontr)
      assume a: "table_map t (OString p) \<noteq> None"
      then obtain j where j: "kyf ?ns j = OString p" by (auto simp: table_map_def nmap_None_iff)
      have "sh p = hashstr key" using n a p by (simp add: named_def)
      then have "mainpos (HashObj sh) (length ?ns) (kyf ?ns j) = ?i" using j k by (simp add: mainpos_def HashObj_def)
      then have "reach (nxf ?ns) ?i j" and "j < length ?ns"
        using scatterD(4) [OF sc [unfolded scatter_nodes_def], of j] j by auto
      moreover have "key_is_str sv key (nd_key (?ns ! j))"
        using j \<open>j < length ?ns\<close> p by (simp add: kyf_def key_is_str_def)
      ultimately show False using None r(2) by simp
    qed
    with r(1) None show ?thesis by (simp add: tbl_GetStr_def)
  next
    case (Some m)
    then have m: "m < length ?ns" "key_is_str sv key (nd_key (?ns ! m))" using r(2) by auto
    then obtain p where p: "nd_key (?ns ! m) = OString p" "cstr (sv p) = cstr key"
      by (auto simp: key_is_str_def split: sqobject.splits)
    have "binds ?ns (OString p) (nd_val (?ns ! m))" using m p by (auto simp: binds_def)
    then have tm: "table_map t (OString p) = Some (nd_val (?ns ! m))"
      using nmap_Some_iff [OF inj] by (simp add: table_map_def)
    then have "0 \<notin> set (sv p)" using n by (simp add: named_def)
    then have "sv p = key" using p(2) key by (simp add: cstr_id)
    with tm r(1) Some show ?thesis by (auto simp: tbl_GetStr_def)
  qed
qed

definition kw_entries :: "(sqchar list \<Rightarrow> addr) \<Rightarrow> (string \<times> sqint) list \<Rightarrow> (sqobject \<times> sqobject) list" where
  "kw_entries intern ks = map (\<lambda>(k, i). (OString (intern (bytes_of k)), OInteger i)) ks"

lemma add_keywords_eq: "add_keywords hsh intern ks t = tbl.insert_all hsh t (kw_entries intern ks)"
  by (induction ks arbitrary: t)
    (auto simp: kw_entries_def tbl_insert_def case_prod_beta split: bind_splits)

lemma keyword_list_ok:
  "distinct (map (\<lambda>(k, i). bytes_of k) keyword_list)" "\<forall>(k, i) \<in> set keyword_list. 0 \<notin> set (bytes_of k)"
  by code_simp+

lemma kw_entries_iff:
  "(OString p, v) \<in> set (kw_entries intern ks) \<longleftrightarrow> (\<exists>(k, i) \<in> set ks. p = intern (bytes_of k) \<and> v = OInteger i)"
  by (force simp: kw_entries_def image_iff)

text \<open>What the keyword table relies on: interning gives a string object with the given bytes
  and their hash.\<close>

definition interns :: "(sqchar list \<Rightarrow> addr) \<Rightarrow> (addr \<Rightarrow> sqchar list) \<Rightarrow> (addr \<Rightarrow> sqhash) \<Rightarrow> bool" where
  "interns intern sv sh \<longleftrightarrow>
     list_all (\<lambda>(k, i). sv (intern (bytes_of k)) = bytes_of k \<and> sh (intern (bytes_of k)) = hashstr (bytes_of k))
       keyword_list"

text \<open>
  Keyword recognition: with strings interned correctly, building the keyword table
  succeeds and \<^verbatim>\<open>GetIDType\<close> then returns, for every identifier, the token of the keyword it
  spells and \<^verbatim>\<open>TK_IDENTIFIER\<close> when it spells none (\<^verbatim>\<open>script\<close> counts as \<^verbatim>\<open>function\<close>).
\<close>

theorem GetIDType_keywords:
  assumes int: "interns intern sv sh" and rv: "\<forall>i. rv (OInteger i) = OInteger i"
  shows "\<exists>t. keyword_table (HashObj sh) intern = Some t \<and>
    (\<forall>key. 0 \<notin> set key \<longrightarrow> GetIDType sv rv t key =
      Some (case map_of (map (\<lambda>(k, i). (bytes_of k, i)) keyword_list) key of
              Some i \<Rightarrow> i | None \<Rightarrow> TK_IDENTIFIER))"
proof -
  let ?hs = "HashObj sh"
  let ?kvs = "kw_entries intern keyword_list"
  have int': "sv (intern (bytes_of k)) = bytes_of k" "sh (intern (bytes_of k)) = hashstr (bytes_of k)"
    if "(k, i) \<in> set keyword_list" for k i
    using int that by (auto simp: interns_def list_all_iff)
  have "\<forall>(k, v) \<in> set ?kvs. k \<noteq> ONull" by (auto simp: kw_entries_def)
  from tbl.insert_all_ok [OF SQTable_new_ok(1) [of ?hs] this] obtain t where
    t: "keyword_table ?hs intern = Some t" "wf_table ?hs t" "table_map t = map_of (rev ?kvs)"
    unfolding keyword_table_def add_keywords_eq SQTable_new_ok(2) by auto
  have "distinct (map sv (map (\<lambda>(k, i). intern (bytes_of k)) keyword_list))"
  proof -
    have "map sv (map (\<lambda>(k, i). intern (bytes_of k)) keyword_list) = map (\<lambda>(k, i). bytes_of k) keyword_list"
      unfolding map_map by (rule map_cong) (use int' in auto)
    with keyword_list_ok(1) show ?thesis by (simp only:)
  qed
  then have "distinct (map OString (map (\<lambda>(k, i). intern (bytes_of k)) keyword_list))"
    by (auto simp: distinct_map inj_on_def)
  moreover have "map fst ?kvs = map OString (map (\<lambda>(k, i). intern (bytes_of k)) keyword_list)"
    by (auto simp: kw_entries_def)
  ultimately have dist: "distinct (map fst (rev ?kvs))" by (simp add: rev_map [symmetric])
  have tm: "table_map t (OString p) = Some v \<longleftrightarrow> (\<exists>(k, i) \<in> set keyword_list. p = intern (bytes_of k) \<and> v = OInteger i)"
    for p v
    unfolding t(3) map_of_eq_Some_iff [OF dist] set_rev by (rule kw_entries_iff)
  have named: "named t sv sh"
    unfolding named_def using tm int' keyword_list_ok(2) by fastforce
  have mo: "map_of (map (\<lambda>(k, i). (bytes_of k, i)) keyword_list) key = Some i \<longleftrightarrow>
      (\<exists>k. (k, i) \<in> set keyword_list \<and> bytes_of k = key)" for key i
  proof -
    have "map fst (map (\<lambda>(k, i). (bytes_of k, i)) keyword_list) = map (\<lambda>(k, i). bytes_of k) keyword_list"
      by auto
    with keyword_list_ok(1) have "distinct (map fst (map (\<lambda>(k, i). (bytes_of k, i)) keyword_list))" by (simp only:)
    from map_of_eq_Some_iff [OF this] show ?thesis by auto
  qed
  have "GetIDType sv rv t key = Some (case map_of (map (\<lambda>(k, i). (bytes_of k, i)) keyword_list) key of
              Some i \<Rightarrow> i | None \<Rightarrow> TK_IDENTIFIER)" if key: "0 \<notin> set key" for key
  proof -
    obtain r where r: "tbl_GetStr sv rv t key = Some r"
      "case r of Some v \<Rightarrow> \<exists>p w. sv p = key \<and> table_map t (OString p) = Some w \<and> v = rv w
       | None \<Rightarrow> \<forall>p. sv p = key \<longrightarrow> table_map t (OString p) = None"
      using tbl_GetStr_ok [OF t(2) named key] by blast
    show ?thesis
    proof (cases r)
      case (Some v)
      with r(2) tm obtain p k i where "sv p = key" "(k, i) \<in> set keyword_list" "p = intern (bytes_of k)"
        "v = rv (OInteger i)" by fastforce
      then have "map_of (map (\<lambda>(k, i). (bytes_of k, i)) keyword_list) key = Some i" "v = OInteger i"
        using mo int' rv by auto
      with r(1) Some show ?thesis by (simp add: GetIDType_def)
    next
      case None
      have "map_of (map (\<lambda>(k, i). (bytes_of k, i)) keyword_list) key \<noteq> Some i" for i
      proof
        assume "map_of (map (\<lambda>(k, i). (bytes_of k, i)) keyword_list) key = Some i"
        then obtain k where k: "(k, i) \<in> set keyword_list" "bytes_of k = key" using mo by auto
        then have "table_map t (OString (intern key)) = Some (OInteger i)" using tm by fastforce
        moreover have "sv (intern key) = key" using int' k by auto
        ultimately show False using None r(2) by simp
      qed
      then have "map_of (map (\<lambda>(k, i). (bytes_of k, i)) keyword_list) key = None"
        by (cases "map_of (map (\<lambda>(k, i). (bytes_of k, i)) keyword_list) key") blast+
      with None r(1) show ?thesis by (simp add: GetIDType_def)
    qed
  qed
  with t(1) show ?thesis by blast
qed

text \<open>An interning: the address of a keyword is its position in the keyword list.\<close>

definition sample_pool :: "sqchar list list" where
  "sample_pool = map (\<lambda>(k, i). bytes_of k) keyword_list"

definition sample_intern :: "sqchar list \<Rightarrow> addr" where
  "sample_intern b = word_of_nat (length (takeWhile (\<lambda>x. x \<noteq> b) sample_pool))"

definition sample_strval :: "addr \<Rightarrow> sqchar list" where
  "sample_strval a = (if unat a < length sample_pool then sample_pool ! unat a else [])"

lemma sample_interns: "interns sample_intern sample_strval (\<lambda>a. hashstr (sample_strval a))"
proof -
  have "sample_strval (sample_intern b) = b" if "b \<in> set sample_pool" for b
  proof -
    let ?n = "length (takeWhile (\<lambda>x. x \<noteq> b) sample_pool)"
    have l: "length sample_pool = 39" by (simp add: sample_pool_def keyword_list_def)
    have n: "?n < length sample_pool"
      using that by (metis (mono_tags) length_takeWhile_le le_neq_implies_less takeWhile_eq_take
          take_all_iff le_refl takeWhile_eq_all_conv)
    then have "sample_pool ! ?n = b" using nth_length_takeWhile [OF n] by simp
    moreover have "unat (sample_intern b) = ?n"
      using n l by (simp add: sample_intern_def unat_of_nat)
    ultimately show ?thesis using n by (simp add: sample_strval_def)
  qed
  then show ?thesis by (force simp: interns_def list_all_iff sample_pool_def)
qed

theorem GetIDType_keywords_witness:
  "\<exists>t. keyword_table (HashObj (\<lambda>a. hashstr (sample_strval a))) sample_intern = Some t \<and>
    GetIDType sample_strval id t (bytes_of ''while'') = Some TK_WHILE \<and>
    GetIDType sample_strval id t (bytes_of ''script'') = Some TK_FUNCTION \<and>
    GetIDType sample_strval id t (bytes_of ''whale'') = Some TK_IDENTIFIER"
proof -
  obtain t where t: "keyword_table (HashObj (\<lambda>a. hashstr (sample_strval a))) sample_intern = Some t"
    "\<And>key. 0 \<notin> set key \<Longrightarrow> GetIDType sample_strval id t key =
      Some (case map_of (map (\<lambda>(k, i). (bytes_of k, i)) keyword_list) key of
              Some i \<Rightarrow> i | None \<Rightarrow> TK_IDENTIFIER)"
    using GetIDType_keywords [OF sample_interns, of id] by auto
  have "0 \<notin> set (bytes_of ''while'')" "0 \<notin> set (bytes_of ''script'')" "0 \<notin> set (bytes_of ''whale'')"
    by code_simp+
  moreover have "map_of (map (\<lambda>(k, i). (bytes_of k, i)) keyword_list) (bytes_of ''while'') = Some TK_WHILE"
    "map_of (map (\<lambda>(k, i). (bytes_of k, i)) keyword_list) (bytes_of ''script'') = Some TK_FUNCTION"
    "map_of (map (\<lambda>(k, i). (bytes_of k, i)) keyword_list) (bytes_of ''whale'') = None"
    by code_simp+
  ultimately show ?thesis using t by auto
qed

subsection \<open>An error that is never raised\<close>

lemma NEXT_error: "NEXT s \<noteq> Inl (''invalid numeric format'', s')"
  by (auto simp: NEXT_def Next_def Let_def)

lemma read_while_error: "read_while P s \<noteq> Inl (''invalid numeric format'', s')"
proof (induction P s rule: read_while.induct)
  case (1 P s)
  show ?case
  proof (cases "currdata s \<noteq> 0 \<and> P (currdata s)")
    case True
    then have "read_while P s = ebind (NEXT (APPEND_CHAR (currdata s) s)) (read_while P)"
      by (simp add: read_while.simps [of P s])
    with 1 [OF True] NEXT_error show ?thesis by (cases "NEXT (APPEND_CHAR (currdata s) s)") auto
  qed (auto simp: read_while.simps [of P s])
qed

lemma number_exponent_error: "number_exponent TFLOAT s \<noteq> Inl (''invalid numeric format'', s')"
  using NEXT_error
  by (auto simp: number_exponent_def ebind_def split: sum.splits if_splits)

lemma ReadNumber_loop_error: "ReadNumber_loop type s \<noteq> Inl (''invalid numeric format'', s')"
proof (induction type s rule: ReadNumber_loop.induct)
  case (1 type s)
  show ?case
  proof (cases "currdata s = 46 \<or> scisdigit (currdata s) \<or> isexponent (currdata s)")
    case False
    then show ?thesis by (auto simp: ReadNumber_loop.simps [of type s])
  next
    case True
    define t1 where "t1 = (if currdata s = 46 \<or> isexponent (currdata s) then TFLOAT else type)"
    define m where "m = (if isexponent (currdata s)
      then ebind (number_exponent t1 s) (\<lambda>s1. Inr (TSCIENTIFIC, s1)) else Inr (t1, s))"
    have eq: "ReadNumber_loop type s =
        ebind m (\<lambda>(t2, s1). ebind (NEXT (APPEND_CHAR (currdata s1) s1)) (\<lambda>s2. ReadNumber_loop t2 s2))"
      using True unfolding ReadNumber_loop.simps [of type s] Let_def m_def t1_def by (simp only: if_True)
    have "m \<noteq> Inl (''invalid numeric format'', s')"
      using number_exponent_error [of s s']
      by (cases "number_exponent TFLOAT s") (auto simp: m_def t1_def)
    moreover have "ReadNumber_loop t2 s2 \<noteq> Inl (''invalid numeric format'', s')"
      if "m = Inr (t2, s1)" "NEXT (APPEND_CHAR (currdata s1) s1) = Inr s2" for t2 s1 s2
      using 1 [OF True t1_def _ refl that(2)] that(1) unfolding m_def by blast
    ultimately show ?thesis
      unfolding eq using NEXT_error
      by (auto simp: ebind_def split: sum.splits)
  qed
qed

text \<open>
  The check for a second exponent is dead code: no text makes \<^verbatim>\<open>ReadNumber\<close> raise
  "invalid numeric format", because the type is set to float just before it is tested; a
  numeral such as \<^verbatim>\<open>1e2e3\<close> is one token with the value of its prefix \<^verbatim>\<open>1e2\<close>.
\<close>

theorem numeric_format_error_unreachable:
  "ReadNumber s \<noteq> Inl (''invalid numeric format'', s') \<and>
   (case ReadNumber (blank_lexer [49, 101, 50, 101, 51, 59]) of
      Inr (t, s1) \<Rightarrow> t = TK_FLOAT \<and> fvalue s1 = int_to_float 100 \<and> currdata s1 = 59 | Inl _ \<Rightarrow> False)"
proof
  have digits: "ReadNumber_digits c s1 \<noteq> Inl (''invalid numeric format'', s')" for c s1
    using NEXT_error read_while_error ReadNumber_loop_error
    by (auto simp: ReadNumber_digits_def ebind_def split: sum.splits)
  have "ReadNumber_value x \<noteq> Inl (''invalid numeric format'', s')" for x
    by (auto simp: ReadNumber_value_def Let_def split: numtype.splits option.splits prod.splits)
  then show "ReadNumber s \<noteq> Inl (''invalid numeric format'', s')"
    using NEXT_error digits
    by (auto simp: ReadNumber_def ReadNumber_rest_def ebind_def Let_def split: sum.splits)
qed code_simp

end
