(* ===== verification/Sq_Operators.thy ===== *)
theory Sq_Operators
  imports Sq_Float "HOL-Library.Signed_Division"
begin

text \<open>
  The operators of the virtual machine (\<^verbatim>\<open>sqvm.cpp\<close>): arithmetic, bitwise operators,
  negation, comparison, equality, truth, conversion to strings and concatenation.

  What an operator needs of the rest of the machine is the record \<open>vm_env\<close>: the lookup of a
  metamethod of an object that has a delegate, the call of a metamethod (\<^verbatim>\<open>Push\<close> of the
  arguments and \<^verbatim>\<open>CallMetaMethod\<close>, which runs script code and may change the machine state
  \<open>'st\<close> arbitrarily), the bytes of a string object, the creation of a string, and the
  formats \<^verbatim>\<open>%g\<close>, \<^verbatim>\<open>%.14g\<close> and \<^verbatim>\<open>%p\<close> of \<^verbatim>\<open>printf\<close>.

  An operator returns the new state and \<open>Inr\<close> of its result, or \<open>Inl\<close> of an error: \<open>Raise\<close>
  with the message it raised, \<open>Callee\<close> when a metamethod failed, \<open>Trap\<close> when the machine
  instruction traps (the division of the smallest integer by -1 on x86-64, undefined in C++).
  Signed overflow of addition, subtraction, multiplication and negation wraps; a shift by an
  amount outside 0..63, undefined in C++, uses its low six bits as the x86-64 instructions do.
\<close>

datatype vmerr = Raise "sqchar list" | Callee | Trap

type_synonym ('st, 'a) vres = "'st \<times> (vmerr + 'a)"

record 'st vm_env =
  env_mm :: "'st \<Rightarrow> sqobject \<Rightarrow> nat \<Rightarrow> sqobject option"
  env_call :: "sqobject \<Rightarrow> nat \<Rightarrow> sqobject list \<Rightarrow> 'st \<Rightarrow> 'st \<times> sqobject option"
  env_str :: "'st \<Rightarrow> addr \<Rightarrow> sqchar list"
  env_mkstr :: "sqchar list \<Rightarrow> 'st \<Rightarrow> 'st \<times> addr"
  env_fmtg :: "sqfloat \<Rightarrow> sqchar list"
  env_fmtg14 :: "sqfloat \<Rightarrow> sqchar list"
  env_fmtp :: "64 word \<Rightarrow> sqchar list"

text \<open>The metamethod numbers (\<^verbatim>\<open>SQMetaMethod\<close>).\<close>

definition MT_ADD :: nat where "MT_ADD = 0"
definition MT_SUB :: nat where "MT_SUB = 1"
definition MT_MUL :: nat where "MT_MUL = 2"
definition MT_DIV :: nat where "MT_DIV = 3"
definition MT_UNM :: nat where "MT_UNM = 4"
definition MT_MODULO :: nat where "MT_MODULO = 5"
definition MT_SET :: nat where "MT_SET = 6"
definition MT_GET :: nat where "MT_GET = 7"
definition MT_TYPEOF :: nat where "MT_TYPEOF = 8"
definition MT_NEXTI :: nat where "MT_NEXTI = 9"
definition MT_CMP :: nat where "MT_CMP = 10"
definition MT_CALL :: nat where "MT_CALL = 11"
definition MT_CLONED :: nat where "MT_CLONED = 12"
definition MT_NEWSLOT :: nat where "MT_NEWSLOT = 13"
definition MT_DELSLOT :: nat where "MT_DELSLOT = 14"
definition MT_TOSTRING :: nat where "MT_TOSTRING = 15"
definition MT_NEWMEMBER :: nat where "MT_NEWMEMBER = 16"
definition MT_INHERITED :: nat where "MT_INHERITED = 17"

text \<open>A metamethod call as an operator uses it.\<close>

definition call_mm ::
  "'st vm_env \<Rightarrow> sqobject \<Rightarrow> nat \<Rightarrow> sqobject list \<Rightarrow> 'st \<Rightarrow> ('st, sqobject) vres" where
  "call_mm env closure mm args st =
     (let (st1, r) = env_call env closure mm args st
      in (st1, case r of Some v \<Rightarrow> Inr v | None \<Rightarrow> Inl Callee))"

definition quoted :: "sqchar list \<Rightarrow> sqchar list" where
  "quoted s = 39 # s @ [39]"

definition type_bytes :: "sqobject \<Rightarrow> sqchar list" where
  "type_bytes o1 = bytes_of (GetTypeName o1)"

subsection \<open>Strings of values\<close>

definition ToString :: "'st vm_env \<Rightarrow> sqobject \<Rightarrow> 'st \<Rightarrow> ('st, sqobject) vres" where
  "ToString env ob st =
     (let mk = (\<lambda>s st. let (st1, a) = env_mkstr env s st in (st1, Inr (OString a)));
          dflt = (\<lambda>st. mk (bytes_of ''('' @ type_bytes ob @ bytes_of '' : 0x'' @ env_fmtp env (rawval ob) @ bytes_of '')'') st)
      in case ob of
           OString a \<Rightarrow> (st, Inr ob)
         | OFloat f \<Rightarrow> mk (env_fmtg env f) st
         | OInteger i \<Rightarrow> mk (print_int i) st
         | OBool b \<Rightarrow> mk (bytes_of (if b then ''true'' else ''false'')) st
         | ONull \<Rightarrow> mk (bytes_of ''null'') st
         | _ \<Rightarrow>
             if is_delegable ob then
               (case env_mm env st ob MT_TOSTRING of
                  Some closure \<Rightarrow>
                    (let (st1, r) = call_mm env closure MT_TOSTRING [ob] st in
                     case r of
                       Inr v \<Rightarrow> if sq_type v = OT_STRING then (st1, Inr v) else dflt st1
                     | Inl e \<Rightarrow> (st1, Inl e))
                | None \<Rightarrow> dflt st)
             else dflt st)"

fun str_addr :: "sqobject \<Rightarrow> addr" where
  "str_addr (OString a) = a"
| "str_addr x = rawval x"

definition StringCat :: "'st vm_env \<Rightarrow> sqobject \<Rightarrow> sqobject \<Rightarrow> 'st \<Rightarrow> ('st, sqobject) vres" where
  "StringCat env str ob st =
     (let (st1, ra) = ToString env str st in
      case ra of
        Inl e \<Rightarrow> (st1, Inl e)
      | Inr a \<Rightarrow>
          (let (st2, rb) = ToString env ob st1 in
           case rb of
             Inl e \<Rightarrow> (st2, Inl e)
           | Inr b \<Rightarrow>
               (let (st3, c) = env_mkstr env (env_str env st2 (str_addr a) @ env_str env st2 (str_addr b)) st2
                in (st3, Inr (OString c)))))"

definition TypeOf :: "'st vm_env \<Rightarrow> sqobject \<Rightarrow> 'st \<Rightarrow> ('st, sqobject) vres" where
  "TypeOf env obj1 st =
     (let dflt = (let (st1, a) = env_mkstr env (type_bytes obj1) st in (st1, Inr (OString a)))
      in if is_delegable obj1 then
           (case env_mm env st obj1 MT_TYPEOF of
              Some closure \<Rightarrow> call_mm env closure MT_TYPEOF [obj1] st
            | None \<Rightarrow> dflt)
         else dflt)"

definition PrintObjVal :: "'st vm_env \<Rightarrow> 'st \<Rightarrow> sqobject \<Rightarrow> sqchar list" where
  "PrintObjVal env st ob =
     (case ob of
        OString a \<Rightarrow> env_str env st a
      | OInteger i \<Rightarrow> print_int i
      | OFloat f \<Rightarrow> env_fmtg14 env f
      | _ \<Rightarrow> type_bytes ob)"

text \<open>The format \<^verbatim>\<open>%.50s\<close>.\<close>

definition fmt50s :: "sqchar list \<Rightarrow> sqchar list" where
  "fmt50s s = take 50 (takeWhile (\<lambda>c. c \<noteq> 0) s)"

definition Raise_IdxError :: "'st vm_env \<Rightarrow> 'st \<Rightarrow> sqobject \<Rightarrow> vmerr" where
  "Raise_IdxError env st ob =
     Raise (bytes_of ''the index '' @ quoted (fmt50s (PrintObjVal env st ob)) @ bytes_of '' does not exist'')"

definition Raise_CompareError :: "'st vm_env \<Rightarrow> 'st \<Rightarrow> sqobject \<Rightarrow> sqobject \<Rightarrow> vmerr" where
  "Raise_CompareError env st o1 o2 =
     Raise (bytes_of ''comparison between '' @ quoted (fmt50s (PrintObjVal env st o1)) @
            bytes_of '' and '' @ quoted (fmt50s (PrintObjVal env st o2)))"

subsection \<open>Arithmetic\<close>

definition min_int :: sqint where "min_int = 2 ^ 63"
definition INT_MIN :: sqint where "INT_MIN = - (2 ^ 31)"

definition int_div :: "sqint \<Rightarrow> sqint \<Rightarrow> vmerr + sqint" where
  "int_div i1 i2 =
     (if i1 = min_int \<and> i2 = - 1 then Inl Trap else Inr (word_of_int (sint i1 sdiv sint i2)))"

definition int_mod :: "sqint \<Rightarrow> sqint \<Rightarrow> vmerr + sqint" where
  "int_mod i1 i2 =
     (if i1 = min_int \<and> i2 = - 1 then Inl Trap else Inr (word_of_int (sint i1 smod sint i2)))"

definition int_arith :: "char \<Rightarrow> sqint \<Rightarrow> sqint \<Rightarrow> vmerr + sqint" where
  "int_arith op i1 i2 =
     (if op = CHR ''+'' then Inr (i1 + i2)
      else if op = CHR ''-'' then Inr (i1 - i2)
      else if op = CHR ''/'' then
        (if i2 = 0 then Inl (Raise (bytes_of ''division by zero''))
         else if i2 = - 1 \<and> i1 = INT_MIN then Inl (Raise (bytes_of ''integer overflow''))
         else int_div i1 i2)
      else if op = CHR ''*'' then Inr (i1 * i2)
      else if op = CHR ''%'' then
        (if i2 = 0 then Inl (Raise (bytes_of ''modulo by zero''))
         else if i2 = - 1 \<and> i1 = INT_MIN then Inr 0
         else int_mod i1 i2)
      else Inr 0xDEADBEEF)"

definition float_arith :: "char \<Rightarrow> sqfloat \<Rightarrow> sqfloat \<Rightarrow> sqfloat" where
  "float_arith op f1 f2 =
     (if op = CHR ''+'' then f_add f1 f2
      else if op = CHR ''-'' then f_sub f1 f2
      else if op = CHR ''/'' then f_div f1 f2
      else if op = CHR ''*'' then f_mul f1 f2
      else if op = CHR ''%'' then f_mod f1 f2
      else int_to_float 0x0F)"

text \<open>\<^verbatim>\<open>switch(sq_type(o1) | sq_type(o2))\<close>: the tag bits of the two operands are joined.\<close>

datatype tmask = TM_int | TM_float | TM_other

definition type_mask :: "sqobject \<Rightarrow> sqobject \<Rightarrow> tmask" where
  "type_mask o1 o2 =
     (let m = ot_code (sq_type o1) OR ot_code (sq_type o2) in
      if m = ot_code OT_INTEGER then TM_int
      else if m = (ot_code OT_FLOAT OR ot_code OT_INTEGER) \<or> m = ot_code OT_FLOAT then TM_float
      else TM_other)"

definition arith_mm :: "char \<Rightarrow> nat" where
  "arith_mm op =
     (if op = CHR ''-'' then MT_SUB else if op = CHR ''/'' then MT_DIV
      else if op = CHR ''*'' then MT_MUL else if op = CHR ''%'' then MT_MODULO else MT_ADD)"

definition ArithMetaMethod ::
  "'st vm_env \<Rightarrow> char \<Rightarrow> sqobject \<Rightarrow> sqobject \<Rightarrow> 'st \<Rightarrow> ('st, sqobject) vres" where
  "ArithMetaMethod env op o1 o2 st =
     (case (if is_delegable o1 then env_mm env st o1 (arith_mm op) else None) of
        Some closure \<Rightarrow> call_mm env closure (arith_mm op) [o1, o2] st
      | None \<Rightarrow> (st, Inl (Raise (bytes_of ''arith op '' @ [of_char op] @ bytes_of '' on between '' @
                   quoted (type_bytes o1) @ bytes_of '' and '' @ quoted (type_bytes o2)))))"

definition ARITH_OP ::
  "'st vm_env \<Rightarrow> char \<Rightarrow> sqobject \<Rightarrow> sqobject \<Rightarrow> 'st \<Rightarrow> ('st, sqobject) vres" where
  "ARITH_OP env op o1 o2 st =
     (case type_mask o1 o2 of
        TM_int \<Rightarrow> (st, map_sum id OInteger (int_arith op (rawval o1) (rawval o2)))
      | TM_float \<Rightarrow> (st, Inr (OFloat (float_arith op (tofloat o1) (tofloat o2))))
      | TM_other \<Rightarrow>
          if op = CHR ''+'' \<and> (sq_type o1 = OT_STRING \<or> sq_type o2 = OT_STRING)
          then StringCat env o1 o2 st
          else ArithMetaMethod env op o1 o2 st)"

text \<open>The macros \<^verbatim>\<open>_ARITH_\<close> and \<^verbatim>\<open>_ARITH_NOZERO\<close> of the instructions \<^verbatim>\<open>_OP_ADD\<close>,
  \<^verbatim>\<open>_OP_SUB\<close>, \<^verbatim>\<open>_OP_MUL\<close> and \<^verbatim>\<open>_OP_DIV\<close>: the integer and float cases are open-coded.\<close>

definition ARITH_macro ::
  "'st vm_env \<Rightarrow> char \<Rightarrow> sqobject \<Rightarrow> sqobject \<Rightarrow> 'st \<Rightarrow> ('st, sqobject) vres" where
  "ARITH_macro env op o1 o2 st =
     (case type_mask o1 o2 of
        TM_int \<Rightarrow> (st, Inr (OInteger
          (if op = CHR ''+'' then rawval o1 + rawval o2
           else if op = CHR ''-'' then rawval o1 - rawval o2 else rawval o1 * rawval o2)))
      | TM_float \<Rightarrow> (st, Inr (OFloat
          (if op = CHR ''+'' then f_add (tofloat o1) (tofloat o2)
           else if op = CHR ''-'' then f_sub (tofloat o1) (tofloat o2)
           else f_mul (tofloat o1) (tofloat o2))))
      | TM_other \<Rightarrow> ARITH_OP env op o1 o2 st)"

definition ARITH_NOZERO ::
  "'st vm_env \<Rightarrow> sqobject \<Rightarrow> sqobject \<Rightarrow> 'st \<Rightarrow> ('st, sqobject) vres" where
  "ARITH_NOZERO env o1 o2 st =
     (case type_mask o1 o2 of
        TM_int \<Rightarrow> (st, if rawval o2 = 0 then Inl (Raise (bytes_of ''division by zero''))
                      else map_sum id OInteger (int_div (rawval o1) (rawval o2)))
      | TM_float \<Rightarrow> (st, Inr (OFloat (f_div (tofloat o1) (tofloat o2))))
      | TM_other \<Rightarrow> ARITH_OP env CHR ''/'' o1 o2 st)"

text \<open>
  The arithmetic instructions: the new value of the target register, \<open>Inl\<close> when control goes
  to the exception handler.  \<^verbatim>\<open>_OP_MOD\<close> calls \<^verbatim>\<open>ARITH_OP\<close> without \<^verbatim>\<open>_GUARD\<close>: when
  it fails the target keeps its value \<open>old\<close> and execution goes on.
\<close>

datatype arith_instr = OP_ADD | OP_SUB | OP_MUL | OP_DIV | OP_MOD

definition exec_arith ::
  "'st vm_env \<Rightarrow> arith_instr \<Rightarrow> sqobject \<Rightarrow> sqobject \<Rightarrow> sqobject \<Rightarrow> 'st \<Rightarrow> ('st, sqobject) vres" where
  "exec_arith env i old o1 o2 st =
     (case i of
        OP_ADD \<Rightarrow> ARITH_macro env CHR ''+'' o1 o2 st
      | OP_SUB \<Rightarrow> ARITH_macro env CHR ''-'' o1 o2 st
      | OP_MUL \<Rightarrow> ARITH_macro env CHR ''*'' o1 o2 st
      | OP_DIV \<Rightarrow> ARITH_NOZERO env o1 o2 st
      | OP_MOD \<Rightarrow> (let (st1, r) = ARITH_OP env CHR ''%'' o1 o2 st in
           (st1, case r of Inr v \<Rightarrow> Inr v | Inl Trap \<Rightarrow> Inl Trap | Inl _ \<Rightarrow> Inr old)))"

subsection \<open>Bitwise operators and negation\<close>

datatype bwop = BW_AND | BW_OR | BW_XOR | BW_SHIFTL | BW_SHIFTR | BW_USHIFTR | BW_invalid

definition shift_amount :: "sqint \<Rightarrow> nat" where
  "shift_amount i = unat (i AND 63)"

definition BW_OP :: "bwop \<Rightarrow> sqobject \<Rightarrow> sqobject \<Rightarrow> vmerr + sqobject" where
  "BW_OP op o1 o2 =
     (if ot_code (sq_type o1) OR ot_code (sq_type o2) = ot_code OT_INTEGER then
        (let i1 = rawval o1; i2 = rawval o2 in
         case op of
           BW_AND \<Rightarrow> Inr (OInteger (i1 AND i2))
         | BW_OR \<Rightarrow> Inr (OInteger (i1 OR i2))
         | BW_XOR \<Rightarrow> Inr (OInteger (i1 XOR i2))
         | BW_SHIFTL \<Rightarrow> Inr (OInteger (push_bit (shift_amount i2) i1))
         | BW_SHIFTR \<Rightarrow> Inr (OInteger (signed_drop_bit (shift_amount i2) i1))
         | BW_USHIFTR \<Rightarrow> Inr (OInteger (drop_bit (shift_amount i2) i1))
         | BW_invalid \<Rightarrow> Inl (Raise (bytes_of ''internal vm error bitwise op failed'')))
      else Inl (Raise (bytes_of ''bitwise op between '' @ quoted (type_bytes o1) @ bytes_of '' and '' @
                  quoted (type_bytes o2))))"

definition NEG_OP :: "'st vm_env \<Rightarrow> sqobject \<Rightarrow> 'st \<Rightarrow> ('st, sqobject) vres" where
  "NEG_OP env ob st =
     (case ob of
        OInteger i \<Rightarrow> (st, Inr (OInteger (- i)))
      | OFloat f \<Rightarrow> (st, Inr (OFloat (f_neg f)))
      | _ \<Rightarrow>
          (case (if is_delegable ob then env_mm env st ob MT_UNM else None) of
             Some closure \<Rightarrow> call_mm env closure MT_UNM [ob] st
           | None \<Rightarrow> (st, Inl (Raise (bytes_of ''attempt to negate a '' @ type_bytes ob)))))"

subsection \<open>Comparison\<close>

text \<open>The sign of \<^verbatim>\<open>strcmp\<close> of two C strings (unsigned bytes).\<close>

fun bytes_cmp :: "sqchar list \<Rightarrow> sqchar list \<Rightarrow> int" where
  "bytes_cmp [] [] = 0"
| "bytes_cmp [] (b # bs) = (if b = 0 then 0 else -1)"
| "bytes_cmp (a # as) [] = (if a = 0 then 0 else 1)"
| "bytes_cmp (a # as) (b # bs) =
     (if a \<noteq> b then (if unat a < unat b then -1 else 1) else if a = 0 then 0 else bytes_cmp as bs)"

text \<open>\<^verbatim>\<open>_float(o)\<close> of any object: the low half of the union.\<close>

definition raw_float :: "sqobject \<Rightarrow> sqfloat" where
  "raw_float ob = ucast (rawval ob)"

definition float_lt_result :: "sqfloat \<Rightarrow> sqfloat \<Rightarrow> int" where
  "float_lt_result a b = (if f_lt a b then -1 else 1)"

definition ObjCmp :: "'st vm_env \<Rightarrow> sqobject \<Rightarrow> sqobject \<Rightarrow> 'st \<Rightarrow> ('st, sqint) vres" where
  "ObjCmp env o1 o2 st =
     (let ret = (\<lambda>r. (st, Inr (word_of_int r)));
          ptr = ret (if unat (rawval o1) < unat (rawval o2) then -1 else 1)
      in if sq_type o1 = sq_type o2 then
        (if rawval o1 = rawval o2 then ret 0
         else (case o1 of
             OString a \<Rightarrow> ret (bytes_cmp (env_str env st a) (env_str env st (str_addr o2)))
           | OInteger i \<Rightarrow> ret (if sint i < sint (rawval o2) then -1 else 1)
           | OFloat f \<Rightarrow> ret (float_lt_result f (raw_float o2))
           | _ \<Rightarrow>
               (case (if is_delegable o1 then env_mm env st o1 MT_CMP else None) of
                  Some closure \<Rightarrow>
                    (let (st1, r) = call_mm env closure MT_CMP [o1, o2] st in
                     case r of
                       Inr (OInteger i) \<Rightarrow> (st1, Inr i)
                     | Inr _ \<Rightarrow> (st1, Inl (Raise (bytes_of ''_cmp must return an integer'')))
                     | Inl e \<Rightarrow> (st1, Inl e))
                | None \<Rightarrow> ptr)))
      else if sq_isnumeric o1 \<and> sq_isnumeric o2 then
        (let (a, b) = (if sq_type o1 = OT_INTEGER \<and> sq_type o2 = OT_FLOAT
                       then (int_to_float (rawval o1), raw_float o2)
                       else (raw_float o1, int_to_float (rawval o2)))
         in ret (if f_eq a b then 0 else float_lt_result a b))
      else if sq_type o1 = OT_NULL then ret (-1)
      else if sq_type o2 = OT_NULL then ret 1
      else (st, Inl (Raise_CompareError env st o1 o2)))"

datatype cmpop = CMP_G | CMP_GE | CMP_L | CMP_LE | CMP_3W

definition cmp_result :: "cmpop \<Rightarrow> sqint \<Rightarrow> sqobject" where
  "cmp_result op r =
     (case op of
        CMP_G \<Rightarrow> OBool (sint r > 0)
      | CMP_GE \<Rightarrow> OBool (sint r \<ge> 0)
      | CMP_L \<Rightarrow> OBool (sint r < 0)
      | CMP_LE \<Rightarrow> OBool (sint r \<le> 0)
      | CMP_3W \<Rightarrow> OInteger r)"

definition CMP_OP ::
  "'st vm_env \<Rightarrow> cmpop \<Rightarrow> sqobject \<Rightarrow> sqobject \<Rightarrow> 'st \<Rightarrow> ('st, sqobject) vres" where
  "CMP_OP env op o1 o2 st =
     (let (st1, r) = ObjCmp env o1 o2 st in (st1, map_sum id (cmp_result op) r))"

definition IsEqual :: "sqobject \<Rightarrow> sqobject \<Rightarrow> bool" where
  "IsEqual o1 o2 =
     (if sq_type o1 = sq_type o2 then
        (if sq_type o1 = OT_FLOAT then f_eq (raw_float o1) (raw_float o2) else rawval o1 = rawval o2)
      else if sq_isnumeric o1 \<and> sq_isnumeric o2 then f_eq (tofloat o1) (tofloat o2)
      else False)"

definition IsFalse :: "sqobject \<Rightarrow> bool" where
  "IsFalse ob \<longleftrightarrow>
     (canbefalse ob \<and> (sq_type ob = OT_FLOAT \<and> f_eq (raw_float ob) 0)) \<or> rawval ob = 0"

end
