(* ===== verification/Sq_Float_Order.thy ===== *)
theory Sq_Float_Order
  imports Sq_Float
begin

text \<open>
  The order of single precision numbers: rounding never produces a value that is not a
  number, comparison of numbers is the order of an integer key, and the key determines the
  number except for the sign of zero.
\<close>

subsection \<open>Bounds of rounding\<close>

lemma int_div_less:
  assumes "(0::int) < y" "x < y * z"
  shows "x div y < z"
proof (rule ccontr)
  assume "\<not> x div y < z"
  then have "y * z \<le> y * (x div y)" using assms(1) by simp
  moreover have "y * (x div y) + x mod y = x" by simp
  moreover have "0 \<le> x mod y" using assms(1) by simp
  ultimately show False using assms(2) by linarith
qed

lemma quo_at_less:
  assumes "0 < n" "0 < d" "bitlen n - bitlen d + 1 - e \<le> int k"
  shows "fst (quo_at n d e) < 2 ^ k" "0 \<le> fst (quo_at n d e)"
proof -
  have n: "n < 2 ^ nat (bitlen n)" "0 < bitlen n" using bitlen_bounds [OF assms(1)] by auto
  have d: "2 ^ nat (bitlen d - 1) \<le> d" "0 < bitlen d" using bitlen_bounds [OF assms(2)] by auto
  have "n * 2 ^ nat (- e) < 2 ^ nat (bitlen n) * 2 ^ nat (- e)" using n by simp
  also have "\<dots> = 2 ^ (nat (bitlen n) + nat (- e))" by (simp add: power_add)
  also have "\<dots> \<le> 2 ^ (k + (nat (bitlen d - 1) + nat e))"
    by (rule power_increasing) (use assms n d in arith, simp)
  also have "\<dots> = 2 ^ k * (2 ^ nat (bitlen d - 1) * 2 ^ nat e)" by (simp add: power_add)
  also have "\<dots> \<le> 2 ^ k * (d * 2 ^ nat e)" using d by simp
  finally have "n * 2 ^ nat (- e) < (d * 2 ^ nat e) * 2 ^ k" by (simp add: mult.commute)
  then have "n * 2 ^ nat (- e) div (d * 2 ^ nat e) < 2 ^ k"
    using assms(2) by (intro int_div_less) simp_all
  then show "fst (quo_at n d e) < 2 ^ k" by (simp add: quo_at_def Let_def)
  show "0 \<le> fst (quo_at n d e)"
    using assms by (simp add: quo_at_def Let_def pos_imp_zdiv_nonneg_iff)
qed

lemma rnd_bounds:
  assumes "0 < n" "0 < d" "0 < p" "rnd p emin n d = (q, e)"
  shows "0 \<le> q" "q < 2 ^ p" "emin \<le> e"
proof -
  define e0 where "e0 = bitlen n - bitlen d - int p"
  define e1 where "e1 = (if fst (quo_at n d e0) \<ge> 2 ^ p then e0 + 1 else e0)"
  define e' where "e' = max emin e1"
  obtain q0 r d' where qr: "quo_at n d e' = (q0, r, d')" by (metis prod_cases3)
  define q1 where "q1 = (if 2 * r > d' \<or> 2 * r = d' \<and> odd q0 then q0 + 1 else q0)"
  have R: "(q, e) = (if q1 \<ge> 2 ^ p then (q1 div 2, e' + 1) else (q1, e'))"
    unfolding assms(4) [symmetric] rnd_def Let_def e0_def [symmetric] e1_def [symmetric]
      e'_def [symmetric] qr case_prod_conv q1_def
    by (rule refl)
  have "fst (quo_at n d e') < 2 ^ p"
  proof (cases "e' = e0")
    case True
    then have "e1 = e0" unfolding e'_def e1_def by (auto split: if_splits)
    then have "fst (quo_at n d e0) < 2 ^ p" unfolding e1_def by (simp split: if_splits)
    with True show ?thesis by simp
  next
    case False
    then have "e' \<ge> e0 + 1" unfolding e'_def e1_def by (auto split: if_splits)
    then show ?thesis by (intro quo_at_less [OF assms(1,2)]) (simp add: e0_def)
  qed
  moreover have "0 \<le> fst (quo_at n d e')"
    using assms by (simp add: quo_at_def Let_def pos_imp_zdiv_nonneg_iff)
  ultimately have q0: "0 \<le> q0" "q0 < 2 ^ p" using qr by simp_all
  have e': "emin \<le> e'" by (simp add: e'_def)
  have q1: "0 \<le> q1" "q1 \<le> 2 ^ p" using q0 by (auto simp: q1_def)
  have "(0::int) < 2 ^ p" by simp
  then have h: "q1 div 2 < 2 ^ p" using q1 by linarith
  show "0 \<le> q" "q < 2 ^ p" "emin \<le> e"
    using R q1 e' h by (auto split: if_splits simp: pos_imp_zdiv_nonneg_iff)
qed

subsection \<open>Fields of packed numbers\<close>

lemma uint_pack:
  assumes "0 \<le> ex" "ex < 256" "0 \<le> man" "man < 2 ^ 23"
  shows "uint (f32_pack s ex man) = (if s then 2 ^ 31 else 0) + ex * 2 ^ 23 + man"
proof -
  have *: "uint (word_of_int x :: 32 word) = x" if "0 \<le> x" "x < 2 ^ 32" for x
    using that by (simp add: unsigned_of_int take_bit_int_eq_self)
  show ?thesis unfolding f32_pack_def by (rule *) (use assms in auto)
qed

lemma pack_fields:
  assumes "0 \<le> ex" "ex < 256" "0 \<le> man" "man < 2 ^ 23"
  shows "int (f32_exp (f32_pack s ex man)) = ex" "f32_man (f32_pack s ex man) = man"
proof -
  have "(if s then 2 ^ 31 else 0) + ex * 2 ^ 23 + man = man + ((if s then 256 else 0) + ex) * 2 ^ 23"
    by simp
  then have u: "uint (f32_pack s ex man) = man + ((if s then 256 else 0) + ex) * 2 ^ 23"
    using uint_pack [OF assms] by simp
  have "(man + ((if s then 256 else 0) + ex) * 2 ^ 23) div 2 ^ 23 = (if s then 256 else 0) + ex"
    using assms by (simp add: div_pos_pos_trivial)
  moreover have "((if s then 256 else 0) + ex) mod 256 = ex" using assms by simp
  ultimately show "int (f32_exp (f32_pack s ex man)) = ex" unfolding f32_exp_eq u by presburger
  show "f32_man (f32_pack s ex man) = man"
    unfolding f32_man_eq u mod_mult_self1 using assms by simp
qed

lemma not_nan_pack:
  assumes "0 \<le> ex" "ex < 255 \<or> ex = 255 \<and> man = 0" "0 \<le> man" "man < 2 ^ 23"
  shows "\<not> is_nan (f32_pack s ex man)"
proof -
  have "ex < 256" using assms by auto
  from pack_fields [OF assms(1) this assms(3,4), of s] assms show ?thesis
    unfolding is_nan_def by auto
qed

lemma round_not_nan:
  assumes "0 \<le> n" "0 < d"
  shows "\<not> is_nan (f32_round s n d)"
proof (cases "n = 0")
  case True
  then show ?thesis by (simp add: f32_round_def not_nan_pack)
next
  case False
  obtain q e where qe: "rnd 24 (-149) n d = (q, e)" by (metis surj_pair)
  have b: "0 \<le> q" "q < 2 ^ 24" "-149 \<le> e"
    using rnd_bounds [OF _ assms(2) _ qe] False assms by auto
  have "\<not> is_nan (f32_of_fin s q e)"
  proof (cases "q < 2 ^ 23 \<or> e > 104")
    case True
    with b show ?thesis
      using not_nan_pack [of 0 q s] not_nan_pack [of 255 0 s]
      unfolding f32_of_fin_def f32_inf_def by auto
  next
    case False
    with b show ?thesis
      using not_nan_pack [of "e + 150" "q - 2 ^ 23" s] unfolding f32_of_fin_def by simp
  qed
  with False qe show ?thesis by (simp add: f32_round_def)
qed

lemma int_to_float_not_nan: "\<not> is_nan (int_to_float i)"
  unfolding int_to_float_def by (rule round_not_nan) simp_all

subsection \<open>The order key\<close>

text \<open>The value of a number in units of the smallest subnormal; infinities are beyond every
  finite value.\<close>

definition f_key :: "sqfloat \<Rightarrow> int" where
  "f_key f =
     (case f32_decode f of
        FNaN \<Rightarrow> 0
      | FInf s \<Rightarrow> (if s then - (2 ^ 300) else 2 ^ 300)
      | FFin s m e \<Rightarrow> signed_man s m e (-149))"

lemma decode_nan: "f32_decode f = FNaN \<longleftrightarrow> is_nan f"
  by (simp add: f32_decode_def is_nan_def)

lemma decode_fin:
  "f32_decode f = FFin s m e \<Longrightarrow> 0 \<le> m \<and> m < 2 ^ 24 \<and> -149 \<le> e \<and> e \<le> 104"
  using f32_man_range [of f] f32_exp_range [of f]
  by (auto simp: f32_decode_def split: if_splits)

lemma signed_man_scale:
  assumes "-149 \<le> e0" "e0 \<le> e"
  shows "signed_man s m e (-149) = signed_man s m e e0 * 2 ^ nat (e0 + 149)"
proof -
  have "nat (e + 149) = nat (e - e0) + nat (e0 + 149)" using assms by arith
  then show ?thesis by (simp add: signed_man_def Let_def power_add)
qed

lemma signed_man_bound:
  assumes "f32_decode f = FFin s m e"
  shows "\<bar>signed_man s m e (-149)\<bar> < 2 ^ 300"
proof -
  note b = decode_fin [OF assms]
  have "(2::int) ^ nat (e + 149) \<le> 2 ^ 253" by (rule power_increasing) (use b in auto)
  then have "m * 2 ^ nat (e + 149) \<le> 2 ^ 24 * 2 ^ 253"
    using b by (intro mult_mono) auto
  also have "\<dots> < (2::int) ^ 300" by simp
  finally have "m * 2 ^ nat (e + 149) < 2 ^ 300" .
  then show ?thesis using b by (simp add: signed_man_def Let_def)
qed

lemma f_cmp_key:
  assumes "\<not> is_nan a" "\<not> is_nan b"
  shows "f_cmp a b = Some (sgn (f_key a - f_key b))"
proof (cases "f32_decode a")
  case FNaN
  with assms show ?thesis by (simp add: decode_nan)
next
  case (FInf s)
  show ?thesis
  proof (cases "f32_decode b")
    case FNaN
    with assms show ?thesis by (simp add: decode_nan)
  next
    case (FInf t)
    with \<open>f32_decode a = FInf s\<close> show ?thesis by (simp add: f_cmp_def f_key_def)
  next
    case (FFin t k g)
    from signed_man_bound [OF this] FFin \<open>f32_decode a = FInf s\<close> show ?thesis
      by (auto simp: f_cmp_def f_key_def sgn_if)
  qed
next
  case (FFin s m e)
  note A = this
  show ?thesis
  proof (cases "f32_decode b")
    case FNaN
    with assms show ?thesis by (simp add: decode_nan)
  next
    case (FInf t)
    from signed_man_bound [OF A] FInf A show ?thesis
      by (auto simp: f_cmp_def f_key_def sgn_if)
  next
    case (FFin t k g)
    let ?e0 = "min e g"
    have e0: "-149 \<le> ?e0" "?e0 \<le> e" "?e0 \<le> g"
      using decode_fin [OF A] decode_fin [OF FFin] by auto
    have "f_key a - f_key b =
        (signed_man s m e ?e0 - signed_man t k g ?e0) * 2 ^ nat (?e0 + 149)"
      using A FFin signed_man_scale [OF e0(1,2), of s m] signed_man_scale [OF e0(1,3), of t k]
      by (simp add: f_key_def left_diff_distrib)
    then have "sgn (f_key a - f_key b) = sgn (signed_man s m e ?e0 - signed_man t k g ?e0)"
      by (simp add: sgn_mult)
    with A FFin show ?thesis by (simp add: f_cmp_def Let_def)
  qed
qed

lemma f_eq_key: "\<not> is_nan a \<Longrightarrow> \<not> is_nan b \<Longrightarrow> f_eq a b \<longleftrightarrow> f_key a = f_key b"
  by (simp add: f_eq_def f_cmp_key sgn_if)

lemma f_lt_key: "\<not> is_nan a \<Longrightarrow> \<not> is_nan b \<Longrightarrow> f_lt a b \<longleftrightarrow> f_key a < f_key b"
  by (simp add: f_lt_def f_cmp_key sgn_if)

lemma rnd_scale:
  assumes "0 < n" "0 < d"
  shows "rnd p emin (n * 2 ^ j) (d * 2 ^ j) = rnd p emin n d"
proof -
  have q: "quo_at (n * 2 ^ j) (d * 2 ^ j) e =
      (case quo_at n d e of (a, r, d') \<Rightarrow> (a, r * 2 ^ j, d' * 2 ^ j))" for e
  proof -
    have "n * 2 ^ j * 2 ^ nat (- e) = (n * 2 ^ nat (- e)) * 2 ^ j"
      "d * 2 ^ j * 2 ^ nat e = (d * 2 ^ nat e) * 2 ^ j" by (simp_all add: mult.commute mult.left_commute)
    then show ?thesis by (simp only: quo_at_def Let_def) simp
  qed
  have b: "bitlen (n * 2 ^ j) - bitlen (d * 2 ^ j) = bitlen n - bitlen d"
    using assms by (simp add: bitlen_shift)
  have c: "2 * (r * 2 ^ j) > d' * 2 ^ j \<longleftrightarrow> 2 * r > d'" "2 * (r * 2 ^ j) = d' * 2 ^ j \<longleftrightarrow> 2 * r = d'"
    for r d' :: int by (simp_all add: mult.assoc [symmetric])
  have f: "fst (quo_at (n * 2 ^ j) (d * 2 ^ j) e) = fst (quo_at n d e)" for e
    by (simp add: q split: prod.split)
  show ?thesis
    unfolding rnd_def Let_def b f by (simp add: q c split: prod.split)
qed

lemma fin_of_key:
  assumes "f32_decode f = FFin s m e" "m \<noteq> 0"
  shows "f = f32_round (f_key f < 0) \<bar>f_key f\<bar> (2 ^ 149)"
proof -
  note b = decode_fin [OF assms(1)]
  have k: "\<bar>f_key f\<bar> = m * 2 ^ nat (e + 149)" "f_key f < 0 \<longleftrightarrow> s"
    using assms b by (auto simp: f_key_def signed_man_def Let_def mult_pos_pos mult_less_0_iff)
  have "m * 2 ^ nat (e + 149) = (m * 2 ^ nat e) * 2 ^ (149 - nat (- e))"
  proof -
    have "nat (e + 149) = nat e + (149 - nat (- e))" using b by arith
    then show ?thesis by (simp add: power_add)
  qed
  moreover have "(2::int) ^ 149 = 2 ^ nat (- e) * 2 ^ (149 - nat (- e))"
  proof -
    have "149 = nat (- e) + (149 - nat (- e))" using b by arith
    then show ?thesis by (metis power_add)
  qed
  moreover have "0 < m * 2 ^ nat e" using b assms(2) by simp
  ultimately have "rnd 24 (-149) (m * 2 ^ nat (e + 149)) (2 ^ 149) =
      rnd 24 (-149) (m * 2 ^ nat e) (2 ^ nat (- e))"
    using rnd_scale [of "m * 2 ^ nat e" "2 ^ nat (- e)" 24 "-149" "149 - nat (- e)"] by (simp only: ) simp
  then have "f32_round s (m * 2 ^ nat (e + 149)) (2 ^ 149) = f32_round_int s m e"
    using assms(2) unfolding f32_round_int_def f32_round_def by simp
  with f32_round_decode [OF assms(1)] k show ?thesis by simp
qed

definition f_zero :: "sqfloat \<Rightarrow> bool" where
  "f_zero f \<longleftrightarrow> f32_exp f = 0 \<and> f32_man f = 0"

lemma f_key_zero:
  assumes "\<not> is_nan f"
  shows "f_key f = 0 \<longleftrightarrow> f_zero f"
  using assms f32_man_range [of f]
  by (auto simp: f_key_def f_zero_def is_nan_def f32_decode_def signed_man_def Let_def split: if_splits)

lemma inf_of_key: "f32_decode f = FInf s \<Longrightarrow> f = f32_inf s"
  using f32_pack_fields [of f] by (auto simp: f32_decode_def f32_inf_def split: if_splits)

lemma f_key_inject:
  assumes "\<not> is_nan a" "\<not> is_nan b" "f_key a = f_key b" "\<not> f_zero a"
  shows "a = b"
proof -
  have nz: "f_key a \<noteq> 0" "f_key b \<noteq> 0" using assms(3,4) f_key_zero [OF assms(1)] by simp_all
  have fin: "(\<exists>s m e. f32_decode f = FFin s m e \<and> m \<noteq> 0 \<and> \<bar>f_key f\<bar> < 2 ^ 300) \<or>
     (\<exists>s. f32_decode f = FInf s \<and> f_key f = (if s then - (2 ^ 300) else 2 ^ 300))"
    if "\<not> is_nan f" "f_key f \<noteq> 0" for f
  proof (cases "f32_decode f")
    case FNaN
    with that show ?thesis by (simp add: decode_nan)
  next
    case (FInf s)
    then show ?thesis by (simp add: f_key_def)
  next
    case (FFin s m e)
    have "m \<noteq> 0"
    proof
      assume "m = 0"
      with FFin have "f_key f = 0" by (simp add: f_key_def signed_man_def)
      with that show False by simp
    qed
    with signed_man_bound [OF FFin] FFin show ?thesis by (simp add: f_key_def)
  qed
  from fin [OF assms(1) nz(1)] show ?thesis
  proof (elim disjE exE conjE)
    fix s m e assume A: "f32_decode a = FFin s m e" "m \<noteq> 0" "\<bar>f_key a\<bar> < 2 ^ 300"
    with fin [OF assms(2) nz(2)] assms(3) obtain t k g where "f32_decode b = FFin t k g" "k \<noteq> 0"
      by (auto split: if_splits)
    from fin_of_key [OF this] fin_of_key [OF A(1,2)] assms(3) show ?thesis by simp
  next
    fix s assume A: "f32_decode a = FInf s" "f_key a = (if s then - (2 ^ 300) else 2 ^ 300)"
    with fin [OF assms(2) nz(2)] assms(3) obtain t where "f32_decode b = FInf t" "t = s"
      by (auto split: if_splits)
    with inf_of_key [of a s] inf_of_key [of b t] A show ?thesis by simp
  qed
qed

end
