(* ===== verification/Sq_Operators_Correct.thy ===== *)
theory Sq_Operators_Correct
  imports Sq_Operators Sq_Float_Order
begin

text \<open>
  Properties of the operators: the division law of the integer instructions and the exact
  set of operands on which they trap, the ordering of numbers and its exceptions.
\<close>

subsection \<open>Integer division\<close>

lemma type_mask_int [simp]: "type_mask (OInteger a) (OInteger b) = TM_int"
  by (simp add: type_mask_def)

lemma sint_min_int: "sint (a :: sqint) = - (2 ^ 63) \<longleftrightarrow> a = min_int"
proof -
  have "sint min_int = - (2 ^ 63)" by (simp add: min_int_def)
  then show ?thesis by (metis sint_inject)
qed

lemma sdiv_range_64:
  assumes "b \<noteq> 0" "\<not> (a = min_int \<and> b = - 1)"
  shows "- (2 ^ 63) \<le> sint a sdiv sint (b :: sqint)" "sint a sdiv sint b < 2 ^ 63"
proof -
  have r: "- (2 ^ 63) \<le> sint a" "sint a < 2 ^ 63" by (rule sint_range_64)+
  have q: "- \<bar>sint a\<bar> \<le> sint a sdiv sint b" "sint a sdiv sint b \<le> \<bar>sint a\<bar>"
    using sdiv_int_range [of "sint a" "sint b"] by simp_all
  show "- (2 ^ 63) \<le> sint a sdiv sint b" using q r by linarith
  show "sint a sdiv sint b < 2 ^ 63"
  proof (rule ccontr)
    assume "\<not> sint a sdiv sint b < 2 ^ 63"
    with q r have a: "sint a = - (2 ^ 63)" "sint a sdiv sint b = - sint a" by linarith+
    then have "sint b = - 1" using int_sdiv_negated_is_minus1 [of "sint a" "sint b"] by simp
    with a assms show False by (simp only: sint_min_int sint_minus_one_iff) simp
  qed
qed

lemma smod_range_64:
  assumes "b \<noteq> 0"
  shows "- (2 ^ 63) \<le> sint a smod sint (b :: sqint)" "sint a smod sint b < 2 ^ 63"
proof -
  have "sint b \<noteq> 0" using assms by (simp only: sint_zero_iff) simp
  from smod_int_range [OF this, of "sint a"] sint_range_64 [of b]
  show "- (2 ^ 63) \<le> sint a smod sint b" "sint a smod sint b < 2 ^ 63" by auto
qed

lemma smod_sgn: "(a :: int) smod b \<noteq> 0 \<Longrightarrow> sgn (a smod b) = sgn a"
proof -
  have "0 \<le> \<bar>a\<bar> mod \<bar>b\<bar>" by (cases "b = 0") simp_all
  then show "a smod b \<noteq> 0 \<Longrightarrow> sgn (a smod b) = sgn a"
    unfolding smod_int_alt_def by (auto simp: sgn_mult sgn_if split: if_splits)
qed

lemma exec_div_int:
  "b \<noteq> 0 \<Longrightarrow> \<not> (a = min_int \<and> b = - 1) \<Longrightarrow>
   exec_arith env OP_DIV old (OInteger a) (OInteger b) st =
     (st, Inr (OInteger (word_of_int (sint a sdiv sint b))))"
  by (simp add: exec_arith_def ARITH_NOZERO_def int_div_def)

lemma exec_mod_int:
  assumes "b \<noteq> 0" "\<not> (a = min_int \<and> b = - 1)"
  shows "exec_arith env OP_MOD old (OInteger a) (OInteger b) st =
     (st, Inr (OInteger (word_of_int (sint a smod sint b))))"
proof (cases "b = - 1 \<and> a = INT_MIN")
  case True
  then have "sint b = - 1" by simp
  then have "sint a smod sint b = 0" by (simp add: smod_int_alt_def)
  with True assms show ?thesis
    by (simp add: exec_arith_def ARITH_OP_def int_arith_def)
next
  case False
  with assms show ?thesis
    by (auto simp add: exec_arith_def ARITH_OP_def int_arith_def int_mod_def)
qed

text \<open>C14. The instructions \<^verbatim>\<open>_OP_DIV\<close> and \<^verbatim>\<open>_OP_MOD\<close> on two integers, for a divisor other
  than 0 and operands other than the smallest integer and -1: both return, leave the machine
  state alone, and quotient and remainder satisfy the division law of truncating division --
  the dividend is the quotient times the divisor plus the remainder, the remainder is smaller
  than the divisor in absolute value and has the sign of the dividend or is 0.\<close>

theorem integer_division_law:
  assumes "b \<noteq> 0" "\<not> (a = min_int \<and> b = - 1)"
  shows "\<exists>q r.
    exec_arith env OP_DIV old (OInteger a) (OInteger b) st = (st, Inr (OInteger q)) \<and>
    exec_arith env OP_MOD old (OInteger a) (OInteger b) st = (st, Inr (OInteger r)) \<and>
    sint a = sint q * sint b + sint r \<and> \<bar>sint r\<bar> < \<bar>sint b\<bar> \<and> (r = 0 \<or> sgn (sint r) = sgn (sint a))"
proof -
  let ?q = "word_of_int (sint a sdiv sint b) :: sqint"
  let ?r = "word_of_int (sint a smod sint b) :: sqint"
  have q: "sint ?q = sint a sdiv sint b"
    by (rule sint_word_of_int_64) (rule sdiv_range_64 [OF assms])+
  have r: "sint ?r = sint a smod sint b"
    by (rule sint_word_of_int_64) (rule smod_range_64 [OF assms(1)])+
  have b0: "sint b \<noteq> 0" using assms(1) by (simp only: sint_zero_iff) simp
  have 1: "sint a = sint ?q * sint b + sint ?r"
    unfolding q r by (rule sdiv_mult_smod_eq [symmetric])
  have 2: "\<bar>sint ?r\<bar> < \<bar>sint b\<bar>"
    unfolding r using smod_int_range [OF b0, of "sint a"] by auto
  have 3: "?r = 0 \<or> sgn (sint ?r) = sgn (sint a)"
    unfolding sint_zero_iff [symmetric] r using smod_sgn by blast
  show ?thesis
    using exec_div_int [OF assms, of env old st] exec_mod_int [OF assms, of env old st] 1 2 3
    by blast
qed

theorem integer_division_law_witness:
  "\<exists>q r. exec_arith (undefined :: nat vm_env) OP_DIV ONull (OInteger (- 7)) (OInteger 2) 0 = (0, Inr (OInteger q)) \<and>
     exec_arith (undefined :: nat vm_env) OP_MOD ONull (OInteger (- 7)) (OInteger 2) 0 = (0, Inr (OInteger r)) \<and>
     sint (- 7 :: sqint) = sint q * sint (2 :: sqint) + sint r \<and> \<bar>sint r\<bar> < \<bar>sint (2 :: sqint)\<bar> \<and>
     (r = 0 \<or> sgn (sint r) = sgn (sint (- 7 :: sqint)))"
  by (rule integer_division_law) (simp_all add: min_int_def)

subsection \<open>The order of numbers\<close>

definition sq_number :: "sqobject \<Rightarrow> bool" where
  "sq_number x = (case x of OInteger _ \<Rightarrow> True | OFloat f \<Rightarrow> \<not> is_nan f | _ \<Rightarrow> False)"

definition distinct_zeros :: "sqobject \<Rightarrow> sqobject \<Rightarrow> bool" where
  "distinct_zeros x y =
     (case x of OFloat f \<Rightarrow> (case y of OFloat g \<Rightarrow> f \<noteq> g \<and> f_zero f \<and> f_zero g | _ \<Rightarrow> False) | _ \<Rightarrow> False)"

lemma raw_float_OFloat [simp]: "raw_float (OFloat f) = f"
  by (simp add: raw_float_def ucast_up_ucast_id is_up)

lemma tofloat_simps [simp]:
  "tofloat (OInteger i) = int_to_float i" "tofloat (OFloat f) = f"
  by (simp_all add: tofloat_def ucast_up_ucast_id is_up)

definition sgn_cmp :: "int \<Rightarrow> int \<Rightarrow> sqint" where
  "sgn_cmp a b = (if a < b then - 1 else if a = b then 0 else 1)"

lemma ObjCmp_int_int: "ObjCmp env (OInteger i) (OInteger j) st = (st, Inr (sgn_cmp (sint i) (sint j)))"
proof -
  have "i = j \<longleftrightarrow> sint i = sint j" by (auto dest: sint_inject)
  then show ?thesis by (simp add: ObjCmp_def sgn_cmp_def)
qed

lemma ObjCmp_int_float:
  "\<not> is_nan g \<Longrightarrow>
   ObjCmp env (OInteger i) (OFloat g) st = (st, Inr (sgn_cmp (f_key (int_to_float i)) (f_key g)))"
  using int_to_float_not_nan [of i]
  by (simp add: ObjCmp_def sq_isnumeric_iff f_eq_key f_lt_key float_lt_result_def sgn_cmp_def)

lemma ObjCmp_float_int:
  "\<not> is_nan f \<Longrightarrow>
   ObjCmp env (OFloat f) (OInteger j) st = (st, Inr (sgn_cmp (f_key f) (f_key (int_to_float j))))"
  using int_to_float_not_nan [of j]
  by (simp add: ObjCmp_def sq_isnumeric_iff f_eq_key f_lt_key float_lt_result_def sgn_cmp_def)

lemma float_key_eq:
  assumes "\<not> is_nan f" "\<not> is_nan g" "\<not> distinct_zeros (OFloat f) (OFloat g)"
  shows "f = g \<longleftrightarrow> f_key f = f_key g"
proof (cases "f_zero f")
  case True
  with assms(3) have "f = g \<or> \<not> f_zero g" by (auto simp: distinct_zeros_def)
  with True f_key_zero [OF assms(1)] f_key_zero [OF assms(2)] show ?thesis by auto
next
  case False
  with f_key_inject [OF assms(1,2)] show ?thesis by blast
qed

lemma ObjCmp_float_float:
  assumes "\<not> is_nan f" "\<not> is_nan g" "f = g \<longleftrightarrow> f_key f = f_key g"
  shows "ObjCmp env (OFloat f) (OFloat g) st = (st, Inr (sgn_cmp (f_key f) (f_key g)))"
  using assms by (simp add: ObjCmp_def f_lt_key float_lt_result_def sgn_cmp_def)

lemmas ObjCmp_numbers = ObjCmp_int_int ObjCmp_int_float ObjCmp_float_int ObjCmp_float_float

lemma IsEqual_numbers:
  "IsEqual (OInteger i) (OInteger j) \<longleftrightarrow> i = j"
  "\<not> is_nan g \<Longrightarrow> IsEqual (OInteger i) (OFloat g) \<longleftrightarrow> f_key (int_to_float i) = f_key g"
  "\<not> is_nan g \<Longrightarrow> IsEqual (OFloat g) (OInteger i) \<longleftrightarrow> f_key g = f_key (int_to_float i)"
  "\<not> is_nan f \<Longrightarrow> \<not> is_nan g \<Longrightarrow> IsEqual (OFloat f) (OFloat g) \<longleftrightarrow> f_key f = f_key g"
  using int_to_float_not_nan [of i]
  by (simp_all add: IsEqual_def sq_isnumeric_iff f_eq_key)

lemma ObjCmp_number:
  assumes "sq_number x" "sq_number y" "\<not> distinct_zeros x y"
  shows "\<exists>a b. ObjCmp env x y st = (st, Inr (sgn_cmp a b)) \<and>
               ObjCmp env y x st = (st, Inr (sgn_cmp b a)) \<and> (IsEqual x y \<longleftrightarrow> a = b)"
proof -
  consider (ii) i j where "x = OInteger i" "y = OInteger j"
    | (mix) i g where "x = OInteger i" "y = OFloat g" "\<not> is_nan g"
    | (fi) f j where "x = OFloat f" "y = OInteger j" "\<not> is_nan f"
    | (ff) f g where "x = OFloat f" "y = OFloat g" "\<not> is_nan f" "\<not> is_nan g"
    using assms(1,2) by (cases x; cases y) (simp_all add: sq_number_def)
  then show ?thesis
  proof cases
    case ii
    have "i = j \<longleftrightarrow> sint i = sint j" by (auto dest: sint_inject)
    with ii show ?thesis by (simp only: ObjCmp_int_int IsEqual_numbers) blast
  next
    case mix
    then show ?thesis by (simp only: ObjCmp_numbers IsEqual_numbers not_False_eq_True) blast
  next
    case fi
    then show ?thesis by (simp only: ObjCmp_numbers IsEqual_numbers not_False_eq_True) blast
  next
    case ff
    with assms(3) float_key_eq [of f g] have eq: "f = g \<longleftrightarrow> f_key f = f_key g" by simp
    then have eq': "g = f \<longleftrightarrow> f_key g = f_key f" by (simp only: eq_commute)
    show ?thesis
      unfolding ff(1,2) ObjCmp_float_float [OF ff(3,4) eq] ObjCmp_float_float [OF ff(4,3) eq']
        IsEqual_numbers(4) [OF ff(3,4)]
      by blast
  qed
qed

lemma sgn_cmp_facts:
  "0 < sint (sgn_cmp a b) \<longleftrightarrow> b < a" "sint (sgn_cmp a b) < 0 \<longleftrightarrow> a < b"
  "0 \<le> sint (sgn_cmp a b) \<longleftrightarrow> \<not> a < b" "sint (sgn_cmp a b) \<le> 0 \<longleftrightarrow> \<not> b < a"
  "sgn_cmp a b = 0 \<longleftrightarrow> a = b" "sgn_cmp b a = - sgn_cmp a b"
  by (simp_all add: sgn_cmp_def)



subsection \<open>Where the operators disagree\<close>

definition no_env :: "nat vm_env" where
  "no_env = \<lparr> env_mm = \<lambda>_ _ _. None, env_call = \<lambda>_ _ _ s. (s, None), env_str = \<lambda>_ _. [],
     env_mkstr = \<lambda>_ s. (s + 1, of_nat s), env_fmtg = \<lambda>_. [], env_fmtg14 = \<lambda>_. [], env_fmtp = \<lambda>_. [] \<rparr>"

text \<open>The overflow guards of integer division are of 32 bits and partly missing.
  \<^verbatim>\<open>ARITH_OP\<close> refuses the representable quotient of -2147483648 and -1; it computes, and the
  instruction \<^verbatim>\<open>_OP_DIV\<close> computes, the quotient of the smallest 64-bit integer and -1, which
  traps; \<^verbatim>\<open>_OP_MOD\<close> by 0 is not thrown and leaves the old target.\<close>

theorem division_guards_misplaced:
  "ARITH_OP no_env CHR ''/'' (OInteger (- 2147483648)) (OInteger (- 1)) 0
     = (0, Inl (Raise (bytes_of ''integer overflow''))) \<and>
   exec_arith no_env OP_DIV ONull (OInteger (- 2147483648)) (OInteger (- 1)) 0 = (0, Inr (OInteger 2147483648)) \<and>
   exec_arith no_env OP_DIV ONull (OInteger (2 ^ 63)) (OInteger (- 1)) 0 = (0, Inl Trap) \<and>
   exec_arith no_env OP_MOD ONull (OInteger (2 ^ 63)) (OInteger (- 1)) 0 = (0, Inl Trap) \<and>
   ARITH_OP no_env CHR ''/'' (OInteger (2 ^ 63)) (OInteger (- 1)) 0 = (0, Inl Trap) \<and>
   exec_arith no_env OP_DIV (OInteger 42) (OInteger 7) (OInteger 0) 0
     = (0, Inl (Raise (bytes_of ''division by zero''))) \<and>
   exec_arith no_env OP_MOD (OInteger 42) (OInteger 7) (OInteger 0) 0 = (0, Inr (OInteger 42))"
  by code_simp

lemma float_facts:
  "f_eq 0 0x80000000" "\<not> f_lt 0 0x80000000" "\<not> f_lt 0x80000000 0" "f_eq 0 0"
  "\<not> f_eq 0x7FC00000 0x7FC00000" "\<not> f_eq 1 0x3F800000" "\<not> f_eq 1 0" "\<not> f_lt 1 0"
  "f_lt 1 0x3F800000" "\<not> f_eq 0 0xC0A00000" "\<not> f_lt 0 0xC0A00000" "f_eq 0xC0A00000 0 = False"
  "f_lt 0xC0A00000 0"
  by code_simp+

lemma float_conversions:
  "int_to_float 0 = 0" "int_to_float 1 = 0x3F800000" "int_to_float (- 5) = 0xC0A00000"
  by code_simp+

text \<open>Three anomalies of floats.  The two zeros are equal for \<^verbatim>\<open>IsEqual\<close> but each is
  greater than the other for \<^verbatim>\<open>ObjCmp\<close>; not-a-number differs from itself for
  \<^verbatim>\<open>IsEqual\<close> but compares as 0 with itself; equality of mixed operands is not transitive,
  the integers 16777216 and 16777217 being both equal to one float.\<close>

theorem float_comparison_anomalies:
  "IsEqual (OFloat 0) (OFloat 0x80000000) \<and>
   CMP_OP env CMP_G (OFloat 0) (OFloat 0x80000000) st = (st, Inr (OBool True)) \<and>
   CMP_OP env CMP_G (OFloat 0x80000000) (OFloat 0) st = (st, Inr (OBool True)) \<and>
   \<not> IsEqual (OFloat 0x7FC00000) (OFloat 0x7FC00000) \<and>
   CMP_OP env CMP_3W (OFloat 0x7FC00000) (OFloat 0x7FC00000) st = (st, Inr (OInteger 0)) \<and>
   IsEqual (OInteger 16777216) (OFloat 0x4B800000) \<and> IsEqual (OFloat 0x4B800000) (OInteger 16777217) \<and>
   \<not> IsEqual (OInteger 16777216) (OInteger 16777217)"
proof (intro conjI)
  show "IsEqual (OFloat 0) (OFloat 0x80000000)" by (simp add: IsEqual_def float_facts)
  show "CMP_OP env CMP_G (OFloat 0) (OFloat 0x80000000) st = (st, Inr (OBool True))"
    by (simp add: CMP_OP_def ObjCmp_def float_lt_result_def float_facts cmp_result_def)
  show "CMP_OP env CMP_G (OFloat 0x80000000) (OFloat 0) st = (st, Inr (OBool True))"
    by (simp add: CMP_OP_def ObjCmp_def float_lt_result_def float_facts cmp_result_def)
  show "\<not> IsEqual (OFloat 0x7FC00000) (OFloat 0x7FC00000)" by (simp add: IsEqual_def float_facts)
  show "CMP_OP env CMP_3W (OFloat 0x7FC00000) (OFloat 0x7FC00000) st = (st, Inr (OInteger 0))"
    by (simp add: CMP_OP_def ObjCmp_def cmp_result_def)
  show "IsEqual (OInteger 16777216) (OFloat 0x4B800000)" by code_simp
  show "IsEqual (OFloat 0x4B800000) (OInteger 16777217)" by code_simp
  show "\<not> IsEqual (OInteger 16777216) (OInteger 16777217)" by (simp add: IsEqual_def)
qed

text \<open>Null and booleans carry the numeric flag: null equals the integer 0 but is greater
  than -5, although null compares below every string; the raw bits of a boolean are read as a
  float, so that true differs from 1, is less than 1 and greater than 0.\<close>

theorem null_and_bool_compare_as_numbers:
  "IsEqual ONull (OInteger 0) \<and>
   CMP_OP env CMP_G ONull (OInteger (- 5)) st = (st, Inr (OBool True)) \<and>
   CMP_OP env CMP_L ONull (OString a) st = (st, Inr (OBool True)) \<and>
   \<not> IsEqual (OBool True) (OInteger 1) \<and>
   CMP_OP env CMP_L (OBool True) (OInteger 1) st = (st, Inr (OBool True)) \<and>
   CMP_OP env CMP_G (OBool True) (OInteger 0) st = (st, Inr (OBool True))"
  by (simp add: CMP_OP_def ObjCmp_def IsEqual_def sq_isnumeric_iff tofloat_def raw_float_def
      float_conversions float_lt_result_def float_facts cmp_result_def)

end
