(* ===== verification/Sq_Bytes.thy ===== *)
theory Sq_Bytes
  imports Sq_Prelude
begin

text \<open>
  Objects in memory as bytes on the little-endian 64-bit platform: the bytes of a machine
  integer and back, and copies into a buffer that stay inside it.
\<close>

fun le_bytes :: "nat \<Rightarrow> 'a::len word \<Rightarrow> sqchar list" where
  "le_bytes 0 w = []"
| "le_bytes (Suc n) w = ucast w # le_bytes n (drop_bit 8 w)"

fun le_word :: "sqchar list \<Rightarrow> 'a::len word" where
  "le_word [] = 0"
| "le_word (b # bs) = ucast b OR push_bit 8 (le_word bs)"

lemma length_le_bytes [simp]: "length (le_bytes n w) = n"
  by (induction n arbitrary: w) auto

lemma le_bytes_Nil [simp]: "le_bytes n w = [] \<longleftrightarrow> n = 0"
  by (cases n) simp_all

lemma bit_le_word:
  "bit (le_word bs :: 'a::len word) i \<longleftrightarrow> i < LENGTH('a) \<and> i < 8 * length bs \<and> bit (bs ! (i div 8)) (i mod 8)"
proof (induction bs arbitrary: i)
  case Nil
  then show ?case by simp
next
  case (Cons b bs)
  show ?case
  proof (cases "i < 8")
    case True
    then show ?thesis by (auto simp: bit_or_iff bit_push_bit_iff bit_ucast_iff dest: bit_imp_le_length)
  next
    case False
    then have e: "(i - 8) div 8 = i div 8 - 1" "(i - 8) mod 8 = i mod 8" "i div 8 > 0"
      by (simp_all add: le_div_geq le_mod_geq)
    from False have nb: "\<not> bit b i" by (auto dest: bit_imp_le_length)
    show ?thesis
      using False nb Cons.IH [of "i - 8"]
      by (auto simp: bit_or_iff bit_push_bit_iff bit_ucast_iff e nth_Cons' dest: bit_imp_le_length)
  qed
qed

lemma nth_le_bytes: "j < n \<Longrightarrow> bit (le_bytes n (w :: 'a::len word) ! j) k \<longleftrightarrow> k < 8 \<and> bit w (8 * j + k)"
proof (induction n arbitrary: j w)
  case 0
  then show ?case by simp
next
  case (Suc n)
  show ?case
  proof (cases j)
    case 0
    then show ?thesis by (auto simp: bit_ucast_iff dest: bit_imp_le_length)
  next
    case (Suc i)
    with Suc.prems Suc.IH [of i "drop_bit 8 w"] show ?thesis
      by (simp add: bit_drop_bit_eq add.assoc)
  qed
qed

lemma le_word_le_bytes: "(le_word (le_bytes n w) :: 'a::len word) = take_bit (8 * n) w"
proof (rule bit_eqI)
  fix i
  have "bit (le_word (le_bytes n w) :: 'a word) i \<longleftrightarrow>
      i < LENGTH('a) \<and> i < 8 * n \<and> bit (le_bytes n w ! (i div 8)) (i mod 8)"
    by (simp add: bit_le_word)
  also have "\<dots> \<longleftrightarrow> i < 8 * n \<and> bit w i"
  proof (cases "i < 8 * n")
    case True
    then have "i div 8 < n" by (simp add: div_less_iff_less_mult mult.commute)
    then show ?thesis using True by (auto simp: nth_le_bytes dest: bit_imp_le_length)
  qed simp
  finally show "bit (le_word (le_bytes n w) :: 'a word) i \<longleftrightarrow> bit (take_bit (8 * n) w) i"
    by (simp add: bit_take_bit_iff)
qed

lemma le_word_8 [simp]: "le_word (le_bytes 8 (w :: 64 word)) = w"
  by (simp add: le_word_le_bytes take_bit_word_eq_self)

lemma le_word_4 [simp]: "le_word (le_bytes 4 (w :: 32 word)) = w"
  by (simp add: le_word_le_bytes take_bit_word_eq_self)

lemma le_word_2 [simp]: "le_word (le_bytes 2 (w :: 16 word)) = w"
  by (simp add: le_word_le_bytes take_bit_word_eq_self)

text \<open>\<^verbatim>\<open>memcpy(&buf[p], src, n)\<close>: \<open>None\<close> when it would leave the buffer.\<close>

definition mem_store :: "sqchar list \<Rightarrow> int \<Rightarrow> sqchar list \<Rightarrow> sqchar list option" where
  "mem_store buf p bs =
     (if 0 \<le> p \<and> p + int (length bs) \<le> int (length buf)
      then Some (take (nat p) buf @ bs @ drop (nat p + length bs) buf) else None)"

definition mem_load :: "sqchar list \<Rightarrow> int \<Rightarrow> int \<Rightarrow> sqchar list option" where
  "mem_load buf p n =
     (if 0 \<le> p \<and> 0 \<le> n \<and> p + n \<le> int (length buf) then Some (take (nat n) (drop (nat p) buf)) else None)"

lemma mem_store_length: "mem_store buf p bs = Some buf' \<Longrightarrow> length buf' = length buf"
  by (auto simp: mem_store_def split: if_splits)

lemma mem_load_prefix: "k \<le> length buf \<Longrightarrow> mem_load buf 0 (int k) = Some (take k buf)"
  by (simp add: mem_load_def)

lemma mem_store_prefix:
  "length bs \<le> n \<Longrightarrow> mem_store (replicate n 0) 0 bs = Some (bs @ replicate (n - length bs) 0)"
  by (simp add: mem_store_def)

lemma take_length_take [simp]: "take (length (take n xs)) xs = take n xs"
  by (simp add: min_def)

end
