(* ===== verification/Sq_Blob.thy ===== *)
theory Sq_Blob
  imports Sq_Bytes Sq_Operators
begin

text \<open>
  The memory stream of the standard library: \<^verbatim>\<open>SQBlob\<close> (\<^verbatim>\<open>sqstdblobimpl.h\<close>) with its
  buffer, size and position, the script functions of streams (\<^verbatim>\<open>sqstdstream.cpp\<close>) and of
  blobs (\<^verbatim>\<open>sqstdblob.cpp\<close>) on it.

  \<open>None\<close> is a memory error: a copy outside the buffer or an allocation of negative size.
  The arguments of a script function are the objects on the stack; its result is the object
  it pushes, \<open>Inr None\<close> when it pushes nothing, or the message it throws.
\<close>

record sqblob =
  bl_buf :: "sqchar list"
  bl_size :: int
  bl_allocated :: int
  bl_ptr :: int
  bl_owns :: bool

text \<open>\<^verbatim>\<open>SQInteger\<close> addition, which wraps.\<close>

definition sadd :: "int \<Rightarrow> int \<Rightarrow> int" where
  "sadd a b = sint (word_of_int (a + b) :: sqint)"

definition SQBlob_new :: "int \<Rightarrow> sqblob option" where
  "SQBlob_new n =
     (if n < 0 then None
      else Some \<lparr> bl_buf = replicate (nat n) 0, bl_size = n, bl_allocated = n, bl_ptr = 0, bl_owns = True \<rparr>)"

definition CanAdvance :: "int \<Rightarrow> sqblob \<Rightarrow> bool" where
  "CanAdvance n b \<longleftrightarrow> \<not> sadd (bl_ptr b) n > bl_size b"

definition blob_Resize :: "int \<Rightarrow> sqblob \<Rightarrow> (sqblob \<times> bool) option" where
  "blob_Resize n b =
     (if \<not> bl_owns b then Some (b, False)
      else if n = bl_allocated b then Some (b, True)
      else if n < 0 then None
      else do {
        old \<leftarrow> mem_load (bl_buf b) 0 (if bl_size b > n then n else bl_size b);
        newbuf \<leftarrow> mem_store (replicate (nat n) 0) 0 old;
        Some (b\<lparr> bl_buf := newbuf, bl_allocated := n,
                 bl_size := (if bl_size b > n then n else bl_size b),
                 bl_ptr := (if bl_ptr b > n then n else bl_ptr b) \<rparr>, True) })"

definition GrowBufOf :: "int \<Rightarrow> sqblob \<Rightarrow> (sqblob \<times> bool) option" where
  "GrowBufOf n b =
     do { (b1, ret) \<leftarrow>
            (if bl_size b + n > bl_allocated b then
               (if bl_size b + n > bl_size b * 2 then blob_Resize (bl_size b + n) b
                else blob_Resize (bl_size b * 2) b)
             else Some (b, True));
          Some (b1\<lparr> bl_size := bl_size b1 + n \<rparr>, ret) }"

definition blob_Write :: "sqchar list \<Rightarrow> sqblob \<Rightarrow> (sqblob \<times> int) option" where
  "blob_Write bs b =
     do { b1 \<leftarrow> (if \<not> CanAdvance (int (length bs)) b
                 then map_option fst (GrowBufOf (bl_ptr b + int (length bs) - bl_size b) b) else Some b);
          buf \<leftarrow> mem_store (bl_buf b1) (bl_ptr b1) bs;
          Some (b1\<lparr> bl_buf := buf, bl_ptr := bl_ptr b1 + int (length bs) \<rparr>, int (length bs)) }"

definition blob_Read :: "int \<Rightarrow> sqblob \<Rightarrow> (sqblob \<times> sqchar list) option" where
  "blob_Read sz b =
     (if \<not> CanAdvance sz b \<and> \<not> bl_size b - bl_ptr b > 0 then Some (b, [])
      else let n = (if \<not> CanAdvance sz b then bl_size b - bl_ptr b else sz) in
        do { bs \<leftarrow> mem_load (bl_buf b) (bl_ptr b) n;
             Some (b\<lparr> bl_ptr := bl_ptr b + n \<rparr>, bs) })"

datatype seek_origin = SQ_SEEK_CUR | SQ_SEEK_END | SQ_SEEK_SET

definition seek_base :: "seek_origin \<Rightarrow> sqblob \<Rightarrow> int" where
  "seek_base origin b = (case origin of SQ_SEEK_SET \<Rightarrow> 0 | SQ_SEEK_CUR \<Rightarrow> bl_ptr b | SQ_SEEK_END \<Rightarrow> bl_size b)"

definition blob_Seek :: "int \<Rightarrow> seek_origin \<Rightarrow> sqblob \<Rightarrow> sqblob \<times> int" where
  "blob_Seek offset origin b =
     (let p = sadd (seek_base origin b) offset in
      if p > bl_size b \<or> p < 0 then (b, -1) else (b\<lparr> bl_ptr := p \<rparr>, 0))"

definition blob_EOS :: "sqblob \<Rightarrow> bool" where "blob_EOS b \<longleftrightarrow> bl_ptr b = bl_size b"
definition blob_Tell :: "sqblob \<Rightarrow> int" where "blob_Tell b = bl_ptr b"
definition blob_Len :: "sqblob \<Rightarrow> int" where "blob_Len b = bl_size b"

subsection \<open>Script functions of streams\<close>

text \<open>\<^verbatim>\<open>sq_getinteger\<close> and \<^verbatim>\<open>sq_getfloat\<close>: \<open>None\<close> when the object is not numeric, and the
  variable of the caller keeps its value.\<close>

definition sq_getinteger :: "sqobject \<Rightarrow> sqint option" where
  "sq_getinteger ob = (if sq_isnumeric ob then Some (tointeger ob) else None)"

definition sq_getfloat :: "sqobject \<Rightarrow> sqfloat option" where
  "sq_getfloat ob = (if sq_isnumeric ob then Some (tofloat ob) else None)"

type_synonym 'b native = "('b \<times> (vmerr + sqobject option)) option"

definition throw :: "string \<Rightarrow> vmerr + 'a" where
  "throw msg = Inl (Raise (bytes_of msg))"

text \<open>The widening of a float to a double and back (\<^verbatim>\<open>d = tf\<close>, \<^verbatim>\<open>(SQFloat)d\<close>).\<close>

definition f64_pack :: "bool \<Rightarrow> int \<Rightarrow> int \<Rightarrow> 64 word" where
  "f64_pack s ex man = word_of_int ((if s then 2 ^ 63 else 0) + ex * 2 ^ 52 + man)"

definition f32_to_f64 :: "sqfloat \<Rightarrow> 64 word" where
  "f32_to_f64 f =
     (case f32_decode f of
        FInf s \<Rightarrow> f64_pack s 2047 0
      | FNaN \<Rightarrow> f64_pack (f32_sign f) 2047 ((f32_man (quiet f)) * 2 ^ 29)
      | FFin s m e \<Rightarrow>
          (if m = 0 then f64_pack s 0 0
           else let k = bitlen m; q = m * 2 ^ nat (53 - k) in f64_pack s (e + k + 1022) (q - 2 ^ 52)))"

definition f64_to_f32 :: "64 word \<Rightarrow> sqfloat" where
  "f64_to_f32 d =
     (let u = uint d; s = (u \<ge> 2 ^ 63); ex = (u div 2 ^ 52) mod 2048; man = u mod 2 ^ 52 in
      if ex = 2047 then
        (if man = 0 then f32_inf s else quiet (f32_pack s 255 (man div 2 ^ 29)))
      else if ex = 0 then f32_round_int s man (- 1074)
      else f32_round_int s (man + 2 ^ 52) (ex - 1075))"

definition safe_readn :: "int \<Rightarrow> (sqchar list \<Rightarrow> sqobject) \<Rightarrow> sqblob \<Rightarrow> sqblob native" where
  "safe_readn n conv b =
     do { (b1, bs) \<leftarrow> blob_Read n b;
          Some (b1, if int (length bs) \<noteq> n then throw ''io error'' else Inr (Some (conv bs))) }"

definition stream_readn :: "sqobject \<Rightarrow> sqblob \<Rightarrow> sqblob native" where
  "stream_readn fmt b =
     (let format = case sq_getinteger fmt of Some i \<Rightarrow> i | None \<Rightarrow> 0 in
      if format = of_char CHR ''l'' then safe_readn 8 (\<lambda>bs. OInteger (le_word bs)) b
      else if format = of_char CHR ''i'' then safe_readn 4 (\<lambda>bs. OInteger (scast (le_word bs :: 32 word))) b
      else if format = of_char CHR ''s'' then safe_readn 2 (\<lambda>bs. OInteger (scast (le_word bs :: 16 word))) b
      else if format = of_char CHR ''w'' then safe_readn 2 (\<lambda>bs. OInteger (ucast (le_word bs :: 16 word))) b
      else if format = of_char CHR ''c'' then safe_readn 1 (\<lambda>bs. OInteger (scast (le_word bs :: 8 word))) b
      else if format = of_char CHR ''b'' then safe_readn 1 (\<lambda>bs. OInteger (ucast (le_word bs :: 8 word))) b
      else if format = of_char CHR ''f'' then safe_readn 4 (\<lambda>bs. OFloat (le_word bs)) b
      else if format = of_char CHR ''d'' then safe_readn 8 (\<lambda>bs. OFloat (f64_to_f32 (le_word bs))) b
      else Some (b, throw ''invalid format''))"

text \<open>\<^verbatim>\<open>_stream_writen\<close> ignores the result of \<^verbatim>\<open>Write\<close>.\<close>

definition writen_bytes :: "sqint \<Rightarrow> sqobject \<Rightarrow> sqchar list option" where
  "writen_bytes format ob =
     (let ti = case sq_getinteger ob of Some i \<Rightarrow> i | None \<Rightarrow> 0;
          tf = case sq_getfloat ob of Some f \<Rightarrow> f | None \<Rightarrow> 0
      in if format = of_char CHR ''l'' then Some (le_bytes 8 ti)
         else if format = of_char CHR ''i'' then Some (le_bytes 4 (ucast ti :: 32 word))
         else if format = of_char CHR ''s'' then Some (le_bytes 2 (ucast ti :: 16 word))
         else if format = of_char CHR ''w'' then Some (le_bytes 2 (ucast ti :: 16 word))
         else if format = of_char CHR ''c'' then Some (le_bytes 1 (ucast ti :: 8 word))
         else if format = of_char CHR ''b'' then Some (le_bytes 1 (ucast ti :: 8 word))
         else if format = of_char CHR ''f'' then Some (le_bytes 4 tf)
         else if format = of_char CHR ''d'' then Some (le_bytes 8 (f32_to_f64 tf))
         else None)"

definition stream_writen :: "sqobject \<Rightarrow> sqobject \<Rightarrow> sqblob \<Rightarrow> sqblob native" where
  "stream_writen ob fmt b =
     (let format = case sq_getinteger fmt of Some i \<Rightarrow> i | None \<Rightarrow> 0 in
      case writen_bytes format ob of
        Some bs \<Rightarrow> map_option (\<lambda>(b1, n). (b1, Inr None)) (blob_Write bs b)
      | None \<Rightarrow> Some (b, throw ''invalid format''))"

text \<open>\<^verbatim>\<open>_stream_seek\<close>: the second script argument is optional.\<close>

definition stream_seek :: "sqobject \<Rightarrow> sqobject option \<Rightarrow> sqblob \<Rightarrow> sqblob \<times> (vmerr + sqobject option)" where
  "stream_seek off org b =
     (let offset = case sq_getinteger off of Some i \<Rightarrow> sint i | None \<Rightarrow> 0;
          go = (\<lambda>origin. let (b1, r) = blob_Seek offset origin b in (b1, Inr (Some (OInteger (word_of_int r)))))
      in case org of
           None \<Rightarrow> go SQ_SEEK_SET
         | Some ob \<Rightarrow>
             (let t = case sq_getinteger ob of Some i \<Rightarrow> i | None \<Rightarrow> 0 in
              if t = of_char CHR ''b'' then go SQ_SEEK_SET
              else if t = of_char CHR ''c'' then go SQ_SEEK_CUR
              else if t = of_char CHR ''e'' then go SQ_SEEK_END
              else (b, throw ''invalid origin'')))"

definition stream_tell :: "sqblob \<Rightarrow> sqobject" where
  "stream_tell b = OInteger (word_of_int (blob_Tell b))"

definition stream_len :: "sqblob \<Rightarrow> sqobject" where
  "stream_len b = OInteger (word_of_int (blob_Len b))"

definition stream_eos :: "sqblob \<Rightarrow> sqobject" where
  "stream_eos b = (if blob_EOS b then OInteger 1 else ONull)"

text \<open>\<^verbatim>\<open>readblob\<close> returns a new blob with the bytes read, \<^verbatim>\<open>writeblob\<close> takes another blob.\<close>

definition stream_readblob :: "sqobject \<Rightarrow> sqblob \<Rightarrow> (sqblob \<times> (vmerr + sqblob)) option" where
  "stream_readblob szo b =
     (let sz0 = case sq_getinteger szo of Some i \<Rightarrow> sint i | None \<Rightarrow> 0;
          sz = (if sz0 > blob_Len b then blob_Len b else sz0) in
      do { (b1, data) \<leftarrow> blob_Read sz b;
           if length data = 0 then Some (b1, throw ''no data left to read'')
           else do { nb \<leftarrow> SQBlob_new (int (length data));
                     buf \<leftarrow> mem_store (bl_buf nb) 0 data;
                     Some (b1, Inr (nb\<lparr> bl_buf := buf \<rparr>)) } })"

definition stream_writeblob :: "sqblob \<Rightarrow> sqblob \<Rightarrow> sqblob native" where
  "stream_writeblob other b =
     do { data \<leftarrow> mem_load (bl_buf other) 0 (blob_Len other);
          (b1, n) \<leftarrow> blob_Write data b;
          Some (b1, if n \<noteq> blob_Len other then throw ''io error''
                    else Inr (Some (OInteger (word_of_int (blob_Len other))))) }"

subsection \<open>Script functions of blobs\<close>

definition blob_resize :: "sqobject \<Rightarrow> sqblob \<Rightarrow> sqblob native" where
  "blob_resize szo b =
     (let sz = case sq_getinteger szo of Some i \<Rightarrow> sint i | None \<Rightarrow> 0 in
      do { (b1, r) \<leftarrow> blob_Resize sz b;
           Some (b1, if r then Inr None else throw ''resize failed'') })"

definition swap_dword :: "32 word \<Rightarrow> 32 word" where
  "swap_dword n =
     (drop_bit 24 (n AND 0xFF000000) OR drop_bit 8 (n AND 0x00FF0000) OR
      push_bit 8 (n AND 0x0000FF00) OR push_bit 24 (n AND 0x000000FF))"

definition swap_word :: "16 word \<Rightarrow> 16 word" where
  "swap_word n = (drop_bit 8 n AND 0x00FF) OR (push_bit 8 n AND 0xFF00)"

text \<open>The loops over \<^verbatim>\<open>t[0..num-1]\<close>: \<open>num\<close> units of \<open>k\<close> bytes are replaced.\<close>

fun swap_units :: "nat \<Rightarrow> (sqchar list \<Rightarrow> sqchar list) \<Rightarrow> nat \<Rightarrow> sqchar list \<Rightarrow> sqchar list" where
  "swap_units k f 0 bs = bs"
| "swap_units k f (Suc num) bs = f (take k bs) @ swap_units k f num (drop k bs)"

definition blob_swap4 :: "sqblob \<Rightarrow> sqblob" where
  "blob_swap4 b =
     (let num = (blob_Len b - blob_Len b mod 4) div 4 in
      b\<lparr> bl_buf := swap_units 4 (\<lambda>u. le_bytes 4 (swap_dword (le_word u))) (nat num) (bl_buf b) \<rparr>)"

definition blob_swap2 :: "sqblob \<Rightarrow> sqblob" where
  "blob_swap2 b =
     (let num = (blob_Len b - blob_Len b mod 2) div 2 in
      b\<lparr> bl_buf := swap_units 2 (\<lambda>u. le_bytes 2 (swap_word (le_word u))) (nat num) (bl_buf b) \<rparr>)"

definition blob_set :: "sqobject \<Rightarrow> sqobject \<Rightarrow> sqblob \<Rightarrow> sqblob \<times> (vmerr + sqobject option)" where
  "blob_set io vo b =
     (let idx = case sq_getinteger io of Some i \<Rightarrow> sint i | None \<Rightarrow> 0;
          val = case sq_getinteger vo of Some i \<Rightarrow> i | None \<Rightarrow> 0 in
      if idx < 0 \<or> idx \<ge> blob_Len b then (b, throw ''index out of range'')
      else (b\<lparr> bl_buf := (bl_buf b)[nat idx := ucast val] \<rparr>, Inr (Some vo)))"

text \<open>\<^verbatim>\<open>_get\<close> of a key that is not numeric throws null: \<open>Inl None\<close>.\<close>

definition blob_get :: "sqobject \<Rightarrow> sqblob \<Rightarrow> string option + sqobject" where
  "blob_get io b =
     (if \<not> sq_isnumeric io then Inl None
      else let idx = case sq_getinteger io of Some i \<Rightarrow> sint i | None \<Rightarrow> 0 in
        if idx < 0 \<or> idx \<ge> blob_Len b then Inl (Some ''index out of range'')
        else Inr (OInteger (ucast (bl_buf b ! nat idx))))"

definition blob_nexti :: "sqobject \<Rightarrow> sqblob \<Rightarrow> vmerr + sqobject option" where
  "blob_nexti io b =
     (if sq_type io = OT_NULL then Inr (Some (OInteger 0))
      else case sq_getinteger io of
        Some idx \<Rightarrow>
          (if sint (idx + 1) < blob_Len b then Inr (Some (OInteger (idx + 1))) else Inr (Some ONull))
      | None \<Rightarrow> throw ''internal error (_nexti) wrong argument type'')"

definition blob_constructor :: "sqobject option \<Rightarrow> (vmerr + sqblob) option" where
  "blob_constructor szo =
     (let sz = case szo of None \<Rightarrow> 0 | Some ob \<Rightarrow> (case sq_getinteger ob of Some i \<Rightarrow> sint i | None \<Rightarrow> 0) in
      if sz < 0 then Some (throw ''cannot create blob with negative size'')
      else map_option Inr (SQBlob_new sz))"

definition blob_cloned :: "sqblob \<Rightarrow> sqblob option" where
  "blob_cloned other =
     do { nb \<leftarrow> SQBlob_new (blob_Len other);
          data \<leftarrow> mem_load (bl_buf other) 0 (blob_Len nb);
          buf \<leftarrow> mem_store (bl_buf nb) 0 data;
          Some (nb\<lparr> bl_buf := buf \<rparr>) }"

definition g_casti2f :: "sqint \<Rightarrow> sqfloat" where "g_casti2f i = ucast i"

text \<open>\<^verbatim>\<open>castf2i\<close> reads eight bytes where the float has four; \<open>hi\<close> is what follows it.\<close>

definition g_castf2i :: "32 word \<Rightarrow> sqfloat \<Rightarrow> sqint" where
  "g_castf2i hi f = push_bit 32 (ucast hi) OR ucast f"

definition g_swap2 :: "sqint \<Rightarrow> sqint" where
  "g_swap2 i =
     (let s = ucast (ucast i :: 16 word) :: 32 word in
      ucast ((push_bit 8 s OR (drop_bit 8 s AND 0x00FF)) AND 0xFFFF))"

definition g_swap4 :: "sqint \<Rightarrow> sqint" where
  "g_swap4 i = ucast (swap_dword (ucast i))"

definition g_swapfloat :: "sqfloat \<Rightarrow> sqfloat" where
  "g_swapfloat f = swap_dword f"

end
