(* ===== verification/Sq_Blob_Correct.thy ===== *)
theory Sq_Blob_Correct
  imports Sq_Blob Sq_Interfaces
begin

text \<open>
  The blob as a file: its invariant, the refinement of the abstract file (contents and
  position) by every operation, and the round trip of numbers through a stream.
\<close>

subsection \<open>The invariant\<close>

definition blob_ok :: "sqblob \<Rightarrow> bool" where
  "blob_ok b \<longleftrightarrow> 0 \<le> bl_ptr b \<and> bl_ptr b \<le> bl_size b \<and> bl_size b \<le> bl_allocated b \<and>
     bl_allocated b = int (length (bl_buf b)) \<and> bl_owns b \<and> bl_size b < 2 ^ 63"

definition contents :: "sqblob \<Rightarrow> sqchar list" where
  "contents b = take (nat (bl_size b)) (bl_buf b)"

text \<open>The abstract file: its bytes and the position.\<close>

type_synonym afile = "sqchar list \<times> nat"

definition file_of :: "sqblob \<Rightarrow> afile" where
  "file_of b = (contents b, nat (bl_ptr b))"

definition file_write :: "sqchar list \<Rightarrow> afile \<Rightarrow> afile" where
  "file_write bs = (\<lambda>(c, p). (take p c @ bs @ drop (p + length bs) c, p + length bs))"

definition file_read :: "nat \<Rightarrow> afile \<Rightarrow> afile \<times> sqchar list" where
  "file_read n = (\<lambda>(c, p). let r = take n (drop p c) in ((c, p + length r), r))"

definition file_seek :: "int \<Rightarrow> seek_origin \<Rightarrow> afile \<Rightarrow> afile \<times> int" where
  "file_seek off org = (\<lambda>(c, p).
     let q = (case org of SQ_SEEK_SET \<Rightarrow> 0 | SQ_SEEK_CUR \<Rightarrow> int p | SQ_SEEK_END \<Rightarrow> int (length c)) + off
     in if 0 \<le> q \<and> q \<le> int (length c) then ((c, nat q), 0) else ((c, p), -1))"

definition file_resize :: "nat \<Rightarrow> afile \<Rightarrow> afile" where
  "file_resize n = (\<lambda>(c, p). (take n c, min p n))"

lemma blob_okD:
  "blob_ok b \<Longrightarrow> 0 \<le> bl_ptr b" "blob_ok b \<Longrightarrow> bl_ptr b \<le> bl_size b" "blob_ok b \<Longrightarrow> bl_size b \<le> bl_allocated b"
  "blob_ok b \<Longrightarrow> bl_allocated b = int (length (bl_buf b))" "blob_ok b \<Longrightarrow> bl_owns b"
  "blob_ok b \<Longrightarrow> bl_size b < 2 ^ 63" "blob_ok b \<Longrightarrow> int (length (contents b)) = bl_size b"
  by (auto simp: blob_ok_def contents_def)

lemma sadd_exact: "- (2 ^ 63) \<le> a + b \<Longrightarrow> a + b < 2 ^ 63 \<Longrightarrow> sadd a b = a + b"
  unfolding sadd_def by (rule sint_word_of_int_64)

lemma sadd_overflow:
  assumes "0 \<le> a" "a < 2 ^ 63" "b < 2 ^ 63" "2 ^ 63 \<le> a + b"
  shows "sadd a b = a + b - 2 ^ 64"
proof -
  have "word_of_int (a + b) = (word_of_int (a + b - 2 ^ 64) :: sqint)" by simp
  then show ?thesis
    unfolding sadd_def using assms by (simp only:) (intro sint_word_of_int_64; simp)
qed

lemma contents_nth:
  "blob_ok b \<Longrightarrow> 0 \<le> p \<Longrightarrow> 0 \<le> n \<Longrightarrow> p + n \<le> bl_size b \<Longrightarrow>
   mem_load (bl_buf b) p n = Some (take (nat n) (drop (nat p) (contents b)))"
  using blob_okD [of b]
  by (auto simp: mem_load_def contents_def drop_take min_def)

subsection \<open>Operations\<close>

lemma blob_Resize_file:
  assumes "blob_ok b" "0 \<le> n" "n < 2 ^ 63"
  obtains b' where "blob_Resize n b = Some (b', True)" "blob_ok b'"
    "file_of b' = file_resize (nat n) (file_of b)" "bl_allocated b' = n"
proof (cases "n = bl_allocated b")
  case True
  note ok = blob_okD [OF assms(1)]
  have "length (contents b) \<le> nat n" "nat (bl_ptr b) \<le> nat n" using True ok by linarith+
  then have "file_of b = file_resize (nat n) (file_of b)"
    by (simp add: file_of_def file_resize_def)
  moreover have "blob_Resize n b = Some (b, True)" using True ok(5) by (simp add: blob_Resize_def)
  ultimately show ?thesis using assms(1) True [symmetric] that by blast
next
  case False
  note ok = blob_okD [OF assms(1)]
  define N S P where "N = nat n" and "S = nat (bl_size b)" and "P = nat (bl_ptr b)"
  have e: "n = int N" "bl_size b = int S" "bl_ptr b = int P" "P \<le> S" "S \<le> length (bl_buf b)"
    using ok assms by (simp_all add: N_def S_def P_def)
  let ?old = "take (min N S) (bl_buf b)"
  let ?b = "b\<lparr> bl_buf := ?old @ replicate (N - min N S) 0, bl_allocated := int N,
               bl_size := int (min N S), bl_ptr := int (min N P) \<rparr>"
  have l: "length ?old = min N S" using e by simp
  have m: "(if int S > int N then int N else int S) = int (min N S)"
    "(if int P > int N then int N else int P) = int (min N P)" by auto
  have "blob_Resize n b = Some (?b, True)"
    using False ok(5) mem_load_prefix [of "min N S" "bl_buf b"] mem_store_prefix [of ?old N] l e(5)
    unfolding blob_Resize_def e(1-3) m by simp
  moreover have "blob_ok ?b" using e l assms ok by (auto simp: blob_ok_def min_def)
  moreover have "file_of ?b = file_resize (nat n) (file_of b)"
    using e l by (simp add: file_of_def file_resize_def contents_def min.commute)
  moreover have "bl_allocated ?b = n" using e by simp
  ultimately show ?thesis by (rule that)
qed

lemma GrowBufOf_ok:
  assumes "blob_ok b" "0 < n" "bl_size b + n < 2 ^ 62"
  obtains b' r where "GrowBufOf n b = Some (b', r)" "bl_size b' = bl_size b + n"
    "bl_allocated b' = int (length (bl_buf b'))" "bl_size b' \<le> bl_allocated b'" "bl_ptr b' = bl_ptr b"
    "take (nat (bl_size b)) (bl_buf b') = contents b" "bl_owns b'"
proof (cases "bl_size b + n > bl_allocated b")
  case False
  with assms blob_okD [OF assms(1)] that [of "b\<lparr> bl_size := bl_size b + n \<rparr>" True] show ?thesis
    by (simp add: GrowBufOf_def contents_def)
next
  case True
  define m where "m = (if bl_size b + n > bl_size b * 2 then bl_size b + n else bl_size b * 2)"
  note ok = blob_okD [OF assms(1)]
  have m: "0 \<le> m" "m < 2 ^ 63" "bl_size b + n \<le> m" using assms ok by (auto simp: m_def)
  obtain b1 where b1: "blob_Resize m b = Some (b1, True)" "blob_ok b1"
    "file_of b1 = file_resize (nat m) (file_of b)" "bl_allocated b1 = m"
    by (rule blob_Resize_file [OF assms(1) m(1,2)])
  have f: "contents b1 = contents b" "bl_ptr b1 = bl_ptr b"
    using b1(3) ok m assms blob_okD(1) [OF b1(2)]
    by (auto simp: file_of_def file_resize_def)
  then have "bl_size b1 = bl_size b" using ok(7) blob_okD(7) [OF b1(2)] by simp
  moreover have "GrowBufOf n b = Some (b1\<lparr> bl_size := bl_size b1 + n \<rparr>, True)"
    using True b1(1) by (simp add: GrowBufOf_def m_def split: if_splits)
  ultimately show ?thesis
    using that [of "b1\<lparr> bl_size := bl_size b1 + n \<rparr>" True] f b1 m blob_okD [OF b1(2)]
    by (simp add: contents_def)
qed

lemma blob_Write_file:
  assumes "blob_ok b" "bl_ptr b + int (length bs) < 2 ^ 62"
  obtains b' where "blob_Write bs b = Some (b', int (length bs))" "blob_ok b'"
    "file_of b' = file_write bs (file_of b)"
proof -
  note ok = blob_okD [OF assms(1)]
  let ?n = "int (length bs)"
  have adv: "CanAdvance ?n b \<longleftrightarrow> bl_ptr b + ?n \<le> bl_size b"
    using assms ok by (simp add: CanAdvance_def sadd_exact not_less)
  obtain b1 where b1: "(if \<not> CanAdvance ?n b then map_option fst (GrowBufOf (bl_ptr b + ?n - bl_size b) b)
       else Some b) = Some b1"
    and s1: "bl_size b1 = max (bl_size b) (bl_ptr b + ?n)" "bl_allocated b1 = int (length (bl_buf b1))"
      "bl_size b1 \<le> bl_allocated b1" "bl_ptr b1 = bl_ptr b" "take (nat (bl_size b)) (bl_buf b1) = contents b"
      "bl_owns b1"
  proof (cases "CanAdvance ?n b")
    case True
    with adv ok that [of b] show ?thesis by (simp add: contents_def)
  next
    case False
    with adv assms ok obtain b' r where "GrowBufOf (bl_ptr b + ?n - bl_size b) b = Some (b', r)"
      "bl_size b' = bl_size b + (bl_ptr b + ?n - bl_size b)" "bl_allocated b' = int (length (bl_buf b'))"
      "bl_size b' \<le> bl_allocated b'" "bl_ptr b' = bl_ptr b" "take (nat (bl_size b)) (bl_buf b') = contents b"
      "bl_owns b'"
      using GrowBufOf_ok [OF assms(1), of "bl_ptr b + ?n - bl_size b"] by (auto simp: not_le)
    with False adv that [of b'] show ?thesis by simp
  qed
  let ?p = "nat (bl_ptr b)"
  let ?buf = "take ?p (bl_buf b1) @ bs @ drop (?p + length bs) (bl_buf b1)"
  let ?b = "b1\<lparr> bl_buf := ?buf, bl_ptr := bl_ptr b1 + ?n \<rparr>"
  have fit: "?p + length bs \<le> length (bl_buf b1)" "nat (bl_size b) \<le> length (bl_buf b1)"
    using s1 ok by auto
  have "mem_store (bl_buf b1) (bl_ptr b1) bs = Some ?buf"
    using s1 ok by (simp add: mem_store_def) 
  then have "blob_Write bs b = Some (?b, ?n)" using b1 by (simp add: blob_Write_def)
  moreover have "blob_ok ?b" using s1 ok fit assms by (auto simp: blob_ok_def)
  moreover have "file_of ?b = file_write bs (file_of b)"
  proof -
    have t: "take ?p (bl_buf b1) = take ?p (contents b)"
      using s1(5) ok by (metis min.absorb1 nat_mono take_take)
    have "take (nat (bl_size b1)) ?buf = take ?p (contents b) @ bs @ drop (?p + length bs) (contents b)"
    proof (cases "bl_ptr b + ?n \<le> bl_size b")
      case True
      then have "nat (bl_size b1) = nat (bl_size b)" using s1 by simp
      moreover have "nat (bl_size b) \<ge> ?p + length bs" using True ok by simp
      moreover have "take (nat (bl_size b) - (?p + length bs)) (drop (?p + length bs) (bl_buf b1)) =
          drop (?p + length bs) (contents b)"
        using s1(5) by (metis drop_take)
      moreover have "?p \<le> length (contents b)" using ok by simp
      ultimately show ?thesis using fit t by (simp add: min_absorb1 min_absorb2)
    next
      case False
      then have "nat (bl_size b1) = ?p + length bs" "drop (?p + length bs) (contents b) = []"
        using s1 ok by auto
      moreover have "?p \<le> length (contents b)" using ok by simp
      ultimately show ?thesis using fit t by (simp add: min_absorb1 min_absorb2)
    qed
    then show ?thesis
      using s1 ok by (simp add: file_of_def file_write_def contents_def nat_add_distrib)
  qed
  ultimately show ?thesis by (rule that)
qed

lemma blob_Read_file:
  assumes "blob_ok b" "0 \<le> n" "n < 2 ^ 62" "bl_size b < 2 ^ 62"
  obtains b' bs where "blob_Read n b = Some (b', bs)" "blob_ok b'"
    "(file_of b', bs) = file_read (nat n) (file_of b)"
proof -
  note ok = blob_okD [OF assms(1)]
  have adv: "CanAdvance n b \<longleftrightarrow> bl_ptr b + n \<le> bl_size b"
    using assms ok by (simp add: CanAdvance_def sadd_exact not_less)
  define k where "k = (if CanAdvance n b then n else bl_size b - bl_ptr b)"
  have k: "0 \<le> k" "bl_ptr b + k \<le> bl_size b" "nat k = length (take (nat n) (drop (nat (bl_ptr b)) (contents b)))"
    using adv assms ok by (auto simp: k_def min_def)
  have l: "mem_load (bl_buf b) (bl_ptr b) k = Some (take (nat k) (drop (nat (bl_ptr b)) (contents b)))"
    by (rule contents_nth [OF assms(1)]) (use k ok in auto)
  have t: "take (nat k) (drop (nat (bl_ptr b)) (contents b)) = take (nat n) (drop (nat (bl_ptr b)) (contents b))"
    unfolding k(3) by (rule take_length_take)
  let ?b = "b\<lparr> bl_ptr := bl_ptr b + k \<rparr>"
  have e: "(file_of ?b, take (nat k) (drop (nat (bl_ptr b)) (contents b))) = file_read (nat n) (file_of b)"
    using k ok t by (simp add: file_of_def file_read_def contents_def Let_def nat_add_distrib)
  have "blob_Read n b = Some (?b, take (nat k) (drop (nat (bl_ptr b)) (contents b)))"
  proof (cases "\<not> CanAdvance n b \<and> \<not> bl_size b - bl_ptr b > 0")
    case True
    then have "k = 0" using ok by (simp add: k_def)
    with True show ?thesis by (simp add: blob_Read_def)
  next
    case False
    have k': "(if \<not> CanAdvance n b then bl_size b - bl_ptr b else n) = k" by (simp add: k_def)
    show ?thesis unfolding blob_Read_def if_not_P [OF False] k' Let_def using l by simp
  qed
  moreover have "blob_ok ?b" using ok k by (simp add: blob_ok_def)
  ultimately show ?thesis using e by (rule that)
qed

lemma blob_Seek_file:
  assumes "blob_ok b" "- (2 ^ 63) \<le> off" "off < 2 ^ 63"
  obtains b' r where "blob_Seek off org b = (b', r)" "blob_ok b'"
    "(file_of b', r) = file_seek off org (file_of b)"
proof -
  note ok = blob_okD [OF assms(1)]
  define base where "base = seek_base org b"
  have base: "0 \<le> base" "base \<le> bl_size b"
    "base = (case org of SQ_SEEK_SET \<Rightarrow> 0 | SQ_SEEK_CUR \<Rightarrow> int (nat (bl_ptr b)) | SQ_SEEK_END \<Rightarrow> int (length (contents b)))"
    using ok by (auto simp: base_def seek_base_def split: seek_origin.splits)
  define q where "q = sadd base off"
  have q: "q > bl_size b \<or> q < 0 \<longleftrightarrow> \<not> (0 \<le> base + off \<and> base + off \<le> bl_size b)"
    "0 \<le> base + off \<and> base + off \<le> bl_size b \<Longrightarrow> q = base + off"
  proof -
    show "q > bl_size b \<or> q < 0 \<longleftrightarrow> \<not> (0 \<le> base + off \<and> base + off \<le> bl_size b)"
    proof (cases "base + off < 2 ^ 63")
      case True
      then have "q = base + off" unfolding q_def using base assms by (intro sadd_exact) simp_all
      then show ?thesis by auto
    next
      case False
      then have "q = base + off - 2 ^ 64" unfolding q_def using base assms ok by (intro sadd_overflow) simp_all
      with False ok base assms show ?thesis by auto
    qed
    show "0 \<le> base + off \<and> base + off \<le> bl_size b \<Longrightarrow> q = base + off"
      unfolding q_def using ok by (intro sadd_exact) simp_all
  qed
  have f: "file_seek off org (file_of b) =
      (if 0 \<le> base + off \<and> base + off \<le> bl_size b
       then ((contents b, nat (base + off)), 0) else ((contents b, nat (bl_ptr b)), -1))"
    using ok(7) unfolding file_seek_def file_of_def base(3) by (simp add: Let_def)
  have s: "blob_Seek off org b = (if q > bl_size b \<or> q < 0 then (b, -1) else (b\<lparr> bl_ptr := q \<rparr>, 0))"
    by (simp add: blob_Seek_def Let_def base_def q_def)
  show ?thesis
  proof (cases "0 \<le> base + off \<and> base + off \<le> bl_size b")
    case True
    then have "blob_Seek off org b = (b\<lparr> bl_ptr := base + off \<rparr>, 0)" using q s by simp
    moreover have "blob_ok (b\<lparr> bl_ptr := base + off \<rparr>)" using True ok by (simp add: blob_ok_def)
    moreover have "(file_of (b\<lparr> bl_ptr := base + off \<rparr>), 0) = file_seek off org (file_of b)"
      unfolding f using True by (simp add: file_of_def contents_def)
    ultimately show ?thesis by (rule that)
  next
    case False
    then have "blob_Seek off org b = (b, -1)" using q(1) s by simp
    moreover have "(file_of b, -1) = file_seek off org (file_of b)"
      unfolding f using False by (simp add: file_of_def)
    ultimately show ?thesis using assms(1) that by blast
  qed
qed

subsection \<open>Sequences of operations\<close>

datatype blob_op = OpWrite "sqchar list" | OpRead int | OpSeek int seek_origin | OpResize int
datatype blob_out = Wrote int | Got "sqchar list" | Sought int | Resized bool

fun blob_step :: "blob_op \<Rightarrow> sqblob \<Rightarrow> (sqblob \<times> blob_out) option" where
  "blob_step (OpWrite bs) b = map_option (\<lambda>(b, n). (b, Wrote n)) (blob_Write bs b)"
| "blob_step (OpRead n) b = map_option (\<lambda>(b, bs). (b, Got bs)) (blob_Read n b)"
| "blob_step (OpSeek off org) b = (let (b, r) = blob_Seek off org b in Some (b, Sought r))"
| "blob_step (OpResize n) b = map_option (\<lambda>(b, r). (b, Resized r)) (blob_Resize n b)"

fun file_step :: "blob_op \<Rightarrow> afile \<Rightarrow> afile \<times> blob_out" where
  "file_step (OpWrite bs) f = (file_write bs f, Wrote (int (length bs)))"
| "file_step (OpRead n) f = (let (f, bs) = file_read (nat n) f in (f, Got bs))"
| "file_step (OpSeek off org) f = (let (f, r) = file_seek off org f in (f, Sought r))"
| "file_step (OpResize n) f = (file_resize (nat n) f, Resized True)"

text \<open>Operations within bounds: sizes are not negative and no position reaches \<open>2 ^ 62\<close>.\<close>

fun op_fits :: "blob_op \<Rightarrow> afile \<Rightarrow> bool" where
  "op_fits (OpWrite bs) f \<longleftrightarrow> snd f + length bs < 2 ^ 62"
| "op_fits (OpRead n) f \<longleftrightarrow> 0 \<le> n \<and> n < 2 ^ 62"
| "op_fits (OpSeek off org) f \<longleftrightarrow> - (2 ^ 63) \<le> off \<and> off < 2 ^ 63"
| "op_fits (OpResize n) f \<longleftrightarrow> 0 \<le> n \<and> n < 2 ^ 62"

fun ops_fit :: "blob_op list \<Rightarrow> afile \<Rightarrow> bool" where
  "ops_fit [] f \<longleftrightarrow> True"
| "ops_fit (p # ps) f \<longleftrightarrow> op_fits p f \<and> ops_fit ps (fst (file_step p f))"

fun blob_run :: "blob_op list \<Rightarrow> sqblob \<Rightarrow> (sqblob \<times> blob_out list) option" where
  "blob_run [] b = Some (b, [])"
| "blob_run (p # ps) b =
     do { (b1, r) \<leftarrow> blob_step p b; (b2, rs) \<leftarrow> blob_run ps b1; Some (b2, r # rs) }"

fun file_run :: "blob_op list \<Rightarrow> afile \<Rightarrow> afile \<times> blob_out list" where
  "file_run [] f = (f, [])"
| "file_run (p # ps) f =
     (let (f1, r) = file_step p f; (f2, rs) = file_run ps f1 in (f2, r # rs))"

lemma file_size_bound:
  assumes "op_fits p f" "length (fst f) < 2 ^ 62" "snd f \<le> length (fst f)"
  shows "length (fst (fst (file_step p f))) < 2 ^ 62"
  using assms by (cases f; cases p) (auto simp: file_write_def file_read_def file_seek_def file_resize_def Let_def)

lemma blob_step_file:
  assumes "blob_ok b" "op_fits p (file_of b)" "bl_size b < 2 ^ 62"
  shows "\<exists>b' r. blob_step p b = Some (b', r) \<and> blob_ok b' \<and> (file_of b', r) = file_step p (file_of b)"
proof (cases p)
  case (OpWrite bs)
  with assms blob_okD(1) [OF assms(1)] have "bl_ptr b + int (length bs) < 2 ^ 62"
    by (simp add: file_of_def nat_less_iff)
  from blob_Write_file [OF assms(1) this] OpWrite show ?thesis by (metis blob_step.simps(1) file_step.simps(1) option.simps(9) case_prod_conv)
next
  case (OpRead n)
  with assms obtain b' bs where "blob_Read n b = Some (b', bs)" "blob_ok b'"
    "(file_of b', bs) = file_read (nat n) (file_of b)"
    using blob_Read_file [OF assms(1), of n] by auto
  with OpRead show ?thesis by (auto simp: Let_def split: prod.splits)
next
  case (OpSeek off org)
  with assms obtain b' r where "blob_Seek off org b = (b', r)" "blob_ok b'"
    "(file_of b', r) = file_seek off org (file_of b)"
    using blob_Seek_file [OF assms(1), of off org] by auto
  with OpSeek show ?thesis by (auto simp: Let_def split: prod.splits)
next
  case (OpResize n)
  with assms obtain b' where "blob_Resize n b = Some (b', True)" "blob_ok b'"
    "file_of b' = file_resize (nat n) (file_of b)"
    using blob_Resize_file [OF assms(1), of n] by auto
  with OpResize show ?thesis by auto
qed

lemma blob_run_file:
  assumes "blob_ok b" "bl_size b < 2 ^ 62" "ops_fit ps (file_of b)"
  shows "\<exists>b' rs. blob_run ps b = Some (b', rs) \<and> blob_ok b' \<and> (file_of b', rs) = file_run ps (file_of b)"
  using assms
proof (induction ps arbitrary: b)
  case Nil
  then show ?case by simp
next
  case (Cons p ps)
  then obtain b1 r where b1: "blob_step p b = Some (b1, r)" "blob_ok b1"
    "(file_of b1, r) = file_step p (file_of b)"
    using blob_step_file [of b p] by auto
  have f1: "file_step p (file_of b) = (file_of b1, r)" using b1(3) by simp
  have "length (fst (file_of b1)) < 2 ^ 62"
    using file_size_bound [of p "file_of b"] Cons.prems f1 blob_okD [OF Cons.prems(1)]
    by (simp add: file_of_def)
  then have "bl_size b1 < 2 ^ 62" using blob_okD [OF b1(2)] by (simp add: file_of_def)
  with Cons.IH [OF b1(2)] Cons.prems f1 obtain b2 rs where "blob_run ps b1 = Some (b2, rs)" "blob_ok b2"
    "(file_of b2, rs) = file_run ps (file_of b1)" by auto
  with b1 f1 show ?case by (auto simp: Let_def split: prod.splits)
qed

lemma SQBlob_new_ok:
  "0 \<le> n \<Longrightarrow> n < 2 ^ 62 \<Longrightarrow>
   \<exists>b. SQBlob_new n = Some b \<and> blob_ok b \<and> file_of b = (replicate (nat n) 0, 0) \<and> bl_size b = n"
  by (simp add: SQBlob_new_def blob_ok_def file_of_def contents_def)

text \<open>C16. A new blob under any sequence of writes, reads, seeks and resizes (sizes not negative,
  positions below \<open>2 ^ 62\<close>, seek offsets any 64-bit integer) behaves as a file, that is a byte
  string with a position: no copy leaves the buffer, every operation returns what the file
  returns, and contents and position agree at the end.  A resize to more than the size changes
  nothing that a script can see.\<close>

theorem blob_refines_file:
  assumes "0 \<le> n" "n < 2 ^ 62" "ops_fit ps (replicate (nat n) 0, 0)"
  shows "\<exists>b b' rs. SQBlob_new n = Some b \<and> blob_run ps b = Some (b', rs) \<and>
           (file_of b', rs) = file_run ps (replicate (nat n) 0, 0)"
  using SQBlob_new_ok [OF assms(1,2)] blob_run_file [of _ ps] assms by metis

theorem blob_refines_file_witness:
  "\<exists>b b' rs. SQBlob_new 2 = Some b \<and>
     blob_run [OpWrite [1, 2, 3], OpSeek (-1) SQ_SEEK_END, OpRead 5, OpResize 1] b = Some (b', rs) \<and>
     (file_of b', rs) =
       file_run [OpWrite [1, 2, 3], OpSeek (-1) SQ_SEEK_END, OpRead 5, OpResize 1] (replicate (nat 2) 0, 0)"
  by (rule blob_refines_file) simp_all

subsection \<open>Numbers through a stream\<close>

lemma scast_ucast_32: "scast (ucast (v :: sqint) :: 32 word) = signed_take_bit 31 v"
  by (rule bit_word_eqI) (auto simp: bit_signed_iff bit_unsigned_iff bit_signed_take_bit_iff min_def)

lemma scast_ucast_16: "scast (ucast (v :: sqint) :: 16 word) = signed_take_bit 15 v"
  by (rule bit_word_eqI) (auto simp: bit_signed_iff bit_unsigned_iff bit_signed_take_bit_iff min_def)

lemma scast_ucast_8: "scast (ucast (v :: sqint) :: 8 word) = signed_take_bit 7 v"
  by (rule bit_word_eqI) (auto simp: bit_signed_iff bit_unsigned_iff bit_signed_take_bit_iff min_def)

lemma ucast_ucast_16: "ucast (ucast (v :: sqint) :: 16 word) = take_bit 16 v"
  by (rule bit_word_eqI) (auto simp: bit_unsigned_iff bit_take_bit_iff)

lemma ucast_ucast_8: "ucast (ucast (v :: sqint) :: 8 word) = take_bit 8 v"
  by (rule bit_word_eqI) (auto simp: bit_unsigned_iff bit_take_bit_iff)

lemma le_word_1 [simp]: "le_word (le_bytes (Suc 0) (w :: 8 word)) = w"
  using le_word_le_bytes [of 1 w] by (simp add: take_bit_word_eq_self)

text \<open>What is left of a number after it went through a stream in a format.\<close>

definition stored :: "char \<Rightarrow> sqobject \<Rightarrow> sqobject" where
  "stored fmt ob =
     (if fmt = CHR ''l'' then OInteger (tointeger ob)
      else if fmt = CHR ''i'' then OInteger (signed_take_bit 31 (tointeger ob))
      else if fmt = CHR ''s'' then OInteger (signed_take_bit 15 (tointeger ob))
      else if fmt = CHR ''w'' then OInteger (take_bit 16 (tointeger ob))
      else if fmt = CHR ''c'' then OInteger (signed_take_bit 7 (tointeger ob))
      else if fmt = CHR ''b'' then OInteger (take_bit 8 (tointeger ob))
      else OFloat (tofloat ob))"

lemmas word_narrow = scast_ucast_32 scast_ucast_16 scast_ucast_8 ucast_ucast_16 ucast_ucast_8

lemma sq_getinteger_OInteger [simp]: "sq_getinteger (OInteger i) = Some i"
  by (simp add: sq_getinteger_def sq_isnumeric_iff tointeger_def)

lemma readn_of_writen:
  assumes "sq_isnumeric ob" "fmt \<in> set ''liswcbf''"
  shows "\<exists>bs conv. writen_bytes (of_char fmt) ob = Some bs \<and> length bs \<le> 8 \<and> conv bs = stored fmt ob \<and>
           stream_readn (OInteger (of_char fmt)) = safe_readn (int (length bs)) conv"
proof -
  have g: "sq_getinteger ob = Some (tointeger ob)" "sq_getfloat ob = Some (tofloat ob)"
    using assms(1) by (simp_all add: sq_getinteger_def sq_getfloat_def)
  have r: "sq_getinteger (OInteger i) = Some i" for i by simp
  consider (l) "fmt = CHR ''l''" | (i) "fmt = CHR ''i''" | (s) "fmt = CHR ''s''" | (w) "fmt = CHR ''w''"
    | (c) "fmt = CHR ''c''" | (b) "fmt = CHR ''b''" | (f) "fmt = CHR ''f''"
    using assms(2) by auto
  then show ?thesis
  proof cases
  case l
  show ?thesis
    by (rule exI [of _ "le_bytes 8 (tointeger ob)"], rule exI [of _ "\<lambda>bs. OInteger (le_word bs)"])
       (simp add: l writen_bytes_def g stream_readn_def r fun_eq_iff stored_def word_narrow)
  next
  case i
  show ?thesis
    by (rule exI [of _ "le_bytes 4 (ucast (tointeger ob) :: 32 word)"], rule exI [of _ "\<lambda>bs. OInteger (scast (le_word bs :: 32 word))"])
       (simp add: i writen_bytes_def g stream_readn_def r fun_eq_iff stored_def word_narrow)
  next
  case s
  show ?thesis
    by (rule exI [of _ "le_bytes 2 (ucast (tointeger ob) :: 16 word)"], rule exI [of _ "\<lambda>bs. OInteger (scast (le_word bs :: 16 word))"])
       (simp add: s writen_bytes_def g stream_readn_def r fun_eq_iff stored_def word_narrow)
  next
  case w
  show ?thesis
    by (rule exI [of _ "le_bytes 2 (ucast (tointeger ob) :: 16 word)"], rule exI [of _ "\<lambda>bs. OInteger (ucast (le_word bs :: 16 word))"])
       (simp add: w writen_bytes_def g stream_readn_def r fun_eq_iff stored_def word_narrow)
  next
  case c
  show ?thesis
    by (rule exI [of _ "le_bytes 1 (ucast (tointeger ob) :: 8 word)"], rule exI [of _ "\<lambda>bs. OInteger (scast (le_word bs :: 8 word))"])
       (simp add: c writen_bytes_def g stream_readn_def r fun_eq_iff stored_def word_narrow)
  next
  case b
  show ?thesis
    by (rule exI [of _ "le_bytes 1 (ucast (tointeger ob) :: 8 word)"], rule exI [of _ "\<lambda>bs. OInteger (ucast (le_word bs :: 8 word))"])
       (simp add: b writen_bytes_def g stream_readn_def r fun_eq_iff stored_def word_narrow)
  next
  case f
  show ?thesis
    by (rule exI [of _ "le_bytes 4 (tofloat ob)"], rule exI [of _ "\<lambda>bs. OFloat (le_word bs)"])
       (simp add: f writen_bytes_def g stream_readn_def r fun_eq_iff stored_def word_narrow)
  qed
qed

text \<open>A number written to a stream in one of the formats \<open>l i s w c b f\<close> and read back in the
  same format from the same position: the integer formats return the integer cut to their
  width, signed or unsigned as the format is, \<open>l\<close> and \<open>f\<close> return it unchanged, and the position
  after reading is the one after writing.\<close>

theorem writen_readn_roundtrip:
  assumes "blob_ok b" "bl_size b < 2 ^ 61" "sq_isnumeric ob" "fmt \<in> set ''liswcbf''"
  shows "\<exists>b1 b2 b3. stream_writen ob (OInteger (of_char fmt)) b = Some (b1, Inr None) \<and>
     stream_seek (OInteger (word_of_int (bl_ptr b))) None b1 = (b2, Inr (Some (OInteger 0))) \<and>
     stream_readn (OInteger (of_char fmt)) b2 = Some (b3, Inr (Some (stored fmt ob))) \<and>
     file_of b3 = file_of b1"
proof -
  note ok = blob_okD [OF assms(1)]
  obtain bs conv where bs: "writen_bytes (of_char fmt) ob = Some bs" "length bs \<le> 8"
    "conv bs = stored fmt ob" "stream_readn (OInteger (of_char fmt)) = safe_readn (int (length bs)) conv"
    using readn_of_writen [OF assms(3,4)] by blast
  have "bl_ptr b + int (length bs) < 2 ^ 62" using bs ok assms(2) by simp
  then obtain b1 where b1: "blob_Write bs b = Some (b1, int (length bs))" "blob_ok b1"
    "file_of b1 = file_write bs (file_of b)" by (rule blob_Write_file [OF assms(1)])
  define p where "p = nat (bl_ptr b)"
  have p: "p \<le> length (contents b)" "bl_ptr b = int p" using ok by (simp_all add: p_def)
  have c1: "contents b1 = take p (contents b) @ bs @ drop (p + length bs) (contents b)"
    "bl_ptr b1 = int (p + length bs)"
    using b1(3) blob_okD(1) [OF b1(2)] ok(1)
    by (simp add: file_of_def file_write_def p_def, simp add: file_of_def file_write_def p_def, linarith)
  have s1: "bl_size b1 < 2 ^ 62"
    using blob_okD(7) [OF b1(2)] c1 p bs(2) assms(2) ok(7) by simp
  have off: "sint (word_of_int (int p) :: sqint) = int p"
    using p ok by (intro sint_word_of_int_64) auto
  have "file_seek (int p) SQ_SEEK_SET (file_of b1) = ((contents b1, p), 0)"
    using c1 p by (simp add: file_seek_def file_of_def)
  then obtain b2 where b2: "blob_Seek (int p) SQ_SEEK_SET b1 = (b2, 0)" "blob_ok b2" "file_of b2 = (contents b1, p)"
    using blob_Seek_file [OF b1(2), of "int p" SQ_SEEK_SET] p ok by auto
  have "contents b2 = contents b1" using b2(3) by (simp add: file_of_def)
  then have s2: "bl_size b2 < 2 ^ 62" using s1 blob_okD(7) [OF b1(2)] blob_okD(7) [OF b2(2)] by simp
  have "file_read (length bs) (file_of b2) = ((contents b1, p + length bs), bs)"
    using c1 p unfolding b2(3) by (simp add: file_read_def Let_def)
  then obtain b3 where b3: "blob_Read (int (length bs)) b2 = Some (b3, bs)"
    "file_of b3 = (contents b1, p + length bs)"
    using blob_Read_file [OF b2(2) _ _ s2, of "int (length bs)"] bs(2) by auto
  have "stream_writen ob (OInteger (of_char fmt)) b = Some (b1, Inr None)"
    using bs(1) b1(1) by (simp add: stream_writen_def sq_getinteger_def sq_isnumeric_iff tointeger_def)
  moreover have "stream_seek (OInteger (word_of_int (bl_ptr b))) None b1 = (b2, Inr (Some (OInteger 0)))"
    unfolding p(2) stream_seek_def
    using b2(1) off by (simp add: sq_getinteger_def sq_isnumeric_iff tointeger_def)
  moreover have "stream_readn (OInteger (of_char fmt)) b2 = Some (b3, Inr (Some (stored fmt ob)))"
    unfolding bs(4) using b3(1) bs(3) by (simp add: safe_readn_def)
  moreover have "file_of b3 = file_of b1"
    unfolding b3(2) using c1(2) by (simp add: file_of_def)
  ultimately show ?thesis by blast
qed

theorem writen_readn_roundtrip_witness:
  "\<exists>b b1 b2 b3. SQBlob_new 0 = Some b \<and>
     stream_writen (OInteger 70000) (OInteger (of_char CHR ''s'')) b = Some (b1, Inr None) \<and>
     stream_seek (OInteger (word_of_int (bl_ptr b))) None b1 = (b2, Inr (Some (OInteger 0))) \<and>
     stream_readn (OInteger (of_char CHR ''s'')) b2 = Some (b3, Inr (Some (stored CHR ''s'' (OInteger 70000)))) \<and>
     file_of b3 = file_of b1"
proof -
  obtain b where b: "SQBlob_new 0 = Some b" "blob_ok b" "bl_size b < 2 ^ 61"
    using SQBlob_new_ok [of 0] by auto
  with writen_readn_roundtrip [OF b(2,3), of "OInteger 70000" "CHR ''s''"] show ?thesis
    by (simp add: sq_isnumeric_iff)
qed

end
