(* ===== verification/Sq_Serialize.thy ===== *)
theory Sq_Serialize
  imports Sq_Bytes Sq_Object
begin

text \<open>
  Serialisation of functions (\<^verbatim>\<open>sqobject.cpp\<close>, \<^verbatim>\<open>sqapi.cpp\<close>): the byte format of literals,
  function prototypes and closures, as writer and reader over the callbacks
  \<^verbatim>\<open>SQWRITEFUNC\<close> and \<^verbatim>\<open>SQREADFUNC\<close> of the host.

  \<open>wr bs c\<close> hands the bytes to the host, whose state is \<open>c\<close>, and returns the count the callback
  returned; \<open>rd n c\<close> returns the bytes the callback stored, as many as it says it read.

  Strings are held by value: interning makes equal byte strings one object.  Objects that
  cannot be serialised are \<open>VOther\<close>.  A boolean keeps its 64-bit payload, since the reader
  stores whatever it read.
\<close>

subsection \<open>Reading and writing with errors\<close>

datatype serr = SErr "sqchar list" | SUndef | SNoFuel

type_synonym ('c, 'a) sio = "'c \<Rightarrow> 'c \<times> (serr + 'a)"

definition s_ret :: "'a \<Rightarrow> ('c, 'a) sio" where
  "s_ret x c = (c, Inr x)"

definition s_fail :: "serr \<Rightarrow> ('c, 'a) sio" where
  "s_fail e c = (c, Inl e)"

definition s_bind :: "('c, 'a) sio \<Rightarrow> ('a \<Rightarrow> ('c, 'b) sio) \<Rightarrow> ('c, 'b) sio" where
  "s_bind m f c = (case m c of (c1, Inl e) \<Rightarrow> (c1, Inl e) | (c1, Inr x) \<Rightarrow> f x c1)"

definition s_then :: "('c, unit) sio \<Rightarrow> ('c, 'b) sio \<Rightarrow> ('c, 'b) sio" where
  "s_then m k = s_bind m (\<lambda>_. k)"

text \<open>The loops \<^verbatim>\<open>for(i=0;i<n;i++)\<close> of the writer and of the reader.\<close>

fun s_each :: "('a \<Rightarrow> ('c, unit) sio) \<Rightarrow> 'a list \<Rightarrow> ('c, unit) sio" where
  "s_each f [] = s_ret ()"
| "s_each f (x # xs) = s_then (f x) (s_each f xs)"

fun s_repeat :: "nat \<Rightarrow> ('c, 'a) sio \<Rightarrow> ('c, 'a list) sio" where
  "s_repeat 0 m = s_ret []"
| "s_repeat (Suc n) m = s_bind m (\<lambda>x. s_bind (s_repeat n m) (\<lambda>xs. s_ret (x # xs)))"

type_synonym 'c writer = "sqchar list \<Rightarrow> 'c \<Rightarrow> 'c \<times> int"
type_synonym 'c reader = "int \<Rightarrow> 'c \<Rightarrow> 'c \<times> sqchar list"

definition io_write_error :: "sqchar list" where
  "io_write_error = bytes_of ''io error (write function failure)''"

definition io_read_error :: "sqchar list" where
  "io_read_error = bytes_of ''io error, read function failure, the origin stream could be corrupted/trucated''"

definition SafeWrite :: "'c writer \<Rightarrow> sqchar list \<Rightarrow> ('c, unit) sio" where
  "SafeWrite wr bs c =
     (let (c1, n) = wr bs c in (c1, if n \<noteq> int (length bs) then Inl (SErr io_write_error) else Inr ()))"

definition SafeRead :: "'c reader \<Rightarrow> int \<Rightarrow> ('c, sqchar list) sio" where
  "SafeRead rd n c =
     (if n = 0 then (c, Inr [])
      else let (c1, bs) = rd n c in
           (c1, if int (length bs) \<noteq> n then Inl (SErr io_read_error) else Inr bs))"

definition WriteTag :: "'c writer \<Rightarrow> 32 word \<Rightarrow> ('c, unit) sio" where
  "WriteTag wr tag = SafeWrite wr (le_bytes 4 tag)"

definition CheckTag :: "'c reader \<Rightarrow> 32 word \<Rightarrow> ('c, unit) sio" where
  "CheckTag rd tag =
     s_bind (SafeRead rd 4) (\<lambda>bs.
       if le_word bs \<noteq> tag then s_fail (SErr (bytes_of ''invalid or corrupted closure stream'')) else s_ret ())"

definition write_i64 :: "'c writer \<Rightarrow> 64 word \<Rightarrow> ('c, unit) sio" where
  "write_i64 wr i = SafeWrite wr (le_bytes 8 i)"

definition read_i64 :: "'c reader \<Rightarrow> ('c, 64 word) sio" where
  "read_i64 rd = s_bind (SafeRead rd 8) (\<lambda>bs. s_ret (le_word bs))"

subsection \<open>Literals\<close>

datatype sval = VNull | VInt sqint | VFloat sqfloat | VBool sqint | VString "sqchar list" | VOther sqobjtype

fun sval_type :: "sval \<Rightarrow> sqobjtype" where
  "sval_type VNull = OT_NULL"
| "sval_type (VInt _) = OT_INTEGER"
| "sval_type (VFloat _) = OT_FLOAT"
| "sval_type (VBool _) = OT_BOOL"
| "sval_type (VString _) = OT_STRING"
| "sval_type (VOther t) = t"

definition type_code :: "sqobjtype \<Rightarrow> 32 word" where
  "type_code t = ucast (ot_code t)"

text \<open>\<^verbatim>\<open>IdType2Name\<close> of a type read from a stream; glibc prints a null name as \<^verbatim>\<open>(null)\<close>.\<close>

definition code_name :: "32 word \<Rightarrow> string" where
  "code_name t =
     (case find (\<lambda>u. ucast t AND RT_MASK = RT u)
            [OT_NULL, OT_INTEGER, OT_FLOAT, OT_BOOL, OT_STRING, OT_TABLE, OT_ARRAY, OT_USERDATA,
             OT_CLOSURE, OT_NATIVECLOSURE, OT_GENERATOR, OT_USERPOINTER, OT_THREAD, OT_FUNCPROTO,
             OT_CLASS, OT_INSTANCE, OT_WEAKREF, OT_OUTER] of
        Some u \<Rightarrow> IdType2Name u | None \<Rightarrow> ''(null)'')"

definition WriteObject :: "'c writer \<Rightarrow> sval \<Rightarrow> ('c, unit) sio" where
  "WriteObject wr ob =
     s_then (SafeWrite wr (le_bytes 4 (type_code (sval_type ob))))
       (case ob of
          VString s \<Rightarrow> s_then (write_i64 wr (word_of_nat (length s))) (SafeWrite wr s)
        | VBool i \<Rightarrow> write_i64 wr i
        | VInt i \<Rightarrow> write_i64 wr i
        | VFloat f \<Rightarrow> SafeWrite wr (le_bytes 4 f)
        | VNull \<Rightarrow> s_ret ()
        | VOther t \<Rightarrow> s_fail (SErr (bytes_of (''cannot serialize a '' @ IdType2Name t))))"

text \<open>A negative string length is passed on to the scratch pad and to the read callback:
  \<open>SUndef\<close>.\<close>

definition ReadObject :: "'c reader \<Rightarrow> ('c, sval) sio" where
  "ReadObject rd =
     s_bind (SafeRead rd 4) (\<lambda>tb. let t = le_word tb in
       if t = type_code OT_STRING then
         s_bind (read_i64 rd) (\<lambda>len.
           if sint len < 0 then s_fail SUndef
           else s_bind (SafeRead rd (sint len)) (\<lambda>s. s_ret (VString s)))
       else if t = type_code OT_INTEGER then s_bind (read_i64 rd) (\<lambda>i. s_ret (VInt i))
       else if t = type_code OT_BOOL then s_bind (read_i64 rd) (\<lambda>i. s_ret (VBool i))
       else if t = type_code OT_FLOAT then s_bind (SafeRead rd 4) (\<lambda>f. s_ret (VFloat (le_word f)))
       else if t = type_code OT_NULL then s_ret VNull
       else s_fail (SErr (bytes_of (''cannot serialize a '' @ code_name t))))"

subsection \<open>Function prototypes\<close>

record sqinstruction =
  i_arg1 :: "32 word"
  i_op :: "8 word"
  i_arg0 :: "8 word"
  i_arg2 :: "8 word"
  i_arg3 :: "8 word"

record sqoutervar =
  ov_type :: "32 word"
  ov_name :: sval
  ov_src :: sval

record sqlocalvarinfo =
  lv_name :: sval
  lv_start_op :: squint
  lv_end_op :: squint
  lv_pos :: squint

record sqlineinfo =
  li_line :: sqint
  li_op :: sqint

record sqfuncinfo =
  fp_sourcename :: sval
  fp_name :: sval
  fp_stacksize :: sqint
  fp_bgenerator :: bool
  fp_varparams :: sqint
  fp_localvarinfos :: "sqlocalvarinfo list"
  fp_lineinfos :: "sqlineinfo list"
  fp_literals :: "sval list"
  fp_parameters :: "sval list"
  fp_outervalues :: "sqoutervar list"
  fp_defaultparams :: "sqint list"
  fp_instructions :: "sqinstruction list"

datatype fproto = FProto (fp_info: sqfuncinfo) (fp_functions: "fproto list")

definition SQ_CLOSURESTREAM_HEAD :: "32 word" where "SQ_CLOSURESTREAM_HEAD = 0x53514952"
definition SQ_CLOSURESTREAM_PART :: "32 word" where "SQ_CLOSURESTREAM_PART = 0x50415254"
definition SQ_CLOSURESTREAM_TAIL :: "32 word" where "SQ_CLOSURESTREAM_TAIL = 0x5441494C"

text \<open>Arrays written in one piece: the memory of their elements.\<close>

definition lineinfo_bytes :: "sqlineinfo \<Rightarrow> sqchar list" where
  "lineinfo_bytes li = le_bytes 8 (li_line li) @ le_bytes 8 (li_op li)"

definition instr_bytes :: "sqinstruction \<Rightarrow> sqchar list" where
  "instr_bytes i = le_bytes 4 (i_arg1 i) @ [i_op i, i_arg0 i, i_arg2 i, i_arg3 i]"

fun chunks :: "nat \<Rightarrow> nat \<Rightarrow> 'a list \<Rightarrow> 'a list list" where
  "chunks k 0 bs = []"
| "chunks k (Suc n) bs = take k bs # chunks k n (drop k bs)"

definition lineinfo_of :: "sqchar list \<Rightarrow> sqlineinfo" where
  "lineinfo_of bs = \<lparr> li_line = le_word (take 8 bs), li_op = le_word (drop 8 bs) \<rparr>"

definition instr_of :: "sqchar list \<Rightarrow> sqinstruction" where
  "instr_of bs = \<lparr> i_arg1 = le_word (take 4 bs), i_op = bs ! 4, i_arg0 = bs ! 5, i_arg2 = bs ! 6, i_arg3 = bs ! 7 \<rparr>"

text \<open>
  The kind of an outer variable is a four-byte enumeration at the start of the structure, of
  which eight bytes are written: \<open>pad\<close> is what the memory after it holds.
\<close>

definition WriteOuterVar :: "'c writer \<Rightarrow> (sqoutervar \<Rightarrow> 32 word) \<Rightarrow> sqoutervar \<Rightarrow> ('c, unit) sio" where
  "WriteOuterVar wr pad ov =
     s_then (SafeWrite wr (le_bytes 4 (ov_type ov) @ le_bytes 4 (pad ov)))
    (s_then (WriteObject wr (ov_src ov))
            (WriteObject wr (ov_name ov)))"

definition ReadOuterVar :: "'c reader \<Rightarrow> ('c, sqoutervar) sio" where
  "ReadOuterVar rd =
     s_bind (read_i64 rd) (\<lambda>type.
     s_bind (ReadObject rd) (\<lambda>src.
     s_bind (ReadObject rd) (\<lambda>name.
     s_ret \<lparr> ov_type = ucast type, ov_name = name, ov_src = src \<rparr>)))"

definition WriteLocalVar :: "'c writer \<Rightarrow> sqlocalvarinfo \<Rightarrow> ('c, unit) sio" where
  "WriteLocalVar wr lvi =
     s_then (WriteObject wr (lv_name lvi))
    (s_then (write_i64 wr (lv_pos lvi))
    (s_then (write_i64 wr (lv_start_op lvi))
            (write_i64 wr (lv_end_op lvi))))"

definition ReadLocalVar :: "'c reader \<Rightarrow> ('c, sqlocalvarinfo) sio" where
  "ReadLocalVar rd =
     s_bind (ReadObject rd) (\<lambda>name.
     s_bind (read_i64 rd) (\<lambda>pos.
     s_bind (read_i64 rd) (\<lambda>start_op.
     s_bind (read_i64 rd) (\<lambda>end_op.
     s_ret \<lparr> lv_name = name, lv_start_op = start_op, lv_end_op = end_op, lv_pos = pos \<rparr>))))"

fun fp_Save :: "'c writer \<Rightarrow> (sqoutervar \<Rightarrow> 32 word) \<Rightarrow> fproto \<Rightarrow> ('c, unit) sio"
and fp_SaveAll :: "'c writer \<Rightarrow> (sqoutervar \<Rightarrow> 32 word) \<Rightarrow> fproto list \<Rightarrow> ('c, unit) sio" where
  "fp_Save wr pad (FProto f fs) =
     s_then (WriteTag wr SQ_CLOSURESTREAM_PART)
    (s_then (WriteObject wr (fp_sourcename f))
    (s_then (WriteObject wr (fp_name f))
    (s_then (WriteTag wr SQ_CLOSURESTREAM_PART)
    (s_then (write_i64 wr (word_of_nat (length (fp_literals f))))
    (s_then (write_i64 wr (word_of_nat (length (fp_parameters f))))
    (s_then (write_i64 wr (word_of_nat (length (fp_outervalues f))))
    (s_then (write_i64 wr (word_of_nat (length (fp_localvarinfos f))))
    (s_then (write_i64 wr (word_of_nat (length (fp_lineinfos f))))
    (s_then (write_i64 wr (word_of_nat (length (fp_defaultparams f))))
    (s_then (write_i64 wr (word_of_nat (length (fp_instructions f))))
    (s_then (write_i64 wr (word_of_nat (length fs)))
    (s_then (WriteTag wr SQ_CLOSURESTREAM_PART)
    (s_then (s_each (WriteObject wr) (fp_literals f))
    (s_then (WriteTag wr SQ_CLOSURESTREAM_PART)
    (s_then (s_each (WriteObject wr) (fp_parameters f))
    (s_then (WriteTag wr SQ_CLOSURESTREAM_PART)
    (s_then (s_each (WriteOuterVar wr pad) (fp_outervalues f))
    (s_then (WriteTag wr SQ_CLOSURESTREAM_PART)
    (s_then (s_each (WriteLocalVar wr) (fp_localvarinfos f))
    (s_then (WriteTag wr SQ_CLOSURESTREAM_PART)
    (s_then (SafeWrite wr (concat (map lineinfo_bytes (fp_lineinfos f))))
    (s_then (WriteTag wr SQ_CLOSURESTREAM_PART)
    (s_then (SafeWrite wr (concat (map (le_bytes 8) (fp_defaultparams f))))
    (s_then (WriteTag wr SQ_CLOSURESTREAM_PART)
    (s_then (SafeWrite wr (concat (map instr_bytes (fp_instructions f))))
    (s_then (WriteTag wr SQ_CLOSURESTREAM_PART)
    (s_then (fp_SaveAll wr pad fs)
    (s_then (write_i64 wr (fp_stacksize f))
    (s_then (SafeWrite wr [if fp_bgenerator f then 1 else 0])
            (write_i64 wr (fp_varparams f)))))))))))))))))))))))))))))))"
| "fp_SaveAll wr pad [] = s_ret ()"
| "fp_SaveAll wr pad (p # ps) = s_then (fp_Save wr pad p) (fp_SaveAll wr pad ps)"

text \<open>
  The counts read from the stream size the allocation of the prototype, whose result is not
  checked: with a negative or absurd count (no 64-bit machine maps \<open>2 ^ 48\<close> bytes) what follows is
  undefined.
\<close>

definition count_ok :: "sqint \<Rightarrow> bool" where
  "count_ok n \<longleftrightarrow> 0 \<le> sint n \<and> sint n < 2 ^ 48"

definition s_guard :: "bool \<Rightarrow> ('c, unit) sio" where
  "s_guard b = (if b then s_ret () else s_fail SUndef)"

text \<open>\<open>fuel\<close> bounds the nesting of functions.\<close>

fun fp_Load :: "'c reader \<Rightarrow> nat \<Rightarrow> ('c, fproto) sio" where
  "fp_Load rd 0 = s_fail SNoFuel"
| "fp_Load rd (Suc fuel) =
     s_bind (CheckTag rd SQ_CLOSURESTREAM_PART) (\<lambda>_.
     s_bind (ReadObject rd) (\<lambda>sourcename.
     s_bind (ReadObject rd) (\<lambda>name.
     s_bind (CheckTag rd SQ_CLOSURESTREAM_PART) (\<lambda>_.
     s_bind (read_i64 rd) (\<lambda>nliterals.
     s_bind (read_i64 rd) (\<lambda>nparameters.
     s_bind (read_i64 rd) (\<lambda>noutervalues.
     s_bind (read_i64 rd) (\<lambda>nlocalvarinfos.
     s_bind (read_i64 rd) (\<lambda>nlineinfos.
     s_bind (read_i64 rd) (\<lambda>ndefaultparams.
     s_bind (read_i64 rd) (\<lambda>ninstructions.
     s_bind (read_i64 rd) (\<lambda>nfunctions.
     s_bind (s_guard (list_all count_ok [nliterals, nparameters, noutervalues, nlocalvarinfos,
         nlineinfos, ndefaultparams, ninstructions, nfunctions])) (\<lambda>_.
     s_bind (CheckTag rd SQ_CLOSURESTREAM_PART) (\<lambda>_.
     s_bind (s_repeat (unat nliterals) (ReadObject rd)) (\<lambda>literals.
     s_bind (CheckTag rd SQ_CLOSURESTREAM_PART) (\<lambda>_.
     s_bind (s_repeat (unat nparameters) (ReadObject rd)) (\<lambda>parameters.
     s_bind (CheckTag rd SQ_CLOSURESTREAM_PART) (\<lambda>_.
     s_bind (s_repeat (unat noutervalues) (ReadOuterVar rd)) (\<lambda>outervalues.
     s_bind (CheckTag rd SQ_CLOSURESTREAM_PART) (\<lambda>_.
     s_bind (s_repeat (unat nlocalvarinfos) (ReadLocalVar rd)) (\<lambda>localvarinfos.
     s_bind (CheckTag rd SQ_CLOSURESTREAM_PART) (\<lambda>_.
     s_bind (SafeRead rd (16 * sint nlineinfos)) (\<lambda>lineinfos.
     s_bind (CheckTag rd SQ_CLOSURESTREAM_PART) (\<lambda>_.
     s_bind (SafeRead rd (8 * sint ndefaultparams)) (\<lambda>defaultparams.
     s_bind (CheckTag rd SQ_CLOSURESTREAM_PART) (\<lambda>_.
     s_bind (SafeRead rd (8 * sint ninstructions)) (\<lambda>instructions.
     s_bind (CheckTag rd SQ_CLOSURESTREAM_PART) (\<lambda>_.
     s_bind (s_repeat (unat nfunctions) (fp_Load rd fuel)) (\<lambda>functions.
     s_bind (read_i64 rd) (\<lambda>stacksize.
     s_bind (SafeRead rd 1) (\<lambda>bgenerator.
     s_bind (read_i64 rd) (\<lambda>varparams.
     s_ret (FProto \<lparr> fp_sourcename = sourcename, fp_name = name, fp_stacksize = stacksize,
              fp_bgenerator = (bgenerator \<noteq> [0]), fp_varparams = varparams,
              fp_localvarinfos = localvarinfos,
              fp_lineinfos = map lineinfo_of (chunks 16 (unat nlineinfos) lineinfos),
              fp_literals = literals, fp_parameters = parameters, fp_outervalues = outervalues,
              fp_defaultparams = map le_word (chunks 8 (unat ndefaultparams) defaultparams),
              fp_instructions = map instr_of (chunks 8 (unat ninstructions) instructions) \<rparr>
            functions)))))))))))))))))))))))))))))))))"

subsection \<open>Closures\<close>

text \<open>The parts of a closure that serialisation touches; \<^verbatim>\<open>SQClosure::Create\<close> makes the outer
  values and the values of the default parameters null.\<close>

record sqclosure =
  cl_function :: fproto
  cl_outervalues :: "sqobject list"
  cl_defaultparams :: "sqobject list"

definition SQClosure_Create :: "fproto \<Rightarrow> sqclosure" where
  "SQClosure_Create func =
     \<lparr> cl_function = func,
       cl_outervalues = replicate (length (fp_outervalues (fp_info func))) ONull,
       cl_defaultparams = replicate (length (fp_defaultparams (fp_info func))) ONull \<rparr>"

definition cl_Save :: "'c writer \<Rightarrow> (sqoutervar \<Rightarrow> 32 word) \<Rightarrow> sqclosure \<Rightarrow> ('c, unit) sio" where
  "cl_Save wr pad cl =
     s_then (WriteTag wr SQ_CLOSURESTREAM_HEAD)
    (s_then (WriteTag wr 1)
    (s_then (WriteTag wr 8)
    (s_then (WriteTag wr 4)
    (s_then (fp_Save wr pad (cl_function cl))
            (WriteTag wr SQ_CLOSURESTREAM_TAIL)))))"

definition cl_Load :: "'c reader \<Rightarrow> nat \<Rightarrow> ('c, sqclosure) sio" where
  "cl_Load rd fuel =
     s_bind (CheckTag rd SQ_CLOSURESTREAM_HEAD) (\<lambda>_.
     s_bind (CheckTag rd 1) (\<lambda>_.
     s_bind (CheckTag rd 8) (\<lambda>_.
     s_bind (CheckTag rd 4) (\<lambda>_.
     s_bind (fp_Load rd fuel) (\<lambda>func.
     s_bind (CheckTag rd SQ_CLOSURESTREAM_TAIL) (\<lambda>_.
     s_ret (SQClosure_Create func)))))))"

definition SQ_BYTECODE_STREAM_TAG :: "16 word" where "SQ_BYTECODE_STREAM_TAG = 0xFAFA"

definition sq_writeclosure :: "'c writer \<Rightarrow> (sqoutervar \<Rightarrow> 32 word) \<Rightarrow> sqclosure \<Rightarrow> ('c, unit) sio" where
  "sq_writeclosure wr pad cl c =
     (if fp_outervalues (fp_info (cl_function cl)) \<noteq> [] then
        (c, Inl (SErr (bytes_of ''a closure with free variables bound cannot be serialized'')))
      else let (c1, n) = wr (le_bytes 2 SQ_BYTECODE_STREAM_TAG) c in
        if n \<noteq> 2 then (c1, Inl (SErr (bytes_of ''io error'')))
        else cl_Save wr pad cl c1)"

definition sq_readclosure :: "'c reader \<Rightarrow> nat \<Rightarrow> ('c, sqclosure) sio" where
  "sq_readclosure rd fuel c =
     (let (c1, bs) = rd 2 c in
      if length bs \<noteq> 2 then (c1, Inl (SErr (bytes_of ''io error'')))
      else if le_word bs \<noteq> SQ_BYTECODE_STREAM_TAG then (c1, Inl (SErr (bytes_of ''invalid stream'')))
      else cl_Load rd fuel c1)"

end
