(* ===== verification/Sq_Serialize_Correct.thy ===== *)
theory Sq_Serialize_Correct
  imports Sq_Serialize Sq_Blob_Correct "HOL-Library.Sublist"
begin

text \<open>
  Serialisation over any byte channel: the writer produces the documented encoding, the reader
  inverts it and refuses every truncation of it; then the same on the blob, the channel of the
  standard library.
\<close>

subsection \<open>The format\<close>

fun enc_obj :: "sval \<Rightarrow> sqchar list" where
  "enc_obj (VString s) =
     le_bytes 4 (type_code OT_STRING) @ le_bytes 8 (word_of_nat (length s) :: sqint) @ s"
| "enc_obj (VBool i) = le_bytes 4 (type_code OT_BOOL) @ le_bytes 8 i"
| "enc_obj (VInt i) = le_bytes 4 (type_code OT_INTEGER) @ le_bytes 8 i"
| "enc_obj (VFloat f) = le_bytes 4 (type_code OT_FLOAT) @ le_bytes 4 f"
| "enc_obj VNull = le_bytes 4 (type_code OT_NULL)"
| "enc_obj (VOther t) = []"

definition enc_count :: "'a list \<Rightarrow> sqchar list" where
  "enc_count xs = le_bytes 8 (word_of_nat (length xs) :: sqint)"

definition enc_outer :: "(sqoutervar \<Rightarrow> 32 word) \<Rightarrow> sqoutervar \<Rightarrow> sqchar list" where
  "enc_outer pad ov =
     (le_bytes 4 (ov_type ov) @ le_bytes 4 (pad ov)) @ enc_obj (ov_src ov) @ enc_obj (ov_name ov)"

definition enc_local :: "sqlocalvarinfo \<Rightarrow> sqchar list" where
  "enc_local lvi =
     enc_obj (lv_name lvi) @ le_bytes 8 (lv_pos lvi) @ le_bytes 8 (lv_start_op lvi) @ le_bytes 8 (lv_end_op lvi)"

definition enc_part :: "sqchar list" where
  "enc_part = le_bytes 4 SQ_CLOSURESTREAM_PART"

fun enc_proto :: "(sqoutervar \<Rightarrow> 32 word) \<Rightarrow> fproto \<Rightarrow> sqchar list" where
  "enc_proto pad (FProto f fs) =
     enc_part @ enc_obj (fp_sourcename f) @ enc_obj (fp_name f) @
     enc_part @ enc_count (fp_literals f) @ enc_count (fp_parameters f) @ enc_count (fp_outervalues f) @
     enc_count (fp_localvarinfos f) @ enc_count (fp_lineinfos f) @ enc_count (fp_defaultparams f) @
     enc_count (fp_instructions f) @ enc_count fs @
     enc_part @ concat (map enc_obj (fp_literals f)) @
     enc_part @ concat (map enc_obj (fp_parameters f)) @
     enc_part @ concat (map (enc_outer pad) (fp_outervalues f)) @
     enc_part @ concat (map enc_local (fp_localvarinfos f)) @
     enc_part @ concat (map lineinfo_bytes (fp_lineinfos f)) @
     enc_part @ concat (map (le_bytes 8) (fp_defaultparams f)) @
     enc_part @ concat (map instr_bytes (fp_instructions f)) @
     enc_part @ concat (map (enc_proto pad) fs) @
     le_bytes 8 (fp_stacksize f) @ [if fp_bgenerator f then 1 else 0] @ le_bytes 8 (fp_varparams f)"

definition enc_closure :: "(sqoutervar \<Rightarrow> 32 word) \<Rightarrow> fproto \<Rightarrow> sqchar list" where
  "enc_closure pad p =
     le_bytes 2 SQ_BYTECODE_STREAM_TAG @ le_bytes 4 SQ_CLOSURESTREAM_HEAD @ le_bytes 4 (1 :: 32 word) @
     le_bytes 4 (8 :: 32 word) @ le_bytes 4 (4 :: 32 word) @ enc_proto pad p @ le_bytes 4 SQ_CLOSURESTREAM_TAIL"

text \<open>Prototypes that can be serialised: literals of the five simple kinds, counts below the
  bound of an allocation.\<close>

fun sval_ok :: "sval \<Rightarrow> bool" where
  "sval_ok (VString s) \<longleftrightarrow> length s < 2 ^ 63"
| "sval_ok (VOther t) \<longleftrightarrow> False"
| "sval_ok _ \<longleftrightarrow> True"

definition few :: "'a list \<Rightarrow> bool" where "few xs \<longleftrightarrow> length xs < 2 ^ 48"

fun fproto_ok :: "fproto \<Rightarrow> bool" where
  "fproto_ok (FProto f fs) \<longleftrightarrow>
     sval_ok (fp_sourcename f) \<and> sval_ok (fp_name f) \<and>
     few (fp_literals f) \<and> list_all sval_ok (fp_literals f) \<and>
     few (fp_parameters f) \<and> list_all sval_ok (fp_parameters f) \<and>
     few (fp_outervalues f) \<and> list_all (\<lambda>ov. sval_ok (ov_src ov) \<and> sval_ok (ov_name ov)) (fp_outervalues f) \<and>
     few (fp_localvarinfos f) \<and> list_all (\<lambda>lvi. sval_ok (lv_name lvi)) (fp_localvarinfos f) \<and>
     few (fp_lineinfos f) \<and> few (fp_defaultparams f) \<and> few (fp_instructions f) \<and>
     few fs \<and> list_all fproto_ok fs"

fun nesting :: "fproto \<Rightarrow> nat" where
  "nesting (FProto f fs) = Suc (foldr (\<lambda>p n. max (nesting p) n) fs 0)"

lemma nesting_le: "p \<in> set fs \<Longrightarrow> nesting p \<le> foldr (\<lambda>p n. max (nesting p) n) fs 0"
  by (induction fs) auto

subsection \<open>Elements of fixed width\<close>

lemma chunks_concat:
  "(\<And>x. length (enc x) = k) \<Longrightarrow> chunks k (length xs) (concat (map enc xs)) = map enc xs"
  by (induction xs) simp_all

lemma lineinfo_of_bytes [simp]: "lineinfo_of (lineinfo_bytes li) = li"
  by (simp add: lineinfo_of_def lineinfo_bytes_def)

lemma instr_of_bytes [simp]: "instr_of (instr_bytes i) = i"
  by (simp add: instr_of_def instr_bytes_def nth_append)

lemma fixed_lengths [simp]:
  "length (lineinfo_bytes li) = 16" "length (instr_bytes i) = 8"
  by (simp_all add: lineinfo_bytes_def instr_bytes_def)

lemma length_concat_const: "(\<And>x. length (enc x) = k) \<Longrightarrow> length (concat (map enc xs)) = k * length xs"
  by (induction xs) simp_all

lemma count_word:
  assumes "few xs"
  shows "unat (word_of_nat (length xs) :: sqint) = length xs" "sint (word_of_nat (length xs) :: sqint) = int (length xs)"
    "count_ok (word_of_nat (length xs))"
proof -
  have l: "length xs < 2 ^ 48" using assms by (simp add: few_def)
  then show "unat (word_of_nat (length xs) :: sqint) = length xs"
    by (simp add: unat_of_nat)
  have "sint (word_of_int (int (length xs)) :: sqint) = int (length xs)"
    by (rule sint_word_of_int_64) (use l in auto)
  then show s: "sint (word_of_nat (length xs) :: sqint) = int (length xs)" by simp
  show "count_ok (word_of_nat (length xs))" unfolding count_ok_def s using l by simp
qed

lemma strlen_word: "length s < 2 ^ 63 \<Longrightarrow> sint (word_of_nat (length s) :: sqint) = int (length s)"
  using sint_word_of_int_64 [of "int (length s)"] by simp

lemma type_code_eq: "type_code t = type_code u \<longleftrightarrow> t = u"
  by (cases t; cases u; simp add: type_code_def ot_flag_defs)

lemma strict_prefix_append_cases:
  "strict_prefix p (a @ b) \<Longrightarrow> strict_prefix p a \<or> (\<exists>q. p = a @ q \<and> strict_prefix q b)"
  by (cases "p = a", cases b) (auto simp: strict_prefix_def prefix_append)

subsection \<open>Writers and readers over a channel\<close>

context byte_channel begin

definition writes :: "('c, unit) sio \<Rightarrow> sqchar list \<Rightarrow> bool" where
  "writes m bs \<longleftrightarrow>
     (\<forall>c. ok c \<longrightarrow> pending c = [] \<longrightarrow> length (written c) + length bs < cap \<longrightarrow>
        (\<exists>c'. m c = (c', Inr ()) \<and> ok c' \<and> pending c' = [] \<and> written c' = written c @ bs))"

definition parses :: "('c, 'x) sio \<Rightarrow> sqchar list \<Rightarrow> 'x \<Rightarrow> bool" where
  "parses m bs x \<longleftrightarrow>
     (\<forall>c rest. ok c \<longrightarrow> pending c = bs @ rest \<longrightarrow> (\<exists>c'. m c = (c', Inr x) \<and> ok c' \<and> pending c' = rest)) \<and>
     (length bs < cap \<longrightarrow>
       (\<forall>c. ok c \<longrightarrow> strict_prefix (pending c) bs \<longrightarrow> (\<exists>c'. m c = (c', Inl (SErr io_read_error)))))"

lemma writes_ret: "writes (s_ret ()) []"
  by (simp add: writes_def s_ret_def)

lemma writes_then:
  assumes "writes m b1" "writes k b2"
  shows "writes (s_then m k) (b1 @ b2)"
  unfolding writes_def
proof (intro allI impI)
  fix c assume c: "ok c" "pending c = []" "length (written c) + length (b1 @ b2) < cap"
  then have "length (written c) + length b1 < cap" by simp
  with assms(1) c obtain c1 where 1: "m c = (c1, Inr ())" "ok c1" "pending c1 = []" "written c1 = written c @ b1"
    unfolding writes_def by blast
  with c have "length (written c1) + length b2 < cap" by simp
  with assms(2) 1 obtain c2 where 2: "k c1 = (c2, Inr ())" "ok c2" "pending c2 = []" "written c2 = written c1 @ b2"
    unfolding writes_def by blast
  with 1 show "\<exists>c'. s_then m k c = (c', Inr ()) \<and> ok c' \<and> pending c' = [] \<and> written c' = written c @ b1 @ b2"
    by (simp add: s_then_def s_bind_def)
qed

lemma writes_each: "(\<And>x. x \<in> set xs \<Longrightarrow> writes (f x) (enc x)) \<Longrightarrow> writes (s_each f xs) (concat (map enc xs))"
  by (induction xs) (simp_all add: writes_ret writes_then)

lemma writes_bytes: "writes (SafeWrite wr bs) bs"
  unfolding writes_def
proof (intro allI impI)
  fix c assume "ok c" "pending c = []" "length (written c) + length bs < cap"
  from wr_ok [OF this] show "\<exists>c'. SafeWrite wr bs c = (c', Inr ()) \<and> ok c' \<and> pending c' = [] \<and> written c' = written c @ bs"
    by (auto simp: SafeWrite_def)
qed

lemma parses_ret: "x = y \<Longrightarrow> parses (s_ret x) [] y"
  by (simp add: parses_def s_ret_def strict_prefix_def)

lemma parses_bind:
  assumes "parses m b1 x" "parses (f x) b2 y"
  shows "parses (s_bind m f) (b1 @ b2) y"
  unfolding parses_def
proof (intro conjI allI impI)
  fix c rest assume "ok c" "pending c = (b1 @ b2) @ rest"
  with assms(1) obtain c1 where 1: "m c = (c1, Inr x)" "ok c1" "pending c1 = b2 @ rest"
    unfolding parses_def by (metis append.assoc)
  with assms(2) obtain c2 where "f x c1 = (c2, Inr y)" "ok c2" "pending c2 = rest"
    unfolding parses_def by metis
  with 1 show "\<exists>c'. s_bind m f c = (c', Inr y) \<and> ok c' \<and> pending c' = rest"
    by (simp add: s_bind_def)
next
  fix c assume c: "length (b1 @ b2) < cap" "ok c" "strict_prefix (pending c) (b1 @ b2)"
  show "\<exists>c'. s_bind m f c = (c', Inl (SErr io_read_error))"
  proof (cases "strict_prefix (pending c) b1")
    case True
    with assms(1) c obtain c1 where "m c = (c1, Inl (SErr io_read_error))"
      unfolding parses_def by (metis add_lessD1 length_append)
    then show ?thesis by (simp add: s_bind_def)
  next
    case False
    with strict_prefix_append_cases [OF c(3)] obtain p2
      where p2: "pending c = b1 @ p2" "strict_prefix p2 b2" by auto
    with assms(1) c obtain c1 where 1: "m c = (c1, Inr x)" "ok c1" "pending c1 = p2"
      unfolding parses_def by metis
    with assms(2) c p2 obtain c2 where "f x c1 = (c2, Inl (SErr io_read_error))"
      unfolding parses_def by (metis add_lessD1 add.commute length_append)
    with 1 show ?thesis by (simp add: s_bind_def)
  qed
qed

lemma parses_bytes: "n = int (length bs) \<Longrightarrow> parses (SafeRead rd n) bs bs"
  unfolding parses_def
proof (intro conjI allI impI)
  fix c rest assume n: "n = int (length bs)" and c: "ok c" "pending c = bs @ rest"
  show "\<exists>c'. SafeRead rd n c = (c', Inr bs) \<and> ok c' \<and> pending c' = rest"
  proof (cases "bs = []")
    case True
    with n c show ?thesis by (simp add: SafeRead_def)
  next
    case False
    with rd_ok [OF c(1), of "length bs"] n c show ?thesis by (auto simp: SafeRead_def)
  qed
next
  fix c assume n: "n = int (length bs)" and c: "length bs < cap" "ok c" "strict_prefix (pending c) bs"
  then have l: "length (pending c) < length bs" by (metis prefix_length_less)
  obtain c' out where r: "rd n c = (c', out)" by (metis surj_pair)
  have "length out < length bs" using rd_short [OF c(2) l c(1)] r n by simp
  with l r n show "\<exists>c'. SafeRead rd n c = (c', Inl (SErr io_read_error))"
    by (auto simp: SafeRead_def)
qed

lemma parses_repeat:
  "(\<And>x. x \<in> set xs \<Longrightarrow> parses m (enc x) x) \<Longrightarrow> parses (s_repeat (length xs) m) (concat (map enc xs)) xs"
proof (induction xs)
  case Nil
  then show ?case by (simp add: parses_ret)
next
  case (Cons x xs)
  have "parses (s_bind (s_repeat (length xs) m) (\<lambda>xs. s_ret (x # xs))) (concat (map enc xs) @ []) (x # xs)"
    by (rule parses_bind) (use Cons in \<open>auto intro: parses_ret\<close>)
  with Cons.prems [of x] show ?case
    by (simp del: append_Nil2) (rule parses_bind, simp_all)
qed

lemma parses_bind_last: "parses m bs x \<Longrightarrow> f x = s_ret y \<Longrightarrow> parses (s_bind m f) bs y"
  using parses_bind [of m bs x f "[]" y] by (simp add: parses_ret)

lemma writes_tag: "writes (WriteTag wr t) (le_bytes 4 t)"
  unfolding WriteTag_def by (rule writes_bytes)

lemma parses_tag: "parses (CheckTag rd t) (le_bytes 4 t) ()"
  unfolding CheckTag_def by (rule parses_bind_last) (rule parses_bytes, simp_all)

lemma writes_i64: "writes (write_i64 wr i) (le_bytes 8 i)"
  unfolding write_i64_def by (rule writes_bytes)

lemma parses_i64: "parses (read_i64 rd) (le_bytes 8 i) i"
  unfolding read_i64_def by (rule parses_bind_last) (rule parses_bytes, simp_all)

lemma writes_count: "writes (write_i64 wr (word_of_nat (length xs))) (enc_count xs)"
  unfolding enc_count_def by (rule writes_i64)

lemma parses_count: "parses (read_i64 rd) (enc_count xs) (word_of_nat (length xs))"
  unfolding enc_count_def by (rule parses_i64)

lemma writes_part: "writes (WriteTag wr SQ_CLOSURESTREAM_PART) enc_part"
  unfolding enc_part_def by (rule writes_tag)

lemma parses_part: "parses (CheckTag rd SQ_CLOSURESTREAM_PART) enc_part ()"
  unfolding enc_part_def by (rule parses_tag)

lemma parses_bind_guard: "b \<Longrightarrow> parses (K ()) bs y \<Longrightarrow> parses (s_bind (s_guard b) K) bs y"
proof -
  assume "b" "parses (K ()) bs y"
  moreover from \<open>b\<close> have "s_bind (s_guard b) K = K ()"
    by (simp add: fun_eq_iff s_bind_def s_guard_def s_ret_def)
  ultimately show ?thesis by simp
qed

lemma writes_obj:
  assumes "sval_ok v"
  shows "writes (WriteObject wr v) (enc_obj v)"
proof (cases v)
  case (VString s)
  show ?thesis
    unfolding WriteObject_def VString
    by (simp del: le_bytes.simps) (intro writes_then writes_bytes writes_i64)
next
  case VNull
  have "writes (s_then (SafeWrite wr (le_bytes 4 (type_code OT_NULL))) (s_ret ())) (le_bytes 4 (type_code OT_NULL) @ [])"
    by (intro writes_then writes_bytes writes_ret)
  then show ?thesis by (simp add: WriteObject_def VNull)
qed (use assms in \<open>simp_all add: WriteObject_def writes_then writes_bytes writes_i64\<close>)

lemma parses_obj:
  assumes "sval_ok v"
  shows "parses (ReadObject rd) (enc_obj v) v"
proof -
  define k where "k = (\<lambda>tb. let t = le_word tb in
       if t = type_code OT_STRING then
         s_bind (read_i64 rd) (\<lambda>len.
           if sint len < 0 then s_fail SUndef
           else s_bind (SafeRead rd (sint len)) (\<lambda>s. s_ret (VString s)))
       else if t = type_code OT_INTEGER then s_bind (read_i64 rd) (\<lambda>i. s_ret (VInt i))
       else if t = type_code OT_BOOL then s_bind (read_i64 rd) (\<lambda>i. s_ret (VBool i))
       else if t = type_code OT_FLOAT then s_bind (SafeRead rd 4) (\<lambda>f. s_ret (VFloat (le_word f)))
       else if t = type_code OT_NULL then s_ret VNull
       else s_fail (SErr (bytes_of (''cannot serialize a '' @ code_name t))))"
  have R: "ReadObject rd = s_bind (SafeRead rd 4) k" by (simp add: ReadObject_def k_def)
  have I: "parses (ReadObject rd) (le_bytes 4 t @ b) w" if "parses (k (le_bytes 4 t)) b w"
    for t :: "32 word" and b w
    unfolding R by (rule parses_bind) (rule parses_bytes, simp, rule that)
  show ?thesis
  proof (cases v)
    case (VString s)
    with assms have "length s < 2 ^ 63" by simp
    then have l: "sint (word_of_nat (length s) :: sqint) = int (length s)" by (rule strlen_word)
    have "parses (k (le_bytes 4 (type_code OT_STRING))) (le_bytes 8 (word_of_nat (length s) :: sqint) @ s) (VString s)"
      unfolding k_def Let_def le_word_4 simp_thms if_True
      by (rule parses_bind, rule parses_i64) (simp add: l, rule parses_bind_last, rule parses_bytes, simp_all)
    then show ?thesis unfolding VString enc_obj.simps by (rule I)
  next
    case (VInt i)
    have "parses (k (le_bytes 4 (type_code OT_INTEGER))) (le_bytes 8 i) (VInt i)"
      unfolding k_def Let_def le_word_4
      by (simp add: type_code_eq) (rule parses_bind_last [OF parses_i64], simp)
    then show ?thesis unfolding VInt enc_obj.simps by (rule I)
  next
    case (VBool i)
    have "parses (k (le_bytes 4 (type_code OT_BOOL))) (le_bytes 8 i) (VBool i)"
      unfolding k_def Let_def le_word_4
      by (simp add: type_code_eq) (rule parses_bind_last [OF parses_i64], simp)
    then show ?thesis unfolding VBool enc_obj.simps by (rule I)
  next
    case (VFloat f)
    have "parses (k (le_bytes 4 (type_code OT_FLOAT))) (le_bytes 4 f) (VFloat f)"
      unfolding k_def Let_def le_word_4
      by (simp add: type_code_eq) (rule parses_bind_last [OF parses_bytes], simp_all)
    then show ?thesis unfolding VFloat enc_obj.simps by (rule I)
  next
    case VNull
    have "parses (k (le_bytes 4 (type_code OT_NULL))) [] VNull"
      unfolding k_def Let_def le_word_4 by (simp add: type_code_eq parses_ret)
    from I [OF this] show ?thesis unfolding VNull enc_obj.simps by simp
  next
    case (VOther t)
    with assms show ?thesis by simp
  qed
qed

lemma writes_outer: "sval_ok (ov_src ov) \<Longrightarrow> sval_ok (ov_name ov) \<Longrightarrow> writes (WriteOuterVar wr pad ov) (enc_outer pad ov)"
  unfolding WriteOuterVar_def enc_outer_def by (intro writes_then writes_bytes writes_obj)

lemma writes_local: "sval_ok (lv_name lvi) \<Longrightarrow> writes (WriteLocalVar wr lvi) (enc_local lvi)"
  unfolding WriteLocalVar_def enc_local_def by (intro writes_then writes_obj writes_i64)

lemma parses_local: "sval_ok (lv_name lvi) \<Longrightarrow> parses (ReadLocalVar rd) (enc_local lvi) lvi"
  unfolding ReadLocalVar_def enc_local_def
  by (rule parses_bind, rule parses_obj, assumption, rule parses_bind, rule parses_i64,
      rule parses_bind, rule parses_i64, rule parses_bind_last, rule parses_i64, cases lvi) simp

lemma parses_outer:
  assumes "sval_ok (ov_src ov)" "sval_ok (ov_name ov)"
  shows "parses (ReadOuterVar rd) (enc_outer pad ov) ov"
proof -
  let ?w = "le_word (le_bytes 4 (ov_type ov) @ le_bytes 4 (pad ov)) :: 64 word"
  have w: "ucast ?w = ov_type ov"
  proof (rule bit_word_eqI)
    fix i assume i: "i < LENGTH(32)"
    then have "i div 8 < 4" by (simp add: div_less_iff_less_mult)
    then have "bit ((le_bytes 4 (ov_type ov) @ le_bytes 4 (pad ov)) ! (i div 8)) (i mod 8) \<longleftrightarrow> bit (ov_type ov) i"
      by (simp add: nth_append nth_le_bytes)
    with i show "bit (ucast ?w :: 32 word) i \<longleftrightarrow> bit (ov_type ov) i"
      by (simp add: bit_ucast_iff bit_le_word)
  qed
  have 1: "parses (read_i64 rd) (le_bytes 4 (ov_type ov) @ le_bytes 4 (pad ov)) ?w"
    unfolding read_i64_def by (rule parses_bind_last) (rule parses_bytes, simp_all)
  show ?thesis
    unfolding ReadOuterVar_def enc_outer_def
    by (rule parses_bind, rule 1, rule parses_bind, rule parses_obj, rule assms(1),
        rule parses_bind_last, rule parses_obj, rule assms(2), cases ov) (use w in simp)
qed

lemma fp_SaveAll_each: "fp_SaveAll wr pad fs = s_each (fp_Save wr pad) fs"
  by (induction fs) simp_all

lemma writes_proto: "fproto_ok p \<Longrightarrow> writes (fp_Save wr pad p) (enc_proto pad p)"
proof (induction p)
  case (FProto f fs)
  have "writes (s_each (fp_Save wr pad) fs) (concat (map (enc_proto pad) fs))"
    by (rule writes_each) (use FProto in \<open>auto simp: list_all_iff\<close>)
  note kids = this
  note ok = FProto.prems [unfolded fproto_ok.simps list_all_iff]
  show ?case
    unfolding fp_Save.simps enc_proto.simps fp_SaveAll_each
    by (rule writes_then writes_part writes_obj writes_count kids writes_each writes_outer writes_local
        writes_bytes writes_i64 | use ok in blast)+
qed

lemma parses_count_bytes:
  assumes "\<And>x. length (enc x) = k" "few xs" "n = int k * sint (word_of_nat (length xs) :: sqint)"
  shows "parses (SafeRead rd n) (concat (map enc xs)) (concat (map enc xs))"
  by (rule parses_bytes) (use assms in \<open>simp add: count_word length_concat_const [of enc k]\<close>)

lemma parses_many:
  "few xs \<Longrightarrow> (\<And>x. x \<in> set xs \<Longrightarrow> parses m (enc x) x) \<Longrightarrow>
   parses (s_repeat (unat (word_of_nat (length xs) :: sqint)) m) (concat (map enc xs)) xs"
  by (simp add: count_word parses_repeat)

lemma parses_proto:
  "fproto_ok p \<Longrightarrow> nesting p \<le> fuel \<Longrightarrow> parses (fp_Load rd fuel) (enc_proto pad p) p"
proof (induction p arbitrary: fuel)
  case (FProto f fs)
  obtain k where k: "fuel = Suc k" using FProto.prems(2) by (cases fuel) auto
  have inner: "parses (fp_Load rd k) (enc_proto pad q) q" if "q \<in> set fs" for q
    using FProto that nesting_le [OF that] k by (auto simp: list_all_iff)
  note ok = FProto.prems(1) [unfolded fproto_ok.simps list_all_iff]
  have guard: "list_all count_ok [word_of_nat (length (fp_literals f)), word_of_nat (length (fp_parameters f)),
      word_of_nat (length (fp_outervalues f)), word_of_nat (length (fp_localvarinfos f)),
      word_of_nat (length (fp_lineinfos f)), word_of_nat (length (fp_defaultparams f)),
      word_of_nat (length (fp_instructions f)), word_of_nat (length fs)]"
    using ok by (simp add: count_word(3))
  show ?case
    unfolding k fp_Load.simps enc_proto.simps
    apply (rule parses_bind, rule parses_part)
    apply (rule parses_bind, rule parses_obj, use ok in blast)
    apply (rule parses_bind, rule parses_obj, use ok in blast)
    apply (rule parses_bind, rule parses_part)
    apply (rule parses_bind, rule parses_count)+
    apply (rule parses_bind_guard, rule guard)
    apply (rule parses_bind, rule parses_part)
    apply (rule parses_bind, rule parses_many, use ok in blast, rule parses_obj, use ok in blast)
    apply (rule parses_bind, rule parses_part)
    apply (rule parses_bind, rule parses_many, use ok in blast, rule parses_obj, use ok in blast)
    apply (rule parses_bind, rule parses_part)
    apply (rule parses_bind, rule parses_many, use ok in blast, rule parses_outer, use ok in blast, use ok in blast)
    apply (rule parses_bind, rule parses_part)
    apply (rule parses_bind, rule parses_many, use ok in blast, rule parses_local, use ok in blast)
    apply (rule parses_bind, rule parses_part)
    apply (rule parses_bind, rule parses_count_bytes [of _ 16], simp, use ok in blast, simp)
    apply (rule parses_bind, rule parses_part)
    apply (rule parses_bind, rule parses_count_bytes [of _ 8], simp, use ok in blast, simp)
    apply (rule parses_bind, rule parses_part)
    apply (rule parses_bind, rule parses_count_bytes [of _ 8], simp, use ok in blast, simp)
    apply (rule parses_bind, rule parses_part)
    apply (rule parses_bind, rule parses_many, use ok in blast, erule inner)
    apply (rule parses_bind, rule parses_i64)
    apply (rule parses_bind, rule parses_bytes, simp)
    apply (rule parses_bind_last, rule parses_i64)
    using ok by (cases f) (simp add: count_word chunks_concat [of _ 16] chunks_concat [of _ 8] comp_def)
qed

lemma writes_closure:
  assumes "fproto_ok (cl_function cl)" "fp_outervalues (fp_info (cl_function cl)) = []"
  shows "writes (sq_writeclosure wr pad cl) (enc_closure pad (cl_function cl))"
proof -
  have 1: "writes (cl_Save wr pad cl) (drop 2 (enc_closure pad (cl_function cl)))"
    unfolding cl_Save_def enc_closure_def
    by (simp del: le_bytes.simps) (intro writes_then writes_tag writes_proto assms(1))
  have 2: "enc_closure pad (cl_function cl) =
      le_bytes 2 SQ_BYTECODE_STREAM_TAG @ drop 2 (enc_closure pad (cl_function cl))"
    by (simp add: enc_closure_def del: le_bytes.simps)
  have "writes (s_then (SafeWrite wr (le_bytes 2 SQ_BYTECODE_STREAM_TAG)) (cl_Save wr pad cl))
      (enc_closure pad (cl_function cl))"
    by (subst 2) (intro writes_then writes_bytes 1)
  moreover have "sq_writeclosure wr pad cl c =
      s_then (SafeWrite wr (le_bytes 2 SQ_BYTECODE_STREAM_TAG)) (cl_Save wr pad cl) c"
    if "snd (wr (le_bytes 2 SQ_BYTECODE_STREAM_TAG) c) = 2" for c
    using that assms(2)
    by (simp add: sq_writeclosure_def s_then_def s_bind_def SafeWrite_def case_prod_beta del: le_bytes.simps)
  moreover have "snd (wr (le_bytes 2 SQ_BYTECODE_STREAM_TAG) c) = 2"
    if "ok c" "pending c = []" "length (written c) + length (enc_closure pad (cl_function cl)) < cap" for c
  proof -
    have "length (written c) + length (le_bytes 2 SQ_BYTECODE_STREAM_TAG) < cap"
      using that(3) by (simp add: enc_closure_def)
    from wr_ok [OF that(1,2) this] show ?thesis by auto
  qed
  ultimately show ?thesis unfolding writes_def by metis
qed

lemma parses_cl_Load:
  assumes "fproto_ok p" "nesting p \<le> fuel"
  shows "parses (cl_Load rd fuel) (drop 2 (enc_closure pad p)) (SQClosure_Create p)"
  unfolding cl_Load_def enc_closure_def
  apply (simp del: le_bytes.simps)
  apply (rule parses_bind, rule parses_tag)+
  apply (rule parses_bind, rule parses_proto, rule assms(1), rule assms(2))
  apply (rule parses_bind_last, rule parses_tag, rule refl)
  done

lemma enc_closure_split:
  "enc_closure pad p = le_bytes 2 SQ_BYTECODE_STREAM_TAG @ drop 2 (enc_closure pad p)"
  by (simp add: enc_closure_def del: le_bytes.simps)

lemma readclosure_ok:
  assumes "fproto_ok p" "nesting p \<le> fuel" "ok c" "pending c = enc_closure pad p @ rest"
  shows "\<exists>c'. sq_readclosure rd fuel c = (c', Inr (SQClosure_Create p)) \<and> ok c' \<and> pending c' = rest"
proof -
  have p: "pending c = le_bytes 2 SQ_BYTECODE_STREAM_TAG @ drop 2 (enc_closure pad p) @ rest"
    unfolding assms(4) by (subst enc_closure_split) simp
  then obtain c1 where c1: "rd 2 c = (c1, le_bytes 2 SQ_BYTECODE_STREAM_TAG)" "ok c1"
    "pending c1 = drop 2 (enc_closure pad p) @ rest"
    using rd_ok [OF assms(3), of 2] by (auto simp del: le_bytes.simps)
  then obtain c2 where "cl_Load rd fuel c1 = (c2, Inr (SQClosure_Create p))" "ok c2" "pending c2 = rest"
    using parses_cl_Load [OF assms(1,2), of pad] unfolding parses_def by blast
  with c1 show ?thesis by (simp add: sq_readclosure_def del: le_bytes.simps)
qed

lemma readclosure_truncated:
  assumes "fproto_ok p" "nesting p \<le> fuel" "ok c" "strict_prefix (pending c) (enc_closure pad p)"
    "length (enc_closure pad p) < cap"
  shows "\<exists>c' e. sq_readclosure rd fuel c = (c', Inl (SErr e))"
proof -
  have "strict_prefix (pending c) (le_bytes 2 SQ_BYTECODE_STREAM_TAG @ drop 2 (enc_closure pad p))"
    using assms(4) by (simp only: enc_closure_split [symmetric])
  then consider (tag) "strict_prefix (pending c) (le_bytes 2 SQ_BYTECODE_STREAM_TAG)"
    | (rest) q where "pending c = le_bytes 2 SQ_BYTECODE_STREAM_TAG @ q"
        "strict_prefix q (drop 2 (enc_closure pad p))"
    by (meson strict_prefix_append_cases)
  then show ?thesis
  proof cases
    case tag
    then have "length (pending c) < 2" by (metis length_le_bytes prefix_length_less)
    moreover have "2 < cap" using assms(5) by (simp add: enc_closure_def)
    ultimately have "length (snd (rd (int 2) c)) < 2" by (rule rd_short [OF assms(3)])
    then show ?thesis by (auto simp: sq_readclosure_def case_prod_beta)
  next
    case rest
    then obtain c1 where c1: "rd 2 c = (c1, le_bytes 2 SQ_BYTECODE_STREAM_TAG)" "ok c1" "pending c1 = q"
      using rd_ok [OF assms(3), of 2] by (auto simp del: le_bytes.simps)
    have "length (drop 2 (enc_closure pad p)) < cap" using assms(5) by simp
    with c1 rest(2) obtain c2 where "cl_Load rd fuel c1 = (c2, Inl (SErr io_read_error))"
      using parses_cl_Load [OF assms(1,2), of pad] unfolding parses_def by blast
    with c1 show ?thesis by (simp add: sq_readclosure_def del: le_bytes.simps)
  qed
qed

end

subsection \<open>The blob as a channel\<close>

definition blob_wr :: "sqblob writer" where
  "blob_wr bs b = (case blob_Write bs b of Some (b1, n) \<Rightarrow> (b1, n) | None \<Rightarrow> (b, -1))"

definition blob_rd :: "sqblob reader" where
  "blob_rd n b = (case blob_Read n b of Some (b1, bs) \<Rightarrow> (b1, bs) | None \<Rightarrow> (b, []))"

definition blob_chan_ok :: "sqblob \<Rightarrow> bool" where
  "blob_chan_ok b \<longleftrightarrow> blob_ok b \<and> bl_size b < 2 ^ 61"

definition blob_written :: "sqblob \<Rightarrow> sqchar list" where
  "blob_written b = take (nat (bl_ptr b)) (contents b)"

definition blob_pending :: "sqblob \<Rightarrow> sqchar list" where
  "blob_pending b = drop (nat (bl_ptr b)) (contents b)"

lemma blob_split: "file_of b = (c, p) \<Longrightarrow> blob_written b = take p c" "file_of b = (c, p) \<Longrightarrow> blob_pending b = drop p c"
  by (auto simp: file_of_def blob_written_def blob_pending_def)

interpretation blobch: byte_channel blob_chan_ok blob_written blob_pending blob_wr blob_rd "2 ^ 61"
proof unfold_locales
  fix c and bs :: "sqchar list"
  assume c: "blob_chan_ok c" "blob_pending c = []" "length (blob_written c) + length bs < 2 ^ 61"
  then have ok: "blob_ok c" by (simp add: blob_chan_ok_def)
  have e: "length (contents c) = nat (bl_ptr c)" "bl_ptr c = bl_size c"
    using c(2) blob_okD [OF ok] by (auto simp: blob_pending_def)
  with c have l: "nat (bl_ptr c) + length bs < 2 ^ 61" by (simp add: blob_written_def)
  then have "bl_ptr c + int (length bs) < 2 ^ 62" using blob_okD(1) [OF ok] by simp
  then obtain b where b: "blob_Write bs c = Some (b, int (length bs))" "blob_ok b"
    "file_of b = file_write bs (file_of c)" by (rule blob_Write_file [OF ok])
  have f: "file_of b = (contents c @ bs, length (contents c) + length bs)"
    unfolding b(3) using e by (simp add: file_of_def file_write_def)
  then have "bl_size b = bl_ptr c + int (length bs)"
    using blob_okD(7) [OF b(2)] blob_okD(1) [OF ok] e by (simp add: file_of_def)
  then have "bl_size b < 2 ^ 61" using l by simp
  with b blob_split [OF f] e show "\<exists>c'. blob_wr bs c = (c', int (length bs)) \<and> blob_chan_ok c' \<and>
      blob_written c' = blob_written c @ bs \<and> blob_pending c' = []"
    by (simp add: blob_wr_def blob_chan_ok_def blob_written_def)
next
  fix c n
  assume c: "blob_chan_ok c" "n \<le> length (blob_pending c)"
  then have ok: "blob_ok c" "bl_size c < 2 ^ 62" by (simp_all add: blob_chan_ok_def)
  have n: "int n < 2 ^ 62" using c blob_okD [OF ok(1)] ok(2) by (simp add: blob_pending_def)
  obtain b bs where b: "blob_Read (int n) c = Some (b, bs)" "blob_ok b" "(file_of b, bs) = file_read n (file_of c)"
    using blob_Read_file [OF ok(1) _ n ok(2)] by auto
  have f: "file_of b = (contents c, nat (bl_ptr c) + n)" "bs = take n (blob_pending c)"
    using b(3) c(2) by (auto simp: file_of_def file_read_def Let_def blob_pending_def)
  then have "bl_size b = bl_size c" using blob_okD(7) [OF b(2)] blob_okD(7) [OF ok(1)] by (simp add: file_of_def)
  with b f blob_split(2) [OF f(1)] c(1) show "\<exists>c'. blob_rd (int n) c = (c', take n (blob_pending c)) \<and> blob_chan_ok c' \<and>
      blob_pending c' = drop n (blob_pending c)"
    by (simp add: blob_rd_def blob_chan_ok_def blob_pending_def add.commute)
next
  fix c n
  assume c: "blob_chan_ok c" "length (blob_pending c) < n" "n < 2 ^ 61"
  then have ok: "blob_ok c" "bl_size c < 2 ^ 62" by (simp_all add: blob_chan_ok_def)
  obtain b bs where "blob_Read (int n) c = Some (b, bs)" "(file_of b, bs) = file_read n (file_of c)"
    by (rule blob_Read_file [OF ok(1) _ _ ok(2), of "int n"]) (use c(3) in simp_all)
  with c(2) show "length (snd (blob_rd (int n) c)) < n"
    by (auto simp: blob_rd_def file_of_def file_read_def Let_def blob_pending_def)
qed

text \<open>C17. A closure without free variables written with \<^verbatim>\<open>sq_writeclosure\<close> to an empty blob and
  read back with \<^verbatim>\<open>sq_readclosure\<close> from its start: the bytes are the documented format, reading
  returns a closure of the same function, nested functions, literals, debug information and
  code included, whatever the padding bytes of the outer variables were.  What is lost are
  the values of the default parameters, which are null in the new closure.\<close>

theorem closure_roundtrip:
  assumes "fproto_ok (cl_function cl)" "fp_outervalues (fp_info (cl_function cl)) = []"
    "length (enc_closure pad (cl_function cl)) < 2 ^ 61" "nesting (cl_function cl) \<le> fuel"
  shows "\<exists>b b1 b2 b3. SQBlob_new 0 = Some b \<and> sq_writeclosure blob_wr pad cl b = (b1, Inr ()) \<and>
     contents b1 = enc_closure pad (cl_function cl) \<and> blob_Seek 0 SQ_SEEK_SET b1 = (b2, 0) \<and>
     sq_readclosure blob_rd fuel b2 = (b3, Inr (SQClosure_Create (cl_function cl)))"
proof -
  let ?enc = "enc_closure pad (cl_function cl)"
  obtain b where b: "SQBlob_new 0 = Some b" "blob_ok b" "file_of b = ([], 0)" "bl_size b = 0"
    using SQBlob_new_ok [of 0] by auto
  have ch: "blob_chan_ok b" "blob_pending b = []" "blob_written b = []"
    using b blob_split [OF b(3)] by (simp_all add: blob_chan_ok_def)
  then obtain b1 where b1: "sq_writeclosure blob_wr pad cl b = (b1, Inr ())" "blob_chan_ok b1"
    "blob_pending b1 = []" "blob_written b1 = ?enc"
    using blobch.writes_closure [OF assms(1,2), of pad] assms(3) unfolding blobch.writes_def by auto
  have ok1: "blob_ok b1" using b1(2) by (simp add: blob_chan_ok_def)
  have c1: "contents b1 = ?enc"
    using b1(3,4) by (metis append_Nil2 append_take_drop_id blob_pending_def blob_written_def)
  have "file_seek 0 SQ_SEEK_SET (file_of b1) = ((contents b1, 0), 0)"
    by (simp add: file_seek_def file_of_def)
  then obtain b2 where b2: "blob_Seek 0 SQ_SEEK_SET b1 = (b2, 0)" "blob_ok b2" "file_of b2 = (contents b1, 0)"
    using blob_Seek_file [OF ok1, of 0 SQ_SEEK_SET] by auto
  then have "bl_size b2 = bl_size b1"
    using blob_okD(7) [OF ok1] blob_okD(7) [OF b2(2)] by (simp add: file_of_def)
  with b1(2) b2 have "blob_chan_ok b2" by (simp add: blob_chan_ok_def)
  moreover have "blob_pending b2 = ?enc @ []" using blob_split(2) [OF b2(3)] c1 by simp
  ultimately obtain b3 where "sq_readclosure blob_rd fuel b2 = (b3, Inr (SQClosure_Create (cl_function cl)))"
    using blobch.readclosure_ok [OF assms(1,4), of b2 pad "[]"] by blast
  with b b1 c1 b2 show ?thesis by blast
qed

definition sample_proto :: fproto where
  "sample_proto = FProto
     \<lparr> fp_sourcename = VString [97], fp_name = VNull, fp_stacksize = 3, fp_bgenerator = True, fp_varparams = 0,
       fp_localvarinfos = [\<lparr> lv_name = VString [120], lv_start_op = 0, lv_end_op = 1, lv_pos = 1 \<rparr>],
       fp_lineinfos = [\<lparr> li_line = 1, li_op = 0 \<rparr>], fp_literals = [VInt 5, VFloat 0x3F800000],
       fp_parameters = [VString [116]], fp_outervalues = [], fp_defaultparams = [1],
       fp_instructions = [\<lparr> i_arg1 = 7, i_op = 1, i_arg0 = 0, i_arg2 = 0, i_arg3 = 0 \<rparr>] \<rparr> []"

theorem closure_roundtrip_witness:
  "\<exists>b b1 b2 b3. SQBlob_new 0 = Some b \<and>
     sq_writeclosure blob_wr (\<lambda>_. 0) (SQClosure_Create sample_proto) b = (b1, Inr ()) \<and>
     contents b1 = enc_closure (\<lambda>_. 0) sample_proto \<and> blob_Seek 0 SQ_SEEK_SET b1 = (b2, 0) \<and>
     sq_readclosure blob_rd 1 b2 = (b3, Inr (SQClosure_Create sample_proto))"
  using closure_roundtrip [of "SQClosure_Create sample_proto" "\<lambda>_. 0" 1]
  by (simp add: sample_proto_def SQClosure_Create_def few_def enc_closure_def enc_count_def enc_part_def
      enc_local_def length_concat)

text \<open>C18. A closure stream that is cut short anywhere is refused: reading any proper prefix of the
  encoding of a closure from a blob ends in an error, never in a closure or a memory error.\<close>

theorem truncated_stream_refused:
  assumes "fproto_ok p" "nesting p \<le> fuel" "length (enc_closure pad p) < 2 ^ 61"
    "blob_ok b" "bl_ptr b = 0" "strict_prefix (contents b) (enc_closure pad p)"
  shows "\<exists>b' e. sq_readclosure blob_rd fuel b = (b', Inl (SErr e))"
proof -
  have l: "length (contents b) < 2 ^ 61"
    using assms(3,6) by (meson order.strict_trans prefix_length_less)
  then have "blob_chan_ok b"
    using assms(4) blob_okD(7) [OF assms(4)] by (simp add: blob_chan_ok_def)
  moreover have "blob_pending b = contents b" using assms(5) by (simp add: blob_pending_def)
  ultimately show ?thesis
    using blobch.readclosure_truncated [OF assms(1,2), of b pad] assms(3,6) by simp
qed

theorem truncated_stream_refused_witness:
  "\<exists>b b' e. SQBlob_new 0 = Some b \<and> sq_readclosure blob_rd 1 b = (b', Inl (SErr e))"
proof -
  obtain b where b: "SQBlob_new 0 = Some b" "blob_ok b" "file_of b = ([], 0)" "bl_size b = 0"
    using SQBlob_new_ok [of 0] by auto
  then have "contents b = []" "bl_ptr b = 0" using blob_okD(1) [OF b(2)] by (simp_all add: file_of_def)
  moreover have "strict_prefix [] (enc_closure (\<lambda>_. 0) sample_proto)"
    by (simp add: enc_closure_def strict_prefix_def)
  moreover have "length (enc_closure (\<lambda>_. 0) sample_proto) < 2 ^ 61"
    by (simp add: sample_proto_def enc_closure_def enc_count_def enc_part_def enc_local_def)
  ultimately show ?thesis
    using b truncated_stream_refused [of sample_proto 1 "\<lambda>_. 0" b]
    by (simp add: sample_proto_def few_def)
qed

end
