(* ===== verification/Sq_FuncInfo.thy ===== *)
theory Sq_FuncInfo
  imports Sq_Serialize
begin

text \<open>
  Debug information of a function prototype: the line of an instruction
  (\<^verbatim>\<open>SQFunctionProto::GetLine\<close>, a binary search) and the live local variables
  (\<^verbatim>\<open>GetLocal\<close>).
\<close>

subsection \<open>Line of an instruction\<close>

text \<open>The loop of the binary search; \<open>ops\<close> are the instruction numbers of the line infos, the
  result is the last \<^verbatim>\<open>mid\<close>.\<close>

function line_search :: "int list \<Rightarrow> int \<Rightarrow> int \<Rightarrow> int \<Rightarrow> int \<Rightarrow> int" where
  "line_search ops op low high mid =
     (if low \<le> high then
        (let mid = low + (high - low) div 2; curop = ops ! nat mid in
         if curop > op then line_search ops op low (mid - 1) mid
         else if curop < op then
           (if mid < int (length ops) - 1 \<and> ops ! nat (mid + 1) \<ge> op then mid
            else line_search ops op (mid + 1) high mid)
         else mid)
      else mid)"
  by auto
termination
  by (relation "measure (\<lambda>(ops, op, low, high, mid). nat (high - low + 1))") auto

declare line_search.simps [simp del]

text \<open>\<^verbatim>\<open>while(mid > 0 && _lineinfos[mid]._op >= op) mid--\<close>\<close>

fun line_back :: "int list \<Rightarrow> int \<Rightarrow> nat \<Rightarrow> nat" where
  "line_back ops op 0 = 0"
| "line_back ops op (Suc mid) = (if ops ! Suc mid \<ge> op then line_back ops op mid else Suc mid)"

text \<open>\<open>None\<close>: there is no line info and the code reads past the array.\<close>

definition GetLine :: "sqlineinfo list \<Rightarrow> int \<Rightarrow> sqint option" where
  "GetLine lis op =
     (if lis = [] then None
      else let ops = map (sint \<circ> li_op) lis;
               mid = line_search ops op 0 (int (length lis) - 1) 0
           in Some (li_line (lis ! line_back ops op (nat mid))))"

subsection \<open>Live local variables\<close>

fun local_scan :: "squint \<Rightarrow> squint \<Rightarrow> sqlocalvarinfo list \<Rightarrow> sqlocalvarinfo option" where
  "local_scan nseq nop [] = None"
| "local_scan nseq nop (l # ls) =
     (if lv_start_op l \<le> nop \<and> lv_end_op l \<ge> nop then
        (if nseq = 0 then Some l else local_scan (nseq - 1) nop ls)
      else local_scan nseq nop ls)"

text \<open>The name and the stack position of the value that is pushed.\<close>

definition GetLocal :: "sqlocalvarinfo list \<Rightarrow> squint \<Rightarrow> squint \<Rightarrow> squint \<Rightarrow> (sval \<times> squint) option" where
  "GetLocal lvis stackbase nseq nop =
     (if word_of_nat (length lvis) \<ge> nseq
      then map_option (\<lambda>l. (lv_name l, stackbase + lv_pos l)) (local_scan nseq nop lvis)
      else None)"

subsection \<open>The search is right\<close>

definition below :: "int list \<Rightarrow> int \<Rightarrow> nat" where
  "below ops op = length (takeWhile (\<lambda>x. x < op) ops)"

lemma below_le: "below ops op \<le> length ops"
  by (simp add: below_def length_takeWhile_le)

lemma below_iff:
  assumes "sorted ops" "i < length ops"
  shows "ops ! i < op \<longleftrightarrow> i < below ops op"
proof
  assume "i < below ops op"
  then show "ops ! i < op"
    unfolding below_def by (metis nth_mem set_takeWhileD takeWhile_nth)
next
  assume a: "ops ! i < op"
  show "i < below ops op"
  proof (rule ccontr)
    assume "\<not> i < below ops op"
    then have b: "below ops op \<le> i" by simp
    then have "below ops op < length ops" using assms by simp
    then have "\<not> ops ! below ops op < op"
      unfolding below_def by (rule nth_length_takeWhile)
    moreover have "ops ! below ops op \<le> ops ! i" using assms b by (intro sorted_nth_mono) auto
    ultimately show False using a by simp
  qed
qed

lemma line_search_result:
  assumes "sorted ops" "0 \<le> low" "high < int (length ops)" "low \<le> int (below ops op)"
    "int (below ops op) \<le> high + 1" "0 \<le> mid" "mid < int (length ops)"
    "low \<le> high \<or> int (below ops op) - 1 \<le> mid"
  shows "int (below ops op) - 1 \<le> line_search ops op low high mid \<and>
         0 \<le> line_search ops op low high mid \<and> line_search ops op low high mid < int (length ops)"
  using assms
proof (induction ops op low high mid rule: line_search.induct)
  case (1 ops op low high mid)
  show ?case
  proof (cases "low \<le> high")
    case False
    with "1.prems" show ?thesis by (subst (1 2 3) line_search.simps) simp
  next
    case True
    define m where "m = low + (high - low) div 2"
    have m: "low \<le> m" "m \<le> high" "0 \<le> m" "m < int (length ops)" using True "1.prems" by (auto simp: m_def)
    have lt: "ops ! nat m < op \<longleftrightarrow> m < int (below ops op)"
      using below_iff [OF "1.prems"(1), of "nat m" op] m by auto
    have R: "line_search ops op low high mid =
        (if ops ! nat m > op then line_search ops op low (m - 1) m
         else if ops ! nat m < op then
           (if m < int (length ops) - 1 \<and> ops ! nat (m + 1) \<ge> op then m else line_search ops op (m + 1) high m)
         else m)"
      using True by (subst line_search.simps) (simp add: m_def Let_def)
    consider (gt) "ops ! nat m > op" | (stop) "ops ! nat m < op" "m < int (length ops) - 1 \<and> ops ! nat (m + 1) \<ge> op"
      | (right) "ops ! nat m < op" "\<not> (m < int (length ops) - 1 \<and> ops ! nat (m + 1) \<ge> op)"
      | (eq) "ops ! nat m = op" by linarith
    then show ?thesis
    proof cases
      case gt
      then have "int (below ops op) \<le> m" using lt by linarith
      with gt R "1.IH"(1) [OF True m_def refl gt] "1.prems" m show ?thesis by simp
    next
      case stop
      then have "\<not> ops ! nat (m + 1) < op" by simp
      moreover have n: "nat (m + 1) < length ops" using stop m by linarith
      ultimately have "\<not> nat (m + 1) < below ops op"
        using below_iff [OF "1.prems"(1) n, of op] by blast
      then have "\<not> m + 1 < int (below ops op)" using m by linarith
      with stop R m show ?thesis by simp
    next
      case right
      then have b: "m < int (below ops op)" "\<not> ops ! nat m > op" using lt by simp_all
      then have "m + 1 \<le> high \<or> int (below ops op) - 1 \<le> m" using "1.prems"(5) m by linarith
      with b m "1.IH"(2) [OF True m_def refl b(2) right] "1.prems"
      have "int (below ops op) - 1 \<le> line_search ops op (m + 1) high m \<and>
          0 \<le> line_search ops op (m + 1) high m \<and> line_search ops op (m + 1) high m < int (length ops)"
        by simp
      moreover have "line_search ops op low high mid = line_search ops op (m + 1) high m"
        using R b(2) right by simp
      ultimately show ?thesis by simp
    next
      case eq
      then have "int (below ops op) \<le> m" using lt by linarith
      with eq R m show ?thesis by simp
    qed
  qed
qed

lemma line_back_result:
  assumes "sorted ops" "mid < length ops" "int (below ops op) - 1 \<le> int mid"
  shows "line_back ops op mid = below ops op - 1"
  using assms(2,3)
proof (induction mid)
  case 0
  then show ?case by simp
next
  case (Suc mid)
  have "ops ! Suc mid < op \<longleftrightarrow> Suc mid < below ops op" by (rule below_iff [OF assms(1)]) (use Suc in simp)
  with Suc show ?case by auto
qed

text \<open>C19. For line infos ordered by instruction number, which may repeat, \<^verbatim>\<open>GetLine\<close> returns the
  line of the last entry before the instruction, the first entry when there is none: the binary
  search with its two early exits agrees with a linear scan.\<close>

theorem GetLine_scan:
  assumes "lis \<noteq> []" "sorted (map (sint \<circ> li_op) lis)"
  shows "GetLine lis op = Some (li_line (lis ! (length (takeWhile (\<lambda>l. sint (li_op l) < op) lis) - 1)))"
proof -
  let ?ops = "map (sint \<circ> li_op) lis"
  have b: "below ?ops op = length (takeWhile (\<lambda>l. sint (li_op l) < op) lis)"
    by (simp add: below_def takeWhile_map comp_def)
  have "0 < int (length lis)" using assms(1) by simp
  then have *: "int (below ?ops op) - 1 \<le> line_search ?ops op 0 (int (length lis) - 1) 0 \<and>
      0 \<le> line_search ?ops op 0 (int (length lis) - 1) 0 \<and>
      line_search ?ops op 0 (int (length lis) - 1) 0 < int (length ?ops)"
    using below_le [of ?ops op] by (intro line_search_result [OF assms(2)]) auto
  then have "line_back ?ops op (nat (line_search ?ops op 0 (int (length lis) - 1) 0)) = below ?ops op - 1"
    by (intro line_back_result [OF assms(2)]) auto
  with assms(1) b show ?thesis by (simp add: GetLine_def Let_def)
qed

theorem GetLine_scan_witness:
  "GetLine [\<lparr> li_line = 10, li_op = 0 \<rparr>, \<lparr> li_line = 11, li_op = 4 \<rparr>, \<lparr> li_line = 13, li_op = 9 \<rparr>] 6 = Some 11"
  by (subst GetLine_scan) simp_all

end
