(* ===== verification/Sq_Class.thy ===== *)
theory Sq_Class
  imports Sq_Table_Correct Sq_Operators
begin

text \<open>
  Classes and instances (\<^verbatim>\<open>sqclass.h\<close>, \<^verbatim>\<open>sqclass.cpp\<close>): the member table that maps a
  key to a field or method index, the vectors of default values and methods, inheritance by
  copy, locking, and instances with their own field values.

  A class is a record; \<^verbatim>\<open>_base\<close> is the address of another class, so the operations that
  follow it (\<^verbatim>\<open>Lock\<close>, \<^verbatim>\<open>InstanceOf\<close>) take the store of classes.
\<close>

subsection \<open>State\<close>

record sqclassmember =
  cm_val :: sqobject
  cm_attrs :: sqobject

record sqclass =
  c_members :: sqtable
  c_base :: "addr option"
  c_defaultvalues :: "sqclassmember list"
  c_methods :: "sqclassmember list"
  c_metamethods :: "sqobject list"
  c_attributes :: sqobject
  c_locked :: bool
  c_constructoridx :: int
  c_udsize :: int

record sqinstance =
  in_class :: addr
  in_values :: "sqobject list"

text \<open>What a class uses of the shared state: the hash of keys, the objects behind weak
  references, the map of metamethod names, the string \<^verbatim>\<open>constructor\<close>, and the clone of a script
  closure whose base is set.\<close>

record class_env =
  ce_hsh :: "sqobject \<Rightarrow> sqhash"
  ce_deref :: "addr \<Rightarrow> sqobject"
  ce_mmmap :: sqtable
  ce_ctor :: sqobject
  ce_rebase :: "addr \<Rightarrow> addr \<Rightarrow> sqobject"

definition realval :: "(addr \<Rightarrow> sqobject) \<Rightarrow> sqobject \<Rightarrow> sqobject" where
  "realval deref ob = (case ob of OWeakRef a \<Rightarrow> deref a | _ \<Rightarrow> ob)"

abbreviation ce_get :: "class_env \<Rightarrow> sqtable \<Rightarrow> sqobject \<Rightarrow> sqobject option option" where
  "ce_get env \<equiv> tbl_Get (ce_hsh env) (realval (ce_deref env))"

definition MT_LAST :: nat where "MT_LAST = 18"

definition MEMBER_TYPE_METHOD :: sqint where "MEMBER_TYPE_METHOD = 0x01000000"
definition MEMBER_TYPE_FIELD :: sqint where "MEMBER_TYPE_FIELD = 0x02000000"
definition MEMBER_MAX_COUNT :: int where "MEMBER_MAX_COUNT = 0x00FFFFFF"

definition ismethod :: "sqobject \<Rightarrow> bool" where
  "ismethod ob \<longleftrightarrow> rawval ob AND MEMBER_TYPE_METHOD \<noteq> 0"

definition isfield :: "sqobject \<Rightarrow> bool" where
  "isfield ob \<longleftrightarrow> rawval ob AND MEMBER_TYPE_FIELD \<noteq> 0"

definition make_method_idx :: "nat \<Rightarrow> sqobject" where
  "make_method_idx i = OInteger (MEMBER_TYPE_METHOD OR word_of_nat i)"

definition make_field_idx :: "nat \<Rightarrow> sqobject" where
  "make_field_idx i = OInteger (MEMBER_TYPE_FIELD OR word_of_nat i)"

definition member_idx :: "sqobject \<Rightarrow> nat" where
  "member_idx ob = unat (rawval ob AND 0x00FFFFFF)"

subsection \<open>Classes\<close>

definition SQClass_new :: "class_env \<Rightarrow> (addr \<times> sqclass) option \<Rightarrow> sqclass option" where
  "SQClass_new env base =
     (case base of
        None \<Rightarrow>
          Some \<lparr> c_members = SQTable_new 0, c_base = None, c_defaultvalues = [], c_methods = [],
                 c_metamethods = replicate MT_LAST ONull, c_attributes = ONull, c_locked = False,
                 c_constructoridx = -1, c_udsize = 0 \<rparr>
      | Some (a, b) \<Rightarrow> do {
          members \<leftarrow> tbl_Clone (ce_hsh env) (c_members b);
          Some \<lparr> c_members = members, c_base = Some a, c_defaultvalues = c_defaultvalues b,
                 c_methods = c_methods b, c_metamethods = c_metamethods b, c_attributes = ONull,
                 c_locked = False, c_constructoridx = c_constructoridx b, c_udsize = c_udsize b \<rparr> })"

definition GetMetaMethodIdxByName :: "class_env \<Rightarrow> sqobject \<Rightarrow> int option" where
  "GetMetaMethodIdxByName env name =
     (if sq_type name \<noteq> OT_STRING then Some (-1)
      else do { r \<leftarrow> ce_get env (ce_mmmap env) name;
                Some (case r of Some ret \<Rightarrow> sint (rawval ret) | None \<Rightarrow> -1) })"

definition is_closure :: "sqobject \<Rightarrow> bool" where
  "is_closure ob \<longleftrightarrow> sq_type ob = OT_CLOSURE \<or> sq_type ob = OT_NATIVECLOSURE"

text \<open>\<^verbatim>\<open>NewSlot\<close>; \<open>None\<close> when a vector is indexed out of range or a table operation does not
  return.  The flag is the result of the C++.\<close>

definition set_member_val :: "sqclassmember list \<Rightarrow> nat \<Rightarrow> sqobject \<Rightarrow> sqclassmember list option" where
  "set_member_val ms i v = (if i < length ms then Some (ms[i := (ms ! i)\<lparr> cm_val := v \<rparr>]) else None)"

definition class_NewSlot ::
  "class_env \<Rightarrow> sqclass \<Rightarrow> sqobject \<Rightarrow> sqobject \<Rightarrow> bool \<Rightarrow> (sqclass \<times> bool) option" where
  "class_NewSlot env c key val bstatic =
     (let belongs_to_static_table = is_closure val \<or> bstatic in
      if c_locked c \<and> \<not> belongs_to_static_table then Some (c, False)
      else do {
        found \<leftarrow> ce_get env (c_members c) key;
        let temp = (case found of Some v \<Rightarrow> v | None \<Rightarrow> ONull);
        if found \<noteq> None \<and> isfield temp then do {
          dv \<leftarrow> set_member_val (c_defaultvalues c) (member_idx temp) val;
          Some (c\<lparr> c_defaultvalues := dv \<rparr>, True)
        }
        else if usednodes (c_members c) \<ge> MEMBER_MAX_COUNT then Some (c, False)
        else if belongs_to_static_table then do {
          mmidx \<leftarrow> (if is_closure val then GetMetaMethodIdxByName env key else Some (-1));
          if is_closure val \<and> mmidx \<noteq> -1 then
            (if 0 \<le> mmidx \<and> nat mmidx < length (c_metamethods c)
             then Some (c\<lparr> c_metamethods := (c_metamethods c)[nat mmidx := val] \<rparr>, True)
             else None)
          else
            (let theval = (case (c_base c, val) of (Some b, OClosure a) \<Rightarrow> ce_rebase env a b | _ \<Rightarrow> val) in
             if temp = ONull then do {
               let c1 = (if IsEqual (ce_ctor env) key
                         then c\<lparr> c_constructoridx := int (length (c_methods c)) \<rparr> else c);
               (members, _) \<leftarrow> NewSlot (ce_hsh env) (c_members c) key (make_method_idx (length (c_methods c)));
               Some (c1\<lparr> c_members := members,
                         c_methods := c_methods c @ [\<lparr> cm_val = theval, cm_attrs = ONull \<rparr>] \<rparr>, True)
             }
             else do {
               ms \<leftarrow> set_member_val (c_methods c) (member_idx temp) theval;
               Some (c\<lparr> c_methods := ms \<rparr>, True)
             })
        }
        else do {
          (members, _) \<leftarrow> NewSlot (ce_hsh env) (c_members c) key (make_field_idx (length (c_defaultvalues c)));
          Some (c\<lparr> c_members := members,
                   c_defaultvalues := c_defaultvalues c @ [\<lparr> cm_val = val, cm_attrs = ONull \<rparr>] \<rparr>, True)
        }
      })"

definition nth_opt :: "'a list \<Rightarrow> nat \<Rightarrow> 'a option" where
  "nth_opt xs i = (if i < length xs then Some (xs ! i) else None)"

definition class_Get :: "class_env \<Rightarrow> sqclass \<Rightarrow> sqobject \<Rightarrow> sqobject option option" where
  "class_Get env c key = do {
     found \<leftarrow> ce_get env (c_members c) key;
     case found of
       None \<Rightarrow> Some None
     | Some v \<Rightarrow>
         (if isfield v then do {
            m \<leftarrow> nth_opt (c_defaultvalues c) (member_idx v);
            Some (Some (realval (ce_deref env) (cm_val m))) }
          else do {
            m \<leftarrow> nth_opt (c_methods c) (member_idx v);
            Some (Some (cm_val m)) }) }"

definition GetConstructor :: "sqclass \<Rightarrow> sqobject option option" where
  "GetConstructor c =
     (if c_constructoridx c \<noteq> -1 then
        map_option (Some \<circ> cm_val) (nth_opt (c_methods c) (nat (c_constructoridx c)))
      else Some None)"

definition class_SetAttributes :: "class_env \<Rightarrow> sqclass \<Rightarrow> sqobject \<Rightarrow> sqobject \<Rightarrow> (sqclass \<times> bool) option" where
  "class_SetAttributes env c key val = do {
     found \<leftarrow> ce_get env (c_members c) key;
     case found of
       None \<Rightarrow> Some (c, False)
     | Some idx \<Rightarrow>
         (if isfield idx then do {
            m \<leftarrow> nth_opt (c_defaultvalues c) (member_idx idx);
            Some (c\<lparr> c_defaultvalues := (c_defaultvalues c)[member_idx idx := m\<lparr> cm_attrs := val \<rparr>] \<rparr>, True) }
          else do {
            m \<leftarrow> nth_opt (c_methods c) (member_idx idx);
            Some (c\<lparr> c_methods := (c_methods c)[member_idx idx := m\<lparr> cm_attrs := val \<rparr>] \<rparr>, True) }) }"

definition class_GetAttributes :: "class_env \<Rightarrow> sqclass \<Rightarrow> sqobject \<Rightarrow> sqobject option option" where
  "class_GetAttributes env c key = do {
     found \<leftarrow> ce_get env (c_members c) key;
     case found of
       None \<Rightarrow> Some None
     | Some idx \<Rightarrow>
         map_option (Some \<circ> cm_attrs)
           (nth_opt (if isfield idx then c_defaultvalues c else c_methods c) (member_idx idx)) }"

text \<open>\<^verbatim>\<open>Next\<close>: the next position, key and value; the inner \<open>None\<close> is the result -1.\<close>

definition class_Next ::
  "class_env \<Rightarrow> sqclass \<Rightarrow> sqobject \<Rightarrow> (sqint \<times> sqobject \<times> sqobject) option option" where
  "class_Next env c refpos = do {
     r \<leftarrow> tbl_Next (realval (ce_deref env)) (c_members c) False refpos;
     case r of
       None \<Rightarrow> Some None
     | Some (idx, outkey, oval) \<Rightarrow>
         (if ismethod oval then do {
            m \<leftarrow> nth_opt (c_methods c) (member_idx oval);
            Some (Some (idx, outkey, cm_val m)) }
          else do {
            m \<leftarrow> nth_opt (c_defaultvalues c) (member_idx oval);
            Some (Some (idx, outkey, realval (ce_deref env) (cm_val m))) }) }"

text \<open>\<^verbatim>\<open>Lock\<close> goes up the chain of bases; \<open>None\<close> for a chain that does not end or a dangling
  base.\<close>

partial_function (option) class_Lock :: "(addr \<Rightarrow> sqclass option) \<Rightarrow> addr \<Rightarrow> (addr \<Rightarrow> sqclass option) option" where
  "class_Lock cls a =
     (case cls a of
        None \<Rightarrow> None
      | Some c \<Rightarrow>
          (let cls1 = cls(a := Some (c\<lparr> c_locked := True \<rparr>)) in
           case c_base c of None \<Rightarrow> Some cls1 | Some b \<Rightarrow> class_Lock cls1 b))"

declare class_Lock.simps [code]

subsection \<open>Instances\<close>

definition SQInstance_new :: "addr \<Rightarrow> sqclass \<Rightarrow> sqinstance" where
  "SQInstance_new a c = \<lparr> in_class = a, in_values = map cm_val (c_defaultvalues c) \<rparr>"

definition CreateInstance ::
  "(addr \<Rightarrow> sqclass option) \<Rightarrow> addr \<Rightarrow> ((addr \<Rightarrow> sqclass option) \<times> sqinstance) option" where
  "CreateInstance cls a = do {
     c \<leftarrow> cls a;
     cls1 \<leftarrow> (if \<not> c_locked c then class_Lock cls a else Some cls);
     c1 \<leftarrow> cls1 a;
     Some (cls1, SQInstance_new a c1) }"

text \<open>\<^verbatim>\<open>Clone\<close> copies as many values as the class has fields.\<close>

definition instance_Clone :: "sqclass \<Rightarrow> sqinstance \<Rightarrow> sqinstance option" where
  "instance_Clone c i =
     (if length (c_defaultvalues c) \<le> length (in_values i)
      then Some (i\<lparr> in_values := take (length (c_defaultvalues c)) (in_values i) \<rparr>) else None)"

definition instance_Get :: "class_env \<Rightarrow> sqclass \<Rightarrow> sqinstance \<Rightarrow> sqobject \<Rightarrow> sqobject option option" where
  "instance_Get env c i key = do {
     found \<leftarrow> ce_get env (c_members c) key;
     case found of
       None \<Rightarrow> Some None
     | Some v \<Rightarrow>
         (if isfield v then do {
            m \<leftarrow> nth_opt (in_values i) (member_idx v);
            Some (Some (realval (ce_deref env) m)) }
          else do {
            m \<leftarrow> nth_opt (c_methods c) (member_idx v);
            Some (Some (cm_val m)) }) }"

definition instance_Set ::
  "class_env \<Rightarrow> sqclass \<Rightarrow> sqinstance \<Rightarrow> sqobject \<Rightarrow> sqobject \<Rightarrow> (sqinstance \<times> bool) option" where
  "instance_Set env c i key val = do {
     found \<leftarrow> ce_get env (c_members c) key;
     case found of
       None \<Rightarrow> Some (i, False)
     | Some idx \<Rightarrow>
         (if isfield idx then
            (if member_idx idx < length (in_values i)
             then Some (i\<lparr> in_values := (in_values i)[member_idx idx := val] \<rparr>, True) else None)
          else Some (i, False)) }"

definition instance_GetMetaMethod :: "sqclass \<Rightarrow> nat \<Rightarrow> sqobject option" where
  "instance_GetMetaMethod c mm =
     (if sq_type (c_metamethods c ! mm) \<noteq> OT_NULL then Some (c_metamethods c ! mm) else None)"

text \<open>\<^verbatim>\<open>InstanceOf\<close> walks the chain of bases; \<open>None\<close> as for \<^verbatim>\<open>Lock\<close>.\<close>

partial_function (option) class_walk :: "(addr \<Rightarrow> sqclass option) \<Rightarrow> addr \<Rightarrow> addr \<Rightarrow> bool option" where
  "class_walk cls parent trg =
     (if parent = trg then Some True
      else case cls parent of
        None \<Rightarrow> None
      | Some c \<Rightarrow> (case c_base c of None \<Rightarrow> Some False | Some b \<Rightarrow> class_walk cls b trg))"

declare class_walk.simps [code]

definition InstanceOf :: "(addr \<Rightarrow> sqclass option) \<Rightarrow> sqinstance \<Rightarrow> addr \<Rightarrow> bool option" where
  "InstanceOf cls i trg = class_walk cls (in_class i) trg"

text \<open>\<^verbatim>\<open>SQVM::CreateClassInstance\<close>: the instance and the constructor, null when there is none.\<close>

definition CreateClassInstance ::
  "(addr \<Rightarrow> sqclass option) \<Rightarrow> addr \<Rightarrow> ((addr \<Rightarrow> sqclass option) \<times> sqinstance \<times> sqobject) option" where
  "CreateClassInstance cls a = do {
     (cls1, i) \<leftarrow> CreateInstance cls a;
     c \<leftarrow> cls1 a;
     ctor \<leftarrow> GetConstructor c;
     Some (cls1, i, case ctor of Some f \<Rightarrow> f | None \<Rightarrow> ONull) }"

end
