(* ===== verification/Sq_Class_Correct.thy ===== *)
theory Sq_Class_Correct
  imports Sq_Class
begin

text \<open>
  The class invariant: every member index of a reachable class is inside its vector, two
  members never share a slot and the counts stay below \<open>MEMBER_MAX_COUNT\<close>, so the 24-bit
  index field is never exceeded.  On top of it, what NewSlot, inheritance, instances and
  InstanceOf do.
\<close>

subsection \<open>Member indices\<close>

lemma idx_word:
  assumes "i \<le> 0xFFFFFF"
  shows "(word_of_nat i :: 64 word) AND 0xFFFFFF = word_of_nat i"
    and "(word_of_nat i :: 64 word) AND 0x01000000 = 0"
    and "(word_of_nat i :: 64 word) AND 0x02000000 = 0"
    and "unat (word_of_nat i :: 64 word) = i"
proof -
  let ?w = "word_of_nat i :: 64 word"
  have m24: "mask 24 = (0xFFFFFF :: 64 word)" by (simp add: mask_eq_exp_minus_1)
  have "take_bit 24 ?w = ?w" using assms by (simp add: take_bit_of_nat take_bit_nat_eq_self)
  then show m: "?w AND 0xFFFFFF = ?w" by (simp only: take_bit_eq_mask m24)
  have outside: "?w AND x = 0" if "0xFFFFFF AND x = 0" for x
    using arg_cong [OF m, of "\<lambda>y. y AND x"] that by (simp add: and.assoc)
  show "?w AND 0x01000000 = 0" by (rule outside) simp
  show "?w AND 0x02000000 = 0" by (rule outside) simp
  show "unat ?w = i" using assms by (simp add: unat_of_nat)
qed

lemma field_idx [simp]:
  assumes "i \<le> 0xFFFFFF"
  shows "isfield (make_field_idx i)" "\<not> ismethod (make_field_idx i)" "member_idx (make_field_idx i) = i"
  using idx_word [OF assms]
  by (simp_all add: isfield_def ismethod_def member_idx_def make_field_idx_def MEMBER_TYPE_FIELD_def
      MEMBER_TYPE_METHOD_def bit.conj_disj_distrib2)

lemma method_idx [simp]:
  assumes "i \<le> 0xFFFFFF"
  shows "\<not> isfield (make_method_idx i)" "ismethod (make_method_idx i)" "member_idx (make_method_idx i) = i"
  using idx_word [OF assms]
  by (simp_all add: isfield_def ismethod_def member_idx_def make_method_idx_def MEMBER_TYPE_FIELD_def
      MEMBER_TYPE_METHOD_def bit.conj_disj_distrib2)

lemma make_idx_eq [simp]:
  assumes "i \<le> 0xFFFFFF" "j \<le> 0xFFFFFF"
  shows "make_field_idx i = make_field_idx j \<longleftrightarrow> i = j"
    and "make_method_idx i = make_method_idx j \<longleftrightarrow> i = j"
    and "make_field_idx i \<noteq> make_method_idx j"
    and "make_method_idx j \<noteq> make_field_idx i"
  using field_idx [OF assms(1)] field_idx [OF assms(2)] method_idx [OF assms(1)] method_idx [OF assms(2)]
  by metis+

lemma make_idx_not_null [simp]: "make_field_idx i \<noteq> ONull" "make_method_idx i \<noteq> ONull"
  by (simp_all add: make_field_idx_def make_method_idx_def)

lemma realval_idx [simp]:
  "realval d (make_field_idx i) = make_field_idx i" "realval d (make_method_idx i) = make_method_idx i"
  "realval d ONull = ONull"
  by (simp_all add: make_field_idx_def make_method_idx_def realval_def)

subsection \<open>The invariant\<close>

abbreviation mmap :: "sqclass \<Rightarrow> sqobject \<rightharpoonup> sqobject" where
  "mmap c \<equiv> table_map (c_members c)"

definition members_ok :: "(sqobject \<rightharpoonup> sqobject) \<Rightarrow> nat \<Rightarrow> nat \<Rightarrow> bool" where
  "members_ok m nf nm \<longleftrightarrow>
     (\<forall>k v. m k = Some v \<longrightarrow> (\<exists>i<nf. v = make_field_idx i) \<or> (\<exists>i<nm. v = make_method_idx i)) \<and>
     (\<forall>k k' v. m k = Some v \<longrightarrow> m k' = Some v \<longrightarrow> k = k') \<and>
     nf \<le> card {k. \<exists>i<nf. m k = Some (make_field_idx i)} \<and> nm \<le> card (dom m) \<and> finite (dom m)"

definition class_ok :: "class_env \<Rightarrow> sqclass \<Rightarrow> bool" where
  "class_ok env c \<longleftrightarrow>
     wf_table (ce_hsh env) (c_members c) \<and> usednodes (c_members c) \<le> MEMBER_MAX_COUNT \<and>
     members_ok (mmap c) (length (c_defaultvalues c)) (length (c_methods c)) \<and>
     length (c_metamethods c) = MT_LAST \<and>
     (c_constructoridx c = -1 \<or> 0 \<le> c_constructoridx c \<and> nat (c_constructoridx c) < length (c_methods c))"

definition env_ok :: "class_env \<Rightarrow> bool" where
  "env_ok env \<longleftrightarrow>
     wf_table (ce_hsh env) (ce_mmmap env) \<and>
     (\<forall>k v. table_map (ce_mmmap env) k = Some v \<longrightarrow> (\<exists>i<MT_LAST. v = OInteger (word_of_nat i)))"

lemma nkeys_card:
  assumes "inj_keys ns" shows "nkeys ns = card (dom (nmap ns))" "finite (dom (nmap ns))"
proof -
  have eq: "dom (nmap ns) = kyf ns ` {i. i < length ns \<and> kyf ns i \<noteq> ONull}"
    by (auto simp: dom_nmap kyf_def image_iff split: if_splits)
  have "inj_on (kyf ns) {i. i < length ns \<and> kyf ns i \<noteq> ONull}"
    using assms by (auto simp: inj_on_def inj_keys_def kyf_def)
  then show "nkeys ns = card (dom (nmap ns))" unfolding eq nkeys_def by (simp add: card_image)
  show "finite (dom (nmap ns))" unfolding eq by simp
qed

lemma wf_used: "wf_table hsh t \<Longrightarrow> usednodes t = int (card (dom (table_map t))) \<and> finite (dom (table_map t))"
  unfolding table_map_def using nkeys_card scatter_inj by (metis wf_table_def)

lemma members_ok_le:
  assumes "members_ok m nf nm" shows "nf \<le> card (dom m)" "nm \<le> card (dom m)"
proof -
  have "card {k. \<exists>i<nf. m k = Some (make_field_idx i)} \<le> card (dom m)"
    by (rule card_mono) (use assms in \<open>auto simp: members_ok_def\<close>)
  then show "nf \<le> card (dom m)" using assms by (simp add: members_ok_def)
  show "nm \<le> card (dom m)" using assms by (simp add: members_ok_def)
qed

lemma class_ok_bounds:
  assumes "class_ok env c"
  shows "length (c_defaultvalues c) \<le> nat (usednodes (c_members c))"
    and "length (c_methods c) \<le> nat (usednodes (c_members c))"
    and "nat (usednodes (c_members c)) \<le> 0xFFFFFF"
  using members_ok_le [of "mmap c"] wf_used [of "ce_hsh env" "c_members c"] assms
  by (force simp: class_ok_def MEMBER_MAX_COUNT_def)+

subsection \<open>The outcomes of NewSlot\<close>

definition the_method :: "class_env \<Rightarrow> sqclass \<Rightarrow> sqobject \<Rightarrow> sqobject" where
  "the_method env c val = (case (c_base c, val) of (Some b, OClosure a) \<Rightarrow> ce_rebase env a b | _ \<Rightarrow> val)"

lemma class_Get_members:
  assumes "class_ok env c"
  shows "ce_get env (c_members c) key = Some (mmap c key)"
proof -
  have "map_option (realval d) (mmap c key) = mmap c key" for d
  proof (cases "mmap c key")
    case (Some v)
    then show ?thesis using assms unfolding class_ok_def members_ok_def by fastforce
  qed simp
  then show ?thesis using assms by (simp add: tbl_Get_eq class_ok_def)
qed

lemma GetMetaMethodIdxByName_ok:
  assumes "env_ok env"
  shows "GetMetaMethodIdxByName env name = Some (-1) \<or>
    (\<exists>j<MT_LAST. GetMetaMethodIdxByName env name = Some (int j))"
proof (cases "sq_type name = OT_STRING \<and> table_map (ce_mmmap env) name \<noteq> None")
  case True
  then obtain j where j: "table_map (ce_mmmap env) name = Some (OInteger (word_of_nat j))" "j < MT_LAST"
    using assms by (auto simp: env_ok_def)
  then have "sint (word_of_nat j :: 64 word) = int j"
    using sint_word_of_int_64 [of "int j"] by (simp add: MT_LAST_def)
  with True j assms show ?thesis
    by (auto simp: GetMetaMethodIdxByName_def env_ok_def tbl_Get_eq realval_def)
next
  case False
  with assms show ?thesis
    by (auto simp: GetMetaMethodIdxByName_def env_ok_def tbl_Get_eq)
qed

lemma class_ok_member:
  assumes "class_ok env c" "mmap c key = Some v"
  obtains (field) i where "i < length (c_defaultvalues c)" "v = make_field_idx i" "i \<le> 0xFFFFFF"
  | (meth) i where "i < length (c_methods c)" "v = make_method_idx i" "i \<le> 0xFFFFFF"
proof -
  have b: "length (c_defaultvalues c) \<le> 0xFFFFFF" "length (c_methods c) \<le> 0xFFFFFF"
    using class_ok_bounds [OF assms(1)] by linarith+
  consider i where "i < length (c_defaultvalues c)" "v = make_field_idx i"
    | i where "i < length (c_methods c)" "v = make_method_idx i"
    using assms unfolding class_ok_def members_ok_def by blast
  then show thesis
  proof cases
    case (1 i)
    then show ?thesis using b by (intro field [of i]) simp_all
  next
    case (2 i)
    then show ?thesis using b by (intro meth [of i]) simp_all
  qed
qed

lemma class_NewSlot_cases:
  assumes env: "env_ok env" and ok: "class_ok env c" and key: "key \<noteq> ONull"
  obtains (refused) "class_NewSlot env c key val st = Some (c, False)"
  | (field) i where "mmap c key = Some (make_field_idx i)" "i < length (c_defaultvalues c)" "i \<le> 0xFFFFFF"
      "c_locked c \<longrightarrow> is_closure val \<or> st"
      "class_NewSlot env c key val st =
         Some (c\<lparr>c_defaultvalues := (c_defaultvalues c)[i := (c_defaultvalues c ! i)\<lparr>cm_val := val\<rparr>]\<rparr>, True)"
  | (metamethod) j where "is_closure val" "j < MT_LAST" "GetMetaMethodIdxByName env key = Some (int j)"
      "class_NewSlot env c key val st =
         Some (c\<lparr>c_metamethods := (c_metamethods c)[j := val]\<rparr>, True)"
  | (override) i where "mmap c key = Some (make_method_idx i)" "i < length (c_methods c)" "i \<le> 0xFFFFFF"
      "is_closure val \<or> st"
      "class_NewSlot env c key val st =
         Some (c\<lparr>c_methods := (c_methods c)[i := (c_methods c ! i)\<lparr>cm_val := the_method env c val\<rparr>]\<rparr>, True)"
  | (new_method) t where "mmap c key = None" "is_closure val \<or> st" "wf_table (ce_hsh env) t"
      "table_map t = (mmap c)(key \<mapsto> make_method_idx (length (c_methods c)))"
      "usednodes (c_members c) < MEMBER_MAX_COUNT"
      "class_NewSlot env c key val st =
         Some (c\<lparr>c_members := t,
                 c_methods := c_methods c @ [\<lparr>cm_val = the_method env c val, cm_attrs = ONull\<rparr>],
                 c_constructoridx := (if IsEqual (ce_ctor env) key then int (length (c_methods c))
                                      else c_constructoridx c)\<rparr>, True)"
  | (new_field) t where "\<nexists>i. i < length (c_defaultvalues c) \<and> mmap c key = Some (make_field_idx i)"
      "\<not> c_locked c" "wf_table (ce_hsh env) t"
      "table_map t = (mmap c)(key \<mapsto> make_field_idx (length (c_defaultvalues c)))"
      "usednodes (c_members c) < MEMBER_MAX_COUNT" "\<not> is_closure val" "\<not> st"
      "class_NewSlot env c key val st =
         Some (c\<lparr>c_members := t,
                 c_defaultvalues := c_defaultvalues c @ [\<lparr>cm_val = val, cm_attrs = ONull\<rparr>]\<rparr>, True)"
proof -
  have wf: "wf_table (ce_hsh env) (c_members c)" using ok by (simp add: class_ok_def)
  note get = class_Get_members [OF ok, of key]
  have ns: "\<exists>t b. NewSlot (ce_hsh env) (c_members c) key v = Some (t, b) \<and> wf_table (ce_hsh env) t \<and>
    table_map t = (mmap c)(key \<mapsto> v)" for v
    by (rule newslot_ok [OF wf key])
  have mml: "length (c_metamethods c) = MT_LAST" using ok by (simp add: class_ok_def)
  let ?bs = "is_closure val \<or> st"
  note D = class_NewSlot_def Let_def
  show thesis
  proof (cases "c_locked c \<and> \<not> ?bs")
    case True
    then show ?thesis by (intro refused) (simp add: D)
  next
    case nl: False
    show ?thesis
    proof (cases "\<exists>i. i < length (c_defaultvalues c) \<and> mmap c key = Some (make_field_idx i)")
      case True
      then obtain i where i: "mmap c key = Some (make_field_idx i)" "i < length (c_defaultvalues c)" by blast
      then have i24: "i \<le> 0xFFFFFF" using class_ok_bounds [OF ok] by linarith
      show ?thesis
        by (rule field [OF i i24]) (use nl i i24 in \<open>simp_all add: D get set_member_val_def\<close>)
    next
      case nf: False
      have fnf: "\<not> (\<exists>v. mmap c key = Some v \<and> isfield v)"
        using nf class_ok_member [OF ok, of key] by (metis method_idx(1))
      show ?thesis
      proof (cases "usednodes (c_members c) \<ge> MEMBER_MAX_COUNT")
        case True
        then show ?thesis using nl fnf by (intro refused) (auto simp: D get)
      next
        case used: False
        show ?thesis
        proof (cases ?bs)
          case False
          obtain t b where t: "NewSlot (ce_hsh env) (c_members c) key (make_field_idx (length (c_defaultvalues c))) = Some (t, b)"
            "wf_table (ce_hsh env) t" "table_map t = (mmap c)(key \<mapsto> make_field_idx (length (c_defaultvalues c)))"
            using ns by blast
          show ?thesis
            by (rule new_field [OF nf _ t(2,3)]) (use nl False used fnf t(1) in \<open>auto simp: D get\<close>)
        next
          case bs: True
          show ?thesis
          proof (cases "is_closure val \<and> (\<exists>j<MT_LAST. GetMetaMethodIdxByName env key = Some (int j))")
            case True
            then obtain j where j: "j < MT_LAST" "GetMetaMethodIdxByName env key = Some (int j)" by blast
            show ?thesis
              by (rule metamethod [OF _ j]) (use True nl fnf used j mml bs in \<open>auto simp: D get\<close>)
          next
            case False
            then have mm: "(if is_closure val then GetMetaMethodIdxByName env key else Some (-1)) = Some (-1)"
              using GetMetaMethodIdxByName_ok [OF env, of key] by auto
            show ?thesis
            proof (cases "mmap c key")
              case None
              obtain t b where t: "NewSlot (ce_hsh env) (c_members c) key (make_method_idx (length (c_methods c))) = Some (t, b)"
                "wf_table (ce_hsh env) t" "table_map t = (mmap c)(key \<mapsto> make_method_idx (length (c_methods c)))"
                using ns by blast
              show ?thesis
                by (rule new_method [OF None bs t(2,3)])
                  (use None nl fnf used t(1) mm bs in \<open>simp_all add: D get the_method_def\<close>)
            next
              case (Some v)
              from ok Some show ?thesis
              proof (cases rule: class_ok_member)
                case (field i)
                with nf Some show ?thesis by blast
              next
                case (meth i)
                show ?thesis
                  by (rule override [OF _ meth(1,3) bs])
                    (use Some meth nl used mm bs in \<open>simp_all add: D get the_method_def set_member_val_def\<close>)
              qed
            qed
          qed
        qed
      qed
    qed
  qed
qed

subsection \<open>Preservation\<close>

lemma ex_bool_id [simp]: "Ex Not" "\<exists>b. b"
  by (rule exI [of _ False], simp) blast

lemma members_okD:
  assumes "members_ok m nf nm"
  shows "m k = Some v \<Longrightarrow> (\<exists>i<nf. v = make_field_idx i) \<or> (\<exists>i<nm. v = make_method_idx i)"
    and "m k = Some v \<Longrightarrow> m k' = Some v \<Longrightarrow> k = k'" and "finite (dom m)"
    and "nf \<le> card {k. \<exists>i<nf. m k = Some (make_field_idx i)}" and "nm \<le> card (dom m)"
  using assms unfolding members_ok_def by blast+

lemma members_ok_new_method:
  assumes ok: "members_ok m nf nm" and new: "m key = None" and le: "nf \<le> 0xFFFFFF" "nm \<le> 0xFFFFFF"
  shows "members_ok (m(key \<mapsto> make_method_idx nm)) nf (Suc nm)"
proof -
  let ?m = "m(key \<mapsto> make_method_idx nm)"
  note D = members_okD [OF ok]
  have fresh: "m k \<noteq> Some (make_method_idx nm)" for k
  proof
    assume "m k = Some (make_method_idx nm)"
    from D(1) [OF this] show False using le by auto
  qed
  have fk: "{k. \<exists>i<nf. ?m k = Some (make_field_idx i)} = {k. \<exists>i<nf. m k = Some (make_field_idx i)}"
    using new le by (auto split: if_splits)
  have card: "card (dom ?m) = Suc (card (dom m))" using new D(3) by (simp add: card_insert_if domIff)
  have ran: "(\<exists>i<nf. v = make_field_idx i) \<or> (\<exists>i<Suc nm. v = make_method_idx i)" if "?m k = Some v" for k v
    using that D(1) [of k v] by (auto split: if_splits intro: less_SucI)
  have inj: "k = k'" if "?m k = Some v" "?m k' = Some v" for k k' v
    using that D(2) [of k v k'] fresh by (auto split: if_splits)
  show ?thesis unfolding members_ok_def fk
    by (intro conjI allI impI) (erule ran inj | assumption | use card D(3-5) in simp)+
qed

lemma members_ok_new_field:
  assumes ok: "members_ok m nf nm" and new: "\<nexists>i. i < nf \<and> m key = Some (make_field_idx i)"
    and le: "nf \<le> 0xFFFFFF" "nm \<le> 0xFFFFFF"
  shows "members_ok (m(key \<mapsto> make_field_idx nf)) (Suc nf) nm"
proof -
  let ?m = "m(key \<mapsto> make_field_idx nf)"
  let ?F = "{k. \<exists>i<nf. m k = Some (make_field_idx i)}"
  note D = members_okD [OF ok]
  have fresh: "m k \<noteq> Some (make_field_idx nf)" for k
  proof
    assume "m k = Some (make_field_idx nf)"
    from D(1) [OF this] show False using le by auto
  qed
  have fk: "{k. \<exists>i<Suc nf. ?m k = Some (make_field_idx i)} = insert key ?F"
    using fresh le new by (auto simp: less_Suc_eq)
  have "finite ?F" by (rule finite_subset [OF _ D(3)]) auto
  then have card: "card (insert key ?F) = Suc (card ?F)" using new by auto
  have mono: "card (dom m) \<le> card (dom ?m)" by (rule card_mono) (use D(3) in auto)
  have ran: "(\<exists>i<Suc nf. v = make_field_idx i) \<or> (\<exists>i<nm. v = make_method_idx i)" if "?m k = Some v" for k v
    using that D(1) [of k v] by (auto split: if_splits intro: less_SucI)
  have inj: "k = k'" if "?m k = Some v" "?m k' = Some v" for k k' v
    using that D(2) [of k v k'] fresh by (auto split: if_splits)
  show ?thesis unfolding members_ok_def fk
    by (intro conjI allI impI) (erule ran inj | assumption | use card mono D(3-5) in simp)+
qed

lemma class_NewSlot_ok [sq_inv]:
  assumes env: "env_ok env" and ok: "class_ok env c" and key: "key \<noteq> ONull"
  shows "\<exists>c' b. class_NewSlot env c key val st = Some (c', b) \<and> class_ok env c' \<and>
    c_base c' = c_base c \<and> c_locked c' = c_locked c"
  using env ok key
proof (cases rule: class_NewSlot_cases [where val = val and st = st])
  case refused
  with ok show ?thesis by simp
next
  case (field i)
  with ok show ?thesis by (simp add: class_ok_def)
next
  case (metamethod j)
  with ok show ?thesis by (simp add: class_ok_def)
next
  case (override i)
  with ok show ?thesis by (simp add: class_ok_def)
next
  case (new_method t)
  have b: "length (c_defaultvalues c) \<le> 0xFFFFFF" "length (c_methods c) \<le> 0xFFFFFF"
    using class_ok_bounds [OF ok] by linarith+
  have m: "members_ok (mmap c) (length (c_defaultvalues c)) (length (c_methods c))"
    using ok by (simp add: class_ok_def)
  have mo: "members_ok (table_map t) (length (c_defaultvalues c)) (Suc (length (c_methods c)))"
    unfolding new_method(4) by (rule members_ok_new_method [OF m new_method(1) b])
  have "card (dom (table_map t)) \<le> Suc (card (dom (mmap c)))"
    unfolding new_method(4) by (simp add: card_insert_le_m1 card_insert_if members_okD(3) [OF m])
  then have "usednodes t \<le> MEMBER_MAX_COUNT"
    using wf_used [OF new_method(3)] wf_used [of "ce_hsh env" "c_members c"] ok new_method(5)
    by (simp add: class_ok_def)
  with ok mo new_method(3,6) show ?thesis by (auto simp: class_ok_def)
next
  case (new_field t)
  have b: "length (c_defaultvalues c) \<le> 0xFFFFFF" "length (c_methods c) \<le> 0xFFFFFF"
    using class_ok_bounds [OF ok] by linarith+
  have m: "members_ok (mmap c) (length (c_defaultvalues c)) (length (c_methods c))"
    using ok by (simp add: class_ok_def)
  have mo: "members_ok (table_map t) (Suc (length (c_defaultvalues c))) (length (c_methods c))"
    unfolding new_field(4) by (rule members_ok_new_field [OF m new_field(1) b])
  have "card (dom (table_map t)) \<le> Suc (card (dom (mmap c)))"
    unfolding new_field(4) by (simp add: card_insert_if members_okD(3) [OF m])
  then have "usednodes t \<le> MEMBER_MAX_COUNT"
    using wf_used [OF new_field(3)] wf_used [of "ce_hsh env" "c_members c"] ok new_field(5)
    by (simp add: class_ok_def)
  with ok mo new_field(3,8) show ?thesis by (auto simp: class_ok_def)
qed

lemma class_SetAttributes_ok [sq_inv]:
  assumes ok: "class_ok env c"
  shows "\<exists>c' b. class_SetAttributes env c key val = Some (c', b) \<and> class_ok env c' \<and>
    c_base c' = c_base c \<and> c_locked c' = c_locked c \<and> c_members c' = c_members c \<and>
    map cm_val (c_defaultvalues c') = map cm_val (c_defaultvalues c) \<and>
    map cm_val (c_methods c') = map cm_val (c_methods c)"
proof (cases "mmap c key")
  case None
  then show ?thesis using ok
    by (simp add: class_SetAttributes_def class_Get_members [OF ok])
next
  case (Some v)
  from ok Some show ?thesis
  proof (cases rule: class_ok_member)
    case (field i)
    then show ?thesis
      using ok Some by (simp add: class_SetAttributes_def class_Get_members [OF ok] nth_opt_def class_ok_def
          map_update list_update_same_conv)
  next
    case (meth i)
    then show ?thesis
      using ok Some by (simp add: class_SetAttributes_def class_Get_members [OF ok] nth_opt_def class_ok_def
          map_update list_update_same_conv)
  qed
qed

lemma SQClass_new_base_ok [sq_inv]:
  assumes ok: "class_ok env b"
  shows "\<exists>c. SQClass_new env (Some (a, b)) = Some c \<and> class_ok env c \<and> c_base c = Some a \<and>
    \<not> c_locked c \<and> mmap c = mmap b \<and> c_defaultvalues c = c_defaultvalues b \<and> c_methods c = c_methods b \<and>
    c_metamethods c = c_metamethods b \<and> c_constructoridx c = c_constructoridx b"
proof -
  have wf: "wf_table (ce_hsh env) (c_members b)" using ok by (simp add: class_ok_def)
  from tbl_Clone_ok [OF wf] obtain t where t: "tbl_Clone (ce_hsh env) (c_members b) = Some t"
    "wf_table (ce_hsh env) t" "table_map t = table_map (c_members b)" by blast
  have "usednodes t = usednodes (c_members b)"
    using wf_used [OF t(2)] wf_used [OF wf] t(3) by simp
  with t ok show ?thesis by (simp add: SQClass_new_def class_ok_def)
qed

lemma SQClass_new_root_ok [sq_inv]:
  "\<exists>c. SQClass_new env None = Some c \<and> class_ok env c"
  using SQTable_new_ok(1) [of "ce_hsh env" 0] wf_used [OF SQTable_new_ok(1) [of "ce_hsh env" 0]]
  by (simp add: SQClass_new_def class_ok_def members_ok_def SQTable_new_ok(2) MEMBER_MAX_COUNT_def)

subsection \<open>Reading members\<close>

lemma class_Get_eq:
  assumes ok: "class_ok env c"
  shows "class_Get env c k = Some (case mmap c k of None \<Rightarrow> None
    | Some v \<Rightarrow> Some (if isfield v then realval (ce_deref env) (cm_val (c_defaultvalues c ! member_idx v))
                     else cm_val (c_methods c ! member_idx v)))"
proof (cases "mmap c k")
  case None
  then show ?thesis by (simp add: class_Get_def class_Get_members [OF ok])
next
  case (Some v)
  with ok show ?thesis
    by (cases rule: class_ok_member) (simp_all add: class_Get_def class_Get_members [OF ok] nth_opt_def Some)
qed

lemma GetConstructor_eq:
  assumes "class_ok env c"
  shows "GetConstructor c = Some (if c_constructoridx c = -1 then None
    else Some (cm_val (c_methods c ! nat (c_constructoridx c))))"
  using assms by (auto simp: GetConstructor_def nth_opt_def class_ok_def)

subsection \<open>Reachable classes\<close>

inductive reachable_class :: "class_env \<Rightarrow> sqclass \<Rightarrow> bool" for env where
  root: "SQClass_new env None = Some c \<Longrightarrow> reachable_class env c"
| derive: "reachable_class env b \<Longrightarrow> SQClass_new env (Some (a, b)) = Some c \<Longrightarrow> reachable_class env c"
| slot: "reachable_class env c \<Longrightarrow> key \<noteq> ONull \<Longrightarrow> class_NewSlot env c key val st = Some (c', r) \<Longrightarrow>
    reachable_class env c'"
| attr: "reachable_class env c \<Longrightarrow> class_SetAttributes env c key val = Some (c', r) \<Longrightarrow> reachable_class env c'"
| lock: "reachable_class env c \<Longrightarrow> reachable_class env (c\<lparr>c_locked := True\<rparr>)"

lemma reachable_class_ok:
  assumes "reachable_class env c" "env_ok env" shows "class_ok env c"
  using assms
proof (induction rule: reachable_class.induct)
  case (root c)
  with SQClass_new_root_ok [of env] show ?case by auto
next
  case (derive b a c)
  with SQClass_new_base_ok [of env b a] show ?case by auto
next
  case (slot c key val st c' r)
  with class_NewSlot_ok [of env c key val st] show ?case by auto
next
  case (attr c key val c' r)
  with class_SetAttributes_ok [of env c key val] show ?case by auto
next
  case (lock c)
  then show ?case by (simp add: class_ok_def)
qed

text \<open>C20. The class invariant.  Start from a class without base, derive, add and replace members,
  set attributes and lock, in any order: NewSlot and SetAttributes always return, every lookup by
  Get finds its slot inside the vector of default values or methods, no two members share a slot,
  GetConstructor finds its method, and no member index exceeds the 24 bits it has.\<close>

theorem class_members_invariant:
  assumes "env_ok env" and "reachable_class env c"
  shows "(\<forall>key val st. key \<noteq> ONull \<longrightarrow> class_NewSlot env c key val st \<noteq> None) \<and>
    (\<forall>key val. class_SetAttributes env c key val \<noteq> None) \<and>
    (\<forall>key. class_Get env c key \<noteq> None) \<and> GetConstructor c \<noteq> None \<and>
    length (c_defaultvalues c) \<le> nat MEMBER_MAX_COUNT \<and> length (c_methods c) \<le> nat MEMBER_MAX_COUNT \<and>
    (\<forall>k k' v v'. table_map (c_members c) k = Some v \<longrightarrow> table_map (c_members c) k' = Some v' \<longrightarrow>
       isfield v = isfield v' \<longrightarrow> member_idx v = member_idx v' \<longrightarrow> k = k')"
proof (intro conjI allI impI)
  have ok: "class_ok env c" by (rule reachable_class_ok [OF assms(2,1)])
  show "class_NewSlot env c key val st \<noteq> None" if "key \<noteq> ONull" for key val st
    using class_NewSlot_ok [OF assms(1) ok that, of val st] by auto
  show "class_SetAttributes env c key val \<noteq> None" for key val
    using class_SetAttributes_ok [OF ok, of key val] by auto
  show "class_Get env c key \<noteq> None" for key by (simp add: class_Get_eq [OF ok])
  show "GetConstructor c \<noteq> None" by (simp add: GetConstructor_eq [OF ok])
  show "length (c_defaultvalues c) \<le> nat MEMBER_MAX_COUNT" "length (c_methods c) \<le> nat MEMBER_MAX_COUNT"
    using class_ok_bounds [OF ok] by (simp_all add: MEMBER_MAX_COUNT_def)
  show "k = k'" if "mmap c k = Some v" "mmap c k' = Some v'" "isfield v = isfield v'" "member_idx v = member_idx v'"
    for k k' v v'
  proof -
    have "v = v'"
      using class_ok_member [OF ok that(1)] class_ok_member [OF ok that(2)] that(3,4)
      by (metis field_idx(1,3) method_idx(1,3))
    with that(1,2) ok show ?thesis by (auto simp: class_ok_def dest: members_okD(2))
  qed
qed

definition plain_env :: class_env where
  "plain_env = \<lparr>ce_hsh = rawval, ce_deref = (\<lambda>_. ONull), ce_mmmap = SQTable_new 0, ce_ctor = OString 1,
     ce_rebase = (\<lambda>a b. OClosure (a + b))\<rparr>"

lemma plain_env_ok: "env_ok plain_env"
  by (simp add: env_ok_def plain_env_def SQTable_new_ok(1,2))

text \<open>A class with one field, one method and a constructor, as the witnesses use it.\<close>

definition sample_class :: "sqclass option" where
  "sample_class = do {
     c0 \<leftarrow> SQClass_new plain_env None;
     (c1, _) \<leftarrow> class_NewSlot plain_env c0 (OString 2) (OInteger 7) False;
     (c2, _) \<leftarrow> class_NewSlot plain_env c1 (OString 1) (OClosure 9) False;
     (c3, _) \<leftarrow> class_NewSlot plain_env c2 (OString 3) (OClosure 10) False;
     Some c3 }"

lemma sample_class_reachable:
  obtains c where "sample_class = Some c" "reachable_class plain_env c"
proof -
  obtain c0 where c0: "SQClass_new plain_env None = Some c0" using SQClass_new_root_ok by blast
  then have r0: "reachable_class plain_env c0" by (rule reachable_class.root)
  note step = class_NewSlot_ok [OF plain_env_ok reachable_class_ok [OF _ plain_env_ok]]
  obtain c1 b1 where c1: "class_NewSlot plain_env c0 (OString 2) (OInteger 7) False = Some (c1, b1)"
    using step [OF r0, of "OString 2" "OInteger 7" False] by auto
  then have r1: "reachable_class plain_env c1" using r0 by (auto intro: reachable_class.slot)
  obtain c2 b2 where c2: "class_NewSlot plain_env c1 (OString 1) (OClosure 9) False = Some (c2, b2)"
    using step [OF r1, of "OString 1" "OClosure 9" False] by auto
  then have r2: "reachable_class plain_env c2" using r1 by (auto intro: reachable_class.slot)
  obtain c3 b3 where c3: "class_NewSlot plain_env c2 (OString 3) (OClosure 10) False = Some (c3, b3)"
    using step [OF r2, of "OString 3" "OClosure 10" False] by auto
  then have "reachable_class plain_env c3" using r2 by (auto intro: reachable_class.slot)
  with c0 c1 c2 c3 show thesis by (intro that [of c3]) (simp_all add: sample_class_def)
qed

theorem class_members_invariant_witness:
  "\<exists>c. sample_class = Some c \<and> (\<forall>key. class_Get plain_env c key \<noteq> None)"
proof -
  obtain c where c: "sample_class = Some c" "reachable_class plain_env c" by (rule sample_class_reachable)
  from class_members_invariant [OF plain_env_ok c(2)] c(1) show ?thesis by blast
qed

subsection \<open>What NewSlot does\<close>

definition own_field :: "sqclass \<Rightarrow> sqobject \<Rightarrow> bool" where
  "own_field c key \<longleftrightarrow> (\<exists>v. mmap c key = Some v \<and> isfield v)"

lemma own_field_iff:
  assumes "class_ok env c"
  shows "own_field c key \<longleftrightarrow> (\<exists>i < length (c_defaultvalues c). mmap c key = Some (make_field_idx i))"
proof (cases "mmap c key")
  case (Some v)
  with assms show ?thesis
    by (cases rule: class_ok_member) (use class_ok_bounds [OF assms] Some in \<open>auto simp: own_field_def\<close>)
qed (simp add: own_field_def)

text \<open>C21. What NewSlot does.  When it returns false the class is unchanged.  When it returns true
  either the value is a closure named like a metamethod and only that metamethod changes, or the key
  now reads as the new value and every other key reads as before.  A field reads through a weak
  reference, a method or static value is stored as it is, with a script closure rebased to the
  base class.\<close>

theorem class_newslot_get:
  assumes env: "env_ok env" and reach: "reachable_class env c" and key: "key \<noteq> ONull"
    and step: "class_NewSlot env c key val st = Some (c', r)"
  shows "if \<not> r then c' = c
    else (\<exists>j. is_closure val \<and> GetMetaMethodIdxByName env key = Some (int j) \<and>
             c' = c\<lparr>c_metamethods := (c_metamethods c)[j := val]\<rparr>) \<or>
         class_Get env c' key = Some (Some
           (if own_field c key \<or> \<not> (is_closure val \<or> st) then realval (ce_deref env) val
            else the_method env c val)) \<and>
         (\<forall>k. k \<noteq> key \<longrightarrow> class_Get env c' k = class_Get env c k) \<and>
         c_metamethods c' = c_metamethods c"
proof -
  have ok: "class_ok env c" by (rule reachable_class_ok [OF reach env])
  have ok': "class_ok env c'" using class_NewSlot_ok [OF env ok key, of val st] step by auto
  have b: "length (c_defaultvalues c) \<le> 0xFFFFFF" "length (c_methods c) \<le> 0xFFFFFF"
    using class_ok_bounds [OF ok] by linarith+
  have m: "members_ok (mmap c) (length (c_defaultvalues c)) (length (c_methods c))"
    using ok by (simp add: class_ok_def)
  note inj = members_okD(2) [OF m]
  note G = class_Get_eq [OF ok] class_Get_eq [OF ok']
  have other: "class_Get env c' k = class_Get env c k" if "mmap c' k = mmap c k"
    "\<And>i. mmap c k = Some (make_field_idx i) \<Longrightarrow> i < length (c_defaultvalues c) \<Longrightarrow> i \<le> 0xFFFFFF \<Longrightarrow> cm_val (c_defaultvalues c' ! i) = cm_val (c_defaultvalues c ! i)"
    "\<And>i. mmap c k = Some (make_method_idx i) \<Longrightarrow> i < length (c_methods c) \<Longrightarrow> i \<le> 0xFFFFFF \<Longrightarrow> cm_val (c_methods c' ! i) = cm_val (c_methods c ! i)" for k
  proof (cases "mmap c k")
    case None
    with that(1) show ?thesis by (simp add: G)
  next
    case (Some v)
    from ok Some show ?thesis
      by (cases rule: class_ok_member) (use Some that in \<open>simp_all add: G\<close>)
  qed
  show ?thesis
    using env ok key
  proof (cases rule: class_NewSlot_cases [where val = val and st = st])
    case refused
    with step show ?thesis by simp
  next
    case (field i)
    with step have c': "c' = c\<lparr>c_defaultvalues := (c_defaultvalues c)[i := (c_defaultvalues c ! i)\<lparr>cm_val := val\<rparr>]\<rparr>" "r"
      by simp_all
    have "class_Get env c' k = class_Get env c k" if "k \<noteq> key" for k
      by (rule other) (use that inj [OF field(1), of k] field(2) in \<open>auto simp: c' nth_list_update\<close>)
    moreover have "class_Get env c' key = Some (Some (realval (ce_deref env) val))"
      unfolding G(2) using field by (simp add: c')
    moreover have "c_metamethods c' = c_metamethods c" by (simp add: c')
    ultimately show ?thesis using field(1,3,4) c'(2) by (simp add: own_field_def)
  next
    case (metamethod j)
    with step show ?thesis by auto
  next
    case (override i)
    with step have c': "c' = c\<lparr>c_methods := (c_methods c)[i := (c_methods c ! i)\<lparr>cm_val := the_method env c val\<rparr>]\<rparr>" "r"
      by simp_all
    have "class_Get env c' k = class_Get env c k" if "k \<noteq> key" for k
      by (rule other) (use that inj [OF override(1), of k] override(2) in \<open>auto simp: c' nth_list_update\<close>)
    moreover have "class_Get env c' key = Some (Some (the_method env c val))"
      unfolding G(2) using override by (simp add: c')
    moreover have "c_metamethods c' = c_metamethods c" by (simp add: c')
    ultimately show ?thesis using override(1,3,4) c'(2) by (simp add: own_field_def)
  next
    case (new_method t)
    with step have c': "mmap c' = (mmap c)(key \<mapsto> make_method_idx (length (c_methods c)))" "r"
      "c_methods c' = c_methods c @ [\<lparr>cm_val = the_method env c val, cm_attrs = ONull\<rparr>]"
      "c_defaultvalues c' = c_defaultvalues c" "c_metamethods c' = c_metamethods c"
      by auto
    have "class_Get env c' k = class_Get env c k" if "k \<noteq> key" for k
      by (rule other) (use that in \<open>auto simp: c' nth_append\<close>)
    with new_method(1,2) b c' show ?thesis by (simp add: G own_field_def)
  next
    case (new_field t)
    with step have c': "mmap c' = (mmap c)(key \<mapsto> make_field_idx (length (c_defaultvalues c)))" "r"
      "c_defaultvalues c' = c_defaultvalues c @ [\<lparr>cm_val = val, cm_attrs = ONull\<rparr>]"
      "c_methods c' = c_methods c" "c_metamethods c' = c_metamethods c"
      by auto
    have "class_Get env c' k = class_Get env c k" if "k \<noteq> key" for k
      by (rule other) (use that in \<open>auto simp: c' nth_append\<close>)
    with new_field(6,7) b c' show ?thesis by (simp add: G)
  qed
qed

theorem class_newslot_get_witness:
  "\<exists>c c' r. sample_class = Some c \<and> class_NewSlot plain_env c (OString 2) (OInteger 8) False = Some (c', r) \<and>
     (if \<not> r then c' = c
      else (\<exists>j. is_closure (OInteger 8) \<and> GetMetaMethodIdxByName plain_env (OString 2) = Some (int j) \<and>
             c' = c\<lparr>c_metamethods := (c_metamethods c)[j := OInteger 8]\<rparr>) \<or>
         class_Get plain_env c' (OString 2) = Some (Some
           (if own_field c (OString 2) \<or> \<not> (is_closure (OInteger 8) \<or> False) then realval (ce_deref plain_env) (OInteger 8)
            else the_method plain_env c (OInteger 8))) \<and>
         (\<forall>k. k \<noteq> OString 2 \<longrightarrow> class_Get plain_env c' k = class_Get plain_env c k) \<and>
         c_metamethods c' = c_metamethods c)"
proof -
  obtain c where c: "sample_class = Some c" "reachable_class plain_env c" by (rule sample_class_reachable)
  obtain c' r where s: "class_NewSlot plain_env c (OString 2) (OInteger 8) False = Some (c', r)"
    using class_NewSlot_ok [OF plain_env_ok reachable_class_ok [OF c(2) plain_env_ok], of "OString 2" "OInteger 8" False]
    by auto
  from class_newslot_get [OF plain_env_ok c(2) _ s] c(1) s show ?thesis by blast
qed

subsection \<open>Inheritance\<close>

lemma class_Get_metamethods: "class_Get env (c\<lparr>c_metamethods := ms\<rparr>) k = class_Get env c k"
  by (simp add: class_Get_def cong: option.case_cong if_cong)

text \<open>Inheritance by copy.  A derived class can always be created; it is unlocked, its base is
  the given class, every key reads as in the base, the metamethods and the constructor are those of
  the base; and what is then added to the derived class under other keys leaves them so.\<close>

theorem class_inherits:
  assumes env: "env_ok env" and base: "reachable_class env b"
  shows "\<exists>c. SQClass_new env (Some (a, b)) = Some c \<and> c_base c = Some a \<and> \<not> c_locked c \<and>
    (\<forall>k. class_Get env c k = class_Get env b k) \<and> GetConstructor c = GetConstructor b \<and>
    c_metamethods c = c_metamethods b \<and>
    (\<forall>key val st c' r k. key \<noteq> ONull \<longrightarrow> class_NewSlot env c key val st = Some (c', r) \<longrightarrow> k \<noteq> key \<longrightarrow>
       class_Get env c' k = class_Get env b k)"
proof -
  have ok: "class_ok env b" by (rule reachable_class_ok [OF base env])
  obtain c where c: "SQClass_new env (Some (a, b)) = Some c" "class_ok env c" "c_base c = Some a"
    "\<not> c_locked c" "mmap c = mmap b" "c_defaultvalues c = c_defaultvalues b" "c_methods c = c_methods b"
    "c_metamethods c = c_metamethods b" "c_constructoridx c = c_constructoridx b"
    using SQClass_new_base_ok [OF ok, of a] by blast
  have get: "class_Get env c k = class_Get env b k" for k
    unfolding class_Get_eq [OF ok] class_Get_eq [OF c(2)]
    by (cases "mmap b k") (simp_all add: c)
  have reach: "reachable_class env c" by (rule reachable_class.derive [OF base c(1)])
  have "class_Get env c' k = class_Get env b k"
    if "key \<noteq> ONull" "class_NewSlot env c key val st = Some (c', r)" "k \<noteq> key" for key val st c' r k
  proof -
    have "class_Get env c' k = class_Get env c k"
      using class_newslot_get [OF env reach that(1,2)] that(3)
      by (auto simp: class_Get_metamethods split: if_splits)
    then show ?thesis by (simp add: get)
  qed
  with c get show ?thesis by (intro exI [of _ c]) (simp add: GetConstructor_def)
qed

theorem class_inherits_witness:
  "\<exists>b c. sample_class = Some b \<and> SQClass_new plain_env (Some (64, b)) = Some c \<and>
     (\<forall>k. class_Get plain_env c k = class_Get plain_env b k)"
proof -
  obtain b where b: "sample_class = Some b" "reachable_class plain_env b" by (rule sample_class_reachable)
  from class_inherits [OF plain_env_ok b(2), of 64] b(1) show ?thesis by blast
qed

subsection \<open>Instances of a locked class\<close>

datatype instance_op = OpSlot sqobject sqobject bool | OpAttr sqobject sqobject | OpSet sqobject sqobject

fun op_ok :: "instance_op \<Rightarrow> bool" where
  "op_ok (OpSlot key _ _) \<longleftrightarrow> key \<noteq> ONull"
| "op_ok _ \<longleftrightarrow> True"

fun instance_step :: "class_env \<Rightarrow> instance_op \<Rightarrow> sqclass \<times> sqinstance \<Rightarrow> (sqclass \<times> sqinstance) option" where
  "instance_step env (OpSlot key val st) (c, i) = map_option (\<lambda>(c', _). (c', i)) (class_NewSlot env c key val st)"
| "instance_step env (OpAttr key val) (c, i) = map_option (\<lambda>(c', _). (c', i)) (class_SetAttributes env c key val)"
| "instance_step env (OpSet key val) (c, i) = map_option (\<lambda>(i', _). (c, i')) (instance_Set env c i key val)"

fun instance_run :: "class_env \<Rightarrow> instance_op list \<Rightarrow> sqclass \<times> sqinstance \<Rightarrow> (sqclass \<times> sqinstance) option" where
  "instance_run env [] s = Some s"
| "instance_run env (x # xs) s = Option.bind (instance_step env x s) (instance_run env xs)"

fun last_set :: "instance_op list \<Rightarrow> sqobject \<Rightarrow> sqobject \<Rightarrow> sqobject" where
  "last_set [] k v = v"
| "last_set (OpSet key val # xs) k v = last_set xs k (if key = k then val else v)"
| "last_set (_ # xs) k v = last_set xs k v"

definition in_sync :: "class_env \<Rightarrow> sqclass \<times> sqinstance \<Rightarrow> bool" where
  "in_sync env s \<longleftrightarrow> class_ok env (fst s) \<and> c_locked (fst s) \<and>
     length (in_values (snd s)) = length (c_defaultvalues (fst s))"

lemma instance_Get_eq:
  assumes "in_sync env (c, i)"
  shows "instance_Get env c i k = Some (case mmap c k of None \<Rightarrow> None
    | Some v \<Rightarrow> Some (if isfield v then realval (ce_deref env) (in_values i ! member_idx v)
                     else cm_val (c_methods c ! member_idx v)))"
proof -
  have ok: "class_ok env c" and len: "length (in_values i) = length (c_defaultvalues c)"
    using assms by (simp_all add: in_sync_def)
  show ?thesis
  proof (cases "mmap c k")
    case None
    then show ?thesis by (simp add: instance_Get_def class_Get_members [OF ok])
  next
    case (Some v)
    with ok show ?thesis
      by (cases rule: class_ok_member)
        (simp_all add: instance_Get_def class_Get_members [OF ok] nth_opt_def Some len)
  qed
qed

lemma instance_step_slot:
  assumes env: "env_ok env" and sync: "in_sync env (c, i)" and key: "key \<noteq> ONull"
  shows "\<exists>c'. instance_step env (OpSlot key val st) (c, i) = Some (c', i) \<and> in_sync env (c', i) \<and>
    (\<forall>k v. mmap c k = Some v \<longrightarrow> mmap c' k = Some v)"
proof -
  have ok: "class_ok env c" and lk: "c_locked c" and len: "length (in_values i) = length (c_defaultvalues c)"
    using sync by (simp_all add: in_sync_def)
  obtain c' r where s: "class_NewSlot env c key val st = Some (c', r)" "class_ok env c'" "c_locked c' = c_locked c"
    using class_NewSlot_ok [OF env ok key] by blast
  have "length (c_defaultvalues c') = length (c_defaultvalues c) \<and> (\<forall>k v. mmap c k = Some v \<longrightarrow> mmap c' k = Some v)"
    using env ok key
    by (cases rule: class_NewSlot_cases [where val = val and st = st]) (use s(1) lk in auto)
  with s lk len show ?thesis by (simp add: in_sync_def)
qed

lemma instance_step_attr:
  assumes sync: "in_sync env (c, i)"
  shows "\<exists>c'. instance_step env (OpAttr key val) (c, i) = Some (c', i) \<and> in_sync env (c', i) \<and>
    (\<forall>k v. mmap c k = Some v \<longrightarrow> mmap c' k = Some v)"
proof -
  have ok: "class_ok env c" using sync by (simp add: in_sync_def)
  obtain c' r where s: "class_SetAttributes env c key val = Some (c', r)" "class_ok env c'"
    "c_locked c' = c_locked c" "c_members c' = c_members c"
    "map cm_val (c_defaultvalues c') = map cm_val (c_defaultvalues c)"
    using class_SetAttributes_ok [OF ok, of key val] by blast
  have "length (c_defaultvalues c') = length (c_defaultvalues c)"
    using arg_cong [OF s(5), of length] by simp
  with s sync show ?thesis by (simp add: in_sync_def)
qed

lemma instance_step_set:
  assumes sync: "in_sync env (c, i)"
  shows "\<exists>i'. instance_step env (OpSet key val) (c, i) = Some (c, i') \<and> in_sync env (c, i') \<and>
    length (in_values i') = length (in_values i) \<and>
    (\<forall>k v. mmap c k = Some v \<longrightarrow> isfield v \<longrightarrow>
       in_values i' ! member_idx v = (if key = k then val else in_values i ! member_idx v))"
proof -
  have ok: "class_ok env c" and len: "length (in_values i) = length (c_defaultvalues c)"
    using sync by (simp_all add: in_sync_def)
  show ?thesis
  proof (cases "own_field c key")
    case True
    then obtain j where j: "j < length (c_defaultvalues c)" "mmap c key = Some (make_field_idx j)"
      unfolding own_field_iff [OF ok] by blast
    have j24: "j \<le> 0xFFFFFF" using j class_ok_bounds [OF ok] by linarith
    let ?i = "i\<lparr>in_values := (in_values i)[j := val]\<rparr>"
    have "in_values ?i ! member_idx v = (if key = k then val else in_values i ! member_idx v)"
      if v: "mmap c k = Some v" "isfield v" for k v
    proof (cases "key = k")
      case True
      with v j j24 len show ?thesis by simp
    next
      case False
      have "member_idx v \<noteq> j"
      proof
        assume "member_idx v = j"
        with ok v have "v = make_field_idx j" by (cases rule: class_ok_member) auto
        with v j ok False show False by (auto simp: class_ok_def dest: members_okD(2))
      qed
      with False show ?thesis by simp
    qed
    with j j24 sync len show ?thesis
      by (intro exI [of _ ?i]) (auto simp: instance_Set_def class_Get_members [OF ok] in_sync_def)
  next
    case False
    have "instance_Set env c i key val = Some (i, False)"
      using False by (auto simp: instance_Set_def class_Get_members [OF ok] own_field_def split: option.split)
    with False sync show ?thesis by (auto simp: own_field_def)
  qed
qed

lemma instance_run_ok:
  assumes env: "env_ok env" and sync: "in_sync env (c, i)" and ops: "list_all op_ok xs"
  shows "\<exists>c' i'. instance_run env xs (c, i) = Some (c', i') \<and> in_sync env (c', i') \<and>
    length (in_values i') = length (in_values i) \<and>
    (\<forall>k v. mmap c k = Some v \<longrightarrow> mmap c' k = Some v) \<and>
    (\<forall>k v. mmap c k = Some v \<longrightarrow> isfield v \<longrightarrow>
       in_values i' ! member_idx v = last_set xs k (in_values i ! member_idx v))"
  using sync ops
proof (induction xs arbitrary: c i)
  case (Cons x xs)
  show ?case
  proof (cases x)
    case (OpSlot key val st)
    with Cons.prems instance_step_slot [OF env, of c i key val st] obtain c1 where
      "instance_step env x (c, i) = Some (c1, i)" "in_sync env (c1, i)" "\<forall>k v. mmap c k = Some v \<longrightarrow> mmap c1 k = Some v"
      by auto
    with Cons.IH [of c1 i] Cons.prems(2) OpSlot show ?thesis by auto
  next
    case (OpAttr key val)
    with Cons.prems instance_step_attr [of env c i key val] obtain c1 where
      "instance_step env x (c, i) = Some (c1, i)" "in_sync env (c1, i)" "\<forall>k v. mmap c k = Some v \<longrightarrow> mmap c1 k = Some v"
      by auto
    with Cons.IH [of c1 i] Cons.prems(2) OpAttr show ?thesis by auto
  next
    case (OpSet key val)
    with Cons.prems instance_step_set [of env c i key val] obtain i1 where
      "instance_step env x (c, i) = Some (c, i1)" "in_sync env (c, i1)" "length (in_values i1) = length (in_values i)"
      "\<forall>k v. mmap c k = Some v \<longrightarrow> isfield v \<longrightarrow>
         in_values i1 ! member_idx v = (if key = k then val else in_values i ! member_idx v)"
      by auto
    with Cons.IH [of c i1] Cons.prems(2) OpSet show ?thesis by (auto split del: if_split)
  qed
qed simp

text \<open>C22. Instances stay in step with their class.  Once the class is locked, take a new instance
  and let members be added to the class, attributes be set and fields of the instance be assigned in
  any order: every operation returns, the class gets no new field, so every access of the instance
  stays inside its values, and each field of the instance reads as the last value assigned to it, or
  as its default at creation, whatever happened to the class and to the other fields.\<close>

theorem instance_fields_isolated:
  assumes env: "env_ok env" and reach: "reachable_class env c" and locked: "c_locked c"
    and ops: "list_all op_ok xs"
  shows "\<exists>c' i'. instance_run env xs (c, SQInstance_new a c) = Some (c', i') \<and>
    length (in_values i') = length (c_defaultvalues c') \<and>
    length (c_defaultvalues c') = length (c_defaultvalues c) \<and>
    (\<forall>k. instance_Get env c' i' k \<noteq> None) \<and>
    (\<forall>k v. table_map (c_members c) k = Some v \<longrightarrow> isfield v \<longrightarrow>
       instance_Get env c' i' k = Some (Some (realval (ce_deref env)
         (last_set xs k (cm_val (c_defaultvalues c ! member_idx v))))))"
proof -
  let ?i = "SQInstance_new a c"
  have ok: "class_ok env c" by (rule reachable_class_ok [OF reach env])
  have sync: "in_sync env (c, ?i)" and vals: "length (in_values ?i) = length (c_defaultvalues c)"
    using ok locked by (simp_all add: in_sync_def SQInstance_new_def)
  obtain c' i' where r: "instance_run env xs (c, ?i) = Some (c', i')" "in_sync env (c', i')"
    "\<And>k v. mmap c k = Some v \<Longrightarrow> mmap c' k = Some v"
    "\<And>k v. mmap c k = Some v \<Longrightarrow> isfield v \<Longrightarrow>
       in_values i' ! member_idx v = last_set xs k (in_values ?i ! member_idx v)"
    "length (c_defaultvalues c') = length (c_defaultvalues c)"
    using instance_run_ok [OF env sync ops] vals by (auto simp: in_sync_def)
  show ?thesis
  proof (intro exI conjI allI impI)
    show "instance_run env xs (c, ?i) = Some (c', i')" by (rule r)
    show "length (in_values i') = length (c_defaultvalues c')" using r(2) by (simp add: in_sync_def)
    show "length (c_defaultvalues c') = length (c_defaultvalues c)" by (rule r)
    show "instance_Get env c' i' k \<noteq> None" for k by (simp add: instance_Get_eq [OF r(2)])
    fix k v
    assume v: "mmap c k = Some v" "isfield v"
    with ok have "member_idx v < length (c_defaultvalues c)" by (cases rule: class_ok_member) auto
    then have "in_values ?i ! member_idx v = cm_val (c_defaultvalues c ! member_idx v)"
      by (simp add: SQInstance_new_def)
    with r(3,4) [OF v(1)] v show "instance_Get env c' i' k = Some (Some (realval (ce_deref env)
         (last_set xs k (cm_val (c_defaultvalues c ! member_idx v)))))"
      by (simp add: instance_Get_eq [OF r(2)])
  qed
qed

theorem instance_fields_isolated_witness:
  "\<exists>c c' i'. sample_class = Some c \<and>
     instance_run plain_env [OpSet (OString 2) (OInteger 9), OpSlot (OString 4) (OClosure 11) False]
       (c\<lparr>c_locked := True\<rparr>, SQInstance_new 32 (c\<lparr>c_locked := True\<rparr>)) = Some (c', i') \<and>
     length (in_values i') = length (c_defaultvalues c')"
proof -
  obtain c where c: "sample_class = Some c" "reachable_class plain_env c" by (rule sample_class_reachable)
  have "reachable_class plain_env (c\<lparr>c_locked := True\<rparr>)" by (rule reachable_class.lock [OF c(2)])
  from instance_fields_isolated [OF plain_env_ok this, of "[OpSet (OString 2) (OInteger 9), OpSlot (OString 4) (OClosure 11) False]" 32] c(1)
  show ?thesis by fastforce
qed

subsection \<open>The chain of bases\<close>

inductive derives :: "(addr \<Rightarrow> sqclass option) \<Rightarrow> addr \<Rightarrow> addr \<Rightarrow> bool" for cls where
  refl: "derives cls a a"
| step: "cls a = Some c \<Longrightarrow> c_base c = Some b \<Longrightarrow> derives cls b t \<Longrightarrow> derives cls a t"

inductive_simps derives_iff: "derives cls a t"

text \<open>Bases exist and a base is older than the classes derived from it: \<open>age\<close> is the creation time.\<close>

definition bases_ok :: "(addr \<Rightarrow> sqclass option) \<Rightarrow> (addr \<Rightarrow> nat) \<Rightarrow> bool" where
  "bases_ok cls age \<longleftrightarrow>
     (\<forall>a c b. cls a = Some c \<longrightarrow> c_base c = Some b \<longrightarrow> cls b \<noteq> None \<and> age b < age a)"

definition lock_one :: "(addr \<Rightarrow> sqclass option) \<Rightarrow> addr \<Rightarrow> (addr \<Rightarrow> sqclass option)" where
  "lock_one cls a = cls(a := map_option (\<lambda>c. c\<lparr>c_locked := True\<rparr>) (cls a))"

lemma bases_ok_lock_one: "bases_ok cls age \<Longrightarrow> bases_ok (lock_one cls a) age"
  unfolding bases_ok_def lock_one_def by (fastforce split: if_splits)

lemma derives_lock_one: "derives (lock_one cls x) a t = derives cls a t"
proof
  show "derives (lock_one cls x) a t" if "derives cls a t"
    using that
  proof induction
    case (step a c b t)
    show ?case
    proof (cases "a = x")
      case True
      show ?thesis by (rule derives.step [of _ _ "c\<lparr>c_locked := True\<rparr>" b]) (use step True in \<open>simp_all add: lock_one_def\<close>)
    next
      case False
      show ?thesis by (rule derives.step [of _ _ c b]) (use step False in \<open>simp_all add: lock_one_def\<close>)
    qed
  qed (rule derives.refl)
  show "derives cls a t" if "derives (lock_one cls x) a t"
    using that
  proof induction
    case (step a c b t)
    from step(1,2) obtain c' where "cls a = Some c'" "c_base c' = Some b"
      by (auto simp: lock_one_def split: if_splits)
    from this step.IH show ?case by (rule derives.step)
  qed (rule derives.refl)
qed

lemma derives_older: "derives cls a t \<Longrightarrow> bases_ok cls age \<Longrightarrow> t = a \<or> age t < age a"
proof (induction rule: derives.induct)
  case (step a c b t)
  then have "age b < age a" unfolding bases_ok_def by blast
  with step show ?case by auto
qed simp

lemma class_walk_ok:
  assumes "bases_ok cls age" "cls a \<noteq> None"
  shows "class_walk cls a t = Some (derives cls a t)"
  using assms(2)
proof (induction "age a" arbitrary: a rule: less_induct)
  case less
  then obtain c where c: "cls a = Some c" by blast
  show ?case
  proof (cases "a = t \<or> c_base c = None")
    case True
    with c show ?thesis by (subst class_walk.simps) (auto simp: derives_iff [of cls a t] intro: derives.refl)
  next
    case False
    then obtain b where b: "c_base c = Some b" "a \<noteq> t" by blast
    have "class_walk cls b t = Some (derives cls b t)"
      using less.hyps [of b] assms(1) c b by (auto simp: bases_ok_def)
    with b c show ?thesis by (subst class_walk.simps) (simp add: derives_iff [of cls a t])
  qed
qed

lemma class_Lock_ok:
  assumes "bases_ok cls age" "cls a \<noteq> None"
  shows "class_Lock cls a = Some (\<lambda>x. map_option (\<lambda>c. c\<lparr>c_locked := c_locked c \<or> derives cls a x\<rparr>) (cls x))"
  using assms
proof (induction "age a" arbitrary: a cls rule: less_induct)
  case less
  then obtain c where c: "cls a = Some c" by blast
  have up: "cls(a \<mapsto> c\<lparr>c_locked := True\<rparr>) = lock_one cls a" using c by (simp add: lock_one_def)
  show ?case
  proof (cases "c_base c")
    case None
    with c have d: "derives cls a x \<longleftrightarrow> x = a" for x by (auto simp: derives_iff [of cls a x])
    from None c show ?thesis
      by (subst class_Lock.simps) (auto simp: fun_eq_iff d Let_def option.map_ident)
  next
    case (Some b)
    have b: "cls b \<noteq> None" "age b < age a" using less.prems(1) c Some by (auto simp: bases_ok_def)
    have d: "derives cls a x \<longleftrightarrow> x = a \<or> derives cls b x" for x
      using c Some by (auto simp: derives_iff [of cls a x])
    have nd: "\<not> derives cls b a" using derives_older [OF _ less.prems(1), of b a] b(2) by auto
    have "class_Lock (lock_one cls a) b =
      Some (\<lambda>x. map_option (\<lambda>c. c\<lparr>c_locked := c_locked c \<or> derives (lock_one cls a) b x\<rparr>) (lock_one cls a x))"
      using b bases_ok_lock_one [OF less.prems(1)] by (intro less.hyps) (auto simp: lock_one_def)
    moreover have "(\<lambda>x. map_option (\<lambda>c. c\<lparr>c_locked := c_locked c \<or> derives cls b x\<rparr>) (lock_one cls a x)) =
      (\<lambda>x. map_option (\<lambda>c. c\<lparr>c_locked := c_locked c \<or> derives cls a x\<rparr>) (cls x))"
      using c nd by (auto simp: fun_eq_iff lock_one_def d)
    ultimately show ?thesis
      using c Some by (subst class_Lock.simps) (simp add: up derives_lock_one)
  qed
qed

text \<open>C23. The walks along the chain of bases.  When every base exists and is older than what derives
  from it, the loops of InstanceOf and Lock end; InstanceOf answers whether the class of the instance
  is the target or derives from it, and creating an instance of an unlocked class locks exactly that
  class and the classes it derives from.\<close>

theorem base_chain_walks:
  assumes "bases_ok cls age" and "cls a = Some c" and "\<not> c_locked c"
  shows "InstanceOf cls \<lparr>in_class = a, in_values = vs\<rparr> t = Some (derives cls a t) \<and>
    CreateInstance cls a =
      Some (\<lambda>x. map_option (\<lambda>k. k\<lparr>c_locked := c_locked k \<or> derives cls a x\<rparr>) (cls x), SQInstance_new a c)"
proof
  show "InstanceOf cls \<lparr>in_class = a, in_values = vs\<rparr> t = Some (derives cls a t)"
    using class_walk_ok [OF assms(1), of a t] assms(2) by (simp add: InstanceOf_def)
  show "CreateInstance cls a =
      Some (\<lambda>x. map_option (\<lambda>k. k\<lparr>c_locked := c_locked k \<or> derives cls a x\<rparr>) (cls x), SQInstance_new a c)"
    using class_Lock_ok [OF assms(1), of a] assms(2,3) by (simp add: CreateInstance_def SQInstance_new_def)
qed

theorem base_chain_walks_witness:
  "\<exists>b c. SQClass_new plain_env None = Some b \<and> SQClass_new plain_env (Some (1, b)) = Some c \<and>
     InstanceOf [1 \<mapsto> b, 2 \<mapsto> c] \<lparr>in_class = 2, in_values = []\<rparr> 1 = Some True"
proof -
  obtain b where b: "SQClass_new plain_env None = Some b" "class_ok plain_env b"
    using SQClass_new_root_ok by blast
  then have nb: "c_base b = None" by (auto simp: SQClass_new_def)
  obtain c where c: "SQClass_new plain_env (Some (1, b)) = Some c" "c_base c = Some 1" "\<not> c_locked c"
    using SQClass_new_base_ok [OF b(2), of 1] by blast
  have ok: "bases_ok [1 \<mapsto> b, 2 \<mapsto> c] unat"
    using nb c(2) by (auto simp: bases_ok_def split: if_splits)
  have d: "derives [1 \<mapsto> b, 2 \<mapsto> c] 2 1"
    by (rule derives.step [of _ _ c 1]) (simp_all add: c(2) derives.refl)
  from base_chain_walks [OF ok, of 2 c "[]" 1] c(3) d b(1) c(1) show ?thesis by auto
qed

end
