(* ===== verification/Sq_VM.thy ===== *)
theory Sq_VM
  imports Sq_Class Sq_Vector
begin

text \<open>
  Access to slots in the virtual machine (\<^verbatim>\<open>sqvm.cpp\<close>: \<^verbatim>\<open>Get\<close>, \<^verbatim>\<open>Set\<close>, \<^verbatim>\<open>NewSlot\<close>,
  \<^verbatim>\<open>NewSlotA\<close>, \<^verbatim>\<open>DeleteSlot\<close>, \<^verbatim>\<open>Clone\<close> and their fallbacks to delegates, metamethods, default
  delegates and the root table) and delegation itself (\<^verbatim>\<open>SQDelegable\<close> in \<^verbatim>\<open>sqobject.cpp\<close>).

  The objects live in an explicit store: one partial map from addresses per kind of object.  The
  record of the store is extensible: the theory of frames adds the stack of the machine to it, so
  that a called metamethod may change registers as well.
  A definition returns \<open>None\<close> when it follows a dangling address, when a loop does not end or
  when its fuel is used up.  The fuel of \<open>Get_f\<close> and \<open>Set_f\<close> bounds the nesting of delegates;
  \<open>Get_returns\<close> shows that the length of the delegate chain is enough.

  The call of a metamethod (\<^verbatim>\<open>Push\<close> of the arguments, \<^verbatim>\<open>Call\<close>, \<^verbatim>\<open>Pop\<close>) runs script or native
  code and is the parameter \<open>vp_call\<close>: it may change the store, sets \<^verbatim>\<open>_lasterror\<close> when it
  fails, and is taken to return.
\<close>

subsection \<open>The store and the parameters\<close>

datatype lasterror = ErrText "sqchar list" | ErrValue sqobject

record vm =
  v_tables :: "addr \<Rightarrow> sqtable option"
  v_arrays :: "addr \<Rightarrow> sqarray option"
  v_classes :: "addr \<Rightarrow> sqclass option"
  v_instances :: "addr \<Rightarrow> sqinstance option"
  v_userdata :: "addr \<Rightarrow> addr option option"
  v_strings :: "addr \<Rightarrow> sqchar list option"
  v_weakrefs :: "addr \<Rightarrow> sqobject option"
  v_lasterror :: lasterror

record 'st vm_par =
  vp_strhash :: "addr \<Rightarrow> sqhash"
  vp_mm :: "nat \<Rightarrow> sqobject"
  vp_mmmap :: sqtable
  vp_ctor :: sqobject
  vp_rebase :: "addr \<Rightarrow> addr \<Rightarrow> sqobject"
  vp_ddel :: "sqobjtype \<Rightarrow> addr"
  vp_root :: sqobject
  vp_roottable :: addr
  vp_new :: "'st \<Rightarrow> addr"
  vp_call :: "sqobject \<Rightarrow> nat \<Rightarrow> sqobject list \<Rightarrow> 'st \<Rightarrow> 'st \<times> sqobject option"
  vp_mkstr :: "sqchar list \<Rightarrow> 'st \<Rightarrow> 'st \<times> addr"
  vp_fmtg :: "sqfloat \<Rightarrow> sqchar list"
  vp_fmtg14 :: "sqfloat \<Rightarrow> sqchar list"
  vp_fmtp :: "64 word \<Rightarrow> sqchar list"

definition deref :: "'a vm_scheme \<Rightarrow> addr \<Rightarrow> sqobject" where
  "deref v a = (case v_weakrefs v a of Some ob \<Rightarrow> ob | None \<Rightarrow> ONull)"

abbreviation vp_hsh :: "'a vm_scheme vm_par \<Rightarrow> sqobject \<Rightarrow> sqhash" where
  "vp_hsh par \<equiv> HashObj (vp_strhash par)"

definition class_env_of :: "'a vm_scheme vm_par \<Rightarrow> 'a vm_scheme \<Rightarrow> class_env" where
  "class_env_of par v =
     \<lparr> ce_hsh = vp_hsh par, ce_deref = deref v, ce_mmmap = vp_mmmap par, ce_ctor = vp_ctor par,
       ce_rebase = vp_rebase par \<rparr>"

definition table_get :: "'a vm_scheme vm_par \<Rightarrow> 'a vm_scheme \<Rightarrow> addr \<Rightarrow> sqobject \<Rightarrow> sqobject option option" where
  "table_get par v a key = do { t \<leftarrow> v_tables v a; tbl_Get (vp_hsh par) (realval (deref v)) t key }"

definition put_table :: "'a vm_scheme \<Rightarrow> addr \<Rightarrow> sqtable \<Rightarrow> 'a vm_scheme" where
  "put_table v a t = v\<lparr> v_tables := (v_tables v)(a \<mapsto> t) \<rparr>"

subsection \<open>Delegates and metamethods\<close>

text \<open>\<^verbatim>\<open>_delegable(self)->_delegate\<close> of a table or a user data.\<close>

definition delegate_of :: "'a vm_scheme \<Rightarrow> sqobject \<Rightarrow> addr option option" where
  "delegate_of v self = (case self of
     OTable a \<Rightarrow> map_option tdelegate (v_tables v a)
   | OUserData a \<Rightarrow> v_userdata v a
   | _ \<Rightarrow> None)"

text \<open>\<^verbatim>\<open>SQDelegable::GetMetaMethod\<close> and its override in \<^verbatim>\<open>SQInstance\<close>.\<close>

definition GetMetaMethod :: "'a vm_scheme vm_par \<Rightarrow> 'a vm_scheme \<Rightarrow> sqobject \<Rightarrow> nat \<Rightarrow> sqobject option option" where
  "GetMetaMethod par v self mm = (case self of
     OInstance a \<Rightarrow> do {
       i \<leftarrow> v_instances v a;
       c \<leftarrow> v_classes v (in_class i);
       Some (instance_GetMetaMethod c mm) }
   | _ \<Rightarrow> do {
       d \<leftarrow> delegate_of v self;
       case d of None \<Rightarrow> Some None | Some da \<Rightarrow> table_get par v da (vp_mm par mm) })"

text \<open>The loop of \<^verbatim>\<open>SetDelegate\<close>: true when no table of the chain delegates to \<^verbatim>\<open>this\<close>.\<close>

partial_function (option) delegate_chain_free ::
  "(addr \<Rightarrow> sqtable option) \<Rightarrow> addr \<Rightarrow> addr option \<Rightarrow> bool option" where
  "delegate_chain_free tabs this temp =
     (case temp of
        None \<Rightarrow> Some True
      | Some a \<Rightarrow>
          (case tabs a of
             None \<Rightarrow> None
           | Some t \<Rightarrow> if tdelegate t = Some this then Some False
                      else delegate_chain_free tabs this (tdelegate t)))"

declare delegate_chain_free.simps [code]

definition SetDelegate :: "'a vm_scheme \<Rightarrow> sqobject \<Rightarrow> addr option \<Rightarrow> ('a vm_scheme \<times> bool) option" where
  "SetDelegate v self mt =
     (let this = rawval self in
      if mt = Some this then Some (v, False)
      else do {
        free \<leftarrow> delegate_chain_free (v_tables v) this mt;
        if \<not> free then Some (v, False)
        else (case self of
          OTable a \<Rightarrow> do { t \<leftarrow> v_tables v a; Some (put_table v a (t\<lparr> tdelegate := mt \<rparr>), True) }
        | OUserData a \<Rightarrow> do { _ \<leftarrow> v_userdata v a; Some (v\<lparr> v_userdata := (v_userdata v)(a \<mapsto> mt) \<rparr>, True) }
        | _ \<Rightarrow> None) })"

subsection \<open>Errors\<close>

text \<open>The operators of \<open>Sq_Operators\<close> on this store.\<close>

definition ops_env :: "'a vm_scheme vm_par \<Rightarrow> 'a vm_scheme vm_env" where
  "ops_env par =
     \<lparr> env_mm = (\<lambda>v ob mm. case GetMetaMethod par v ob mm of Some r \<Rightarrow> r | None \<Rightarrow> None),
       env_call = vp_call par,
       env_str = (\<lambda>v a. case v_strings v a of Some s \<Rightarrow> s | None \<Rightarrow> []),
       env_mkstr = vp_mkstr par, env_fmtg = vp_fmtg par, env_fmtg14 = vp_fmtg14 par,
       env_fmtp = vp_fmtp par \<rparr>"

text \<open>\<^verbatim>\<open>Raise_Error\<close> prints into a buffer of the length of the format plus twice
  \<^verbatim>\<open>NUMBER_MAX_CHAR\<close>, so a long argument is cut.\<close>

definition NUMBER_MAX_CHAR :: nat where "NUMBER_MAX_CHAR = 50"

fun fmt_s :: "sqchar list \<Rightarrow> sqchar list list \<Rightarrow> sqchar list" where
  "fmt_s (c # d # fmt) (a # args) =
     (if c = 37 \<and> d = 115 then takeWhile (\<lambda>x. x \<noteq> 0) a @ fmt_s fmt args else c # fmt_s (d # fmt) (a # args))"
| "fmt_s fmt args = fmt"

definition Raise_Error :: "'a vm_scheme \<Rightarrow> sqchar list \<Rightarrow> sqchar list list \<Rightarrow> 'a vm_scheme" where
  "Raise_Error v fmt args =
     v\<lparr> v_lasterror := ErrText (take (length fmt + NUMBER_MAX_CHAR * 2 - 1) (fmt_s fmt args)) \<rparr>"

text \<open>\<^verbatim>\<open>Raise_IdxError\<close>: at most 50 bytes of the key are printed, which fit the buffer.\<close>

definition raise_idx :: "'a vm_scheme vm_par \<Rightarrow> 'a vm_scheme \<Rightarrow> sqobject \<Rightarrow> 'a vm_scheme" where
  "raise_idx par v key =
     (case Raise_IdxError (ops_env par) v key of Raise m \<Rightarrow> v\<lparr> v_lasterror := ErrText m \<rparr> | _ \<Rightarrow> v)"

subsection \<open>Get\<close>

definition GET_FLAG_RAW :: squint where "GET_FLAG_RAW = 1"
definition GET_FLAG_DO_NOT_RAISE_ERROR :: squint where "GET_FLAG_DO_NOT_RAISE_ERROR = 2"
definition DONT_FALL_BACK :: int where "DONT_FALL_BACK = 666"

datatype 'a fallback = FALLBACK_OK 'a | FALLBACK_NO_MATCH | FALLBACK_ERROR

text \<open>The \<^verbatim>\<open>switch\<close> at the start of \<^verbatim>\<open>Get\<close>: a value, an index error, or on to the fallbacks.\<close>

datatype direct = Hit sqobject | BadIndex | Fall

definition string_at :: "sqchar list \<Rightarrow> sqint \<Rightarrow> direct" where
  "string_at s n0 =
     (let n = (if sint n0 < 0 then n0 + word_of_nat (length s) else n0) in
      if sint n \<ge> 0 \<and> sint n < int (length s) then Hit (OInteger (scast (s ! nat (sint n)))) else BadIndex)"

definition hit_or_fall :: "sqobject option \<Rightarrow> direct" where
  "hit_or_fall r = (case r of Some x \<Rightarrow> Hit x | None \<Rightarrow> Fall)"

definition Get_direct :: "'a vm_scheme vm_par \<Rightarrow> 'a vm_scheme \<Rightarrow> sqobject \<Rightarrow> sqobject \<Rightarrow> direct option" where
  "Get_direct par v self key = (case self of
     OTable a \<Rightarrow> map_option hit_or_fall (table_get par v a key)
   | OArray a \<Rightarrow>
       if sq_isnumeric key then do {
         arr \<leftarrow> v_arrays v a;
         Some (case arr_Get (realval (deref v)) arr (tointeger key) of Some x \<Rightarrow> Hit x | None \<Rightarrow> BadIndex) }
       else Some Fall
   | OInstance a \<Rightarrow> do {
       i \<leftarrow> v_instances v a;
       c \<leftarrow> v_classes v (in_class i);
       map_option hit_or_fall (instance_Get (class_env_of par v) c i key) }
   | OClass a \<Rightarrow> do {
       c \<leftarrow> v_classes v a;
       map_option hit_or_fall (class_Get (class_env_of par v) c key) }
   | OString a \<Rightarrow>
       if sq_isnumeric key then do { s \<leftarrow> v_strings v a; Some (string_at s (tointeger key)) }
       else Some Fall
   | _ \<Rightarrow> Some Fall)"

definition InvokeDefaultDelegate :: "'a vm_scheme vm_par \<Rightarrow> 'a vm_scheme \<Rightarrow> sqobject \<Rightarrow> sqobject \<Rightarrow> sqobject option option" where
  "InvokeDefaultDelegate par v self key =
     (if sq_type self \<in> {OT_CLASS, OT_TABLE, OT_ARRAY, OT_STRING, OT_INSTANCE, OT_INTEGER, OT_FLOAT, OT_BOOL,
                         OT_GENERATOR, OT_CLOSURE, OT_NATIVECLOSURE, OT_THREAD, OT_WEAKREF}
      then table_get par v (vp_ddel par (sq_type self)) key else Some None)"

text \<open>The metamethod part of \<^verbatim>\<open>FallBackGet\<close> and \<^verbatim>\<open>FallBackSet\<close>.\<close>

definition fallback_mm ::
  "'a vm_scheme vm_par \<Rightarrow> 'a vm_scheme \<Rightarrow> sqobject \<Rightarrow> nat \<Rightarrow> sqobject list \<Rightarrow> ('a vm_scheme \<times> sqobject fallback) option" where
  "fallback_mm par v self mm args = do {
     m \<leftarrow> GetMetaMethod par v self mm;
     case m of
       None \<Rightarrow> Some (v, FALLBACK_NO_MATCH)
     | Some closure \<Rightarrow>
         (let (v1, r) = vp_call par closure mm args v in
          Some (v1, case r of
            Some x \<Rightarrow> FALLBACK_OK x
          | None \<Rightarrow> if v_lasterror v1 \<noteq> ErrValue ONull then FALLBACK_ERROR else FALLBACK_NO_MATCH)) }"

type_synonym 'a vm_get = "'a vm_scheme \<Rightarrow> sqobject \<Rightarrow> sqobject \<Rightarrow> squint \<Rightarrow> int \<Rightarrow> ('a vm_scheme \<times> sqobject option) option"

definition FallBackGet ::
  "'a vm_get \<Rightarrow> 'a vm_scheme vm_par \<Rightarrow> 'a vm_scheme \<Rightarrow> sqobject \<Rightarrow> sqobject \<Rightarrow> ('a vm_scheme \<times> sqobject fallback) option" where
  "FallBackGet get par v self key =
     (if sq_type self = OT_TABLE \<or> sq_type self = OT_USERDATA then do {
        d \<leftarrow> delegate_of v self;
        case d of
          None \<Rightarrow> Some (v, FALLBACK_NO_MATCH)
        | Some da \<Rightarrow> do {
            (v1, r) \<leftarrow> get v (OTable da) key GET_FLAG_DO_NOT_RAISE_ERROR DONT_FALL_BACK;
            case r of
              Some x \<Rightarrow> Some (v1, FALLBACK_OK x)
            | None \<Rightarrow> fallback_mm par v1 self MT_GET [self, key] } }
      else if sq_type self = OT_INSTANCE then fallback_mm par v self MT_GET [self, key]
      else Some (v, FALLBACK_NO_MATCH))"

definition get_miss :: "'a vm_scheme vm_par \<Rightarrow> 'a vm_scheme \<Rightarrow> sqobject \<Rightarrow> squint \<Rightarrow> 'a vm_scheme" where
  "get_miss par v key getflags =
     (if getflags AND GET_FLAG_DO_NOT_RAISE_ERROR = 0 then raise_idx par v key else v)"

text \<open>The root table as the last resort, for the object at stack index 0.\<close>

definition root_get ::
  "'a vm_get \<Rightarrow> 'a vm_scheme vm_par \<Rightarrow> 'a vm_scheme \<Rightarrow> sqobject \<Rightarrow> squint \<Rightarrow> int \<Rightarrow> ('a vm_scheme \<times> sqobject option) option" where
  "root_get get par v key getflags selfidx = do {
     (v1, r) \<leftarrow> (if selfidx = 0 \<and> vp_root par \<noteq> ONull
                 then get v (vp_root par) key 0 DONT_FALL_BACK else Some (v, None));
     case r of
       Some x \<Rightarrow> Some (v1, Some x)
     | None \<Rightarrow> Some (get_miss par v1 key getflags, None) }"

definition Get_body :: "'a vm_get \<Rightarrow> 'a vm_scheme vm_par \<Rightarrow> 'a vm_get" where
  "Get_body get par v self key getflags selfidx = do {
     d \<leftarrow> Get_direct par v self key;
     case d of
       Hit x \<Rightarrow> Some (v, Some x)
     | BadIndex \<Rightarrow> Some (get_miss par v key getflags, None)
     | Fall \<Rightarrow>
         (if getflags AND GET_FLAG_RAW = 0 then do {
            (v1, fb) \<leftarrow> FallBackGet get par v self key;
            case fb of
              FALLBACK_OK x \<Rightarrow> Some (v1, Some x)
            | FALLBACK_ERROR \<Rightarrow> Some (v1, None)
            | FALLBACK_NO_MATCH \<Rightarrow> do {
                dd \<leftarrow> InvokeDefaultDelegate par v1 self key;
                case dd of
                  Some x \<Rightarrow> Some (v1, Some x)
                | None \<Rightarrow> root_get get par v1 key getflags selfidx } }
          else root_get get par v key getflags selfidx) }"

primrec Get_f :: "nat \<Rightarrow> 'a vm_scheme vm_par \<Rightarrow> 'a vm_get" where
  "Get_f 0 par v self key getflags selfidx = None"
| "Get_f (Suc n) par v self key getflags selfidx = Get_body (Get_f n par) par v self key getflags selfidx"

subsection \<open>Set\<close>

text \<open>\<^verbatim>\<open>_table(self)->Set\<close> and \<^verbatim>\<open>_instance(self)->Set\<close> on the store.\<close>

definition table_set :: "'a vm_scheme vm_par \<Rightarrow> 'a vm_scheme \<Rightarrow> addr \<Rightarrow> sqobject \<Rightarrow> sqobject \<Rightarrow> ('a vm_scheme \<times> bool) option" where
  "table_set par v a key val = do {
     t \<leftarrow> v_tables v a;
     (t1, b) \<leftarrow> tbl_Set (vp_hsh par) t key val;
     Some (put_table v a t1, b) }"

definition instance_set :: "'a vm_scheme vm_par \<Rightarrow> 'a vm_scheme \<Rightarrow> addr \<Rightarrow> sqobject \<Rightarrow> sqobject \<Rightarrow> ('a vm_scheme \<times> bool) option" where
  "instance_set par v a key val = do {
     i \<leftarrow> v_instances v a;
     c \<leftarrow> v_classes v (in_class i);
     (i1, b) \<leftarrow> instance_Set (class_env_of par v) c i key val;
     Some (v\<lparr> v_instances := (v_instances v)(a \<mapsto> i1) \<rparr>, b) }"

definition raise_indexing :: "'a vm_scheme \<Rightarrow> sqobject \<Rightarrow> sqobject \<Rightarrow> 'a vm_scheme" where
  "raise_indexing v self key = Raise_Error v (bytes_of ''indexing %s with %s'') [type_bytes self, type_bytes key]"

text \<open>The \<^verbatim>\<open>switch\<close> at the start of \<^verbatim>\<open>Set\<close>: the result, or \<open>None\<close> for \<^verbatim>\<open>break\<close>.\<close>

definition Set_direct ::
  "'a vm_scheme vm_par \<Rightarrow> 'a vm_scheme \<Rightarrow> sqobject \<Rightarrow> sqobject \<Rightarrow> sqobject \<Rightarrow> ('a vm_scheme \<times> bool option) option" where
  "Set_direct par v self key val = (case self of
     OTable a \<Rightarrow> map_option (\<lambda>(v1, b). (v1, if b then Some True else None)) (table_set par v a key val)
   | OInstance a \<Rightarrow> map_option (\<lambda>(v1, b). (v1, if b then Some True else None)) (instance_set par v a key val)
   | OArray a \<Rightarrow>
       if \<not> sq_isnumeric key then Some (raise_indexing v self key, Some False)
       else do {
         arr \<leftarrow> v_arrays v a;
         let (arr1, b) = arr_Set arr (tointeger key) val;
         Some (if b then (v\<lparr> v_arrays := (v_arrays v)(a \<mapsto> arr1) \<rparr>, Some True)
               else (raise_idx par v key, Some False)) }
   | OUserData a \<Rightarrow> Some (v, None)
   | _ \<Rightarrow> Some (Raise_Error v (bytes_of ''trying to set '' @ quoted (bytes_of ''%s'')) [type_bytes self], Some False))"

type_synonym 'a vm_set = "'a vm_scheme \<Rightarrow> sqobject \<Rightarrow> sqobject \<Rightarrow> sqobject \<Rightarrow> int \<Rightarrow> ('a vm_scheme \<times> bool) option"

definition FallBackSet ::
  "'a vm_set \<Rightarrow> 'a vm_scheme vm_par \<Rightarrow> 'a vm_scheme \<Rightarrow> sqobject \<Rightarrow> sqobject \<Rightarrow> sqobject \<Rightarrow> ('a vm_scheme \<times> sqobject fallback) option" where
  "FallBackSet setf par v self key val =
     (if sq_type self = OT_TABLE then do {
        d \<leftarrow> delegate_of v self;
        (v1, b) \<leftarrow> (case d of None \<Rightarrow> Some (v, False) | Some da \<Rightarrow> setf v (OTable da) key val DONT_FALL_BACK);
        if b then Some (v1, FALLBACK_OK ONull) else fallback_mm par v1 self MT_SET [self, key, val] }
      else if sq_type self = OT_INSTANCE \<or> sq_type self = OT_USERDATA
           then fallback_mm par v self MT_SET [self, key, val]
      else Some (v, FALLBACK_NO_MATCH))"

definition Set_body :: "'a vm_set \<Rightarrow> 'a vm_scheme vm_par \<Rightarrow> 'a vm_set" where
  "Set_body setf par v self key val selfidx = do {
     (v0, d) \<leftarrow> Set_direct par v self key val;
     case d of
       Some b \<Rightarrow> Some (v0, b)
     | None \<Rightarrow> do {
         (v1, fb) \<leftarrow> FallBackSet setf par v0 self key val;
         case fb of
           FALLBACK_OK _ \<Rightarrow> Some (v1, True)
         | FALLBACK_ERROR \<Rightarrow> Some (v1, False)
         | FALLBACK_NO_MATCH \<Rightarrow> do {
             (v2, b) \<leftarrow> (if selfidx = 0 then table_set par v1 (vp_roottable par) key val else Some (v1, False));
             if b then Some (v2, True) else Some (raise_idx par v2 key, False) } } }"

primrec Set_f :: "nat \<Rightarrow> 'a vm_scheme vm_par \<Rightarrow> 'a vm_set" where
  "Set_f 0 par v self key val selfidx = None"
| "Set_f (Suc n) par v self key val selfidx = Set_body (Set_f n par) par v self key val selfidx"

subsection \<open>Clone\<close>

text \<open>\<^verbatim>\<open>CallMetaMethod\<close>: the result, or the failure of the call.\<close>

definition CallMetaMethod ::
  "'a vm_scheme vm_par \<Rightarrow> 'a vm_scheme \<Rightarrow> sqobject \<Rightarrow> nat \<Rightarrow> sqobject list \<Rightarrow> 'a vm_scheme \<times> sqobject option" where
  "CallMetaMethod par v closure mm args = vp_call par closure mm args v"

text \<open>\<^verbatim>\<open>_delegable(newobj)->_delegate && ...GetMetaMethod\<close>; the delegate of an instance is the
  member table of its class, which is there as long as the class is.\<close>

definition delegate_mm :: "'a vm_scheme vm_par \<Rightarrow> 'a vm_scheme \<Rightarrow> sqobject \<Rightarrow> nat \<Rightarrow> sqobject option option" where
  "delegate_mm par v self mm =
     (if sq_type self = OT_INSTANCE then GetMetaMethod par v self mm
      else do {
        d \<leftarrow> delegate_of v self;
        if d = None then Some None else GetMetaMethod par v self mm })"

definition cloned_mt :: "'a vm_scheme vm_par \<Rightarrow> 'a vm_scheme \<Rightarrow> sqobject \<Rightarrow> sqobject \<Rightarrow> ('a vm_scheme \<times> sqobject option) option" where
  "cloned_mt par v newobj self = do {
     m \<leftarrow> delegate_mm par v newobj MT_CLONED;
     case m of
       None \<Rightarrow> Some (v, Some newobj)
     | Some closure \<Rightarrow>
         (let (v1, r) = CallMetaMethod par v closure MT_CLONED [newobj, self] in
          Some (v1, if r = None then None else Some newobj)) }"

definition vm_Clone :: "'a vm_scheme vm_par \<Rightarrow> 'a vm_scheme \<Rightarrow> sqobject \<Rightarrow> ('a vm_scheme \<times> sqobject option) option" where
  "vm_Clone par v self = (case self of
     OTable a \<Rightarrow> do {
       t \<leftarrow> v_tables v a;
       t1 \<leftarrow> tbl_Clone (vp_hsh par) t;
       cloned_mt par (put_table v (vp_new par v) t1) (OTable (vp_new par v)) self }
   | OInstance a \<Rightarrow> do {
       i \<leftarrow> v_instances v a;
       c \<leftarrow> v_classes v (in_class i);
       i1 \<leftarrow> instance_Clone c i;
       cloned_mt par (v\<lparr> v_instances := (v_instances v)(vp_new par v \<mapsto> i1) \<rparr>) (OInstance (vp_new par v)) self }
   | OArray a \<Rightarrow> do {
       arr \<leftarrow> v_arrays v a;
       Some (v\<lparr> v_arrays := (v_arrays v)(vp_new par v \<mapsto> arr_Clone arr) \<rparr>, Some (OArray (vp_new par v))) }
   | _ \<Rightarrow> Some (Raise_Error v (bytes_of ''cloning a %s'') [type_bytes self], None))"

subsection \<open>New slots and deletion\<close>

definition class_newslot_error :: "'a vm_scheme vm_par \<Rightarrow> 'a vm_scheme \<Rightarrow> sqclass \<Rightarrow> sqobject \<Rightarrow> 'a vm_scheme" where
  "class_newslot_error par v c key =
     (if c_locked c
      then Raise_Error v (bytes_of ''trying to modify a class that has already been instantiated'') []
      else Raise_Error v (bytes_of ''the property '' @ quoted (bytes_of ''%s'') @ bytes_of '' already exists'')
             [PrintObjVal (ops_env par) v key])"

definition vm_NewSlot ::
  "'a vm_scheme vm_par \<Rightarrow> 'a vm_scheme \<Rightarrow> sqobject \<Rightarrow> sqobject \<Rightarrow> sqobject \<Rightarrow> bool \<Rightarrow> ('a vm_scheme \<times> bool) option" where
  "vm_NewSlot par v self key val bstatic =
     (if key = ONull then Some (Raise_Error v (bytes_of ''null cannot be used as index'') [], False)
      else case self of
        OTable a \<Rightarrow> do {
          t \<leftarrow> v_tables v a;
          present \<leftarrow> table_get par v a key;
          m \<leftarrow> (if tdelegate t \<noteq> None \<and> present = None then delegate_mm par v self MT_NEWSLOT else Some None);
          case m of
            Some closure \<Rightarrow>
              (let (v1, r) = CallMetaMethod par v closure MT_NEWSLOT [self, key, val] in Some (v1, r \<noteq> None))
          | None \<Rightarrow> do {
              (t1, _) \<leftarrow> NewSlot (vp_hsh par) t key val;
              Some (put_table v a t1, True) } }
      | OInstance a \<Rightarrow> do {
          m \<leftarrow> delegate_mm par v self MT_NEWSLOT;
          case m of
            Some closure \<Rightarrow>
              (let (v1, r) = CallMetaMethod par v closure MT_NEWSLOT [self, key, val] in Some (v1, r \<noteq> None))
          | None \<Rightarrow>
              Some (Raise_Error v (bytes_of ''class instances do not support the new slot operator'') [], False) }
      | OClass a \<Rightarrow> do {
          c \<leftarrow> v_classes v a;
          (c1, b) \<leftarrow> class_NewSlot (class_env_of par v) c key val bstatic;
          let v1 = v\<lparr> v_classes := (v_classes v)(a \<mapsto> c1) \<rparr>;
          Some (if b then (v1, True) else (class_newslot_error par v1 c1 key, False)) }
      | _ \<Rightarrow> Some (raise_indexing v self key, False))"

definition NewSlotA ::
  "'a vm_scheme vm_par \<Rightarrow> 'a vm_scheme \<Rightarrow> sqobject \<Rightarrow> sqobject \<Rightarrow> sqobject \<Rightarrow> sqobject \<Rightarrow> bool \<Rightarrow> bool \<Rightarrow> ('a vm_scheme \<times> bool) option" where
  "NewSlotA par v self key val attrs bstatic raw = (case self of
     OClass a \<Rightarrow> do {
       c \<leftarrow> v_classes v a;
       let mm = c_metamethods c ! MT_NEWMEMBER;
       if \<not> raw \<and> mm \<noteq> ONull then
         (let (v1, r) = CallMetaMethod par v mm MT_NEWMEMBER [self, key, val, attrs, OBool bstatic]
          in Some (v1, r \<noteq> None))
       else do {
         (v1, b) \<leftarrow> vm_NewSlot par v self key val bstatic;
         if \<not> b then Some (v1, False)
         else if attrs = ONull then Some (v1, True)
         else do {
           c1 \<leftarrow> v_classes v1 a;
           (c2, _) \<leftarrow> class_SetAttributes (class_env_of par v1) c1 key attrs;
           Some (v1\<lparr> v_classes := (v_classes v1)(a \<mapsto> c2) \<rparr>, True) } } }
   | _ \<Rightarrow> Some (Raise_Error v (bytes_of ''object must be a class'') [], False))"

definition DeleteSlot :: "'a vm_scheme vm_par \<Rightarrow> 'a vm_scheme \<Rightarrow> sqobject \<Rightarrow> sqobject \<Rightarrow> ('a vm_scheme \<times> sqobject option) option" where
  "DeleteSlot par v self key =
     (if sq_type self \<in> {OT_TABLE, OT_INSTANCE, OT_USERDATA} then do {
        m \<leftarrow> delegate_mm par v self MT_DELSLOT;
        case m of
          Some closure \<Rightarrow> Some (CallMetaMethod par v closure MT_DELSLOT [self, key])
        | None \<Rightarrow>
            (case self of
               OTable a \<Rightarrow> do {
                 found \<leftarrow> table_get par v a key;
                 case found of
                   Some t \<Rightarrow> do {
                     tab \<leftarrow> v_tables v a;
                     tab1 \<leftarrow> tbl_Remove (vp_hsh par) tab key;
                     Some (put_table v a tab1, Some t) }
                 | None \<Rightarrow> Some (raise_idx par v key, None) }
             | _ \<Rightarrow> Some (Raise_Error v (bytes_of ''cannot delete a slot from %s'') [type_bytes self], None)) }
      else Some (Raise_Error v (bytes_of ''attempt to delete a slot from a %s'') [type_bytes self], None))"

end
