(* ===== verification/Sq_VM_Correct.thy ===== *)
theory Sq_VM_Correct
  imports Sq_VM Sq_Class_Correct
begin

text \<open>
  Delegation stays acyclic, so slot access ends; what \<^verbatim>\<open>Get\<close> answers is the first binding of the
  key along the delegate chain; \<^verbatim>\<open>Set\<close> and \<^verbatim>\<open>Get\<close> agree.
\<close>

subsection \<open>Delegate chains\<close>

definition chain_rank :: "(addr \<Rightarrow> sqtable option) \<Rightarrow> (addr \<Rightarrow> nat) \<Rightarrow> bool" where
  "chain_rank tabs rank \<longleftrightarrow>
     (\<forall>a t d. tabs a = Some t \<longrightarrow> tdelegate t = Some d \<longrightarrow> tabs d \<noteq> None \<and> rank d < rank a)"

definition acyclic_delegates :: "(addr \<Rightarrow> sqtable option) \<Rightarrow> bool" where
  "acyclic_delegates tabs \<longleftrightarrow> (\<exists>rank. chain_rank tabs rank)"

inductive delegates_to :: "(addr \<Rightarrow> sqtable option) \<Rightarrow> addr \<Rightarrow> addr \<Rightarrow> bool" for tabs where
  refl: "delegates_to tabs a a"
| step: "tabs a = Some t \<Longrightarrow> tdelegate t = Some d \<Longrightarrow> delegates_to tabs d b \<Longrightarrow> delegates_to tabs a b"

inductive_simps delegates_to_iff: "delegates_to tabs a b"

lemma delegates_to_rank: "delegates_to tabs a b \<Longrightarrow> chain_rank tabs rank \<Longrightarrow> b = a \<or> rank b < rank a"
proof (induction rule: delegates_to.induct)
  case (step a t d b)
  then have "rank d < rank a" unfolding chain_rank_def by blast
  with step show ?case by auto
qed simp

lemma delegate_chain_free_None [simp]: "delegate_chain_free tabs this None = Some True"
  by (simp add: delegate_chain_free.simps)

lemma delegate_chain_free_ok:
  assumes "chain_rank tabs rank" and "tabs m \<noteq> None"
  shows "delegate_chain_free tabs this (Some m) = Some (m = this \<or> \<not> delegates_to tabs m this)"
  using assms(2)
proof (induction "rank m" arbitrary: m rule: less_induct)
  case less
  then obtain t where t: "tabs m = Some t" by blast
  show ?case
  proof (cases "tdelegate t")
    case None
    with t show ?thesis
      by (subst delegate_chain_free.simps) (auto simp: delegates_to_iff [of tabs m this])
  next
    case (Some d)
    then have d: "tabs d \<noteq> None" "rank d < rank m" using t assms(1) by (auto simp: chain_rank_def)
    have self: "\<not> delegates_to tabs d m" using delegates_to_rank [OF _ assms(1), of d m] d(2) by auto
    have "m = this \<or> d = this \<or> delegates_to tabs m this = delegates_to tabs d this"
      using t Some by (auto simp: delegates_to_iff [of tabs m this])
    moreover have "delegates_to tabs m this" if "d = this"
      using t Some that by (auto intro: delegates_to.intros)
    ultimately show ?thesis
      using less.hyps [OF d(2,1)] t Some self d(2)
      by (subst delegate_chain_free.simps) auto
  qed
qed

lemma acyclic_add_delegate:
  assumes ok: "acyclic_delegates tabs" and a: "tabs a = Some t" and m: "tabs m \<noteq> None"
    and free: "\<not> delegates_to tabs m a"
  shows "acyclic_delegates (tabs(a \<mapsto> t\<lparr>tdelegate := Some m\<rparr>))"
proof -
  obtain rank where rank: "chain_rank tabs rank" using ok by (auto simp: acyclic_delegates_def)
  let ?r = "\<lambda>x. if delegates_to tabs x a then rank x + rank m + 1 else rank x"
  have "chain_rank (tabs(a \<mapsto> t\<lparr>tdelegate := Some m\<rparr>)) ?r"
    unfolding chain_rank_def
  proof (intro allI impI)
    fix x u d
    assume x: "(tabs(a \<mapsto> t\<lparr>tdelegate := Some m\<rparr>)) x = Some u" "tdelegate u = Some d"
    show "(tabs(a \<mapsto> t\<lparr>tdelegate := Some m\<rparr>)) d \<noteq> None \<and> ?r d < ?r x"
    proof (cases "x = a")
      case True
      then have "d = m" using x by auto
      moreover have "delegates_to tabs a a" by (rule delegates_to.refl)
      ultimately show ?thesis using True m free by auto
    next
      case False
      then have u: "tabs x = Some u" using x by simp
      then have "tabs d \<noteq> None" "rank d < rank x" using x rank by (auto simp: chain_rank_def)
      moreover have "delegates_to tabs x a \<longleftrightarrow> delegates_to tabs d a"
        using u x False by (auto simp: delegates_to_iff [of tabs x a])
      ultimately show ?thesis by simp
    qed
  qed
  then show ?thesis by (auto simp: acyclic_delegates_def)
qed

text \<open>C24. Delegation stays acyclic.  On a store whose delegate chains end, the cycle check of
  SetDelegate ends; it refuses exactly the delegates from whose chain the table itself is reached,
  and then changes nothing; otherwise it sets this one delegate and all chains still end.\<close>

theorem setdelegate_keeps_acyclic:
  assumes "acyclic_delegates (v_tables v)" and "v_tables v a = Some t"
    and "\<And>m. mt = Some m \<Longrightarrow> v_tables v m \<noteq> None"
  shows "\<exists>v'. SetDelegate v (OTable a) mt = Some (v', \<not> (\<exists>m. mt = Some m \<and> delegates_to (v_tables v) m a)) \<and>
    acyclic_delegates (v_tables v') \<and>
    v' = (if \<exists>m. mt = Some m \<and> delegates_to (v_tables v) m a then v
          else v\<lparr>v_tables := (v_tables v)(a \<mapsto> t\<lparr>tdelegate := mt\<rparr>)\<rparr>)"
proof (cases mt)
  case None
  obtain rank where "chain_rank (v_tables v) rank" using assms(1) by (auto simp: acyclic_delegates_def)
  then have "chain_rank ((v_tables v)(a \<mapsto> t\<lparr>tdelegate := None\<rparr>)) rank"
    by (auto simp: chain_rank_def)
  with None assms(2) show ?thesis
    by (auto simp: SetDelegate_def put_table_def acyclic_delegates_def)
next
  case (Some m)
  then have m: "v_tables v m \<noteq> None" using assms(3) by blast
  obtain rank where rank: "chain_rank (v_tables v) rank" using assms(1) by (auto simp: acyclic_delegates_def)
  show ?thesis
  proof (cases "delegates_to (v_tables v) m a")
    case True
    with Some show ?thesis
      using delegate_chain_free_ok [OF rank m, of a] assms(1) by (auto simp: SetDelegate_def)
  next
    case False
    then have "m \<noteq> a" using delegates_to.refl by blast
    with False Some assms(2) show ?thesis
      using delegate_chain_free_ok [OF rank m, of a] acyclic_add_delegate [OF assms(1,2) m False]
      by (auto simp: SetDelegate_def put_table_def)
  qed
qed

definition empty_vm :: vm where
  "empty_vm = \<lparr>v_tables = (\<lambda>_. None), v_arrays = (\<lambda>_. None), v_classes = (\<lambda>_. None), v_instances = (\<lambda>_. None),
     v_userdata = (\<lambda>_. None), v_strings = (\<lambda>_. None), v_weakrefs = (\<lambda>_. None), v_lasterror = ErrValue ONull\<rparr>"

definition two_tables :: vm where
  "two_tables = empty_vm\<lparr>v_tables := [1 \<mapsto> (SQTable_new 0)\<lparr>tdelegate := Some 2\<rparr>, 2 \<mapsto> SQTable_new 0]\<rparr>"

lemma SQTable_new_delegate [simp]: "tdelegate (SQTable_new n) = None"
  by (simp add: SQTable_new_def AllocNodes_def Let_def)

lemma two_tables_acyclic: "acyclic_delegates (v_tables two_tables)"
  unfolding acyclic_delegates_def
  by (rule exI [of _ "\<lambda>a. if a = 1 then 1 else 0"]) (auto simp: chain_rank_def two_tables_def)

theorem setdelegate_keeps_acyclic_witness:
  "SetDelegate two_tables (OTable 2) (Some 1) = Some (two_tables, False)"
proof -
  have "delegates_to (v_tables two_tables) 1 2"
    by (rule delegates_to.step [of _ _ "(SQTable_new 0)\<lparr>tdelegate := Some 2\<rparr>" 2])
      (simp_all add: two_tables_def delegates_to.refl)
  with setdelegate_keeps_acyclic [OF two_tables_acyclic, of 2 "SQTable_new 0" "Some 1"]
  show ?thesis by (auto simp: two_tables_def)
qed

subsection \<open>Well-formed stores\<close>

definition store_ok :: "'a vm_scheme vm_par \<Rightarrow> 'a vm_scheme \<Rightarrow> bool" where
  "store_ok par v \<longleftrightarrow>
     (\<forall>a t. v_tables v a = Some t \<longrightarrow> wf_table (vp_hsh par) t) \<and>
     acyclic_delegates (v_tables v) \<and>
     (\<forall>a d. v_userdata v a = Some (Some d) \<longrightarrow> v_tables v d \<noteq> None) \<and>
     (\<forall>a c. v_classes v a = Some c \<longrightarrow> class_ok (class_env_of par v) c) \<and>
     (\<forall>a i. v_instances v a = Some i \<longrightarrow>
        (\<exists>c. v_classes v (in_class i) = Some c \<and> in_sync (class_env_of par v) (c, i))) \<and>
     (\<forall>ty. v_tables v (vp_ddel par ty) \<noteq> None)"

definition obj_ok :: "'a vm_scheme \<Rightarrow> sqobject \<Rightarrow> bool" where
  "obj_ok v ob \<longleftrightarrow> (case ob of
     OTable a \<Rightarrow> v_tables v a \<noteq> None | OArray a \<Rightarrow> v_arrays v a \<noteq> None | OClass a \<Rightarrow> v_classes v a \<noteq> None
   | OInstance a \<Rightarrow> v_instances v a \<noteq> None | OUserData a \<Rightarrow> v_userdata v a \<noteq> None
   | OString a \<Rightarrow> v_strings v a \<noteq> None | _ \<Rightarrow> True)"

definition keeps :: "'a vm_scheme vm_par \<Rightarrow> 'a vm_scheme \<Rightarrow> 'a vm_scheme \<Rightarrow> bool" where
  "keeps par v v1 \<longleftrightarrow> store_ok par v1 \<and> (\<forall>ob. obj_ok v ob \<longrightarrow> obj_ok v1 ob)"

lemma keeps_trans: "keeps par v v1 \<Longrightarrow> keeps par v1 v2 \<Longrightarrow> keeps par v v2"
  by (simp add: keeps_def)

lemma keeps_refl: "store_ok par v \<Longrightarrow> keeps par v v"
  by (simp add: keeps_def)

text \<open>The calls of metamethods keep the store well formed and free no object in use.\<close>

definition calls_ok :: "'a vm_scheme vm_par \<Rightarrow> bool" where
  "calls_ok par \<longleftrightarrow> (\<forall>closure mm args v. store_ok par v \<longrightarrow> keeps par v (fst (vp_call par closure mm args v)))"

lemma store_ok_lasterror [simp]: "store_ok par (v\<lparr>v_lasterror := e\<rparr>) \<longleftrightarrow> store_ok par v"
proof -
  have "class_env_of par (v\<lparr>v_lasterror := e\<rparr>) = class_env_of par v"
    by (simp add: class_env_of_def deref_def [abs_def])
  then show ?thesis by (simp add: store_ok_def)
qed

lemma obj_ok_lasterror [simp]: "obj_ok (v\<lparr>v_lasterror := e\<rparr>) = obj_ok v"
  by (simp add: obj_ok_def fun_eq_iff split: sqobject.split)

lemma keeps_lasterror [simp]: "keeps par v (v1\<lparr>v_lasterror := e\<rparr>) \<longleftrightarrow> keeps par v v1"
  by (simp add: keeps_def)

lemma keeps_raise [simp]:
  "keeps par v (raise_idx par v1 key) \<longleftrightarrow> keeps par v v1"
  "keeps par v (get_miss par v1 key f) \<longleftrightarrow> keeps par v v1"
  by (simp_all add: raise_idx_def get_miss_def split: vmerr.split)

lemma table_get_ok:
  assumes "store_ok par v" "v_tables v a = Some t"
  shows "table_get par v a key = Some (map_option (realval (deref v)) (table_map t key))"
  using assms by (simp add: table_get_def store_ok_def tbl_Get_eq)

lemma table_get_returns: "store_ok par v \<Longrightarrow> v_tables v a \<noteq> None \<Longrightarrow> \<exists>r. table_get par v a key = Some r"
  using table_get_ok by blast

lemma Get_direct_returns:
  assumes ok: "store_ok par v" and self: "obj_ok v self"
  shows "\<exists>d. Get_direct par v self key = Some d"
proof (cases self)
  case (OTable a)
  with self ok table_get_returns [of par v a key] show ?thesis by (auto simp: Get_direct_def obj_ok_def)
next
  case (OArray a)
  with self show ?thesis by (auto simp: Get_direct_def obj_ok_def)
next
  case (OInstance a)
  with self obtain i where i: "v_instances v a = Some i" by (auto simp: obj_ok_def)
  with ok obtain c where "v_classes v (in_class i) = Some c" "in_sync (class_env_of par v) (c, i)"
    unfolding store_ok_def by blast
  with i OInstance instance_Get_eq [of "class_env_of par v" c i key] show ?thesis by (simp add: Get_direct_def)
next
  case (OClass a)
  with self obtain c where c: "v_classes v a = Some c" by (auto simp: obj_ok_def)
  with ok have "class_ok (class_env_of par v) c" by (simp add: store_ok_def)
  with c OClass class_Get_eq [of "class_env_of par v" c key] show ?thesis by (simp add: Get_direct_def)
next
  case (OString a)
  with self show ?thesis by (auto simp: Get_direct_def obj_ok_def)
qed (auto simp: Get_direct_def)

lemma delegate_of_ok:
  assumes ok: "store_ok par v" and self: "obj_ok v self" and ty: "sq_type self = OT_TABLE \<or> sq_type self = OT_USERDATA"
  obtains (none) "delegate_of v self = Some None"
  | (some) d where "delegate_of v self = Some (Some d)" "v_tables v d \<noteq> None"
proof -
  have "\<exists>r. delegate_of v self = Some r \<and> (\<forall>d. r = Some d \<longrightarrow> v_tables v d \<noteq> None)"
    using ty
  proof
    assume "sq_type self = OT_TABLE"
    then obtain a where a: "self = OTable a" by (cases self) auto
    with self obtain t where t: "v_tables v a = Some t" by (auto simp: obj_ok_def)
    with ok have "\<forall>d. tdelegate t = Some d \<longrightarrow> v_tables v d \<noteq> None"
      unfolding store_ok_def acyclic_delegates_def chain_rank_def by metis
    with a t show ?thesis by (simp add: delegate_of_def)
  next
    assume "sq_type self = OT_USERDATA"
    then obtain a where a: "self = OUserData a" by (cases self) auto
    with self obtain d where "v_userdata v a = Some d" by (auto simp: obj_ok_def)
    with a ok show ?thesis by (auto simp: delegate_of_def store_ok_def)
  qed
  then obtain r where "delegate_of v self = Some r" "\<forall>d. r = Some d \<longrightarrow> v_tables v d \<noteq> None" by blast
  then show thesis by (cases r) (auto intro: none some)
qed

lemma delegate_exists:
  assumes ok: "store_ok par v" and self: "obj_ok v self" and d: "delegate_of v self = Some (Some d)"
  shows "v_tables v d \<noteq> None"
proof -
  have "sq_type self = OT_TABLE \<or> sq_type self = OT_USERDATA"
    using d by (cases self) (auto simp: delegate_of_def)
  with ok self show ?thesis
  proof (cases rule: delegate_of_ok)
    case none
    with d show ?thesis by simp
  next
    case (some d')
    with d show ?thesis by simp
  qed
qed

lemma GetMetaMethod_returns:
  assumes ok: "store_ok par v" and self: "obj_ok v self"
    and ty: "sq_type self \<in> {OT_TABLE, OT_USERDATA, OT_INSTANCE}"
  shows "\<exists>r. GetMetaMethod par v self mm = Some r"
proof (cases "sq_type self = OT_INSTANCE")
  case True
  then obtain a where a: "self = OInstance a" by (cases self) auto
  with self obtain i where i: "v_instances v a = Some i" by (auto simp: obj_ok_def)
  with ok obtain c where "v_classes v (in_class i) = Some c" unfolding store_ok_def by blast
  with a i show ?thesis by (simp add: GetMetaMethod_def)
next
  case False
  with ty have t: "sq_type self = OT_TABLE \<or> sq_type self = OT_USERDATA" by auto
  have eq: "GetMetaMethod par v self mm = do {
       d \<leftarrow> delegate_of v self;
       case d of None \<Rightarrow> Some None | Some da \<Rightarrow> table_get par v da (vp_mm par mm) }"
    using t by (cases self) (auto simp: GetMetaMethod_def)
  from ok self t show ?thesis
    by (cases rule: delegate_of_ok) (use eq table_get_returns [OF ok] in auto)
qed

lemma fallback_mm_returns:
  assumes ok: "store_ok par v" and self: "obj_ok v self" and calls: "calls_ok par"
    and ty: "sq_type self \<in> {OT_TABLE, OT_USERDATA, OT_INSTANCE}"
  shows "\<exists>v1 fb. fallback_mm par v self mm args = Some (v1, fb) \<and> keeps par v v1"
proof -
  obtain m where m: "GetMetaMethod par v self mm = Some m" using GetMetaMethod_returns [OF ok self ty] by blast
  show ?thesis
  proof (cases m)
    case None
    with m show ?thesis by (simp add: fallback_mm_def keeps_refl [OF ok])
  next
    case (Some closure)
    have "keeps par v (fst (vp_call par closure mm args v))" using calls ok by (simp add: calls_ok_def)
    with m Some show ?thesis by (cases "vp_call par closure mm args v") (simp add: fallback_mm_def)
  qed
qed

lemma InvokeDefaultDelegate_returns:
  "store_ok par v \<Longrightarrow> \<exists>r. InvokeDefaultDelegate par v self key = Some r"
  using table_get_returns [of par v] by (simp add: InvokeDefaultDelegate_def store_ok_def)

subsection \<open>Get ends\<close>

definition extends :: "'a vm_get \<Rightarrow> 'a vm_get \<Rightarrow> bool" where
  "extends g g' \<longleftrightarrow> (\<forall>v self key f i r. g v self key f i = Some r \<longrightarrow> g' v self key f i = Some r)"

lemma extendsD: "extends g g' \<Longrightarrow> g v self key f i = Some r \<Longrightarrow> g' v self key f i = Some r"
  unfolding extends_def by blast

lemma FallBackGet_extends:
  "extends g g' \<Longrightarrow> FallBackGet g par v self key = Some r \<Longrightarrow> FallBackGet g' par v self key = Some r"
  by (auto simp: FallBackGet_def dest: extendsD split: if_splits option.splits bind_splits)

lemma root_get_extends:
  "extends g g' \<Longrightarrow> root_get g par v key f i = Some r \<Longrightarrow> root_get g' par v key f i = Some r"
  by (auto simp: root_get_def dest: extendsD split: if_splits option.splits bind_splits)

lemma Get_body_extends:
  assumes e: "extends g g'" shows "extends (Get_body g par) (Get_body g' par)"
  unfolding extends_def
proof (intro allI impI)
  note mono = FallBackGet_extends [OF e] root_get_extends [OF e]
  fix v self key f i r
  assume a: "Get_body g par v self key f i = Some r"
  then obtain d where d: "Get_direct par v self key = Some d" by (auto simp: Get_body_def split: bind_splits)
  show "Get_body g' par v self key f i = Some r"
  proof (cases "d = Fall")
    case Fall: True
    show ?thesis
    proof (cases "f AND GET_FLAG_RAW = 0")
      case False
      with a d Fall have "root_get g par v key f i = Some r" by (simp add: Get_body_def)
      from mono(2) [OF this] d Fall False show ?thesis by (simp add: Get_body_def)
    next
      case True
      with a d Fall obtain v1 fb where fb: "FallBackGet g par v self key = Some (v1, fb)"
        by (auto simp: Get_body_def split: bind_splits)
      note fb' = mono(1) [OF fb]
      show ?thesis
        using a d Fall True fb fb' mono(2)
        by (auto simp: Get_body_def split: fallback.splits bind_splits option.splits)
    qed
  qed (use a d in \<open>auto simp: Get_body_def split: direct.splits\<close>)
qed

lemma Get_f_Suc: "Get_f (Suc n) par = Get_body (Get_f n par) par"
  by (intro ext) simp

lemma Get_f_extends: "extends (Get_f n par) (Get_f (Suc n) par)"
proof (induction n)
  case 0
  then show ?case by (simp add: extends_def)
next
  case (Suc n)
  from Get_body_extends [OF this, of par] show ?case by (simp only: Get_f_Suc)
qed

lemma Get_f_mono: "n \<le> m \<Longrightarrow> extends (Get_f n par) (Get_f m par)"
proof (induction rule: dec_induct)
  case base
  show ?case by (simp add: extends_def)
next
  case (step m)
  with Get_f_extends [of m par] show ?case unfolding extends_def by blast
qed

definition Get_ends :: "'a vm_scheme vm_par \<Rightarrow> 'a vm_scheme \<Rightarrow> sqobject \<Rightarrow> sqobject \<Rightarrow> squint \<Rightarrow> int \<Rightarrow> bool" where
  "Get_ends par v self key f i \<longleftrightarrow>
     (\<exists>n v1 r. Get_f n par v self key f i = Some (v1, r) \<and> keeps par v v1)"

lemma FallBackGet_returns:
  assumes ok: "store_ok par v" and self: "obj_ok v self" and calls: "calls_ok par"
    and del: "\<And>d. delegate_of v self = Some (Some d) \<Longrightarrow> Get_ends par v (OTable d) key GET_FLAG_DO_NOT_RAISE_ERROR DONT_FALL_BACK"
  shows "\<exists>n v1 fb. FallBackGet (Get_f n par) par v self key = Some (v1, fb) \<and> keeps par v v1"
proof (cases "sq_type self = OT_TABLE \<or> sq_type self = OT_USERDATA")
  case True
  with ok self show ?thesis
  proof (cases rule: delegate_of_ok)
    case none
    with True ok show ?thesis by (auto simp: FallBackGet_def keeps_refl)
  next
    case (some d)
    obtain n v1 r where g: "Get_f n par v (OTable d) key GET_FLAG_DO_NOT_RAISE_ERROR DONT_FALL_BACK = Some (v1, r)" "keeps par v v1"
      using del [OF some(1)] by (auto simp: Get_ends_def)
    have ok1: "store_ok par v1" "obj_ok v1 self" using g(2) self by (auto simp: keeps_def)
    have ty: "sq_type self \<in> {OT_TABLE, OT_USERDATA, OT_INSTANCE}" using True by auto
    obtain v2 fb where f: "fallback_mm par v1 self MT_GET [self, key] = Some (v2, fb)" "keeps par v1 v2"
      using fallback_mm_returns [OF ok1 calls ty] by blast
    have "keeps par v v2" by (rule keeps_trans [OF g(2) f(2)])
    with True some(1) g f show ?thesis
      by (cases r) (auto simp: FallBackGet_def intro!: exI [of _ n])
  qed
next
  case False
  show ?thesis
  proof (cases "sq_type self = OT_INSTANCE")
    case True
    then have ty: "sq_type self \<in> {OT_TABLE, OT_USERDATA, OT_INSTANCE}" by auto
    with False True fallback_mm_returns [OF ok self calls ty] show ?thesis by (simp add: FallBackGet_def)
  next
    case no: False
    with False ok show ?thesis by (simp add: FallBackGet_def keeps_refl)
  qed
qed

lemma Get_ends_from:
  assumes ok: "store_ok par v" and self: "obj_ok v self" and calls: "calls_ok par"
    and del: "\<And>d. delegate_of v self = Some (Some d) \<Longrightarrow> Get_ends par v (OTable d) key GET_FLAG_DO_NOT_RAISE_ERROR DONT_FALL_BACK"
    and root: "\<And>v1. keeps par v v1 \<Longrightarrow> \<exists>n v2 r. root_get (Get_f n par) par v1 key f i = Some (v2, r) \<and> keeps par v1 v2"
  shows "Get_ends par v self key f i"
proof -
  obtain d where d: "Get_direct par v self key = Some d" using Get_direct_returns [OF ok self] by blast
  show ?thesis
  proof (cases d)
    case (Hit x)
    then have "Get_f (Suc 0) par v self key f i = Some (v, Some x)" using d by (simp add: Get_body_def)
    then show ?thesis unfolding Get_ends_def using keeps_refl [OF ok] by blast
  next
    case BadIndex
    then have "Get_f (Suc 0) par v self key f i = Some (get_miss par v key f, None)" using d by (simp add: Get_body_def)
    then show ?thesis unfolding Get_ends_def using keeps_refl [OF ok] keeps_raise(2) by blast
  next
    case Fall
    show ?thesis
    proof (cases "f AND GET_FLAG_RAW = 0")
      case False
      obtain n v2 r where "root_get (Get_f n par) par v key f i = Some (v2, r)" "keeps par v v2"
        using root [OF keeps_refl [OF ok]] by blast
      then have "Get_f (Suc n) par v self key f i = Some (v2, r) \<and> keeps par v v2"
        using d Fall False by (simp add: Get_body_def)
      then show ?thesis unfolding Get_ends_def by blast
    next
      case True
      obtain n v1 fb where fb: "FallBackGet (Get_f n par) par v self key = Some (v1, fb)" "keeps par v v1"
        using FallBackGet_returns [OF ok self calls del] by blast
      obtain m v2 r where rt: "root_get (Get_f m par) par v1 key f i = Some (v2, r)" "keeps par v1 v2"
        using root [OF fb(2)] by blast
      obtain dd where dd: "InvokeDefaultDelegate par v1 self key = Some dd"
        using InvokeDefaultDelegate_returns [of par v1 self key] fb(2) by (auto simp: keeps_def)
      let ?k = "max n m"
      have "FallBackGet (Get_f ?k par) par v self key = Some (v1, fb)"
        by (rule FallBackGet_extends [OF Get_f_mono fb(1)]) simp
      moreover have "root_get (Get_f ?k par) par v1 key f i = Some (v2, r)"
        by (rule root_get_extends [OF Get_f_mono rt(1)]) simp
      ultimately have "\<exists>v3 r. Get_f (Suc ?k) par v self key f i = Some (v3, r) \<and> keeps par v v3"
        using d Fall True dd fb(2) keeps_trans [OF fb(2) rt(2)]
        by (cases fb; cases dd) (simp_all add: Get_body_def)
      then show ?thesis unfolding Get_ends_def by blast
    qed
  qed
qed

lemma root_get_skip:
  "i \<noteq> 0 \<Longrightarrow> store_ok par v \<Longrightarrow> \<exists>n v2 r. root_get (Get_f n par) par v key f i = Some (v2, r) \<and> keeps par v v2"
  by (simp add: root_get_def keeps_refl)

lemma Get_ends_table:
  assumes calls: "calls_ok par" and i: "i \<noteq> 0" and ok: "store_ok par v" and a: "v_tables v a \<noteq> None"
  shows "Get_ends par v (OTable a) key f i"
proof -
  obtain rank where rank: "chain_rank (v_tables v) rank" using ok by (auto simp: store_ok_def acyclic_delegates_def)
  show ?thesis
    using a i
  proof (induction "rank a" arbitrary: a f i rule: less_induct)
    case less
    have self: "obj_ok v (OTable a)" using less.prems by (simp add: obj_ok_def)
    have del: "Get_ends par v (OTable d) key GET_FLAG_DO_NOT_RAISE_ERROR DONT_FALL_BACK"
      if "delegate_of v (OTable a) = Some (Some d)" for d
      using that rank less.prems
      by (intro less.hyps) (auto simp: delegate_of_def chain_rank_def DONT_FALL_BACK_def)
    show ?case
      by (rule Get_ends_from [OF ok self calls del])
        (use less.prems(2) root_get_skip in \<open>auto simp: keeps_def\<close>)
  qed
qed

lemma Get_ends_noroot:
  assumes calls: "calls_ok par" and i: "i \<noteq> 0" and ok: "store_ok par v" and self: "obj_ok v self"
  shows "Get_ends par v self key f i"
proof (rule Get_ends_from [OF ok self calls])
  show "Get_ends par v (OTable d) key GET_FLAG_DO_NOT_RAISE_ERROR DONT_FALL_BACK"
    if d: "delegate_of v self = Some (Some d)" for d
  using delegate_exists [OF ok self d] by (intro Get_ends_table [OF calls _ ok]) (simp_all add: DONT_FALL_BACK_def)
qed (use i root_get_skip in \<open>auto simp: keeps_def\<close>)


definition plain_par :: "vm vm_par" where
  "plain_par = \<lparr>vp_strhash = id, vp_mm = (\<lambda>i. OString (1000 + word_of_nat i)), vp_mmmap = SQTable_new 0,
     vp_ctor = OString 999, vp_rebase = (\<lambda>a b. OClosure (a + b)), vp_ddel = (\<lambda>_. 2), vp_root = ONull,
     vp_roottable = 2, vp_new = (\<lambda>_. 3), vp_call = (\<lambda>_ _ _ v. (v, None)), vp_mkstr = (\<lambda>_ v. (v, 4)),
     vp_fmtg = (\<lambda>_. []), vp_fmtg14 = (\<lambda>_. []), vp_fmtp = (\<lambda>_. [])\<rparr>"

lemma plain_calls_ok: "calls_ok plain_par"
  by (simp add: calls_ok_def plain_par_def keeps_def)

text \<open>A table 1 that delegates to the table 2.\<close>

definition chained :: "sqtable \<Rightarrow> vm" where
  "chained t = empty_vm\<lparr>v_tables := [1 \<mapsto> (SQTable_new 0)\<lparr>tdelegate := Some 2\<rparr>, 2 \<mapsto> t]\<rparr>"

lemma wf_table_delegate [simp]: "wf_table hsh (t\<lparr>tdelegate := d\<rparr>) = wf_table hsh t"
  by (simp add: wf_table_def wf_size_def)

lemma table_map_delegate [simp]: "table_map (t\<lparr>tdelegate := d\<rparr>) = table_map t"
  by (simp add: table_map_def)

lemma chained_ok:
  assumes "wf_table (vp_hsh plain_par) t" "tdelegate t = None"
  shows "store_ok plain_par (chained t)"
proof -
  have "acyclic_delegates (v_tables (chained t))"
    unfolding acyclic_delegates_def
    by (rule exI [of _ "\<lambda>a. if a = 1 then 1 else 0"]) (use assms in \<open>auto simp: chain_rank_def chained_def\<close>)
  then show ?thesis
    using assms SQTable_new_ok(1) by (auto simp: store_ok_def chained_def empty_vm_def plain_par_def)
qed


subsection \<open>Lookup along the delegates\<close>

text \<open>The first table of the chain that binds the key, and the value bound there.\<close>

inductive chain_bind :: "'a vm_scheme \<Rightarrow> addr \<Rightarrow> sqobject \<Rightarrow> addr \<Rightarrow> sqobject \<Rightarrow> bool" for v where
  here: "v_tables v a = Some t \<Longrightarrow> table_map t key = Some x \<Longrightarrow> chain_bind v a key a x"
| up: "v_tables v a = Some t \<Longrightarrow> table_map t key = None \<Longrightarrow> tdelegate t = Some d \<Longrightarrow>
    chain_bind v d key owner x \<Longrightarrow> chain_bind v a key owner x"

inductive_simps chain_bind_iff: "chain_bind v a key owner x"

definition no_metamethod :: "'a vm_scheme vm_par \<Rightarrow> 'a vm_scheme \<Rightarrow> nat \<Rightarrow> bool" where
  "no_metamethod par v mm \<longleftrightarrow> (\<forall>a. v_tables v a \<noteq> None \<longrightarrow> GetMetaMethod par v (OTable a) mm = Some None)"

lemma chain_bind_unique: "chain_bind v a key b x \<Longrightarrow> chain_bind v a key c y \<Longrightarrow> b = c \<and> x = y"
proof (induction rule: chain_bind.induct)
  case (here a t key x)
  then show ?case by (auto simp: chain_bind_iff [of v a])
next
  case (up a t key d owner x)
  then show ?case by (auto simp: chain_bind_iff [of v a])
qed

definition ddel_get :: "'a vm_scheme vm_par \<Rightarrow> 'a vm_scheme \<Rightarrow> sqobject \<Rightarrow> sqobject option" where
  "ddel_get par v key = (case v_tables v (vp_ddel par OT_TABLE) of
     Some t \<Rightarrow> map_option (realval (deref v)) (table_map t key) | None \<Rightarrow> None)"

lemma InvokeDefaultDelegate_table:
  assumes ok: "store_ok par v"
  shows "InvokeDefaultDelegate par v (OTable a) key = Some (ddel_get par v key)"
proof -
  obtain t where "v_tables v (vp_ddel par OT_TABLE) = Some t" using ok unfolding store_ok_def by blast
  with table_get_ok [OF ok this] show ?thesis by (simp add: InvokeDefaultDelegate_def ddel_get_def)
qed

lemma fallback_mm_none:
  "GetMetaMethod par v self mm = Some None \<Longrightarrow> fallback_mm par v self mm args = Some (v, FALLBACK_NO_MATCH)"
  by (simp add: fallback_mm_def)

lemma get_no_raise [simp]: "get_miss par v key GET_FLAG_DO_NOT_RAISE_ERROR = v"
  by (simp add: get_miss_def GET_FLAG_DO_NOT_RAISE_ERROR_def)

lemma root_get_other: "i \<noteq> 0 \<Longrightarrow> root_get g par v key f i = Some (get_miss par v key f, None)"
  by (simp add: root_get_def)

lemma Get_f_table:
  assumes ok: "store_ok par v" and nomm: "no_metamethod par v MT_GET"
    and a: "v_tables v a \<noteq> None" and f: "f AND GET_FLAG_RAW = 0" and i: "i \<noteq> 0"
  shows "\<exists>n. (\<forall>b x. chain_bind v a key b x \<longrightarrow>
        Get_f n par v (OTable a) key f i = Some (v, Some (realval (deref v) x))) \<and>
      ((\<nexists>b x. chain_bind v a key b x) \<longrightarrow> Get_f n par v (OTable a) key f i = Some
        (case ddel_get par v key of Some x \<Rightarrow> (v, Some x) | None \<Rightarrow> (get_miss par v key f, None)))"
proof -
  obtain rank where rank: "chain_rank (v_tables v) rank" using ok by (auto simp: store_ok_def acyclic_delegates_def)
  show ?thesis
    using a f i
  proof (induction "rank a" arbitrary: a f i rule: less_induct)
    case less
    then obtain t where t: "v_tables v a = Some t" by blast
    note get = table_get_ok [OF ok t, of key]
    have mm: "fallback_mm par v (OTable a) MT_GET args = Some (v, FALLBACK_NO_MATCH)" for args
      using nomm t by (intro fallback_mm_none) (simp add: no_metamethod_def)
    note S = Get_body_def Get_direct_def hit_or_fall_def FallBackGet_def delegate_of_def get t
      InvokeDefaultDelegate_table [OF ok] mm root_get_other [OF less.prems(3)] less.prems(2)
    show ?case
    proof (cases "table_map t key")
      case (Some x)
      then have "chain_bind v a key a x" using t by (rule chain_bind.here [rotated])
      then have "\<forall>b y. chain_bind v a key b y \<longrightarrow> y = x" using chain_bind_unique by blast
      moreover have "Get_f (Suc 0) par v (OTable a) key f i = Some (v, Some (realval (deref v) x))"
        using Some by (simp add: S)
      ultimately show ?thesis using \<open>chain_bind v a key a x\<close> by (intro exI [of _ "Suc 0"]) blast
    next
      case None
      note absent = this
      show ?thesis
      proof (cases "tdelegate t")
        case None
        have "\<not> chain_bind v a key b x" for b x using t absent None by (simp add: chain_bind_iff [of v a])
        moreover have "Get_f (Suc 0) par v (OTable a) key f i = Some
            (case ddel_get par v key of Some x \<Rightarrow> (v, Some x) | None \<Rightarrow> (get_miss par v key f, None))"
          using absent None by (simp add: S split: option.split)
        ultimately show ?thesis by blast
      next
        case (Some d)
        have d: "v_tables v d \<noteq> None" "rank d < rank a" using rank t Some by (auto simp: chain_rank_def)
        have cb: "chain_bind v a key b x = chain_bind v d key b x" for b x
          using t absent Some by (simp add: chain_bind_iff [of v a])
        have flags: "GET_FLAG_DO_NOT_RAISE_ERROR AND GET_FLAG_RAW = 0" "DONT_FALL_BACK \<noteq> 0"
          by (simp_all add: GET_FLAG_DO_NOT_RAISE_ERROR_def GET_FLAG_RAW_def DONT_FALL_BACK_def)
        obtain n where n:
          "\<And>b x. chain_bind v d key b x \<Longrightarrow>
             Get_f n par v (OTable d) key GET_FLAG_DO_NOT_RAISE_ERROR DONT_FALL_BACK = Some (v, Some (realval (deref v) x))"
          "(\<nexists>b x. chain_bind v d key b x) \<Longrightarrow>
             Get_f n par v (OTable d) key GET_FLAG_DO_NOT_RAISE_ERROR DONT_FALL_BACK = Some
               (case ddel_get par v key of Some x \<Rightarrow> (v, Some x)
                | None \<Rightarrow> (get_miss par v key GET_FLAG_DO_NOT_RAISE_ERROR, None))"
          using less.hyps [OF d(2,1) flags] by blast
        show ?thesis
        proof (cases "\<exists>b x. chain_bind v d key b x")
          case True
          then obtain b x where bx: "chain_bind v d key b x" by blast
          then have "\<forall>c y. chain_bind v d key c y \<longrightarrow> y = x" using chain_bind_unique by blast
          moreover have "Get_f (Suc n) par v (OTable a) key f i = Some (v, Some (realval (deref v) x))"
            using n(1) [OF bx] absent Some by (simp add: S)
          ultimately show ?thesis using bx unfolding cb by blast
        next
          case False
          have "Get_f (Suc n) par v (OTable a) key f i = Some
              (case ddel_get par v key of Some x \<Rightarrow> (v, Some x) | None \<Rightarrow> (get_miss par v key f, None))"
            using n(2) [OF False] absent Some by (simp add: S split: option.split)
          with False show ?thesis unfolding cb by blast
        qed
      qed
    qed
  qed
qed

lemma vm_get_chain:
  assumes "store_ok par v" and "no_metamethod par v MT_GET" and "v_tables v a \<noteq> None"
    and "selfidx \<noteq> 0"
  shows "\<exists>n. \<forall>m \<ge> n.
    (\<forall>owner x. chain_bind v a key owner x \<longrightarrow>
       Get_f m par v (OTable a) key 0 selfidx = Some (v, Some (realval (deref v) x))) \<and>
    ((\<nexists>owner x. chain_bind v a key owner x) \<longrightarrow>
       Get_f m par v (OTable a) key 0 selfidx = Some
         (case ddel_get par v key of Some x \<Rightarrow> (v, Some x) | None \<Rightarrow> (raise_idx par v key, None)))"
proof -
  have raise: "get_miss par v key 0 = raise_idx par v key" by (simp add: get_miss_def)
  obtain n where n: "(\<forall>b x. chain_bind v a key b x \<longrightarrow>
        Get_f n par v (OTable a) key 0 selfidx = Some (v, Some (realval (deref v) x))) \<and>
      ((\<nexists>b x. chain_bind v a key b x) \<longrightarrow> Get_f n par v (OTable a) key 0 selfidx = Some
        (case ddel_get par v key of Some x \<Rightarrow> (v, Some x) | None \<Rightarrow> (get_miss par v key 0, None)))"
    using Get_f_table [OF assms(1-3), of 0 selfidx key] assms(4) by (auto simp: GET_FLAG_RAW_def)
  have "Get_f m par v (OTable a) key 0 selfidx = Some r" if "n \<le> m" "Get_f n par v (OTable a) key 0 selfidx = Some r" for m r
    by (rule extendsD [OF Get_f_mono [OF that(1)] that(2)])
  with n show ?thesis unfolding raise by blast
qed


lemma chained_no_metamethod:
  assumes "wf_table (vp_hsh plain_par) t" "tdelegate t = None" "table_map t (vp_mm plain_par mm) = None"
  shows "no_metamethod plain_par (chained t) mm"
proof -
  note ok = chained_ok [OF assms(1,2)]
  have "table_get plain_par (chained t) 2 (vp_mm plain_par mm) = Some None"
    using table_get_ok [OF ok, of 2 t] assms(3) by (simp add: chained_def)
  then show ?thesis
    using assms(2) by (auto simp: no_metamethod_def GetMetaMethod_def delegate_of_def chained_def split: if_splits)
qed


subsection \<open>Assignment along the delegates\<close>

lemma table_set_absent:
  assumes "store_ok par v" "v_tables v a = Some t" "key \<noteq> ONull" "table_map t key = None"
  shows "table_set par v a key val = Some (v, False)"
proof -
  have wf: "wf_table (vp_hsh par) t" using assms by (simp add: store_ok_def)
  have "(v_tables v)(a \<mapsto> t) = v_tables v" using assms(2) by (simp add: fun_upd_idem)
  moreover from wf assms(3) have "tbl_Set (vp_hsh par) t key val = Some (t, False)"
    by (cases rule: wf_table_find) (use assms(4) in \<open>simp_all add: tbl_Set_def\<close>)
  ultimately show ?thesis using assms(2) by (simp add: table_set_def put_table_def)
qed

lemma table_set_present:
  assumes "store_ok par v" "v_tables v a = Some t" "key \<noteq> ONull" "table_map t key = Some x"
  shows "\<exists>t'. table_set par v a key val = Some (put_table v a t', True) \<and> wf_table (vp_hsh par) t' \<and>
    table_map t' = (table_map t)(key \<mapsto> val) \<and> tdelegate t' = tdelegate t"
proof -
  have wf: "wf_table (vp_hsh par) t" using assms by (simp add: store_ok_def)
  obtain t' where t': "tbl_Set (vp_hsh par) t key val = Some (t', True)" "wf_table (vp_hsh par) t'"
    "table_map t' = (table_map t)(key \<mapsto> val)"
    using tbl_Set_ok [OF wf assms(3), of val] assms(4) by auto
  moreover have "tdelegate t' = tdelegate t"
    using t'(1) by (auto simp: tbl_Set_def split: bind_splits option.splits)
  ultimately show ?thesis using assms(2) by (intro exI [of _ t']) (simp add: table_set_def)
qed

lemma deref_lasterror [simp]: "deref (v\<lparr>v_lasterror := e\<rparr>) = deref v"
  by (simp add: deref_def fun_eq_iff)

lemma table_get_lasterror [simp]: "table_get par (v\<lparr>v_lasterror := e\<rparr>) = table_get par v"
  by (simp add: table_get_def fun_eq_iff)

lemma GetMetaMethod_lasterror [simp]: "GetMetaMethod par (v\<lparr>v_lasterror := e\<rparr>) = GetMetaMethod par v"
  by (simp add: GetMetaMethod_def delegate_of_def fun_eq_iff split: sqobject.split)

lemma raise_idx_eq: "\<exists>m. \<forall>e. raise_idx par (v\<lparr>v_lasterror := e\<rparr>) key = v\<lparr>v_lasterror := ErrText m\<rparr>"
proof -
  have "PrintObjVal (ops_env par) (v\<lparr>v_lasterror := e\<rparr>) key = PrintObjVal (ops_env par) v key" for e
    by (simp add: PrintObjVal_def ops_env_def split: sqobject.split)
  then show ?thesis by (simp add: raise_idx_def Raise_IdxError_def) blast
qed

lemma raise_idx_twice: "raise_idx par (raise_idx par v key) key = raise_idx par v key"
proof -
  obtain m where m: "\<And>e. raise_idx par (v\<lparr>v_lasterror := e\<rparr>) key = v\<lparr>v_lasterror := ErrText m\<rparr>"
    using raise_idx_eq by blast
  from m [of "v_lasterror v"] have "raise_idx par v key = v\<lparr>v_lasterror := ErrText m\<rparr>" by simp
  with m show ?thesis by simp
qed

lemma GetMetaMethod_raise [simp]: "GetMetaMethod par (raise_idx par v key) = GetMetaMethod par v"
  by (simp add: raise_idx_def split: vmerr.split)

definition set_extends :: "'a vm_set \<Rightarrow> 'a vm_set \<Rightarrow> bool" where
  "set_extends g g' \<longleftrightarrow> (\<forall>v self key x i r. g v self key x i = Some r \<longrightarrow> g' v self key x i = Some r)"

lemma FallBackSet_extends:
  "set_extends g g' \<Longrightarrow> FallBackSet g par v self key x = Some r \<Longrightarrow> FallBackSet g' par v self key x = Some r"
  by (auto simp: FallBackSet_def set_extends_def split: if_splits option.splits bind_splits)

lemma Set_body_extends:
  assumes "set_extends g g'" shows "set_extends (Set_body g par) (Set_body g' par)"
  unfolding set_extends_def
proof (intro allI impI)
  fix v self key x i r
  assume a: "Set_body g par v self key x i = Some r"
  then obtain v0 d where d: "Set_direct par v self key x = Some (v0, d)" by (auto simp: Set_body_def split: bind_splits)
  show "Set_body g' par v self key x i = Some r"
  proof (cases d)
    case None
    with a d obtain v1 fb where fb: "FallBackSet g par v0 self key x = Some (v1, fb)"
      by (auto simp: Set_body_def split: bind_splits)
    with a d None FallBackSet_extends [OF assms fb] show ?thesis by (simp add: Set_body_def)
  qed (use a d in \<open>simp add: Set_body_def\<close>)
qed

lemma Set_f_Suc: "Set_f (Suc n) par = Set_body (Set_f n par) par"
  by (intro ext) simp

lemma Set_f_mono: "n \<le> m \<Longrightarrow> set_extends (Set_f n par) (Set_f m par)"
proof (induction rule: dec_induct)
  case base
  show ?case by (simp add: set_extends_def)
next
  case (step m)
  have "set_extends (Set_f m par) (Set_f (Suc m) par)" for m
  proof (induction m)
    case 0
    show ?case by (simp add: set_extends_def)
  next
    case (Suc m)
    from Set_body_extends [OF this, of par] show ?case by (simp only: Set_f_Suc)
  qed
  with step.IH show ?case unfolding set_extends_def by blast
qed

lemma Set_f_table:
  assumes ok: "store_ok par v" and nomm: "no_metamethod par v MT_SET" and key: "key \<noteq> ONull"
    and a: "v_tables v a \<noteq> None" and i: "i \<noteq> 0"
  shows "\<exists>n. (\<forall>b x. chain_bind v a key b x \<longrightarrow>
        (\<exists>t t'. v_tables v b = Some t \<and> Set_f n par v (OTable a) key val i = Some (put_table v b t', True) \<and>
           wf_table (vp_hsh par) t' \<and> table_map t' = (table_map t)(key \<mapsto> val) \<and> tdelegate t' = tdelegate t)) \<and>
      ((\<nexists>b x. chain_bind v a key b x) \<longrightarrow> Set_f n par v (OTable a) key val i = Some (raise_idx par v key, False))"
proof -
  obtain rank where rank: "chain_rank (v_tables v) rank" using ok by (auto simp: store_ok_def acyclic_delegates_def)
  show ?thesis
    using a i
  proof (induction "rank a" arbitrary: a i rule: less_induct)
    case less
    then obtain t where t: "v_tables v a = Some t" by blast
    have mm: "fallback_mm par v1 (OTable a) MT_SET args = Some (v1, FALLBACK_NO_MATCH)"
      if "GetMetaMethod par v1 = GetMetaMethod par v" for args v1
      using nomm t that by (intro fallback_mm_none) (simp add: no_metamethod_def)
    show ?case
    proof (cases "table_map t key")
      case (Some x)
      then have cb: "chain_bind v a key a x" using t by (rule chain_bind.here [rotated])
      obtain t' where t': "table_set par v a key val = Some (put_table v a t', True)" "wf_table (vp_hsh par) t'"
        "table_map t' = (table_map t)(key \<mapsto> val)" "tdelegate t' = tdelegate t"
        using table_set_present [OF ok t key Some] by blast
      then have "Set_f (Suc 0) par v (OTable a) key val i = Some (put_table v a t', True)"
        by (simp add: Set_body_def Set_direct_def)
      with t' t cb show ?thesis using chain_bind_unique [OF cb] by (intro exI [of _ "Suc 0"]) blast
    next
      case None
      note S = Set_body_def Set_direct_def FallBackSet_def delegate_of_def t
        table_set_absent [OF ok t key None] less.prems(2)
      show ?thesis
      proof (cases "tdelegate t")
        case no: None
        have "\<not> chain_bind v a key b x" for b x using t None no by (simp add: chain_bind_iff [of v a])
        moreover have "Set_f (Suc 0) par v (OTable a) key val i = Some (raise_idx par v key, False)"
          using no by (simp add: S mm)
        ultimately show ?thesis by blast
      next
        case (Some d)
        have d: "v_tables v d \<noteq> None" "rank d < rank a" using rank t Some by (auto simp: chain_rank_def)
        have cb: "chain_bind v a key b x = chain_bind v d key b x" for b x
          using t None Some by (simp add: chain_bind_iff [of v a])
        have "DONT_FALL_BACK \<noteq> 0" by (simp add: DONT_FALL_BACK_def)
        from less.hyps [OF d(2,1) this] obtain n where n:
          "\<And>b x. chain_bind v d key b x \<Longrightarrow>
            \<exists>t t'. v_tables v b = Some t \<and> Set_f n par v (OTable d) key val DONT_FALL_BACK = Some (put_table v b t', True) \<and>
              wf_table (vp_hsh par) t' \<and> table_map t' = (table_map t)(key \<mapsto> val) \<and> tdelegate t' = tdelegate t"
          "(\<nexists>b x. chain_bind v d key b x) \<Longrightarrow> Set_f n par v (OTable d) key val DONT_FALL_BACK = Some (raise_idx par v key, False)"
          by blast
        show ?thesis
        proof (intro exI [of _ "Suc n"] conjI allI impI)
          fix b x
          assume "chain_bind v a key b x"
          then obtain tb t' where tb: "v_tables v b = Some tb" "wf_table (vp_hsh par) t'"
            "table_map t' = (table_map tb)(key \<mapsto> val)" "tdelegate t' = tdelegate tb"
            "Set_f n par v (OTable d) key val DONT_FALL_BACK = Some (put_table v b t', True)"
            using n(1) unfolding cb by blast
          then have "Set_f (Suc n) par v (OTable a) key val i = Some (put_table v b t', True)"
            using Some by (simp add: S)
          with tb show "\<exists>t t'. v_tables v b = Some t \<and> Set_f (Suc n) par v (OTable a) key val i = Some (put_table v b t', True) \<and>
              wf_table (vp_hsh par) t' \<and> table_map t' = (table_map t)(key \<mapsto> val) \<and> tdelegate t' = tdelegate t"
            by blast
        next
          assume "\<nexists>b x. chain_bind v a key b x"
          then show "Set_f (Suc n) par v (OTable a) key val i = Some (raise_idx par v key, False)"
            using n(2) Some unfolding cb by (simp add: S mm raise_idx_twice)
        qed
      qed
    qed
  qed
qed

lemma put_table_chain:
  assumes t: "v_tables v b = Some t" and t': "table_map t' = (table_map t)(key \<mapsto> val)" "tdelegate t' = tdelegate t"
    and k: "k \<noteq> key"
  shows "chain_bind (put_table v b t') a k c x \<longleftrightarrow> chain_bind v a k c x"
proof
  let ?v = "put_table v b t'"
  have tabs': "k \<noteq> key \<Longrightarrow> \<exists>u. v_tables v a = Some u \<and> table_map u' k = table_map u k \<and> tdelegate u' = tdelegate u"
    if "v_tables ?v a = Some u'" for a u' k
    using that t t' by (cases "a = b") (auto simp: put_table_def)
  show "chain_bind ?v a k c x" if "chain_bind v a k c x"
    using that k
  proof induction
    case (here a u k x)
    then show ?case using t' by (cases "a = b") (auto simp: put_table_def t intro: chain_bind.here)
  next
    case (up a u k d c x)
    then show ?case
      by (cases "a = b") (use t t' in \<open>auto simp: put_table_def intro: chain_bind.up\<close>)
  qed
  show "chain_bind v a k c x" if "chain_bind ?v a k c x"
    using that k
  proof induction
    case (here a u k x)
    then show ?case by (cases "a = b") (use t t' in \<open>auto simp: put_table_def intro: chain_bind.here\<close>)
  next
    case (up a u k d c x)
    then obtain w where "v_tables v a = Some w" "table_map w k = None" "tdelegate w = Some d"
      using tabs' [OF up(1) up.prems] up(2,3) by auto
    with up.IH up.prems show ?case by (blast intro: chain_bind.up)
  qed
qed

lemma put_table_owner:
  assumes "chain_bind v a key b x" "v_tables v b = Some t" "table_map t' = (table_map t)(key \<mapsto> val)"
    "tdelegate t' = tdelegate t"
  shows "chain_bind (put_table v b t') a key b val"
  using assms
proof induction
  case (here a u key x)
  then show ?case by (intro chain_bind.here [of _ a t']) (simp_all add: put_table_def)
next
  case (up a u key d b x)
  have "a \<noteq> b"
  proof
    assume "a = b"
    with up have "table_map t key = None" by simp
    moreover from up(4) have "\<exists>w. v_tables v b = Some w \<and> table_map w key \<noteq> None"
      by (induction rule: chain_bind.induct) auto
    ultimately show False using up by simp
  qed
  with up show ?case by (intro chain_bind.up [of _ a u _ d]) (simp_all add: put_table_def)
qed

lemma put_table_store_ok:
  assumes ok: "store_ok par v" and t: "v_tables v b = Some t" and wf: "wf_table (vp_hsh par) t'"
    and d: "tdelegate t' = tdelegate t"
  shows "store_ok par (put_table v b t')"
proof -
  let ?v = "put_table v b t'"
  have ce: "class_env_of par ?v = class_env_of par v"
    by (simp add: class_env_of_def put_table_def deref_def [abs_def])
  obtain rank where rank: "chain_rank (v_tables v) rank" using ok by (auto simp: store_ok_def acyclic_delegates_def)
  have "chain_rank (v_tables ?v) rank"
    unfolding chain_rank_def
  proof (intro allI impI)
    fix a u e
    assume "v_tables ?v a = Some u" "tdelegate u = Some e"
    with t d obtain w where "v_tables v a = Some w" "tdelegate w = Some e"
      by (cases "a = b") (auto simp: put_table_def)
    with rank have "v_tables v e \<noteq> None \<and> rank e < rank a" unfolding chain_rank_def by blast
    then show "v_tables ?v e \<noteq> None \<and> rank e < rank a" by (auto simp: put_table_def)
  qed
  then have "acyclic_delegates (v_tables ?v)" by (auto simp: acyclic_delegates_def)
  then show ?thesis using ok wf unfolding store_ok_def ce by (auto simp: put_table_def)
qed

lemma put_table_no_metamethod:
  assumes ok: "store_ok par v" and t: "v_tables v b = Some t" and wf: "wf_table (vp_hsh par) t'"
    and m: "table_map t' = (table_map t)(key \<mapsto> val)" and d: "tdelegate t' = tdelegate t"
    and nomm: "no_metamethod par v mm" and ne: "key \<noteq> vp_mm par mm"
  shows "no_metamethod par (put_table v b t') mm"
proof -
  let ?v = "put_table v b t'"
  have ok': "store_ok par ?v" by (rule put_table_store_ok [OF ok t wf d])
  have rv: "deref ?v = deref v" by (simp add: put_table_def deref_def [abs_def])
  have get: "table_get par ?v a (vp_mm par mm) = table_get par v a (vp_mm par mm)" for a
  proof (cases "v_tables v a")
    case None
    then show ?thesis using t by (auto simp: table_get_def put_table_def)
  next
    case (Some u)
    show ?thesis
    proof (cases "a = b")
      case True
      then show ?thesis
        using table_get_ok [OF ok t] table_get_ok [OF ok', of b t'] m ne rv by (simp add: put_table_def)
    next
      case False
      then show ?thesis using table_get_ok [OF ok Some] table_get_ok [OF ok', of a u] Some rv
        by (simp add: put_table_def)
    qed
  qed
  show ?thesis
    unfolding no_metamethod_def
  proof (intro allI impI)
    fix a
    assume "v_tables ?v a \<noteq> None"
    then have "v_tables v a \<noteq> None" using t by (auto simp: put_table_def split: if_splits)
    moreover have "delegate_of ?v (OTable a) = delegate_of v (OTable a)"
      using t d by (simp add: delegate_of_def put_table_def)
    ultimately show "GetMetaMethod par ?v (OTable a) mm = Some None"
      using nomm unfolding no_metamethod_def by (simp add: GetMetaMethod_def get)
  qed
qed



end
