(* ===== verification/Sq_Frames.thy ===== *)
theory Sq_Frames
  imports Sq_VM Sq_Serialize
begin

text \<open>
  The stack of the virtual machine, call frames, captured (outer) variables and generators
  (\<^verbatim>\<open>sqvm.cpp\<close>, \<^verbatim>\<open>sqvm.h\<close>, \<^verbatim>\<open>sqclosure.h\<close>, \<^verbatim>\<open>sqobject.cpp\<close>).

  The stack is the vector of \<open>Sq_Vector\<close>.  A pointer into it is the pair of an index and the
  number of times the vector has been moved by a reallocation: following a pointer made before the
  last move is undefined in the C++ and is \<open>None\<close> here, as is any access outside the vector.  The
  linked list of open outers is a list of addresses from its head.  The debug hook is off.
\<close>

subsection \<open>State\<close>

record callinfo =
  ci_ip :: int
  ci_literals :: "sqobject list"
  ci_closure :: sqobject
  ci_generator :: "addr option"
  ci_etraps :: int
  ci_prevstkbase :: int
  ci_prevtop :: int
  ci_target :: int
  ci_ncalls :: int
  ci_root :: bool

record etrap =
  et_stackbase :: int
  et_stacksize :: int
  et_ip :: int
  et_extarget :: int

datatype valptr = OnStack nat nat | OwnValue

record sqouter =
  ou_valptr :: valptr
  ou_idx :: nat
  ou_value :: sqobject

datatype outer_kind = otLOCAL | otOUTER

text \<open>What running a function needs of its prototype and of its closure.\<close>

record rproto =
  rp_instructions :: "sqinstruction list"
  rp_literals :: "sqobject list"
  rp_nparameters :: int
  rp_stacksize :: int
  rp_bgenerator :: bool
  rp_varparams :: bool
  rp_defaultparams :: "int list"
  rp_outervalues :: "(outer_kind \<times> int) list"
  rp_functions :: "addr list"
  rp_name :: sqobject

record rclosure =
  rc_function :: addr
  rc_env :: "addr option"
  rc_root :: addr
  rc_base :: "addr option"
  rc_outervalues :: "sqobject list"
  rc_defaultparams :: "sqobject list"

datatype genstate = eRunning | eSuspended | eDead

record rnative =
  rn_nparamscheck :: int
  rn_typecheck :: "sqint list"
  rn_outervalues :: "sqobject list"
  rn_env :: "addr option"
  rn_function :: nat
  rn_name :: sqobject

record generator =
  gn_closure :: sqobject
  gn_stack :: "sqobject list"
  gn_ci :: callinfo
  gn_etraps :: "etrap list"
  gn_state :: genstate

record machine = vm +
  m_stack :: "sqobject sqvector"
  m_moves :: nat
  m_top :: int
  m_stackbase :: int
  m_calls :: "callinfo list"
  m_alloccalls :: nat
  m_openouters :: "addr list"
  m_outers :: "addr \<Rightarrow> sqouter option"
  m_etraps :: "etrap list"
  m_nnativecalls :: int
  m_nmetamethodscall :: int
  m_protos :: "addr \<Rightarrow> rproto option"
  m_closures :: "addr \<Rightarrow> rclosure option"
  m_natives :: "addr \<Rightarrow> rnative option"
  m_generators :: "addr \<Rightarrow> generator option"
  m_roottable :: sqobject
  m_registry :: sqobject
  m_consts :: sqobject
  m_errorhandler :: sqobject
  m_traps :: int
  m_suspended :: "(int \<times> bool \<times> int) option"

text \<open>The parameters: those of the slot access, a fresh address, the native functions (the machine
  they leave and the integer they return), and the call of a closure that runs to its end inside
  another instruction (\<^verbatim>\<open>Call\<close> through a nested \<^verbatim>\<open>Execute\<close>).\<close>

record mach_par =
  mp_vm :: "machine vm_par"
  mp_native :: "nat \<Rightarrow> machine \<Rightarrow> machine \<times> int"

definition MAX_NATIVE_CALLS :: int where "MAX_NATIVE_CALLS = 100"
definition SQ_SUSPEND_FLAG :: int where "SQ_SUSPEND_FLAG = -666"
definition SQ_TAILCALL_FLAG :: int where "SQ_TAILCALL_FLAG = -777"
definition MIN_STACK_OVERHEAD :: int where "MIN_STACK_OVERHEAD = 15"

text \<open>\<^verbatim>\<open>(SQInt32)\<close> of a 64-bit integer.\<close>

definition int32 :: "int \<Rightarrow> int" where
  "int32 i = signed_take_bit 31 i"

abbreviation mp_new :: "mach_par \<Rightarrow> machine \<Rightarrow> addr" where
  "mp_new par \<equiv> vp_new (mp_vm par)"

subsection \<open>The stack\<close>

definition st_get :: "machine \<Rightarrow> int \<Rightarrow> sqobject option" where
  "st_get m i = (if 0 \<le> i \<and> i < int (vsize (m_stack m)) then Some (vals (m_stack m) ! nat i) else None)"

definition st_put :: "machine \<Rightarrow> int \<Rightarrow> sqobject \<Rightarrow> machine option" where
  "st_put m i x =
     (if 0 \<le> i \<and> i < int (vsize (m_stack m))
      then Some (m\<lparr> m_stack := (m_stack m)\<lparr> vals := (vals (m_stack m))[nat i := x] \<rparr> \<rparr>) else None)"

definition STK :: "machine \<Rightarrow> int \<Rightarrow> sqobject option" where
  "STK m i = st_get m (m_stackbase m + i)"

definition STK_put :: "machine \<Rightarrow> int \<Rightarrow> sqobject \<Rightarrow> machine option" where
  "STK_put m i x = st_put m (m_stackbase m + i) x"

definition Push :: "machine \<Rightarrow> sqobject \<Rightarrow> machine option" where
  "Push m ob = do { m1 \<leftarrow> st_put m (m_top m) ob; Some (m1\<lparr> m_top := m_top m + 1 \<rparr>) }"

definition PushNull :: "machine \<Rightarrow> machine option" where
  "PushNull m = Push m ONull"

definition vm_Pop :: "machine \<Rightarrow> machine option" where
  "vm_Pop m = do { m1 \<leftarrow> st_put m (m_top m - 1) ONull; Some (m1\<lparr> m_top := m_top m - 1 \<rparr>) }"

primrec vm_PopN :: "nat \<Rightarrow> machine \<Rightarrow> machine option" where
  "vm_PopN 0 m = Some m"
| "vm_PopN (Suc n) m = do { m1 \<leftarrow> vm_Pop m; vm_PopN n m1 }"

definition vm_Top :: "machine \<Rightarrow> sqobject option" where
  "vm_Top m = st_get m (m_top m - 1)"

definition PopGet :: "machine \<Rightarrow> (machine \<times> sqobject) option" where
  "PopGet m = do { x \<leftarrow> st_get m (m_top m - 1); Some (m\<lparr> m_top := m_top m - 1 \<rparr>, x) }"

definition GetUp :: "machine \<Rightarrow> int \<Rightarrow> sqobject option" where
  "GetUp m n = st_get m (m_top m + n)"

definition GetAt :: "machine \<Rightarrow> int \<Rightarrow> sqobject option" where
  "GetAt m n = st_get m n"

definition stack_get :: "machine \<Rightarrow> int \<Rightarrow> sqobject option" where
  "stack_get m idx = (if idx \<ge> 0 then GetAt m (idx + m_stackbase m - 1) else GetUp m idx)"

text \<open>\<^verbatim>\<open>Remove\<close>: \<open>n\<close> cells from \<open>i\<close> on take the value of the next one.\<close>

primrec move_down :: "nat \<Rightarrow> int \<Rightarrow> machine \<Rightarrow> machine option" where
  "move_down 0 i m = Some m"
| "move_down (Suc n) i m = do { x \<leftarrow> st_get m (i + 1); m1 \<leftarrow> st_put m i x; move_down n (i + 1) m1 }"

definition vm_Remove :: "int \<Rightarrow> machine \<Rightarrow> machine option" where
  "vm_Remove n0 m =
     (let n = (if n0 \<ge> 0 then n0 + m_stackbase m - 1 else m_top m + n0) in do {
        m1 \<leftarrow> move_down (nat (m_top m - n)) n m;
        m2 \<leftarrow> st_put m1 (m_top m) ONull;
        Some (m2\<lparr> m_top := m_top m - 1 \<rparr>) })"

text \<open>\<^verbatim>\<open>_stack.resize\<close>: the vector moves when it grows beyond its allocation.\<close>

definition stack_resize :: "machine \<Rightarrow> int \<Rightarrow> machine" where
  "stack_resize m n =
     m\<lparr> m_stack := vec_resize (m_stack m) (nat n) ONull,
        m_moves := (if nat n > allocated (m_stack m) then m_moves m + 1 else m_moves m) \<rparr>"

text \<open>\<open>n\<close> cells from \<open>i\<close> on are nulled.\<close>

primrec null_range :: "nat \<Rightarrow> int \<Rightarrow> machine \<Rightarrow> machine option" where
  "null_range 0 i m = Some m"
| "null_range (Suc n) i m = do { m1 \<leftarrow> st_put m i ONull; null_range n (i + 1) m1 }"

subsection \<open>Outer variables\<close>

definition outer_ptr :: "machine \<Rightarrow> sqouter \<Rightarrow> nat option" where
  "outer_ptr m p = (case ou_valptr p of
     OnStack g i \<Rightarrow> if g = m_moves m then Some i else None | OwnValue \<Rightarrow> None)"

text \<open>\<^verbatim>\<open>*(otr->_valptr)\<close>, read and written by \<^verbatim>\<open>_OP_GETOUTER\<close> and \<^verbatim>\<open>_OP_SETOUTER\<close>.\<close>

definition outer_read :: "machine \<Rightarrow> addr \<Rightarrow> sqobject option" where
  "outer_read m a = do {
     p \<leftarrow> m_outers m a;
     case ou_valptr p of
       OwnValue \<Rightarrow> Some (ou_value p)
     | OnStack _ _ \<Rightarrow> do { i \<leftarrow> outer_ptr m p; st_get m (int i) } }"

definition outer_write :: "machine \<Rightarrow> addr \<Rightarrow> sqobject \<Rightarrow> machine option" where
  "outer_write m a x = do {
     p \<leftarrow> m_outers m a;
     case ou_valptr p of
       OwnValue \<Rightarrow> Some (m\<lparr> m_outers := (m_outers m)(a \<mapsto> p\<lparr> ou_value := x \<rparr>) \<rparr>)
     | OnStack _ _ \<Rightarrow> do { i \<leftarrow> outer_ptr m p; st_put m (int i) x } }"

text \<open>The search of \<^verbatim>\<open>FindOuter\<close>: the outers in front of the place, and the outer found there.\<close>

fun find_open :: "machine \<Rightarrow> nat \<Rightarrow> addr list \<Rightarrow> (addr list \<times> addr option \<times> addr list) option" where
  "find_open m idx [] = Some ([], None, [])"
| "find_open m idx (a # as) = do {
     p \<leftarrow> m_outers m a;
     i \<leftarrow> outer_ptr m p;
     if i \<ge> idx then
       (if i = idx then Some ([], Some a, a # as)
        else do { (front, r, rest) \<leftarrow> find_open m idx as; Some (a # front, r, rest) })
     else Some ([], None, a # as) }"

definition FindOuter :: "machine \<Rightarrow> addr \<Rightarrow> nat \<Rightarrow> (machine \<times> sqobject) option" where
  "FindOuter m new idx = do {
     (front, r, rest) \<leftarrow> find_open m idx (m_openouters m);
     case r of
       Some a \<Rightarrow> Some (m, OOuter a)
     | None \<Rightarrow>
         Some (m\<lparr> m_outers := (m_outers m)(new \<mapsto>
                    \<lparr> ou_valptr = OnStack (m_moves m) idx, ou_idx = idx, ou_value = ONull \<rparr>),
                  m_openouters := front @ new # rest \<rparr>, OOuter new) }"

fun relocate :: "nat \<Rightarrow> addr list \<Rightarrow> (addr \<Rightarrow> sqouter option) \<Rightarrow> (addr \<Rightarrow> sqouter option) option" where
  "relocate moves [] os = Some os"
| "relocate moves (a # as) os = do {
     p \<leftarrow> os a;
     relocate moves as (os(a \<mapsto> p\<lparr> ou_valptr := OnStack moves (ou_idx p) \<rparr>)) }"

definition RelocateOuters :: "machine \<Rightarrow> machine option" where
  "RelocateOuters m = do {
     os \<leftarrow> relocate (m_moves m) (m_openouters m) (m_outers m);
     Some (m\<lparr> m_outers := os \<rparr>) }"

fun close_from :: "addr list \<Rightarrow> int \<Rightarrow> machine \<Rightarrow> machine option" where
  "close_from [] idx m = Some (m\<lparr> m_openouters := [] \<rparr>)"
| "close_from (a # as) idx m = do {
     p \<leftarrow> m_outers m a;
     i \<leftarrow> outer_ptr m p;
     if int i \<ge> idx then do {
       x \<leftarrow> st_get m (int i);
       close_from as idx
         (m\<lparr> m_outers := (m_outers m)(a \<mapsto> p\<lparr> ou_value := x, ou_valptr := OwnValue \<rparr>) \<rparr>) }
     else Some (m\<lparr> m_openouters := a # as \<rparr>) }"

definition CloseOuters :: "int \<Rightarrow> machine \<Rightarrow> machine option" where
  "CloseOuters idx m = close_from (m_openouters m) idx m"

subsection \<open>Frames\<close>

text \<open>\<^verbatim>\<open>ci\<close> is the last element of the call stack.  A new frame keeps the instruction pointer, the
  literals and the target of the last use of its slot, which every caller sets before they are read;
  they are 0 and empty here.\<close>

definition GrowCallStack :: "machine \<Rightarrow> machine" where
  "GrowCallStack m = m\<lparr> m_alloccalls := m_alloccalls m * 2 \<rparr>"

definition set_ci :: "(callinfo \<Rightarrow> callinfo) \<Rightarrow> machine \<Rightarrow> machine option" where
  "set_ci f m =
     (if m_calls m = [] then None
      else Some (m\<lparr> m_calls := butlast (m_calls m) @ [f (last (m_calls m))] \<rparr>))"

definition get_ci :: "machine \<Rightarrow> callinfo option" where
  "get_ci m = (if m_calls m = [] then None else Some (last (m_calls m)))"

definition push_frame :: "int \<Rightarrow> machine \<Rightarrow> machine" where
  "push_frame newbase m =
     (let m1 = (if length (m_calls m) = m_alloccalls m then GrowCallStack m else m) in
      m1\<lparr> m_calls := m_calls m1 @
           [\<lparr> ci_ip = 0, ci_literals = [], ci_closure = ONull, ci_generator = None, ci_etraps = 0,
              ci_prevstkbase = int32 (newbase - m_stackbase m), ci_prevtop = int32 (m_top m - m_stackbase m),
              ci_target = 0, ci_ncalls = 1, ci_root = False \<rparr>] \<rparr>)"

definition EnterFrame :: "int \<Rightarrow> int \<Rightarrow> bool \<Rightarrow> machine \<Rightarrow> (machine \<times> bool) option" where
  "EnterFrame newbase newtop tailcall m = do {
     m1 \<leftarrow> (if \<not> tailcall then Some (push_frame newbase m)
            else set_ci (\<lambda>c. c\<lparr> ci_ncalls := ci_ncalls c + 1 \<rparr>) m);
     let m2 = m1\<lparr> m_stackbase := newbase, m_top := newtop \<rparr>;
     if newtop + MIN_STACK_OVERHEAD > int (vsize (m_stack m2)) then
       (if m_nmetamethodscall m2 \<noteq> 0
        then Some (Raise_Error m2 (bytes_of ''stack overflow, cannot resize stack while in a metamethod'') [], False)
        else do {
          m3 \<leftarrow> RelocateOuters (stack_resize m2 (newtop + MIN_STACK_OVERHEAD * 4));
          Some (m3, True) })
     else Some (m2, True) }"

definition LeaveFrame :: "machine \<Rightarrow> machine option" where
  "LeaveFrame m = do {
     c \<leftarrow> get_ci m;
     let base = m_stackbase m - ci_prevstkbase c;
     let m1 = m\<lparr> m_calls := butlast (m_calls m), m_stackbase := base, m_top := base + ci_prevtop c \<rparr>;
     m2 \<leftarrow> CloseOuters (m_stackbase m) m1;
     null_range (nat (m_top m - m_top m1 + 1)) (m_top m1) m2 }"

text \<open>\<^verbatim>\<open>Init\<close>: an own root table, filled by \<^verbatim>\<open>sq_base_register\<close> (the parameter), or the root
  table and error handler of the given machine.\<close>

definition vm_Init ::
  "(machine \<Rightarrow> machine) \<Rightarrow> addr \<Rightarrow> (sqobject \<times> sqobject) option \<Rightarrow> nat \<Rightarrow> machine \<Rightarrow> machine" where
  "vm_Init base_register new friendvm stacksize m =
     (let m1 = m\<lparr> m_stack := vec_resize (m_stack m) stacksize ONull, m_alloccalls := 4, m_calls := [],
                  m_stackbase := 0, m_top := 0 \<rparr> in
      case friendvm of
        None \<Rightarrow> base_register (m1\<lparr> v_tables := (v_tables m1)(new \<mapsto> SQTable_new 0), m_roottable := OTable new \<rparr>)
      | Some (root, handler) \<Rightarrow> m1\<lparr> m_roottable := root, m_errorhandler := handler \<rparr>)"

subsection \<open>Return\<close>

text \<open>\<^verbatim>\<open>Return\<close>: whether the frame was a root call, and the value left in \<^verbatim>\<open>retval\<close>, if it was set.\<close>

definition vm_Return :: "int \<Rightarrow> int \<Rightarrow> machine \<Rightarrow> (machine \<times> bool \<times> sqobject option) option" where
  "vm_Return arg0 arg1 m = do {
     c \<leftarrow> get_ci m;
     let callerbase = m_stackbase m - ci_prevstkbase c;
     x \<leftarrow> (if arg0 \<noteq> 0xFF then STK m arg1 else Some ONull);
     if ci_root c then do { m1 \<leftarrow> LeaveFrame m; Some (m1, True, Some x) }
     else if ci_target c = -1 then do { m1 \<leftarrow> LeaveFrame m; Some (m1, False, None) }
     else do {
       m1 \<leftarrow> st_put m (callerbase + ci_target c) x;
       m2 \<leftarrow> LeaveFrame m1;
       Some (m2, False, None) } }"

subsection \<open>Generators\<close>

definition put_gen :: "addr \<Rightarrow> generator \<Rightarrow> machine \<Rightarrow> machine" where
  "put_gen a g m = m\<lparr> m_generators := (m_generators m)(a \<mapsto> g) \<rparr>"

text \<open>\<^verbatim>\<open>n\<close> cells of the stack from \<open>i\<close> on.\<close>

primrec read_range :: "nat \<Rightarrow> int \<Rightarrow> machine \<Rightarrow> sqobject list option" where
  "read_range 0 i m = Some []"
| "read_range (Suc n) i m = do { x \<leftarrow> st_get m i; xs \<leftarrow> read_range n (i + 1) m; Some (x # xs) }"

primrec write_range :: "sqobject list \<Rightarrow> int \<Rightarrow> machine \<Rightarrow> machine option" where
  "write_range [] i m = Some m"
| "write_range (x # xs) i m = do { m1 \<leftarrow> st_put m i x; write_range xs (i + 1) m1 }"

text \<open>Exception traps are stacks, their top at the head; \<open>shift\<close> relocates a trap.\<close>

definition shift_trap :: "int \<Rightarrow> etrap \<Rightarrow> etrap" where
  "shift_trap d t = t\<lparr> et_stackbase := et_stackbase t + d, et_stacksize := et_stacksize t + d \<rparr>"

fun move_traps :: "nat \<Rightarrow> int \<Rightarrow> etrap list \<Rightarrow> etrap list \<Rightarrow> (etrap list \<times> etrap list) option" where
  "move_traps 0 d from to = Some (from, to)"
| "move_traps (Suc n) d (t # from) to = move_traps n d from (shift_trap d t # to)"
| "move_traps (Suc n) d [] to = None"

text \<open>\<^verbatim>\<open>GetWeakRef\<close>: a weak reference to an object, made anew at each call (the code keeps one per
  object, so only the identity of the reference differs).\<close>

definition GetWeakRef :: "mach_par \<Rightarrow> machine \<Rightarrow> sqobject \<Rightarrow> machine \<times> sqobject" where
  "GetWeakRef par m x =
     (let a = mp_new par m in (m\<lparr> v_weakrefs := (v_weakrefs m)(a \<mapsto> x) \<rparr>, OWeakRef a))"

definition Yield :: "mach_par \<Rightarrow> addr \<Rightarrow> int \<Rightarrow> machine \<Rightarrow> (machine \<times> bool) option" where
  "Yield par ga target m = do {
     g \<leftarrow> m_generators m ga;
     if gn_state g = eSuspended then
       Some (Raise_Error m (bytes_of ''internal vm error, yielding dead generator'') [], False)
     else if gn_state g = eDead then
       Some (Raise_Error m (bytes_of ''internal vm error, yielding a dead generator'') [], False)
     else do {
       c \<leftarrow> get_ci m;
       let n = m_top m - m_stackbase m;
       let stk0 = take (nat n) (gn_stack g @ replicate (nat n - length (gn_stack g)) ONull);
       this \<leftarrow> STK m 0;
       let (m1, w) = (if ISREFCOUNTED (sq_type this) then GetWeakRef par m this else (m, this));
       xs \<leftarrow> read_range (nat (target - 1)) (m_stackbase m + 1) m1;
       let frame = w # xs;
       if length frame > length stk0 then None
       else do {
         m2 \<leftarrow> null_range (nat n) (m_stackbase m) m1;
         (vt, gt) \<leftarrow> move_traps (nat (ci_etraps c)) (- m_stackbase m) (m_etraps m) (gn_etraps g);
         Some (put_gen ga (g\<lparr> gn_stack := frame @ drop (length frame) stk0,
                              gn_ci := c\<lparr> ci_generator := None \<rparr>, gn_etraps := gt,
                              gn_state := eSuspended \<rparr>)
                 (m2\<lparr> m_etraps := vt \<rparr>), True) } } }"

text \<open>\<^verbatim>\<open>Resume\<close>: the argument is the index of the destination relative to the base of the caller,
  with the assertion on it.\<close>

definition Resume :: "mach_par \<Rightarrow> addr \<Rightarrow> int \<Rightarrow> machine \<Rightarrow> (machine \<times> bool) option" where
  "Resume par ga target m = do {
     g \<leftarrow> m_generators m ga;
     if gn_state g = eDead then Some (Raise_Error m (bytes_of ''resuming dead generator'') [], False)
     else if gn_state g = eRunning then Some (Raise_Error m (bytes_of ''resuming active generator'') [], False)
     else if target < 0 \<or> target > 255 then None
     else do {
       let n = int (length (gn_stack g));
       let newbase = m_top m;
       (m1, ok) \<leftarrow> EnterFrame newbase (newbase + n) False m;
       if \<not> ok then Some (m1, False)
       else do {
         let gc = gn_ci g;
         m2 \<leftarrow> set_ci (\<lambda>c. c\<lparr> ci_generator := Some ga, ci_target := int32 target, ci_closure := ci_closure gc,
                 ci_ip := ci_ip gc, ci_literals := ci_literals gc, ci_ncalls := ci_ncalls gc,
                 ci_etraps := ci_etraps gc, ci_root := ci_root gc \<rparr>) m1;
         (gt, vt) \<leftarrow> move_traps (nat (ci_etraps gc)) newbase (gn_etraps g) (m_etraps m2);
         this \<leftarrow> (if gn_stack g = [] then None else Some (hd (gn_stack g)));
         m3 \<leftarrow> write_range (realval (deref m2) this # tl (gn_stack g)) newbase (m2\<lparr> m_etraps := vt \<rparr>);
         Some (put_gen ga (g\<lparr> gn_stack := this # replicate (length (gn_stack g) - 1) ONull,
                              gn_etraps := gt, gn_state := eRunning \<rparr>) m3, True) } } }"

definition gen_Kill :: "addr \<Rightarrow> machine \<Rightarrow> machine option" where
  "gen_Kill ga m = do {
     g \<leftarrow> m_generators m ga;
     Some (put_gen ga (g\<lparr> gn_state := eDead, gn_stack := [], gn_closure := ONull \<rparr>) m) }"

subsection \<open>Calls\<close>

text \<open>\<^verbatim>\<open>for (i = 0; i < nparams; i++) STK(i) = STK(parambase + i)\<close>\<close>

primrec copy_params :: "nat \<Rightarrow> int \<Rightarrow> int \<Rightarrow> machine \<Rightarrow> machine option" where
  "copy_params 0 parambase i m = Some m"
| "copy_params (Suc n) parambase i m = do {
     x \<leftarrow> STK m (parambase + i);
     m1 \<leftarrow> STK_put m i x;
     copy_params n parambase (i + 1) m1 }"

text \<open>A message with numbers in it, cut as \<^verbatim>\<open>Raise_Error\<close> does.\<close>

definition raise_text :: "machine \<Rightarrow> nat \<Rightarrow> sqchar list \<Rightarrow> machine" where
  "raise_text m fmtlen text =
     m\<lparr> v_lasterror := ErrText (take (fmtlen + NUMBER_MAX_CHAR * 2 - 1) text) \<rparr>"

definition int_bytes :: "int \<Rightarrow> sqchar list" where
  "int_bytes i = print_int (word_of_int i)"

definition wrong_params :: "machine \<Rightarrow> int \<Rightarrow> int \<Rightarrow> bool \<Rightarrow> machine" where
  "wrong_params m nargs required atleast =
     raise_text m (if atleast then 60 else 51)
       (bytes_of ''wrong number of parameters ('' @ int_bytes nargs @
        bytes_of (if atleast then '' passed, at least '' else '' passed, '') @ int_bytes required @
        bytes_of '' required)'')"

text \<open>The parameters of \<^verbatim>\<open>StartCall\<close>: the extra arguments packed into an array, or the missing ones
  taken from the default values of the closure.\<close>

definition bind_params ::
  "mach_par \<Rightarrow> rproto \<Rightarrow> rclosure \<Rightarrow> int \<Rightarrow> int \<Rightarrow> machine \<Rightarrow> (machine \<times> bool) option" where
  "bind_params par f cl nargs stackbase m =
     (if rp_varparams f then
        (let paramssize = rp_nparameters f - 1 in
         if nargs < paramssize then Some (wrong_params m nargs paramssize True, False)
         else do {
           xs \<leftarrow> read_range (nat (nargs - paramssize)) (stackbase + paramssize) m;
           m1 \<leftarrow> null_range (nat (nargs - paramssize)) (stackbase + paramssize) m;
           let a = mp_new par m1;
           let arr = (SQArray_new (length xs))\<lparr> vals := xs \<rparr>;
           m2 \<leftarrow> st_put (m1\<lparr> v_arrays := (v_arrays m1)(a \<mapsto> arr) \<rparr>)
                   (stackbase + paramssize) (OArray a);
           Some (m2, True) })
      else if rp_nparameters f \<noteq> nargs then
        (let ndef = int (length (rp_defaultparams f)); diff = rp_nparameters f - nargs in
         if ndef \<noteq> 0 \<and> nargs < rp_nparameters f \<and> diff \<le> ndef then do {
           m1 \<leftarrow> write_range (drop (nat (ndef - diff)) (rc_defaultparams cl)) (stackbase + nargs) m;
           Some (m1, True) }
         else Some (wrong_params m nargs (rp_nparameters f) False, False))
      else Some (m, True))"

definition StartCall ::
  "mach_par \<Rightarrow> addr \<Rightarrow> int \<Rightarrow> int \<Rightarrow> int \<Rightarrow> bool \<Rightarrow> machine \<Rightarrow> (machine \<times> bool) option" where
  "StartCall par ca target args stackbase tailcall m = do {
     cl \<leftarrow> m_closures m ca;
     f \<leftarrow> m_protos m (rc_function cl);
     let newtop = stackbase + rp_stacksize f;
     (m1, ok) \<leftarrow> bind_params par f cl args stackbase m;
     if \<not> ok then Some (m1, False)
     else do {
       m2 \<leftarrow> (case rc_env cl of None \<Rightarrow> Some m1 | Some w \<Rightarrow> st_put m1 stackbase (deref m1 w));
       (m3, ok3) \<leftarrow> EnterFrame stackbase newtop tailcall m2;
       if \<not> ok3 then Some (m3, False)
       else do {
         m4 \<leftarrow> set_ci (\<lambda>c. c\<lparr> ci_closure := OClosure ca, ci_literals := rp_literals f, ci_ip := 0,
                               ci_target := int32 target \<rparr>) m3;
         if rp_bgenerator f then do {
           let ga = mp_new par m4;
           c \<leftarrow> get_ci m4;
           let gen = \<lparr> gn_closure = OClosure ca, gn_stack = [], gn_ci = c, gn_etraps = [], gn_state = eRunning \<rparr>;
           (m5, y) \<leftarrow> Yield par ga (rp_stacksize f) (put_gen ga gen m4);
           if \<not> y then Some (m5, False)
           else do {
             (m6, _, _) \<leftarrow> vm_Return 1 target m5;
             m7 \<leftarrow> STK_put m6 target (OGenerator ga);
             Some (m7, True) } }
         else Some (m4, True) } } }"

definition TailCall :: "mach_par \<Rightarrow> addr \<Rightarrow> int \<Rightarrow> int \<Rightarrow> machine \<Rightarrow> (machine \<times> bool) option" where
  "TailCall par ca parambase nparams m = do {
     c \<leftarrow> get_ci m;
     if ci_root c then Some (Raise_Error m (bytes_of ''root calls cannot invoke tailcalls'') [], False)
     else do {
       m1 \<leftarrow> copy_params (nat nparams) parambase 0 m;
       (m2, ok) \<leftarrow> StartCall par ca (ci_target c) nparams (m_stackbase m1) True m1;
       Some (if m_top m \<ge> m_top m2 then m2\<lparr> m_top := m_top m \<rparr> else m2, ok) } }"

subsection \<open>Native closures\<close>

definition join_bar :: "sqchar list list \<Rightarrow> sqchar list" where
  "join_bar xs = (case xs of [] \<Rightarrow> [] | y # ys \<Rightarrow> y @ concat (map (\<lambda>z. bytes_of ''|'' @ z) ys))"

text \<open>The type names of the bits 0 to 15, in the order of the bits.\<close>

definition type_bits :: "sqobjtype list" where
  "type_bits = [OT_NULL, OT_INTEGER, OT_FLOAT, OT_BOOL, OT_STRING, OT_TABLE, OT_ARRAY, OT_USERDATA,
     OT_CLOSURE, OT_NATIVECLOSURE, OT_GENERATOR, OT_USERPOINTER, OT_THREAD, OT_FUNCPROTO, OT_CLASS, OT_INSTANCE]"

definition Raise_ParamTypeError :: "machine \<Rightarrow> nat \<Rightarrow> sqint \<Rightarrow> sqobjtype \<Rightarrow> machine" where
  "Raise_ParamTypeError m nparam typemask ty =
     raise_text m 54
       (bytes_of ''parameter '' @ int_bytes (int nparam) @ bytes_of '' has an invalid type '' @
        quoted (bytes_of (IdType2Name ty)) @ bytes_of '' ; expected: '' @
        quoted (join_bar (map (bytes_of \<circ> IdType2Name)
          (map snd (filter (\<lambda>(i, t). bit typemask i) (enumerate 0 type_bits))))))"

text \<open>The first parameter that has a type outside its mask.\<close>

fun type_error :: "nat \<Rightarrow> sqobject list \<Rightarrow> sqint list \<Rightarrow> (nat \<times> sqint \<times> sqobject) option" where
  "type_error i (x # xs) (msk # ms) =
     (if msk \<noteq> -1 \<and> ot_code (sq_type x) AND msk = 0 then Some (i, msk, x) else type_error (Suc i) xs ms)"
| "type_error i _ _ = None"

datatype native_result = NativeFail | NativeSuspend sqobject | NativeTail | NativeValue sqobject

definition CallNative ::
  "mach_par \<Rightarrow> addr \<Rightarrow> int \<Rightarrow> int \<Rightarrow> int \<Rightarrow> machine \<Rightarrow> (machine \<times> native_result) option" where
  "CallNative par na nargs newbase target m = do {
     nc \<leftarrow> m_natives m na;
     let check = rn_nparamscheck nc;
     let newtop = newbase + nargs + int (length (rn_outervalues nc));
     if m_nnativecalls m + 1 > MAX_NATIVE_CALLS then
       Some (Raise_Error m (bytes_of ''Native stack overflow'') [], NativeFail)
     else if check \<noteq> 0 \<and> (check > 0 \<and> check \<noteq> nargs \<or> check < 0 \<and> nargs < - check) then
       Some (Raise_Error m (bytes_of ''wrong number of parameters'') [], NativeFail)
     else do {
       args \<leftarrow> read_range (min (nat nargs) (length (rn_typecheck nc))) newbase m;
       case type_error 0 args (rn_typecheck nc) of
         Some (i, msk, x) \<Rightarrow> Some (Raise_ParamTypeError m i msk (sq_type x), NativeFail)
       | None \<Rightarrow> do {
           (m1, ok) \<leftarrow> EnterFrame newbase newtop False m;
           if \<not> ok then Some (m1, NativeFail)
           else do {
             m2 \<leftarrow> set_ci (\<lambda>c. c\<lparr> ci_closure := ONativeClosure na, ci_target := int32 target \<rparr>) m1;
             m3 \<leftarrow> write_range (rn_outervalues nc) (newbase + nargs) m2;
             m4 \<leftarrow> (case rn_env nc of None \<Rightarrow> Some m3 | Some w \<Rightarrow> st_put m3 newbase (deref m3 w));
             let (m5, ret) = mp_native par (rn_function nc) (m4\<lparr> m_nnativecalls := m_nnativecalls m4 + 1 \<rparr>);
             let m6 = m5\<lparr> m_nnativecalls := m_nnativecalls m5 - 1 \<rparr>;
             if ret = SQ_TAILCALL_FLAG then Some (m6, NativeTail)
             else if ret < 0 \<and> ret \<noteq> SQ_SUSPEND_FLAG then do { m7 \<leftarrow> LeaveFrame m6; Some (m7, NativeFail) }
             else do {
               x \<leftarrow> (if ret \<noteq> 0 then vm_Top m6 else Some ONull);
               m7 \<leftarrow> LeaveFrame m6;
               Some (m7, if ret = SQ_SUSPEND_FLAG then NativeSuspend x else NativeValue x) } } } } }"

subsection \<open>Creating closures and classes\<close>

primrec capture_outers ::
  "mach_par \<Rightarrow> sqobject list \<Rightarrow> (outer_kind \<times> int) list \<Rightarrow> machine \<Rightarrow> (machine \<times> sqobject list) option" where
  "capture_outers par current [] m = Some (m, [])"
| "capture_outers par current (v # vs) m = do {
     (m1, x) \<leftarrow> (case v of
        (otLOCAL, src) \<Rightarrow>
          (if m_stackbase m + src < 0 then None else FindOuter m (mp_new par m) (nat (m_stackbase m + src)))
      | (otOUTER, src) \<Rightarrow>
          (if 0 \<le> src \<and> nat src < length current then Some (m, current ! nat src) else None));
     (m2, xs) \<leftarrow> capture_outers par current vs m1;
     Some (m2, x # xs) }"

primrec read_cells :: "int list \<Rightarrow> machine \<Rightarrow> sqobject list option" where
  "read_cells [] m = Some []"
| "read_cells (i # is) m = do { x \<leftarrow> STK m i; xs \<leftarrow> read_cells is m; Some (x # xs) }"

text \<open>\<^verbatim>\<open>CLOSURE_OP\<close>; the root of a new closure is a weak reference to the root table.\<close>

definition CLOSURE_OP ::
  "mach_par \<Rightarrow> int \<Rightarrow> addr \<Rightarrow> int \<Rightarrow> machine \<Rightarrow> (machine \<times> bool) option" where
  "CLOSURE_OP par target fa boundtarget m = do {
     f \<leftarrow> m_protos m fa;
     c \<leftarrow> get_ci m;
     let (m0, w) = GetWeakRef par m (m_roottable m);
     current \<leftarrow> (case ci_closure c of
        OClosure ca \<Rightarrow> map_option rc_outervalues (m_closures m ca) | _ \<Rightarrow> Some []);
     (m1, outers) \<leftarrow> capture_outers par current (rp_outervalues f) m0;
     defs \<leftarrow> read_cells (rp_defaultparams f) m1;
     let mk = (\<lambda>m env. (let a = mp_new par m in
        do { m3 \<leftarrow> STK_put (m\<lparr> m_closures := (m_closures m)(a \<mapsto>
               \<lparr> rc_function = fa, rc_env = env, rc_root = rawval w, rc_base = None,
                 rc_outervalues = outers, rc_defaultparams = defs \<rparr>) \<rparr>) target (OClosure a);
             Some (m3, True) }));
     if boundtarget \<noteq> 0xFF then do {
       val \<leftarrow> STK m1 boundtarget;
       if sq_type val \<in> {OT_TABLE, OT_CLASS, OT_INSTANCE, OT_ARRAY}
       then (let (m2, e) = GetWeakRef par m1 val in mk m2 (Some (rawval e)))
       else Some (Raise_Error m1 (bytes_of ''cannot bind a %s as environment object'') [type_bytes val], False) }
     else mk m1 None }"

definition finish_class ::
  "mach_par \<Rightarrow> int \<Rightarrow> sqobject \<Rightarrow> (addr \<times> sqclass) option \<Rightarrow> machine \<Rightarrow> (machine \<times> bool) option" where
  "finish_class par target attrs base m = do {
     c \<leftarrow> SQClass_new (class_env_of (mp_vm par) m) base;
     let a = vp_new (mp_vm par) m;
     m1 \<leftarrow> STK_put (m\<lparr> v_classes := (v_classes m)(a \<mapsto> c) \<rparr>) target (OClass a);
     let inh = c_metamethods c ! MT_INHERITED;
     let (m2, ok) = (if inh \<noteq> ONull
       then (let (m2, r) = vp_call (mp_vm par) inh MT_INHERITED [OClass a, attrs] m1 in (m2, r \<noteq> None)) else (m1, True));
     if \<not> ok then Some (m2, False)
     else do {
       c2 \<leftarrow> v_classes m2 a;
       Some (m2\<lparr> v_classes := (v_classes m2)(a \<mapsto> c2\<lparr> c_attributes := attrs \<rparr>) \<rparr>, True) } }"

definition CLASS_OP :: "mach_par \<Rightarrow> int \<Rightarrow> int \<Rightarrow> int \<Rightarrow> machine \<Rightarrow> (machine \<times> bool) option" where
  "CLASS_OP par target baseclass attributes m = do {
     b \<leftarrow> (if baseclass \<noteq> -1 then map_option Some (STK m baseclass) else Some None);
     case b of
       Some x \<Rightarrow>
         (case x of
            OClass ba \<Rightarrow> do {
              bc \<leftarrow> v_classes m ba;
              attrs \<leftarrow> (if attributes \<noteq> 0xFF then STK m attributes else Some ONull);
              finish_class par target attrs (Some (ba, bc)) m }
          | _ \<Rightarrow> Some (Raise_Error m (bytes_of ''trying to inherit from a %s'') [type_bytes x], False))
     | None \<Rightarrow> do {
         attrs \<leftarrow> (if attributes \<noteq> 0xFF then STK m attributes else Some ONull);
         finish_class par target attrs None m } }"

end
