(* ===== verification/Sq_Execute.thy ===== *)
theory Sq_Execute
  imports Sq_Frames
begin

text \<open>
  The interpreter loop \<^verbatim>\<open>SQVM::Execute\<close> of \<^verbatim>\<open>sqvm.cpp\<close>: one definition per group of
  instructions, the fetch, the dispatch, and the unwinding of frames to an exception handler.

  An instruction leaves the machine and what happens next: the next instruction, the exception
  handler (\<^verbatim>\<open>SQ_THROW\<close>), the end of this call of \<^verbatim>\<open>Execute\<close> with its result, or its suspension.
  The local \<^verbatim>\<open>traps\<close> of \<^verbatim>\<open>Execute\<close> is the field \<open>m_traps\<close>.  \<^verbatim>\<open>temp_reg\<close> is only a
  scratch value between two steps of one instruction and is not kept.  The debug hook is off.
  \<open>fuel\<close> bounds the delegates that slot access follows (\<open>vm_get_ends\<close>).
\<close>

subsection \<open>Instructions\<close>

datatype outcome = Next | Throw | Finish sqobject | Suspended sqobject

type_synonym exec = "(machine \<times> outcome) option"

definition arg0 :: "sqinstruction \<Rightarrow> int" where "arg0 i = uint (i_arg0 i)"
definition sarg0 :: "sqinstruction \<Rightarrow> int" where "sarg0 i = sint (i_arg0 i)"
definition arg1 :: "sqinstruction \<Rightarrow> int" where "arg1 i = sint (i_arg1 i)"
definition arg2 :: "sqinstruction \<Rightarrow> int" where "arg2 i = uint (i_arg2 i)"
definition arg3 :: "sqinstruction \<Rightarrow> int" where "arg3 i = uint (i_arg3 i)"
definition sarg3 :: "sqinstruction \<Rightarrow> int" where "sarg3 i = sint (i_arg3 i)"

definition cur_closure :: "machine \<Rightarrow> rclosure option" where
  "cur_closure m = do {
     c \<leftarrow> get_ci m;
     case ci_closure c of OClosure a \<Rightarrow> m_closures m a | _ \<Rightarrow> None }"

definition cur_proto :: "machine \<Rightarrow> rproto option" where
  "cur_proto m = do { cl \<leftarrow> cur_closure m; m_protos m (rc_function cl) }"

text \<open>\<^verbatim>\<open>_i_ = *ci->_ip++\<close>\<close>

definition fetch :: "machine \<Rightarrow> (machine \<times> sqinstruction) option" where
  "fetch m = do {
     c \<leftarrow> get_ci m;
     f \<leftarrow> cur_proto m;
     if 0 \<le> ci_ip c \<and> nat (ci_ip c) < length (rp_instructions f) then do {
       m1 \<leftarrow> set_ci (\<lambda>c. c\<lparr> ci_ip := ci_ip c + 1 \<rparr>) m;
       Some (m1, rp_instructions f ! nat (ci_ip c)) }
     else None }"

definition jump :: "int \<Rightarrow> machine \<Rightarrow> machine option" where
  "jump d m = set_ci (\<lambda>c. c\<lparr> ci_ip := ci_ip c + d \<rparr>) m"

definition literal :: "machine \<Rightarrow> int \<Rightarrow> sqobject option" where
  "literal m k = do {
     c \<leftarrow> get_ci m;
     if 0 \<le> k \<and> nat k < length (ci_literals c) then Some (ci_literals c ! nat k) else None }"

text \<open>Slot access with the root table of the running closure.\<close>

definition cur_par :: "mach_par \<Rightarrow> machine \<Rightarrow> machine vm_par option" where
  "cur_par par m = do { cl \<leftarrow> cur_closure m; Some ((mp_vm par)\<lparr> vp_root := deref m (rc_root cl) \<rparr>) }"

definition exec_Get ::
  "nat \<Rightarrow> mach_par \<Rightarrow> sqobject \<Rightarrow> sqobject \<Rightarrow> squint \<Rightarrow> int \<Rightarrow> machine \<Rightarrow> (machine \<times> sqobject option) option" where
  "exec_Get fuel par self key flags selfidx m = do {
     p \<leftarrow> cur_par par m; Get_f fuel p m self key flags selfidx }"

definition exec_Set ::
  "nat \<Rightarrow> mach_par \<Rightarrow> sqobject \<Rightarrow> sqobject \<Rightarrow> sqobject \<Rightarrow> int \<Rightarrow> machine \<Rightarrow> (machine \<times> bool) option" where
  "exec_Set fuel par self key val selfidx m = do {
     p \<leftarrow> cur_par par m; Set_f fuel p m self key val selfidx }"

text \<open>The result of an operator of \<open>Sq_Operators\<close>; a trap of the processor ends the program.\<close>

definition op_result :: "machine \<times> (vmerr + 'a) \<Rightarrow> (machine \<times> 'a option) option" where
  "op_result r = (case r of
     (m, Inr x) \<Rightarrow> Some (m, Some x)
   | (m, Inl (Raise t)) \<Rightarrow> Some (m\<lparr> v_lasterror := ErrText t \<rparr>, None)
   | (m, Inl Callee) \<Rightarrow> Some (m, None)
   | (m, Inl Trap) \<Rightarrow> None)"

abbreviation mops :: "mach_par \<Rightarrow> machine vm_env" where
  "mops par \<equiv> ops_env (mp_vm par)"

text \<open>\<^verbatim>\<open>_GUARD\<close> and the store of a result in a register.\<close>

definition guard :: "(machine \<times> bool) option \<Rightarrow> exec" where
  "guard r = map_option (\<lambda>(m, ok). (m, if ok then Next else Throw)) r"

definition store :: "int \<Rightarrow> (machine \<times> sqobject option) option \<Rightarrow> exec" where
  "store target r = do {
     (m, x) \<leftarrow> r;
     case x of
       None \<Rightarrow> Some (m, Throw)
     | Some v \<Rightarrow> do { m1 \<leftarrow> STK_put m target v; Some (m1, Next) } }"

definition set_next :: "int \<Rightarrow> sqobject \<Rightarrow> machine \<Rightarrow> exec" where
  "set_next target x m = do { m1 \<leftarrow> STK_put m target x; Some (m1, Next) }"

subsection \<open>Loads and moves\<close>

primrec load_nulls :: "nat \<Rightarrow> int \<Rightarrow> machine \<Rightarrow> machine option" where
  "load_nulls 0 r m = Some m"
| "load_nulls (Suc n) r m = do { m1 \<leftarrow> STK_put m r ONull; load_nulls n (r + 1) m1 }"

definition exec_load :: "sqinstruction \<Rightarrow> machine \<Rightarrow> exec" where
  "exec_load i m =
     (let op = i_op i in
      if op = 0x00 then Some (m, Next)
      else if op = 0x01 then do { x \<leftarrow> literal m (arg1 i); set_next (arg0 i) x m }
      else if op = 0x02 then set_next (arg0 i) (OInteger (scast (i_arg1 i))) m
      else if op = 0x03 then set_next (arg0 i) (OFloat (i_arg1 i)) m
      else if op = 0x04 then do {
        x \<leftarrow> literal m (arg1 i);
        m1 \<leftarrow> STK_put m (arg0 i) x;
        y \<leftarrow> literal m1 (arg3 i);
        set_next (arg2 i) y m1 }
      else None)"

definition exec_load2 :: "sqinstruction \<Rightarrow> machine \<Rightarrow> exec" where
  "exec_load2 i m =
     (let op = i_op i in
      if op = 0x18 then do { m1 \<leftarrow> load_nulls (nat (arg1 i)) (arg0 i) m; Some (m1, Next) }
      else if op = 0x19 then do {
        cl \<leftarrow> cur_closure m;
        set_next (arg0 i) (if deref m (rc_root cl) \<noteq> ONull then deref m (rc_root cl) else m_roottable m) m }
      else if op = 0x1A then set_next (arg0 i) (OBool (arg1 i \<noteq> 0)) m
      else if op = 0x1B then do {
        x \<leftarrow> STK m (arg1 i);
        m1 \<leftarrow> STK_put m (arg0 i) x;
        y \<leftarrow> STK m1 (arg3 i);
        set_next (arg2 i) y m1 }
      else None)"

subsection \<open>Calls\<close>

text \<open>The \<^verbatim>\<open>switch\<close> of \<^verbatim>\<open>_OP_CALL\<close> on the type of the callee.\<close>

definition call_class :: "mach_par \<Rightarrow> addr \<Rightarrow> sqinstruction \<Rightarrow> machine \<Rightarrow> exec" where
  "call_class par ca i m = do {
     (cls1, inst, ctor) \<leftarrow> CreateClassInstance (v_classes m) ca;
     let ia = mp_new par m;
     let m1 = m\<lparr> v_classes := cls1, v_instances := (v_instances m)(ia \<mapsto> inst) \<rparr>;
     m2 \<leftarrow> (if sarg0 i \<noteq> -1 then STK_put m1 (arg0 i) (OInstance ia) else Some m1);
     case ctor of
       OClosure a \<Rightarrow> do {
         m3 \<leftarrow> STK_put m2 (arg2 i) (OInstance ia);
         guard (StartCall par a (-1) (arg3 i) (m_stackbase m3 + arg2 i) False m3) }
     | ONativeClosure a \<Rightarrow> do {
         m3 \<leftarrow> STK_put m2 (arg2 i) (OInstance ia);
         (m4, r) \<leftarrow> CallNative par a (arg3 i) (m_stackbase m3 + arg2 i) (-1) m3;
         Some (m4, if r = NativeFail then Throw else Next) }
     | _ \<Rightarrow> Some (m2, Next) }"

definition call_native :: "mach_par \<Rightarrow> addr \<Rightarrow> sqinstruction \<Rightarrow> machine \<Rightarrow> exec" where
  "call_native par a i m = do {
     (m1, r) \<leftarrow> CallNative par a (arg3 i) (m_stackbase m + arg2 i) (sarg0 i) m;
     case r of
       NativeFail \<Rightarrow> Some (m1, Throw)
     | NativeSuspend x \<Rightarrow> do {
         c \<leftarrow> get_ci m1;
         Some (m1\<lparr> m_suspended := Some (sarg0 i, ci_root c, m_traps m1) \<rparr>, Suspended x) }
     | NativeTail \<Rightarrow> Some (m1, Next)
     | NativeValue x \<Rightarrow> if sarg0 i \<noteq> -1 then set_next (arg0 i) x m1 else Some (m1, Next) }"

definition call_delegable :: "mach_par \<Rightarrow> sqobject \<Rightarrow> sqinstruction \<Rightarrow> machine \<Rightarrow> exec" where
  "call_delegable par clo i m = do {
     mm \<leftarrow> delegate_mm (mp_vm par) m clo MT_CALL;
     case mm of
       Some closure \<Rightarrow> do {
         args \<leftarrow> read_range (nat (arg3 i)) (m_stackbase m + arg2 i) m;
         let (m1, r) = CallMetaMethod (mp_vm par) m closure MT_CALL (clo # args);
         case r of
           None \<Rightarrow> Some (m1, Throw)
         | Some x \<Rightarrow> if sarg0 i \<noteq> -1 then set_next (arg0 i) x m1 else Some (m1, Next) }
     | None \<Rightarrow> Some (Raise_Error m (bytes_of ''attempt to call '' @ quoted (bytes_of ''%s'')) [type_bytes clo], Throw) }"

definition exec_call :: "mach_par \<Rightarrow> sqinstruction \<Rightarrow> machine \<Rightarrow> exec" where
  "exec_call par i m = do {
     clo \<leftarrow> STK m (arg1 i);
     case clo of
       OClosure a \<Rightarrow> guard (StartCall par a (sarg0 i) (arg3 i) (m_stackbase m + arg2 i) False m)
     | ONativeClosure a \<Rightarrow> call_native par a i m
     | OClass a \<Rightarrow> call_class par a i m
     | _ \<Rightarrow>
         if sq_type clo \<in> {OT_TABLE, OT_USERDATA, OT_INSTANCE} then call_delegable par clo i m
         else Some (Raise_Error m (bytes_of ''attempt to call '' @ quoted (bytes_of ''%s'')) [type_bytes clo], Throw) }"

definition exec_tailcall :: "mach_par \<Rightarrow> sqinstruction \<Rightarrow> machine \<Rightarrow> exec" where
  "exec_tailcall par i m = do {
     t \<leftarrow> STK m (arg1 i);
     plain \<leftarrow> (case t of
        OClosure a \<Rightarrow> do {
          cl \<leftarrow> m_closures m a; f \<leftarrow> m_protos m (rc_function cl);
          Some (if rp_bgenerator f then None else Some a) }
      | _ \<Rightarrow> Some None);
     case plain of
       None \<Rightarrow> exec_call par i m
     | Some a \<Rightarrow> do {
         m1 \<leftarrow> CloseOuters (m_stackbase m) m;
         m2 \<leftarrow> copy_params (nat (arg3 i)) (arg2 i) 0 m1;
         c \<leftarrow> get_ci m2;
         (m3, ok) \<leftarrow> StartCall par a (ci_target c) (arg3 i) (m_stackbase m2) True m2;
         Some (if \<not> ok then (m3, Throw)
               else (if m_top m \<ge> m_top m3 then m3\<lparr> m_top := m_top m \<rparr> else m3, Next)) } }"

subsection \<open>Slots\<close>

definition exec_slot :: "nat \<Rightarrow> mach_par \<Rightarrow> sqinstruction \<Rightarrow> machine \<Rightarrow> exec" where
  "exec_slot fuel par i m =
     (let op = i_op i in
      if op = 0x07 \<or> op = 0x08 then do {
        key \<leftarrow> (if op = 0x08 then literal m (arg1 i) else STK m (arg1 i));
        ob \<leftarrow> STK m (arg2 i);
        (m1, r) \<leftarrow> exec_Get fuel par ob key 0 (arg2 i) m;
        case r of
          None \<Rightarrow> Some (m1, Throw)
        | Some x \<Rightarrow> do {
            ob1 \<leftarrow> STK m1 (arg2 i);
            m2 \<leftarrow> STK_put m1 (arg3 i) ob1;
            set_next (arg0 i) x m2 } }
      else if op = 0x09 then do {
        ob \<leftarrow> STK m (arg2 i);
        key \<leftarrow> literal m (arg1 i);
        store (arg0 i) (exec_Get fuel par ob key 0 (arg2 i) m) }
      else if op = 0x0A then do { x \<leftarrow> STK m (arg1 i); set_next (arg0 i) x m }
      else if op = 0x0B then do {
        self \<leftarrow> STK m (arg1 i); key \<leftarrow> STK m (arg2 i); val \<leftarrow> STK m (arg3 i);
        (m1, ok) \<leftarrow> vm_NewSlot (mp_vm par) m self key val False;
        if \<not> ok then Some (m1, Throw)
        else if arg0 i \<noteq> 0xFF then do { x \<leftarrow> STK m1 (arg3 i); set_next (arg0 i) x m1 }
        else Some (m1, Next) }
      else if op = 0x0C then do {
        self \<leftarrow> STK m (arg1 i); key \<leftarrow> STK m (arg2 i);
        store (arg0 i) (DeleteSlot (mp_vm par) m self key) }
      else if op = 0x0D then do {
        self \<leftarrow> STK m (arg1 i); key \<leftarrow> STK m (arg2 i); val \<leftarrow> STK m (arg3 i);
        (m1, ok) \<leftarrow> exec_Set fuel par self key val (arg1 i) m;
        if \<not> ok then Some (m1, Throw)
        else if arg0 i \<noteq> 0xFF then do { x \<leftarrow> STK m1 (arg3 i); set_next (arg0 i) x m1 }
        else Some (m1, Next) }
      else if op = 0x0E then do {
        self \<leftarrow> STK m (arg1 i); key \<leftarrow> STK m (arg2 i);
        store (arg0 i) (exec_Get fuel par self key 0 (arg1 i) m) }
      else None)"

subsection \<open>Operators\<close>

definition cond_literal :: "sqinstruction \<Rightarrow> machine \<Rightarrow> sqobject option" where
  "cond_literal i m = (if arg3 i \<noteq> 0 then literal m (arg1 i) else STK m (arg1 i))"

definition arith_code :: "8 word \<Rightarrow> arith_instr" where
  "arith_code op =
     (if op = 0x11 then OP_ADD else if op = 0x12 then OP_SUB else if op = 0x13 then OP_MUL
      else if op = 0x14 then OP_DIV else OP_MOD)"

definition bw_code :: "int \<Rightarrow> bwop" where
  "bw_code n =
     (if n = 0 then BW_AND else if n = 2 then BW_OR else if n = 3 then BW_XOR else if n = 4 then BW_SHIFTL
      else if n = 5 then BW_SHIFTR else if n = 6 then BW_USHIFTR else BW_invalid)"

definition cmp_code :: "int \<Rightarrow> cmpop option" where
  "cmp_code n =
     (if n = 0 then Some CMP_G else if n = 2 then Some CMP_GE else if n = 3 then Some CMP_L
      else if n = 4 then Some CMP_LE else if n = 5 then Some CMP_3W else None)"

definition exec_operator :: "mach_par \<Rightarrow> sqinstruction \<Rightarrow> machine \<Rightarrow> exec" where
  "exec_operator par i m =
     (let op = i_op i in
      if op = 0x0F \<or> op = 0x10 then do {
        a \<leftarrow> STK m (arg2 i); b \<leftarrow> cond_literal i m;
        set_next (arg0 i) (OBool (if op = 0x0F then IsEqual a b else \<not> IsEqual a b)) m }
      else if op \<in> {0x11, 0x12, 0x13, 0x14, 0x15} then do {
        old \<leftarrow> STK m (arg0 i); a \<leftarrow> STK m (arg2 i); b \<leftarrow> STK m (arg1 i);
        store (arg0 i) (op_result (exec_arith (mops par) (arith_code op) old a b m)) }
      else if op = 0x16 then do {
        a \<leftarrow> STK m (arg2 i); b \<leftarrow> STK m (arg1 i);
        store (arg0 i) (op_result (m, BW_OP (bw_code (arg3 i)) a b)) }
      else if op = 0x28 then do {
        a \<leftarrow> STK m (arg2 i); b \<leftarrow> STK m (arg1 i); c \<leftarrow> cmp_code (arg3 i);
        store (arg0 i) (op_result (CMP_OP (mops par) c a b m)) }
      else if op = 0x36 then do {
        a \<leftarrow> STK m (arg1 i); store (arg0 i) (op_result (TypeOf (mops par) a m)) }
      else None)"

definition exec_unary :: "mach_par \<Rightarrow> sqinstruction \<Rightarrow> machine \<Rightarrow> exec" where
  "exec_unary par i m =
     (let op = i_op i in
      if op = 0x2D then do {
        a \<leftarrow> STK m (arg1 i); store (arg0 i) (op_result (NEG_OP (mops par) a m)) }
      else if op = 0x2E then do { a \<leftarrow> STK m (arg1 i); set_next (arg0 i) (OBool (IsFalse a)) m }
      else if op = 0x2F then do {
        a \<leftarrow> STK m (arg1 i);
        case a of
          OInteger t \<Rightarrow> set_next (arg0 i) (OInteger (NOT t)) m
        | _ \<Rightarrow> Some (Raise_Error m (bytes_of ''attempt to perform a bitwise op on a %s'') [type_bytes a], Throw) }
      else None)"

subsection \<open>Jumps and returns\<close>

definition exec_return :: "sqinstruction \<Rightarrow> machine \<Rightarrow> exec" where
  "exec_return i m = do {
     c \<leftarrow> get_ci m;
     m1 \<leftarrow> (case ci_generator c of Some ga \<Rightarrow> gen_Kill ga m | None \<Rightarrow> Some m);
     (m2, isroot, x) \<leftarrow> vm_Return (arg0 i) (arg1 i) m1;
     if isroot then map_option (\<lambda>v. (m2, Finish v)) x else Some (m2, Next) }"

definition jump_next :: "bool \<Rightarrow> int \<Rightarrow> machine \<Rightarrow> exec" where
  "jump_next b d m = (if b then map_option (\<lambda>m1. (m1, Next)) (jump d m) else Some (m, Next))"

definition exec_jump :: "mach_par \<Rightarrow> sqinstruction \<Rightarrow> machine \<Rightarrow> exec" where
  "exec_jump par i m =
     (let op = i_op i in
      if op = 0x1C then jump_next True (arg1 i) m
      else if op = 0x1D then do {
        a \<leftarrow> STK m (arg2 i); b \<leftarrow> STK m (arg0 i); c \<leftarrow> cmp_code (arg3 i);
        (m1, r) \<leftarrow> op_result (CMP_OP (mops par) c a b m);
        case r of None \<Rightarrow> Some (m1, Throw) | Some x \<Rightarrow> jump_next (IsFalse x) (arg1 i) m1 }
      else if op = 0x1E then do { a \<leftarrow> STK m (arg0 i); jump_next (IsFalse a) (arg1 i) m }
      else None)"

definition exec_andor :: "sqinstruction \<Rightarrow> machine \<Rightarrow> exec" where
  "exec_andor i m = do {
     a \<leftarrow> STK m (arg2 i);
     if IsFalse a = (i_op i = 0x2B) then do { m1 \<leftarrow> STK_put m (arg0 i) a; jump_next True (arg1 i) m1 }
     else Some (m, Next) }"

subsection \<open>Captured variables\<close>

definition outer_of :: "machine \<Rightarrow> int \<Rightarrow> addr option" where
  "outer_of m k = do {
     cl \<leftarrow> cur_closure m;
     if 0 \<le> k \<and> nat k < length (rc_outervalues cl)
     then (case rc_outervalues cl ! nat k of OOuter a \<Rightarrow> Some a | _ \<Rightarrow> None) else None }"

definition exec_outer :: "sqinstruction \<Rightarrow> machine \<Rightarrow> exec" where
  "exec_outer i m = do {
     a \<leftarrow> outer_of m (arg1 i);
     if i_op i = 0x20 then do { x \<leftarrow> outer_read m a; set_next (arg0 i) x m }
     else do {
       x \<leftarrow> STK m (arg2 i);
       m1 \<leftarrow> outer_write m a x;
       if arg0 i \<noteq> 0xFF then do { y \<leftarrow> STK m1 (arg2 i); set_next (arg0 i) y m1 } else Some (m1, Next) } }"

subsection \<open>Tables, arrays, classes and closures\<close>

definition append_value :: "sqinstruction \<Rightarrow> machine \<Rightarrow> sqobject option" where
  "append_value i m =
     (if arg2 i = 0 then STK m (arg1 i)
      else if arg2 i = 1 then literal m (arg1 i)
      else if arg2 i = 2 then Some (OInteger (scast (i_arg1 i)))
      else if arg2 i = 3 then Some (OFloat (i_arg1 i))
      else if arg2 i = 4 then Some (OBool (arg1 i \<noteq> 0))
      else None)"

definition exec_object :: "mach_par \<Rightarrow> sqinstruction \<Rightarrow> machine \<Rightarrow> exec" where
  "exec_object par i m =
     (let op = i_op i; a = mp_new par m in
      if op = 0x21 then
        (if arg3 i = 0 then
           set_next (arg0 i) (OTable a) (m\<lparr> v_tables := (v_tables m)(a \<mapsto> SQTable_new (nat (arg1 i))) \<rparr>)
         else if arg3 i = 1 then do {
           arr \<leftarrow> arr_Reserve (SQArray_new 0) (nat (arg1 i));
           set_next (arg0 i) (OArray a) (m\<lparr> v_arrays := (v_arrays m)(a \<mapsto> arr) \<rparr>) }
         else if arg3 i = 2 then guard (CLASS_OP par (arg0 i) (arg1 i) (arg2 i) m)
         else None)
      else if op = 0x22 then do {
        x \<leftarrow> append_value i m;
        ob \<leftarrow> STK m (arg0 i);
        case ob of
          OArray b \<Rightarrow> do {
            arr \<leftarrow> v_arrays m b;
            Some (m\<lparr> v_arrays := (v_arrays m)(b \<mapsto> arr_Append arr x) \<rparr>, Next) }
        | _ \<Rightarrow> None }
      else None)"

definition exec_closure :: "mach_par \<Rightarrow> sqinstruction \<Rightarrow> machine \<Rightarrow> exec" where
  "exec_closure par i m = do {
     f \<leftarrow> cur_proto m;
     if 0 \<le> arg1 i \<and> nat (arg1 i) < length (rp_functions f)
     then guard (CLOSURE_OP par (arg0 i) (rp_functions f ! nat (arg1 i)) (arg2 i) m) else None }"

definition exec_clone :: "mach_par \<Rightarrow> sqinstruction \<Rightarrow> machine \<Rightarrow> exec" where
  "exec_clone par i m = do {
     self \<leftarrow> STK m (arg1 i); store (arg0 i) (vm_Clone (mp_vm par) m self) }"

definition exec_member :: "mach_par \<Rightarrow> sqinstruction \<Rightarrow> machine \<Rightarrow> exec" where
  "exec_member par i m =
     (let op = i_op i in
      if op = 0x3A then do {
        self \<leftarrow> STK m (arg1 i); key \<leftarrow> STK m (arg2 i); val \<leftarrow> STK m (arg3 i);
        attrs \<leftarrow> (if i_arg0 i AND 1 \<noteq> 0 then STK m (arg2 i - 1) else Some ONull);
        guard (NewSlotA (mp_vm par) m self key val attrs (i_arg0 i AND 2 \<noteq> 0) False) }
      else if op = 0x3B then do {
        cl \<leftarrow> cur_closure m;
        set_next (arg0 i) (case rc_base cl of Some b \<Rightarrow> OClass b | None \<Rightarrow> ONull) m }
      else None)"

subsection \<open>Increments\<close>

definition PLOCAL_INC ::
  "mach_par \<Rightarrow> char \<Rightarrow> int \<Rightarrow> int \<Rightarrow> sqobject \<Rightarrow> machine \<Rightarrow> (machine \<times> bool) option" where
  "PLOCAL_INC par op target a incr m = do {
     x \<leftarrow> STK m a;
     (m1, r) \<leftarrow> op_result (ARITH_OP (mops par) op x incr m);
     case r of
       None \<Rightarrow> Some (m1, False)
     | Some trg \<Rightarrow> do {
         y \<leftarrow> STK m1 a;
         m2 \<leftarrow> STK_put m1 target y;
         m3 \<leftarrow> STK_put m2 a trg;
         Some (m3, True) } }"

definition DerefInc ::
  "nat \<Rightarrow> mach_par \<Rightarrow> char \<Rightarrow> int \<Rightarrow> sqobject \<Rightarrow> sqobject \<Rightarrow> sqobject \<Rightarrow> bool \<Rightarrow> int \<Rightarrow> machine \<Rightarrow>
   (machine \<times> bool) option" where
  "DerefInc fuel par op target self key incr postfix selfidx m = do {
     (m1, r) \<leftarrow> exec_Get fuel par self key 0 selfidx m;
     case r of
       None \<Rightarrow> Some (m1, False)
     | Some tmp \<Rightarrow> do {
         (m2, v) \<leftarrow> op_result (ARITH_OP (mops par) op tmp incr m1);
         case v of
           None \<Rightarrow> Some (m2, False)
         | Some x \<Rightarrow> do {
             m3 \<leftarrow> STK_put m2 target x;
             (m4, ok) \<leftarrow> exec_Set fuel par self key x selfidx m3;
             if \<not> ok then Some (m4, False)
             else if postfix then do { m5 \<leftarrow> STK_put m4 target tmp; Some (m5, True) }
             else Some (m4, True) } } }"

definition small_int :: "sqinstruction \<Rightarrow> sqobject" where
  "small_int i = OInteger (word_of_int (sarg3 i))"

definition exec_inc :: "nat \<Rightarrow> mach_par \<Rightarrow> sqinstruction \<Rightarrow> machine \<Rightarrow> exec" where
  "exec_inc fuel par i m =
     (let op = i_op i in
      if op = 0x23 then
        (let selfidx = uint (drop_bit 16 (i_arg1 i)) in do {
         self \<leftarrow> STK m selfidx; key \<leftarrow> STK m (arg2 i); incr \<leftarrow> STK m (uint (i_arg1 i AND 0xFFFF));
         guard (DerefInc fuel par (char_of (nat (arg3 i))) (arg0 i) self key incr False selfidx m) })
      else if op = 0x24 \<or> op = 0x26 then do {
         self \<leftarrow> STK m (arg1 i); key \<leftarrow> STK m (arg2 i);
         guard (DerefInc fuel par CHR ''+'' (arg0 i) self key (small_int i) (op = 0x26) (arg1 i) m) }
      else if op = 0x25 then do {
         a \<leftarrow> STK m (arg1 i);
         case a of
           OInteger n \<Rightarrow> set_next (arg1 i) (OInteger (n + word_of_int (sarg3 i))) m
         | _ \<Rightarrow> store (arg1 i) (op_result (ARITH_macro (mops par) CHR ''+'' a (small_int i) m)) }
      else if op = 0x27 then do {
         a \<leftarrow> STK m (arg1 i);
         case a of
           OInteger n \<Rightarrow> do {
             m1 \<leftarrow> STK_put m (arg0 i) a;
             set_next (arg1 i) (OInteger (n + word_of_int (sarg3 i))) m1 }
         | _ \<Rightarrow> guard (PLOCAL_INC par CHR ''+'' (arg0 i) (arg1 i) (small_int i) m) }
      else None)"

subsection \<open>Membership tests\<close>

definition exec_test :: "nat \<Rightarrow> mach_par \<Rightarrow> sqinstruction \<Rightarrow> machine \<Rightarrow> exec" where
  "exec_test fuel par i m =
     (let op = i_op i in
      if op = 0x29 then do {
        self \<leftarrow> STK m (arg1 i); key \<leftarrow> STK m (arg2 i);
        (m1, r) \<leftarrow> exec_Get fuel par self key (GET_FLAG_DO_NOT_RAISE_ERROR OR GET_FLAG_RAW) DONT_FALL_BACK m;
        set_next (arg0 i) (OBool (r \<noteq> None)) m1 }
      else if op = 0x2A then do {
        c \<leftarrow> STK m (arg1 i); x \<leftarrow> STK m (arg2 i);
        case c of
          OClass ca \<Rightarrow>
            (case x of
               OInstance ia \<Rightarrow> do {
                 inst \<leftarrow> v_instances m ia;
                 b \<leftarrow> InstanceOf (v_classes m) inst ca;
                 set_next (arg0 i) (OBool b) m }
             | _ \<Rightarrow> set_next (arg0 i) (OBool False) m)
        | _ \<Rightarrow> Some (Raise_Error m (bytes_of ''cannot apply instanceof between a %s and a %s'')
                      [type_bytes c, type_bytes x], Throw) }
      else None)"

subsection \<open>Generators and iteration\<close>

definition exec_yield :: "mach_par \<Rightarrow> sqinstruction \<Rightarrow> machine \<Rightarrow> exec" where
  "exec_yield par i m = do {
     c \<leftarrow> get_ci m;
     case ci_generator c of
       None \<Rightarrow> None
     | Some ga \<Rightarrow> do {
         v \<leftarrow> (if arg1 i \<noteq> 0xFF then map_option Some (STK m (arg1 i)) else Some None);
         m1 \<leftarrow> CloseOuters (m_stackbase m) m;
         (m2, ok) \<leftarrow> Yield par ga (arg2 i) m1;
         if \<not> ok then Some (m2, Throw)
         else do {
           c2 \<leftarrow> get_ci m2;
           let m3 = m2\<lparr> m_traps := m_traps m2 - ci_etraps c2 \<rparr>;
           m4 \<leftarrow> (case v of None \<Rightarrow> Some m3 | Some x \<Rightarrow> STK_put m3 (arg1 i) x);
           (m5, isroot, x) \<leftarrow> vm_Return (arg0 i) (arg1 i) m4;
           if isroot then map_option (\<lambda>y. (m5, Finish y)) x else Some (m5, Next) } } }"

definition exec_resume :: "mach_par \<Rightarrow> sqinstruction \<Rightarrow> machine \<Rightarrow> exec" where
  "exec_resume par i m = do {
     x \<leftarrow> STK m (arg1 i);
     case x of
       OGenerator ga \<Rightarrow> do {
         (m1, ok) \<leftarrow> Resume par ga (arg0 i) m;
         if \<not> ok then Some (m1, Throw)
         else do { c \<leftarrow> get_ci m1; Some (m1\<lparr> m_traps := m_traps m1 + ci_etraps c \<rparr>, Next) } }
     | _ \<Rightarrow> Some (Raise_Error m (bytes_of ''trying to resume a '' @ quoted (bytes_of ''%s'') @
                    bytes_of '',only genenerator can be resumed'') [type_bytes x], Throw) }"

definition str_Next :: "sqchar list \<Rightarrow> sqobject \<Rightarrow> (sqint \<times> sqobject \<times> sqobject) option option" where
  "str_Next s refpos = do {
     idx \<leftarrow> TranslateIndex refpos;
     if sint idx < int (length s) then
       (if sint idx < 0 then None
        else Some (Some (idx + 1, OInteger idx, OInteger (scast (s ! nat (sint idx))))))
     else Some None }"

text \<open>One step of an iteration: the position, key and value, or the exit.\<close>

definition foreach_next ::
  "int \<Rightarrow> int \<Rightarrow> (sqint \<times> sqobject \<times> sqobject) option option \<Rightarrow> machine \<Rightarrow> (machine \<times> int option) option" where
  "foreach_next r exitpos nxt m = do {
     n \<leftarrow> nxt;
     case n of
       None \<Rightarrow> Some (m, Some exitpos)
     | Some (idx, key, val) \<Rightarrow> do {
         m1 \<leftarrow> STK_put m r key;
         m2 \<leftarrow> STK_put m1 (r + 1) val;
         m3 \<leftarrow> STK_put m2 (r + 2) (OInteger idx);
         Some (m3, Some 1) } }"

text \<open>\<^verbatim>\<open>FOREACH_OP\<close> on the object \<open>o1\<close> with the key, value and position in the registers
  \<open>r\<close>, \<open>r + 1\<close>, \<open>r + 2\<close>: how far to jump, or the failure.\<close>

definition foreach_delegable ::
  "nat \<Rightarrow> mach_par \<Rightarrow> sqobject \<Rightarrow> int \<Rightarrow> int \<Rightarrow> machine \<Rightarrow> (machine \<times> int option) option" where
  "foreach_delegable fuel par o1 r exitpos m = do {
     d \<leftarrow> (if sq_type o1 = OT_INSTANCE then Some True else map_option (\<lambda>d. d \<noteq> None) (delegate_of m o1));
     if \<not> d then Some (m, None)
     else do {
       mm \<leftarrow> GetMetaMethod (mp_vm par) m o1 MT_NEXTI;
       case mm of
         None \<Rightarrow> Some (Raise_Error m (bytes_of ''_nexti failed'') [], None)
       | Some closure \<Rightarrow> do {
           pos \<leftarrow> STK m (r + 2);
           let (m1, x) = CallMetaMethod (mp_vm par) m closure MT_NEXTI [o1, pos];
           case x of
             None \<Rightarrow> Some (m1, None)
           | Some itr \<Rightarrow> do {
               m2 \<leftarrow> STK_put m1 r itr;
               m3 \<leftarrow> STK_put m2 (r + 2) itr;
               if itr = ONull then Some (m3, Some exitpos)
               else do {
                 (m4, y) \<leftarrow> exec_Get fuel par o1 itr 0 DONT_FALL_BACK m3;
                 case y of
                   None \<Rightarrow> Some (Raise_Error m4 (bytes_of ''_nexti returned an invalid idx'') [], None)
                 | Some v \<Rightarrow> do { m5 \<leftarrow> STK_put m4 (r + 1) v; Some (m5, Some 1) } } } } } }"

definition cannot_iterate :: "sqobject \<Rightarrow> machine \<Rightarrow> machine \<times> int option" where
  "cannot_iterate o1 m = (Raise_Error m (bytes_of ''cannot iterate %s'') [type_bytes o1], None)"

definition FOREACH_OP ::
  "nat \<Rightarrow> mach_par \<Rightarrow> sqobject \<Rightarrow> int \<Rightarrow> int \<Rightarrow> machine \<Rightarrow> (machine \<times> int option) option" where
  "FOREACH_OP fuel par o1 r exitpos m = do {
     pos \<leftarrow> STK m (r + 2);
     case o1 of
       OTable a \<Rightarrow> do {
         t \<leftarrow> v_tables m a;
         foreach_next r exitpos (tbl_Next (realval (deref m)) t False pos) m }
     | OArray a \<Rightarrow> do {
         arr \<leftarrow> v_arrays m a;
         foreach_next r exitpos (arr_Next (realval (deref m)) arr pos) m }
     | OString a \<Rightarrow> do {
         s \<leftarrow> v_strings m a;
         foreach_next r exitpos (str_Next s pos) m }
     | OClass a \<Rightarrow> do {
         c \<leftarrow> v_classes m a;
         foreach_next r exitpos (class_Next (class_env_of (mp_vm par) m) c pos) m }
     | OUserData _ \<Rightarrow> foreach_delegable fuel par o1 r exitpos m
     | OInstance _ \<Rightarrow> foreach_delegable fuel par o1 r exitpos m
     | OGenerator ga \<Rightarrow> do {
         g \<leftarrow> m_generators m ga;
         if gn_state g = eDead then Some (m, Some exitpos)
         else if gn_state g = eSuspended then
           (let idx = OInteger (case pos of OInteger k \<Rightarrow> k + 1 | _ \<Rightarrow> 0) in do {
              m1 \<leftarrow> STK_put m r idx;
              m2 \<leftarrow> STK_put m1 (r + 2) idx;
              (m3, _) \<leftarrow> Resume par ga (r + 1) m2;
              Some (m3, Some 0) })
         else Some (cannot_iterate o1 m) }
     | _ \<Rightarrow> Some (cannot_iterate o1 m) }"

definition exec_gen :: "nat \<Rightarrow> mach_par \<Rightarrow> sqinstruction \<Rightarrow> machine \<Rightarrow> exec" where
  "exec_gen fuel par i m =
     (let op = i_op i in
      if op = 0x31 then exec_yield par i m
      else if op = 0x32 then exec_resume par i m
      else if op = 0x33 then do {
        o1 \<leftarrow> STK m (arg0 i);
        (m1, d) \<leftarrow> FOREACH_OP fuel par o1 (arg2 i) (arg1 i) m;
        case d of None \<Rightarrow> Some (m1, Throw) | Some k \<Rightarrow> jump_next True k m1 }
      else if op = 0x34 then do {
        o1 \<leftarrow> STK m (arg0 i);
        case o1 of
          OGenerator ga \<Rightarrow> do {
            g \<leftarrow> m_generators m ga;
            jump_next (gn_state g = eDead) (arg1 i - 1) m }
        | _ \<Rightarrow> None }
      else None)"

subsection \<open>Exception traps\<close>

primrec pop_traps :: "nat \<Rightarrow> machine \<Rightarrow> machine option" where
  "pop_traps 0 m = Some m"
| "pop_traps (Suc n) m =
     (if m_etraps m = [] then None
      else do {
        m1 \<leftarrow> set_ci (\<lambda>c. c\<lparr> ci_etraps := ci_etraps c - 1 \<rparr>)
                (m\<lparr> m_etraps := tl (m_etraps m), m_traps := m_traps m - 1 \<rparr>);
        pop_traps n m1 })"

definition exec_trap :: "sqinstruction \<Rightarrow> machine \<Rightarrow> exec" where
  "exec_trap i m =
     (let op = i_op i in
      if op = 0x37 then do {
        c \<leftarrow> get_ci m;
        m1 \<leftarrow> set_ci (\<lambda>c. c\<lparr> ci_etraps := ci_etraps c + 1 \<rparr>)
                (m\<lparr> m_etraps := \<lparr> et_stackbase = m_stackbase m, et_stacksize = m_top m,
                       et_ip = ci_ip c + arg1 i, et_extarget = arg0 i \<rparr> # m_etraps m,
                    m_traps := m_traps m + 1 \<rparr>);
        Some (m1, Next) }
      else if op = 0x38 then do { m1 \<leftarrow> pop_traps (nat (arg0 i)) m; Some (m1, Next) }
      else if op = 0x39 then do {
        x \<leftarrow> STK m (arg0 i);
        Some (m\<lparr> v_lasterror := ErrValue x \<rparr>, Throw) }
      else if op = 0x3C then do {
        m1 \<leftarrow> CloseOuters (m_stackbase m + arg1 i) m;
        Some (m1, Next) }
      else None)"

subsection \<open>Dispatch\<close>

definition exec_instr :: "nat \<Rightarrow> mach_par \<Rightarrow> sqinstruction \<Rightarrow> machine \<Rightarrow> exec" where
  "exec_instr fuel par i m =
     (let op = i_op i in
      if op \<le> 0x04 then exec_load i m
      else if op = 0x05 then exec_tailcall par i m
      else if op = 0x06 then exec_call par i m
      else if op \<le> 0x0E then exec_slot fuel par i m
      else if op \<le> 0x16 then exec_operator par i m
      else if op = 0x17 then exec_return i m
      else if op \<le> 0x1B then exec_load2 i m
      else if op \<le> 0x1E then exec_jump par i m
      else if op \<le> 0x20 then exec_outer i m
      else if op \<le> 0x22 then exec_object par i m
      else if op \<le> 0x27 then exec_inc fuel par i m
      else if op = 0x28 then exec_operator par i m
      else if op \<le> 0x2A then exec_test fuel par i m
      else if op \<le> 0x2C then exec_andor i m
      else if op \<le> 0x2F then exec_unary par i m
      else if op = 0x30 then exec_closure par i m
      else if op \<le> 0x34 then exec_gen fuel par i m
      else if op = 0x35 then exec_clone par i m
      else if op = 0x36 then exec_operator par i m
      else if op \<le> 0x39 then exec_trap i m
      else if op \<le> 0x3B then exec_member par i m
      else if op = 0x3C then exec_trap i m
      else Some (m, Next))"

subsection \<open>Unwinding\<close>

definition CallErrorHandler :: "mach_par \<Rightarrow> sqobject \<Rightarrow> machine \<Rightarrow> machine" where
  "CallErrorHandler par err m =
     (if m_errorhandler m \<noteq> ONull
      then fst (vp_call (mp_vm par) (m_errorhandler m) MT_LAST [m_roottable m, err] m) else m)"

text \<open>The error as a value; a message becomes a new string.\<close>

definition current_error :: "mach_par \<Rightarrow> machine \<Rightarrow> machine \<times> sqobject" where
  "current_error par m = (case v_lasterror m of
     ErrValue x \<Rightarrow> (m, x)
   | ErrText t \<Rightarrow> (let (m1, a) = vp_mkstr (mp_vm par) t m in (m1, OString a)))"

text \<open>The handler of the innermost trap of the current frame.\<close>

definition restore_trap :: "sqobject \<Rightarrow> int \<Rightarrow> machine \<Rightarrow> machine option" where
  "restore_trap err last_top m = do {
     et \<leftarrow> (case m_etraps m of [] \<Rightarrow> None | et # _ \<Rightarrow> Some et);
     m1 \<leftarrow> set_ci (\<lambda>c. c\<lparr> ci_ip := et_ip et, ci_etraps := ci_etraps c - 1 \<rparr>) m;
     m2 \<leftarrow> st_put (m1\<lparr> m_top := et_stacksize et, m_stackbase := et_stackbase et,
                      m_etraps := tl (m_etraps m), m_traps := m_traps m - 1 \<rparr>)
             (et_stackbase et + et_extarget et) err;
     null_range (nat (last_top - et_stacksize et + 1)) (et_stacksize et) m2 }"

text \<open>\<^verbatim>\<open>while( ci )\<close>: true when a handler was found.  The number bounds the frames.\<close>

primrec unwind :: "nat \<Rightarrow> sqobject \<Rightarrow> int \<Rightarrow> machine \<Rightarrow> (machine \<times> bool) option" where
  "unwind 0 err last_top m = (if m_calls m = [] then Some (m, False) else None)"
| "unwind (Suc n) err last_top m =
     (case get_ci m of
        None \<Rightarrow> Some (m, False)
      | Some c \<Rightarrow>
          if ci_etraps c > 0 then map_option (\<lambda>m1. (m1, True)) (restore_trap err last_top m)
          else do {
            m1 \<leftarrow> (case ci_generator c of Some ga \<Rightarrow> gen_Kill ga m | None \<Rightarrow> Some m);
            m2 \<leftarrow> LeaveFrame m1;
            if ci_root c then Some (m2, False) else unwind n err last_top m2 })"

definition exception_trap :: "mach_par \<Rightarrow> bool \<Rightarrow> machine \<Rightarrow> (machine \<times> bool) option" where
  "exception_trap par notify m = do {
     let (m0, err) = current_error par m;
     let m1 = (if notify then CallErrorHandler par err m0 else m0);
     (m2, handled) \<leftarrow> unwind (length (m_calls m1)) err (m_top m0) m1;
     Some (if handled then m2 else m2\<lparr> v_lasterror := ErrValue err \<rparr>, handled) }"

subsection \<open>The loop\<close>

datatype run_result = Returned sqobject | Failed | SuspendedRun sqobject

text \<open>\<open>notifyall\<close> is \<^verbatim>\<open>_notifyallexceptions\<close>; the number bounds the instructions.\<close>

primrec run_loop ::
  "nat \<Rightarrow> nat \<Rightarrow> mach_par \<Rightarrow> bool \<Rightarrow> bool \<Rightarrow> machine \<Rightarrow> (machine \<times> run_result) option" where
  "run_loop 0 fuel par notifyall raiseerror m = None"
| "run_loop (Suc n) fuel par notifyall raiseerror m = do {
     (m0, i) \<leftarrow> fetch m;
     (m1, out) \<leftarrow> exec_instr fuel par i m0;
     case out of
       Next \<Rightarrow> run_loop n fuel par notifyall raiseerror m1
     | Finish x \<Rightarrow> Some (m1, Returned x)
     | Suspended x \<Rightarrow> Some (m1, SuspendedRun x)
     | Throw \<Rightarrow> do {
         (m2, handled) \<leftarrow> exception_trap par (notifyall \<or> (m_traps m1 = 0 \<and> raiseerror)) m1;
         if handled then run_loop n fuel par notifyall raiseerror m2 else Some (m2, Failed) } }"

text \<open>\<^verbatim>\<open>Execute\<close> entered with \<^verbatim>\<open>ET_CALL\<close>.\<close>

definition Execute ::
  "nat \<Rightarrow> nat \<Rightarrow> mach_par \<Rightarrow> bool \<Rightarrow> bool \<Rightarrow> addr \<Rightarrow> int \<Rightarrow> int \<Rightarrow> machine \<Rightarrow> (machine \<times> run_result) option" where
  "Execute n fuel par notifyall raiseerror closure nargs stackbase m =
     (if m_nnativecalls m + 1 > MAX_NATIVE_CALLS
      then Some (Raise_Error m (bytes_of ''Native stack overflow'') [], Failed)
      else do {
        let m0 = m\<lparr> m_nnativecalls := m_nnativecalls m + 1, m_traps := 0 \<rparr>;
        (m1, ok) \<leftarrow> StartCall par closure (m_top m - nargs) nargs stackbase False m0;
        (m2, r) \<leftarrow>
          (if \<not> ok then
             Some (if m_calls m1 = [] then
                     (let (m', err) = current_error par m1 in CallErrorHandler par err m') else m1, Failed)
           else if length (m_calls m1) = length (m_calls m) then do {
             x \<leftarrow> STK m1 (m_top m1 - nargs);
             Some (m1, Returned x) }
           else do {
             m2 \<leftarrow> set_ci (\<lambda>c. c\<lparr> ci_root := True \<rparr>) m1;
             run_loop n fuel par notifyall raiseerror m2 });
        Some (m2\<lparr> m_nnativecalls := m_nnativecalls m2 - 1, m_traps := m_traps m \<rparr>, r) })"

end
