(* ===== verification/Sq_Frames_Correct.thy ===== *)
theory Sq_Frames_Correct
  imports Sq_Frames Sq_VM_Correct
begin

text \<open>
  Frames and captured variables: the stack that moves when it grows, the frames that store 32-bit
  differences, and the list of open outers behave as scopes of variables that never move
  (\<open>frames_refine_scopes\<close>).  Unwinding and generators are built on the same lemmas.
\<close>

subsection \<open>Cells of the stack\<close>

abbreviation cells :: "machine \<Rightarrow> sqobject list" where
  "cells m \<equiv> vals (m_stack m)"

definition with_cells :: "machine \<Rightarrow> sqobject list \<Rightarrow> machine" where
  "with_cells m xs = m\<lparr> m_stack := (m_stack m)\<lparr> vals := xs \<rparr> \<rparr>"

lemma with_cells_simps [simp]:
  "cells (with_cells m xs) = xs" "with_cells (with_cells m xs) ys = with_cells m ys"
  "with_cells m (cells m) = m" "m_moves (with_cells m xs) = m_moves m" "m_top (with_cells m xs) = m_top m"
  "m_stackbase (with_cells m xs) = m_stackbase m" "m_calls (with_cells m xs) = m_calls m"
  "m_openouters (with_cells m xs) = m_openouters m" "m_outers (with_cells m xs) = m_outers m"
  "m_nmetamethodscall (with_cells m xs) = m_nmetamethodscall m" "m_etraps (with_cells m xs) = m_etraps m"
  "m_generators (with_cells m xs) = m_generators m" "m_traps (with_cells m xs) = m_traps m"
  "v_lasterror (with_cells m xs) = v_lasterror m" "m_alloccalls (with_cells m xs) = m_alloccalls m"
  "v_weakrefs (with_cells m xs) = v_weakrefs m"
  by (simp_all add: with_cells_def)

lemma st_get_Some: "0 \<le> i \<Longrightarrow> i < int (length (cells m)) \<Longrightarrow> st_get m i = Some (cells m ! nat i)"
  by (simp add: st_get_def)

lemma st_put_Some:
  "0 \<le> i \<Longrightarrow> i < int (length (cells m)) \<Longrightarrow> st_put m i x = Some (with_cells m ((cells m)[nat i := x]))"
  by (simp add: st_put_def with_cells_def)

lemma null_range_ok:
  assumes "0 \<le> i" "i + int n \<le> int (length (cells m))"
  shows "\<exists>xs. null_range n i m = Some (with_cells m xs) \<and> length xs = length (cells m) \<and>
     (\<forall>j < length xs. xs ! j = (if i \<le> int j \<and> int j < i + int n then ONull else cells m ! j))"
  using assms
proof (induction n arbitrary: i m)
  case 0
  then show ?case by (intro exI [of _ "cells m"]) auto
next
  case (Suc n)
  let ?m = "with_cells m ((cells m)[nat i := ONull])"
  obtain xs where xs: "null_range n (i + 1) ?m = Some (with_cells ?m xs)" "length xs = length (cells ?m)"
    "\<forall>j < length xs. xs ! j = (if i + 1 \<le> int j \<and> int j < i + 1 + int n then ONull else cells ?m ! j)"
    using Suc.IH [of "i + 1" ?m] Suc.prems by auto
  show ?case
    using Suc.prems xs by (intro exI [of _ xs]) (auto simp: st_put_Some nth_list_update)
qed

subsection \<open>The list of open outers\<close>

text \<open>The pointers of the open outers, and their order.\<close>

definition open_at :: "machine \<Rightarrow> (addr \<Rightarrow> nat) \<Rightarrow> addr list \<Rightarrow> bool" where
  "open_at m ix as \<longleftrightarrow>
     (\<forall>a \<in> set as. ix a < length (cells m) \<and>
        (\<exists>p. m_outers m a = Some p \<and> ou_idx p = ix a \<and> ou_valptr p = OnStack (m_moves m) (ix a))) \<and>
     sorted_wrt (\<lambda>a b. ix a > ix b) as"

lemma open_at_Cons:
  "open_at m ix (a # as) \<longleftrightarrow>
     ix a < length (cells m) \<and>
     (\<exists>p. m_outers m a = Some p \<and> ou_idx p = ix a \<and> ou_valptr p = OnStack (m_moves m) (ix a)) \<and>
     (\<forall>b \<in> set as. ix b < ix a) \<and> open_at m ix as"
  by (auto simp: open_at_def)

lemma open_at_distinct: "open_at m ix as \<Longrightarrow> distinct as"
  by (induction as) (auto simp: open_at_Cons)

lemma find_open_ok:
  "open_at m ix as \<Longrightarrow>
   find_open m i as = Some (takeWhile (\<lambda>a. i < ix a) as,
     (case dropWhile (\<lambda>a. i < ix a) as of a # _ \<Rightarrow> if ix a = i then Some a else None | [] \<Rightarrow> None),
     dropWhile (\<lambda>a. i < ix a) as)"
proof (induction as)
  case (Cons a as)
  then obtain p where "m_outers m a = Some p" "ou_valptr p = OnStack (m_moves m) (ix a)"
    by (auto simp: open_at_Cons)
  with Cons show ?case by (auto simp: outer_ptr_def open_at_Cons)
qed simp

lemma dropWhile_found:
  assumes "sorted_wrt (\<lambda>a b. ix a > ix b) as"
  shows "(case dropWhile (\<lambda>a. i < ix a) as of a # _ \<Rightarrow> if ix a = i then Some a else None | [] \<Rightarrow> None) = Some a \<longleftrightarrow>
     a \<in> set as \<and> ix a = (i::nat)"
  using assms by (induction as) (auto split: if_splits)

lemma dropWhile_set_desc:
  assumes "sorted_wrt (\<lambda>a b. ix a > ix b) as"
  shows "set (dropWhile (\<lambda>a. k \<le> int (ix a)) as) = {a \<in> set as. int (ix a) < k}"
  using assms
proof (induction as)
  case (Cons a as)
  show ?case
  proof (cases "k \<le> int (ix a)")
    case False
    have "int (ix b) < k" if "b \<in> set as" for b
    proof -
      have "ix b < ix a" using Cons.prems that by simp
      then show ?thesis using False by linarith
    qed
    with False show ?thesis by auto
  qed (use Cons in auto)
qed simp

text \<open>What closing from the position \<open>k\<close> makes of an outer.\<close>

definition close_outer :: "machine \<Rightarrow> int \<Rightarrow> addr list \<Rightarrow> addr \<Rightarrow> sqouter option" where
  "close_outer m k as a =
     (if a \<in> set as then map_option (\<lambda>p. if k \<le> int (ou_idx p)
        then p\<lparr> ou_value := cells m ! ou_idx p, ou_valptr := OwnValue \<rparr> else p) (m_outers m a)
      else m_outers m a)"

lemma close_from_ok:
  "open_at m ix as \<Longrightarrow>
   close_from as k m = Some (m\<lparr> m_outers := close_outer m k as,
                              m_openouters := dropWhile (\<lambda>a. k \<le> int (ix a)) as \<rparr>)"
proof (induction as arbitrary: m)
  case Nil
  have "close_outer m k [] = m_outers m" by (simp add: close_outer_def fun_eq_iff)
  then show ?case by simp
next
  case (Cons a as)
  then obtain p where p: "m_outers m a = Some p" "ou_idx p = ix a" "ou_valptr p = OnStack (m_moves m) (ix a)"
    "ix a < length (cells m)" "open_at m ix as" "\<forall>b \<in> set as. ix b < ix a"
    by (auto simp: open_at_Cons)
  have na: "a \<notin> set as" using open_at_distinct [OF Cons.prems] by simp
  show ?case
  proof (cases "k \<le> int (ix a)")
    case True
    let ?m = "m\<lparr> m_outers := (m_outers m)(a \<mapsto> p\<lparr> ou_value := cells m ! ix a, ou_valptr := OwnValue \<rparr>) \<rparr>"
    have "open_at ?m ix as" using p(5) na by (auto simp: open_at_def)
    moreover have "close_outer ?m k as = close_outer m k (a # as)"
    proof -
      have c: "cells ?m = cells m" by simp
      show ?thesis unfolding close_outer_def c using na p(1,2) True by (auto simp: fun_eq_iff)
    qed
    ultimately show ?thesis
      using Cons.IH [of ?m] p(1-4) True by (simp add: outer_ptr_def st_get_Some)
  next
    case False
    have keep: "\<not> k \<le> int (ou_idx q)" if "b \<in> set as" "m_outers m b = Some q" for b q
    proof -
      have "ou_idx q = ix b" "ix b < ix a" using p(5,6) that by (auto simp: open_at_def)
      then show ?thesis using False by simp
    qed
    have "close_outer m k (a # as) b = m_outers m b" for b
      using keep [of b] p(1,2) False by (cases "m_outers m b") (auto simp: close_outer_def)
    then have "close_outer m k (a # as) = m_outers m" by blast
    then show ?thesis using p(1,3) False by (simp add: outer_ptr_def)
  qed
qed

lemma relocate_ok:
  "(\<forall>a \<in> set as. os a \<noteq> None) \<Longrightarrow>
   relocate mv as os = Some (\<lambda>a. if a \<in> set as
     then map_option (\<lambda>p. p\<lparr> ou_valptr := OnStack mv (ou_idx p) \<rparr>) (os a) else os a)"
proof (induction as arbitrary: os)
  case (Cons a as)
  then obtain p where p: "os a = Some p" by auto
  let ?os = "os(a \<mapsto> p\<lparr> ou_valptr := OnStack mv (ou_idx p) \<rparr>)"
  have "\<forall>b \<in> set as. ?os b \<noteq> None" using Cons.prems by auto
  note IH = Cons.IH [OF this]
  have "relocate mv (a # as) os = relocate mv as ?os" using p by simp
  also note IH
  finally show ?case using p by (auto simp: fun_eq_iff)
qed (simp add: fun_eq_iff)

subsection \<open>Scopes\<close>

text \<open>
  The specification.  Each position of the stack holds a variable, named by the position and a
  version that changes when the scope at the position is closed.  A captured variable is an address
  bound to such a name.  Variables never move; frames keep the base and the top of their caller.
\<close>

record scopes =
  sc_ver :: "nat \<Rightarrow> nat"
  sc_epoch :: nat
  sc_store :: "nat \<times> nat \<Rightarrow> sqobject"
  sc_vars :: "(addr \<times> nat \<times> nat) list"
  sc_base :: int
  sc_top :: int
  sc_frames :: "(int \<times> int) list"

definition sc_loc :: "scopes \<Rightarrow> nat \<Rightarrow> nat \<times> nat" where
  "sc_loc s i = (sc_ver s i, i)"

definition spec_capture :: "addr \<Rightarrow> nat \<Rightarrow> scopes \<Rightarrow> scopes \<times> addr" where
  "spec_capture new i s = (case find (\<lambda>(a, l). l = sc_loc s i) (sc_vars s) of
     Some (a, _) \<Rightarrow> (s, a)
   | None \<Rightarrow> (s\<lparr> sc_vars := (new, sc_loc s i) # sc_vars s \<rparr>, new))"

definition spec_close :: "int \<Rightarrow> scopes \<Rightarrow> scopes" where
  "spec_close k s = s\<lparr> sc_epoch := sc_epoch s + 1,
     sc_ver := (\<lambda>i. if k \<le> int i then sc_epoch s + 1 else sc_ver s i),
     sc_store := (\<lambda>(v, i). if v = sc_epoch s + 1 \<and> k \<le> int i then sc_store s (sc_loc s i) else sc_store s (v, i)) \<rparr>"

definition spec_null :: "int \<Rightarrow> int \<Rightarrow> scopes \<Rightarrow> scopes" where
  "spec_null t u s = s\<lparr> sc_store := (\<lambda>(v, i). if v = sc_ver s i \<and> t \<le> int i \<and> int i \<le> u
     then ONull else sc_store s (v, i)) \<rparr>"

definition spec_leave :: "scopes \<Rightarrow> scopes" where
  "spec_leave s = (case sc_frames s of
     (b, t) # fs \<Rightarrow> (spec_null t (sc_top s) (spec_close (sc_base s) s))\<lparr> sc_base := b, sc_top := t, sc_frames := fs \<rparr>
   | [] \<Rightarrow> s)"

datatype frame_op =
  Capture addr nat | CloseFrom int | ReadLocal nat | WriteLocal nat sqobject
| ReadVar addr | WriteVar addr sqobject | Enter int int | Leave

fun spec_step :: "frame_op \<Rightarrow> scopes \<Rightarrow> scopes \<times> sqobject option" where
  "spec_step (Capture new i) s = (let (s1, a) = spec_capture new i s in (s1, Some (OOuter a)))"
| "spec_step (CloseFrom k) s = (spec_close k s, None)"
| "spec_step (ReadLocal i) s = (s, Some (sc_store s (sc_loc s i)))"
| "spec_step (WriteLocal i x) s = (s\<lparr> sc_store := (sc_store s)(sc_loc s i := x) \<rparr>, None)"
| "spec_step (ReadVar a) s = (s, map_option (sc_store s) (map_of (sc_vars s) a))"
| "spec_step (WriteVar a x) s = (case map_of (sc_vars s) a of
     Some l \<Rightarrow> (s\<lparr> sc_store := (sc_store s)(l := x) \<rparr>, None) | None \<Rightarrow> (s, None))"
| "spec_step (Enter b t) s =
     (s\<lparr> sc_frames := (sc_base s, sc_top s) # sc_frames s, sc_base := b, sc_top := t \<rparr>, None)"
| "spec_step Leave s = (spec_leave s, None)"

fun spec_run :: "frame_op list \<Rightarrow> scopes \<Rightarrow> scopes \<times> sqobject option list" where
  "spec_run [] s = (s, [])"
| "spec_run (op # ops) s =
     (let (s1, r) = spec_step op s; (s2, rs) = spec_run ops s1 in (s2, r # rs))"

text \<open>The same operations of the machine.\<close>

fun frame_step :: "frame_op \<Rightarrow> machine \<Rightarrow> (machine \<times> sqobject option) option" where
  "frame_step (Capture new i) m = do { (m1, x) \<leftarrow> FindOuter m new i; Some (m1, Some x) }"
| "frame_step (CloseFrom k) m = do { m1 \<leftarrow> CloseOuters k m; Some (m1, None) }"
| "frame_step (ReadLocal i) m = do { x \<leftarrow> st_get m (int i); Some (m, Some x) }"
| "frame_step (WriteLocal i x) m = do { m1 \<leftarrow> st_put m (int i) x; Some (m1, None) }"
| "frame_step (ReadVar a) m = do { x \<leftarrow> outer_read m a; Some (m, Some x) }"
| "frame_step (WriteVar a x) m = do { m1 \<leftarrow> outer_write m a x; Some (m1, None) }"
| "frame_step (Enter b t) m = do { (m1, ok) \<leftarrow> EnterFrame b t False m; if ok then Some (m1, None) else None }"
| "frame_step Leave m = do { m1 \<leftarrow> LeaveFrame m; Some (m1, None) }"

fun frame_run :: "frame_op list \<Rightarrow> machine \<Rightarrow> (machine \<times> sqobject option list) option" where
  "frame_run [] m = Some (m, [])"
| "frame_run (op # ops) m = do {
     (m1, r) \<leftarrow> frame_step op m; (m2, rs) \<leftarrow> frame_run ops m1; Some (m2, r # rs) }"

text \<open>The operations the code makes: on positions below the top, on captured variables, with a fresh
  address for a new outer, and frames above the base within 31 bits.\<close>

definition MAX_TOP :: int where "MAX_TOP = 2 ^ 31"

fun op_ok :: "frame_op \<Rightarrow> scopes \<Rightarrow> bool" where
  "op_ok (Capture new i) s = (int i < sc_top s \<and> new \<notin> fst ` set (sc_vars s))"
| "op_ok (ReadLocal i) s = (int i < sc_top s)"
| "op_ok (WriteLocal i x) s = (int i < sc_top s)"
| "op_ok (ReadVar a) s = (a \<in> fst ` set (sc_vars s))"
| "op_ok (WriteVar a x) s = (a \<in> fst ` set (sc_vars s))"
| "op_ok (Enter b t) s = (0 \<le> b \<and> b \<le> t \<and> t < MAX_TOP)"
| "op_ok Leave s = (sc_frames s \<noteq> [])"
| "op_ok (CloseFrom k) s = True"

fun ops_ok :: "frame_op list \<Rightarrow> scopes \<Rightarrow> bool" where
  "ops_ok [] s = True"
| "ops_ok (op # ops) s = (op_ok op s \<and> ops_ok ops (fst (spec_step op s)))"

subsection \<open>The simulation\<close>

text \<open>The frames of the machine, innermost first, and those of the specification.\<close>

fun frames_rel :: "nat \<Rightarrow> int \<Rightarrow> int \<Rightarrow> callinfo list \<Rightarrow> (int \<times> int) list \<Rightarrow> bool" where
  "frames_rel n b t [] [] = (0 \<le> b \<and> 0 \<le> t \<and> b < MAX_TOP \<and> t < MAX_TOP \<and> t + MIN_STACK_OVERHEAD \<le> int n)"
| "frames_rel n b t (c # cs) ((b1, t1) # fs) =
     (0 \<le> b \<and> 0 \<le> t \<and> b < MAX_TOP \<and> t < MAX_TOP \<and> t + MIN_STACK_OVERHEAD \<le> int n \<and>
      ci_prevstkbase c = b - b1 \<and> ci_prevtop c = t1 - b1 \<and> frames_rel n b1 t1 cs fs)"
| "frames_rel n b t _ _ = False"

definition var_pos :: "scopes \<Rightarrow> addr \<Rightarrow> nat" where
  "var_pos s a = snd (the (map_of (sc_vars s) a))"

definition var_rel :: "machine \<Rightarrow> scopes \<Rightarrow> sqouter \<Rightarrow> nat \<times> nat \<Rightarrow> bool" where
  "var_rel m s p l \<longleftrightarrow> ou_idx p = snd l \<and>
     (if l = sc_loc s (snd l) then ou_valptr p = OnStack (m_moves m) (snd l) \<and> snd l < length (cells m)
      else ou_valptr p = OwnValue \<and> ou_value p = sc_store s l)"

definition cells_rel :: "machine \<Rightarrow> scopes \<Rightarrow> bool" where
  "cells_rel m s \<longleftrightarrow>
     (\<forall>i. sc_store s (sc_loc s i) = (if i < length (cells m) then cells m ! i else ONull))"

definition vars_rel :: "machine \<Rightarrow> scopes \<Rightarrow> bool" where
  "vars_rel m s \<longleftrightarrow>
     distinct (map fst (sc_vars s)) \<and> distinct (map snd (sc_vars s)) \<and>
     (\<forall>i. sc_ver s i \<le> sc_epoch s) \<and> (\<forall>(a, v, i) \<in> set (sc_vars s). v \<le> sc_epoch s) \<and>
     (\<forall>a. map_of (sc_vars s) a = None \<longrightarrow> m_outers m a = None) \<and>
     (\<forall>a l. map_of (sc_vars s) a = Some l \<longrightarrow> (\<exists>p. m_outers m a = Some p \<and> var_rel m s p l))"

definition open_rel :: "machine \<Rightarrow> scopes \<Rightarrow> bool" where
  "open_rel m s \<longleftrightarrow>
     sorted_wrt (\<lambda>a b. var_pos s a > var_pos s b) (m_openouters m) \<and>
     set (m_openouters m) = {a. \<exists>i. map_of (sc_vars s) a = Some (sc_loc s i)}"

definition scopes_sim :: "machine \<Rightarrow> scopes \<Rightarrow> bool" where
  "scopes_sim m s \<longleftrightarrow> cells_rel m s \<and> vars_rel m s \<and> open_rel m s \<and>
     m_stackbase m = sc_base s \<and> m_top m = sc_top s \<and> m_nmetamethodscall m = 0 \<and>
     frames_rel (length (cells m)) (sc_base s) (sc_top s) (rev (m_calls m)) (sc_frames s)"

lemma sc_loc_simps [simp]: "snd (sc_loc s i) = i" "sc_loc s i = sc_loc s j \<longleftrightarrow> i = j" "fst (sc_loc s i) = sc_ver s i"
  by (auto simp: sc_loc_def)

lemma vars_relD:
  assumes "vars_rel m s" "map_of (sc_vars s) a = Some l"
  obtains p where "m_outers m a = Some p" "var_rel m s p l"
  using assms unfolding vars_rel_def by blast

lemma open_var:
  assumes "vars_rel m s" "map_of (sc_vars s) a = Some (sc_loc s i)"
  obtains p where "m_outers m a = Some p" "ou_idx p = i" "ou_valptr p = OnStack (m_moves m) i"
    "i < length (cells m)" "var_pos s a = i"
proof -
  obtain p where "m_outers m a = Some p" "var_rel m s p (sc_loc s i)" using vars_relD [OF assms] .
  with assms(2) that show ?thesis by (auto simp: var_rel_def var_pos_def)
qed

lemma sim_open_at: "vars_rel m s \<Longrightarrow> open_rel m s \<Longrightarrow> open_at m (var_pos s) (m_openouters m)"
  unfolding open_at_def open_rel_def by (auto elim!: open_var)

lemma var_pos_open: "map_of (sc_vars s) a = Some (sc_loc s i) \<Longrightarrow> var_pos s a = i"
  by (simp add: var_pos_def)

lemma find_var:
  assumes "distinct (map fst (sc_vars s))" "distinct (map snd (sc_vars s))"
  shows "find (\<lambda>(a, l). l = k) (sc_vars s) = Some (a, l) \<longleftrightarrow> map_of (sc_vars s) a = Some l \<and> l = k"
proof -
  have "find (\<lambda>(a, l). l = k) (sc_vars s) = Some (a, l) \<longleftrightarrow>
      (a, l) \<in> set (sc_vars s) \<and> (case (a, l) of (a, l) \<Rightarrow> l = k)"
  proof (rule find_Some_unique)
    fix x y assume "x \<in> set (sc_vars s)" "y \<in> set (sc_vars s)"
      "case x of (a, l) \<Rightarrow> l = k" "case y of (a, l) \<Rightarrow> l = k"
    then have "snd x = snd y" by auto
    with \<open>x \<in> _\<close> \<open>y \<in> _\<close> assms(2) show "x = y" by (meson distinct_map inj_onD)
  qed
  with assms(1) show ?thesis by simp
qed

lemma find_var_None:
  "find (\<lambda>(a, l). l = k) xs = None \<longleftrightarrow> k \<notin> snd ` set xs"
  by (force simp: find_None_iff)

lemma sim_capture:
  assumes sim: "scopes_sim m s" and ok: "op_ok (Capture new i) s"
  shows "\<exists>m'. FindOuter m new i = Some (m', OOuter (snd (spec_capture new i s))) \<and>
     scopes_sim m' (fst (spec_capture new i s))"
proof -
  let ?as = "m_openouters m" let ?ix = "var_pos s"
  have v: "vars_rel m s" and o: "open_rel m s" and c: "cells_rel m s" using sim by (auto simp: scopes_sim_def)
  have dist: "distinct (map fst (sc_vars s))" "distinct (map snd (sc_vars s))" using v by (auto simp: vars_rel_def)
  have sorted: "sorted_wrt (\<lambda>a b. ?ix a > ?ix b) ?as" and set_as: "set ?as = {a. \<exists>i. map_of (sc_vars s) a = Some (sc_loc s i)}"
    using o by (auto simp: open_rel_def)
  note oa = sim_open_at [OF v o]
  have hit: "a \<in> set ?as \<and> ?ix a = i \<longleftrightarrow> map_of (sc_vars s) a = Some (sc_loc s i)" for a
    unfolding set_as using var_pos_open [of s a] by auto
  have found: "(case dropWhile (\<lambda>a. i < ?ix a) ?as of a # _ \<Rightarrow> if ?ix a = i then Some a else None | [] \<Rightarrow> None) = Some a
      \<longleftrightarrow> map_of (sc_vars s) a = Some (sc_loc s i)" for a
    unfolding dropWhile_found [OF sorted] by (rule hit)
  show ?thesis
  proof (cases "find (\<lambda>(a, l). l = sc_loc s i) (sc_vars s)")
    case (Some al)
    obtain a l where al: "al = (a, l)" by (cases al)
    have "map_of (sc_vars s) a = Some (sc_loc s i)" using Some al find_var [OF dist, of "sc_loc s i" a l] by simp
    then have hd: "(case dropWhile (\<lambda>a. i < ?ix a) ?as of a # _ \<Rightarrow> if ?ix a = i then Some a else None | [] \<Rightarrow> None) = Some a"
      by (rule found [THEN iffD2])
    have "FindOuter m new i = Some (m, OOuter a)"
      by (simp add: FindOuter_def find_open_ok [OF oa] hd)
    with Some al sim show ?thesis by (simp add: spec_capture_def)
  next
    case None
    have new: "sc_loc s i \<notin> snd ` set (sc_vars s)" using None by (simp add: find_var_None)
    have "(case dropWhile (\<lambda>a. i < ?ix a) ?as of a # _ \<Rightarrow> if ?ix a = i then Some a else None | [] \<Rightarrow> None) \<noteq> Some a" for a
      unfolding found using new by (auto dest!: map_of_SomeD simp: rev_image_eqI)
    then have nf: "(case dropWhile (\<lambda>a. i < ?ix a) ?as of a # _ \<Rightarrow> if ?ix a = i then Some a else None | [] \<Rightarrow> None) = None"
      by (meson not_None_eq)
    let ?m = "m\<lparr> m_outers := (m_outers m)(new \<mapsto>
        \<lparr> ou_valptr = OnStack (m_moves m) i, ou_idx = i, ou_value = ONull \<rparr>),
        m_openouters := takeWhile (\<lambda>a. i < ?ix a) ?as @ new # dropWhile (\<lambda>a. i < ?ix a) ?as \<rparr>"
    let ?s = "s\<lparr> sc_vars := (new, sc_loc s i) # sc_vars s \<rparr>"
    have F: "FindOuter m new i = Some (?m, OOuter new)"
      by (simp add: FindOuter_def find_open_ok [OF oa] nf)
    have S: "spec_capture new i s = (?s, new)" using None by (simp add: spec_capture_def)
    have fresh: "new \<notin> fst ` set (sc_vars s)" and itop: "int i < sc_top s" using ok by auto
    have ilen: "i < length (cells m)"
    proof -
      have "sc_top s + MIN_STACK_OVERHEAD \<le> int (length (cells m))"
        using sim by (cases "rev (m_calls m)"; cases "sc_frames s") (auto simp: scopes_sim_def)
      with itop show ?thesis by (simp add: MIN_STACK_OVERHEAD_def)
    qed
    have loc: "sc_loc ?s = sc_loc s" by (simp add: sc_loc_def fun_eq_iff)
    have pos: "var_pos ?s = ?ix(new := i)" by (auto simp: var_pos_def fun_eq_iff)
    have nas: "new \<notin> set ?as" using fresh unfolding set_as by (auto dest!: map_of_SomeD simp: rev_image_eqI)
    have cr: "cells_rel ?m ?s" using c by (simp add: cells_rel_def loc)
    have vr: "vars_rel ?m ?s"
    proof -
      have keep: "var_rel ?m ?s = var_rel m s" by (auto simp: var_rel_def loc fun_eq_iff)
      have newrel: "var_rel m s \<lparr> ou_valptr = OnStack (m_moves m) i, ou_idx = i, ou_value = ONull \<rparr> (sc_loc s i)"
        using ilen by (simp add: var_rel_def)
      have "m_outers ?m a = None" if "map_of (sc_vars ?s) a = None" for a
        using v that unfolding vars_rel_def by (auto split: if_splits)
      moreover have "\<exists>p. m_outers ?m a = Some p \<and> var_rel ?m ?s p l" if "map_of (sc_vars ?s) a = Some l" for a l
        using v that newrel unfolding keep by (auto split: if_splits elim: vars_relD)
      ultimately show ?thesis
        using v fresh new unfolding vars_rel_def by (auto simp: sc_loc_def)
    qed
    have tw: "\<forall>a \<in> set (takeWhile (\<lambda>a. i < ?ix a) ?as). i < ?ix a" by (auto dest: set_takeWhileD)
    have le: "\<forall>a \<in> set (dropWhile (\<lambda>a. i < ?ix a) ?as). ?ix a < i"
    proof
      fix a assume a: "a \<in> set (dropWhile (\<lambda>a. i < ?ix a) ?as)"
      have "set (dropWhile (\<lambda>a. int (Suc i) \<le> int (?ix a)) ?as) = {a \<in> set ?as. int (?ix a) < int (Suc i)}"
        by (rule dropWhile_set_desc [OF sorted])
      moreover have "(\<lambda>a. int (Suc i) \<le> int (?ix a)) = (\<lambda>a. i < ?ix a)" by (auto simp: fun_eq_iff)
      ultimately have "a \<in> {a \<in> set ?as. int (?ix a) < int (Suc i)}" using a by simp
      then have "a \<in> set ?as" "?ix a \<le> i" by auto
      moreover have "?ix a \<noteq> i" using hit [of a] calculation(1) new by (auto dest!: map_of_SomeD simp: rev_image_eqI)
      ultimately show "?ix a < i" by simp
    qed
    have same: "takeWhile (\<lambda>a. i < ?ix a) ?as @ dropWhile (\<lambda>a. i < ?ix a) ?as = ?as" by simp
    have or: "open_rel ?m ?s"
    proof -
      have srt: "sorted_wrt (\<lambda>a b. ?ix b < ?ix a) (takeWhile (\<lambda>a. i < ?ix a) ?as @ dropWhile (\<lambda>a. i < ?ix a) ?as)"
        using sorted by simp
      have n1: "new \<notin> set (takeWhile (\<lambda>a. i < ?ix a) ?as)" "new \<notin> set (dropWhile (\<lambda>a. i < ?ix a) ?as)"
        using nas by (auto dest: set_takeWhileD set_dropWhileD)
      have "sorted_wrt (\<lambda>a b. (?ix(new := i)) b < (?ix(new := i)) a)
          (takeWhile (\<lambda>a. i < ?ix a) ?as @ new # dropWhile (\<lambda>a. i < ?ix a) ?as)"
        unfolding sorted_wrt_append sorted_wrt.simps
      proof (intro conjI ballI)
        show "sorted_wrt (\<lambda>a b. (?ix(new := i)) b < (?ix(new := i)) a) (takeWhile (\<lambda>a. i < ?ix a) ?as)"
          using srt n1(1) unfolding sorted_wrt_append by (auto elim!: sorted_wrt_mono_rel [rotated])
        show "sorted_wrt (\<lambda>a b. (?ix(new := i)) b < (?ix(new := i)) a) (dropWhile (\<lambda>a. i < ?ix a) ?as)"
          using srt n1(2) unfolding sorted_wrt_append by (auto elim!: sorted_wrt_mono_rel [rotated])
      qed (use tw le n1 in \<open>force+\<close>)
      moreover have "set (takeWhile (\<lambda>a. i < ?ix a) ?as @ new # dropWhile (\<lambda>a. i < ?ix a) ?as) =
          {a. \<exists>j. map_of (sc_vars ?s) a = Some (sc_loc ?s j)}"
      proof -
        have "set (takeWhile (\<lambda>a. i < ?ix a) ?as @ new # dropWhile (\<lambda>a. i < ?ix a) ?as) = insert new (set ?as)"
          using same by (metis Un_insert_right list.simps(15) set_append)
        then show ?thesis using fresh unfolding set_as loc by (auto simp: map_of_eq_None_iff)
      qed
      ultimately show ?thesis unfolding open_rel_def pos by simp
    qed
    have "scopes_sim ?m ?s" using sim cr vr or by (simp add: scopes_sim_def)
    with F S show ?thesis by simp
  qed
qed

definition mem_rel :: "machine \<Rightarrow> scopes \<Rightarrow> bool" where
  "mem_rel m s \<longleftrightarrow> cells_rel m s \<and> vars_rel m s \<and> open_rel m s"

lemma mem_rel_frame:
  "mem_rel (m\<lparr> m_calls := cs, m_stackbase := b, m_top := t \<rparr>) s = mem_rel m s"
  "mem_rel (m\<lparr> m_stackbase := b, m_top := t \<rparr>) s = mem_rel m s"
  "mem_rel (m\<lparr> m_calls := cs \<rparr>) s = mem_rel m s"
  "mem_rel (m\<lparr> m_alloccalls := n \<rparr>) s = mem_rel m s"
  by (simp_all add: mem_rel_def cells_rel_def vars_rel_def open_rel_def var_rel_def)

lemma mem_rel_spec_frame:
  "mem_rel m (s\<lparr> sc_base := b, sc_top := t, sc_frames := fs \<rparr>) = mem_rel m s"
  "mem_rel m (s\<lparr> sc_frames := fs, sc_base := b, sc_top := t \<rparr>) = mem_rel m s"
  by (simp_all add: mem_rel_def cells_rel_def vars_rel_def open_rel_def var_rel_def sc_loc_def var_pos_def)

lemma scopes_sim_mem:
  "scopes_sim m s \<longleftrightarrow> mem_rel m s \<and>
     m_stackbase m = sc_base s \<and> m_top m = sc_top s \<and> m_nmetamethodscall m = 0 \<and>
     frames_rel (length (cells m)) (sc_base s) (sc_top s) (rev (m_calls m)) (sc_frames s)"
  by (auto simp: scopes_sim_def mem_rel_def)

lemma scopes_sim_cong:
  assumes "m_stack m' = m_stack m" "m_moves m' = m_moves m" "m_outers m' = m_outers m"
    "m_openouters m' = m_openouters m" "m_stackbase m' = m_stackbase m" "m_top m' = m_top m"
    "m_nmetamethodscall m' = m_nmetamethodscall m" "m_calls m' = m_calls m"
  shows "scopes_sim m' s = scopes_sim m s"
proof -
  have "var_rel m' s = var_rel m s" using assms by (simp add: var_rel_def fun_eq_iff)
  then show ?thesis using assms by (simp add: scopes_sim_def cells_rel_def vars_rel_def open_rel_def)
qed

lemma spec_close_loc:
  "sc_loc (spec_close k s) i = (if k \<le> int i then (sc_epoch s + 1, i) else sc_loc s i)"
  by (simp add: sc_loc_def spec_close_def)

lemma spec_close_simps [simp]:
  "sc_vars (spec_close k s) = sc_vars s" "sc_base (spec_close k s) = sc_base s"
  "sc_top (spec_close k s) = sc_top s" "sc_frames (spec_close k s) = sc_frames s"
  "sc_epoch (spec_close k s) = sc_epoch s + 1" "var_pos (spec_close k s) = var_pos s"
  by (simp_all add: spec_close_def var_pos_def fun_eq_iff)

lemma spec_close_store:
  assumes "fst l \<le> sc_epoch s"
  shows "sc_store (spec_close k s) l = sc_store s l"
  using assms by (cases l) (auto simp: spec_close_def)

lemma mem_close:
  assumes rel: "mem_rel m s"
  shows "\<exists>os as. CloseOuters k m = Some (m\<lparr> m_outers := os, m_openouters := as \<rparr>) \<and>
     mem_rel (m\<lparr> m_outers := os, m_openouters := as \<rparr>) (spec_close k s)"
proof -
  let ?as = "m_openouters m" let ?s = "spec_close k s"
  let ?dw = "dropWhile (\<lambda>a. k \<le> int (var_pos s a)) ?as"
  let ?m = "m\<lparr> m_outers := close_outer m k ?as, m_openouters := ?dw \<rparr>"
  have v: "vars_rel m s" and o: "open_rel m s" and c: "cells_rel m s" using rel by (auto simp: mem_rel_def)
  have sorted: "sorted_wrt (\<lambda>a b. var_pos s a > var_pos s b) ?as" and
    set_as: "set ?as = {a. \<exists>i. map_of (sc_vars s) a = Some (sc_loc s i)}" using o by (auto simp: open_rel_def)
  have ver: "sc_ver s i \<le> sc_epoch s" for i using v by (simp add: vars_rel_def)
  have vers: "fst l \<le> sc_epoch s" if "map_of (sc_vars s) a = Some l" for a l
    using v map_of_SomeD [OF that] unfolding vars_rel_def by force
  have "CloseOuters k m = Some ?m"
    by (simp add: CloseOuters_def close_from_ok [OF sim_open_at [OF v o]])
  moreover have "cells_rel ?m ?s"
  proof -
    have "sc_store ?s (sc_loc ?s i) = sc_store s (sc_loc s i)" for i
      using ver [of i] by (simp add: spec_close_loc spec_close_store) (simp add: spec_close_def)
    with c show ?thesis by (simp add: cells_rel_def)
  qed
  moreover have "vars_rel ?m ?s"
  proof -
    have "m_outers ?m a = None" if "map_of (sc_vars ?s) a = None" for a
      using v that unfolding vars_rel_def by (simp add: close_outer_def)
    moreover have "\<exists>p. m_outers ?m a = Some p \<and> var_rel ?m ?s p l" if l: "map_of (sc_vars ?s) a = Some l" for a l
    proof -
      have Some: "map_of (sc_vars s) a = Some l" using l by simp
      obtain p where p: "m_outers m a = Some p" "var_rel m s p l" using vars_relD [OF v Some] .
      have old: "sc_store ?s l = sc_store s l" using vers [OF Some] by (rule spec_close_store)
      show ?thesis
      proof (cases "l = sc_loc s (snd l)")
        case True
        then obtain i where i: "l = sc_loc s i" by blast
        have a: "a \<in> set ?as" unfolding set_as using Some i by blast
        have cell: "sc_store s (sc_loc s i) = cells m ! i" if "i < length (cells m)"
          using c that unfolding cells_rel_def by simp
        have "sc_loc s i \<noteq> (sc_epoch s + 1, i)" using vers [OF Some] i by (auto simp: sc_loc_def)
        then show ?thesis
          using Some p a old cell unfolding i
          by (cases "k \<le> int i") (simp_all add: close_outer_def var_rel_def spec_close_loc)
      next
        case False
        then have a: "a \<notin> set ?as" unfolding set_as using Some by auto
        have "l \<noteq> (sc_epoch s + 1, snd l)" using vers [OF Some] by (cases l) auto
        then show ?thesis using Some p a False old
          by (auto simp: close_outer_def var_rel_def spec_close_loc)
      qed
    qed
    moreover have "\<forall>i. sc_ver ?s i \<le> sc_epoch ?s" using ver by (auto simp: spec_close_def le_SucI)
    moreover have "\<forall>(a, v, i) \<in> set (sc_vars ?s). v \<le> sc_epoch ?s"
      using v unfolding vars_rel_def by fastforce
    ultimately show ?thesis using v unfolding vars_rel_def by simp
  qed
  moreover have "open_rel ?m ?s"
  proof -
    have "sorted_wrt (\<lambda>a b. var_pos s a > var_pos s b) ?dw"
      using sorted by (metis sorted_wrt_append takeWhile_dropWhile_id)
    moreover have "set ?dw = {a. \<exists>i. map_of (sc_vars ?s) a = Some (sc_loc ?s i)}"
    proof -
      have "map_of (sc_vars s) a \<noteq> Some (sc_epoch s + 1, i)" for a i using vers [of a] by force
      then show ?thesis
        unfolding dropWhile_set_desc [OF sorted] set_as
        by (auto simp: spec_close_loc var_pos_open) (metis (no_types, lifting) var_pos_open not_le)+
    qed
    ultimately show ?thesis unfolding open_rel_def by simp
  qed
  ultimately show ?thesis unfolding mem_rel_def by blast
qed

lemma sc_loc_store [simp]: "sc_loc (s\<lparr> sc_store := st \<rparr>) = sc_loc s" "var_pos (s\<lparr> sc_store := st \<rparr>) = var_pos s"
  by (simp_all add: sc_loc_def var_pos_def fun_eq_iff)

text \<open>A change of cells that are not closed variables.\<close>

lemma mem_cells:
  assumes rel: "mem_rel m s" and len: "length xs = length (cells m)"
    and st: "\<And>i. st (sc_loc s i) = (if i < length xs then xs ! i else ONull)"
    and closed: "\<And>l. l \<noteq> sc_loc s (snd l) \<Longrightarrow> st l = sc_store s l"
  shows "mem_rel (with_cells m xs) (s\<lparr> sc_store := st \<rparr>)"
proof -
  have "var_rel (with_cells m xs) (s\<lparr> sc_store := st \<rparr>) p l" if "var_rel m s p l" for p l
    using that len closed [of l] by (auto simp: var_rel_def split: if_splits)
  then have "vars_rel (with_cells m xs) (s\<lparr> sc_store := st \<rparr>)"
    using rel unfolding mem_rel_def vars_rel_def by (simp del: split_paired_All map_of_eq_Some_iff) blast
  with rel len st show ?thesis by (simp add: mem_rel_def cells_rel_def open_rel_def)
qed

lemma mem_null:
  assumes rel: "mem_rel m s" and "0 \<le> t" "u < int (length (cells m))" "t < int (length (cells m))"
  shows "\<exists>xs. null_range (nat (u - t + 1)) t m = Some (with_cells m xs) \<and> length xs = length (cells m) \<and>
     mem_rel (with_cells m xs) (spec_null t u s)"
proof -
  obtain xs where xs: "null_range (nat (u - t + 1)) t m = Some (with_cells m xs)" "length xs = length (cells m)"
    "\<forall>j < length xs. xs ! j = (if t \<le> int j \<and> int j < t + int (nat (u - t + 1)) then ONull else cells m ! j)"
  proof -
    have "t + int (nat (u - t + 1)) \<le> int (length (cells m))" using assms by simp
    then show thesis using null_range_ok [of t "nat (u - t + 1)" m] assms(2) that by blast
  qed
  have c: "sc_store s (sc_loc s i) = (if i < length xs then cells m ! i else ONull)" for i
    using rel xs(2) by (simp add: mem_rel_def cells_rel_def)
  have "mem_rel (with_cells m xs) (spec_null t u s)" unfolding spec_null_def
  proof (rule mem_cells [OF rel xs(2)])
    fix i
    show "(case sc_loc s i of (v, j) \<Rightarrow> if v = sc_ver s j \<and> t \<le> int j \<and> int j \<le> u then ONull else sc_store s (v, j)) =
        (if i < length xs then xs ! i else ONull)"
      using c [of i] xs(3) by (auto simp: sc_loc_def)
  qed (auto simp: sc_loc_def split: if_splits)
  with xs show ?thesis by blast
qed

lemma sim_bounds:
  assumes "scopes_sim m s"
  shows "0 \<le> sc_top s" "sc_top s + MIN_STACK_OVERHEAD \<le> int (length (cells m))"
  using assms by (cases "rev (m_calls m)"; cases "sc_frames s"; auto simp: scopes_sim_def)+

lemma sim_write_local:
  assumes sim: "scopes_sim m s" and ok: "op_ok (WriteLocal i x) s"
  shows "\<exists>m'. st_put m (int i) x = Some m' \<and> scopes_sim m' (fst (spec_step (WriteLocal i x) s))"
proof -
  have i: "i < length (cells m)" using sim_bounds [OF sim] ok by (simp add: MIN_STACK_OVERHEAD_def)
  have rel: "mem_rel m s" using sim by (simp add: scopes_sim_mem)
  have "mem_rel (with_cells m ((cells m)[i := x])) (s\<lparr> sc_store := (sc_store s)(sc_loc s i := x) \<rparr>)"
    using rel i by (intro mem_cells) (auto simp: mem_rel_def cells_rel_def nth_list_update)
  with sim i show ?thesis by (simp add: st_put_Some scopes_sim_mem)
qed

lemma sim_read_var:
  assumes sim: "scopes_sim m s" and l: "map_of (sc_vars s) a = Some l"
  shows "outer_read m a = Some (sc_store s l)"
proof -
  have v: "vars_rel m s" and c: "cells_rel m s" using sim by (auto simp: scopes_sim_def)
  obtain p where p: "m_outers m a = Some p" "var_rel m s p l" using vars_relD [OF v l] .
  show ?thesis
  proof (cases "l = sc_loc s (snd l)")
    case True
    then obtain i where i: "l = sc_loc s i" by blast
    with p c show ?thesis
      by (simp add: outer_read_def outer_ptr_def var_rel_def st_get_Some cells_rel_def)
  qed (use p in \<open>simp add: outer_read_def var_rel_def\<close>)
qed

lemma sim_write_var:
  assumes sim: "scopes_sim m s" and l: "map_of (sc_vars s) a = Some l"
  shows "\<exists>m'. outer_write m a x = Some m' \<and> scopes_sim m' (s\<lparr> sc_store := (sc_store s)(l := x) \<rparr>)"
proof -
  have v: "vars_rel m s" and c: "cells_rel m s" and rel: "mem_rel m s"
    using sim by (auto simp: scopes_sim_def mem_rel_def)
  obtain p where p: "m_outers m a = Some p" "var_rel m s p l" using vars_relD [OF v l] .
  show ?thesis
  proof (cases "l = sc_loc s (snd l)")
    case True
    then obtain i where i: "l = sc_loc s i" by blast
    have il: "i < length (cells m)" using p i by (simp add: var_rel_def)
    have "mem_rel (with_cells m ((cells m)[i := x])) (s\<lparr> sc_store := (sc_store s)(l := x) \<rparr>)"
      using rel i il by (intro mem_cells) (auto simp: mem_rel_def cells_rel_def nth_list_update)
    with sim p i il show ?thesis
      by (simp add: outer_write_def outer_ptr_def var_rel_def st_put_Some scopes_sim_mem)
  next
    case False
    let ?m = "m\<lparr> m_outers := (m_outers m)(a \<mapsto> p\<lparr> ou_value := x \<rparr>) \<rparr>"
    let ?s = "s\<lparr> sc_store := (sc_store s)(l := x) \<rparr>"
    have inj: "b = a" if "map_of (sc_vars s) b = Some l" for b
    proof -
      have "distinct (map snd (sc_vars s))" using v by (simp add: vars_rel_def)
      then show ?thesis using map_of_SomeD [OF that] map_of_SomeD [OF l] by (metis distinct_map inj_onD prod.inject snd_conv)
    qed
    have other: "var_rel ?m ?s q k" if "var_rel m s q k" "k \<noteq> l" for q k
      using that by (simp add: var_rel_def)
    have self: "var_rel ?m ?s (p\<lparr> ou_value := x \<rparr>) l" using p(2) False by (simp add: var_rel_def)
    have "\<exists>q. m_outers ?m b = Some q \<and> var_rel ?m ?s q k" if "map_of (sc_vars ?s) b = Some k" for b k
    proof (cases "b = a")
      case True
      with that l self show ?thesis by simp
    next
      case ba: False
      have bk: "map_of (sc_vars s) b = Some k" using that by simp
      obtain q where "m_outers m b = Some q" "var_rel m s q k" using vars_relD [OF v bk] .
      moreover have "k \<noteq> l" using inj [of b] that ba by auto
      ultimately show ?thesis using other ba by simp
    qed
    moreover have "m_outers ?m b = None" if "map_of (sc_vars ?s) b = None" for b
      using v that l unfolding vars_rel_def by (cases "b = a") auto
    ultimately have "vars_rel ?m ?s" using v unfolding vars_rel_def by simp
    moreover have "cells_rel ?m ?s"
    proof -
      have "sc_loc s i \<noteq> l" for i using False by auto
      with c show ?thesis by (simp add: cells_rel_def)
    qed
    moreover have "open_rel ?m ?s" using rel by (simp add: mem_rel_def open_rel_def)
    ultimately have "scopes_sim ?m ?s" using sim by (simp add: scopes_sim_def)
    with p False show ?thesis by (simp add: outer_write_def var_rel_def)
  qed
qed

text \<open>The stack moves and the open outers are relocated.\<close>

lemma mem_resize:
  assumes rel: "mem_rel m s" and n: "int (length (cells m)) \<le> n"
  shows "\<exists>os. RelocateOuters (stack_resize m n) = Some ((stack_resize m n)\<lparr> m_outers := os \<rparr>) \<and>
     mem_rel ((stack_resize m n)\<lparr> m_outers := os \<rparr>) s"
proof -
  let ?r = "stack_resize m n" let ?as = "m_openouters m"
  let ?os = "\<lambda>a. if a \<in> set ?as then map_option (\<lambda>p. p\<lparr> ou_valptr := OnStack (m_moves ?r) (ou_idx p) \<rparr>) (m_outers m a)
     else m_outers m a"
  let ?m = "?r\<lparr> m_outers := ?os \<rparr>"
  have v: "vars_rel m s" and o: "open_rel m s" and c: "cells_rel m s" using rel by (auto simp: mem_rel_def)
  have set_as: "set ?as = {a. \<exists>i. map_of (sc_vars s) a = Some (sc_loc s i)}" using o by (auto simp: open_rel_def)
  have some: "\<forall>a \<in> set ?as. m_outers m a \<noteq> None" unfolding set_as by (auto elim: open_var [OF v])
  have same: "m_openouters ?r = ?as" "m_outers ?r = m_outers m" by (simp_all add: stack_resize_def)
  have cells: "cells ?m = cells m @ replicate (nat n - length (cells m)) ONull"
    using n by (auto simp: stack_resize_def vec_resize_def vec_realloc_def Let_def)
  have "RelocateOuters ?r = Some ?m"
    by (simp add: RelocateOuters_def same relocate_ok [OF some])
  moreover have "cells_rel ?m s" using c unfolding cells_rel_def cells by (auto simp: nth_append)
  moreover have "open_rel ?m s" using o by (simp add: open_rel_def same)
  moreover have "vars_rel ?m s"
  proof -
    have "\<exists>p. m_outers ?m a = Some p \<and> var_rel ?m s p l" if l: "map_of (sc_vars s) a = Some l" for a l
    proof -
      obtain p where p: "m_outers m a = Some p" "var_rel m s p l" using vars_relD [OF v l] .
      show ?thesis
      proof (cases "l = sc_loc s (snd l)")
        case True
        then obtain i where i: "l = sc_loc s i" by blast
        have "a \<in> set ?as" unfolding set_as using l i by blast
        then show ?thesis using p unfolding i var_rel_def cells by simp
      next
        case False
        then have "a \<notin> set ?as" unfolding set_as using l by auto
        then show ?thesis using p False unfolding var_rel_def cells by simp
      qed
    qed
    moreover have "m_outers ?m a = None" if "map_of (sc_vars s) a = None" for a
      using v that unfolding vars_rel_def by simp
    ultimately show ?thesis using v unfolding vars_rel_def by simp
  qed
  ultimately show ?thesis unfolding mem_rel_def by blast
qed

lemma frames_rel_mono: "frames_rel n b t cs fs \<Longrightarrow> n \<le> n' \<Longrightarrow> frames_rel n' b t cs fs"
proof (induction n b t cs fs rule: frames_rel.induct)
  case (2 n b t c cs b1 t1 fs)
  then show ?case by auto
qed auto

lemma frames_rel_bounds:
  assumes "frames_rel n b t cs fs"
  shows "0 \<le> b" "0 \<le> t" "b < MAX_TOP" "t < MAX_TOP" "t + MIN_STACK_OVERHEAD \<le> int n"
  using assms by (cases cs; cases fs; auto)+

lemma int32_diff: "0 \<le> i \<Longrightarrow> i < MAX_TOP \<Longrightarrow> 0 \<le> j \<Longrightarrow> j < MAX_TOP \<Longrightarrow> int32 (i - j) = i - j"
  unfolding int32_def by (rule signed_take_bit_int_eq_self) (simp_all add: MAX_TOP_def)

lemma sim_enter:
  assumes sim: "scopes_sim m s" and ok: "op_ok (Enter b t) s"
  shows "\<exists>m'. EnterFrame b t False m = Some (m', True) \<and> scopes_sim m' (fst (spec_step (Enter b t) s)) \<and>
     m_calls m' = m_calls (push_frame b m) \<and> m_generators m' = m_generators m \<and> m_etraps m' = m_etraps m \<and>
     v_weakrefs m' = v_weakrefs m"
proof -
  let ?s = "fst (spec_step (Enter b t) s)" let ?p = "push_frame b m"
  let ?m = "?p\<lparr> m_stackbase := b, m_top := t \<rparr>"
  have rel: "mem_rel m s" and base: "m_stackbase m = sc_base s" "m_top m = sc_top s"
    and fr: "frames_rel (length (cells m)) (sc_base s) (sc_top s) (rev (m_calls m)) (sc_frames s)"
    and nm: "m_nmetamethodscall m = 0" using sim by (auto simp: scopes_sim_mem)
  note bs = frames_rel_bounds [OF fr]
  have b: "0 \<le> b" "b \<le> t" "t < MAX_TOP" "b < MAX_TOP" using ok by auto
  have cp: "cells ?p = cells m" by (simp add: push_frame_def GrowCallStack_def Let_def)
  have relp: "mem_rel ?p s"
    using rel by (simp add: push_frame_def GrowCallStack_def Let_def mem_rel_frame)
  have relm: "mem_rel ?m ?s" using relp by (simp add: mem_rel_frame mem_rel_spec_frame)
  have nmm: "m_nmetamethodscall ?m = 0" using nm by (simp add: push_frame_def GrowCallStack_def Let_def)
  have frame: "frames_rel n b t (rev (m_calls ?p)) ((sc_base s, sc_top s) # sc_frames s)"
    if "t + MIN_STACK_OVERHEAD \<le> int n" "length (cells m) \<le> n" for n
  proof -
    have "int32 (b - sc_base s) = b - sc_base s" "int32 (sc_top s - sc_base s) = sc_top s - sc_base s"
      using b bs by (simp_all add: int32_diff)
    then show ?thesis using that b bs base frames_rel_mono [OF fr that(2)]
      by (simp add: push_frame_def GrowCallStack_def Let_def)
  qed
  show ?thesis
  proof (cases "t + MIN_STACK_OVERHEAD > int (length (cells m))")
    case False
    then have "EnterFrame b t False m = Some (?m, True)" using cp by (simp add: EnterFrame_def Let_def)
    moreover have "scopes_sim ?m ?s"
      using relm nmm frame [of "length (cells m)"] False cp by (simp add: scopes_sim_mem)
    ultimately show ?thesis by (simp add: push_frame_def GrowCallStack_def Let_def)
  next
    case True
    let ?n = "t + MIN_STACK_OVERHEAD * 4"
    obtain os where os: "RelocateOuters (stack_resize ?m ?n) = Some ((stack_resize ?m ?n)\<lparr> m_outers := os \<rparr>)"
      "mem_rel ((stack_resize ?m ?n)\<lparr> m_outers := os \<rparr>) ?s"
      using mem_resize [OF relm, of ?n] True cp by (auto simp: MIN_STACK_OVERHEAD_def)
    let ?r = "(stack_resize ?m ?n)\<lparr> m_outers := os \<rparr>"
    have len: "length (cells ?r) = nat ?n"
      using True cp b by (auto simp: stack_resize_def vec_resize_def vec_realloc_def Let_def MIN_STACK_OVERHEAD_def)
    have same: "m_stackbase ?r = b" "m_top ?r = t" "m_nmetamethodscall ?r = 0" "m_calls ?r = m_calls ?p"
      using nmm by (simp_all add: stack_resize_def)
    have "EnterFrame b t False m = Some (?r, True)"
      using True cp nmm os(1) by (simp add: EnterFrame_def Let_def)
    moreover have "scopes_sim ?r ?s"
      using os(2) same len frame [of "nat ?n"] True b
      by (simp add: scopes_sim_mem) (simp add: MIN_STACK_OVERHEAD_def)
    moreover have "m_generators ?r = m_generators m" "m_etraps ?r = m_etraps m" "v_weakrefs ?r = v_weakrefs m"
      by (simp_all add: stack_resize_def push_frame_def GrowCallStack_def Let_def)
    ultimately show ?thesis using same(4) by blast
  qed
qed

lemma sim_leave:
  assumes sim: "scopes_sim m s" and ok: "sc_frames s \<noteq> []"
  shows "\<exists>m'. LeaveFrame m = Some m' \<and> scopes_sim m' (spec_leave s) \<and> m_calls m' = butlast (m_calls m) \<and>
     m_etraps m' = m_etraps m \<and> m_generators m' = m_generators m \<and> length (cells m') = length (cells m) \<and>
     v_lasterror m' = v_lasterror m"
proof -
  have rel: "mem_rel m s" and base: "m_stackbase m = sc_base s" "m_top m = sc_top s"
    and fr: "frames_rel (length (cells m)) (sc_base s) (sc_top s) (rev (m_calls m)) (sc_frames s)"
    and nm: "m_nmetamethodscall m = 0" using sim by (auto simp: scopes_sim_mem)
  obtain b t fs where fs: "sc_frames s = (b, t) # fs" using ok by (cases "sc_frames s") auto
  with fr obtain c cs where calls: "rev (m_calls m) = c # cs" by (cases "rev (m_calls m)") auto
  then have mc: "m_calls m = rev cs @ [c]" by (metis rev.simps(2) rev_rev_ident)
  note bs = frames_rel_bounds [OF fr]
  have c: "ci_prevstkbase c = sc_base s - b" "ci_prevtop c = t - b"
    and fr1: "frames_rel (length (cells m)) b t cs fs" using fr calls fs by auto
  note bs1 = frames_rel_bounds [OF fr1]
  let ?m = "m\<lparr> m_calls := rev cs, m_stackbase := b, m_top := t \<rparr>"
  obtain os as where cl: "CloseOuters (sc_base s) ?m = Some (?m\<lparr> m_outers := os, m_openouters := as \<rparr>)"
    "mem_rel (?m\<lparr> m_outers := os, m_openouters := as \<rparr>) (spec_close (sc_base s) s)"
    using mem_close [of ?m s "sc_base s"] rel by (auto simp: mem_rel_frame)
  let ?m2 = "?m\<lparr> m_outers := os, m_openouters := as \<rparr>"
  obtain xs where xs: "null_range (nat (sc_top s - t + 1)) t ?m2 = Some (with_cells ?m2 xs)"
    "length xs = length (cells ?m2)"
    "mem_rel (with_cells ?m2 xs) (spec_null t (sc_top s) (spec_close (sc_base s) s))"
    using mem_null [OF cl(2), of t "sc_top s"] bs bs1 by (auto simp: MIN_STACK_OVERHEAD_def)
  have "LeaveFrame m = Some (with_cells ?m2 xs)"
    using base c xs(1) cl(1) by (simp add: LeaveFrame_def get_ci_def mc Let_def)
  moreover have "scopes_sim (with_cells ?m2 xs) (spec_leave s)"
    using xs(2,3) fs fr1 nm by (simp add: scopes_sim_mem spec_leave_def mem_rel_spec_frame)
  ultimately show ?thesis using xs(2) by (simp add: mc)
qed

lemma map_of_in: "a \<in> fst ` set xs \<Longrightarrow> \<exists>l. map_of xs a = Some l"
  by (metis map_of_eq_None_iff option.exhaust)

lemma sim_step:
  assumes sim: "scopes_sim m s" and ok: "op_ok op s"
  shows "\<exists>m'. frame_step op m = Some (m', snd (spec_step op s)) \<and> scopes_sim m' (fst (spec_step op s))"
proof (cases op)
  case (Capture new i)
  with sim_capture [of m s new i] sim ok show ?thesis by (auto simp: Let_def case_prod_beta)
next
  case (CloseFrom k)
  obtain os as where "CloseOuters k m = Some (m\<lparr> m_outers := os, m_openouters := as \<rparr>)"
    "mem_rel (m\<lparr> m_outers := os, m_openouters := as \<rparr>) (spec_close k s)"
    using mem_close [of m s k] sim by (auto simp: scopes_sim_mem)
  with CloseFrom sim show ?thesis by (simp add: scopes_sim_mem)
next
  case (ReadLocal i)
  with sim_bounds [OF sim] ok have "i < length (cells m)" by (simp add: MIN_STACK_OVERHEAD_def)
  with ReadLocal sim show ?thesis by (auto simp: st_get_Some scopes_sim_def cells_rel_def)
next
  case (WriteLocal i x)
  with sim_write_local [of m s i x] sim ok show ?thesis by auto
next
  case (ReadVar a)
  with ok have "a \<in> fst ` set (sc_vars s)" by simp
  from map_of_in [OF this] obtain l where "map_of (sc_vars s) a = Some l" ..
  with ReadVar sim_read_var [OF sim] sim show ?thesis by simp
next
  case (WriteVar a x)
  with ok have "a \<in> fst ` set (sc_vars s)" by simp
  from map_of_in [OF this] obtain l where l: "map_of (sc_vars s) a = Some l" ..
  from sim_write_var [OF sim l, of x] l WriteVar show ?thesis by auto
next
  case (Enter b t)
  with sim_enter [of m s b t] sim ok show ?thesis by auto
next
  case Leave
  with sim_leave [of m s] sim ok show ?thesis by auto
qed

lemma sim_run:
  "scopes_sim m s \<Longrightarrow> ops_ok ops s \<Longrightarrow>
   \<exists>m'. frame_run ops m = Some (m', snd (spec_run ops s)) \<and> scopes_sim m' (fst (spec_run ops s))"
proof (induction ops arbitrary: m s)
  case (Cons op ops)
  obtain m1 where m1: "frame_step op m = Some (m1, snd (spec_step op s))" "scopes_sim m1 (fst (spec_step op s))"
    using sim_step [of m s op] Cons.prems by auto
  obtain m2 where "frame_run ops m1 = Some (m2, snd (spec_run ops (fst (spec_step op s))))"
    "scopes_sim m2 (fst (spec_run ops (fst (spec_step op s))))"
    using Cons.IH [OF m1(2)] Cons.prems by auto
  with m1 show ?case by (auto simp: Let_def case_prod_beta)
qed simp

definition no_scopes :: scopes where
  "no_scopes = \<lparr> sc_ver = (\<lambda>_. 0), sc_epoch = 0, sc_store = (\<lambda>_. ONull), sc_vars = [],
     sc_base = 0, sc_top = 0, sc_frames = [] \<rparr>"

lemma sim_init:
  assumes "cells m = []" "m_openouters m = []" "m_outers m = Map.empty" "m_nmetamethodscall m = 0"
    "MIN_STACK_OVERHEAD \<le> int n"
  shows "scopes_sim (vm_Init reg new (Some friendvm) n m) no_scopes"
  using assms
  by (cases friendvm)
     (auto simp: vm_Init_def Let_def scopes_sim_def no_scopes_def cells_rel_def vars_rel_def open_rel_def
       sc_loc_def vec_resize_def vec_realloc_def MAX_TOP_def)

text \<open>The claims rest on the machine that \<^verbatim>\<open>sq_newthread\<close> initialises.\<close>

definition fresh_vm :: "machine \<Rightarrow> bool" where
  "fresh_vm m \<longleftrightarrow> cells m = [] \<and> m_openouters m = [] \<and> m_outers m = Map.empty \<and> m_nmetamethodscall m = 0"

text \<open>
  C28. Frames and captured variables behave as scopes of variables that never move.  After
  \<^verbatim>\<open>Init\<close> on a fresh machine, any sequence of entering and leaving frames, capturing a local
  (\<^verbatim>\<open>FindOuter\<close>), closing scopes, and reading and writing locals and captured variables runs
  without following a stale pointer or leaving the stack, and gives the answers of the specification:
  a local captured twice is one variable, a write through the frame or through any closure is seen by
  all, a variable outlives its scope with its value, and leaving a frame restores the caller's base
  and top, whatever reallocations of the stack happened in between.
\<close>

theorem frames_refine_scopes:
  assumes "fresh_vm m" "MIN_STACK_OVERHEAD \<le> int n" "ops_ok ops no_scopes"
  shows "\<exists>m'. frame_run ops (vm_Init reg new (Some friendvm) n m) = Some (m', snd (spec_run ops no_scopes)) \<and>
     m_stackbase m' = sc_base (fst (spec_run ops no_scopes)) \<and>
     m_top m' = sc_top (fst (spec_run ops no_scopes))"
proof -
  have "scopes_sim (vm_Init reg new (Some friendvm) n m) no_scopes"
    using assms(1,2) by (simp add: fresh_vm_def sim_init)
  from sim_run [OF this assms(3)] show ?thesis by (auto simp: scopes_sim_def)
qed

text \<open>A machine before \<^verbatim>\<open>Init\<close>.\<close>

definition empty_machine :: machine where
  "empty_machine = \<lparr> v_tables = Map.empty, v_arrays = Map.empty, v_classes = Map.empty, v_instances = Map.empty,
     v_userdata = Map.empty, v_strings = Map.empty, v_weakrefs = Map.empty, v_lasterror = ErrText [],
     m_stack = sqvector_new, m_moves = 0, m_top = 0, m_stackbase = 0, m_calls = [], m_alloccalls = 4,
     m_openouters = [], m_outers = Map.empty, m_etraps = [], m_nnativecalls = 0, m_nmetamethodscall = 0,
     m_protos = Map.empty, m_closures = Map.empty, m_natives = Map.empty, m_generators = Map.empty,
     m_roottable = ONull, m_registry = ONull, m_consts = ONull, m_errorhandler = ONull, m_traps = 0, m_suspended = None \<rparr>"

text \<open>A local is captured twice; the stack then moves and the variable outlives its frame.\<close>

theorem frames_refine_scopes_witness:
  "let ops = [Enter 2 8, WriteLocal 3 (OInteger 7), Capture 100 3, Capture 200 3, Enter 6 90, WriteVar 100 (OInteger 9),
        ReadLocal 3, Leave, Leave, ReadVar 100] in
   \<exists>m'. frame_run ops (vm_Init id 0 (Some (ONull, ONull)) 40 empty_machine) =
       Some (m', [None, None, Some (OOuter 100), Some (OOuter 100), None, None, Some (OInteger 9), None, None,
                  Some (OInteger 9)]) \<and> m_stackbase m' = 0 \<and> m_top m' = 0"
proof -
  let ?ops = "[Enter 2 8, WriteLocal 3 (OInteger 7), Capture 100 3, Capture 200 3, Enter 6 90, WriteVar 100 (OInteger 9),
        ReadLocal 3, Leave, Leave, ReadVar 100]"
  have "fresh_vm empty_machine" by (simp add: fresh_vm_def empty_machine_def sqvector_new_def)
  moreover have "MIN_STACK_OVERHEAD \<le> int 40" by (simp add: MIN_STACK_OVERHEAD_def)
  moreover have "ops_ok ?ops no_scopes"
    by (simp add: no_scopes_def spec_capture_def sc_loc_def spec_leave_def spec_close_def spec_null_def MAX_TOP_def)
  ultimately show ?thesis
    using frames_refine_scopes [of empty_machine 40 ?ops id 0 "(ONull, ONull)"]
    by (simp add: no_scopes_def spec_capture_def sc_loc_def spec_leave_def spec_close_def spec_null_def)
qed

end
