(* ===== verification/Sq_Unwind_Correct.thy ===== *)
theory Sq_Unwind_Correct
  imports Sq_Execute Sq_Frames_Correct
begin

text \<open>
  The unwinding of \<^verbatim>\<open>Execute\<close>: an exception ends in the innermost handler, or leaves the frames
  up to the entry of the interpreter.
\<close>

subsection \<open>Which frames are left\<close>

text \<open>The number of frames left and whether a handler is reached; the frames innermost first.\<close>

fun unwind_depth :: "callinfo list \<Rightarrow> nat \<times> bool" where
  "unwind_depth [] = (0, False)"
| "unwind_depth (c # cs) =
     (if ci_etraps c > 0 then (0, True)
      else if ci_root c then (1, False)
      else (let (n, h) = unwind_depth cs in (Suc n, h)))"

text \<open>Every generator of a frame exists; the innermost trap lies in the stack below its top.\<close>

definition gens_ok :: "machine \<Rightarrow> bool" where
  "gens_ok m \<longleftrightarrow> (\<forall>c \<in> set (m_calls m). \<forall>ga. ci_generator c = Some ga \<longrightarrow> m_generators m ga \<noteq> None)"

definition trap_ok :: "machine \<Rightarrow> bool" where
  "trap_ok m \<longleftrightarrow> (case m_etraps m of [] \<Rightarrow> \<forall>c \<in> set (m_calls m). \<not> ci_etraps c > 0
     | et # _ \<Rightarrow> 0 \<le> et_stackbase et + et_extarget et \<and>
         et_stackbase et + et_extarget et < et_stacksize et \<and> et_stacksize et < int (length (cells m)))"

definition is_dead :: "machine \<Rightarrow> addr \<Rightarrow> bool" where
  "is_dead m ga \<longleftrightarrow> (\<exists>g. m_generators m ga = Some g \<and> gn_state g = eDead)"

text \<open>The machine in the handler: the frame \<open>c\<close> goes on at the handler with the error in its register.\<close>

definition at_handler :: "machine \<Rightarrow> callinfo list \<Rightarrow> callinfo \<Rightarrow> sqobject \<Rightarrow> machine \<Rightarrow> bool" where
  "at_handler m outer c err m' \<longleftrightarrow> (\<exists>et rest. m_etraps m = et # rest \<and> m_etraps m' = rest \<and>
     m_calls m' = outer @ [c\<lparr> ci_ip := et_ip et, ci_etraps := ci_etraps c - 1 \<rparr>] \<and>
     m_stackbase m' = et_stackbase et \<and> m_top m' = et_stacksize et \<and>
     st_get m' (et_stackbase et + et_extarget et) = Some err)"

lemma restore_trap_ok:
  assumes ok: "trap_ok m" and calls: "m_calls m = outer @ [c]" "ci_etraps c > 0"
    and top: "last_top < int (length (cells m))"
  shows "\<exists>m'. restore_trap err last_top m = Some m' \<and> at_handler m outer c err m' \<and> m_generators m' = m_generators m"
proof -
  obtain et rest where et: "m_etraps m = et # rest" using ok calls by (cases "m_etraps m") (auto simp: trap_ok_def)
  with ok have b: "0 \<le> et_stackbase et + et_extarget et" "et_stackbase et + et_extarget et < et_stacksize et"
    "et_stacksize et < int (length (cells m))" by (auto simp: trap_ok_def)
  let ?p = "et_stackbase et + et_extarget et"
  let ?m1 = "m\<lparr> m_calls := outer @ [c\<lparr> ci_ip := et_ip et, ci_etraps := ci_etraps c - 1 \<rparr>],
      m_top := et_stacksize et, m_stackbase := et_stackbase et, m_etraps := rest, m_traps := m_traps m - 1 \<rparr>"
  let ?m2 = "with_cells ?m1 ((cells m)[nat ?p := err])"
  have put: "st_put ?m1 ?p err = Some ?m2" using b by (simp add: st_put_Some)
  have "et_stacksize et + int (nat (last_top - et_stacksize et + 1)) \<le> int (length (cells ?m2))"
    using b top by auto
  from null_range_ok [OF _ this] b obtain xs where
    xs: "null_range (nat (last_top - et_stacksize et + 1)) (et_stacksize et) ?m2 = Some (with_cells ?m2 xs)"
    "length xs = length (cells ?m2)"
    "\<forall>j < length xs. xs ! j = (if et_stacksize et \<le> int j \<and>
        int j < et_stacksize et + int (nat (last_top - et_stacksize et + 1)) then ONull else cells ?m2 ! j)"
    by auto
  have "restore_trap err last_top m = Some (with_cells ?m2 xs)"
    using put xs(1) et by (simp add: restore_trap_def set_ci_def calls)
  moreover have "xs ! nat ?p = err" using xs(2,3) b by simp
  then have "st_get (with_cells ?m2 xs) ?p = Some err" using xs(2) b by (simp add: st_get_Some)
  ultimately show ?thesis using et by (simp add: at_handler_def with_cells_def)
qed

lemma frames_rel_length: "frames_rel n b t cs fs \<Longrightarrow> length fs = length cs"
  by (induction n b t cs fs rule: frames_rel.induct) auto

lemma unwind_depth_le: "unwind_depth cs = (n, h) \<Longrightarrow> n \<le> length cs \<and> (h \<longrightarrow> n < length cs)"
  by (induction cs arbitrary: n) (auto split: if_splits prod.splits)

lemma at_handler_cong: "m_etraps m2 = m_etraps m \<Longrightarrow> at_handler m2 outer c err m' = at_handler m outer c err m'"
  by (simp add: at_handler_def)

lemma unwind_ok:
  assumes "scopes_sim m s" "gens_ok m" "trap_ok m" "last_top < int (length (cells m))"
    "length (m_calls m) \<le> k" "unwind_depth (rev (m_calls m)) = (n, h)"
  shows "\<exists>m'. unwind k err last_top m = Some (m', h) \<and>
     (\<forall>ga. is_dead m ga \<longrightarrow> is_dead m' ga) \<and>
     (\<forall>c \<in> set (drop (length (m_calls m) - n) (m_calls m)). \<forall>ga. ci_generator c = Some ga \<longrightarrow> is_dead m' ga) \<and>
     (if h then at_handler m (take (length (m_calls m) - Suc n) (m_calls m)) (m_calls m ! (length (m_calls m) - Suc n)) err m'
      else m_calls m' = take (length (m_calls m) - n) (m_calls m) \<and> scopes_sim m' ((spec_leave ^^ n) s))"
  using assms
proof (induction k arbitrary: m s n)
  case 0
  then have "n = 0" "\<not> h" by auto
  with 0 show ?case by simp
next
  case (Suc k)
  show ?case
  proof (cases "m_calls m" rule: rev_cases)
    case Nil
    with Suc.prems have "n = 0" "\<not> h" by auto
    with Nil Suc.prems(1) show ?thesis by (simp add: get_ci_def)
  next
    case (snoc outer c)
    show ?thesis
    proof (cases "ci_etraps c > 0")
      case True
      with Suc.prems(6) snoc have nh: "n = 0" h by auto
      obtain m' where "restore_trap err last_top m = Some m'" "at_handler m outer c err m'"
        "m_generators m' = m_generators m"
        using restore_trap_ok [OF Suc.prems(3) snoc True Suc.prems(4), of err] by blast
      with True snoc nh show ?thesis by (simp add: get_ci_def is_dead_def)
    next
      case notrap: False
      obtain m1 where m1: "(case ci_generator c of Some ga \<Rightarrow> gen_Kill ga m | None \<Rightarrow> Some m) = Some m1"
        "scopes_sim m1 s" "m_calls m1 = m_calls m" "m_etraps m1 = m_etraps m" "cells m1 = cells m"
        "\<forall>ga. is_dead m ga \<longrightarrow> is_dead m1 ga" "\<forall>ga. ci_generator c = Some ga \<longrightarrow> is_dead m1 ga"
        "\<forall>ga. m_generators m ga \<noteq> None \<longrightarrow> m_generators m1 ga \<noteq> None"
      proof (cases "ci_generator c")
        case None
        with that [of m] Suc.prems(1) show thesis by simp
      next
        case (Some ga)
        with Suc.prems(2) snoc obtain g where g: "m_generators m ga = Some g" by (auto simp: gens_ok_def)
        let ?m = "put_gen ga (g\<lparr> gn_state := eDead, gn_stack := [], gn_closure := ONull \<rparr>) m"
        have "scopes_sim ?m s = scopes_sim m s" by (rule scopes_sim_cong) (simp_all add: put_gen_def)
        with Suc.prems(1) have "scopes_sim ?m s" by simp
        then show thesis
          using Some g by (intro that [of ?m]) (auto simp: gen_Kill_def put_gen_def is_dead_def)
      qed
      have "length (sc_frames s) = length (m_calls m1)"
        using m1(2) frames_rel_length by (fastforce simp: scopes_sim_def)
      then have "sc_frames s \<noteq> []" using m1(3) snoc by auto
      from sim_leave [OF m1(2) this] obtain m2 where
        m2: "LeaveFrame m1 = Some m2" "scopes_sim m2 (spec_leave s)" "m_calls m2 = outer"
          "m_etraps m2 = m_etraps m" "m_generators m2 = m_generators m1" "length (cells m2) = length (cells m)"
        using m1(3-5) snoc by auto
      show ?thesis
      proof (cases "ci_root c")
        case True
        with Suc.prems(6) snoc notrap have "n = 1" "\<not> h" by auto
        with True notrap snoc m1 m2 show ?thesis by (simp add: get_ci_def is_dead_def)
      next
        case noroot: False
        obtain n1 where n1: "unwind_depth (rev outer) = (n1, h)" "n = Suc n1"
          using Suc.prems(6) snoc notrap noroot by (auto split: prod.splits)
        have g2: "gens_ok m2" using Suc.prems(2) m1(8) m2(3,5) snoc by (auto simp: gens_ok_def)
        have t2: "trap_ok m2" using Suc.prems(3) m2(3,4,6) snoc by (auto simp: trap_ok_def split: list.splits)
        obtain m' where m': "unwind k err last_top m2 = Some (m', h)" "\<forall>ga. is_dead m2 ga \<longrightarrow> is_dead m' ga"
          "\<forall>c \<in> set (drop (length outer - n1) outer). \<forall>ga. ci_generator c = Some ga \<longrightarrow> is_dead m' ga"
          "if h then at_handler m2 (take (length outer - Suc n1) outer) (outer ! (length outer - Suc n1)) err m'
           else m_calls m' = take (length outer - n1) outer \<and> scopes_sim m' ((spec_leave ^^ n1) (spec_leave s))"
          using Suc.IH [OF m2(2) g2 t2, of n1] Suc.prems(4,5) m2(3,6) snoc n1(1) by auto
        have le: "n1 \<le> length outer" "h \<Longrightarrow> n1 < length outer" using unwind_depth_le [OF n1(1)] by auto
        have drop: "drop (length (m_calls m) - n) (m_calls m) = drop (length outer - n1) outer @ [c]"
          using le(1) snoc n1(2) by simp
        have take: "take (length (m_calls m) - n) (m_calls m) = take (length outer - n1) outer"
          "take (length (m_calls m) - Suc n) (m_calls m) = take (length outer - Suc n1) outer"
          using snoc n1(2) by simp_all
        have nth: "m_calls m ! (length (m_calls m) - Suc n) = outer ! (length outer - Suc n1)" if h
          using le(2) [OF that] snoc n1(2) by (simp add: nth_append)
        have run: "unwind (Suc k) err last_top m = Some (m', h)"
          using m'(1) m1(1) m2(1) snoc notrap noroot by (simp add: get_ci_def)
        have mono: "is_dead m1 ga \<Longrightarrow> is_dead m' ga" for ga using m'(2) m2(5) by (simp add: is_dead_def)
        have dead: "\<forall>ga. is_dead m ga \<longrightarrow> is_dead m' ga" using m1(6) mono by blast
        have dead2: "\<forall>d \<in> set (drop (length outer - n1) outer @ [c]). \<forall>ga. ci_generator d = Some ga \<longrightarrow> is_dead m' ga"
          using m'(3) m1(7) mono by auto
        have step: "(spec_leave ^^ n) s = (spec_leave ^^ n1) (spec_leave s)"
          unfolding n1(2) by (simp add: funpow_swap1)
        show ?thesis
        proof (cases h)
          case True
          with run dead dead2 m'(4) show ?thesis
            unfolding drop take nth [OF True] at_handler_cong [OF m2(4)] by auto
        next
          case False
          with run dead dead2 m'(4) show ?thesis unfolding drop take step by auto
        qed
      qed
    qed
  qed
qed

subsection \<open>The exception trap\<close>


text \<open>A frame with a handler calls a generator that throws.\<close>

definition generator_frame :: callinfo where
  "generator_frame = \<lparr> ci_ip = 0, ci_literals = [], ci_closure = ONull, ci_generator = None, ci_etraps = 0,
     ci_prevstkbase = 6, ci_prevtop = 6, ci_target = 4, ci_ncalls = 1, ci_root = False \<rparr>"

definition throwing_machine :: machine where
  "throwing_machine = empty_machine\<lparr>
     m_stack := \<lparr> vals = replicate 40 ONull, allocated = 40 \<rparr>, m_stackbase := 8, m_top := 12,
     v_lasterror := ErrValue (OInteger 5),
     m_etraps := [\<lparr> et_stackbase = 2, et_stacksize = 8, et_ip = 17, et_extarget = 3 \<rparr>],
     m_generators := [77 \<mapsto> \<lparr> gn_closure = ONull, gn_stack = [ONull], gn_ci = generator_frame, gn_etraps = [], gn_state = eRunning \<rparr>],
     m_calls := [\<lparr> ci_ip = 0, ci_literals = [], ci_closure = ONull, ci_generator = None, ci_etraps = 1,
                   ci_prevstkbase = 2, ci_prevtop = 5, ci_target = 0, ci_ncalls = 1, ci_root = True \<rparr>,
                 \<lparr> ci_ip = 0, ci_literals = [], ci_closure = ONull, ci_generator = Some 77, ci_etraps = 0,
                   ci_prevstkbase = 6, ci_prevtop = 6, ci_target = 4, ci_ncalls = 1, ci_root = False \<rparr>] \<rparr>"

definition throwing_scopes :: scopes where
  "throwing_scopes = no_scopes\<lparr> sc_base := 8, sc_top := 12, sc_frames := [(2, 8), (0, 5)] \<rparr>"


end
