(* ===== verification/Sq_Generators_Correct.thy ===== *)
theory Sq_Generators_Correct
  imports Sq_Unwind_Correct
begin

text \<open>
  Generators: \<^verbatim>\<open>Yield\<close> takes the frame and its exception traps off the stack and
  \<^verbatim>\<open>Resume\<close> puts them back wherever the stack has grown to.
\<close>

subsection \<open>Ranges of cells\<close>

lemma read_range_ok:
  "0 \<le> i \<Longrightarrow> i + int n \<le> int (length (cells m)) \<Longrightarrow>
   read_range n i m = Some (map (\<lambda>k. cells m ! nat (i + int k)) [0..<n])"
proof (induction n arbitrary: i)
  case (Suc n)
  have "map (\<lambda>k. cells m ! nat (i + int k)) [0..<Suc n] =
      cells m ! nat i # map (\<lambda>k. cells m ! nat (i + 1 + int k)) [0..<n]"
    by (simp add: upt_conv_Cons map_Suc_upt [symmetric] ac_simps del: upt_Suc)
  with Suc show ?case by (simp add: st_get_Some del: upt_Suc)
qed simp

lemma write_range_ok:
  assumes "0 \<le> i" "i + int (length xs) \<le> int (length (cells m))"
  shows "\<exists>ys. write_range xs i m = Some (with_cells m ys) \<and> length ys = length (cells m) \<and>
     (\<forall>j < length ys. ys ! j = (if i \<le> int j \<and> int j < i + int (length xs) then xs ! (j - nat i) else cells m ! j))"
  using assms
proof (induction xs arbitrary: i m)
  case Nil
  then show ?case by (intro exI [of _ "cells m"]) auto
next
  case (Cons x xs)
  let ?m = "with_cells m ((cells m)[nat i := x])"
  obtain ys where ys: "write_range xs (i + 1) ?m = Some (with_cells ?m ys)" "length ys = length (cells ?m)"
    "\<forall>j < length ys. ys ! j = (if i + 1 \<le> int j \<and> int j < i + 1 + int (length xs)
        then xs ! (j - nat (i + 1)) else cells ?m ! j)"
    using Cons.IH [of "i + 1" ?m] Cons.prems by auto
  have "ys ! j = (if i \<le> int j \<and> int j < i + int (length (x # xs)) then (x # xs) ! (j - nat i) else cells m ! j)"
    if j: "j < length ys" for j
  proof (cases "int j = i")
    case True
    then have "j = nat i" by simp
    with ys(2,3) j True show ?thesis by simp
  next
    case False
    have "j - nat i = Suc (j - nat (i + 1))" if "i + 1 \<le> int j" using that Cons.prems(1) by (simp add: nat_add_distrib)
    moreover have "nat i \<noteq> j" using False Cons.prems(1) by auto
    ultimately show ?thesis using ys(2,3) j False by auto
  qed
  then show ?case using Cons.prems ys(1,2) by (intro exI [of _ ys]) (simp add: st_put_Some)
qed

lemma move_traps_ok:
  "n \<le> length from \<Longrightarrow>
   move_traps n d from to = Some (drop n from, rev (map (shift_trap d) (take n from)) @ to)"
proof (induction n arbitrary: "from" to)
  case (Suc n)
  then obtain t rest where "from = t # rest" by (cases "from") auto
  with Suc show ?case by simp
qed simp

lemma shift_shift: "shift_trap d (shift_trap e t) = shift_trap (e + d) t"
  by (simp add: shift_trap_def)

subsection \<open>Yield\<close>

text \<open>The frame \<open>c\<close> of the generator \<open>ga\<close> runs: its cells, its traps and its target are in range.\<close>

definition gen_frame :: "machine \<Rightarrow> addr \<Rightarrow> generator \<Rightarrow> callinfo \<Rightarrow> int \<Rightarrow> bool" where
  "gen_frame m ga g c target \<longleftrightarrow>
     m_generators m ga = Some g \<and> gn_state g = eRunning \<and> get_ci m = Some c \<and>
     0 \<le> m_stackbase m \<and> m_top m \<le> int (length (cells m)) \<and>
     1 \<le> target \<and> target \<le> m_top m - m_stackbase m \<and>
     0 \<le> ci_etraps c \<and> ci_etraps c \<le> int (length (m_etraps m))"

text \<open>What a suspended generator keeps of the frame, cell by cell.\<close>

definition kept_cell :: "machine \<Rightarrow> generator \<Rightarrow> int \<Rightarrow> nat \<Rightarrow> sqobject" where
  "kept_cell m g target k =
     (if int k < target then cells m ! (nat (m_stackbase m) + k)
      else if k < length (gn_stack g) then gn_stack g ! k else ONull)"

definition kept_this :: "mach_par \<Rightarrow> machine \<Rightarrow> sqobject \<Rightarrow> sqobject" where
  "kept_this par m x = (if ISREFCOUNTED (sq_type x) then OWeakRef (mp_new par m) else x)"

lemma Yield_ok:
  assumes f: "gen_frame m ga g c target"
  defines "n \<equiv> nat (m_top m - m_stackbase m)"
  shows "\<exists>m1 g1. Yield par ga target m = Some (m1, True) \<and> m_generators m1 ga = Some g1 \<and>
     gn_state g1 = eSuspended \<and> gn_ci g1 = c\<lparr> ci_generator := None \<rparr> \<and> length (gn_stack g1) = n \<and>
     gn_stack g1 ! 0 = kept_this par m (cells m ! nat (m_stackbase m)) \<and>
     (\<forall>k. 0 < k \<longrightarrow> k < n \<longrightarrow> gn_stack g1 ! k = kept_cell m g target k) \<and>
     gn_etraps g1 = rev (map (shift_trap (- m_stackbase m)) (take (nat (ci_etraps c)) (m_etraps m))) @ gn_etraps g \<and>
     m_etraps m1 = drop (nat (ci_etraps c)) (m_etraps m) \<and>
     length (cells m1) = length (cells m) \<and>
     (\<forall>j < length (cells m). cells m1 ! j =
        (if m_stackbase m \<le> int j \<and> int j < m_top m then ONull else cells m ! j)) \<and>
     v_weakrefs m1 = (if ISREFCOUNTED (sq_type (cells m ! nat (m_stackbase m)))
        then (v_weakrefs m)(mp_new par m \<mapsto> cells m ! nat (m_stackbase m)) else v_weakrefs m)"
proof -
  have b: "m_generators m ga = Some g" "gn_state g = eRunning" "get_ci m = Some c"
    "0 \<le> m_stackbase m" "m_top m \<le> int (length (cells m))" "1 \<le> target" "target \<le> m_top m - m_stackbase m"
    "0 \<le> ci_etraps c" "ci_etraps c \<le> int (length (m_etraps m))" using f by (auto simp: gen_frame_def)
  let ?b = "m_stackbase m" let ?self = "cells m ! nat (m_stackbase m)" let ?k = "nat (ci_etraps c)"
  have self: "STK m 0 = Some ?self" using b by (simp add: STK_def st_get_Some)
  obtain m0 w where mw: "(if ISREFCOUNTED (sq_type ?self) then GetWeakRef par m ?self else (m, ?self)) = (m0, w)" by fastforce
  have w: "w = kept_this par m ?self" using mw by (auto simp: kept_this_def GetWeakRef_def Let_def split: if_splits)
  have m0: "m_stack m0 = m_stack m" "m_etraps m0 = m_etraps m" "m_generators m0 = m_generators m"
    "v_weakrefs m0 = (if ISREFCOUNTED (sq_type ?self) then (v_weakrefs m)(mp_new par m \<mapsto> ?self) else v_weakrefs m)"
    using mw by (auto simp: GetWeakRef_def Let_def split: if_splits)
  let ?xs = "map (\<lambda>k. cells m ! nat (?b + 1 + int k)) [0..<nat (target - 1)]"
  have xs: "read_range (nat (target - 1)) (?b + 1) m0 = Some ?xs"
    using read_range_ok [of "?b + 1" "nat (target - 1)" m0] b m0(1) by simp
  let ?stk0 = "take n (gn_stack g @ replicate (n - length (gn_stack g)) ONull)"
  have len0: "length ?stk0 = n" by simp
  have lenf: "length (w # ?xs) = nat target" using b by simp
  have tn: "nat target \<le> n" using b by (simp add: n_def)
  have "?b + int n \<le> int (length (cells m0))" using b m0(1) by (simp add: n_def)
  from null_range_ok [OF b(4) this] obtain ys where ys: "null_range n ?b m0 = Some (with_cells m0 ys)"
    "length ys = length (cells m0)"
    "\<forall>j < length ys. ys ! j = (if ?b \<le> int j \<and> int j < ?b + int n then ONull else cells m0 ! j)" by blast
  let ?gt = "rev (map (shift_trap (- ?b)) (take ?k (m_etraps m))) @ gn_etraps g"
  have mt: "move_traps ?k (- ?b) (m_etraps m) (gn_etraps g) = Some (drop ?k (m_etraps m), ?gt)"
    using b by (intro move_traps_ok) simp
  define F where "F = w # ?xs"
  define D where "D = drop (nat target) ?stk0"
  have lenF: "length F = nat target" using lenf by (simp add: F_def)
  let ?g1 = "g\<lparr> gn_stack := F @ D, gn_ci := c\<lparr> ci_generator := None \<rparr>,
      gn_etraps := ?gt, gn_state := eSuspended \<rparr>"
  let ?m1 = "put_gen ga ?g1 ((with_cells m0 ys)\<lparr> m_etraps := drop ?k (m_etraps m) \<rparr>)"
  have st: "gn_state g \<noteq> eSuspended" "gn_state g \<noteq> eDead" using b(2) by simp_all
  have "Yield par ga target m = Some (?m1, True)"
    unfolding Yield_def Let_def n_def [symmetric]
    using b(1,3,7) st self mw xs ys(1) mt tn lenf len0 by (simp add: m0(2) n_def F_def D_def)
  moreover have "gn_stack ?g1 ! k = kept_cell m g target k" if k: "0 < k" "k < n" for k
  proof (cases "int k < target")
    case True
    then have "k < nat target" by simp
    then have "gn_stack ?g1 ! k = F ! k" using lenF by (simp add: nth_append)
    also have "\<dots> = cells m ! nat (?b + 1 + int (k - 1))"
    proof -
      have "k - 1 < nat (target - 1)" using k True by simp
      then have "?xs ! (k - 1) = cells m ! nat (?b + 1 + int (k - 1))" by (simp del: One_nat_def)
      then show ?thesis using k by (simp add: nth_Cons' F_def)
    qed
    also have "nat (?b + 1 + int (k - 1)) = nat ?b + k" using k b(4) by (simp add: nat_add_distrib of_nat_diff)
    finally show ?thesis using True by (simp add: kept_cell_def)
  next
    case False
    then have "\<not> k < nat target" by simp
    then have "gn_stack ?g1 ! k = D ! (k - nat target)" using lenF by (simp add: nth_append)
    also have "\<dots> = ?stk0 ! (nat target + (k - nat target))" unfolding D_def by (rule nth_drop) (use tn len0 in simp)
    also have "nat target + (k - nat target) = k" using False by simp
    also have "?stk0 ! k = kept_cell m g target k" using k False by (simp add: kept_cell_def nth_append)
    finally show ?thesis .
  qed
  moreover have "cells ?m1 ! j = (if ?b \<le> int j \<and> int j < m_top m then ONull else cells m ! j)"
    if "j < length (cells m)" for j
    using ys(2,3) that b m0(1) by (simp add: put_gen_def n_def)
  moreover have "length D = n - nat target" unfolding D_def length_drop len0 ..
  then have "length (gn_stack ?g1) = n" using lenF tn by simp
  moreover have "gn_stack ?g1 ! 0 = w" using lenF b(6) by (simp add: F_def)
  ultimately show ?thesis
    using w m0 ys(2) by (intro exI [of _ ?m1] exI [of _ ?g1]) (simp add: put_gen_def)
qed

subsection \<open>Resume\<close>

lemma Resume_ok:
  assumes sim: "scopes_sim m s" and g: "m_generators m ga = Some g" "gn_state g = eSuspended" "gn_stack g \<noteq> []"
    and top: "m_top m + int (length (gn_stack g)) < MAX_TOP" and tgt: "0 \<le> tgt" "tgt \<le> 255"
    and traps: "nat (ci_etraps (gn_ci g)) \<le> length (gn_etraps g)"
  shows "\<exists>m3 g3 c. Resume par ga tgt m = Some (m3, True) \<and>
     m_stackbase m3 = m_top m \<and> m_top m3 = m_top m + int (length (gn_stack g)) \<and>
     st_get m3 (m_top m) = Some (realval (deref m) (hd (gn_stack g))) \<and>
     (\<forall>k. 0 < k \<longrightarrow> k < length (gn_stack g) \<longrightarrow> st_get m3 (m_top m + int k) = Some (gn_stack g ! k)) \<and>
     m_calls m3 = m_calls m @ [c] \<and> ci_ip c = ci_ip (gn_ci g) \<and> ci_literals c = ci_literals (gn_ci g) \<and>
     ci_closure c = ci_closure (gn_ci g) \<and> ci_etraps c = ci_etraps (gn_ci g) \<and> ci_root c = ci_root (gn_ci g) \<and>
     ci_ncalls c = ci_ncalls (gn_ci g) \<and> ci_generator c = Some ga \<and> ci_target c = tgt \<and>
     m_etraps m3 = rev (map (shift_trap (m_top m)) (take (nat (ci_etraps (gn_ci g))) (gn_etraps g))) @ m_etraps m \<and>
     m_generators m3 ga = Some g3 \<and> gn_state g3 = eRunning \<and>
     gn_etraps g3 = drop (nat (ci_etraps (gn_ci g))) (gn_etraps g)"
proof -
  let ?n = "int (length (gn_stack g))" let ?nb = "m_top m" let ?k = "nat (ci_etraps (gn_ci g))"
  have top0: "0 \<le> ?nb" using sim_bounds(1) [OF sim] sim by (simp add: scopes_sim_def)
  have ok: "op_ok (Enter ?nb (?nb + ?n)) s" using top0 top by simp
  obtain m1 where m1: "EnterFrame ?nb (?nb + ?n) False m = Some (m1, True)"
    "scopes_sim m1 (fst (spec_step (Enter ?nb (?nb + ?n)) s))" "m_calls m1 = m_calls (push_frame ?nb m)"
    "m_generators m1 = m_generators m" "m_etraps m1 = m_etraps m" "v_weakrefs m1 = v_weakrefs m"
    using sim_enter [OF sim ok] by blast
  have bt: "m_stackbase m1 = ?nb" "m_top m1 = ?nb + ?n" using m1(2) by (simp_all add: scopes_sim_def)
  have size: "?nb + ?n \<le> int (length (cells m1))"
    using sim_bounds(2) [OF m1(2)] by (simp add: MIN_STACK_OVERHEAD_def)
  obtain c0 where calls: "m_calls m1 = m_calls m @ [c0]"
    using m1(3) by (auto simp: push_frame_def GrowCallStack_def Let_def)
  have t32: "int32 tgt = tgt" unfolding int32_def using tgt by (intro signed_take_bit_int_eq_self) auto
  let ?gc = "gn_ci g"
  let ?c = "c0\<lparr> ci_generator := Some ga, ci_target := int32 tgt, ci_closure := ci_closure ?gc,
      ci_ip := ci_ip ?gc, ci_literals := ci_literals ?gc, ci_ncalls := ci_ncalls ?gc,
      ci_etraps := ci_etraps ?gc, ci_root := ci_root ?gc \<rparr>"
  let ?m2 = "m1\<lparr> m_calls := m_calls m @ [?c] \<rparr>"
  let ?vt = "rev (map (shift_trap ?nb) (take ?k (gn_etraps g))) @ m_etraps m"
  let ?v = "realval (deref m) (hd (gn_stack g))"
  have deref: "deref ?m2 = deref m" by (simp add: deref_def m1(6) fun_eq_iff)
  have mt: "move_traps ?k ?nb (gn_etraps g) (m_etraps ?m2) = Some (drop ?k (gn_etraps g), ?vt)"
    using move_traps_ok [OF traps] m1(5) by simp
  let ?m2' = "?m2\<lparr> m_etraps := ?vt \<rparr>"
  have lenw: "int (length (?v # tl (gn_stack g))) = ?n" using g(3) by simp
  then have "?nb + int (length (?v # tl (gn_stack g))) \<le> int (length (cells ?m2'))" using size by simp
  from write_range_ok [OF top0 this] obtain ys where
    ys: "write_range (?v # tl (gn_stack g)) ?nb ?m2' = Some (with_cells ?m2' ys)" "length ys = length (cells ?m2')"
    "\<forall>j < length ys. ys ! j = (if ?nb \<le> int j \<and> int j < ?nb + int (length (?v # tl (gn_stack g)))
       then (?v # tl (gn_stack g)) ! (j - nat ?nb) else cells ?m2' ! j)" by blast
  let ?g3 = "g\<lparr> gn_stack := hd (gn_stack g) # replicate (length (gn_stack g) - 1) ONull,
      gn_etraps := drop ?k (gn_etraps g), gn_state := eRunning \<rparr>"
  let ?m3 = "put_gen ga ?g3 (with_cells ?m2' ys)"
  have run: "Resume par ga tgt m = Some (?m3, True)"
  proof -
    have set: "set_ci (\<lambda>c. c\<lparr> ci_generator := Some ga, ci_target := int32 tgt, ci_closure := ci_closure ?gc,
        ci_ip := ci_ip ?gc, ci_literals := ci_literals ?gc, ci_ncalls := ci_ncalls ?gc,
        ci_etraps := ci_etraps ?gc, ci_root := ci_root ?gc \<rparr>) m1 = Some ?m2"
      by (simp add: set_ci_def calls)
    have st: "gn_state g \<noteq> eDead" "gn_state g \<noteq> eRunning" "\<not> (tgt < 0 \<or> tgt > 255)" using g(2) tgt by simp_all
    show ?thesis
      unfolding Resume_def Let_def using g(1,3) st m1(1) set mt ys(1) by (simp add: deref del: write_range.simps)
  qed
  have cell: "st_get ?m3 (?nb + int k) = Some ((?v # tl (gn_stack g)) ! k)" if "k < length (gn_stack g)" for k
  proof -
    have "nat (?nb + int k) = nat ?nb + k" using top0 by (simp add: nat_add_distrib)
    moreover have "?nb + int k < int (length (cells ?m3))" using that size ys(2) by (simp add: put_gen_def)
    moreover have "ys ! (nat ?nb + k) = (?v # tl (gn_stack g)) ! k"
      using ys(2,3) that size top0 lenw by simp
    ultimately show ?thesis using top0 by (simp add: st_get_Some put_gen_def)
  qed
  have "(?v # tl (gn_stack g)) ! k = gn_stack g ! k" if "0 < k" "k < length (gn_stack g)" for k
    using that by (simp add: nth_Cons' nth_tl)
  with cell have cells: "\<forall>k. 0 < k \<longrightarrow> k < length (gn_stack g) \<longrightarrow> st_get ?m3 (?nb + int k) = Some (gn_stack g ! k)" by simp
  have cell0: "st_get ?m3 ?nb = Some ?v" using cell [of 0] g(3) by simp
  show ?thesis
    using run cells cell0 bt t32 by (intro exI [of _ ?m3] exI [of _ ?g3] exI [of _ ?c]) (simp add: put_gen_def)
qed

subsection \<open>A generator goes on where it stopped\<close>

text \<open>Everything a resumed frame needs: its cells at the new base, its position and its traps.\<close>

definition frame_restored ::
  "machine \<Rightarrow> callinfo \<Rightarrow> generator \<Rightarrow> int \<Rightarrow> machine \<Rightarrow> addr \<Rightarrow> int \<Rightarrow> machine \<Rightarrow> bool" where
  "frame_restored m c g target m2 ga tgt m3 \<longleftrightarrow>
     m_stackbase m3 = m_top m2 \<and> m_top m3 - m_stackbase m3 = m_top m - m_stackbase m \<and>
     (\<forall>k. int k < target \<longrightarrow> STK m3 (int k) = Some (cells m ! (nat (m_stackbase m) + k))) \<and>
     (\<exists>c3. m_calls m3 = m_calls m2 @ [c3] \<and> ci_ip c3 = ci_ip c \<and> ci_literals c3 = ci_literals c \<and>
        ci_closure c3 = ci_closure c \<and> ci_etraps c3 = ci_etraps c \<and> ci_root c3 = ci_root c \<and>
        ci_generator c3 = Some ga \<and> ci_target c3 = tgt) \<and>
     m_etraps m3 = map (shift_trap (m_top m2 - m_stackbase m)) (take (nat (ci_etraps c)) (m_etraps m)) @ m_etraps m2 \<and>
     (\<exists>g3. m_generators m3 ga = Some g3 \<and> gn_state g3 = eRunning \<and> gn_etraps g3 = gn_etraps g)"

text \<open>
  C30. A generator goes on where it stopped.  When the frame of a running generator yields, its cells
  are nulled, its exception traps leave the stack of traps and the generator is suspended; resuming it
  on any later machine, at any height of the stack, restores its registers below \<open>target\<close> (the
  environment object through its weak reference), its instruction, literals and closure, and its
  traps, moved to the new base in their order, and the generator runs again.  Yielding a generator
  that is not running, and resuming one that is not suspended, is an error that changes nothing.
\<close>

theorem generator_goes_on:
  assumes frame: "gen_frame m ga g c target"
  shows "\<exists>m1. Yield par ga target m = Some (m1, True) \<and>
     (\<forall>j < length (cells m). m_stackbase m \<le> int j \<longrightarrow> int j < m_top m \<longrightarrow> cells m1 ! j = ONull) \<and>
     m_etraps m1 = drop (nat (ci_etraps c)) (m_etraps m) \<and>
     (\<forall>m2 s2 tgt. scopes_sim m2 s2 \<longrightarrow> m_generators m2 ga = m_generators m1 ga \<longrightarrow>
        (\<forall>a x. v_weakrefs m1 a = Some x \<longrightarrow> v_weakrefs m2 a = Some x) \<longrightarrow>
        m_top m2 + (m_top m - m_stackbase m) < MAX_TOP \<longrightarrow> 0 \<le> tgt \<longrightarrow> tgt \<le> 255 \<longrightarrow>
        (\<exists>m3. Resume par ga tgt m2 = Some (m3, True) \<and> frame_restored m c g target m2 ga tgt m3)) \<and>
     (\<exists>m4. Yield par ga target m1 = Some (m4, False) \<and> m4 = m1\<lparr> v_lasterror := v_lasterror m4 \<rparr>) \<and>
     (\<exists>m5. Resume par ga target m = Some (m5, False) \<and> m5 = m\<lparr> v_lasterror := v_lasterror m5 \<rparr>)"
proof -
  let ?n = "nat (m_top m - m_stackbase m)" let ?b = "m_stackbase m" let ?k = "nat (ci_etraps c)"
  let ?self = "cells m ! nat ?b"
  obtain m1 g1 where y: "Yield par ga target m = Some (m1, True)" "m_generators m1 ga = Some g1"
    "gn_state g1 = eSuspended" "gn_ci g1 = c\<lparr> ci_generator := None \<rparr>" "length (gn_stack g1) = ?n"
    "gn_stack g1 ! 0 = kept_this par m ?self"
    "\<forall>k. 0 < k \<longrightarrow> k < ?n \<longrightarrow> gn_stack g1 ! k = kept_cell m g target k"
    "gn_etraps g1 = rev (map (shift_trap (- ?b)) (take ?k (m_etraps m))) @ gn_etraps g"
    "m_etraps m1 = drop ?k (m_etraps m)"
    "\<forall>j < length (cells m). cells m1 ! j = (if ?b \<le> int j \<and> int j < m_top m then ONull else cells m ! j)"
    "v_weakrefs m1 = (if ISREFCOUNTED (sq_type ?self) then (v_weakrefs m)(mp_new par m \<mapsto> ?self) else v_weakrefs m)"
    using Yield_ok [OF frame, of par] by blast
  have b: "m_generators m ga = Some g" "gn_state g = eRunning" "1 \<le> target" "target \<le> m_top m - ?b"
    "0 \<le> ci_etraps c" "ci_etraps c \<le> int (length (m_etraps m))" "0 \<le> ?b" using frame by (auto simp: gen_frame_def)
  have ne: "gn_stack g1 \<noteq> []" using y(5) b by (intro notI) simp
  have resume: "\<exists>m3. Resume par ga tgt m2 = Some (m3, True) \<and> frame_restored m c g target m2 ga tgt m3"
    if sim: "scopes_sim m2 s2" and gen: "m_generators m2 ga = m_generators m1 ga"
      and weak: "\<forall>a x. v_weakrefs m1 a = Some x \<longrightarrow> v_weakrefs m2 a = Some x"
      and top: "m_top m2 + (m_top m - ?b) < MAX_TOP" and tgt: "0 \<le> tgt" "tgt \<le> 255" for m2 s2 tgt
  proof -
    have top2: "m_top m2 + int (length (gn_stack g1)) < MAX_TOP" using top y(5) b by simp
    have tr: "nat (ci_etraps (gn_ci g1)) \<le> length (gn_etraps g1)" using y(4,8) b by simp
    have g2: "m_generators m2 ga = Some g1" using gen y(2) by simp
    from Resume_ok [OF sim g2 y(3) ne top2 tgt tr, of par] obtain m3 g3 c3 where r:
      "Resume par ga tgt m2 = Some (m3, True)" "m_stackbase m3 = m_top m2"
      "m_top m3 = m_top m2 + int (length (gn_stack g1))"
      "st_get m3 (m_top m2) = Some (realval (deref m2) (hd (gn_stack g1)))"
      "\<forall>k. 0 < k \<longrightarrow> k < length (gn_stack g1) \<longrightarrow> st_get m3 (m_top m2 + int k) = Some (gn_stack g1 ! k)"
      "m_calls m3 = m_calls m2 @ [c3]" "ci_ip c3 = ci_ip (gn_ci g1)" "ci_literals c3 = ci_literals (gn_ci g1)"
      "ci_closure c3 = ci_closure (gn_ci g1)" "ci_etraps c3 = ci_etraps (gn_ci g1)" "ci_root c3 = ci_root (gn_ci g1)"
      "ci_generator c3 = Some ga" "ci_target c3 = tgt"
      "m_etraps m3 = rev (map (shift_trap (m_top m2)) (take (nat (ci_etraps (gn_ci g1))) (gn_etraps g1))) @ m_etraps m2"
      "m_generators m3 ga = Some g3" "gn_state g3 = eRunning"
      "gn_etraps g3 = drop (nat (ci_etraps (gn_ci g1))) (gn_etraps g1)" by blast
    have self: "realval (deref m2) (hd (gn_stack g1)) = ?self"
    proof (cases "ISREFCOUNTED (sq_type ?self)")
      case True
      then have "v_weakrefs m2 (mp_new par m) = Some ?self" using weak y(11) by simp
      then show ?thesis using True y(6) ne by (simp add: hd_conv_nth kept_this_def realval_def deref_def)
    next
      case False
      then have "\<forall>a. ?self \<noteq> OWeakRef a" by (auto simp: ISREFCOUNTED_def SQOBJECT_REF_COUNTED_def)
      then show ?thesis using False y(6) ne
        by (cases ?self) (simp_all add: hd_conv_nth kept_this_def realval_def)
    qed
    have regs: "STK m3 (int k) = Some (cells m ! (nat ?b + k))" if "int k < target" for k
    proof (cases "k = 0")
      case True
      then show ?thesis using r(2,4) self by (simp add: STK_def)
    next
      case False
      then have "k < ?n" using that b by simp
      then show ?thesis using False that r(2,5) y(5,7) by (simp add: STK_def kept_cell_def)
    qed
    have len: "?k = length (rev (map (shift_trap (- ?b)) (take ?k (m_etraps m))))" using b by simp
    have shift: "rev (map (shift_trap (m_top m2)) (take ?k (gn_etraps g1))) =
        map (shift_trap (m_top m2 - ?b)) (take ?k (m_etraps m))"
    proof -
      have "take ?k (gn_etraps g1) = rev (map (shift_trap (- ?b)) (take ?k (m_etraps m)))"
        unfolding y(8) using len by simp
      then show ?thesis by (simp add: rev_map [symmetric] shift_shift)
    qed
    have "drop ?k (gn_etraps g1) = gn_etraps g" unfolding y(8) using len by simp
    with r regs shift y(4,5) b show ?thesis by (auto simp: frame_restored_def)
  qed
  have again: "\<exists>m4. Yield par ga target m1 = Some (m4, False) \<and> m4 = m1\<lparr> v_lasterror := v_lasterror m4 \<rparr>"
    using y(2,3) by (simp add: Yield_def Raise_Error_def)
  have running: "\<exists>m5. Resume par ga target m = Some (m5, False) \<and> m5 = m\<lparr> v_lasterror := v_lasterror m5 \<rparr>"
    using b(1,2) by (simp add: Resume_def Raise_Error_def)
  from y(1,9,10) resume again running show ?thesis by auto
qed

text \<open>A generator with a handler yields at base 8 and goes on at base 20 of a longer stack.\<close>

definition yielding_machine :: machine where
  "yielding_machine = throwing_machine\<lparr>
     m_stack := \<lparr> vals = (replicate 40 ONull)[9 := OInteger 4], allocated = 40 \<rparr>,
     m_etraps := [\<lparr> et_stackbase = 8, et_stacksize = 12, et_ip = 30, et_extarget = 2 \<rparr>],
     m_calls := [generator_frame\<lparr> ci_ip := 6, ci_generator := Some 77, ci_etraps := 1 \<rparr>] \<rparr>"

definition resting_machine :: machine where
  "resting_machine = empty_machine\<lparr>
     m_stack := \<lparr> vals = replicate 60 ONull, allocated = 60 \<rparr>, m_stackbase := 3, m_top := 20 \<rparr>"

theorem generator_goes_on_witness:
  "\<forall>par. \<exists>m1 m3. Yield par 77 3 yielding_machine = Some (m1, True) \<and>
     Resume par 77 5 (resting_machine\<lparr> m_generators := m_generators m1, v_weakrefs := v_weakrefs m1 \<rparr>) = Some (m3, True) \<and>
     m_stackbase m3 = 20 \<and> m_top m3 = 24 \<and> STK m3 1 = Some (OInteger 4) \<and>
     map ci_ip (m_calls m3) = [6] \<and> map et_stackbase (m_etraps m3) = [20]"
proof
  fix par
  let ?g = "\<lparr> gn_closure = ONull, gn_stack = [ONull], gn_ci = generator_frame, gn_etraps = [], gn_state = eRunning \<rparr>"
  let ?c = "generator_frame\<lparr> ci_ip := 6, ci_generator := Some 77, ci_etraps := 1 \<rparr>"
  have "gen_frame yielding_machine 77 ?g ?c 3"
    by (simp add: gen_frame_def yielding_machine_def throwing_machine_def get_ci_def)
  from generator_goes_on [OF this, of par] obtain m1 where
    m1: "Yield par 77 3 yielding_machine = Some (m1, True)" and
    resume: "\<forall>m2 s2 tgt. scopes_sim m2 s2 \<longrightarrow> m_generators m2 77 = m_generators m1 77 \<longrightarrow>
        (\<forall>a x. v_weakrefs m1 a = Some x \<longrightarrow> v_weakrefs m2 a = Some x) \<longrightarrow>
        m_top m2 + (m_top yielding_machine - m_stackbase yielding_machine) < MAX_TOP \<longrightarrow> 0 \<le> tgt \<longrightarrow> tgt \<le> 255 \<longrightarrow>
        (\<exists>m3. Resume par 77 tgt m2 = Some (m3, True) \<and> frame_restored yielding_machine ?c ?g 3 m2 77 tgt m3)" by blast
  let ?m2 = "resting_machine\<lparr> m_generators := m_generators m1, v_weakrefs := v_weakrefs m1 \<rparr>"
  have "scopes_sim resting_machine (no_scopes\<lparr> sc_base := 3, sc_top := 20 \<rparr>)"
    by (simp add: scopes_sim_def resting_machine_def empty_machine_def no_scopes_def
        cells_rel_def vars_rel_def open_rel_def sc_loc_def MAX_TOP_def MIN_STACK_OVERHEAD_def)
  moreover have "scopes_sim ?m2 s = scopes_sim resting_machine s" for s by (rule scopes_sim_cong) simp_all
  ultimately have "scopes_sim ?m2 (no_scopes\<lparr> sc_base := 3, sc_top := 20 \<rparr>)" by simp
  moreover have "m_top ?m2 + (m_top yielding_machine - m_stackbase yielding_machine) < MAX_TOP"
    by (simp add: yielding_machine_def throwing_machine_def resting_machine_def MAX_TOP_def)
  ultimately obtain m3 where "Resume par 77 5 ?m2 = Some (m3, True)"
    and r: "frame_restored yielding_machine ?c ?g 3 ?m2 77 5 m3"
    using resume [rule_format, of ?m2 "no_scopes\<lparr> sc_base := 3, sc_top := 20 \<rparr>" 5] by auto
  moreover have "m_stackbase m3 = 20" "m_top m3 = 24" "map ci_ip (m_calls m3) = [6]" "map et_stackbase (m_etraps m3) = [20]"
    using r by (auto simp: frame_restored_def resting_machine_def yielding_machine_def throwing_machine_def
        empty_machine_def shift_trap_def generator_frame_def)
  moreover have "STK m3 1 = Some (OInteger 4)"
  proof -
    have "STK m3 (int 1) = Some (cells yielding_machine ! (nat (m_stackbase yielding_machine) + 1))"
      using r unfolding frame_restored_def by (metis of_nat_1 one_less_numeral_iff semiring_norm(77))
    then show ?thesis by (simp add: yielding_machine_def throwing_machine_def)
  qed
  ultimately show "\<exists>m1 m3. Yield par 77 3 yielding_machine = Some (m1, True) \<and>
     Resume par 77 5 (resting_machine\<lparr> m_generators := m_generators m1, v_weakrefs := v_weakrefs m1 \<rparr>) = Some (m3, True) \<and>
     m_stackbase m3 = 20 \<and> m_top m3 = 24 \<and> STK m3 1 = Some (OInteger 4) \<and>
     map ci_ip (m_calls m3) = [6] \<and> map et_stackbase (m_etraps m3) = [20]"
    using m1 by (intro exI [of _ m1] exI [of _ m3] conjI)
qed

end
