(* ===== verification/Sq_API.thy ===== *)
theory Sq_API
  imports Sq_Execute
begin

text \<open>
  The stack interface of \<^verbatim>\<open>sqapi.cpp\<close>: what host code does with the machine.

  A function returns the machine and \<^verbatim>\<open>SQ_OK\<close> or \<^verbatim>\<open>SQ_ERROR\<close>; a value passed back
  through a pointer is an extra component.  \<open>None\<close> is an access outside the stack, a failed
  \<^verbatim>\<open>assert\<close> or a dangling pointer.  \<^verbatim>\<open>sq_call\<close> runs the callee through the call parameter
  \<open>vp_call\<close> with the index \<open>MT_LAST\<close>, as the error handler is called.
\<close>

type_synonym api = "(machine \<times> int) option"

definition SQ_OK :: int where "SQ_OK = 0"
definition SQ_ERROR :: int where "SQ_ERROR = -1"

subsection \<open>Errors and checks\<close>

definition sq_throwerror :: "machine \<Rightarrow> string \<Rightarrow> api" where
  "sq_throwerror m err = Some (m\<lparr> v_lasterror := ErrText (bytes_of err) \<rparr>, SQ_ERROR)"

definition wrong_argument :: "mach_par \<Rightarrow> machine \<Rightarrow> sqobjtype \<Rightarrow> sqobject \<Rightarrow> machine" where
  "wrong_argument par m ty ob =
     raise_text m 46
       (bytes_of ''wrong argument type, expected '' @ quoted (bytes_of (IdType2Name ty)) @ bytes_of '' got '' @
        quoted (fmt50s (PrintObjVal (mops par) m ob)))"

text \<open>\<^verbatim>\<open>_GETSAFE_OBJ\<close>: the rest of the function gets the object at the index when it has the type.\<close>

definition GETSAFE_OBJ ::
  "mach_par \<Rightarrow> machine \<Rightarrow> int \<Rightarrow> sqobjtype \<Rightarrow> (sqobject \<Rightarrow> api) \<Rightarrow> api" where
  "GETSAFE_OBJ par m idx ty k = do {
     o1 \<leftarrow> stack_get m idx;
     if sq_type o1 \<noteq> ty then Some (wrong_argument par m ty o1, SQ_ERROR) else k o1 }"

definition sq_gettop :: "machine \<Rightarrow> int" where
  "sq_gettop m = m_top m - m_stackbase m"

definition sq_aux_paramscheck :: "machine \<Rightarrow> int \<Rightarrow> api \<Rightarrow> api" where
  "sq_aux_paramscheck m count k =
     (if sq_gettop m < count then Some (Raise_Error m (bytes_of ''not enough params in the stack'') [], SQ_ERROR) else k)"

definition sq_aux_invalidtype :: "machine \<Rightarrow> sqobjtype \<Rightarrow> api" where
  "sq_aux_invalidtype m ty = sq_throwerror m (''unexpected type '' @ IdType2Name ty)"

text \<open>A function that ends with \<^verbatim>\<open>SQ_OK\<close>.\<close>

definition api_ok :: "machine option \<Rightarrow> api" where
  "api_ok m = map_option (\<lambda>m1. (m1, SQ_OK)) m"

subsection \<open>The stack\<close>

definition sq_pop :: "machine \<Rightarrow> int \<Rightarrow> machine option" where
  "sq_pop m n = (if m_top m \<ge> n then vm_PopN (nat n) m else None)"

definition sq_poptop :: "machine \<Rightarrow> machine option" where
  "sq_poptop m = (if m_top m \<ge> 1 then vm_Pop m else None)"

primrec push_nulls :: "nat \<Rightarrow> machine \<Rightarrow> machine option" where
  "push_nulls 0 m = Some m"
| "push_nulls (Suc n) m = do { m1 \<leftarrow> PushNull m; push_nulls n m1 }"

definition sq_settop :: "machine \<Rightarrow> int \<Rightarrow> machine option" where
  "sq_settop m newtop =
     (let top = sq_gettop m in
      if top > newtop then sq_pop m (top - newtop) else push_nulls (nat (newtop - top)) m)"

definition sq_remove :: "machine \<Rightarrow> int \<Rightarrow> machine option" where
  "sq_remove m idx = vm_Remove idx m"

definition sq_push :: "machine \<Rightarrow> int \<Rightarrow> machine option" where
  "sq_push m idx = do { x \<leftarrow> stack_get m idx; Push m x }"

definition sq_gettype :: "machine \<Rightarrow> int \<Rightarrow> sqobjtype option" where
  "sq_gettype m idx = map_option sq_type (stack_get m idx)"

text \<open>\<^verbatim>\<open>sq_reservestack\<close>: unlike \<^verbatim>\<open>EnterFrame\<close> it does not relocate the open outers.\<close>

definition sq_reservestack :: "machine \<Rightarrow> int \<Rightarrow> api" where
  "sq_reservestack m nsize =
     (if m_top m + nsize > int (vsize (m_stack m)) then
        (if m_nmetamethodscall m \<noteq> 0 then sq_throwerror m ''cannot resize stack while in a metamethod''
         else Some (stack_resize m (m_top m + nsize), SQ_OK))
      else Some (m, SQ_OK))"

subsection \<open>Pushing values\<close>

definition sq_pushnull :: "machine \<Rightarrow> machine option" where
  "sq_pushnull m = PushNull m"

definition mk_string :: "mach_par \<Rightarrow> sqchar list \<Rightarrow> machine \<Rightarrow> machine \<times> sqobject" where
  "mk_string par s m = (let (m1, a) = vp_mkstr (mp_vm par) s m in (m1, OString a))"

definition sq_pushstring :: "mach_par \<Rightarrow> sqchar list option \<Rightarrow> machine \<Rightarrow> machine option" where
  "sq_pushstring par s m = (case s of
     Some t \<Rightarrow> (let (m1, x) = mk_string par t m in Push m1 x)
   | None \<Rightarrow> PushNull m)"

definition sq_pushinteger :: "machine \<Rightarrow> sqint \<Rightarrow> machine option" where
  "sq_pushinteger m n = Push m (OInteger n)"

definition sq_pushbool :: "machine \<Rightarrow> sqint \<Rightarrow> machine option" where
  "sq_pushbool m b = Push m (OBool (b \<noteq> 0))"

definition sq_pushfloat :: "machine \<Rightarrow> sqfloat \<Rightarrow> machine option" where
  "sq_pushfloat m n = Push m (OFloat n)"

definition sq_pushuserpointer :: "machine \<Rightarrow> 64 word \<Rightarrow> machine option" where
  "sq_pushuserpointer m p = Push m (OUserPointer p)"

definition sq_pushroottable :: "machine \<Rightarrow> machine option" where
  "sq_pushroottable m = Push m (m_roottable m)"

definition sq_pushregistrytable :: "machine \<Rightarrow> machine option" where
  "sq_pushregistrytable m = Push m (m_registry m)"

definition sq_pushconsttable :: "machine \<Rightarrow> machine option" where
  "sq_pushconsttable m = Push m (m_consts m)"

definition sq_pushobject :: "machine \<Rightarrow> sqobject \<Rightarrow> machine option" where
  "sq_pushobject m ob = Push m ob"

definition new_array :: "mach_par \<Rightarrow> sqarray \<Rightarrow> machine \<Rightarrow> machine \<times> sqobject" where
  "new_array par a m = (m\<lparr> v_arrays := (v_arrays m)(mp_new par m \<mapsto> a) \<rparr>, OArray (mp_new par m))"

definition new_table :: "mach_par \<Rightarrow> sqtable \<Rightarrow> machine \<Rightarrow> machine \<times> sqobject" where
  "new_table par t m = (m\<lparr> v_tables := (v_tables m)(mp_new par m \<mapsto> t) \<rparr>, OTable (mp_new par m))"

definition sq_newtable :: "mach_par \<Rightarrow> machine \<Rightarrow> machine option" where
  "sq_newtable par m = (let (m1, x) = new_table par (SQTable_new 0) m in Push m1 x)"

definition sq_newtableex :: "mach_par \<Rightarrow> nat \<Rightarrow> machine \<Rightarrow> machine option" where
  "sq_newtableex par n m = (let (m1, x) = new_table par (SQTable_new n) m in Push m1 x)"

definition sq_newarray :: "mach_par \<Rightarrow> nat \<Rightarrow> machine \<Rightarrow> machine option" where
  "sq_newarray par n m = (let (m1, x) = new_array par (SQArray_new n) m in Push m1 x)"

definition sq_newclass :: "mach_par \<Rightarrow> bool \<Rightarrow> machine \<Rightarrow> api" where
  "sq_newclass par hasbase m =
     (let new = (\<lambda>base. do {
            c \<leftarrow> SQClass_new (class_env_of (mp_vm par) m) base;
            let m1 = m\<lparr> v_classes := (v_classes m)(mp_new par m \<mapsto> c) \<rparr>;
            m2 \<leftarrow> (if base \<noteq> None then vm_Pop m1 else Some m1);
            api_ok (Push m2 (OClass (mp_new par m))) }) in
      if hasbase then do {
        b \<leftarrow> stack_get m (-1);
        case b of
          OClass a \<Rightarrow> do { c \<leftarrow> v_classes m a; new (Some (a, c)) }
        | _ \<Rightarrow> sq_throwerror m ''invalid base type'' }
      else new None)"

text \<open>\<^verbatim>\<open>sq_newclosure\<close>: the free variables are popped, the last pushed first.\<close>

primrec pop_values :: "nat \<Rightarrow> machine \<Rightarrow> (machine \<times> sqobject list) option" where
  "pop_values 0 m = Some (m, [])"
| "pop_values (Suc n) m = do {
     x \<leftarrow> vm_Top m; m1 \<leftarrow> vm_Pop m; (m2, xs) \<leftarrow> pop_values n m1; Some (m2, x # xs) }"

definition sq_newclosure :: "mach_par \<Rightarrow> nat \<Rightarrow> nat \<Rightarrow> machine \<Rightarrow> machine option" where
  "sq_newclosure par func nfreevars m = do {
     (m1, xs) \<leftarrow> pop_values nfreevars m;
     let a = mp_new par m1;
     Push (m1\<lparr> m_natives := (m_natives m1)(a \<mapsto>
       \<lparr> rn_nparamscheck = 0, rn_typecheck = [], rn_outervalues = xs, rn_env = None, rn_function = func,
         rn_name = ONull \<rparr>) \<rparr>) (ONativeClosure a) }"

subsection \<open>Arrays\<close>

definition with_array :: "mach_par \<Rightarrow> machine \<Rightarrow> int \<Rightarrow> (addr \<Rightarrow> sqarray \<Rightarrow> api) \<Rightarrow> api" where
  "with_array par m idx k = GETSAFE_OBJ par m idx OT_ARRAY (\<lambda>x. case x of
     OArray a \<Rightarrow> do { arr \<leftarrow> v_arrays m a; k a arr } | _ \<Rightarrow> None)"

definition put_array :: "machine \<Rightarrow> addr \<Rightarrow> sqarray \<Rightarrow> machine" where
  "put_array m a arr = m\<lparr> v_arrays := (v_arrays m)(a \<mapsto> arr) \<rparr>"

definition sq_arrayappend :: "mach_par \<Rightarrow> machine \<Rightarrow> int \<Rightarrow> api" where
  "sq_arrayappend par m idx =
     sq_aux_paramscheck m 2 (with_array par m idx (\<lambda>a arr. do {
       x \<leftarrow> GetUp m (-1);
       api_ok (vm_Pop (put_array m a (arr_Append arr x))) }))"

definition sq_arraypop :: "mach_par \<Rightarrow> machine \<Rightarrow> int \<Rightarrow> bool \<Rightarrow> api" where
  "sq_arraypop par m idx pushval =
     sq_aux_paramscheck m 1 (with_array par m idx (\<lambda>a arr.
       if arr_Size arr > 0 then do {
         m1 \<leftarrow> (if pushval then do { x \<leftarrow> arr_Top arr; Push m x } else Some m);
         arr1 \<leftarrow> arr_Pop arr;
         Some (put_array m1 a arr1, SQ_OK) }
       else sq_throwerror m ''empty array''))"

definition sq_arrayresize :: "mach_par \<Rightarrow> machine \<Rightarrow> int \<Rightarrow> int \<Rightarrow> api" where
  "sq_arrayresize par m idx newsize =
     sq_aux_paramscheck m 1 (with_array par m idx (\<lambda>a arr.
       if newsize \<ge> 0 then Some (put_array m a (arr_Resize arr (nat newsize) ONull), SQ_OK)
       else sq_throwerror m ''negative size''))"

text \<open>The exchange loop of \<^verbatim>\<open>sq_arrayreverse\<close>: position \<open>i\<close> and its mirror, \<open>n\<close> times.\<close>

primrec swap_ends :: "nat \<Rightarrow> nat \<Rightarrow> 'a list \<Rightarrow> 'a list" where
  "swap_ends 0 i xs = xs"
| "swap_ends (Suc n) i xs =
     (let j = length xs - 1 - i in swap_ends n (Suc i) ((xs[i := xs ! j])[j := xs ! i]))"

definition sq_arrayreverse :: "mach_par \<Rightarrow> machine \<Rightarrow> int \<Rightarrow> api" where
  "sq_arrayreverse par m idx =
     sq_aux_paramscheck m 1 (with_array par m idx (\<lambda>a arr.
       if arr_Size arr > 0 then
         Some (put_array m a (arr\<lparr> vals := swap_ends (arr_Size arr div 2) 0 (vals arr) \<rparr>), SQ_OK)
       else Some (m, SQ_OK)))"

definition sq_arrayremove :: "mach_par \<Rightarrow> machine \<Rightarrow> int \<Rightarrow> sqint \<Rightarrow> api" where
  "sq_arrayremove par m idx itemidx =
     sq_aux_paramscheck m 1 (with_array par m idx (\<lambda>a arr. do {
       (arr1, ok) \<leftarrow> arr_Remove arr itemidx;
       if ok then Some (put_array m a arr1, SQ_OK) else sq_throwerror m ''index out of range'' }))"

definition sq_arrayinsert :: "mach_par \<Rightarrow> machine \<Rightarrow> int \<Rightarrow> sqint \<Rightarrow> api" where
  "sq_arrayinsert par m idx destpos =
     sq_aux_paramscheck m 1 (with_array par m idx (\<lambda>a arr. do {
       x \<leftarrow> GetUp m (-1);
       (arr1, ok) \<leftarrow> arr_Insert arr destpos x;
       (m1, ret) \<leftarrow> (if ok then Some (put_array m a arr1, SQ_OK) else sq_throwerror m ''index out of range'');
       m2 \<leftarrow> vm_Pop m1;
       Some (m2, ret) }))"

definition sq_clear :: "mach_par \<Rightarrow> machine \<Rightarrow> int \<Rightarrow> api" where
  "sq_clear par m idx = do {
     x \<leftarrow> stack_get m idx;
     case x of
       OTable a \<Rightarrow> do {
         t \<leftarrow> v_tables m a;
         t1 \<leftarrow> tbl_Clear (vp_hsh (mp_vm par)) t;
         Some (put_table m a t1, SQ_OK) }
     | OArray a \<Rightarrow> do {
         arr \<leftarrow> v_arrays m a;
         Some (put_array m a (arr_Resize arr 0 ONull), SQ_OK) }
     | _ \<Rightarrow> sq_throwerror m ''clear only works on table and array'' }"

subsection \<open>Reading values\<close>

definition sq_objtointeger :: "sqobject \<Rightarrow> sqint" where
  "sq_objtointeger x = (if sq_isnumeric x then tointeger x else 0)"

definition sq_objtofloat :: "sqobject \<Rightarrow> sqfloat" where
  "sq_objtofloat x = (if sq_isnumeric x then tofloat x else 0)"

definition sq_objtobool :: "sqobject \<Rightarrow> sqint" where
  "sq_objtobool x = (if sq_type x = OT_BOOL then rawval x else 0)"

definition sq_objtouserpointer :: "sqobject \<Rightarrow> 64 word" where
  "sq_objtouserpointer x = (if sq_type x = OT_USERPOINTER then rawval x else 0)"

text \<open>The readers return \<open>None\<close> inside for \<^verbatim>\<open>SQ_ERROR\<close>.\<close>

definition sq_getinteger :: "machine \<Rightarrow> int \<Rightarrow> sqint option option" where
  "sq_getinteger m idx = map_option (\<lambda>x.
     if sq_isnumeric x then Some (tointeger x)
     else if sq_type x = OT_BOOL then Some (if IsFalse x then 0 else 1)
     else if x = ONull then Some 0
     else None) (stack_get m idx)"

definition sq_getfloat :: "machine \<Rightarrow> int \<Rightarrow> sqfloat option option" where
  "sq_getfloat m idx = map_option (\<lambda>x. if sq_isnumeric x then Some (tofloat x) else None) (stack_get m idx)"

definition sq_getbool :: "machine \<Rightarrow> int \<Rightarrow> sqint option option" where
  "sq_getbool m idx = map_option (\<lambda>x. if sq_type x = OT_BOOL then Some (rawval x) else None) (stack_get m idx)"

definition sq_tobool :: "machine \<Rightarrow> int \<Rightarrow> bool option" where
  "sq_tobool m idx = map_option (\<lambda>x. \<not> IsFalse x) (stack_get m idx)"

definition sq_getstring :: "mach_par \<Rightarrow> machine \<Rightarrow> int \<Rightarrow> (machine \<times> sqchar list option) option" where
  "sq_getstring par m idx = do {
     x \<leftarrow> stack_get m idx;
     case x of
       OString a \<Rightarrow> do { s \<leftarrow> v_strings m a; Some (m, Some s) }
     | _ \<Rightarrow> Some (wrong_argument par m OT_STRING x, None) }"

definition sq_typeof :: "mach_par \<Rightarrow> machine \<Rightarrow> int \<Rightarrow> api" where
  "sq_typeof par m idx = do {
     x \<leftarrow> stack_get m idx;
     (m1, r) \<leftarrow> op_result (TypeOf (mops par) x m);
     case r of None \<Rightarrow> Some (m1, SQ_ERROR) | Some res \<Rightarrow> api_ok (Push m1 res) }"

definition sq_tostring :: "mach_par \<Rightarrow> machine \<Rightarrow> int \<Rightarrow> api" where
  "sq_tostring par m idx = do {
     x \<leftarrow> stack_get m idx;
     (m1, r) \<leftarrow> op_result (ToString (mops par) x m);
     case r of None \<Rightarrow> Some (m1, SQ_ERROR) | Some res \<Rightarrow> api_ok (Push m1 res) }"

definition sq_gethash :: "mach_par \<Rightarrow> machine \<Rightarrow> int \<Rightarrow> sqhash option" where
  "sq_gethash par m idx = map_option (vp_hsh (mp_vm par)) (stack_get m idx)"

text \<open>The size of a string, table or array; user data sizes are not part of the store.\<close>

definition sq_getsize :: "machine \<Rightarrow> int \<Rightarrow> (machine \<times> int) option" where
  "sq_getsize m idx = do {
     x \<leftarrow> stack_get m idx;
     case x of
       OString a \<Rightarrow> do { s \<leftarrow> v_strings m a; Some (m, int (length s)) }
     | OTable a \<Rightarrow> do { t \<leftarrow> v_tables m a; Some (m, usednodes t) }
     | OArray a \<Rightarrow> do { arr \<leftarrow> v_arrays m a; Some (m, int (arr_Size arr)) }
     | OUserData a \<Rightarrow> None
     | OInstance a \<Rightarrow> None
     | OClass a \<Rightarrow> None
     | _ \<Rightarrow> sq_aux_invalidtype m (sq_type x) }"

definition sq_cmp :: "mach_par \<Rightarrow> machine \<Rightarrow> (machine \<times> sqint option) option" where
  "sq_cmp par m = do {
     a \<leftarrow> stack_get m (-1);
     b \<leftarrow> stack_get m (-2);
     op_result (ObjCmp (mops par) a b m) }"

subsection \<open>Closures\<close>

definition sq_getclosureinfo :: "machine \<Rightarrow> int \<Rightarrow> (machine \<times> (int \<times> int) option) option" where
  "sq_getclosureinfo m idx = do {
     x \<leftarrow> stack_get m idx;
     case x of
       OClosure a \<Rightarrow> do {
         cl \<leftarrow> m_closures m a; f \<leftarrow> m_protos m (rc_function cl);
         Some (m, Some (rp_nparameters f, int (length (rp_outervalues f)))) }
     | ONativeClosure a \<Rightarrow> do {
         nc \<leftarrow> m_natives m a;
         Some (m, Some (rn_nparamscheck nc, int (length (rn_outervalues nc)))) }
     | _ \<Rightarrow> do { (m1, _) \<leftarrow> sq_throwerror m ''the object is not a closure''; Some (m1, None) } }"

definition sq_setnativeclosurename :: "mach_par \<Rightarrow> machine \<Rightarrow> int \<Rightarrow> sqchar list \<Rightarrow> api" where
  "sq_setnativeclosurename par m idx name = do {
     x \<leftarrow> stack_get m idx;
     case x of
       ONativeClosure a \<Rightarrow>
         (let (m1, s) = mk_string par name m in do {
            nc \<leftarrow> m_natives m1 a;
            Some (m1\<lparr> m_natives := (m_natives m1)(a \<mapsto> nc\<lparr> rn_name := s \<rparr>) \<rparr>, SQ_OK) })
     | _ \<Rightarrow> sq_throwerror m ''the object is not a nativeclosure'' }"

text \<open>\<^verbatim>\<open>CompileTypemask\<close> of \<^verbatim>\<open>sqstate.cpp\<close>.\<close>

definition mask_of :: "char \<Rightarrow> sqint option" where
  "mask_of c =
     (if c = CHR ''o'' then Some (RT OT_NULL)
      else if c = CHR ''i'' then Some (RT OT_INTEGER)
      else if c = CHR ''f'' then Some (RT OT_FLOAT)
      else if c = CHR ''n'' then Some (RT OT_FLOAT OR RT OT_INTEGER)
      else if c = CHR ''s'' then Some (RT OT_STRING)
      else if c = CHR ''t'' then Some (RT OT_TABLE)
      else if c = CHR ''a'' then Some (RT OT_ARRAY)
      else if c = CHR ''u'' then Some (RT OT_USERDATA)
      else if c = CHR ''c'' then Some (RT OT_CLOSURE OR RT OT_NATIVECLOSURE)
      else if c = CHR ''b'' then Some (RT OT_BOOL)
      else if c = CHR ''g'' then Some (RT OT_GENERATOR)
      else if c = CHR ''p'' then Some (RT OT_USERPOINTER)
      else if c = CHR ''v'' then Some (RT OT_THREAD)
      else if c = CHR ''x'' then Some (RT OT_INSTANCE)
      else if c = CHR ''y'' then Some (RT OT_CLASS)
      else if c = CHR ''r'' then Some (RT OT_WEAKREF)
      else None)"

fun CompileTypemask :: "sqint \<Rightarrow> string \<Rightarrow> sqint list option" where
  "CompileTypemask acc [] = Some []"
| "CompileTypemask acc (c # cs) =
     (if c = CHR ''.'' then map_option (\<lambda>res. (- 1) # res) (CompileTypemask 0 cs)
      else if c = CHR '' '' then CompileTypemask acc cs
      else case mask_of c of
        None \<Rightarrow> None
      | Some b \<Rightarrow>
          (case cs of
             d # ds \<Rightarrow>
               (if d = CHR ''|'' then (if ds = [] then None else CompileTypemask (acc OR b) ds)
                else map_option (\<lambda>res. (acc OR b) # res) (CompileTypemask 0 cs))
           | [] \<Rightarrow> Some [acc OR b]))"

definition SQ_MATCHTYPEMASKSTRING :: int where "SQ_MATCHTYPEMASKSTRING = -99999"

definition sq_setparamscheck :: "machine \<Rightarrow> int \<Rightarrow> string option \<Rightarrow> api" where
  "sq_setparamscheck m nparamscheck typemask = do {
     x \<leftarrow> stack_get m (-1);
     case x of
       ONativeClosure a \<Rightarrow> do {
         nc \<leftarrow> m_natives m a;
         let put = (\<lambda>n tc. m\<lparr> m_natives := (m_natives m)(a \<mapsto> nc\<lparr> rn_nparamscheck := n, rn_typecheck := tc \<rparr>) \<rparr>);
         case typemask of
           None \<Rightarrow> Some (put (if nparamscheck = SQ_MATCHTYPEMASKSTRING then 0 else nparamscheck) [], SQ_OK)
         | Some s \<Rightarrow>
             (case CompileTypemask 0 s of
                None \<Rightarrow> sq_throwerror (put nparamscheck (rn_typecheck nc)) ''invalid typemask''
              | Some tc \<Rightarrow>
                  Some (put (if nparamscheck = SQ_MATCHTYPEMASKSTRING then int (length tc) else nparamscheck) tc, SQ_OK)) }
     | _ \<Rightarrow> sq_throwerror m ''native closure expected'' }"

definition sq_bindenv :: "mach_par \<Rightarrow> machine \<Rightarrow> int \<Rightarrow> api" where
  "sq_bindenv par m idx = do {
     x \<leftarrow> stack_get m idx;
     if sq_type x \<notin> {OT_CLOSURE, OT_NATIVECLOSURE} then sq_throwerror m ''the target is not a closure''
     else do {
       env \<leftarrow> stack_get m (-1);
       if sq_type env \<notin> {OT_TABLE, OT_ARRAY, OT_CLASS, OT_INSTANCE} then sq_throwerror m ''invalid environment''
       else (let (m1, w) = GetWeakRef par m env; a = mp_new par m1 in
         case x of
           OClosure ca \<Rightarrow> do {
             cl \<leftarrow> m_closures m1 ca;
             m2 \<leftarrow> vm_Pop (m1\<lparr> m_closures := (m_closures m1)(a \<mapsto> cl\<lparr> rc_env := Some (rawval w) \<rparr>) \<rparr>);
             api_ok (Push m2 (OClosure a)) }
         | ONativeClosure ca \<Rightarrow> do {
             nc \<leftarrow> m_natives m1 ca;
             m2 \<leftarrow> vm_Pop (m1\<lparr> m_natives := (m_natives m1)(a \<mapsto> nc\<lparr> rn_env := Some (rawval w) \<rparr>) \<rparr>);
             api_ok (Push m2 (ONativeClosure a)) }
         | _ \<Rightarrow> None) } }"

definition sq_getclosurename :: "machine \<Rightarrow> int \<Rightarrow> api" where
  "sq_getclosurename m idx = do {
     x \<leftarrow> stack_get m idx;
     case x of
       ONativeClosure a \<Rightarrow> do { nc \<leftarrow> m_natives m a; api_ok (Push m (rn_name nc)) }
     | OClosure a \<Rightarrow> do {
         cl \<leftarrow> m_closures m a; f \<leftarrow> m_protos m (rc_function cl); api_ok (Push m (rp_name f)) }
     | _ \<Rightarrow> sq_throwerror m ''the target is not a closure'' }"

definition sq_setclosureroot :: "mach_par \<Rightarrow> machine \<Rightarrow> int \<Rightarrow> api" where
  "sq_setclosureroot par m idx = do {
     c \<leftarrow> stack_get m idx;
     ob \<leftarrow> stack_get m (-1);
     case c of
       OClosure a \<Rightarrow>
         (if sq_type ob = OT_TABLE then
            (let (m1, w) = GetWeakRef par m ob in do {
               cl \<leftarrow> m_closures m1 a;
               api_ok (vm_Pop (m1\<lparr> m_closures := (m_closures m1)(a \<mapsto> cl\<lparr> rc_root := rawval w \<rparr>) \<rparr>)) })
          else sq_throwerror m ''invalid type'')
     | _ \<Rightarrow> sq_throwerror m ''closure expected'' }"

definition sq_getclosureroot :: "machine \<Rightarrow> int \<Rightarrow> api" where
  "sq_getclosureroot m idx = do {
     c \<leftarrow> stack_get m idx;
     case c of
       OClosure a \<Rightarrow> do { cl \<leftarrow> m_closures m a; api_ok (Push m (deref m (rc_root cl))) }
     | _ \<Rightarrow> sq_throwerror m ''closure expected'' }"

definition sq_getcallee :: "machine \<Rightarrow> api" where
  "sq_getcallee m =
     (if length (m_calls m) > 1 then api_ok (Push m (ci_closure (m_calls m ! (length (m_calls m) - 2))))
      else sq_throwerror m ''no closure in the calls stack'')"

text \<open>Free variables: the value and whether there is a name.\<close>

definition outer_cell :: "rclosure \<Rightarrow> nat \<Rightarrow> addr option" where
  "outer_cell cl n = (if n < length (rc_outervalues cl)
     then (case rc_outervalues cl ! n of OOuter a \<Rightarrow> Some a | _ \<Rightarrow> None) else None)"

definition sq_getfreevariable :: "machine \<Rightarrow> int \<Rightarrow> nat \<Rightarrow> (machine \<times> bool) option" where
  "sq_getfreevariable m idx nval = do {
     x \<leftarrow> stack_get m idx;
     case x of
       OClosure a \<Rightarrow> do {
         cl \<leftarrow> m_closures m a; f \<leftarrow> m_protos m (rc_function cl);
         if length (rp_outervalues f) > nval then do {
           oa \<leftarrow> outer_cell cl nval; y \<leftarrow> outer_read m oa; m1 \<leftarrow> Push m y; Some (m1, True) }
         else Some (m, False) }
     | ONativeClosure a \<Rightarrow> do {
         nc \<leftarrow> m_natives m a;
         if length (rn_outervalues nc) > nval then do { m1 \<leftarrow> Push m (rn_outervalues nc ! nval); Some (m1, True) }
         else Some (m, False) }
     | _ \<Rightarrow> Some (m, False) }"

definition sq_setfreevariable :: "machine \<Rightarrow> int \<Rightarrow> nat \<Rightarrow> api" where
  "sq_setfreevariable m idx nval = do {
     x \<leftarrow> stack_get m idx;
     case x of
       OClosure a \<Rightarrow> do {
         cl \<leftarrow> m_closures m a; f \<leftarrow> m_protos m (rc_function cl);
         if length (rp_outervalues f) > nval then do {
           oa \<leftarrow> outer_cell cl nval; y \<leftarrow> stack_get m (-1); m1 \<leftarrow> outer_write m oa y; api_ok (vm_Pop m1) }
         else sq_throwerror m ''invalid free var index'' }
     | ONativeClosure a \<Rightarrow> do {
         nc \<leftarrow> m_natives m a;
         if length (rn_outervalues nc) > nval then do {
           y \<leftarrow> stack_get m (-1);
           api_ok (vm_Pop (m\<lparr> m_natives := (m_natives m)(a \<mapsto> nc\<lparr> rn_outervalues := (rn_outervalues nc)[nval := y] \<rparr>) \<rparr>)) }
         else sq_throwerror m ''invalid free var index'' }
     | _ \<Rightarrow> sq_aux_invalidtype m (sq_type x) }"

subsection \<open>Slots\<close>

text \<open>Slot access from the host uses the root table of the machine only through a running closure;
  with \<^verbatim>\<open>DONT_FALL_BACK\<close> it is not consulted.\<close>

definition sq_get :: "nat \<Rightarrow> mach_par \<Rightarrow> machine \<Rightarrow> int \<Rightarrow> api" where
  "sq_get fuel par m idx = do {
     self \<leftarrow> stack_get m idx;
     key \<leftarrow> GetUp m (-1);
     (m1, r) \<leftarrow> Get_f fuel (mp_vm par) m self key 0 DONT_FALL_BACK;
     case r of
       Some x \<Rightarrow> api_ok (st_put m1 (m_top m - 1) x)
     | None \<Rightarrow> do { m2 \<leftarrow> vm_Pop m1; Some (m2, SQ_ERROR) } }"

definition sq_set :: "nat \<Rightarrow> mach_par \<Rightarrow> machine \<Rightarrow> int \<Rightarrow> api" where
  "sq_set fuel par m idx = do {
     self \<leftarrow> stack_get m idx;
     key \<leftarrow> GetUp m (-2);
     val \<leftarrow> GetUp m (-1);
     (m1, ok) \<leftarrow> Set_f fuel (mp_vm par) m self key val DONT_FALL_BACK;
     if ok then api_ok (vm_PopN 2 m1) else Some (m1, SQ_ERROR) }"

definition sq_newslot :: "mach_par \<Rightarrow> machine \<Rightarrow> int \<Rightarrow> bool \<Rightarrow> api" where
  "sq_newslot par m idx bstatic =
     sq_aux_paramscheck m 3 (do {
       self \<leftarrow> stack_get m idx;
       if sq_type self \<in> {OT_TABLE, OT_CLASS} then do {
         key \<leftarrow> GetUp m (-2);
         val \<leftarrow> GetUp m (-1);
         if key = ONull then sq_throwerror m ''null is not a valid key''
         else do {
           (m1, _) \<leftarrow> vm_NewSlot (mp_vm par) m self key val bstatic;
           api_ok (vm_PopN 2 m1) } }
       else Some (m, SQ_OK) })"

definition sq_deleteslot :: "mach_par \<Rightarrow> machine \<Rightarrow> int \<Rightarrow> bool \<Rightarrow> api" where
  "sq_deleteslot par m idx pushval =
     sq_aux_paramscheck m 2 (GETSAFE_OBJ par m idx OT_TABLE (\<lambda>self. do {
       key \<leftarrow> GetUp m (-1);
       if key = ONull then sq_throwerror m ''null is not a valid key''
       else do {
         (m1, r) \<leftarrow> DeleteSlot (mp_vm par) m self key;
         case r of
           None \<Rightarrow> do { m2 \<leftarrow> vm_Pop m1; Some (m2, SQ_ERROR) }
         | Some res \<Rightarrow> if pushval then api_ok (st_put m1 (m_top m1 - 1) res) else api_ok (vm_Pop m1) } }))"

text \<open>The results of \<^verbatim>\<open>NewSlot\<close> are ignored by \<^verbatim>\<open>sq_rawset\<close>.\<close>

definition sq_rawset :: "nat \<Rightarrow> mach_par \<Rightarrow> machine \<Rightarrow> int \<Rightarrow> api" where
  "sq_rawset fuel par m idx = do {
     self \<leftarrow> stack_get m idx;
     key \<leftarrow> GetUp m (-2);
     val \<leftarrow> GetUp m (-1);
     let fail = (do { k \<leftarrow> GetUp m (-2); Some (raise_idx (mp_vm par) m k, SQ_ERROR) });
     if key = ONull then do { m1 \<leftarrow> vm_PopN 2 m; sq_throwerror m1 ''null key'' }
     else case self of
       OTable a \<Rightarrow> do {
         t \<leftarrow> v_tables m a;
         (t1, _) \<leftarrow> NewSlot (vp_hsh (mp_vm par)) t key val;
         api_ok (vm_PopN 2 (put_table m a t1)) }
     | OClass a \<Rightarrow> do {
         c \<leftarrow> v_classes m a;
         (c1, _) \<leftarrow> class_NewSlot (class_env_of (mp_vm par) m) c key val False;
         api_ok (vm_PopN 2 (m\<lparr> v_classes := (v_classes m)(a \<mapsto> c1) \<rparr>)) }
     | OInstance a \<Rightarrow> do {
         (m1, ok) \<leftarrow> instance_set (mp_vm par) m a key val;
         if ok then api_ok (vm_PopN 2 m1) else fail }
     | OArray a \<Rightarrow> do {
         (m1, ok) \<leftarrow> Set_f fuel (mp_vm par) m self key val 0;
         if ok then api_ok (vm_PopN 2 m1)
         else do { k \<leftarrow> GetUp m1 (-2); Some (raise_idx (mp_vm par) m1 k, SQ_ERROR) } }
     | _ \<Rightarrow> do { m1 \<leftarrow> vm_PopN 2 m; sq_throwerror m1 ''rawset works only on array/table/class and instance'' } }"

definition sq_rawget :: "mach_par \<Rightarrow> machine \<Rightarrow> int \<Rightarrow> api" where
  "sq_rawget par m idx = do {
     self \<leftarrow> stack_get m idx;
     key \<leftarrow> GetUp m (-1);
     let found = (\<lambda>r. case r of
           Some x \<Rightarrow> api_ok (st_put m (m_top m - 1) x)
         | None \<Rightarrow> do { m1 \<leftarrow> vm_Pop m; sq_throwerror m1 ''the index doesn't exist'' });
     case self of
       OTable a \<Rightarrow> do { r \<leftarrow> table_get (mp_vm par) m a key; found r }
     | OClass a \<Rightarrow> do {
         c \<leftarrow> v_classes m a; r \<leftarrow> class_Get (class_env_of (mp_vm par) m) c key; found r }
     | OInstance a \<Rightarrow> do {
         i \<leftarrow> v_instances m a; c \<leftarrow> v_classes m (in_class i);
         r \<leftarrow> instance_Get (class_env_of (mp_vm par) m) c i key; found r }
     | OArray a \<Rightarrow>
         (if sq_isnumeric key then do {
            arr \<leftarrow> v_arrays m a; found (arr_Get (realval (deref m)) arr (tointeger key)) }
          else do { m1 \<leftarrow> vm_Pop m; sq_throwerror m1 ''invalid index type for an array'' })
     | _ \<Rightarrow> do { m1 \<leftarrow> vm_Pop m; sq_throwerror m1 ''rawget works only on array/table/instance and class'' } }"

definition sq_rawdeleteslot :: "mach_par \<Rightarrow> machine \<Rightarrow> int \<Rightarrow> bool \<Rightarrow> api" where
  "sq_rawdeleteslot par m idx pushval =
     sq_aux_paramscheck m 2 (GETSAFE_OBJ par m idx OT_TABLE (\<lambda>self. case self of
       OTable a \<Rightarrow> do {
         key \<leftarrow> GetUp m (-1);
         r \<leftarrow> table_get (mp_vm par) m a key;
         t \<leftarrow> v_tables m a;
         m1 \<leftarrow> (if r \<noteq> None then map_option (put_table m a) (tbl_Remove (vp_hsh (mp_vm par)) t key) else Some m);
         if pushval then api_ok (st_put m1 (m_top m1 - 1) (case r of Some x \<Rightarrow> x | None \<Rightarrow> ONull))
         else api_ok (vm_Pop m1) }
     | _ \<Rightarrow> None))"

subsection \<open>Classes and instances\<close>

definition new_member :: "mach_par \<Rightarrow> machine \<Rightarrow> int \<Rightarrow> bool \<Rightarrow> bool \<Rightarrow> api" where
  "new_member par m idx bstatic raw = do {
     self \<leftarrow> stack_get m idx;
     if sq_type self \<noteq> OT_CLASS then sq_throwerror m ''new member only works with classes''
     else do {
       key \<leftarrow> GetUp m (-3);
       if key = ONull then sq_throwerror m ''null key''
       else do {
         val \<leftarrow> GetUp m (-2);
         attrs \<leftarrow> GetUp m (-1);
         (m1, ok) \<leftarrow> NewSlotA (mp_vm par) m self key val attrs bstatic raw;
         m2 \<leftarrow> vm_PopN 3 m1;
         Some (m2, if ok then SQ_OK else SQ_ERROR) } } }"

definition sq_newmember :: "mach_par \<Rightarrow> machine \<Rightarrow> int \<Rightarrow> bool \<Rightarrow> api" where
  "sq_newmember par m idx bstatic = new_member par m idx bstatic False"

definition sq_rawnewmember :: "mach_par \<Rightarrow> machine \<Rightarrow> int \<Rightarrow> bool \<Rightarrow> api" where
  "sq_rawnewmember par m idx bstatic = new_member par m idx bstatic True"

text \<open>\<^verbatim>\<open>sq_instanceof\<close> answers with \<^verbatim>\<open>SQ_ERROR\<close>, a true value, for the wrong types.\<close>

definition sq_instanceof :: "machine \<Rightarrow> api" where
  "sq_instanceof m = do {
     inst \<leftarrow> stack_get m (-1);
     cl \<leftarrow> stack_get m (-2);
     case (inst, cl) of
       (OInstance a, OClass c) \<Rightarrow> do {
         i \<leftarrow> v_instances m a;
         b \<leftarrow> InstanceOf (v_classes m) i c;
         Some (m, if b then 1 else 0) }
     | _ \<Rightarrow> sq_throwerror m ''invalid param type'' }"

definition with_class :: "mach_par \<Rightarrow> machine \<Rightarrow> int \<Rightarrow> (addr \<Rightarrow> sqclass \<Rightarrow> api) \<Rightarrow> api" where
  "with_class par m idx k = GETSAFE_OBJ par m idx OT_CLASS (\<lambda>x. case x of
     OClass a \<Rightarrow> do { c \<leftarrow> v_classes m a; k a c } | _ \<Rightarrow> None)"

definition put_class :: "machine \<Rightarrow> addr \<Rightarrow> sqclass \<Rightarrow> machine" where
  "put_class m a c = m\<lparr> v_classes := (v_classes m)(a \<mapsto> c) \<rparr>"

definition sq_setattributes :: "mach_par \<Rightarrow> machine \<Rightarrow> int \<Rightarrow> api" where
  "sq_setattributes par m idx = with_class par m idx (\<lambda>a c. do {
     key \<leftarrow> stack_get m (-2);
     val \<leftarrow> stack_get m (-1);
     if key = ONull then do {
       m1 \<leftarrow> vm_PopN 2 (put_class m a (c\<lparr> c_attributes := val \<rparr>));
       api_ok (Push m1 (c_attributes c)) }
     else do {
       attrs \<leftarrow> class_GetAttributes (class_env_of (mp_vm par) m) c key;
       case attrs of
         Some x \<Rightarrow> do {
           (c1, _) \<leftarrow> class_SetAttributes (class_env_of (mp_vm par) m) c key val;
           m1 \<leftarrow> vm_PopN 2 (put_class m a c1);
           api_ok (Push m1 x) }
       | None \<Rightarrow> sq_throwerror m ''wrong index'' } })"

definition sq_getattributes :: "mach_par \<Rightarrow> machine \<Rightarrow> int \<Rightarrow> api" where
  "sq_getattributes par m idx = with_class par m idx (\<lambda>a c. do {
     key \<leftarrow> stack_get m (-1);
     if key = ONull then do { m1 \<leftarrow> vm_Pop m; api_ok (Push m1 (c_attributes c)) }
     else do {
       attrs \<leftarrow> class_GetAttributes (class_env_of (mp_vm par) m) c key;
       case attrs of
         Some x \<Rightarrow> do { m1 \<leftarrow> vm_Pop m; api_ok (Push m1 x) }
       | None \<Rightarrow> sq_throwerror m ''wrong index'' } })"

text \<open>A member handle: whether the member is static, and its index.\<close>

record member_handle =
  mh_static :: bool
  mh_index :: nat

definition sq_getmemberhandle :: "mach_par \<Rightarrow> machine \<Rightarrow> int \<Rightarrow> (machine \<times> int \<times> member_handle option) option" where
  "sq_getmemberhandle par m idx = do {
     o1 \<leftarrow> stack_get m idx;
     case o1 of
       OClass a \<Rightarrow> do {
         c \<leftarrow> v_classes m a;
         key \<leftarrow> stack_get m (-1);
         r \<leftarrow> ce_get (class_env_of (mp_vm par) m) (c_members c) key;
         case r of
           Some val \<Rightarrow> do {
             m1 \<leftarrow> vm_Pop m;
             Some (m1, SQ_OK, Some \<lparr> mh_static = \<not> isfield val, mh_index = member_idx val \<rparr>) }
         | None \<Rightarrow> do { (m1, e) \<leftarrow> sq_throwerror m ''wrong index''; Some (m1, e, None) } }
     | _ \<Rightarrow> Some (wrong_argument par m OT_CLASS o1, SQ_ERROR, None) }"

definition getmemberbyhandle :: "machine \<Rightarrow> sqobject \<Rightarrow> member_handle \<Rightarrow> sqobject option option" where
  "getmemberbyhandle m self h = (case self of
     OInstance a \<Rightarrow> do {
       i \<leftarrow> v_instances m a;
       if mh_static h then do {
         c \<leftarrow> v_classes m (in_class i); x \<leftarrow> nth_opt (c_methods c) (mh_index h); Some (Some (cm_val x)) }
       else map_option Some (nth_opt (in_values i) (mh_index h)) }
   | OClass a \<Rightarrow> do {
       c \<leftarrow> v_classes m a;
       x \<leftarrow> nth_opt (if mh_static h then c_methods c else c_defaultvalues c) (mh_index h);
       Some (Some (cm_val x)) }
   | _ \<Rightarrow> Some None)"

definition sq_getbyhandle :: "machine \<Rightarrow> int \<Rightarrow> member_handle \<Rightarrow> api" where
  "sq_getbyhandle m idx h = do {
     self \<leftarrow> stack_get m idx;
     r \<leftarrow> getmemberbyhandle m self h;
     case r of
       None \<Rightarrow> sq_throwerror m ''wrong type(expected class or instance)''
     | Some val \<Rightarrow> api_ok (Push m (realval (deref m) val)) }"

definition sq_setbyhandle :: "machine \<Rightarrow> int \<Rightarrow> member_handle \<Rightarrow> api" where
  "sq_setbyhandle m idx h = do {
     self \<leftarrow> stack_get m idx;
     newval \<leftarrow> stack_get m (-1);
     let at = (\<lambda>a. do {
       c \<leftarrow> v_classes m a;
       if mh_static h then do {
         ms \<leftarrow> set_member_val (c_methods c) (mh_index h) newval;
         api_ok (vm_Pop (put_class m a (c\<lparr> c_methods := ms \<rparr>))) }
       else do {
         ms \<leftarrow> set_member_val (c_defaultvalues c) (mh_index h) newval;
         api_ok (vm_Pop (put_class m a (c\<lparr> c_defaultvalues := ms \<rparr>))) } });
     case self of
       OInstance a \<Rightarrow> do {
         i \<leftarrow> v_instances m a;
         if mh_static h then at (in_class i)
         else if mh_index h < length (in_values i) then
           api_ok (vm_Pop (m\<lparr> v_instances := (v_instances m)
             (a \<mapsto> i\<lparr> in_values := (in_values i)[mh_index h := newval] \<rparr>) \<rparr>))
         else None }
     | OClass a \<Rightarrow> at a
     | _ \<Rightarrow> sq_throwerror m ''wrong type(expected class or instance)'' }"

definition sq_getbase :: "mach_par \<Rightarrow> machine \<Rightarrow> int \<Rightarrow> api" where
  "sq_getbase par m idx = with_class par m idx (\<lambda>a c.
     api_ok (case c_base c of Some b \<Rightarrow> Push m (OClass b) | None \<Rightarrow> PushNull m))"

definition sq_getclass :: "mach_par \<Rightarrow> machine \<Rightarrow> int \<Rightarrow> api" where
  "sq_getclass par m idx = GETSAFE_OBJ par m idx OT_INSTANCE (\<lambda>x. case x of
     OInstance a \<Rightarrow> do { i \<leftarrow> v_instances m a; api_ok (Push m (OClass (in_class i))) }
   | _ \<Rightarrow> None)"

definition sq_createinstance :: "mach_par \<Rightarrow> machine \<Rightarrow> int \<Rightarrow> api" where
  "sq_createinstance par m idx = with_class par m idx (\<lambda>a c. do {
     (cls, i) \<leftarrow> CreateInstance (v_classes m) a;
     let n = mp_new par m;
     api_ok (Push (m\<lparr> v_classes := cls, v_instances := (v_instances m)(n \<mapsto> i) \<rparr>) (OInstance n)) })"

subsection \<open>Delegation\<close>

definition sq_setdelegate :: "machine \<Rightarrow> int \<Rightarrow> api" where
  "sq_setdelegate m idx = do {
     self \<leftarrow> stack_get m idx;
     mt \<leftarrow> GetUp m (-1);
     let ty = sq_type self;
     if ty \<notin> {OT_TABLE, OT_USERDATA} then sq_aux_invalidtype m ty
     else case mt of
       OTable d \<Rightarrow> do {
         (m1, ok) \<leftarrow> SetDelegate m self (Some d);
         if \<not> ok \<and> ty = OT_TABLE then sq_throwerror m ''delegate cycle'' else api_ok (vm_Pop m1) }
     | ONull \<Rightarrow> do { (m1, _) \<leftarrow> SetDelegate m self None; api_ok (vm_Pop m1) }
     | _ \<Rightarrow> sq_aux_invalidtype m ty }"

definition sq_getdelegate :: "machine \<Rightarrow> int \<Rightarrow> api" where
  "sq_getdelegate m idx = do {
     self \<leftarrow> stack_get m idx;
     if sq_type self \<in> {OT_TABLE, OT_USERDATA} then do {
       d \<leftarrow> delegate_of m self;
       api_ok (case d of None \<Rightarrow> PushNull m | Some a \<Rightarrow> Push m (OTable a)) }
     else sq_throwerror m ''wrong type'' }"

text \<open>A number has one default delegate for integers and floats.\<close>

definition sq_getdefaultdelegate :: "mach_par \<Rightarrow> machine \<Rightarrow> sqobjtype \<Rightarrow> api" where
  "sq_getdefaultdelegate par m t =
     (if t \<in> {OT_TABLE, OT_ARRAY, OT_STRING, OT_INTEGER, OT_FLOAT, OT_GENERATOR, OT_CLOSURE, OT_NATIVECLOSURE,
              OT_THREAD, OT_CLASS, OT_INSTANCE, OT_WEAKREF}
      then api_ok (Push m (OTable (vp_ddel (mp_vm par) t)))
      else sq_throwerror m ''the type doesn't have a default delegate'')"

subsection \<open>References, cloning and tables of the machine\<close>

definition sq_weakref :: "mach_par \<Rightarrow> machine \<Rightarrow> int \<Rightarrow> machine option" where
  "sq_weakref par m idx = do {
     x \<leftarrow> stack_get m idx;
     if ISREFCOUNTED (sq_type x) then (let (m1, w) = GetWeakRef par m x in Push m1 w) else Push m x }"

definition sq_getweakrefval :: "machine \<Rightarrow> int \<Rightarrow> api" where
  "sq_getweakrefval m idx = do {
     x \<leftarrow> stack_get m idx;
     case x of
       OWeakRef a \<Rightarrow> api_ok (Push m (deref m a))
     | _ \<Rightarrow> sq_throwerror m ''the object must be a weakref'' }"

definition sq_clone :: "mach_par \<Rightarrow> machine \<Rightarrow> int \<Rightarrow> api" where
  "sq_clone par m idx = do {
     x \<leftarrow> stack_get m idx;
     m1 \<leftarrow> PushNull m;
     (m2, r) \<leftarrow> vm_Clone (mp_vm par) m1 x;
     case r of
       None \<Rightarrow> do { m3 \<leftarrow> vm_Pop m2; Some (m3, SQ_ERROR) }
     | Some y \<Rightarrow> api_ok (st_put m2 (m_top m1 - 1) y) }"

definition sq_setroottable :: "machine \<Rightarrow> api" where
  "sq_setroottable m = do {
     x \<leftarrow> stack_get m (-1);
     if sq_type x = OT_TABLE \<or> x = ONull then api_ok (vm_Pop (m\<lparr> m_roottable := x \<rparr>))
     else sq_throwerror m ''invalid type'' }"

definition sq_setconsttable :: "machine \<Rightarrow> api" where
  "sq_setconsttable m = do {
     x \<leftarrow> stack_get m (-1);
     if sq_type x = OT_TABLE then api_ok (vm_Pop (m\<lparr> m_consts := x \<rparr>))
     else sq_throwerror m ''invalid type, expected table'' }"

definition sq_seterrorhandler :: "machine \<Rightarrow> machine option" where
  "sq_seterrorhandler m = do {
     x \<leftarrow> stack_get m (-1);
     if sq_type x \<in> {OT_CLOSURE, OT_NATIVECLOSURE, OT_NULL} then vm_Pop (m\<lparr> m_errorhandler := x \<rparr>)
     else Some m }"

subsection \<open>Errors and calls\<close>

definition sq_throwobject :: "machine \<Rightarrow> api" where
  "sq_throwobject m = do {
     x \<leftarrow> GetUp m (-1);
     m1 \<leftarrow> vm_Pop (m\<lparr> v_lasterror := ErrValue x \<rparr>);
     Some (m1, SQ_ERROR) }"

definition sq_reseterror :: "machine \<Rightarrow> machine" where
  "sq_reseterror m = m\<lparr> v_lasterror := ErrValue ONull \<rparr>"

definition sq_getlasterror :: "mach_par \<Rightarrow> machine \<Rightarrow> machine option" where
  "sq_getlasterror par m = (let (m1, x) = current_error par m in Push m1 x)"

definition sq_call :: "mach_par \<Rightarrow> machine \<Rightarrow> int \<Rightarrow> bool \<Rightarrow> api" where
  "sq_call par m params retval = do {
     f \<leftarrow> GetUp m (- (params + 1));
     args \<leftarrow> read_range (nat params) (m_top m - params) m;
     let (m1, r) = vp_call (mp_vm par) f MT_LAST args m;
     case r of
       None \<Rightarrow> do { m2 \<leftarrow> vm_PopN (nat params) m1; Some (m2, SQ_ERROR) }
     | Some res \<Rightarrow> do {
         m2 \<leftarrow> (if m_suspended m1 = None then vm_PopN (nat params) m1 else Some m1);
         api_ok (if retval then Push m2 res else Some m2) } }"

definition sq_tailcall :: "mach_par \<Rightarrow> machine \<Rightarrow> int \<Rightarrow> api" where
  "sq_tailcall par m nparams = do {
     res \<leftarrow> GetUp m (- (nparams + 1));
     case res of
       OClosure a \<Rightarrow> do {
         cl \<leftarrow> m_closures m a;
         f \<leftarrow> m_protos m (rc_function cl);
         if rp_bgenerator f then sq_throwerror m ''generators cannot be tail called''
         else do {
           (m1, ok) \<leftarrow> TailCall par a (m_top m - nparams - m_stackbase m) nparams m;
           Some (m1, if ok then SQ_TAILCALL_FLAG else SQ_ERROR) } }
     | _ \<Rightarrow> sq_throwerror m ''only closure can be tail called'' }"

end
