(* ===== verification/Sq_Sort.thy ===== *)
theory Sq_Sort
  imports Sq_API "HOL-Library.Multiset"
begin

text \<open>
  The heap sort of script arrays (\<^verbatim>\<open>sqbaselib.cpp\<close>).  The node 0 of the heap has one child, the
  node 1; the children of a node \<open>i\<close> with \<open>0 < i\<close> are \<open>2 * i\<close> and \<open>2 * i + 1\<close>.  The elements are
  compared by \<^verbatim>\<open>ObjCmp\<close> or by a script function, called through \<^verbatim>\<open>sq_call\<close>.  Both may change
  the machine, so an element outside the array is \<open>None\<close>.  \<open>same\<close> tells whether the buffer of the
  array is the one before the call, which depends on the allocator.

  The second part is the sort on plain lists, with its correctness for a total preorder.
\<close>

type_synonym compare = "sqobject \<Rightarrow> sqobject \<Rightarrow> machine \<Rightarrow> (machine \<times> sqint option) option"

definition is_text :: "lasterror \<Rightarrow> bool" where
  "is_text e = (case e of ErrText _ \<Rightarrow> True | ErrValue x \<Rightarrow> sq_type x = OT_STRING)"

definition sort_compare ::
  "(sqarray \<Rightarrow> sqarray \<Rightarrow> bool) \<Rightarrow> mach_par \<Rightarrow> addr \<Rightarrow> int \<Rightarrow> compare" where
  "sort_compare same par a func x y m =
     (if func < 0 then op_result (ObjCmp (mops par) x y m)
      else do {
        m1 \<leftarrow> sq_push m func;
        m2 \<leftarrow> sq_pushroottable m1;
        m3 \<leftarrow> Push m2 x;
        m4 \<leftarrow> Push m3 y;
        arr \<leftarrow> v_arrays m4 a;
        (m5, r) \<leftarrow> sq_call par m4 3 True;
        if r = SQ_ERROR then
          Some (if is_text (v_lasterror m5) then m5 else Raise_Error m5 (bytes_of ''compare func failed'') [], None)
        else do {
          n \<leftarrow> sq_getinteger m5 (-1);
          case n of
            None \<Rightarrow>
              Some (Raise_Error m5 (bytes_of ''numeric value expected as return value of the compare function'') [], None)
          | Some ret \<Rightarrow> do {
              arr1 \<leftarrow> v_arrays m5 a;
              if arr_Size arr \<noteq> arr_Size arr1 \<or> \<not> same arr arr1 then
                Some (Raise_Error m5 (bytes_of ''array resized during sort operation'') [], None)
              else do { m6 \<leftarrow> sq_settop m5 (sq_gettop m); Some (m6, Some ret) } } } })"

definition elem_at :: "machine \<Rightarrow> addr \<Rightarrow> nat \<Rightarrow> sqobject option" where
  "elem_at m a i = do { arr \<leftarrow> v_arrays m a; nth_opt (vals arr) i }"

definition swap_at :: "machine \<Rightarrow> addr \<Rightarrow> nat \<Rightarrow> nat \<Rightarrow> machine option" where
  "swap_at m a i j = do {
     arr \<leftarrow> v_arrays m a;
     x \<leftarrow> elem_at m a i;
     y \<leftarrow> elem_at m a j;
     Some (put_array m a (arr\<lparr> vals := (vals arr)[i := y, j := x] \<rparr>)) }"

text \<open>The choice of the greater child: whether it is the left one.\<close>

definition max_child :: "compare \<Rightarrow> addr \<Rightarrow> nat \<Rightarrow> nat \<Rightarrow> machine \<Rightarrow> (machine \<times> bool option) option" where
  "max_child cmp a root2 bottom m =
     (if root2 = bottom then Some (m, Some True)
      else do {
        x \<leftarrow> elem_at m a root2;
        y \<leftarrow> elem_at m a (root2 + 1);
        (m1, r) \<leftarrow> cmp x y m;
        Some (m1, map_option (\<lambda>ret. sint ret > 0) r) })"

definition child :: "nat \<Rightarrow> bool \<Rightarrow> nat" where
  "child root left = (if left then root * 2 else root * 2 + 1)"

function hsort_sift_down ::
  "compare \<Rightarrow> addr \<Rightarrow> nat \<Rightarrow> nat \<Rightarrow> machine \<Rightarrow> (machine \<times> bool) option" where
  "hsort_sift_down cmp a root bottom m =
     (if root * 2 \<le> bottom then do {
        (m1, left) \<leftarrow> max_child cmp a (root * 2) bottom m;
        case left of
          None \<Rightarrow> Some (m1, False)
        | Some l \<Rightarrow>
            (let maxChild = child root l in do {
               x \<leftarrow> elem_at m1 a root;
               y \<leftarrow> elem_at m1 a maxChild;
               (m2, r) \<leftarrow> cmp x y m1;
               case r of
                 None \<Rightarrow> Some (m2, False)
               | Some ret \<Rightarrow>
                   if sint ret < 0 then
                     (if root = maxChild then Some (Raise_Error m2 (bytes_of ''inconsistent compare function'') [], False)
                      else do { m3 \<leftarrow> swap_at m2 a root maxChild; hsort_sift_down cmp a maxChild bottom m3 })
                   else Some (m2, True) }) }
      else Some (m, True))"
  by pat_completeness auto
termination
  by (relation "measure (\<lambda>(cmp, a, root, bottom, m). bottom + 1 - root)") (auto simp: child_def)

declare hsort_sift_down.simps [simp del]

lemma sift_down_step:
  assumes "r * 2 \<le> b" "max_child cmp a (r * 2) b m = Some (m1, Some l)"
    "elem_at m1 a r = Some x" "elem_at m1 a (child r l) = Some y" "cmp x y m1 = Some (m2, ret)"
  shows "hsort_sift_down cmp a r b m =
    (case ret of None \<Rightarrow> Some (m2, False)
     | Some n \<Rightarrow> if sint n < 0 then
         (if r = child r l then Some (Raise_Error m2 (bytes_of ''inconsistent compare function'') [], False)
          else do { m3 \<leftarrow> swap_at m2 a r (child r l); hsort_sift_down cmp a (child r l) b m3 })
       else Some (m2, True))"
  using assms by (simp add: hsort_sift_down.simps [of cmp a r b m] Let_def)

text \<open>The two loops of \<^verbatim>\<open>_hsort\<close>: \<open>i\<close> from a bound down to 0, and from the last element down
  to 1.\<close>

primrec build_heap :: "compare \<Rightarrow> addr \<Rightarrow> nat \<Rightarrow> nat \<Rightarrow> machine \<Rightarrow> (machine \<times> bool) option" where
  "build_heap cmp a bottom 0 m = hsort_sift_down cmp a 0 bottom m"
| "build_heap cmp a bottom (Suc i) m = do {
     (m1, ok) \<leftarrow> hsort_sift_down cmp a (Suc i) bottom m;
     if ok then build_heap cmp a bottom i m1 else Some (m1, False) }"

primrec extract_heap :: "compare \<Rightarrow> addr \<Rightarrow> nat \<Rightarrow> machine \<Rightarrow> (machine \<times> bool) option" where
  "extract_heap cmp a 0 m = Some (m, True)"
| "extract_heap cmp a (Suc i) m = do {
     m1 \<leftarrow> swap_at m a 0 (Suc i);
     (m2, ok) \<leftarrow> hsort_sift_down cmp a 0 i m1;
     if ok then extract_heap cmp a i m2 else Some (m2, False) }"

definition hsort :: "compare \<Rightarrow> addr \<Rightarrow> machine \<Rightarrow> (machine \<times> bool) option" where
  "hsort cmp a m = do {
     arr \<leftarrow> v_arrays m a;
     (m1, ok) \<leftarrow> build_heap cmp a (arr_Size arr - 1) (arr_Size arr div 2) m;
     if ok then extract_heap cmp a (arr_Size arr - 1) m1 else Some (m1, False) }"

definition array_sort :: "(sqarray \<Rightarrow> sqarray \<Rightarrow> bool) \<Rightarrow> mach_par \<Rightarrow> machine \<Rightarrow> api" where
  "array_sort same par m = do {
     x \<leftarrow> stack_get m 1;
     case x of
       OArray a \<Rightarrow> do {
         arr \<leftarrow> v_arrays m a;
         (m1, ok) \<leftarrow> (if arr_Size arr > 1
            then hsort (sort_compare same par a (if sq_gettop m = 2 then 2 else -1)) a m
            else Some (m, True));
         if ok then do { m2 \<leftarrow> sq_settop m1 1; Some (m2, 1) } else Some (m1, SQ_ERROR) }
     | _ \<Rightarrow> None }"

subsection \<open>The sort on lists\<close>

definition greater_child :: "('a \<Rightarrow> 'a \<Rightarrow> int) \<Rightarrow> nat \<Rightarrow> nat \<Rightarrow> 'a list \<Rightarrow> nat" where
  "greater_child c r b xs =
     (if r * 2 = b \<or> 0 < c (xs ! (r * 2)) (xs ! (r * 2 + 1)) then r * 2 else r * 2 + 1)"

function sift_list :: "('a \<Rightarrow> 'a \<Rightarrow> int) \<Rightarrow> nat \<Rightarrow> nat \<Rightarrow> 'a list \<Rightarrow> 'a list option" where
  "sift_list c r b xs =
     (if r * 2 \<le> b then
        (let k = greater_child c r b xs in
         if c (xs ! r) (xs ! k) < 0 then
           (if r = k then None else sift_list c k b (xs[r := xs ! k, k := xs ! r]))
         else Some xs)
      else Some xs)"
  by pat_completeness auto
termination
  by (relation "measure (\<lambda>(c, r, b, xs). b + 1 - r)") (auto simp: greater_child_def)

declare sift_list.simps [simp del]

primrec build_list :: "('a \<Rightarrow> 'a \<Rightarrow> int) \<Rightarrow> nat \<Rightarrow> nat \<Rightarrow> 'a list \<Rightarrow> 'a list option" where
  "build_list c b 0 xs = sift_list c 0 b xs"
| "build_list c b (Suc i) xs = do { ys \<leftarrow> sift_list c (Suc i) b xs; build_list c b i ys }"

primrec extract_list :: "('a \<Rightarrow> 'a \<Rightarrow> int) \<Rightarrow> nat \<Rightarrow> 'a list \<Rightarrow> 'a list option" where
  "extract_list c 0 xs = Some xs"
| "extract_list c (Suc i) xs = do {
     ys \<leftarrow> sift_list c 0 i (xs[0 := xs ! Suc i, Suc i := xs ! 0]); extract_list c i ys }"

definition sort_list :: "('a \<Rightarrow> 'a \<Rightarrow> int) \<Rightarrow> 'a list \<Rightarrow> 'a list option" where
  "sort_list c xs = do {
     ys \<leftarrow> build_list c (length xs - 1) (length xs div 2) xs; extract_list c (length xs - 1) ys }"

locale comparison =
  fixes S :: "'a set"
    and c :: "'a \<Rightarrow> 'a \<Rightarrow> int"
  assumes self: "x \<in> S \<Longrightarrow> c x x = 0"
    and flip: "x \<in> S \<Longrightarrow> y \<in> S \<Longrightarrow> 0 \<le> c x y \<Longrightarrow> c y x \<le> 0"
    and trans: "x \<in> S \<Longrightarrow> y \<in> S \<Longrightarrow> z \<in> S \<Longrightarrow> c x y \<le> 0 \<Longrightarrow> c y z \<le> 0 \<Longrightarrow> c x z \<le> 0"
begin

definition heap :: "nat \<Rightarrow> nat \<Rightarrow> 'a list \<Rightarrow> bool" where
  "heap lo hi xs \<longleftrightarrow> (\<forall>j. 1 \<le> j \<and> j \<le> hi \<and> lo \<le> j div 2 \<longrightarrow> c (xs ! j) (xs ! (j div 2)) \<le> 0)"

text \<open>A heap but for the edges below \<open>r\<close>.\<close>

definition heap_but :: "nat \<Rightarrow> nat \<Rightarrow> nat \<Rightarrow> 'a list \<Rightarrow> bool" where
  "heap_but r lo hi xs \<longleftrightarrow>
     (\<forall>j. 1 \<le> j \<and> j \<le> hi \<and> lo \<le> j div 2 \<and> j div 2 \<noteq> r \<longrightarrow> c (xs ! j) (xs ! (j div 2)) \<le> 0) \<and>
     (\<forall>j. 1 \<le> r \<and> r < j \<and> j \<le> hi \<and> j div 2 = r \<and> lo \<le> r div 2 \<longrightarrow> c (xs ! j) (xs ! (r div 2)) \<le> 0)"

lemma refl: "x \<in> S \<Longrightarrow> c x x \<le> 0"
  by (simp add: self)

lemma heap_butD1: "heap_but r lo hi xs \<Longrightarrow> 1 \<le> j \<Longrightarrow> j \<le> hi \<Longrightarrow> lo \<le> j div 2 \<Longrightarrow> j div 2 \<noteq> r \<Longrightarrow>
    c (xs ! j) (xs ! (j div 2)) \<le> 0"
  by (simp add: heap_but_def)

lemma heap_butD2: "heap_but r lo hi xs \<Longrightarrow> 1 \<le> r \<Longrightarrow> r < j \<Longrightarrow> j \<le> hi \<Longrightarrow> j div 2 = r \<Longrightarrow> lo \<le> r div 2 \<Longrightarrow>
    c (xs ! j) (xs ! (r div 2)) \<le> 0"
  by (simp add: heap_but_def)

lemma child_cases: "1 \<le> j \<Longrightarrow> j div 2 = r \<Longrightarrow> j = r * 2 \<or> j = r * 2 + (1::nat)"
  by arith

text \<open>One exchange of a node with its greater child \<open>k\<close>.\<close>

lemma swap_step:
  assumes h: "heap_but r lo hi xs" and S: "set xs \<subseteq> S" and len: "hi < length xs"
    and k: "r < k" "k \<le> hi" "k div 2 = r" "lo \<le> r" and lt: "c (xs ! r) (xs ! k) \<le> 0"
    and max: "\<And>j. 1 \<le> j \<Longrightarrow> j \<le> hi \<Longrightarrow> j div 2 = r \<Longrightarrow> c (xs ! j) (xs ! k) \<le> 0"
  shows "heap_but k lo hi (xs[r := xs ! k, k := xs ! r])"
proof -
  let ?ys = "xs[r := xs ! k, k := xs ! r]"
  have nth: "?ys ! j = (if j = k then xs ! r else if j = r then xs ! k else xs ! j)" if "j \<le> hi" for j
    using that k len by (simp add: nth_list_update)
  have le: "c (?ys ! j) (?ys ! (j div 2)) \<le> 0"
    if j: "1 \<le> j" "j \<le> hi" "lo \<le> j div 2" "j div 2 \<noteq> k" for j
  proof -
    have par: "j div 2 \<le> hi" using j(2) by (rule le_trans [OF div_le_dividend])
    consider "j = k" | "j \<noteq> k" "j div 2 = r" | "j = r" "j \<noteq> k" "j div 2 \<noteq> r" | "j \<noteq> r" "j \<noteq> k" "j div 2 \<noteq> r" by blast
    then show ?thesis
    proof cases
      case 1
      with k lt nth [of j] nth [of "j div 2"] j show ?thesis by simp
    next
      case 2
      have "c (xs ! j) (xs ! k) \<le> 0" using max [of j] 2 j by blast
      moreover have "xs ! k \<in> S" using S len k by auto
      ultimately have "c (?ys ! j) (xs ! k) \<le> 0" using nth [OF j(2)] 2(1) by (simp add: refl)
      moreover have "?ys ! (j div 2) = xs ! k" using nth [of r] k 2 by simp
      ultimately show ?thesis by simp
    next
      case 3
      have "c (xs ! k) (xs ! (j div 2)) \<le> 0" using heap_butD2 [OF h _ k(1,2,3)] 3(1) j(1,3) by blast
      moreover have "?ys ! j = xs ! k" using nth [OF j(2)] 3(1,2) by simp
      moreover have "?ys ! (j div 2) = xs ! (j div 2)" using nth [OF par] 3(3) j(4) by (simp only: if_False)
      ultimately show ?thesis by (simp only:)
    next
      case 4
      have "?ys ! j = xs ! j" using nth [OF j(2)] 4(1,2) by (simp only: if_False)
      moreover have "?ys ! (j div 2) = xs ! (j div 2)" using nth [OF par] 4(3) j(4) by (simp only: if_False)
      ultimately show ?thesis using heap_butD1 [OF h j(1,2,3) 4(3)] by (simp only:)
    qed
  qed
  have grand: "c (?ys ! j) (?ys ! (k div 2)) \<le> 0" if j: "k < j" "j \<le> hi" "j div 2 = k" for j
  proof -
    have "c (xs ! j) (xs ! (j div 2)) \<le> 0" using heap_butD1 [OF h _ j(2)] j k by simp
    moreover have "?ys ! j = xs ! j" "?ys ! (k div 2) = xs ! k" using nth [OF j(2)] nth [of r] j k by simp_all
    ultimately show ?thesis using j(3) by simp
  qed
  show ?thesis unfolding heap_but_def using le grand by blast
qed

lemma heap_but_complete:
  assumes "heap_but r lo hi xs" "\<And>j. 1 \<le> j \<Longrightarrow> j \<le> hi \<Longrightarrow> j div 2 = r \<Longrightarrow> c (xs ! j) (xs ! r) \<le> 0"
  shows "heap lo hi xs"
  unfolding heap_def
proof (intro allI impI)
  fix j assume "1 \<le> j \<and> j \<le> hi \<and> lo \<le> j div 2"
  then show "c (xs ! j) (xs ! (j div 2)) \<le> 0"
    using heap_butD1 [OF assms(1), of j] assms(2) [of j] by (cases "j div 2 = r") simp_all
qed

definition sifted :: "nat \<Rightarrow> nat \<Rightarrow> 'a list \<Rightarrow> 'a list \<Rightarrow> bool" where
  "sifted lo hi xs ys \<longleftrightarrow> mset ys = mset xs \<and> length ys = length xs \<and> (\<forall>j>hi. ys ! j = xs ! j) \<and> heap lo hi ys"

lemma mset_exchange: "i < length xs \<Longrightarrow> j < length xs \<Longrightarrow> mset (xs[i := xs ! j, j := xs ! i]) = mset xs"
  by (cases "i = j") (simp_all add: mset_swap)

lemma sift_ok:
  assumes "heap_but r lo hi xs" "set xs \<subseteq> S" "hi < length xs" "lo \<le> r"
  shows "\<exists>ys. sift_list c r hi xs = Some ys \<and> sifted lo hi xs ys"
  using assms
proof (induction "hi + 1 - r" arbitrary: r xs rule: less_induct)
  case less
  note h = less.prems(1) and S = less.prems(2) and len = less.prems(3)
  have inS: "xs ! i \<in> S" if "i \<le> hi" for i using S len that by auto
  show ?case
  proof (cases "r * 2 \<le> hi")
    case False
    have "heap lo hi xs"
      by (rule heap_but_complete [OF h]) (use False in \<open>auto\<close>)
    with False show ?thesis by (auto simp: sift_list.simps sifted_def)
  next
    case True
    define k where "k = greater_child c r hi xs"
    note k_def' = k_def [unfolded greater_child_def]
    have k: "k \<le> hi" "k div 2 = r" "r \<le> k" "1 \<le> r \<Longrightarrow> r < k"
      using True by (auto simp: k_def' split: if_splits)
    have left: "c (xs ! (r * 2)) (xs ! k) \<le> 0"
      using inS True by (auto simp: k_def' refl self)
    have right: "c (xs ! (r * 2 + 1)) (xs ! k) \<le> 0" if "r * 2 + 1 \<le> hi"
      using inS that flip [of "xs ! (r * 2)" "xs ! (r * 2 + 1)"] by (auto simp: k_def' refl)
    have max: "c (xs ! j) (xs ! k) \<le> 0" if "1 \<le> j" "j \<le> hi" "j div 2 = r" for j
      using child_cases [OF that(1,3)] left right that(2) by blast
    have rhi: "r \<le> hi" using True by simp
    show ?thesis
    proof (cases "c (xs ! r) (xs ! k) < 0")
      case False
      have "c (xs ! k) (xs ! r) \<le> 0" using flip inS rhi k(1) False by (simp add: not_less)
      then have "heap lo hi xs"
        using heap_but_complete [OF h] max trans inS rhi k(1) by (meson le_trans)
      moreover have "sift_list c r hi xs = Some xs"
        using True False by (simp add: sift_list.simps [of c r hi xs] k_def [symmetric])
      ultimately show ?thesis by (simp add: sifted_def)
    next
      case lt: True
      then have "r \<noteq> k" using self inS rhi by auto
      with k have rk: "r < k" by simp
      let ?ys = "xs[r := xs ! k, k := xs ! r]"
      have hk: "heap_but k lo hi ?ys"
        by (rule swap_step [OF h S len rk k(1,2) less.prems(4)]) (use lt max in auto)
      have m: "mset ?ys = mset xs" by (rule mset_exchange) (use rhi k(1) len in simp_all)
      then have "set ?ys \<subseteq> S" using S by (metis set_mset_mset)
      moreover have "hi + 1 - k < hi + 1 - r" "hi < length ?ys" "lo \<le> k" using rk rhi len less.prems(4) by simp_all
      ultimately obtain ys where
        ys: "sift_list c k hi ?ys = Some ys" "sifted lo hi ?ys ys" using less.hyps [of k ?ys] hk by meson
      have "sift_list c r hi xs = sift_list c k hi ?ys"
        using True lt \<open>r \<noteq> k\<close> by (simp add: sift_list.simps [of c r hi xs] k_def [symmetric])
      moreover have "sifted lo hi xs ys" using ys(2) m rhi k(1) by (simp add: sifted_def)
      ultimately show ?thesis using ys(1) by auto
    qed
  qed
qed

lemma heap_but_from_heap:
  assumes "heap (Suc r) hi xs" shows "heap_but r r hi xs"
  unfolding heap_but_def
proof (intro conjI allI impI)
  fix j assume "1 \<le> j \<and> j \<le> hi \<and> r \<le> j div 2 \<and> j div 2 \<noteq> r"
  then show "c (xs ! j) (xs ! (j div 2)) \<le> 0" using assms by (simp add: heap_def)
qed auto

lemma sifted_set: "sifted lo hi xs ys \<Longrightarrow> set ys = set xs"
  by (metis sifted_def set_mset_mset)

lemma build_ok:
  assumes "heap (Suc i) hi xs" "set xs \<subseteq> S" "hi < length xs"
  shows "\<exists>ys. build_list c hi i xs = Some ys \<and> sifted 0 hi xs ys"
  using assms
proof (induction i arbitrary: xs)
  case 0
  then show ?case using sift_ok [OF heap_but_from_heap [OF 0(1)] 0(2,3)] by simp
next
  case (Suc i)
  obtain zs where zs: "sift_list c (Suc i) hi xs = Some zs" "sifted (Suc i) hi xs zs"
    using sift_ok [OF heap_but_from_heap [OF Suc.prems(1)] Suc.prems(2,3)] by auto
  with Suc.IH [of zs] sifted_set [OF zs(2)] Suc.prems(2,3) obtain ys where
    "build_list c hi i zs = Some ys" "sifted 0 hi zs ys" by (auto simp: sifted_def)
  with zs show ?case by (auto simp: sifted_def)
qed

lemma heap_top:
  assumes "heap 0 hi xs" "set xs \<subseteq> S" "hi < length xs" "j \<le> hi"
  shows "c (xs ! j) (xs ! 0) \<le> 0"
  using assms(4)
proof (induction j rule: less_induct)
  case (less j)
  have inS: "xs ! i \<in> S" if "i \<le> hi" for i using assms(2,3) that by auto
  show ?case
  proof (cases "j = 0")
    case True
    with inS show ?thesis by (simp add: self)
  next
    case False
    then have "c (xs ! j) (xs ! (j div 2)) \<le> 0" using assms(1) less.prems by (simp add: heap_def)
    moreover have "c (xs ! (j div 2)) (xs ! 0) \<le> 0" using less.IH [of "j div 2"] False less.prems by simp
    moreover have "j div 2 \<le> hi" using less.prems by simp
    ultimately show ?thesis using trans inS less.prems by (meson le0 le_trans)
  qed
qed

text \<open>The state of the second loop before the step \<open>i\<close>.\<close>

definition parted :: "nat \<Rightarrow> 'a list \<Rightarrow> bool" where
  "parted i xs \<longleftrightarrow> heap 0 i xs \<and>
     (\<forall>p q. p \<le> i \<and> i < q \<and> q < length xs \<longrightarrow> c (xs ! p) (xs ! q) \<le> 0) \<and>
     (\<forall>p q. i < p \<and> p < q \<and> q < length xs \<longrightarrow> c (xs ! p) (xs ! q) \<le> 0)"

lemma same_prefix:
  assumes "mset ys = mset xs" "length ys = length xs" "\<forall>j>i. ys ! j = xs ! j" "p \<le> i" "i < length xs"
  shows "\<exists>q\<le>i. ys ! p = xs ! q"
proof -
  have "drop (Suc i) ys = drop (Suc i) xs"
    by (rule nth_equalityI) (use assms in auto)
  moreover have "mset (take (Suc i) ys) + mset (drop (Suc i) ys) = mset (take (Suc i) xs) + mset (drop (Suc i) xs)"
    using assms(1) by (metis append_take_drop_id mset_append)
  ultimately have "set (take (Suc i) ys) = set (take (Suc i) xs)" by (metis add_right_cancel set_mset_mset)
  moreover have "ys ! p \<in> set (take (Suc i) ys)"
    using assms(2,4,5) by (auto simp: in_set_conv_nth intro!: exI [of _ p])
  ultimately show ?thesis by (auto simp: in_set_conv_nth less_Suc_eq_le)
qed

lemma extract_step:
  assumes P: "parted (Suc i) xs" and S: "set xs \<subseteq> S" and len: "Suc i < length xs"
  shows "\<exists>ys. sift_list c 0 i (xs[0 := xs ! Suc i, Suc i := xs ! 0]) = Some ys \<and> parted i ys \<and>
    mset ys = mset xs \<and> length ys = length xs"
proof -
  let ?zs = "xs[0 := xs ! Suc i, Suc i := xs ! 0]"
  have h: "heap 0 (Suc i) xs" using P by (simp add: parted_def)
  have m: "mset ?zs = mset xs" by (rule mset_exchange) (use len in linarith)+
  then have S': "set ?zs \<subseteq> S" using S by (metis set_mset_mset)
  have "xs \<noteq> []" using len by auto
  then have nth: "?zs ! j = (if j = Suc i then xs ! 0 else if j = 0 then xs ! Suc i else xs ! j)" if "j < length xs" for j
    using that len by (simp add: nth_list_update)
  have "heap_but 0 0 i ?zs"
    unfolding heap_but_def using h nth len by (auto simp: heap_def)
  from sift_ok [OF this S'] len obtain ys where
    ys: "sift_list c 0 i ?zs = Some ys" and s: "sifted 0 i ?zs ys" by auto
  have ylen: "length ys = length xs" and ym: "mset ys = mset ?zs" and hi: "\<forall>j>i. ys ! j = ?zs ! j"
    using s by (simp_all add: sifted_def)
  have top: "c (?zs ! p) (xs ! 0) \<le> 0" if "p \<le> i" for p
    using heap_top [OF h S len, of "if p = 0 then Suc i else p"] nth [of p] that len by (simp split: if_splits)
  have low: "c (?zs ! p) (xs ! q) \<le> 0" if "p \<le> i" "Suc i < q" "q < length xs" for p q
    using P nth [of p] that len by (auto simp: parted_def)
  have "parted i ys"
    unfolding parted_def
  proof (intro conjI allI impI)
    show "heap 0 i ys" using s by (simp add: sifted_def)
    fix p q assume pq: "p \<le> i \<and> i < q \<and> q < length ys"
    then obtain p' where p': "p' \<le> i" "ys ! p = ?zs ! p'"
      using same_prefix [OF ym _ hi, of p] ylen len by auto
    have "ys ! q = ?zs ! q" using hi pq by simp
    then show "c (ys ! p) (ys ! q) \<le> 0"
      using top [OF p'(1)] low [OF p'(1), of q] nth [of q] pq p'(2) ylen by (cases "q = Suc i") auto
  next
    fix p q assume pq: "i < p \<and> p < q \<and> q < length ys"
    then have "ys ! p = ?zs ! p" "ys ! q = ?zs ! q" using hi by auto
    moreover have "c (xs ! 0) (xs ! q) \<le> 0" using P pq ylen by (auto simp: parted_def)
    moreover have "c (xs ! p) (xs ! q) \<le> 0" if "Suc i < p" using P pq ylen that by (auto simp: parted_def)
    ultimately show "c (ys ! p) (ys ! q) \<le> 0"
      using nth [of p] nth [of q] pq ylen by (cases "p = Suc i") auto
  qed
  with ys ym m ylen show ?thesis by auto
qed

lemma extract_ok:
  assumes "parted i xs" "set xs \<subseteq> S" "i < length xs"
  shows "\<exists>ys. extract_list c i xs = Some ys \<and> mset ys = mset xs \<and> sorted_wrt (\<lambda>x y. c x y \<le> 0) ys"
  using assms
proof (induction i arbitrary: xs)
  case 0
  have "c (xs ! p) (xs ! q) \<le> 0" if "p < q" "q < length xs" for p q
    using 0(1) that by (cases "p = 0") (auto simp: parted_def)
  then show ?case by (simp add: sorted_wrt_iff_nth_less)
next
  case (Suc i)
  from extract_step [OF Suc.prems] obtain zs where
    zs: "sift_list c 0 i (xs[0 := xs ! Suc i, Suc i := xs ! 0]) = Some zs" "parted i zs" "mset zs = mset xs"
      "length zs = length xs" by auto
  then have "set zs \<subseteq> S" using Suc.prems(2) by (metis set_mset_mset)
  with Suc.IH [OF zs(2)] zs Suc.prems(3) show ?case by auto
qed

lemma sort_list_ok:
  assumes "set xs \<subseteq> S" "1 < length xs"
  shows "\<exists>ys. sort_list c xs = Some ys \<and> mset ys = mset xs \<and> sorted_wrt (\<lambda>x y. c x y \<le> 0) ys"
proof -
  have "heap (Suc (length xs div 2)) (length xs - 1) xs" by (auto simp: heap_def)
  moreover have "length xs - 1 < length xs" using assms(2) by simp
  ultimately obtain zs where
    zs: "build_list c (length xs - 1) (length xs div 2) xs = Some zs" "sifted 0 (length xs - 1) xs zs"
    using build_ok assms(1) by meson
  then have "parted (length xs - 1) zs" using assms(2) by (auto simp: parted_def sifted_def)
  moreover have "set zs \<subseteq> S" "length zs = length xs" "mset zs = mset xs"
    using sifted_set [OF zs(2)] zs(2) assms(1) by (auto simp: sifted_def)
  ultimately show ?thesis using extract_ok [of "length xs - 1" zs] zs(1) assms(2) by (auto simp: sort_list_def)
qed

end

end
