(* ===== verification/Sq_Baselib.thy ===== *)
theory Sq_Baselib
  imports Sq_Sort
begin

text \<open>
  The functions scripts call on tables, arrays, strings, closures and classes (\<^verbatim>\<open>sqbaselib.cpp\<close>).
  A native function returns the machine and the number of results it left on the stack, or
  \<^verbatim>\<open>SQ_ERROR\<close>.  The type masks of the registration are checked by \<open>CallNative\<close>, so a wrong type of
  the receiver is \<open>None\<close> here.

  A local C++ reference to a stack cell is a pair of an index and the number of times the stack had
  moved when it was taken: reading it after the stack moved again is undefined and is \<open>None\<close>.
\<close>

subsection \<open>References into the stack\<close>

definition stack_ref :: "machine \<Rightarrow> int \<Rightarrow> int \<times> nat" where
  "stack_ref m idx = (if idx \<ge> 0 then idx + m_stackbase m - 1 else m_top m + idx, m_moves m)"

definition ref_get :: "machine \<Rightarrow> int \<times> nat \<Rightarrow> sqobject option" where
  "ref_get m r = (if snd r = m_moves m then st_get m (fst r) else None)"

definition array_arg :: "machine \<Rightarrow> int \<Rightarrow> (addr \<times> sqarray) option" where
  "array_arg m idx = do {
     x \<leftarrow> stack_get m idx;
     case x of OArray a \<Rightarrow> do { arr \<leftarrow> v_arrays m a; Some (a, arr) } | _ \<Rightarrow> None }"

definition table_arg :: "machine \<Rightarrow> int \<Rightarrow> (addr \<times> sqtable) option" where
  "table_arg m idx = do {
     x \<leftarrow> stack_get m idx;
     case x of OTable a \<Rightarrow> do { t \<leftarrow> v_tables m a; Some (a, t) } | _ \<Rightarrow> None }"

text \<open>\<^verbatim>\<open>SQ_SUCCEEDED(r) ? 1 : SQ_ERROR\<close>.\<close>

definition one_result :: "api \<Rightarrow> api" where
  "one_result r = map_option (\<lambda>(m, ret). (m, if ret \<noteq> SQ_ERROR then 1 else SQ_ERROR)) r"

definition push_result :: "machine option \<Rightarrow> api" where
  "push_result m = map_option (\<lambda>m1. (m1, 1)) m"

subsection \<open>Generic functions\<close>

definition base_dummy :: "machine \<Rightarrow> api" where
  "base_dummy m = Some (m, 0)"

definition base_getroottable :: "machine \<Rightarrow> api" where
  "base_getroottable m = push_result (Push m (m_roottable m))"

definition base_getconsttable :: "machine \<Rightarrow> api" where
  "base_getconsttable m = push_result (Push m (m_consts m))"

definition base_setroottable :: "machine \<Rightarrow> api" where
  "base_setroottable m = do {
     (m1, r) \<leftarrow> sq_setroottable m;
     if r = SQ_ERROR then Some (m1, SQ_ERROR) else push_result (Push m1 (m_roottable m)) }"

definition base_setconsttable :: "machine \<Rightarrow> api" where
  "base_setconsttable m = do {
     (m1, r) \<leftarrow> sq_setconsttable m;
     if r = SQ_ERROR then Some (m1, SQ_ERROR) else push_result (Push m1 (m_consts m)) }"

definition base_seterrorhandler :: "machine \<Rightarrow> api" where
  "base_seterrorhandler m = map_option (\<lambda>m1. (m1, 0)) (sq_seterrorhandler m)"

text \<open>The message of a failed assertion is a C string: it ends at the first zero byte.\<close>

definition base_assert :: "mach_par \<Rightarrow> machine \<Rightarrow> api" where
  "base_assert par m = do {
     x \<leftarrow> stack_get m 2;
     if \<not> IsFalse x then Some (m, 0)
     else do {
       (m1, r) \<leftarrow> (if sq_gettop m > 2 then sq_tostring par m 3 else Some (m, SQ_ERROR));
       (m2, s) \<leftarrow> (if r = SQ_ERROR then Some (m1, None) else sq_getstring par m1 (-1));
       case s of
         Some t \<Rightarrow> Some (m2\<lparr> v_lasterror := ErrText (takeWhile (\<lambda>c. c \<noteq> 0) t) \<rparr>, SQ_ERROR)
       | None \<Rightarrow> sq_throwerror m2 ''assertion failed'' } }"

text \<open>A negative size asks for more memory than there is.\<close>

definition base_array :: "mach_par \<Rightarrow> machine \<Rightarrow> api" where
  "base_array par m = do {
     n \<leftarrow> stack_get m 2;
     let sz = sint (tointeger n);
     if sz < 0 then None
     else do {
       arr \<leftarrow> (if sq_gettop m > 2 then do { fill \<leftarrow> stack_get m 3; Some (arr_Resize (SQArray_new 0) (nat sz) fill) }
              else Some (SQArray_new (nat sz)));
       push_result (let (m1, x) = new_array par arr m in Push m1 x) } }"

definition base_type :: "mach_par \<Rightarrow> machine \<Rightarrow> api" where
  "base_type par m = do {
     x \<leftarrow> stack_get m 2;
     push_result (let (m1, s) = mk_string par (bytes_of (GetTypeName x)) m in Push m1 s) }"

definition base_callee :: "machine \<Rightarrow> api" where
  "base_callee m =
     (if length (m_calls m) > 1
      then push_result (Push m (ci_closure (m_calls m ! (length (m_calls m) - 2))))
      else sq_throwerror m ''no closure in the calls stack'')"

text \<open>The bounds of a slice.  A given end that is not a number counts as 0, and null is a number for
  \<^verbatim>\<open>sq_isnumeric\<close>.\<close>

definition get_slice_params :: "machine \<Rightarrow> (machine \<times> sqint \<times> sqint \<times> sqobject) option" where
  "get_slice_params m = do {
     self \<leftarrow> stack_get m 1;
     sidx \<leftarrow> (if sq_gettop m > 1 then do {
                s \<leftarrow> stack_get m 2; Some (if s \<noteq> ONull \<and> sq_isnumeric s then tointeger s else 0) }
             else Some 0);
     (m1, eidx) \<leftarrow> (if sq_gettop m > 2 then do {
                e \<leftarrow> stack_get m 3; Some (m, if sq_isnumeric e then tointeger e else 0) }
             else do { (m1, n) \<leftarrow> sq_getsize m 1; Some (m1, word_of_int n) });
     Some (m1, sidx, eidx, self) }"

text \<open>The checked range of a slice of something of length \<open>len\<close>.\<close>

definition slice_range :: "sqint \<Rightarrow> sqint \<Rightarrow> sqint \<Rightarrow> string + (nat \<times> nat)" where
  "slice_range len sidx eidx =
     (let s = (if sint sidx < 0 then len + sidx else sidx);
          e = (if sint eidx < 0 then len + eidx else eidx) in
      if sint e < sint s then Inl ''wrong indexes''
      else if sint e > sint len \<or> sint s < 0 then Inl ''slice out of range''
      else Inr (nat (sint s), nat (sint e)))"

subsection \<open>Functions of every object\<close>

definition default_delegate_len :: "machine \<Rightarrow> api" where
  "default_delegate_len m = do { (m1, n) \<leftarrow> sq_getsize m 1; push_result (Push m1 (OInteger (word_of_int n))) }"

definition default_delegate_tostring :: "mach_par \<Rightarrow> machine \<Rightarrow> api" where
  "default_delegate_tostring par m = one_result (sq_tostring par m 1)"

definition obj_delegate_weakref :: "mach_par \<Rightarrow> machine \<Rightarrow> api" where
  "obj_delegate_weakref par m = push_result (sq_weakref par m 1)"

definition obj_clear :: "mach_par \<Rightarrow> machine \<Rightarrow> api" where
  "obj_clear par m = one_result (sq_clear par m (-1))"

definition number_delegate_tochar :: "mach_par \<Rightarrow> machine \<Rightarrow> api" where
  "number_delegate_tochar par m = do {
     x \<leftarrow> stack_get m 1;
     push_result (let (m1, s) = mk_string par [ucast (tointeger x)] m in Push m1 s) }"

subsection \<open>Tables\<close>

definition table_rawdelete :: "mach_par \<Rightarrow> machine \<Rightarrow> api" where
  "table_rawdelete par m = one_result (sq_rawdeleteslot par m 1 True)"

definition container_rawexists :: "mach_par \<Rightarrow> machine \<Rightarrow> api" where
  "container_rawexists par m = do {
     (m1, r) \<leftarrow> sq_rawget par m (-2);
     push_result (sq_pushbool m1 (if r \<noteq> SQ_ERROR then 1 else 0)) }"

definition container_rawset :: "nat \<Rightarrow> mach_par \<Rightarrow> machine \<Rightarrow> api" where
  "container_rawset fuel par m = one_result (sq_rawset fuel par m (-3))"

definition container_rawsafeget :: "mach_par \<Rightarrow> machine \<Rightarrow> api" where
  "container_rawsafeget par m = do {
     (m1, r) \<leftarrow> sq_rawget par m (-2);
     if r \<noteq> SQ_ERROR then Some (m1, 1) else push_result (sq_pushinteger m1 0) }"

definition container_rawget :: "mach_par \<Rightarrow> machine \<Rightarrow> api" where
  "container_rawget par m = one_result (sq_rawget par m (-2))"

definition table_setdelegate :: "machine \<Rightarrow> api" where
  "table_setdelegate m = do {
     (m1, r) \<leftarrow> sq_setdelegate m (-2);
     if r = SQ_ERROR then Some (m1, SQ_ERROR) else push_result (sq_push m1 (-1)) }"

definition table_getdelegate :: "machine \<Rightarrow> api" where
  "table_getdelegate m = one_result (sq_getdelegate m (-1))"

text \<open>The call of the function on top of which three values are pushed: the machine with the result on
  top, or the failure.\<close>

definition call3 :: "mach_par \<Rightarrow> machine \<Rightarrow> sqobject \<Rightarrow> sqobject \<Rightarrow> sqobject \<Rightarrow> api" where
  "call3 par m x y z = do { m1 \<leftarrow> Push m x; m2 \<leftarrow> Push m1 y; m3 \<leftarrow> Push m2 z; sq_call par m3 3 True }"

text \<open>The loop of \<^verbatim>\<open>table_filter\<close>; the called function may change the table, so it need not end.\<close>

partial_function (option) filter_table ::
  "mach_par \<Rightarrow> addr \<Rightarrow> int \<times> nat \<Rightarrow> addr \<Rightarrow> sqobject \<Rightarrow> machine \<Rightarrow> (machine \<times> bool) option" where
  "filter_table par a o1 ret itr m = do {
     t \<leftarrow> v_tables m a;
     n \<leftarrow> tbl_Next (realval (deref m)) t False itr;
     case n of
       None \<Rightarrow> Some (m, True)
     | Some nkv \<Rightarrow> do {
         self \<leftarrow> ref_get m o1;
         mr \<leftarrow> call3 par m self (fst (snd nkv)) (snd (snd nkv));
         if snd mr = SQ_ERROR then Some (fst mr, False)
         else do {
           res \<leftarrow> GetUp (fst mr) (-1);
           m2 \<leftarrow> (if IsFalse res then Some (fst mr)
                 else do {
                   rt \<leftarrow> v_tables (fst mr) ret;
                   tb \<leftarrow> NewSlot (vp_hsh (mp_vm par)) rt (fst (snd nkv)) (snd (snd nkv));
                   Some (put_table (fst mr) ret (fst tb)) });
           m3 \<leftarrow> vm_Pop m2;
           filter_table par a o1 ret (OInteger (fst nkv)) m3 } } }"

definition table_filter :: "mach_par \<Rightarrow> machine \<Rightarrow> api" where
  "table_filter par m = do {
     (a, t) \<leftarrow> table_arg m 1;
     let ret = mp_new par m;
     (m1, ok) \<leftarrow> filter_table par a (stack_ref m 1) ret ONull (put_table m ret (SQTable_new 0));
     if ok then push_result (Push m1 (OTable ret)) else Some (m1, SQ_ERROR) }"

text \<open>The loop of \<^verbatim>\<open>table_map\<close>; a result beyond the length taken before the loop is dropped.\<close>

partial_function (option) map_table ::
  "mach_par \<Rightarrow> addr \<Rightarrow> int \<times> nat \<Rightarrow> addr \<Rightarrow> sqint \<Rightarrow> sqobject \<Rightarrow> machine \<Rightarrow> (machine \<times> bool) option" where
  "map_table par a o1 ret n itr m = do {
     t \<leftarrow> v_tables m a;
     nx \<leftarrow> tbl_Next (realval (deref m)) t False itr;
     case nx of
       None \<Rightarrow> Some (m, True)
     | Some nkv \<Rightarrow> do {
         self \<leftarrow> ref_get m o1;
         mr \<leftarrow> call3 par m self (fst (snd nkv)) (snd (snd nkv));
         if snd mr = SQ_ERROR then Some (fst mr, False)
         else do {
           res \<leftarrow> GetUp (fst mr) (-1);
           arr \<leftarrow> v_arrays (fst mr) ret;
           m3 \<leftarrow> vm_Pop (put_array (fst mr) ret (fst (arr_Set arr n res)));
           map_table par a o1 ret (n + 1) (OInteger (fst nkv)) m3 } } }"

definition script_table_map :: "mach_par \<Rightarrow> machine \<Rightarrow> api" where
  "script_table_map par m = do {
     (a, t) \<leftarrow> table_arg m 1;
     let ret = mp_new par m;
     (m1, ok) \<leftarrow> map_table par a (stack_ref m 1) ret 0 ONull (put_array m ret (SQArray_new (nat (usednodes t))));
     if ok then push_result (Push m1 (OArray ret)) else Some (m1, SQ_ERROR) }"

text \<open>\<^verbatim>\<open>TABLE_TO_ARRAY_FUNC\<close>: \<open>val\<close> selects the value.\<close>

partial_function (option) collect_table ::
  "(sqobject \<Rightarrow> sqobject) \<Rightarrow> sqtable \<Rightarrow> bool \<Rightarrow> sqint \<Rightarrow> sqobject \<Rightarrow> sqarray \<Rightarrow> sqarray option" where
  "collect_table rv t val n itr arr = do {
     nx \<leftarrow> tbl_Next rv t False itr;
     case nx of
       None \<Rightarrow> Some arr
     | Some nkv \<Rightarrow>
         collect_table rv t val (n + 1) (OInteger (fst nkv))
           (fst (arr_Set arr n (if val then snd (snd nkv) else fst (snd nkv)))) }"

definition table_to_array :: "bool \<Rightarrow> mach_par \<Rightarrow> machine \<Rightarrow> api" where
  "table_to_array val par m = do {
     (a, t) \<leftarrow> table_arg m 1;
     let nitems = nat (usednodes t);
     let arr = arr_Resize (SQArray_new nitems) nitems ONull;
     arr1 \<leftarrow> (if nitems \<noteq> 0 then collect_table (realval (deref m)) t val 0 ONull arr else Some arr);
     push_result (let (m1, x) = new_array par arr1 m in Push m1 x) }"

definition table_keys :: "mach_par \<Rightarrow> machine \<Rightarrow> api" where
  "table_keys = table_to_array False"

definition table_values :: "mach_par \<Rightarrow> machine \<Rightarrow> api" where
  "table_values = table_to_array True"

subsection \<open>Arrays\<close>

definition array_append :: "mach_par \<Rightarrow> machine \<Rightarrow> api" where
  "array_append par m = one_result (sq_arrayappend par m (-2))"

definition array_extend :: "machine \<Rightarrow> api" where
  "array_extend m = do {
     (a, arr) \<leftarrow> array_arg m 1;
     (b, brr) \<leftarrow> array_arg m 2;
     push_result (sq_pop (put_array m a (arr_Extend arr brr)) 1) }"

definition array_reverse :: "mach_par \<Rightarrow> machine \<Rightarrow> api" where
  "array_reverse par m = one_result (sq_arrayreverse par m (-1))"

definition array_pop :: "mach_par \<Rightarrow> machine \<Rightarrow> api" where
  "array_pop par m = one_result (sq_arraypop par m 1 True)"

definition array_top :: "machine \<Rightarrow> api" where
  "array_top m = do {
     (a, arr) \<leftarrow> array_arg m 1;
     if arr_Size arr > 0 then do { x \<leftarrow> arr_Top arr; push_result (Push m x) }
     else sq_throwerror m ''top() on a empty array'' }"

definition array_insert :: "machine \<Rightarrow> api" where
  "array_insert m = do {
     (a, arr) \<leftarrow> array_arg m 1;
     idx \<leftarrow> stack_get m 2;
     val \<leftarrow> stack_get m 3;
     (arr1, ok) \<leftarrow> arr_Insert arr (tointeger idx) val;
     if \<not> ok then sq_throwerror m ''index out of range''
     else push_result (sq_pop (put_array m a arr1) 2) }"

definition array_remove :: "machine \<Rightarrow> api" where
  "array_remove m = do {
     (a, arr) \<leftarrow> array_arg m 1;
     idx \<leftarrow> stack_get m 2;
     if \<not> sq_isnumeric idx then sq_throwerror m ''wrong type''
     else case arr_Get (realval (deref m)) arr (tointeger idx) of
       Some val \<Rightarrow> do {
         (arr1, _) \<leftarrow> arr_Remove arr (tointeger idx);
         push_result (Push (put_array m a arr1) val) }
     | None \<Rightarrow> sq_throwerror m ''idx out of range'' }"

definition array_resize :: "machine \<Rightarrow> api" where
  "array_resize m = do {
     (a, arr) \<leftarrow> array_arg m 1;
     nsize \<leftarrow> stack_get m 2;
     if sq_isnumeric nsize then
       (let sz = sint (tointeger nsize) in
        if sz < 0 then sq_throwerror m ''resizing to negative length''
        else do {
          fill \<leftarrow> (if sq_gettop m > 2 then stack_get m 3 else Some ONull);
          push_result (sq_settop (put_array m a (arr_Resize arr (nat sz) fill)) 1) })
     else sq_throwerror m ''size must be a number'' }"

text \<open>\<^verbatim>\<open>arr->Get(n, temp)\<close> leaves \<open>temp\<close> as it was when the index is out of range.\<close>

definition get_or :: "machine \<Rightarrow> addr \<Rightarrow> nat \<Rightarrow> sqobject \<Rightarrow> sqobject option" where
  "get_or m a n old = do {
     arr \<leftarrow> v_arrays m a;
     Some (case arr_Get (realval (deref m)) arr (word_of_nat n) of Some x \<Rightarrow> x | None \<Rightarrow> old) }"

text \<open>How many arguments \<^verbatim>\<open>__map_array\<close> passes to its function.\<close>

definition map_nargs :: "machine \<Rightarrow> sqobject \<Rightarrow> int option" where
  "map_nargs m closure = (case closure of
     OClosure c \<Rightarrow> do { cl \<leftarrow> m_closures m c; f \<leftarrow> m_protos m (rc_function cl); Some (rp_nparameters f) }
   | ONativeClosure c \<Rightarrow> do { nc \<leftarrow> m_natives m c; Some (if rn_nparamscheck nc > 0 then rn_nparamscheck nc else 4) }
   | _ \<Rightarrow> Some 0)"

primrec map_loop ::
  "mach_par \<Rightarrow> addr \<Rightarrow> addr \<Rightarrow> int \<Rightarrow> nat \<Rightarrow> nat \<Rightarrow> sqobject \<Rightarrow> machine \<Rightarrow> (machine \<times> bool) option" where
  "map_loop par dest src nargs 0 n temp m = Some (m, True)"
| "map_loop par dest src nargs (Suc k) n temp m = do {
     temp1 \<leftarrow> get_or m src n temp;
     m1 \<leftarrow> Push m (OArray src);
     m2 \<leftarrow> Push m1 temp1;
     m3 \<leftarrow> (if nargs \<ge> 3 then Push m2 (OInteger (word_of_nat n)) else Some m2);
     m4 \<leftarrow> (if nargs \<ge> 4 then Push m3 (OArray src) else Some m3);
     (m5, r) \<leftarrow> sq_call par m4 nargs True;
     if r = SQ_ERROR then Some (m5, False)
     else do {
       res \<leftarrow> GetUp m5 (-1);
       arr \<leftarrow> v_arrays m5 dest;
       m6 \<leftarrow> vm_Pop (put_array m5 dest (fst (arr_Set arr (word_of_nat n) res)));
       map_loop par dest src nargs k (Suc n) temp1 m6 } }"

definition map_array :: "mach_par \<Rightarrow> addr \<Rightarrow> addr \<Rightarrow> machine \<Rightarrow> (machine \<times> bool) option" where
  "map_array par dest src m = do {
     arr \<leftarrow> v_arrays m src;
     closure \<leftarrow> stack_get m 2;
     nargs \<leftarrow> map_nargs m closure;
     m1 \<leftarrow> Push m closure;
     (m2, ok) \<leftarrow> map_loop par dest src nargs (arr_Size arr) 0 ONull m1;
     if ok then do { m3 \<leftarrow> vm_Pop m2; Some (m3, True) } else Some (m2, False) }"

definition array_map :: "mach_par \<Rightarrow> machine \<Rightarrow> api" where
  "array_map par m = do {
     (a, arr) \<leftarrow> array_arg m 1;
     let ret = mp_new par m;
     (m1, ok) \<leftarrow> map_array par ret a (put_array m ret (SQArray_new (arr_Size arr)));
     if ok then push_result (Push m1 (OArray ret)) else Some (m1, SQ_ERROR) }"

definition array_apply :: "mach_par \<Rightarrow> machine \<Rightarrow> api" where
  "array_apply par m = do {
     (a, arr) \<leftarrow> array_arg m 1;
     (m1, ok) \<leftarrow> map_array par a a m;
     if ok then push_result (sq_pop m1 1) else Some (m1, SQ_ERROR) }"

primrec reduce_loop ::
  "mach_par \<Rightarrow> addr \<Rightarrow> int \<times> nat \<Rightarrow> nat \<Rightarrow> nat \<Rightarrow> sqobject \<Rightarrow> sqobject \<Rightarrow> machine
    \<Rightarrow> (machine \<times> sqobject option) option" where
  "reduce_loop par a o1 0 n other res m = Some (m, Some res)"
| "reduce_loop par a o1 (Suc k) n other res m = do {
     other1 \<leftarrow> get_or m a n other;
     self \<leftarrow> ref_get m o1;
     (m1, r) \<leftarrow> call3 par m self res other1;
     if r = SQ_ERROR then Some (m1, None)
     else do {
       res1 \<leftarrow> GetUp m1 (-1);
       m2 \<leftarrow> vm_Pop m1;
       reduce_loop par a o1 k (Suc n) other1 res1 m2 } }"

definition array_reduce :: "mach_par \<Rightarrow> machine \<Rightarrow> api" where
  "array_reduce par m = do {
     (a, arr) \<leftarrow> array_arg m 1;
     start \<leftarrow> (if sq_gettop m > 2 then do { x \<leftarrow> stack_get m 3; Some (Some (x, 0)) }
              else if arr_Size arr = 0 then Some None
              else do { x \<leftarrow> get_or m a 0 ONull; Some (Some (x, 1)) });
     case start of
       None \<Rightarrow> Some (m, 0)
     | Some (res, iter_start) \<Rightarrow>
         if arr_Size arr > iter_start then do {
           f \<leftarrow> stack_get m 2;
           m1 \<leftarrow> Push m f;
           (m2, r) \<leftarrow> reduce_loop par a (stack_ref m 1) (arr_Size arr - iter_start) iter_start ONull res m1;
           case r of
             None \<Rightarrow> Some (m2, SQ_ERROR)
           | Some x \<Rightarrow> do { m3 \<leftarrow> vm_Pop m2; push_result (Push m3 x) } }
         else push_result (Push m res) }"

primrec filter_loop ::
  "mach_par \<Rightarrow> addr \<Rightarrow> int \<times> nat \<Rightarrow> addr \<Rightarrow> nat \<Rightarrow> nat \<Rightarrow> sqobject \<Rightarrow> machine \<Rightarrow> (machine \<times> bool) option" where
  "filter_loop par a o1 ret 0 n val m = Some (m, True)"
| "filter_loop par a o1 ret (Suc k) n val m = do {
     val1 \<leftarrow> get_or m a n val;
     self \<leftarrow> ref_get m o1;
     (m1, r) \<leftarrow> call3 par m self (OInteger (word_of_nat n)) val1;
     if r = SQ_ERROR then Some (m1, False)
     else do {
       res \<leftarrow> GetUp m1 (-1);
       m2 \<leftarrow> (if IsFalse res then Some m1
             else do { arr \<leftarrow> v_arrays m1 ret; Some (put_array m1 ret (arr_Append arr val1)) });
       m3 \<leftarrow> vm_Pop m2;
       filter_loop par a o1 ret k (Suc n) val1 m3 } }"

definition array_filter :: "mach_par \<Rightarrow> machine \<Rightarrow> api" where
  "array_filter par m = do {
     (a, arr) \<leftarrow> array_arg m 1;
     let ret = mp_new par m;
     (m1, ok) \<leftarrow> filter_loop par a (stack_ref m 1) ret (arr_Size arr) 0 ONull (put_array m ret (SQArray_new 0));
     if ok then push_result (Push m1 (OArray ret)) else Some (m1, SQ_ERROR) }"

primrec find_loop :: "(sqobject \<Rightarrow> sqobject) \<Rightarrow> sqarray \<Rightarrow> sqobject \<Rightarrow> nat \<Rightarrow> nat \<Rightarrow> sqobject \<Rightarrow> nat option" where
  "find_loop rv arr val 0 n temp = None"
| "find_loop rv arr val (Suc k) n temp =
     (let temp1 = (case arr_Get rv arr (word_of_nat n) of Some x \<Rightarrow> x | None \<Rightarrow> temp) in
      if IsEqual temp1 val then Some n else find_loop rv arr val k (Suc n) temp1)"

definition array_find :: "machine \<Rightarrow> api" where
  "array_find m = do {
     (a, arr) \<leftarrow> array_arg m 1;
     val \<leftarrow> stack_get m 2;
     case find_loop (realval (deref m)) arr val (arr_Size arr) 0 ONull of
       Some n \<Rightarrow> push_result (Push m (OInteger (word_of_nat n)))
     | None \<Rightarrow> Some (m, 0) }"

text \<open>The copy loop of \<^verbatim>\<open>array_slice\<close>.\<close>

primrec slice_loop :: "(sqobject \<Rightarrow> sqobject) \<Rightarrow> sqarray \<Rightarrow> nat \<Rightarrow> nat \<Rightarrow> nat \<Rightarrow> sqobject \<Rightarrow> sqarray \<Rightarrow> sqarray" where
  "slice_loop rv src 0 i cnt t dest = dest"
| "slice_loop rv src (Suc k) i cnt t dest =
     (let t1 = (case arr_Get rv src (word_of_nat i) of Some x \<Rightarrow> x | None \<Rightarrow> t) in
      slice_loop rv src k (Suc i) (Suc cnt) t1 (fst (arr_Set dest (word_of_nat cnt) t1)))"

definition array_slice :: "mach_par \<Rightarrow> machine \<Rightarrow> api" where
  "array_slice par m = do {
     (m1, sidx, eidx, self) \<leftarrow> get_slice_params m;
     case self of
       OArray a \<Rightarrow> do {
         arr \<leftarrow> v_arrays m1 a;
         case slice_range (word_of_nat (arr_Size arr)) sidx eidx of
           Inl err \<Rightarrow> sq_throwerror m1 err
         | Inr (s, e) \<Rightarrow>
             push_result (let (m2, x) = new_array par
                 (slice_loop (realval (deref m1)) arr (e - s) s 0 ONull (SQArray_new (e - s))) m1 in Push m2 x) }
     | _ \<Rightarrow> None }"

subsection \<open>Strings\<close>

definition string_slice :: "mach_par \<Rightarrow> machine \<Rightarrow> api" where
  "string_slice par m = do {
     (m1, sidx, eidx, self) \<leftarrow> get_slice_params m;
     case self of
       OString a \<Rightarrow> do {
         str \<leftarrow> v_strings m1 a;
         case slice_range (word_of_nat (length str)) sidx eidx of
           Inl err \<Rightarrow> sq_throwerror m1 err
         | Inr (s, e) \<Rightarrow> push_result (let (m2, x) = mk_string par (take (e - s) (drop s str)) m1 in Push m2 x) }
     | _ \<Rightarrow> None }"

text \<open>\<^verbatim>\<open>strstr\<close>: the first place of a C string in another.\<close>

definition c_str :: "sqchar list \<Rightarrow> sqchar list" where
  "c_str s = takeWhile (\<lambda>c. c \<noteq> 0) s"

fun strstr :: "sqchar list \<Rightarrow> sqchar list \<Rightarrow> nat option" where
  "strstr [] n = (if n = [] then Some 0 else None)"
| "strstr (c # cs) n = (if take (length n) (c # cs) = n then Some 0 else map_option Suc (strstr cs n))"

definition string_find :: "mach_par \<Rightarrow> machine \<Rightarrow> api" where
  "string_find par m = do {
     let top = sq_gettop m;
     (m1, s) \<leftarrow> (if top > 1 then sq_getstring par m 1 else Some (m, None));
     (m2, sub) \<leftarrow> (if s \<noteq> None then sq_getstring par m1 2 else Some (m1, None));
     case (s, sub) of
       (Some str, Some substr) \<Rightarrow> do {
         start \<leftarrow> (if top > 2 then map_option (\<lambda>r. case r of Some i \<Rightarrow> sint i | None \<Rightarrow> 0) (sq_getinteger m2 3)
                  else Some 0);
         if int (length str) > start \<and> start \<ge> 0 then
           (case strstr (c_str (drop (nat start) str)) (c_str substr) of
              Some k \<Rightarrow> push_result (sq_pushinteger m2 (word_of_nat (nat start + k)))
            | None \<Rightarrow> Some (m2, 0))
         else Some (m2, 0) }
     | _ \<Rightarrow> sq_throwerror m2 ''invalid param'' }"

text \<open>\<^verbatim>\<open>STRING_TOFUNCZ\<close> with the functions of the C locale.\<close>

definition c_tolower :: "sqchar \<Rightarrow> sqchar" where
  "c_tolower c = (if 65 \<le> c \<and> c \<le> 90 then c + 32 else c)"

definition c_toupper :: "sqchar \<Rightarrow> sqchar" where
  "c_toupper c = (if 97 \<le> c \<and> c \<le> 122 then c - 32 else c)"

definition string_convert :: "(sqchar \<Rightarrow> sqchar) \<Rightarrow> mach_par \<Rightarrow> machine \<Rightarrow> api" where
  "string_convert func par m = do {
     (m1, sidx, eidx, self) \<leftarrow> get_slice_params m;
     case self of
       OString a \<Rightarrow> do {
         str \<leftarrow> v_strings m1 a;
         case slice_range (word_of_nat (length str)) sidx eidx of
           Inl err \<Rightarrow> sq_throwerror m1 err
         | Inr (s, e) \<Rightarrow>
             push_result (let (m2, x) = mk_string par
                 (take s str @ map func (take (e - s) (drop s str)) @ drop e str) m1 in Push m2 x) }
     | _ \<Rightarrow> None }"

definition string_tolower :: "mach_par \<Rightarrow> machine \<Rightarrow> api" where
  "string_tolower = string_convert c_tolower"

definition string_toupper :: "mach_par \<Rightarrow> machine \<Rightarrow> api" where
  "string_toupper = string_convert c_toupper"

subsection \<open>Closures, generators and classes\<close>

definition closure_pcall :: "mach_par \<Rightarrow> machine \<Rightarrow> api" where
  "closure_pcall par m = one_result (sq_call par m (sq_gettop m - 1) True)"

text \<open>\<^verbatim>\<open>closure_call\<close> looks at the top of the stack, the last argument, for the closure.\<close>

definition closure_call :: "mach_par \<Rightarrow> machine \<Rightarrow> api" where
  "closure_call par m = do {
     c \<leftarrow> stack_get m (-1);
     tail \<leftarrow> (case c of
       OClosure a \<Rightarrow> do { cl \<leftarrow> m_closures m a; f \<leftarrow> m_protos m (rc_function cl); Some (\<not> rp_bgenerator f) }
     | _ \<Rightarrow> Some False);
     if tail then sq_tailcall par m (sq_gettop m - 1)
     else one_result (sq_call par m (sq_gettop m - 1) True) }"

primrec push_all :: "sqobject list \<Rightarrow> machine \<Rightarrow> machine option" where
  "push_all [] m = Some m"
| "push_all (x # xs) m = do { m1 \<leftarrow> Push m x; push_all xs m1 }"

text \<open>\<^verbatim>\<open>closure_acall\<close> and \<^verbatim>\<open>closure_pacall\<close> differ in whether an error is reported.\<close>

definition closure_acall :: "mach_par \<Rightarrow> machine \<Rightarrow> api" where
  "closure_acall par m = do {
     (a, arr) \<leftarrow> array_arg m 2;
     f \<leftarrow> stack_get m 1;
     m1 \<leftarrow> Push m f;
     m2 \<leftarrow> push_all (vals arr) m1;
     one_result (sq_call par m2 (int (arr_Size arr)) True) }"

definition closure_bindenv :: "mach_par \<Rightarrow> machine \<Rightarrow> api" where
  "closure_bindenv par m = one_result (sq_bindenv par m 1)"

definition closure_getroot :: "machine \<Rightarrow> api" where
  "closure_getroot m = one_result (sq_getclosureroot m (-1))"

definition closure_setroot :: "mach_par \<Rightarrow> machine \<Rightarrow> api" where
  "closure_setroot par m = one_result (sq_setclosureroot par m (-2))"

definition generator_getstatus :: "mach_par \<Rightarrow> machine \<Rightarrow> api" where
  "generator_getstatus par m = do {
     x \<leftarrow> stack_get m 1;
     case x of
       OGenerator a \<Rightarrow> do {
         g \<leftarrow> m_generators m a;
         push_result (let (m1, s) = mk_string par (bytes_of (case gn_state g of
             eSuspended \<Rightarrow> ''suspended'' | eRunning \<Rightarrow> ''running'' | eDead \<Rightarrow> ''dead'')) m in Push m1 s) }
     | _ \<Rightarrow> None }"

definition class_getattributes :: "mach_par \<Rightarrow> machine \<Rightarrow> api" where
  "class_getattributes par m = one_result (sq_getattributes par m (-2))"

definition class_setattributes :: "mach_par \<Rightarrow> machine \<Rightarrow> api" where
  "class_setattributes par m = one_result (sq_setattributes par m (-3))"

definition class_instance_new :: "mach_par \<Rightarrow> machine \<Rightarrow> api" where
  "class_instance_new par m = one_result (sq_createinstance par m (-1))"

definition class_getbase :: "mach_par \<Rightarrow> machine \<Rightarrow> api" where
  "class_getbase par m = one_result (sq_getbase par m (-1))"

definition newmember_args :: "machine \<Rightarrow> (machine \<times> bool) option" where
  "newmember_args m = do {
     let top = sq_gettop m;
     (m1, bstatic) \<leftarrow> (if top = 5 then do { b \<leftarrow> sq_tobool m (-1); m1 \<leftarrow> sq_pop m 1; Some (m1, b) } else Some (m, False));
     m2 \<leftarrow> (if top < 4 then sq_pushnull m1 else Some m1);
     Some (m2, bstatic) }"

definition class_newmember :: "mach_par \<Rightarrow> machine \<Rightarrow> api" where
  "class_newmember par m = do {
     (m1, bstatic) \<leftarrow> newmember_args m;
     one_result (sq_newmember par m1 (-4) bstatic) }"

definition class_rawnewmember :: "mach_par \<Rightarrow> machine \<Rightarrow> api" where
  "class_rawnewmember par m = do {
     (m1, bstatic) \<leftarrow> newmember_args m;
     one_result (sq_rawnewmember par m1 (-4) bstatic) }"

definition instance_getclass :: "mach_par \<Rightarrow> machine \<Rightarrow> api" where
  "instance_getclass par m = one_result (sq_getclass par m 1)"

definition weakref_ref :: "machine \<Rightarrow> api" where
  "weakref_ref m = one_result (sq_getweakrefval m 1)"

end
