(* ===== verification/Sq_StdString.thy ===== *)
theory Sq_StdString
  imports Sq_Baselib Sq_Lexer
begin

text \<open>
  The string functions of the standard library (\<^verbatim>\<open>sqstdstring.cpp\<close>): stripping, splitting, escaping
  and formatting.  A C string is its bytes; the terminating zero is not stored.  The type masks of the
  registration guarantee that the arguments are strings, so anything else is \<open>None\<close>, and so is a
  write outside a buffer.  \<^verbatim>\<open>printf\<close> on one conversion is a parameter; the size of the scratch pad of the
  shared state before the call is an argument of the functions that write to it.
\<close>

subsection \<open>Arguments and character classes\<close>

definition scisspace :: "sqchar \<Rightarrow> bool" where "scisspace c \<longleftrightarrow> in_range 9 13 c \<or> unat c = 32"
definition scisprint :: "sqchar \<Rightarrow> bool" where "scisprint c \<longleftrightarrow> in_range 32 126 c"

definition string_arg :: "machine \<Rightarrow> int \<Rightarrow> sqchar list option" where
  "string_arg m idx = do {
     x \<leftarrow> stack_get m idx;
     case x of OString a \<Rightarrow> v_strings m a | _ \<Rightarrow> None }"

definition push_text :: "mach_par \<Rightarrow> sqchar list \<Rightarrow> machine \<Rightarrow> machine option" where
  "push_text par s m = sq_pushstring par (Some s) m"

text \<open>\<^verbatim>\<open>sq_pushstring(v, s + start, len)\<close>: a negative length asks for \<^verbatim>\<open>strlen\<close>.\<close>

definition sub_text :: "sqchar list \<Rightarrow> nat \<Rightarrow> int \<Rightarrow> sqchar list" where
  "sub_text s start len = (if len < 0 then c_str (drop start s) else take (nat len) (drop start s))"

subsection \<open>Stripping\<close>

text \<open>\<^verbatim>\<open>__strip_l\<close> and \<^verbatim>\<open>__strip_r\<close>: the offsets of the first and behind the last kept character.\<close>

fun strip_l :: "sqchar list \<Rightarrow> nat" where
  "strip_l [] = 0"
| "strip_l (c # cs) = (if c \<noteq> 0 \<and> scisspace c then Suc (strip_l cs) else 0)"

primrec strip_r :: "sqchar list \<Rightarrow> nat \<Rightarrow> nat" where
  "strip_r s 0 = 0"
| "strip_r s (Suc t) = (if scisspace (s ! t) then strip_r s t else Suc t)"

definition string_strip :: "mach_par \<Rightarrow> machine \<Rightarrow> api" where
  "string_strip par m = do {
     s \<leftarrow> string_arg m 2;
     let start = strip_l s;
     push_result (push_text par (sub_text s start (int (strip_r s (length s)) - int start)) m) }"

definition string_lstrip :: "mach_par \<Rightarrow> machine \<Rightarrow> api" where
  "string_lstrip par m = do {
     s \<leftarrow> string_arg m 2;
     push_result (push_text par (sub_text s (strip_l s) (- 1)) m) }"

definition string_rstrip :: "mach_par \<Rightarrow> machine \<Rightarrow> api" where
  "string_rstrip par m = do {
     s \<leftarrow> string_arg m 2;
     push_result (push_text par (sub_text s 0 (int (strip_r s (length s)))) m) }"

subsection \<open>Splitting\<close>

text \<open>The piece from \<^verbatim>\<open>start\<close> to \<^verbatim>\<open>end\<close> is pushed and appended to the array below it.\<close>

definition append_piece :: "mach_par \<Rightarrow> sqchar list \<Rightarrow> machine \<Rightarrow> machine option" where
  "append_piece par piece m = do {
     m1 \<leftarrow> push_text par piece m;
     map_option fst (sq_arrayappend par m1 (-2)) }"

text \<open>The loop over \<^verbatim>\<open>end\<close>: \<open>piece\<close> is the text from \<^verbatim>\<open>start\<close>, the list what is left from \<^verbatim>\<open>end\<close> on.\<close>

fun split_loop :: "mach_par \<Rightarrow> sqchar list \<Rightarrow> bool \<Rightarrow> sqchar list \<Rightarrow> sqchar list \<Rightarrow> machine \<Rightarrow> machine option" where
  "split_loop par seps skipempty piece [] m = (if piece \<noteq> [] then append_piece par piece m else Some m)"
| "split_loop par seps skipempty piece (c # cs) m =
     (if c = 0 then (if piece \<noteq> [] then append_piece par piece m else Some m)
      else if c \<in> set seps then do {
        m1 \<leftarrow> (if \<not> skipempty \<or> piece \<noteq> [] then append_piece par piece m else Some m);
        split_loop par seps skipempty [] cs m1 }
      else split_loop par seps skipempty (piece @ [c]) cs m)"

definition string_split :: "mach_par \<Rightarrow> machine \<Rightarrow> api" where
  "string_split par m = do {
     s \<leftarrow> string_arg m 2;
     seps \<leftarrow> string_arg m 3;
     if seps = [] then sq_throwerror m ''empty separators string''
     else do {
       skipempty \<leftarrow> (if sq_gettop m > 3 then map_option (\<lambda>r. case r of Some b \<Rightarrow> b \<noteq> 0 | None \<Rightarrow> False) (sq_getbool m 4)
                    else Some False);
       m1 \<leftarrow> sq_newarray par 0 m;
       push_result (split_loop par seps skipempty [] s m1) } }"

subsection \<open>Prefixes and suffixes\<close>

definition string_startswith :: "machine \<Rightarrow> api" where
  "string_startswith m = do {
     s \<leftarrow> string_arg m 2;
     t \<leftarrow> string_arg m 3;
     push_result (sq_pushbool m (if length t \<le> length s \<and> take (length t) s = t then 1 else 0)) }"

definition string_endswith :: "machine \<Rightarrow> api" where
  "string_endswith m = do {
     s \<leftarrow> string_arg m 2;
     t \<leftarrow> string_arg m 3;
     push_result (sq_pushbool m
       (if length t \<le> length s \<and> take (length t) (drop (length s - length t) s) = t then 1 else 0)) }"

subsection \<open>Escaping\<close>

text \<open>\<^verbatim>\<open>GetScratchPad\<close>: the size of the pad after a request.\<close>

definition scratch_size :: "nat \<Rightarrow> nat \<Rightarrow> nat" where
  "scratch_size pad sz =
     (if sz > 0 then
        (if pad < sz then sz + sz div 2
         else if pad \<ge> sz * 32 then pad div 2
         else pad)
      else pad)"

text \<open>\<^verbatim>\<open>snprintf(dest, n, ...)\<close> with \<open>text\<close> as the formatted output, \<open>acc\<close> what stands before
  \<^verbatim>\<open>dest\<close> in a buffer of \<open>cap\<close> bytes; the code moves \<^verbatim>\<open>dest\<close> by the untruncated length, so
  what a truncated output leaves behind its zero is indeterminate.\<close>

definition snprintf_at :: "nat \<Rightarrow> nat \<Rightarrow> sqchar list \<Rightarrow> sqchar list \<Rightarrow> sqchar list option" where
  "snprintf_at cap n acc text =
     (if length acc + min (length text) (n - 1) + 1 > cap then None
      else if length text < n then Some (acc @ text)
      else if length text = n then Some (acc @ take (n - 1) text @ [0])
      else None)"

definition put_char :: "nat \<Rightarrow> sqchar list \<Rightarrow> sqchar \<Rightarrow> sqchar list option" where
  "put_char cap acc c = (if length acc < cap then Some (acc @ [c]) else None)"

definition hex_digit :: "nat \<Rightarrow> sqchar" where
  "hex_digit d = (if d < 10 then word_of_nat (48 + d) else word_of_nat (87 + d))"

text \<open>\<^verbatim>\<open>\x%02x\<close> of a character, which is promoted with its sign.\<close>

definition hex_text :: "sqchar \<Rightarrow> sqchar list" where
  "hex_text c = [92, 120] @ (if unat c < 128 then [] else replicate 6 102) @
     [hex_digit (unat c div 16), hex_digit (unat c mod 16)]"

definition escape_letter :: "sqchar \<Rightarrow> sqchar option" where
  "escape_letter c =
     (if c = 7 then Some (chr8 CHR ''a'') else if c = 8 then Some (chr8 CHR ''b'')
      else if c = 9 then Some (chr8 CHR ''t'') else if c = 10 then Some (chr8 CHR ''n'')
      else if c = 11 then Some (chr8 CHR ''v'') else if c = 12 then Some (chr8 CHR ''f'')
      else if c = 13 then Some (chr8 CHR ''r'') else if c = 92 then Some 92
      else if c = 34 then Some 34 else if c = 39 then Some 39
      else if c = 0 then Some (chr8 CHR ''0'') else None)"

primrec escape_loop ::
  "nat \<Rightarrow> nat \<Rightarrow> sqchar list \<Rightarrow> sqchar list \<Rightarrow> nat \<Rightarrow> (sqchar list \<times> nat) option" where
  "escape_loop cap n [] acc escaped = Some (acc, escaped)"
| "escape_loop cap n (c # cs) acc escaped =
     (if scisprint c \<or> c = 0 then
        (case escape_letter c of
           Some e \<Rightarrow> do {
             acc1 \<leftarrow> put_char cap acc 92;
             acc2 \<leftarrow> put_char cap acc1 e;
             escape_loop cap n cs acc2 (Suc escaped) }
         | None \<Rightarrow> do {
             acc1 \<leftarrow> put_char cap acc c;
             escape_loop cap n cs acc1 escaped })
      else do {
        acc1 \<leftarrow> snprintf_at cap n acc (hex_text c);
        escape_loop cap n cs acc1 (Suc escaped) })"

definition string_escape :: "nat \<Rightarrow> mach_par \<Rightarrow> machine \<Rightarrow> api" where
  "string_escape pad par m = do {
     s \<leftarrow> string_arg m 2;
     if s = [] then push_result (sq_push m 2)
     else do {
       let n = length s * 4;
       (dest, escaped) \<leftarrow> escape_loop (scratch_size pad n) n s [] 0;
       push_result (if escaped \<noteq> 0 then push_text par dest m else sq_push m 2) } }"

subsection \<open>Formatting\<close>

definition MAX_FORMAT_LEN :: nat where "MAX_FORMAT_LEN = 20"
definition MAX_WFORMAT_LEN :: nat where "MAX_WFORMAT_LEN = 3"
definition ADDITIONAL_FORMAT_SPACE :: nat where "ADDITIONAL_FORMAT_SPACE = 100"

definition isfmtchr :: "sqchar \<Rightarrow> bool" where
  "isfmtchr ch \<longleftrightarrow> ch = 45 \<or> ch = 43 \<or> ch = 32 \<or> ch = 35 \<or> ch = 48"

definition char_at :: "sqchar list \<Rightarrow> nat \<Rightarrow> sqchar" where
  "char_at s n = (if n < length s then s ! n else 0)"

text \<open>\<^verbatim>\<open>strtol\<close> of at most two digits.\<close>

definition width_of :: "sqchar list \<Rightarrow> nat" where
  "width_of ds = fold (\<lambda>c v. v * 10 + (unat c - 48)) ds 0"

text \<open>The flags, width and precision at the start of a text, with the width the two add up to; the
  digits are copied to a buffer of three characters.\<close>

definition parse_modifiers :: "sqchar list \<Rightarrow> string + (nat \<times> nat)" where
  "parse_modifiers src =
     (let nf = length (takeWhile isfmtchr src);
          wd = takeWhile scisdigit (drop nf src);
          n1 = nf + length wd in
      if length wd \<ge> MAX_WFORMAT_LEN then Inl ''width format too long''
      else if char_at src n1 = 46 then
        (let pd = takeWhile scisdigit (drop (n1 + 1) src) in
         if length pd \<ge> MAX_WFORMAT_LEN then Inl ''precision format too long''
         else Inr (n1 + 1 + length pd, width_of wd + width_of pd))
      else Inr (n1, width_of wd))"

text \<open>\<^verbatim>\<open>validate_format\<close>: the new position, the width and the copy of the conversion in \<^verbatim>\<open>fmt\<close>, an
  array of \<open>MAX_FORMAT_LEN\<close> characters with the terminating zero.\<close>

definition validate_format :: "sqchar list \<Rightarrow> nat \<Rightarrow> (string + (nat \<times> nat \<times> sqchar list)) option" where
  "validate_format src start =
     (case parse_modifiers (drop start src) of
        Inl err \<Rightarrow> Some (Inl err)
      | Inr (k, width) \<Rightarrow>
          if k > MAX_FORMAT_LEN then Some (Inl ''format too long'')
          else if k + 2 < MAX_FORMAT_LEN then
            Some (Inr (start + k, width, 37 # take k (drop start src) @ [char_at src (start + k)]))
          else None)"

datatype fmt_arg = FmtString "sqchar list" | FmtInteger sqint | FmtFloat sqfloat

text \<open>The conversions of integers get the length modifier \<^verbatim>\<open>ll\<close>, again in the array of
  \<open>MAX_FORMAT_LEN\<close> characters.\<close>

definition long_format :: "sqchar list \<Rightarrow> sqchar list option" where
  "long_format fmt =
     (if length fmt + 2 < MAX_FORMAT_LEN then Some (butlast fmt @ [108, 108, last fmt]) else None)"

definition is_int_conv :: "sqchar \<Rightarrow> bool" where
  "is_int_conv c \<longleftrightarrow> c \<in> {105, 100, 111, 117, 120, 88}"

definition is_float_conv :: "sqchar \<Rightarrow> bool" where
  "is_float_conv c \<longleftrightarrow> c \<in> {102, 103, 71, 101, 69}"

text \<open>The argument of a conversion, the final format and the space it adds.\<close>

definition conversion ::
  "machine \<Rightarrow> int \<Rightarrow> sqchar \<Rightarrow> nat \<Rightarrow> sqchar list \<Rightarrow> (string + (fmt_arg \<times> sqchar list \<times> nat)) option" where
  "conversion m nparam c w fmt =
     (if c = 115 then do {
        x \<leftarrow> stack_get m nparam;
        case x of
          OString a \<Rightarrow> do { s \<leftarrow> v_strings m a; Some (Inr (FmtString s, fmt, length s + (w + 1))) }
        | _ \<Rightarrow> Some (Inl ''string expected for the specified format'') }
      else if is_int_conv c \<or> c = 99 then do {
        fmt1 \<leftarrow> (if c = 99 then Some fmt else long_format fmt);
        r \<leftarrow> sq_getinteger m nparam;
        case r of
          Some i \<Rightarrow> Some (Inr (FmtInteger i, fmt1, ADDITIONAL_FORMAT_SPACE + (w + 1)))
        | None \<Rightarrow> Some (Inl ''integer expected for the specified format'') }
      else if is_float_conv c then do {
        r \<leftarrow> sq_getfloat m nparam;
        case r of
          Some f \<Rightarrow> Some (Inr (FmtFloat f, fmt, ADDITIONAL_FORMAT_SPACE + (w + 1)))
        | None \<Rightarrow> Some (Inl ''float expected for the specified format'') }
      else Some (Inl ''invalid format''))"

lemma validate_format_pos: "validate_format src start = Some (Inr (n, w, fmt)) \<Longrightarrow> start \<le> n"
  by (auto simp: validate_format_def split: sum.splits prod.splits if_splits)

text \<open>The loop of \<^verbatim>\<open>sqstd_format\<close> from position \<open>n\<close> of the format: \<open>acc\<close> is the output so far,
  \<open>pad\<close> the size of the scratch pad.\<close>

function format_loop ::
  "(sqchar list \<Rightarrow> fmt_arg \<Rightarrow> sqchar list) \<Rightarrow> machine \<Rightarrow> sqchar list \<Rightarrow> nat \<Rightarrow> sqchar list \<Rightarrow> nat \<Rightarrow> nat \<Rightarrow> int
    \<Rightarrow> (string + sqchar list) option" where
  "format_loop pf m src n acc space pad nparam =
     (if n < length src then
        (if src ! n \<noteq> 37 then do {
           acc1 \<leftarrow> put_char space acc (src ! n);
           format_loop pf m src (n + 1) acc1 space pad nparam }
         else if char_at src (n + 1) = 37 then do {
           acc1 \<leftarrow> put_char pad acc 37;
           format_loop pf m src (n + 2) acc1 space pad nparam }
         else if nparam > sq_gettop m then Some (Inl ''not enough parameters for the given format string'')
         else (case validate_format src (n + 1) of
             None \<Rightarrow> None
           | Some (Inl err) \<Rightarrow> Some (Inl err)
           | Some (Inr (n1, w, fmt)) \<Rightarrow>
               (case conversion m nparam (char_at src n1) w fmt of
                  None \<Rightarrow> None
                | Some (Inl err) \<Rightarrow> Some (Inl err)
                | Some (Inr (arg, fmt1, addlen)) \<Rightarrow>
                    (let space1 = space + addlen + 1; pad1 = scratch_size pad space1 in do {
                       acc1 \<leftarrow> snprintf_at pad1 space1 acc (pf fmt1 arg);
                       format_loop pf m src (n1 + 1) acc1 space1 pad1 (nparam + 1) }))))
      else if length acc < pad then Some (Inr acc) else None)"
  by pat_completeness auto
termination
  by (relation "measure (\<lambda>(pf, m, src, n, acc, space, pad, nparam). length src - n)")
    (auto dest: validate_format_pos)

declare format_loop.simps [simp del]

definition sqstd_format ::
  "(sqchar list \<Rightarrow> fmt_arg \<Rightarrow> sqchar list) \<Rightarrow> nat \<Rightarrow> machine \<Rightarrow> int \<Rightarrow> (string + sqchar list) option" where
  "sqstd_format pf pad m idx = do {
     x \<leftarrow> stack_get m idx;
     case x of
       OString a \<Rightarrow> do {
         src \<leftarrow> v_strings m a;
         format_loop pf m src 0 [] (length src + 2) (scratch_size pad (length src + 2)) (idx + 1) }
     | _ \<Rightarrow> None }"

definition string_format :: "(sqchar list \<Rightarrow> fmt_arg \<Rightarrow> sqchar list) \<Rightarrow> nat \<Rightarrow> mach_par \<Rightarrow> machine \<Rightarrow> api" where
  "string_format pf pad par m = do {
     r \<leftarrow> sqstd_format pf pad m 2;
     case r of
       Inl err \<Rightarrow> sq_throwerror m err
     | Inr dest \<Rightarrow> push_result (push_text par dest m) }"

end
