(* ===== verification/Sq_API_Correct.thy ===== *)
theory Sq_API_Correct
  imports Sq_API Sq_Frames_Correct
begin

text \<open>
  The operand stack seen from host code.  \<open>cell_upd\<close> says that a machine differs from another in one
  cell and the top only; the lemmas give the effect of pushing, popping and reading on the cells.
\<close>

definition stack_room :: "machine \<Rightarrow> int \<Rightarrow> bool" where
  "stack_room m n \<longleftrightarrow> 0 \<le> m_top m \<and> m_top m + n \<le> int (vsize (m_stack m))"

text \<open>\<open>m'\<close> is \<open>m\<close> with the cells \<open>cells\<close> and the top \<open>t\<close>.\<close>

definition restacked :: "machine \<Rightarrow> machine \<Rightarrow> int \<Rightarrow> (int \<Rightarrow> sqobject option) \<Rightarrow> bool" where
  "restacked m m' t ws \<longleftrightarrow>
     m' = m\<lparr> m_stack := m_stack m', m_top := t \<rparr> \<and> vsize (m_stack m') = vsize (m_stack m) \<and> st_get m' = ws"

lemma restackedD:
  assumes "restacked m m' t ws"
  shows "m_top m' = t" "st_get m' = ws" "m_stackbase m' = m_stackbase m" "vsize (m_stack m') = vsize (m_stack m)"
    "m_suspended m' = m_suspended m" "v_arrays m' = v_arrays m" "v_lasterror m' = v_lasterror m"
    "m_roottable m' = m_roottable m"
proof -
  have eq: "m' = m\<lparr> m_stack := m_stack m', m_top := t \<rparr>" using assms by (simp add: restacked_def)
  show "m_top m' = t" "m_stackbase m' = m_stackbase m" "m_suspended m' = m_suspended m"
    "v_arrays m' = v_arrays m" "v_lasterror m' = v_lasterror m" "m_roottable m' = m_roottable m"
    by (subst eq, simp)+
  show "st_get m' = ws" "vsize (m_stack m') = vsize (m_stack m)" using assms by (simp_all add: restacked_def)
qed

lemma st_get_top: "st_get (m\<lparr> m_top := t \<rparr>) = st_get m"
  by (simp add: fun_eq_iff st_get_def)

lemma restacked_top:
  assumes "restacked m m' t c" shows "restacked m (m'\<lparr> m_top := t' \<rparr>) t' c"
proof -
  have "m' = m\<lparr> m_stack := m_stack m', m_top := t \<rparr>" using assms by (simp add: restacked_def)
  then have "m'\<lparr> m_top := t' \<rparr> = m\<lparr> m_stack := m_stack m', m_top := t' \<rparr>"
    by (rule ssubst [of m' _ "\<lambda>x. x\<lparr> m_top := t' \<rparr> = _"]) simp
  moreover have "st_get (m'\<lparr> m_top := t' \<rparr>) = c" "vsize (m_stack m') = vsize (m_stack m)"
    using assms st_get_top by (simp_all only: restacked_def)
  ultimately show ?thesis unfolding restacked_def by simp
qed

lemma st_put_cells:
  assumes "0 \<le> i" "i < int (vsize (m_stack m))"
  shows "\<exists>m'. st_put m i x = Some m' \<and> restacked m m' (m_top m) ((st_get m)(i \<mapsto> x))"
proof -
  let ?m = "m\<lparr> m_stack := (m_stack m)\<lparr> vals := (vals (m_stack m))[nat i := x] \<rparr> \<rparr>"
  have "st_put m i x = Some ?m" using assms by (simp add: st_put_def)
  moreover have "st_get ?m = (st_get m)(i \<mapsto> x)"
    using assms by (auto simp: fun_eq_iff st_get_def nth_list_update nat_eq_iff)
  ultimately show ?thesis by (simp add: restacked_def)
qed

lemma Push_cells:
  assumes "stack_room m 1"
  shows "\<exists>m'. Push m x = Some m' \<and> restacked m m' (m_top m + 1) ((st_get m)(m_top m \<mapsto> x))"
proof -
  have "0 \<le> m_top m" "m_top m < int (vsize (m_stack m))" using assms by (auto simp: stack_room_def)
  from st_put_cells [OF this, of x] obtain m' where
    "st_put m (m_top m) x = Some m'" "restacked m m' (m_top m) ((st_get m)(m_top m \<mapsto> x))" by blast
  then show ?thesis using restacked_top restackedD(1) by (simp add: Push_def)
qed

lemma Pop_cells:
  assumes "stack_room m 0" "1 \<le> m_top m"
  shows "\<exists>m'. vm_Pop m = Some m' \<and> restacked m m' (m_top m - 1) ((st_get m)(m_top m - 1 \<mapsto> ONull))"
proof -
  have "0 \<le> m_top m - 1" "m_top m - 1 < int (vsize (m_stack m))" using assms by (auto simp: stack_room_def)
  from st_put_cells [OF this, of ONull] obtain m' where
    "st_put m (m_top m - 1) ONull = Some m'" "restacked m m' (m_top m) ((st_get m)(m_top m - 1 \<mapsto> ONull))" by blast
  then show ?thesis using restacked_top restackedD(1) by (simp add: vm_Pop_def)
qed

lemma restacked_trans:
  assumes "restacked m m1 t c" "restacked m1 m2 t' c'" shows "restacked m m2 t' c'"
  using assms by (cases m; cases m1; cases m2) (simp add: restacked_def)

lemma restacked_refl: "restacked m m (m_top m) (st_get m)"
  by (simp add: restacked_def)

text \<open>Popping leaves the cells below the new top.\<close>

lemma PopN_cells:
  assumes "stack_room m 0" "int n \<le> m_top m"
  shows "\<exists>m' c. vm_PopN n m = Some m' \<and> restacked m m' (m_top m - int n) c \<and>
    (\<forall>i<m_top m - int n. c i = st_get m i)"
  using assms
proof (induction n arbitrary: m)
  case 0
  then show ?case using restacked_refl by auto
next
  case (Suc n)
  have "1 \<le> m_top m" using Suc.prems(2) by simp
  then obtain m1 where m1: "vm_Pop m = Some m1"
    "restacked m m1 (m_top m - 1) ((st_get m)(m_top m - 1 \<mapsto> ONull))"
    using Pop_cells [OF Suc.prems(1)] by blast
  have "stack_room m1 0" "int n \<le> m_top m1"
    using Suc.prems restackedD(1,4) [OF m1(2)] by (auto simp: stack_room_def)
  from Suc.IH [OF this] obtain m2 c where m2: "vm_PopN n m1 = Some m2" "restacked m1 m2 (m_top m1 - int n) c"
    "\<forall>i<m_top m1 - int n. c i = st_get m1 i" by blast
  have "restacked m m2 (m_top m - int (Suc n)) c"
    using restacked_trans [OF m1(2) m2(2)] restackedD(1) [OF m1(2)] by (simp add: algebra_simps)
  moreover have "c i = st_get m i" if "i < m_top m - int (Suc n)" for i
    using m2(3) that restackedD(1,2) [OF m1(2)] by simp
  ultimately show ?case using m1(1) m2(1) by auto
qed

lemma read_range_cells:
  "(\<And>k. k < length xs \<Longrightarrow> st_get m (i + int k) = Some (xs ! k)) \<Longrightarrow> read_range (length xs) i m = Some xs"
proof (induction xs arbitrary: i)
  case Nil
  then show ?case by simp
next
  case (Cons x xs)
  have "st_get m i = Some x" using Cons.prems [of 0] by simp
  moreover have "st_get m (i + 1 + int k) = Some (xs ! k)" if "k < length xs" for k
    using Cons.prems [of "Suc k"] that by (simp add: algebra_simps)
  ultimately show ?case using Cons.IH [of "i + 1"] by simp
qed

subsection \<open>Calls\<close>

text \<open>What a call keeps of the machine of its caller: the frame and the cells below the top; the
  stack may grow.\<close>

definition keeps_frame :: "machine \<Rightarrow> machine \<Rightarrow> bool" where
  "keeps_frame m m' \<longleftrightarrow> m_top m' = m_top m \<and> m_stackbase m' = m_stackbase m \<and> m_suspended m' = m_suspended m \<and>
     vsize (m_stack m) \<le> vsize (m_stack m') \<and> (\<forall>i<m_top m. st_get m' i = st_get m i)"

lemma read_range_some:
  assumes "0 \<le> i" "i + int n \<le> int (vsize (m_stack m))"
  shows "\<exists>xs. read_range n i m = Some xs \<and> length xs = n \<and> (\<forall>k<n. st_get m (i + int k) = Some (xs ! k))"
  using assms
proof (induction n arbitrary: i)
  case 0
  then show ?case by simp
next
  case (Suc n)
  from Suc.IH [of "i + 1"] Suc.prems obtain xs where
    xs: "read_range n (i + 1) m = Some xs" "length xs = n" "\<forall>k<n. st_get m (i + 1 + int k) = Some (xs ! k)" by auto
  obtain x where x: "st_get m i = Some x" using Suc.prems by (simp add: st_get_def)
  have "st_get m (i + int k) = Some ((x # xs) ! k)" if "k < Suc n" for k
    using xs(3) x that by (cases k) (simp_all add: algebra_simps)
  with xs x show ?case by auto
qed

lemma sq_call_cells:
  assumes room: "stack_room m 0" and n: "int n + 1 \<le> m_top m" "n > 0" and f: "st_get m (m_top m - int n - 1) = Some f"
    and args: "read_range n (m_top m - int n) m = Some args" and run: "m_suspended m = None"
    and call: "vp_call (mp_vm par) f MT_LAST args m = (m1, r)" and kept: "keeps_frame m m1"
  shows "\<exists>m' c. sq_call par m (int n) True = Some (m', if r = None then SQ_ERROR else SQ_OK) \<and>
    restacked m1 m' (m_top m - int n + (if r = None then 0 else 1)) c \<and>
    (\<forall>i<m_top m - int n. c i = st_get m i) \<and> (\<forall>x. r = Some x \<longrightarrow> c (m_top m - int n) = Some x)"
proof -
  have k: "m_top m1 = m_top m" "m_suspended m1 = None" "vsize (m_stack m) \<le> vsize (m_stack m1)"
    "\<forall>i<m_top m. st_get m1 i = st_get m i" using kept run by (simp_all add: keeps_frame_def)
  then have "stack_room m1 0" "int n \<le> m_top m1" using room n by (auto simp: stack_room_def)
  from PopN_cells [OF this] obtain m2 c where
    m2: "vm_PopN n m1 = Some m2" "restacked m1 m2 (m_top m1 - int n) c" "\<forall>i<m_top m1 - int n. c i = st_get m1 i" by blast
  have up: "GetUp m (- (int n + 1)) = Some f" using f by (simp add: GetUp_def algebra_simps)
  have low: "\<forall>i<m_top m - int n. c i = st_get m i" using m2(3) k(1,4) by auto
  show ?thesis
  proof (cases r)
    case None
    with m2 k up args call low show ?thesis by (auto simp: sq_call_def)
  next
    case (Some x)
    show ?thesis
    proof -
      have "stack_room m2 1"
        using room n k(1,3) restackedD(1,4) [OF m2(2)] by (auto simp: stack_room_def)
      from Push_cells [OF this, of x] obtain m3 where m3: "Push m2 x = Some m3"
        "restacked m2 m3 (m_top m2 + 1) ((st_get m2)(m_top m2 \<mapsto> x))" by blast
      have t: "m_top m2 = m_top m - int n" "st_get m2 = c" using restackedD [OF m2(2)] k(1) by simp_all
      have "restacked m1 m3 (m_top m - int n + 1) (c(m_top m - int n \<mapsto> x))"
        using restacked_trans [OF m2(2) m3(2)] t by simp
      moreover have "sq_call par m (int n) True = Some (m3, SQ_OK)"
        using up args call Some k(2) m2(1) m3(1) by (simp add: sq_call_def api_ok_def)
      ultimately show ?thesis using Some low by auto
    qed
  qed
qed

subsection \<open>The effect of every operation on the stack\<close>

datatype api_op = ApiPushNull | ApiPushInteger sqint | ApiPush int | ApiPop nat | ApiNewTable | ApiNewArray nat
  | ApiNewClass bool | ApiArrayAppend int | ApiArrayPop int bool | ApiArrayResize int int | ApiArrayReverse int
  | ApiArrayRemove int sqint | ApiArrayInsert int sqint | ApiClear int | ApiSetAttributes int | ApiGetAttributes int
  | ApiGetByHandle int member_handle | ApiSetByHandle int member_handle | ApiGetBase int | ApiGetClass int
  | ApiCreateInstance int | ApiSetDelegate int | ApiGetDelegate int | ApiWeakRef int | ApiGetWeakRefVal int
  | ApiRawGet int | ApiRawDeleteSlot int bool | ApiSetClosureRoot int | ApiGetClosureRoot int | ApiBindEnv int
  | ApiGetClosureName int | ApiSetRootTable | ApiSetConstTable | ApiThrowObject | ApiGetCallee

fun api_run :: "mach_par \<Rightarrow> api_op \<Rightarrow> machine \<Rightarrow> api" where
  "api_run par ApiPushNull m = api_ok (sq_pushnull m)"
| "api_run par (ApiPushInteger n) m = api_ok (sq_pushinteger m n)"
| "api_run par (ApiPush idx) m = api_ok (sq_push m idx)"
| "api_run par (ApiPop n) m = api_ok (sq_pop m (int n))"
| "api_run par ApiNewTable m = api_ok (sq_newtable par m)"
| "api_run par (ApiNewArray n) m = api_ok (sq_newarray par n m)"
| "api_run par (ApiNewClass b) m = sq_newclass par b m"
| "api_run par (ApiArrayAppend idx) m = sq_arrayappend par m idx"
| "api_run par (ApiArrayPop idx b) m = sq_arraypop par m idx b"
| "api_run par (ApiArrayResize idx n) m = sq_arrayresize par m idx n"
| "api_run par (ApiArrayReverse idx) m = sq_arrayreverse par m idx"
| "api_run par (ApiArrayRemove idx i) m = sq_arrayremove par m idx i"
| "api_run par (ApiArrayInsert idx i) m = sq_arrayinsert par m idx i"
| "api_run par (ApiClear idx) m = sq_clear par m idx"
| "api_run par (ApiSetAttributes idx) m = sq_setattributes par m idx"
| "api_run par (ApiGetAttributes idx) m = sq_getattributes par m idx"
| "api_run par (ApiGetByHandle idx h) m = sq_getbyhandle m idx h"
| "api_run par (ApiSetByHandle idx h) m = sq_setbyhandle m idx h"
| "api_run par (ApiGetBase idx) m = sq_getbase par m idx"
| "api_run par (ApiGetClass idx) m = sq_getclass par m idx"
| "api_run par (ApiCreateInstance idx) m = sq_createinstance par m idx"
| "api_run par (ApiSetDelegate idx) m = sq_setdelegate m idx"
| "api_run par (ApiGetDelegate idx) m = sq_getdelegate m idx"
| "api_run par (ApiWeakRef idx) m = api_ok (sq_weakref par m idx)"
| "api_run par (ApiGetWeakRefVal idx) m = sq_getweakrefval m idx"
| "api_run par (ApiRawGet idx) m = sq_rawget par m idx"
| "api_run par (ApiRawDeleteSlot idx b) m = sq_rawdeleteslot par m idx b"
| "api_run par (ApiSetClosureRoot idx) m = sq_setclosureroot par m idx"
| "api_run par (ApiGetClosureRoot idx) m = sq_getclosureroot m idx"
| "api_run par (ApiBindEnv idx) m = sq_bindenv par m idx"
| "api_run par (ApiGetClosureName idx) m = sq_getclosurename m idx"
| "api_run par ApiSetRootTable m = sq_setroottable m"
| "api_run par ApiSetConstTable m = sq_setconsttable m"
| "api_run par ApiThrowObject m = sq_throwobject m"
| "api_run par ApiGetCallee m = sq_getcallee m"

text \<open>Operands consumed, results produced, and the operands it may drop when it fails.\<close>

fun stack_effect :: "api_op \<Rightarrow> int \<times> int \<times> int set" where
  "stack_effect ApiPushNull = (0, 1, {0})"
| "stack_effect (ApiPushInteger n) = (0, 1, {0})"
| "stack_effect (ApiPush idx) = (0, 1, {0})"
| "stack_effect (ApiPop n) = (int n, 0, {0})"
| "stack_effect ApiNewTable = (0, 1, {0})"
| "stack_effect (ApiNewArray n) = (0, 1, {0})"
| "stack_effect (ApiNewClass b) = (if b then 1 else 0, 1, {0})"
| "stack_effect (ApiArrayAppend idx) = (1, 0, {0})"
| "stack_effect (ApiArrayPop idx b) = (0, if b then 1 else 0, {0})"
| "stack_effect (ApiArrayResize idx n) = (0, 0, {0})"
| "stack_effect (ApiArrayReverse idx) = (0, 0, {0})"
| "stack_effect (ApiArrayRemove idx i) = (0, 0, {0})"
| "stack_effect (ApiArrayInsert idx i) = (1, 0, {0, 1})"
| "stack_effect (ApiClear idx) = (0, 0, {0})"
| "stack_effect (ApiSetAttributes idx) = (2, 1, {0})"
| "stack_effect (ApiGetAttributes idx) = (1, 1, {0})"
| "stack_effect (ApiGetByHandle idx h) = (0, 1, {0})"
| "stack_effect (ApiSetByHandle idx h) = (1, 0, {0})"
| "stack_effect (ApiGetBase idx) = (0, 1, {0})"
| "stack_effect (ApiGetClass idx) = (0, 1, {0})"
| "stack_effect (ApiCreateInstance idx) = (0, 1, {0})"
| "stack_effect (ApiSetDelegate idx) = (1, 0, {0})"
| "stack_effect (ApiGetDelegate idx) = (0, 1, {0})"
| "stack_effect (ApiWeakRef idx) = (0, 1, {0})"
| "stack_effect (ApiGetWeakRefVal idx) = (0, 1, {0})"
| "stack_effect (ApiRawGet idx) = (1, 1, {1})"
| "stack_effect (ApiRawDeleteSlot idx b) = (1, if b then 1 else 0, {0})"
| "stack_effect (ApiSetClosureRoot idx) = (1, 0, {0})"
| "stack_effect (ApiGetClosureRoot idx) = (0, 1, {0})"
| "stack_effect (ApiBindEnv idx) = (1, 1, {0})"
| "stack_effect (ApiGetClosureName idx) = (0, 1, {0})"
| "stack_effect ApiSetRootTable = (1, 0, {0})"
| "stack_effect ApiSetConstTable = (1, 0, {0})"
| "stack_effect ApiThrowObject = (1, 0, {1})"
| "stack_effect ApiGetCallee = (0, 1, {0})"

text \<open>\<open>m'\<close> has the frame of \<open>m\<close> with the top moved by \<open>d\<close> and the cells below \<open>lo\<close> as they were.\<close>

definition framed :: "machine \<Rightarrow> machine \<Rightarrow> int \<Rightarrow> int \<Rightarrow> bool" where
  "framed m m' lo d \<longleftrightarrow> m_stackbase m' = m_stackbase m \<and> m_top m' = m_top m + d \<and> (\<forall>i<lo. st_get m' i = st_get m i)"

definition same_frame :: "machine \<Rightarrow> machine \<Rightarrow> bool" where
  "same_frame m m' \<longleftrightarrow> m_stackbase m' = m_stackbase m \<and> m_top m' = m_top m \<and> m_stack m' = m_stack m"

lemma same_frame_get: "same_frame m m' \<Longrightarrow> st_get m' = st_get m"
  by (simp add: same_frame_def st_get_def fun_eq_iff)

lemma framed_refl: assumes "same_frame m m'" shows "framed m m' lo 0"
  using assms same_frame_get [OF assms] by (simp add: framed_def same_frame_def)

lemma st_put_framed: "st_put m i x = Some m' \<Longrightarrow> lo \<le> i \<Longrightarrow> framed m m' lo 0"
  by (auto simp: st_put_def framed_def st_get_def nth_list_update split: if_splits)

lemma Push_framed: "Push m x = Some m' \<Longrightarrow> lo \<le> m_top m \<Longrightarrow> framed m m' lo 1"
  by (auto simp: Push_def framed_def st_get_top dest!: st_put_framed split: Option.bind_splits)

lemma Pop_framed: "vm_Pop m = Some m' \<Longrightarrow> lo \<le> m_top m - 1 \<Longrightarrow> framed m m' lo (- 1)"
  by (auto simp: vm_Pop_def framed_def st_get_top dest!: st_put_framed split: Option.bind_splits)

lemma framed_trans: "framed m m1 lo d \<Longrightarrow> framed m1 m2 lo e \<Longrightarrow> framed m m2 lo (d + e)"
  by (simp add: framed_def)

lemma framed_before: assumes "same_frame m m1" "framed m1 m2 lo d" shows "framed m m2 lo d"
  using assms same_frame_get [OF assms(1)] by (simp add: framed_def same_frame_def)

lemma PopN_framed: "vm_PopN n m = Some m' \<Longrightarrow> lo \<le> m_top m - int n \<Longrightarrow> framed m m' lo (- int n)"
proof (induction n arbitrary: m)
  case 0
  then show ?case by (simp add: framed_def)
next
  case (Suc n)
  then obtain m1 where m1: "vm_Pop m = Some m1" "vm_PopN n m1 = Some m'" by (auto split: Option.bind_splits)
  then have f: "framed m m1 lo (- 1)" using Pop_framed Suc.prems(2) by simp
  then have "m_top m1 = m_top m - 1" by (simp add: framed_def)
  then have "framed m1 m' lo (- int n)" using Suc.IH m1(2) Suc.prems(2) by simp
  from framed_trans [OF f this] show ?case by simp
qed

text \<open>An operation started in \<open>m\<close> that consumes \<open>c\<close>, produces \<open>p\<close> and drops \<open>e\<close> on an error.\<close>

definition obeys :: "machine \<Rightarrow> api \<Rightarrow> int \<times> int \<times> int \<Rightarrow> bool" where
  "obeys m r t = (case t of (c, p, e) \<Rightarrow> \<forall>m' ret. r = Some (m', ret) \<longrightarrow>
     (if ret = SQ_ERROR then framed m m' (m_top m - e) (- e) else framed m m' (m_top m - c) (p - c)))"

lemma obeys_bind: "(\<And>x. r = Some x \<Longrightarrow> obeys m (k x) t) \<Longrightarrow> obeys m (r \<bind> k) t"
  by (cases r) (simp_all add: obeys_def split: prod.splits)

lemma obeys_None: "obeys m None t"
  by (simp add: obeys_def split: prod.splits)

lemma obeys_if: "(b \<Longrightarrow> obeys m r t) \<Longrightarrow> (\<not> b \<Longrightarrow> obeys m r' t) \<Longrightarrow> obeys m (if b then r else r') t"
  by simp

lemma obeys_throw: "same_frame m m1 \<Longrightarrow> obeys m (sq_throwerror m1 s) (c, p, 0)"
  by (auto simp: obeys_def sq_throwerror_def intro!: framed_refl) (simp add: same_frame_def)

lemma obeys_error: "framed m m1 (m_top m - e) (- e) \<Longrightarrow> obeys m (Some (m1, SQ_ERROR)) (c, p, e)"
  by (auto simp: obeys_def)

lemma ok_not_error: "SQ_OK \<noteq> SQ_ERROR"
  by (simp add: SQ_OK_def SQ_ERROR_def)

lemma obeys_ok: "(\<And>m'. r = Some m' \<Longrightarrow> framed m m' (m_top m - c) (p - c)) \<Longrightarrow> obeys m (api_ok r) (c, p, e)"
  using ok_not_error by (auto simp: obeys_def api_ok_def)

lemma obeys_Some: "framed m m1 (m_top m - c) (p - c) \<Longrightarrow> obeys m (Some (m1, SQ_OK)) (c, p, e)"
  using ok_not_error by (auto simp: obeys_def)

lemma same_frame_updates [simp]:
  "same_frame m m"
  "same_frame m (put_array m1 a arr) = same_frame m m1" "same_frame m (put_table m1 a t) = same_frame m m1"
  "same_frame m (put_class m1 a cl) = same_frame m m1"
  "same_frame m (m1\<lparr> v_lasterror := er \<rparr>) = same_frame m m1" "same_frame m (Raise_Error m1 s ss) = same_frame m m1"
  "same_frame m (m1\<lparr> v_classes := cs \<rparr>) = same_frame m m1" "same_frame m (m1\<lparr> v_instances := is \<rparr>) = same_frame m m1"
  "same_frame m (m1\<lparr> m_roottable := x \<rparr>) = same_frame m m1" "same_frame m (m1\<lparr> m_consts := x \<rparr>) = same_frame m m1"
  "same_frame m (m1\<lparr> m_closures := cl' \<rparr>) = same_frame m m1" "same_frame m (m1\<lparr> m_natives := nt \<rparr>) = same_frame m m1"
  "same_frame m (m1\<lparr> v_userdata := u \<rparr>) = same_frame m m1"
  "same_frame m (m1\<lparr> v_tables := ts \<rparr>) = same_frame m m1" "same_frame m (m1\<lparr> v_arrays := as \<rparr>) = same_frame m m1"
  "same_frame m (m1\<lparr> v_weakrefs := ws \<rparr>) = same_frame m m1"
  by (simp_all add: same_frame_def put_array_def put_table_def put_class_def Raise_Error_def Let_def)

lemma same_frame_tops:
  "same_frame m m1 \<Longrightarrow> m_top m1 = m_top m"
  by (simp add: same_frame_def)

lemma Push_before: "Push m1 x = Some m' \<Longrightarrow> same_frame m m1 \<Longrightarrow> lo \<le> m_top m \<Longrightarrow> framed m m' lo 1"
  by (rule framed_before, assumption, rule Push_framed) (simp_all add: same_frame_def)

lemma Pop_before: "vm_Pop m1 = Some m' \<Longrightarrow> same_frame m m1 \<Longrightarrow> lo \<le> m_top m - 1 \<Longrightarrow> framed m m' lo (- 1)"
  by (rule framed_before, assumption, rule Pop_framed) (simp_all add: same_frame_def)

lemma PopN_before: "vm_PopN n m1 = Some m' \<Longrightarrow> same_frame m m1 \<Longrightarrow> lo \<le> m_top m - int n \<Longrightarrow> framed m m' lo (- int n)"
  by (rule framed_before, assumption, rule PopN_framed) (simp_all add: same_frame_def)

lemma put_before: "st_put m1 i x = Some m' \<Longrightarrow> same_frame m m1 \<Longrightarrow> lo \<le> i \<Longrightarrow> framed m m' lo 0"
  by (rule framed_before, assumption, rule st_put_framed) simp_all

lemma Push_after: "Push m1 x = Some m' \<Longrightarrow> framed m m1 lo d \<Longrightarrow> lo \<le> m_top m + d \<Longrightarrow> framed m m' lo (d + 1)"
  by (rule framed_trans, assumption, rule Push_framed) (simp_all add: framed_def)

lemma obeys_GETSAFE:
  "(\<And>x. obeys m (k x) (c, p, 0)) \<Longrightarrow> obeys m (GETSAFE_OBJ par m idx ty k) (c, p, 0)"
  by (auto simp: GETSAFE_OBJ_def wrong_argument_def raise_text_def intro!: obeys_bind obeys_error framed_refl)

lemma obeys_params: "obeys m k (c, p, 0) \<Longrightarrow> obeys m (sq_aux_paramscheck m n k) (c, p, 0)"
  by (auto simp: sq_aux_paramscheck_def intro!: obeys_error framed_refl)

lemma obeys_GETSAFE1:
  "e = 0 \<Longrightarrow> (\<And>x. obeys m (k x) (c, p, e)) \<Longrightarrow> obeys m (GETSAFE_OBJ par m idx ty k) (c, p, e)"
  using obeys_GETSAFE by simp

lemmas obeys_rules = obeys_bind obeys_None obeys_if obeys_throw obeys_params obeys_GETSAFE obeys_ok obeys_error

lemma same_frame_weak: "GetWeakRef par m x = (m1, w) \<Longrightarrow> same_frame m m1"
  by (auto simp: GetWeakRef_def Let_def same_frame_def)

lemma framed_put_array [simp]: "framed m (put_array m1 a arr) lo d = framed m m1 lo d"
  by (simp add: framed_def put_array_def st_get_def)

lemma effect_arrays:
  "obeys m (sq_arrayappend par m idx) (1, 0, 0)"
  "obeys m (sq_arrayresize par m idx n) (0, 0, 0)"
  "obeys m (sq_arrayreverse par m idx) (0, 0, 0)"
  "obeys m (sq_arrayremove par m idx i) (0, 0, 0)"
  "obeys m (sq_arraypop par m idx b) (0, if b then 1 else 0, 0)"
  unfolding sq_arrayappend_def sq_arrayresize_def sq_arrayreverse_def sq_arrayremove_def sq_arraypop_def with_array_def
  by (auto intro!: obeys_rules obeys_Some framed_refl elim!: Pop_before Push_before
      simp: split_def split: sqobject.splits split: Option.bind_splits)

lemma effect_pushes:
  "obeys m (api_ok (sq_pushnull m)) (0, 1, 0)" "obeys m (api_ok (sq_pushinteger m n)) (0, 1, 0)"
  "obeys m (api_ok (sq_push m idx)) (0, 1, 0)"
  "obeys m (api_ok (sq_newtable par m)) (0, 1, 0)" "obeys m (api_ok (sq_newarray par k m)) (0, 1, 0)"
  "obeys m (api_ok (sq_weakref par m idx)) (0, 1, 0)" "obeys m (sq_getweakrefval m idx) (0, 1, 0)"
  "obeys m (sq_getclosurename m idx) (0, 1, 0)" "obeys m (sq_getclosureroot m idx) (0, 1, 0)"
  "obeys m (sq_getcallee m) (0, 1, 0)" "obeys m (sq_getdelegate m idx) (0, 1, 0)"
  "obeys m (sq_getbyhandle m idx h) (0, 1, 0)"
  unfolding sq_pushnull_def sq_pushinteger_def sq_push_def sq_newtable_def sq_newarray_def new_table_def new_array_def
    sq_weakref_def sq_getweakrefval_def sq_getclosurename_def sq_getclosureroot_def sq_getcallee_def
    sq_getdelegate_def sq_getbyhandle_def PushNull_def GetWeakRef_def Let_def
  by (auto intro!: obeys_rules elim!: Push_before
      split: sqobject.splits option.splits Option.bind_splits if_splits)

lemma push_popn:
  "vm_PopN n m1 = Some m2 \<Longrightarrow> Push m2 x = Some m' \<Longrightarrow> same_frame m m1 \<Longrightarrow> lo \<le> m_top m - int n \<Longrightarrow> d = 1 - int n \<Longrightarrow>
    framed m m' lo d"
  by (drule (2) PopN_before, drule (1) Push_after) simp_all

lemma push_pop:
  "vm_Pop m1 = Some m2 \<Longrightarrow> Push m2 x = Some m' \<Longrightarrow> same_frame m m1 \<Longrightarrow> lo \<le> m_top m - 1 \<Longrightarrow> framed m m' lo 0"
  by (drule (2) Pop_before, drule (1) Push_after) simp_all

lemmas frame_elims = push_popn push_pop Push_before Pop_before PopN_before put_before
lemmas api_splits = sqobject.splits option.splits if_splits

lemma effect_attributes:
  "obeys m (sq_setattributes par m idx) (2, 1, 0)" "obeys m (sq_getattributes par m idx) (1, 1, 0)"
  unfolding sq_setattributes_def sq_getattributes_def with_class_def
  by (auto intro!: obeys_rules elim!: frame_elims split: api_splits)

lemma effect_classes:
  "obeys m (sq_getbase par m idx) (0, 1, 0)" "obeys m (sq_getclass par m idx) (0, 1, 0)"
  "obeys m (sq_createinstance par m idx) (0, 1, 0)" "obeys m (sq_setbyhandle m idx h) (1, 0, 0)"
  "obeys m (sq_newclass par b m) (if b then 1 else 0, 1, 0)"
  unfolding sq_getbase_def sq_getclass_def sq_createinstance_def with_class_def PushNull_def sq_setbyhandle_def
    sq_newclass_def Let_def
  by (auto intro!: obeys_rules elim!: frame_elims split: api_splits)

lemma framed_lasterror [simp]: "framed m (m1\<lparr> v_lasterror := er \<rparr>) lo d = framed m m1 lo d"
  by (simp add: framed_def st_get_def)

lemma effect_rawget: "obeys m (sq_rawget par m idx) (1, 1, 1)"
  unfolding sq_rawget_def Let_def sq_throwerror_def
  by (auto intro!: obeys_rules elim!: frame_elims split: api_splits)

lemma effect_rawdelete: "obeys m (sq_rawdeleteslot par m idx b) (1, if b then 1 else 0, 0)"
  unfolding sq_rawdeleteslot_def Let_def
  by (auto intro!: obeys_rules elim!: frame_elims split: api_splits) (simp add: put_table_def)

lemma effect_tables:
  "obeys m (sq_setroottable m) (1, 0, 0)" "obeys m (sq_setconsttable m) (1, 0, 0)" "obeys m (sq_throwobject m) (1, 0, 1)"
  unfolding sq_setroottable_def sq_setconsttable_def sq_throwobject_def
  by (auto intro!: obeys_rules elim!: frame_elims split: api_splits)

lemma effect_closures:
  "obeys m (sq_setclosureroot par m idx) (1, 0, 0)" "obeys m (sq_bindenv par m idx) (1, 1, 0)"
  unfolding sq_setclosureroot_def sq_bindenv_def GetWeakRef_def Let_def
  by (auto intro!: obeys_rules elim!: frame_elims split: api_splits)

lemma obeys_one: "framed m m1 (m_top m - 1) (- 1) \<Longrightarrow> obeys m (Some (m1, SQ_OK)) (1, 0, e)"
  using ok_not_error by (simp add: obeys_def)

lemma effect_clear: "obeys m (sq_clear par m idx) (0, 0, 0)"
  unfolding sq_clear_def
  by (auto intro!: obeys_rules obeys_Some framed_refl split: api_splits)

lemma effect_insert: "obeys m (sq_arrayinsert par m idx i) (1, 0, 0) \<or> obeys m (sq_arrayinsert par m idx i) (1, 0, 1)"
proof (cases "m_top m - m_stackbase m < 1 \<or> (\<exists>x. stack_get m idx = Some x \<and> sq_type x \<noteq> OT_ARRAY)")
  case True
  then have "obeys m (sq_arrayinsert par m idx i) (1, 0, 0)"
    unfolding sq_arrayinsert_def with_array_def sq_aux_paramscheck_def GETSAFE_OBJ_def sq_gettop_def
      wrong_argument_def raise_text_def
    by (auto intro!: obeys_rules framed_refl)
  then show ?thesis ..
next
  case False
  have "obeys m (sq_arrayinsert par m idx i) (1, 0, 1)"
  proof (cases "stack_get m idx")
    case None
    with False show ?thesis
      by (simp add: sq_arrayinsert_def with_array_def sq_aux_paramscheck_def GETSAFE_OBJ_def sq_gettop_def obeys_None)
  next
    case (Some x)
    with False have "sq_type x = OT_ARRAY" by simp
    with False Some show ?thesis
      unfolding sq_arrayinsert_def with_array_def sq_aux_paramscheck_def GETSAFE_OBJ_def sq_gettop_def sq_throwerror_def
      by (auto intro!: obeys_bind obeys_None obeys_error obeys_one elim!: Pop_before split: sqobject.splits if_splits)
  qed
  then show ?thesis ..
qed

lemma SetDelegate_frame: "SetDelegate m self mt = Some (m1, ok) \<Longrightarrow> same_frame m m1"
  by (auto simp: SetDelegate_def Let_def split: Option.bind_splits if_splits sqobject.splits)

lemma delegate_pop:
  "SetDelegate m self mt = Some (m1, ok) \<Longrightarrow> vm_Pop m1 = Some m' \<Longrightarrow> framed m m' (m_top m - 1) (- 1)"
  by (drule SetDelegate_frame, rule Pop_before) simp_all

lemma effect_setdelegate: "obeys m (sq_setdelegate m idx) (1, 0, 0)"
  unfolding sq_setdelegate_def Let_def
  by (auto intro!: obeys_rules elim!: delegate_pop dest: SetDelegate_frame simp: sq_aux_invalidtype_def split: api_splits)
    (blast dest: delegate_pop)

lemma effect_pop: "obeys m (api_ok (sq_pop m (int n))) (int n, 0, 0)"
  unfolding sq_pop_def by (auto intro!: obeys_rules elim!: PopN_before)


text \<open>An array of two on the stack: popping from it pushes the last element.\<close>

definition host_machine :: machine where
  "host_machine = empty_machine\<lparr> v_arrays := [5 \<mapsto> \<lparr> vals = [OInteger 1, OInteger 2], allocated = 4 \<rparr>],
     m_stack := \<lparr> vals = [OArray 5, ONull, ONull], allocated = 3 \<rparr>, m_top := 1 \<rparr>"

lemma host_facts: "m_stackbase host_machine = 0" "m_top host_machine = 1" "st_get host_machine 0 = Some (OArray 5)"
  by (simp_all add: host_machine_def empty_machine_def st_get_def)

lemma host_pop:
  "\<exists>m'. api_run par (ApiArrayPop 1 True) host_machine = Some (m', SQ_OK) \<and> st_get m' 1 = Some (OInteger 2)"
  by (simp add: host_machine_def empty_machine_def sq_arraypop_def sq_aux_paramscheck_def sq_gettop_def with_array_def
      GETSAFE_OBJ_def stack_get_def GetAt_def st_get_def arr_Size_def arr_Top_def vec_top_def Push_def st_put_def
      arr_Pop_def vec_pop_back_def put_array_def)


end
