(* ===== verification/Sq_Sort_Correct.thy ===== *)
theory Sq_Sort_Correct
  imports Sq_Sort Sq_API_Correct Sq_Operators_Correct Sq_Frames_Correct
begin

text \<open>
  Correctness of the heap sort on the machine.  \<open>keeping_compare\<close> is the contract of a comparison
  that returns and leaves the array alone: the sort then only permutes the array, even when the
  comparison is not an order.  \<open>order_compare\<close> adds that it answers with a total preorder: the
  sort follows the sort on lists.  Both are interpreted on \<open>sort_compare\<close>.
\<close>

locale keeping_compare =
  fixes T :: "sqobject set" and cmp :: compare and a :: addr and I :: "machine \<Rightarrow> bool"
  assumes keeps: "I m \<Longrightarrow> x \<in> T \<Longrightarrow> y \<in> T \<Longrightarrow> \<exists>m' r. cmp x y m = Some (m', r) \<and> v_arrays m' a = v_arrays m a \<and> (r \<noteq> None \<longrightarrow> I m')"
    and put: "I m \<Longrightarrow> I (put_array m a arr)"
begin

definition holds :: "machine \<Rightarrow> sqobject multiset \<Rightarrow> bool" where
  "holds m M \<longleftrightarrow> set_mset M \<subseteq> T \<and> (\<exists>arr. v_arrays m a = Some arr \<and> mset (vals arr) = M)"

lemma holdsE:
  assumes "holds m M"
  obtains arr where "v_arrays m a = Some arr" "mset (vals arr) = M" "vsize arr = size M" "set (vals arr) \<subseteq> T"
  using assms by (auto simp: holds_def)

definition ran :: "sqobject multiset \<Rightarrow> (machine \<times> bool) option \<Rightarrow> bool" where
  "ran M r \<longleftrightarrow> (\<exists>m' ok. r = Some (m', ok) \<and> holds m' M \<and> (ok \<longrightarrow> I m'))"

lemma ranI: "holds m M \<Longrightarrow> I m \<Longrightarrow> ran M (Some (m, ok))"
  by (simp add: ran_def)

lemma swap_keeps:
  assumes "holds m M" "I m" "i < size M" "j < size M"
  obtains m1 where "swap_at m a i j = Some m1" "holds m1 M" "I m1"
proof -
  from assms(1) obtain arr where arr: "v_arrays m a = Some arr" "mset (vals arr) = M" "vsize arr = size M"
    by (rule holdsE)
  let ?arr = "arr\<lparr> vals := (vals arr)[i := vals arr ! j, j := vals arr ! i] \<rparr>"
  have "swap_at m a i j = Some (put_array m a ?arr)"
    using arr assms(3,4) by (simp add: swap_at_def elem_at_def nth_opt_def)
  moreover have "mset (vals ?arr) = M"
    using arr assms(3,4) by (cases "i = j") (simp_all add: mset_swap)
  then have "holds (put_array m a ?arr) M" using assms(1) by (auto simp: holds_def put_array_def)
  ultimately show ?thesis using that put [OF assms(2)] by blast
qed

lemma elem_at_some: assumes "holds m M" "i < size M" shows "\<exists>x\<in>T. elem_at m a i = Some x"
proof -
  from assms(1) obtain arr where "v_arrays m a = Some arr" "vsize arr = size M" "set (vals arr) \<subseteq> T" by (rule holdsE)
  with assms(2) show ?thesis by (auto simp: elem_at_def nth_opt_def)
qed

lemma max_child_keeps:
  assumes "holds m M" "I m" "k \<le> b" "b < size M"
  shows "\<exists>m1 l. max_child cmp a k b m = Some (m1, l) \<and> holds m1 M \<and> (l \<noteq> None \<longrightarrow> I m1) \<and>
    (k = b \<longrightarrow> l = Some True)"
proof (cases "k = b")
  case True
  then show ?thesis using assms by (simp add: max_child_def)
next
  case False
  then have "k < size M" "k + 1 < size M" using assms(3,4) by simp_all
  then obtain x y where xy: "elem_at m a k = Some x" "elem_at m a (k + 1) = Some y" "x \<in> T" "y \<in> T"
    using elem_at_some [OF assms(1)] by blast
  obtain m1 r where "cmp x y m = Some (m1, r)" "v_arrays m1 a = v_arrays m a" "r \<noteq> None \<longrightarrow> I m1"
    using keeps [OF assms(2) xy(3,4)] by blast
  with xy False assms(1) show ?thesis
    by (auto simp: max_child_def holds_def)
qed

lemma sift_keeps:
  assumes "holds m M" "I m" "b < size M"
  shows "ran M (hsort_sift_down cmp a r b m)"
  using assms
proof (induction "b + 1 - r" arbitrary: r m rule: less_induct)
  case less
  show ?case
  proof (cases "r * 2 \<le> b")
    case False
    with less.prems show ?thesis by (simp add: hsort_sift_down.simps ranI)
  next
    case True
    obtain m1 l where l: "max_child cmp a (r * 2) b m = Some (m1, l)" "holds m1 M" "l \<noteq> None \<longrightarrow> I m1"
      "r * 2 = b \<longrightarrow> l = Some True" using max_child_keeps [OF less.prems(1,2) True less.prems(3)] by blast
    show ?thesis
    proof (cases l)
      case None
      with l True show ?thesis by (auto simp: hsort_sift_down.simps [of cmp a r b m] ran_def)
    next
      case (Some left)
      define k where "k = child r left"
      have k: "k \<le> b" using True l(4) Some by (auto simp: k_def child_def)
      then have "r < size M" "k < size M" using True less.prems(3) by simp_all
      then obtain x y where xy: "elem_at m1 a r = Some x" "elem_at m1 a k = Some y" "x \<in> T" "y \<in> T"
        using elem_at_some [OF l(2)] by blast
      obtain m2 ret where c: "cmp x y m1 = Some (m2, ret)" "v_arrays m2 a = v_arrays m1 a" "ret \<noteq> None \<longrightarrow> I m2"
        using keeps [of m1 x y] l(3) Some xy(3,4) by auto
      have m2: "holds m2 M" using l(2) c(2) by (simp add: holds_def)
      note eq = sift_down_step [OF True l(1) [unfolded Some] xy(1) xy(2) [unfolded k_def] c(1), folded k_def]
      have bad: "holds (Raise_Error m2 s as) M" for s as
        using m2 by (simp add: holds_def Raise_Error_def Let_def)
      show ?thesis
      proof (cases "ret = None \<or> 0 \<le> sint (the ret) \<or> r = k")
        case True
        then show ?thesis using m2 c(3) bad by (cases ret) (auto simp: eq ran_def)
      next
        case False
        then obtain n where n: "ret = Some n" "sint n < 0" "r \<noteq> k" by (cases ret) auto
        have "r < size M" "k < size M" using True k less.prems(3) by simp_all
        then obtain m3 where m3: "swap_at m2 a r k = Some m3" "holds m3 M" "I m3"
          using swap_keeps [OF m2] c(3) n(1) by blast
        have "b + 1 - k < b + 1 - r" using n(3) True k by (auto simp: k_def child_def split: if_splits)
        then have "ran M (hsort_sift_down cmp a k b m3)" using less.hyps m3(2,3) less.prems(3) by blast
        then show ?thesis using n m3(1) by (simp add: eq)
      qed
    qed
  qed
qed

lemma build_keeps:
  "holds m M \<Longrightarrow> I m \<Longrightarrow> b < size M \<Longrightarrow> ran M (build_heap cmp a b i m)"
proof (induction i arbitrary: m)
  case 0
  then show ?case using sift_keeps by simp
next
  case (Suc i)
  then show ?case using sift_keeps [OF Suc.prems, of "Suc i"] by (fastforce simp: ran_def)
qed

lemma extract_keeps:
  "holds m M \<Longrightarrow> I m \<Longrightarrow> i < size M \<Longrightarrow> ran M (extract_heap cmp a i m)"
proof (induction i arbitrary: m)
  case 0
  then show ?case by (simp add: ranI)
next
  case (Suc i)
  have i: "(0::nat) < size M" "i < size M" using Suc.prems(3) by simp_all
  obtain m1 where m1: "swap_at m a 0 (Suc i) = Some m1" "holds m1 M" "I m1"
    using swap_keeps [OF Suc.prems(1,2) i(1) Suc.prems(3)] .
  from sift_keeps [OF m1(2,3) i(2), of 0] Suc.IH [OF _ _ i(2)] m1(1) show ?case
    by (fastforce simp: ran_def)
qed

lemma hsort_keeps:
  assumes "holds m M" "I m" "1 < size M" shows "ran M (hsort cmp a m)"
proof -
  from assms(1) obtain arr where arr: "v_arrays m a = Some arr" "vsize arr = size M" by (rule holdsE)
  have lt: "size M - 1 < size M" using assms(3) by linarith
  show ?thesis
    using build_keeps [OF assms(1,2) lt, of "size M div 2"] extract_keeps [OF _ _ lt] arr
    by (fastforce simp: hsort_def ran_def arr_Size_def)
qed

end

locale order_compare = comparison S c + keeping_compare S cmp a I
  for S :: "sqobject set" and c :: "sqobject \<Rightarrow> sqobject \<Rightarrow> int" and cmp :: compare and a :: addr
    and I :: "machine \<Rightarrow> bool" +
  assumes answers: "I m \<Longrightarrow> x \<in> S \<Longrightarrow> y \<in> S \<Longrightarrow>
      \<exists>m' n. cmp x y m = Some (m', Some n) \<and> sint n = c x y \<and> I m' \<and> v_arrays m' a = v_arrays m a"
begin

definition content :: "machine \<Rightarrow> sqobject list \<Rightarrow> bool" where
  "content m xs \<longleftrightarrow> I m \<and> (\<exists>arr. v_arrays m a = Some arr \<and> vals arr = xs) \<and> set xs \<subseteq> S"

definition follows :: "(machine \<times> bool) option \<Rightarrow> sqobject list option \<Rightarrow> bool" where
  "follows r l \<longleftrightarrow> (\<forall>ys. l = Some ys \<longrightarrow> (\<exists>m'. r = Some (m', True) \<and> content m' ys \<and> length ys > 0))"

lemma content_elem: "content m xs \<Longrightarrow> i < length xs \<Longrightarrow> elem_at m a i = Some (xs ! i)"
  by (auto simp: content_def elem_at_def nth_opt_def)

lemma content_cmp:
  assumes "content m xs" "i < length xs" "j < length xs"
  shows "\<exists>m' n. cmp (xs ! i) (xs ! j) m = Some (m', Some n) \<and> sint n = c (xs ! i) (xs ! j) \<and> content m' xs"
proof -
  have "xs ! i \<in> S" "xs ! j \<in> S" "I m" using assms by (auto simp: content_def)
  from answers [OF this(3,1,2)] assms(1) show ?thesis by (fastforce simp: content_def)
qed

lemma content_swap:
  assumes "content m xs" "i < length xs" "j < length xs"
  shows "\<exists>m'. swap_at m a i j = Some m' \<and> content m' (xs[i := xs ! j, j := xs ! i])"
proof -
  obtain arr where arr: "v_arrays m a = Some arr" "vals arr = xs" "I m" using assms(1) by (auto simp: content_def)
  have "set (xs[i := xs ! j, j := xs ! i]) = set xs" using mset_exchange [OF assms(2,3)] by (metis set_mset_mset)
  then have "content (put_array m a (arr\<lparr> vals := xs[i := xs ! j, j := xs ! i] \<rparr>)) (xs[i := xs ! j, j := xs ! i])"
    using assms(1) put [OF arr(3)] by (simp add: content_def put_array_def)
  then show ?thesis using arr content_elem [OF assms(1)] assms(2,3) by (auto simp: swap_at_def)
qed

lemma content_max_child:
  assumes "content m xs" "r * 2 \<le> b" "b < length xs"
  shows "\<exists>m' l. max_child cmp a (r * 2) b m = Some (m', Some l) \<and> content m' xs \<and> child r l = greater_child c r b xs"
proof (cases "r * 2 = b")
  case True
  with assms(1) show ?thesis by (intro exI [of _ m] exI [of _ True]) (simp add: max_child_def child_def greater_child_def)
next
  case False
  then have i: "r * 2 < length xs" "r * 2 + 1 < length xs" using assms(2,3) by simp_all
  obtain m' n where "cmp (xs ! (r * 2)) (xs ! (r * 2 + 1)) m = Some (m', Some n)"
    "sint n = c (xs ! (r * 2)) (xs ! (r * 2 + 1))" "content m' xs" using content_cmp [OF assms(1) i] by blast
  with content_elem [OF assms(1)] i False
  show ?thesis by (intro exI [of _ m'] exI [of _ "0 < sint n"]) (auto simp: max_child_def child_def greater_child_def)
qed

lemma sift_follows:
  assumes "content m xs" "b < length xs"
  shows "follows (hsort_sift_down cmp a r b m) (sift_list c r b xs)"
  using assms
proof (induction "b + 1 - r" arbitrary: r m xs rule: less_induct)
  case less
  show ?case
  proof (cases "r * 2 \<le> b")
    case False
    with less.prems show ?thesis by (auto simp: hsort_sift_down.simps sift_list.simps follows_def)
  next
    case True
    let ?k = "greater_child c r b xs"
    have k: "?k \<le> b" "r \<le> ?k" using True by (auto simp: greater_child_def)
    have i: "r < length xs" "?k < length xs" using True k less.prems(2) by linarith+
    obtain m1 l where l: "max_child cmp a (r * 2) b m = Some (m1, Some l)" "content m1 xs" "child r l = ?k"
      using content_max_child [OF less.prems(1) True less.prems(2)] by blast
    obtain m2 n where c: "cmp (xs ! r) (xs ! ?k) m1 = Some (m2, Some n)" "sint n = c (xs ! r) (xs ! ?k)" "content m2 xs"
      using content_cmp [OF l(2) i] by blast
    have e: "elem_at m1 a r = Some (xs ! r)" "elem_at m1 a ?k = Some (xs ! ?k)" using content_elem [OF l(2)] i by auto
    note eq = sift_down_step [OF True l(1) e(1) e(2) [folded l(3)] c(1) [folded l(3)], unfolded l(3)]
    note leq = sift_list.simps [of c r b xs, unfolded Let_def]
    show ?thesis
    proof (cases "c (xs ! r) (xs ! ?k) < 0 \<and> r \<noteq> ?k")
      case False
      then show ?thesis using c(2,3) True i by (auto simp: eq leq follows_def)
    next
      case lt: True
      let ?ys = "xs[r := xs ! ?k, ?k := xs ! r]"
      obtain m3 where m3: "swap_at m2 a r ?k = Some m3" "content m3 ?ys" using content_swap [OF c(3) i] by blast
      have "b + 1 - ?k < b + 1 - r" using lt k by linarith
      then have "follows (hsort_sift_down cmp a ?k b m3) (sift_list c ?k b ?ys)"
        using less.hyps m3(2) less.prems(2) by simp
      then show ?thesis using lt True c(2) m3(1) by (simp add: eq leq)
    qed
  qed
qed

lemma sift_length: "sift_list d r b xs = Some ys \<Longrightarrow> length ys = length xs"
  by (induction d r b xs rule: sift_list.induct)
    (simp add: sift_list.simps Let_def split: if_splits)

lemma followsD: "follows r (Some ys) \<Longrightarrow> \<exists>m'. r = Some (m', True) \<and> content m' ys"
  by (auto simp: follows_def)

lemma build_follows:
  "content m xs \<Longrightarrow> b < length xs \<Longrightarrow> follows (build_heap cmp a b i m) (build_list c b i xs)"
proof (induction i arbitrary: m xs)
  case 0
  then show ?case using sift_follows by simp
next
  case (Suc i)
  show ?case
  proof (cases "sift_list c (Suc i) b xs")
    case None
    then show ?thesis by (simp add: follows_def)
  next
    case (Some ys)
    from sift_follows [OF Suc.prems, of "Suc i"] Some obtain m1 where
      "hsort_sift_down cmp a (Suc i) b m = Some (m1, True)" "content m1 ys" by (auto dest: followsD)
    with Suc.IH [of m1 ys] Some Suc.prems(2) sift_length [OF Some] show ?thesis by simp
  qed
qed

lemma extract_follows:
  "content m xs \<Longrightarrow> i < length xs \<Longrightarrow> follows (extract_heap cmp a i m) (extract_list c i xs)"
proof (induction i arbitrary: m xs)
  case 0
  then show ?case by (auto simp: follows_def)
next
  case (Suc i)
  let ?zs = "xs[0 := xs ! Suc i, Suc i := xs ! 0]"
  have "0 < length xs" using Suc.prems(2) by linarith
  then obtain m1 where m1: "swap_at m a 0 (Suc i) = Some m1" "content m1 ?zs"
    using content_swap [OF Suc.prems(1) _ Suc.prems(2)] by blast
  have i: "i < length ?zs" using Suc.prems(2) by simp
  show ?case
  proof (cases "sift_list c 0 i ?zs")
    case None
    then show ?thesis by (simp add: follows_def)
  next
    case (Some ys)
    from sift_follows [OF m1(2) i, of 0] Some obtain m2 where
      "hsort_sift_down cmp a 0 i m1 = Some (m2, True)" "content m2 ys" by (auto dest: followsD)
    with Suc.IH [of m2 ys] Some m1(1) i sift_length [OF Some] show ?thesis by simp
  qed
qed

lemma hsort_sorts:
  assumes "content m xs" "1 < length xs"
  shows "\<exists>m' ys. hsort cmp a m = Some (m', True) \<and> content m' ys \<and> mset ys = mset xs \<and>
    sorted_wrt (\<lambda>x y. c x y \<le> 0) ys"
proof -
  obtain arr where arr: "v_arrays m a = Some arr" "vals arr = xs" "set xs \<subseteq> S" using assms(1) by (auto simp: content_def)
  obtain zs ys where l: "build_list c (length xs - 1) (length xs div 2) xs = Some zs"
    "extract_list c (length xs - 1) zs = Some ys" "mset ys = mset xs" "sorted_wrt (\<lambda>x y. c x y \<le> 0) ys"
    using sort_list_ok [OF arr(3) assms(2)] by (auto simp: sort_list_def split: Option.bind_splits)
  have len: "length xs - 1 < length xs" using assms(2) by simp
  obtain m1 where m1: "build_heap cmp a (length xs - 1) (length xs div 2) m = Some (m1, True)" "content m1 zs"
    using build_follows [OF assms(1) len] l(1) by (metis followsD)
  have "length zs = length xs"
    using build_keeps [of m "mset xs" "length xs - 1" "length xs div 2"] assms len arr m1
    by (auto simp: ran_def holds_def content_def dest: mset_eq_length)
  then obtain m2 where "extract_heap cmp a (length xs - 1) m1 = Some (m2, True)" "content m2 ys"
    using extract_follows [OF m1(2)] len l(2) by (metis followsD)
  with m1(1) l(3,4) arr show ?thesis by (auto simp: hsort_def arr_Size_def)
qed

end

subsection \<open>A script function as the comparison\<close>

definition quiet_call :: "mach_par \<Rightarrow> sqobject \<Rightarrow> addr \<Rightarrow> bool" where
  "quiet_call par f a \<longleftrightarrow> (\<forall>args m. \<exists>m' r. vp_call (mp_vm par) f MT_LAST args m = (m', r) \<and>
     keeps_frame m m' \<and> v_arrays m' a = v_arrays m a)"

text \<open>The frame of \<^verbatim>\<open>array_sort\<close>: the array, the function, and room for a call.\<close>

definition sort_frame :: "int \<Rightarrow> sqobject \<Rightarrow> addr \<Rightarrow> machine \<Rightarrow> bool" where
  "sort_frame b f a m \<longleftrightarrow> 0 \<le> b \<and> m_stackbase m = b \<and> m_top m = b + 2 \<and> b + 6 \<le> int (vsize (m_stack m)) \<and>
     st_get m b = Some (OArray a) \<and> st_get m (b + 1) = Some f \<and> m_suspended m = None \<and> v_arrays m a \<noteq> None"

lemma sort_frame_pushes:
  assumes "sort_frame b f a m"
  shows "\<exists>m1 m2 m3 m4. sq_push m 2 = Some m1 \<and> sq_pushroottable m1 = Some m2 \<and> Push m2 x = Some m3 \<and>
    Push m3 y = Some m4 \<and>
    restacked m m4 (b + 6) ((st_get m)(b + 2 \<mapsto> f, b + 3 \<mapsto> m_roottable m, b + 4 \<mapsto> x, b + 5 \<mapsto> y))"
proof -
  have m: "0 \<le> b" "m_stackbase m = b" "m_top m = b + 2" "b + 6 \<le> int (vsize (m_stack m))" "st_get m (b + 1) = Some f"
    using assms by (simp_all add: sort_frame_def)
  have room: "stack_room m' 1" if "m_top m' < b + 6" "b \<le> m_top m'" "vsize (m_stack m') = vsize (m_stack m)" for m'
    using that m by (simp add: stack_room_def)
  have room1: "stack_room m 1" using room m by simp
  from Push_cells [OF room1, of f] m(3) obtain m1 where
    m1: "Push m f = Some m1" "restacked m m1 (b + 3) ((st_get m)(b + 2 \<mapsto> f))" by (auto simp: ac_simps)
  note d1 = restackedD [OF m1(2)]
  have room2: "stack_room m1 1" using room d1 m(1) by simp
  from Push_cells [OF room2, of "m_roottable m1"] d1 obtain m2 where m2: "Push m1 (m_roottable m1) = Some m2"
    "restacked m1 m2 (b + 4) ((st_get m)(b + 2 \<mapsto> f, b + 3 \<mapsto> m_roottable m))" by (auto simp: ac_simps)
  note d2 = restackedD [OF m2(2)]
  have room3: "stack_room m2 1" using room d1 d2 m(1) by simp
  from Push_cells [OF room3, of x] d2 obtain m3 where m3: "Push m2 x = Some m3"
    "restacked m2 m3 (b + 5) ((st_get m)(b + 2 \<mapsto> f, b + 3 \<mapsto> m_roottable m, b + 4 \<mapsto> x))" by (auto simp: ac_simps)
  note d3 = restackedD [OF m3(2)]
  have room4: "stack_room m3 1" using room d1 d2 d3 m(1) by simp
  from Push_cells [OF room4, of y] d3 obtain m4 where m4: "Push m3 y = Some m4"
    "restacked m3 m4 (b + 6) ((st_get m)(b + 2 \<mapsto> f, b + 3 \<mapsto> m_roottable m, b + 4 \<mapsto> x, b + 5 \<mapsto> y))" by (auto simp: ac_simps)
  have "sq_push m 2 = Some m1" using m m1(1) by (simp add: sq_push_def stack_get_def GetAt_def algebra_simps)
  with m2 m3 m4 show ?thesis
    using restacked_trans [OF m1(2) restacked_trans [OF m2(2) restacked_trans [OF m3(2) m4(2)]]]
    by (auto simp: sq_pushroottable_def)
qed

lemma st_get_put_array: "st_get (put_array m a arr) = st_get m"
  by (simp add: fun_eq_iff st_get_def put_array_def)

lemma sort_frame_keeps:
  assumes "sort_frame b f a m" "m_stackbase m' = b" "m_top m' = b + 2" "vsize (m_stack m) \<le> vsize (m_stack m')"
    "\<forall>i<b + 2. st_get m' i = st_get m i" "m_suspended m' = None" "v_arrays m' a = v_arrays m a"
  shows "sort_frame b f a m'"
  using assms by (simp add: sort_frame_def)

lemma sort_compare_call:
  assumes fr: "sort_frame b f a m" and q: "quiet_call par f a"
  shows "\<exists>root m4 m1 r m' n. vp_call (mp_vm par) f MT_LAST [root, x, y] m4 = (m1, r) \<and>
    sort_compare same par a 2 x y m = Some (m', n) \<and> v_arrays m' a = v_arrays m a \<and>
    (n \<noteq> None \<longrightarrow> sort_frame b f a m') \<and>
    (\<forall>k. r = Some (OInteger k) \<longrightarrow> (\<forall>arr. same arr arr) \<longrightarrow> n = Some k)"
proof -
  obtain arr where arr: "v_arrays m a = Some arr" using fr by (auto simp: sort_frame_def)
  have b: "0 \<le> b" "m_stackbase m = b" "m_top m = b + 2" "b + 6 \<le> int (vsize (m_stack m))" "m_suspended m = None"
    using fr by (simp_all add: sort_frame_def)
  obtain m1 m2 m3 m4 where p: "sq_push m 2 = Some m1" "sq_pushroottable m1 = Some m2" "Push m2 x = Some m3"
    "Push m3 y = Some m4"
    "restacked m m4 (b + 6) ((st_get m)(b + 2 \<mapsto> f, b + 3 \<mapsto> m_roottable m, b + 4 \<mapsto> x, b + 5 \<mapsto> y))"
    using sort_frame_pushes [OF fr] by blast
  note d4 = restackedD [OF p(5)]
  have pushed: "v_arrays m4 a = Some arr" "m_suspended m4 = None" "m_top m4 = b + 6" "m_stackbase m4 = b"
    "vsize (m_stack m4) = vsize (m_stack m)" "\<forall>i<b + 2. st_get m4 i = st_get m i"
    using d4 b arr by simp_all
  obtain m5 r where call: "vp_call (mp_vm par) f MT_LAST [m_roottable m, x, y] m4 = (m5, r)"
    and kept: "keeps_frame m4 m5" "v_arrays m5 a = Some arr"
    using q pushed(1) unfolding quiet_call_def by metis
  have room4: "stack_room m4 0" "int 3 + 1 \<le> m_top m4" using b pushed by (simp_all add: stack_room_def)
  have f4: "st_get m4 (m_top m4 - int 3 - 1) = Some f" using d4 by simp
  have args: "read_range 3 (m_top m4 - int 3) m4 = Some [m_roottable m, x, y]"
  proof -
    have "st_get m4 (b + 3 + int k) = Some ([m_roottable m, x, y] ! k)" if "k < 3" for k
    proof -
      from that consider "k = 0" | "k = 1" | "k = 2" by linarith
      then show ?thesis using d4(2) by cases simp_all
    qed
    moreover have "length [m_roottable m, x, y] = 3" "m_top m4 - int 3 = b + 3" using pushed(3) by simp_all
    ultimately show ?thesis using read_range_cells [of "[m_roottable m, x, y]" m4 "b + 3"] by (simp only:)
  qed
  from sq_call_cells [OF room4 _ f4 args pushed(2) call kept(1)] obtain m6 c where
    six: "sq_call par m4 3 True = Some (m6, if r = None then SQ_ERROR else SQ_OK)"
      "restacked m5 m6 (b + 3 + (if r = None then 0 else 1)) c" "\<forall>i<b + 3. c i = st_get m4 i"
      "\<forall>x. r = Some x \<longrightarrow> c (b + 3) = Some x" using pushed(3) by (auto simp: algebra_simps)
  note d6 = restackedD [OF six(2)]
  have a6: "v_arrays m6 a = Some arr" using d6 kept(2) by simp
  have num: "sq_isnumeric (OInteger k)" for k by (simp add: sq_isnumeric_iff)
  have er: "SQ_OK \<noteq> SQ_ERROR" by (simp add: SQ_OK_def SQ_ERROR_def)
  have raised: "v_arrays (Raise_Error m6 t ts) a = Some arr" for t ts
    using a6 by (simp add: Raise_Error_def Let_def)
  let ?goal = "\<lambda>n m'. sort_compare same par a 2 x y m = Some (m', n) \<and> v_arrays m' a = v_arrays m a \<and>
    (n \<noteq> None \<longrightarrow> sort_frame b f a m') \<and> (\<forall>k. r = Some (OInteger k) \<longrightarrow> (\<forall>arr. same arr arr) \<longrightarrow> n = Some k)"
  have "\<exists>m' n. ?goal n m'"
  proof (cases r)
    case None
    with six(1) p pushed(1) a6 raised arr show ?thesis by (simp add: sort_compare_def)
  next
    case (Some z)
    have z: "stack_get m6 (-1) = Some z" using six(4) d6 Some by (simp add: stack_get_def GetUp_def ac_simps)
    have base6: "m_stackbase m6 = b" "m_top m6 = b + 4" "m_suspended m6 = None"
      "vsize (m_stack m) \<le> vsize (m_stack m6)"
      using d6 kept(1) pushed Some by (simp_all add: keeps_frame_def)
    have up: "sq_call par m4 3 True = Some (m6, SQ_OK)" using six(1) Some by simp
    show ?thesis
    proof (cases "sq_getinteger m6 (-1) = Some None \<or> \<not> same arr arr")
      case True
      then show ?thesis using up p pushed(1) er raised arr a6 z num Some
        by (auto simp: sort_compare_def sq_getinteger_def split: if_splits)
    next
      case False
      then obtain k where k: "sq_getinteger m6 (-1) = Some (Some k)" "same arr arr" using z by (auto simp: sq_getinteger_def)
      have "stack_room m6 0" "int 2 \<le> m_top m6" using base6 b by (simp_all add: stack_room_def)
      from PopN_cells [OF this] obtain m7 d where seven: "vm_PopN 2 m6 = Some m7"
        "restacked m6 m7 (b + 2) d" "\<forall>i<b + 2. d i = st_get m6 i" using base6(2) by (auto simp: ac_simps)
      note d7 = restackedD [OF seven(2)]
      have "sq_settop m6 (sq_gettop m) = Some m7"
        using seven(1) b base6 by (simp add: sq_settop_def sq_gettop_def sq_pop_def)
      then have "sort_compare same par a 2 x y m = Some (m7, Some k)"
        using up p pushed(1) er a6 k by (simp add: sort_compare_def)
      moreover have "sort_frame b f a m7"
        by (rule sort_frame_keeps [OF fr])
          (use d7 d6 base6 seven(3) six(3) pushed(6) arr kept in \<open>simp_all\<close>)
      moreover have "\<forall>i. z = OInteger i \<longrightarrow> i = k" using k(1) z num by (auto simp: sq_getinteger_def tointeger_def)
      ultimately show ?thesis using Some arr d7 a6 by simp
    qed
  qed
  with call show ?thesis by blast
qed

interpretation call_sort: keeping_compare UNIV "sort_compare same par a 2" a
    "\<lambda>m. quiet_call par f a \<and> sort_frame b f a m"
  for same :: "sqarray \<Rightarrow> sqarray \<Rightarrow> bool" and par :: mach_par and a :: addr and f :: sqobject and b :: int
proof unfold_locales
  fix m :: machine and x y
  assume "quiet_call par f a \<and> sort_frame b f a m"
  then show "\<exists>m' r. sort_compare same par a 2 x y m = Some (m', r) \<and> v_arrays m' a = v_arrays m a \<and>
      (r \<noteq> None \<longrightarrow> quiet_call par f a \<and> sort_frame b f a m')"
    using sort_compare_call [of b f a m par x y same] by blast
next
  fix m :: machine and arr
  assume "quiet_call par f a \<and> sort_frame b f a m"
  then show "quiet_call par f a \<and> sort_frame b f a (put_array m a arr)"
    by (simp only: sort_frame_def st_get_put_array) (simp add: put_array_def)
qed

lemma settop_one:
  assumes "0 \<le> m_stackbase m" "m_stackbase m < m_top m" "m_top m \<le> int (vsize (m_stack m))"
  shows "\<exists>m' c. sq_settop m 1 = Some m' \<and> restacked m m' (m_stackbase m + 1) c \<and>
    c (m_stackbase m) = st_get m (m_stackbase m)"
proof -
  have room: "stack_room m 0" "int (nat (m_top m - m_stackbase m - 1)) \<le> m_top m"
    using assms by (simp_all add: stack_room_def)
  from PopN_cells [OF this] obtain m' c where
    p: "vm_PopN (nat (m_top m - m_stackbase m - 1)) m = Some m'" "restacked m m' (m_stackbase m + 1) c"
      "\<forall>i<m_stackbase m + 1. c i = st_get m i" using assms by auto
  have "sq_settop m 1 = Some m'"
  proof (cases "m_top m = m_stackbase m + 1")
    case True
    with p(1) show ?thesis by (simp add: sq_settop_def sq_gettop_def)
  next
    case False
    with p(1) assms show ?thesis by (simp add: sq_settop_def sq_gettop_def sq_pop_def)
  qed
  with p(2,3) show ?thesis by auto
qed

text \<open>\<^verbatim>\<open>array_sort\<close> around the sort: the frame is cut to the array.\<close>

definition array_frame :: "int \<Rightarrow> addr \<Rightarrow> machine \<Rightarrow> bool" where
  "array_frame b a m \<longleftrightarrow> 0 \<le> b \<and> m_stackbase m = b \<and> b < m_top m \<and> m_top m \<le> int (vsize (m_stack m)) \<and>
     st_get m b = Some (OArray a)"

definition sort_done :: "machine \<Rightarrow> addr \<Rightarrow> bool" where
  "sort_done m a \<longleftrightarrow> sq_gettop m = 1 \<and> stack_get m (-1) = Some (OArray a)"

lemma sort_frame_array: "sort_frame b f a m \<Longrightarrow> array_frame b a m \<and> sq_gettop m = 2"
  by (simp add: sort_frame_def array_frame_def sq_gettop_def)

lemma array_sort_ends:
  assumes "array_frame b a m" "v_arrays m a = Some arr"
    "(if arr_Size arr > 1 then hsort (sort_compare same par a (if sq_gettop m = 2 then 2 else -1)) a m
      else Some (m, True)) = Some (m1, ok)"
    "ok \<longrightarrow> array_frame b a m1"
  shows "\<exists>m' r. array_sort same par m = Some (m', r) \<and> v_arrays m' = v_arrays m1 \<and>
    (if ok then r = 1 \<and> sort_done m' a else r = SQ_ERROR)"
proof -
  have "stack_get m 1 = Some (OArray a)" using assms(1) by (simp add: array_frame_def stack_get_def GetAt_def)
  then have eq: "array_sort same par m = (if ok then do { m2 \<leftarrow> sq_settop m1 1; Some (m2, 1) } else Some (m1, SQ_ERROR))"
    unfolding array_sort_def by (simp only: bind.bind_lunit sqobject.case assms(2,3) case_prod_conv)
  show ?thesis
  proof (cases ok)
    case False
    with eq show ?thesis by auto
  next
    case True
    with assms(4) have f1: "array_frame b a m1" by simp
    then obtain m2 c where m2: "sq_settop m1 1 = Some m2" "restacked m1 m2 (b + 1) c" "c b = Some (OArray a)"
      using settop_one [of m1] by (auto simp: array_frame_def)
    with eq True f1 restackedD [OF m2(2)] show ?thesis
      by (simp add: sort_done_def sq_gettop_def stack_get_def GetUp_def array_frame_def)
  qed
qed


text \<open>The order of a script function: it answers with an integer that depends on the two elements only.\<close>

definition ordered_call :: "mach_par \<Rightarrow> sqobject \<Rightarrow> (sqobject \<Rightarrow> sqobject \<Rightarrow> int) \<Rightarrow> sqobject set \<Rightarrow> bool" where
  "ordered_call par f c S \<longleftrightarrow>
     (\<forall>x\<in>S. c x x = 0) \<and> (\<forall>x\<in>S. \<forall>y\<in>S. 0 \<le> c x y \<longrightarrow> c y x \<le> 0) \<and>
     (\<forall>x\<in>S. \<forall>y\<in>S. \<forall>z\<in>S. c x y \<le> 0 \<longrightarrow> c y z \<le> 0 \<longrightarrow> c x z \<le> 0) \<and>
     (\<forall>x\<in>S. \<forall>y\<in>S. \<forall>root m. \<exists>k. snd (vp_call (mp_vm par) f MT_LAST [root, x, y] m) = Some (OInteger k) \<and> sint k = c x y)"

lemma ordered_call_compare:
  assumes "ordered_call par f c S" "\<forall>arr. same arr arr"
  shows "order_compare S c (sort_compare same par a 2) a (\<lambda>m. quiet_call par f a \<and> sort_frame b f a m)"
proof (intro order_compare.intro order_compare_axioms.intro)
  show "comparison S c" using assms(1) unfolding ordered_call_def by unfold_locales blast+
  show "keeping_compare S (sort_compare same par a 2) a (\<lambda>m. quiet_call par f a \<and> sort_frame b f a m)"
    using call_sort.keeps call_sort.put by unfold_locales blast+
  fix m x y
  assume m: "quiet_call par f a \<and> sort_frame b f a m" and S: "x \<in> S" "y \<in> S"
  then obtain root m4 m1 r m' n where c:
    "vp_call (mp_vm par) f MT_LAST [root, x, y] m4 = (m1, r)"
    "sort_compare same par a 2 x y m = Some (m', n)" "v_arrays m' a = v_arrays m a"
    "n \<noteq> None \<longrightarrow> sort_frame b f a m'"
    "\<forall>k. r = Some (OInteger k) \<longrightarrow> (\<forall>arr. same arr arr) \<longrightarrow> n = Some k"
    using sort_compare_call [of b f a m par x y same] by blast
  obtain k where "snd (vp_call (mp_vm par) f MT_LAST [root, x, y] m4) = Some (OInteger k)" "sint k = c x y"
    using assms(1) S unfolding ordered_call_def by blast
  with c assms(2) m show "\<exists>m' n. sort_compare same par a 2 x y m = Some (m', Some n) \<and> sint n = c x y \<and>
      (quiet_call par f a \<and> sort_frame b f a m') \<and> v_arrays m' a = v_arrays m a" by auto
qed

text \<open>
  C32.  When the script function answers with a total preorder on the elements, positive for the
  greater first argument, the sort succeeds and leaves the array in ascending order with the elements
  it had.  \<open>same\<close> says that an array nobody touched keeps its buffer.
\<close>

theorem sort_sorts:
  assumes "sort_frame b f a m" "quiet_call par f a" "v_arrays m a = Some arr"
    "ordered_call par f c (set (vals arr))" "\<forall>arr. same arr arr"
  shows "\<exists>m' arr'. array_sort same par m = Some (m', 1) \<and> sort_done m' a \<and> v_arrays m' a = Some arr' \<and>
    mset (vals arr') = mset (vals arr) \<and> sorted_wrt (\<lambda>x y. c x y \<le> 0) (vals arr')"
proof -
  note o = ordered_call_compare [where a = a and b = b and same = same, OF assms(4,5)]
  have fr: "array_frame b a m" "sq_gettop m = 2" using sort_frame_array [OF assms(1)] by simp_all
  show ?thesis
  proof (cases "arr_Size arr > 1")
    case True
    have "order_compare.content (set (vals arr)) a (\<lambda>m. quiet_call par f a \<and> sort_frame b f a m) m (vals arr)"
      unfolding order_compare.content_def [OF o] using assms(1,2,3) by simp
    from order_compare.hsort_sorts [OF o this] True obtain m1 ys where h:
      "hsort (sort_compare same par a 2) a m = Some (m1, True)"
      "order_compare.content (set (vals arr)) a (\<lambda>m. quiet_call par f a \<and> sort_frame b f a m) m1 ys"
      "mset ys = mset (vals arr)" "sorted_wrt (\<lambda>x y. c x y \<le> 0) ys" by (auto simp: arr_Size_def)
    then obtain arr1 where "v_arrays m1 a = Some arr1" "vals arr1 = ys" "sort_frame b f a m1"
      unfolding order_compare.content_def [OF o] by auto
    then show ?thesis
      using array_sort_ends [OF fr(1) assms(3), of same par m1 True] sort_frame_array [of b f a m1] fr(2) True h
      by auto
  next
    case False
    then have "sorted_wrt (\<lambda>x y. c x y \<le> 0) (vals arr)" by (cases "vals arr") (auto simp: arr_Size_def)
    then show ?thesis
      using array_sort_ends [OF fr(1) assms(3), of same par m True] fr False assms(3) by auto
  qed
qed

subsection \<open>The comparison of integers\<close>

definition int_order :: "sqobject \<Rightarrow> sqobject \<Rightarrow> int" where
  "int_order x y = sint (sgn_cmp (sint (rawval x)) (sint (rawval y)))"

lemma int_order: "int_order (OInteger i) (OInteger j) = (if sint i = sint j then 0 else if sint i < sint j then -1 else 1)"
  by (simp add: int_order_def sgn_cmp_def)

lemma sort_compare_int:
  "sort_compare same par a (-1) (OInteger i) (OInteger j) m =
     Some (m, Some (sgn_cmp (sint i) (sint j)))"
  by (simp add: sort_compare_def op_result_def ObjCmp_int_int)

interpretation int_sort: order_compare "range OInteger" int_order "sort_compare same par a (-1)" a "array_frame b a"
  for same :: "sqarray \<Rightarrow> sqarray \<Rightarrow> bool" and par :: mach_par and a :: addr and b :: int
proof unfold_locales
  fix x y z :: sqobject
  assume "x \<in> range OInteger" "y \<in> range OInteger" "z \<in> range OInteger"
  then show "int_order x y \<le> 0 \<Longrightarrow> int_order y z \<le> 0 \<Longrightarrow> int_order x z \<le> 0"
    by (auto simp: int_order split: if_splits)
next
  fix m :: machine and x y :: sqobject
  assume m: "array_frame b a m" and "x \<in> range OInteger" "y \<in> range OInteger"
  then show "\<exists>m' n. sort_compare same par a (-1) x y m = Some (m', Some n) \<and> sint n = int_order x y \<and>
      array_frame b a m' \<and> v_arrays m' a = v_arrays m a"
    and "\<exists>m' r. sort_compare same par a (-1) x y m = Some (m', r) \<and> v_arrays m' a = v_arrays m a \<and>
      (r \<noteq> None \<longrightarrow> array_frame b a m')"
    by (auto simp: sort_compare_int int_order_def)
next
  fix m :: machine and arr
  assume "array_frame b a m"
  then show "array_frame b a (put_array m a arr)"
    by (simp only: array_frame_def st_get_put_array) (simp add: put_array_def)
qed (auto simp: int_order split: if_splits)

text \<open>
  Without a function the sort puts an array of integers in ascending order.
\<close>

theorem sort_integers:
  assumes "array_frame b a m" "sq_gettop m = 1" "v_arrays m a = Some arr" "set (vals arr) \<subseteq> range OInteger"
  shows "\<exists>m' arr'. array_sort same par m = Some (m', 1) \<and> sort_done m' a \<and> v_arrays m' a = Some arr' \<and>
    mset (vals arr') = mset (vals arr) \<and> sorted (map (\<lambda>x. sint (rawval x)) (vals arr'))"
proof -
  have ascending: "sorted (map (\<lambda>x. sint (rawval x)) ys)"
    if "sorted_wrt (\<lambda>x y. int_order x y \<le> 0) ys" for ys
    unfolding sorted_map
    by (rule sorted_wrt_mono_rel [OF _ that]) (simp add: int_order_def sgn_cmp_def split: if_splits)
  show ?thesis
  proof (cases "arr_Size arr > 1")
    case True
    have "int_sort.content a b m (vals arr)" using assms by (simp add: int_sort.content_def)
    from int_sort.hsort_sorts [OF this, of same par] True obtain m1 ys where h:
      "hsort (sort_compare same par a (-1)) a m = Some (m1, True)" "int_sort.content a b m1 ys"
      "mset ys = mset (vals arr)" "sorted_wrt (\<lambda>x y. int_order x y \<le> 0) ys" by (auto simp: arr_Size_def)
    then obtain arr1 where "v_arrays m1 a = Some arr1" "vals arr1 = ys" "array_frame b a m1"
      by (auto simp: int_sort.content_def)
    then show ?thesis
      using array_sort_ends [OF assms(1,3), of same par m1 True] assms(2) True h ascending by auto
  next
    case False
    then have "sorted (map (\<lambda>x. sint (rawval x)) (vals arr))" by (cases "vals arr") (auto simp: arr_Size_def)
    then show ?thesis
      using array_sort_ends [OF assms(1,3), of same par m True] False assms(1,3) by auto
  qed
qed

subsection \<open>Concrete sorts\<close>

text \<open>A native function that compares two integers, the greater first; an array of three in the frame.\<close>

definition descending :: "sqobject \<Rightarrow> sqobject \<Rightarrow> int" where
  "descending x y = int_order y x"

definition descending_par :: mach_par where
  "descending_par =
     \<lparr> mp_vm = \<lparr> vp_strhash = id, vp_mm = (\<lambda>i. ONull), vp_mmmap = SQTable_new 0, vp_ctor = ONull,
         vp_rebase = (\<lambda>a b. ONull), vp_ddel = (\<lambda>t. 0), vp_root = ONull, vp_roottable = 0, vp_new = (\<lambda>m. 0),
         vp_call = (\<lambda>f i args m. (m, case args of
           [root, OInteger x, OInteger y] \<Rightarrow> Some (OInteger (sgn_cmp (sint y) (sint x))) | _ \<Rightarrow> None)),
         vp_mkstr = (\<lambda>s m. (m, 0)), vp_fmtg = (\<lambda>f. []), vp_fmtg14 = (\<lambda>f. []), vp_fmtp = (\<lambda>p. []) \<rparr>,
       mp_native = (\<lambda>n m. (m, 0)) \<rparr>"

definition three :: sqarray where
  "three = \<lparr> vals = [OInteger 2, OInteger (-3), OInteger 5], allocated = 4 \<rparr>"

definition sorting_machine :: "int \<Rightarrow> machine" where
  "sorting_machine t = empty_machine\<lparr> v_arrays := [5 \<mapsto> three],
     m_stack := \<lparr> vals = [OArray 5, ONativeClosure 6, ONull, ONull, ONull, ONull], allocated = 6 \<rparr>, m_top := t \<rparr>"

lemma sorting_machine_frames:
  "sort_frame 0 (ONativeClosure 6) 5 (sorting_machine 2)" "array_frame 0 5 (sorting_machine 1)"
  "sq_gettop (sorting_machine 1) = 1" "v_arrays (sorting_machine t) 5 = Some three"
  by (simp_all add: sort_frame_def array_frame_def sq_gettop_def sorting_machine_def empty_machine_def st_get_def)

lemma descending_quiet: "quiet_call descending_par f a"
  by (auto simp: quiet_call_def descending_par_def keeps_frame_def)

lemma three_integers: "set (vals three) \<subseteq> range OInteger"
  by (auto simp: three_def)

lemma descending_ordered:
  assumes "S \<subseteq> range OInteger" shows "ordered_call descending_par f descending S"
proof -
  have call: "snd (vp_call (mp_vm descending_par) f MT_LAST [root, OInteger i, OInteger j] m) =
      Some (OInteger (sgn_cmp (sint j) (sint i)))" for root i j m
    by (simp add: descending_par_def)
  have int: "\<exists>i. x = OInteger i" if "x \<in> S" for x using assms that by auto
  have "\<exists>k. snd (vp_call (mp_vm descending_par) f MT_LAST [root, x, y] m) = Some (OInteger k) \<and> sint k = int_order y x"
    if xy: "x \<in> S" "y \<in> S" for x y root m
  proof -
    obtain i j where "x = OInteger i" "y = OInteger j" using int xy by blast
    then show ?thesis by (simp only: call int_order_def rawval.simps) blast
  qed
  then show ?thesis unfolding ordered_call_def descending_def
    by (auto simp: int_order_def sgn_cmp_def split: if_splits)
qed


theorem sort_sorts_witness:
  "\<exists>m' arr'. array_sort (\<lambda>x y. True) descending_par (sorting_machine 2) = Some (m', 1) \<and> sort_done m' 5 \<and>
    v_arrays m' 5 = Some arr' \<and> mset (vals arr') = mset (vals three) \<and>
    sorted_wrt (\<lambda>x y. descending x y \<le> 0) (vals arr')"
  by (rule sort_sorts [OF sorting_machine_frames(1) descending_quiet sorting_machine_frames(4)
        descending_ordered [OF three_integers]]) simp

theorem sort_integers_witness:
  "\<exists>m' arr'. array_sort (\<lambda>x y. True) descending_par (sorting_machine 1) = Some (m', 1) \<and> sort_done m' 5 \<and>
    v_arrays m' 5 = Some arr' \<and> mset (vals arr') = mset (vals three) \<and>
    sorted (map (\<lambda>x. sint (rawval x)) (vals arr'))"
  by (rule sort_integers [OF sorting_machine_frames(2,3,4) three_integers])

end
