(* ===== verification/Sq_Baselib_Correct.thy ===== *)
theory Sq_Baselib_Correct
  imports Sq_Baselib Sq_Sort_Correct Sq_Table_Correct
begin

text \<open>
  Properties of the script functions: the arrays \<^verbatim>\<open>keys\<close> and \<^verbatim>\<open>values\<close> build of a table, slices and
  searches, and three places where the functions do not do what they mean to.
\<close>

subsection \<open>Keys and values\<close>

lemma sint_small: "n < 2 ^ 63 \<Longrightarrow> sint (word_of_nat n :: sqint) = int n"
  by (simp add: sint_uint unat_of_nat uint_nat signed_take_bit_int_eq_self take_bit_nat_eq_self)

lemma unat_small: "n < 2 ^ 63 \<Longrightarrow> unat (word_of_nat n :: sqint) = n"
  by (simp add: unat_of_nat take_bit_nat_eq_self)

lemma collect_ok:
  assumes "TranslateIndex itr = Some (word_of_nat idx)" "idx \<le> numofnodes t" "numofnodes t < 2 ^ 63"
    "k + length (tbl_visit t idx) = vsize arr" "vsize arr < 2 ^ 63"
  shows "collect_table rv t val (word_of_nat k) itr arr =
    Some (arr\<lparr> vals := take k (vals arr) @ map (\<lambda>(key, v). if val then rv v else key) (tbl_visit t idx) \<rparr>)"
  using assms
proof (induction "length (tbl_visit t idx)" arbitrary: itr idx k arr)
  case 0
  then have "tbl_next_from (nodes t) (numofnodes t) idx = None" 
    by (subst (asm) tbl_visit.simps) (simp split: option.splits)
  with 0 show ?case
    by (subst collect_table.simps) (simp add: tbl_Next_def sint_small unat_small)
next
  case (Suc l)
  then obtain i where i: "tbl_next_from (nodes t) (numofnodes t) idx = Some i"
    by (subst (asm) tbl_visit.simps) (simp split: option.splits)
  have lt: "i < numofnodes t" using tbl_next_from_bounds [OF i] by simp
  let ?kv = "(nd_key (nodes t ! i), nd_val (nodes t ! i))"
  have v: "tbl_visit t idx = ?kv # tbl_visit t (Suc i)" using i by (subst tbl_visit.simps) simp
  let ?x = "if val then rv (snd ?kv) else fst ?kv"
  let ?arr = "arr\<lparr> vals := (vals arr)[k := ?x] \<rparr>"
  have k: "k < vsize arr" using Suc.prems(4) v by simp
  have next_itr: "tbl_Next rv t False itr = Some (Some (word_of_nat (Suc i), fst ?kv, rv (snd ?kv)))"
    using Suc.prems(1,2,3) i by (simp add: tbl_Next_def sint_small unat_small)
  have s: "fst (arr_Set arr (word_of_nat k) x) = arr\<lparr> vals := (vals arr)[k := x] \<rparr>" for x
    using k Suc.prems(5) by (simp add: arr_Set_def sint_small)
  have "collect_table rv t val (word_of_nat k) itr arr =
      collect_table rv t val (word_of_nat (Suc k)) (OInteger (word_of_nat (Suc i))) ?arr"
    by (subst collect_table.simps) (simp add: next_itr s ac_simps)
  also have "\<dots> = Some (?arr\<lparr> vals := take (Suc k) (vals ?arr) @
      map (\<lambda>(key, v). if val then rv v else key) (tbl_visit t (Suc i)) \<rparr>)"
  proof (rule Suc.hyps(1))
    show "l = length (tbl_visit t (Suc i))" using Suc.hyps(2) v by simp
    show "TranslateIndex (OInteger (word_of_nat (Suc i))) = Some (word_of_nat (Suc i))" by (simp add: TranslateIndex_def)
    show "Suc i \<le> numofnodes t" "numofnodes t < 2 ^ 63" using lt Suc.prems(3) by simp_all
    show "Suc k + length (tbl_visit t (Suc i)) = vsize ?arr" "vsize ?arr < 2 ^ 63" using Suc.prems(4,5) v by simp_all
  qed
  finally show ?case using k v by (simp add: take_Suc_conv_app_nth)
qed

text \<open>What a native function leaves: one result, the array of these values, in a frame that is otherwise
  the same.\<close>

definition pushes_array :: "machine \<Rightarrow> api \<Rightarrow> sqobject list \<Rightarrow> bool" where
  "pushes_array m r xs \<longleftrightarrow> (\<exists>m' b arr. r = Some (m', 1) \<and> m_top m' = m_top m + 1 \<and> m_stackbase m' = m_stackbase m \<and>
     (\<forall>i<m_top m. st_get m' i = st_get m i) \<and> st_get m' (m_top m) = Some (OArray b) \<and>
     v_arrays m' b = Some arr \<and> vals arr = xs)"

lemma pushes_new_array:
  assumes "stack_room m 1"
  shows "pushes_array m (push_result (let (m1, x) = new_array par arr m in Push m1 x)) (vals arr)"
proof -
  let ?m = "m\<lparr> v_arrays := (v_arrays m)(mp_new par m \<mapsto> arr) \<rparr>"
  have "stack_room ?m 1" using assms by (simp add: stack_room_def)
  then obtain m' where m': "Push ?m (OArray (mp_new par m)) = Some m'"
    "restacked ?m m' (m_top m + 1) ((st_get ?m)(m_top m \<mapsto> OArray (mp_new par m)))"
    using Push_cells by fastforce
  have "st_get ?m = st_get m" by (simp add: fun_eq_iff st_get_def)
  with m'(1) restackedD [OF m'(2)] show ?thesis
    by (auto simp: pushes_array_def push_result_def new_array_def)
qed

lemma vals_resize_nulls: "vals (arr_Resize (SQArray_new n) n ONull) = replicate n ONull"
  by (simp add: arr_Resize_def arr_ShrinkIfNeeded_ok vec_resize_ok SQArray_new_ok)

lemma length_visit: "wf_table hsh t \<Longrightarrow> int (length (tbl_visit t 0)) = usednodes t"
  using tbl_visit_all [of hsh t] tbl.count_ok [of hsh t]
  by (metis distinct_card dom_map_of_conv_image_fst length_map list.set_map)

lemma table_to_array_ok:
  assumes "table_arg m 1 = Some (a, t)" "wf_table hsh t" "numofnodes t < 2 ^ 63" "stack_room m 1"
  shows "pushes_array m (table_to_array val par m)
    (map (\<lambda>(key, v). if val then realval (deref m) v else key) (tbl_visit t 0))"
proof -
  let ?n = "nat (usednodes t)"
  let ?arr = "arr_Resize (SQArray_new ?n) ?n ONull"
  let ?xs = "map (\<lambda>(key, v). if val then realval (deref m) v else key) (tbl_visit t 0)"
  have n: "?n = length (tbl_visit t 0)" using length_visit [OF assms(2)] by simp
  have len: "vsize ?arr = ?n" by (simp add: vals_resize_nulls)
  have "length (tbl_visit t 0) \<le> numofnodes t"
    using assms(2) by (simp add: tbl_visit_eq wf_table_def wf_size_def)
  then have small: "?n < 2 ^ 63" using n assms(3) by linarith
  have "\<exists>arr1. (if ?n \<noteq> 0 then collect_table (realval (deref m)) t val 0 ONull ?arr else Some ?arr) = Some arr1 \<and>
      vals arr1 = ?xs"
  proof (cases "?n = 0")
    case True
    with n len show ?thesis by simp
  next
    case False
    have "TranslateIndex ONull = Some (word_of_nat 0)" by (simp add: TranslateIndex_def)
    from collect_ok [OF this, of t 0 ?arr "realval (deref m)" val] assms(3) small len n False show ?thesis by simp
  qed
  then obtain arr1 where arr1:
    "(if ?n \<noteq> 0 then collect_table (realval (deref m)) t val 0 ONull ?arr else Some ?arr) = Some arr1" "vals arr1 = ?xs"
    by blast
  have "table_to_array val par m = push_result (let (m1, x) = new_array par arr1 m in Push m1 x)"
    by (simp only: table_to_array_def Let_def assms(1) bind.bind_lunit case_prod_conv arr1(1))
  with pushes_new_array [OF assms(4), of par arr1] arr1(2) show ?thesis by simp
qed

text \<open>
  C34.  \<^verbatim>\<open>keys\<close> and \<^verbatim>\<open>values\<close> of a well-formed table return two new arrays of the same length, in the
  same order: the keys are pairwise different, and a key stands beside a value exactly when the table
  binds the key to it (to the referent, for a weak reference).  The frame is otherwise unchanged.
\<close>

theorem table_keys_values:
  assumes "table_arg m 1 = Some (a, t)" "wf_table hsh t" "numofnodes t < 2 ^ 63" "stack_room m 1"
  shows "\<exists>ks vs. pushes_array m (table_keys par m) ks \<and> pushes_array m (table_values par m) vs \<and>
    length ks = length vs \<and> distinct ks \<and>
    (\<forall>k v. (k, v) \<in> set (zip ks vs) \<longleftrightarrow> (\<exists>w. table_map t k = Some w \<and> v = realval (deref m) w))"
proof -
  let ?l = "tbl_visit t 0"
  let ?vs = "map (\<lambda>kv. realval (deref m) (snd kv)) ?l"
  have "pushes_array m (table_keys par m) (map fst ?l)" "pushes_array m (table_values par m) ?vs"
    using table_to_array_ok [OF assms, of False par] table_to_array_ok [OF assms, of True par]
    by (simp_all add: table_keys_def table_values_def split_def)
  moreover have "distinct (map fst ?l)" using tbl_visit_all(1) [OF assms(2)] .
  moreover have "(k, v) \<in> set (zip (map fst ?l) ?vs) \<longleftrightarrow> (\<exists>w. table_map t k = Some w \<and> v = realval (deref m) w)" for k v
  proof -
    have "zip (map fst ?l) ?vs = map (\<lambda>kv. (fst kv, realval (deref m) (snd kv))) ?l"
      by (simp add: zip_map_map zip_same_conv_map)
    moreover have "(\<exists>w. (k, w) \<in> set ?l \<and> v = realval (deref m) w) \<longleftrightarrow> (\<exists>w. table_map t k = Some w \<and> v = realval (deref m) w)"
      using tbl_visit_all [OF assms(2)] by (metis map_of_eq_Some_iff)
    ultimately show ?thesis by force
  qed
  ultimately show ?thesis by (intro exI [of _ "map fst ?l"] exI [of _ ?vs]) simp
qed

definition table_machine :: "sqtable \<Rightarrow> machine" where
  "table_machine t = empty_machine\<lparr> v_tables := [5 \<mapsto> t],
     m_stack := \<lparr> vals = [OTable 5, ONull, ONull], allocated = 3 \<rparr>, m_top := 1 \<rparr>"

theorem table_keys_values_witness:
  "\<exists>t b ks vs. NewSlot rawval (SQTable_new 4) (OInteger 7) (OInteger 9) = Some (t, b) \<and>
     pushes_array (table_machine t) (table_keys descending_par (table_machine t)) ks \<and>
     pushes_array (table_machine t) (table_values descending_par (table_machine t)) vs \<and>
     (OInteger 7, OInteger 9) \<in> set (zip ks vs)"
proof -
  have u: "usednodes (SQTable_new 4) = 0" using tbl.count_ok [OF SQTable_new_ok(1)] SQTable_new_ok(2) by simp
  have n: "numofnodes (SQTable_new 4) = 4"
    by (simp add: SQTable_new_def Let_def AllocNodes_def MINPOWER2_def while_unfold)
  obtain t where t: "NewSlot rawval (SQTable_new 4) (OInteger 7) (OInteger 9) = Some (t, True)" "wf_table rawval t"
    "table_map t = [OInteger 7 \<mapsto> OInteger 9]" "numofnodes t = 4"
    using NewSlot_f_fresh [where hsh = rawval and t = "SQTable_new 4" and d = 1 and key = "OInteger 7" and val = "OInteger 9", OF SQTable_new_ok(1,3)] u n SQTable_new_ok(2)
    by (auto simp: NewSlot_def numeral_2_eq_2)
  have "table_arg (table_machine t) 1 = Some (5, t)" "stack_room (table_machine t) 1"
    by (simp_all add: table_arg_def table_machine_def stack_get_def GetAt_def st_get_def empty_machine_def stack_room_def)
  from table_keys_values [OF this(1) t(2) _ this(2), of descending_par] t(4) obtain ks vs where
    kv: "pushes_array (table_machine t) (table_keys descending_par (table_machine t)) ks"
      "pushes_array (table_machine t) (table_values descending_par (table_machine t)) vs"
      "\<forall>k v. (k, v) \<in> set (zip ks vs) \<longleftrightarrow> (\<exists>w. table_map t k = Some w \<and> v = realval (deref (table_machine t)) w)"
    by auto
  have "(OInteger 7, OInteger 9) \<in> set (zip ks vs)" using kv(3) t(3) by (simp add: realval_def)
  with t(1) kv(1,2) show ?thesis by blast
qed

subsection \<open>Slices and searches\<close>

lemma slice_loop_ok:
  assumes "i + n \<le> vsize src" "vsize src < 2 ^ 63" "c + n = vsize dest" "vsize dest < 2 ^ 63"
  shows "vals (slice_loop rv src n i c t dest) = take c (vals dest) @ map rv (take n (drop i (vals src)))"
  using assms
proof (induction n arbitrary: i c t dest)
  case 0
  then show ?case by simp
next
  case (Suc n)
  have small: "i < 2 ^ 63" "c < 2 ^ 63" "i < vsize src" "c < vsize dest" using Suc.prems by simp_all
  then have get: "arr_Get rv src (word_of_nat i) = Some (rv (vals src ! i))"
    by (simp add: arr_Get_def sint_small)
  have set: "fst (arr_Set dest (word_of_nat c) x) = dest\<lparr> vals := (vals dest)[c := x] \<rparr>" for x
    using small by (simp add: arr_Set_def sint_small)
  have "drop i (vals src) = vals src ! i # drop (Suc i) (vals src)" using small by (simp add: Cons_nth_drop_Suc)
  moreover have "take (Suc c) ((vals dest)[c := x]) = take c (vals dest) @ [x]" for x
    using small by (simp add: take_Suc_conv_app_nth)
  ultimately show ?case
    using Suc.IH [of "Suc i" "Suc c" "dest\<lparr> vals := (vals dest)[c := rv (vals src ! i)] \<rparr>" "rv (vals src ! i)"]
      Suc.prems by (simp add: get set Let_def)
qed

lemma strstr_first:
  "strstr s n = Some k \<Longrightarrow> k \<le> length s \<and> take (length n) (drop k s) = n \<and> (\<forall>j<k. take (length n) (drop j s) \<noteq> n)"
proof (induction s n arbitrary: k rule: strstr.induct)
  case (1 n)
  then show ?case by (auto split: if_splits)
next
  case (2 c cs n)
  show ?case
  proof (cases "take (length n) (c # cs) = n")
    case True
    with 2 show ?thesis by simp
  next
    case False
    with 2 obtain l where "strstr cs n = Some l" "k = Suc l" by auto
    with 2 False show ?thesis by (auto simp: less_Suc_eq_0_disj)
  qed
qed

lemma strstr_none: "strstr s n = None \<Longrightarrow> take (length n) (drop j s) \<noteq> n"
proof (induction s n arbitrary: j rule: strstr.induct)
  case (1 n)
  then show ?case by (auto split: if_splits)
next
  case (2 c cs n)
  then show ?case by (cases j) (auto split: if_splits)
qed

text \<open>The elements a script sees of a slice: the indices from the start up to, not including, the end,
  negative ones counted from the end.\<close>

definition slice_of :: "int \<Rightarrow> int \<Rightarrow> 'a list \<Rightarrow> 'a list option" where
  "slice_of s e xs =
     (let n = int (length xs); s' = (if s < 0 then n + s else s); e' = (if e < 0 then n + e else e) in
      if s' \<le> e' \<and> e' \<le> n \<and> 0 \<le> s' then Some (take (nat (e' - s')) (drop (nat s') xs)) else None)"

lemma sint_add_len:
  assumes "n < 2 ^ 63" "sint s < 0"
  shows "sint (word_of_nat n + s :: sqint) = int n + sint s"
proof -
  have "- (2 ^ 63) \<le> sint s" using sint_ge [of s] by simp
  then have "- (2 ^ 63) \<le> int n + sint s" "int n + sint s < 2 ^ 63" using assms by simp_all
  then have "signed_take_bit 63 (int n + sint s) = int n + sint s" by (rule signed_take_bit_int_eq_self)
  moreover have "sint (word_of_int (int n + sint s) :: sqint) = signed_take_bit 63 (int n + sint s)"
    by (subst sint_sbintrunc') simp
  moreover have "(word_of_nat n + s :: sqint) = word_of_int (int n + sint s)" by simp
  ultimately show ?thesis by (simp only:)
qed

lemma slice_range_ok:
  assumes "length xs < 2 ^ 63"
  shows "case slice_range (word_of_nat (length xs)) s e of
      Inr (i, j) \<Rightarrow> i \<le> j \<and> j \<le> length xs \<and> slice_of (sint s) (sint e) xs = Some (take (j - i) (drop i xs))
    | Inl _ \<Rightarrow> slice_of (sint s) (sint e) xs = None"
proof -
  let ?s = "if sint s < 0 then int (length xs) + sint s else sint s"
  let ?e = "if sint e < 0 then int (length xs) + sint e else sint e"
  have "sint (if sint s < 0 then word_of_nat (length xs) + s else s) = ?s"
    "sint (if sint e < 0 then word_of_nat (length xs) + e else e) = ?e"
    "sint (word_of_nat (length xs) :: sqint) = int (length xs)"
    using sint_add_len assms sint_small by simp_all
  then have "slice_range (word_of_nat (length xs)) s e =
      (if ?e < ?s then Inl ''wrong indexes'' else if ?e > int (length xs) \<or> ?s < 0 then Inl ''slice out of range''
       else Inr (nat ?s, nat ?e))"
    by (simp only: slice_range_def Let_def)
  then show ?thesis by (auto simp: slice_of_def Let_def nat_diff_distrib not_less)
qed

text \<open>
  C35.  \<^verbatim>\<open>slice\<close> of an array with two integer bounds, of either sign, returns a new array of exactly the
  elements from the first bound up to the second, each weak reference replaced by its referent; bounds
  that are out of order or out of range are an error that leaves the frame and the arrays alone.
\<close>

theorem array_slice_elements:
  assumes "sq_gettop m = 3" "stack_get m 1 = Some (OArray a)" "stack_get m 2 = Some (OInteger s)"
    "stack_get m 3 = Some (OInteger e)" "v_arrays m a = Some arr" "vsize arr < 2 ^ 63" "stack_room m 1"
  shows "case slice_of (sint s) (sint e) (vals arr) of
      Some xs \<Rightarrow> pushes_array m (array_slice par m) (map (realval (deref m)) xs)
    | None \<Rightarrow> \<exists>m'. array_slice par m = Some (m', SQ_ERROR) \<and> same_frame m m' \<and> v_arrays m' = v_arrays m"
proof -
  have num: "sq_isnumeric (OInteger i)" for i by (simp add: sq_isnumeric_iff)
  have p: "get_slice_params m = Some (m, s, e, OArray a)"
    using assms num by (simp add: get_slice_params_def tointeger_def)
  show ?thesis
  proof (cases "slice_range (word_of_nat (vsize arr)) s e")
    case (Inl err)
    with slice_range_ok [OF assms(6), of s e] p assms(5) show ?thesis
      by (simp add: array_slice_def arr_Size_def sq_throwerror_def)
  next
    case (Inr ij)
    obtain i j where ij: "ij = (i, j)" by (cases ij)
    with Inr slice_range_ok [OF assms(6), of s e] have b: "i \<le> j" "j \<le> vsize arr"
      "slice_of (sint s) (sint e) (vals arr) = Some (take (j - i) (drop i (vals arr)))" by simp_all
    let ?new = "slice_loop (realval (deref m)) arr (j - i) i 0 ONull (SQArray_new (j - i))"
    have "vals ?new = map (realval (deref m)) (take (j - i) (drop i (vals arr)))"
      using slice_loop_ok [of i "j - i" arr 0 "SQArray_new (j - i)"] b assms(6) by (simp add: SQArray_new_ok)
    moreover have "array_slice par m = push_result (let (m2, x) = new_array par ?new m in Push m2 x)"
      using p assms(5) Inr ij by (simp add: array_slice_def arr_Size_def)
    ultimately show ?thesis using pushes_new_array [OF assms(7), of par ?new] b(3) by simp
  qed
qed

definition slice_machine :: machine where
  "slice_machine = empty_machine\<lparr> v_arrays := [5 \<mapsto> three],
     m_stack := \<lparr> vals = [OArray 5, OInteger (-2), OInteger 3, ONull], allocated = 4 \<rparr>, m_top := 3 \<rparr>"

theorem array_slice_elements_witness:
  "pushes_array slice_machine (array_slice descending_par slice_machine) [OInteger (-3), OInteger 5]"
proof -
  have m: "sq_gettop slice_machine = 3" "stack_get slice_machine 1 = Some (OArray 5)"
    "stack_get slice_machine 2 = Some (OInteger (-2))" "stack_get slice_machine 3 = Some (OInteger 3)"
    "v_arrays slice_machine 5 = Some three" "vsize three < 2 ^ 63" "stack_room slice_machine 1"
    by (simp_all add: slice_machine_def empty_machine_def sq_gettop_def stack_get_def GetAt_def st_get_def stack_room_def
        three_def)
  have "slice_of (sint (-2 :: sqint)) (sint (3 :: sqint)) (vals three) = Some [OInteger (-3), OInteger 5]"
    by (simp add: slice_of_def three_def)
  with array_slice_elements [OF m, of descending_par] show ?thesis by (simp add: realval_def)
qed

subsection \<open>Functions that miss what they mean\<close>

text \<open>\<^verbatim>\<open>call\<close> on a native function, with a script function as the last argument, is refused: the test for
  a tail call looks at the last argument instead of the called function.\<close>

theorem closure_call_last_argument:
  assumes "stack_get m 1 = Some (ONativeClosure f)" "stack_get m (-1) = Some (OClosure g)"
    "m_closures m g = Some cl" "m_protos m (rc_function cl) = Some p" "\<not> rp_bgenerator p"
  shows "closure_call par m = sq_throwerror m ''only closure can be tail called''"
proof -
  have "GetUp m (- (sq_gettop m - 1 + 1)) = Some (ONativeClosure f)"
    using assms(1) by (simp add: GetUp_def sq_gettop_def stack_get_def GetAt_def)
  then show ?thesis using assms(2-5) by (simp add: closure_call_def sq_tailcall_def)
qed

text \<open>A function whose call makes the stack grow.\<close>

definition grows_stack :: "mach_par \<Rightarrow> sqobject \<Rightarrow> bool" where
  "grows_stack par f \<longleftrightarrow> (\<forall>args m. \<exists>m' r. vp_call (mp_vm par) f MT_LAST args m = (m', Some r) \<and> m_moves m < m_moves m')"

lemma st_put_moves: "st_put m i x = Some m' \<Longrightarrow> m_moves m' = m_moves m"
  by (auto simp: st_put_def split: if_splits)

lemma Push_moves: "Push m x = Some m' \<Longrightarrow> m_moves m' = m_moves m"
  by (auto simp: Push_def dest!: st_put_moves split: Option.bind_splits)

lemma Pop_moves: "vm_Pop m = Some m' \<Longrightarrow> m_moves m' = m_moves m"
  by (auto simp: vm_Pop_def dest!: st_put_moves split: Option.bind_splits)

lemma PopN_moves: "vm_PopN n m = Some m' \<Longrightarrow> m_moves m' = m_moves m"
  by (induction n arbitrary: m) (auto dest!: Pop_moves split: Option.bind_splits)

lemma call3_grows:
  assumes "call3 par m x y z = Some (m', r)" "st_get m (m_top m - 1) = Some f" "grows_stack par f"
  shows "m_moves m < m_moves m' \<and> r \<noteq> SQ_ERROR"
proof -
  from assms(1) obtain m1 m2 m3 where p: "Push m x = Some m1" "Push m1 y = Some m2" "Push m2 z = Some m3"
    and call: "sq_call par m3 3 True = Some (m', r)"
    by (auto simp: call3_def split: Option.bind_splits)
  have f1: "framed m m1 (m_top m) 1" using Push_framed [OF p(1)] by simp
  then have "m_top m1 = m_top m + 1" by (simp add: framed_def)
  then have f2: "framed m m2 (m_top m) 2" using framed_trans [OF f1 Push_framed [OF p(2)]] by simp
  then have "m_top m2 = m_top m + 2" by (simp add: framed_def)
  then have f3: "framed m m3 (m_top m) 3" using framed_trans [OF f2 Push_framed [OF p(3)]] by simp
  then have up: "GetUp m3 (- 4) = Some f" using assms(2) by (simp add: framed_def GetUp_def)
  from call up obtain args where "read_range 3 (m_top m3 - 3) m3 = Some args"
    by (auto simp: sq_call_def split: Option.bind_splits)
  moreover obtain m4 res where res: "vp_call (mp_vm par) f MT_LAST args m3 = (m4, Some res)" "m_moves m3 < m_moves m4"
    using assms(3) unfolding grows_stack_def by blast
  ultimately obtain m5 where m5: "(if m_suspended m4 = None then vm_PopN (nat 3) m4 else Some m4) = Some m5"
    "Push m5 res = Some m'" "r = SQ_OK"
    using call up by (auto simp: sq_call_def api_ok_def split: Option.bind_splits)
  have "m_moves m5 = m_moves m4" using m5(1) PopN_moves by (auto split: if_splits)
  moreover have "m_moves m3 = m_moves m" using Push_moves p by metis
  ultimately show ?thesis using res(2) Push_moves [OF m5(2)] m5(3) ok_not_error by simp
qed

lemma filter_step:
  assumes "filter_loop par a o1 ret (Suc k) n v m \<noteq> None"
  shows "ref_get m o1 \<noteq> None \<and> (\<exists>self v1 m1 r. call3 par m self (OInteger (word_of_nat n)) v1 = Some (m1, r) \<and>
    (r \<noteq> SQ_ERROR \<longrightarrow> (\<exists>m2. m_moves m2 = m_moves m1 \<and> filter_loop par a o1 ret k (Suc n) v1 m2 \<noteq> None)))"
proof -
  obtain v1 self m1 r where c: "get_or m a n v = Some v1" "ref_get m o1 = Some self"
    "call3 par m self (OInteger (word_of_nat n)) v1 = Some (m1, r)"
    using assms by (auto split: Option.bind_splits)
  have "\<exists>m2. m_moves m2 = m_moves m1 \<and> filter_loop par a o1 ret k (Suc n) v1 m2 \<noteq> None" if r: "r \<noteq> SQ_ERROR"
  proof -
    obtain res where res: "GetUp m1 (-1) = Some res" using assms c r by (cases "GetUp m1 (-1)") simp_all
    define kept where "kept = (if IsFalse res then Some m1
        else do { arr \<leftarrow> v_arrays m1 ret; Some (put_array m1 ret (arr_Append arr v1)) })"
    have "kept \<bind> (\<lambda>m2. vm_Pop m2 \<bind> (\<lambda>m3. filter_loop par a o1 ret k (Suc n) v1 m3)) \<noteq> None"
      using assms c r res by (simp add: kept_def)
    then obtain m2 m3 where m: "kept = Some m2" "vm_Pop m2 = Some m3" "filter_loop par a o1 ret k (Suc n) v1 m3 \<noteq> None"
      by (auto split: Option.bind_splits)
    have "m_moves m2 = m_moves m1"
      using m(1) by (auto simp: kept_def put_array_def split: if_splits Option.bind_splits)
    with Pop_moves [OF m(2)] m(3) show ?thesis by auto
  qed
  with c show ?thesis by blast
qed

text \<open>\<^verbatim>\<open>filter\<close> keeps a reference to the cell of the array across the calls: when the function makes the
  stack grow, the second call reads freed memory.\<close>

theorem array_filter_dangling:
  assumes "array_arg m 1 = Some (a, arr)" "2 \<le> vsize arr" "st_get m (m_top m - 1) = Some f" "grows_stack par f"
  shows "array_filter par m = None"
proof (rule ccontr)
  let ?m = "put_array m (mp_new par m) (SQArray_new 0)"
  let ?o = "stack_ref m 1"
  assume "array_filter par m \<noteq> None"
  then have "filter_loop par a ?o (mp_new par m) (arr_Size arr) 0 ONull ?m \<noteq> None"
    using assms(1) by (auto simp: array_filter_def Let_def split: Option.bind_splits)
  moreover obtain n where "arr_Size arr = Suc (Suc n)"
    using assms(2) by (metis add_2_eq_Suc arr_Size_def le_Suc_ex)
  ultimately have "filter_loop par a ?o (mp_new par m) (Suc (Suc n)) 0 ONull ?m \<noteq> None" by simp
  from filter_step [OF this] obtain self v m1 r where run: "call3 par ?m self (OInteger (word_of_nat 0)) v = Some (m1, r)"
    "r \<noteq> SQ_ERROR \<longrightarrow> (\<exists>m2. m_moves m2 = m_moves m1 \<and> filter_loop par a ?o (mp_new par m) (Suc n) (Suc 0) v m2 \<noteq> None)"
    by blast
  have "m_top ?m = m_top m" by (simp add: put_array_def)
  then have "st_get ?m (m_top ?m - 1) = Some f" using assms(3) by (simp only: st_get_put_array)
  from call3_grows [OF run(1) this assms(4)] have moved: "m_moves ?m < m_moves m1" "r \<noteq> SQ_ERROR" by simp_all
  with run(2) obtain m2 where m2: "m_moves m2 = m_moves m1" "filter_loop par a ?o (mp_new par m) (Suc n) (Suc 0) v m2 \<noteq> None"
    by blast
  have "snd ?o \<noteq> m_moves m2" using moved(1) m2(1) by (simp add: stack_ref_def put_array_def)
  then have "ref_get m2 ?o = None" by (simp add: ref_get_def)
  with filter_step [OF m2(2)] show False by blast
qed

text \<open>\<^verbatim>\<open>map\<close> with a function of no parameter but \<^verbatim>\<open>this\<close> passes one argument of the two it pushed, so
  the array stands where the function should and is called in its place.  An array cannot be called.\<close>

theorem array_map_calls_array:
  assumes "array_arg m 1 = Some (a, arr)" "vals arr \<noteq> []" "stack_get m 2 = Some f" "map_nargs m f = Some 1"
    and "\<forall>args m. snd (vp_call (mp_vm par) (OArray a) MT_LAST args m) = None"
    and "mp_new par m \<noteq> a"
  shows "array_map par m = None \<or> (\<exists>m'. array_map par m = Some (m', SQ_ERROR))"
proof (cases "array_map par m")
  case (Some mr)
  obtain m' r where mr: "mr = (m', r)" by (cases mr)
  let ?m = "put_array m (mp_new par m) (SQArray_new (arr_Size arr))"
  have arr: "v_arrays ?m a = Some arr" using assms(1,6)
    by (auto simp: array_arg_def put_array_def split: Option.bind_splits sqobject.splits)
  have "m_stackbase ?m = m_stackbase m" "\<And>i. GetAt ?m i = GetAt m i"
    by (simp_all add: put_array_def GetAt_def st_get_def)
  then have f: "stack_get ?m 2 = Some f" using assms(3) by (simp add: stack_get_def del: st_get_put_array)
  have "m_closures ?m = m_closures m" "m_protos ?m = m_protos m" "m_natives ?m = m_natives m"
    by (simp_all add: put_array_def)
  then have nargs: "map_nargs ?m f = Some 1" using assms(4) by (simp only: map_nargs_def)
  obtain n where n: "arr_Size arr = Suc n" using assms(2) by (cases "vals arr") (auto simp: arr_Size_def)
  obtain m1 m2 ok where run: "Push ?m f = Some m1" "map_loop par (mp_new par m) a 1 (Suc n) 0 ONull m1 = Some (m2, ok)"
    "ok \<longrightarrow> r = 1" "\<not> ok \<longrightarrow> r = SQ_ERROR"
    using Some mr assms(1) arr f nargs n
    by (auto simp: array_map_def map_array_def push_result_def Let_def split: Option.bind_splits if_splits)
  obtain t m3 m4 m5 q where c: "Push m1 (OArray a) = Some m3" "Push m3 t = Some m4" "sq_call par m4 1 True = Some (m5, q)"
    "q = SQ_ERROR \<longrightarrow> \<not> ok"
    using run(2) by (auto split: Option.bind_splits if_splits)
  have "st_get m3 (m_top m1) = Some (OArray a)" "m_top m3 = m_top m1 + 1"
    using c(1) by (auto simp: Push_def st_put_def st_get_def split: Option.bind_splits if_splits)
  moreover from this have "st_get m4 (m_top m1) = Some (OArray a)" "m_top m4 = m_top m1 + 2"
    using Push_framed [OF c(2), of "m_top m3"] by (simp_all add: framed_def)
  ultimately have "GetUp m4 (- 2) = Some (OArray a)" by (simp add: GetUp_def)
  with c(3) assms(5) have "q = SQ_ERROR"
    by (auto simp: sq_call_def split: Option.bind_splits prod.splits option.splits) (metis option.distinct(1) snd_conv)+
  with c(4) run(4) Some mr show ?thesis by simp
qed simp

end
