(* ===== verification/Sq_StdString_Correct.thy ===== *)
theory Sq_StdString_Correct
  imports Sq_StdString Sq_Lexer_Correct Sq_Baselib_Correct
begin

text \<open>
  Properties of the string functions: the lexer reads back what \<^verbatim>\<open>escape\<close> writes, \<^verbatim>\<open>split\<close> cuts at the
  separators, formatting stays inside its two buffers.
\<close>

subsection \<open>Escaping\<close>

definition escape1 :: "sqchar \<Rightarrow> sqchar list" where
  "escape1 c = (if scisprint c \<or> c = 0
     then (case escape_letter c of Some e \<Rightarrow> [92, e] | None \<Rightarrow> [c]) else hex_text c)"

lemma ReadEscape_hex:
  assumes "text_at s (120 # d1 # d2 # ts)" "scisxdigit d1" "scisxdigit d2"
  shows "\<exists>s1. ReadEscape s = Inr s1 \<and> text_at s1 ts \<and>
    longstr s1 = longstr s @ [ucast (xdigit_val d1 * 16 + xdigit_val d2)]"
proof -
  obtain s1 where s1: "NEXT s = Inr s1" "text_at s1 (d1 # d2 # ts)" "longstr s1 = longstr s"
    using NEXT_text [OF assms(1)] by auto
  obtain s2 where s2: "NEXT s1 = Inr s2" "text_at s2 (d2 # ts)" "longstr s2 = longstr s"
    using NEXT_text [OF s1(2)] s1(3) by auto
  obtain s3 where s3: "NEXT s2 = Inr s3" "text_at s3 ts" "longstr s3 = longstr s"
    using NEXT_text [OF s2(2)] s2(3) by auto
  have "hex_escape_loop 2 s1 [] = Inr ([d1, d2], s3)"
    using assms(2,3) s2(1) s3(1) text_at_cur [OF s1(2)] text_at_cur [OF s2(2)] by (simp add: numeral_2_eq_2)
  then have "ProcessStringHexEscape 2 s = Inr ([d1, d2], s3)"
    using s1(1) text_at_cur [OF s1(2)] assms(2) by (simp add: ProcessStringHexEscape_def)
  then show ?thesis using s3 text_at_cur [OF assms(1)]
    by (simp add: ReadEscape_def APPEND_CHAR_def text_at_def strtoul16_def)
qed

lemma hex_digit_value:
  assumes "d < 16"
  shows "scisxdigit (hex_digit d) \<and> xdigit_val (hex_digit d) = word_of_nat d \<and> hex_digit d \<noteq> 0"
proof -
  have "d = 0 \<or> d = 1 \<or> d = 2 \<or> d = 3 \<or> d = 4 \<or> d = 5 \<or> d = 6 \<or> d = 7 \<or> d = 8 \<or> d = 9 \<or> d = 10 \<or>
    d = 11 \<or> d = 12 \<or> d = 13 \<or> d = 14 \<or> d = 15" using assms by arith
  then show ?thesis
    by (elim disjE) (simp_all add: hex_digit_def scisxdigit_def scisdigit_def in_range_def xdigit_val_def toupper_def)
qed

lemma hex_digits_join: "ucast (word_of_nat (unat c div 16) * 16 + word_of_nat (unat c mod 16) :: squint) = (c :: sqchar)"
proof -
  have "word_of_nat (unat c div 16) * 16 + word_of_nat (unat c mod 16) = (word_of_nat (unat c) :: squint)"
    by (metis (no_types, lifting) div_mult_mod_eq of_nat_add of_nat_mult of_nat_numeral)
  also have "\<dots> = ucast c" by simp
  finally show ?thesis by (simp only:) (rule bit_word_eqI, simp add: bit_ucast_iff)
qed

lemma reads_back_hex:
  assumes "w b = hex_text b" "unat b < 128"
  shows "reads_back w b"
  unfolding reads_back_def
proof (intro conjI allI impI)
  let ?d1 = "hex_digit (unat b div 16)" and ?d2 = "hex_digit (unat b mod 16)"
  have d: "scisxdigit ?d1" "scisxdigit ?d2" "xdigit_val ?d1 = word_of_nat (unat b div 16)"
    "xdigit_val ?d2 = word_of_nat (unat b mod 16)"
    using hex_digit_value [of "unat b div 16"] hex_digit_value [of "unat b mod 16"] assms(2) by simp_all
  fix s ts assume "text_at s (w b @ ts)"
  then have t: "text_at s (92 # 120 # ?d1 # ?d2 # ts)" using assms by (simp add: hex_text_def)
  obtain s1 where s1: "NEXT s = Inr s1" "text_at s1 (120 # ?d1 # ?d2 # ts)" "longstr s1 = longstr s"
    using NEXT_text [OF t] by auto
  obtain s2 where s2: "ReadEscape s1 = Inr s2" "text_at s2 ts" "longstr s2 = longstr s @ [b]"
    using ReadEscape_hex [OF s1(2) d(1,2)] s1(3) d(3,4) hex_digits_join [of b] by auto
  then have "ReadString_loop 34 False s = ReadString_loop 34 False s2"
    using text_at_cur [OF t] s1(1) by (simp add: ReadString_loop.simps [of 34 False s])
  with s2 show "\<exists>s1. ReadString_loop 34 False s = ReadString_loop 34 False s1 \<and> text_at s1 ts \<and>
    longstr s1 = longstr s @ [b]" by blast
qed (use assms in \<open>simp_all add: hex_text_def\<close>)

lemma escape1_reads_back:
  assumes "unat c < 128"
  shows "reads_back escape1 c"
proof (cases "scisprint c \<or> c = 0")
  case True
  show ?thesis
  proof (cases "escape_letter c")
    case None
    with True have c: "escape1 c = [c]" by (simp add: escape1_def)
    show ?thesis
      by (rule reads_back_plain [of escape1, OF c]) (use None in \<open>auto simp: escape_letter_def split: if_splits\<close>)
  next
    case (Some e)
    with True have "escape1 c = [92, e]" by (simp add: escape1_def)
    moreover have "simple_escape e = Some c"
      using Some True by (auto simp: escape_letter_def simple_escape_def scisprint_def in_range_def split: if_splits)
    ultimately show ?thesis by (rule reads_back_letter)
  qed
next
  case False
  then have "escape1 c = hex_text c" by (simp add: escape1_def)
  then show ?thesis using assms by (rule reads_back_hex)
qed

text \<open>The buffer suffices: four bytes for each character, and one for the zero \<^verbatim>\<open>snprintf\<close> writes behind an
  escape, which takes its place from a character that needs fewer than four.\<close>

lemma length_escape1: "length (concat (map escape1 cs)) \<ge> length cs"
proof (induction cs)
  case (Cons c cs)
  have "length (escape1 c) \<ge> 1" by (simp add: escape1_def hex_text_def split: option.splits)
  with Cons show ?case by simp
qed simp

lemma escape_grows: "length (escape1 c) > 1 \<Longrightarrow> concat (map escape1 (c # cs)) \<noteq> c # cs"
proof
  assume "length (escape1 c) > 1" "concat (map escape1 (c # cs)) = c # cs"
  then have "length (concat (map escape1 (c # cs))) = length (c # cs)" by (simp only:)
  with length_escape1 [of cs] \<open>length (escape1 c) > 1\<close> show False by simp
qed

lemma escape_loop_ok:
  assumes "\<forall>c \<in> set cs. unat c < 128"
    and "(\<exists>c \<in> set cs. scisprint c \<or> c = 0) \<and> length acc + 4 * length cs \<le> cap \<or> length acc + 4 * length cs + 1 \<le> cap"
    and "n > 4 \<or> (\<forall>c \<in> set cs. scisprint c \<or> c = 0)"
  shows "\<exists>k. escape_loop cap n cs acc esc = Some (acc @ concat (map escape1 cs), esc + k) \<and>
    (k = 0 \<longleftrightarrow> concat (map escape1 cs) = cs)"
  using assms
proof (induction cs arbitrary: acc esc)
  case (Cons c cs)
  show ?case
  proof (cases "scisprint c \<or> c = 0")
    case plain: True
    show ?thesis
    proof (cases "escape_letter c")
      case None
      with plain have e: "escape1 c = [c]" by (simp add: escape1_def)
      obtain k where "escape_loop cap n cs (acc @ [c]) esc = Some ((acc @ [c]) @ concat (map escape1 cs), esc + k)"
        "k = 0 \<longleftrightarrow> concat (map escape1 cs) = cs"
        using Cons.IH [of "acc @ [c]" esc] Cons.prems by auto
      moreover have "length acc < cap" using Cons.prems(2) by auto
      ultimately show ?thesis using plain None e by (intro exI [of _ k]) (simp add: put_char_def)
    next
      case (Some l)
      with plain have e: "escape1 c = [92, l]" by (simp add: escape1_def)
      obtain k where "escape_loop cap n cs (acc @ [92, l]) (Suc esc) =
          Some ((acc @ [92, l]) @ concat (map escape1 cs), Suc esc + k)"
        using Cons.IH [of "acc @ [92, l]" "Suc esc"] Cons.prems by auto
      moreover have "length acc + 1 < cap" using Cons.prems(2) by auto
      ultimately show ?thesis using plain Some e escape_grows [of c cs]
        by (intro exI [of _ "Suc k"]) (simp add: put_char_def)
    qed
  next
    case False
    then have e: "escape1 c = hex_text c" by (simp add: escape1_def)
    have l: "length (hex_text c) = 4" using Cons.prems(1) by (simp add: hex_text_def)
    have n: "n > 4" using Cons.prems(3) False by auto
    have room: "length acc + 5 \<le> cap"
    proof (cases cs)
      case Nil
      then show ?thesis using Cons.prems(2) False by simp
    qed (use Cons.prems(2) in auto)
    have "(\<exists>c \<in> set cs. scisprint c \<or> c = 0) \<and> length (acc @ hex_text c) + 4 * length cs \<le> cap \<or>
        length (acc @ hex_text c) + 4 * length cs + 1 \<le> cap"
      using Cons.prems(2) False by (simp add: l algebra_simps)
    moreover have "n > 4 \<or> (\<forall>c \<in> set cs. scisprint c \<or> c = 0)" "\<forall>c \<in> set cs. unat c < 128"
      using n Cons.prems(1) by simp_all
    ultimately obtain k where "escape_loop cap n cs (acc @ hex_text c) (Suc esc) =
        Some ((acc @ hex_text c) @ concat (map escape1 cs), Suc esc + k)"
      using Cons.IH [of "acc @ hex_text c" "Suc esc"] by blast
    moreover have "snprintf_at cap n acc (hex_text c) = Some (acc @ hex_text c)"
      using n l room by (simp add: snprintf_at_def)
    ultimately show ?thesis using False e l escape_grows [of c cs]
      by (intro exI [of _ "Suc k"]) simp
  qed
qed simp

text \<open>
  C36.  \<^verbatim>\<open>escape\<close> of a string of ASCII characters that has a printable one gives a text between quotes
  that the lexer reads back as exactly the string; the string itself is pushed when nothing had to be
  escaped.  The scratch pad is never overrun, whatever its size was.
\<close>

theorem escape_reads_back:
  assumes "stack_get m 2 = Some (OString a)" "v_strings m a = Some s"
    and "\<forall>c \<in> set s. unat c < 128" "\<exists>c \<in> set s. scisprint c \<or> c = 0"
  shows "\<exists>t. string_escape pad par m = push_result (if t = s then sq_push m 2 else push_text par t m) \<and>
    (\<forall>lx rest. text_at lx (34 # t @ 34 # rest) \<longrightarrow>
      (\<exists>lx1. ReadString 34 False lx = Inr (TK_STRING_LITERAL, lx1) \<and> longstr lx1 = s @ [0] \<and> text_at lx1 rest))"
proof -
  let ?t = "concat (map escape1 s)" and ?n = "length s * 4"
  have ne: "s \<noteq> []" using assms(4) by auto
  have cap: "4 * length s \<le> scratch_size pad ?n" by (auto simp: scratch_size_def)
  have "?n > 4 \<or> (\<forall>c \<in> set s. scisprint c \<or> c = 0)"
    using assms(4) ne by (cases s rule: list.exhaust, simp, rename_tac c cs, case_tac cs) auto
  then obtain k where "escape_loop (scratch_size pad ?n) ?n s [] 0 = Some (?t, k)" "k = 0 \<longleftrightarrow> ?t = s"
    using escape_loop_ok [of s "[]" "scratch_size pad ?n" ?n 0] assms(3,4) cap by auto
  with ne assms(1,2) have t: "string_escape pad par m = push_result (if ?t = s then sq_push m 2 else push_text par ?t m)"
    by (cases "k = 0") (simp_all add: string_escape_def string_arg_def)
  have "\<exists>lx1. ReadString 34 False lx = Inr (TK_STRING_LITERAL, lx1) \<and> longstr lx1 = s @ [0] \<and> text_at lx1 rest"
    if "text_at lx (34 # ?t @ 34 # rest)" for lx rest
    by (rule ReadString_concat [OF that]) (use assms(3) escape1_reads_back in blast)
  with t show ?thesis by (intro exI [of _ ?t]) blast
qed

text \<open>One character that is not printable is escaped to a text cut short by the zero of \<^verbatim>\<open>snprintf\<close>; a
  character from 128 on is printed with its sign extension and overruns the buffer.\<close>

theorem escape_single_truncated:
  assumes "stack_get m 2 = Some (OString a)" "v_strings m a = Some [10]"
  shows "string_escape pad par m = push_result (push_text par [92, 120, 48, 0] m)"
proof -
  have "escape_loop (scratch_size pad 4) 4 [10] [] 0 = Some ([92, 120, 48, 0], 1)"
    by (auto simp: scratch_size_def scisprint_def in_range_def snprintf_at_def hex_text_def hex_digit_def)
  with assms show ?thesis by (simp add: string_escape_def string_arg_def)
qed

theorem escape_high_overrun:
  assumes "stack_get m 2 = Some (OString a)" "v_strings m a = Some [c]" "unat c \<ge> 128"
  shows "string_escape pad par m = None"
proof -
  have "c \<noteq> 0" "\<not> scisprint c" using assms(3) by (auto simp: scisprint_def in_range_def)
  then have "escape_loop (scratch_size pad 4) 4 [c] [] 0 = None"
    using assms(3) by (simp add: snprintf_at_def hex_text_def)
  with assms(1,2) show ?thesis by (simp add: string_escape_def string_arg_def)
qed

text \<open>A host that puts a new string at the first free one of a hundred addresses; the string functions run
  on a machine whose second cell is a string.\<close>

definition free_address :: "(addr \<rightharpoonup> sqchar list) \<Rightarrow> addr" where
  "free_address h = (case find (\<lambda>k. h (word_of_nat k) = None) [0..<100] of Some k \<Rightarrow> word_of_nat k | None \<Rightarrow> 0)"

definition text_par :: mach_par where
  "text_par = descending_par\<lparr> mp_vm := (mp_vm descending_par)\<lparr>
     vp_mkstr := (\<lambda>s m. (m\<lparr> v_strings := (v_strings m)(free_address (v_strings m) \<mapsto> s) \<rparr>, free_address (v_strings m))) \<rparr> \<rparr>"

definition text_machine :: "sqchar list \<Rightarrow> sqchar list \<Rightarrow> machine" where
  "text_machine s seps = empty_machine\<lparr> v_strings := [5 \<mapsto> s, 6 \<mapsto> seps],
     m_stack := \<lparr> vals = [ONull, OString 5, OString 6, ONull, ONull, ONull], allocated = 6 \<rparr>, m_top := 3 \<rparr>"

lemma text_machine_cells [simp]:
  "stack_get (text_machine s seps) 2 = Some (OString 5)" "stack_get (text_machine s seps) 3 = Some (OString 6)"
  "v_strings (text_machine s seps) 5 = Some s" "v_strings (text_machine s seps) 6 = Some seps"
  by (simp_all add: text_machine_def empty_machine_def stack_get_def GetAt_def st_get_def)

theorem escape_reads_back_witness:
  "\<exists>t. string_escape 0 text_par (text_machine [104, 10, 34, 0, 39] []) =
     push_result (if t = [104, 10, 34, 0, 39] then sq_push (text_machine [104, 10, 34, 0, 39] []) 2
       else push_text text_par t (text_machine [104, 10, 34, 0, 39] [])) \<and>
     (\<exists>lx1. ReadString 34 False (blank_lexer (34 # t @ 34 # [59])) = Inr (TK_STRING_LITERAL, lx1) \<and>
        longstr lx1 = [104, 10, 34, 0, 39, 0])"
proof -
  let ?s = "[104, 10, 34, 0, 39]"
  from escape_reads_back [of "text_machine ?s []" 5 ?s 0 text_par] obtain t where
    "string_escape 0 text_par (text_machine ?s []) = push_result (if t = ?s then sq_push (text_machine ?s []) 2
       else push_text text_par t (text_machine ?s []))"
    "\<forall>lx rest. text_at lx (34 # t @ 34 # rest) \<longrightarrow>
      (\<exists>lx1. ReadString 34 False lx = Inr (TK_STRING_LITERAL, lx1) \<and> longstr lx1 = ?s @ [0] \<and> text_at lx1 rest)"
    by auto
  then show ?thesis by (intro exI [of _ t]) (metis append_Cons append_Nil text_at_blank)
qed

subsection \<open>Splitting\<close>

text \<open>Making a string gives an object with these bytes and keeps the strings there were; \<open>I n\<close> says that
  \<open>n\<close> more strings can be made.\<close>

definition interning :: "mach_par \<Rightarrow> (nat \<Rightarrow> (addr \<rightharpoonup> sqchar list) \<Rightarrow> bool) \<Rightarrow> bool" where
  "interning par I \<longleftrightarrow> (\<forall>n s m. I (Suc n) (v_strings m) \<longrightarrow> I n (v_strings m) \<and>
     (\<exists>h a. vp_mkstr (mp_vm par) s m = (m\<lparr> v_strings := h \<rparr>, a) \<and> I n h \<and> h a = Some s \<and>
        (\<forall>b t. v_strings m b = Some t \<longrightarrow> h b = Some t)))"

definition text_of :: "machine \<Rightarrow> sqobject \<Rightarrow> sqchar list \<Rightarrow> bool" where
  "text_of m x t \<longleftrightarrow> (\<exists>a. x = OString a \<and> v_strings m a = Some t)"

text \<open>The machine \<open>m0\<close> with the array \<open>b\<close> of the texts \<open>ts\<close> on top.\<close>

definition splitting :: "machine \<Rightarrow> addr \<Rightarrow> ((addr \<rightharpoonup> sqchar list) \<Rightarrow> bool) \<Rightarrow> sqchar list list \<Rightarrow> machine \<Rightarrow> bool" where
  "splitting m0 b I ts m \<longleftrightarrow> I (v_strings m) \<and> m_top m = m_top m0 + 1 \<and> m_stackbase m = m_stackbase m0 \<and>
     vsize (m_stack m) = vsize (m_stack m0) \<and> (\<forall>i<m_top m0. st_get m i = st_get m0 i) \<and>
     st_get m (m_top m0) = Some (OArray b) \<and>
     (\<exists>arr. v_arrays m b = Some arr \<and> list_all2 (text_of m) (vals arr) ts)"

lemma restacked_strings:
  assumes "restacked m m' t ws" shows "v_strings m' = v_strings m"
proof -
  have eq: "m' = m\<lparr> m_stack := m_stack m', m_top := t \<rparr>" using assms by (simp add: restacked_def)
  show ?thesis by (subst eq) simp
qed

lemma append_piece_ok:
  assumes i: "interning par I" and s: "splitting m0 b (I (Suc n)) ts m"
    and room: "stack_room m0 2" and top: "m_stackbase m0 + 1 \<le> m_top m0"
  shows "\<exists>m'. append_piece par t m = Some m' \<and> splitting m0 b (I n) (ts @ [t]) m'"
proof -
  have m: "m_top m = m_top m0 + 1" "m_stackbase m = m_stackbase m0" "vsize (m_stack m) = vsize (m_stack m0)"
    "\<forall>i<m_top m0. st_get m i = st_get m0 i" "st_get m (m_top m0) = Some (OArray b)" "I (Suc n) (v_strings m)"
    using s by (simp_all add: splitting_def)
  obtain arr where arr: "v_arrays m b = Some arr" "list_all2 (text_of m) (vals arr) ts"
    using s by (auto simp: splitting_def)
  obtain h a where h: "vp_mkstr (mp_vm par) t m = (m\<lparr> v_strings := h \<rparr>, a)" "I n h" "h a = Some t"
    "\<And>b t. v_strings m b = Some t \<Longrightarrow> h b = Some t"
    using i m(6) unfolding interning_def by blast
  let ?m1 = "m\<lparr> v_strings := h \<rparr>"
  have g: "st_get ?m1 = st_get m" by (simp add: fun_eq_iff st_get_def)
  have "stack_room ?m1 1" using room m(1,3) by (simp add: stack_room_def)
  then obtain m2 where m2: "Push ?m1 (OString a) = Some m2"
    "restacked ?m1 m2 (m_top m + 1) ((st_get m)(m_top m \<mapsto> OString a))"
    using Push_cells [of ?m1 "OString a"] by (auto simp: g)
  note r2 = restackedD [OF m2(2)]
  let ?m3 = "put_array m2 b (arr_Append arr (OString a))"
  have g3: "st_get ?m3 = st_get m2" by (simp add: fun_eq_iff st_get_def put_array_def)
  have "stack_room ?m3 0" "1 \<le> m_top ?m3"
    using room m r2 by (simp_all add: stack_room_def put_array_def)
  then obtain m4 where "vm_Pop ?m3 = Some m4"
    "restacked ?m3 m4 (m_top ?m3 - 1) ((st_get ?m3)(m_top ?m3 - 1 \<mapsto> ONull))"
    using Pop_cells [of ?m3] by blast
  moreover have "m_top ?m3 - 1 = m_top m" using r2(1) by (simp add: put_array_def)
  ultimately have m4: "vm_Pop ?m3 = Some m4" "restacked ?m3 m4 (m_top m) ((st_get m2)(m_top m \<mapsto> ONull))"
    by (simp_all only: g3)
  have "stack_get m2 (- 2) = Some (OArray b)" "GetUp m2 (- 1) = Some (OString a)"
    using r2(1,2) m(1,5) by (simp_all add: stack_get_def GetUp_def)
  moreover have "v_arrays m2 b = Some arr" using r2(6) arr(1) by simp
  moreover have "\<not> sq_gettop m2 < 2" using r2(1,3) m(1,2) top by (simp add: sq_gettop_def)
  ultimately have "append_piece par t m = Some m4"
    using m2(1) m4(1) h(1)
    by (simp add: append_piece_def push_text_def sq_pushstring_def mk_string_def sq_arrayappend_def sq_aux_paramscheck_def
        with_array_def GETSAFE_OBJ_def api_ok_def)
  moreover have "splitting m0 b (I n) (ts @ [t]) m4"
  proof -
    note r4 = restackedD [OF m4(2)]
    have strs: "v_strings m4 = h"
      using restacked_strings [OF m4(2)] restacked_strings [OF m2(2)] by (simp add: put_array_def)
    have "list_all2 (text_of m4) (vals arr) ts"
      using arr(2) by (rule list_all2_mono) (use h(4) strs in \<open>auto simp: text_of_def\<close>)
    then have "list_all2 (text_of m4) (vals (arr_Append arr (OString a))) (ts @ [t])"
      using h(3) strs by (simp add: arr_Append_def vec_push_back_ok text_of_def list_all2_appendI)
    then show ?thesis using m r2 r4 strs h(2)
      by (auto simp: splitting_def put_array_def)
  qed
  ultimately show ?thesis by blast
qed

text \<open>The texts between separators, the last one in progress first.\<close>

fun pieces :: "(sqchar \<Rightarrow> bool) \<Rightarrow> sqchar list \<Rightarrow> sqchar list list" where
  "pieces sep [] = [[]]"
| "pieces sep (c # cs) = (if sep c then [] # pieces sep cs
     else (case pieces sep cs of p # ps \<Rightarrow> (c # p) # ps | [] \<Rightarrow> []))"

lemma pieces_not_Nil: "pieces sep s \<noteq> []"
  by (induction s) (auto split: list.splits)

lemma pieces_append:
  "\<forall>c \<in> set p. \<not> sep c \<Longrightarrow> pieces sep (p @ s) = (p @ hd (pieces sep s)) # tl (pieces sep s)"
proof (induction p)
  case Nil
  then show ?case using pieces_not_Nil [of sep s] by simp
next
  case (Cons c p)
  then show ?case by simp
qed

text \<open>What \<^verbatim>\<open>split\<close> keeps of them: an empty last piece is dropped, and every empty piece on request.\<close>

definition kept :: "bool \<Rightarrow> sqchar list list \<Rightarrow> sqchar list list" where
  "kept skipempty ps =
     (let qs = (if last ps = [] then butlast ps else ps) in if skipempty then filter (\<lambda>p. p \<noteq> []) qs else qs)"

lemma kept_Cons:
  assumes "ps \<noteq> []"
  shows "kept skip (p # ps) = (if \<not> skip \<or> p \<noteq> [] then [p] else []) @ kept skip ps"
  using assms by (auto simp: kept_def Let_def)

lemma splitting_weaken:
  "interning par I \<Longrightarrow> splitting m0 b (I (Suc n)) ts m \<Longrightarrow> splitting m0 b (I n) ts m"
  by (auto simp: interning_def splitting_def)

lemma splitting_one: "interning par I \<Longrightarrow> splitting m0 b (I (Suc n)) ts m \<Longrightarrow> splitting m0 b (I (Suc 0)) ts m"
  by (induction n) (auto dest: splitting_weaken)

text \<open>One piece is appended, or not, as the flag says.\<close>

lemma append_piece_if:
  assumes "interning par I" "splitting m0 b (I (Suc n)) ts m" "stack_room m0 2" "m_stackbase m0 + 1 \<le> m_top m0"
  shows "\<exists>m'. (if q then append_piece par t m else Some m) = Some m' \<and>
    splitting m0 b (I n) (ts @ (if q then [t] else [])) m'"
  using append_piece_ok [OF assms(1-4), of t] splitting_weaken [OF assms(1,2)] by (cases q) auto

lemma split_loop_ok:
  assumes i: "interning par I" and room: "stack_room m0 2" and top: "m_stackbase m0 + 1 \<le> m_top m0"
    and "splitting m0 b (I (Suc (length s))) ts m" "\<forall>c \<in> set p. c \<notin> set seps"
  shows "\<exists>m'. split_loop par seps skip p s m = Some m' \<and>
    splitting m0 b (I 0) (ts @ kept skip (pieces (\<lambda>c. c \<in> set seps) (p @ c_str s))) m'"
  using assms(4,5)
proof (induction s arbitrary: p ts m)
  case Nil
  have "pieces (\<lambda>c. c \<in> set seps) p = [p]" using pieces_append [of p "\<lambda>c. c \<in> set seps" "[]"] Nil.prems(2) by simp
  with append_piece_if [OF i _ room top, of b 0 ts m "p \<noteq> []" p] Nil.prems(1) show ?case
    by (auto simp: c_str_def kept_def)
next
  case (Cons c s)
  let ?sep = "\<lambda>c. c \<in> set seps"
  show ?case
  proof (cases "c = 0")
    case True
    have w: "splitting m0 b (I (Suc 0)) ts m"
      using splitting_one [OF i Cons.prems(1)] .
    have "pieces ?sep p = [p]" using pieces_append [of p ?sep "[]"] Cons.prems(2) by simp
    with append_piece_if [OF i w room top, of "p \<noteq> []" p] True show ?thesis
      by (auto simp: c_str_def kept_def)
  next
    case nz: False
    then have cs: "c_str (c # s) = c # c_str s" by (simp add: c_str_def)
    show ?thesis
    proof (cases "?sep c")
      case False
      then show ?thesis using nz cs Cons.IH [of ts m "p @ [c]"] splitting_weaken [OF i Cons.prems(1) [simplified]] Cons.prems(2)
        by simp
    next
      case True
      let ?q = "\<not> skip \<or> p \<noteq> []"
      have k: "kept skip (pieces ?sep (p @ c_str (c # s))) =
          (if ?q then [p] else []) @ kept skip (pieces ?sep (c_str s))"
        using pieces_append [of p ?sep "c # c_str s"] Cons.prems(2) True
        by (simp add: cs kept_Cons [OF pieces_not_Nil])
      obtain m1 where m1: "(if ?q then append_piece par p m else Some m) = Some m1"
        "splitting m0 b (I (Suc (length s))) (ts @ (if ?q then [p] else [])) m1"
        using append_piece_if [OF i Cons.prems(1) [simplified] room top, of ?q p] by blast
      from Cons.IH [OF m1(2), of "[]"] nz True m1(1) show ?thesis by (simp add: k)
    qed
  qed
qed

text \<open>
  C37.  \<^verbatim>\<open>split\<close> returns a new array of exactly the texts between the separators, up to the first null
  byte: every piece in order, without an empty last one, and on request without any empty one.  The frame
  is otherwise as before.
\<close>

theorem split_cuts:
  assumes "interning par I" "I (Suc (length s)) (v_strings m)" "stack_room m 2"
    and "string_arg m 2 = Some s" "string_arg m 3 = Some seps" "seps \<noteq> []"
    and "sq_gettop m = 3 \<and> \<not> skip \<or> sq_gettop m = 4 \<and> stack_get m 4 = Some (OBool skip)"
  shows "\<exists>m' b. string_split par m = Some (m', 1) \<and>
    splitting m b (I 0) (kept skip (pieces (\<lambda>c. c \<in> set seps) (c_str s))) m'"
proof -
  let ?b = "mp_new par m"
  let ?m = "m\<lparr> v_arrays := (v_arrays m)(?b \<mapsto> SQArray_new 0) \<rparr>"
  have g: "st_get ?m = st_get m" by (simp add: fun_eq_iff st_get_def)
  have "stack_room ?m 1" using assms(3) by (simp add: stack_room_def)
  then obtain m1 where m1: "Push ?m (OArray ?b) = Some m1" "restacked ?m m1 (m_top m + 1) ((st_get m)(m_top m \<mapsto> OArray ?b))"
    using Push_cells [of ?m "OArray ?b"] by (auto simp: g)
  have "splitting m ?b (I (Suc (length s))) [] m1"
    using restackedD [OF m1(2)] restacked_strings [OF m1(2)] assms(2) by (simp add: splitting_def SQArray_new_ok)
  moreover have "m_stackbase m + 1 \<le> m_top m" using assms(7) by (auto simp: sq_gettop_def)
  ultimately obtain m2 where m2: "split_loop par seps skip [] s m1 = Some m2"
    "splitting m ?b (I 0) (kept skip (pieces (\<lambda>c. c \<in> set seps) (c_str s))) m2"
    using split_loop_ok [OF assms(1,3), of ?b s "[]" m1 "[]" seps skip] by auto
  have "sq_newarray par 0 m = Some m1" using m1(1) by (simp add: sq_newarray_def new_array_def)
  moreover have "(if sq_gettop m > 3 then map_option (\<lambda>r. case r of Some b \<Rightarrow> b \<noteq> 0 | None \<Rightarrow> False) (sq_getbool m 4)
      else Some False) = Some skip"
    using assms(7) by (elim disjE conjE) (simp_all add: sq_getbool_def)
  ultimately show ?thesis using m2 assms(4-6) by (auto simp: string_split_def push_result_def)
qed

theorem split_cuts_witness:
  "\<exists>m' b. string_split text_par (text_machine [44, 97, 98, 59, 99, 44] [44, 59]) = Some (m', 1) \<and>
     splitting (text_machine [44, 97, 98, 59, 99, 44] [44, 59]) b (\<lambda>h. True) [[], [97, 98], [99]] m'"
proof -
  let ?I = "\<lambda>n h. n \<le> card {k. k < 100 \<and> h (word_of_nat k :: addr) = (None :: sqchar list option)}"
  let ?s = "[44, 97, 98, 59, 99, 44]" and ?seps = "[44, 59]"
  let ?m = "text_machine ?s ?seps"
  have inj: "(word_of_nat j :: addr) = word_of_nat k \<longleftrightarrow> j = k" if "j < 100" "k < 100" for j k
    using that by (simp add: word_of_nat_eq_iff take_bit_nat_def)
  have "interning text_par ?I"
    unfolding interning_def
  proof (intro allI impI conjI)
    fix n s and m :: machine assume n: "?I (Suc n) (v_strings m)"
    then show "?I n (v_strings m)" by simp
    let ?h = "v_strings m"
    have "{k. k < 100 \<and> ?h (word_of_nat k) = None} \<noteq> {}" using n by (metis card.empty not_less_eq_eq zero_le)
    then obtain k0 where "k0 < 100" "?h (word_of_nat k0) = None" by blast
    then obtain k where k: "find (\<lambda>k. ?h (word_of_nat k) = None) [0..<100] = Some k"
      by (cases "find (\<lambda>k. ?h (word_of_nat k) = None) [0..<100]") (auto simp: find_None_iff)
    then have k1: "k < 100" "?h (word_of_nat k) = None" by (auto simp: find_Some_iff)
    have a: "free_address ?h = word_of_nat k" using k by (simp add: free_address_def)
    have "{j. j < 100 \<and> (?h(word_of_nat k \<mapsto> s)) (word_of_nat j) = None} =
        {j. j < 100 \<and> ?h (word_of_nat j) = None} - {k}"
      using inj k1(1) by auto
    then have "?I n (?h(word_of_nat k \<mapsto> s))" using n k1 by simp
    then show "\<exists>h a. vp_mkstr (mp_vm text_par) s m = (m\<lparr> v_strings := h \<rparr>, a) \<and> ?I n h \<and> h a = Some s \<and>
        (\<forall>b t. v_strings m b = Some t \<longrightarrow> h b = Some t)"
      using k1(2) by (intro exI [of _ "?h(word_of_nat k \<mapsto> s)"] exI [of _ "word_of_nat k"])
        (auto simp: text_par_def a)
  qed
  moreover have "?I (Suc (length ?s)) (v_strings ?m)"
  proof -
    have "{k. k < 100 \<and> v_strings ?m (word_of_nat k) = None} = {k. k < 100} - {5, 6}"
      using inj [of _ 5] inj [of _ 6] by (auto simp: text_machine_def)
    then show ?thesis by simp
  qed
  moreover have "stack_room ?m 2" "string_arg ?m 2 = Some ?s" "string_arg ?m 3 = Some ?seps" "sq_gettop ?m = 3"
    by (simp_all add: stack_room_def text_machine_def empty_machine_def sq_gettop_def string_arg_def stack_get_def
        GetAt_def st_get_def)
  ultimately obtain m' b where "string_split text_par ?m = Some (m', 1)"
    "splitting ?m b (?I 0) (kept False (pieces (\<lambda>c. c \<in> set ?seps) (c_str ?s))) m'"
    using split_cuts [of text_par ?I ?s ?m ?seps False] by auto
  moreover have "kept False (pieces (\<lambda>c. c \<in> set ?seps) (c_str ?s)) = [[], [97, 98], [99]]"
    by (simp add: c_str_def kept_def)
  ultimately show ?thesis by (auto simp: splitting_def)
qed

subsection \<open>Formatting\<close>

text \<open>The conversions as they are meant, without buffers.\<close>

definition format_argument :: "machine \<Rightarrow> int \<Rightarrow> sqchar \<Rightarrow> string + fmt_arg" where
  "format_argument m nparam c =
     (if c = 115 then
        (case string_arg m nparam of Some s \<Rightarrow> Inr (FmtString s) | None \<Rightarrow> Inl ''string expected for the specified format'')
      else if is_int_conv c \<or> c = 99 then
        (case sq_getinteger m nparam of
           Some (Some i) \<Rightarrow> Inr (FmtInteger i) | _ \<Rightarrow> Inl ''integer expected for the specified format'')
      else if is_float_conv c then
        (case sq_getfloat m nparam of
           Some (Some f) \<Rightarrow> Inr (FmtFloat f) | _ \<Rightarrow> Inl ''float expected for the specified format'')
      else Inl ''invalid format'')"

definition full_format :: "sqchar list \<Rightarrow> sqchar \<Rightarrow> sqchar list" where
  "full_format mods c = 37 # mods @ (if is_int_conv c then [108, 108, c] else [c])"

function format_text ::
  "(sqchar list \<Rightarrow> fmt_arg \<Rightarrow> sqchar list) \<Rightarrow> machine \<Rightarrow> int \<Rightarrow> sqchar list \<Rightarrow> string + sqchar list" where
  "format_text pf m nparam [] = Inr []"
| "format_text pf m nparam (c # cs) =
     (if c \<noteq> 37 then map_sum id ((#) c) (format_text pf m nparam cs)
      else if char_at cs 0 = 37 then map_sum id ((#) 37) (format_text pf m nparam (drop 1 cs))
      else if nparam > sq_gettop m then Inl ''not enough parameters for the given format string''
      else (case parse_modifiers cs of
          Inl err \<Rightarrow> Inl err
        | Inr (k, w) \<Rightarrow>
            (case format_argument m nparam (char_at cs k) of
               Inl err \<Rightarrow> Inl err
             | Inr arg \<Rightarrow> map_sum id ((@) (pf (full_format (take k cs) (char_at cs k)) arg))
                 (format_text pf m (nparam + 1) (drop (k + 1) cs)))))"
  by pat_completeness auto
termination by (relation "measure (\<lambda>(pf, m, nparam, cs). length cs)") auto

declare format_text.simps(2) [simp del]

text \<open>What follows the modifiers does not change them.\<close>

lemma takeWhile_cut:
  "length (takeWhile P xs) \<le> k \<Longrightarrow> \<not> P c \<Longrightarrow> takeWhile P (take k xs @ c # ys) = takeWhile P xs"
proof (induction xs arbitrary: k)
  case (Cons x xs)
  then show ?case by (cases k) (auto split: if_splits)
qed simp

lemma drop_cut: "n \<le> k \<Longrightarrow> k \<le> length xs \<Longrightarrow> drop n (take k xs @ ys) = take (k - n) (drop n xs) @ ys"
  by (simp add: drop_take)

lemma parse_modifiers_cut:
  assumes "parse_modifiers xs = Inr (k, w)" "\<not> isfmtchr c" "\<not> scisdigit c" "c \<noteq> 46"
  shows "parse_modifiers (take k xs @ c # ys) = Inr (k, w) \<and> k \<le> length xs"
proof -
  let ?nf = "length (takeWhile isfmtchr xs)"
  let ?wd = "takeWhile scisdigit (drop ?nf xs)"
  let ?n1 = "?nf + length ?wd"
  let ?xs = "take k xs @ c # ys"
  have n1: "?n1 \<le> length xs"
    using length_takeWhile_le [of isfmtchr xs] length_takeWhile_le [of scisdigit "drop ?nf xs"] by simp
  have wd: "\<not> length ?wd \<ge> MAX_WFORMAT_LEN" using assms(1) by (auto simp: parse_modifiers_def Let_def split: if_splits)
  have same: "length (takeWhile isfmtchr ?xs) = ?nf" "takeWhile scisdigit (drop ?nf ?xs) = ?wd"
    if "?n1 \<le> k" "k \<le> length xs"
  proof -
    show "length (takeWhile isfmtchr ?xs) = ?nf" using that assms(2) by (simp add: takeWhile_cut)
    have "drop ?nf ?xs = take (k - ?nf) (drop ?nf xs) @ c # ys" by (rule drop_cut) (use that in simp_all)
    then show "takeWhile scisdigit (drop ?nf ?xs) = ?wd"
      using that assms(3) by (simp only:) (rule takeWhile_cut, simp_all)
  qed
  show ?thesis
  proof (cases "char_at xs ?n1 = 46")
    case False
    then have k: "k = ?n1" "w = width_of ?wd" using assms(1) wd by (simp_all add: parse_modifiers_def Let_def)
    have "char_at ?xs ?n1 = c" using k(1) n1 by (simp add: char_at_def nth_append)
    then show ?thesis using same k n1 wd assms(4) by (simp add: parse_modifiers_def Let_def)
  next
    case True
    let ?pd = "takeWhile scisdigit (drop (?n1 + 1) xs)"
    have pd: "\<not> length ?pd \<ge> MAX_WFORMAT_LEN" using assms(1) wd True by (auto simp: parse_modifiers_def Let_def split: if_splits)
    have k: "k = ?n1 + 1 + length ?pd" "w = width_of ?wd + width_of ?pd"
      using assms(1) wd True pd by (simp_all add: parse_modifiers_def Let_def)
    have l: "?n1 < length xs" using True by (auto simp: char_at_def split: if_splits)
    then have kl: "k \<le> length xs" using k(1) length_takeWhile_le [of scisdigit "drop (?n1 + 1) xs"] by simp
    have "char_at ?xs ?n1 = 46" using True l k(1) kl by (simp add: char_at_def nth_append)
    moreover have "takeWhile scisdigit (drop (?n1 + 1) ?xs) = ?pd"
    proof -
      have "drop (?n1 + 1) ?xs = take (k - (?n1 + 1)) (drop (?n1 + 1) xs) @ c # ys"
        by (rule drop_cut) (use k(1) kl in simp_all)
      then show ?thesis using k(1) assms(3) by (simp only:) (rule takeWhile_cut, simp_all)
    qed
    ultimately show ?thesis using same k kl wd pd by (simp add: parse_modifiers_def Let_def)
  qed
qed

text \<open>What \<^verbatim>\<open>printf\<close> promises: a string is padded to the width, a number is printed in a hundred characters
  beyond the width and precision.\<close>

fun base_length :: "fmt_arg \<Rightarrow> nat" where
  "base_length (FmtString s) = length s"
| "base_length _ = 100"

definition printf_bounded :: "(sqchar list \<Rightarrow> fmt_arg \<Rightarrow> sqchar list) \<Rightarrow> bool" where
  "printf_bounded pf \<longleftrightarrow> (\<forall>mods conv w arg. parse_modifiers (mods @ conv) = Inr (length mods, w) \<longrightarrow>
     length (pf (37 # mods @ conv) arg) \<le> base_length arg + w)"

definition short_modifiers :: "sqchar list \<Rightarrow> bool" where
  "short_modifiers src \<longleftrightarrow> (\<forall>n k w. parse_modifiers (drop n src) = Inr (k, w) \<longrightarrow> k \<le> 15)"

text \<open>The arguments are on the stack and the strings among them exist.\<close>

definition arguments_ok :: "machine \<Rightarrow> bool" where
  "arguments_ok m \<longleftrightarrow> (\<forall>i. 1 \<le> i \<longrightarrow> i \<le> sq_gettop m \<longrightarrow>
     (\<exists>x. stack_get m i = Some x \<and> (\<forall>a. x = OString a \<longrightarrow> v_strings m a \<noteq> None)))"

lemma conversion_ok:
  assumes "arguments_ok m" "1 \<le> i" "i \<le> sq_gettop m" "parse_modifiers xs = Inr (k, w)" "k \<le> 15"
  shows "case format_argument m i (char_at xs k) of
      Inl err \<Rightarrow> conversion m i (char_at xs k) w (37 # take k xs @ [char_at xs k]) = Some (Inl err)
    | Inr arg \<Rightarrow> conversion m i (char_at xs k) w (37 # take k xs @ [char_at xs k]) =
        Some (Inr (arg, full_format (take k xs) (char_at xs k), base_length arg + (w + 1)))"
proof -
  let ?c = "char_at xs k"
  obtain x where x: "stack_get m i = Some x" "\<And>a. x = OString a \<Longrightarrow> v_strings m a \<noteq> None"
    using assms(1-3) by (auto simp: arguments_ok_def)
  have long: "long_format (37 # take k xs @ [?c]) = Some (37 # take k xs @ [108, 108, ?c])"
    using assms(5) by (simp add: long_format_def MAX_FORMAT_LEN_def butlast_append)
  have kinds: "is_int_conv 115 = False" "is_int_conv 99 = False" "is_float_conv 99 = False"
    by (simp_all add: is_int_conv_def is_float_conv_def)
  consider (str) "?c = 115" | (int) "is_int_conv ?c" | (char) "?c = 99"
    | (float) "is_float_conv ?c" "?c \<noteq> 115" "\<not> is_int_conv ?c" "?c \<noteq> 99"
    | (other) "\<not> is_float_conv ?c" "?c \<noteq> 115" "\<not> is_int_conv ?c" "?c \<noteq> 99" by blast
  then show ?thesis
  proof cases
    case str
    with x kinds show ?thesis
      by (auto simp: format_argument_def conversion_def string_arg_def full_format_def split: sqobject.splits)
  next
    case int
    then have "?c \<noteq> 115" "?c \<noteq> 99" by (auto simp: is_int_conv_def)
    with int x(1) long show ?thesis
      by (auto simp: format_argument_def conversion_def sq_getinteger_def full_format_def ADDITIONAL_FORMAT_SPACE_def)
  next
    case char
    with x(1) kinds show ?thesis
      by (auto simp: format_argument_def conversion_def sq_getinteger_def full_format_def ADDITIONAL_FORMAT_SPACE_def)
  next
    case float
    with x(1) show ?thesis
      by (auto simp: format_argument_def conversion_def sq_getfloat_def full_format_def ADDITIONAL_FORMAT_SPACE_def)
  qed (simp add: format_argument_def conversion_def)
qed

lemma map_sum_append: "map_sum id ((@) xs) (map_sum id ((@) ys) r) = map_sum id ((@) (xs @ ys)) r"
  by (cases r) simp_all

lemma map_sum_Cons: "map_sum id ((@) xs) (map_sum id ((#) y) r) = map_sum id ((@) (xs @ [y])) r"
  by (cases r) simp_all

lemma scratch_size_ge: "sz > 0 \<Longrightarrow> sz \<le> scratch_size pad sz"
  by (auto simp: scratch_size_def)

lemma format_loop_ok:
  assumes pf: "printf_bounded pf" and short: "short_modifiers src" and m: "arguments_ok m"
    and "n \<le> length src" "1 \<le> np" "length acc + (length src - n) + 2 \<le> space" "space \<le> pad"
  shows "format_loop pf m src n acc space pad np = Some (map_sum id ((@) acc) (format_text pf m np (drop n src)))"
  using assms(4-)
proof (induction "length src - n" arbitrary: n acc space pad np rule: less_induct)
  case less
  show ?case
  proof (cases "n < length src")
    case False
    then show ?thesis using less.prems by (simp add: format_loop.simps [of pf m src "length src"])
  next
    case n: True
    let ?cs = "drop (Suc n) src"
    have src: "drop n src = src ! n # ?cs" using n by (simp add: Cons_nth_drop_Suc)
    note loop = format_loop.simps [of pf m src n acc space pad np]
    note spec = format_text.simps(2) [of pf m np "src ! n" ?cs]
    show ?thesis
    proof (cases "src ! n = 37")
      case False
      moreover have "length acc < space" using less.prems by simp
      moreover have "format_loop pf m src (Suc n) (acc @ [src ! n]) space pad np =
          Some (map_sum id ((@) (acc @ [src ! n])) (format_text pf m np ?cs))"
        by (rule less.hyps) (use n less.prems in simp_all)
      ultimately show ?thesis using n by (simp add: loop src spec put_char_def map_sum_Cons)
    next
      case pc: True
      have src37: "drop n src = 37 # ?cs" using src pc by simp
      note spec = format_text.simps(2) [of pf m np 37 ?cs]
      have at0: "char_at ?cs 0 = char_at src (n + 1)" by (simp add: char_at_def)
      show ?thesis
      proof (cases "char_at src (n + 1) = 37")
        case True
        then have n2: "n + 2 \<le> length src" by (auto simp: char_at_def split: if_splits)
        have "length acc < pad" using less.prems by simp
        moreover have "format_loop pf m src (n + 2) (acc @ [37]) space pad np =
            Some (map_sum id ((@) (acc @ [37])) (format_text pf m np (drop (n + 2) src)))"
          by (rule less.hyps) (use n n2 less.prems in simp_all)
        ultimately show ?thesis using n pc True at0 by (simp add: loop src37 spec put_char_def map_sum_Cons)
      next
        case nl: False
        show ?thesis
        proof (cases "np > sq_gettop m")
          case True
          with n pc nl at0 show ?thesis by (simp add: loop src37 spec)
        next
          case np: False
          show ?thesis
          proof (cases "parse_modifiers ?cs")
            case (Inl err)
            then have "validate_format src (n + 1) = Some (Inl err)" by (simp add: validate_format_def)
            with n pc nl np at0 Inl show ?thesis by (simp add: loop src37 spec)
          next
            case (Inr kw)
            obtain k w where kw: "parse_modifiers ?cs = Inr (k, w)" using Inr by (cases kw) simp
            have k15: "k \<le> 15" using short kw by (auto simp: short_modifiers_def)
            let ?c = "char_at ?cs k"
            have c: "char_at src (n + 1 + k) = ?c" by (simp add: char_at_def add.commute less_diff_conv)
            have v: "validate_format src (n + 1) = Some (Inr (n + 1 + k, w, 37 # take k ?cs @ [?c]))"
              using kw k15 c by (simp add: validate_format_def MAX_FORMAT_LEN_def)
            note conv = conversion_ok [OF m less.prems(2) _ kw k15]
            show ?thesis
            proof (cases "format_argument m np ?c")
              case (Inl err)
              then show ?thesis using conv np n pc nl at0 v kw c by (simp add: loop src37 spec)
            next
              case (Inr arg)
              then have cv: "conversion m np ?c w (37 # take k ?cs @ [?c]) =
                  Some (Inr (arg, full_format (take k ?cs) ?c, base_length arg + (w + 1)))"
                using conv np by simp
              have ok: "\<not> isfmtchr ?c" "\<not> scisdigit ?c" "?c \<noteq> 46" "?c \<noteq> 0"
                using Inr by (auto simp: format_argument_def is_int_conv_def is_float_conv_def isfmtchr_def scisdigit_def
                    in_range_def split: if_splits)
              have k: "n + 1 + k < length src" using ok(4) c by (auto simp: char_at_def split: if_splits)
              let ?out = "pf (full_format (take k ?cs) ?c) arg"
              have "parse_modifiers (take k ?cs @ (if is_int_conv ?c then [108, 108, ?c] else [?c])) = Inr (k, w)"
                using parse_modifiers_cut [OF kw ok(1-3), of "[]"] parse_modifiers_cut [OF kw, of 108 "[108, ?c]"]
                by (simp add: isfmtchr_def scisdigit_def in_range_def)
              moreover have "length (take k ?cs) = k" using k by simp
              ultimately have out: "length ?out \<le> base_length arg + w"
                using pf unfolding printf_bounded_def full_format_def by metis
              let ?space = "space + (base_length arg + (w + 1)) + 1"
              let ?pad = "scratch_size pad ?space"
              have pad: "?space \<le> ?pad" by (rule scratch_size_ge) simp
              have "snprintf_at ?pad ?space acc ?out = Some (acc @ ?out)"
                using out pad less.prems by (simp add: snprintf_at_def)
              moreover have "format_loop pf m src (n + 1 + k + 1) (acc @ ?out) ?space ?pad (np + 1) =
                  Some (map_sum id ((@) (acc @ ?out)) (format_text pf m (np + 1) (drop (n + 1 + k + 1) src)))"
                by (rule less.hyps) (use n k out pad less.prems in simp_all)
              moreover have "drop (k + 1) ?cs = drop (n + 1 + k + 1) src" by (simp add: add.commute add.left_commute)
              ultimately show ?thesis using n pc nl np at0 v cv kw c Inr
                by (simp add: loop src37 spec Let_def map_sum_append)
            qed
          qed
        qed
      qed
    qed
  qed
qed


text \<open>Sixteen flags before an integer conversion, and eighteen before any, overrun the array.\<close>

theorem format_flags_overrun:
  assumes "string_arg m 2 = Some (37 # replicate 18 45 @ [100])" "3 \<le> sq_gettop m"
  shows "sqstd_format pf pad m 2 = None"
proof -
  let ?src = "37 # replicate 18 45 @ [100] :: sqchar list"
  have "parse_modifiers (replicate 18 45 @ [100]) = Inr (18, 0)"
  proof -
    have "takeWhile isfmtchr (replicate 18 45 @ [100]) = replicate 18 45"
      by (subst takeWhile_append2) (simp_all add: isfmtchr_def)
    then show ?thesis by (simp add: parse_modifiers_def scisdigit_def in_range_def char_at_def nth_append width_of_def
        MAX_WFORMAT_LEN_def)
  qed
  then have "validate_format ?src 1 = None" by (simp add: validate_format_def MAX_FORMAT_LEN_def)
  then have "format_loop pf m ?src 0 [] l p 3 = None" for l p
    using assms(2) by (simp add: format_loop.simps [of pf m ?src 0] char_at_def nth_append)
  with assms(1) show ?thesis by (auto simp: sqstd_format_def string_arg_def split: Option.bind_splits sqobject.splits)
qed


end
