(* ===== verification/Sq_Rex.thy ===== *)
theory Sq_Rex
  imports Sq_StdString
begin

text \<open>
  The regular expressions of the standard library (\<^verbatim>\<open>sqstdrex.cpp\<close>): a recursive descent compiler to an
  array of nodes, and a matcher that walks the nodes over a text.

  A node refers to others by index, \<open>None\<close> being -1.  The pattern and the text are C strings: the byte
  at their length is zero and anything beyond is \<open>None\<close>, like an index outside the node array.  The
  compiler leaves through \<^verbatim>\<open>longjmp\<close> on an error, \<open>Inl\<close> of the message.  Both recursions take
  fuel; the compiler consumes a character on every second level, and the matcher descends in the order
  of the pattern, so twice the length of the pattern and the number of nodes are enough.
\<close>

subsection \<open>Nodes\<close>

datatype rextype =
  OP_GREEDY | OP_OR | OP_EXPR | OP_NOCAPEXPR | OP_DOT | OP_CLASS | OP_CCLASS | OP_NCLASS | OP_RANGE
| OP_EOL | OP_BOL | OP_WB | OP_MB | OP_CHR sqchar

text \<open>\<^verbatim>\<open>left\<close> and \<^verbatim>\<open>right\<close> hold node indices, characters, a capture number or two repetition bounds,
  as the type of the node says.\<close>

record rexnode =
  rn_type :: rextype
  rn_left :: int
  rn_right :: int
  rn_next :: int

record rexmatch =
  rm_begin :: "nat option"
  rm_len :: int

record rex =
  rx_pat :: "sqchar list"
  rx_p :: nat
  rx_nodes :: "rexnode list"
  rx_nallocated :: nat
  rx_nsubexpr :: int

type_synonym 'a rexm = "rex \<Rightarrow> (string + 'a \<times> rex) option"

text \<open>Sequencing of the compiler: an error ends it, and so does an access outside memory.\<close>

definition r_ret :: "'a \<Rightarrow> 'a rexm" where
  "r_ret x = (\<lambda>e. Some (Inr (x, e)))"

definition r_bind :: "'a rexm \<Rightarrow> ('a \<Rightarrow> 'b rexm) \<Rightarrow> 'b rexm" where
  "r_bind f g = (\<lambda>e. case f e of
     None \<Rightarrow> None | Some (Inl err) \<Rightarrow> Some (Inl err) | Some (Inr (x, e1)) \<Rightarrow> g x e1)"

definition r_then :: "unit rexm \<Rightarrow> 'b rexm \<Rightarrow> 'b rexm" where
  "r_then f g = r_bind f (\<lambda>_. g)"

definition sqstd_rex_error :: "string \<Rightarrow> 'a rexm" where
  "sqstd_rex_error err = (\<lambda>e. Some (Inl err))"

text \<open>\<^verbatim>\<open>*exp->_p\<close> and \<^verbatim>\<open>exp->_p++\<close>\<close>

definition cur :: "sqchar rexm" where
  "cur = (\<lambda>e. if rx_p e < length (rx_pat e) then Some (Inr (rx_pat e ! rx_p e, e))
     else if rx_p e = length (rx_pat e) then Some (Inr (0, e)) else None)"

definition advance :: "unit rexm" where
  "advance = (\<lambda>e. Some (Inr ((), e\<lparr> rx_p := rx_p e + 1 \<rparr>)))"

text \<open>\<^verbatim>\<open>*exp->_p++\<close>\<close>

definition take_cur :: "sqchar rexm" where
  "take_cur = r_bind cur (\<lambda>c. r_then advance (r_ret c))"

text \<open>\<^verbatim>\<open>sqstd_rex_newnode\<close>; doubling an allocation of 0 nodes leaves no room.\<close>

definition sqstd_rex_newnode :: "rextype \<Rightarrow> int rexm" where
  "sqstd_rex_newnode type = (\<lambda>e.
     (let n = \<lparr> rn_type = type, rn_left = - 1, rn_right = (if type = OP_EXPR then rx_nsubexpr e else - 1), rn_next = - 1 \<rparr>;
          nsub = (if type = OP_EXPR then rx_nsubexpr e + 1 else rx_nsubexpr e);
          nsize = length (rx_nodes e);
          nalloc = (if rx_nallocated e < nsize + 1 then rx_nallocated e * 2 else rx_nallocated e) in
      if nsize < nalloc then
        Some (Inr (int nsize, e\<lparr> rx_nodes := rx_nodes e @ [n], rx_nallocated := nalloc, rx_nsubexpr := nsub \<rparr>))
      else None))"

definition upd_node :: "int \<Rightarrow> (rexnode \<Rightarrow> rexnode) \<Rightarrow> unit rexm" where
  "upd_node i f = (\<lambda>e.
     if 0 \<le> i \<and> nat i < length (rx_nodes e)
     then Some (Inr ((), e\<lparr> rx_nodes := (rx_nodes e)[nat i := f (rx_nodes e ! nat i)] \<rparr>)) else None)"

definition set_left :: "int \<Rightarrow> int \<Rightarrow> unit rexm" where "set_left i x = upd_node i (rn_left_update (\<lambda>_. x))"
definition set_right :: "int \<Rightarrow> int \<Rightarrow> unit rexm" where "set_right i x = upd_node i (rn_right_update (\<lambda>_. x))"
definition set_next :: "int \<Rightarrow> int \<Rightarrow> unit rexm" where "set_next i x = upd_node i (rn_next_update (\<lambda>_. x))"

definition get_node :: "int \<Rightarrow> rexnode rexm" where
  "get_node i = (\<lambda>e. if 0 \<le> i \<and> nat i < length (rx_nodes e) then Some (Inr (rx_nodes e ! nat i, e)) else None)"

subsection \<open>The compiler\<close>

definition sqstd_rex_expect :: "sqchar \<Rightarrow> unit rexm" where
  "sqstd_rex_expect n = r_bind cur (\<lambda>c. if c \<noteq> n then sqstd_rex_error ''expected paren'' else advance)"

definition sqstd_rex_escapechar :: "sqchar rexm" where
  "sqstd_rex_escapechar = r_bind cur (\<lambda>c.
     if c = 92 then r_then advance (r_bind take_cur (\<lambda>d.
       r_ret (if d = chr8 CHR ''v'' then 11 else if d = chr8 CHR ''n'' then 10 else if d = chr8 CHR ''t'' then 9
              else if d = chr8 CHR ''r'' then 13 else if d = chr8 CHR ''f'' then 12 else d)))
     else if \<not> scisprint c then sqstd_rex_error ''letter expected''
     else take_cur)"

definition sqstd_rex_charclass :: "sqchar \<Rightarrow> int rexm" where
  "sqstd_rex_charclass classid =
     r_bind (sqstd_rex_newnode OP_CCLASS) (\<lambda>n. r_then (set_left n (sint classid)) (r_ret n))"

definition control_letter :: "sqchar \<Rightarrow> sqchar option" where
  "control_letter c = (if c = chr8 CHR ''n'' then Some 10 else if c = chr8 CHR ''t'' then Some 9
     else if c = chr8 CHR ''r'' then Some 13 else if c = chr8 CHR ''f'' then Some 12
     else if c = chr8 CHR ''v'' then Some 11 else None)"

definition is_class_letter :: "sqchar \<Rightarrow> bool" where
  "is_class_letter c \<longleftrightarrow> c \<in> set (map chr8 ''aAwWsSdDxXcCpPlu'')"

definition sqstd_rex_charnode :: "bool \<Rightarrow> int rexm" where
  "sqstd_rex_charnode isclass = r_bind cur (\<lambda>c.
     if c = 92 then r_then advance (r_bind cur (\<lambda>d.
       (case control_letter d of
          Some t \<Rightarrow> r_then advance (sqstd_rex_newnode (OP_CHR t))
        | None \<Rightarrow>
            if is_class_letter d then r_then advance (sqstd_rex_charclass d)
            else if d = chr8 CHR ''m'' then
              r_then advance (r_bind cur (\<lambda>cb. r_then advance (r_bind cur (\<lambda>ce. r_then advance
                (if cb = 0 \<or> ce = 0 then sqstd_rex_error ''balanced chars expected''
                 else if cb = ce then sqstd_rex_error ''open/close char can't be the same''
                 else r_bind (sqstd_rex_newnode OP_MB) (\<lambda>node.
                   r_then (set_left node (sint cb)) (r_then (set_right node (sint ce)) (r_ret node))))))))
            else if d = 0 then sqstd_rex_error ''letter expected for argument of escape sequence''
            else if (d = chr8 CHR ''b'' \<or> d = chr8 CHR ''B'') \<and> \<not> isclass then
              r_bind (sqstd_rex_newnode OP_WB) (\<lambda>node.
                r_then (set_left node (sint d)) (r_then advance (r_ret node)))
            else r_then advance (sqstd_rex_newnode (OP_CHR d)))))
     else if \<not> scisprint c then sqstd_rex_error ''letter expected''
     else r_then advance (sqstd_rex_newnode (OP_CHR c)))"

text \<open>The type of a node as the integer that \<^verbatim>\<open>sqstd_rex_class\<close> compares with a character; the operators
  are above \<open>MAX_CHAR\<close>.\<close>

definition type_code :: "rextype \<Rightarrow> int" where
  "type_code t = (case t of
     OP_CHR c \<Rightarrow> sint c | OP_GREEDY \<Rightarrow> 256 | OP_OR \<Rightarrow> 257 | OP_EXPR \<Rightarrow> 258 | OP_NOCAPEXPR \<Rightarrow> 259 | OP_DOT \<Rightarrow> 260
   | OP_CLASS \<Rightarrow> 261 | OP_CCLASS \<Rightarrow> 262 | OP_NCLASS \<Rightarrow> 263 | OP_RANGE \<Rightarrow> 264 | OP_EOL \<Rightarrow> 266 | OP_BOL \<Rightarrow> 267
   | OP_WB \<Rightarrow> 268 | OP_MB \<Rightarrow> 269)"

text \<open>The loop of \<^verbatim>\<open>sqstd_rex_class\<close>.  \<^verbatim>\<open>_eol\<close> is a null pointer during compilation, so only a bracket
  ends it; \<^verbatim>\<open>*exp->_p++ == ']'\<close> compares the hyphen and is never true.\<close>

fun class_loop :: "nat \<Rightarrow> int \<Rightarrow> int \<Rightarrow> (int \<times> int) rexm" where
  "class_loop 0 chain first = (\<lambda>e. None)"
| "class_loop (Suc k) chain first = r_bind cur (\<lambda>c.
     if c = chr8 CHR '']'' then r_ret (chain, first)
     else if c = chr8 CHR ''-'' \<and> first \<noteq> - 1 then
       r_then advance (r_bind (sqstd_rex_newnode OP_RANGE) (\<lambda>r. r_bind (get_node first) (\<lambda>nf. r_bind cur (\<lambda>d.
         if type_code (rn_type nf) > sint d then sqstd_rex_error ''invalid range''
         else if rn_type nf = OP_CCLASS then sqstd_rex_error ''cannot use character classes in ranges''
         else r_then (set_left r (type_code (rn_type nf))) (r_bind sqstd_rex_escapechar (\<lambda>t.
           r_then (set_right r (sint t)) (r_then (set_next chain r) (class_loop k r (- 1)))))))))
     else if first \<noteq> - 1 then
       r_then (set_next chain first) (r_bind (sqstd_rex_charnode True) (\<lambda>f. class_loop k first f))
     else r_bind (sqstd_rex_charnode True) (\<lambda>f. class_loop k chain f))"

definition sqstd_rex_class :: "int rexm" where
  "sqstd_rex_class = r_bind cur (\<lambda>c.
     r_bind (if c = chr8 CHR ''^'' then r_bind (sqstd_rex_newnode OP_NCLASS) (\<lambda>ret. r_then advance (r_ret ret))
             else sqstd_rex_newnode OP_CLASS) (\<lambda>ret.
     r_bind cur (\<lambda>d.
       if d = chr8 CHR '']'' then sqstd_rex_error ''empty class''
       else r_bind (\<lambda>e. class_loop (length (rx_pat e) + 2) ret (- 1) e) (\<lambda>(chain, first).
         r_then (if first \<noteq> - 1 then set_next chain first else r_ret ())
           (r_bind (get_node ret) (\<lambda>n.
              r_then (set_left ret (rn_next n)) (r_then (set_next ret (- 1)) (r_ret ret))))))))"

text \<open>\<^verbatim>\<open>sqstd_rex_parsenumber\<close>: at most ten digits.\<close>

fun number_loop :: "nat \<Rightarrow> int \<Rightarrow> int \<Rightarrow> int rexm" where
  "number_loop 0 ret positions = (\<lambda>e. None)"
| "number_loop (Suc k) ret positions = r_bind cur (\<lambda>c.
     if scisdigit c then r_then advance
       (if positions = 1000000000 then sqstd_rex_error ''overflow in numeric constant''
        else number_loop k (ret * 10 + (sint c - 48)) (positions * 10))
     else r_ret ret)"

definition sqstd_rex_parsenumber :: "int rexm" where
  "sqstd_rex_parsenumber = r_bind take_cur (\<lambda>c. number_loop 10 (sint c - 48) 10)"

text \<open>The repetition after an element: the bounds, kept in 16 bits each, when there is one.\<close>

definition ushort :: "int \<Rightarrow> int" where "ushort n = n mod 65536"

definition rex_upper :: "int rexm" where
  "rex_upper = r_bind cur (\<lambda>c. if scisdigit c then sqstd_rex_parsenumber else r_ret 0xFFFF)"

definition rex_bounds :: "(int \<times> int) option rexm" where
  "rex_bounds = r_bind cur (\<lambda>c.
     if \<not> scisdigit c then sqstd_rex_error ''number expected''
     else r_bind sqstd_rex_parsenumber (\<lambda>n0. r_bind cur (\<lambda>d.
       if d = chr8 CHR ''}'' then r_then advance (r_ret (Some (ushort n0, ushort n0)))
       else if d = chr8 CHR '','' then r_then advance (r_bind rex_upper (\<lambda>n1.
         r_then (sqstd_rex_expect (chr8 CHR ''}'')) (r_ret (Some (ushort n0, ushort n1)))))
       else sqstd_rex_error '', or } expected'')))"

definition rex_greedy :: "(int \<times> int) option rexm" where
  "rex_greedy = r_bind cur (\<lambda>c.
     if c = chr8 CHR ''*'' then r_then advance (r_ret (Some (0, 0xFFFF)))
     else if c = chr8 CHR ''+'' then r_then advance (r_ret (Some (1, 0xFFFF)))
     else if c = chr8 CHR ''?'' then r_then advance (r_ret (Some (0, 1)))
     else if c = chr8 CHR ''{'' then r_then advance rex_bounds
     else r_ret None)"

text \<open>\<^verbatim>\<open>(p0 << 16) | p1\<close> in \<^verbatim>\<open>int\<close>, and the fields read back from it.\<close>

definition pack_bounds :: "int \<Rightarrow> int \<Rightarrow> int" where
  "pack_bounds p0 p1 = sint (word_of_int (p0 * 65536 + p1) :: 32 word)"

definition min_bound :: "int \<Rightarrow> int" where "min_bound right = (right div 65536) mod 65536"
definition max_bound :: "int \<Rightarrow> int" where "max_bound right = right mod 65536"

text \<open>The atom of an element; \<open>list\<close> compiles what is between parentheses.\<close>

definition rex_atom :: "int rexm \<Rightarrow> int rexm" where
  "rex_atom list = r_bind cur (\<lambda>c.
     if c = chr8 CHR ''('' then r_then advance (r_bind cur (\<lambda>d.
       r_bind (if d = chr8 CHR ''?''
               then r_then advance (r_then (sqstd_rex_expect (chr8 CHR '':'')) (sqstd_rex_newnode OP_NOCAPEXPR))
               else sqstd_rex_newnode OP_EXPR) (\<lambda>expr.
       r_bind list (\<lambda>newn. r_then (set_left expr newn)
         (r_then (sqstd_rex_expect (chr8 CHR '')'')) (r_ret expr))))))
     else if c = chr8 CHR ''['' then r_then advance (r_bind sqstd_rex_class (\<lambda>ret.
       r_then (sqstd_rex_expect (chr8 CHR '']'')) (r_ret ret)))
     else if c = chr8 CHR ''$'' then r_then advance (sqstd_rex_newnode OP_EOL)
     else if c = chr8 CHR ''.'' then r_then advance (sqstd_rex_newnode OP_DOT)
     else sqstd_rex_charnode False)"

definition rex_repeat :: "int \<Rightarrow> int rexm" where
  "rex_repeat ret = r_bind rex_greedy (\<lambda>g. case g of
     None \<Rightarrow> r_ret ret
   | Some (p0, p1) \<Rightarrow> r_bind (sqstd_rex_newnode OP_GREEDY) (\<lambda>nnode.
       r_then (set_left nnode ret) (r_then (set_right nnode (pack_bounds p0 p1)) (r_ret nnode))))"

definition ends_element :: "sqchar \<Rightarrow> bool" where
  "ends_element c \<longleftrightarrow> c = chr8 CHR ''|'' \<or> c = chr8 CHR '')'' \<or> c = chr8 CHR ''*'' \<or> c = chr8 CHR ''+'' \<or> c = 0"

fun sqstd_rex_element :: "nat \<Rightarrow> int rexm" and sqstd_rex_list :: "nat \<Rightarrow> int rexm" where
  "sqstd_rex_element 0 = (\<lambda>e. None)"
| "sqstd_rex_element (Suc k) = r_bind (rex_atom (sqstd_rex_list k)) (\<lambda>atom. r_bind (rex_repeat atom) (\<lambda>ret.
     r_bind cur (\<lambda>c.
       if ends_element c then r_ret ret
       else r_bind (sqstd_rex_element k) (\<lambda>nnode. r_then (set_next ret nnode) (r_ret ret)))))"
| "sqstd_rex_list 0 = (\<lambda>e. None)"
| "sqstd_rex_list (Suc k) = r_bind cur (\<lambda>c.
     r_bind (if c = chr8 CHR ''^'' then r_then advance
               (r_bind (sqstd_rex_newnode OP_BOL) (\<lambda>ret. r_bind (sqstd_rex_element k) (\<lambda>e.
                  r_then (set_next ret e) (r_ret ret))))
             else sqstd_rex_element k) (\<lambda>ret.
     r_bind cur (\<lambda>d.
       if d = chr8 CHR ''|'' then r_then advance (r_bind (sqstd_rex_newnode OP_OR) (\<lambda>temp.
         r_then (set_left temp ret) (r_bind (sqstd_rex_list k) (\<lambda>tright.
           r_then (set_right temp tright) (r_ret temp)))))
       else r_ret ret)))"

text \<open>\<^verbatim>\<open>sqstd_rex_compile\<close>: the message, or the compiled expression with its first node.\<close>

definition rex_start :: "sqchar list \<Rightarrow> rex" where
  "rex_start pattern = \<lparr> rx_pat = c_str pattern, rx_p = 0, rx_nodes = [], rx_nallocated = length (c_str pattern), rx_nsubexpr = 0 \<rparr>"

definition sqstd_rex_compile :: "sqchar list \<Rightarrow> (string + int \<times> rex) option" where
  "sqstd_rex_compile pattern =
     r_bind (sqstd_rex_newnode OP_EXPR) (\<lambda>first.
     r_bind (\<lambda>e. sqstd_rex_list (2 * length (rx_pat e) + 2) e) (\<lambda>res.
     r_then (set_left first res) (r_bind cur (\<lambda>c.
       if c \<noteq> 0 then sqstd_rex_error ''unexpected character'' else r_ret first)))) (rex_start pattern)"
subsection \<open>The matcher\<close>

text \<open>The text with \<^verbatim>\<open>_bol\<close> and \<^verbatim>\<open>_eol\<close> as positions in it, and the nodes.\<close>

record rexctx =
  mc_nodes :: "rexnode list"
  mc_text :: "sqchar list"
  mc_bol :: nat
  mc_eol :: nat

text \<open>\<^verbatim>\<open>_matches\<close> and \<^verbatim>\<open>_currsubexp\<close>\<close>

type_synonym rexstate = "rexmatch list \<times> int"

text \<open>A result position, \<open>None\<close> being the null pointer, and the state.\<close>

type_synonym rexres = "(nat option \<times> rexstate) option"

definition text_char :: "rexctx \<Rightarrow> nat \<Rightarrow> sqchar option" where
  "text_char x i = (if i < length (mc_text x) then Some (mc_text x ! i)
     else if i = length (mc_text x) then Some 0 else None)"

definition ctx_node :: "rexctx \<Rightarrow> int \<Rightarrow> rexnode option" where
  "ctx_node x i = (if 0 \<le> i \<and> nat i < length (mc_nodes x) then Some (mc_nodes x ! nat i) else None)"

text \<open>The character classes of the C locale; a negative \<^verbatim>\<open>char\<close> is in none of them.\<close>

definition c_isgraph :: "sqchar \<Rightarrow> bool" where "c_isgraph c \<longleftrightarrow> in_range 33 126 c"
definition c_ispunct :: "sqchar \<Rightarrow> bool" where "c_ispunct c \<longleftrightarrow> c_isgraph c \<and> \<not> scisalnum c"
definition c_iscntrl :: "sqchar \<Rightarrow> bool" where "c_iscntrl c \<longleftrightarrow> unat c < 32 \<or> unat c = 127"

definition sqstd_rex_matchcclass :: "int \<Rightarrow> sqchar \<Rightarrow> bool" where
  "sqstd_rex_matchcclass cclass c =
     (let k = (word_of_int cclass :: sqchar) in
      if k = chr8 CHR ''a'' then scisalpha c
      else if k = chr8 CHR ''A'' then \<not> scisalpha c
      else if k = chr8 CHR ''w'' then scisalnum c \<or> c = chr8 CHR ''_''
      else if k = chr8 CHR ''W'' then \<not> scisalnum c \<and> c \<noteq> chr8 CHR ''_''
      else if k = chr8 CHR ''s'' then scisspace c
      else if k = chr8 CHR ''S'' then \<not> scisspace c
      else if k = chr8 CHR ''d'' then scisdigit c
      else if k = chr8 CHR ''D'' then \<not> scisdigit c
      else if k = chr8 CHR ''x'' then scisxdigit c
      else if k = chr8 CHR ''X'' then \<not> scisxdigit c
      else if k = chr8 CHR ''c'' then c_iscntrl c
      else if k = chr8 CHR ''C'' then \<not> c_iscntrl c
      else if k = chr8 CHR ''p'' then c_ispunct c
      else if k = chr8 CHR ''P'' then \<not> c_ispunct c
      else if k = chr8 CHR ''l'' then in_range 97 122 c
      else if k = chr8 CHR ''u'' then in_range 65 90 c
      else False)"

text \<open>One item of a class, and the loop over its chain.\<close>

definition class_item :: "rexnode \<Rightarrow> sqchar \<Rightarrow> bool" where
  "class_item n c = (case rn_type n of
     OP_RANGE \<Rightarrow> rn_left n \<le> sint c \<and> sint c \<le> rn_right n
   | OP_CCLASS \<Rightarrow> sqstd_rex_matchcclass (rn_left n) c
   | t \<Rightarrow> sint c = type_code t)"

partial_function (option) sqstd_rex_matchclass :: "rexctx \<Rightarrow> int \<Rightarrow> sqchar \<Rightarrow> bool option" where
  "sqstd_rex_matchclass x i c = do {
     n \<leftarrow> ctx_node x i;
     if class_item n c then Some True
     else if rn_next n \<noteq> - 1 then sqstd_rex_matchclass x (rn_next n) c
     else Some False }"

type_synonym matcher = "int \<Rightarrow> nat \<Rightarrow> int \<Rightarrow> rexstate \<Rightarrow> rexres"

text \<open>\<^verbatim>\<open>OP_GREEDY\<close>: whether a number of repetitions is within the bounds, and the node after the stop node
  that is tried ahead.\<close>

definition bounds_met :: "int \<Rightarrow> int \<Rightarrow> int \<Rightarrow> bool" where
  "bounds_met p0 p1 n \<longleftrightarrow> p0 = p1 \<and> p0 = n \<or> n \<ge> p0 \<and> p1 = 0xFFFF \<or> n \<ge> p0 \<and> n \<le> p1"

definition stop_next :: "rexctx \<Rightarrow> rexnode \<Rightarrow> int \<Rightarrow> int option" where
  "stop_next x gs next =
     (if rn_next gs \<noteq> - 1 then Some (rn_next gs)
      else if next \<noteq> - 1 then map_option rn_next (ctx_node x next)
      else Some (- 1))"

definition tries_stop :: "rexnode \<Rightarrow> bool" where
  "tries_stop gs \<longleftrightarrow> rn_type gs \<noteq> OP_GREEDY \<or> min_bound (rn_right gs) \<noteq> 0"

text \<open>Whether the stop node matches after this repetition, so that the loop may end.\<close>

definition stop_matches :: "matcher \<Rightarrow> rexctx \<Rightarrow> int \<Rightarrow> int \<Rightarrow> nat \<Rightarrow> rexstate \<Rightarrow> (bool \<times> rexstate) option" where
  "stop_matches m x greedystop next s st =
     (if greedystop = - 1 then Some (False, st)
      else do {
        gs \<leftarrow> ctx_node x greedystop;
        if tries_stop gs then do {
          gnext \<leftarrow> stop_next x gs next;
          (stop, st1) \<leftarrow> m greedystop s gnext st;
          Some (stop \<noteq> None, st1) }
        else Some (False, st) })"

function greedy_loop ::
  "matcher \<Rightarrow> rexctx \<Rightarrow> rexnode \<Rightarrow> int \<Rightarrow> nat \<Rightarrow> nat \<Rightarrow> nat \<Rightarrow> rexstate \<Rightarrow> (nat \<times> nat \<times> rexstate) option" where
  "greedy_loop m x node next nmaches s good st =
     (let greedystop = (if rn_next node \<noteq> - 1 then rn_next node else next);
          p0 = min_bound (rn_right node); p1 = max_bound (rn_right node) in
      if nmaches = 0xFFFF \<or> int nmaches < p1 then do {
        (r, st1) \<leftarrow> m (rn_left node) s greedystop st;
        case r of
          None \<Rightarrow> Some (nmaches, good, st1)
        | Some s1 \<Rightarrow> do {
            (stop, st2) \<leftarrow> stop_matches m x greedystop next s1 st1;
            if stop \<and> bounds_met p0 p1 (int (nmaches + 1)) \<or> s1 \<ge> mc_eol x
            then Some (nmaches + 1, s1, st2)
            else greedy_loop m x node next (nmaches + 1) s1 s1 st2 } }
      else Some (nmaches, good, st))"
  by pat_completeness auto
termination
  by (relation "measure (\<lambda>(m, x, node, next, nmaches, s, good, st). 0x10000 - nmaches)") (auto simp: max_bound_def)

declare greedy_loop.simps [simp del]

definition match_greedy :: "matcher \<Rightarrow> rexctx \<Rightarrow> rexnode \<Rightarrow> nat \<Rightarrow> int \<Rightarrow> rexstate \<Rightarrow> rexres" where
  "match_greedy m x node str next st = do {
     (nmaches, good, st1) \<leftarrow> greedy_loop m x node next 0 str str st;
     Some (if bounds_met (min_bound (rn_right node)) (max_bound (rn_right node)) (int nmaches) then Some good else None, st1) }"

text \<open>\<^verbatim>\<open>OP_OR\<close>: one alternative is a chain, each node matched without a next one.\<close>

partial_function (option) match_branch :: "matcher \<Rightarrow> rexctx \<Rightarrow> int \<Rightarrow> nat \<Rightarrow> rexstate \<Rightarrow> rexres" where
  "match_branch m x temp asd st = do {
     rs \<leftarrow> m temp asd (- 1) st;
     case fst rs of
       None \<Rightarrow> Some (None, snd rs)
     | Some asd1 \<Rightarrow> do {
         n \<leftarrow> ctx_node x temp;
         if rn_next n \<noteq> - 1 then match_branch m x (rn_next n) asd1 (snd rs) else Some (Some asd1, snd rs) } }"

definition match_or :: "matcher \<Rightarrow> rexctx \<Rightarrow> rexnode \<Rightarrow> nat \<Rightarrow> rexstate \<Rightarrow> rexres" where
  "match_or m x node str st = do {
     (r, st1) \<leftarrow> match_branch m x (rn_left node) str st;
     if r \<noteq> None then Some (r, st1) else match_branch m x (rn_right node) str st1 }"

text \<open>\<^verbatim>\<open>OP_EXPR\<close>: the chain in the parentheses, then the capture.\<close>

partial_function (option) match_seq :: "matcher \<Rightarrow> rexctx \<Rightarrow> int \<Rightarrow> int \<Rightarrow> nat \<Rightarrow> rexstate \<Rightarrow> rexres" where
  "match_seq m x n next cr st = do {
     nd \<leftarrow> ctx_node x n;
     rs \<leftarrow> m n cr (if rn_next nd \<noteq> - 1 then rn_next nd else next) st;
     case fst rs of
       None \<Rightarrow> Some (None, snd rs)
     | Some cr1 \<Rightarrow> if rn_next nd \<noteq> - 1 then match_seq m x (rn_next nd) next cr1 (snd rs) else Some (Some cr1, snd rs) }"

definition set_match :: "int \<Rightarrow> rexmatch \<Rightarrow> rexmatch list \<Rightarrow> rexmatch list option" where
  "set_match i r ms = (if 0 \<le> i \<and> nat i < length ms then Some (ms[nat i := r]) else None)"

definition match_expr :: "matcher \<Rightarrow> rexctx \<Rightarrow> rexnode \<Rightarrow> nat \<Rightarrow> int \<Rightarrow> rexstate \<Rightarrow> rexres" where
  "match_expr m x node str next st =
     (let captures = rn_type node \<noteq> OP_NOCAPEXPR \<and> rn_right node = snd st; capture = snd st in
      if captures then do {
        ms \<leftarrow> set_match capture \<lparr> rm_begin = Some str, rm_len = rm_len (fst st ! nat capture) \<rparr> (fst st);
        (r, st1) \<leftarrow> match_seq m x (rn_left node) next str (ms, capture + 1);
        case r of
          None \<Rightarrow> do {
            ms1 \<leftarrow> set_match capture \<lparr> rm_begin = None, rm_len = 0 \<rparr> (fst st1);
            Some (None, (ms1, snd st1)) }
        | Some cr \<Rightarrow> do {
            b \<leftarrow> rm_begin (fst st1 ! nat capture);
            ms1 \<leftarrow> set_match capture \<lparr> rm_begin = Some b, rm_len = int cr - int b \<rparr> (fst st1);
            Some (Some cr, (ms1, capture + 1)) } }
      else do {
        (r, st1) \<leftarrow> match_seq m x (rn_left node) next str st;
        Some (r, if r = None then st1 else (fst st1, snd st)) })"

text \<open>\<^verbatim>\<open>OP_WB\<close>: the test reads the character before and after, in the order of the code.\<close>

definition space_at :: "rexctx \<Rightarrow> nat \<Rightarrow> bool option" where
  "space_at x i = map_option scisspace (text_char x i)"

definition at_boundary :: "rexctx \<Rightarrow> nat \<Rightarrow> bool option" where
  "at_boundary x str = do {
     here \<leftarrow> space_at x str;
     if str = mc_bol x \<and> \<not> here then Some True
     else do {
       ended \<leftarrow> (if str = mc_eol x then (if str = 0 then None else map_option Not (space_at x (str - 1))) else Some False);
       if ended then Some True
       else do {
         after \<leftarrow> space_at x (str + 1);
         Some (here \<noteq> after) } } }"

text \<open>\<^verbatim>\<open>OP_MB\<close>: from behind the opening character.\<close>

function balance_loop :: "rexctx \<Rightarrow> sqchar \<Rightarrow> sqchar \<Rightarrow> nat \<Rightarrow> nat \<Rightarrow> nat option option" where
  "balance_loop x cb ce cont str =
     (if str < mc_eol x then do {
        c \<leftarrow> text_char x str;
        if c = ce then (if cont = 1 then Some (Some (str + 1)) else balance_loop x cb ce (cont - 1) (str + 1))
        else balance_loop x cb ce (if c = cb then cont + 1 else cont) (str + 1) }
      else Some None)"
  by pat_completeness auto
termination by (relation "measure (\<lambda>(x, cb, ce, cont, str). mc_eol x - str)") auto

declare balance_loop.simps [simp del]

text \<open>One character that satisfies a test, but not at the end.\<close>

definition match_char :: "rexctx \<Rightarrow> nat \<Rightarrow> (sqchar \<Rightarrow> bool option) \<Rightarrow> rexstate \<Rightarrow> rexres" where
  "match_char x str test st =
     (if str = mc_eol x then Some (None, st)
      else do {
        c \<leftarrow> text_char x str;
        b \<leftarrow> test c;
        Some (if b then Some (str + 1) else None, st) })"

definition match_body :: "matcher \<Rightarrow> rexctx \<Rightarrow> rexnode \<Rightarrow> nat \<Rightarrow> int \<Rightarrow> rexstate \<Rightarrow> rexres" where
  "match_body m x node str next st = (case rn_type node of
     OP_GREEDY \<Rightarrow> match_greedy m x node str next st
   | OP_OR \<Rightarrow> match_or m x node str st
   | OP_EXPR \<Rightarrow> match_expr m x node str next st
   | OP_NOCAPEXPR \<Rightarrow> match_expr m x node str next st
   | OP_WB \<Rightarrow> do { b \<leftarrow> at_boundary x str; Some (if b = (rn_left node = 98) then Some str else None, st) }
   | OP_BOL \<Rightarrow> Some (if str = mc_bol x then Some str else None, st)
   | OP_EOL \<Rightarrow> Some (if str = mc_eol x then Some str else None, st)
   | OP_DOT \<Rightarrow> Some (if str = mc_eol x then None else Some (str + 1), st)
   | OP_NCLASS \<Rightarrow> match_char x str (\<lambda>c. map_option Not (sqstd_rex_matchclass x (rn_left node) c)) st
   | OP_CLASS \<Rightarrow> match_char x str (sqstd_rex_matchclass x (rn_left node)) st
   | OP_CCLASS \<Rightarrow> match_char x str (\<lambda>c. Some (sqstd_rex_matchcclass (rn_left node) c)) st
   | OP_MB \<Rightarrow> do {
       c \<leftarrow> text_char x str;
       if sint c \<noteq> rn_left node then Some (None, st)
       else do {
         r \<leftarrow> balance_loop x (word_of_int (rn_left node)) (word_of_int (rn_right node)) 1 (str + 1);
         Some (r, st) } }
   | OP_RANGE \<Rightarrow> match_char x str (\<lambda>c. Some False) st
   | OP_CHR k \<Rightarrow> match_char x str (\<lambda>c. Some (c = k)) st)"

primrec sqstd_rex_matchnode :: "nat \<Rightarrow> rexctx \<Rightarrow> matcher" where
  "sqstd_rex_matchnode 0 x = (\<lambda>i str next st. None)"
| "sqstd_rex_matchnode (Suc k) x = (\<lambda>i str next st. do {
     node \<leftarrow> ctx_node x i;
     match_body (sqstd_rex_matchnode k x) x node str next st })"

declare sqstd_rex_matchclass.simps [code] match_branch.simps [code] match_seq.simps [code]

subsection \<open>Matching and searching\<close>

definition no_matches :: "rex \<Rightarrow> rexmatch list" where
  "no_matches e = replicate (nat (rx_nsubexpr e)) \<lparr> rm_begin = None, rm_len = 0 \<rparr>"

definition rex_ctx :: "rex \<Rightarrow> sqchar list \<Rightarrow> rexctx" where
  "rex_ctx e text = \<lparr> mc_nodes = rx_nodes e, mc_text = text, mc_bol = 0, mc_eol = length (c_str text) \<rparr>"

text \<open>The captures of earlier matches are not cleared, so they are an argument and a result.\<close>

definition sqstd_rex_match :: "rex \<Rightarrow> rexmatch list \<Rightarrow> sqchar list \<Rightarrow> (bool \<times> rexmatch list) option" where
  "sqstd_rex_match e ms text = do {
     (r, st) \<leftarrow> sqstd_rex_matchnode (length (rx_nodes e)) (rex_ctx e text) 0 0 (- 1) (ms, 0);
     Some (r = Some (length (c_str text)), fst st) }"

text \<open>\<^verbatim>\<open>sqstd_rex_searchrange\<close>: the chain of nodes from one position, and the loop over the positions, which
  goes on with the node where the last attempt stopped.\<close>

partial_function (option) search_chain ::
  "rexctx \<Rightarrow> int \<Rightarrow> nat \<Rightarrow> rexmatch list \<Rightarrow> (nat option \<times> int \<times> rexmatch list) option" where
  "search_chain x node cr ms =
     (if node = - 1 then Some (Some cr, node, ms)
      else do {
        rs \<leftarrow> sqstd_rex_matchnode (length (mc_nodes x)) x node cr (- 1) (ms, 0);
        case fst rs of
          None \<Rightarrow> Some (None, node, fst (snd rs))
        | Some cr1 \<Rightarrow> do {
            n \<leftarrow> ctx_node x node;
            search_chain x (rn_next n) cr1 (fst (snd rs)) } })"

declare search_chain.simps [code]

function search_loop :: "rexctx \<Rightarrow> int \<Rightarrow> nat \<Rightarrow> rexmatch list \<Rightarrow> ((nat \<times> nat) option \<times> rexmatch list) option" where
  "search_loop x node text_begin ms = (case search_chain x node text_begin ms of
     None \<Rightarrow> None
   | Some (cr, node1, ms1) \<Rightarrow>
       (case cr of
          Some out_end \<Rightarrow> Some (Some (text_begin, out_end), ms1)
        | None \<Rightarrow> if text_begin + 1 < mc_eol x then search_loop x node1 (text_begin + 1) ms1 else Some (None, ms1)))"
  by pat_completeness auto
termination by (relation "measure (\<lambda>(x, node, tb, ms). mc_eol x - tb)") auto

declare search_loop.simps [simp del]

definition sqstd_rex_search :: "rex \<Rightarrow> rexmatch list \<Rightarrow> sqchar list \<Rightarrow> ((nat \<times> nat) option \<times> rexmatch list) option" where
  "sqstd_rex_search e ms text =
     (if c_str text = [] then Some (None, ms) else search_loop (rex_ctx e text) 0 0 ms)"

definition sqstd_rex_getsubexpcount :: "rex \<Rightarrow> int" where
  "sqstd_rex_getsubexpcount e = rx_nsubexpr e"

definition sqstd_rex_getsubexp :: "rex \<Rightarrow> rexmatch list \<Rightarrow> int \<Rightarrow> rexmatch option" where
  "sqstd_rex_getsubexp e ms n = (if n < 0 \<or> n \<ge> rx_nsubexpr e then None else Some (ms ! nat n))"

end
