(* ===== verification/Sq_Rex_Match.thy ===== *)
theory Sq_Rex_Match
  imports Sq_Rex
begin

text \<open>
  What a compiled expression means, and the matcher against it.  \<open>rx_seq\<close> is the syntax tree of an
  expression, \<open>sem_seq\<close> the set of segments of a text it describes, \<open>repr_seq\<close> says that a chain of nodes
  stands for a tree.  The matcher is greedy and does not go back on a choice, so it may miss a match; what
  it reports is one (\<open>match_sound\<close>), and it always returns without leaving the text.
\<close>

subsection \<open>Trees and their meaning\<close>

datatype rx_atom =
    Leaf rextype int int
  | Class bool "(rextype \<times> int \<times> int) list"
  | Paren bool int rx_seq
  | Rep rx_atom int
  | Or rx_seq rx_seq
and rx_seq = Last rx_atom | Then rx_atom rx_seq

definition item_matches :: "sqchar \<Rightarrow> rextype \<times> int \<times> int \<Rightarrow> bool" where
  "item_matches c it = (case it of (t, l, r) \<Rightarrow>
     (case t of OP_RANGE \<Rightarrow> l \<le> sint c \<and> sint c \<le> r | OP_CCLASS \<Rightarrow> sqstd_rex_matchcclass l c | _ \<Rightarrow> sint c = type_code t))"

definition one_char :: "rexctx \<Rightarrow> (sqchar \<Rightarrow> bool) \<Rightarrow> nat \<Rightarrow> nat \<Rightarrow> bool" where
  "one_char x P i j \<longleftrightarrow> i < mc_eol x \<and> j = i + 1 \<and> P (mc_text x ! i)"

text \<open>A balanced segment: it opens, never closes more than it opened, and ends when all is closed.\<close>

definition excess :: "sqchar \<Rightarrow> sqchar \<Rightarrow> sqchar list \<Rightarrow> int" where
  "excess cb ce ws = int (length (filter (\<lambda>c. c = cb) ws)) - int (length (filter (\<lambda>c. c = ce) ws))"

definition balanced :: "rexctx \<Rightarrow> sqchar \<Rightarrow> sqchar \<Rightarrow> nat \<Rightarrow> nat \<Rightarrow> bool" where
  "balanced x cb ce i j \<longleftrightarrow> i < j \<and> j \<le> mc_eol x \<and> mc_text x ! i = cb \<and>
     (let ws = take (j - i) (drop i (mc_text x)) in
      excess cb ce ws = 0 \<and> (\<forall>k. 0 < k \<and> k < j - i \<longrightarrow> excess cb ce (take k ws) > 0))"

definition leaf_sem :: "rexctx \<Rightarrow> rextype \<Rightarrow> int \<Rightarrow> int \<Rightarrow> nat \<Rightarrow> nat \<Rightarrow> bool" where
  "leaf_sem x t l r i j = (case t of
     OP_DOT \<Rightarrow> one_char x (\<lambda>c. True) i j
   | OP_CHR k \<Rightarrow> one_char x (\<lambda>c. c = k) i j
   | OP_CCLASS \<Rightarrow> one_char x (sqstd_rex_matchcclass l) i j
   | OP_EOL \<Rightarrow> j = i \<and> i = mc_eol x
   | OP_BOL \<Rightarrow> j = i \<and> i = mc_bol x
   | OP_WB \<Rightarrow> j = i \<and> at_boundary x i = Some (l = 98)
   | OP_MB \<Rightarrow> balanced x (word_of_int l) (word_of_int r) i j
   | _ \<Rightarrow> False)"

primrec sem_atom :: "rexctx \<Rightarrow> rx_atom \<Rightarrow> nat \<Rightarrow> nat \<Rightarrow> bool"
  and sem_seq :: "rexctx \<Rightarrow> rx_seq \<Rightarrow> nat \<Rightarrow> nat \<Rightarrow> bool" where
  "sem_atom x (Leaf t l r) = leaf_sem x t l r"
| "sem_atom x (Class neg items) = one_char x (\<lambda>c. (\<exists>it \<in> set items. item_matches c it) \<noteq> neg)"
| "sem_atom x (Paren cap n s) = sem_seq x s"
| "sem_atom x (Rep a b) = (\<lambda>i j. \<exists>k. (sem_atom x a ^^ k) i j \<and> min_bound b \<le> int k \<and>
     (int k \<le> max_bound b \<or> max_bound b = 0xFFFF))"
| "sem_atom x (Or s t) = (\<lambda>i j. sem_seq x s i j \<or> sem_seq x t i j)"
| "sem_seq x (Last a) = sem_atom x a"
| "sem_seq x (Then a s) = sem_atom x a OO sem_seq x s"

text \<open>The number of nodes of a tree, which bounds how deep the matcher descends.\<close>

primrec atom_size :: "rx_atom \<Rightarrow> nat" and seq_size :: "rx_seq \<Rightarrow> nat" where
  "atom_size (Leaf t l r) = 1"
| "atom_size (Class neg items) = 1"
| "atom_size (Paren cap n s) = 1 + seq_size s"
| "atom_size (Rep a b) = 1 + atom_size a"
| "atom_size (Or s t) = 1 + seq_size s + seq_size t"
| "seq_size (Last a) = atom_size a"
| "seq_size (Then a s) = atom_size a + seq_size s"

primrec atom_boundary :: "rx_atom \<Rightarrow> bool" and seq_boundary :: "rx_seq \<Rightarrow> bool" where
  "atom_boundary (Leaf t l r) = (t = OP_WB)"
| "atom_boundary (Class neg items) = False"
| "atom_boundary (Paren cap n s) = seq_boundary s"
| "atom_boundary (Rep a b) = atom_boundary a"
| "atom_boundary (Or s t) = (seq_boundary s \<or> seq_boundary t)"
| "seq_boundary (Last a) = atom_boundary a"
| "seq_boundary (Then a s) = (atom_boundary a \<or> seq_boundary s)"

subsection \<open>Nodes that stand for a tree\<close>

definition node_at :: "rexnode list \<Rightarrow> int \<Rightarrow> rexnode option" where
  "node_at ns i = (if 0 \<le> i \<and> nat i < length ns then Some (ns ! nat i) else None)"

definition has_node :: "rexnode list \<Rightarrow> int \<Rightarrow> (rexnode \<Rightarrow> bool) \<Rightarrow> bool" where
  "has_node ns n P = (case node_at ns n of None \<Rightarrow> False | Some nd \<Rightarrow> P nd)"

primrec class_items :: "rexnode list \<Rightarrow> int set \<Rightarrow> int \<Rightarrow> (rextype \<times> int \<times> int) list \<Rightarrow> bool" where
  "class_items ns U n [] = False"
| "class_items ns U n (it # its) = (n \<in> U \<and> has_node ns n (\<lambda>nd.
     (rn_type nd, rn_left nd, rn_right nd) = it \<and>
       (if its = [] then rn_next nd = - 1 else rn_next nd \<noteq> - 1 \<and> class_items ns U (rn_next nd) its)))"

definition is_leaf :: "rextype \<Rightarrow> int \<Rightarrow> int \<Rightarrow> bool" where
  "is_leaf t l r = (case t of
     OP_DOT \<Rightarrow> True | OP_CCLASS \<Rightarrow> True | OP_EOL \<Rightarrow> True | OP_BOL \<Rightarrow> True | OP_WB \<Rightarrow> True | OP_CHR c \<Rightarrow> True
   | OP_MB \<Rightarrow> (word_of_int l :: sqchar) \<noteq> word_of_int r | _ \<Rightarrow> False)"

text \<open>The nodes below one are in \<open>U\<close> without the node itself; a capture number is below \<open>nsub\<close>.\<close>

primrec repr_atom :: "int \<Rightarrow> rexnode list \<Rightarrow> int set \<Rightarrow> int \<Rightarrow> rx_atom \<Rightarrow> bool"
  and repr_seq :: "int \<Rightarrow> rexnode list \<Rightarrow> int set \<Rightarrow> int \<Rightarrow> rx_seq \<Rightarrow> bool" where
  "repr_atom nsub ns U n (Leaf t l r) = (n \<in> U \<and> is_leaf t l r \<and>
     has_node ns n (\<lambda>nd. rn_type nd = t \<and> rn_left nd = l \<and> rn_right nd = r))"
| "repr_atom nsub ns U n (Class neg items) = (n \<in> U \<and>
     has_node ns n (\<lambda>nd. rn_type nd = (if neg then OP_NCLASS else OP_CLASS) \<and>
       class_items ns (U - {n}) (rn_left nd) items))"
| "repr_atom nsub ns U n (Paren cap k s) = (n \<in> U \<and> (cap \<longrightarrow> 0 \<le> k \<and> k < nsub) \<and>
     has_node ns n (\<lambda>nd. rn_type nd = (if cap then OP_EXPR else OP_NOCAPEXPR) \<and> (cap \<longrightarrow> rn_right nd = k) \<and>
       repr_seq nsub ns (U - {n}) (rn_left nd) s))"
| "repr_atom nsub ns U n (Rep a b) = (n \<in> U \<and>
     has_node ns n (\<lambda>nd. rn_type nd = OP_GREEDY \<and> rn_right nd = b \<and>
       repr_atom nsub ns (U - {n}) (rn_left nd) a \<and> has_node ns (rn_left nd) (\<lambda>nl. rn_next nl = - 1)))"
| "repr_atom nsub ns U n (Or s t) = (n \<in> U \<and>
     has_node ns n (\<lambda>nd. rn_type nd = OP_OR \<and> repr_seq nsub ns (U - {n}) (rn_left nd) s \<and>
       repr_seq nsub ns (U - {n}) (rn_right nd) t))"
| "repr_seq nsub ns U n (Last a) = (repr_atom nsub ns U n a \<and> has_node ns n (\<lambda>nd. rn_next nd = - 1))"
| "repr_seq nsub ns U n (Then a s) = (repr_atom nsub ns U n a \<and>
     has_node ns n (\<lambda>nd. rn_next nd \<noteq> - 1 \<and> repr_seq nsub ns U (rn_next nd) s))"

lemma has_nodeI: "node_at ns n = Some nd \<Longrightarrow> P nd \<Longrightarrow> has_node ns n P"
  by (simp add: has_node_def)

lemma has_nodeE:
  assumes "has_node ns n P" obtains nd where "node_at ns n = Some nd" "P nd"
  using assms by (auto simp: has_node_def split: option.splits)

lemma has_node_iff: "has_node ns n P \<longleftrightarrow> (\<exists>nd. node_at ns n = Some nd \<and> P nd)"
  by (auto simp: has_node_def split: option.splits)

lemma class_items_mono: "class_items ns U n its \<Longrightarrow> U \<subseteq> V \<Longrightarrow> class_items ns V n its"
  by (induction its arbitrary: n) (auto simp: has_node_def split: option.splits)

lemma repr_mono:
  "repr_atom nsub ns U n a \<Longrightarrow> U \<subseteq> V \<Longrightarrow> repr_atom nsub ns V n a"
  "repr_seq nsub ns U n s \<Longrightarrow> U \<subseteq> V \<Longrightarrow> repr_seq nsub ns V n s"
proof (induction a and s arbitrary: n U V and n U V)
  case (Class neg items)
  have "class_items ns (V - {n}) m items" if "class_items ns (U - {n}) m items" for m
    using that Class.prems(2) by (auto intro: class_items_mono)
  with Class.prems show ?case by (auto simp: has_node_iff)
next
  case (Paren cap k s)
  have "repr_seq nsub ns (V - {n}) m s" if "repr_seq nsub ns (U - {n}) m s" for m
    using that Paren.prems(2) by (auto intro: Paren.IH [of "U - {n}"])
  with Paren.prems show ?case by (auto simp: has_node_iff)
next
  case (Rep a b)
  have "repr_atom nsub ns (V - {n}) m a" if "repr_atom nsub ns (U - {n}) m a" for m
    using that Rep.prems(2) by (auto intro: Rep.IH [of "U - {n}"])
  with Rep.prems show ?case by (auto simp: has_node_iff)
next
  case (Or s t)
  have "repr_seq nsub ns (V - {n}) m s" if "repr_seq nsub ns (U - {n}) m s" for m
    using that Or.prems(2) by (auto intro: Or.IH(1) [of "U - {n}"])
  moreover have "repr_seq nsub ns (V - {n}) m t" if "repr_seq nsub ns (U - {n}) m t" for m
    using that Or.prems(2) by (auto intro: Or.IH(2) [of "U - {n}"])
  ultimately show ?case using Or.prems by (auto simp: has_node_iff)
next
  case (Then a s)
  have "repr_seq nsub ns V m s" if "repr_seq nsub ns U m s" for m
    using that Then.prems(2) by (rule Then.IH(2))
  with Then.prems Then.IH(1) show ?case by (auto simp: has_node_iff)
qed auto

lemma ctx_node_at: "ctx_node x = node_at (mc_nodes x)"
  by (simp add: fun_eq_iff ctx_node_def node_at_def)

lemma matchclass_ok:
  "class_items (mc_nodes x) U n its \<Longrightarrow>
    sqstd_rex_matchclass x n c = Some (\<exists>it \<in> set its. item_matches c it)"
proof (induction its arbitrary: n)
  case (Cons it its)
  then obtain nd where nd: "node_at (mc_nodes x) n = Some nd" "(rn_type nd, rn_left nd, rn_right nd) = it"
    "if its = [] then rn_next nd = - 1 else rn_next nd \<noteq> - 1 \<and> class_items (mc_nodes x) U (rn_next nd) its"
    by (auto elim!: has_nodeE)
  have "class_item nd c = item_matches c it"
    unfolding nd(2) [symmetric] by (cases "rn_type nd") (simp_all add: class_item_def item_matches_def)
  show ?case
  proof (cases "its = []")
    case True
    with nd this show ?thesis using \<open>class_item nd c = item_matches c it\<close>
      by (simp add: sqstd_rex_matchclass.simps [of x n] ctx_node_at)
  next
    case False
    with nd(3) Cons.IH [of "rn_next nd"] have "sqstd_rex_matchclass x (rn_next nd) c = Some (\<exists>it \<in> set its. item_matches c it)"
      "rn_next nd \<noteq> - 1" by simp_all
    with nd(1) \<open>class_item nd c = item_matches c it\<close> show ?thesis
      by (simp add: sqstd_rex_matchclass.simps [of x n] ctx_node_at)
  qed
qed simp

subsection \<open>The matcher\<close>

text \<open>The text does not end in white space: then no test for a word boundary reads behind its end.\<close>

definition text_fits :: "rexctx \<Rightarrow> bool" where
  "text_fits x \<longleftrightarrow> mc_bol x = 0 \<and> mc_eol x \<le> length (mc_text x) \<and>
     (mc_eol x < length (mc_text x) \<longrightarrow> mc_text x ! mc_eol x = 0)"

definition boundary_safe :: "rexctx \<Rightarrow> bool" where
  "boundary_safe x \<longleftrightarrow> mc_eol x = 0 \<or> \<not> scisspace (mc_text x ! (mc_eol x - 1))"

definition keeps_st :: "rexstate \<Rightarrow> rexstate \<Rightarrow> bool" where
  "keeps_st st st' \<longleftrightarrow> length (fst st') = length (fst st) \<and> snd st \<le> snd st' \<and>
     (\<forall>i. int i < snd st \<longrightarrow> fst st' ! i = fst st ! i)"

lemma keeps_st_refl [simp]: "keeps_st st st" by (simp add: keeps_st_def)

lemma keeps_st_trans: "keeps_st st st1 \<Longrightarrow> keeps_st st1 st2 \<Longrightarrow> keeps_st st st2"
  by (auto simp: keeps_st_def)

definition st_ok :: "int \<Rightarrow> rexstate \<Rightarrow> bool" where
  "st_ok nsub st \<longleftrightarrow> int (length (fst st)) = nsub \<and> 0 \<le> snd st"

lemma st_ok_keeps: "st_ok nsub st \<Longrightarrow> keeps_st st st' \<Longrightarrow> st_ok nsub st'"
  by (auto simp: st_ok_def keeps_st_def)

text \<open>A run returns, keeps the captures of the groups entered before, and a position it reports is in the
  text and ends a segment of the meaning.\<close>

definition runs :: "rexctx \<Rightarrow> rexstate \<Rightarrow> (nat \<Rightarrow> nat \<Rightarrow> bool) \<Rightarrow> nat \<Rightarrow> rexres \<Rightarrow> bool" where
  "runs x st R i res \<longleftrightarrow> (\<exists>r st'. res = Some (r, st') \<and> keeps_st st st' \<and>
     (\<forall>j. r = Some j \<longrightarrow> i \<le> j \<and> j \<le> mc_eol x \<and> R i j))"

lemma runsI:
  "res = Some (r, st') \<Longrightarrow> keeps_st st st' \<Longrightarrow> (\<And>j. r = Some j \<Longrightarrow> i \<le> j \<and> j \<le> mc_eol x \<and> R i j) \<Longrightarrow> runs x st R i res"
  by (auto simp: runs_def)

lemma runsE:
  assumes "runs x st R i res"
  obtains r st' where "res = Some (r, st')" "keeps_st st st'" "\<And>j. r = Some j \<Longrightarrow> i \<le> j \<and> j \<le> mc_eol x \<and> R i j"
  using assms by (auto simp: runs_def)

definition atom_ok :: "rexctx \<Rightarrow> int \<Rightarrow> int \<Rightarrow> rx_atom \<Rightarrow> bool" where
  "atom_ok x nsub n a \<longleftrightarrow> repr_atom nsub (mc_nodes x) UNIV n a \<and> (atom_boundary a \<longrightarrow> boundary_safe x)"

definition chain_ok :: "rexctx \<Rightarrow> int \<Rightarrow> int \<Rightarrow> rx_seq \<Rightarrow> bool" where
  "chain_ok x nsub n s \<longleftrightarrow> repr_seq nsub (mc_nodes x) UNIV n s \<and> (seq_boundary s \<longrightarrow> boundary_safe x)"

definition next_is :: "rexctx \<Rightarrow> int \<Rightarrow> int \<Rightarrow> bool" where
  "next_is x n k \<longleftrightarrow> has_node (mc_nodes x) n (\<lambda>nd. rn_next nd = k)"

lemma chain_Last: "chain_ok x nsub n (Last a) \<longleftrightarrow> atom_ok x nsub n a \<and> next_is x n (- 1)"
  by (auto simp: chain_ok_def atom_ok_def next_is_def)

lemma chain_Then:
  "chain_ok x nsub n (Then a s) \<longleftrightarrow> atom_ok x nsub n a \<and> (\<exists>k. next_is x n k \<and> k \<noteq> - 1 \<and> chain_ok x nsub k s)"
  by (auto simp: chain_ok_def atom_ok_def next_is_def has_node_def split: option.splits)

lemma next_is_node: "next_is x n k \<Longrightarrow> ctx_node x n = Some nd \<Longrightarrow> rn_next nd = k"
  by (simp add: next_is_def has_node_def ctx_node_at)

lemma next_is_ex: "next_is x n k \<Longrightarrow> \<exists>nd. ctx_node x n = Some nd \<and> rn_next nd = k"
  by (auto simp: next_is_def has_node_def ctx_node_at split: option.splits)

lemma chain_node: "chain_ok x nsub n s \<Longrightarrow> n \<noteq> - 1"
  by (cases s) (auto simp: chain_Last chain_Then next_is_def has_node_def node_at_def)

text \<open>What may be tried after a node: a chain that is small enough.\<close>

definition after_ok :: "rexctx \<Rightarrow> int \<Rightarrow> int \<Rightarrow> nat \<Rightarrow> bool" where
  "after_ok x nsub k m \<longleftrightarrow> k = - 1 \<or> (\<exists>s. chain_ok x nsub k s \<and> seq_size s \<le> m)"

lemma after_ok_end [simp]: "after_ok x nsub (- 1) m"
  by (simp add: after_ok_def)

lemma after_ok_mono: "after_ok x nsub k m \<Longrightarrow> m \<le> m' \<Longrightarrow> after_ok x nsub k m'"
  by (auto simp: after_ok_def intro: order_trans)

text \<open>The place of a node: \<open>m\<close> bounds what follows it in its own chain and, after that, from the node
  \<open>k\<close> on that the caller says comes next.\<close>

definition place :: "rexctx \<Rightarrow> int \<Rightarrow> int \<Rightarrow> nat \<Rightarrow> int \<Rightarrow> bool" where
  "place x nsub n m k \<longleftrightarrow> next_is x n (- 1) \<and> after_ok x nsub k m \<or>
     (\<exists>g s l. g \<noteq> - 1 \<and> next_is x n g \<and> chain_ok x nsub g s \<and> seq_size s + l \<le> m \<and> (k = g \<or> after_ok x nsub k l))"

definition good :: "rexctx \<Rightarrow> int \<Rightarrow> matcher \<Rightarrow> nat \<Rightarrow> bool" where
  "good x nsub mm f \<longleftrightarrow> (\<forall>n a m k str st. atom_ok x nsub n a \<longrightarrow> place x nsub n m k \<longrightarrow> m + atom_size a \<le> f \<longrightarrow>
     str \<le> mc_eol x \<longrightarrow> st_ok nsub st \<longrightarrow> runs x st (sem_atom x a) str (mm n str k st))"

lemma goodD:
  "good x nsub mm f \<Longrightarrow> atom_ok x nsub n a \<Longrightarrow> place x nsub n m k \<Longrightarrow> m + atom_size a \<le> f \<Longrightarrow>
     str \<le> mc_eol x \<Longrightarrow> st_ok nsub st \<Longrightarrow> runs x st (sem_atom x a) str (mm n str k st)"
  unfolding good_def by blast

text \<open>Two runs after each other.\<close>

lemma runs_bind:
  assumes "runs x st R i res" "st_ok nsub st"
    and "\<And>j st1. i \<le> j \<Longrightarrow> j \<le> mc_eol x \<Longrightarrow> st_ok nsub st1 \<Longrightarrow> runs x st1 S j (f j st1)"
  shows "runs x st (R OO S) i (do { rs \<leftarrow> res; case fst rs of None \<Rightarrow> Some (None, snd rs) | Some j \<Rightarrow> f j (snd rs) })"
proof -
  from assms(1) obtain r st1 where r: "res = Some (r, st1)" "keeps_st st st1"
    "\<And>j. r = Some j \<Longrightarrow> i \<le> j \<and> j \<le> mc_eol x \<and> R i j" by (rule runsE) blast
  show ?thesis
  proof (cases r)
    case None
    with r show ?thesis by (intro runsI [of _ None st1]) simp_all
  next
    case (Some j)
    with assms(3) [of j st1] r st_ok_keeps [OF assms(2)] have "runs x st1 S j (f j st1)" by auto
    then obtain r2 st2 where r2: "f j st1 = Some (r2, st2)" "keeps_st st1 st2"
      "\<And>k. r2 = Some k \<Longrightarrow> j \<le> k \<and> k \<le> mc_eol x \<and> S j k" by (rule runsE) blast
    show ?thesis
    proof (rule runsI [of _ r2 st2])
      fix k assume "r2 = Some k"
      with r2(3) [of k] r(3) [OF Some] show "i \<le> k \<and> k \<le> mc_eol x \<and> (R OO S) i k" by auto
    qed (use r r2 Some keeps_st_trans in auto)
  qed
qed

lemma runs_stay: "j \<le> mc_eol x \<Longrightarrow> runs x st (=) j (Some (Some j, st))"
  by (auto simp: runs_def)

lemma runs_mono: "runs x st R i res \<Longrightarrow> (\<And>j. R i j \<Longrightarrow> S i j) \<Longrightarrow> runs x st S i res"
  unfolding runs_def by blast

lemma match_seq_runs:
  assumes "good x nsub mm f" "chain_ok x nsub n s" "after_ok x nsub next m" "m + seq_size s \<le> f"
    and "str \<le> mc_eol x" "st_ok nsub st"
  shows "runs x st (sem_seq x s) str (match_seq mm x n next str st)"
  using assms(2,4-6)
proof (induction s arbitrary: n str st rule: rx_seq.induct [of "\<lambda>_. True"])
  case (Last a)
  then have a: "atom_ok x nsub n a" "next_is x n (- 1)" by (simp_all add: chain_Last)
  obtain nd where nd: "ctx_node x n = Some nd" "rn_next nd = - 1" using next_is_ex [OF a(2)] by auto
  have "place x nsub n m next" using a(2) assms(3) by (simp add: place_def)
  from goodD [OF assms(1) a(1) this, of str st] Last.prems
  have "runs x st (sem_atom x a) str (mm n str next st)" by simp
  from runs_bind [OF this Last.prems(4) runs_stay] nd show ?case
    by (simp add: match_seq.simps [of mm x n] OO_eq cong: option.case_cong)
next
  case (Then a s)
  then obtain g where a: "atom_ok x nsub n a" "next_is x n g" "g \<noteq> - 1" "chain_ok x nsub g s"
    by (auto simp: chain_Then)
  obtain nd where nd: "ctx_node x n = Some nd" "rn_next nd = g" using next_is_ex [OF a(2)] by auto
  have "place x nsub n (seq_size s + m) g" using a(2-4) by (auto simp: place_def)
  from goodD [OF assms(1) a(1) this, of str st] Then.prems
  have "runs x st (sem_atom x a) str (mm n str g st)" by simp
  from runs_bind [OF this Then.prems(4) Then.IH(1) [OF a(4)]] Then.prems(2) nd a(3) show ?case
    by (simp add: match_seq.simps [of mm x n] cong: option.case_cong)
qed simp_all

lemma match_branch_runs:
  assumes "good x nsub mm f" "chain_ok x nsub n s" "seq_size s \<le> f" "str \<le> mc_eol x" "st_ok nsub st"
  shows "runs x st (sem_seq x s) str (match_branch mm x n str st)"
  using assms(2-)
proof (induction s arbitrary: n str st rule: rx_seq.induct [of "\<lambda>_. True"])
  case (Last a)
  then have a: "atom_ok x nsub n a" "next_is x n (- 1)" by (simp_all add: chain_Last)
  obtain nd where nd: "ctx_node x n = Some nd" "rn_next nd = - 1" using next_is_ex [OF a(2)] by auto
  have "place x nsub n 0 (- 1)" using a(2) by (simp add: place_def)
  from goodD [OF assms(1) a(1) this, of str st] Last.prems
  have "runs x st (sem_atom x a) str (mm n str (- 1) st)" by simp
  from runs_bind [OF this Last.prems(4) runs_stay] nd show ?case
    by (simp add: match_branch.simps [of mm x n] OO_eq cong: option.case_cong)
next
  case (Then a s)
  then obtain g where a: "atom_ok x nsub n a" "next_is x n g" "g \<noteq> - 1" "chain_ok x nsub g s"
    by (auto simp: chain_Then)
  obtain nd where nd: "ctx_node x n = Some nd" "rn_next nd = g" using next_is_ex [OF a(2)] by auto
  have "place x nsub n (seq_size s + 0) (- 1)" using a(2-4) unfolding place_def by (metis add.right_neutral after_ok_end order_refl)
  from goodD [OF assms(1) a(1) this, of str st] Then.prems
  have "runs x st (sem_atom x a) str (mm n str (- 1) st)" by simp
  from runs_bind [OF this Then.prems(4) Then.IH(1) [OF a(4)]] Then.prems(2) nd a(3) show ?case
    by (simp add: match_branch.simps [of mm x n] cong: option.case_cong)
qed simp_all

lemma match_or_runs:
  assumes "good x nsub mm f" "chain_ok x nsub (rn_left nd) s" "chain_ok x nsub (rn_right nd) t"
    and "seq_size s \<le> f" "seq_size t \<le> f" "str \<le> mc_eol x" "st_ok nsub st"
  shows "runs x st (\<lambda>i j. sem_seq x s i j \<or> sem_seq x t i j) str (match_or mm x nd str st)"
proof -
  from match_branch_runs [OF assms(1,2,4,6,7)] obtain r st1 where r: "match_branch mm x (rn_left nd) str st = Some (r, st1)"
    "keeps_st st st1" "\<And>j. r = Some j \<Longrightarrow> str \<le> j \<and> j \<le> mc_eol x \<and> sem_seq x s str j" by (rule runsE) blast
  from match_branch_runs [OF assms(1,3,5,6) st_ok_keeps [OF assms(7) r(2)]] obtain q st2 where
    q: "match_branch mm x (rn_right nd) str st1 = Some (q, st2)" "keeps_st st1 st2"
      "\<And>j. q = Some j \<Longrightarrow> str \<le> j \<and> j \<le> mc_eol x \<and> sem_seq x t str j" by (rule runsE) blast
  show ?thesis
  proof (cases r)
    case None
    with r q keeps_st_trans [OF r(2) q(2)] show ?thesis by (intro runsI [of _ q st2]) (auto simp: match_or_def)
  next
    case (Some j)
    with r show ?thesis by (intro runsI [of _ r st1]) (auto simp: match_or_def)
  qed
qed

text \<open>The chain at a stop node, and what is tried behind its head.\<close>

lemma chain_head:
  assumes "chain_ok x nsub n s"
  obtains nd a where "ctx_node x n = Some nd" "atom_ok x nsub n a" "next_is x n (rn_next nd)"
    "s = Last a \<and> rn_next nd = - 1 \<or> (\<exists>t. s = Then a t \<and> rn_next nd \<noteq> - 1 \<and> chain_ok x nsub (rn_next nd) t)"
proof (cases s)
  case (Last a)
  with assms have a: "atom_ok x nsub n a" "next_is x n (- 1)" by (simp_all add: chain_Last)
  from next_is_ex [OF a(2)] a Last that show ?thesis by auto
next
  case (Then a t)
  with assms obtain k where a: "atom_ok x nsub n a" "next_is x n k" "k \<noteq> - 1" "chain_ok x nsub k t"
    by (auto simp: chain_Then)
  from next_is_ex [OF a(2)] a Then that show ?thesis by auto
qed

lemma next_after:
  assumes "chain_ok x nsub k s" "seq_size s \<le> l"
  shows "\<exists>nd. ctx_node x k = Some nd \<and> after_ok x nsub (rn_next nd) l"
proof -
  from assms(1) obtain nd a where "ctx_node x k = Some nd"
    "s = Last a \<and> rn_next nd = - 1 \<or> (\<exists>t. s = Then a t \<and> rn_next nd \<noteq> - 1 \<and> chain_ok x nsub (rn_next nd) t)"
    by (rule chain_head)
  with assms(2) show ?thesis by (intro exI [of _ nd]) (auto simp: after_ok_def)
qed

definition stop_of :: "rexnode \<Rightarrow> int \<Rightarrow> int" where
  "stop_of node next = (if rn_next node \<noteq> - 1 then rn_next node else next)"

text \<open>The stop node of a repetition stands, with the node behind it, in a place that is small enough.\<close>

lemma stop_place:
  assumes "place x nsub n m k" "ctx_node x n = Some node" "stop_of node k \<noteq> - 1"
  shows "\<exists>gs a m' g. ctx_node x (stop_of node k) = Some gs \<and> atom_ok x nsub (stop_of node k) a \<and>
    stop_next x gs k = Some g \<and> place x nsub (stop_of node k) m' g \<and> m' + atom_size a \<le> m"
proof -
  consider (tail) s where "rn_next node = - 1" "chain_ok x nsub k s" "seq_size s \<le> m"
    | (mid) s l where "rn_next node \<noteq> - 1" "chain_ok x nsub (rn_next node) s" "seq_size s + l \<le> m"
        "k = rn_next node \<or> after_ok x nsub k l"
    using assms next_is_node [of x n _ node] unfolding place_def after_ok_def stop_of_def by metis
  then show ?thesis
  proof cases
    case tail
    obtain gs a where h: "ctx_node x k = Some gs" "atom_ok x nsub k a" "next_is x k (rn_next gs)"
      "s = Last a \<and> rn_next gs = - 1 \<or> (\<exists>t. s = Then a t \<and> rn_next gs \<noteq> - 1 \<and> chain_ok x nsub (rn_next gs) t)"
      using tail(2) by (rule chain_head)
    have "stop_next x gs k = Some (rn_next gs)" using h(1) by (simp add: stop_next_def)
    moreover have "\<exists>m'. place x nsub k m' (rn_next gs) \<and> m' + atom_size a \<le> m"
      using h(3,4) tail(3) unfolding place_def
      by (metis add.commute add.right_neutral after_ok_end le_refl seq_size.simps)
    ultimately show ?thesis using tail(1) h(1,2) by (auto simp: stop_of_def)
  next
    case mid
    let ?n = "rn_next node"
    obtain gs a where h: "ctx_node x ?n = Some gs" "atom_ok x nsub ?n a" "next_is x ?n (rn_next gs)"
      "s = Last a \<and> rn_next gs = - 1 \<or> (\<exists>t. s = Then a t \<and> rn_next gs \<noteq> - 1 \<and> chain_ok x nsub (rn_next gs) t)"
      using mid(2) by (rule chain_head)
    have "\<exists>g m'. stop_next x gs k = Some g \<and> place x nsub ?n m' g \<and> m' + atom_size a \<le> m"
    proof (cases "rn_next gs = - 1")
      case False
      with h(4) obtain t where "s = Then a t" "chain_ok x nsub (rn_next gs) t" by blast
      with False h(3) mid(3) have "place x nsub ?n (seq_size t + 0) (rn_next gs)"
        unfolding place_def by (metis order_refl)
      with False \<open>s = Then a t\<close> mid(3) show ?thesis
        by (intro exI [of _ "rn_next gs"] exI [of _ "seq_size t + 0"]) (simp add: stop_next_def)
    next
      case True
      with h(4) have "s = Last a" by blast
      have "\<exists>g. stop_next x gs k = Some g \<and> after_ok x nsub g l"
      proof (cases "k = ?n \<or> k = - 1")
        case True
        with h(1) \<open>rn_next gs = - 1\<close> mid(1) show ?thesis by (auto simp: stop_next_def)
      next
        case False
        with mid(4) obtain t where "chain_ok x nsub k t" "seq_size t \<le> l" by (auto simp: after_ok_def)
        from next_after [OF this] False \<open>rn_next gs = - 1\<close> show ?thesis by (auto simp: stop_next_def)
      qed
      then obtain g where "stop_next x gs k = Some g" "after_ok x nsub g l" by blast
      with True h(3) \<open>s = Last a\<close> mid(3) show ?thesis
        by (intro exI [of _ g] exI [of _ l]) (simp add: place_def)
    qed
    with mid(1) h(1,2) show ?thesis by (auto simp: stop_of_def)
  qed
qed

lemma place_after: "place x nsub n m k \<Longrightarrow> after_ok x nsub k m"
  unfolding place_def after_ok_def by (metis add_leD1 add_leD2 order_trans)

lemma stop_after:
  assumes "place x nsub n m k" "ctx_node x n = Some node"
  shows "after_ok x nsub (stop_of node k) m"
proof -
  from assms(1) consider (tail) "next_is x n (- 1)" "after_ok x nsub k m"
    | (mid) g s l where "g \<noteq> - 1" "next_is x n g" "chain_ok x nsub g s" "seq_size s + l \<le> m"
    unfolding place_def by blast
  then show ?thesis
  proof cases
    case tail
    with next_is_node [OF tail(1) assms(2)] show ?thesis by (simp add: stop_of_def)
  next
    case mid
    with next_is_node [OF mid(2) assms(2)] show ?thesis
      by (simp add: stop_of_def after_ok_def) (use mid(3,4) in \<open>force\<close>)
  qed
qed

lemma stop_matches_returns:
  assumes "good x nsub mm f" "place x nsub n m k" "ctx_node x n = Some node" "m \<le> f" "str \<le> mc_eol x" "st_ok nsub st"
  shows "\<exists>b st'. stop_matches mm x (stop_of node k) k str st = Some (b, st') \<and> keeps_st st st'"
proof (cases "stop_of node k = - 1")
  case True
  then show ?thesis by (auto simp: stop_matches_def)
next
  case False
  then obtain gs a m' g where h: "ctx_node x (stop_of node k) = Some gs" "atom_ok x nsub (stop_of node k) a"
    "stop_next x gs k = Some g" "place x nsub (stop_of node k) m' g" "m' + atom_size a \<le> m"
    using stop_place [OF assms(2,3)] by blast
  from goodD [OF assms(1) h(2,4) _ assms(5,6)] h(5) assms(4)
  have "runs x st (sem_atom x a) str (mm (stop_of node k) str g st)" by simp
  with False h(1,3) show ?thesis by (cases st) (auto simp: stop_matches_def runs_def)
qed

lemma greedy_loop_runs:
  assumes g: "good x nsub mm f" "atom_ok x nsub (rn_left node) a" "next_is x (rn_left node) (- 1)"
    and p: "place x nsub n m next" "ctx_node x n = Some node" "m + atom_size a \<le> f"
    and "start \<le> s" "s \<le> mc_eol x" "st_ok nsub st" "(sem_atom x a ^^ nm) start s"
  shows "\<exists>k e st'. greedy_loop mm x node next nm s s st = Some (k, e, st') \<and> keeps_st st st' \<and>
    start \<le> e \<and> e \<le> mc_eol x \<and> (sem_atom x a ^^ k) start e"
  using assms(7-)
proof (induction "0x10000 - nm" arbitrary: nm s st rule: less_induct)
  case less
  let ?stop = "stop_of node next" and ?P0 = "min_bound (rn_right node)" and ?P1 = "max_bound (rn_right node)"
  show ?case
  proof (cases "nm = 0xFFFF \<or> int nm < ?P1")
    case False
    with less.prems show ?thesis by (simp add: greedy_loop.simps [of mm x node "next" nm] Let_def)
  next
    case True
    then have lim0: "nm < 0x10000" by (auto simp: max_bound_def)
    have "place x nsub (rn_left node) m ?stop" using g(3) stop_after [OF p(1,2)] by (simp add: place_def)
    from goodD [OF g(1,2) this p(3) less.prems(2,3)] obtain r st1 where r: "mm (rn_left node) s ?stop st = Some (r, st1)"
      "keeps_st st st1" "\<And>j. r = Some j \<Longrightarrow> s \<le> j \<and> j \<le> mc_eol x \<and> sem_atom x a s j" by (rule runsE) blast
    have eq: "greedy_loop mm x node next nm s s st = (case r of
        None \<Rightarrow> Some (nm, s, st1)
      | Some s1 \<Rightarrow> do {
          (stop, st2) \<leftarrow> stop_matches mm x ?stop next s1 st1;
          if stop \<and> bounds_met ?P0 ?P1 (int (nm + 1)) \<or> s1 \<ge> mc_eol x then Some (nm + 1, s1, st2)
          else greedy_loop mm x node next (nm + 1) s1 s1 st2 })"
      using True r(1) by (simp add: greedy_loop.simps [of mm x node "next" nm s s st] Let_def stop_of_def [symmetric] cong: option.case_cong)
    show ?thesis
    proof (cases r)
      case None
      with eq r(2) less.prems show ?thesis by simp
    next
      case (Some j)
      with r(3) have j: "s \<le> j" "j \<le> mc_eol x" "sem_atom x a s j" by blast+
      have ok1: "st_ok nsub st1" using less.prems(3) r(2) by (rule st_ok_keeps)
      obtain b st2 where b: "stop_matches mm x ?stop next j st1 = Some (b, st2)" "keeps_st st1 st2"
        using stop_matches_returns [OF g(1) p(1,2) _ j(2) ok1] p(3) by auto
      have k2: "keeps_st st st2" using r(2) b(2) by (rule keeps_st_trans)
      have pow: "(sem_atom x a ^^ (nm + 1)) start j" using less.prems(4) j(3) by auto
      have le: "start \<le> j" using less.prems(1) j(1) by simp
      show ?thesis
      proof (cases "b \<and> bounds_met ?P0 ?P1 (int (nm + 1)) \<or> j \<ge> mc_eol x")
        case True
        then have "greedy_loop mm x node next nm s s st = Some (nm + 1, j, st2)" using eq Some b(1) by simp
        with k2 pow le j(2) show ?thesis by blast
      next
        case False
        then have "greedy_loop mm x node next nm s s st = greedy_loop mm x node next (nm + 1) j j st2"
          using eq Some b(1) by (auto simp del: One_nat_def)
        moreover have "0x10000 - (nm + 1) < 0x10000 - nm" using lim0 by simp
        ultimately show ?thesis
          using less.hyps [OF _ le j(2) st_ok_keeps [OF ok1 b(2)] pow] keeps_st_trans [OF k2] by fastforce
      qed
    qed
  qed
qed

lemma match_greedy_runs:
  assumes "good x nsub mm f" "atom_ok x nsub (rn_left node) a" "next_is x (rn_left node) (- 1)"
    and "place x nsub n m next" "ctx_node x n = Some node" "m + atom_size a \<le> f"
    and "str \<le> mc_eol x" "st_ok nsub st" "rn_right node = b"
  shows "runs x st (sem_atom x (Rep a b)) str (match_greedy mm x node str next st)"
proof -
  from greedy_loop_runs [OF assms(1-6) order_refl assms(7,8), of 0] obtain k e st' where
    k: "greedy_loop mm x node next 0 str str st = Some (k, e, st')" "keeps_st st st'"
      "str \<le> e" "e \<le> mc_eol x" "(sem_atom x a ^^ k) str e" by auto
  show ?thesis
  proof (rule runsI)
    show "match_greedy mm x node str next st =
        Some (if bounds_met (min_bound b) (max_bound b) (int k) then Some e else None, st')"
      using k(1) assms(9) by (simp add: match_greedy_def)
    fix j assume "(if bounds_met (min_bound b) (max_bound b) (int k) then Some e else None) = Some j"
    then have "j = e" "min_bound b \<le> int k \<and> (int k \<le> max_bound b \<or> max_bound b = 0xFFFF)"
      by (auto simp: bounds_met_def split: if_splits)
    with k show "str \<le> j \<and> j \<le> mc_eol x \<and> sem_atom x (Rep a b) str j" by auto
  qed (fact k(2))
qed

lemma match_expr_runs:
  assumes "good x nsub mm f" "chain_ok x nsub (rn_left node) s" "after_ok x nsub next m" "m + seq_size s \<le> f"
    and "str \<le> mc_eol x" "st_ok nsub st" "rn_type node \<noteq> OP_NOCAPEXPR \<longrightarrow> 0 \<le> rn_right node \<and> rn_right node < nsub"
  shows "runs x st (sem_seq x s) str (match_expr mm x node str next st)"
proof (cases "rn_type node \<noteq> OP_NOCAPEXPR \<and> rn_right node = snd st")
  case False
  from match_seq_runs [OF assms(1-6)] obtain r st1 where r: "match_seq mm x (rn_left node) next str st = Some (r, st1)"
    "keeps_st st st1" "\<And>j. r = Some j \<Longrightarrow> str \<le> j \<and> j \<le> mc_eol x \<and> sem_seq x s str j" by (rule runsE) blast
  from r(2) have "keeps_st st (fst st1, snd st)" by (simp add: keeps_st_def)
  with r False show ?thesis
    by (intro runsI [of _ r "if r = None then st1 else (fst st1, snd st)"]) (auto simp: match_expr_def)
next
  case True
  let ?c = "snd st"
  have c: "0 \<le> ?c" "nat ?c < length (fst st)" "int (length (fst st)) = nsub"
    using True assms(6,7) by (auto simp: st_ok_def)
  let ?ms = "(fst st)[nat ?c := \<lparr> rm_begin = Some str, rm_len = rm_len (fst st ! nat ?c) \<rparr>]"
  have set: "set_match ?c r ms = Some (ms[nat ?c := r])" if "length ms = length (fst st)" for r ms
    using c that by (simp add: set_match_def)
  have "st_ok nsub (?ms, ?c + 1)" using c by (simp add: st_ok_def)
  from match_seq_runs [OF assms(1-5) this] obtain r st1 where
    r: "match_seq mm x (rn_left node) next str (?ms, ?c + 1) = Some (r, st1)" "keeps_st (?ms, ?c + 1) st1"
      "\<And>j. r = Some j \<Longrightarrow> str \<le> j \<and> j \<le> mc_eol x \<and> sem_seq x s str j" by (rule runsE) blast
  have len: "length (fst st1) = length (fst st)" and le: "?c + 1 \<le> snd st1"
    and same: "\<And>i. int i < ?c + 1 \<Longrightarrow> fst st1 ! i = ?ms ! i"
    using r(2) by (auto simp: keeps_st_def)
  have beg: "rm_begin (fst st1 ! nat ?c) = Some str" using same [of "nat ?c"] c by simp
  have keep: "keeps_st st ((fst st1)[nat ?c := q], d)" if "?c \<le> d" for q d
    using that c len same by (auto simp: keeps_st_def)
  have eq: "match_expr mm x node str next st = (case r of
      None \<Rightarrow> Some (None, ((fst st1)[nat ?c := \<lparr> rm_begin = None, rm_len = 0 \<rparr>], snd st1))
    | Some cr \<Rightarrow> Some (Some cr, ((fst st1)[nat ?c := \<lparr> rm_begin = Some str, rm_len = int cr - int str \<rparr>], ?c + 1)))"
    using True r(1) beg len by (simp add: match_expr_def set Let_def split: option.split)
  show ?thesis
  proof (cases r)
    case None
    from keep [of "snd st1"] le eq None show ?thesis by (intro runsI [OF eq [unfolded None, simplified]]) auto
  next
    case (Some cr)
    from r(3) [OF Some] show ?thesis by (intro runsI [OF eq [unfolded Some, simplified]] keep) auto
  qed
qed

subsection \<open>Single characters, boundaries and balance\<close>

lemma text_char_here: "text_fits x \<Longrightarrow> str < mc_eol x \<Longrightarrow> text_char x str = Some (mc_text x ! str)"
  by (simp add: text_fits_def text_char_def)

lemma text_char_end: "text_fits x \<Longrightarrow> text_char x (mc_eol x) = Some 0"
  by (auto simp: text_fits_def text_char_def)

lemma text_char_some: "text_fits x \<Longrightarrow> str \<le> mc_eol x \<Longrightarrow> \<exists>c. text_char x str = Some c"
  by (cases "str = mc_eol x") (auto simp: text_char_here text_char_end)

lemma match_char_runs:
  assumes "text_fits x" "str \<le> mc_eol x" "\<And>c. test c = Some (P c)"
  shows "runs x st (one_char x P) str (match_char x str test st)"
  using assms by (cases st) (auto simp: runs_def match_char_def one_char_def text_char_here)

lemma at_boundary_some:
  assumes "text_fits x" "boundary_safe x" "str \<le> mc_eol x"
  shows "\<exists>b. at_boundary x str = Some b"
proof (cases "str = mc_eol x")
  case True
  with assms text_char_end [OF assms(1)] text_char_here [OF assms(1), of "str - 1"] show ?thesis
    by (cases "str = 0") (auto simp: at_boundary_def space_at_def boundary_safe_def text_fits_def scisspace_def in_range_def)
next
  case False
  with assms text_char_some [OF assms(1), of str] text_char_some [OF assms(1), of "Suc str"] show ?thesis
    by (auto simp: at_boundary_def space_at_def)
qed

lemma excess_snoc: "cb \<noteq> ce \<Longrightarrow> excess cb ce (ws @ [c]) = excess cb ce ws + (if c = cb then 1 else if c = ce then - 1 else 0)"
  by (auto simp: excess_def)

lemma take_drop_Suc: "i \<le> s \<Longrightarrow> s < length ws \<Longrightarrow> take (Suc s - i) (drop i ws) = take (s - i) (drop i ws) @ [ws ! s]"
  by (simp add: Suc_diff_le take_Suc_conv_app_nth)

text \<open>The loop has the excess of the segment so far in \<open>cont\<close>.\<close>

lemma balance_loop_runs:
  assumes "text_fits x" "cb \<noteq> ce" "i < str" "mc_text x ! i = cb" "str \<le> mc_eol x"
    and "excess cb ce (take (str - i) (drop i (mc_text x))) = int cont" "0 < cont"
    and "\<forall>k. 0 < k \<and> k \<le> str - i \<longrightarrow> excess cb ce (take k (drop i (mc_text x))) > 0"
  shows "\<exists>r. balance_loop x cb ce cont str = Some r \<and> (\<forall>j. r = Some j \<longrightarrow> balanced x cb ce i j)"
  using assms(3-)
proof (induction "mc_eol x - str" arbitrary: str cont)
  case 0
  then show ?case by (simp add: balance_loop.simps [of x cb ce cont str])
next
  case (Suc d)
  let ?w = "\<lambda>s. take (s - i) (drop i (mc_text x))" and ?c = "mc_text x ! str"
  have lt: "str < mc_eol x" using Suc.hyps(2) by simp
  have len: "str < length (mc_text x)" using lt assms(1) by (simp add: text_fits_def)
  have ex: "excess cb ce (?w (Suc str)) = int cont + (if ?c = cb then 1 else if ?c = ce then - 1 else 0)"
    using take_drop_Suc [of i str "mc_text x"] len Suc.prems(1,4) excess_snoc [OF assms(2), of "?w str" ?c] by simp
  have pos: "\<forall>k. 0 < k \<and> k \<le> Suc str - i \<longrightarrow> excess cb ce (take k (drop i (mc_text x))) > 0"
    if "excess cb ce (?w (Suc str)) > 0"
    using that Suc.prems(1,6) by (auto simp: le_Suc_eq Suc_diff_le)
  have step: "balance_loop x cb ce cont str =
      (if ?c = ce then (if cont = 1 then Some (Some (Suc str)) else balance_loop x cb ce (cont - 1) (Suc str))
       else balance_loop x cb ce (if ?c = cb then cont + 1 else cont) (Suc str))"
    using lt text_char_here [OF assms(1) lt] by (simp add: balance_loop.simps [of x cb ce cont str])
  show ?case
  proof (cases "?c = ce \<and> cont = 1")
    case True
    then have "excess cb ce (?w (Suc str)) = 0" using ex assms(2) by auto
    with Suc.prems lt have "balanced x cb ce i (Suc str)" by (auto simp: balanced_def Let_def Suc_diff_le min_def)
    with True show ?thesis using step by simp
  next
    case False
    let ?cont = "if ?c = ce then cont - 1 else if ?c = cb then cont + 1 else cont"
    have e: "excess cb ce (?w (Suc str)) = int ?cont" "0 < ?cont" using ex assms(2) False Suc.prems(5) by auto
    have "\<exists>r. balance_loop x cb ce ?cont (Suc str) = Some r \<and> (\<forall>j. r = Some j \<longrightarrow> balanced x cb ce i j)"
      using Suc.hyps(2) Suc.prems(1,2) lt e pos by (intro Suc.hyps(1)) auto
    with False show ?thesis using step by (auto split: if_splits)
  qed
qed

lemma match_leaf_runs:
  assumes "text_fits x" "t = OP_WB \<longrightarrow> boundary_safe x" "str \<le> mc_eol x" "is_leaf t l r"
    and "rn_type nd = t" "rn_left nd = l" "rn_right nd = r"
  shows "runs x st (leaf_sem x t l r) str (match_body mm x nd str next st)"
proof (cases t)
  case OP_DOT
  with assms show ?thesis
    by (intro runsI [of _ "if str = mc_eol x then None else Some (str + 1)" st])
      (auto simp: match_body_def leaf_sem_def one_char_def split: if_splits)
next
  case OP_CCLASS
  have "runs x st (one_char x (sqstd_rex_matchcclass l)) str (match_char x str (\<lambda>c. Some (sqstd_rex_matchcclass l c)) st)"
    by (rule match_char_runs [OF assms(1,3)]) simp
  with OP_CCLASS assms show ?thesis by (simp add: match_body_def leaf_sem_def [abs_def])
next
  case (OP_CHR k)
  have "runs x st (one_char x (\<lambda>c. c = k)) str (match_char x str (\<lambda>c. Some (c = k)) st)"
    by (rule match_char_runs [OF assms(1,3)]) simp
  with OP_CHR assms show ?thesis by (simp add: match_body_def leaf_sem_def [abs_def])
next
  case OP_EOL
  with assms show ?thesis
    by (intro runsI [of _ "if str = mc_eol x then Some str else None" st])
      (auto simp: match_body_def leaf_sem_def split: if_splits)
next
  case OP_BOL
  with assms show ?thesis
    by (intro runsI [of _ "if str = mc_bol x then Some str else None" st])
      (auto simp: match_body_def leaf_sem_def split: if_splits)
next
  case OP_WB
  with assms obtain b where "at_boundary x str = Some b" using at_boundary_some [OF assms(1) _ assms(3)] by auto
  with OP_WB assms show ?thesis
    by (intro runsI [of _ "if b = (l = 98) then Some str else None" st])
      (auto simp: match_body_def leaf_sem_def split: if_splits)
next
  case OP_MB
  let ?cb = "word_of_int l :: sqchar" and ?ce = "word_of_int r :: sqchar"
  have ne: "?cb \<noteq> ?ce" using OP_MB assms(4) by (simp add: is_leaf_def)
  obtain c where c: "text_char x str = Some c" using text_char_some [OF assms(1,3)] by blast
  have body: "match_body mm x nd str next st = (if sint c \<noteq> l then Some (None, st) else do {
      q \<leftarrow> balance_loop x ?cb ?ce 1 (str + 1); Some (q, st) })"
    using OP_MB assms c by (simp add: match_body_def)
  show ?thesis
  proof (cases "sint c = l \<and> str < mc_eol x")
    case True
    then have cb: "mc_text x ! str = ?cb" using c text_char_here [OF assms(1), of str] by auto
    have "str < length (mc_text x)" using True assms(1) by (simp add: text_fits_def)
    then have "take (Suc str - str) (drop str (mc_text x)) = [?cb]" using cb by (simp add: take_Suc_conv_app_nth)
    then have one: "\<And>k. 0 < k \<and> k \<le> Suc 0 \<Longrightarrow> excess ?cb ?ce (take k (drop str (mc_text x))) = 1"
      using ne by (auto simp: excess_def le_Suc_eq)
    have "\<exists>q. balance_loop x ?cb ?ce 1 (Suc str) = Some q \<and> (\<forall>j. q = Some j \<longrightarrow> balanced x ?cb ?ce str j)"
      by (rule balance_loop_runs) (use assms(1) ne cb True one in \<open>auto simp: less_Suc_eq_le\<close>)
    then obtain q where q: "balance_loop x ?cb ?ce 1 (Suc str) = Some q"
      "\<forall>j. q = Some j \<longrightarrow> balanced x ?cb ?ce str j" by blast
    have "match_body mm x nd str next st = Some (q, st)" using body q(1) True by simp
    then show ?thesis using q(2) OP_MB by (rule_tac runsI) (auto simp: leaf_sem_def balanced_def)
  next
    case False
    have "balance_loop x ?cb ?ce 1 (Suc str) = Some None" if "\<not> str < mc_eol x"
      using that by (simp add: balance_loop.simps)
    with False have "match_body mm x nd str next st = Some (None, st)" using body by auto
    then show ?thesis by (auto simp: runs_def)
  qed
qed (use assms in \<open>simp_all add: is_leaf_def\<close>)

subsection \<open>Soundness of the matcher\<close>

lemma match_class_runs:
  assumes "text_fits x" "str \<le> mc_eol x" "class_items (mc_nodes x) U (rn_left nd) items"
    and "rn_type nd = (if neg then OP_NCLASS else OP_CLASS)"
  shows "runs x st (sem_atom x (Class neg items)) str (match_body mm x nd str next st)"
proof (cases neg)
  case True
  have "runs x st (one_char x (\<lambda>c. \<not> (\<exists>it \<in> set items. item_matches c it))) str
      (match_char x str (\<lambda>c. map_option Not (sqstd_rex_matchclass x (rn_left nd) c)) st)"
    by (rule match_char_runs [OF assms(1,2)]) (simp add: matchclass_ok [OF assms(3)])
  with True assms(4) show ?thesis by (simp add: match_body_def)
next
  case False
  have "runs x st (one_char x (\<lambda>c. \<exists>it \<in> set items. item_matches c it)) str
      (match_char x str (sqstd_rex_matchclass x (rn_left nd)) st)"
    by (rule match_char_runs [OF assms(1,2)]) (simp add: matchclass_ok [OF assms(3)])
  with False assms(4) show ?thesis by (simp add: match_body_def)
qed

lemma ctx_node_iff: "has_node (mc_nodes x) n P \<longleftrightarrow> (\<exists>nd. ctx_node x n = Some nd \<and> P nd)"
  by (simp add: has_node_iff ctx_node_at)

lemmas repr_UNIV = repr_mono(1) [OF _ subset_UNIV] repr_mono(2) [OF _ subset_UNIV]

lemma atom_size_pos [simp]: "0 < atom_size a" "atom_size a \<noteq> 0"
  by (cases a; simp)+

lemma good_matcher:
  assumes fits: "text_fits x"
  shows "good x nsub (sqstd_rex_matchnode f x) f"
proof (induction f)
  case 0
  show ?case by (auto simp: good_def)
next
  case (Suc f)
  let ?mm = "sqstd_rex_matchnode f x"
  have "runs x st (sem_atom x a) str (sqstd_rex_matchnode (Suc f) x n str k st)"
    if a: "atom_ok x nsub n a" and p: "place x nsub n m k" and sz: "m + atom_size a \<le> Suc f"
      and str: "str \<le> mc_eol x" and st: "st_ok nsub st" for n a m k str st
  proof -
    obtain nd where nd: "ctx_node x n = Some nd"
      using a by (cases a) (auto simp: atom_ok_def ctx_node_iff)
    have "runs x st (sem_atom x a) str (match_body ?mm x nd str k st)"
    proof (cases a)
      case (Leaf t l r)
      with a nd have "is_leaf t l r" "rn_type nd = t" "rn_left nd = l" "rn_right nd = r" "t = OP_WB \<longrightarrow> boundary_safe x"
        by (auto simp: atom_ok_def ctx_node_iff)
      then show ?thesis unfolding Leaf sem_atom.simps by (intro match_leaf_runs [OF fits _ str])
    next
      case (Class neg items)
      with a nd have "class_items (mc_nodes x) (UNIV - {n}) (rn_left nd) items"
        "rn_type nd = (if neg then OP_NCLASS else OP_CLASS)"
        by (auto simp: atom_ok_def ctx_node_iff)
      then show ?thesis unfolding Class by (intro match_class_runs [OF fits str])
    next
      case (Paren cap c s)
      with a nd have ty: "rn_type nd = (if cap then OP_EXPR else OP_NOCAPEXPR)" "cap \<longrightarrow> rn_right nd = c \<and> 0 \<le> c \<and> c < nsub"
        and "repr_seq nsub (mc_nodes x) (UNIV - {n}) (rn_left nd) s" "seq_boundary s \<longrightarrow> boundary_safe x"
        by (auto simp: atom_ok_def ctx_node_iff)
      then have "chain_ok x nsub (rn_left nd) s" by (auto simp: chain_ok_def intro: repr_UNIV)
      from match_expr_runs [OF Suc.IH this place_after [OF p] _ str st] ty sz Paren
      show ?thesis by (auto simp: match_body_def split: if_splits)
    next
      case (Rep b bnd)
      with a nd have ty: "rn_type nd = OP_GREEDY" "rn_right nd = bnd" "next_is x (rn_left nd) (- 1)"
        and "repr_atom nsub (mc_nodes x) (UNIV - {n}) (rn_left nd) b" "atom_boundary b \<longrightarrow> boundary_safe x"
        by (auto simp: atom_ok_def ctx_node_iff next_is_def)
      then have "atom_ok x nsub (rn_left nd) b" by (auto simp: atom_ok_def intro: repr_UNIV)
      from match_greedy_runs [OF Suc.IH this ty(3) p nd _ str st ty(2)] ty(1) sz Rep
      show ?thesis by (simp add: match_body_def)
    next
      case (Or s t)
      with a nd have ty: "rn_type nd = OP_OR"
        and "repr_seq nsub (mc_nodes x) (UNIV - {n}) (rn_left nd) s" "repr_seq nsub (mc_nodes x) (UNIV - {n}) (rn_right nd) t"
          "seq_boundary s \<or> seq_boundary t \<longrightarrow> boundary_safe x"
        by (auto simp: atom_ok_def ctx_node_iff)
      then have "chain_ok x nsub (rn_left nd) s" "chain_ok x nsub (rn_right nd) t"
        by (auto simp: chain_ok_def intro: repr_UNIV)
      from match_or_runs [OF Suc.IH this _ _ str st] ty sz Or
      show ?thesis by (simp add: match_body_def)
    qed
    with nd show ?thesis by simp
  qed
  then show ?case unfolding good_def by blast
qed

end
