(* ===== verification/Sq_Rex_Parse.thy ===== *)
theory Sq_Rex_Parse
  imports Sq_Rex_Match
begin

text \<open>
  A parser from patterns to the syntax trees of \<^verbatim>\<open>Sq_Rex_Match\<close>, the reference for the compiler of
  regular expressions.  It reads the list of characters and builds no nodes; it returns on every pattern that
  does not break off in an escape.
\<close>

subsection \<open>A parser to trees\<close>

type_synonym 'a parser = "sqchar list \<Rightarrow> (string + 'a \<times> sqchar list) option"

definition p_ret :: "'a \<Rightarrow> 'a parser" where "p_ret v = (\<lambda>cs. Some (Inr (v, cs)))"
definition p_err :: "string \<Rightarrow> 'a parser" where "p_err msg = (\<lambda>cs. Some (Inl msg))"

definition p_bind :: "'a parser \<Rightarrow> ('a \<Rightarrow> 'b parser) \<Rightarrow> 'b parser" where
  "p_bind f g = (\<lambda>cs. case f cs of
     None \<Rightarrow> None | Some (Inl msg) \<Rightarrow> Some (Inl msg) | Some (Inr (v, ds)) \<Rightarrow> g v ds)"

definition p_cur :: "sqchar parser" where
  "p_cur = (\<lambda>cs. Some (Inr (case cs of [] \<Rightarrow> 0 | c # _ \<Rightarrow> c, cs)))"

definition p_skip :: "unit parser" where
  "p_skip = (\<lambda>cs. case cs of [] \<Rightarrow> None | _ # ds \<Rightarrow> Some (Inr ((), ds)))"

definition p_then :: "unit parser \<Rightarrow> 'b parser \<Rightarrow> 'b parser" where
  "p_then f g = p_bind f (\<lambda>_. g)"

definition p_take :: "sqchar parser" where
  "p_take = p_bind p_cur (\<lambda>c. p_then p_skip (p_ret c))"

definition p_expect :: "sqchar \<Rightarrow> unit parser" where
  "p_expect n = p_bind p_cur (\<lambda>c. if c \<noteq> n then p_err ''expected paren'' else p_skip)"

definition p_escapechar :: "sqchar parser" where
  "p_escapechar = p_bind p_cur (\<lambda>c.
     if c = 92 then p_then p_skip (p_bind p_take (\<lambda>d.
       p_ret (case control_letter d of Some t \<Rightarrow> t | None \<Rightarrow> d)))
     else if \<not> scisprint c then p_err ''letter expected''
     else p_take)"

definition p_charnode :: "bool \<Rightarrow> (rextype \<times> int \<times> int) parser" where
  "p_charnode isclass = p_bind p_cur (\<lambda>c.
     if c = 92 then p_then p_skip (p_bind p_cur (\<lambda>d.
       (case control_letter d of
          Some t \<Rightarrow> p_then p_skip (p_ret (OP_CHR t, - 1, - 1))
        | None \<Rightarrow>
            if is_class_letter d then p_then p_skip (p_ret (OP_CCLASS, sint d, - 1))
            else if d = chr8 CHR ''m'' then
              p_then p_skip (p_bind p_cur (\<lambda>cb. p_then p_skip (p_bind p_cur (\<lambda>ce.
                if cb = 0 \<or> ce = 0 then p_err ''balanced chars expected''
                else if cb = ce then p_err ''open/close char can't be the same''
                else p_then p_skip (p_ret (OP_MB, sint cb, sint ce))))))
            else if d = 0 then p_err ''letter expected for argument of escape sequence''
            else if (d = chr8 CHR ''b'' \<or> d = chr8 CHR ''B'') \<and> \<not> isclass then p_then p_skip (p_ret (OP_WB, sint d, - 1))
            else p_then p_skip (p_ret (OP_CHR d, - 1, - 1)))))
     else if \<not> scisprint c then p_err ''letter expected''
     else p_then p_skip (p_ret (OP_CHR c, - 1, - 1)))"

text \<open>The items of a class: those that are settled, and the last single one, which may start a range.\<close>

fun p_class_loop ::
  "nat \<Rightarrow> (rextype \<times> int \<times> int) list \<Rightarrow> (rextype \<times> int \<times> int) option \<Rightarrow> (rextype \<times> int \<times> int) list parser" where
  "p_class_loop 0 items pend = (\<lambda>cs. None)"
| "p_class_loop (Suc k) items pend = p_bind p_cur (\<lambda>c.
     if c = chr8 CHR '']'' then p_ret (items @ (case pend of None \<Rightarrow> [] | Some it \<Rightarrow> [it]))
     else (case pend of
       None \<Rightarrow> p_bind (p_charnode True) (\<lambda>it. p_class_loop k items (Some it))
     | Some it \<Rightarrow>
         if c = chr8 CHR ''-'' then p_then p_skip (p_bind p_cur (\<lambda>d.
           if type_code (fst it) > sint d then p_err ''invalid range''
           else if fst it = OP_CCLASS then p_err ''cannot use character classes in ranges''
           else p_bind p_escapechar (\<lambda>t. p_class_loop k (items @ [(OP_RANGE, type_code (fst it), sint t)]) None)))
         else p_bind (p_charnode True) (\<lambda>it2. p_class_loop k (items @ [it]) (Some it2))))"

definition p_class :: "nat \<Rightarrow> rx_atom parser" where
  "p_class fuel = p_bind p_cur (\<lambda>c.
     p_bind (if c = chr8 CHR ''^'' then p_then p_skip (p_ret True) else p_ret False) (\<lambda>neg.
     p_bind p_cur (\<lambda>d.
       if d = chr8 CHR '']'' then p_err ''empty class''
       else p_bind (p_class_loop fuel [] None) (\<lambda>items. p_ret (Class neg items)))))"

definition p_number :: "int parser" where
  "p_number = (\<lambda>cs.
     (let ds = takeWhile scisdigit cs in
      if length ds > 9 then Some (Inl ''overflow in numeric constant'')
      else Some (Inr (foldl (\<lambda>v d. v * 10 + (sint d - 48)) 0 ds, drop (length ds) cs))))"

definition p_upper :: "int parser" where
  "p_upper = p_bind p_cur (\<lambda>c. if scisdigit c then p_number else p_ret 0xFFFF)"

definition p_bounds :: "(int \<times> int) option parser" where
  "p_bounds = p_bind p_cur (\<lambda>c.
     if \<not> scisdigit c then p_err ''number expected''
     else p_bind p_number (\<lambda>n0. p_bind p_cur (\<lambda>d.
       if d = chr8 CHR ''}'' then p_then p_skip (p_ret (Some (ushort n0, ushort n0)))
       else if d = chr8 CHR '','' then p_then p_skip (p_bind p_upper (\<lambda>n1.
         p_then (p_expect (chr8 CHR ''}'')) (p_ret (Some (ushort n0, ushort n1)))))
       else p_err '', or } expected'')))"

definition p_greedy :: "(int \<times> int) option parser" where
  "p_greedy = p_bind p_cur (\<lambda>c.
     if c = chr8 CHR ''*'' then p_then p_skip (p_ret (Some (0, 0xFFFF)))
     else if c = chr8 CHR ''+'' then p_then p_skip (p_ret (Some (1, 0xFFFF)))
     else if c = chr8 CHR ''?'' then p_then p_skip (p_ret (Some (0, 1)))
     else if c = chr8 CHR ''{'' then p_then p_skip p_bounds
     else p_ret None)"

text \<open>\<open>n\<close> is the number of groups opened before; every capturing group counts one.\<close>

definition p_repeat :: "rx_atom \<Rightarrow> rx_atom parser" where
  "p_repeat a = p_bind p_greedy (\<lambda>g. p_ret (case g of None \<Rightarrow> a | Some (p0, p1) \<Rightarrow> Rep a (pack_bounds p0 p1)))"

definition p_atom :: "(int \<Rightarrow> (rx_seq \<times> int) parser) \<Rightarrow> nat \<Rightarrow> int \<Rightarrow> (rx_atom \<times> int) parser" where
  "p_atom list fuel n = p_bind p_cur (\<lambda>c.
     if c = chr8 CHR ''('' then p_then p_skip (p_bind p_cur (\<lambda>d.
       p_bind (if d = chr8 CHR ''?'' then p_then p_skip (p_then (p_expect (chr8 CHR '':'')) (p_ret False)) else p_ret True) (\<lambda>cap.
       p_bind (list (if cap then n + 1 else n)) (\<lambda>(s, n1).
         p_then (p_expect (chr8 CHR '')'')) (p_ret (Paren cap n s, n1))))))
     else if c = chr8 CHR ''['' then p_then p_skip (p_bind (p_class fuel) (\<lambda>a.
       p_then (p_expect (chr8 CHR '']'')) (p_ret (a, n))))
     else if c = chr8 CHR ''$'' then p_then p_skip (p_ret (Leaf OP_EOL (- 1) (- 1), n))
     else if c = chr8 CHR ''.'' then p_then p_skip (p_ret (Leaf OP_DOT (- 1) (- 1), n))
     else p_bind (p_charnode False) (\<lambda>(t, l, r). p_ret (Leaf t l r, n)))"

fun p_element :: "nat \<Rightarrow> nat \<Rightarrow> int \<Rightarrow> (rx_seq \<times> int) parser" and p_list :: "nat \<Rightarrow> nat \<Rightarrow> int \<Rightarrow> (rx_seq \<times> int) parser" where
  "p_element cf 0 n = (\<lambda>cs. None)"
| "p_element cf (Suc k) n = p_bind (p_atom (p_list cf k) cf n) (\<lambda>(a, n1). p_bind (p_repeat a) (\<lambda>b.
     p_bind p_cur (\<lambda>c.
       if ends_element c then p_ret (Last b, n1)
       else p_bind (p_element cf k n1) (\<lambda>(s, n2). p_ret (Then b s, n2)))))"
| "p_list cf 0 n = (\<lambda>cs. None)"
| "p_list cf (Suc k) n = p_bind p_cur (\<lambda>c.
     p_bind (if c = chr8 CHR ''^'' then p_then p_skip
               (p_bind (p_element cf k n) (\<lambda>(s, n1). p_ret (Then (Leaf OP_BOL (- 1) (- 1)) s, n1)))
             else p_element cf k n) (\<lambda>(s, n1).
     p_bind p_cur (\<lambda>d.
       if d = chr8 CHR ''|'' then p_then p_skip (p_bind (p_list cf k n1) (\<lambda>(t, n2). p_ret (Last (Or s t), n2)))
       else p_ret (s, n1))))"

definition rex_parse :: "sqchar list \<Rightarrow> (string + rx_seq) option" where
  "rex_parse pattern = (let cs = c_str pattern in
     case p_list (length cs + 2) (2 * length cs + 2) 1 cs of
       None \<Rightarrow> None
     | Some (Inl msg) \<Rightarrow> Some (Inl msg)
     | Some (Inr ((s, n), rest)) \<Rightarrow> if rest \<noteq> [] then Some (Inl ''unexpected character'') else Some (Inr s))"

declare p_element.simps [simp del] p_list.simps [simp del] sqstd_rex_element.simps [simp del] sqstd_rex_list.simps [simp del]

lemma charnode_leaf:
  assumes "p_charnode False cs = Some (Inr ((t, l, r), ds))"
  shows "is_leaf t l r"
  using assms
  by (auto simp: p_charnode_def p_bind_def p_cur_def p_then_def p_skip_def p_ret_def p_err_def is_leaf_def
    split: if_splits option.splits list.splits)

subsection \<open>The parser returns\<close>

text \<open>A pattern that ends in a backslash or in an opened \<^verbatim>\<open>\m\<close> makes the compiler read behind its end.\<close>

fun dangling_rev :: "sqchar list \<Rightarrow> bool" where
  "dangling_rev [] = False"
| "dangling_rev [c] = (c = 92)"
| "dangling_rev (c # d # cs) = (c = 92 \<or> c = 109 \<and> d = 92)"

definition dangling :: "sqchar list \<Rightarrow> bool" where
  "dangling cs = dangling_rev (rev cs)"

lemma dangling_append: "\<not> dangling (xs @ ys) \<Longrightarrow> \<not> dangling ys"
proof -
  have "dangling_rev a \<Longrightarrow> dangling_rev (a @ b)" for a b
    by (cases a rule: dangling_rev.cases; cases b) auto
  then show "\<not> dangling (xs @ ys) \<Longrightarrow> \<not> dangling ys" by (auto simp: dangling_def)
qed

lemma dangling_tl: "\<not> dangling (c # cs) \<Longrightarrow> \<not> dangling cs"
  using dangling_append [of "[c]" cs] by simp

text \<open>A parser returns on a text, having read at least \<open>n\<close> characters of it.\<close>

definition reads :: "nat \<Rightarrow> 'a parser \<Rightarrow> sqchar list \<Rightarrow> bool" where
  "reads n p cs \<longleftrightarrow> (\<exists>r. p cs = Some r \<and> (\<forall>v ds. r = Inr (v, ds) \<longrightarrow> (\<exists>as. cs = as @ ds \<and> n \<le> length as)))"

lemma reads_ret: "reads 0 (p_ret v) cs"
  by (simp add: reads_def p_ret_def)

lemma reads_err: "reads n (p_err msg) cs"
  by (simp add: reads_def p_err_def)

lemma reads_if: "(b \<Longrightarrow> reads n p cs) \<Longrightarrow> (\<not> b \<Longrightarrow> reads n q cs) \<Longrightarrow> reads n (if b then p else q) cs"
  by simp

lemma reads_weaken: "reads m p cs \<Longrightarrow> n \<le> m \<Longrightarrow> reads n p cs"
  unfolding reads_def by (meson order_trans)

lemma reads_bind:
  assumes "reads m p cs" "\<And>v ds as. cs = as @ ds \<Longrightarrow> m \<le> length as \<Longrightarrow> reads k (q v) ds" "n \<le> m + k"
  shows "reads n (p_bind p q) cs"
proof -
  from assms(1) obtain r where r: "p cs = Some r" "\<And>v ds. r = Inr (v, ds) \<Longrightarrow> \<exists>as. cs = as @ ds \<and> m \<le> length as"
    by (auto simp: reads_def)
  show ?thesis
  proof (cases r)
    case (Inl msg)
    with r(1) show ?thesis by (simp add: reads_def p_bind_def)
  next
    case (Inr w)
    obtain v ds where w: "w = (v, ds)" by fastforce
    with r(2) Inr obtain as where as: "cs = as @ ds" "m \<le> length as" by auto
    from assms(2) [OF as, of v] obtain r2 where r2: "q v ds = Some r2"
      "\<And>u es. r2 = Inr (u, es) \<Longrightarrow> \<exists>bs. ds = bs @ es \<and> k \<le> length bs" by (auto simp: reads_def)
    have "p_bind p q cs = Some r2" using r(1) Inr w r2(1) by (simp add: p_bind_def)
    moreover have "\<exists>bs. cs = bs @ es \<and> n \<le> length bs" if eq: "r2 = Inr (u, es)" for u es
    proof -
      obtain bs where "ds = bs @ es" "k \<le> length bs" using r2(2) [OF eq] by blast
      with as assms(3) show ?thesis by (intro exI [of _ "as @ bs"]) simp
    qed
    ultimately show ?thesis by (auto simp: reads_def)
  qed
qed

lemma reads_cur: "reads n (q (case cs of [] \<Rightarrow> 0 | c # _ \<Rightarrow> c)) cs \<Longrightarrow> reads n (p_bind p_cur q) cs"
  by (simp add: reads_def p_bind_def p_cur_def)

lemma reads_skip: "reads n q cs \<Longrightarrow> reads (Suc n) (p_then p_skip q) (c # cs)"
  by (fastforce simp: reads_def p_then_def p_bind_def p_skip_def intro: exI [of _ "c # as" for as])

lemma reads_skip0: "reads 0 q cs \<Longrightarrow> reads 0 (p_then p_skip q) (c # cs)"
  by (rule reads_weaken [OF reads_skip]) simp_all

lemma reads_then: "reads m p cs \<Longrightarrow> (\<And>ds as. cs = as @ ds \<Longrightarrow> m \<le> length as \<Longrightarrow> reads k q ds) \<Longrightarrow> n \<le> m + k \<Longrightarrow> reads n (p_then p q) cs"
  unfolding p_then_def by (rule reads_bind)

lemma reads_expect: "n \<noteq> 0 \<Longrightarrow> reads 0 (p_expect n) cs"
  unfolding p_expect_def by (rule reads_cur) (auto simp: reads_def p_err_def p_skip_def split: list.split)

lemma reads_take: "cs \<noteq> [] \<Longrightarrow> reads 1 p_take cs"
proof (cases cs)
  case (Cons c ds)
  then show ?thesis unfolding p_take_def using reads_skip [OF reads_ret, of c c ds] by (intro reads_cur) simp
qed simp

lemma scisprint_0: "\<not> scisprint 0" by (simp add: scisprint_def in_range_def)

lemma reads_escapechar: "\<not> dangling cs \<Longrightarrow> reads 1 p_escapechar cs"
  unfolding p_escapechar_def
proof (rule reads_cur, cases cs)
  case (Cons c ds)
  assume d: "\<not> dangling cs"
  have "c = 92 \<Longrightarrow> ds \<noteq> []" using d Cons by (auto simp: dangling_def)
  then have "c = 92 \<Longrightarrow> reads 0 (p_bind p_take (\<lambda>d. p_ret (case control_letter d of None \<Rightarrow> d | Some t \<Rightarrow> t))) ds"
    by (intro reads_bind [where k = 0, OF reads_take] reads_ret) simp_all
  with Cons show "reads 1 (if (case cs of [] \<Rightarrow> 0 | c # _ \<Rightarrow> c) = 92
      then p_then p_skip (p_bind p_take (\<lambda>d. p_ret (case control_letter d of None \<Rightarrow> d | Some t \<Rightarrow> t)))
      else if \<not> scisprint (case cs of [] \<Rightarrow> 0 | c # _ \<Rightarrow> c) then p_err ''letter expected'' else p_take) cs"
    using reads_skip [of 0] by (auto intro: reads_err reads_take [simplified])
qed (simp add: scisprint_0 reads_err)

lemma reads_charnode: "\<not> dangling cs \<Longrightarrow> reads 1 (p_charnode isclass) cs"
proof -
  assume nd: "\<not> dangling cs"
  have letters: "control_letter 0 = None" "\<not> is_class_letter 0" by (simp_all add: control_letter_def is_class_letter_def)
  have one: "reads 1 (p_then p_skip (p_ret v)) (c # ds)" for v :: "rextype \<times> int \<times> int" and c ds
    using reads_skip [OF reads_ret] by simp
  have balanced: "reads 0 (p_then p_skip (p_bind p_cur (\<lambda>cb. p_then p_skip (p_bind p_cur (\<lambda>ce.
      if cb = 0 \<or> ce = 0 then p_err ''balanced chars expected''
      else if cb = ce then p_err ''open/close char can't be the same''
      else p_then p_skip (p_ret (OP_MB, sint cb, sint ce))))))) (d # e # ds)" for d e ds
    by (intro reads_skip0 reads_cur) (auto intro: reads_err reads_weaken [OF one] split: list.split)
  show ?thesis
    unfolding p_charnode_def
  proof (rule reads_cur, cases cs)
    case (Cons c ds)
    show "reads 1 (if (case cs of [] \<Rightarrow> 0 | c # _ \<Rightarrow> c) = 92 then p_then p_skip (p_bind p_cur (\<lambda>d.
       (case control_letter d of
          Some t \<Rightarrow> p_then p_skip (p_ret (OP_CHR t, - 1, - 1))
        | None \<Rightarrow>
            if is_class_letter d then p_then p_skip (p_ret (OP_CCLASS, sint d, - 1))
            else if d = chr8 CHR ''m'' then
              p_then p_skip (p_bind p_cur (\<lambda>cb. p_then p_skip (p_bind p_cur (\<lambda>ce.
                if cb = 0 \<or> ce = 0 then p_err ''balanced chars expected''
                else if cb = ce then p_err ''open/close char can't be the same''
                else p_then p_skip (p_ret (OP_MB, sint cb, sint ce))))))
            else if d = 0 then p_err ''letter expected for argument of escape sequence''
            else if (d = chr8 CHR ''b'' \<or> d = chr8 CHR ''B'') \<and> \<not> isclass then p_then p_skip (p_ret (OP_WB, sint d, - 1))
            else p_then p_skip (p_ret (OP_CHR d, - 1, - 1)))))
       else if \<not> scisprint (case cs of [] \<Rightarrow> 0 | c # _ \<Rightarrow> c) then p_err ''letter expected''
       else p_then p_skip (p_ret (OP_CHR (case cs of [] \<Rightarrow> 0 | c # _ \<Rightarrow> c), - 1, - 1))) cs"
    proof (cases "c = 92")
      case False
      with Cons show ?thesis using one by (auto intro: reads_err)
    next
      case True
      show ?thesis
      proof (cases ds)
        case Nil
        with True Cons nd show ?thesis by (simp add: dangling_def)
      next
        case ds: (Cons d es)
        have "d = 109 \<Longrightarrow> es \<noteq> []" using nd Cons True ds by (auto simp: dangling_def)
        then have m: "d = 109 \<Longrightarrow> \<exists>e fs. es = e # fs" by (cases es) auto
        show ?thesis unfolding Cons True ds
          apply (simp only: list.case if_True refl One_nat_def)
          apply (rule reads_skip, rule reads_cur)
          using m letters balanced reads_weaken [OF one]
          apply (auto intro: reads_err split: option.split)
          done
      qed
    qed
  qed (simp add: scisprint_0 reads_err)
qed

lemma reads_class_loop:
  "length cs < k \<Longrightarrow> \<not> dangling cs \<Longrightarrow> reads 0 (p_class_loop k items pend) cs"
proof (induction k arbitrary: cs items pend)
  case (Suc k)
  have single: "reads 0 (p_bind (p_charnode True) (\<lambda>it. p_class_loop k its (f it))) cs" for its f
    using Suc.prems by (intro reads_bind [where k = 0, OF reads_charnode] Suc.IH) (auto dest: dangling_append)
  have range: "reads 0 (p_then p_skip (p_bind p_cur (\<lambda>d. if a > sint d then p_err m1 else if b then p_err m2
      else p_bind p_escapechar (\<lambda>t. p_class_loop k (its t) None)))) cs" if cs: "cs = c # ds" for a b its m1 m2 c ds
  proof -
    have "\<not> dangling ds" using Suc.prems(2) dangling_tl unfolding cs by blast
    then have "reads 0 (p_bind p_escapechar (\<lambda>t. p_class_loop k (its t) None)) ds"
      using Suc.prems(1) cs by (intro reads_bind [where k = 0, OF reads_escapechar] Suc.IH) (auto dest: dangling_append)
    then show ?thesis unfolding cs by (intro reads_skip0 reads_cur) (simp add: reads_err)
  qed
  show ?case unfolding p_class_loop.simps
    by (rule reads_cur, cases cs; cases pend) (use single range in \<open>auto intro: reads_ret\<close>)
qed simp

lemma reads_number: "reads 0 p_number cs"
  using takeWhile_eq_take [of scisdigit cs] append_take_drop_id [of "length (takeWhile scisdigit cs)" cs]
  by (auto simp: reads_def p_number_def Let_def intro!: exI [of _ "takeWhile scisdigit cs"])

lemma reads_greedy: "reads 0 p_greedy cs"
proof -
  have upper: "reads 0 p_upper cs" for cs
    unfolding p_upper_def by (rule reads_cur) (simp add: reads_number reads_ret)
  have tail: "reads 0 (p_bind p_upper (\<lambda>n1. p_then (p_expect (chr8 CHR ''}'')) (p_ret (g n1)))) cs" for cs and g :: "int \<Rightarrow> (int \<times> int) option"
    by (intro reads_bind [where k = 0, OF upper] reads_then [where k = 0, OF reads_expect] reads_ret) simp_all
  have close: "reads 0 (if d = chr8 CHR ''}'' then p_then p_skip (p_ret a)
       else if d = chr8 CHR '','' then p_then p_skip (p_bind p_upper (\<lambda>n1.
         p_then (p_expect (chr8 CHR ''}'')) (p_ret (g n1)))) else p_err m) cs"
    if "d = (case cs of [] \<Rightarrow> 0 | c # _ \<Rightarrow> c)" for cs d a m and g :: "int \<Rightarrow> (int \<times> int) option"
    using that by (cases cs) (auto intro: reads_skip0 reads_ret reads_err tail [simplified])
  have bounds: "reads 0 p_bounds cs" for cs
    unfolding p_bounds_def
    by (rule reads_cur, rule reads_if, rule reads_err, rule reads_bind [where k = 0, OF reads_number], rule reads_cur,
      rule close, rule refl, simp)
  show ?thesis
    unfolding p_greedy_def by (rule reads_cur, cases cs) (auto intro: reads_skip0 reads_ret bounds)
qed

lemma reads_repeat: "reads 0 (p_repeat a) cs"
  unfolding p_repeat_def by (intro reads_bind [where k = 0, OF reads_greedy] reads_ret) simp_all

lemma reads_atom:
  assumes "\<not> dangling cs" "length cs \<le> cf" "\<And>n ds. \<not> dangling ds \<Longrightarrow> length ds < length cs \<Longrightarrow> reads 0 (plist n) ds"
  shows "reads 1 (p_atom plist cf n) cs"
proof -
  have group: "reads 0 (p_bind p_cur (\<lambda>d.
       p_bind (if d = chr8 CHR ''?'' then p_then p_skip (p_then (p_expect (chr8 CHR '':'')) (p_ret False)) else p_ret True) (\<lambda>cap.
       p_bind (plist (if cap then n + 1 else n)) (\<lambda>(s, n1).
         p_then (p_expect (chr8 CHR '')'')) (p_ret (Paren cap n s, n1)))))) ds" if ds: "cs = c # ds" for c ds
  proof -
    have head: "reads 0 (if d = chr8 CHR ''?'' then p_then p_skip (p_then (p_expect (chr8 CHR '':'')) (p_ret False)) else p_ret True) ds"
      if "d = (case ds of [] \<Rightarrow> 0 | c # _ \<Rightarrow> c)" for d
      using that by (cases ds) (auto intro!: reads_skip0 reads_ret reads_then [where k = 0, OF reads_expect])
    have tail: "reads 0 (case q of (s, n1) \<Rightarrow> p_then (p_expect (chr8 CHR '')'')) (p_ret (Paren cap n s, n1))) es" for q cap es
      by (auto intro!: reads_ret reads_then [where k = 0, OF reads_expect] split: prod.split)
    have nd: "\<not> dangling ds" using assms(1) ds dangling_tl by blast
    have inner: "reads 0 (p_bind (plist (if cap then n + 1 else n)) (\<lambda>(s, n1).
         p_then (p_expect (chr8 CHR '')'')) (p_ret (Paren cap n s, n1)))) es" if es: "ds = as @ es" for cap as es
      by (rule reads_bind [where k = 0, OF assms(3)]) (use nd ds es tail in \<open>auto dest: dangling_append\<close>)
    show ?thesis
      by (rule reads_cur, rule reads_bind [where k = 0, OF head], rule refl, erule inner, simp)
  qed
  have cls: "reads 0 (p_bind (p_class cf) (\<lambda>a. p_then (p_expect (chr8 CHR '']'')) (p_ret (a, n)))) ds" if ds: "cs = c # ds" for c ds
  proof -
    have nd: "\<not> dangling ds" using assms(1) ds dangling_tl by blast
    have head: "reads 0 (if d = chr8 CHR ''^'' then p_then p_skip (p_ret True) else p_ret False) ds"
      if "d = (case ds of [] \<Rightarrow> 0 | c # _ \<Rightarrow> c)" for d
      using that by (cases ds) (auto intro!: reads_skip0 reads_ret)
    have body: "reads 0 (p_bind p_cur (\<lambda>d. if d = chr8 CHR '']'' then p_err ''empty class''
        else p_bind (p_class_loop cf [] None) (\<lambda>items. p_ret (Class neg items)))) es" if es: "ds = as @ es" for neg as es
      by (rule reads_cur) (use nd ds es assms(2) in \<open>auto intro!: reads_err reads_bind [where k = 0, OF reads_class_loop] reads_ret dest: dangling_append\<close>)
    have "reads 0 (p_class cf) ds"
      unfolding p_class_def by (rule reads_cur, rule reads_bind [where k = 0, OF head], rule refl, erule body, simp)
    then show ?thesis by (rule reads_bind [where k = 0]) (auto intro: reads_ret reads_then [where k = 0, OF reads_expect])
  qed
  have one: "reads (Suc 0) (p_then p_skip q) (c # ds)" if "reads 0 q ds" for c ds and q :: "(rx_atom \<times> int) parser"
    by (rule reads_skip [OF that])
  have char: "reads 1 (p_bind (p_charnode False) (\<lambda>(t, l, r). p_ret (Leaf t l r, n))) cs"
    by (rule reads_bind [where k = 0, OF reads_charnode [OF assms(1)]]) (auto intro: reads_ret split: prod.split)
  show ?thesis
    unfolding p_atom_def
  proof (rule reads_cur, cases cs)
    case Nil
    with char show "reads 1 (if (case cs of [] \<Rightarrow> 0 | c # _ \<Rightarrow> c) = chr8 CHR ''('' then p_then p_skip (p_bind p_cur (\<lambda>d.
       p_bind (if d = chr8 CHR ''?'' then p_then p_skip (p_then (p_expect (chr8 CHR '':'')) (p_ret False)) else p_ret True) (\<lambda>cap.
       p_bind (plist (if cap then n + 1 else n)) (\<lambda>(s, n1).
         p_then (p_expect (chr8 CHR '')'')) (p_ret (Paren cap n s, n1))))))
     else if (case cs of [] \<Rightarrow> 0 | c # _ \<Rightarrow> c) = chr8 CHR ''['' then p_then p_skip (p_bind (p_class cf) (\<lambda>a.
       p_then (p_expect (chr8 CHR '']'')) (p_ret (a, n))))
     else if (case cs of [] \<Rightarrow> 0 | c # _ \<Rightarrow> c) = chr8 CHR ''$'' then p_then p_skip (p_ret (Leaf OP_EOL (- 1) (- 1), n))
     else if (case cs of [] \<Rightarrow> 0 | c # _ \<Rightarrow> c) = chr8 CHR ''.'' then p_then p_skip (p_ret (Leaf OP_DOT (- 1) (- 1), n))
     else p_bind (p_charnode False) (\<lambda>(t, l, r). p_ret (Leaf t l r, n))) cs" by simp
  qed (use char group cls in \<open>auto intro: one reads_ret\<close>)
qed

lemma reads_element_list:
  shows "\<not> dangling cs \<Longrightarrow> length cs \<le> cf \<Longrightarrow> 2 * length cs + 1 \<le> k \<Longrightarrow> reads 1 (p_element cf k n) cs"
    and "\<not> dangling cs \<Longrightarrow> length cs \<le> cf \<Longrightarrow> 2 * length cs + 2 \<le> k \<Longrightarrow> reads 0 (p_list cf k n) cs"
proof (induction k arbitrary: cs n)
  case (Suc k)
  {
    case 1
    have list: "reads 0 (p_list cf k m) ds" if "\<not> dangling ds" "length ds < length cs" for m ds
      using Suc.IH(2) [OF that(1)] that(2) 1(2,3) by simp
    have elem: "reads 0 (p_element cf k m) es" if "cs = as @ es" "1 \<le> length as" for as es m
      using Suc.IH(1) [of es m] 1 that dangling_append [of as es] by (auto intro: reads_weaken)
    show ?case unfolding p_element.simps
    proof (rule reads_bind [where k = 0, OF reads_atom [OF 1(1,2) list]], assumption, assumption)
      fix v :: "rx_atom \<times> int" and as ds assume as: "cs = as @ ds" "1 \<le> length as"
      obtain a n1 where v: "v = (a, n1)" by fastforce
      show "reads 0 (case v of (a, n1) \<Rightarrow> p_bind (p_repeat a) (\<lambda>b. p_bind p_cur (\<lambda>c.
          if ends_element c then p_ret (Last b, n1) else p_bind (p_element cf k n1) (\<lambda>(s, n2). p_ret (Then b s, n2))))) ds"
        unfolding v prod.case
      proof (rule reads_bind [where k = 0, OF reads_repeat])
        fix b bs es assume bs: "ds = bs @ es"
        have "reads 0 (p_bind (p_element cf k n1) (\<lambda>(s, n2). p_ret (Then b s, n2))) es"
          using as bs by (intro reads_bind [where k = 0, OF elem [of "as @ bs"]]) (auto intro: reads_ret split: prod.split)
        then show "reads 0 (p_bind p_cur (\<lambda>c. if ends_element c then p_ret (Last b, n1)
            else p_bind (p_element cf k n1) (\<lambda>(s, n2). p_ret (Then b s, n2)))) es"
          by (intro reads_cur) (simp add: reads_ret)
      qed simp
    qed simp
  next
    case 2
    have elem: "reads 1 (p_element cf k m) es" if "cs = as @ es" for as es m
      using Suc.IH(1) [of es m] 2 that dangling_append [of as es] by auto
    have list: "reads 0 (p_list cf k m) es" if "cs = as @ es" "1 \<le> length as" for as es m
      using Suc.IH(2) [of es m] 2 that dangling_append [of as es] by auto
    have first: "reads 1 (if c = chr8 CHR ''^'' then p_then p_skip
        (p_bind (p_element cf k n) (\<lambda>(s, n1). p_ret (Then (Leaf OP_BOL (- 1) (- 1)) s, n1))) else p_element cf k n) cs"
      if "c = (case cs of [] \<Rightarrow> 0 | c # _ \<Rightarrow> c)" for c
    proof (cases "c = chr8 CHR ''^''")
      case True
      with that obtain ds where ds: "cs = c # ds" by (cases cs) auto
      have "reads 0 (p_bind (p_element cf k n) (\<lambda>(s, n1). p_ret (Then (Leaf OP_BOL (- 1) (- 1)) s, n1))) ds"
        using ds by (intro reads_bind [where k = 0, OF elem [of "[c]"]]) (auto intro: reads_ret split: prod.split)
      from reads_skip [OF this, of c] True ds show ?thesis by simp
    qed (use elem [of "[]"] in simp)
    show ?case unfolding p_list.simps
    proof (rule reads_cur, rule reads_bind [where k = 0, OF first], rule refl)
      fix v :: "rx_seq \<times> int" and as ds assume as: "cs = as @ ds" "1 \<le> length as"
      obtain s n1 where v: "v = (s, n1)" by fastforce
      have "reads 0 (p_then p_skip (p_bind (p_list cf k n1) (\<lambda>(t, n2). p_ret (Last (Or s t), n2)))) (d # es)"
        if "ds = d # es" for d es
        using as that by (intro reads_skip0 reads_bind [where k = 0, OF list [of "as @ [d]"]]) (auto intro: reads_ret split: prod.split)
      then show "reads 0 (case v of (s, n1) \<Rightarrow> p_bind p_cur (\<lambda>d. if d = chr8 CHR ''|''
          then p_then p_skip (p_bind (p_list cf k n1) (\<lambda>(t, n2). p_ret (Last (Or s t), n2))) else p_ret (s, n1))) ds"
        unfolding v prod.case by (intro reads_cur, cases ds) (auto intro: reads_ret)
    qed simp
  }
qed simp_all

lemma parse_returns: "\<not> dangling (c_str pattern) \<Longrightarrow> \<exists>r. rex_parse pattern = Some r"
proof -
  let ?cs = "c_str pattern"
  assume "\<not> dangling ?cs"
  then have "reads 0 (p_list (length ?cs + 2) (2 * length ?cs + 2) 1) ?cs"
    by (intro reads_element_list(2)) simp_all
  then obtain r where "p_list (length ?cs + 2) (2 * length ?cs + 2) 1 ?cs = Some r" by (auto simp: reads_def)
  then show ?thesis by (cases r) (auto simp: rex_parse_def Let_def split: prod.split)
qed

end
