(* ===== verification/Sq_Rex_Compile.thy ===== *)
theory Sq_Rex_Compile
  imports Sq_Rex_Parse
begin

text \<open>
  The compiler of regular expressions against the parser: \<open>sim\<close> relates a step of the one to a step of the
  other, with the same error or the same rest of the pattern and a relation between the results.  The
  result of an element is a chain of new nodes that stand for its tree.
\<close>

subsection \<open>The state of the compiler\<close>

definition rx_ok :: "rex \<Rightarrow> bool" where
  "rx_ok e \<longleftrightarrow> 0 < rx_nallocated e \<and> length (rx_nodes e) \<le> rx_nallocated e \<and> rx_p e \<le> length (rx_pat e) \<and>
     0 \<notin> set (rx_pat e) \<and> 0 \<le> rx_nsubexpr e"

definition rest :: "rex \<Rightarrow> sqchar list" where
  "rest e = drop (rx_p e) (rx_pat e)"

text \<open>A step of the compiler against one of the parser, from state \<open>e\<close>: the same error, or both go on and
  what they return is related.\<close>

definition sim :: "rex \<Rightarrow> 'a parser \<Rightarrow> 'b rexm \<Rightarrow> ('a \<Rightarrow> 'b \<Rightarrow> rex \<Rightarrow> bool) \<Rightarrow> bool" where
  "sim e f g P \<longleftrightarrow> (case f (rest e) of
     None \<Rightarrow> True
   | Some (Inl msg) \<Rightarrow> g e = Some (Inl msg)
   | Some (Inr (v, cs)) \<Rightarrow>
       \<exists>w e1. g e = Some (Inr (w, e1)) \<and> rx_ok e1 \<and> rx_pat e1 = rx_pat e \<and> rest e1 = cs \<and> P v w e1)"

lemma sim_cong: "sim e f g P \<Longrightarrow> h e = g e \<Longrightarrow> sim e f h P"
  by (simp only: sim_def)

lemma sim_ret: "rx_ok e \<Longrightarrow> P v w e \<Longrightarrow> sim e (p_ret v) (r_ret w) P"
  by (simp add: sim_def p_ret_def r_ret_def)

lemma sim_err: "sim e (p_err msg) (sqstd_rex_error msg) P"
  by (simp add: sim_def p_err_def sqstd_rex_error_def)

lemma sim_bind:
  assumes "sim e f g P"
    and "\<And>v w e1. rx_ok e1 \<Longrightarrow> rx_pat e1 = rx_pat e \<Longrightarrow> P v w e1 \<Longrightarrow> sim e1 (f2 v) (g2 w) Q"
  shows "sim e (p_bind f f2) (r_bind g g2) Q"
  using assms unfolding sim_def p_bind_def r_bind_def by (fastforce split: option.splits sum.splits)

lemma sim_then:
  assumes "sim e f g P" "\<And>e1. rx_ok e1 \<Longrightarrow> rx_pat e1 = rx_pat e \<Longrightarrow> P () () e1 \<Longrightarrow> sim e1 f2 g2 Q"
  shows "sim e (p_then f f2) (r_then g g2) Q"
  unfolding p_then_def r_then_def by (rule sim_bind [OF assms(1)]) (use assms(2) in simp)

lemma sim_if:
  "(b \<Longrightarrow> sim e f1 g1 Q) \<Longrightarrow> (\<not> b \<Longrightarrow> sim e f2 g2 Q) \<Longrightarrow> sim e (if b then f1 else f2) (if b then g1 else g2) Q"
  by simp

lemma sim_option:
  "(z = None \<Longrightarrow> sim e f1 g1 Q) \<Longrightarrow> (\<And>y. z = Some y \<Longrightarrow> sim e (f2 y) (g2 y) Q) \<Longrightarrow>
    sim e (case z of None \<Rightarrow> f1 | Some y \<Rightarrow> f2 y) (case z of None \<Rightarrow> g1 | Some y \<Rightarrow> g2 y) Q"
  by (cases z) simp_all

lemma sim_conseq: "sim e f g P \<Longrightarrow> (\<And>v w e1. P v w e1 \<Longrightarrow> Q v w e1) \<Longrightarrow> sim e f g Q"
  unfolding sim_def by (fastforce split: option.splits sum.splits)

text \<open>A step of the compiler alone, on the nodes.\<close>

lemma sim_left:
  assumes "g e = Some (Inr (w, e1))" "rest e1 = rest e" "rx_pat e1 = rx_pat e" "sim e1 f (g2 w) Q"
  shows "sim e f (r_bind g g2) Q"
  using assms unfolding sim_def r_bind_def by (auto split: option.splits sum.splits)

lemma cur_rest: "rx_ok e \<Longrightarrow> cur e = Some (Inr (case rest e of [] \<Rightarrow> 0 | c # _ \<Rightarrow> c, e))"
  by (auto simp: cur_def rest_def rx_ok_def Cons_nth_drop_Suc [symmetric] split: list.split)

lemma sim_cur_is:
  assumes "rx_ok e" "\<And>c. c = (case rest e of [] \<Rightarrow> 0 | d # _ \<Rightarrow> d) \<Longrightarrow> sim e (f2 c) (g2 c) Q"
  shows "sim e (p_bind p_cur f2) (r_bind cur g2) Q"
proof -
  let ?c = "case rest e of [] \<Rightarrow> 0 | c # _ \<Rightarrow> c"
  have "r_bind cur g2 e = g2 ?c e" using assms(1) by (simp add: r_bind_def cur_rest)
  moreover have "p_bind p_cur f2 (rest e) = f2 ?c (rest e)" by (simp add: p_bind_def p_cur_def)
  ultimately show ?thesis unfolding sim_def using assms(2) [of ?c, unfolded sim_def] by (simp only:)
qed

lemmas sim_cur = sim_cur_is [rule_format]

definition same :: "rex \<Rightarrow> rex \<Rightarrow> bool" where
  "same e e1 \<longleftrightarrow> rx_nodes e1 = rx_nodes e \<and> rx_nsubexpr e1 = rx_nsubexpr e"

lemma same_refl [simp]: "same e e" by (simp add: same_def)
lemma same_trans: "same e e1 \<Longrightarrow> same e1 e2 \<Longrightarrow> same e e2" by (simp add: same_def)

lemma sim_advance:
  assumes "rx_ok e"
  shows "sim e p_skip advance (\<lambda>v w e1. same e e1)"
proof (cases "rest e")
  case Nil
  then show ?thesis by (simp add: sim_def p_skip_def)
next
  case (Cons c cs)
  let ?e = "e\<lparr> rx_p := rx_p e + 1 \<rparr>"
  have "rx_p e < length (rx_pat e)" using Cons by (cases "rx_p e < length (rx_pat e)") (auto simp: rest_def)
  then have "rx_ok ?e" "rest ?e = cs" using assms Cons by (auto simp: rx_ok_def rest_def Cons_nth_drop_Suc [symmetric])
  with Cons show ?thesis by (simp add: sim_def p_skip_def advance_def same_def)
qed

lemma sim_skip:
  assumes "rx_ok e" "\<And>e1. rx_ok e1 \<Longrightarrow> rx_pat e1 = rx_pat e \<Longrightarrow> same e e1 \<Longrightarrow> sim e1 f2 g2 Q"
  shows "sim e (p_then p_skip f2) (r_then advance g2) Q"
  by (rule sim_then [OF sim_advance [OF assms(1)]]) (rule assms(2))

lemma sim_take: "rx_ok e \<Longrightarrow> sim e p_take take_cur (\<lambda>v w e1. v = w \<and> same e e1)"
  unfolding p_take_def take_cur_def by (intro sim_cur sim_skip sim_ret conjI) auto

lemma sim_expect: "rx_ok e \<Longrightarrow> sim e (p_expect n) (sqstd_rex_expect n) (\<lambda>v w e1. same e e1)"
  unfolding p_expect_def sqstd_rex_expect_def by (rule sim_cur) (simp_all add: sim_err sim_advance)

subsection \<open>Nodes\<close>

definition added :: "rextype \<Rightarrow> rex \<Rightarrow> rex" where
  "added t e = e\<lparr>
     rx_nodes := rx_nodes e @ [\<lparr> rn_type = t, rn_left = - 1, rn_right = (if t = OP_EXPR then rx_nsubexpr e else - 1), rn_next = - 1 \<rparr>],
     rx_nallocated := (if rx_nallocated e < length (rx_nodes e) + 1 then rx_nallocated e * 2 else rx_nallocated e),
     rx_nsubexpr := (if t = OP_EXPR then rx_nsubexpr e + 1 else rx_nsubexpr e) \<rparr>"

lemma added_simps [simp]:
  "rest (added t e) = rest e" "rx_pat (added t e) = rx_pat e"
  "rx_nodes (added t e) = rx_nodes e @ [\<lparr> rn_type = t, rn_left = - 1, rn_right = (if t = OP_EXPR then rx_nsubexpr e else - 1), rn_next = - 1 \<rparr>]"
  "rx_nsubexpr (added t e) = (if t = OP_EXPR then rx_nsubexpr e + 1 else rx_nsubexpr e)"
  "rx_ok e \<Longrightarrow> rx_ok (added t e)"
  by (auto simp: added_def rest_def rx_ok_def)

lemma newnode_added: "rx_ok e \<Longrightarrow> sqstd_rex_newnode t e = Some (Inr (int (length (rx_nodes e)), added t e))"
  by (auto simp: sqstd_rex_newnode_def added_def rx_ok_def Let_def)

lemma sim_newnode:
  assumes "rx_ok e" "rx_ok (added t e) \<Longrightarrow> sim (added t e) f (g2 (int (length (rx_nodes e)))) Q"
  shows "sim e f (r_bind (sqstd_rex_newnode t) g2) Q"
  by (rule sim_left [where g = "sqstd_rex_newnode t", OF newnode_added [OF assms(1)]]) (use assms in simp_all)

definition updated :: "int \<Rightarrow> (rexnode \<Rightarrow> rexnode) \<Rightarrow> rex \<Rightarrow> rex" where
  "updated i h e = e\<lparr> rx_nodes := (rx_nodes e)[nat i := h (rx_nodes e ! nat i)] \<rparr>"

lemma updated_simps [simp]:
  "rest (updated i h e) = rest e" "rx_pat (updated i h e) = rx_pat e"
  "rx_nodes (updated i h e) = (rx_nodes e)[nat i := h (rx_nodes e ! nat i)]"
  "rx_nsubexpr (updated i h e) = rx_nsubexpr e" "rx_ok (updated i h e) = rx_ok e"
  by (auto simp: updated_def rest_def rx_ok_def)

lemma sim_upd:
  assumes "rx_ok e" "0 \<le> i" "nat i < length (rx_nodes e)" "rx_ok (updated i h e) \<Longrightarrow> sim (updated i h e) f g2 Q"
  shows "sim e f (r_then (upd_node i h) g2) Q"
  unfolding r_then_def
  by (rule sim_left [where g = "upd_node i h" and w = "()" and ?e1.0 = "updated i h e"])
    (use assms in \<open>simp_all add: upd_node_def updated_def [symmetric]\<close>)

lemma sim_get_node:
  assumes "node_at (rx_nodes e) i = Some nd" "sim e f (g2 nd) Q"
  shows "sim e f (r_bind (get_node i) g2) Q"
  by (rule sim_left [where g = "get_node i" and w = nd and ?e1.0 = e])
    (use assms in \<open>auto simp: get_node_def node_at_def split: if_splits\<close>)

lemma node_at_snoc [simp]: "node_at (ns @ [n]) j = (if j = int (length ns) then Some n else node_at ns j)"
  by (auto simp: node_at_def nth_append)

lemma node_at_update: "node_at (ns[nat i := h (ns ! nat i)]) j =
    (if j = i then map_option h (node_at ns i) else node_at ns j)" if "0 \<le> i"
  using that by (auto simp: node_at_def nth_list_update eq_nat_nat_iff)

lemma node_at_bound: "node_at ns i = Some nd \<Longrightarrow> 0 \<le> i \<and> nat i < length ns"
  by (simp add: node_at_def split: if_splits)

subsection \<open>Characters and numbers\<close>

lemma sim_escapechar: "rx_ok e \<Longrightarrow> sim e p_escapechar sqstd_rex_escapechar (\<lambda>v w e1. v = w \<and> same e e1)"
proof -
  assume ok: "rx_ok e"
  have eq: "(if d = chr8 CHR ''v'' then 11 else if d = chr8 CHR ''n'' then 10 else if d = chr8 CHR ''t'' then 9
       else if d = chr8 CHR ''r'' then 13 else if d = chr8 CHR ''f'' then 12 else d) =
     (case control_letter d of Some t \<Rightarrow> t | None \<Rightarrow> d)" for d
    by (simp add: control_letter_def)
  show ?thesis
    unfolding p_escapechar_def sqstd_rex_escapechar_def eq
    by (rule sim_cur [OF ok])
      (auto intro!: sim_err sim_take ok sim_skip sim_bind [OF sim_take] sim_ret intro: same_trans)
qed

text \<open>A new node with the fields of an item.\<close>

definition item_node :: "rextype \<times> int \<times> int \<Rightarrow> rexnode" where
  "item_node it = \<lparr> rn_type = fst it, rn_left = fst (snd it), rn_right = snd (snd it), rn_next = - 1 \<rparr>"

definition item_post :: "rex \<Rightarrow> rextype \<times> int \<times> int \<Rightarrow> int \<Rightarrow> rex \<Rightarrow> bool" where
  "item_post e it w e1 \<longleftrightarrow> w = int (length (rx_nodes e)) \<and> rx_nodes e1 = rx_nodes e @ [item_node it] \<and>
     rx_nsubexpr e1 = rx_nsubexpr e"

lemma sim_new_leaf:
  assumes "rx_ok e1" "same e e1" "t \<noteq> OP_EXPR"
  shows "sim e1 (p_ret (t, - 1, - 1)) (sqstd_rex_newnode t) (item_post e)"
  using assms by (simp add: sim_def p_ret_def newnode_added item_post_def item_node_def same_def)

lemma sim_advance_err: "sim e (p_err msg) (r_then advance (sqstd_rex_error msg)) P"
  by (simp add: sim_def p_err_def r_then_def r_bind_def advance_def sqstd_rex_error_def)

lemma sim_charnode:
  assumes ok: "rx_ok e"
  shows "sim e (p_charnode isclass) (sqstd_rex_charnode isclass) (item_post e)"
proof -
  have cls: "sim e2 (p_ret (OP_CCLASS, sint d, - 1)) (sqstd_rex_charclass d) (item_post e)"
    if "rx_ok e2" "same e e2" for e2 d
    unfolding sqstd_rex_charclass_def set_left_def
    by (rule sim_newnode [OF that(1)], rule sim_upd)
      (use that in \<open>auto intro!: sim_ret simp: item_post_def item_node_def same_def\<close>)
  have wb: "sim e2 (p_then p_skip (p_ret (OP_WB, sint d, - 1)))
      (r_bind (sqstd_rex_newnode OP_WB) (\<lambda>node. r_then (set_left node (sint d)) (r_then advance (r_ret node)))) (item_post e)"
    if "rx_ok e2" "same e e2" for e2 d
    unfolding set_left_def
    by (rule sim_newnode [OF that(1)], rule sim_upd, assumption, simp, simp, rule sim_skip, assumption, rule sim_ret)
      (use that in \<open>auto simp: item_post_def item_node_def same_def\<close>)
  have mb: "sim e2 (p_ret (OP_MB, l, r))
      (r_bind (sqstd_rex_newnode OP_MB) (\<lambda>node. r_then (set_left node l) (r_then (set_right node r) (r_ret node)))) (item_post e)"
    if "rx_ok e2" "same e e2" for e2 l r
    unfolding set_left_def set_right_def
    by (rule sim_newnode [OF that(1)], rule sim_upd, assumption, simp, simp, rule sim_upd)
      (use that in \<open>auto intro!: sim_ret simp: item_post_def item_node_def same_def\<close>)
  show ?thesis
    unfolding p_charnode_def sqstd_rex_charnode_def if_distrib [of "r_then advance"]
    by (intro sim_cur sim_if sim_option sim_skip sim_err sim_advance_err sim_new_leaf cls mb wb;
      (assumption | rule ok | simp add: same_def))
qed

lemma scisdigit_0: "\<not> scisdigit 0"
  by (simp add: scisdigit_def in_range_def)

lemma number_loop_digits:
  "rx_ok e \<Longrightarrow> rest e = ds @ cs \<Longrightarrow> \<forall>d \<in> set ds. scisdigit d \<Longrightarrow> cs = [] \<or> \<not> scisdigit (hd cs) \<Longrightarrow>
    m \<le> 9 \<Longrightarrow> 10 \<le> k + m \<Longrightarrow> number_loop k ret (10 ^ m) e =
    Some (if length ds > 9 - m then Inl ''overflow in numeric constant''
      else Inr (foldl (\<lambda>v d. v * 10 + (sint d - 48)) ret ds, e\<lparr> rx_p := rx_p e + length ds \<rparr>))"
proof (induction ds arbitrary: e k m ret)
  case Nil
  then obtain k' where "k = Suc k'" by (cases k) auto
  have "cur e = Some (Inr (c, e)) \<Longrightarrow> \<not> scisdigit c" for c
    using Nil cur_rest [of e] scisdigit_0 by (cases cs) auto
  with Nil \<open>k = Suc k'\<close> show ?case using cur_rest [of e]
    by (auto simp: r_bind_def r_ret_def rest_def)
next
  case (Cons d ds)
  then obtain k' where k: "k = Suc k'" by (cases k) auto
  let ?e = "e\<lparr> rx_p := rx_p e + 1 \<rparr>"
  have lt: "rx_p e < length (rx_pat e)" using Cons.prems(2) by (cases "rx_p e < length (rx_pat e)") (auto simp: rest_def)
  have ok: "rx_ok ?e" "rest ?e = ds @ cs"
    using Cons.prems(1,2) lt by (auto simp: rx_ok_def rest_def Cons_nth_drop_Suc [symmetric])
  have step: "number_loop k ret (10 ^ m) e = (if m = 9 then Some (Inl ''overflow in numeric constant'')
      else number_loop k' (ret * 10 + (sint d - 48)) (10 ^ Suc m) ?e)"
  proof -
    have "(10 :: int) ^ m = 1000000000 \<longleftrightarrow> m = 9"
    proof -
      have "(10 :: int) ^ m = 10 ^ 9 \<longleftrightarrow> m = 9" by (subst power_inject_exp) simp_all
      then show ?thesis by simp
    qed
    with Cons.prems k show ?thesis
      by (simp add: r_bind_def r_then_def advance_def cur_rest sqstd_rex_error_def mult.commute)
  qed
  show ?case
  proof (cases "m = 9")
    case True
    with step show ?thesis by simp
  next
    case False
    with Cons.IH [OF ok, of "Suc m" k' "ret * 10 + (sint d - 48)"] Cons.prems k
    have "number_loop k' (ret * 10 + (sint d - 48)) (10 ^ Suc m) ?e = Some (if length ds > 9 - Suc m
        then Inl ''overflow in numeric constant''
        else Inr (foldl (\<lambda>v d. v * 10 + (sint d - 48)) (ret * 10 + (sint d - 48)) ds, e\<lparr> rx_p := rx_p e + length (d # ds) \<rparr>))"
      by simp
    with step False Cons.prems(5) show ?thesis by auto
  qed
qed

lemma sim_number:
  assumes "rx_ok e" "rest e = d # cs" "scisdigit d"
  shows "sim e p_number sqstd_rex_parsenumber (\<lambda>v w e1. v = w \<and> same e e1)"
proof -
  let ?ds = "takeWhile scisdigit cs" and ?rs = "dropWhile scisdigit cs" and ?e = "e\<lparr> rx_p := rx_p e + 1 \<rparr>"
  have lt: "rx_p e < length (rx_pat e)" using assms(2) by (cases "rx_p e < length (rx_pat e)") (auto simp: rest_def)
  have ok: "rx_ok ?e" "rest ?e = ?ds @ ?rs"
    using assms(1,2) lt by (auto simp: rx_ok_def rest_def Cons_nth_drop_Suc [symmetric])
  have hd: "?rs = [] \<or> \<not> scisdigit (hd ?rs)" using hd_dropWhile [of scisdigit cs] by auto
  have "sqstd_rex_parsenumber e = number_loop 10 (sint d - 48) (10 ^ 1) ?e"
    using assms by (simp add: sqstd_rex_parsenumber_def take_cur_def r_bind_def r_then_def r_ret_def cur_rest advance_def)
  also have "\<dots> = Some (if length ?ds > 9 - 1 then Inl ''overflow in numeric constant''
      else Inr (foldl (\<lambda>v d. v * 10 + (sint d - 48)) (sint d - 48) ?ds, ?e\<lparr> rx_p := rx_p ?e + length ?ds \<rparr>))"
    by (rule number_loop_digits [OF ok _ hd]) (auto dest: set_takeWhileD)
  finally have eq: "sqstd_rex_parsenumber e = Some (if length ?ds > 8 then Inl ''overflow in numeric constant''
      else Inr (foldl (\<lambda>v d. v * 10 + (sint d - 48)) (sint d - 48) ?ds, e\<lparr> rx_p := rx_p e + Suc (length ?ds) \<rparr>))"
    by simp
  have "length ?ds \<le> length cs" by (rule length_takeWhile_le)
  moreover have "length (rest e) = length (rx_pat e) - rx_p e" by (simp add: rest_def)
  ultimately have "rx_ok (e\<lparr> rx_p := rx_p e + Suc (length ?ds) \<rparr>)" using assms(1,2) by (auto simp: rx_ok_def)
  moreover have "rest (e\<lparr> rx_p := rx_p e + Suc (length ?ds) \<rparr>) = drop (length ?ds) cs"
  proof -
    have "drop (Suc (length ?ds) + rx_p e) (rx_pat e) = drop (Suc (length ?ds)) (d # cs)"
      using assms(2) by (metis drop_drop rest_def)
    then show ?thesis by (simp add: rest_def add.commute)
  qed
  ultimately show ?thesis using assms(2,3) eq by (simp add: sim_def p_number_def same_def Let_def)
qed

lemma sim_digit:
  assumes "rx_ok e" "c = (case rest e of [] \<Rightarrow> 0 | d # _ \<Rightarrow> d)" "scisdigit c"
  shows "sim e p_number sqstd_rex_parsenumber (\<lambda>v w e1. v = w \<and> same e e1)"
  using assms sim_number scisdigit_0 by (cases "rest e") auto

lemma sim_upper:
  assumes "rx_ok e"
  shows "sim e p_upper rex_upper (\<lambda>v w e1. v = w \<and> same e e1)"
  unfolding p_upper_def rex_upper_def
  by (rule sim_cur_is [OF assms], rule sim_if) (auto intro: sim_digit sim_ret assms)

lemma sim_rex_bounds:
  assumes ok: "rx_ok e"
  shows "sim e p_bounds rex_bounds (\<lambda>v w e1. v = w \<and> same e e1)"
proof -
  have upper: "sim e1 (p_bind p_upper (\<lambda>n1. p_then (p_expect (chr8 CHR ''}'')) (p_ret (Some (ushort n0, ushort n1)))))
      (r_bind rex_upper (\<lambda>n1. r_then (sqstd_rex_expect (chr8 CHR ''}'')) (r_ret (Some (ushort n0, ushort n1)))))
      (\<lambda>v w e1. v = w \<and> same e e1)" if "rx_ok e1" "same e e1" for e1 n0
    by (rule sim_bind [OF sim_upper [OF that(1)]], elim conjE, hypsubst, rule sim_then [OF sim_expect], assumption, rule sim_ret)
      (use that in \<open>auto simp: same_def\<close>)
  show ?thesis
    unfolding p_bounds_def rex_bounds_def
    by (rule sim_cur_is [OF ok], rule sim_if, rule sim_err, rule sim_bind [OF sim_digit [OF ok]], assumption, simp,
      elim conjE, hypsubst, rule sim_cur, assumption)
      (intro sim_if sim_skip sim_err sim_ret upper; (assumption | simp add: same_def))
qed

lemma sim_greedy:
  assumes ok: "rx_ok e"
  shows "sim e p_greedy rex_greedy (\<lambda>v w e1. v = w \<and> same e e1)"
  unfolding p_greedy_def rex_greedy_def
  by (rule sim_cur [OF ok]) (intro sim_if sim_skip sim_ret ok sim_conseq [OF sim_rex_bounds]; (assumption | simp add: same_def))

subsection \<open>Classes\<close>

text \<open>A chain of nodes behind a first one, with the items they hold.\<close>

definition node_item :: "rexnode \<Rightarrow> rextype \<times> int \<times> int" where
  "node_item nd = (rn_type nd, rn_left nd, rn_right nd)"

fun chained :: "rexnode list \<Rightarrow> int list \<Rightarrow> (rextype \<times> int \<times> int) list \<Rightarrow> bool" where
  "chained ns [i] [] = has_node ns i (\<lambda>nd. rn_next nd = - 1)"
| "chained ns (i # j # ids) (it # its) = (has_node ns i (\<lambda>nd. rn_next nd = j) \<and>
     has_node ns j (\<lambda>nd. node_item nd = it) \<and> chained ns (j # ids) its)"
| "chained ns _ _ = False"

lemma chained_cong:
  "(\<And>i. i \<in> set ids \<Longrightarrow> node_at ns' i = node_at ns i) \<Longrightarrow> chained ns' ids its = chained ns ids its"
  by (induction ns ids its rule: chained.induct) (simp_all add: has_node_def)

lemma chained_last: "chained ns ids its \<Longrightarrow> ids \<noteq> [] \<and> (\<exists>nd. node_at ns (last ids) = Some nd \<and> rn_next nd = - 1)"
  by (induction ns ids its rule: chained.induct) (auto simp: has_node_iff)

lemma chained_snoc:
  assumes "chained ns ids its" "distinct ids" "c \<notin> set ids"
    and "\<And>i. i \<in> set ids \<Longrightarrow> node_at ns' i = (if i = last ids then map_option (rn_next_update (\<lambda>_. c)) (node_at ns i) else node_at ns i)"
    and "has_node ns' c (\<lambda>nd. node_item nd = it \<and> rn_next nd = - 1)"
  shows "chained ns' (ids @ [c]) (its @ [it])"
  using assms
proof (induction ns ids its rule: chained.induct)
  case (2 ns i j ids it' its)
  then have "chained ns' ((j # ids) @ [c]) (its @ [it])" by (intro "2.IH") auto
  with 2 show ?case by (auto simp: has_node_iff node_item_def)
qed (auto simp: has_node_iff)

lemma chained_items:
  "chained ns (i # ids) its \<Longrightarrow> its \<noteq> [] \<Longrightarrow> set ids \<subseteq> U \<Longrightarrow> (\<forall>j \<in> set ids. j \<noteq> - 1) \<Longrightarrow>
    \<exists>nd. node_at ns i = Some nd \<and> class_items ns U (rn_next nd) its"
proof (induction its arbitrary: i ids)
  case (Cons it its)
  then obtain j js where ids: "ids = j # js" by (cases ids) auto
  with Cons.prems obtain nd nj where nd: "node_at ns i = Some nd" "rn_next nd = j"
    "node_at ns j = Some nj" "node_item nj = it" "chained ns (j # js) its" by (auto simp: has_node_iff)
  show ?case
  proof (cases "its = []")
    case True
    with nd(5) nd(3) have "rn_next nj = - 1" by (cases js) (auto simp: has_node_iff)
    with nd True ids Cons.prems show ?thesis by (auto simp: has_node_iff node_item_def)
  next
    case False
    with Cons.IH [OF nd(5)] Cons.prems ids nd(3) have "class_items ns U (rn_next nj) its" by auto
    moreover have "rn_next nj \<noteq> - 1" using nd(3,5) False Cons.prems(4) ids by (cases js; cases its) (auto simp: has_node_iff)
    ultimately show ?thesis using nd False ids Cons.prems by (auto simp: has_node_iff node_item_def)
  qed
qed simp

text \<open>What the compiler leaves alone, and the state of the class loop: the chain, and a single item that is
  not in it yet.\<close>

definition kept :: "int \<Rightarrow> rex \<Rightarrow> rex \<Rightarrow> bool" where
  "kept lo e e1 \<longleftrightarrow> length (rx_nodes e) \<le> length (rx_nodes e1) \<and> rx_nsubexpr e1 = rx_nsubexpr e \<and>
     (\<forall>i < lo. node_at (rx_nodes e1) i = node_at (rx_nodes e) i) \<and>
     (\<forall>i < int (length (rx_nodes e)). map_option rn_type (node_at (rx_nodes e1) i) = map_option rn_type (node_at (rx_nodes e) i))"

lemma kept_refl [simp]: "kept lo e e" by (simp add: kept_def)
lemma kept_trans: "kept lo e e1 \<Longrightarrow> kept lo e1 e2 \<Longrightarrow> kept lo e e2" by (auto simp: kept_def)
lemma kept_same: "same e e1 \<Longrightarrow> kept lo e e1" by (simp add: kept_def same_def)

definition class_inv ::
  "int \<Rightarrow> rexnode list \<Rightarrow> int list \<Rightarrow> (rextype \<times> int \<times> int) list \<Rightarrow> (rextype \<times> int \<times> int) option \<Rightarrow> int \<Rightarrow> bool" where
  "class_inv lo ns ids its pend first \<longleftrightarrow> 0 \<le> lo \<and> lo \<le> int (length ns) \<and> distinct ids \<and> set ids \<subseteq> {lo..<int (length ns)} \<and> chained ns ids its \<and>
     (case pend of None \<Rightarrow> first = - 1
      | Some it \<Rightarrow> lo \<le> first \<and> first \<notin> set ids \<and> node_at ns first = Some (item_node it))"

lemma node_item_node [simp]: "node_item (item_node it) = it" "rn_next (item_node it) = - 1" "rn_type (item_node it) = fst it"
  by (simp_all add: node_item_def item_node_def)

text \<open>A new single item, the old one joining the chain.\<close>

lemma class_inv_new:
  assumes "class_inv lo ns ids its None first"
  shows "class_inv lo (ns @ [item_node it]) ids its (Some it) (int (length ns))"
  using assms chained_cong [of ids "ns @ [item_node it]" ns its] by (fastforce simp: class_inv_def)

lemma class_inv_join:
  assumes "class_inv lo ns ids its (Some it) first"
  shows "class_inv lo (ns[nat (last ids) := rn_next_update (\<lambda>_. first) (ns ! nat (last ids))]) (ids @ [first]) (its @ [it]) None (- 1)"
proof -
  let ?ns = "ns[nat (last ids) := rn_next_update (\<lambda>_. first) (ns ! nat (last ids))]"
  from assms have c: "chained ns ids its" "distinct ids" "first \<notin> set ids" "node_at ns first = Some (item_node it)"
    "0 \<le> lo" "set ids \<subseteq> {lo..<int (length ns)}" "lo \<le> first" by (auto simp: class_inv_def)
  have l: "last ids \<in> set ids" using chained_last [OF c(1)] by simp
  then have nonneg: "0 \<le> last ids" using c(5,6) by auto
  have "chained ?ns (ids @ [first]) (its @ [it])"
    by (rule chained_snoc [OF c(1-3)]) (use c(3,4) l in \<open>auto simp: node_at_update [OF nonneg] has_node_iff\<close>)
  then show ?thesis using assms node_at_bound [OF c(4)] by (auto simp: class_inv_def)
qed

lemma class_inv_range:
  assumes "class_inv lo ns ids its (Some it) first"
  shows "class_inv lo ((ns @ [item_node r])[nat (last ids) := rn_next_update (\<lambda>_. int (length ns)) ((ns @ [item_node r]) ! nat (last ids))])
    (ids @ [int (length ns)]) (its @ [r]) None (- 1)"
proof -
  have "class_inv lo ns ids its None (- 1)" using assms by (auto simp: class_inv_def)
  from class_inv_join [OF class_inv_new [OF this]] show ?thesis .
qed

lemma kept_new: "item_post e it w e1 \<Longrightarrow> lo \<le> int (length (rx_nodes e)) \<Longrightarrow> kept lo e e1"
  by (auto simp: kept_def item_post_def)

lemma kept_updated:
  "0 \<le> i \<Longrightarrow> lo \<le> i \<Longrightarrow> (\<And>n. rn_type (h n) = rn_type n) \<Longrightarrow> kept lo e (updated i h e)"
  by (auto simp: kept_def node_at_update option.map_comp o_def cong: option.map_cong)

lemma sim_class_loop:
  assumes "rx_ok e" "class_inv lo (rx_nodes e) ids its pend first"
    and "its \<noteq> [] \<or> pend \<noteq> None \<or> (\<exists>c. c = (case rest e of [] \<Rightarrow> 0 | d # _ \<Rightarrow> d) \<and> c \<noteq> chr8 CHR '']'')"
  shows "sim e (p_class_loop k its pend) (class_loop k (last ids) first)
    (\<lambda>its' (chain', first') e1. \<exists>ids' its0 pend'. its' = its0 @ (case pend' of None \<Rightarrow> [] | Some it \<Rightarrow> [it]) \<and> its' \<noteq> [] \<and>
       class_inv lo (rx_nodes e1) ids' its0 pend' first' \<and> chain' = last ids' \<and> hd ids' = hd ids \<and> kept lo e e1)"
  using assms
proof (induction k arbitrary: e ids its pend first)
  case 0
  show ?case by (simp add: sim_def)
next
  case (Suc k)
  note inv = Suc.prems(2)
  have ids: "ids \<noteq> []" "last ids \<in> set ids" and lo: "lo \<le> int (length (rx_nodes e))"
    using inv chained_last [of "rx_nodes e" ids its] by (auto simp: class_inv_def)
  have "set ids \<subseteq> {lo..<int (length (rx_nodes e))}" "0 \<le> lo" using inv by (simp_all add: class_inv_def)
  from subsetD [OF this(1) ids(2)] this(2) have last: "0 \<le> last ids" "nat (last ids) < length (rx_nodes e)" "lo \<le> last ids" by auto
  let ?Q = "\<lambda>its' (chain', first') e1. \<exists>ids' its0 pend'. its' = its0 @ (case pend' of None \<Rightarrow> [] | Some it \<Rightarrow> [it]) \<and> its' \<noteq> [] \<and>
       class_inv lo (rx_nodes e1) ids' its0 pend' first' \<and> chain' = last ids' \<and> hd ids' = hd ids \<and> kept lo e e1"
  have ih: "sim e1 (p_class_loop k its1 pend1) (class_loop k (last ids1) first1) ?Q"
    if "rx_ok e1" "class_inv lo (rx_nodes e1) ids1 its1 pend1 first1" "its1 \<noteq> [] \<or> pend1 \<noteq> None"
      "hd ids1 = hd ids" "kept lo e e1" for e1 ids1 its1 pend1 first1
    by (rule sim_conseq [OF Suc.IH [OF that(1,2)]]) (use that(3-5) in \<open>auto intro: kept_trans\<close>)
  have single: "sim e1 (p_bind (p_charnode True) (\<lambda>it. p_class_loop k its1 (Some it)))
      (r_bind (sqstd_rex_charnode True) (\<lambda>f. class_loop k (last ids1) f)) ?Q"
    if "rx_ok e1" "class_inv lo (rx_nodes e1) ids1 its1 None (- 1)" "hd ids1 = hd ids" "kept lo e e1" for e1 ids1 its1
  proof (rule sim_bind [OF sim_charnode [OF that(1)]])
    fix it w e2 assume e2: "rx_ok e2" "item_post e1 it w e2"
    with that show "sim e2 (p_class_loop k its1 (Some it)) (class_loop k (last ids1) w) ?Q"
      using class_inv_new [OF that(2), of it] kept_new [OF e2(2), of lo]
      by (intro ih) (auto simp: item_post_def class_inv_def intro: kept_trans)
  qed
  show ?case
  proof (cases pend)
    case None
    then have first: "first = - 1" using inv by (simp add: class_inv_def)
    show ?thesis
      unfolding p_class_loop.simps class_loop.simps None first
      by (rule sim_cur_is [OF Suc.prems(1)])
        (use Suc.prems None first in \<open>auto intro!: sim_ret single exI [of _ ids] exI [of _ its] exI [of _ None]\<close>)
  next
    case (Some it)
    then have first: "first \<noteq> - 1" "lo \<le> first" "0 \<le> lo" "node_at (rx_nodes e) first = Some (item_node it)"
      using inv by (auto simp: class_inv_def)
    have range: "sim e (p_then p_skip (p_bind p_cur (\<lambda>d.
           if type_code (fst it) > sint d then p_err ''invalid range''
           else if fst it = OP_CCLASS then p_err ''cannot use character classes in ranges''
           else p_bind p_escapechar (\<lambda>t. p_class_loop k (its @ [(OP_RANGE, type_code (fst it), sint t)]) None))))
       (r_then advance (r_bind (sqstd_rex_newnode OP_RANGE) (\<lambda>r. r_bind (get_node first) (\<lambda>nf. r_bind cur (\<lambda>d.
         if type_code (rn_type nf) > sint d then sqstd_rex_error ''invalid range''
         else if rn_type nf = OP_CCLASS then sqstd_rex_error ''cannot use character classes in ranges''
         else r_then (set_left r (type_code (rn_type nf))) (r_bind sqstd_rex_escapechar (\<lambda>t.
           r_then (set_right r (sint t)) (r_then (set_next (last ids) r) (class_loop k r (- 1)))))))))) ?Q"
    proof (rule sim_skip [OF Suc.prems(1)], rule sim_newnode, assumption)
      fix e1 assume e1: "rx_ok e1" "same e e1" "rx_ok (added OP_RANGE e1)"
      let ?e = "added OP_RANGE e1" and ?r = "int (length (rx_nodes e1))"
      let ?l = "type_code (fst it)"
      have r: "?r = int (length (rx_nodes e))" "rx_nodes e1 = rx_nodes e" "rx_nsubexpr e1 = rx_nsubexpr e"
        using e1(2) by (simp_all add: same_def)
      have fst: "node_at (rx_nodes ?e) first = Some (item_node it)"
        using first node_at_bound [OF first(4)] r(2) by simp
      have go: "sim (updated ?r (rn_left_update (\<lambda>_. ?l)) ?e)
          (p_bind p_escapechar (\<lambda>t. p_class_loop k (its @ [(OP_RANGE, ?l, sint t)]) None))
          (r_bind sqstd_rex_escapechar (\<lambda>t. r_then (set_right ?r (sint t)) (r_then (set_next (last ids) ?r) (class_loop k ?r (- 1))))) ?Q"
      proof (rule sim_bind [OF sim_escapechar], use e1(3) in simp, elim conjE, hypsubst)
        fix t e2 assume e2: "rx_ok e2" "same (updated ?r (rn_left_update (\<lambda>_. ?l)) ?e) e2"
        have ns2: "rx_nodes e2 = rx_nodes e @ [item_node (OP_RANGE, ?l, - 1)]" "rx_nsubexpr e2 = rx_nsubexpr e"
          using e2(2) r by (simp_all add: same_def item_node_def)
        let ?e3 = "updated ?r (rn_right_update (\<lambda>_. sint t)) e2"
        let ?e4 = "updated (last ids) (rn_next_update (\<lambda>_. ?r)) ?e3"
        have ns3: "rx_nodes ?e3 = rx_nodes e @ [item_node (OP_RANGE, ?l, sint t)]"
          using ns2 r by (simp add: item_node_def)
        have inv4: "class_inv lo (rx_nodes ?e4) (ids @ [?r]) (its @ [(OP_RANGE, ?l, sint t)]) None (- 1)"
          unfolding updated_simps(3) [of "last ids"] ns3
          by (simp only: r(1)) (rule class_inv_range [OF inv [unfolded Some]])
        have "item_post e (OP_RANGE, ?l, sint t) ?r ?e3" using ns3 ns2(2) r(1) by (simp add: item_post_def)
        then have kept3: "kept lo e ?e3" using lo by (rule kept_new)
        have "kept lo ?e3 ?e4" using last by (intro kept_updated) simp_all
        with kept3 have kept4: "kept lo e ?e4" by (rule kept_trans)
        have "sim ?e4 (p_class_loop k (its @ [(OP_RANGE, ?l, sint t)]) None) (class_loop k ?r (- 1)) ?Q"
          using ih [OF _ inv4 _ _ kept4] e2(1) ids by simp
        moreover have "nat (last ids) < length (rx_nodes ?e3)" using ns3 last by simp
        ultimately show "sim e2 (p_class_loop k (its @ [(OP_RANGE, ?l, sint t)]) None)
            (r_then (set_right ?r (sint t)) (r_then (set_next (last ids) ?r) (class_loop k ?r (- 1)))) ?Q"
          unfolding set_right_def set_next_def
          using e2(1) ns2 r last by (intro sim_upd) simp_all
      qed
      show "sim ?e (p_bind p_cur (\<lambda>d.
           if type_code (fst it) > sint d then p_err ''invalid range''
           else if fst it = OP_CCLASS then p_err ''cannot use character classes in ranges''
           else p_bind p_escapechar (\<lambda>t. p_class_loop k (its @ [(OP_RANGE, type_code (fst it), sint t)]) None)))
         (r_bind (get_node first) (\<lambda>nf. r_bind cur (\<lambda>d.
           if type_code (rn_type nf) > sint d then sqstd_rex_error ''invalid range''
           else if rn_type nf = OP_CCLASS then sqstd_rex_error ''cannot use character classes in ranges''
           else r_then (set_left ?r (type_code (rn_type nf))) (r_bind sqstd_rex_escapechar (\<lambda>t.
             r_then (set_right ?r (sint t)) (r_then (set_next (last ids) ?r) (class_loop k ?r (- 1)))))))) ?Q"
        unfolding set_left_def
        by (rule sim_get_node [OF fst], rule sim_cur [OF e1(3)], unfold node_item_node(3), rule sim_if, rule sim_err,
          rule sim_if, rule sim_err, rule sim_upd [OF e1(3)], simp, simp, rule go)
    qed
    have join: "sim e (p_bind (p_charnode True) (\<lambda>it2. p_class_loop k (its @ [it]) (Some it2)))
       (r_then (set_next (last ids) first) (r_bind (sqstd_rex_charnode True) (\<lambda>f. class_loop k first f))) ?Q"
    proof -
      let ?e = "updated (last ids) (rn_next_update (\<lambda>_. first)) e"
      have "class_inv lo (rx_nodes ?e) (ids @ [first]) (its @ [it]) None (- 1)"
        using class_inv_join [OF inv [unfolded Some]] by simp
      moreover have "kept lo e ?e" using last by (intro kept_updated) auto
      ultimately have "sim ?e (p_bind (p_charnode True) (\<lambda>it2. p_class_loop k (its @ [it]) (Some it2)))
         (r_bind (sqstd_rex_charnode True) (\<lambda>f. class_loop k first f)) ?Q"
        using single [of ?e "ids @ [first]" "its @ [it]"] ids last Suc.prems(1) by simp
      with last Suc.prems(1) show ?thesis unfolding set_next_def by (rule_tac sim_upd) auto
    qed
    show ?thesis
      unfolding p_class_loop.simps class_loop.simps Some option.case
      apply (rule sim_cur_is [OF Suc.prems(1)])
      using range join first inv Some Suc.prems
      apply (auto intro!: sim_ret exI [of _ ids] exI [of _ its] exI [of _ "Some it"])
      done
  qed
qed

subsection \<open>Atoms\<close>

lemma repr_in: "repr_atom nsub ns U n a \<Longrightarrow> n \<in> U" "repr_seq nsub ns U n s \<Longrightarrow> n \<in> U"
proof -
  show at: "n \<in> U" if "repr_atom nsub ns U n a" for a using that by (cases a) simp_all
  show "n \<in> U" if "repr_seq nsub ns U n s" using that at by (cases s) auto
qed

lemma class_items_cong:
  "class_items ns U n its \<Longrightarrow> (\<And>i. i \<in> U \<Longrightarrow> node_at ns' i = node_at ns i) \<Longrightarrow> class_items ns' U n its"
  by (induction its arbitrary: n) (auto simp: has_node_iff)

text \<open>A tree depends on the nodes of its set only.\<close>

lemma repr_cong:
  "repr_atom nsub ns U n a \<Longrightarrow> (\<And>i. i \<in> U \<Longrightarrow> node_at ns' i = node_at ns i) \<Longrightarrow> nsub \<le> nsub' \<Longrightarrow> repr_atom nsub' ns' U n a"
  "repr_seq nsub ns U n s \<Longrightarrow> (\<And>i. i \<in> U \<Longrightarrow> node_at ns' i = node_at ns i) \<Longrightarrow> nsub \<le> nsub' \<Longrightarrow> repr_seq nsub' ns' U n s"
proof (induction a and s arbitrary: n U and n U)
  case (Class neg items)
  have "class_items ns' (U - {n}) m items" if "class_items ns (U - {n}) m items" for m
    using class_items_cong [OF that] Class.prems(2) by blast
  with Class.prems show ?case by (auto simp: has_node_iff)
next
  case (Rep a b)
  then show ?case using repr_in(1) [of nsub ns "U - {n}" _ a] by (fastforce simp: has_node_iff)
next
  case (Last a)
  then show ?case using repr_in(1) [of nsub ns U n a] by (auto simp: has_node_iff)
next
  case (Then a s)
  then show ?case using repr_in(1) [of nsub ns U n a] by (fastforce simp: has_node_iff)
qed (fastforce simp: has_node_iff)+

text \<open>Linking a node does not change what it stands for.\<close>

lemma repr_link:
  assumes "repr_atom nsub ns U n a" "\<And>i. i \<in> U \<Longrightarrow> i \<noteq> n \<Longrightarrow> node_at ns' i = node_at ns i"
    and "node_at ns' n = map_option (rn_next_update (\<lambda>_. k)) (node_at ns n)"
  shows "repr_atom nsub ns' U n a"
proof -
  have sub: "node_at ns' i = node_at ns i" if "i \<in> U - {n}" for i using assms(2) that by simp
  have cls: "class_items ns' (U - {n}) m items" if "class_items ns (U - {n}) m items" for m items
    using that sub by (rule class_items_cong)
  have at: "repr_atom nsub ns' (U - {n}) m b" if "repr_atom nsub ns (U - {n}) m b" for m b
    using that sub order_refl by (rule repr_cong(1))
  have sq: "repr_seq nsub ns' (U - {n}) m s" if "repr_seq nsub ns (U - {n}) m s" for m s
    using that sub order_refl by (rule repr_cong(2))
  show ?thesis
  proof (cases a)
    case (Rep b r)
    with assms obtain nd where "node_at ns n = Some nd" "n \<in> U" "rn_type nd = OP_GREEDY" "rn_right nd = r"
      "repr_atom nsub ns (U - {n}) (rn_left nd) b" "has_node ns (rn_left nd) (\<lambda>nl. rn_next nl = - 1)"
      by (auto simp: has_node_iff)
    moreover from this have "rn_left nd \<in> U - {n}" using repr_in(1) by blast
    ultimately show ?thesis using Rep assms(3) sub at by (auto simp: has_node_iff)
  qed (use assms(1,3) cls sq in \<open>auto simp: has_node_iff\<close>)
qed

definition grown :: "rex \<Rightarrow> rex \<Rightarrow> bool" where
  "grown e e1 \<longleftrightarrow> length (rx_nodes e) \<le> length (rx_nodes e1) \<and> rx_nsubexpr e \<le> rx_nsubexpr e1 \<and>
     (\<forall>i < int (length (rx_nodes e)). node_at (rx_nodes e1) i = node_at (rx_nodes e) i)"

definition fresh :: "rex \<Rightarrow> rex \<Rightarrow> int set" where
  "fresh e e1 = {int (length (rx_nodes e)) ..< int (length (rx_nodes e1))}"

lemma grown_trans: "grown e e1 \<Longrightarrow> grown e1 e2 \<Longrightarrow> grown e e2"
  by (auto simp: grown_def)

lemma grown_same: "same e e1 \<Longrightarrow> grown e e1"
  by (simp add: grown_def same_def)

definition atom_post :: "rex \<Rightarrow> rx_atom \<times> int \<Rightarrow> int \<Rightarrow> rex \<Rightarrow> bool" where
  "atom_post e v w e1 \<longleftrightarrow> (case v of (a, n) \<Rightarrow> n = rx_nsubexpr e1 \<and> grown e e1 \<and>
     repr_atom n (rx_nodes e1) (fresh e e1) w a \<and> has_node (rx_nodes e1) w (\<lambda>nd. rn_next nd = - 1) \<and>
     length (rx_nodes e) + atom_size a \<le> length (rx_nodes e1))"

definition seq_post :: "rex \<Rightarrow> rx_seq \<times> int \<Rightarrow> int \<Rightarrow> rex \<Rightarrow> bool" where
  "seq_post e v w e1 \<longleftrightarrow> (case v of (s, n) \<Rightarrow> n = rx_nsubexpr e1 \<and> grown e e1 \<and>
     repr_seq n (rx_nodes e1) (fresh e e1) w s \<and> length (rx_nodes e) + seq_size s \<le> length (rx_nodes e1))"

lemma sim_class:
  assumes ok: "rx_ok e" and cf: "cf = length (rx_pat e) + 2"
  shows "sim e (p_class cf) sqstd_rex_class (\<lambda>a w e1. atom_post e (a, rx_nsubexpr e) w e1 \<and> rx_nsubexpr e1 = rx_nsubexpr e)"
    (is "sim e _ _ ?Q")
proof -
  let ?lo = "int (length (rx_nodes e))"
  let ?ty = "\<lambda>neg. if neg then OP_NCLASS else OP_CLASS"
  let ?P = "\<lambda>neg w e1. w = ?lo \<and> rx_nodes e1 = rx_nodes e @ [item_node (?ty neg, - 1, - 1)] \<and> rx_nsubexpr e1 = rx_nsubexpr e"
  have head: "sim e (if b then p_then p_skip (p_ret True) else p_ret False)
      (if b then r_bind (sqstd_rex_newnode OP_NCLASS) (\<lambda>ret. r_then advance (r_ret ret)) else sqstd_rex_newnode OP_CLASS) ?P" for b
  proof (rule sim_if)
    show "sim e (p_then p_skip (p_ret True)) (r_bind (sqstd_rex_newnode OP_NCLASS) (\<lambda>ret. r_then advance (r_ret ret))) ?P"
      by (rule sim_newnode [OF ok], rule sim_skip, assumption, rule sim_ret) (auto simp: same_def item_node_def)
    show "sim e (p_ret False) (sqstd_rex_newnode OP_CLASS) ?P"
      using ok by (simp add: sim_def p_ret_def newnode_added item_node_def)
  qed
  text \<open>Closing the class.\<close>
  have close: "sim e1 (p_ret (Class neg items)) (r_bind (get_node ?lo) (\<lambda>n.
        r_then (set_left ?lo (rn_next n)) (r_then (set_next ?lo (- 1)) (r_ret ?lo)))) ?Q"
    if e1: "rx_ok e1" "rx_nsubexpr e1 = rx_nsubexpr e" "class_inv ?lo (rx_nodes e1) ids items None (- 1)" "hd ids = ?lo"
      "\<forall>i < ?lo. node_at (rx_nodes e1) i = node_at (rx_nodes e) i" "items \<noteq> []"
      "map_option rn_type (node_at (rx_nodes e1) ?lo) = Some (?ty neg)" for e1 ids items neg
  proof -
    have c: "chained (rx_nodes e1) ids items" "distinct ids" "set ids \<subseteq> {?lo..<int (length (rx_nodes e1))}"
      using e1(3) by (auto simp: class_inv_def)
    then obtain js where ids: "ids = ?lo # js" using chained_last [OF c(1)] e1(4) by (cases ids) auto
    obtain nd where nd: "node_at (rx_nodes e1) ?lo = Some nd" "class_items (rx_nodes e1) (set js) (rn_next nd) items"
      using chained_items [OF c(1) [unfolded ids] e1(6), of "set js"] c(3) ids by fastforce
    have lt: "nat ?lo < length (rx_nodes e1)" using node_at_bound [OF nd(1)] by simp
    let ?e2 = "updated ?lo (rn_left_update (\<lambda>_. rn_next nd)) e1"
    let ?e3 = "updated ?lo (rn_next_update (\<lambda>_. - 1)) ?e2"
    have at: "node_at (rx_nodes ?e3) i = (if i = ?lo then Some (nd\<lparr> rn_left := rn_next nd, rn_next := - 1 \<rparr>) else node_at (rx_nodes e1) i)" for i
      unfolding updated_simps(3) by (subst node_at_update, simp)+ (simp add: nd(1))
    have "class_items (rx_nodes ?e3) (set js) (rn_next nd) items"
      by (rule class_items_cong [OF nd(2)]) (use c(2) ids at in auto)
    then have "class_items (rx_nodes ?e3) (fresh e ?e3 - {?lo}) (rn_next nd) items"
      by (rule class_items_mono) (use c(2,3) ids in \<open>auto simp: fresh_def\<close>)
    moreover have "grown e ?e3" using e1(2,5) lt at by (auto simp: grown_def)
    moreover have "rn_type nd = ?ty neg" using e1(7) nd(1) by simp
    ultimately have "?Q (Class neg items) ?lo ?e3"
      using at [of ?lo] lt e1(2) by (simp add: atom_post_def has_node_iff fresh_def del: updated_simps(3)) simp
    then show ?thesis unfolding set_left_def set_next_def
      using e1(1) lt by (intro sim_get_node [OF nd(1)] sim_upd sim_ret) simp_all
  qed
  show ?thesis
    unfolding p_class_def sqstd_rex_class_def
  proof (rule sim_cur [OF ok], rule sim_bind [OF head], elim conjE, hypsubst)
    fix c neg e1 assume e1: "rx_ok e1" "rx_pat e1 = rx_pat e" "rx_nsubexpr e1 = rx_nsubexpr e"
      "rx_nodes e1 = rx_nodes e @ [item_node (?ty neg, - 1, - 1)]"
    show "sim e1 (p_bind p_cur (\<lambda>d. if d = chr8 CHR '']'' then p_err ''empty class''
          else p_bind (p_class_loop cf [] None) (\<lambda>items. p_ret (Class neg items))))
        (r_bind cur (\<lambda>d. if d = chr8 CHR '']'' then sqstd_rex_error ''empty class''
           else r_bind (\<lambda>e. class_loop (length (rx_pat e) + 2) ?lo (- 1) e) (\<lambda>(chain, first).
             r_then (if first \<noteq> - 1 then set_next chain first else r_ret ())
               (r_bind (get_node ?lo) (\<lambda>n. r_then (set_left ?lo (rn_next n)) (r_then (set_next ?lo (- 1)) (r_ret ?lo))))))) ?Q"
    proof (rule sim_cur_is [OF e1(1)], rule sim_if, rule sim_err)
      fix d assume d: "d = (case rest e1 of [] \<Rightarrow> 0 | d # _ \<Rightarrow> d)" "d \<noteq> chr8 CHR '']''"
      have inv: "class_inv ?lo (rx_nodes e1) [?lo] [] None (- 1)" using e1(4) by (simp add: class_inv_def has_node_iff)
      have loop: "sim e1 (p_class_loop cf [] None) (\<lambda>e. class_loop (length (rx_pat e) + 2) ?lo (- 1) e)
          (\<lambda>its' (chain', first') e2. \<exists>ids' its0 pend'. its' = its0 @ (case pend' of None \<Rightarrow> [] | Some it \<Rightarrow> [it]) \<and> its' \<noteq> [] \<and>
            class_inv ?lo (rx_nodes e2) ids' its0 pend' first' \<and> chain' = last ids' \<and> hd ids' = ?lo \<and> kept ?lo e1 e2)"
        unfolding cf by (rule sim_cong, rule sim_class_loop [OF e1(1) inv, unfolded last.simps list.sel, simplified]) (use d e1(2) in auto)
      show "sim e1 (p_bind (p_class_loop cf [] None) (\<lambda>items. p_ret (Class neg items)))
          (r_bind (\<lambda>e. class_loop (length (rx_pat e) + 2) ?lo (- 1) e) (\<lambda>(chain, first).
             r_then (if first \<noteq> - 1 then set_next chain first else r_ret ())
               (r_bind (get_node ?lo) (\<lambda>n. r_then (set_left ?lo (rn_next n)) (r_then (set_next ?lo (- 1)) (r_ret ?lo)))))) ?Q"
      proof (rule sim_bind [OF loop])
        fix v w e2
        assume e2: "rx_ok e2" and post: "(case w of (chain', first') \<Rightarrow> \<lambda>e2. \<exists>ids' its0 pend'.
            v = its0 @ (case pend' of None \<Rightarrow> [] | Some it \<Rightarrow> [it]) \<and> v \<noteq> [] \<and>
            class_inv ?lo (rx_nodes e2) ids' its0 pend' first' \<and> chain' = last ids' \<and> hd ids' = ?lo \<and> kept ?lo e1 e2) e2"
        obtain chain first where w: "w = (chain, first)" by fastforce
        from post obtain ids its pend where chain: "chain = last ids"
          and v: "v = its @ (case pend of None \<Rightarrow> [] | Some it \<Rightarrow> [it])" "v \<noteq> []"
          and i: "class_inv ?lo (rx_nodes e2) ids its pend first" "hd ids = ?lo" "kept ?lo e1 e2"
          unfolding w by auto
        have k: "rx_nsubexpr e2 = rx_nsubexpr e" "\<forall>i < ?lo. node_at (rx_nodes e2) i = node_at (rx_nodes e) i"
          "map_option rn_type (node_at (rx_nodes e2) ?lo) = Some (?ty neg)"
          using i(3) e1(3,4) by (simp_all add: kept_def)
        show "sim e2 (p_ret (Class neg v)) (case w of (chain, first) \<Rightarrow>
            r_then (if first \<noteq> - 1 then set_next chain first else r_ret ())
               (r_bind (get_node ?lo) (\<lambda>n. r_then (set_left ?lo (rn_next n)) (r_then (set_next ?lo (- 1)) (r_ret ?lo))))) ?Q"
        proof (cases pend)
          case None
          then have f: "first = - 1" using i(1) by (simp add: class_inv_def)
          have skip: "r_then (r_ret ()) g = g" for g :: "int rexm"
            by (simp add: fun_eq_iff r_then_def r_bind_def r_ret_def)
          show ?thesis using close [OF e2 k(1) i(1) [unfolded None f] i(2) k(2) _ k(3)] v None
            by (simp add: skip w f)
        next
          case (Some it)
          let ?e = "updated (last ids) (rn_next_update (\<lambda>_. first)) e2"
          have "last ids \<in> set ids" "set ids \<subseteq> {?lo..<int (length (rx_nodes e2))}" "first \<noteq> - 1"
            using i(1) Some chained_last [of "rx_nodes e2" ids its] by (auto simp: class_inv_def)
          then have l: "?lo \<le> last ids" "nat (last ids) < length (rx_nodes e2)" "first \<noteq> - 1" "0 \<le> last ids" by force+
          have kept: "kept ?lo e2 ?e" using l by (intro kept_updated) simp_all
          have "ids \<noteq> []" using i(1) chained_last by (auto simp: class_inv_def)
          then have hd: "hd (ids @ [first]) = ?lo" using i(2) by simp
          have "node_at (rx_nodes e2) ?lo \<noteq> None" using k(3) by auto
          then have lt: "?lo < int (length (rx_nodes e2))" using node_at_bound by fastforce
          have "sim ?e (p_ret (Class neg (its @ [it]))) (r_bind (get_node ?lo) (\<lambda>n.
              r_then (set_left ?lo (rn_next n)) (r_then (set_next ?lo (- 1)) (r_ret ?lo)))) ?Q"
            by (rule close [OF _ _ _ hd]) (use e2 k kept lt class_inv_join [OF i(1) [unfolded Some]] in \<open>simp_all add: kept_def\<close>)
          then show ?thesis using l e2 Some v(1) unfolding set_next_def w chain by (simp, intro sim_upd) simp_all
        qed
      qed
    qed
  qed
qed

lemma sim_val:
  "sim e f g P \<Longrightarrow> (\<And>v cs. f (rest e) = Some (Inr (v, cs)) \<Longrightarrow> R v) \<Longrightarrow> sim e f g (\<lambda>v w e1. P v w e1 \<and> R v)"
  unfolding sim_def by (fastforce split: option.splits sum.splits)

lemma sim_map:
  "sim e f g P \<Longrightarrow> (\<And>v w e1. P v w e1 \<Longrightarrow> Q (h v) w e1) \<Longrightarrow> sim e (p_bind f (\<lambda>v. p_ret (h v))) g Q"
  unfolding sim_def p_bind_def p_ret_def by (fastforce split: option.splits sum.splits)

lemma leaf_post:
  assumes "item_post e1 (t, l, r) w e2" "same e e1" "is_leaf t l r" "n = rx_nsubexpr e"
  shows "atom_post e (Leaf t l r, n) w e2"
  using assms by (simp add: item_post_def atom_post_def grown_def fresh_def same_def has_node_iff item_node_def)

lemma sim_leaf:
  assumes "rx_ok e1" "same e e1" "t \<noteq> OP_EXPR" "is_leaf t (- 1) (- 1)" "n = rx_nsubexpr e"
  shows "sim e1 (p_ret (Leaf t (- 1) (- 1), n)) (sqstd_rex_newnode t) (atom_post e)"
  using assms leaf_post [OF _ assms(2,4,5)]
  by (simp add: sim_def p_ret_def newnode_added item_post_def item_node_def)

lemma atom_post_same: "atom_post e v w e1 \<Longrightarrow> same e1 e2 \<Longrightarrow> atom_post e v w e2"
  by (simp add: atom_post_def same_def grown_def fresh_def)

lemma seq_post_same: "seq_post e v w e1 \<Longrightarrow> same e1 e2 \<Longrightarrow> seq_post e v w e2"
  by (simp add: seq_post_def same_def grown_def fresh_def)

lemma post_before:
  "atom_post e1 v w e2 \<Longrightarrow> same e e1 \<Longrightarrow> atom_post e v w e2" "seq_post e1 q w e2 \<Longrightarrow> same e e1 \<Longrightarrow> seq_post e q w e2"
  by (simp_all add: atom_post_def seq_post_def same_def grown_def fresh_def)

text \<open>A node that is completed after its operands: all other nodes stay.\<close>

lemma group_post:
  assumes e2: "rx_nodes e2 = rx_nodes e @ [nd]" "rn_type nd = (if cap then OP_EXPR else OP_NOCAPEXPR)" "rn_next nd = - 1"
      "cap \<longrightarrow> rn_right nd = rx_nsubexpr e" "rx_nsubexpr e2 = (if cap then rx_nsubexpr e + 1 else rx_nsubexpr e)" "0 \<le> rx_nsubexpr e"
    and s: "seq_post e2 (s, n1) newn e3" and w: "w = int (length (rx_nodes e))"
  shows "atom_post e (Paren cap (rx_nsubexpr e) s, n1) w (updated w (rn_left_update (\<lambda>_. newn)) e3)"
proof -
  let ?e4 = "updated w (rn_left_update (\<lambda>_. newn)) e3"
  have g: "grown e2 e3" "n1 = rx_nsubexpr e3" "repr_seq n1 (rx_nodes e3) (fresh e2 e3) newn s"
    "length (rx_nodes e2) + seq_size s \<le> length (rx_nodes e3)" using s by (auto simp: seq_post_def)
  have at: "node_at (rx_nodes ?e4) i = (if i = w then Some (nd\<lparr> rn_left := newn \<rparr>) else node_at (rx_nodes e3) i)" for i
    unfolding updated_simps(3) by (subst node_at_update) (use g(1) e2(1) w in \<open>simp_all add: grown_def\<close>)
  have "repr_seq n1 (rx_nodes ?e4) (fresh e2 e3) newn s"
    by (rule repr_cong(2) [OF g(3) _ order_refl]) (use at e2(1) w in \<open>auto simp: fresh_def\<close>)
  then have "repr_seq n1 (rx_nodes ?e4) (fresh e ?e4 - {w}) newn s"
    by (rule repr_mono(2)) (use e2(1) w in \<open>auto simp: fresh_def\<close>)
  moreover have "w \<in> fresh e ?e4" using g(1) e2(1) w by (simp add: fresh_def grown_def)
  moreover have "grown e ?e4" using g(1) e2(1,5) at w by (auto simp: grown_def simp del: updated_simps(3) split: if_splits) simp_all
  ultimately show ?thesis
    using at [of w] e2 g(1,2,4) by (auto simp: atom_post_def has_node_iff grown_def simp del: updated_simps(3)) simp_all
qed

lemma repeat_post:
  assumes a: "atom_post e (a, n) w e1"
    and e2: "rx_nodes e2 = rx_nodes e1 @ [\<lparr> rn_type = OP_GREEDY, rn_left = w, rn_right = b, rn_next = - 1 \<rparr>]"
      "rx_nsubexpr e2 = rx_nsubexpr e1"
  shows "atom_post e (Rep a b, n) (int (length (rx_nodes e1))) e2"
proof -
  let ?g = "int (length (rx_nodes e1))"
  have g: "grown e e1" "n = rx_nsubexpr e1" "repr_atom n (rx_nodes e1) (fresh e e1) w a"
    "has_node (rx_nodes e1) w (\<lambda>nd. rn_next nd = - 1)" using a by (auto simp: atom_post_def)
  have "repr_atom n (rx_nodes e2) (fresh e e1) w a"
    by (rule repr_cong(1) [OF g(3) _ order_refl]) (simp add: e2(1) fresh_def)
  then have "repr_atom n (rx_nodes e2) (fresh e e2 - {?g}) w a"
    by (rule repr_mono(1)) (auto simp: fresh_def e2(1))
  moreover have "w \<noteq> ?g" using g(4) node_at_bound by (fastforce simp: has_node_iff)
  ultimately show ?thesis using a g(1,4) e2 by (auto simp: atom_post_def has_node_iff grown_def fresh_def)
qed

lemma last_post: "atom_post e (a, n) w e1 \<Longrightarrow> seq_post e (Last a, n) w e1"
  by (auto simp: atom_post_def seq_post_def)

lemma link_post:
  assumes a: "atom_post e (a, n1) w e2" and s: "seq_post e2 (s, n2) v e3"
  shows "seq_post e (Then a s, n2) w (updated w (rn_next_update (\<lambda>_. v)) e3)"
proof -
  let ?e4 = "updated w (rn_next_update (\<lambda>_. v)) e3"
  have ga: "grown e e2" "n1 = rx_nsubexpr e2" "repr_atom n1 (rx_nodes e2) (fresh e e2) w a" using a by (auto simp: atom_post_def)
  have gs: "grown e2 e3" "n2 = rx_nsubexpr e3" "repr_seq n2 (rx_nodes e3) (fresh e2 e3) v s" using s by (auto simp: seq_post_def)
  have w: "w \<in> fresh e e2" using repr_in(1) [OF ga(3)] .
  have v: "v \<in> fresh e2 e3" using repr_in(2) [OF gs(3)] .
  have at: "node_at (rx_nodes ?e4) i = (if i = w then map_option (rn_next_update (\<lambda>_. v)) (node_at (rx_nodes e3) w) else node_at (rx_nodes e3) i)" for i
    unfolding updated_simps(3) by (rule node_at_update) (use w in \<open>simp add: fresh_def\<close>)
  have "repr_atom n2 (rx_nodes e3) (fresh e e2) w a"
    by (rule repr_cong(1) [OF ga(3)]) (use gs(1,2) ga(2) in \<open>auto simp: grown_def fresh_def\<close>)
  then have "repr_atom n2 (rx_nodes ?e4) (fresh e e2) w a" by (rule repr_link) (use at in auto)
  then have ra: "repr_atom n2 (rx_nodes ?e4) (fresh e ?e4) w a"
    by (rule repr_mono(1)) (use gs(1) in \<open>auto simp: fresh_def grown_def\<close>)
  have "repr_seq n2 (rx_nodes ?e4) (fresh e2 e3) v s"
    by (rule repr_cong(2) [OF gs(3) _ order_refl]) (use at w in \<open>auto simp: fresh_def\<close>)
  then have rs: "repr_seq n2 (rx_nodes ?e4) (fresh e ?e4) v s"
    by (rule repr_mono(2)) (use ga(1) in \<open>auto simp: fresh_def grown_def\<close>)
  obtain nd where "node_at (rx_nodes e3) w = Some nd"
    using w gs(1) ga(3) by (cases a) (auto simp: has_node_iff grown_def fresh_def)
  then have hd: "node_at (rx_nodes ?e4) w = Some (nd\<lparr> rn_next := v \<rparr>)" using at [of w] by simp
  have "grown e ?e4" using ga(1) gs(1) at w by (auto simp: grown_def fresh_def simp del: updated_simps(3)) simp_all
  with ra rs hd v a s gs(2) show ?thesis
    by (auto simp: seq_post_def atom_post_def has_node_iff fresh_def simp del: updated_simps(3)) simp_all
qed

lemma or_post:
  assumes s: "seq_post e (s, n1) v e2" and e3: "rx_nodes e3 = rx_nodes e2 @ [nd]" "rn_type nd = OP_OR" "rn_next nd = - 1" "rn_left nd = v"
      "rx_nsubexpr e3 = rx_nsubexpr e2"
    and t: "seq_post e3 (t, n2) u e4" and w: "w = int (length (rx_nodes e2))"
  shows "seq_post e (Last (Or s t), n2) w (updated w (rn_right_update (\<lambda>_. u)) e4)"
proof -
  let ?e5 = "updated w (rn_right_update (\<lambda>_. u)) e4"
  have gs: "grown e e2" "n1 = rx_nsubexpr e2" "repr_seq n1 (rx_nodes e2) (fresh e e2) v s" using s by (auto simp: seq_post_def)
  have gt: "grown e3 e4" "n2 = rx_nsubexpr e4" "repr_seq n2 (rx_nodes e4) (fresh e3 e4) u t" using t by (auto simp: seq_post_def)
  have at: "node_at (rx_nodes ?e5) i = (if i = w then Some (nd\<lparr> rn_right := u \<rparr>) else node_at (rx_nodes e4) i)" for i
    unfolding updated_simps(3) by (subst node_at_update) (use gt(1) e3(1) w in \<open>simp_all add: grown_def\<close>)
  have "repr_seq n2 (rx_nodes ?e5) (fresh e e2) v s"
    by (rule repr_cong(2) [OF gs(3)]) (use gt(1,2) gs(2) e3(1,5) at w in \<open>auto simp: grown_def fresh_def\<close>)
  then have rs: "repr_seq n2 (rx_nodes ?e5) (fresh e ?e5 - {w}) v s"
    by (rule repr_mono(2)) (use gt(1) e3(1) w in \<open>auto simp: fresh_def grown_def\<close>)
  have "repr_seq n2 (rx_nodes ?e5) (fresh e3 e4) u t"
    by (rule repr_cong(2) [OF gt(3) _ order_refl]) (use at e3(1) w in \<open>auto simp: fresh_def\<close>)
  then have rt: "repr_seq n2 (rx_nodes ?e5) (fresh e ?e5 - {w}) u t"
    by (rule repr_mono(2)) (use gs(1) e3(1) w in \<open>auto simp: fresh_def grown_def\<close>)
  have "w \<in> fresh e ?e5" using gs(1) gt(1) e3(1) w by (simp add: fresh_def grown_def)
  moreover have "grown e ?e5" using gs(1) gt(1) e3(1,5) at w by (auto simp: grown_def simp del: updated_simps(3)) simp_all
  ultimately show ?thesis
    using rs rt at [of w] e3 gt(2) s t by (auto simp: seq_post_def has_node_iff simp del: updated_simps(3)) simp_all
qed

lemma sim_repeat:
  assumes ok: "rx_ok e1" and a: "atom_post e (a, n) w e1"
  shows "sim e1 (p_repeat a) (rex_repeat w) (\<lambda>b v e2. atom_post e (b, n) v e2)"
  unfolding p_repeat_def rex_repeat_def
proof (rule sim_bind [OF sim_greedy [OF ok]], elim conjE, hypsubst)
  fix g e2 assume e2: "rx_ok e2" "same e1 e2"
  then have a2: "atom_post e (a, n) w e2" using a by (rule_tac atom_post_same)
  show "sim e2 (p_ret (case g of None \<Rightarrow> a | Some (p0, p1) \<Rightarrow> Rep a (pack_bounds p0 p1)))
      (case g of None \<Rightarrow> r_ret w | Some (p0, p1) \<Rightarrow> r_bind (sqstd_rex_newnode OP_GREEDY) (\<lambda>nnode.
         r_then (set_left nnode w) (r_then (set_right nnode (pack_bounds p0 p1)) (r_ret nnode))))
      (\<lambda>b v e2. atom_post e (b, n) v e2)"
  proof (cases g)
    case None
    with a2 e2(1) show ?thesis by (simp add: sim_ret)
  next
    case (Some p)
    obtain p0 p1 where p: "p = (p0, p1)" by fastforce
    show ?thesis unfolding Some p option.case prod.case set_left_def set_right_def
      by (rule sim_newnode [OF e2(1)], rule sim_upd, assumption, simp, simp, rule sim_upd, assumption, simp, simp,
        rule sim_ret, assumption, rule repeat_post [OF a2]) simp_all
  qed
qed

lemma sim_atom:
  assumes ok: "rx_ok e" and cf: "cf = length (rx_pat e) + 2" and n: "n = rx_nsubexpr e"
    and list: "\<And>e1. rx_ok e1 \<Longrightarrow> rx_pat e1 = rx_pat e \<Longrightarrow> sim e1 (plist (rx_nsubexpr e1)) clist (seq_post e1)"
  shows "sim e (p_atom plist cf n) (rex_atom clist) (atom_post e)"
proof -
  let ?w = "int (length (rx_nodes e))"
  let ?P = "\<lambda>cap w e2. w = ?w \<and> rx_nodes e2 = rx_nodes e @ [\<lparr> rn_type = (if cap then OP_EXPR else OP_NOCAPEXPR), rn_left = - 1,
      rn_right = (if cap then rx_nsubexpr e else - 1), rn_next = - 1 \<rparr>] \<and>
      rx_nsubexpr e2 = (if cap then rx_nsubexpr e + 1 else rx_nsubexpr e)"
  have new: "sim e1 (p_ret cap) (sqstd_rex_newnode (if cap then OP_EXPR else OP_NOCAPEXPR)) ?P"
    if "rx_ok e1" "same e e1" for e1 cap
    using that by (simp add: sim_def p_ret_def newnode_added same_def)
  have head: "sim e1 (if b then p_then p_skip (p_then (p_expect (chr8 CHR '':'')) (p_ret False)) else p_ret True)
      (if b then r_then advance (r_then (sqstd_rex_expect (chr8 CHR '':'')) (sqstd_rex_newnode OP_NOCAPEXPR)) else sqstd_rex_newnode OP_EXPR) ?P"
    if e1: "rx_ok e1" "same e e1" for e1 b
    by (rule sim_if, rule sim_skip [OF e1(1)], rule sim_then [OF sim_expect], assumption)
      (use new [of _ False] new [OF e1, of True] e1(2) in \<open>auto simp: same_def\<close>)
  have body: "sim e2 (p_bind (plist (if cap then n + 1 else n)) (\<lambda>(s, n1).
         p_then (p_expect (chr8 CHR '')'')) (p_ret (Paren cap n s, n1))))
      (r_bind clist (\<lambda>newn. r_then (set_left ?w newn) (r_then (sqstd_rex_expect (chr8 CHR '')'')) (r_ret ?w)))) (atom_post e)"
    if e2: "rx_ok e2" "rx_pat e2 = rx_pat e" "?P cap ?w e2" for e2 cap
  proof -
    have eq: "(if cap then n + 1 else n) = rx_nsubexpr e2" using e2(3) n by simp
    show ?thesis unfolding eq
    proof (rule sim_bind [OF list [OF e2(1,2)]])
      fix v newn e3 assume e3: "rx_ok e3" "seq_post e2 v newn e3"
      obtain s n1 where v: "v = (s, n1)" by fastforce
      have "0 \<le> rx_nsubexpr e" using ok by (simp add: rx_ok_def)
      with e2(3) e3(2) have post: "atom_post e (Paren cap n s, n1) ?w (updated ?w (rn_left_update (\<lambda>_. newn)) e3)"
        unfolding v n by (intro group_post [where ?e2.0 = e2]) auto
      have "length (rx_nodes e) < length (rx_nodes e3)" using e3(2) e2(3) v by (auto simp: seq_post_def grown_def)
      then show "sim e3 (case v of (s, n1) \<Rightarrow> p_then (p_expect (chr8 CHR '')'')) (p_ret (Paren cap n s, n1)))
          (r_then (set_left ?w newn) (r_then (sqstd_rex_expect (chr8 CHR '')'')) (r_ret ?w))) (atom_post e)"
        unfolding v prod.case set_left_def
        using post e3(1) by (intro sim_upd sim_then [OF sim_expect] sim_ret) (auto intro: atom_post_same)
    qed
  qed
  have chars: "sim e (p_bind (p_charnode False) (\<lambda>(t, l, r). p_ret (Leaf t l r, n))) (sqstd_rex_charnode False) (atom_post e)"
  proof -
    have eq: "(\<lambda>(t, l, r). p_ret (Leaf t l r, n)) = (\<lambda>v. p_ret (case v of (t, l, r) \<Rightarrow> (Leaf t l r, n)))" by auto
    show ?thesis unfolding eq
      by (rule sim_map [OF sim_val [OF sim_charnode [OF ok], of _ "\<lambda>v. case v of (t, l, r) \<Rightarrow> is_leaf t l r"]])
        (auto dest: charnode_leaf intro: leaf_post n)
  qed
  have cls: "sim e1 (p_bind (p_class cf) (\<lambda>a. p_then (p_expect (chr8 CHR '']'')) (p_ret (a, n))))
      (r_bind sqstd_rex_class (\<lambda>ret. r_then (sqstd_rex_expect (chr8 CHR '']'')) (r_ret ret))) (atom_post e)"
    if "rx_ok e1" "rx_pat e1 = rx_pat e" "same e e1" for e1
    by (rule sim_bind [OF sim_class], fact that, use cf that in simp, elim conjE, rule sim_then [OF sim_expect], assumption, rule sim_ret, assumption)
      (use that n in \<open>auto intro: post_before atom_post_same simp: same_def [of e e1]\<close>)
  show ?thesis
    unfolding p_atom_def rex_atom_def
  proof (rule sim_cur [OF ok], intro sim_if)
    show "sim e (p_then p_skip (p_bind p_cur (\<lambda>d.
       p_bind (if d = chr8 CHR ''?'' then p_then p_skip (p_then (p_expect (chr8 CHR '':'')) (p_ret False)) else p_ret True) (\<lambda>cap.
       p_bind (plist (if cap then n + 1 else n)) (\<lambda>(s, n1).
         p_then (p_expect (chr8 CHR '')'')) (p_ret (Paren cap n s, n1)))))))
      (r_then advance (r_bind cur (\<lambda>d.
       r_bind (if d = chr8 CHR ''?''
               then r_then advance (r_then (sqstd_rex_expect (chr8 CHR '':'')) (sqstd_rex_newnode OP_NOCAPEXPR))
               else sqstd_rex_newnode OP_EXPR) (\<lambda>expr.
       r_bind clist (\<lambda>newn. r_then (set_left expr newn)
         (r_then (sqstd_rex_expect (chr8 CHR '')'')) (r_ret expr))))))) (atom_post e)"
    proof (rule sim_skip [OF ok], rule sim_cur, assumption, rule sim_bind [OF head], assumption, assumption, elim conjE, hypsubst)
    qed (rule body; simp)
    show "sim e (p_then p_skip (p_bind (p_class cf) (\<lambda>a. p_then (p_expect (chr8 CHR '']'')) (p_ret (a, n)))))
        (r_then advance (r_bind sqstd_rex_class (\<lambda>ret. r_then (sqstd_rex_expect (chr8 CHR '']'')) (r_ret ret)))) (atom_post e)"
      by (rule sim_skip [OF ok], rule cls)
  qed ((rule sim_skip [OF ok], rule sim_leaf, assumption, assumption, simp, simp add: is_leaf_def, rule n)+, rule chars)
qed

subsection \<open>Elements and alternatives\<close>

lemma sim_link:
  assumes "rx_ok e2" "atom_post e (b, n1) w e2" "sim e2 f g (seq_post e2)"
  shows "sim e2 (p_bind f (\<lambda>(s, n2). p_ret (Then b s, n2))) (r_bind g (\<lambda>v. r_then (set_next w v) (r_ret w))) (seq_post e)"
proof (rule sim_bind [OF assms(3)])
  fix q v e3 assume e3: "rx_ok e3" "seq_post e2 q v e3"
  obtain s n2 where q: "q = (s, n2)" by fastforce
  have "w \<in> fresh e e2" using assms(2) repr_in(1) by (fastforce simp: atom_post_def)
  then have "0 \<le> w" "nat w < length (rx_nodes e3)" using e3(2) q by (auto simp: fresh_def seq_post_def grown_def)
  then show "sim e3 (case q of (s, n2) \<Rightarrow> p_ret (Then b s, n2)) (r_then (set_next w v) (r_ret w)) (seq_post e)"
    unfolding q prod.case set_next_def using e3 link_post [OF assms(2)] q by (intro sim_upd sim_ret) auto
qed

lemma sim_element_step:
  assumes ok: "rx_ok e" and cf: "cf = length (rx_pat e) + 2"
    and elem: "\<And>e1. rx_ok e1 \<Longrightarrow> rx_pat e1 = rx_pat e \<Longrightarrow> sim e1 (p_element cf k (rx_nsubexpr e1)) (sqstd_rex_element k) (seq_post e1)"
    and list: "\<And>e1. rx_ok e1 \<Longrightarrow> rx_pat e1 = rx_pat e \<Longrightarrow> sim e1 (p_list cf k (rx_nsubexpr e1)) (sqstd_rex_list k) (seq_post e1)"
  shows "sim e (p_element cf (Suc k) (rx_nsubexpr e)) (sqstd_rex_element (Suc k)) (seq_post e)"
  unfolding p_element.simps sqstd_rex_element.simps
proof (rule sim_bind [OF sim_atom [OF ok cf refl]])
  show "sim e1 (p_list cf k (rx_nsubexpr e1)) (sqstd_rex_list k) (seq_post e1)" if "rx_ok e1" "rx_pat e1 = rx_pat e" for e1
    using that by (rule list)
  fix v w e1 assume e1: "rx_ok e1" "rx_pat e1 = rx_pat e" "atom_post e v w e1"
  obtain a n1 where v: "v = (a, n1)" by fastforce
  have p: "atom_post e (a, n1) w e1" using e1(3) v by simp
  show "sim e1 (case v of (a, n1) \<Rightarrow> p_bind (p_repeat a) (\<lambda>b. p_bind p_cur (\<lambda>c.
       if ends_element c then p_ret (Last b, n1) else p_bind (p_element cf k n1) (\<lambda>(s, n2). p_ret (Then b s, n2)))))
     (r_bind (rex_repeat w) (\<lambda>ret. r_bind cur (\<lambda>c.
       if ends_element c then r_ret ret
       else r_bind (sqstd_rex_element k) (\<lambda>nnode. r_then (set_next ret nnode) (r_ret ret))))) (seq_post e)"
    unfolding v prod.case
  proof (rule sim_bind [OF sim_repeat [OF e1(1) p]])
    fix b u e2 assume e2: "rx_ok e2" "rx_pat e2 = rx_pat e1" "atom_post e (b, n1) u e2"
    have n1: "n1 = rx_nsubexpr e2" using e2(3) by (simp add: atom_post_def)
    have "sim e2 (p_element cf k (rx_nsubexpr e2)) (sqstd_rex_element k) (seq_post e2)" using e2(1,2) e1(2) by (intro elem) simp_all
    with e2 show "sim e2 (p_bind p_cur (\<lambda>c. if ends_element c then p_ret (Last b, n1)
          else p_bind (p_element cf k n1) (\<lambda>(s, n2). p_ret (Then b s, n2))))
        (r_bind cur (\<lambda>c. if ends_element c then r_ret u
          else r_bind (sqstd_rex_element k) (\<lambda>nnode. r_then (set_next u nnode) (r_ret u)))) (seq_post e)"
      unfolding n1 by (intro sim_cur sim_if sim_ret sim_link [where ?n1.0 = n1] last_post) (simp_all add: n1)
  qed
qed

lemma sim_bol:
  assumes ok: "rx_ok e"
    and elem: "\<And>e1. rx_ok e1 \<Longrightarrow> rx_pat e1 = rx_pat e \<Longrightarrow> sim e1 (p_element cf k (rx_nsubexpr e1)) (sqstd_rex_element k) (seq_post e1)"
  shows "sim e (p_then p_skip (p_bind (p_element cf k (rx_nsubexpr e)) (\<lambda>(s, n1). p_ret (Then (Leaf OP_BOL (- 1) (- 1)) s, n1))))
      (r_then advance (r_bind (sqstd_rex_newnode OP_BOL) (\<lambda>ret. r_bind (sqstd_rex_element k) (\<lambda>v. r_then (set_next ret v) (r_ret ret)))))
      (seq_post e)"
proof (rule sim_skip [OF ok], rule sim_newnode, assumption)
    fix e1 assume e1: "rx_ok (added OP_BOL e1)" "rx_pat e1 = rx_pat e" "same e e1"
    let ?e = "added OP_BOL e1"
    have n: "rx_nsubexpr e = rx_nsubexpr ?e" using e1(3) by (simp add: same_def)
    have "item_post e1 (OP_BOL, - 1, - 1) (int (length (rx_nodes e1))) ?e" by (simp add: item_post_def item_node_def)
    then have "atom_post e (Leaf OP_BOL (- 1) (- 1), rx_nsubexpr e) (int (length (rx_nodes e1))) ?e"
      using e1(3) by (rule leaf_post) (simp_all add: is_leaf_def)
    moreover have "sim ?e (p_element cf k (rx_nsubexpr ?e)) (sqstd_rex_element k) (seq_post ?e)" using e1 by (intro elem) simp_all
    ultimately show "sim ?e (p_bind (p_element cf k (rx_nsubexpr e)) (\<lambda>(s, n1). p_ret (Then (Leaf OP_BOL (- 1) (- 1)) s, n1)))
        (r_bind (sqstd_rex_element k) (\<lambda>v. r_then (set_next (int (length (rx_nodes e1))) v) (r_ret (int (length (rx_nodes e1)))))) (seq_post e)"
      unfolding n using e1(1) by (intro sim_link)
  qed

lemma sim_alternatives:
  assumes e2: "rx_ok e2" "seq_post e (s, n1) v e2"
    and list: "\<And>e1. rx_ok e1 \<Longrightarrow> rx_pat e1 = rx_pat e2 \<Longrightarrow> sim e1 (p_list cf k (rx_nsubexpr e1)) (sqstd_rex_list k) (seq_post e1)"
  shows "sim e2 (p_bind p_cur (\<lambda>d. if d = chr8 CHR ''|'' then p_then p_skip (p_bind (p_list cf k n1) (\<lambda>(t, n2). p_ret (Last (Or s t), n2)))
         else p_ret (s, n1)))
       (r_bind cur (\<lambda>d. if d = chr8 CHR ''|'' then r_then advance (r_bind (sqstd_rex_newnode OP_OR) (\<lambda>temp.
          r_then (set_left temp v) (r_bind (sqstd_rex_list k) (\<lambda>tright. r_then (set_right temp tright) (r_ret temp)))))
         else r_ret v)) (seq_post e)"
proof (rule sim_cur [OF e2(1)], rule sim_if, rule sim_skip [OF e2(1)], rule sim_newnode, assumption)
    fix e3 assume e3: "rx_ok e3" "rx_pat e3 = rx_pat e2" "same e2 e3" "rx_ok (added OP_OR e3)"
    let ?w = "int (length (rx_nodes e3))" let ?e = "updated ?w (rn_left_update (\<lambda>_. v)) (added OP_OR e3)"
    have n: "n1 = rx_nsubexpr ?e" using e2(2) e3(3) by (simp add: seq_post_def same_def)
    have s3: "seq_post e (s, n1) v e3" using e2(2) e3(3) by (rule seq_post_same)
    have ns: "rx_nodes ?e = rx_nodes e3 @ [\<lparr> rn_type = OP_OR, rn_left = v, rn_right = - 1, rn_next = - 1 \<rparr>]" by simp
    have "sim ?e (p_list cf k (rx_nsubexpr ?e)) (sqstd_rex_list k) (seq_post ?e)" using e3 by (intro list) simp_all
    then have "sim ?e (p_bind (p_list cf k n1) (\<lambda>(t, n2). p_ret (Last (Or s t), n2)))
        (r_bind (sqstd_rex_list k) (\<lambda>tright. r_then (set_right ?w tright) (r_ret ?w))) (seq_post e)"
      unfolding n
    proof (rule sim_bind)
      fix q u e4 assume e4: "rx_ok e4" "seq_post ?e q u e4"
      obtain t n2 where q: "q = (t, n2)" by fastforce
      have "seq_post e (Last (Or s t), n2) ?w (updated ?w (rn_right_update (\<lambda>_. u)) e4)"
        using e4(2) unfolding q by (intro or_post [OF s3 ns]) simp_all
      moreover have "nat ?w < length (rx_nodes e4)" using e4(2) ns q by (simp add: seq_post_def grown_def)
      ultimately show "sim e4 (case q of (t, n2) \<Rightarrow> p_ret (Last (Or s t), n2)) (r_then (set_right ?w u) (r_ret ?w)) (seq_post e)"
        unfolding q prod.case set_right_def using e4(1) by (intro sim_upd sim_ret) simp_all
    qed
    then show "sim (added OP_OR e3) (p_bind (p_list cf k n1) (\<lambda>(t, n2). p_ret (Last (Or s t), n2)))
       (r_then (set_left ?w v) (r_bind (sqstd_rex_list k) (\<lambda>tright. r_then (set_right ?w tright) (r_ret ?w)))) (seq_post e)"
      unfolding set_left_def using e3(4) by (intro sim_upd) simp_all
  qed (use e2 in \<open>auto intro: sim_ret\<close>)

lemma sim_list_step:
  assumes ok: "rx_ok e"
    and elem: "\<And>e1. rx_ok e1 \<Longrightarrow> rx_pat e1 = rx_pat e \<Longrightarrow> sim e1 (p_element cf k (rx_nsubexpr e1)) (sqstd_rex_element k) (seq_post e1)"
    and list: "\<And>e1. rx_ok e1 \<Longrightarrow> rx_pat e1 = rx_pat e \<Longrightarrow> sim e1 (p_list cf k (rx_nsubexpr e1)) (sqstd_rex_list k) (seq_post e1)"
  shows "sim e (p_list cf (Suc k) (rx_nsubexpr e)) (sqstd_rex_list (Suc k)) (seq_post e)"
  unfolding p_list.simps sqstd_rex_list.simps
proof (rule sim_cur [OF ok], rule sim_bind [OF sim_if [OF sim_bol elem]])
    fix q v e2 assume e2: "rx_ok e2" "rx_pat e2 = rx_pat e" "seq_post e q v e2"
    obtain s n1 where q: "q = (s, n1)" by fastforce
    show "sim e2 (case q of (s, n1) \<Rightarrow> p_bind p_cur (\<lambda>d. if d = chr8 CHR ''|''
          then p_then p_skip (p_bind (p_list cf k n1) (\<lambda>(t, n2). p_ret (Last (Or s t), n2))) else p_ret (s, n1)))
       (r_bind cur (\<lambda>d. if d = chr8 CHR ''|'' then r_then advance (r_bind (sqstd_rex_newnode OP_OR) (\<lambda>temp.
          r_then (set_left temp v) (r_bind (sqstd_rex_list k) (\<lambda>tright. r_then (set_right temp tright) (r_ret temp)))))
         else r_ret v)) (seq_post e)"
      unfolding q prod.case using e2 q by (intro sim_alternatives list) simp_all
qed (use ok elem in simp_all)

lemma sim_element_list:
  assumes "rx_ok e" "cf = length (rx_pat e) + 2"
  shows "sim e (p_element cf k (rx_nsubexpr e)) (sqstd_rex_element k) (seq_post e)" (is "?E k e")
    and "sim e (p_list cf k (rx_nsubexpr e)) (sqstd_rex_list k) (seq_post e)" (is "?L k e")
proof -
  have "(rx_ok e \<longrightarrow> cf = length (rx_pat e) + 2 \<longrightarrow> ?E k e) \<and> (rx_ok e \<longrightarrow> cf = length (rx_pat e) + 2 \<longrightarrow> ?L k e)"
  proof (induction k arbitrary: e)
    case 0
    show ?case by (simp add: sim_def p_element.simps p_list.simps)
  next
    case (Suc k)
    have ih: "?E k e1" "?L k e1" if "cf = length (rx_pat e) + 2" "rx_ok e1" "rx_pat e1 = rx_pat e" for e1
      using Suc.IH [of e1] that by auto
    show ?case by (intro conjI impI; rule sim_element_step sim_list_step; (assumption | rule ih))
  qed
  with assms show "?E k e" "?L k e" by blast+
qed

subsection \<open>Compiled expressions\<close>

definition represents :: "rex \<Rightarrow> rx_seq \<Rightarrow> bool" where
  "represents e s \<longleftrightarrow> repr_atom (rx_nsubexpr e) (rx_nodes e) UNIV 0 (Paren True 0 s) \<and>
     has_node (rx_nodes e) 0 (\<lambda>nd. rn_next nd = - 1) \<and> seq_size s < length (rx_nodes e) \<and> 0 \<le> rx_nsubexpr e"

lemma compile_parses:
  assumes "c_str pattern \<noteq> []"
  shows "case rex_parse pattern of
      None \<Rightarrow> True
    | Some (Inl msg) \<Rightarrow> sqstd_rex_compile pattern = Some (Inl msg)
    | Some (Inr s) \<Rightarrow> \<exists>e. sqstd_rex_compile pattern = Some (Inr (0, e)) \<and> represents e s"
proof -
  let ?cs = "c_str pattern" and ?st = "rex_start pattern"
  let ?e = "added OP_EXPR ?st"
  have ok0: "rx_ok ?st" using assms by (auto simp: rex_start_def rx_ok_def c_str_def dest: set_takeWhileD)
  have ok: "rx_ok ?e" by (rule added_simps(5) [OF ok0])
  have pat: "rx_pat ?e = ?cs" "rest ?e = ?cs" "rx_nsubexpr ?e = 1" "rx_nsubexpr ?st = 0" "rx_nodes ?st = []"
    by (simp_all only: added_simps) (simp_all add: rex_start_def rest_def)
  have start: "sqstd_rex_compile pattern = (case sqstd_rex_list (2 * length ?cs + 2) ?e of
      None \<Rightarrow> None | Some (Inl err) \<Rightarrow> Some (Inl err)
    | Some (Inr (res, e1)) \<Rightarrow> r_then (set_left 0 res) (r_bind cur (\<lambda>c.
        if c \<noteq> 0 then sqstd_rex_error ''unexpected character'' else r_ret 0)) e1)"
  proof -
    have "sqstd_rex_newnode OP_EXPR ?st = Some (Inr (0, ?e))" using newnode_added [OF ok0] pat(5) by simp
    then show ?thesis unfolding sqstd_rex_compile_def r_bind_def by (simp only: option.case sum.case prod.case pat(1))
  qed
  note sim = sim_element_list(2) [OF ok refl, of "2 * length ?cs + 2", unfolded sim_def pat(1-3)]
  show ?thesis
  proof (cases "p_list (length ?cs + 2) (2 * length ?cs + 2) 1 ?cs")
    case None
    then show ?thesis by (simp add: rex_parse_def)
  next
    case (Some r)
    show ?thesis
    proof (cases r)
      case (Inl msg)
      with Some sim start show ?thesis by (simp add: rex_parse_def)
    next
      case (Inr q)
      obtain s n cs where q: "q = ((s, n), cs)" by (metis surj_pair)
      with sim Some Inr obtain res e1 where l: "sqstd_rex_list (2 * length ?cs + 2) ?e = Some (Inr (res, e1))"
        "rx_ok e1" "rx_pat e1 = ?cs" "rest e1 = cs" "seq_post ?e (s, n) res e1" by auto
      let ?e2 = "updated 0 (rn_left_update (\<lambda>_. res)) e1"
      have lt: "0 < length (rx_nodes e1)" using l(5) by (auto simp: seq_post_def grown_def)
      have "sqstd_rex_compile pattern = r_bind cur (\<lambda>c. if c \<noteq> 0 then sqstd_rex_error ''unexpected character'' else r_ret 0) ?e2"
      proof -
        have "set_left 0 res e1 = Some (Inr ((), ?e2))" using lt by (simp add: set_left_def upd_node_def updated_def)
        then have "r_then (set_left 0 res) g e1 = g ?e2" for g :: "int rexm" by (simp add: r_then_def r_bind_def)
        then show ?thesis unfolding start l(1) by (simp only: option.case sum.case prod.case)
      qed
      moreover have "cur ?e2 = Some (Inr (case cs of [] \<Rightarrow> 0 | c # _ \<Rightarrow> c, ?e2))" using cur_rest [of ?e2] l(2,4) by simp
      moreover have "(case cs of [] \<Rightarrow> 0 | c # _ \<Rightarrow> c) = 0 \<longleftrightarrow> cs = []"
      proof -
        have "set cs \<subseteq> set (rx_pat e1)" using l(4) set_drop_subset unfolding rest_def by metis
        then show ?thesis using l(2) by (cases cs) (auto simp: rx_ok_def)
      qed
      ultimately have c: "sqstd_rex_compile pattern = (if cs \<noteq> [] then Some (Inl ''unexpected character'') else Some (Inr (0, ?e2)))"
        by (simp add: r_bind_def sqstd_rex_error_def r_ret_def)
      have "atom_post ?st (Paren True (rx_nsubexpr ?st) s, n) 0 ?e2"
        by (rule group_post [where ?e2.0 = ?e and nd = "\<lparr> rn_type = OP_EXPR, rn_left = - 1, rn_right = 0, rn_next = - 1 \<rparr>"])
          (use pat l(5) in simp_all)
      then have "represents ?e2 s"
        using pat l(2,5) repr_UNIV(1) [of n "rx_nodes ?e2" "fresh ?st ?e2" 0 "Paren True 0 s"]
        by (auto simp: atom_post_def represents_def seq_post_def rx_ok_def simp del: repr_atom.simps)
      with c Some Inr q show ?thesis by (simp add: rex_parse_def)
    qed
  qed
qed

end
