(* ===== verification/Sq_Rex_Correct.thy ===== *)
theory Sq_Rex_Correct
  imports Sq_Rex_Compile
begin

text \<open>
  Compiling, matching and searching together: compiled nodes stand for the tree of the pattern, and what the
  matcher finds is what the tree describes.
\<close>

subsection \<open>Matching and searching\<close>

lemma rex_ctx_fits: "text_fits (rex_ctx e text)"
proof -
  let ?c = "c_str text"
  have "length ?c < length text \<Longrightarrow> text ! length ?c = 0"
    unfolding c_str_def using nth_length_takeWhile [of "\<lambda>c. c \<noteq> 0" "text"] by simp
  moreover have "length ?c \<le> length text" unfolding c_str_def by (rule length_takeWhile_le)
  ultimately show ?thesis by (simp add: text_fits_def rex_ctx_def)
qed

text \<open>A text on which the word boundary test stays inside: one that does not end in white space.\<close>

definition boundary_text :: "sqchar list \<Rightarrow> bool" where
  "boundary_text text \<longleftrightarrow> c_str text = [] \<or> \<not> scisspace (last (c_str text))"

lemma boundary_text_safe: "boundary_text text \<Longrightarrow> boundary_safe (rex_ctx e text)"
proof -
  assume b: "boundary_text text"
  have "last (c_str text) = text ! (length (c_str text) - 1)" if "c_str text \<noteq> []"
    using that by (simp add: last_conv_nth c_str_def takeWhile_nth)
  with b show ?thesis by (auto simp: boundary_safe_def rex_ctx_def boundary_text_def)
qed

lemma node_runs:
  assumes "represents e s" "seq_boundary s \<longrightarrow> boundary_text text" "int (length ms) = rx_nsubexpr e"
    and "str \<le> length (c_str text)" "0 \<le> i"
  shows "runs (rex_ctx e text) (ms, i) (sem_seq (rex_ctx e text) s) str
    (sqstd_rex_matchnode (length (rx_nodes e)) (rex_ctx e text) 0 str (- 1) (ms, i))"
proof -
  let ?x = "rex_ctx e text"
  have n: "mc_nodes ?x = rx_nodes e" "mc_eol ?x = length (c_str text)" by (simp_all add: rex_ctx_def)
  have at: "atom_ok ?x (rx_nsubexpr e) 0 (Paren True 0 s)"
    using assms(1,2) boundary_text_safe by (simp add: atom_ok_def represents_def n)
  have pl: "place ?x (rx_nsubexpr e) 0 0 (- 1)" using assms(1) by (simp add: place_def next_is_def represents_def n)
  have "runs ?x (ms, i) (sem_atom ?x (Paren True 0 s)) str (sqstd_rex_matchnode (length (rx_nodes e)) ?x 0 str (- 1) (ms, i))"
    by (rule goodD [OF good_matcher [OF rex_ctx_fits] at pl]) (use assms n in \<open>auto simp: represents_def st_ok_def\<close>)
  then show ?thesis by simp
qed

lemma match_returns:
  assumes "represents e s" "seq_boundary s \<longrightarrow> boundary_text text" "int (length ms) = rx_nsubexpr e"
  shows "\<exists>b ms'. sqstd_rex_match e ms text = Some (b, ms') \<and> length ms' = length ms \<and>
    (b \<longrightarrow> sem_seq (rex_ctx e text) s 0 (length (c_str text)))"
proof -
  from node_runs [OF assms le0, of 0] obtain r st' where
    r: "sqstd_rex_matchnode (length (rx_nodes e)) (rex_ctx e text) 0 0 (- 1) (ms, 0) = Some (r, st')"
      "keeps_st (ms, 0) st'" "\<And>j. r = Some j \<Longrightarrow> sem_seq (rex_ctx e text) s 0 j" by (auto elim!: runsE)
  then show ?thesis by (auto simp: sqstd_rex_match_def keeps_st_def)
qed

lemma search_chain_first:
  assumes "represents e s" "seq_boundary s \<longrightarrow> boundary_text text" "int (length ms) = rx_nsubexpr e"
    and "str < length (c_str text)"
  shows "\<exists>r nd ms'. search_chain (rex_ctx e text) 0 str ms = Some (r, nd, ms') \<and> length ms' = length ms \<and> (r = None \<longrightarrow> nd = 0) \<and>
    (\<forall>j. r = Some j \<longrightarrow> str \<le> j \<and> j \<le> length (c_str text) \<and> sem_seq (rex_ctx e text) s str j)"
proof -
  let ?x = "rex_ctx e text"
  from node_runs [OF assms(1-3) less_imp_le [OF assms(4)], of 0] obtain r st' where
    r: "sqstd_rex_matchnode (length (rx_nodes e)) ?x 0 str (- 1) (ms, 0) = Some (r, st')"
      "keeps_st (ms, 0) st'" "\<And>j. r = Some j \<Longrightarrow> str \<le> j \<and> j \<le> mc_eol ?x \<and> sem_seq ?x s str j" by (auto elim!: runsE)
  have n: "mc_nodes ?x = rx_nodes e" "mc_eol ?x = length (c_str text)" by (simp_all add: rex_ctx_def)
  obtain nd where nd: "ctx_node ?x 0 = Some nd" "rn_next nd = - 1"
    using assms(1) by (auto simp: represents_def has_node_iff ctx_node_at n)
  have stop: "search_chain ?x (- 1) j ms' = Some (Some j, - 1, ms')" for j ms' by (simp add: search_chain.simps)
  show ?thesis
    by (subst search_chain.simps) (use r nd n stop in \<open>auto simp: keeps_st_def split: option.split\<close>)
qed

lemma search_loop_returns:
  assumes "represents e s" "seq_boundary s \<longrightarrow> boundary_text text"
  shows "int (length ms) = rx_nsubexpr e \<Longrightarrow> str < length (c_str text) \<Longrightarrow>
    \<exists>r ms'. search_loop (rex_ctx e text) 0 str ms = Some (r, ms') \<and> length ms' = length ms \<and>
      (\<forall>b j. r = Some (b, j) \<longrightarrow> str \<le> b \<and> b \<le> j \<and> j \<le> length (c_str text) \<and> sem_seq (rex_ctx e text) s b j)"
proof (induction "length (c_str text) - str" arbitrary: str ms rule: less_induct)
  case less
  let ?x = "rex_ctx e text"
  have eol: "mc_eol ?x = length (c_str text)" by (simp add: rex_ctx_def)
  obtain r nd ms1 where r: "search_chain ?x 0 str ms = Some (r, nd, ms1)" "length ms1 = length ms" "r = None \<longrightarrow> nd = 0"
    "\<forall>j. r = Some j \<longrightarrow> str \<le> j \<and> j \<le> length (c_str text) \<and> sem_seq ?x s str j"
    using search_chain_first [OF assms less.prems] by blast
  show ?case
  proof (cases "r \<noteq> None \<or> \<not> str + 1 < length (c_str text)")
    case True
    with r eol show ?thesis by (subst search_loop.simps) (auto split: option.split)
  next
    case False
    then have "\<exists>r ms'. search_loop ?x 0 (str + 1) ms1 = Some (r, ms') \<and> length ms' = length ms1 \<and>
        (\<forall>b j. r = Some (b, j) \<longrightarrow> str + 1 \<le> b \<and> b \<le> j \<and> j \<le> length (c_str text) \<and> sem_seq ?x s b j)"
      using less.prems r(2) by (intro less.hyps) auto
    with False r eol show ?thesis by (subst search_loop.simps) fastforce
  qed
qed

lemma search_returns:
  assumes "represents e s" "seq_boundary s \<longrightarrow> boundary_text text" "int (length ms) = rx_nsubexpr e"
  shows "\<exists>r ms'. sqstd_rex_search e ms text = Some (r, ms') \<and> length ms' = length ms \<and>
    (\<forall>b j. r = Some (b, j) \<longrightarrow> b \<le> j \<and> j \<le> length (c_str text) \<and> sem_seq (rex_ctx e text) s b j)"
  using search_loop_returns [OF assms(1,2,3), of 0] by (cases "c_str text = []") (auto simp: sqstd_rex_search_def)

text \<open>
  C39.  Compiling a pattern ends: with an error message, or with nodes that stand for the syntax tree of the
  pattern and stay in their allocation.  The pattern must not be empty and not end in a backslash or an
  unfinished \<^verbatim>\<open>\m\<close>, where the compiler leaves the pattern or the allocation.
\<close>

theorem compile_refines_parser:
  assumes "c_str pattern \<noteq> []" "\<not> dangling (c_str pattern)"
  shows "(\<exists>msg. rex_parse pattern = Some (Inl msg) \<and> sqstd_rex_compile pattern = Some (Inl msg)) \<or>
    (\<exists>s e. rex_parse pattern = Some (Inr s) \<and> sqstd_rex_compile pattern = Some (Inr (0, e)) \<and> represents e s)"
proof -
  obtain r where "rex_parse pattern = Some r" using parse_returns [OF assms(2)] by blast
  with compile_parses [OF assms(1)] show ?thesis by (cases r) auto
qed

text \<open>
  C40.  Matching and searching with a compiled pattern return on every text, whatever captures earlier calls
  left, and never leave the text, the nodes or the captures; a match or a found segment is one that the
  syntax tree of the pattern describes.  Only \<^verbatim>\<open>\b\<close> looks behind a text that ends in white space.
\<close>

theorem regex_sound:
  assumes "sqstd_rex_compile pattern = Some (Inr (first, e))" "c_str pattern \<noteq> []" "rex_parse pattern = Some (Inr s)"
    and "int (length ms) = sqstd_rex_getsubexpcount e" "seq_boundary s \<longrightarrow> boundary_text text"
  shows "(\<exists>b ms'. sqstd_rex_match e ms text = Some (b, ms') \<and> length ms' = length ms \<and>
      (b \<longrightarrow> sem_seq (rex_ctx e text) s 0 (length (c_str text)))) \<and>
    (\<exists>r ms'. sqstd_rex_search e ms text = Some (r, ms') \<and> length ms' = length ms \<and>
      (\<forall>i j. r = Some (i, j) \<longrightarrow> i \<le> j \<and> j \<le> length (c_str text) \<and> sem_seq (rex_ctx e text) s i j))"
proof -
  have "represents e s" using compile_parses [OF assms(2)] assms(1,3) by auto
  with assms(4,5) match_returns [of e s "text" ms] search_returns [of e s "text" ms] show ?thesis
    by (simp add: sqstd_rex_getsubexpcount_def)
qed

definition sample_pattern :: "sqchar list" where
  "sample_pattern = map chr8 ''[^a-c]+('' @ [92] @ map chr8 ''d|x)''"

text \<open>The compiled sample.\<close>

definition sample_rex :: rex where
  "sample_rex = (case sqstd_rex_compile sample_pattern of Some (Inr (i, e)) \<Rightarrow> e | _ \<Rightarrow> rex_start [])"

definition sample_tree :: rx_seq where
  "sample_tree = Then (Rep (Class True [(OP_RANGE, 97, 99)]) (pack_bounds 1 0xFFFF))
     (Last (Paren True 1 (Last (Or (Last (Leaf OP_CCLASS 100 (- 1))) (Last (Leaf (OP_CHR 120) (- 1) (- 1)))))))"

lemma sample_compile: "rex_parse sample_pattern = Some (Inr sample_tree)"
  "sqstd_rex_compile sample_pattern = Some (Inr (0, sample_rex))" "rx_nsubexpr sample_rex = 2"
  "c_str sample_pattern \<noteq> []" "\<not> dangling (c_str sample_pattern)" "\<not> seq_boundary sample_tree"
  by code_simp+

theorem compile_refines_parser_witness:
  "\<exists>e. sqstd_rex_compile sample_pattern = Some (Inr (0, e)) \<and> represents e sample_tree"
  using compile_refines_parser [OF sample_compile(4,5)] sample_compile(1) by auto

text \<open>A small expression to run by hand: \<open>a|b\<close> on \<open>b\<close>.\<close>

definition small_pattern :: "sqchar list" where "small_pattern = map chr8 ''a|b''"

definition small_rex :: rex where
  "small_rex = (case sqstd_rex_compile small_pattern of Some (Inr (i, e)) \<Rightarrow> e | _ \<Rightarrow> rex_start [])"

definition small_tree :: rx_seq where
  "small_tree = Last (Or (Last (Leaf (OP_CHR 97) (- 1) (- 1))) (Last (Leaf (OP_CHR 98) (- 1) (- 1))))"

lemma small_compile: "rex_parse small_pattern = Some (Inr small_tree)"
  "sqstd_rex_compile small_pattern = Some (Inr (0, small_rex))" "c_str small_pattern \<noteq> []" "\<not> seq_boundary small_tree"
  "no_matches small_rex = [\<lparr> rm_begin = None, rm_len = 0 \<rparr>]" "sqstd_rex_getsubexpcount small_rex = 1"
  "rx_nodes small_rex =
    [\<lparr> rn_type = OP_EXPR, rn_left = 2, rn_right = 0, rn_next = - 1 \<rparr>, \<lparr> rn_type = OP_CHR 97, rn_left = - 1, rn_right = - 1, rn_next = - 1 \<rparr>,
     \<lparr> rn_type = OP_OR, rn_left = 1, rn_right = 3, rn_next = - 1 \<rparr>, \<lparr> rn_type = OP_CHR 98, rn_left = - 1, rn_right = - 1, rn_next = - 1 \<rparr>]"
  by code_simp+

lemma bind_weak_cong: "a = b \<Longrightarrow> Option.bind a f = Option.bind b f" by simp

theorem regex_sound_witness:
  "sqstd_rex_match small_rex [\<lparr> rm_begin = None, rm_len = 0 \<rparr>] [98] = Some (True, [\<lparr> rm_begin = Some 0, rm_len = 1 \<rparr>]) \<and>
   sem_seq (rex_ctx small_rex [98]) small_tree 0 1"
proof -
  have "sqstd_rex_match small_rex [\<lparr> rm_begin = None, rm_len = 0 \<rparr>] [98] = Some (True, [\<lparr> rm_begin = Some 0, rm_len = 1 \<rparr>])"
    unfolding sqstd_rex_match_def rex_ctx_def small_compile(7)
    by (simp add: match_body_def match_or_def match_expr_def match_char_def match_branch.simps
      match_seq.simps ctx_node_def text_char_def set_match_def Let_def c_str_def
      cong: bind_weak_cong option.case_cong_weak rextype.case_cong_weak)
  moreover have "c_str [98 :: sqchar] = [98]" by (simp add: c_str_def)
  ultimately show ?thesis
    using regex_sound [OF small_compile(2,3,1), of "[\<lparr> rm_begin = None, rm_len = 0 \<rparr>]" "[98]"] small_compile(4,6) by auto
qed

text \<open>
  What the hypotheses exclude: the empty pattern is compiled into an allocation of no nodes, an unfinished
  \<^verbatim>\<open>\m\<close> or an escape after a hyphen make the compiler read behind the pattern, and \<^verbatim>\<open>\b\<close> at the end
  of a text that ends in white space reads behind the text.
\<close>

theorem compile_leaves_pattern:
  "sqstd_rex_compile [] = None"
  "sqstd_rex_compile (map chr8 ''a'' @ [92] @ map chr8 ''m'') = None"
  "sqstd_rex_compile (map chr8 ''[!-'' @ [92]) = None"
  by code_simp+

theorem boundary_leaves_text: "at_boundary (rex_ctx e [97, 32]) 2 = None"
  by (simp add: at_boundary_def space_at_def rex_ctx_def text_char_def c_str_def scisspace_def in_range_def)

text \<open>An alternative is taken for good: \<^verbatim>\<open>(a|ab)c\<close> does not match \<^verbatim>\<open>abc\<close>.\<close>

definition branch_pattern :: "sqchar list" where "branch_pattern = map chr8 ''(a|ab)c''"

theorem alternatives_not_retried:
  "\<exists>e ms'. sqstd_rex_compile branch_pattern = Some (Inr (0, e)) \<and>
     sqstd_rex_match e (no_matches e) [97, 98, 99] = Some (False, ms')"
proof -
  define e where "e = (case sqstd_rex_compile branch_pattern of Some (Inr (i, e)) \<Rightarrow> e | _ \<Rightarrow> rex_start [])"
  have c: "sqstd_rex_compile branch_pattern = Some (Inr (0, e))" unfolding e_def by code_simp
  have n: "rx_nodes e = [
     \<lparr> rn_type = OP_EXPR, rn_left = 1, rn_right = 0, rn_next = - 1 \<rparr>, \<lparr> rn_type = OP_EXPR, rn_left = 3, rn_right = 1, rn_next = 6 \<rparr>,
     \<lparr> rn_type = OP_CHR 97, rn_left = - 1, rn_right = - 1, rn_next = - 1 \<rparr>, \<lparr> rn_type = OP_OR, rn_left = 2, rn_right = 4, rn_next = - 1 \<rparr>,
     \<lparr> rn_type = OP_CHR 97, rn_left = - 1, rn_right = - 1, rn_next = 5 \<rparr>, \<lparr> rn_type = OP_CHR 98, rn_left = - 1, rn_right = - 1, rn_next = - 1 \<rparr>,
     \<lparr> rn_type = OP_CHR 99, rn_left = - 1, rn_right = - 1, rn_next = - 1 \<rparr>]"
    and m: "no_matches e = [\<lparr> rm_begin = None, rm_len = 0 \<rparr>, \<lparr> rm_begin = None, rm_len = 0 \<rparr>]"
    unfolding e_def by code_simp+
  have "\<exists>ms'. sqstd_rex_match e (no_matches e) [97, 98, 99] = Some (False, ms')"
    unfolding sqstd_rex_match_def rex_ctx_def n m
    by (simp add: match_body_def match_or_def match_expr_def match_char_def match_branch.simps
      match_seq.simps ctx_node_def text_char_def set_match_def Let_def c_str_def
      cong: bind_weak_cong option.case_cong_weak rextype.case_cong_weak)
  with c show ?thesis by blast
qed

end
