(* ===== verification/Sq_FuncState.thy ===== *)
theory Sq_FuncState
  imports Sq_Table Sq_Serialize
begin

text \<open>
  \<^verbatim>\<open>SQFuncState\<close> (\<^verbatim>\<open>sqfuncstate.h\<close>, \<^verbatim>\<open>sqfuncstate.cpp\<close>): what the compiler keeps of one function under
  construction, and the instructions (\<^verbatim>\<open>sqopcodes.h\<close>).

  Vectors are lists with the end where \<^verbatim>\<open>push_back\<close> works.  Positions, registers and sizes are
  integers; they become words where the code stores them in an instruction or in the debug
  information.  Names are byte strings (interning makes equal strings one object); where a name is a
  key of a table it is the object \<open>OString\<close> of its address.  \<^verbatim>\<open>_childstates\<close> of a state holds at most the
  function being compiled inside it, so a state and its parents are a list, the innermost first.
\<close>

subsection \<open>Operations that can fail\<close>

text \<open>\<open>CompileError\<close> is a message handed to the error function, which leaves the compiler by
  \<^verbatim>\<open>longjmp\<close>; \<open>AssertFailed\<close> a failed \<^verbatim>\<open>assert\<close>; \<open>Undefined\<close> an access the C++ leaves undefined;
  \<open>NoFuel\<close> the end of the recursion depth the caller granted.\<close>

datatype cerror = CompileError "sqchar list" | AssertFailed | Undefined | NoFuel

type_synonym ('s, 'a) em = "'s \<Rightarrow> (cerror + 'a) \<times> 's"

definition c_ret :: "'a \<Rightarrow> ('s, 'a) em" where "c_ret x s = (Inr x, s)"
definition c_fail :: "cerror \<Rightarrow> ('s, 'a) em" where "c_fail e s = (Inl e, s)"
definition c_get :: "('s \<Rightarrow> 'a) \<Rightarrow> ('s, 'a) em" where "c_get f s = (Inr (f s), s)"
definition c_upd :: "('s \<Rightarrow> 's) \<Rightarrow> ('s, unit) em" where "c_upd f s = (Inr (), f s)"

definition c_bind :: "('s, 'a) em \<Rightarrow> ('a \<Rightarrow> ('s, 'b) em) \<Rightarrow> ('s, 'b) em" where
  "c_bind m f s = (case m s of (r, s1) \<Rightarrow> (case r of Inl e \<Rightarrow> (Inl e, s1) | Inr x \<Rightarrow> f x s1))"

definition c_then :: "('s, unit) em \<Rightarrow> ('s, 'b) em \<Rightarrow> ('s, 'b) em" where
  "c_then m k = c_bind m (\<lambda>_. k)"

primrec c_seq :: "('s, unit) em list \<Rightarrow> ('s, unit) em" where
  "c_seq [] = c_ret ()"
| "c_seq (m # ms) = c_then m (c_seq ms)"

definition c_when :: "bool \<Rightarrow> ('s, unit) em \<Rightarrow> ('s, unit) em" where
  "c_when b m = (if b then m else c_ret ())"

text \<open>A value read from the state, and a test of it.\<close>

definition c_with :: "('s \<Rightarrow> 'a) \<Rightarrow> ('a \<Rightarrow> ('s, 'b) em) \<Rightarrow> ('s, 'b) em" where
  "c_with g F = c_bind (c_get g) F"

definition c_if :: "('s \<Rightarrow> bool) \<Rightarrow> ('s, 'a) em \<Rightarrow> ('s, 'a) em \<Rightarrow> ('s, 'a) em" where
  "c_if P m k s = (if P s then m s else k s)"

text \<open>A table operation; one that does not return is \<open>Undefined\<close>.\<close>

definition c_tbl :: "('s \<Rightarrow> 'a option) \<Rightarrow> ('s, 'a) em" where
  "c_tbl f s = (case f s of None \<Rightarrow> (Inl Undefined, s) | Some x \<Rightarrow> (Inr x, s))"

primrec c_repeat :: "nat \<Rightarrow> ('s, unit) em \<Rightarrow> ('s, unit) em" where
  "c_repeat 0 m = c_ret ()"
| "c_repeat (Suc n) m = c_then m (c_repeat n m)"

definition c_error :: "string \<Rightarrow> ('s, 'a) em" where
  "c_error msg = c_fail (CompileError (bytes_of msg))"

subsection \<open>Opcodes\<close>

definition MAX_FUNC_STACKSIZE :: int where "MAX_FUNC_STACKSIZE = 0xFF"
definition MAX_LITERALS :: int where "MAX_LITERALS = 0x7FFFFFFF"

definition op_LINE :: "8 word" where "op_LINE = 0x00"
definition op_LOAD :: "8 word" where "op_LOAD = 0x01"
definition op_LOADINT :: "8 word" where "op_LOADINT = 0x02"
definition op_LOADFLOAT :: "8 word" where "op_LOADFLOAT = 0x03"
definition op_DLOAD :: "8 word" where "op_DLOAD = 0x04"
definition op_TAILCALL :: "8 word" where "op_TAILCALL = 0x05"
definition op_CALL :: "8 word" where "op_CALL = 0x06"
definition op_PREPCALL :: "8 word" where "op_PREPCALL = 0x07"
definition op_PREPCALLK :: "8 word" where "op_PREPCALLK = 0x08"
definition op_GETK :: "8 word" where "op_GETK = 0x09"
definition op_MOVE :: "8 word" where "op_MOVE = 0x0A"
definition op_NEWSLOT :: "8 word" where "op_NEWSLOT = 0x0B"
definition op_DELETE :: "8 word" where "op_DELETE = 0x0C"
definition op_SET :: "8 word" where "op_SET = 0x0D"
definition op_GET :: "8 word" where "op_GET = 0x0E"
definition op_EQ :: "8 word" where "op_EQ = 0x0F"
definition op_NE :: "8 word" where "op_NE = 0x10"
definition op_ADD :: "8 word" where "op_ADD = 0x11"
definition op_SUB :: "8 word" where "op_SUB = 0x12"
definition op_MUL :: "8 word" where "op_MUL = 0x13"
definition op_DIV :: "8 word" where "op_DIV = 0x14"
definition op_MOD :: "8 word" where "op_MOD = 0x15"
definition op_BITW :: "8 word" where "op_BITW = 0x16"
definition op_RETURN :: "8 word" where "op_RETURN = 0x17"
definition op_LOADNULLS :: "8 word" where "op_LOADNULLS = 0x18"
definition op_LOADROOT :: "8 word" where "op_LOADROOT = 0x19"
definition op_LOADBOOL :: "8 word" where "op_LOADBOOL = 0x1A"
definition op_DMOVE :: "8 word" where "op_DMOVE = 0x1B"
definition op_JMP :: "8 word" where "op_JMP = 0x1C"
definition op_JCMP :: "8 word" where "op_JCMP = 0x1D"
definition op_JZ :: "8 word" where "op_JZ = 0x1E"
definition op_SETOUTER :: "8 word" where "op_SETOUTER = 0x1F"
definition op_GETOUTER :: "8 word" where "op_GETOUTER = 0x20"
definition op_NEWOBJ :: "8 word" where "op_NEWOBJ = 0x21"
definition op_APPENDARRAY :: "8 word" where "op_APPENDARRAY = 0x22"
definition op_COMPARITH :: "8 word" where "op_COMPARITH = 0x23"
definition op_INC :: "8 word" where "op_INC = 0x24"
definition op_INCL :: "8 word" where "op_INCL = 0x25"
definition op_PINC :: "8 word" where "op_PINC = 0x26"
definition op_PINCL :: "8 word" where "op_PINCL = 0x27"
definition op_CMP :: "8 word" where "op_CMP = 0x28"
definition op_EXISTS :: "8 word" where "op_EXISTS = 0x29"
definition op_INSTANCEOF :: "8 word" where "op_INSTANCEOF = 0x2A"
definition op_AND :: "8 word" where "op_AND = 0x2B"
definition op_OR :: "8 word" where "op_OR = 0x2C"
definition op_NEG :: "8 word" where "op_NEG = 0x2D"
definition op_NOT :: "8 word" where "op_NOT = 0x2E"
definition op_BWNOT :: "8 word" where "op_BWNOT = 0x2F"
definition op_CLOSURE :: "8 word" where "op_CLOSURE = 0x30"
definition op_YIELD :: "8 word" where "op_YIELD = 0x31"
definition op_RESUME :: "8 word" where "op_RESUME = 0x32"
definition op_FOREACH :: "8 word" where "op_FOREACH = 0x33"
definition op_POSTFOREACH :: "8 word" where "op_POSTFOREACH = 0x34"
definition op_CLONE :: "8 word" where "op_CLONE = 0x35"
definition op_TYPEOF :: "8 word" where "op_TYPEOF = 0x36"
definition op_PUSHTRAP :: "8 word" where "op_PUSHTRAP = 0x37"
definition op_POPTRAP :: "8 word" where "op_POPTRAP = 0x38"
definition op_THROW :: "8 word" where "op_THROW = 0x39"
definition op_NEWSLOTA :: "8 word" where "op_NEWSLOTA = 0x3A"
definition op_GETBASE :: "8 word" where "op_GETBASE = 0x3B"
definition op_CLOSE :: "8 word" where "op_CLOSE = 0x3C"

lemmas op_defs =
  op_LINE_def op_LOAD_def op_LOADINT_def op_LOADFLOAT_def op_DLOAD_def op_TAILCALL_def op_CALL_def
  op_PREPCALL_def op_PREPCALLK_def op_GETK_def op_MOVE_def op_NEWSLOT_def op_DELETE_def op_SET_def
  op_GET_def op_EQ_def op_NE_def op_ADD_def op_SUB_def op_MUL_def op_DIV_def op_MOD_def op_BITW_def
  op_RETURN_def op_LOADNULLS_def op_LOADROOT_def op_LOADBOOL_def op_DMOVE_def op_JMP_def op_JCMP_def
  op_JZ_def op_SETOUTER_def op_GETOUTER_def op_NEWOBJ_def op_APPENDARRAY_def op_COMPARITH_def
  op_INC_def op_INCL_def op_PINC_def op_PINCL_def op_CMP_def op_EXISTS_def op_INSTANCEOF_def
  op_AND_def op_OR_def op_NEG_def op_NOT_def op_BWNOT_def op_CLOSURE_def op_YIELD_def op_RESUME_def
  op_FOREACH_def op_POSTFOREACH_def op_CLONE_def op_TYPEOF_def op_PUSHTRAP_def op_POPTRAP_def
  op_THROW_def op_NEWSLOTA_def op_GETBASE_def op_CLOSE_def

text \<open>The constructor of \<^verbatim>\<open>SQInstruction\<close> narrows its arguments.\<close>

definition instr :: "8 word \<Rightarrow> int \<Rightarrow> int \<Rightarrow> int \<Rightarrow> int \<Rightarrow> sqinstruction" where
  "instr op a0 a1 a2 a3 =
     \<lparr> i_arg1 = word_of_int a1, i_op = op, i_arg0 = word_of_int a0, i_arg2 = word_of_int a2,
       i_arg3 = word_of_int a3 \<rparr>"

subsection \<open>State\<close>

record funcstate =
  fs_returnexp :: int
  fs_vlocals :: "sqlocalvarinfo list"
  fs_targetstack :: "int list"
  fs_stacksize :: int
  fs_varparams :: bool
  fs_bgenerator :: bool
  fs_unresolvedbreaks :: "int list"
  fs_unresolvedcontinues :: "int list"
  fs_functions :: "fproto list"
  fs_parameters :: "sval list"
  fs_outervalues :: "sqoutervar list"
  fs_instructions :: "sqinstruction list"
  fs_localvarinfos :: "sqlocalvarinfo list"
  fs_literals :: sqtable
  fs_strings :: sqtable
  fs_name :: sval
  fs_sourcename :: sval
  fs_nliterals :: int
  fs_lineinfos :: "sqlineinfo list"
  fs_nested :: bool
  fs_breaktargets :: "int list"
  fs_continuetargets :: "int list"
  fs_defaultparams :: "int list"
  fs_lastline :: sqint
  fs_traps :: int
  fs_outers :: int
  fs_optimization :: bool

type_synonym 'a fsm = "(funcstate, 'a) em"

text \<open>What the compiler uses of the rest of the engine: the hash of an object, \<^verbatim>\<open>_realval\<close>, the string
  table (the address of a string and the bytes at an address) and the address of a new table.\<close>

record comp_par =
  cp_hsh :: "sqobject \<Rightarrow> sqhash"
  cp_realval :: "sqobject \<Rightarrow> sqobject"
  cp_intern :: "sqchar list \<Rightarrow> addr"
  cp_strval :: "addr \<Rightarrow> sqchar list"
  cp_new :: "(addr \<Rightarrow> sqtable option) \<Rightarrow> addr"

definition str_object :: "comp_par \<Rightarrow> sqchar list \<Rightarrow> sqobject" where
  "str_object par s = OString (cp_intern par s)"

text \<open>\<^verbatim>\<open>fs_nested\<close> is \<^verbatim>\<open>_parent != NULL\<close>.\<close>

definition SQFuncState_new :: "bool \<Rightarrow> funcstate" where
  "SQFuncState_new nested =
     \<lparr> fs_returnexp = 0, fs_vlocals = [], fs_targetstack = [], fs_stacksize = 0, fs_varparams = False,
       fs_bgenerator = False, fs_unresolvedbreaks = [], fs_unresolvedcontinues = [], fs_functions = [],
       fs_parameters = [], fs_outervalues = [], fs_instructions = [], fs_localvarinfos = [],
       fs_literals = SQTable_new 0, fs_strings = SQTable_new 0, fs_name = VNull, fs_sourcename = VNull,
       fs_nliterals = 0, fs_lineinfos = [], fs_nested = nested, fs_breaktargets = [],
       fs_continuetargets = [], fs_defaultparams = [], fs_lastline = 0, fs_traps = 0, fs_outers = 0,
       fs_optimization = True \<rparr>"

subsection \<open>Literals and strings\<close>

definition GetConstant :: "comp_par \<Rightarrow> sqobject \<Rightarrow> int fsm" where
  "GetConstant par cons =
     c_bind (c_tbl (\<lambda>f. tbl_Get (cp_hsh par) (cp_realval par) (fs_literals f) cons)) (\<lambda>found.
       case found of
         Some val \<Rightarrow> c_ret (sint (rawval val))
       | None \<Rightarrow>
           c_bind (c_get fs_nliterals) (\<lambda>n.
           c_bind (c_tbl (\<lambda>f. NewSlot (cp_hsh par) (fs_literals f) cons (OInteger (word_of_int n)))) (\<lambda>(t, _).
           c_then (c_upd (\<lambda>f. f\<lparr> fs_literals := t, fs_nliterals := n + 1 \<rparr>))
             (if n + 1 > MAX_LITERALS then c_error ''internal compiler error: too many literals''
              else c_ret n))))"

definition GetNumericConstant_int :: "comp_par \<Rightarrow> sqint \<Rightarrow> int fsm" where
  "GetNumericConstant_int par cons = GetConstant par (OInteger cons)"

definition CreateString :: "comp_par \<Rightarrow> sqchar list \<Rightarrow> (sqchar list) fsm" where
  "CreateString par s =
     c_bind (c_tbl (\<lambda>f. NewSlot (cp_hsh par) (fs_strings f) (str_object par s) (OInteger 1))) (\<lambda>(t, _).
     c_then (c_upd (\<lambda>f. f\<lparr> fs_strings := t \<rparr>)) (c_ret s))"

text \<open>\<^verbatim>\<open>CreateTable\<close> keeps the new table, whose address is \<open>a\<close>, alive in \<^verbatim>\<open>_strings\<close>.\<close>

definition keep_table :: "comp_par \<Rightarrow> addr \<Rightarrow> unit fsm" where
  "keep_table par a =
     c_bind (c_tbl (\<lambda>f. NewSlot (cp_hsh par) (fs_strings f) (OTable a) (OInteger 1))) (\<lambda>(t, _).
     c_upd (\<lambda>f. f\<lparr> fs_strings := t \<rparr>))"

subsection \<open>Registers\<close>

definition empty_local :: sqlocalvarinfo where
  "empty_local = \<lparr> lv_name = VNull, lv_start_op = 0, lv_end_op = 0, lv_pos = 0 \<rparr>"

definition GetCurrentPos :: "funcstate \<Rightarrow> int" where
  "GetCurrentPos f = int (length (fs_instructions f)) - 1"

definition GetStackSize :: "funcstate \<Rightarrow> int" where
  "GetStackSize f = int (length (fs_vlocals f))"

definition AllocStackPos :: "int fsm" where
  "AllocStackPos =
     c_bind (c_get GetStackSize) (\<lambda>npos.
     c_then (c_upd (\<lambda>f. f\<lparr> fs_vlocals := fs_vlocals f @ [empty_local] \<rparr>))
     (c_then (c_if (\<lambda>f. npos + 1 > fs_stacksize f)
        (c_seq [
           c_if (\<lambda>f. fs_stacksize f > MAX_FUNC_STACKSIZE)
             (c_error ''internal compiler error: too many locals'') (c_ret ()),
           c_upd (\<lambda>f. f\<lparr> fs_stacksize := npos + 1 \<rparr>)])
        (c_ret ()))
      (c_ret npos)))"

definition push_target :: "int \<Rightarrow> funcstate \<Rightarrow> funcstate" where
  "push_target n f = f\<lparr> fs_targetstack := fs_targetstack f @ [n] \<rparr>"

text \<open>\<^verbatim>\<open>PushTarget(n)\<close> and, with the default argument, \<^verbatim>\<open>PushTarget()\<close>.\<close>

definition PushTarget :: "int \<Rightarrow> int fsm" where
  "PushTarget n =
     (if n \<noteq> -1 then c_then (c_upd (push_target n)) (c_ret n)
      else c_bind AllocStackPos (\<lambda>n. c_then (c_upd (push_target n)) (c_ret n)))"

definition NewTarget :: "int fsm" where "NewTarget = PushTarget (-1)"

definition GetUpTarget :: "int \<Rightarrow> int fsm" where
  "GetUpTarget n f =
     (let k = int (length (fs_targetstack f)) - 1 - n in
      if 0 \<le> k \<and> k < int (length (fs_targetstack f)) then (Inr (fs_targetstack f ! nat k), f)
      else (Inl Undefined, f))"

definition TopTarget :: "int fsm" where
  "TopTarget f = (if fs_targetstack f = [] then (Inl Undefined, f) else (Inr (last (fs_targetstack f)), f))"

definition PopTarget :: "int fsm" where
  "PopTarget =
     c_bind TopTarget (\<lambda>npos.
     c_then (c_if (\<lambda>f. 0 \<le> npos \<and> npos < GetStackSize f) (c_ret ()) (c_fail AssertFailed))
     (c_then (c_upd (\<lambda>f.
         if lv_name (fs_vlocals f ! nat npos) = VNull
         then f\<lparr> fs_vlocals := butlast (fs_vlocals f) \<rparr> else f))
     (c_then (c_upd (\<lambda>f. f\<lparr> fs_targetstack := butlast (fs_targetstack f) \<rparr>))
     (c_ret npos))))"

text \<open>The mark of a captured variable in \<^verbatim>\<open>_end_op\<close>.\<close>

definition UINT_MINUS_ONE :: squint where "UINT_MINUS_ONE = -1"

definition is_outer_local :: "sqlocalvarinfo \<Rightarrow> bool" where
  "is_outer_local l \<longleftrightarrow> lv_end_op l = UINT_MINUS_ONE"

text \<open>\<^verbatim>\<open>CountOuters\<close>: the loop runs from the last register down to \<open>stacksize\<close>.\<close>

definition CountOuters :: "int \<Rightarrow> funcstate \<Rightarrow> int" where
  "CountOuters stacksize f =
     int (length (filter is_outer_local (drop (nat stacksize) (fs_vlocals f))))"

text \<open>One round of \<^verbatim>\<open>SetStackSize\<close>: the last local goes out of scope.\<close>

definition drop_local :: "funcstate \<Rightarrow> funcstate" where
  "drop_local f =
     (let lvi = last (fs_vlocals f);
          f1 = f\<lparr> fs_vlocals := butlast (fs_vlocals f) \<rparr> in
      if lv_name lvi \<noteq> VNull then
        f1\<lparr> fs_outers := (if is_outer_local lvi then fs_outers f - 1 else fs_outers f),
           fs_localvarinfos := fs_localvarinfos f @ [lvi\<lparr> lv_end_op := word_of_int (GetCurrentPos f) \<rparr>] \<rparr>
      else f1)"

primrec drop_locals :: "nat \<Rightarrow> funcstate \<Rightarrow> funcstate" where
  "drop_locals 0 f = f"
| "drop_locals (Suc k) f = drop_locals k (drop_local f)"

definition SetStackSize :: "int \<Rightarrow> funcstate \<Rightarrow> funcstate" where
  "SetStackSize n f = drop_locals (length (fs_vlocals f) - nat n) f"

definition IsLocal :: "int \<Rightarrow> funcstate \<Rightarrow> bool" where
  "IsLocal stkpos f \<longleftrightarrow> 0 \<le> stkpos \<and> stkpos < GetStackSize f \<and> lv_name (fs_vlocals f ! nat stkpos) \<noteq> VNull"

subsection \<open>Variables\<close>

definition PushLocalVariable :: "sval \<Rightarrow> funcstate \<Rightarrow> int \<times> funcstate" where
  "PushLocalVariable name f =
     (let pos = GetStackSize f;
          lvi = \<lparr> lv_name = name, lv_start_op = word_of_int (GetCurrentPos f + 1), lv_end_op = 0,
                  lv_pos = word_of_int pos \<rparr> in
      (pos, f\<lparr> fs_vlocals := fs_vlocals f @ [lvi],
               fs_stacksize := (if pos + 1 > fs_stacksize f then pos + 1 else fs_stacksize f) \<rparr>))"

text \<open>\<^verbatim>\<open>GetLocalVariable\<close>: the loop from the last register down; \<open>-1\<close> when there is none.\<close>

fun find_local :: "sqchar list \<Rightarrow> sqlocalvarinfo list \<Rightarrow> nat \<Rightarrow> int" where
  "find_local name vs 0 = -1"
| "find_local name vs (Suc k) = (if lv_name (vs ! k) = VString name then int k else find_local name vs k)"

definition GetLocalVariable :: "sqchar list \<Rightarrow> funcstate \<Rightarrow> int" where
  "GetLocalVariable name f = find_local name (fs_vlocals f) (length (fs_vlocals f))"

definition MarkLocalAsOuter :: "int \<Rightarrow> funcstate \<Rightarrow> funcstate" where
  "MarkLocalAsOuter pos f =
     f\<lparr> fs_vlocals := (fs_vlocals f)[nat pos := (fs_vlocals f ! nat pos)\<lparr> lv_end_op := UINT_MINUS_ONE \<rparr>],
        fs_outers := fs_outers f + 1 \<rparr>"

text \<open>The loop over \<^verbatim>\<open>_outervalues\<close>.\<close>

fun find_outer :: "sqchar list \<Rightarrow> sqoutervar list \<Rightarrow> int \<Rightarrow> int" where
  "find_outer name [] i = -1"
| "find_outer name (ov # ovs) i = (if ov_name ov = VString name then i else find_outer name ovs (i + 1))"

definition otLOCAL :: "32 word" where "otLOCAL = 0"
definition otOUTER :: "32 word" where "otOUTER = 1"

definition add_outer :: "sqchar list \<Rightarrow> 32 word \<Rightarrow> int \<Rightarrow> funcstate \<Rightarrow> int \<times> funcstate" where
  "add_outer name ty pos f =
     (int (length (fs_outervalues f)),
      f\<lparr> fs_outervalues := fs_outervalues f @
           [\<lparr> ov_type = ty, ov_name = VString name, ov_src = VInt (word_of_int pos) \<rparr>] \<rparr>)"

text \<open>\<^verbatim>\<open>GetOuterVariable\<close> of the first state of the list, whose parents follow it.\<close>

fun GetOuterVariable :: "sqchar list \<Rightarrow> funcstate list \<Rightarrow> int \<times> funcstate list" where
  "GetOuterVariable name [] = (-1, [])"
| "GetOuterVariable name [f] = (find_outer name (fs_outervalues f) 0, [f])"
| "GetOuterVariable name (f # p # ps) =
     (let i = find_outer name (fs_outervalues f) 0; pos = GetLocalVariable name p in
      if i \<noteq> -1 then (i, f # p # ps)
      else if pos = -1 then
        (case GetOuterVariable name (p # ps) of (pos, ps') \<Rightarrow>
           if pos \<noteq> -1 then (case add_outer name otOUTER pos f of (k, f') \<Rightarrow> (k, f' # ps'))
           else (-1, f # ps'))
      else (case add_outer name otLOCAL pos f of (k, f') \<Rightarrow> (k, f' # MarkLocalAsOuter pos p # ps)))"

definition AddParameter :: "sqchar list \<Rightarrow> funcstate \<Rightarrow> funcstate" where
  "AddParameter name f =
     (let f1 = snd (PushLocalVariable (VString name) f)
      in f1\<lparr> fs_parameters := fs_parameters f1 @ [VString name] \<rparr>)"

definition AddDefaultParam :: "int \<Rightarrow> funcstate \<Rightarrow> funcstate" where
  "AddDefaultParam trg f = f\<lparr> fs_defaultparams := fs_defaultparams f @ [trg] \<rparr>"

subsection \<open>Instructions\<close>

definition put_instr :: "int \<Rightarrow> (sqinstruction \<Rightarrow> sqinstruction) \<Rightarrow> unit fsm" where
  "put_instr pos g f =
     (if 0 \<le> pos \<and> pos < int (length (fs_instructions f))
      then (Inr (), f\<lparr> fs_instructions := (fs_instructions f)[nat pos := g (fs_instructions f ! nat pos)] \<rparr>)
      else (Inl Undefined, f))"

definition SetInstructionParams :: "int \<Rightarrow> int \<Rightarrow> int \<Rightarrow> int \<Rightarrow> int \<Rightarrow> unit fsm" where
  "SetInstructionParams pos a0 a1 a2 a3 =
     put_instr pos (\<lambda>i. i\<lparr> i_arg0 := word_of_int a0, i_arg1 := word_of_int a1,
                           i_arg2 := word_of_int a2, i_arg3 := word_of_int a3 \<rparr>)"

definition set_arg :: "int \<Rightarrow> int \<Rightarrow> sqinstruction \<Rightarrow> sqinstruction" where
  "set_arg arg val i =
     (if arg = 0 then i\<lparr> i_arg0 := word_of_int val \<rparr>
      else if arg = 1 \<or> arg = 4 then i\<lparr> i_arg1 := word_of_int val \<rparr>
      else if arg = 2 then i\<lparr> i_arg2 := word_of_int val \<rparr>
      else if arg = 3 then i\<lparr> i_arg3 := word_of_int val \<rparr>
      else i)"

definition SetInstructionParam :: "int \<Rightarrow> int \<Rightarrow> int \<Rightarrow> unit fsm" where
  "SetInstructionParam pos arg val = put_instr pos (set_arg arg val)"

text \<open>
  The peephole optimiser of \<^verbatim>\<open>AddInstruction\<close>: what becomes of the previous instruction \<open>pi\<close> and the
  new one \<open>i\<close>.  \<open>Merged\<close>: one instruction stands for both; \<open>MergedOnce\<close>: the same, and the next
  instruction is not merged with it; \<open>Kept\<close>: both stay, perhaps changed; \<open>Relined\<close>: the previous
  one goes with its line information.
\<close>

datatype peep = Merged sqinstruction | MergedOnce sqinstruction | Kept sqinstruction sqinstruction | Relined

text \<open>The previous instruction loads the temporary register \<open>r\<close> from the literals.\<close>

definition loads_temp :: "funcstate \<Rightarrow> sqinstruction \<Rightarrow> int \<Rightarrow> bool" where
  "loads_temp f pi r \<longleftrightarrow> i_op pi = op_LOAD \<and> uint (i_arg0 pi) = r \<and> \<not> IsLocal (uint (i_arg0 pi)) f"

definition peep_assign :: "sqinstruction \<Rightarrow> sqinstruction \<Rightarrow> peep" where
  "peep_assign pi i =
     (if (i_op i = op_SET \<or> i_op i = op_NEWSLOT) \<and> i_arg0 i = i_arg3 i \<or>
         i_op i = op_SETOUTER \<and> i_arg0 i = i_arg2 i
      then Kept pi (i\<lparr> i_arg0 := 0xFF \<rparr>) else Kept pi i)"

definition peep_return :: "funcstate \<Rightarrow> sqinstruction \<Rightarrow> sqinstruction \<Rightarrow> peep" where
  "peep_return f pi i =
     (if fs_nested f \<and> uint (i_arg0 i) \<noteq> MAX_FUNC_STACKSIZE \<and> i_op pi = op_CALL \<and>
         fs_returnexp f < int (length (fs_instructions f)) - 1
      then Kept (pi\<lparr> i_op := op_TAILCALL \<rparr>) i
      else if i_op pi = op_CLOSE then Merged i else Kept pi i)"

definition peep_append :: "funcstate \<Rightarrow> sqinstruction \<Rightarrow> sqinstruction \<Rightarrow> peep" where
  "peep_append f pi i =
     (let aat = (if i_op pi = op_LOAD then 1 else if i_op pi = op_LOADINT then 2
                 else if i_op pi = op_LOADBOOL then 4 else if i_op pi = op_LOADFLOAT then 3 else -1) in
      if aat \<noteq> -1 \<and> uint (i_arg0 pi) = sint (i_arg1 i) \<and> \<not> IsLocal (uint (i_arg0 pi)) f
      then Merged (pi\<lparr> i_op := op_APPENDARRAY, i_arg0 := i_arg0 i, i_arg2 := word_of_int aat,
                      i_arg3 := word_of_int MAX_FUNC_STACKSIZE \<rparr>)
      else Kept pi i)"

definition peep_move :: "sqinstruction \<Rightarrow> sqinstruction \<Rightarrow> peep" where
  "peep_move pi i =
     (if i_op pi \<in> {op_GET, op_ADD, op_SUB, op_MUL, op_DIV, op_MOD, op_BITW, op_LOADINT, op_LOADFLOAT,
                    op_LOADBOOL, op_LOAD} \<and> uint (i_arg0 pi) = sint (i_arg1 i)
      then MergedOnce (pi\<lparr> i_arg0 := i_arg0 i \<rparr>)
      else if i_op pi = op_MOVE
      then Merged (pi\<lparr> i_op := op_DMOVE, i_arg2 := i_arg0 i, i_arg3 := ucast (i_arg1 i) \<rparr>)
      else Kept pi i)"

definition peephole :: "funcstate \<Rightarrow> sqinstruction \<Rightarrow> sqinstruction \<Rightarrow> peep" where
  "peephole f pi i =
     (let op = i_op i in
      if op = op_JZ then
        (if i_op pi = op_CMP \<and> sint (i_arg1 pi) < 0xFF
         then Merged (pi\<lparr> i_op := op_JCMP, i_arg0 := ucast (i_arg1 pi), i_arg1 := i_arg1 i \<rparr>)
         else Kept pi i)
      else if op = op_SET \<or> op = op_NEWSLOT \<or> op = op_SETOUTER then peep_assign pi i
      else if op = op_RETURN then peep_return f pi i
      else if op = op_GET then
        (if loads_temp f pi (uint (i_arg2 i))
         then Merged (pi\<lparr> i_arg2 := ucast (i_arg1 i), i_op := op_GETK, i_arg0 := i_arg0 i \<rparr>)
         else Kept pi i)
      else if op = op_PREPCALL then
        (if loads_temp f pi (sint (i_arg1 i))
         then Merged (pi\<lparr> i_op := op_PREPCALLK, i_arg0 := i_arg0 i, i_arg2 := i_arg2 i, i_arg3 := i_arg3 i \<rparr>)
         else Kept pi i)
      else if op = op_APPENDARRAY then peep_append f pi i
      else if op = op_MOVE then peep_move pi i
      else if op = op_LOAD then
        (if i_op pi = op_LOAD \<and> sint (i_arg1 i) < 256
         then Merged (pi\<lparr> i_op := op_DLOAD, i_arg2 := i_arg0 i, i_arg3 := ucast (i_arg1 i) \<rparr>)
         else Kept pi i)
      else if op = op_EQ \<or> op = op_NE then
        (if loads_temp f pi (sint (i_arg1 i))
         then Merged (pi\<lparr> i_op := op, i_arg0 := i_arg0 i, i_arg2 := i_arg2 i,
                         i_arg3 := word_of_int MAX_FUNC_STACKSIZE \<rparr>)
         else Kept pi i)
      else if op = op_LOADNULLS then
        (if i_op pi = op_LOADNULLS \<and> uint (i_arg0 pi) + sint (i_arg1 pi) = uint (i_arg0 i)
         then Merged (pi\<lparr> i_arg1 := i_arg1 pi + 1 \<rparr>) else Kept pi i)
      else if op = op_LINE then (if i_op pi = op_LINE then Relined else Kept pi i)
      else Kept pi i)"

definition AddInstr :: "sqinstruction \<Rightarrow> unit fsm" where
  "AddInstr i f =
     (let is = fs_instructions f in
      if is \<noteq> [] \<and> fs_optimization f then
        (case peephole f (last is) i of
           Merged pi \<Rightarrow> (Inr (), f\<lparr> fs_instructions := butlast is @ [pi] \<rparr>)
         | MergedOnce pi \<Rightarrow> (Inr (), f\<lparr> fs_instructions := butlast is @ [pi], fs_optimization := False \<rparr>)
         | Kept pi i' \<Rightarrow> (Inr (), f\<lparr> fs_instructions := butlast is @ [pi, i'], fs_optimization := True \<rparr>)
         | Relined \<Rightarrow>
             if fs_lineinfos f = [] then (Inl Undefined, f)
             else (Inr (), f\<lparr> fs_instructions := butlast is @ [i], fs_lineinfos := butlast (fs_lineinfos f),
                             fs_optimization := True \<rparr>))
      else (Inr (), f\<lparr> fs_instructions := is @ [i], fs_optimization := True \<rparr>))"

definition AddInstruction :: "8 word \<Rightarrow> int \<Rightarrow> int \<Rightarrow> int \<Rightarrow> int \<Rightarrow> unit fsm" where
  "AddInstruction op a0 a1 a2 a3 = AddInstr (instr op a0 a1 a2 a3)"

definition PopInstructions :: "int \<Rightarrow> unit fsm" where
  "PopInstructions n f =
     (if n \<le> int (length (fs_instructions f))
      then (Inr (), f\<lparr> fs_instructions := take (length (fs_instructions f) - nat n) (fs_instructions f) \<rparr>)
      else (Inl Undefined, f))"

definition GetInstruction :: "int \<Rightarrow> sqinstruction fsm" where
  "GetInstruction pos f =
     (if 0 \<le> pos \<and> pos < int (length (fs_instructions f)) then (Inr (fs_instructions f ! nat pos), f)
      else (Inl Undefined, f))"

definition SnoozeOpt :: "funcstate \<Rightarrow> funcstate" where
  "SnoozeOpt f = f\<lparr> fs_optimization := False \<rparr>"

definition DiscardTarget :: "unit fsm" where
  "DiscardTarget =
     c_bind PopTarget (\<lambda>discardedtarget.
     c_upd (\<lambda>f. let is = fs_instructions f; pi = last is in
       if is \<noteq> [] \<and> fs_optimization f \<and> i_op pi \<in> {op_SET, op_NEWSLOT, op_SETOUTER, op_CALL} \<and>
          uint (i_arg0 pi) = discardedtarget
       then f\<lparr> fs_instructions := butlast is @ [pi\<lparr> i_arg0 := 0xFF \<rparr>] \<rparr> else f))"

definition AddLineInfos :: "sqint \<Rightarrow> bool \<Rightarrow> bool \<Rightarrow> unit fsm" where
  "AddLineInfos line lineop force f =
     (if fs_lastline f \<noteq> line \<or> force then
        (let li = \<lparr> li_line = line, li_op = word_of_int (GetCurrentPos f + 1) \<rparr> in
         c_seq [
           c_when lineop (AddInstruction op_LINE 0 (sint line) 0 0),
           c_upd (\<lambda>f1. (if fs_lastline f1 \<noteq> line then f1\<lparr> fs_lineinfos := fs_lineinfos f1 @ [li] \<rparr> else f1)
                         \<lparr> fs_lastline := line \<rparr>)] f)
      else (Inr (), f))"

subsection \<open>The function prototype\<close>

text \<open>An object as the data of a prototype; objects that are not data keep their type only.\<close>

fun sval_of :: "comp_par \<Rightarrow> sqobject \<Rightarrow> sval" where
  "sval_of par ONull = VNull"
| "sval_of par (OInteger i) = VInt i"
| "sval_of par (OFloat x) = VFloat x"
| "sval_of par (OBool b) = VBool (if b then 1 else 0)"
| "sval_of par (OString a) = VString (cp_strval par a)"
| "sval_of par x = VOther (sq_type x)"

text \<open>The loop over the table of literals that fills the array from the position stored with each.\<close>

function build_literals :: "comp_par \<Rightarrow> sqtable \<Rightarrow> nat \<Rightarrow> sval list \<Rightarrow> sval list option" where
  "build_literals par t idx lits =
     (case tbl_next_from (nodes t) (numofnodes t) idx of
        None \<Rightarrow> Some lits
      | Some i \<Rightarrow>
          (let k = sint (rawval (cp_realval par (nd_val (nodes t ! i)))) in
           if 0 \<le> k \<and> k < int (length lits)
           then build_literals par t (Suc i) (lits[nat k := sval_of par (nd_key (nodes t ! i))])
           else None))"
  by pat_completeness auto
termination
  by (relation "measure (\<lambda>(par, t, idx, lits). numofnodes t - idx)") (auto dest!: tbl_next_from_bounds)

declare build_literals.simps [simp del]

definition BuildProto :: "comp_par \<Rightarrow> fproto fsm" where
  "BuildProto par =
     c_bind (c_tbl (\<lambda>f. build_literals par (fs_literals f) 0 (replicate (nat (fs_nliterals f)) VNull))) (\<lambda>lits.
     c_get (\<lambda>f. FProto \<lparr> fp_sourcename = fs_sourcename f, fp_name = fs_name f,
         fp_stacksize = word_of_int (fs_stacksize f), fp_bgenerator = fs_bgenerator f,
         fp_varparams = (if fs_varparams f then 1 else 0), fp_localvarinfos = fs_localvarinfos f,
         fp_lineinfos = fs_lineinfos f, fp_literals = lits, fp_parameters = fs_parameters f,
         fp_outervalues = fs_outervalues f, fp_defaultparams = map word_of_int (fs_defaultparams f),
         fp_instructions = fs_instructions f \<rparr> (fs_functions f)))"

subsection \<open>Named constants\<close>

text \<open>\<^verbatim>\<open>IsConstant\<close>: the entry of the table of constants.\<close>

definition IsConstant :: "comp_par \<Rightarrow> sqtable \<Rightarrow> sqchar list \<Rightarrow> sqobject option option" where
  "IsConstant par consts name = tbl_Get (cp_hsh par) (cp_realval par) consts (str_object par name)"

end
