(* ===== verification/Sq_Compiler.thy ===== *)
theory Sq_Compiler
  imports Sq_FuncState Sq_Lexer
begin

text \<open>
  The compiler \<^verbatim>\<open>SQCompiler\<close> (\<^verbatim>\<open>sqcompiler.cpp\<close>): a recursive descent over the tokens of the lexer that
  emits instructions through \<open>Sq_FuncState\<close>.  Every function of the class is a definition; the calls
  that close a cycle of the grammar, and the loops, go through the parameter \<open>rec\<close>, the function that
  \<open>run_call\<close> ties with the recursion depth as fuel.

  Where C++ leaves the order of the arguments of a call open, they are evaluated from left to right.
  The results of \<^verbatim>\<open>Factor\<close>, which nothing uses, are left out.  \<^verbatim>\<open>_es\<close> is not initialised by the code and
  starts with what the memory holds.
\<close>

subsection \<open>State\<close>

datatype etype = EXPR | OBJECT | BASE | LOCAL | OUTER

record expstate =
  es_etype :: etype
  es_epos :: int
  es_donot_get :: bool

record scope =
  sc_outers :: int
  sc_stacksize :: int

record compiler =
  cc_token :: sqint
  cc_fs :: funcstate
  cc_parents :: "funcstate list"
  cc_lex :: lexer
  cc_lineinfo :: bool
  cc_es :: expstate
  cc_scope :: scope
  cc_sourcename :: "sqchar list"
  cc_tables :: "addr \<Rightarrow> sqtable option"
  cc_consts :: addr

type_synonym 'a cm = "(compiler, 'a) em"

definition on_fs :: "'a fsm \<Rightarrow> 'a cm" where
  "on_fs m s = (case m (cc_fs s) of (r, f) \<Rightarrow> (r, s\<lparr> cc_fs := f \<rparr>))"

definition fs_upd :: "(funcstate \<Rightarrow> funcstate) \<Rightarrow> unit cm" where
  "fs_upd g s = (Inr (), s\<lparr> cc_fs := g (cc_fs s) \<rparr>)"

definition fs_get :: "(funcstate \<Rightarrow> 'a) \<Rightarrow> 'a cm" where
  "fs_get g s = (Inr (g (cc_fs s)), s)"

definition emit :: "8 word \<Rightarrow> int \<Rightarrow> int \<Rightarrow> int \<Rightarrow> int \<Rightarrow> unit cm" where
  "emit op a0 a1 a2 a3 = on_fs (AddInstruction op a0 a1 a2 a3)"

definition token_is :: "sqint \<Rightarrow> compiler \<Rightarrow> bool" where
  "token_is t s \<longleftrightarrow> cc_token s = t"

definition pop_target :: "int cm" where "pop_target = on_fs PopTarget"
definition new_target :: "int cm" where "new_target = on_fs NewTarget"
definition top_target :: "int cm" where "top_target = on_fs TopTarget"
definition drop_target :: "unit cm" where "drop_target = c_bind pop_target (\<lambda>_. c_ret ())"
definition cur_pos :: "int cm" where "cur_pos = fs_get GetCurrentPos"

subsection \<open>Tokens and errors\<close>

definition MAX_COMPILER_ERROR_LEN :: nat where "MAX_COMPILER_ERROR_LEN = 256"

definition Error :: "sqchar list \<Rightarrow> 'a cm" where
  "Error msg = c_fail (CompileError (take (MAX_COMPILER_ERROR_LEN - 1) msg))"

definition Error_str :: "string \<Rightarrow> 'a cm" where
  "Error_str msg = Error (bytes_of msg)"

definition NextToken :: "comp_par \<Rightarrow> unit cm" where
  "NextToken par s =
     (case Lex (cp_strval par) (cp_realval par) (cc_lex s) of
        Inl (msg, l) \<Rightarrow> Error_str msg (s\<lparr> cc_lex := l \<rparr>)
      | Inr (t, l) \<Rightarrow> (Inr (), s\<lparr> cc_token := t, cc_lex := l \<rparr>))"

definition sv_ident :: "compiler \<Rightarrow> sqchar list" where
  "sv_ident s = cstr (longstr (cc_lex s))"

definition sv_literal :: "compiler \<Rightarrow> sqchar list" where
  "sv_literal s = butlast (longstr (cc_lex s))"

definition tok_name :: "comp_par \<Rightarrow> compiler \<Rightarrow> sqint \<Rightarrow> sqchar list" where
  "tok_name par s tok =
     (if tok = TK_IDENTIFIER then bytes_of ''IDENTIFIER''
      else if tok = TK_STRING_LITERAL then bytes_of ''STRING_LITERAL''
      else if tok = TK_INTEGER then bytes_of ''INTEGER''
      else if tok = TK_FLOAT then bytes_of ''FLOAT''
      else (case Tok2Str (cp_strval par) (cc_lex s) tok of Some n \<Rightarrow> n | None \<Rightarrow> bytes_of ''(null)''))"

definition expected :: "comp_par \<Rightarrow> sqint \<Rightarrow> compiler \<Rightarrow> sqchar list" where
  "expected par tok s =
     bytes_of ''expected '' @ [39] @ (if sint tok > 255 then tok_name par s tok else [ucast tok]) @ [39]"

definition create_string :: "comp_par \<Rightarrow> sqchar list \<Rightarrow> unit cm" where
  "create_string par s = c_bind (on_fs (CreateString par s)) (\<lambda>_. c_ret ())"

text \<open>\<^verbatim>\<open>Expect\<close>; the string object is kept by its bytes.\<close>

definition Expect :: "comp_par \<Rightarrow> sqint \<Rightarrow> sval cm" where
  "Expect par tok =
     c_then (c_if (\<lambda>s. cc_token s \<noteq> tok \<and> \<not> (cc_token s = TK_CONSTRUCTOR \<and> tok = TK_IDENTIFIER))
               (c_with (expected par tok) Error) (c_ret ()))
     (c_with (\<lambda>s.
         if tok = TK_IDENTIFIER then VString (sv_ident s)
         else if tok = TK_STRING_LITERAL then VString (sv_literal s)
         else if tok = TK_INTEGER then VInt (nvalue (cc_lex s))
         else if tok = TK_FLOAT then VFloat (fvalue (cc_lex s)) else VNull) (\<lambda>ret.
      c_then (case ret of VString b \<Rightarrow> create_string par b | _ \<Rightarrow> c_ret ())
     (c_then (NextToken par) (c_ret ret))))"

definition ExpectTok :: "comp_par \<Rightarrow> sqint \<Rightarrow> unit cm" where
  "ExpectTok par tok = c_bind (Expect par tok) (\<lambda>_. c_ret ())"

definition expect_char :: "comp_par \<Rightarrow> char \<Rightarrow> unit cm" where
  "expect_char par c = ExpectTok par (tokc c)"

definition sv_bytes :: "sval \<Rightarrow> sqchar list" where
  "sv_bytes v = (case v of VString b \<Rightarrow> b | _ \<Rightarrow> [])"

definition expect_name :: "comp_par \<Rightarrow> (sqchar list) cm" where
  "expect_name par = c_bind (Expect par TK_IDENTIFIER) (\<lambda>v. c_ret (sv_bytes v))"

definition IsEndOfStatement :: "compiler \<Rightarrow> bool" where
  "IsEndOfStatement s \<longleftrightarrow>
     prevtoken (cc_lex s) = 10 \<or> cc_token s = 0 \<or> cc_token s = tokc CHR ''}'' \<or> cc_token s = tokc CHR '';''"

definition OptionalSemicolon :: "comp_par \<Rightarrow> unit cm" where
  "OptionalSemicolon par = c_if (token_is (tokc CHR '';'')) (NextToken par) (c_ret ())"

text \<open>\<^verbatim>\<open>if(_lex._prevtoken != '}' && _lex._prevtoken != ';') OptionalSemicolon()\<close>\<close>

definition end_statement :: "comp_par \<Rightarrow> unit cm" where
  "end_statement par =
     c_if (\<lambda>s. prevtoken (cc_lex s) \<noteq> tokc CHR ''}'' \<and> prevtoken (cc_lex s) \<noteq> tokc CHR '';'')
       (OptionalSemicolon par) (c_ret ())"

subsection \<open>Scopes and jumps\<close>

definition BEGIN_SCOPE :: "scope cm" where
  "BEGIN_SCOPE =
     c_with cc_scope (\<lambda>oldscope.
     c_then (c_upd (\<lambda>s. s\<lparr> cc_scope := \<lparr> sc_outers = fs_outers (cc_fs s),
                                            sc_stacksize = GetStackSize (cc_fs s) \<rparr> \<rparr>))
     (c_ret oldscope))"

definition scope_size :: "compiler \<Rightarrow> int" where
  "scope_size s = sc_stacksize (cc_scope s)"

definition scope_grown :: "compiler \<Rightarrow> bool" where
  "scope_grown s \<longleftrightarrow> GetStackSize (cc_fs s) \<noteq> scope_size s"

definition RESOLVE_OUTERS :: "unit cm" where
  "RESOLVE_OUTERS =
     c_if (\<lambda>s. scope_grown s \<and> CountOuters (scope_size s) (cc_fs s) \<noteq> 0)
       (c_with scope_size (\<lambda>n. emit op_CLOSE 0 n 0 0)) (c_ret ())"

definition END_SCOPE_NO_CLOSE :: "scope \<Rightarrow> unit cm" where
  "END_SCOPE_NO_CLOSE oldscope =
     c_seq [
       c_if scope_grown (c_with scope_size (\<lambda>n. fs_upd (SetStackSize n))) (c_ret ()),
       c_upd (\<lambda>s. s\<lparr> cc_scope := oldscope \<rparr>)]"

definition END_SCOPE :: "scope \<Rightarrow> unit cm" where
  "END_SCOPE oldscope =
     c_bind (fs_get fs_outers) (\<lambda>oldouters.
     c_seq [
       c_if scope_grown
         (c_seq [
            (c_with scope_size (\<lambda>n. fs_upd (SetStackSize n))),
            c_if (\<lambda>s. oldouters \<noteq> fs_outers (cc_fs s)) (c_with scope_size (\<lambda>n. emit op_CLOSE 0 n 0 0)) (c_ret ())])
         (c_ret ()),
       c_upd (\<lambda>s. s\<lparr> cc_scope := oldscope \<rparr>)])"

definition add_line_infos :: "sqint \<Rightarrow> bool \<Rightarrow> unit cm" where
  "add_line_infos line force = c_with cc_lineinfo (\<lambda>lineop. on_fs (AddLineInfos line lineop force))"

definition set_param :: "int \<Rightarrow> int \<Rightarrow> int \<Rightarrow> unit cm" where
  "set_param pos arg val = on_fs (SetInstructionParam pos arg val)"

text \<open>\<^verbatim>\<open>SetInstructionParam(pos, 1, GetCurrentPos() - base)\<close>\<close>

definition jump_here :: "int \<Rightarrow> int \<Rightarrow> unit cm" where
  "jump_here pos base = c_bind cur_pos (\<lambda>p. set_param pos 1 (p - base))"

definition ResolveBreak :: "unit fsm" where
  "ResolveBreak =
     c_with fs_unresolvedbreaks (\<lambda>ub.
       if ub = [] then c_fail Undefined
       else c_then (c_upd (\<lambda>f. f\<lparr> fs_unresolvedbreaks := butlast ub \<rparr>))
              (c_with GetCurrentPos (\<lambda>p. SetInstructionParams (last ub) 0 (p - last ub) 0 0)))"

definition ResolveContinue :: "int \<Rightarrow> unit fsm" where
  "ResolveContinue targetpos =
     c_with fs_unresolvedcontinues (\<lambda>uc.
       if uc = [] then c_fail Undefined
       else c_then (c_upd (\<lambda>f. f\<lparr> fs_unresolvedcontinues := butlast uc \<rparr>))
              (SetInstructionParams (last uc) 0 (targetpos - last uc) 0 0))"

definition ResolveBreaks :: "int \<Rightarrow> unit cm" where
  "ResolveBreaks ntoresolve = c_repeat (nat ntoresolve) (on_fs ResolveBreak)"

definition ResolveContinues :: "int \<Rightarrow> int \<Rightarrow> unit cm" where
  "ResolveContinues ntoresolve targetpos = c_repeat (nat ntoresolve) (on_fs (ResolveContinue targetpos))"

definition nbreaks :: "int cm" where "nbreaks = fs_get (\<lambda>f. int (length (fs_unresolvedbreaks f)))"
definition ncontinues :: "int cm" where "ncontinues = fs_get (\<lambda>f. int (length (fs_unresolvedcontinues f)))"

definition push_breaktarget :: "unit cm" where
  "push_breaktarget = fs_upd (\<lambda>f. f\<lparr> fs_breaktargets := fs_breaktargets f @ [0] \<rparr>)"

definition push_continuetarget :: "unit cm" where
  "push_continuetarget = fs_upd (\<lambda>f. f\<lparr> fs_continuetargets := fs_continuetargets f @ [0] \<rparr>)"

definition pop_breaktarget :: "unit cm" where
  "pop_breaktarget = on_fs (\<lambda>f. if fs_breaktargets f = [] then (Inl Undefined, f)
     else (Inr (), f\<lparr> fs_breaktargets := butlast (fs_breaktargets f) \<rparr>))"

definition pop_continuetarget :: "unit cm" where
  "pop_continuetarget = on_fs (\<lambda>f. if fs_continuetargets f = [] then (Inl Undefined, f)
     else (Inr (), f\<lparr> fs_continuetargets := butlast (fs_continuetargets f) \<rparr>))"

definition BEGIN_BREAKBLE_BLOCK :: "(int \<times> int) cm" where
  "BEGIN_BREAKBLE_BLOCK =
     c_bind nbreaks (\<lambda>nb. c_bind ncontinues (\<lambda>nc.
     c_then push_breaktarget (c_then push_continuetarget (c_ret (nb, nc)))))"

definition END_BREAKBLE_BLOCK :: "int \<times> int \<Rightarrow> int \<Rightarrow> unit cm" where
  "END_BREAKBLE_BLOCK nbc continue_target =
     c_bind nbreaks (\<lambda>nb. c_bind ncontinues (\<lambda>nc.
     c_seq [
       c_when (nc - snd nbc > 0) (ResolveContinues (nc - snd nbc) continue_target),
       c_when (nb - fst nbc > 0) (ResolveBreaks (nb - fst nbc)),
       pop_breaktarget, pop_continuetarget]))"

text \<open>\<^verbatim>\<open>if(_breaktargets.size()) _breaktargets.top() += d\<close>, and the same for \<^verbatim>\<open>_continuetargets\<close>.\<close>

definition add_last :: "int \<Rightarrow> int list \<Rightarrow> int list" where
  "add_last d xs = (if xs = [] then xs else butlast xs @ [last xs + d])"

definition count_traps :: "int \<Rightarrow> unit cm" where
  "count_traps d = fs_upd (\<lambda>f. f\<lparr> fs_breaktargets := add_last d (fs_breaktargets f),
                                   fs_continuetargets := add_last d (fs_continuetargets f) \<rparr>)"

subsection \<open>Recursive calls\<close>

datatype call =
    CallStatement bool | CallStatements | CallCommaExpr | CallExpression
  | CallLogicalOrExp | CallLogicalAndExp | CallPrefixedExpr
  | LoopBitwiseOr | LoopBitwiseXor | LoopBitwiseAnd | LoopEq | LoopComp | LoopShift | LoopPlus | LoopMult
  | LoopPrefixed
  | LoopCallArgs int bool | LoopCallInit int
  | LoopArray int int
  | CallTableOrClass sqint sqint | LoopTableOrClass sqint sqint int int
  | LoopLocals | LoopSwitch int bool int int int
  | LoopFunctionName "sqchar list" | LoopEnum "sqchar list" addr sqint
  | LoopParams funcstate int int
  | LoopProgram

type_synonym recf = "call \<Rightarrow> unit cm"

subsection \<open>Emitting\<close>

definition get_const :: "comp_par \<Rightarrow> sqobject \<Rightarrow> int cm" where
  "get_const par x = on_fs (GetConstant par x)"

text \<open>\<^verbatim>\<open>AddInstruction(_OP_LOAD, PushTarget(), GetConstant(name))\<close>\<close>

definition load_string :: "comp_par \<Rightarrow> (sqchar list) cm \<Rightarrow> unit cm" where
  "load_string par m =
     c_bind new_target (\<lambda>t. c_bind m (\<lambda>b. c_bind (get_const par (str_object par b)) (\<lambda>k.
       emit op_LOAD t k 0 0)))"

definition created :: "comp_par \<Rightarrow> sqchar list \<Rightarrow> (sqchar list) cm" where
  "created par b = c_then (create_string par b) (c_ret b)"

definition MoveIfCurrentTargetIsLocal :: "unit cm" where
  "MoveIfCurrentTargetIsLocal =
     c_bind top_target (\<lambda>trg.
       c_if (\<lambda>s. IsLocal trg (cc_fs s))
         (c_bind pop_target (\<lambda>trg. c_bind new_target (\<lambda>t. emit op_MOVE t trg 0 0)))
         (c_ret ()))"

definition EmitDerefOp :: "8 word \<Rightarrow> unit cm" where
  "EmitDerefOp op =
     c_bind pop_target (\<lambda>val. c_bind pop_target (\<lambda>key. c_bind pop_target (\<lambda>src.
     c_bind new_target (\<lambda>t. emit op t src key val))))"

definition Emit2ArgsOP :: "8 word \<Rightarrow> int \<Rightarrow> unit cm" where
  "Emit2ArgsOP op p3 =
     c_bind pop_target (\<lambda>p2. c_bind pop_target (\<lambda>p1. c_bind new_target (\<lambda>t. emit op t p1 p2 p3)))"

text \<open>\<^verbatim>\<open>None\<close>: the assertion.\<close>

definition ChooseArithOpByToken :: "sqint \<Rightarrow> (8 word) option" where
  "ChooseArithOpByToken tok =
     (if tok = TK_PLUSEQ \<or> tok = tokc CHR ''+'' then Some op_ADD
      else if tok = TK_MINUSEQ \<or> tok = tokc CHR ''-'' then Some op_SUB
      else if tok = TK_MULEQ \<or> tok = tokc CHR ''*'' then Some op_MUL
      else if tok = TK_DIVEQ \<or> tok = tokc CHR ''/'' then Some op_DIV
      else if tok = TK_MODEQ \<or> tok = tokc CHR ''%'' then Some op_MOD
      else None)"

definition ChooseCompArithCharByToken :: "sqint \<Rightarrow> char option" where
  "ChooseCompArithCharByToken tok =
     (if tok = TK_MINUSEQ then Some CHR ''-'' else if tok = TK_PLUSEQ then Some CHR ''+''
      else if tok = TK_MULEQ then Some CHR ''*'' else if tok = TK_DIVEQ then Some CHR ''/''
      else if tok = TK_MODEQ then Some CHR ''%'' else None)"

definition c_some :: "'a option \<Rightarrow> 'a cm" where
  "c_some x = (case x of None \<Rightarrow> c_fail AssertFailed | Some y \<Rightarrow> c_ret y)"

definition snooze :: "unit cm" where "snooze = fs_upd SnoozeOpt"

definition EmitCompoundArith :: "sqint \<Rightarrow> etype \<Rightarrow> int \<Rightarrow> unit cm" where
  "EmitCompoundArith tok ty pos =
     (case ty of
        LOCAL \<Rightarrow>
          c_bind pop_target (\<lambda>p2. c_bind pop_target (\<lambda>p1. c_bind (on_fs (PushTarget p1)) (\<lambda>_.
          c_bind (c_some (ChooseArithOpByToken tok)) (\<lambda>op.
          c_seq [emit op p1 p2 p1 0, snooze]))))
      | OUTER \<Rightarrow>
          c_bind top_target (\<lambda>val. c_bind new_target (\<lambda>tmp.
          c_bind (c_some (ChooseArithOpByToken tok)) (\<lambda>op.
          c_seq [emit op_GETOUTER tmp pos 0 0, emit op tmp val tmp 0, drop_target, drop_target,
                 c_bind new_target (\<lambda>t. emit op_SETOUTER t pos tmp 0)])))
      | EXPR \<Rightarrow> c_ret ()
      | _ \<Rightarrow>
          c_bind pop_target (\<lambda>val. c_bind pop_target (\<lambda>key. c_bind pop_target (\<lambda>src.
          c_bind new_target (\<lambda>t. c_bind (c_some (ChooseCompArithCharByToken tok)) (\<lambda>oper.
          emit op_COMPARITH t (or (push_bit 16 src) val) key (of_char oper)))))))"

definition EmitLoadConstInt :: "comp_par \<Rightarrow> sqint \<Rightarrow> int \<Rightarrow> unit cm" where
  "EmitLoadConstInt par value target =
     c_bind (if target < 0 then new_target else c_ret target) (\<lambda>target.
       if sint value \<le> 2147483647 \<and> sint value > -2147483648 then emit op_LOADINT target (sint value) 0 0
       else c_bind (on_fs (GetNumericConstant_int par value)) (\<lambda>k. emit op_LOAD target k 0 0))"

text \<open>A float has the size of \<^verbatim>\<open>SQInt32\<close>.\<close>

definition EmitLoadConstFloat :: "sqfloat \<Rightarrow> int \<Rightarrow> unit cm" where
  "EmitLoadConstFloat value target =
     c_bind (if target < 0 then new_target else c_ret target) (\<lambda>target.
       emit op_LOADFLOAT target (sint value) 0 0)"

definition set_es :: "etype \<Rightarrow> int \<Rightarrow> unit cm" where
  "set_es ty pos = c_upd (\<lambda>s. s\<lparr> cc_es := (cc_es s)\<lparr> es_etype := ty, es_epos := pos \<rparr> \<rparr>)"

definition set_etype :: "etype \<Rightarrow> unit cm" where
  "set_etype ty = c_upd (\<lambda>s. s\<lparr> cc_es := (cc_es s)\<lparr> es_etype := ty \<rparr> \<rparr>)"

text \<open>\<^verbatim>\<open>SQExpState es = _es\<close> \<dots> \<^verbatim>\<open>_es = es\<close> around a piece of code that starts with a new state.\<close>

definition fresh_es :: expstate where
  "fresh_es = \<lparr> es_etype = EXPR, es_epos = -1, es_donot_get = False \<rparr>"

definition INVOKE_EXP :: "unit cm \<Rightarrow> unit cm" where
  "INVOKE_EXP f =
     c_with cc_es (\<lambda>es.
     c_seq [c_upd (\<lambda>s. s\<lparr> cc_es := fresh_es \<rparr>), f, c_upd (\<lambda>s. s\<lparr> cc_es := es \<rparr>)])"

definition BIN_EXP :: "comp_par \<Rightarrow> 8 word \<Rightarrow> unit cm \<Rightarrow> int \<Rightarrow> unit cm" where
  "BIN_EXP par op f op3 =
     c_seq [
       NextToken par,
       INVOKE_EXP f,
       c_bind pop_target (\<lambda>op1. c_bind pop_target (\<lambda>op2. c_bind new_target (\<lambda>t. emit op t op1 op2 op3))),
       set_etype EXPR]"

definition NeedGet :: "compiler \<Rightarrow> bool" where
  "NeedGet s \<longleftrightarrow>
     (let t = cc_token s; donot_get = es_donot_get (cc_es s) in
      t \<notin> {tokc CHR ''='', tokc CHR ''('', TK_NEWSLOT, TK_MODEQ, TK_MULEQ, TK_DIVEQ, TK_MINUSEQ, TK_PLUSEQ} \<and>
      \<not> (t \<in> {TK_PLUSPLUS, TK_MINUSMINUS} \<and> \<not> IsEndOfStatement s) \<and>
      (\<not> donot_get \<or> t = tokc CHR ''.'' \<or> t = tokc CHR ''[''))"

subsection \<open>Expressions\<close>

definition CommaExpr :: "comp_par \<Rightarrow> recf \<Rightarrow> unit cm" where
  "CommaExpr par rec =
     c_seq [
       rec CallExpression,
       c_if (token_is (tokc CHR '','')) (c_seq [drop_target, NextToken par, rec CallCommaExpr]) (c_ret ())]"

definition is_assign :: "sqint \<Rightarrow> bool" where
  "is_assign t \<longleftrightarrow>
     t \<in> {tokc CHR ''='', TK_NEWSLOT, TK_MINUSEQ, TK_PLUSEQ, TK_MULEQ, TK_DIVEQ, TK_MODEQ}"

text \<open>The assignment with operator \<open>op\<close> to what \<open>ds\<close> and \<open>pos\<close> describe, after its right-hand side.\<close>

definition emit_assign :: "sqint \<Rightarrow> etype \<Rightarrow> int \<Rightarrow> unit cm" where
  "emit_assign op ds pos =
     (if op = TK_NEWSLOT then
        (if ds = OBJECT \<or> ds = BASE then EmitDerefOp op_NEWSLOT
         else Error_str (''can'' @ [CHR 0x27] @ ''t '' @ [CHR 0x27] @ ''create'' @ [CHR 0x27] @ '' a local slot''))
      else if op = tokc CHR ''='' then
        (case ds of
           LOCAL \<Rightarrow> c_bind pop_target (\<lambda>src. c_bind top_target (\<lambda>dst. emit op_MOVE dst src 0 0))
         | OUTER \<Rightarrow> c_bind pop_target (\<lambda>src. c_bind new_target (\<lambda>dst. emit op_SETOUTER dst pos src 0))
         | EXPR \<Rightarrow> c_ret ()
         | _ \<Rightarrow> EmitDerefOp op_SET)
      else EmitCompoundArith op ds pos)"

definition Assignment :: "comp_par \<Rightarrow> recf \<Rightarrow> unit cm" where
  "Assignment par rec =
     c_with cc_token (\<lambda>op. c_with (\<lambda>s. es_etype (cc_es s)) (\<lambda>ds.
     c_with (\<lambda>s. es_epos (cc_es s)) (\<lambda>pos.
       if ds = EXPR then Error_str (''can'' @ [CHR 0x27] @ ''t assign expression'')
       else if ds = BASE then Error_str ([CHR 0x27] @ ''base'' @ [CHR 0x27] @ '' cannot be modified'')
       else c_seq [NextToken par, rec CallExpression, emit_assign op ds pos])))"

text \<open>An operand of \<^verbatim>\<open>?:\<close> or of a logical operator moved to the register \<open>trg\<close>.\<close>

definition move_to :: "int \<Rightarrow> unit cm" where
  "move_to trg = c_bind pop_target (\<lambda>e. c_when (trg \<noteq> e) (emit op_MOVE trg e 0 0))"

definition Conditional :: "comp_par \<Rightarrow> recf \<Rightarrow> unit cm" where
  "Conditional par rec =
     c_seq [
       NextToken par,
       c_bind pop_target (\<lambda>t. emit op_JZ t 0 0 0),
       c_bind cur_pos (\<lambda>jzpos.
       c_bind new_target (\<lambda>trg.
       c_seq [
         rec CallExpression,
         move_to trg,
         c_bind cur_pos (\<lambda>endfirstexp.
         c_seq [
           emit op_JMP 0 0 0 0,
           expect_char par CHR '':'',
           c_bind cur_pos (\<lambda>jmppos.
           c_seq [
             rec CallExpression,
             move_to trg,
             jump_here jmppos jmppos,
             set_param jzpos 1 (endfirstexp - jzpos + 1),
             snooze])])]))]"

text \<open>The levels of binary operators, each a first operand and a loop.\<close>

definition MultExp :: "recf \<Rightarrow> unit cm" where
  "MultExp rec = c_seq [rec CallPrefixedExpr, rec LoopMult]"

definition PlusExp :: "recf \<Rightarrow> unit cm" where
  "PlusExp rec = c_seq [MultExp rec, rec LoopPlus]"

definition ShiftExp :: "recf \<Rightarrow> unit cm" where
  "ShiftExp rec = c_seq [PlusExp rec, rec LoopShift]"

definition CompExp :: "recf \<Rightarrow> unit cm" where
  "CompExp rec = c_seq [ShiftExp rec, rec LoopComp]"

definition EqExp :: "recf \<Rightarrow> unit cm" where
  "EqExp rec = c_seq [CompExp rec, rec LoopEq]"

definition BitwiseAndExp :: "recf \<Rightarrow> unit cm" where
  "BitwiseAndExp rec = c_seq [EqExp rec, rec LoopBitwiseAnd]"

definition BitwiseXorExp :: "recf \<Rightarrow> unit cm" where
  "BitwiseXorExp rec = c_seq [BitwiseAndExp rec, rec LoopBitwiseXor]"

definition BitwiseOrExp :: "recf \<Rightarrow> unit cm" where
  "BitwiseOrExp rec = c_seq [BitwiseXorExp rec, rec LoopBitwiseOr]"

text \<open>The opcode and the third argument for the operators of each level.\<close>

definition mult_op :: "sqint \<Rightarrow> (8 word \<times> int) option" where
  "mult_op t =
     (if t \<in> {tokc CHR ''*'', tokc CHR ''/'', tokc CHR ''%''}
      then map_option (\<lambda>op. (op, 0)) (ChooseArithOpByToken t) else None)"

definition plus_op :: "sqint \<Rightarrow> (8 word \<times> int) option" where
  "plus_op t =
     (if t \<in> {tokc CHR ''+'', tokc CHR ''-''}
      then map_option (\<lambda>op. (op, 0)) (ChooseArithOpByToken t) else None)"

definition shift_op :: "sqint \<Rightarrow> (8 word \<times> int) option" where
  "shift_op t =
     (if t = TK_USHIFTR then Some (op_BITW, 6) else if t = TK_SHIFTL then Some (op_BITW, 4)
      else if t = TK_SHIFTR then Some (op_BITW, 5) else None)"

definition comp_op :: "sqint \<Rightarrow> (8 word \<times> int) option" where
  "comp_op t =
     (if t = tokc CHR ''>'' then Some (op_CMP, 0) else if t = tokc CHR ''<'' then Some (op_CMP, 3)
      else if t = TK_GE then Some (op_CMP, 2) else if t = TK_LE then Some (op_CMP, 4)
      else if t = TK_IN then Some (op_EXISTS, 0) else if t = TK_INSTANCEOF then Some (op_INSTANCEOF, 0)
      else None)"

definition eq_op :: "sqint \<Rightarrow> (8 word \<times> int) option" where
  "eq_op t =
     (if t = TK_EQ then Some (op_EQ, 0) else if t = TK_NE then Some (op_NE, 0)
      else if t = TK_3WAYSCMP then Some (op_CMP, 5) else None)"

definition bit_op :: "char \<Rightarrow> int \<Rightarrow> sqint \<Rightarrow> (8 word \<times> int) option" where
  "bit_op c op3 t = (if t = tokc c then Some (op_BITW, op3) else None)"

text \<open>\<^verbatim>\<open>for(;;)\<close> with a \<^verbatim>\<open>BIN_EXP\<close> as long as the token is an operator of the level.\<close>

definition bin_loop ::
  "comp_par \<Rightarrow> recf \<Rightarrow> (sqint \<Rightarrow> (8 word \<times> int) option) \<Rightarrow> unit cm \<Rightarrow> call \<Rightarrow> unit cm" where
  "bin_loop par rec ops operand again =
     c_with cc_token (\<lambda>t.
       case ops t of
         Some (op, op3) \<Rightarrow> c_seq [BIN_EXP par op operand op3, rec again]
       | None \<Rightarrow> c_ret ())"

text \<open>What \<^verbatim>\<open>LogicalOrExp\<close> and \<^verbatim>\<open>LogicalAndExp\<close> emit around their second operand.\<close>

definition logical_op :: "comp_par \<Rightarrow> 8 word \<Rightarrow> unit cm \<Rightarrow> unit cm" where
  "logical_op par op operand =
     c_bind pop_target (\<lambda>first_exp. c_bind new_target (\<lambda>trg.
     c_seq [
       emit op trg 0 first_exp 0,
       c_bind cur_pos (\<lambda>jpos.
       c_seq [
         c_when (trg \<noteq> first_exp) (emit op_MOVE trg first_exp 0 0),
         NextToken par,
         INVOKE_EXP operand,
         snooze,
         move_to trg,
         snooze,
         jump_here jpos jpos,
         set_etype EXPR])]))"

definition LogicalAndExp :: "comp_par \<Rightarrow> recf \<Rightarrow> unit cm" where
  "LogicalAndExp par rec =
     c_seq [
       BitwiseOrExp rec,
       c_if (token_is TK_AND) (logical_op par op_AND (rec CallLogicalAndExp)) (c_ret ())]"

definition LogicalOrExp :: "comp_par \<Rightarrow> recf \<Rightarrow> unit cm" where
  "LogicalOrExp par rec =
     c_seq [
       LogicalAndExp par rec,
       c_if (token_is TK_OR) (logical_op par op_OR (rec CallLogicalOrExp)) (c_ret ())]"

definition ExpressionC :: "comp_par \<Rightarrow> recf \<Rightarrow> unit cm" where
  "ExpressionC par rec =
     INVOKE_EXP (c_seq [
       LogicalOrExp par rec,
       c_if (\<lambda>s. is_assign (cc_token s)) (Assignment par rec)
         (c_if (token_is (tokc CHR ''?'')) (Conditional par rec) (c_ret ()))])"

subsection \<open>Postfix expressions\<close>

text \<open>After the key of \<^verbatim>\<open>.\<close> or \<^verbatim>\<open>[ ]\<close> is loaded.\<close>

definition after_key :: "unit cm" where
  "after_key =
     c_if (\<lambda>s. es_etype (cc_es s) = BASE)
       (c_seq [Emit2ArgsOP op_GET 0, c_bind top_target (\<lambda>pos. set_es EXPR pos)])
       (c_seq [c_if NeedGet (Emit2ArgsOP op_GET 0) (c_ret ()), set_etype OBJECT])"

definition incdec_error :: "unit cm" where
  "incdec_error = Error_str (''can'' @ [CHR 0x27] @ ''t '' @ [CHR 0x27] @ ''++'' @ [CHR 0x27] @ '' or '' @
     [CHR 0x27] @ ''--'' @ [CHR 0x27] @ '' an expression'')"

definition PostIncDec :: "comp_par \<Rightarrow> unit cm" where
  "PostIncDec par =
     c_with (\<lambda>s. if cc_token s = TK_MINUSMINUS then -1 else 1) (\<lambda>diff.
     c_then (NextToken par)
     (c_with cc_es (\<lambda>es.
       case es_etype es of
         EXPR \<Rightarrow> incdec_error
       | LOCAL \<Rightarrow> c_bind pop_target (\<lambda>src. c_bind new_target (\<lambda>t. emit op_PINCL t src 0 diff))
       | OUTER \<Rightarrow>
           c_bind new_target (\<lambda>tmp1. c_bind new_target (\<lambda>tmp2.
           c_seq [emit op_GETOUTER tmp2 (es_epos es) 0 0, emit op_PINCL tmp1 tmp2 0 diff,
                  emit op_SETOUTER tmp2 (es_epos es) tmp2 0, drop_target]))
       | _ \<Rightarrow> if es_donot_get es then incdec_error else Emit2ArgsOP op_PINC diff)))"

text \<open>The registers of the callee and of \<^verbatim>\<open>this\<close> before the arguments of a call.\<close>

definition prepare_call :: "unit cm" where
  "prepare_call =
     c_with cc_es (\<lambda>es.
       case es_etype es of
         OBJECT \<Rightarrow>
           c_bind pop_target (\<lambda>key. c_bind pop_target (\<lambda>table. c_bind new_target (\<lambda>closure.
           c_bind new_target (\<lambda>ttarget. emit op_PREPCALL closure key table ttarget))))
       | OUTER \<Rightarrow>
           c_seq [c_bind new_target (\<lambda>t. emit op_GETOUTER t (es_epos es) 0 0),
                  c_bind new_target (\<lambda>t. emit op_MOVE t 0 0 0)]
       | _ \<Rightarrow> c_bind new_target (\<lambda>t. emit op_MOVE t 0 0 0))"

definition FunctionCallArgs :: "recf \<Rightarrow> bool \<Rightarrow> unit cm" where
  "FunctionCallArgs rec rawcall = rec (LoopCallArgs 1 rawcall)"

definition PrefixedExpr_loop :: "comp_par \<Rightarrow> recf \<Rightarrow> unit cm" where
  "PrefixedExpr_loop par rec =
     c_if (token_is (tokc CHR ''.''))
       (c_seq [NextToken par, load_string par (expect_name par), after_key, rec LoopPrefixed])
    (c_if (token_is (tokc CHR ''[''))
       (c_seq [
          c_if (\<lambda>s. prevtoken (cc_lex s) = 10)
            (Error_str ''cannot break deref/or comma needed after [exp]=exp slot declaration'') (c_ret ()),
          NextToken par, rec CallExpression, expect_char par CHR '']'', after_key, rec LoopPrefixed])
    (c_if (\<lambda>s. cc_token s \<in> {TK_MINUSMINUS, TK_PLUSPLUS})
       (c_if IsEndOfStatement (c_ret ()) (PostIncDec par))
    (c_if (token_is (tokc CHR ''(''))
       (c_seq [prepare_call, set_etype EXPR, NextToken par, FunctionCallArgs rec False, rec LoopPrefixed])
       (c_ret ()))))"

text \<open>The end of a call: the instruction, and the assignments in braces after it.\<close>

definition end_call :: "comp_par \<Rightarrow> recf \<Rightarrow> int \<Rightarrow> bool \<Rightarrow> unit cm" where
  "end_call par rec nargs rawcall =
     c_seq [
       NextToken par,
       (if rawcall \<and> nargs < 3
        then Error_str ''rawcall requires at least 2 parameters (callee and this)'' else c_ret ()),
       (let n = (if rawcall then nargs - 2 else nargs) in
        c_seq [
          c_repeat (nat (n - 1)) drop_target,
          c_bind pop_target (\<lambda>stackbase. c_bind pop_target (\<lambda>closure. c_bind new_target (\<lambda>t.
            emit op_CALL t closure stackbase n)))]),
       c_if (token_is (tokc CHR ''{''))
         (c_bind top_target (\<lambda>retval. c_seq [NextToken par, rec (LoopCallInit retval)])) (c_ret ())]"

definition CallArgs_loop :: "comp_par \<Rightarrow> recf \<Rightarrow> int \<Rightarrow> bool \<Rightarrow> unit cm" where
  "CallArgs_loop par rec nargs rawcall =
     c_if (\<lambda>s. cc_token s \<noteq> tokc CHR '')'')
       (c_seq [
          rec CallExpression,
          MoveIfCurrentTargetIsLocal,
          c_if (token_is (tokc CHR '',''))
            (c_seq [NextToken par,
                    c_if (token_is (tokc CHR '')''))
                      (Error_str (''expression expected, found '' @ [CHR 0x27] @ '')'' @ [CHR 0x27])) (c_ret ())])
            (c_ret ()),
          rec (LoopCallArgs (nargs + 1) rawcall)])
       (end_call par rec nargs rawcall)"

text \<open>\<^verbatim>\<open>[key] = value\<close> and \<^verbatim>\<open>name = value\<close>: the key and the value on the target stack.\<close>

definition key_in_brackets :: "comp_par \<Rightarrow> recf \<Rightarrow> unit cm" where
  "key_in_brackets par rec =
     c_seq [NextToken par, rec CallCommaExpr, expect_char par CHR '']'', expect_char par CHR ''='',
            rec CallExpression]"

definition key_name :: "comp_par \<Rightarrow> recf \<Rightarrow> unit cm" where
  "key_name par rec =
     c_seq [load_string par (expect_name par), expect_char par CHR ''='', rec CallExpression]"

definition CallInit_loop :: "comp_par \<Rightarrow> recf \<Rightarrow> int \<Rightarrow> unit cm" where
  "CallInit_loop par rec retval =
     c_if (\<lambda>s. cc_token s \<noteq> tokc CHR ''}'')
       (c_seq [
          c_if (token_is (tokc CHR ''['')) (key_in_brackets par rec) (key_name par rec),
          c_if (token_is (tokc CHR '','')) (NextToken par) (c_ret ()),
          c_bind pop_target (\<lambda>val. c_bind pop_target (\<lambda>key. emit op_SET 0xFF retval key val)),
          rec (LoopCallInit retval)])
       (NextToken par)"

subsection \<open>Names and constants\<close>

definition get_outer :: "sqchar list \<Rightarrow> int cm" where
  "get_outer name s =
     (case GetOuterVariable name (cc_fs s # cc_parents s) of
        (pos, f # ps) \<Rightarrow> (Inr pos, s\<lparr> cc_fs := f, cc_parents := ps \<rparr>)
      | (pos, []) \<Rightarrow> (Inl Undefined, s))"

text \<open>A table of the engine by its address.\<close>

definition table_get :: "comp_par \<Rightarrow> addr \<Rightarrow> sqchar list \<Rightarrow> (sqobject option) cm" where
  "table_get par a name =
     c_tbl (\<lambda>s. case cc_tables s a of None \<Rightarrow> None | Some t \<Rightarrow> IsConstant par t name)"

definition table_put :: "comp_par \<Rightarrow> addr \<Rightarrow> sqchar list \<Rightarrow> sqobject \<Rightarrow> unit cm" where
  "table_put par a name val =
     c_bind (c_tbl (\<lambda>s. case cc_tables s a of None \<Rightarrow> None
                 | Some t \<Rightarrow> NewSlot (cp_hsh par) t (str_object par name) val)) (\<lambda>(t, _).
     c_upd (\<lambda>s. s\<lparr> cc_tables := (cc_tables s)(a \<mapsto> t) \<rparr>))"

definition get_constant :: "comp_par \<Rightarrow> sqchar list \<Rightarrow> (sqobject option) cm" where
  "get_constant par name = c_with cc_consts (\<lambda>a. table_get par a name)"

text \<open>The member of an enumeration behind a constant that is a table.\<close>

definition enum_member :: "comp_par \<Rightarrow> sqchar list \<Rightarrow> addr \<Rightarrow> sqobject cm" where
  "enum_member par ident a =
     c_then (expect_char par CHR ''.'')
     (c_bind (expect_name par) (\<lambda>constid.
      c_bind (table_get par a constid) (\<lambda>v.
        case v of
          Some x \<Rightarrow> c_ret x
        | None \<Rightarrow> Error (bytes_of ''invalid constant ['' @ ident @ bytes_of ''.'' @ constid @ bytes_of '']''))))"

definition load_constant :: "comp_par \<Rightarrow> sqobject \<Rightarrow> int \<Rightarrow> unit cm" where
  "load_constant par x pos =
     (case x of
        OInteger i \<Rightarrow> EmitLoadConstInt par i pos
      | OFloat v \<Rightarrow> EmitLoadConstFloat v pos
      | OBool b \<Rightarrow> emit op_LOADBOOL pos (if b then 1 else 0) 0 0
      | _ \<Rightarrow> c_bind (get_const par x) (\<lambda>k. emit op_LOAD pos k 0 0))"

definition named_constant :: "comp_par \<Rightarrow> sqchar list \<Rightarrow> sqobject \<Rightarrow> unit cm" where
  "named_constant par ident constant =
     c_bind (case constant of OTable a \<Rightarrow> enum_member par ident a | _ \<Rightarrow> c_ret constant) (\<lambda>constval.
     c_bind new_target (\<lambda>pos.
     c_seq [
       set_es EXPR pos,
       load_constant par constval pos]))"

text \<open>A name that is neither a variable nor a constant is a slot of \<^verbatim>\<open>this\<close>.\<close>

definition field_of_this :: "comp_par \<Rightarrow> sqchar list \<Rightarrow> unit cm" where
  "field_of_this par ident =
     c_seq [
       c_bind (on_fs (PushTarget 0)) (\<lambda>_. c_ret ()),
       load_string par (c_ret ident),
       c_if NeedGet (Emit2ArgsOP op_GET 0) (c_ret ()),
       set_etype OBJECT]"

definition identifier_name :: "compiler \<Rightarrow> sqchar list" where
  "identifier_name s =
     (if cc_token s = TK_IDENTIFIER then sv_ident s
      else if cc_token s = TK_THIS then bytes_of ''this'' else bytes_of ''constructor'')"

definition Identifier :: "comp_par \<Rightarrow> unit cm" where
  "Identifier par =
     c_with identifier_name (\<lambda>ident.
     c_seq [
       create_string par ident,
       NextToken par,
       c_bind (fs_get (GetLocalVariable ident)) (\<lambda>pos.
         if pos \<noteq> -1 then c_then (c_bind (on_fs (PushTarget pos)) (\<lambda>_. c_ret ())) (set_es LOCAL pos)
         else c_bind (get_outer ident) (\<lambda>pos.
           if pos \<noteq> -1 then
             c_if NeedGet
               (c_bind new_target (\<lambda>t. c_seq [
                  c_upd (\<lambda>s. s\<lparr> cc_es := (cc_es s)\<lparr> es_epos := t \<rparr> \<rparr>), emit op_GETOUTER t pos 0 0]))
               (set_es OUTER pos)
           else c_bind (get_constant par ident) (\<lambda>constant.
             case constant of
               Some x \<Rightarrow> named_constant par ident x
             | None \<Rightarrow> field_of_this par ident)))])"

subsection \<open>Functions\<close>

definition ParseBindEnv :: "comp_par \<Rightarrow> recf \<Rightarrow> int cm" where
  "ParseBindEnv par rec =
     c_then (NextToken par) (c_then (rec CallExpression)
     (c_bind top_target (\<lambda>boundtarget. c_then (expect_char par CHR '']'') (c_ret boundtarget))))"

definition bind_env :: "comp_par \<Rightarrow> recf \<Rightarrow> int cm" where
  "bind_env par rec = c_if (token_is (tokc CHR ''['')) (ParseBindEnv par rec) (c_ret 0xFF)"

text \<open>The body of a function is compiled with its own state; the state around it waits as a parent.\<close>

definition enter_function :: "funcstate \<Rightarrow> unit cm" where
  "enter_function child = c_upd (\<lambda>s. s\<lparr> cc_fs := child, cc_parents := cc_fs s # cc_parents s \<rparr>)"

definition leave_function :: "unit cm" where
  "leave_function s =
     (case cc_parents s of
        [] \<Rightarrow> (Inl Undefined, s)
      | f # ps \<Rightarrow> (Inr (), s\<lparr> cc_fs := f, cc_parents := ps \<rparr>))"

definition function_body :: "comp_par \<Rightarrow> recf \<Rightarrow> funcstate \<Rightarrow> unit cm" where
  "function_body par rec child =
     c_seq [
       enter_function child,
       rec (CallStatement False),
       c_with (\<lambda>s. if prevtoken (cc_lex s) = 10 then lasttokenline (cc_lex s) else currentline (cc_lex s))
         (\<lambda>line. add_line_infos line True),
       emit op_RETURN (-1) 0 0 0,
       fs_upd (SetStackSize 0),
       c_bind (on_fs (BuildProto par)) (\<lambda>func.
         c_seq [leave_function, fs_upd (\<lambda>f. f\<lparr> fs_functions := fs_functions f @ [func] \<rparr>)])]"

definition end_params :: "comp_par \<Rightarrow> recf \<Rightarrow> funcstate \<Rightarrow> int \<Rightarrow> int \<Rightarrow> unit cm" where
  "end_params par rec child defparams boundtarget =
     c_seq [
       expect_char par CHR '')'',
       c_when (boundtarget \<noteq> 0xFF) drop_target,
       c_repeat (nat defparams) drop_target,
       function_body par rec child]"

definition var_params :: "comp_par \<Rightarrow> recf \<Rightarrow> funcstate \<Rightarrow> int \<Rightarrow> int \<Rightarrow> unit cm" where
  "var_params par rec child defparams boundtarget =
     c_seq [
       (if defparams > 0
        then Error_str ''function with default parameters cannot have variable number of parameters''
        else c_ret ()),
       create_string par (bytes_of ''vargv''),
       NextToken par,
       c_if (\<lambda>s. cc_token s \<noteq> tokc CHR '')'')
         (Error_str (''expected '' @ [CHR 0x27] @ '')'' @ [CHR 0x27])) (c_ret ()),
       end_params par rec ((AddParameter (bytes_of ''vargv'') child)\<lparr> fs_varparams := True \<rparr>)
         defparams boundtarget]"

text \<open>\<^verbatim>\<open>,\<close> or the end of the list of parameters.\<close>

definition next_param :: "comp_par \<Rightarrow> unit cm" where
  "next_param par =
     c_if (token_is (tokc CHR '','')) (NextToken par)
       (c_if (\<lambda>s. cc_token s \<noteq> tokc CHR '')'')
          (Error_str (''expected '' @ [CHR 0x27] @ '')'' @ [CHR 0x27] @ '' or '' @ [CHR 0x27] @ '','' @ [CHR 0x27]))
          (c_ret ()))"

definition one_param :: "comp_par \<Rightarrow> recf \<Rightarrow> funcstate \<Rightarrow> int \<Rightarrow> int \<Rightarrow> unit cm" where
  "one_param par rec child defparams boundtarget =
     c_bind (expect_name par) (\<lambda>paramname.
     let child1 = AddParameter paramname child in
     c_if (token_is (tokc CHR ''=''))
       (c_seq [
          NextToken par,
          rec CallExpression,
          c_bind top_target (\<lambda>t.
            c_then (next_param par) (rec (LoopParams (AddDefaultParam t child1) (defparams + 1) boundtarget)))])
       (c_seq [
          (if defparams > 0 then Error_str (''expected '' @ [CHR 0x27] @ ''='' @ [CHR 0x27]) else c_ret ()),
          next_param par,
          rec (LoopParams child1 defparams boundtarget)]))"

definition Params_loop :: "comp_par \<Rightarrow> recf \<Rightarrow> funcstate \<Rightarrow> int \<Rightarrow> int \<Rightarrow> unit cm" where
  "Params_loop par rec child defparams boundtarget =
     c_if (token_is (tokc CHR '')'')) (end_params par rec child defparams boundtarget)
    (c_if (token_is TK_VARPARAMS) (var_params par rec child defparams boundtarget)
       (one_param par rec child defparams boundtarget))"

definition CreateFunction :: "comp_par \<Rightarrow> recf \<Rightarrow> sval \<Rightarrow> int \<Rightarrow> unit cm" where
  "CreateFunction par rec name boundtarget =
     c_seq [
       create_string par (bytes_of ''this''),
       c_with cc_sourcename (\<lambda>source.
         rec (LoopParams
           ((AddParameter (bytes_of ''this'') ((SQFuncState_new True)\<lparr> fs_name := name \<rparr>))
              \<lparr> fs_sourcename := VString source \<rparr>) 0 boundtarget))]"

definition emit_closure :: "int \<Rightarrow> unit cm" where
  "emit_closure boundtarget =
     c_bind new_target (\<lambda>t. c_bind (fs_get (\<lambda>f. int (length (fs_functions f)) - 1)) (\<lambda>n.
       emit op_CLOSURE t n boundtarget 0))"

definition FunctionExp :: "comp_par \<Rightarrow> recf \<Rightarrow> unit cm" where
  "FunctionExp par rec =
     c_then (NextToken par)
     (c_bind (bind_env par rec) (\<lambda>boundtarget.
      c_seq [
        expect_char par CHR ''('',
        CreateFunction par rec VNull boundtarget,
        emit_closure boundtarget]))"

subsection \<open>Tables and classes\<close>

definition member_function :: "comp_par \<Rightarrow> recf \<Rightarrow> unit cm" where
  "member_function par rec =
     c_with cc_token (\<lambda>tk.
     c_then (NextToken par)
     (c_bind (if tk = TK_FUNCTION then expect_name par else created par (bytes_of ''constructor'')) (\<lambda>ident.
      c_then (load_string par (c_ret ident))
     (c_bind (bind_env par rec) (\<lambda>boundtarget.
      c_seq [
        expect_char par CHR ''('',
        CreateFunction par rec (VString ident) boundtarget,
        emit_closure boundtarget])))))"

definition json_key :: "comp_par \<Rightarrow> recf \<Rightarrow> unit cm" where
  "json_key par rec =
     c_seq [
       load_string par (c_bind (Expect par TK_STRING_LITERAL) (\<lambda>v. c_ret (sv_bytes v))),
       expect_char par CHR '':'',
       rec CallExpression]"

definition table_member :: "comp_par \<Rightarrow> recf \<Rightarrow> sqint \<Rightarrow> unit cm" where
  "table_member par rec separator =
     c_if (\<lambda>s. cc_token s \<in> {TK_FUNCTION, TK_CONSTRUCTOR}) (member_function par rec)
    (c_if (token_is (tokc CHR ''['')) (key_in_brackets par rec)
    (c_if (\<lambda>s. cc_token s = TK_STRING_LITERAL \<and> separator = tokc CHR '','') (json_key par rec)
       (key_name par rec)))"

text \<open>The attributes and \<^verbatim>\<open>static\<close> before a member of a class.\<close>

definition member_attrs :: "comp_par \<Rightarrow> recf \<Rightarrow> sqint \<Rightarrow> bool cm" where
  "member_attrs par rec separator =
     c_if (\<lambda>s. separator = tokc CHR '';'' \<and> cc_token s = TK_ATTR_OPEN)
       (c_then (c_seq [
          c_bind new_target (\<lambda>t. emit op_NEWOBJ t 0 0 0),
          NextToken par,
          rec (CallTableOrClass (tokc CHR '','') TK_ATTR_CLOSE)]) (c_ret True))
       (c_ret False)"

definition member_static :: "comp_par \<Rightarrow> sqint \<Rightarrow> bool cm" where
  "member_static par separator =
     c_if (\<lambda>s. separator = tokc CHR '';'' \<and> cc_token s = TK_STATIC)
       (c_then (NextToken par) (c_ret True)) (c_ret False)"

definition emit_member :: "sqint \<Rightarrow> bool \<Rightarrow> bool \<Rightarrow> unit cm" where
  "emit_member separator hasattrs isstatic =
     c_bind pop_target (\<lambda>val. c_bind pop_target (\<lambda>key.
     c_bind (if hasattrs then pop_target else c_ret (-1)) (\<lambda>attrs.
     if hasattrs \<and> attrs \<noteq> key - 1 then c_fail AssertFailed
     else c_bind top_target (\<lambda>table.
       if separator = tokc CHR '','' then emit op_NEWSLOT 0xFF table key val
       else emit op_NEWSLOTA ((if hasattrs then 1 else 0) + (if isstatic then 2 else 0)) table key val))))"

definition TableOrClass_loop :: "comp_par \<Rightarrow> recf \<Rightarrow> sqint \<Rightarrow> sqint \<Rightarrow> int \<Rightarrow> int \<Rightarrow> unit cm" where
  "TableOrClass_loop par rec separator terminator tpos nkeys =
     c_if (\<lambda>s. cc_token s \<noteq> terminator)
       (c_bind (member_attrs par rec separator) (\<lambda>hasattrs.
        c_bind (member_static par separator) (\<lambda>isstatic.
        c_seq [
          table_member par rec separator,
          c_if (token_is separator) (NextToken par) (c_ret ()),
          emit_member separator hasattrs isstatic,
          rec (LoopTableOrClass separator terminator tpos (nkeys + 1))])))
       (c_seq [
          c_when (separator = tokc CHR '','') (set_param tpos 1 nkeys),
          NextToken par])"

definition ParseTableOrClass :: "recf \<Rightarrow> sqint \<Rightarrow> sqint \<Rightarrow> unit cm" where
  "ParseTableOrClass rec separator terminator =
     c_bind cur_pos (\<lambda>tpos. rec (LoopTableOrClass separator terminator tpos 0))"

text \<open>\<^verbatim>\<open>base\<close> and \<^verbatim>\<open>attrs\<close> are \<open>-1\<close> when the class has none.\<close>

definition class_base :: "comp_par \<Rightarrow> recf \<Rightarrow> int cm" where
  "class_base par rec =
     c_if (token_is TK_EXTENDS)
       (c_then (c_seq [NextToken par, rec CallExpression]) top_target) (c_ret (-1))"

definition class_attrs :: "comp_par \<Rightarrow> recf \<Rightarrow> int cm" where
  "class_attrs par rec =
     c_if (token_is TK_ATTR_OPEN)
       (c_then (c_seq [
          NextToken par,
          c_bind new_target (\<lambda>t. emit op_NEWOBJ t 0 0 0),
          ParseTableOrClass rec (tokc CHR '','') TK_ATTR_CLOSE]) top_target)
       (c_ret (-1))"

definition ClassExp :: "comp_par \<Rightarrow> recf \<Rightarrow> unit cm" where
  "ClassExp par rec =
     c_bind (class_base par rec) (\<lambda>base.
     c_bind (class_attrs par rec) (\<lambda>attrs.
     c_seq [
       expect_char par CHR ''{'',
       c_when (attrs \<noteq> -1) drop_target,
       c_when (base \<noteq> -1) drop_target,
       c_bind new_target (\<lambda>t. emit op_NEWOBJ t base attrs 2),
       ParseTableOrClass rec (tokc CHR '';'') (tokc CHR ''}'')]))"

definition Array_loop :: "comp_par \<Rightarrow> recf \<Rightarrow> int \<Rightarrow> int \<Rightarrow> unit cm" where
  "Array_loop par rec apos key =
     c_if (\<lambda>s. cc_token s \<noteq> tokc CHR '']'')
       (c_seq [
          rec CallExpression,
          c_if (token_is (tokc CHR '','')) (NextToken par) (c_ret ()),
          c_bind pop_target (\<lambda>val. c_bind top_target (\<lambda>array. emit op_APPENDARRAY array val 0 0)),
          rec (LoopArray apos (key + 1))])
       (c_seq [set_param apos 1 key, NextToken par])"

subsection \<open>Primary expressions\<close>

definition UnaryOP :: "recf \<Rightarrow> 8 word \<Rightarrow> unit cm" where
  "UnaryOP rec op =
     c_seq [
       rec CallPrefixedExpr,
       c_bind pop_target (\<lambda>src. c_bind new_target (\<lambda>t. emit op t src 0 0))]"

text \<open>\<^verbatim>\<open>SQExpState es = _es; _es.donot_get = true; PrefixedExpr(); \<dots> _es = es;\<close>\<close>

definition with_donot_get :: "recf \<Rightarrow> (expstate \<Rightarrow> unit cm) \<Rightarrow> unit cm" where
  "with_donot_get rec k =
     c_with cc_es (\<lambda>es.
     c_seq [
       c_upd (\<lambda>s. s\<lparr> cc_es := es\<lparr> es_donot_get := True \<rparr> \<rparr>),
       rec CallPrefixedExpr,
       c_with cc_es k,
       c_upd (\<lambda>s. s\<lparr> cc_es := es \<rparr>)])"

definition DeleteExpr :: "comp_par \<Rightarrow> recf \<Rightarrow> unit cm" where
  "DeleteExpr par rec =
     c_then (NextToken par)
     (with_donot_get rec (\<lambda>es.
        case es_etype es of
          EXPR \<Rightarrow> Error_str (''can'' @ [CHR 0x27] @ ''t delete an expression'')
        | OBJECT \<Rightarrow> Emit2ArgsOP op_DELETE 0
        | BASE \<Rightarrow> Emit2ArgsOP op_DELETE 0
        | _ \<Rightarrow> Error_str ''cannot delete an (outer) local''))"

definition PrefixIncDec :: "comp_par \<Rightarrow> recf \<Rightarrow> sqint \<Rightarrow> unit cm" where
  "PrefixIncDec par rec token =
     (let diff = (if token = TK_MINUSMINUS then -1 else 1) in
      c_then (NextToken par)
      (with_donot_get rec (\<lambda>es.
        case es_etype es of
          EXPR \<Rightarrow> incdec_error
        | LOCAL \<Rightarrow> c_bind top_target (\<lambda>src. emit op_INCL src src 0 diff)
        | OUTER \<Rightarrow>
            c_bind new_target (\<lambda>tmp.
            c_seq [emit op_GETOUTER tmp (es_epos es) 0 0, emit op_INCL tmp tmp 0 diff,
                   emit op_SETOUTER tmp (es_epos es) tmp 0])
        | _ \<Rightarrow> Emit2ArgsOP op_INC diff)))"

definition minus_expr :: "comp_par \<Rightarrow> recf \<Rightarrow> unit cm" where
  "minus_expr par rec =
     c_then (NextToken par)
     (c_if (token_is TK_INTEGER)
        (c_seq [c_with (\<lambda>s. nvalue (cc_lex s)) (\<lambda>v. EmitLoadConstInt par (- v) (-1)), NextToken par])
     (c_if (token_is TK_FLOAT)
        (c_seq [c_with (\<lambda>s. fvalue (cc_lex s)) (\<lambda>v. EmitLoadConstFloat (f_neg v) (-1)), NextToken par])
        (UnaryOP rec op_NEG)))"

definition bwnot_expr :: "comp_par \<Rightarrow> recf \<Rightarrow> unit cm" where
  "bwnot_expr par rec =
     c_then (NextToken par)
     (c_if (token_is TK_INTEGER)
        (c_seq [c_with (\<lambda>s. nvalue (cc_lex s)) (\<lambda>v. EmitLoadConstInt par (NOT v) (-1)), NextToken par])
        (UnaryOP rec op_BWNOT))"

definition array_expr :: "comp_par \<Rightarrow> recf \<Rightarrow> unit cm" where
  "array_expr par rec =
     c_seq [
       c_bind new_target (\<lambda>t. emit op_NEWOBJ t 0 0 1),
       c_bind cur_pos (\<lambda>apos. c_seq [NextToken par, rec (LoopArray apos 0)])]"

definition table_expr :: "comp_par \<Rightarrow> recf \<Rightarrow> unit cm" where
  "table_expr par rec =
     c_seq [
       c_bind new_target (\<lambda>t. emit op_NEWOBJ t 0 0 0),
       NextToken par,
       ParseTableOrClass rec (tokc CHR '','') (tokc CHR ''}'')]"

text \<open>The cases of \<^verbatim>\<open>Factor\<close> that leave a value and set \<^verbatim>\<open>_es.etype\<close> to \<^verbatim>\<open>EXPR\<close>: literals \<dots>\<close>

definition literal_expr :: "comp_par \<Rightarrow> sqint \<Rightarrow> (unit cm) option" where
  "literal_expr par t =
     (if t = TK_STRING_LITERAL then
        Some (c_seq [load_string par (c_with sv_literal (created par)), NextToken par])
      else if t = TK_NULL then
        Some (c_seq [c_bind new_target (\<lambda>r. emit op_LOADNULLS r 1 0 0), NextToken par])
      else if t = TK_INTEGER then
        Some (c_seq [c_with (\<lambda>s. nvalue (cc_lex s)) (\<lambda>v. EmitLoadConstInt par v (-1)), NextToken par])
      else if t = TK_FLOAT then
        Some (c_seq [c_with (\<lambda>s. fvalue (cc_lex s)) (\<lambda>v. EmitLoadConstFloat v (-1)), NextToken par])
      else if t = TK_TRUE \<or> t = TK_FALSE then
        Some (c_seq [c_bind new_target (\<lambda>r. emit op_LOADBOOL r (if t = TK_TRUE then 1 else 0) 0 0),
                     NextToken par])
      else if t = TK_LINE then
        Some (c_seq [c_with (\<lambda>s. currentline (cc_lex s)) (\<lambda>v. EmitLoadConstInt par v (-1)), NextToken par])
      else if t = TK_FILE then
        Some (c_seq [load_string par (c_get cc_sourcename), NextToken par])
      else None)"

text \<open>\<dots> and the other ones.\<close>

definition compound_expr :: "comp_par \<Rightarrow> recf \<Rightarrow> sqint \<Rightarrow> unit cm" where
  "compound_expr par rec t =
     (if t = tokc CHR ''['' then array_expr par rec
      else if t = tokc CHR ''{'' then table_expr par rec
      else if t = TK_FUNCTION \<or> t = tokc CHR ''@'' then FunctionExp par rec
      else if t = TK_CLASS then c_seq [NextToken par, ClassExp par rec]
      else if t = tokc CHR ''-'' then minus_expr par rec
      else if t = tokc CHR ''!'' then c_seq [NextToken par, UnaryOP rec op_NOT]
      else if t = tokc CHR ''~'' then bwnot_expr par rec
      else if t = TK_TYPEOF then c_seq [NextToken par, UnaryOP rec op_TYPEOF]
      else if t = TK_RESUME then c_seq [NextToken par, UnaryOP rec op_RESUME]
      else if t = TK_CLONE then c_seq [NextToken par, UnaryOP rec op_CLONE]
      else if t = TK_RAWCALL then
        c_seq [NextToken par, expect_char par CHR ''('', FunctionCallArgs rec True]
      else if t = TK_MINUSMINUS \<or> t = TK_PLUSPLUS then PrefixIncDec par rec t
      else if t = TK_DELETE then DeleteExpr par rec
      else if t = tokc CHR ''('' then
        c_seq [NextToken par, rec CallCommaExpr, expect_char par CHR '')'']
      else Error_str ''expression expected'')"

definition Factor :: "comp_par \<Rightarrow> recf \<Rightarrow> unit cm" where
  "Factor par rec =
     c_with cc_token (\<lambda>t.
       if t = TK_BASE then
         c_seq [
           NextToken par,
           c_bind new_target (\<lambda>r. emit op_GETBASE r 0 0 0),
           c_bind top_target (\<lambda>pos. set_es BASE pos)]
       else if t = TK_IDENTIFIER \<or> t = TK_CONSTRUCTOR \<or> t = TK_THIS then Identifier par
       else if t = TK_DOUBLE_COLON then
         c_seq [
           c_bind new_target (\<lambda>r. emit op_LOADROOT r 0 0 0),
           c_upd (\<lambda>s. s\<lparr> cc_token := tokc CHR ''.'' \<rparr>),
           set_es OBJECT (-1)]
       else
         c_seq [
           (case literal_expr par t of Some m \<Rightarrow> m | None \<Rightarrow> compound_expr par rec t),
           set_etype EXPR])"

definition PrefixedExpr :: "comp_par \<Rightarrow> recf \<Rightarrow> unit cm" where
  "PrefixedExpr par rec = c_seq [Factor par rec, rec LoopPrefixed]"

subsection \<open>Statements\<close>

definition Statements :: "comp_par \<Rightarrow> recf \<Rightarrow> unit cm" where
  "Statements par rec =
     c_if (\<lambda>s. cc_token s \<noteq> tokc CHR ''}'' \<and> cc_token s \<noteq> TK_DEFAULT \<and> cc_token s \<noteq> TK_CASE)
       (c_seq [rec (CallStatement True), end_statement par, rec CallStatements])
       (c_ret ())"

definition push_local :: "sqchar list \<Rightarrow> int cm" where
  "push_local name s =
     (case PushLocalVariable (VString name) (cc_fs s) of (pos, f) \<Rightarrow> (Inr pos, s\<lparr> cc_fs := f \<rparr>))"

definition declare_local :: "sqchar list \<Rightarrow> unit cm" where
  "declare_local name = c_seq [drop_target, c_bind (push_local name) (\<lambda>_. c_ret ())]"

definition Locals_loop :: "comp_par \<Rightarrow> recf \<Rightarrow> unit cm" where
  "Locals_loop par rec =
     c_bind (expect_name par) (\<lambda>varname.
     c_seq [
       c_if (token_is (tokc CHR ''=''))
         (c_seq [
            NextToken par, rec CallExpression,
            c_bind pop_target (\<lambda>src. c_bind new_target (\<lambda>dest.
              c_when (dest \<noteq> src) (emit op_MOVE dest src 0 0)))])
         (c_bind new_target (\<lambda>t. emit op_LOADNULLS t 1 0 0)),
       declare_local varname,
       c_if (token_is (tokc CHR '','')) (c_seq [NextToken par, rec LoopLocals]) (c_ret ())])"

definition local_function :: "comp_par \<Rightarrow> recf \<Rightarrow> unit cm" where
  "local_function par rec =
     c_then (NextToken par)
     (c_bind (expect_name par) (\<lambda>varname.
      c_bind (bind_env par rec) (\<lambda>boundtarget.
      c_seq [
        expect_char par CHR ''('',
        CreateFunction par rec (VString varname) 0xFF,
        emit_closure boundtarget,
        declare_local varname])))"

definition LocalDeclStatement :: "comp_par \<Rightarrow> recf \<Rightarrow> unit cm" where
  "LocalDeclStatement par rec =
     c_seq [NextToken par, c_if (token_is TK_FUNCTION) (local_function par rec) (rec LoopLocals)]"

definition block :: "comp_par \<Rightarrow> recf \<Rightarrow> bool \<Rightarrow> unit cm" where
  "block par rec closeframe =
     c_bind BEGIN_SCOPE (\<lambda>oldscope.
     c_seq [
       NextToken par,
       rec CallStatements,
       expect_char par CHR ''}'',
       (if closeframe then END_SCOPE oldscope else END_SCOPE_NO_CLOSE oldscope)])"

definition IfBlock :: "comp_par \<Rightarrow> recf \<Rightarrow> unit cm" where
  "IfBlock par rec =
     c_if (token_is (tokc CHR ''{'')) (block par rec True)
       (c_seq [rec (CallStatement True), end_statement par])"

definition condition :: "comp_par \<Rightarrow> recf \<Rightarrow> unit cm" where
  "condition par rec = c_seq [expect_char par CHR ''('', rec CallCommaExpr, expect_char par CHR '')'']"

definition IfStatement :: "comp_par \<Rightarrow> recf \<Rightarrow> unit cm" where
  "IfStatement par rec =
     c_seq [
       NextToken par,
       condition par rec,
       c_bind pop_target (\<lambda>t. emit op_JZ t 0 0 0),
       c_bind cur_pos (\<lambda>jnepos.
       c_seq [
         IfBlock par rec,
         c_bind cur_pos (\<lambda>endifblock.
           c_if (token_is TK_ELSE)
             (c_seq [
                emit op_JMP 0 0 0 0,
                c_bind cur_pos (\<lambda>jmppos.
                c_seq [NextToken par, IfBlock par rec, jump_here jmppos jmppos]),
                set_param jnepos 1 (endifblock - jnepos + 1)])
             (set_param jnepos 1 (endifblock - jnepos)))])]"

text \<open>\<^verbatim>\<open>AddInstruction(_OP_JMP, 0, target - GetCurrentPos() - 1)\<close>\<close>

definition jump_back :: "int \<Rightarrow> unit cm" where
  "jump_back target = c_bind cur_pos (\<lambda>p. emit op_JMP 0 (target - p - 1) 0 0)"

definition WhileStatement :: "comp_par \<Rightarrow> recf \<Rightarrow> unit cm" where
  "WhileStatement par rec =
     c_bind cur_pos (\<lambda>jmppos.
     c_seq [
       NextToken par,
       condition par rec,
       c_bind BEGIN_BREAKBLE_BLOCK (\<lambda>nbc.
       c_seq [
         c_bind pop_target (\<lambda>t. emit op_JZ t 0 0 0),
         c_bind cur_pos (\<lambda>jzpos.
         c_bind BEGIN_SCOPE (\<lambda>oldscope.
         c_seq [
           rec (CallStatement True),
           END_SCOPE oldscope,
           jump_back jmppos,
           jump_here jzpos jzpos])),
         END_BREAKBLE_BLOCK nbc jmppos])])"

definition DoWhileStatement :: "comp_par \<Rightarrow> recf \<Rightarrow> unit cm" where
  "DoWhileStatement par rec =
     c_then (NextToken par)
     (c_bind cur_pos (\<lambda>jmptrg.
      c_bind BEGIN_BREAKBLE_BLOCK (\<lambda>nbc.
      c_bind BEGIN_SCOPE (\<lambda>oldscope.
      c_seq [
        rec (CallStatement True),
        END_SCOPE oldscope,
        c_if (token_is TK_WHILE)
          (c_then (ExpectTok par TK_WHILE)
          (c_bind cur_pos (\<lambda>continuetrg.
           c_seq [
             condition par rec,
             c_bind pop_target (\<lambda>t. emit op_JZ t 1 0 0),
             jump_back jmptrg,
             END_BREAKBLE_BLOCK nbc continuetrg])))
          (c_bind cur_pos (\<lambda>continuetrg.
           c_seq [
             emit op_JZ 1 1 0 0,
             jump_back jmptrg,
             END_BREAKBLE_BLOCK nbc continuetrg]))]))))"

text \<open>The parts of the head of a \<^verbatim>\<open>for\<close>: the position of the jump out of the loop (\<open>-1\<close> without a
  condition), and the instructions of the step, taken out of the code.\<close>

definition for_condition :: "comp_par \<Rightarrow> recf \<Rightarrow> int cm" where
  "for_condition par rec =
     c_if (\<lambda>s. cc_token s \<noteq> tokc CHR '';'')
       (c_then (c_seq [rec CallCommaExpr, c_bind pop_target (\<lambda>t. emit op_JZ t 0 0 0)]) cur_pos)
       (c_ret (-1))"

definition for_step :: "comp_par \<Rightarrow> recf \<Rightarrow> (sqinstruction list) cm" where
  "for_step par rec =
     c_bind cur_pos (\<lambda>p. let expstart = p + 1 in
     c_then (c_seq [
       c_if (\<lambda>s. cc_token s \<noteq> tokc CHR '')'') (c_seq [rec CallCommaExpr, drop_target]) (c_ret ()),
       expect_char par CHR '')'',
       snooze])
     (c_bind cur_pos (\<lambda>expend.
      let expsize = (expend - expstart) + 1 in
      if expsize > 0 then
        c_bind (fs_get (\<lambda>f. take (nat expsize) (drop (nat expstart) (fs_instructions f)))) (\<lambda>exp.
        c_then (on_fs (PopInstructions expsize)) (c_ret exp))
      else c_ret [])))"

definition for_init :: "comp_par \<Rightarrow> recf \<Rightarrow> unit cm" where
  "for_init par rec =
     c_if (token_is TK_LOCAL) (LocalDeclStatement par rec)
       (c_if (\<lambda>s. cc_token s \<noteq> tokc CHR '';'') (c_seq [rec CallCommaExpr, drop_target]) (c_ret ()))"

definition ForStatement :: "comp_par \<Rightarrow> recf \<Rightarrow> unit cm" where
  "ForStatement par rec =
     c_then (NextToken par)
     (c_bind BEGIN_SCOPE (\<lambda>oldscope.
      c_then (c_seq [expect_char par CHR ''('', for_init par rec, expect_char par CHR '';'', snooze])
     (c_bind cur_pos (\<lambda>jmppos.
      c_bind (for_condition par rec) (\<lambda>jzpos.
      c_then (c_seq [expect_char par CHR '';'', snooze])
     (c_bind (for_step par rec) (\<lambda>exp.
      c_bind BEGIN_BREAKBLE_BLOCK (\<lambda>nbc.
      c_then (rec (CallStatement True))
     (c_bind cur_pos (\<lambda>continuetrg.
      c_seq [
        c_seq (map (\<lambda>i. on_fs (AddInstr i)) exp),
        jump_back jmppos,
        c_when (jzpos > 0) (jump_here jzpos jzpos),
        END_BREAKBLE_BLOCK nbc continuetrg,
        END_SCOPE oldscope]))))))))))"

text \<open>The names of index and value of a \<^verbatim>\<open>foreach\<close>.\<close>

definition foreach_names :: "comp_par \<Rightarrow> (sqchar list \<times> sqchar list) cm" where
  "foreach_names par =
     c_bind (expect_name par) (\<lambda>valname.
       c_if (token_is (tokc CHR '',''))
         (c_then (NextToken par) (c_bind (expect_name par) (\<lambda>v. c_ret (valname, v))))
         (c_bind (created par (bytes_of ''@INDEX@'')) (\<lambda>i. c_ret (i, valname))))"

definition null_local :: "sqchar list \<Rightarrow> int cm" where
  "null_local name = c_bind (push_local name) (\<lambda>pos. c_then (emit op_LOADNULLS pos 1 0 0) (c_ret pos))"

definition ForEachStatement :: "comp_par \<Rightarrow> recf \<Rightarrow> unit cm" where
  "ForEachStatement par rec =
     c_then (c_seq [NextToken par, expect_char par CHR ''(''])
     (c_bind (foreach_names par) (\<lambda>(idxname, valname).
      c_then (ExpectTok par TK_IN)
     (c_bind BEGIN_SCOPE (\<lambda>oldscope.
      c_then (c_seq [rec CallExpression, expect_char par CHR '')''])
     (c_bind top_target (\<lambda>container.
      c_bind (null_local idxname) (\<lambda>indexpos.
      c_bind (null_local valname) (\<lambda>valuepos.
      c_bind (created par (bytes_of ''@ITERATOR@'')) (\<lambda>itrname.
      c_bind (null_local itrname) (\<lambda>itrpos.
      c_bind cur_pos (\<lambda>jmppos.
      c_then (emit op_FOREACH container 0 indexpos 0)
     (c_bind cur_pos (\<lambda>foreachpos.
      c_then (emit op_POSTFOREACH container 0 indexpos 0)
     (c_bind BEGIN_BREAKBLE_BLOCK (\<lambda>nbc.
      c_seq [
        rec (CallStatement True),
        jump_back jmppos,
        jump_here foreachpos foreachpos,
        jump_here (foreachpos + 1) foreachpos,
        END_BREAKBLE_BLOCK nbc (foreachpos - 1),
        drop_target,
        END_SCOPE oldscope])))))))))))))))"

definition scoped_statements :: "recf \<Rightarrow> unit cm" where
  "scoped_statements rec =
     c_bind BEGIN_SCOPE (\<lambda>oldscope. c_seq [rec CallStatements, END_SCOPE oldscope])"

text \<open>The comparison of one \<^verbatim>\<open>case\<close>; a value in a local needs an extra register.\<close>

definition case_test :: "int \<Rightarrow> unit cm" where
  "case_test expr =
     c_bind pop_target (\<lambda>trg.
     c_bind (fs_get (IsLocal trg)) (\<lambda>local.
     c_bind (if local then new_target else c_ret trg) (\<lambda>eqtarget.
     c_seq [
       emit op_EQ eqtarget trg expr 0,
       emit op_JZ eqtarget 0 0 0,
       c_when local drop_target])))"

definition end_switch :: "comp_par \<Rightarrow> recf \<Rightarrow> int \<Rightarrow> int \<Rightarrow> unit cm" where
  "end_switch par rec tonextcondjmp nb =
     c_seq [
       c_when (tonextcondjmp \<noteq> -1) (jump_here tonextcondjmp tonextcondjmp),
       c_if (token_is TK_DEFAULT)
         (c_seq [NextToken par, expect_char par CHR '':'', scoped_statements rec]) (c_ret ()),
       expect_char par CHR ''}'',
       drop_target,
       c_bind nbreaks (\<lambda>n. c_when (n - nb > 0) (ResolveBreaks (n - nb))),
       pop_breaktarget]"

definition Switch_loop :: "comp_par \<Rightarrow> recf \<Rightarrow> int \<Rightarrow> bool \<Rightarrow> int \<Rightarrow> int \<Rightarrow> int \<Rightarrow> unit cm" where
  "Switch_loop par rec expr bfirst tonextcondjmp skipcondjmp nb =
     c_if (token_is TK_CASE)
       (c_bind (if bfirst then c_ret skipcondjmp
                else c_then (emit op_JMP 0 0 0 0)
                       (c_bind cur_pos (\<lambda>skip. c_then (jump_here tonextcondjmp tonextcondjmp) (c_ret skip))))
         (\<lambda>skip.
        c_then (c_seq [
          NextToken par,
          rec CallExpression,
          expect_char par CHR '':'',
          case_test expr,
          c_when (skip \<noteq> -1) (jump_here skip skip)])
       (c_bind cur_pos (\<lambda>tonext.
        c_seq [
          scoped_statements rec,
          rec (LoopSwitch expr False tonext skip nb)]))))
       (end_switch par rec tonextcondjmp nb)"

definition SwitchStatement :: "comp_par \<Rightarrow> recf \<Rightarrow> unit cm" where
  "SwitchStatement par rec =
     c_then (c_seq [NextToken par, condition par rec, expect_char par CHR ''{''])
     (c_bind top_target (\<lambda>expr.
      c_bind nbreaks (\<lambda>nb.
      c_then push_breaktarget (rec (LoopSwitch expr True (-1) (-1) nb)))))"

definition FunctionName_loop :: "comp_par \<Rightarrow> recf \<Rightarrow> sqchar list \<Rightarrow> unit cm" where
  "FunctionName_loop par rec ident =
     c_if (token_is TK_DOUBLE_COLON)
       (c_then (NextToken par)
       (c_bind (expect_name par) (\<lambda>ident.
        c_seq [
          load_string par (c_ret ident),
          c_if (token_is TK_DOUBLE_COLON) (Emit2ArgsOP op_GET 0) (c_ret ()),
          rec (LoopFunctionName ident)])))
       (c_bind (bind_env par rec) (\<lambda>boundtarget.
        c_seq [
          expect_char par CHR ''('',
          CreateFunction par rec (VString ident) boundtarget,
          emit_closure boundtarget,
          EmitDerefOp op_NEWSLOT,
          drop_target]))"

definition FunctionStatement :: "comp_par \<Rightarrow> recf \<Rightarrow> unit cm" where
  "FunctionStatement par rec =
     c_then (NextToken par)
     (c_bind (expect_name par) (\<lambda>ident.
      c_seq [
        c_bind (on_fs (PushTarget 0)) (\<lambda>_. c_ret ()),
        load_string par (c_ret ident),
        c_if (token_is TK_DOUBLE_COLON) (Emit2ArgsOP op_GET 0) (c_ret ()),
        rec (LoopFunctionName ident)]))"

definition ClassStatement :: "comp_par \<Rightarrow> recf \<Rightarrow> unit cm" where
  "ClassStatement par rec =
     c_then (NextToken par)
     (with_donot_get rec (\<lambda>es.
        case es_etype es of
          EXPR \<Rightarrow> Error_str ''invalid class name''
        | OBJECT \<Rightarrow> c_seq [ClassExp par rec, EmitDerefOp op_NEWSLOT, drop_target]
        | BASE \<Rightarrow> c_seq [ClassExp par rec, EmitDerefOp op_NEWSLOT, drop_target]
        | _ \<Rightarrow> Error_str ''cannot create a class in a local with the syntax(class <local>)''))"

definition negative_scalar :: "comp_par \<Rightarrow> sqobject cm" where
  "negative_scalar par =
     c_then (NextToken par)
     (c_with cc_token (\<lambda>t.
        if t = TK_INTEGER then c_get (\<lambda>s. OInteger (- nvalue (cc_lex s)))
        else if t = TK_FLOAT then c_get (\<lambda>s. OFloat (f_neg (fvalue (cc_lex s))))
        else Error_str ''scalar expected : integer, float''))"

definition ExpectScalar :: "comp_par \<Rightarrow> sqobject cm" where
  "ExpectScalar par =
     c_bind (c_with cc_token (\<lambda>t.
       if t = TK_INTEGER then c_get (\<lambda>s. OInteger (nvalue (cc_lex s)))
       else if t = TK_FLOAT then c_get (\<lambda>s. OFloat (fvalue (cc_lex s)))
       else if t = TK_STRING_LITERAL then
         c_bind (c_with sv_literal (created par)) (\<lambda>b. c_ret (str_object par b))
       else if t = TK_TRUE \<or> t = TK_FALSE then c_ret (OBool (t = TK_TRUE))
       else if t = tokc CHR ''-'' then negative_scalar par
       else Error_str ''scalar expected : integer, float, or string''))
     (\<lambda>val. c_then (NextToken par) (c_ret val))"

definition ConstStatement :: "comp_par \<Rightarrow> unit cm" where
  "ConstStatement par =
     c_then (NextToken par)
     (c_bind (expect_name par) (\<lambda>ident.
      c_then (expect_char par CHR ''='')
     (c_bind (ExpectScalar par) (\<lambda>val.
      c_seq [
        OptionalSemicolon par,
        c_with cc_consts (\<lambda>a. table_put par a ident val)]))))"

definition create_table :: "comp_par \<Rightarrow> addr cm" where
  "create_table par =
     c_with (\<lambda>s. cp_new par (cc_tables s)) (\<lambda>a.
     c_then (c_upd (\<lambda>s. s\<lparr> cc_tables := (cc_tables s)(a \<mapsto> SQTable_new 0) \<rparr>))
     (c_then (on_fs (keep_table par a)) (c_ret a)))"

definition Enum_loop :: "comp_par \<Rightarrow> recf \<Rightarrow> sqchar list \<Rightarrow> addr \<Rightarrow> sqint \<Rightarrow> unit cm" where
  "Enum_loop par rec ident table nval =
     c_if (\<lambda>s. cc_token s \<noteq> tokc CHR ''}'')
       (c_bind (expect_name par) (\<lambda>key.
        c_bind (c_if (token_is (tokc CHR ''=''))
                  (c_then (NextToken par) (c_bind (ExpectScalar par) (\<lambda>val. c_ret (val, nval))))
                  (c_ret (OInteger nval, nval + 1))) (\<lambda>(val, nval1).
        c_seq [
          table_put par table key val,
          c_if (token_is (tokc CHR '','')) (NextToken par) (c_ret ()),
          rec (LoopEnum ident table nval1)])))
       (c_seq [c_with cc_consts (\<lambda>a. table_put par a ident (OTable table)), NextToken par])"

definition EnumStatement :: "comp_par \<Rightarrow> recf \<Rightarrow> unit cm" where
  "EnumStatement par rec =
     c_then (NextToken par)
     (c_bind (expect_name par) (\<lambda>ident.
      c_then (expect_char par CHR ''{'')
     (c_bind (create_table par) (\<lambda>table. rec (LoopEnum ident table 0)))))"

definition try_part :: "recf \<Rightarrow> unit cm" where
  "try_part rec =
     c_bind BEGIN_SCOPE (\<lambda>oldscope. c_seq [rec (CallStatement True), END_SCOPE oldscope])"

definition catch_part :: "recf \<Rightarrow> sqchar list \<Rightarrow> int \<Rightarrow> int \<Rightarrow> unit cm" where
  "catch_part rec exid trappos jmppos =
     c_bind BEGIN_SCOPE (\<lambda>oldscope.
     c_bind (push_local exid) (\<lambda>ex_target.
     c_seq [
       set_param trappos 0 ex_target,
       rec (CallStatement True),
       c_bind cur_pos (\<lambda>p. on_fs (SetInstructionParams jmppos 0 (p - jmppos) 0 0)),
       END_SCOPE oldscope]))"

definition TryCatchStatement :: "comp_par \<Rightarrow> recf \<Rightarrow> unit cm" where
  "TryCatchStatement par rec =
     c_then (c_seq [
       NextToken par,
       emit op_PUSHTRAP 0 0 0 0,
       fs_upd (\<lambda>f. f\<lparr> fs_traps := fs_traps f + 1 \<rparr>),
       count_traps 1])
     (c_bind cur_pos (\<lambda>trappos.
      c_then (c_seq [
        try_part rec,
        fs_upd (\<lambda>f. f\<lparr> fs_traps := fs_traps f - 1 \<rparr>),
        emit op_POPTRAP 1 0 0 0,
        count_traps (-1),
        emit op_JMP 0 0 0 0])
     (c_bind cur_pos (\<lambda>jmppos.
      c_then (c_seq [
        set_param trappos 1 (jmppos - trappos),
        ExpectTok par TK_CATCH,
        expect_char par CHR ''(''])
     (c_bind (expect_name par) (\<lambda>exid.
      c_seq [expect_char par CHR '')'', catch_part rec exid trappos jmppos]))))))"

text \<open>\<^verbatim>\<open>return\<close> and \<^verbatim>\<open>yield\<close>.\<close>

definition pop_traps_before :: "8 word \<Rightarrow> unit cm" where
  "pop_traps_before op =
     c_if (\<lambda>s. op = op_RETURN \<and> fs_traps (cc_fs s) > 0)
       (c_with (\<lambda>s. fs_traps (cc_fs s)) (\<lambda>n. emit op_POPTRAP n 0 0 0)) (c_ret ())"

definition set_returnexp :: "int \<Rightarrow> unit cm" where
  "set_returnexp p = fs_upd (\<lambda>f. f\<lparr> fs_returnexp := p \<rparr>)"

definition ReturnStatement :: "comp_par \<Rightarrow> recf \<Rightarrow> 8 word \<Rightarrow> unit cm" where
  "ReturnStatement par rec op =
     c_seq [
       c_when (op = op_YIELD) (fs_upd (\<lambda>f. f\<lparr> fs_bgenerator := True \<rparr>)),
       NextToken par,
       c_if (\<lambda>s. \<not> IsEndOfStatement s)
         (c_bind cur_pos (\<lambda>p. c_seq [
            rec CallCommaExpr,
            pop_traps_before op,
            set_returnexp (p + 1),
            c_bind pop_target (\<lambda>t. c_bind (fs_get GetStackSize) (\<lambda>n. emit op 1 t n 0))]))
         (c_seq [
            pop_traps_before op,
            set_returnexp (-1),
            c_bind (fs_get GetStackSize) (\<lambda>n. emit op 0xFF 0 n 0)])]"

text \<open>\<^verbatim>\<open>break\<close> and \<^verbatim>\<open>continue\<close>: the traps to leave, the outers to close, and a jump to be resolved.\<close>

definition jump_out :: "comp_par \<Rightarrow> (funcstate \<Rightarrow> int list) \<Rightarrow> (int \<Rightarrow> funcstate \<Rightarrow> funcstate) \<Rightarrow> string \<Rightarrow> unit cm" where
  "jump_out par targets note name =
     c_bind (fs_get targets) (\<lambda>ts.
       if ts = [] then Error_str ([CHR 0x27] @ name @ [CHR 0x27] @ '' has to be in a loop block'')
       else c_seq [
         c_when (last ts > 0) (emit op_POPTRAP (last ts) 0 0 0),
         RESOLVE_OUTERS,
         emit op_JMP 0 (-1234) 0 0,
         c_bind cur_pos (\<lambda>p. fs_upd (note p)),
         NextToken par])"

definition BreakStatement :: "comp_par \<Rightarrow> unit cm" where
  "BreakStatement par =
     jump_out par fs_breaktargets
       (\<lambda>p f. f\<lparr> fs_unresolvedbreaks := fs_unresolvedbreaks f @ [p] \<rparr>) ''break''"

definition ContinueStatement :: "comp_par \<Rightarrow> unit cm" where
  "ContinueStatement par =
     jump_out par fs_continuetargets
       (\<lambda>p f. f\<lparr> fs_unresolvedcontinues := fs_unresolvedcontinues f @ [p] \<rparr>) ''continue''"

definition ThrowStatement :: "comp_par \<Rightarrow> recf \<Rightarrow> unit cm" where
  "ThrowStatement par rec =
     c_seq [NextToken par, rec CallCommaExpr, c_bind pop_target (\<lambda>t. emit op_THROW t 0 0 0)]"

definition statement_body :: "comp_par \<Rightarrow> recf \<Rightarrow> bool \<Rightarrow> sqint \<Rightarrow> unit cm" where
  "statement_body par rec closeframe t =
     (if t = tokc CHR '';'' then NextToken par
      else if t = TK_IF then IfStatement par rec
      else if t = TK_WHILE then WhileStatement par rec
      else if t = TK_DO then DoWhileStatement par rec
      else if t = TK_FOR then ForStatement par rec
      else if t = TK_FOREACH then ForEachStatement par rec
      else if t = TK_SWITCH then SwitchStatement par rec
      else if t = TK_LOCAL then LocalDeclStatement par rec
      else if t = TK_RETURN then ReturnStatement par rec op_RETURN
      else if t = TK_YIELD then ReturnStatement par rec op_YIELD
      else if t = TK_BREAK then BreakStatement par
      else if t = TK_CONTINUE then ContinueStatement par
      else if t = TK_FUNCTION then FunctionStatement par rec
      else if t = TK_CLASS then ClassStatement par rec
      else if t = TK_ENUM then EnumStatement par rec
      else if t = tokc CHR ''{'' then block par rec closeframe
      else if t = TK_TRY then TryCatchStatement par rec
      else if t = TK_THROW then ThrowStatement par rec
      else if t = TK_CONST then ConstStatement par
      else c_seq [rec CallCommaExpr, on_fs DiscardTarget])"

definition Statement :: "comp_par \<Rightarrow> recf \<Rightarrow> bool \<Rightarrow> unit cm" where
  "Statement par rec closeframe =
     c_seq [
       c_with (\<lambda>s. currentline (cc_lex s)) (\<lambda>line. add_line_infos line False),
       c_with cc_token (statement_body par rec closeframe),
       snooze]"

definition Program_loop :: "comp_par \<Rightarrow> recf \<Rightarrow> unit cm" where
  "Program_loop par rec =
     c_if (\<lambda>s. sint (cc_token s) > 0)
       (c_seq [rec (CallStatement True), end_statement par, rec LoopProgram]) (c_ret ())"

subsection \<open>Tying the knot\<close>

fun call_body :: "comp_par \<Rightarrow> recf \<Rightarrow> call \<Rightarrow> unit cm" where
  "call_body par rec (CallStatement b) = Statement par rec b"
| "call_body par rec CallStatements = Statements par rec"
| "call_body par rec CallCommaExpr = CommaExpr par rec"
| "call_body par rec CallExpression = ExpressionC par rec"
| "call_body par rec CallLogicalOrExp = LogicalOrExp par rec"
| "call_body par rec CallLogicalAndExp = LogicalAndExp par rec"
| "call_body par rec CallPrefixedExpr = PrefixedExpr par rec"
| "call_body par rec LoopBitwiseOr = bin_loop par rec (bit_op CHR ''|'' 2) (BitwiseXorExp rec) LoopBitwiseOr"
| "call_body par rec LoopBitwiseXor = bin_loop par rec (bit_op CHR ''^'' 3) (BitwiseAndExp rec) LoopBitwiseXor"
| "call_body par rec LoopBitwiseAnd = bin_loop par rec (bit_op CHR ''&'' 0) (EqExp rec) LoopBitwiseAnd"
| "call_body par rec LoopEq = bin_loop par rec eq_op (CompExp rec) LoopEq"
| "call_body par rec LoopComp = bin_loop par rec comp_op (ShiftExp rec) LoopComp"
| "call_body par rec LoopShift = bin_loop par rec shift_op (PlusExp rec) LoopShift"
| "call_body par rec LoopPlus = bin_loop par rec plus_op (MultExp rec) LoopPlus"
| "call_body par rec LoopMult = bin_loop par rec mult_op (rec CallPrefixedExpr) LoopMult"
| "call_body par rec LoopPrefixed = PrefixedExpr_loop par rec"
| "call_body par rec (LoopCallArgs nargs rawcall) = CallArgs_loop par rec nargs rawcall"
| "call_body par rec (LoopCallInit retval) = CallInit_loop par rec retval"
| "call_body par rec (LoopArray apos key) = Array_loop par rec apos key"
| "call_body par rec (CallTableOrClass sep term) = ParseTableOrClass rec sep term"
| "call_body par rec (LoopTableOrClass sep term tpos nkeys) = TableOrClass_loop par rec sep term tpos nkeys"
| "call_body par rec LoopLocals = Locals_loop par rec"
| "call_body par rec (LoopSwitch expr bfirst tonext skip nb) = Switch_loop par rec expr bfirst tonext skip nb"
| "call_body par rec (LoopFunctionName ident) = FunctionName_loop par rec ident"
| "call_body par rec (LoopEnum ident table nval) = Enum_loop par rec ident table nval"
| "call_body par rec (LoopParams child defparams boundtarget) = Params_loop par rec child defparams boundtarget"
| "call_body par rec LoopProgram = Program_loop par rec"

primrec run_call :: "nat \<Rightarrow> comp_par \<Rightarrow> recf" where
  "run_call 0 par c s = (Inl NoFuel, s)"
| "run_call (Suc n) par c s = call_body par (run_call n par) c s"

subsection \<open>Compiling a text\<close>

definition compile_main :: "comp_par \<Rightarrow> nat \<Rightarrow> fproto cm" where
  "compile_main par fuel =
     c_then (c_seq [
       fs_upd (\<lambda>f. f\<lparr> fs_name := VString (bytes_of ''main'') \<rparr>),
       create_string par (bytes_of ''this''),
       fs_upd (AddParameter (bytes_of ''this'')),
       create_string par (bytes_of ''vargv''),
       fs_upd (AddParameter (bytes_of ''vargv'')),
       c_with cc_sourcename (\<lambda>source. fs_upd (\<lambda>f. f\<lparr> fs_varparams := True, fs_sourcename := VString source \<rparr>))])
     (c_bind (fs_get GetStackSize) (\<lambda>stacksize.
      c_then (c_seq [
        NextToken par,
        run_call fuel par LoopProgram,
        fs_upd (SetStackSize stacksize),
        c_with (\<lambda>s. currentline (cc_lex s)) (\<lambda>line. add_line_infos line True),
        emit op_RETURN 0xFF 0 0 0,
        fs_upd (SetStackSize 0)])
      (on_fs (BuildProto par))))"

text \<open>
  \<^verbatim>\<open>Compile\<close>: \<open>readings\<close> is what the reader of the host returns, \<open>raw\<close> and \<open>raw_es\<close> what the memory of
  the lexer and of \<^verbatim>\<open>_es\<close> holds before.  An error of the lexer's \<^verbatim>\<open>Init\<close> comes before \<^verbatim>\<open>setjmp\<close>.  A failure
  gives the message with the line and column that go to the error handler.
\<close>

definition compile_start ::
  "lexer \<Rightarrow> expstate \<Rightarrow> sqchar list \<Rightarrow> bool \<Rightarrow> (addr \<Rightarrow> sqtable option) \<Rightarrow> addr \<Rightarrow> compiler" where
  "compile_start l raw_es sourcename lineinfo tables consts =
     \<lparr> cc_token = 0, cc_fs = SQFuncState_new False, cc_parents = [], cc_lex = l, cc_lineinfo = lineinfo,
       cc_es = raw_es, cc_scope = \<lparr> sc_outers = 0, sc_stacksize = 0 \<rparr>, cc_sourcename = sourcename,
       cc_tables = tables, cc_consts = consts \<rparr>"

definition Compile ::
  "nat \<Rightarrow> comp_par \<Rightarrow> lexer \<Rightarrow> expstate \<Rightarrow> sqint list \<Rightarrow> sqchar list \<Rightarrow> bool \<Rightarrow> (addr \<Rightarrow> sqtable option) \<Rightarrow>
   addr \<Rightarrow> (cerror \<times> sqint \<times> sqint + fproto) \<times> (addr \<Rightarrow> sqtable option)" where
  "Compile fuel par raw raw_es readings sourcename lineinfo tables consts =
     (case SQLexer_Init (cp_hsh par) (cp_intern par) readings raw of
        Some (Inr l) \<Rightarrow>
          (case compile_main par fuel (compile_start l raw_es sourcename lineinfo tables consts) of
             (Inr f, s) \<Rightarrow> (Inr f, cc_tables s)
           | (Inl e, s) \<Rightarrow> (Inl (e, currentline (cc_lex s), currentcolumn (cc_lex s)), cc_tables s))
      | _ \<Rightarrow> (Inl (Undefined, 0, 0), tables))"

end
