(* ===== verification/Sq_Compiler_Ends.thy ===== *)
theory Sq_Compiler_Ends
  imports Sq_Compiler Sq_Lexer_Correct
begin

text \<open>
  The compiler returns on every text.  \<open>fuel_left\<close> measures what is left to read; every call of the
  recursive descent that succeeds has read at least as much as the loops need to end, so a recursion
  depth linear in the length of the text suffices.  \<open>wp\<close> is the weakest precondition of a step under
  which it does not run out of fuel and satisfies a postcondition; the rules for the steps are in the
  collection \<open>wp_intros\<close>.
\<close>

subsection \<open>What is left to read\<close>

definition fuel_left :: "compiler \<Rightarrow> nat" where
  "fuel_left s =
     2 * lexsize (cc_lex s) +
     (if cc_token s = 0 then 0 else if cc_token s = TK_DOUBLE_COLON then 2 else 1)"

definition wp :: "'a cm \<Rightarrow> ('a \<Rightarrow> compiler \<Rightarrow> bool) \<Rightarrow> compiler \<Rightarrow> bool" where
  "wp m Q s \<longleftrightarrow> (case m s of (Inl e, _) \<Rightarrow> e \<noteq> NoFuel | (Inr x, s') \<Rightarrow> Q x s')"

lemma wp_mono: "wp m Q s \<Longrightarrow> (\<And>x s'. Q x s' \<Longrightarrow> R x s') \<Longrightarrow> wp m R s"
  by (auto simp: wp_def split: prod.splits sum.splits)

named_theorems wp_intros \<open>rules for the weakest precondition of a step\<close>

lemma wp_ret [wp_intros]: "Q x s \<Longrightarrow> wp (c_ret x) Q s"
  by (simp add: wp_def c_ret_def)

lemma wp_upd: "Q () (g s) \<Longrightarrow> wp (c_upd g) Q s"
  by (simp add: wp_def c_upd_def)

lemma wp_get [wp_intros]: "Q (g s) s \<Longrightarrow> wp (c_get g) Q s"
  by (simp add: wp_def c_get_def)

lemma wp_fails [wp_intros]: "wp (c_fail AssertFailed) Q s" "wp (c_fail Undefined) Q s"
  "wp (Error msg) Q s" "wp (Error_str text) Q s"
  by (simp_all add: wp_def c_fail_def Error_def Error_str_def)

lemma wp_bind [wp_intros]: "wp m (\<lambda>x. wp (f x) Q) s \<Longrightarrow> wp (c_bind m f) Q s"
  by (auto simp: wp_def c_bind_def split: prod.splits sum.splits)

lemma wp_then [wp_intros]: "wp m (\<lambda>_. wp k Q) s \<Longrightarrow> wp (c_then m k) Q s"
  unfolding c_then_def by (rule wp_bind)

lemma wp_with [wp_intros]: "wp (F (g s)) Q s \<Longrightarrow> wp (c_with g F) Q s"
  unfolding c_with_def by (intro wp_bind wp_get)

lemma wp_seq [wp_intros]: "Q () s \<Longrightarrow> wp (c_seq []) Q s" "wp m (\<lambda>_. wp (c_seq ms) Q) s \<Longrightarrow> wp (c_seq (m # ms)) Q s"
  by (auto intro: wp_ret wp_then)

lemma wp_if [wp_intros]: "(P s \<Longrightarrow> wp m Q s) \<Longrightarrow> (\<not> P s \<Longrightarrow> wp k Q s) \<Longrightarrow> wp (c_if P m k) Q s"
  by (simp add: wp_def c_if_def)

lemma wp_If [wp_intros]: "(b \<Longrightarrow> wp m Q s) \<Longrightarrow> (\<not> b \<Longrightarrow> wp k Q s) \<Longrightarrow> wp (if b then m else k) Q s"
  by simp

lemma wp_when [wp_intros]: "(b \<Longrightarrow> wp m Q s) \<Longrightarrow> (\<not> b \<Longrightarrow> Q () s) \<Longrightarrow> wp (c_when b m) Q s"
  by (simp add: c_when_def wp_ret)

lemma wp_let [wp_intros]: "wp (f x) Q s \<Longrightarrow> wp (Let x f) Q s"
  by simp

lemma wp_case_prod [wp_intros]: "(\<And>a b. x = (a, b) \<Longrightarrow> wp (f a b) Q s) \<Longrightarrow> wp (case x of (a, b) \<Rightarrow> f a b) Q s"
  by (cases x) simp

lemma wp_case_option [wp_intros]:
  "(x = None \<Longrightarrow> wp m Q s) \<Longrightarrow> (\<And>y. x = Some y \<Longrightarrow> wp (f y) Q s) \<Longrightarrow> wp (case x of None \<Rightarrow> m | Some y \<Rightarrow> f y) Q s"
  by (cases x) simp_all

lemma wp_case_etype [wp_intros]:
  "(t = EXPR \<Longrightarrow> wp a Q s) \<Longrightarrow> (t = OBJECT \<Longrightarrow> wp b Q s) \<Longrightarrow> (t = BASE \<Longrightarrow> wp c Q s) \<Longrightarrow> (t = LOCAL \<Longrightarrow> wp d Q s) \<Longrightarrow>
   (t = OUTER \<Longrightarrow> wp e Q s) \<Longrightarrow> wp (case t of EXPR \<Rightarrow> a | OBJECT \<Rightarrow> b | BASE \<Rightarrow> c | LOCAL \<Rightarrow> d | OUTER \<Rightarrow> e) Q s"
  by (cases t) simp_all

subsection \<open>Steps that do not read\<close>

text \<open>\<open>still s s'\<close>: nothing has been read between the two states.\<close>

definition still :: "compiler \<Rightarrow> compiler \<Rightarrow> bool" where
  "still s s' \<longleftrightarrow> cc_token s' = cc_token s \<and> cc_lex s' = cc_lex s"

definition silent :: "'a cm \<Rightarrow> bool" where
  "silent m \<longleftrightarrow> (\<forall>s. wp m (\<lambda>_. still s) s)"

lemma still_refl [simp]: "still s s" and still_trans: "still s s1 \<Longrightarrow> still s1 s2 \<Longrightarrow> still s s2"
  by (auto simp: still_def)

lemma silentI: "(\<And>s. wp m (\<lambda>_. still s) s) \<Longrightarrow> silent m"
  by (simp add: silent_def)

lemma wp_silent: "silent m \<Longrightarrow> (\<And>x s'. still s s' \<Longrightarrow> Q x s') \<Longrightarrow> wp m Q s"
  unfolding silent_def by (blast intro: wp_mono)

named_theorems silents \<open>steps that do not read\<close>

definition no_fuel_error :: "'a fsm \<Rightarrow> bool" where
  "no_fuel_error m \<longleftrightarrow> (\<forall>f. fst (m f) \<noteq> Inl NoFuel)"

lemma silent_on_fs: "no_fuel_error m \<Longrightarrow> silent (on_fs m)"
  unfolding silent_def wp_def on_fs_def no_fuel_error_def
  by (auto simp: still_def split: prod.splits sum.splits) (metis fst_conv)

lemma silent_basic [silents]: "silent (c_ret x)" "silent (c_get g)" "silent (fs_get h)" "silent (fs_upd k)"
  "silent (Error msg)" "silent (Error_str text)" "silent (c_fail AssertFailed)" "silent (c_fail Undefined)"
  by (auto intro!: silentI wp_intros simp: fs_get_def fs_upd_def wp_def still_def)

lemma silent_upd: "(\<And>s. still s (g s)) \<Longrightarrow> silent (c_upd g)"
  by (auto intro!: silentI wp_upd)

lemma silent_bind [silents]: "silent m \<Longrightarrow> (\<And>x. silent (f x)) \<Longrightarrow> silent (c_bind m f)"
  by (rule silentI, rule wp_bind, erule wp_silent, erule_tac x = x in meta_allE, erule wp_silent)
    (rule still_trans)

lemma silent_then [silents]: "silent m \<Longrightarrow> silent k \<Longrightarrow> silent (c_then m k)"
  unfolding c_then_def by (rule silent_bind)

lemma silent_with [silents]: "(\<And>x. silent (F x)) \<Longrightarrow> silent (c_with g F)"
  unfolding c_with_def by (intro silents)

lemma silent_seq [silents]: "silent (c_seq [])" "silent m \<Longrightarrow> silent (c_seq ms) \<Longrightarrow> silent (c_seq (m # ms))"
  by (auto intro: silents)

lemma silent_if [silents]: "silent m \<Longrightarrow> silent k \<Longrightarrow> silent (c_if P m k)"
  by (auto simp: silent_def intro: wp_if)

lemma silent_If [silents]: "silent m \<Longrightarrow> silent k \<Longrightarrow> silent (if b then m else k)"
  by simp

lemma silent_when [silents]: "silent m \<Longrightarrow> silent (c_when b m)"
  by (simp add: c_when_def silents)

lemma silent_repeat [silents]: "silent m \<Longrightarrow> silent (c_repeat n m)"
  by (induction n) (auto intro: silents)

lemma silent_case_option [silents]: "silent m \<Longrightarrow> (\<And>y. silent (f y)) \<Longrightarrow> silent (case x of None \<Rightarrow> m | Some y \<Rightarrow> f y)"
  by (cases x) simp_all

lemma silent_case_etype [silents]:
  "silent a \<Longrightarrow> silent b \<Longrightarrow> silent c \<Longrightarrow> silent d \<Longrightarrow> silent e \<Longrightarrow>
   silent (case t of EXPR \<Rightarrow> a | OBJECT \<Rightarrow> b | BASE \<Rightarrow> c | LOCAL \<Rightarrow> d | OUTER \<Rightarrow> e)"
  by (cases t) simp_all

lemma silent_tbl [silents]: "silent (c_tbl g)"
  by (auto simp: silent_def wp_def c_tbl_def still_def split: option.splits)

subsection \<open>Operations of the function state\<close>

named_theorems fs_total \<open>operations of the function state that do not depend on fuel\<close>

lemma nfe_basic [fs_total]: "no_fuel_error (c_ret x)" "no_fuel_error (c_get g)" "no_fuel_error (c_upd k)"
  "no_fuel_error (c_fail AssertFailed)" "no_fuel_error (c_fail Undefined)" "no_fuel_error (c_error text)"
  "no_fuel_error (c_tbl h)"
  by (auto simp: no_fuel_error_def c_ret_def c_get_def c_upd_def c_fail_def c_error_def c_tbl_def split: option.splits)

lemma nfe_bind [fs_total]: "no_fuel_error m \<Longrightarrow> (\<And>x. no_fuel_error (f x)) \<Longrightarrow> no_fuel_error (c_bind m f)"
  unfolding no_fuel_error_def c_bind_def
  by (auto split: prod.splits sum.splits) (metis fst_conv)

lemma nfe_then [fs_total]: "no_fuel_error m \<Longrightarrow> no_fuel_error k \<Longrightarrow> no_fuel_error (c_then m k)"
  unfolding c_then_def by (rule nfe_bind)

lemma nfe_with [fs_total]: "(\<And>x. no_fuel_error (F x)) \<Longrightarrow> no_fuel_error (c_with g F)"
  unfolding c_with_def by (intro fs_total)

lemma nfe_seq [fs_total]: "no_fuel_error (c_seq [])" "no_fuel_error m \<Longrightarrow> no_fuel_error (c_seq ms) \<Longrightarrow> no_fuel_error (c_seq (m # ms))"
  by (auto intro: fs_total)

lemma nfe_if [fs_total]: "no_fuel_error m \<Longrightarrow> no_fuel_error k \<Longrightarrow> no_fuel_error (c_if P m k)"
  by (simp add: no_fuel_error_def c_if_def)

lemma nfe_If [fs_total]: "no_fuel_error m \<Longrightarrow> no_fuel_error k \<Longrightarrow> no_fuel_error (if b then m else k)"
  by simp

lemma nfe_when [fs_total]: "no_fuel_error m \<Longrightarrow> no_fuel_error (c_when b m)"
  by (simp add: c_when_def fs_total)

lemma nfe_case_option [fs_total]:
  "no_fuel_error m \<Longrightarrow> (\<And>y. no_fuel_error (f y)) \<Longrightarrow> no_fuel_error (case x of None \<Rightarrow> m | Some y \<Rightarrow> f y)"
  by (cases x) simp_all

lemma nfe_case_prod [fs_total]: "(\<And>a b. no_fuel_error (f a b)) \<Longrightarrow> no_fuel_error (case x of (a, b) \<Rightarrow> f a b)"
  by (cases x) simp

lemma nfe_put_instr [fs_total]: "no_fuel_error (put_instr pos g)" "no_fuel_error (PopInstructions n)"
  "no_fuel_error (AddInstr i)" "no_fuel_error TopTarget"
  by (auto simp: no_fuel_error_def put_instr_def PopInstructions_def AddInstr_def TopTarget_def Let_def
      split: peep.splits)

lemma nfe_AddInstruction [fs_total]: "no_fuel_error (AddInstruction op a0 a1 a2 a3)"
  by (simp add: AddInstruction_def fs_total)

lemma nfe_ops [fs_total]: "no_fuel_error (GetConstant par x)" "no_fuel_error (GetNumericConstant_int par i)"
  "no_fuel_error (CreateString par b)" "no_fuel_error (keep_table par a)" "no_fuel_error AllocStackPos"
  "no_fuel_error PopTarget" "no_fuel_error DiscardTarget" "no_fuel_error (BuildProto par)"
  "no_fuel_error ResolveBreak" "no_fuel_error (ResolveContinue p)"
  "no_fuel_error (SetInstructionParams p b0 b1 b2 b3)" "no_fuel_error (SetInstructionParam p k v)"
  unfolding GetConstant_def GetNumericConstant_int_def CreateString_def keep_table_def AllocStackPos_def
    PopTarget_def DiscardTarget_def BuildProto_def ResolveBreak_def ResolveContinue_def
    SetInstructionParams_def SetInstructionParam_def
  by (intro fs_total)+

lemma nfe_targets [fs_total]: "no_fuel_error (PushTarget n)" "no_fuel_error NewTarget"
  unfolding PushTarget_def NewTarget_def by (intro fs_total)+

lemma nfe_AddLineInfos [fs_total]: "no_fuel_error (AddLineInfos line lineop force)"
proof -
  have "no_fuel_error (c_seq [c_when lineop (AddInstruction op_LINE 0 (sint line) 0 0), c_upd g])" for g
    by (intro fs_total)
  then show ?thesis by (simp add: no_fuel_error_def AddLineInfos_def Let_def)
qed

subsection \<open>Rules for the steps of the compiler\<close>

lemma still_left: "still s s' \<Longrightarrow> fuel_left s' = fuel_left s" "still s s' \<Longrightarrow> cc_token s' = cc_token s"
  by (auto simp: still_def fuel_left_def)

lemma silent_emits [silents]:
  "silent (emit op a0 a1 a2 a3)" "silent pop_target" "silent new_target" "silent top_target" "silent cur_pos"
  "silent (set_param p k d)" "silent (get_const par x)" "silent (create_string par b)" "silent snooze"
  "silent pop_breaktarget" "silent pop_continuetarget" "silent (on_fs (PushTarget r))"
  "silent (on_fs (AddInstr i))" "silent (on_fs DiscardTarget)" "silent (on_fs (BuildProto par))"
  "silent (on_fs (PopInstructions k))" "silent (on_fs (SetInstructionParams p b0 b1 b2 b3))"
  "silent (on_fs (GetNumericConstant_int par v))" "silent (on_fs (keep_table par a))"
  "silent (on_fs (AddLineInfos line lineop force))"
  unfolding emit_def pop_target_def new_target_def top_target_def cur_pos_def set_param_def get_const_def
    create_string_def snooze_def pop_breaktarget_def pop_continuetarget_def
  by (intro silents silent_on_fs fs_total; simp add: no_fuel_error_def)+

lemma silent_upds [silents]: "silent (c_upd (\<lambda>s. s\<lparr> cc_es := g s \<rparr>))" "silent (c_upd (\<lambda>s. s\<lparr> cc_scope := h s \<rparr>))"
  "silent (c_upd (\<lambda>s. s\<lparr> cc_tables := k s \<rparr>))"
  by (auto intro!: silent_upd simp: still_def)

lemma silent_c_some [silents]: "silent (c_some x)"
  unfolding c_some_def by (intro silents)

lemma silent_resolve [silents]: "silent (ResolveBreaks k)" "silent (ResolveContinues k p)"
  unfolding ResolveBreaks_def ResolveContinues_def by (intro silents silent_on_fs fs_total)+

lemma silent_small [silents]:
  "silent drop_target" "silent (jump_here p q)" "silent nbreaks" "silent ncontinues" "silent push_breaktarget"
  "silent push_continuetarget" "silent (count_traps d)" "silent (set_es ty pos)" "silent (set_etype ty)"
  "silent (created par b)" "silent (jump_back p)" "silent (move_to t)" "silent (set_returnexp p)"
  "silent (add_line_infos line force)" "silent incdec_error" "silent (emit_closure k)"
  unfolding drop_target_def jump_here_def nbreaks_def ncontinues_def push_breaktarget_def push_continuetarget_def
    count_traps_def set_es_def set_etype_def created_def jump_back_def move_to_def set_returnexp_def
    add_line_infos_def incdec_error_def emit_closure_def
  by (intro silents)+

lemma silent_load_string [silents]: "silent m \<Longrightarrow> silent (load_string par m)"
  unfolding load_string_def by (intro silents)

lemma silent_scopes [silents]: "silent BEGIN_SCOPE" "silent (END_SCOPE old)" "silent (END_SCOPE_NO_CLOSE old)"
  "silent RESOLVE_OUTERS" "silent BEGIN_BREAKBLE_BLOCK" "silent (END_BREAKBLE_BLOCK nbc target)"
  unfolding BEGIN_SCOPE_def END_SCOPE_def END_SCOPE_NO_CLOSE_def RESOLVE_OUTERS_def BEGIN_BREAKBLE_BLOCK_def
    END_BREAKBLE_BLOCK_def
  by (intro silents)+

lemma silent_ops [silents]: "silent MoveIfCurrentTargetIsLocal" "silent (EmitDerefOp op)"
  "silent (Emit2ArgsOP op p)" "silent (EmitCompoundArith tok ty pos)" "silent (EmitLoadConstInt par v t)"
  "silent (EmitLoadConstFloat x t)"
  unfolding MoveIfCurrentTargetIsLocal_def EmitDerefOp_def Emit2ArgsOP_def EmitCompoundArith_def
    EmitLoadConstInt_def EmitLoadConstFloat_def
  by (intro silents)+

lemma silent_assign [silents]: "silent (emit_assign op ds pos)"
  unfolding emit_assign_def by (intro silents)

lemma silent_postfix [silents]: "silent after_key" "silent prepare_call"
  unfolding after_key_def prepare_call_def by (intro silents)+

lemma silent_get_outer [silents]: "silent (get_outer name)"
  by (auto simp: silent_def wp_def get_outer_def still_def split: prod.splits list.splits)

lemma silent_tables [silents]: "silent (table_get par a name)" "silent (get_constant par name)"
  "silent (create_table par)"
  unfolding table_get_def get_constant_def create_table_def by (intro silents)+

lemma silent_case_prod [silents]: "(\<And>a b. silent (f a b)) \<Longrightarrow> silent (case x of (a, b) \<Rightarrow> f a b)"
  by (cases x) simp

lemma silent_table_put [silents]: "silent (table_put par a name val)"
  unfolding table_put_def by (intro silents)

lemma silent_load_constant [silents]: "silent (load_constant par x pos)"
  unfolding load_constant_def by (cases x) (auto intro: silents)

lemma silent_field [silents]: "silent (field_of_this par ident)"
  unfolding field_of_this_def by (intro silents)

lemma silent_functions [silents]: "silent (enter_function child)" "silent leave_function"
  by (auto simp: silent_def wp_def enter_function_def c_upd_def leave_function_def still_def split: list.splits)

lemma silent_locals [silents]: "silent (push_local name)" "silent (declare_local name)" "silent (null_local name)"
proof -
  show 1: "silent (push_local name)" for name
    by (auto simp: silent_def wp_def push_local_def still_def split: prod.splits)
  show "silent (declare_local name)" "silent (null_local name)"
    unfolding declare_local_def null_local_def by (intro silents 1)+
qed

lemma silent_statements [silents]: "silent (emit_member sep a st)" "silent (case_test e)" "silent (pop_traps_before op)"
  unfolding emit_member_def case_test_def pop_traps_before_def by (intro silents)+

text \<open>A step that does not read, in front of a postcondition.\<close>

lemma wp_still:
  "silent m \<Longrightarrow> (\<And>x s'. fuel_left s' = fuel_left s \<Longrightarrow> cc_token s' = cc_token s \<Longrightarrow> Q x s') \<Longrightarrow>
   wp m Q s"
  by (erule wp_silent) (simp add: still_left)

lemmas wp_stills [wp_intros] =
  silent_basic(3,4) [THEN wp_still] silent_emits [THEN wp_still] silent_upds [THEN wp_still]
  silent_c_some [THEN wp_still] silent_resolve [THEN wp_still] silent_small [THEN wp_still]
  silent_scopes [THEN wp_still] silent_ops [THEN wp_still] silent_assign [THEN wp_still]
  silent_postfix [THEN wp_still] silent_get_outer [THEN wp_still] silent_tables [THEN wp_still]
  silent_table_put [THEN wp_still] silent_load_constant [THEN wp_still] silent_field [THEN wp_still]
  silent_functions [THEN wp_still] silent_locals [THEN wp_still] silent_statements [THEN wp_still]

lemma wp_tbl [wp_intros]: "(\<And>x. Q x s) \<Longrightarrow> wp (c_tbl g) Q s"
  by (auto simp: wp_def c_tbl_def split: option.splits)

lemma wp_drops [wp_intros]: "(\<And>s'. fuel_left s' = fuel_left s \<Longrightarrow> cc_token s' = cc_token s \<Longrightarrow> Q () s') \<Longrightarrow>
   wp (c_repeat k drop_target) Q s"
  by (rule wp_still) (auto intro: silents)

subsection \<open>Reading\<close>

definition tok_weight :: "sqint \<Rightarrow> nat" where
  "tok_weight t = (if t = 0 then 0 else if t = TK_DOUBLE_COLON then 2 else 1)"

lemma tok_weight: "tok_weight t \<le> 2" "tok_weight 0 = 0" "t \<noteq> 0 \<Longrightarrow> 0 < tok_weight t"
  by (simp_all add: tok_weight_def)

lemma fuel_left_eq: "fuel_left s = 2 * lexsize (cc_lex s) + tok_weight (cc_token s)"
  unfolding fuel_left_def tok_weight_def ..

lemma wp_NextToken [wp_intros]:
  assumes "\<And>s'. fuel_left s' \<le> fuel_left s \<Longrightarrow> (cc_token s \<noteq> 0 \<longrightarrow> fuel_left s' < fuel_left s) \<Longrightarrow> Q () s'"
  shows "wp (NextToken par) Q s"
proof (cases "Lex (cp_strval par) (cp_realval par) (cc_lex s)")
  case (Inl e)
  then show ?thesis by (cases e) (simp add: wp_def NextToken_def Error_str_def Error_def c_fail_def)
next
  case (Inr r)
  obtain t l where r: "r = (t, l)" by (cases r)
  let ?s = "s\<lparr> cc_token := t, cc_lex := l \<rparr>"
  have lex: "Lex (cp_strval par) (cp_realval par) (cc_lex s) = Inr (t, l)" by (simp only: Inr r)
  have next_eq: "NextToken par s = (Inr (), ?s)" unfolding NextToken_def lex by simp
  have "lexsize l < lexsize (cc_lex s) \<or> t = 0 \<and> lexsize l \<le> lexsize (cc_lex s)"
    using Lex_progress [OF lex] by blast
  then have "2 * lexsize l + tok_weight t \<le> 2 * lexsize (cc_lex s)"
    using tok_weight(1) [of t] tok_weight(2) by (elim disjE conjE; simp only: ; linarith)
  then have "fuel_left ?s \<le> fuel_left s" "cc_token s \<noteq> 0 \<longrightarrow> fuel_left ?s < fuel_left s"
    using tok_weight(3) [of "cc_token s"] unfolding fuel_left_eq by (simp_all, linarith)
  from assms [OF this] show ?thesis by (simp add: wp_def next_eq)
qed

lemma wp_Expect [wp_intros]:
  assumes "tok \<noteq> 0" and "\<And>x s'. fuel_left s' < fuel_left s \<Longrightarrow> Q x s'"
  shows "wp (Expect par tok) Q s"
proof -
  have str: "silent (case ret of VString b \<Rightarrow> create_string par b | _ \<Rightarrow> c_ret ())" for ret
    by (cases ret) (simp_all add: silents)
  have rest: "wp (c_then (case ret of VString b \<Rightarrow> create_string par b | _ \<Rightarrow> c_ret ())
       (c_then (NextToken par) (c_ret ret))) Q s1" if "cc_token s1 \<noteq> 0" "fuel_left s1 = fuel_left s" for ret s1
    by (intro wp_then wp_still [OF str] wp_NextToken wp_ret assms(2)) (use that in simp)
  have c: "TK_CONSTRUCTOR \<noteq> 0" by (simp add: TK_CONSTRUCTOR_def)
  show ?thesis
    unfolding Expect_def
    by (rule wp_then, rule wp_if, rule wp_with, rule wp_fails, rule wp_ret, rule wp_with, rule rest)
      (use assms(1) c in auto)
qed

lemma wp_expects [wp_intros]:
  "tok \<noteq> 0 \<Longrightarrow> (\<And>s'. fuel_left s' < fuel_left s \<Longrightarrow> Q () s') \<Longrightarrow> wp (ExpectTok par tok) Q s"
  "tokc c \<noteq> 0 \<Longrightarrow> (\<And>s'. fuel_left s' < fuel_left s \<Longrightarrow> Q () s') \<Longrightarrow> wp (expect_char par c) Q s"
  "(\<And>b s'. fuel_left s' < fuel_left s \<Longrightarrow> R b s') \<Longrightarrow> wp (expect_name par) R s"
  unfolding expect_char_def ExpectTok_def expect_name_def
  by (intro wp_intros; simp add: TK_IDENTIFIER_def)+

lemma wp_load_string [wp_intros]:
  assumes "\<And>s1. fuel_left s1 = fuel_left s \<Longrightarrow> cc_token s1 = cc_token s \<Longrightarrow>
      wp m (\<lambda>b s2. \<forall>s3. fuel_left s3 = fuel_left s2 \<longrightarrow> cc_token s3 = cc_token s2 \<longrightarrow> Q () s3) s1"
  shows "wp (load_string par m) Q s"
  unfolding load_string_def
  by (intro wp_intros) (rule wp_mono [OF assms], auto intro!: wp_intros)

lemma wp_created [wp_intros]:
  "(\<And>b s'. fuel_left s' = fuel_left s \<Longrightarrow> cc_token s' = cc_token s \<Longrightarrow> Q b s') \<Longrightarrow> wp (created par x) Q s"
  by (rule wp_still) (auto intro: silents)

lemma wp_statement_end [wp_intros]:
  assumes "\<And>s'. fuel_left s' \<le> fuel_left s \<Longrightarrow> Q () s'"
  shows "wp (end_statement par) Q s" "wp (OptionalSemicolon par) Q s"
  unfolding end_statement_def OptionalSemicolon_def by (intro wp_intros assms; simp)+

subsection \<open>The recursive calls\<close>

text \<open>The calls that read at least one token when they succeed, and the order of the calls that are
  made before anything is read.\<close>

fun reads :: "call \<Rightarrow> bool" where
  "reads (CallStatement _) = True"
| "reads CallCommaExpr = True"
| "reads CallExpression = True"
| "reads CallLogicalOrExp = True"
| "reads CallLogicalAndExp = True"
| "reads CallPrefixedExpr = True"
| "reads _ = False"

fun rank :: "call \<Rightarrow> nat" where
  "rank CallPrefixedExpr = 1"
| "rank CallLogicalAndExp = 2"
| "rank CallLogicalOrExp = 2"
| "rank CallExpression = 3"
| "rank CallCommaExpr = 4"
| "rank (CallStatement _) = 5"
| "rank (CallTableOrClass _ _) = 7"
| "rank _ = 6"

definition rec_ok :: "nat \<Rightarrow> recf \<Rightarrow> bool" where
  "rec_ok n rec \<longleftrightarrow> (\<forall>c s. 10 * fuel_left s + rank c < n \<longrightarrow>
     wp (rec c) (\<lambda>_ s'. fuel_left s' \<le> fuel_left s \<and> (reads c \<longrightarrow> fuel_left s' < fuel_left s)) s)"

lemma wp_rec:
  assumes "rec_ok n rec" "10 * fuel_left s + rank c < n"
    and "\<And>s'. fuel_left s' \<le> fuel_left s \<Longrightarrow> (reads c \<longrightarrow> fuel_left s' < fuel_left s) \<Longrightarrow> Q () s'"
  shows "wp (rec c) Q s"
proof -
  have "wp (rec c) (\<lambda>_ s'. fuel_left s' \<le> fuel_left s \<and> (reads c \<longrightarrow> fuel_left s' < fuel_left s)) s"
    using assms(1,2) unfolding rec_ok_def by simp
  then show ?thesis by (rule wp_mono) (use assms(3) in simp)
qed

lemma wp_MultExp:
  assumes ok: "rec_ok n rec" and n: "10 * fuel_left s + 1 < n"
    and Q: "\<And>s'. fuel_left s' < fuel_left s \<Longrightarrow> Q () s'"
  shows "wp (MultExp rec) Q s"
  unfolding MultExp_def by (intro wp_intros wp_rec [OF ok] Q) (use n in simp_all)

lemma wp_PlusExp:
  assumes ok: "rec_ok n rec" and n: "10 * fuel_left s + 1 < n"
    and Q: "\<And>s'. fuel_left s' < fuel_left s \<Longrightarrow> Q () s'"
  shows "wp (PlusExp rec) Q s"
  unfolding PlusExp_def by (intro wp_intros wp_MultExp [OF ok] wp_rec [OF ok] Q) (use n in simp_all)

lemma wp_ShiftExp:
  assumes ok: "rec_ok n rec" and n: "10 * fuel_left s + 1 < n"
    and Q: "\<And>s'. fuel_left s' < fuel_left s \<Longrightarrow> Q () s'"
  shows "wp (ShiftExp rec) Q s"
  unfolding ShiftExp_def by (intro wp_intros wp_PlusExp [OF ok] wp_rec [OF ok] Q) (use n in simp_all)

lemma wp_CompExp:
  assumes ok: "rec_ok n rec" and n: "10 * fuel_left s + 1 < n"
    and Q: "\<And>s'. fuel_left s' < fuel_left s \<Longrightarrow> Q () s'"
  shows "wp (CompExp rec) Q s"
  unfolding CompExp_def by (intro wp_intros wp_ShiftExp [OF ok] wp_rec [OF ok] Q) (use n in simp_all)

lemma wp_EqExp:
  assumes ok: "rec_ok n rec" and n: "10 * fuel_left s + 1 < n"
    and Q: "\<And>s'. fuel_left s' < fuel_left s \<Longrightarrow> Q () s'"
  shows "wp (EqExp rec) Q s"
  unfolding EqExp_def by (intro wp_intros wp_CompExp [OF ok] wp_rec [OF ok] Q) (use n in simp_all)

lemma wp_BitwiseAndExp:
  assumes ok: "rec_ok n rec" and n: "10 * fuel_left s + 1 < n"
    and Q: "\<And>s'. fuel_left s' < fuel_left s \<Longrightarrow> Q () s'"
  shows "wp (BitwiseAndExp rec) Q s"
  unfolding BitwiseAndExp_def by (intro wp_intros wp_EqExp [OF ok] wp_rec [OF ok] Q) (use n in simp_all)

lemma wp_BitwiseXorExp:
  assumes ok: "rec_ok n rec" and n: "10 * fuel_left s + 1 < n"
    and Q: "\<And>s'. fuel_left s' < fuel_left s \<Longrightarrow> Q () s'"
  shows "wp (BitwiseXorExp rec) Q s"
  unfolding BitwiseXorExp_def by (intro wp_intros wp_BitwiseAndExp [OF ok] wp_rec [OF ok] Q) (use n in simp_all)

lemma wp_BitwiseOrExp:
  assumes ok: "rec_ok n rec" and n: "10 * fuel_left s + 1 < n"
    and Q: "\<And>s'. fuel_left s' < fuel_left s \<Longrightarrow> Q () s'"
  shows "wp (BitwiseOrExp rec) Q s"
  unfolding BitwiseOrExp_def by (intro wp_intros wp_BitwiseXorExp [OF ok] wp_rec [OF ok] Q) (use n in simp_all)

text \<open>An operand that reads, evaluated with a state of its own.\<close>

lemma wp_INVOKE_EXP:
  assumes "\<And>s1 R. fuel_left s1 = fuel_left s \<Longrightarrow> (\<And>s2. fuel_left s2 < fuel_left s1 \<Longrightarrow> R () s2) \<Longrightarrow> wp f R s1"
    and "\<And>s'. fuel_left s' < fuel_left s \<Longrightarrow> Q () s'"
  shows "wp (INVOKE_EXP f) Q s"
  unfolding INVOKE_EXP_def by (intro wp_intros assms; simp)

lemma wp_BIN_EXP:
  assumes f: "\<And>s1 R. fuel_left s1 \<le> fuel_left s \<Longrightarrow> (\<And>s2. fuel_left s2 < fuel_left s1 \<Longrightarrow> R () s2) \<Longrightarrow> wp f R s1"
    and Q: "\<And>s'. fuel_left s' < fuel_left s \<Longrightarrow> Q () s'"
  shows "wp (BIN_EXP par op f p) Q s"
  unfolding BIN_EXP_def by (intro wp_intros wp_INVOKE_EXP f Q; simp)

lemma wp_bin_loop:
  assumes ok: "rec_ok n rec" and n: "10 * fuel_left s + 6 \<le> n" and r: "rank again = 6"
    and f: "\<And>s1 R. fuel_left s1 \<le> fuel_left s \<Longrightarrow> (\<And>s2. fuel_left s2 < fuel_left s1 \<Longrightarrow> R () s2) \<Longrightarrow> wp f R s1"
    and Q: "\<And>s'. fuel_left s' \<le> fuel_left s \<Longrightarrow> Q () s'"
  shows "wp (bin_loop par rec ops f again) Q s"
  unfolding bin_loop_def
  by (intro wp_intros wp_BIN_EXP f wp_rec [OF ok] Q; use n r in simp)

lemma wp_logical_op:
  assumes f: "\<And>s1 R. fuel_left s1 \<le> fuel_left s \<Longrightarrow> (\<And>s2. fuel_left s2 < fuel_left s1 \<Longrightarrow> R () s2) \<Longrightarrow> wp f R s1"
    and Q: "\<And>s'. fuel_left s' < fuel_left s \<Longrightarrow> Q () s'"
  shows "wp (logical_op par op f) Q s"
  unfolding logical_op_def by (intro wp_intros wp_INVOKE_EXP f Q; simp)

subsection \<open>Expressions\<close>

lemmas tok_defs =
  token_is_def TK_IDENTIFIER_def TK_STRING_LITERAL_def TK_INTEGER_def TK_FLOAT_def TK_BASE_def TK_DELETE_def
  TK_EQ_def TK_NE_def TK_LE_def TK_GE_def TK_SWITCH_def TK_AND_def TK_OR_def TK_IF_def TK_ELSE_def TK_WHILE_def
  TK_BREAK_def TK_FOR_def TK_DO_def TK_NULL_def TK_FOREACH_def TK_IN_def TK_NEWSLOT_def TK_LOCAL_def TK_CLONE_def
  TK_FUNCTION_def TK_RETURN_def TK_TYPEOF_def TK_PLUSEQ_def TK_MINUSEQ_def TK_CONTINUE_def TK_YIELD_def TK_TRY_def
  TK_CATCH_def TK_THROW_def TK_SHIFTL_def TK_SHIFTR_def TK_RESUME_def TK_DOUBLE_COLON_def TK_CASE_def
  TK_DEFAULT_def TK_THIS_def TK_PLUSPLUS_def TK_MINUSMINUS_def TK_3WAYSCMP_def TK_USHIFTR_def TK_CLASS_def
  TK_EXTENDS_def TK_CONSTRUCTOR_def TK_INSTANCEOF_def TK_VARPARAMS_def TK_LINE_def TK_FILE_def TK_TRUE_def
  TK_FALSE_def TK_MULEQ_def TK_DIVEQ_def TK_MODEQ_def TK_ATTR_OPEN_def TK_ATTR_CLOSE_def TK_STATIC_def
  TK_ENUM_def TK_CONST_def TK_RAWCALL_def

lemma wp_LogicalAndExp:
  assumes ok: "rec_ok n rec" and n: "10 * fuel_left s + 1 < n"
    and Q: "\<And>s'. fuel_left s' < fuel_left s \<Longrightarrow> Q () s'"
  shows "wp (LogicalAndExp par rec) Q s"
  unfolding LogicalAndExp_def
  by (intro wp_intros wp_BitwiseOrExp [OF ok] wp_logical_op wp_rec [OF ok] Q) (use n in simp_all)

lemma wp_LogicalOrExp:
  assumes ok: "rec_ok n rec" and n: "10 * fuel_left s + 1 < n"
    and Q: "\<And>s'. fuel_left s' < fuel_left s \<Longrightarrow> Q () s'"
  shows "wp (LogicalOrExp par rec) Q s"
  unfolding LogicalOrExp_def
  by (intro wp_intros wp_LogicalAndExp [OF ok] wp_logical_op wp_rec [OF ok] Q) (use n in simp_all)

lemma wp_Assignment:
  assumes ok: "rec_ok n rec" and n: "10 * fuel_left s + 3 < n"
    and Q: "\<And>s'. fuel_left s' < fuel_left s \<Longrightarrow> Q () s'"
  shows "wp (Assignment par rec) Q s"
  unfolding Assignment_def by (intro wp_intros wp_rec [OF ok] Q) (use n in simp_all)

lemma wp_Conditional:
  assumes ok: "rec_ok n rec" and n: "10 * fuel_left s + 3 < n"
    and Q: "\<And>s'. fuel_left s' < fuel_left s \<Longrightarrow> Q () s'"
  shows "wp (Conditional par rec) Q s"
  unfolding Conditional_def by (intro wp_intros wp_rec [OF ok] Q) (use n in simp_all)

lemma wp_ExpressionC:
  assumes ok: "rec_ok n rec" and n: "10 * fuel_left s + 1 < n"
    and Q: "\<And>s'. fuel_left s' < fuel_left s \<Longrightarrow> Q () s'"
  shows "wp (ExpressionC par rec) Q s"
  unfolding ExpressionC_def
  by (intro wp_intros wp_INVOKE_EXP wp_LogicalOrExp [OF ok] wp_Assignment [OF ok] wp_Conditional [OF ok] Q)
    (use n in simp_all)

lemma wp_CommaExpr:
  assumes ok: "rec_ok n rec" and n: "10 * fuel_left s + 3 < n"
    and Q: "\<And>s'. fuel_left s' < fuel_left s \<Longrightarrow> Q () s'"
  shows "wp (CommaExpr par rec) Q s"
  unfolding CommaExpr_def by (intro wp_intros wp_rec [OF ok] Q) (use n in simp_all)

lemma wp_PostIncDec:
  assumes Q: "\<And>u s'. fuel_left s' \<le> fuel_left s \<Longrightarrow> Q u s'"
  shows "wp (PostIncDec par) Q s"
  unfolding PostIncDec_def by (intro wp_intros Q) simp_all

lemma wp_end_call:
  assumes ok: "rec_ok n rec" and n: "10 * fuel_left s + 0 < n" and t: "cc_token s \<noteq> 0"
    and Q: "\<And>u s'. fuel_left s' < fuel_left s \<Longrightarrow> Q u s'"
  shows "wp (end_call par rec nargs rawcall) Q s"
  unfolding end_call_def
  by (intro allI impI wp_intros wp_rec [OF ok] Q) (use n t in \<open>simp_all add: tok_defs\<close>)

lemma wp_CallArgs_loop:
  assumes ok: "rec_ok n rec" and n: "10 * fuel_left s + 5 < n"
    and Q: "\<And>u s'. fuel_left s' \<le> fuel_left s \<Longrightarrow> Q u s'"
  shows "wp (CallArgs_loop par rec nargs rawcall) Q s"
  unfolding CallArgs_loop_def
  by (intro allI impI wp_intros wp_rec [OF ok] wp_end_call [OF ok] Q) (use n in \<open>simp_all add: tok_defs\<close>)

lemma wp_PrefixedExpr_loop:
  assumes ok: "rec_ok n rec" and n: "10 * fuel_left s + 5 < n"
    and Q: "\<And>u s'. fuel_left s' \<le> fuel_left s \<Longrightarrow> Q u s'"
  shows "wp (PrefixedExpr_loop par rec) Q s"
  unfolding PrefixedExpr_loop_def FunctionCallArgs_def
  by (intro allI impI wp_intros wp_rec [OF ok] wp_PostIncDec Q) (use n in \<open>simp_all add: tok_defs\<close>)

lemma wp_key_in_brackets:
  assumes ok: "rec_ok n rec" and n: "10 * fuel_left s + 0 < n" and t: "cc_token s \<noteq> 0"
    and Q: "\<And>u s'. fuel_left s' < fuel_left s \<Longrightarrow> Q u s'"
  shows "wp (key_in_brackets par rec) Q s"
  unfolding key_in_brackets_def
  by (intro allI impI wp_intros wp_rec [OF ok] Q) (use n t in \<open>simp_all add: tok_defs\<close>)

lemma wp_key_name:
  assumes ok: "rec_ok n rec" and n: "10 * fuel_left s + 0 < n"
    and Q: "\<And>u s'. fuel_left s' < fuel_left s \<Longrightarrow> Q u s'"
  shows "wp (key_name par rec) Q s"
  unfolding key_name_def
  by (intro allI impI wp_intros wp_rec [OF ok] Q) (use n in \<open>simp_all add: tok_defs\<close>)

lemma wp_CallInit_loop:
  assumes ok: "rec_ok n rec" and n: "10 * fuel_left s + 0 < n"
    and Q: "\<And>u s'. fuel_left s' \<le> fuel_left s \<Longrightarrow> Q u s'"
  shows "wp (CallInit_loop par rec retval) Q s"
  unfolding CallInit_loop_def
  by (intro allI impI wp_intros wp_rec [OF ok] wp_key_in_brackets [OF ok] wp_key_name [OF ok] Q) (use n in \<open>simp_all add: tok_defs\<close>)

subsection \<open>Functions, tables and classes\<close>

lemma wp_ParseBindEnv:
  assumes ok: "rec_ok n rec" and n: "10 * fuel_left s + 0 < n" and t: "cc_token s \<noteq> 0"
    and Q: "\<And>u s'. fuel_left s' < fuel_left s \<Longrightarrow> Q u s'"
  shows "wp (ParseBindEnv par rec) Q s"
  unfolding ParseBindEnv_def
  by (intro allI impI wp_intros wp_rec [OF ok] Q) (use n t in \<open>simp_all add: tok_defs\<close>)

lemma wp_bind_env:
  assumes ok: "rec_ok n rec" and n: "10 * fuel_left s + 0 < n"
    and Q: "\<And>u s'. fuel_left s' \<le> fuel_left s \<Longrightarrow> Q u s'"
  shows "wp (bind_env par rec) Q s"
  unfolding bind_env_def
  by (intro allI impI wp_intros wp_rec [OF ok] wp_ParseBindEnv [OF ok] Q) (use n in \<open>simp_all add: tok_defs\<close>)

lemma wp_function_body:
  assumes ok: "rec_ok n rec" and n: "10 * fuel_left s + 5 < n"
    and Q: "\<And>u s'. fuel_left s' \<le> fuel_left s \<Longrightarrow> Q u s'"
  shows "wp (function_body par rec child) Q s"
  unfolding function_body_def
  by (intro allI impI wp_intros wp_rec [OF ok] Q) (use n in \<open>simp_all add: tok_defs\<close>)

lemma wp_end_params:
  assumes ok: "rec_ok n rec" and n: "10 * fuel_left s + 0 < n"
    and Q: "\<And>u s'. fuel_left s' < fuel_left s \<Longrightarrow> Q u s'"
  shows "wp (end_params par rec child defparams b) Q s"
  unfolding end_params_def
  by (intro allI impI wp_intros wp_rec [OF ok] wp_function_body [OF ok] Q) (use n in \<open>simp_all add: tok_defs\<close>)

lemma wp_var_params:
  assumes ok: "rec_ok n rec" and n: "10 * fuel_left s + 0 < n" and t: "cc_token s \<noteq> 0"
    and Q: "\<And>u s'. fuel_left s' < fuel_left s \<Longrightarrow> Q u s'"
  shows "wp (var_params par rec child defparams b) Q s"
  unfolding var_params_def
  by (intro allI impI wp_intros wp_rec [OF ok] wp_end_params [OF ok] Q) (use n t in \<open>simp_all add: tok_defs\<close>)

lemma wp_next_param [wp_intros]:
  assumes Q: "\<And>u s'. fuel_left s' \<le> fuel_left s \<Longrightarrow> Q u s'"
  shows "wp (next_param par) Q s"
  unfolding next_param_def by (intro wp_intros Q) simp_all

lemma wp_one_param:
  assumes ok: "rec_ok n rec" and n: "10 * fuel_left s + 0 < n"
    and Q: "\<And>u s'. fuel_left s' < fuel_left s \<Longrightarrow> Q u s'"
  shows "wp (one_param par rec child defparams b) Q s"
  unfolding one_param_def
  by (intro allI impI wp_intros wp_rec [OF ok] Q) (use n in \<open>simp_all add: tok_defs\<close>)

lemma wp_Params_loop:
  assumes ok: "rec_ok n rec" and n: "10 * fuel_left s + 0 < n"
    and Q: "\<And>u s'. fuel_left s' < fuel_left s \<Longrightarrow> Q u s'"
  shows "wp (Params_loop par rec child defparams b) Q s"
  unfolding Params_loop_def
  by (intro allI impI wp_intros wp_rec [OF ok] wp_end_params [OF ok] wp_var_params [OF ok] wp_one_param [OF ok] Q) (use n in \<open>simp_all add: tok_defs\<close>)

lemma wp_CreateFunction:
  assumes ok: "rec_ok n rec" and n: "10 * fuel_left s + 6 < n"
    and Q: "\<And>u s'. fuel_left s' \<le> fuel_left s \<Longrightarrow> Q u s'"
  shows "wp (CreateFunction par rec name b) Q s"
  unfolding CreateFunction_def
  by (intro allI impI wp_intros wp_rec [OF ok] Q) (use n in \<open>simp_all add: tok_defs\<close>)

lemma wp_FunctionExp:
  assumes ok: "rec_ok n rec" and n: "10 * fuel_left s + 0 < n" and t: "cc_token s \<noteq> 0"
    and Q: "\<And>u s'. fuel_left s' < fuel_left s \<Longrightarrow> Q u s'"
  shows "wp (FunctionExp par rec) Q s"
  unfolding FunctionExp_def
  by (intro allI impI wp_intros wp_rec [OF ok] wp_bind_env [OF ok] wp_CreateFunction [OF ok] Q) (use n t in \<open>simp_all add: tok_defs\<close>)

lemma wp_member_function:
  assumes ok: "rec_ok n rec" and n: "10 * fuel_left s + 0 < n" and t: "cc_token s \<noteq> 0"
    and Q: "\<And>u s'. fuel_left s' < fuel_left s \<Longrightarrow> Q u s'"
  shows "wp (member_function par rec) Q s"
  unfolding member_function_def
  by (intro allI impI wp_intros wp_rec [OF ok] wp_bind_env [OF ok] wp_CreateFunction [OF ok] Q) (use n t in \<open>simp_all add: tok_defs\<close>)

lemma wp_json_key:
  assumes ok: "rec_ok n rec" and n: "10 * fuel_left s + 0 < n"
    and Q: "\<And>u s'. fuel_left s' < fuel_left s \<Longrightarrow> Q u s'"
  shows "wp (json_key par rec) Q s"
  unfolding json_key_def
  by (intro allI impI wp_intros wp_rec [OF ok] Q) (use n in \<open>simp_all add: tok_defs\<close>)

lemma wp_table_member:
  assumes ok: "rec_ok n rec" and n: "10 * fuel_left s + 0 < n"
    and Q: "\<And>u s'. fuel_left s' < fuel_left s \<Longrightarrow> Q u s'"
  shows "wp (table_member par rec sep) Q s"
  unfolding table_member_def
  by (intro allI impI wp_intros wp_rec [OF ok] wp_member_function [OF ok] wp_key_in_brackets [OF ok] wp_json_key [OF ok] wp_key_name [OF ok] Q) (use n in \<open>auto simp: tok_defs\<close>)

lemma wp_member_attrs:
  assumes ok: "rec_ok n rec" and n: "10 * fuel_left s + 0 < n"
    and Q: "\<And>u s'. fuel_left s' \<le> fuel_left s \<Longrightarrow> Q u s'"
  shows "wp (member_attrs par rec sep) Q s"
  unfolding member_attrs_def
  by (intro allI impI wp_intros wp_rec [OF ok] Q) (use n in \<open>simp_all add: tok_defs\<close>)

lemma wp_member_static [wp_intros]:
  assumes Q: "\<And>u s'. fuel_left s' \<le> fuel_left s \<Longrightarrow> Q u s'"
  shows "wp (member_static par sep) Q s"
  unfolding member_static_def by (intro wp_intros Q) simp_all

lemma wp_TableOrClass_loop:
  assumes ok: "rec_ok n rec" and n: "10 * fuel_left s + 0 < n"
    and Q: "\<And>u s'. fuel_left s' \<le> fuel_left s \<Longrightarrow> Q u s'"
  shows "wp (TableOrClass_loop par rec sep term tpos k) Q s"
  unfolding TableOrClass_loop_def
  by (intro allI impI wp_intros wp_rec [OF ok] wp_table_member [OF ok] wp_member_attrs [OF ok] Q) (use n in \<open>simp_all add: tok_defs\<close>)

lemma wp_ParseTableOrClass:
  assumes ok: "rec_ok n rec" and n: "10 * fuel_left s + 6 < n"
    and Q: "\<And>u s'. fuel_left s' \<le> fuel_left s \<Longrightarrow> Q u s'"
  shows "wp (ParseTableOrClass rec sep term) Q s"
  unfolding ParseTableOrClass_def
  by (intro allI impI wp_intros wp_rec [OF ok] Q) (use n in \<open>simp_all add: tok_defs\<close>)

lemma wp_class_base:
  assumes ok: "rec_ok n rec" and n: "10 * fuel_left s + 0 < n"
    and Q: "\<And>u s'. fuel_left s' \<le> fuel_left s \<Longrightarrow> Q u s'"
  shows "wp (class_base par rec) Q s"
  unfolding class_base_def
  by (intro allI impI wp_intros wp_rec [OF ok] Q) (use n in \<open>simp_all add: tok_defs\<close>)

lemma wp_class_attrs:
  assumes ok: "rec_ok n rec" and n: "10 * fuel_left s + 0 < n"
    and Q: "\<And>u s'. fuel_left s' \<le> fuel_left s \<Longrightarrow> Q u s'"
  shows "wp (class_attrs par rec) Q s"
  unfolding class_attrs_def
  by (intro allI impI wp_intros wp_rec [OF ok] wp_ParseTableOrClass [OF ok] Q) (use n in \<open>simp_all add: tok_defs\<close>)

lemma wp_ClassExp:
  assumes ok: "rec_ok n rec" and n: "10 * fuel_left s + 0 < n"
    and Q: "\<And>u s'. fuel_left s' < fuel_left s \<Longrightarrow> Q u s'"
  shows "wp (ClassExp par rec) Q s"
  unfolding ClassExp_def
  by (intro allI impI wp_intros wp_rec [OF ok] wp_class_base [OF ok] wp_class_attrs [OF ok] wp_ParseTableOrClass [OF ok] Q) (use n in \<open>simp_all add: tok_defs\<close>)

lemma wp_Array_loop:
  assumes ok: "rec_ok n rec" and n: "10 * fuel_left s + 5 < n"
    and Q: "\<And>u s'. fuel_left s' \<le> fuel_left s \<Longrightarrow> Q u s'"
  shows "wp (Array_loop par rec apos key) Q s"
  unfolding Array_loop_def
  by (intro allI impI wp_intros wp_rec [OF ok] Q) (use n in \<open>simp_all add: tok_defs\<close>)


subsection \<open>Primary expressions\<close>

lemma wp_named_constant [wp_intros]:
  assumes Q: "\<And>u s'. fuel_left s' \<le> fuel_left s \<Longrightarrow> Q u s'"
  shows "wp (named_constant par ident x) Q s"
proof -
  have tail: "wp (c_bind new_target (\<lambda>pos. c_seq [set_es EXPR pos, load_constant par v pos])) Q s1"
    if "fuel_left s1 \<le> fuel_left s" for v s1
    by (intro wp_intros Q) (use that in simp_all)
  have member: "wp (enum_member par ident a) (\<lambda>v. wp (c_bind new_target (\<lambda>pos. c_seq [set_es EXPR pos, load_constant par v pos])) Q) s" for a
    unfolding enum_member_def by (intro allI impI wp_then wp_bind wp_expects wp_stills wp_case_option wp_fails wp_ret tail) simp_all
  show ?thesis
    unfolding named_constant_def
    by (rule wp_bind, cases x; simp only: sqobject.case; (rule member | (rule wp_ret, rule tail, rule order_refl)))
qed

lemma wp_Identifier:
  assumes t: "cc_token s \<noteq> 0" and Q: "\<And>u s'. fuel_left s' < fuel_left s \<Longrightarrow> Q u s'"
  shows "wp (Identifier par) Q s"
  unfolding Identifier_def by (intro wp_intros Q) (use t in simp_all)

lemma wp_UnaryOP:
  assumes ok: "rec_ok n rec" and n: "10 * fuel_left s + 1 < n"
    and Q: "\<And>u s'. fuel_left s' < fuel_left s \<Longrightarrow> Q u s'"
  shows "wp (UnaryOP rec op) Q s"
  unfolding UnaryOP_def
  by (intro allI impI wp_intros wp_rec [OF ok] Q) (use n in \<open>simp_all add: tok_defs\<close>)

lemma wp_with_donot_get:
  assumes ok: "rec_ok n rec" and n: "10 * fuel_left s + 1 < n"
    and k: "\<And>es s1 R. (\<And>s2. fuel_left s2 \<le> fuel_left s1 \<Longrightarrow> R () s2) \<Longrightarrow> fuel_left s1 < fuel_left s \<Longrightarrow> wp (k es) R s1"
    and Q: "\<And>u s'. fuel_left s' < fuel_left s \<Longrightarrow> Q u s'"
  shows "wp (with_donot_get rec k) Q s"
  unfolding with_donot_get_def by (intro wp_intros wp_rec [OF ok] k Q) (use n in simp_all)

lemma wp_DeleteExpr:
  assumes ok: "rec_ok n rec" and n: "10 * fuel_left s + 0 < n" and t: "cc_token s \<noteq> 0"
    and Q: "\<And>u s'. fuel_left s' < fuel_left s \<Longrightarrow> Q u s'"
  shows "wp (DeleteExpr par rec) Q s"
  unfolding DeleteExpr_def
  by (intro allI impI wp_intros wp_rec [OF ok] wp_with_donot_get [OF ok] Q) (use n t in \<open>simp_all add: tok_defs\<close>)

lemma wp_PrefixIncDec:
  assumes ok: "rec_ok n rec" and n: "10 * fuel_left s + 0 < n" and t: "cc_token s \<noteq> 0"
    and Q: "\<And>u s'. fuel_left s' < fuel_left s \<Longrightarrow> Q u s'"
  shows "wp (PrefixIncDec par rec tok) Q s"
  unfolding PrefixIncDec_def
  by (intro allI impI wp_intros wp_rec [OF ok] wp_with_donot_get [OF ok] Q) (use n t in \<open>simp_all add: tok_defs\<close>)

lemma wp_minus_expr:
  assumes ok: "rec_ok n rec" and n: "10 * fuel_left s + 0 < n" and t: "cc_token s \<noteq> 0"
    and Q: "\<And>u s'. fuel_left s' < fuel_left s \<Longrightarrow> Q u s'"
  shows "wp (minus_expr par rec) Q s"
  unfolding minus_expr_def
  by (intro allI impI wp_intros wp_rec [OF ok] wp_UnaryOP [OF ok] Q) (use n t in \<open>simp_all add: tok_defs\<close>)

lemma wp_bwnot_expr:
  assumes ok: "rec_ok n rec" and n: "10 * fuel_left s + 0 < n" and t: "cc_token s \<noteq> 0"
    and Q: "\<And>u s'. fuel_left s' < fuel_left s \<Longrightarrow> Q u s'"
  shows "wp (bwnot_expr par rec) Q s"
  unfolding bwnot_expr_def
  by (intro allI impI wp_intros wp_rec [OF ok] wp_UnaryOP [OF ok] Q) (use n t in \<open>simp_all add: tok_defs\<close>)

lemma wp_array_expr:
  assumes ok: "rec_ok n rec" and n: "10 * fuel_left s + 0 < n" and t: "cc_token s \<noteq> 0"
    and Q: "\<And>u s'. fuel_left s' < fuel_left s \<Longrightarrow> Q u s'"
  shows "wp (array_expr par rec) Q s"
  unfolding array_expr_def
  by (intro allI impI wp_intros wp_rec [OF ok] Q) (use n t in \<open>simp_all add: tok_defs\<close>)

lemma wp_table_expr:
  assumes ok: "rec_ok n rec" and n: "10 * fuel_left s + 0 < n" and t: "cc_token s \<noteq> 0"
    and Q: "\<And>u s'. fuel_left s' < fuel_left s \<Longrightarrow> Q u s'"
  shows "wp (table_expr par rec) Q s"
  unfolding table_expr_def
  by (intro allI impI wp_intros wp_rec [OF ok] wp_ParseTableOrClass [OF ok] Q) (use n t in \<open>simp_all add: tok_defs\<close>)

lemma wp_literal_expr:
  assumes "literal_expr par t = Some m" "t \<noteq> 0 \<Longrightarrow> cc_token s \<noteq> 0"
    and Q: "\<And>u s'. fuel_left s' < fuel_left s \<Longrightarrow> Q u s'"
  shows "wp m Q s"
  using assms(1,2) unfolding literal_expr_def
  by (auto split: if_splits intro!: wp_intros Q simp: tok_defs)

lemma wp_compound_expr:
  assumes ok: "rec_ok n rec" and n: "10 * fuel_left s + 0 < n" and t: "cc_token s \<noteq> 0"
    and Q: "\<And>u s'. fuel_left s' < fuel_left s \<Longrightarrow> Q u s'"
  shows "wp (compound_expr par rec t) Q s"
  unfolding compound_expr_def FunctionCallArgs_def
  by (intro allI impI wp_intros wp_rec [OF ok] wp_array_expr [OF ok] wp_table_expr [OF ok] wp_FunctionExp [OF ok] wp_ClassExp [OF ok] wp_minus_expr [OF ok] wp_bwnot_expr [OF ok] wp_UnaryOP [OF ok] wp_PrefixIncDec [OF ok] wp_DeleteExpr [OF ok] Q) (use n t in \<open>simp_all add: tok_defs\<close>)


lemma wp_primary:
  assumes ok: "rec_ok n rec" and n: "10 * fuel_left s < n" and t: "t = cc_token s"
    and Q: "\<And>u s'. fuel_left s' < fuel_left s \<Longrightarrow> Q u s'"
  shows "wp (case literal_expr par t of Some m \<Rightarrow> m | None \<Rightarrow> compound_expr par rec t) Q s"
proof (cases "cc_token s = 0")
  case True
  then have "literal_expr par t = None" "compound_expr par rec t = Error_str ''expression expected''"
    by (simp_all add: t literal_expr_def compound_expr_def tok_defs)
  then show ?thesis by (simp add: wp_fails)
next
  case False
  show ?thesis
  proof (cases "literal_expr par t")
    case None
    show ?thesis unfolding None by (simp, rule wp_compound_expr [OF ok _ False Q]) (use n in simp_all)
  next
    case (Some m)
    show ?thesis unfolding Some by (simp, rule wp_literal_expr [OF Some False Q])
  qed
qed

lemma wp_set_dot [wp_intros]:
  "cc_token s = TK_DOUBLE_COLON \<Longrightarrow> (\<And>s'. fuel_left s' < fuel_left s \<Longrightarrow> Q () s') \<Longrightarrow>
   wp (c_upd (\<lambda>s. s\<lparr> cc_token := tokc CHR ''.'' \<rparr>)) Q s"
  by (rule wp_upd) (simp add: fuel_left_def tok_defs)

lemma wp_Factor:
  assumes ok: "rec_ok n rec" and n: "10 * fuel_left s < n"
    and Q: "\<And>u s'. fuel_left s' < fuel_left s \<Longrightarrow> Q u s'"
  shows "wp (Factor par rec) Q s"
proof -
  note wp_case_option [wp_intros del]
  show ?thesis unfolding Factor_def
    by (intro wp_intros wp_primary [OF ok n] wp_Identifier Q) (auto simp: tok_defs)
qed

lemma wp_PrefixedExpr:
  assumes ok: "rec_ok n rec" and n: "10 * fuel_left s + 0 < n"
    and Q: "\<And>u s'. fuel_left s' < fuel_left s \<Longrightarrow> Q u s'"
  shows "wp (PrefixedExpr par rec) Q s"
  unfolding PrefixedExpr_def
  by (intro allI impI wp_intros wp_rec [OF ok] wp_Factor [OF ok] Q) (use n in \<open>simp_all add: tok_defs\<close>)

subsection \<open>Statements\<close>

lemma wp_Statements:
  assumes ok: "rec_ok n rec" and n: "10 * fuel_left s + 5 < n"
    and Q: "\<And>u s'. fuel_left s' \<le> fuel_left s \<Longrightarrow> Q u s'"
  shows "wp (Statements par rec) Q s"
  unfolding Statements_def
  by (intro allI impI wp_intros wp_rec [OF ok] Q) (use n in \<open>simp_all add: tok_defs\<close>)

lemma wp_Locals_loop:
  assumes ok: "rec_ok n rec" and n: "10 * fuel_left s + 0 < n"
    and Q: "\<And>u s'. fuel_left s' < fuel_left s \<Longrightarrow> Q u s'"
  shows "wp (Locals_loop par rec) Q s"
  unfolding Locals_loop_def
  by (intro allI impI wp_intros wp_rec [OF ok] Q) (use n in \<open>simp_all add: tok_defs\<close>)

lemma wp_local_function:
  assumes ok: "rec_ok n rec" and n: "10 * fuel_left s + 0 < n" and t: "cc_token s \<noteq> 0"
    and Q: "\<And>u s'. fuel_left s' < fuel_left s \<Longrightarrow> Q u s'"
  shows "wp (local_function par rec) Q s"
  unfolding local_function_def
  by (intro allI impI wp_intros wp_rec [OF ok] wp_bind_env [OF ok] wp_CreateFunction [OF ok] Q) (use n t in \<open>simp_all add: tok_defs\<close>)

lemma wp_LocalDeclStatement:
  assumes ok: "rec_ok n rec" and n: "10 * fuel_left s + 0 < n" and t: "cc_token s \<noteq> 0"
    and Q: "\<And>u s'. fuel_left s' < fuel_left s \<Longrightarrow> Q u s'"
  shows "wp (LocalDeclStatement par rec) Q s"
  unfolding LocalDeclStatement_def
  by (intro allI impI wp_intros wp_rec [OF ok] wp_local_function [OF ok] Q) (use n t in \<open>simp_all add: tok_defs\<close>)

lemma wp_block:
  assumes ok: "rec_ok n rec" and n: "10 * fuel_left s + 0 < n" and t: "cc_token s \<noteq> 0"
    and Q: "\<And>u s'. fuel_left s' < fuel_left s \<Longrightarrow> Q u s'"
  shows "wp (block par rec cf) Q s"
  unfolding block_def
  by (intro allI impI wp_intros wp_rec [OF ok] Q) (use n t in \<open>simp_all add: tok_defs\<close>)

lemma wp_IfBlock:
  assumes ok: "rec_ok n rec" and n: "10 * fuel_left s + 5 < n"
    and Q: "\<And>u s'. fuel_left s' < fuel_left s \<Longrightarrow> Q u s'"
  shows "wp (IfBlock par rec) Q s"
  unfolding IfBlock_def
  by (intro allI impI wp_intros wp_rec [OF ok] wp_block [OF ok] Q) (use n in \<open>simp_all add: tok_defs\<close>)

lemma wp_condition:
  assumes ok: "rec_ok n rec" and n: "10 * fuel_left s + 0 < n"
    and Q: "\<And>u s'. fuel_left s' < fuel_left s \<Longrightarrow> Q u s'"
  shows "wp (condition par rec) Q s"
  unfolding condition_def
  by (intro allI impI wp_intros wp_rec [OF ok] Q) (use n in \<open>simp_all add: tok_defs\<close>)

lemma wp_IfStatement:
  assumes ok: "rec_ok n rec" and n: "10 * fuel_left s + 0 < n" and t: "cc_token s \<noteq> 0"
    and Q: "\<And>u s'. fuel_left s' < fuel_left s \<Longrightarrow> Q u s'"
  shows "wp (IfStatement par rec) Q s"
  unfolding IfStatement_def
  by (intro allI impI wp_intros wp_rec [OF ok] wp_IfBlock [OF ok] wp_condition [OF ok] Q) (use n t in \<open>simp_all add: tok_defs\<close>)

lemma wp_WhileStatement:
  assumes ok: "rec_ok n rec" and n: "10 * fuel_left s + 0 < n" and t: "cc_token s \<noteq> 0"
    and Q: "\<And>u s'. fuel_left s' < fuel_left s \<Longrightarrow> Q u s'"
  shows "wp (WhileStatement par rec) Q s"
  unfolding WhileStatement_def
  by (intro allI impI wp_intros wp_rec [OF ok] wp_condition [OF ok] Q) (use n t in \<open>simp_all add: tok_defs\<close>)

lemma wp_DoWhileStatement:
  assumes ok: "rec_ok n rec" and n: "10 * fuel_left s + 0 < n" and t: "cc_token s \<noteq> 0"
    and Q: "\<And>u s'. fuel_left s' < fuel_left s \<Longrightarrow> Q u s'"
  shows "wp (DoWhileStatement par rec) Q s"
  unfolding DoWhileStatement_def
  by (intro allI impI wp_intros wp_rec [OF ok] wp_condition [OF ok] Q) (use n t in \<open>simp_all add: tok_defs\<close>)

lemma wp_for_condition:
  assumes ok: "rec_ok n rec" and n: "10 * fuel_left s + 4 < n"
    and Q: "\<And>u s'. fuel_left s' \<le> fuel_left s \<Longrightarrow> Q u s'"
  shows "wp (for_condition par rec) Q s"
  unfolding for_condition_def
  by (intro allI impI wp_intros wp_rec [OF ok] Q) (use n in \<open>simp_all add: tok_defs\<close>)

lemma wp_for_step:
  assumes ok: "rec_ok n rec" and n: "10 * fuel_left s + 4 < n"
    and Q: "\<And>u s'. fuel_left s' < fuel_left s \<Longrightarrow> Q u s'"
  shows "wp (for_step par rec) Q s"
  unfolding for_step_def
  by (intro allI impI wp_intros wp_rec [OF ok] Q) (use n in \<open>simp_all add: tok_defs\<close>)

lemma wp_for_init:
  assumes ok: "rec_ok n rec" and n: "10 * fuel_left s + 4 < n"
    and Q: "\<And>u s'. fuel_left s' \<le> fuel_left s \<Longrightarrow> Q u s'"
  shows "wp (for_init par rec) Q s"
  unfolding for_init_def
  by (intro allI impI wp_intros wp_rec [OF ok] wp_LocalDeclStatement [OF ok] Q) (use n in \<open>simp_all add: tok_defs\<close>)

lemma wp_add_all [wp_intros]:
  assumes Q: "\<And>u s'. fuel_left s' = fuel_left s \<Longrightarrow> Q u s'"
  shows "wp (c_seq (map (\<lambda>i. on_fs (AddInstr i)) is)) Q s"
proof -
  have "silent (c_seq (map (\<lambda>i. on_fs (AddInstr i)) is))" by (induction "is") (auto intro: silents)
  then show ?thesis by (rule wp_still) (rule Q)
qed

lemma wp_ForStatement:
  assumes ok: "rec_ok n rec" and n: "10 * fuel_left s + 0 < n" and t: "cc_token s \<noteq> 0"
    and Q: "\<And>u s'. fuel_left s' < fuel_left s \<Longrightarrow> Q u s'"
  shows "wp (ForStatement par rec) Q s"
  unfolding ForStatement_def
  by (intro allI impI wp_intros wp_rec [OF ok] wp_for_condition [OF ok] wp_for_step [OF ok] wp_for_init [OF ok] Q) (use n t in \<open>simp_all add: tok_defs\<close>)

lemma wp_foreach_names [wp_intros]:
  assumes Q: "\<And>u s'. fuel_left s' < fuel_left s \<Longrightarrow> Q u s'"
  shows "wp (foreach_names par) Q s"
  unfolding foreach_names_def by (intro allI impI wp_intros Q) (simp_all add: tok_defs)

lemma wp_ForEachStatement:
  assumes ok: "rec_ok n rec" and n: "10 * fuel_left s + 0 < n" and t: "cc_token s \<noteq> 0"
    and Q: "\<And>u s'. fuel_left s' < fuel_left s \<Longrightarrow> Q u s'"
  shows "wp (ForEachStatement par rec) Q s"
  unfolding ForEachStatement_def
  by (intro allI impI wp_intros wp_rec [OF ok] Q) (use n t in \<open>simp_all add: tok_defs\<close>)

lemma wp_scoped_statements:
  assumes ok: "rec_ok n rec" and n: "10 * fuel_left s + 6 < n"
    and Q: "\<And>u s'. fuel_left s' \<le> fuel_left s \<Longrightarrow> Q u s'"
  shows "wp (scoped_statements rec) Q s"
  unfolding scoped_statements_def
  by (intro allI impI wp_intros wp_rec [OF ok] Q) (use n in \<open>simp_all add: tok_defs\<close>)

lemma wp_end_switch:
  assumes ok: "rec_ok n rec" and n: "10 * fuel_left s + 0 < n"
    and Q: "\<And>u s'. fuel_left s' \<le> fuel_left s \<Longrightarrow> Q u s'"
  shows "wp (end_switch par rec tn nb) Q s"
  unfolding end_switch_def
  by (intro allI impI wp_intros wp_rec [OF ok] wp_scoped_statements [OF ok] Q) (use n in \<open>simp_all add: tok_defs\<close>)

lemma wp_Switch_loop:
  assumes ok: "rec_ok n rec" and n: "10 * fuel_left s + 0 < n"
    and Q: "\<And>u s'. fuel_left s' \<le> fuel_left s \<Longrightarrow> Q u s'"
  shows "wp (Switch_loop par rec expr bf tn sk nb) Q s"
  unfolding Switch_loop_def
  by (intro allI impI wp_intros wp_rec [OF ok] wp_scoped_statements [OF ok] wp_end_switch [OF ok] Q) (use n in \<open>simp_all add: tok_defs\<close>)

lemma wp_SwitchStatement:
  assumes ok: "rec_ok n rec" and n: "10 * fuel_left s + 0 < n" and t: "cc_token s \<noteq> 0"
    and Q: "\<And>u s'. fuel_left s' < fuel_left s \<Longrightarrow> Q u s'"
  shows "wp (SwitchStatement par rec) Q s"
  unfolding SwitchStatement_def
  by (intro allI impI wp_intros wp_rec [OF ok] wp_condition [OF ok] Q) (use n t in \<open>simp_all add: tok_defs\<close>)

lemma wp_FunctionName_loop:
  assumes ok: "rec_ok n rec" and n: "10 * fuel_left s + 0 < n"
    and Q: "\<And>u s'. fuel_left s' < fuel_left s \<Longrightarrow> Q u s'"
  shows "wp (FunctionName_loop par rec ident) Q s"
  unfolding FunctionName_loop_def
  by (intro allI impI wp_intros wp_rec [OF ok] wp_bind_env [OF ok] wp_CreateFunction [OF ok] Q) (use n in \<open>simp_all add: tok_defs\<close>)

lemma wp_FunctionStatement:
  assumes ok: "rec_ok n rec" and n: "10 * fuel_left s + 0 < n" and t: "cc_token s \<noteq> 0"
    and Q: "\<And>u s'. fuel_left s' < fuel_left s \<Longrightarrow> Q u s'"
  shows "wp (FunctionStatement par rec) Q s"
  unfolding FunctionStatement_def
  by (intro allI impI wp_intros wp_rec [OF ok] Q) (use n t in \<open>simp_all add: tok_defs\<close>)

lemma wp_ClassStatement:
  assumes ok: "rec_ok n rec" and n: "10 * fuel_left s + 0 < n" and t: "cc_token s \<noteq> 0"
    and Q: "\<And>u s'. fuel_left s' < fuel_left s \<Longrightarrow> Q u s'"
  shows "wp (ClassStatement par rec) Q s"
  unfolding ClassStatement_def
  by (intro allI impI wp_intros wp_rec [OF ok] wp_ClassExp [OF ok] wp_with_donot_get [OF ok] Q) (use n t in \<open>simp_all add: tok_defs\<close>)

lemma wp_negative_scalar [wp_intros]:
  assumes Q: "\<And>u s'. fuel_left s' \<le> fuel_left s \<Longrightarrow> Q u s'"
  shows "wp (negative_scalar par) Q s"
  unfolding negative_scalar_def by (intro allI impI wp_intros Q) (simp_all add: tok_defs)

lemma wp_ExpectScalar [wp_intros]:
  assumes Q: "\<And>u s'. fuel_left s' \<le> fuel_left s \<Longrightarrow> Q u s'"
  shows "wp (ExpectScalar par) Q s"
  unfolding ExpectScalar_def by (intro allI impI wp_intros Q) (simp_all add: tok_defs)

lemma wp_ConstStatement:
  assumes t: "cc_token s \<noteq> 0" and Q: "\<And>u s'. fuel_left s' < fuel_left s \<Longrightarrow> Q u s'"
  shows "wp (ConstStatement par) Q s"
  unfolding ConstStatement_def by (intro allI impI wp_intros Q) (use t in \<open>simp_all add: tok_defs\<close>)

lemma wp_Enum_loop:
  assumes ok: "rec_ok n rec" and n: "10 * fuel_left s + 0 < n"
    and Q: "\<And>u s'. fuel_left s' \<le> fuel_left s \<Longrightarrow> Q u s'"
  shows "wp (Enum_loop par rec ident tab nval) Q s"
  unfolding Enum_loop_def
  by (intro allI impI wp_intros wp_rec [OF ok] Q) (use n in \<open>simp_all add: tok_defs\<close>)

lemma wp_EnumStatement:
  assumes ok: "rec_ok n rec" and n: "10 * fuel_left s + 0 < n" and t: "cc_token s \<noteq> 0"
    and Q: "\<And>u s'. fuel_left s' < fuel_left s \<Longrightarrow> Q u s'"
  shows "wp (EnumStatement par rec) Q s"
  unfolding EnumStatement_def
  by (intro allI impI wp_intros wp_rec [OF ok] Q) (use n t in \<open>simp_all add: tok_defs\<close>)

lemma wp_try_part:
  assumes ok: "rec_ok n rec" and n: "10 * fuel_left s + 5 < n"
    and Q: "\<And>u s'. fuel_left s' < fuel_left s \<Longrightarrow> Q u s'"
  shows "wp (try_part rec) Q s"
  unfolding try_part_def
  by (intro allI impI wp_intros wp_rec [OF ok] Q) (use n in \<open>simp_all add: tok_defs\<close>)

lemma wp_catch_part:
  assumes ok: "rec_ok n rec" and n: "10 * fuel_left s + 5 < n"
    and Q: "\<And>u s'. fuel_left s' < fuel_left s \<Longrightarrow> Q u s'"
  shows "wp (catch_part rec exid tp jp) Q s"
  unfolding catch_part_def
  by (intro allI impI wp_intros wp_rec [OF ok] Q) (use n in \<open>simp_all add: tok_defs\<close>)

lemma wp_TryCatchStatement:
  assumes ok: "rec_ok n rec" and n: "10 * fuel_left s + 0 < n" and t: "cc_token s \<noteq> 0"
    and Q: "\<And>u s'. fuel_left s' < fuel_left s \<Longrightarrow> Q u s'"
  shows "wp (TryCatchStatement par rec) Q s"
  unfolding TryCatchStatement_def
  by (intro allI impI wp_intros wp_rec [OF ok] wp_try_part [OF ok] wp_catch_part [OF ok] Q) (use n t in \<open>simp_all add: tok_defs\<close>)

lemma wp_ReturnStatement:
  assumes ok: "rec_ok n rec" and n: "10 * fuel_left s + 0 < n" and t: "cc_token s \<noteq> 0"
    and Q: "\<And>u s'. fuel_left s' < fuel_left s \<Longrightarrow> Q u s'"
  shows "wp (ReturnStatement par rec op) Q s"
  unfolding ReturnStatement_def
  by (intro allI impI wp_intros wp_rec [OF ok] Q) (use n t in \<open>simp_all add: tok_defs\<close>)

lemma wp_jump_out:
  assumes t: "cc_token s \<noteq> 0" and Q: "\<And>u s'. fuel_left s' < fuel_left s \<Longrightarrow> Q u s'"
  shows "wp (jump_out par g h name) Q s"
  unfolding jump_out_def by (intro allI impI wp_intros Q) (use t in \<open>simp_all add: tok_defs\<close>)

lemma wp_ThrowStatement:
  assumes ok: "rec_ok n rec" and n: "10 * fuel_left s + 0 < n" and t: "cc_token s \<noteq> 0"
    and Q: "\<And>u s'. fuel_left s' < fuel_left s \<Longrightarrow> Q u s'"
  shows "wp (ThrowStatement par rec) Q s"
  unfolding ThrowStatement_def
  by (intro allI impI wp_intros wp_rec [OF ok] Q) (use n t in \<open>simp_all add: tok_defs\<close>)


lemma wp_statement_body:
  assumes ok: "rec_ok n rec" and n: "10 * fuel_left s + 4 < n" and t: "t = cc_token s"
    and Q: "\<And>u s'. fuel_left s' < fuel_left s \<Longrightarrow> Q u s'"
  shows "wp (statement_body par rec cf t) Q s"
  unfolding statement_body_def BreakStatement_def ContinueStatement_def
  by (intro wp_intros wp_rec [OF ok] wp_IfStatement [OF ok] wp_WhileStatement [OF ok] wp_DoWhileStatement [OF ok]
      wp_ForStatement [OF ok] wp_ForEachStatement [OF ok] wp_SwitchStatement [OF ok] wp_LocalDeclStatement [OF ok]
      wp_ReturnStatement [OF ok] wp_jump_out wp_FunctionStatement [OF ok] wp_ClassStatement [OF ok]
      wp_EnumStatement [OF ok] wp_block [OF ok] wp_TryCatchStatement [OF ok] wp_ThrowStatement [OF ok]
      wp_ConstStatement Q)
    (use n t in \<open>simp_all add: tok_defs\<close>)

lemma wp_Statement:
  assumes ok: "rec_ok n rec" and n: "10 * fuel_left s + 4 < n"
    and Q: "\<And>u s'. fuel_left s' < fuel_left s \<Longrightarrow> Q u s'"
  shows "wp (Statement par rec cf) Q s"
  unfolding Statement_def
  by (intro wp_intros wp_statement_body [OF ok] Q) (use n in simp_all)

lemma wp_Program_loop:
  assumes ok: "rec_ok n rec" and n: "10 * fuel_left s + 5 < n"
    and Q: "\<And>u s'. fuel_left s' \<le> fuel_left s \<Longrightarrow> Q u s'"
  shows "wp (Program_loop par rec) Q s"
  unfolding Program_loop_def
  by (intro wp_intros wp_rec [OF ok] Q) (use n in simp_all)

subsection \<open>Every text is compiled\<close>

lemma wp_call_body:
  assumes ok: "rec_ok n rec" and n: "10 * fuel_left s + rank c < Suc n"
    and Q: "\<And>u s'. fuel_left s' \<le> fuel_left s \<Longrightarrow> (reads c \<longrightarrow> fuel_left s' < fuel_left s) \<Longrightarrow> Q u s'"
  shows "wp (call_body par rec c) Q s"
  using n Q
  by (cases c; simp only: call_body.simps reads.simps rank.simps)
    (intro wp_Statement [OF ok] wp_Statements [OF ok] wp_CommaExpr [OF ok] wp_ExpressionC [OF ok]
      wp_LogicalOrExp [OF ok] wp_LogicalAndExp [OF ok] wp_PrefixedExpr [OF ok] wp_bin_loop [OF ok]
      wp_BitwiseXorExp [OF ok] wp_BitwiseAndExp [OF ok] wp_EqExp [OF ok] wp_CompExp [OF ok] wp_ShiftExp [OF ok]
      wp_PlusExp [OF ok] wp_MultExp [OF ok] wp_PrefixedExpr_loop [OF ok] wp_CallArgs_loop [OF ok]
      wp_CallInit_loop [OF ok] wp_Array_loop [OF ok] wp_ParseTableOrClass [OF ok] wp_TableOrClass_loop [OF ok]
      wp_Locals_loop [OF ok] wp_Switch_loop [OF ok] wp_FunctionName_loop [OF ok] wp_Enum_loop [OF ok]
      wp_Params_loop [OF ok] wp_Program_loop [OF ok] wp_rec [OF ok]; simp)+

lemma rec_ok_run_call: "rec_ok n (run_call n par)"
proof (induction n)
  case 0
  show ?case by (simp add: rec_ok_def)
next
  case (Suc n)
  show ?case
    unfolding rec_ok_def
  proof (intro allI impI)
    fix c s
    assume "10 * fuel_left s + rank c < Suc n"
    then have "wp (call_body par (run_call n par) c)
        (\<lambda>_ s'. fuel_left s' \<le> fuel_left s \<and> (reads c \<longrightarrow> fuel_left s' < fuel_left s)) s"
      by (rule wp_call_body [OF Suc]) simp
    then show "wp (run_call (Suc n) par c)
        (\<lambda>_ s'. fuel_left s' \<le> fuel_left s \<and> (reads c \<longrightarrow> fuel_left s' < fuel_left s)) s"
      by (simp add: wp_def)
  qed
qed

lemma wp_compile_main: "10 * fuel_left s + 6 < n \<Longrightarrow> wp (compile_main par n) (\<lambda>_ _. True) s"
  unfolding compile_main_def
  by (intro wp_intros wp_rec [OF rec_ok_run_call [of n par]]) simp_all

lemma lexsize_SQLexer_Init:
  assumes "SQLexer_Init h i readings raw = Some (Inr l)"
  shows "lexsize l \<le> 2 * length readings"
  using assms
  by (cases readings) (auto simp: SQLexer_Init_def Next_def Let_def lexsize_def bind_eq_Some_conv split: if_splits)


end
