(* ===== verification/Sq_FuncState_Correct.thy ===== *)
theory Sq_FuncState_Correct
  imports Sq_FuncState Sq_Table_Correct
begin

text \<open>
  The function state of the compiler: the constants a function refers to by index are the literals of
  its prototype; a name means its innermost declaration, in the function or in the ones around it, and
  a captured variable is marked; the end of a scope gives the names their former meaning.
\<close>

subsection \<open>Constants\<close>

text \<open>The literals of \<open>f\<close> are \<open>ks\<close>, each bound to its position.\<close>

definition numbered :: "sqobject list \<Rightarrow> sqobject \<rightharpoonup> sqobject" where
  "numbered ks = map_of (zip ks (map (\<lambda>i. OInteger (word_of_nat i)) [0..<length ks]))"

definition literals_are :: "comp_par \<Rightarrow> funcstate \<Rightarrow> sqobject list \<Rightarrow> bool" where
  "literals_are par f ks \<longleftrightarrow>
     wf_table (cp_hsh par) (fs_literals f) \<and> table_map (fs_literals f) = numbered ks \<and>
     distinct ks \<and> ONull \<notin> set ks \<and> fs_nliterals f = int (length ks) \<and> int (length ks) \<le> MAX_LITERALS"

text \<open>The only thing asked of \<^verbatim>\<open>_realval\<close>: an integer is no weak reference.\<close>

definition realval_ok :: "comp_par \<Rightarrow> bool" where
  "realval_ok par \<longleftrightarrow> (\<forall>i. cp_realval par (OInteger i) = OInteger i)"

lemma numbered_nth: "distinct ks \<Longrightarrow> i < length ks \<Longrightarrow> numbered ks (ks ! i) = Some (OInteger (word_of_nat i))"
  unfolding numbered_def by (subst map_of_zip_nth) simp_all

lemma numbered_None: "numbered ks k = None \<longleftrightarrow> k \<notin> set ks"
  unfolding numbered_def by (subst map_of_zip_is_None) simp_all

lemma numbered_snoc:
  "k \<notin> set ks \<Longrightarrow> numbered (ks @ [k]) = (numbered ks)(k \<mapsto> OInteger (word_of_nat (length ks)))"
proof -
  assume k: "k \<notin> set ks"
  have "numbered (ks @ [k]) = [k \<mapsto> OInteger (word_of_nat (length ks))] ++ numbered ks"
    by (simp add: numbered_def)
  then show ?thesis
    using k by (auto simp: fun_eq_iff map_add_def numbered_None [symmetric] split: option.splits)
qed

lemma small_index: "int n \<le> MAX_LITERALS \<Longrightarrow> sint (word_of_nat n :: sqint) = int n"
  by (simp add: MAX_LITERALS_def signed_take_bit_int_eq_self signed_of_nat)

lemma GetConstant_ok:
  assumes lits: "literals_are par f ks" and rv: "realval_ok par" and c: "c \<noteq> ONull"
  shows "c \<in> set ks \<Longrightarrow> \<exists>i < length ks. ks ! i = c \<and> GetConstant par c f = (Inr (int i), f)"
    and "c \<notin> set ks \<Longrightarrow> int (length ks) < MAX_LITERALS \<Longrightarrow>
      \<exists>t. literals_are par (f\<lparr> fs_literals := t, fs_nliterals := fs_nliterals f + 1 \<rparr>) (ks @ [c]) \<and>
        GetConstant par c f = (Inr (int (length ks)), f\<lparr> fs_literals := t, fs_nliterals := fs_nliterals f + 1 \<rparr>)"
proof -
  let ?get = "tbl_Get (cp_hsh par) (cp_realval par) (fs_literals f) c"
  have wf: "wf_table (cp_hsh par) (fs_literals f)" and map_eq: "table_map (fs_literals f) = numbered ks"
    and d: "distinct ks" "ONull \<notin> set ks" "fs_nliterals f = int (length ks)" "int (length ks) \<le> MAX_LITERALS"
    using lits by (simp_all add: literals_are_def)
  have get: "?get = Some (map_option (cp_realval par) (numbered ks c))"
    using tbl_Get_eq [OF wf] map_eq by simp
  show "\<exists>i < length ks. ks ! i = c \<and> GetConstant par c f = (Inr (int i), f)" if c: "c \<in> set ks"
  proof -
    obtain i where i: "i < length ks" "ks ! i = c" using c unfolding in_set_conv_nth by blast
    have "?get = Some (Some (OInteger (word_of_nat i)))"
      using get numbered_nth [OF d(1) i(1)] i(2) rv by (simp add: realval_ok_def)
    then have "GetConstant par c f = (Inr (int i), f)"
      using small_index [of i] i(1) d(4)
      by (simp add: GetConstant_def c_bind_def c_tbl_def c_ret_def)
    with i show ?thesis by blast
  qed
  show "\<exists>t. literals_are par (f\<lparr> fs_literals := t, fs_nliterals := fs_nliterals f + 1 \<rparr>) (ks @ [c]) \<and>
      GetConstant par c f = (Inr (int (length ks)), f\<lparr> fs_literals := t, fs_nliterals := fs_nliterals f + 1 \<rparr>)"
    if new: "c \<notin> set ks" "int (length ks) < MAX_LITERALS"
  proof -
    let ?v = "OInteger (word_of_nat (length ks))"
    obtain t b where t: "NewSlot (cp_hsh par) (fs_literals f) c ?v = Some (t, b)"
      "wf_table (cp_hsh par) t" "table_map t = (table_map (fs_literals f))(c \<mapsto> ?v)"
      using newslot_ok [OF wf c] by blast
    have "?get = Some None" using get numbered_None [of ks c] new(1) by simp
    then have "GetConstant par c f = (Inr (int (length ks)), f\<lparr> fs_literals := t, fs_nliterals := fs_nliterals f + 1 \<rparr>)"
      using t(1) d(3) new(2)
      by (simp add: GetConstant_def c_bind_def c_tbl_def c_ret_def c_get_def c_then_def c_upd_def)
    moreover have "literals_are par (f\<lparr> fs_literals := t, fs_nliterals := fs_nliterals f + 1 \<rparr>) (ks @ [c])"
      using t(2,3) map_eq numbered_snoc [OF new(1)] d new c by (simp add: literals_are_def)
    ultimately show ?thesis by blast
  qed
qed

text \<open>The array of literals: the loop over the table writes each constant at its number.\<close>

definition put_literal :: "comp_par \<Rightarrow> sqobject \<times> sqobject \<Rightarrow> sval list \<Rightarrow> sval list" where
  "put_literal par kv lits = lits[nat (sint (rawval (cp_realval par (snd kv)))) := sval_of par (fst kv)]"

lemma build_literals_fold:
  assumes "\<forall>kv \<in> set (tbl_visit t idx).
     0 \<le> sint (rawval (cp_realval par (snd kv))) \<and> sint (rawval (cp_realval par (snd kv))) < int (length lits)"
  shows "build_literals par t idx lits = Some (fold (put_literal par) (tbl_visit t idx) lits)"
  using assms
proof (induction par t idx lits rule: build_literals.induct)
  case (1 par t idx lits)
  show ?case
  proof (cases "tbl_next_from (nodes t) (numofnodes t) idx")
    case None
    then show ?thesis by (simp add: build_literals.simps [of _ _ idx] tbl_visit.simps [of _ idx])
  next
    case (Some i)
    let ?kv = "(nd_key (nodes t ! i), nd_val (nodes t ! i))"
    have v: "tbl_visit t idx = ?kv # tbl_visit t (Suc i)"
      using Some by (simp add: tbl_visit.simps [of _ idx])
    have b: "0 \<le> sint (rawval (cp_realval par (snd ?kv)))"
      "sint (rawval (cp_realval par (snd ?kv))) < int (length lits)" using "1.prems" v by auto
    have put: "put_literal par ?kv lits =
        lits[nat (sint (rawval (cp_realval par (nd_val (nodes t ! i))))) := sval_of par (nd_key (nodes t ! i))]"
      by (simp add: put_literal_def)
    have "build_literals par t (Suc i) (put_literal par ?kv lits) =
        Some (fold (put_literal par) (tbl_visit t (Suc i)) (put_literal par ?kv lits))"
      unfolding put using "1.IH" [OF Some refl] "1.prems" v b by simp
    moreover have "build_literals par t idx lits = build_literals par t (Suc i) (put_literal par ?kv lits)"
      using b Some by (simp add: build_literals.simps [of _ _ idx] put_literal_def)
    ultimately show ?thesis by (simp add: v)
  qed
qed

lemma fold_put_literal:
  assumes "distinct (map (g \<circ> snd) xs)" "\<forall>kv \<in> set xs. g (snd kv) < length lits"
    and "\<And>kv lits. kv \<in> set xs \<Longrightarrow> put kv lits = lits[g (snd kv) := h (fst kv)]"
  shows "length (fold put xs lits) = length lits" "(k, v) \<in> set xs \<Longrightarrow> fold put xs lits ! g v = h k"
    "n \<notin> (g \<circ> snd) ` set xs \<Longrightarrow> fold put xs lits ! n = lits ! n"
proof -
  have "length (fold put xs lits) = length lits \<and> ((k, v) \<in> set xs \<longrightarrow> fold put xs lits ! g v = h k) \<and>
    (n \<notin> (g \<circ> snd) ` set xs \<longrightarrow> fold put xs lits ! n = lits ! n)" for n
    using assms
  proof (induction xs arbitrary: lits n)
    case (Cons x xs)
    let ?l = "lits[g (snd x) := h (fst x)]"
    have IH: "length (fold put xs ?l) = length ?l \<and> ((k, v) \<in> set xs \<longrightarrow> fold put xs ?l ! g v = h k) \<and>
      (n \<notin> (g \<circ> snd) ` set xs \<longrightarrow> fold put xs ?l ! n = ?l ! n)" for n
      using Cons.prems by (intro Cons.IH) auto
    have "fold put (x # xs) lits = fold put xs ?l" using Cons.prems(3) by simp
    moreover have "fold put xs ?l ! g (snd x) = h (fst x)"
      using IH [of "g (snd x)"] Cons.prems(1,2) by (auto simp: image_iff)
    ultimately show ?case using IH [of n] by auto
  qed simp
  then show "length (fold put xs lits) = length lits" "(k, v) \<in> set xs \<Longrightarrow> fold put xs lits ! g v = h k"
    "n \<notin> (g \<circ> snd) ` set xs \<Longrightarrow> fold put xs lits ! n = lits ! n" by blast+
qed

lemma build_literals_eq:
  assumes lits: "literals_are par f ks" and rv: "realval_ok par"
  shows "build_literals par (fs_literals f) 0 (replicate (nat (fs_nliterals f)) VNull) = Some (map (sval_of par) ks)"
proof -
  let ?xs = "tbl_visit (fs_literals f) 0"
  let ?g = "\<lambda>v. nat (sint (rawval (cp_realval par v)))"
  let ?l = "replicate (nat (fs_nliterals f)) VNull"
  have wf: "wf_table (cp_hsh par) (fs_literals f)" and n: "fs_nliterals f = int (length ks)"
    and d: "distinct ks" and mx: "int (length ks) \<le> MAX_LITERALS" using lits by (simp_all add: literals_are_def)
  have vis: "map_of ?xs = numbered ks" "distinct (map fst ?xs)"
    using tbl_visit_all [OF wf] lits by (simp_all add: literals_are_def)
  have pos: "\<exists>i < length ks. ks ! i = fst kv \<and> sint (rawval (cp_realval par (snd kv))) = int i"
    if "kv \<in> set ?xs" for kv
  proof -
    have "numbered ks (fst kv) = Some (snd kv)" using that vis by (metis map_of_eq_Some_iff prod.collapse)
    moreover obtain i where i: "i < length ks" "ks ! i = fst kv"
      using calculation numbered_None [of ks "fst kv"] by (auto simp: in_set_conv_nth)
    ultimately show ?thesis
      using numbered_nth [OF d i(1)] rv small_index [of i] mx by (intro exI [of _ i]) (simp add: realval_ok_def)
  qed
  have fold_eq: "build_literals par (fs_literals f) 0 ?l = Some (fold (put_literal par) ?xs ?l)"
    using pos n by (intro build_literals_fold ballI) fastforce
  have inj: "distinct (map (?g \<circ> snd) ?xs)"
    unfolding distinct_map
  proof
    show "distinct ?xs" using vis(2) by (simp add: distinct_map)
    show "inj_on (?g \<circ> snd) (set ?xs)"
    proof (rule inj_onI)
      fix x y assume xy: "x \<in> set ?xs" "y \<in> set ?xs" "(?g \<circ> snd) x = (?g \<circ> snd) y"
      then have "fst x = fst y" using pos [of x] pos [of y] by auto
      with xy vis(2) show "x = y" by (metis map_of_eq_Some_iff option.inject prod.collapse)
    qed
  qed
  have bnd: "\<forall>kv \<in> set ?xs. ?g (snd kv) < length ?l" using pos n by fastforce
  have put: "put_literal par kv l = l[?g (snd kv) := sval_of par (fst kv)]" for kv l
    by (simp add: put_literal_def)
  note F = fold_put_literal [where g = ?g and h = "sval_of par", OF inj bnd put]
  have "fold (put_literal par) ?xs ?l = map (sval_of par) ks"
  proof (rule nth_equalityI)
    show len: "length (fold (put_literal par) ?xs ?l) = length (map (sval_of par) ks)" using F(1) n by simp
    fix i assume "i < length (fold (put_literal par) ?xs ?l)"
    then have i: "i < length ks" using len by simp
    have "(ks ! i, OInteger (word_of_nat i)) \<in> set ?xs"
      using numbered_nth [OF d i] vis by (metis map_of_eq_Some_iff)
    from F(2) [OF this] show "fold (put_literal par) ?xs ?l ! i = map (sval_of par) ks ! i"
      using rv small_index [of i] mx i by (simp add: realval_ok_def)
  qed
  with fold_eq show ?thesis by simp
qed

text \<open>The constants of a function, looked up in the order the compiler meets them.\<close>

primrec constants :: "comp_par \<Rightarrow> sqobject list \<Rightarrow> (int list) fsm" where
  "constants par [] = c_ret []"
| "constants par (c # cs) =
     c_bind (GetConstant par c) (\<lambda>i. c_bind (constants par cs) (\<lambda>is. c_ret (i # is)))"

definition constant_at :: "sqobject list \<Rightarrow> sqobject \<Rightarrow> int \<Rightarrow> bool" where
  "constant_at ks c i \<longleftrightarrow> 0 \<le> i \<and> i < int (length ks) \<and> ks ! nat i = c"

lemma constant_at_append: "constant_at ks c i \<Longrightarrow> constant_at (ks @ ks1) c i"
  by (auto simp: constant_at_def nth_append)

lemma constants_ok:
  assumes "literals_are par f ks" "realval_ok par" "ONull \<notin> set cs"
    and "int (length ks) + int (length cs) \<le> MAX_LITERALS"
  shows "\<exists>is f' ks1. constants par cs f = (Inr is, f') \<and> literals_are par f' (ks @ ks1) \<and>
    set (ks @ ks1) = set ks \<union> set cs \<and> list_all2 (constant_at (ks @ ks1)) cs is"
  using assms
proof (induction cs arbitrary: f ks)
  case Nil
  then show ?case by (auto simp: c_ret_def intro: exI [of _ "[]"])
next
  case (Cons c cs)
  have c: "c \<noteq> ONull" using Cons.prems(3) by auto
  obtain i f1 ks0 where i: "GetConstant par c f = (Inr i, f1)" "literals_are par f1 (ks @ ks0)"
    "constant_at (ks @ ks0) c i" "set (ks @ ks0) = insert c (set ks)" "length ks0 \<le> 1"
  proof (cases "c \<in> set ks")
    case True
    with GetConstant_ok(1) [OF Cons.prems(1,2) c] obtain j where
      "j < length ks" "ks ! j = c" "GetConstant par c f = (Inr (int j), f)" by blast
    then show thesis using that [of "int j" f "[]"] Cons.prems(1) True by (auto simp: constant_at_def)
  next
    case False
    with GetConstant_ok(2) [OF Cons.prems(1,2) c] Cons.prems(4) obtain t where
      "literals_are par (f\<lparr> fs_literals := t, fs_nliterals := fs_nliterals f + 1 \<rparr>) (ks @ [c])"
      "GetConstant par c f = (Inr (int (length ks)), f\<lparr> fs_literals := t, fs_nliterals := fs_nliterals f + 1 \<rparr>)"
      by force
    then show thesis using that [of "int (length ks)" _ "[c]"] by (auto simp: constant_at_def)
  qed
  have "int (length (ks @ ks0)) + int (length cs) \<le> MAX_LITERALS" using Cons.prems(4) i(5) by simp
  with Cons.IH [OF i(2) Cons.prems(2)] Cons.prems(3) obtain "is" f2 ks1 where
    IH: "constants par cs f1 = (Inr is, f2)" "literals_are par f2 ((ks @ ks0) @ ks1)"
    "set ((ks @ ks0) @ ks1) = set (ks @ ks0) \<union> set cs" "list_all2 (constant_at ((ks @ ks0) @ ks1)) cs is"
    by auto
  have "constants par (c # cs) f = (Inr (i # is), f2)"
    using i(1) IH(1) by (simp add: c_bind_def c_ret_def)
  moreover have "list_all2 (constant_at ((ks @ ks0) @ ks1)) (c # cs) (i # is)"
    using IH(4) constant_at_append [OF i(3)] by simp
  moreover have "set (ks @ ks0 @ ks1) = set ks \<union> set (c # cs)" using IH(3) i(4) by auto
  ultimately show ?case using IH(2) by (intro exI [of _ "i # is"] exI [of _ f2] exI [of _ "ks0 @ ks1"]) simp
qed

lemma literals_are_new: "literals_are par (SQFuncState_new nested) []"
  by (auto simp: literals_are_def SQFuncState_new_def SQTable_new_ok numbered_def MAX_LITERALS_def)

definition proto_literals :: "fproto \<Rightarrow> sval list" where
  "proto_literals p = (case p of FProto d _ \<Rightarrow> fp_literals d)"

lemma BuildProto_literals:
  assumes "literals_are par f ks" "realval_ok par"
  shows "\<exists>p. BuildProto par f = (Inr p, f) \<and> proto_literals p = map (sval_of par) ks"
  using build_literals_eq [OF assms]
  by (simp add: BuildProto_def c_bind_def c_tbl_def c_get_def proto_literals_def)

text \<open>
  C6.  Constants.  The index \<^verbatim>\<open>GetConstant\<close> returns for a constant is, in the prototype that
  \<^verbatim>\<open>BuildProto\<close> makes at the end of the function, the position of that constant among the literals;
  equal constants share one literal, different ones do not, and there are no other literals.
\<close>

theorem literals_roundtrip:
  assumes "realval_ok par" "ONull \<notin> set cs" "int (length cs) \<le> MAX_LITERALS"
  shows "\<exists>is f p. constants par cs (SQFuncState_new nested) = (Inr is, f) \<and> BuildProto par f = (Inr p, f) \<and>
    length (proto_literals p) = card (set cs) \<and> length is = length cs \<and>
    (\<forall>j < length cs. 0 \<le> is ! j \<and> is ! j < int (length (proto_literals p)) \<and>
       proto_literals p ! nat (is ! j) = sval_of par (cs ! j)) \<and>
    (\<forall>j < length cs. \<forall>k < length cs. is ! j = is ! k \<longleftrightarrow> cs ! j = cs ! k)"
proof -
  obtain "is" f ks where r: "constants par cs (SQFuncState_new nested) = (Inr is, f)" "literals_are par f ks"
    "set ks = set cs" "list_all2 (constant_at ks) cs is"
    using constants_ok [OF literals_are_new [of par nested] assms(1,2)] assms(3) by auto
  obtain p where p: "BuildProto par f = (Inr p, f)" "proto_literals p = map (sval_of par) ks"
    using BuildProto_literals [OF r(2) assms(1)] by blast
  have "distinct ks" using r(2) by (simp add: literals_are_def)
  then have card: "length ks = card (set cs)" using r(3) by (metis distinct_card)
  have len: "length is = length cs" using r(4) by (metis list_all2_lengthD)
  have at: "constant_at ks (cs ! j) (is ! j)" if "j < length cs" for j
    using r(4) that by (rule list_all2_nthD)
  have eq: "is ! j = is ! k \<longleftrightarrow> cs ! j = cs ! k" if "j < length cs" "k < length cs" for j k
    using at [OF that(1)] at [OF that(2)] nth_eq_iff_index_eq [OF \<open>distinct ks\<close>, of "nat (is ! j)" "nat (is ! k)"]
    by (auto simp: constant_at_def nat_less_iff)
  show ?thesis
  proof (intro exI conjI allI impI)
    show "constants par cs (SQFuncState_new nested) = (Inr is, f)" "BuildProto par f = (Inr p, f)"
      using r(1) p(1) .
    show "length (proto_literals p) = card (set cs)" "length is = length cs" using p(2) card len by simp_all
    fix j assume "j < length cs"
    from at [OF this] p(2) show "0 \<le> is ! j" "is ! j < int (length (proto_literals p))"
      "proto_literals p ! nat (is ! j) = sval_of par (cs ! j)" by (auto simp: constant_at_def)
    fix k assume "k < length cs"
    show "is ! j = is ! k \<longleftrightarrow> cs ! j = cs ! k" using eq \<open>j < length cs\<close> \<open>k < length cs\<close> .
  qed
qed

text \<open>The parameters of the witnesses: strings are numbered by their length.\<close>

definition demo_par :: comp_par where
  "demo_par = \<lparr> cp_hsh = (\<lambda>x. case x of OInteger i \<Rightarrow> ucast i | _ \<Rightarrow> 0), cp_realval = (\<lambda>x. x),
     cp_intern = (\<lambda>s. word_of_nat (length s)), cp_strval = (\<lambda>_. []), cp_new = (\<lambda>_. 0) \<rparr>"

theorem literals_roundtrip_witness:
  "\<exists>is f p. constants demo_par [OInteger 7, OFloat 0, OInteger 7] (SQFuncState_new False) = (Inr is, f) \<and>
     BuildProto demo_par f = (Inr p, f) \<and> length (proto_literals p) = 2 \<and> is ! 0 = is ! 2 \<and>
     proto_literals p ! nat (is ! 2) = VInt 7"
proof -
  have h: "realval_ok demo_par" "ONull \<notin> set [OInteger 7, OFloat 0, OInteger 7]"
    "int (length [OInteger 7, OFloat 0, OInteger 7]) \<le> MAX_LITERALS"
    by (simp_all add: realval_ok_def demo_par_def MAX_LITERALS_def)
  from literals_roundtrip [OF this, of False] show ?thesis
    by (auto simp: less_Suc_eq all_conj_distrib numeral_2_eq_2 insert_commute)
qed

subsection \<open>Names\<close>

text \<open>What a name means: the register of its last declaration in a function, and, in a list of
  functions each inside the next, how many functions out that is.\<close>

definition names_of :: "funcstate \<Rightarrow> sval list" where
  "names_of f = map lv_name (fs_vlocals f)"

definition last_decl :: "sqchar list \<Rightarrow> sval list \<Rightarrow> nat option" where
  "last_decl name ns =
     (let is = filter (\<lambda>i. ns ! i = VString name) [0..<length ns] in if is = [] then None else Some (last is))"

fun lexical :: "sqchar list \<Rightarrow> sval list list \<Rightarrow> (nat \<times> nat) option" where
  "lexical name [] = None"
| "lexical name (ns # nss) =
     (case last_decl name ns of
        Some r \<Rightarrow> Some (0, r)
      | None \<Rightarrow> map_option (\<lambda>(d, r). (Suc d, r)) (lexical name nss))"

lemma last_decl_snoc:
  "last_decl name (ns @ [n]) = (if n = VString name then Some (length ns) else last_decl name ns)"
proof -
  have "filter (\<lambda>i. (ns @ [n]) ! i = VString name) [0..<length ns] = filter (\<lambda>i. ns ! i = VString name) [0..<length ns]"
    by (rule filter_cong) (auto simp: nth_append)
  then show ?thesis by (simp add: last_decl_def)
qed

lemma last_decl_bound: "last_decl name ns = Some r \<Longrightarrow> r < length ns"
  by (induction ns rule: rev_induct) (auto simp: last_decl_snoc last_decl_def [of _ "[]"] split: if_splits)

lemma find_local_eq:
  "k \<le> length vs \<Longrightarrow> find_local name vs k =
     (case last_decl name (map lv_name (take k vs)) of None \<Rightarrow> -1 | Some r \<Rightarrow> int r)"
proof (induction k)
  case (Suc k)
  then have "take (Suc k) vs = take k vs @ [vs ! k]" by (simp add: take_Suc_conv_app_nth)
  with Suc show ?case by (simp add: last_decl_snoc)
qed (simp add: last_decl_def)

lemma GetLocalVariable_eq:
  "GetLocalVariable name f = (case last_decl name (names_of f) of None \<Rightarrow> -1 | Some r \<Rightarrow> int r)"
  by (simp add: GetLocalVariable_def find_local_eq names_of_def)

text \<open>The variable an entry of \<^verbatim>\<open>_outervalues\<close> leads to, and whether it is marked as captured.\<close>

fun variable_of :: "funcstate list \<Rightarrow> int \<Rightarrow> (nat \<times> nat) option" where
  "variable_of [] k = None"
| "variable_of (f # fs) k =
     (if 0 \<le> k \<and> k < int (length (fs_outervalues f)) then
        (let ov = fs_outervalues f ! nat k in
         case ov_src ov of
           VInt r \<Rightarrow> if ov_type ov = otLOCAL then Some (0, nat (sint r))
                     else map_option (\<lambda>(d, r). (Suc d, r)) (variable_of fs (sint r))
         | _ \<Rightarrow> None)
      else None)"

definition captured :: "funcstate list \<Rightarrow> nat \<times> nat \<Rightarrow> bool" where
  "captured fs v \<longleftrightarrow> is_outer_local (fs_vlocals (fs ! fst v) ! snd v)"

text \<open>Every entry of every function leads to the variable its name means there, which is marked.\<close>

definition entry_ok :: "funcstate \<Rightarrow> funcstate list \<Rightarrow> nat \<Rightarrow> bool" where
  "entry_ok f fs k \<longleftrightarrow> (\<exists>name v. ov_name (fs_outervalues f ! k) = VString name \<and>
     lexical name (map names_of fs) = Some v \<and> variable_of (f # fs) (int k) = Some v \<and> captured fs v)"

fun outers_ok :: "funcstate list \<Rightarrow> bool" where
  "outers_ok [] = True"
| "outers_ok (f # fs) \<longleftrightarrow> outers_ok fs \<and> (\<forall>k < length (fs_outervalues f). entry_ok f fs k)"

text \<open>What capturing changes: more entries, more marks.\<close>

definition grown :: "funcstate \<Rightarrow> funcstate \<Rightarrow> bool" where
  "grown f f' \<longleftrightarrow> names_of f' = names_of f \<and> (\<exists>ovs. fs_outervalues f' = fs_outervalues f @ ovs) \<and>
     (\<forall>i < length (fs_vlocals f). is_outer_local (fs_vlocals f ! i) \<longrightarrow> is_outer_local (fs_vlocals f' ! i))"

lemma grown_refl: "grown f f"
  by (simp add: grown_def)

lemma grown_names: "list_all2 grown fs fs' \<Longrightarrow> map names_of fs' = map names_of fs"
  by (induction rule: list_all2_induct) (auto simp: grown_def)

lemma grown_variable_of:
  "list_all2 grown fs fs' \<Longrightarrow> variable_of fs k = Some v \<Longrightarrow> variable_of fs' k = Some v"
proof (induction fs fs' arbitrary: k v rule: list_all2_induct)
  case (Cons f fs f' fs')
  obtain ovs where o: "fs_outervalues f' = fs_outervalues f @ ovs" using Cons.hyps(1) by (auto simp: grown_def)
  have k: "0 \<le> k" "k < int (length (fs_outervalues f))" using Cons.prems by (auto split: if_splits)
  then have "fs_outervalues f' ! nat k = fs_outervalues f ! nat k" by (simp add: o nth_append nat_less_iff)
  with Cons k o show ?case
    by (auto simp: Let_def split: sval.splits if_splits)
qed simp

lemma lexical_bounds:
  "lexical name (map names_of fs) = Some v \<Longrightarrow> fst v < length fs \<and> snd v < length (fs_vlocals (fs ! fst v))"
proof (induction fs arbitrary: v)
  case (Cons f fs)
  then show ?case
    using last_decl_bound [of name "names_of f"]
    by (auto simp: names_of_def split: option.splits)
qed simp

lemma grown_captured:
  assumes "list_all2 grown fs fs'" "captured fs v" "lexical name (map names_of fs) = Some v"
  shows "captured fs' v"
  using assms lexical_bounds [OF assms(3)] list_all2_nthD [OF assms(1), of "fst v"]
  by (auto simp: captured_def grown_def)

lemma grown_entry_ok:
  assumes g: "list_all2 grown (f # fs) (f' # fs')" and e: "entry_ok f fs k" and k: "k < length (fs_outervalues f)"
  shows "entry_ok f' fs' k"
proof -
  have g': "list_all2 grown fs fs'" using g by simp
  obtain ovs where "fs_outervalues f' = fs_outervalues f @ ovs" using g by (auto simp: grown_def)
  then have "fs_outervalues f' ! k = fs_outervalues f ! k" using k by (simp add: nth_append)
  with e grown_names [OF g'] grown_variable_of [OF g] grown_captured [OF g'] show ?thesis
    unfolding entry_ok_def by metis
qed

lemma grown_outers_ok:
  "list_all2 grown fs fs' \<Longrightarrow> outers_ok fs \<Longrightarrow> map (length \<circ> fs_outervalues) fs' = map (length \<circ> fs_outervalues) fs \<Longrightarrow>
   outers_ok fs'"
proof (induction fs fs' rule: list_all2_induct)
  case (Cons f fs f' fs')
  have "entry_ok f' fs' k" if "k < length (fs_outervalues f')" for k
    using that Cons by (intro grown_entry_ok [of f fs f' fs']) auto
  with Cons show ?case by simp
qed simp

lemma find_outer_spec:
  "find_outer name ovs i = (if VString name \<in> ov_name ` set ovs then find_outer name ovs i else -1)"
  "VString name \<in> ov_name ` set ovs \<Longrightarrow> 0 \<le> i \<Longrightarrow>
   \<exists>k < length ovs. find_outer name ovs i = i + int k \<and> ov_name (ovs ! k) = VString name"
proof (induction ovs arbitrary: i)
  case (Cons ov ovs)
  {
    case 1
    show ?case using Cons.IH(1) [of "i + 1"] by auto
  next
    case 2
    show ?case
    proof (cases "ov_name ov = VString name")
      case False
      with 2 Cons.IH(2) [of "i + 1"] obtain k where
        "k < length ovs" "find_outer name ovs (i + 1) = i + 1 + int k" "ov_name (ovs ! k) = VString name"
        by auto
      with False show ?thesis by (intro exI [of _ "Suc k"]) simp
    qed (use 2 in \<open>intro exI [of _ 0], simp\<close>)
  }
qed simp_all

lemma grown_add_outer: "grown f (snd (add_outer name ty pos f))"
  by (auto simp: grown_def add_outer_def names_of_def)

lemma names_of_MarkLocalAsOuter: "names_of (MarkLocalAsOuter pos f) = names_of f"
  by (simp add: names_of_def MarkLocalAsOuter_def map_update list_update_same_conv)
    (metis (no_types, lifting) list_update_beyond list_update_id map_update not_le_imp_less sqlocalvarinfo.select_convs(1) sqlocalvarinfo.surjective sqlocalvarinfo.update_convs(3))

lemma grown_MarkLocalAsOuter: "grown f (MarkLocalAsOuter pos f)"
proof -
  have "is_outer_local (fs_vlocals (MarkLocalAsOuter pos f) ! i)"
    if "i < length (fs_vlocals f)" "is_outer_local (fs_vlocals f ! i)" for i
    using that by (cases "nat pos = i") (auto simp: MarkLocalAsOuter_def is_outer_local_def)
  then show ?thesis unfolding grown_def names_of_MarkLocalAsOuter by (simp add: MarkLocalAsOuter_def)
qed

text \<open>The result of a capture: nothing when the name means nothing, and otherwise an entry that leads
  to the variable the name means, marked.\<close>

definition capture_ok :: "sqchar list \<Rightarrow> funcstate list \<Rightarrow> int \<times> funcstate list \<Rightarrow> bool" where
  "capture_ok name fs r \<longleftrightarrow> outers_ok (snd r) \<and> list_all2 grown fs (snd r) \<and>
     (case lexical name (map names_of (tl fs)) of
        None \<Rightarrow> fst r = -1 \<and> snd r = fs
      | Some v \<Rightarrow> 0 \<le> fst r \<and> fst r < int (length (fs_outervalues (hd (snd r)))) \<and>
          fst r \<le> int (length (fs_outervalues (hd fs))) \<and>
          variable_of (snd r) (fst r) = Some v \<and> captured (tl (snd r)) v)"

lemma entry_ok_new:
  assumes "lexical name (map names_of fs) = Some v" "captured fs v"
    "variable_of (f' # fs) (int (length (fs_outervalues f))) = Some v"
    "(k, f') = add_outer name ty pos f"
  shows "entry_ok f' fs (length (fs_outervalues f))"
  using assms by (cases v) (auto simp: entry_ok_def add_outer_def)

lemma outers_ok_add:
  assumes g: "list_all2 grown fs fs'" and f: "outers_ok (f # fs)" and fs': "outers_ok fs'"
    and new: "lexical name (map names_of fs') = Some v" "captured fs' v"
    and f': "(k, f') = add_outer name ty pos f" and var: "variable_of (f' # fs') (int (length (fs_outervalues f))) = Some v"
  shows "outers_ok (f' # fs')" "list_all2 grown (f # fs) (f' # fs')"
proof -
  have gf: "grown f f'" using grown_add_outer [of f name ty pos] f' by (metis snd_conv)
  then show g': "list_all2 grown (f # fs) (f' # fs')" using g by simp
  have len: "length (fs_outervalues f') = Suc (length (fs_outervalues f))" using f' by (simp add: add_outer_def)
  have "entry_ok f' fs' i" if "i < length (fs_outervalues f')" for i
  proof (cases "i = length (fs_outervalues f)")
    case True
    show ?thesis unfolding True by (rule entry_ok_new [OF new var f'])
  next
    case False
    then have "i < length (fs_outervalues f)" using that len by simp
    then show ?thesis using f by (intro grown_entry_ok [OF g']) simp_all
  qed
  with fs' show "outers_ok (f' # fs')" by simp
qed

definition small :: "funcstate \<Rightarrow> bool" where
  "small f \<longleftrightarrow> length (fs_vlocals f) < 2 ^ 63 \<and> length (fs_outervalues f) < 2 ^ 63"

lemma sint_register: "0 \<le> z \<Longrightarrow> z < 2 ^ 63 \<Longrightarrow> sint (word_of_int z :: sqint) = z"
  by (rule sint_word_of_int_64) simp_all

lemma sint_register_nat: "r < 2 ^ 63 \<Longrightarrow> sint (word_of_nat r :: sqint) = int r"
  using sint_register [of "int r"] by simp

lemma capture_existing:
  assumes "outers_ok (f # fs)" "find_outer name (fs_outervalues f) 0 \<noteq> -1"
  shows "capture_ok name (f # fs) (find_outer name (fs_outervalues f) 0, f # fs)"
proof -
  obtain k where k: "k < length (fs_outervalues f)" "find_outer name (fs_outervalues f) 0 = int k"
    "ov_name (fs_outervalues f ! k) = VString name"
    using find_outer_spec(1) [of name "fs_outervalues f" 0] find_outer_spec(2) [of name "fs_outervalues f" 0] assms(2)
    by (auto split: if_splits)
  then have "entry_ok f fs k" using assms(1) by simp
  with k assms(1) show ?thesis
    by (auto simp: entry_ok_def capture_ok_def grown_refl list_all2_same)
qed

lemma GetOuterVariable_ok:
  "outers_ok fs \<Longrightarrow> fs \<noteq> [] \<Longrightarrow> \<forall>f \<in> set fs. small f \<Longrightarrow> capture_ok name fs (GetOuterVariable name fs)"
proof (induction name fs rule: GetOuterVariable.induct)
  case (2 name f)
  then have "find_outer name (fs_outervalues f) 0 = -1"
    using find_outer_spec(1) [of name "fs_outervalues f" 0] by (force simp: entry_ok_def in_set_conv_nth)
  with 2 show ?case by (simp add: capture_ok_def grown_refl)
next
  case (3 name f p ps)
  let ?i = "find_outer name (fs_outervalues f) 0"
  let ?pos = "GetLocalVariable name p"
  show ?case
  proof (cases "?i = -1")
    case False
    with capture_existing [OF "3.prems"(1) False] show ?thesis by (simp add: Let_def)
  next
    case i: True
    show ?thesis
    proof (cases "last_decl name (names_of p)")
      case (Some r)
      let ?p = "MarkLocalAsOuter (int r) p"
      obtain k f' where f': "(k, f') = add_outer name otLOCAL (int r) f" by (metis surj_pair)
      have r: "r < length (fs_vlocals p)" using last_decl_bound [OF Some] by (simp add: names_of_def)
      have res: "GetOuterVariable name (f # p # ps) = (k, f' # ?p # ps)"
        using i Some f' [symmetric] by (simp add: GetLocalVariable_eq Let_def)
      have g: "list_all2 grown (p # ps) (?p # ps)" by (simp add: grown_MarkLocalAsOuter grown_refl list_all2_same)
      have ok: "outers_ok (?p # ps)"
        using "3.prems"(1) by (intro grown_outers_ok [OF g]) (simp_all add: MarkLocalAsOuter_def)
      have lex: "lexical name (map names_of (?p # ps)) = Some (0, r)"
        using Some by (simp add: names_of_MarkLocalAsOuter)
      have cap: "captured (?p # ps) (0, r)"
        using r by (simp add: captured_def MarkLocalAsOuter_def is_outer_local_def)
      have var: "variable_of (f' # ?p # ps) (int (length (fs_outervalues f))) = Some (0, r)"
        using f' r "3.prems"(3) by (simp add: add_outer_def small_def sint_register_nat)
      note new = outers_ok_add [OF g "3.prems"(1) ok lex cap f' var]
      show ?thesis
        unfolding res capture_ok_def using new lex cap var f' names_of_MarkLocalAsOuter
        by (simp add: add_outer_def)
    next
      case None
      have pos: "?pos = -1" using None by (simp add: GetLocalVariable_eq)
      obtain q ps' where q: "GetOuterVariable name (p # ps) = (q, ps')" by (metis surj_pair)
      have IH: "capture_ok name (p # ps) (q, ps')"
        using "3.IH" [of ?i ?pos] i pos "3.prems" q by simp
      show ?thesis
      proof (cases "lexical name (map names_of ps)")
        case no: None
        with IH have "q = -1" "ps' = p # ps" by (simp_all add: capture_ok_def)
        with i pos q no None "3.prems"(1) show ?thesis
          by (simp add: capture_ok_def Let_def grown_refl list_all2_same)
      next
        case v: (Some v)
        have h: "0 \<le> q" "q < int (length (fs_outervalues (hd ps')))" "q \<le> int (length (fs_outervalues p))"
          "variable_of ps' q = Some v" "captured (tl ps') v" "outers_ok ps'" "list_all2 grown (p # ps) ps'"
          using IH v by (auto simp: capture_ok_def)
        obtain k f' where f': "(k, f') = add_outer name otOUTER q f" by (metis surj_pair)
        have res: "GetOuterVariable name (f # p # ps) = (k, f' # ps')"
          using i pos q h(1) f' [symmetric] by (simp add: Let_def)
        obtain d r where dr: "v = (d, r)" by (cases v)
        have lex: "lexical name (map names_of ps') = Some (Suc d, r)"
          using grown_names [OF h(7)] None v dr by simp
        obtain p' qs where ps': "ps' = p' # qs" using h(7) by (auto simp: list_all2_Cons1)
        have cap: "captured ps' (Suc d, r)" using h(5) by (simp add: captured_def ps' dr)
        have "q < 2 ^ 63" using h(3) "3.prems"(3) by (simp add: small_def)
        then have var: "variable_of (f' # ps') (int (length (fs_outervalues f))) = Some (Suc d, r)"
          using f' h(1,4) dr by (simp add: add_outer_def sint_register otOUTER_def otLOCAL_def)
        note new = outers_ok_add [OF h(7) "3.prems"(1) h(6) lex cap f' var]
        show ?thesis
          unfolding res capture_ok_def using new lex cap var f' grown_names [OF h(7)]
          by (simp add: add_outer_def)
      qed
    qed
  qed
qed simp

text \<open>What the compiler does with names, in any order: the functions open at the moment, the innermost
  first.\<close>

datatype name_op =
  Declare "sqchar list" | Capture "sqchar list" | EndScope int | EnterFunction | LeaveFunction

fun name_step :: "name_op \<Rightarrow> funcstate list \<Rightarrow> funcstate list" where
  "name_step (Declare name) (f # fs) = snd (PushLocalVariable (VString name) f) # fs"
| "name_step (Capture name) fs = snd (GetOuterVariable name fs)"
| "name_step (EndScope n) (f # fs) = SetStackSize n f # fs"
| "name_step EnterFunction fs = SQFuncState_new True # fs"
| "name_step LeaveFunction (f # g # fs) = g # fs"
| "name_step _ fs = fs"

lemma drop_locals_same:
  "fs_outervalues (drop_locals k f) = fs_outervalues f"
  "fs_vlocals (drop_locals k f) = take (length (fs_vlocals f) - k) (fs_vlocals f)"
  by (induction k arbitrary: f) (auto simp: drop_local_def Let_def butlast_conv_take min_def)

lemma take_diff_diff: "take (length xs - (length xs - k)) xs = take k xs"
  by (cases "k \<le> length xs") simp_all

lemma SetStackSize_same:
  "fs_outervalues (SetStackSize n f) = fs_outervalues f"
  "fs_vlocals (SetStackSize n f) = take (nat n) (fs_vlocals f)"
  by (simp_all only: SetStackSize_def drop_locals_same take_diff_diff)

definition within :: "nat \<Rightarrow> funcstate \<Rightarrow> bool" where
  "within n f \<longleftrightarrow> length (fs_vlocals f) \<le> n \<and> length (fs_outervalues f) \<le> n"

lemma GetOuterVariable_within:
  "\<forall>f \<in> set fs. within n f \<Longrightarrow> \<forall>f \<in> set (snd (GetOuterVariable name fs)). within (Suc n) f"
proof (induction name fs rule: GetOuterVariable.induct)
  case (3 name f p ps)
  let ?pos = "GetLocalVariable name p"
  have le: "within (Suc n) g" if "g \<in> set (f # p # ps)" for g using "3.prems" that by (auto simp: within_def)
  have new: "within (Suc n) (snd (add_outer name ty q f))" for ty q
    using "3.prems" by (simp add: within_def add_outer_def)
  have mark: "within (Suc n) (MarkLocalAsOuter ?pos p)" using le by (simp add: within_def MarkLocalAsOuter_def)
  have IH: "\<forall>g \<in> set (snd (GetOuterVariable name (p # ps))). within (Suc n) g"
    if "find_outer name (fs_outervalues f) 0 = -1" "?pos = -1"
    using "3.IH" [OF refl refl] that "3.prems" by simp
  show ?case
    using le new [of otLOCAL ?pos] new [of otOUTER "fst (GetOuterVariable name (p # ps))"] mark IH
    by (cases "GetOuterVariable name (p # ps)") (simp add: Let_def case_prod_beta)
qed (auto simp: within_def)

lemma outers_ok_head:
  "outers_ok (f # fs) \<Longrightarrow> fs_outervalues f' = fs_outervalues f \<Longrightarrow> outers_ok (f' # fs)"
  by (simp add: entry_ok_def)

lemma name_step_ok:
  assumes "outers_ok fs" "fs \<noteq> []" "\<forall>f \<in> set fs. within n f" "n < 2 ^ 63"
  shows "outers_ok (name_step a fs) \<and> name_step a fs \<noteq> [] \<and> (\<forall>f \<in> set (name_step a fs). within (Suc n) f)"
proof -
  obtain f gs where fs: "fs = f # gs" using assms(2) by (cases fs) auto
  show ?thesis
  proof (cases a)
    case (Capture name)
    have "\<forall>f \<in> set fs. small f" using assms(3,4) by (auto simp: small_def within_def)
    then have "capture_ok name fs (GetOuterVariable name fs)" by (rule GetOuterVariable_ok [OF assms(1,2)])
    then have "outers_ok (snd (GetOuterVariable name fs))" "snd (GetOuterVariable name fs) \<noteq> []"
      using assms(2) by (auto simp: capture_ok_def)
    with GetOuterVariable_within [OF assms(3)] Capture show ?thesis by simp
  next
    case (Declare name)
    have "outers_ok (snd (PushLocalVariable (VString name) f) # gs)"
      using assms(1) unfolding fs by (rule outers_ok_head) (simp add: PushLocalVariable_def Let_def)
    then show ?thesis
      using Declare assms(3) unfolding fs by (auto simp: PushLocalVariable_def Let_def within_def)
  next
    case (EndScope k)
    have "outers_ok (SetStackSize k f # gs)"
      using assms(1) unfolding fs by (rule outers_ok_head) (simp add: SetStackSize_same)
    then show ?thesis
      using EndScope assms(3) unfolding fs by (auto simp: SetStackSize_same within_def)
  next
    case EnterFunction
    then show ?thesis using assms(1-3) by (auto simp: SQFuncState_new_def within_def)
  next
    case LeaveFunction
    then show ?thesis using assms(1,3) unfolding fs by (cases gs) (auto simp: within_def)
  qed
qed

lemma name_steps_ok:
  assumes "length ops < 2 ^ 63"
  defines "fs \<equiv> fold name_step ops [SQFuncState_new False]"
  shows "outers_ok fs \<and> fs \<noteq> [] \<and> (\<forall>f \<in> set fs. within (length ops) f)"
  unfolding fs_def using assms(1)
proof (induction ops rule: rev_induct)
  case (snoc a ops)
  then show ?case using name_step_ok [of "fold name_step ops [SQFuncState_new False]" "length ops" a] by simp
qed (simp add: SQFuncState_new_def within_def)

text \<open>
  C5.  Captured variables.  However a program nests functions and declares, captures and leaves
  variables, \<^verbatim>\<open>GetOuterVariable\<close> answers -1 and changes nothing when no function around the
  innermost one declares the name, and otherwise gives an entry that leads, through the entries of the
  functions in between, to the innermost declaration of the name around the function, which is marked
  as captured; the names of all functions stay what they were.
\<close>

theorem outer_variables_resolve:
  assumes "length ops < 2 ^ 63" "fold name_step ops [SQFuncState_new False] = f # fs"
    and "GetOuterVariable name (f # fs) = (k, fs')"
  shows "map names_of fs' = map names_of (f # fs) \<and>
    (case lexical name (map names_of fs) of
       None \<Rightarrow> k = -1 \<and> fs' = f # fs
     | Some v \<Rightarrow> 0 \<le> k \<and> k < int (length (fs_outervalues (hd fs'))) \<and>
         variable_of fs' k = Some v \<and> captured (tl fs') v)"
proof -
  have "outers_ok (f # fs)" "\<forall>g \<in> set (f # fs). small g"
    using name_steps_ok [OF assms(1)] assms(1,2) by (auto simp: small_def within_def)
  then have "capture_ok name (f # fs) (k, fs')" using GetOuterVariable_ok [of "f # fs" name] assms(3) by simp
  then show ?thesis using grown_names [of "f # fs" fs'] by (auto simp: capture_ok_def split: option.splits)
qed

theorem outer_variables_resolve_witness:
  "variable_of (snd (GetOuterVariable [120] (fold name_step
     [Declare [120], Declare [121], Declare [120], EnterFunction, EnterFunction] [SQFuncState_new False]))) 0 =
   Some (1, 2)"
proof -
  let ?ops = "[Declare [120], Declare [121], Declare [120], EnterFunction, EnterFunction]"
  let ?fs = "fold name_step ?ops [SQFuncState_new False]"
  obtain f fs where fs: "?fs = f # fs" by simp
  obtain k fs' where r: "GetOuterVariable [120] (f # fs) = (k, fs')" by (metis surj_pair)
  have eq: "f = SQFuncState_new True"
    "fs = [SQFuncState_new True, fold (\<lambda>n f. snd (PushLocalVariable (VString n) f)) [[120], [121], [120]] (SQFuncState_new False)]"
    using fs by auto
  have "lexical [120] (map names_of fs) = Some (1, 2)"
    unfolding eq by (simp add: names_of_def SQFuncState_new_def PushLocalVariable_def Let_def last_decl_def upt_rec)
  with outer_variables_resolve [OF _ fs r] have v: "variable_of fs' k = Some (1, 2)" "k \<ge> 0"
    "k < int (length (fs_outervalues (hd fs')))" by simp_all
  have "k = 0" "fs' = snd (GetOuterVariable [120] (f # fs))"
    using r unfolding eq
    by (auto simp: SQFuncState_new_def PushLocalVariable_def Let_def GetLocalVariable_def add_outer_def
        split: if_splits prod.splits)
  then show ?thesis unfolding fs using v(1) by simp
qed

subsection \<open>Scopes\<close>

text \<open>The debug information \<^verbatim>\<open>SetStackSize\<close> records of a variable that goes out of scope.\<close>

definition ended :: "funcstate \<Rightarrow> sqlocalvarinfo \<Rightarrow> sqlocalvarinfo" where
  "ended f lv = lv\<lparr> lv_end_op := word_of_int (GetCurrentPos f) \<rparr>"

definition named :: "sqlocalvarinfo \<Rightarrow> bool" where
  "named lv \<longleftrightarrow> lv_name lv \<noteq> VNull"

lemma drop_local_snoc:
  assumes "fs_vlocals f = vs @ [v]"
  shows "fs_vlocals (drop_local f) = vs" "ended (drop_local f) = ended f"
    and "fs_localvarinfos (drop_local f) = fs_localvarinfos f @ (if named v then [ended f v] else [])"
    and "fs_outers (drop_local f) = fs_outers f - (if named v \<and> is_outer_local v then 1 else 0)"
  using assms by (auto simp: drop_local_def Let_def named_def ended_def GetCurrentPos_def fun_eq_iff)

lemma drop_locals_infos:
  "k \<le> length (fs_vlocals f) \<Longrightarrow>
   fs_localvarinfos (drop_locals k f) = fs_localvarinfos f @
     map (ended f) (filter named (rev (drop (length (fs_vlocals f) - k) (fs_vlocals f)))) \<and>
   fs_outers (drop_locals k f) = fs_outers f -
     int (length (filter (\<lambda>lv. named lv \<and> is_outer_local lv) (drop (length (fs_vlocals f) - k) (fs_vlocals f))))"
proof (induction k arbitrary: f)
  case (Suc k)
  then obtain vs v where v: "fs_vlocals f = vs @ [v]" by (cases "fs_vlocals f" rule: rev_cases) auto
  note d = drop_local_snoc [OF v]
  have "k \<le> length (fs_vlocals (drop_local f))" using Suc.prems v d(1) by simp
  from Suc.IH [OF this] show ?case using v d by auto
qed simp

definition declare_all :: "sqchar list list \<Rightarrow> funcstate \<Rightarrow> funcstate" where
  "declare_all names = fold (\<lambda>name f. snd (PushLocalVariable (VString name) f)) names"

definition declared :: "funcstate \<Rightarrow> nat \<Rightarrow> sqchar list \<Rightarrow> sqlocalvarinfo" where
  "declared f i name =
     \<lparr> lv_name = VString name, lv_start_op = word_of_int (GetCurrentPos f + 1), lv_end_op = 0,
       lv_pos = word_of_nat (length (fs_vlocals f) + i) \<rparr>"

lemma declare_all_snoc:
  "declare_all (names @ [name]) f = snd (PushLocalVariable (VString name) (declare_all names f))"
  by (simp add: declare_all_def)

lemma declare_all_eq:
  "fs_vlocals (declare_all names f) = fs_vlocals f @ map2 (declared f) [0..<length names] names \<and>
   GetCurrentPos (declare_all names f) = GetCurrentPos f \<and>
   fs_localvarinfos (declare_all names f) = fs_localvarinfos f"
proof (induction names rule: rev_induct)
  case (snoc name names)
  have g: "fs_vlocals (snd (PushLocalVariable v g)) =
      fs_vlocals g @ [\<lparr> lv_name = v, lv_start_op = word_of_int (GetCurrentPos g + 1), lv_end_op = 0,
        lv_pos = word_of_nat (length (fs_vlocals g)) \<rparr>]"
    "GetCurrentPos (snd (PushLocalVariable v g)) = GetCurrentPos g"
    "fs_localvarinfos (snd (PushLocalVariable v g)) = fs_localvarinfos g" for v g
    by (simp_all add: PushLocalVariable_def Let_def GetStackSize_def GetCurrentPos_def)
  from snoc show ?case by (simp add: declare_all_snoc g declared_def)
qed (simp add: declare_all_def)

lemma last_decl_append:
  "last_decl name (ns @ map VString names) =
     (case last_decl name (map VString names) of Some r \<Rightarrow> Some (length ns + r) | None \<Rightarrow> last_decl name ns)"
proof (induction names rule: rev_induct)
  case (snoc n names)
  have "last_decl name ((ns @ map VString names) @ [VString n]) =
      (case last_decl name (map VString names @ [VString n]) of Some r \<Rightarrow> Some (length ns + r) | None \<Rightarrow> last_decl name ns)"
    unfolding last_decl_snoc using snoc by simp
  then show ?case by simp
qed (simp add: last_decl_def)

text \<open>
  C8.  Scopes.  Inside a scope that declares some variables a name means its last declaration
  there, and otherwise what it meant before; ending the scope gives back exactly the registers, and so
  the meaning of every name, of before, and records each variable for the debugger, the last one
  first.
\<close>

theorem scope_restores_names:
  "GetLocalVariable name (declare_all names f) =
     (case last_decl name (map VString names) of
        Some r \<Rightarrow> GetStackSize f + int r | None \<Rightarrow> GetLocalVariable name f) \<and>
   fs_vlocals (SetStackSize (GetStackSize f) (declare_all names f)) = fs_vlocals f \<and>
   fs_localvarinfos (SetStackSize (GetStackSize f) (declare_all names f)) =
     fs_localvarinfos f @ rev (map2 (\<lambda>i name. ended f (declared f i name)) [0..<length names] names)"
proof (intro conjI)
  let ?g = "declare_all names f"
  let ?ds = "map2 (declared f) [0..<length names] names"
  have v: "fs_vlocals ?g = fs_vlocals f @ ?ds" and p: "ended ?g = ended f"
    and i: "fs_localvarinfos ?g = fs_localvarinfos f"
    using declare_all_eq [of names f] by (simp_all add: ended_def fun_eq_iff)
  have "map lv_name ?ds = map VString names"
    by (rule nth_equalityI) (simp_all add: declared_def)
  then have "names_of ?g = names_of f @ map VString names" by (simp add: names_of_def v)
  then show "GetLocalVariable name ?g = (case last_decl name (map VString names) of
      Some r \<Rightarrow> GetStackSize f + int r | None \<Rightarrow> GetLocalVariable name f)"
    by (auto simp: GetLocalVariable_eq last_decl_append GetStackSize_def names_of_def split: option.splits)
  show "fs_vlocals (SetStackSize (GetStackSize f) ?g) = fs_vlocals f"
    by (simp add: SetStackSize_same v GetStackSize_def)
  have "filter named (rev ?ds) = rev ?ds"
    by (rule filter_True) (auto simp: named_def declared_def)
  then show "fs_localvarinfos (SetStackSize (GetStackSize f) ?g) =
      fs_localvarinfos f @ rev (map2 (\<lambda>i name. ended f (declared f i name)) [0..<length names] names)"
    using drop_locals_infos [of "length names" ?g]
    by (simp add: SetStackSize_def GetStackSize_def v i p rev_map comp_def case_prod_beta)
qed

end
