(* ===== verification/Sq_Codegen_Correct.thy ===== *)
theory Sq_Codegen_Correct
  imports Sq_FuncState_Correct Sq_Compiler Sq_Execute Sq_Frames_Correct
begin

text \<open>
  The instructions the compiler emits: the end of a scope closes the captured variables, and the
  peephole optimiser of \<^verbatim>\<open>AddInstruction\<close> keeps what two neighbouring instructions do in the interpreter,
  but for the write of a temporary register.
\<close>

subsection \<open>The peephole optimiser\<close>

text \<open>Instructions in a row, without the jumps of the program counter.\<close>

primrec exec_code :: "nat \<Rightarrow> mach_par \<Rightarrow> sqinstruction list \<Rightarrow> machine \<Rightarrow> exec" where
  "exec_code fuel par [] m = Some (m, Next)"
| "exec_code fuel par (i # is) m =
     (case exec_instr fuel par i m of
        None \<Rightarrow> None
      | Some (m1, out) \<Rightarrow> (case out of Next \<Rightarrow> exec_code fuel par is m1 | _ \<Rightarrow> Some (m1, out)))"

lemma exec_code_one: "exec_code fuel par [i] m = exec_instr fuel par i m"
  by (simp split: option.splits outcome.splits prod.splits)

text \<open>What the optimiser makes of two instructions, with the write of the temporary register that it
  saves put back: before the merged instruction when the temporary was an operand, after it when it
  was the result.\<close>

definition merged_code :: "sqinstruction \<Rightarrow> sqinstruction \<Rightarrow> peep \<Rightarrow> sqinstruction list" where
  "merged_code pi i p =
     (case p of
        Merged p' \<Rightarrow> if i_op i \<in> {op_GET, op_PREPCALL, op_APPENDARRAY, op_EQ, op_NE} then [pi, p'] else [p']
      | MergedOnce p' \<Rightarrow> [p', i\<lparr> i_arg0 := i_arg0 pi, i_arg1 := ucast (i_arg0 i) \<rparr>]
      | Kept p' i' \<Rightarrow> [p', i']
      | Relined \<Rightarrow> [i])"

text \<open>Operands as the compiler writes them: registers and literals are not negative, registers fit in
  a byte, a null is loaded into one register, an operand is a register until the optimiser makes it a
  literal.  A result moved out of \<^verbatim>\<open>MOD\<close> is left out: on a division by zero that instruction leaves its
  target alone, which the optimiser changes.\<close>

definition emitted :: "sqinstruction \<Rightarrow> sqinstruction \<Rightarrow> bool" where
  "emitted pi i \<longleftrightarrow>
     i_op i \<noteq> op_JZ \<and> i_op i \<noteq> op_RETURN \<and> 0 \<le> arg1 i \<and>
     (i_op i \<in> {op_MOVE, op_GET} \<longrightarrow> arg1 i < 256) \<and>
     (i_op i = op_LOADNULLS \<longrightarrow> arg1 i = 1 \<and> 0 \<le> arg1 pi \<and> arg1 pi < 255) \<and>
     (i_op i \<in> {op_EQ, op_NE} \<longrightarrow> arg3 i = 0) \<and> (i_op i = op_APPENDARRAY \<longrightarrow> arg2 i = 0) \<and>
     (i_op i = op_MOVE \<longrightarrow> i_op pi \<noteq> op_MOD)"

lemmas arg_defs = arg0_def arg1_def arg2_def arg3_def

lemma uint_ucast_register: "0 \<le> sint (w :: 32 word) \<Longrightarrow> sint w < 256 \<Longrightarrow> uint (ucast w :: 8 word) = sint w"
proof -
  assume w: "0 \<le> sint w" "sint w < 256"
  have "uint (ucast w :: 8 word) = take_bit 8 (uint w)" by (simp add: unsigned_ucast_eq)
  also have "\<dots> = take_bit 8 (sint w)" by (simp add: sint_uint take_bit_signed_take_bit)
  also have "\<dots> = sint w" using w by (simp add: take_bit_int_eq_self)
  finally show ?thesis .
qed

text \<open>What the interpreter does with the instructions the optimiser merges.\<close>

lemma exec_loads:
  "i_op i = op_LOAD \<Longrightarrow> exec_instr fuel par i m = do { x \<leftarrow> literal m (arg1 i); set_next (arg0 i) x m }"
  "i_op i = op_LOADINT \<Longrightarrow> exec_instr fuel par i m = set_next (arg0 i) (OInteger (scast (i_arg1 i))) m"
  "i_op i = op_LOADFLOAT \<Longrightarrow> exec_instr fuel par i m = set_next (arg0 i) (OFloat (i_arg1 i)) m"
  "i_op i = op_LOADBOOL \<Longrightarrow> exec_instr fuel par i m = set_next (arg0 i) (OBool (arg1 i \<noteq> 0)) m"
  "i_op i = op_MOVE \<Longrightarrow> exec_instr fuel par i m = do { x \<leftarrow> STK m (arg1 i); set_next (arg0 i) x m }"
  "i_op i = op_LINE \<Longrightarrow> exec_instr fuel par i m = Some (m, Next)"
  "i_op i = op_LOADNULLS \<Longrightarrow> exec_instr fuel par i m =
     do { m1 \<leftarrow> load_nulls (nat (arg1 i)) (arg0 i) m; Some (m1, Next) }"
  "i_op i = op_DLOAD \<Longrightarrow> exec_instr fuel par i m = exec_load i m"
  "i_op i = op_DMOVE \<Longrightarrow> exec_instr fuel par i m = exec_load2 i m"
  by (simp_all add: exec_instr_def op_defs exec_load_def exec_load2_def exec_slot_def)

lemma exec_slots:
  "i_op i \<in> {op_PREPCALL, op_PREPCALLK, op_GETK, op_SET, op_NEWSLOT, op_GET} \<Longrightarrow>
     exec_instr fuel par i m = exec_slot fuel par i m"
  by (elim insertE emptyE) (simp_all add: exec_instr_def op_defs)

lemma exec_operators:
  "i_op i \<in> {op_EQ, op_NE, op_ADD, op_SUB, op_MUL, op_DIV, op_MOD, op_BITW} \<Longrightarrow>
     exec_instr fuel par i m = exec_operator par i m"
  by (elim insertE emptyE) (simp_all add: exec_instr_def op_defs)

lemma exec_others:
  "i_op i = op_SETOUTER \<Longrightarrow> exec_instr fuel par i m = exec_outer i m"
  "i_op i = op_APPENDARRAY \<Longrightarrow> exec_instr fuel par i m = exec_object par i m"
  by (simp_all add: exec_instr_def op_defs)

lemma STK_put_facts:
  assumes "STK_put m r x = Some m1"
  shows "STK m1 r = Some x" "literal m1 = literal m" "STK_put m1 r x = Some m1"
    "STK m1 s = None \<longleftrightarrow> STK m s = None" "s \<noteq> r \<Longrightarrow> STK m1 s = STK m s" "m_stackbase m1 = m_stackbase m"
  using assms
  by (auto simp: STK_put_def STK_def st_put_def st_get_def literal_def get_ci_def fun_eq_iff nth_list_update
      split: if_splits)

lemma STK_put_None: "STK_put m r x = None \<longleftrightarrow> STK m r = None"
  by (simp add: STK_put_def STK_def st_put_def st_get_def)

lemma STK_put_self: "STK m r = Some x \<Longrightarrow> STK_put m r x = Some m"
  by (auto simp: STK_put_def STK_def st_put_def st_get_def split: if_splits)

lemma STK_put_eq:
  "STK_put m r x = (if STK m r = None then None else
     Some (m\<lparr> m_stack := (m_stack m)\<lparr> vals := (vals (m_stack m))[nat (m_stackbase m + r) := x] \<rparr> \<rparr>))"
  by (simp add: STK_put_def STK_def st_put_def st_get_def)

lemma STK_put_commute:
  assumes "STK_put m r x = Some m1" "STK_put m1 s x = Some m2"
  shows "\<exists>m3. STK_put m s x = Some m3 \<and> STK m3 s = Some x \<and> STK_put m3 r x = Some m2"
proof -
  have valid: "STK m r \<noteq> None" "STK m s \<noteq> None"
    using assms STK_put_None [of m r x] STK_put_None [of m1 s x] STK_put_facts(4) [OF assms(1), of s] by auto
  obtain m3 where m3: "STK_put m s x = Some m3" using valid(2) STK_put_None [of m s x] by auto
  have "(vals (m_stack m))[nat (m_stackbase m + s) := x, nat (m_stackbase m + r) := x] =
      (vals (m_stack m))[nat (m_stackbase m + r) := x, nat (m_stackbase m + s) := x]"
    by (metis list_update_overwrite list_update_swap)
  then have "STK_put m3 r x = Some m2"
    using assms m3 valid STK_put_facts(4) [OF m3, of r] STK_put_facts(4) [OF assms(1), of s]
    by (auto simp: STK_put_eq split: if_splits)
  with m3 STK_put_facts(1) [OF m3] show ?thesis by blast
qed

lemma load_nulls_Suc: "load_nulls (Suc n) r m = do { m1 \<leftarrow> load_nulls n r m; STK_put m1 (r + int n) ONull }"
proof (induction n arbitrary: r m)
  case (Suc n)
  have "load_nulls (Suc (Suc n)) r m = do { m1 \<leftarrow> STK_put m r ONull; load_nulls (Suc n) (r + 1) m1 }" by simp
  also have "\<dots> = do { m1 \<leftarrow> STK_put m r ONull; m2 \<leftarrow> load_nulls n (r + 1) m1; STK_put m2 (r + 1 + int n) ONull }"
    unfolding Suc ..
  also have "\<dots> = do { m1 \<leftarrow> load_nulls (Suc n) r m; STK_put m1 (r + int (Suc n)) ONull }"
    by (simp only: load_nulls.simps Option.bind_assoc) (simp add: add.assoc)
  finally show ?case .
qed simp

lemma exec_code_two:
  "exec_code fuel par [i, j] m =
     (case exec_instr fuel par i m of
        Some (m1, Next) \<Rightarrow> exec_instr fuel par j m1 | r \<Rightarrow> r)"
  by (auto simp: exec_code_one split: option.splits outcome.splits prod.splits)

declare exec_code.simps [simp del]

lemma merge_loads:
  assumes "i_op pi = op_LOAD" "i_op i = op_LOAD" "0 \<le> arg1 i" "arg1 i < 256"
  shows "exec_code fuel par [pi, i] m =
    exec_instr fuel par (pi\<lparr> i_op := op_DLOAD, i_arg2 := i_arg0 i, i_arg3 := ucast (i_arg1 i) \<rparr>) m"
  using assms uint_ucast_register [of "i_arg1 i"]
  by (auto simp: exec_code_two exec_loads exec_load_def set_next_def op_defs arg_defs STK_put_facts(2) Let_def
      split: bind_splits)

lemma merge_moves:
  assumes "i_op pi = op_MOVE" "i_op i = op_MOVE" "0 \<le> arg1 i" "arg1 i < 256"
  shows "exec_code fuel par [pi, i] m =
    exec_instr fuel par (pi\<lparr> i_op := op_DMOVE, i_arg2 := i_arg0 i, i_arg3 := ucast (i_arg1 i) \<rparr>) m"
  using assms uint_ucast_register [of "i_arg1 i"]
  by (auto simp: exec_code_two exec_loads exec_load2_def set_next_def op_defs arg_defs Let_def split: bind_splits)

lemma merge_nulls:
  assumes "i_op pi = op_LOADNULLS" "i_op i = op_LOADNULLS" "arg1 i = 1" "0 \<le> arg1 pi" "arg1 pi < 255"
    and "arg0 pi + arg1 pi = arg0 i"
  shows "exec_code fuel par [pi, i] m = exec_instr fuel par (pi\<lparr> i_arg1 := i_arg1 pi + 1 \<rparr>) m"
proof -
  have "arg1 (pi\<lparr> i_arg1 := i_arg1 pi + 1 \<rparr>) = arg1 pi + 1"
    using assms(4,5) by (simp add: arg1_def signed_take_bit_int_eq_self sint_word_ariths(1))
  then have n: "nat (arg1 (pi\<lparr> i_arg1 := i_arg1 pi + 1 \<rparr>)) = Suc (nat (arg1 pi))" using assms(4) by simp
  have "arg0 (pi\<lparr> i_arg1 := i_arg1 pi + 1 \<rparr>) = arg0 pi" by (simp add: arg0_def)
  then show ?thesis
    using assms n by (auto simp: exec_code_two exec_loads load_nulls_Suc simp del: load_nulls.simps split: bind_splits)
      (auto split: bind_splits)
qed

text \<open>An operand that the previous instruction has loaded into a temporary register.\<close>

lemma exec_load_next:
  assumes "exec_instr fuel par pi m = Some (m1, out)" "i_op pi = op_LOAD"
  shows "out = Next" "\<exists>x. literal m1 (arg1 pi) = Some x \<and> STK m1 (arg0 pi) = Some x"
  using assms by (auto simp: exec_loads set_next_def STK_put_facts(1,2) split: bind_splits)

lemma merge_operand:
  assumes "i_op pi = op_LOAD"
    and "\<And>m1 x. literal m1 (arg1 pi) = Some x \<Longrightarrow> STK m1 (arg0 pi) = Some x \<Longrightarrow>
      exec_instr fuel par i m1 = exec_instr fuel par p' m1"
  shows "exec_code fuel par [pi, i] m = exec_code fuel par [pi, p'] m"
proof (cases "exec_instr fuel par pi m")
  case (Some r)
  obtain m1 out where r: "r = (m1, out)" by (cases r)
  with exec_load_next [OF _ assms(1)] Some obtain x where
    "out = Next" "literal m1 (arg1 pi) = Some x" "STK m1 (arg0 pi) = Some x" by metis
  with assms(2) [of m1 x] Some r show ?thesis by (simp add: exec_code_two)
qed (simp add: exec_code_two)

lemma merge_get:
  assumes "i_op pi = op_LOAD" "arg0 pi = arg2 i" "i_op i = op_GET" "0 \<le> arg1 i" "arg1 i < 256"
  shows "exec_code fuel par [pi, i] m =
    exec_code fuel par [pi, pi\<lparr> i_arg2 := ucast (i_arg1 i), i_op := op_GETK, i_arg0 := i_arg0 i \<rparr>] m"
  using assms uint_ucast_register [of "i_arg1 i"]
  by (intro merge_operand) (simp_all add: exec_slots exec_slot_def op_defs arg_defs Let_def)

lemma merge_prepcall:
  assumes "i_op pi = op_LOAD" "arg0 pi = arg1 i" "i_op i = op_PREPCALL"
  shows "exec_code fuel par [pi, i] m =
    exec_code fuel par
      [pi, pi\<lparr> i_op := op_PREPCALLK, i_arg0 := i_arg0 i, i_arg2 := i_arg2 i, i_arg3 := i_arg3 i \<rparr>] m"
  using assms by (intro merge_operand) (simp_all add: exec_slots exec_slot_def op_defs arg_defs Let_def)

lemma merge_equal:
  assumes "i_op pi = op_LOAD" "arg0 pi = arg1 i" "i_op i \<in> {op_EQ, op_NE}" "arg3 i = 0"
  shows "exec_code fuel par [pi, i] m =
    exec_code fuel par
      [pi, pi\<lparr> i_op := i_op i, i_arg0 := i_arg0 i, i_arg2 := i_arg2 i, i_arg3 := word_of_int MAX_FUNC_STACKSIZE \<rparr>] m"
  using assms
  by (intro merge_operand)
    (auto simp: exec_operators exec_operator_def cond_literal_def op_defs arg_defs Let_def MAX_FUNC_STACKSIZE_def)

text \<open>A value appended to an array.\<close>

definition append_kind :: "sqinstruction \<Rightarrow> int" where
  "append_kind pi = (if i_op pi = op_LOAD then 1 else if i_op pi = op_LOADINT then 2
     else if i_op pi = op_LOADBOOL then 4 else if i_op pi = op_LOADFLOAT then 3 else -1)"

lemma merge_append:
  assumes k: "append_kind pi \<noteq> -1" and r: "arg0 pi = arg1 i" and i: "i_op i = op_APPENDARRAY" "arg2 i = 0"
  shows "exec_code fuel par [pi, i] m =
    exec_code fuel par
      [pi, pi\<lparr> i_op := op_APPENDARRAY, i_arg0 := i_arg0 i, i_arg2 := word_of_int (append_kind pi),
              i_arg3 := word_of_int MAX_FUNC_STACKSIZE \<rparr>] m"
proof -
  let ?p = "pi\<lparr> i_op := op_APPENDARRAY, i_arg0 := i_arg0 i, i_arg2 := word_of_int (append_kind pi),
     i_arg3 := word_of_int MAX_FUNC_STACKSIZE \<rparr>"
  have load: "i_op pi \<in> {op_LOAD, op_LOADINT, op_LOADBOOL, op_LOADFLOAT}"
    using k by (auto simp: append_kind_def split: if_splits)
  have same: "append_value i m1 = append_value ?p m1 \<and> out = Next" if "exec_instr fuel par pi m = Some (m1, out)" for m1 out
    using load that i(2) r [symmetric]
    by (elim insertE emptyE)
      (auto simp: exec_loads append_value_def append_kind_def set_next_def op_defs STK_put_facts(1,2) arg_defs
        split: bind_splits)
  have "exec_instr fuel par i m1 = exec_instr fuel par ?p m1" if "exec_instr fuel par pi m = Some (m1, out)" for m1 out
    using same [OF that] i(1) by (simp add: exec_others(2) exec_object_def op_defs arg_defs)
  then show ?thesis using same by (auto simp: exec_code_two split: option.splits outcome.splits)
qed

text \<open>A result that the next instruction moves.\<close>

definition result_ops :: "8 word set" where
  "result_ops = {op_GET, op_ADD, op_SUB, op_MUL, op_DIV, op_BITW, op_LOADINT, op_LOADFLOAT, op_LOADBOOL, op_LOAD}"

lemma set_next_store: "set_next t x m = store t (Some (m, Some x))"
  by (simp add: set_next_def store_def)

lemma store_None: "store t None = None"
  by (simp add: store_def)

lemma result_stored:
  assumes "i_op pi \<in> result_ops"
  shows "\<exists>F. \<forall>t. STK m (uint t) \<noteq> None \<longrightarrow> exec_instr fuel par (pi\<lparr> i_arg0 := t \<rparr>) m = store (uint t) F"
proof -
  let ?a = "STK m (uint (i_arg2 pi))" and ?b = "STK m (sint (i_arg1 pi))"
  have load: ?thesis if "i_op pi = op_LOAD"
    by (rule exI [of _ "do { x \<leftarrow> literal m (sint (i_arg1 pi)); Some (m, Some x) }"])
      (use that in \<open>simp add: exec_loads arg_defs set_next_store store_None split: bind_split\<close>)
  have get: ?thesis if "i_op pi = op_GET"
    by (rule exI [of _ "do { self \<leftarrow> ?b; key \<leftarrow> ?a; exec_Get fuel par self key 0 (sint (i_arg1 pi)) m }"])
      (use that in \<open>simp add: exec_slots exec_slot_def op_defs arg_defs store_None split: bind_split\<close>)
  have bitw: ?thesis if "i_op pi = op_BITW"
    by (rule exI [of _ "do { a \<leftarrow> ?a; b \<leftarrow> ?b; op_result (m, BW_OP (bw_code (uint (i_arg3 pi))) a b) }"])
      (use that in \<open>simp add: exec_operators exec_operator_def op_defs arg_defs store_None split: bind_split\<close>)
  have arith: ?thesis if op: "i_op pi \<in> {op_ADD, op_SUB, op_MUL, op_DIV}"
  proof -
    have old: "exec_arith env (arith_code (i_op pi)) old a b st = exec_arith env (arith_code (i_op pi)) ONull a b st"
      for old a b st and env :: "machine vm_env"
      using op by (elim insertE emptyE) (simp_all add: exec_arith_def arith_code_def op_defs)
    have "exec_instr fuel par (pi\<lparr> i_arg0 := t \<rparr>) m = store (uint t)
        (do { a \<leftarrow> ?a; b \<leftarrow> ?b; op_result (exec_arith (mops par) (arith_code (i_op pi)) ONull a b m) })"
      if "STK m (uint t) \<noteq> None" for t
    proof -
      obtain y where y: "STK m (uint t) = Some y" using \<open>STK m (uint t) \<noteq> None\<close> by blast
      have ops: "i_op pi \<in> {0x11, 0x12, 0x13, 0x14, 0x15}" "i_op pi \<noteq> 0x0F" "i_op pi \<noteq> 0x10"
        using op by (auto simp: op_defs)
      have "exec_instr fuel par (pi\<lparr> i_arg0 := t \<rparr>) m = exec_operator par (pi\<lparr> i_arg0 := t \<rparr>) m"
        using op by (intro exec_operators) auto
      also have "\<dots> = store (uint t)
          (do { a \<leftarrow> ?a; b \<leftarrow> ?b; op_result (exec_arith (mops par) (arith_code (i_op pi)) ONull a b m) })"
        using ops y old [of _ y] by (auto simp: exec_operator_def arg_defs store_None Let_def split: bind_split)
      finally show ?thesis .
    qed
    then show ?thesis by blast
  qed
  have "?thesis" if "i_op pi \<in> {op_LOADINT, op_LOADFLOAT, op_LOADBOOL}"
    using that by (elim insertE emptyE) (auto simp: exec_loads arg_defs set_next_store intro!: exI)
  with load get bitw arith assms show ?thesis unfolding result_ops_def by blast
qed

lemma sint_ucast_register: "sint (ucast (w :: 8 word) :: 32 word) = uint w"
proof -
  have "uint w < 256" "- (2 ^ 31) \<le> uint w" using uint_lt2p [of w] order_trans [OF _ uint_ge_0 [of w]] by simp_all
  then show ?thesis by (simp add: sint_uint unsigned_ucast_eq take_bit_int_eq_self signed_take_bit_int_eq_self)
qed

lemma merge_result:
  assumes ops: "i_op pi \<in> result_ops" "i_op i = op_MOVE" and r: "arg0 pi = arg1 i"
    and valid: "STK m (arg0 pi) \<noteq> None" "STK m (arg0 i) \<noteq> None"
    and run: "exec_code fuel par [pi, i] m = Some res"
  shows "exec_code fuel par
    [pi\<lparr> i_arg0 := i_arg0 i \<rparr>, i\<lparr> i_arg0 := i_arg0 pi, i_arg1 := ucast (i_arg0 i) \<rparr>] m = Some res"
proof -
  obtain F where F: "\<And>t. STK m (uint t) \<noteq> None \<Longrightarrow> exec_instr fuel par (pi\<lparr> i_arg0 := t \<rparr>) m = store (uint t) F"
    using result_stored [OF ops(1)] by blast
  let ?p = "pi\<lparr> i_arg0 := i_arg0 i \<rparr>" and ?i = "i\<lparr> i_arg0 := i_arg0 pi, i_arg1 := ucast (i_arg0 i) \<rparr>"
  have "exec_instr fuel par (pi\<lparr> i_arg0 := i_arg0 pi \<rparr>) m = store (arg0 pi) F"
    using F valid(1) by (simp only: arg0_def)
  then have pi: "exec_instr fuel par pi m = store (arg0 pi) F" by simp
  have p: "exec_instr fuel par ?p m = store (arg0 i) F" using F valid(2) by (simp only: arg0_def)
  have i: "exec_instr fuel par i m1 = do { x \<leftarrow> STK m1 (arg0 pi); set_next (arg0 i) x m1 }" for m1
    using ops(2) r by (simp add: exec_loads)
  have i': "exec_instr fuel par ?i m1 = do { x \<leftarrow> STK m1 (arg0 i); set_next (arg0 pi) x m1 }" for m1
    using ops(2) by (simp add: exec_loads arg_defs sint_ucast_register)
  obtain m1 v where m1: "F = Some (m1, v)" using run pi by (cases F) (auto simp: exec_code_two store_None)
  show ?thesis
  proof (cases v)
    case None
    with m1 pi p run show ?thesis by (auto simp: exec_code_two store_def)
  next
    case (Some x)
    obtain m2 where m2: "STK_put m1 (arg0 pi) x = Some m2"
      using run pi m1 Some by (cases "STK_put m1 (arg0 pi) x") (auto simp: exec_code_two store_def)
    have "exec_instr fuel par i m2 = Some res" using run pi m1 Some m2 by (simp add: exec_code_two store_def)
    then obtain m3 where m3: "STK_put m2 (arg0 i) x = Some m3" "res = (m3, Next)"
      using i [of m2] STK_put_facts(1) [OF m2] by (auto simp: set_next_def split: bind_splits)
    from STK_put_commute [OF m2 m3(1)] obtain m4 where
      "STK_put m1 (arg0 i) x = Some m4" "STK m4 (arg0 i) = Some x" "STK_put m4 (arg0 pi) x = Some m3" by blast
    with m1 Some p i' [of m4] m3(2) show ?thesis by (simp add: exec_code_two store_def set_next_def)
  qed
qed

text \<open>An assignment whose value is already in its target.\<close>

definition keep_value :: "int \<Rightarrow> int \<Rightarrow> machine \<Rightarrow> bool \<Rightarrow> exec" where
  "keep_value target val m ok =
     (if \<not> ok then Some (m, Throw)
      else if target \<noteq> 0xFF then do { x \<leftarrow> STK m val; set_next target x m }
      else Some (m, Next))"

lemma keep_value_none: "keep_value t t m ok = Some res \<Longrightarrow> keep_value 0xFF t m ok = Some res"
  by (auto simp: keep_value_def set_next_def STK_put_self split: if_splits bind_splits)

lemma exec_assigns:
  "i_op i = op_SET \<Longrightarrow> exec_instr fuel par i m = do {
     self \<leftarrow> STK m (arg1 i); key \<leftarrow> STK m (arg2 i); val \<leftarrow> STK m (arg3 i);
     (m1, ok) \<leftarrow> exec_Set fuel par self key val (arg1 i) m; keep_value (arg0 i) (arg3 i) m1 ok }"
  "i_op i = op_NEWSLOT \<Longrightarrow> exec_instr fuel par i m = do {
     self \<leftarrow> STK m (arg1 i); key \<leftarrow> STK m (arg2 i); val \<leftarrow> STK m (arg3 i);
     (m1, ok) \<leftarrow> vm_NewSlot (mp_vm par) m self key val False; keep_value (arg0 i) (arg3 i) m1 ok }"
  "i_op i = op_SETOUTER \<Longrightarrow> exec_instr fuel par i m = do {
     a \<leftarrow> outer_of m (arg1 i); x \<leftarrow> STK m (arg2 i); m1 \<leftarrow> outer_write m a x;
     keep_value (arg0 i) (arg2 i) m1 True }"
  by (simp_all add: exec_slots exec_others exec_slot_def exec_outer_def op_defs keep_value_def cong: Option.bind_cong)

lemma merge_assign:
  assumes "i_op i \<in> {op_SET, op_NEWSLOT} \<and> arg0 i = arg3 i \<or> i_op i = op_SETOUTER \<and> arg0 i = arg2 i"
    and run: "exec_instr fuel par i m = Some res"
  shows "exec_instr fuel par (i\<lparr> i_arg0 := 0xFF \<rparr>) m = Some res"
proof -
  have args: "arg0 (i\<lparr> i_arg0 := 0xFF \<rparr>) = 0xFF" "arg1 (i\<lparr> i_arg0 := 0xFF \<rparr>) = arg1 i"
    "arg2 (i\<lparr> i_arg0 := 0xFF \<rparr>) = arg2 i" "arg3 (i\<lparr> i_arg0 := 0xFF \<rparr>) = arg3 i"
    by (simp_all add: arg_defs)
  consider "i_op i = op_SET" "arg0 i = arg3 i" | "i_op i = op_NEWSLOT" "arg0 i = arg3 i"
    | "i_op i = op_SETOUTER" "arg0 i = arg2 i" using assms(1) by blast
  then show ?thesis
  proof cases
    case 1
    with run show ?thesis
      by (auto simp: exec_assigns(1) args bind_eq_Some_conv intro: keep_value_none)
  next
    case 2
    with run show ?thesis
      by (auto simp: exec_assigns(2) args bind_eq_Some_conv intro: keep_value_none)
  next
    case 3
    with run show ?thesis
      by (auto simp: exec_assigns(3) args bind_eq_Some_conv intro: keep_value_none)
  qed
qed


definition three_registers :: "sqobject \<Rightarrow> sqobject \<Rightarrow> sqobject \<Rightarrow> machine" where
  "three_registers x y z = empty_machine\<lparr> m_stack := \<lparr> vals = [x, y, z], allocated = 3 \<rparr> \<rparr>"

lemma three_registers_simps [simp]:
  "STK (three_registers x y z) 0 = Some x" "STK (three_registers x y z) 1 = Some y"
  "STK (three_registers x y z) 2 = Some z"
  "STK_put (three_registers x y z) 0 v = Some (three_registers v y z)"
  "STK_put (three_registers x y z) 1 v = Some (three_registers x v z)"
  "STK_put (three_registers x y z) 2 v = Some (three_registers x y v)"
  by (simp_all add: STK_def STK_put_def st_get_def st_put_def three_registers_def empty_machine_def numeral_2_eq_2)

lemma instr_fields [simp]:
  "i_op (instr op a b c d) = op" "i_arg0 (instr op a b c d) = word_of_int a" "i_arg1 (instr op a b c d) = word_of_int b"
  "i_arg2 (instr op a b c d) = word_of_int c" "i_arg3 (instr op a b c d) = word_of_int d"
  by (simp_all add: instr_def)


text \<open>Unlike the merges of an operand, the merge of a moved result does not ask whether the register
  of the result is a variable: a variable that is declared by the first instruction and read by the second,
  \<^verbatim>\<open>local a = 5, b = a\<close>, stays uninitialised.\<close>

definition one_local :: funcstate where
  "one_local = snd (PushLocalVariable (VString [98]) (snd (PushLocalVariable (VString [97]) (SQFuncState_new False))))"

theorem moved_result_skips_variable:
  "IsLocal 0 one_local"
  "peephole one_local (instr op_LOADINT 0 5 0 0) (instr op_MOVE 1 0 0 0) = MergedOnce (instr op_LOADINT 1 5 0 0)"
  "exec_code fuel par [instr op_LOADINT 0 5 0 0, instr op_MOVE 1 0 0 0] (three_registers ONull ONull ONull) =
     Some (three_registers (OInteger 5) (OInteger 5) ONull, Next)"
  "exec_code fuel par [instr op_LOADINT 1 5 0 0] (three_registers ONull ONull ONull) =
     Some (three_registers ONull (OInteger 5) ONull, Next)"
  by (simp_all add: one_local_def PushLocalVariable_def IsLocal_def SQFuncState_new_def GetStackSize_def Let_def
      peephole_def peep_move_def op_defs exec_code_two exec_code_one exec_loads [unfolded op_defs] set_next_def arg_defs)

text \<open>A conditional jump merges with a comparison before it whatever register it tests.\<close>

theorem jump_ignores_register:
  "peephole f (instr op_CMP t a b c) (instr op_JZ r d 0 0) = peephole f (instr op_CMP t a b c) (instr op_JZ s d 0 0)"
  if "sint (word_of_int a :: 32 word) < 0xFF"
  using that by (simp add: peephole_def op_defs Let_def)

subsection \<open>The end of a scope\<close>

text \<open>A variable that a function inside has captured.\<close>

definition has_captured :: "sqlocalvarinfo list \<Rightarrow> bool" where
  "has_captured vs \<longleftrightarrow> (\<exists>lv \<in> set vs. named lv \<and> is_outer_local lv)"

lemma AddInstr_CLOSE:
  "on_fs (AddInstr (instr op_CLOSE 0 n 0 0)) s =
     (Inr (), s\<lparr> cc_fs := (cc_fs s)\<lparr> fs_instructions := fs_instructions (cc_fs s) @ [instr op_CLOSE 0 n 0 0],
                                     fs_optimization := True \<rparr> \<rparr>)"
  by (auto simp: on_fs_def AddInstr_def peephole_def op_defs Let_def)

lemma SetStackSize_instructions: "fs_instructions (SetStackSize n f) = fs_instructions f"
proof -
  have "fs_instructions (drop_locals k f) = fs_instructions f" for k f
    by (induction k arbitrary: f) (auto simp: drop_local_def Let_def)
  then show ?thesis by (simp add: SetStackSize_def)
qed

lemma SetStackSize_outers:
  assumes "0 \<le> n" "n \<le> GetStackSize f"
  shows "fs_outers (SetStackSize n f) \<noteq> fs_outers f \<longleftrightarrow> has_captured (drop (nat n) (fs_vlocals f))"
proof -
  have "length (fs_vlocals f) - (length (fs_vlocals f) - nat n) = nat n"
    using assms by (simp add: GetStackSize_def nat_le_iff)
  then show ?thesis
    using drop_locals_infos [of "length (fs_vlocals f) - nat n" f]
    by (auto simp: SetStackSize_def has_captured_def filter_empty_conv)
qed

text \<open>
  C7.  The end of a scope takes exactly the registers of the scope away, gives the scope around
  back, and emits the instruction that closes captured variables exactly when the scope declared a
  variable that some function inside has captured.
\<close>

theorem scope_end_closes_captured:
  assumes "0 \<le> scope_size s" "scope_size s \<le> GetStackSize (cc_fs s)"
  shows "\<exists>s'. END_SCOPE outer_scope s = (Inr (), s') \<and> cc_scope s' = outer_scope \<and>
    fs_vlocals (cc_fs s') = take (nat (scope_size s)) (fs_vlocals (cc_fs s)) \<and>
    fs_instructions (cc_fs s') = fs_instructions (cc_fs s) @
      (if has_captured (drop (nat (scope_size s)) (fs_vlocals (cc_fs s)))
       then [instr op_CLOSE 0 (scope_size s) 0 0] else [])"
proof (cases "scope_grown s")
  case True
  then show ?thesis
    using SetStackSize_outers [OF assms]
    by (auto simp: END_SCOPE_def c_bind_def c_then_def c_if_def c_with_def c_get_def c_upd_def c_ret_def fs_get_def
        fs_upd_def emit_def AddInstruction_def AddInstr_CLOSE SetStackSize_same SetStackSize_instructions
        scope_size_def)
next
  case False
  then have "nat (scope_size s) = length (fs_vlocals (cc_fs s))"
    by (simp add: scope_grown_def GetStackSize_def)
  with False show ?thesis
    by (simp add: END_SCOPE_def c_bind_def c_then_def c_if_def c_with_def c_get_def c_upd_def c_ret_def fs_get_def
        has_captured_def)
qed

definition closing :: "lexer \<Rightarrow> expstate \<Rightarrow> compiler" where
  "closing l es = (compile_start l es [] False Map.empty 0)\<lparr>
     cc_fs := MarkLocalAsOuter 0 one_local, cc_scope := \<lparr> sc_outers = 0, sc_stacksize = 0 \<rparr> \<rparr>"

theorem scope_end_closes_captured_witness:
  "\<forall>l es. \<exists>s'. END_SCOPE \<lparr> sc_outers = 0, sc_stacksize = 0 \<rparr> (closing l es) = (Inr (), s') \<and>
     fs_instructions (cc_fs s') = [instr op_CLOSE 0 0 0 0] \<and> fs_vlocals (cc_fs s') = []"
proof (intro allI)
  fix l es
  have vs: "fs_vlocals (cc_fs (closing l es)) =
      [\<lparr> lv_name = VString [97], lv_start_op = 0, lv_end_op = UINT_MINUS_ONE, lv_pos = 0 \<rparr>,
       \<lparr> lv_name = VString [98], lv_start_op = 0, lv_end_op = 0, lv_pos = 1 \<rparr>]"
    and is0: "fs_instructions (cc_fs (closing l es)) = []" and n: "scope_size (closing l es) = 0"
    by (simp_all add: closing_def MarkLocalAsOuter_def one_local_def PushLocalVariable_def SQFuncState_new_def
        GetStackSize_def GetCurrentPos_def Let_def scope_size_def)
  have "has_captured (fs_vlocals (cc_fs (closing l es)))"
    unfolding vs by (simp add: has_captured_def named_def is_outer_local_def)
  with scope_end_closes_captured [of "closing l es" "\<lparr> sc_outers = 0, sc_stacksize = 0 \<rparr>"] n is0
  show "\<exists>s'. END_SCOPE \<lparr> sc_outers = 0, sc_stacksize = 0 \<rparr> (closing l es) = (Inr (), s') \<and>
     fs_instructions (cc_fs s') = [instr op_CLOSE 0 0 0 0] \<and> fs_vlocals (cc_fs s') = []"
    by (auto simp: GetStackSize_def)
qed

end
